(* ===== verification/Prelude.thy ===== *)
theory Prelude
  imports Main "HOL-Library.AList" "HOL-Library.List_Lexorder" "HOL-Library.Char_ord"
    "HOL-Library.Product_Lexorder" "HOL-Library.Sublist"
begin

text \<open>
  What every component shares: Python dictionaries as association lists in insertion order,
  JSON-like Python values with their truth value, errors as values, the string functions the
  code calls, and the generic lemmas on them that the component proofs use. The collections
  \<open>py_eval\<close> and \<open>dict_wf\<close> gather the equations that evaluate a Python operation and the
  facts that keep a dictionary's keys distinct.
\<close>

named_theorems py_eval "equations that evaluate Python operations"
named_theorems dict_wf "operations that keep the keys of a dictionary distinct"

section \<open>Errors\<close>

text \<open>The exceptions the modelled code raises or lets through, as values.\<close>

datatype py_error =
    TypeError
  | KeyError
  | AttributeError
  | IndexError
  | UnboundLocalError
  | ValueError string
  | IntegrityError
  | RecursionError
  | RuntimeError string
  | HTTPException nat string

type_synonym 'a result = "py_error + 'a"

definition rbind :: "'a result \<Rightarrow> ('a \<Rightarrow> 'b result) \<Rightarrow> 'b result" where
  "rbind r f = (case r of Inl e \<Rightarrow> Inl e | Inr x \<Rightarrow> f x)"

lemma rbind_simps [simp, py_eval]:
  "rbind (Inl e) f = Inl e"
  "rbind (Inr x) f = f x"
  by (simp_all add: rbind_def)

lemma rbind_Inr_iff: "rbind r f = Inr y \<longleftrightarrow> (\<exists>x. r = Inr x \<and> f x = Inr y)"
  by (cases r) auto

lemma rbind_Inl_iff: "rbind r f = Inl e \<longleftrightarrow> r = Inl e \<or> (\<exists>x. r = Inr x \<and> f x = Inl e)"
  by (cases r) auto

text \<open>A \<open>for\<close> loop whose body may raise: the first error stops it.\<close>

fun rmap :: "('a \<Rightarrow> 'b result) \<Rightarrow> 'a list \<Rightarrow> 'b list result" where
  "rmap f [] = Inr []"
| "rmap f (x # xs) = rbind (f x) (\<lambda>y. rbind (rmap f xs) (\<lambda>ys. Inr (y # ys)))"

lemma rmap_Inr_length: "rmap f xs = Inr ys \<Longrightarrow> length ys = length xs"
  by (induction xs arbitrary: ys) (auto simp: rbind_Inr_iff)

lemma rmap_total: "(\<And>x. x \<in> set xs \<Longrightarrow> f x = Inr (g x)) \<Longrightarrow> rmap f xs = Inr (map g xs)"
  by (induction xs) auto

fun rconcat :: "('a \<Rightarrow> 'b list result) \<Rightarrow> 'a list \<Rightarrow> 'b list result" where
  "rconcat f [] = Inr []"
| "rconcat f (x # xs) = rbind (f x) (\<lambda>ys. rbind (rconcat f xs) (\<lambda>zs. Inr (ys @ zs)))"

lemma rconcat_total: "(\<And>x. x \<in> set xs \<Longrightarrow> f x = Inr (g x)) \<Longrightarrow> rconcat f xs = Inr (concat (map g xs))"
  by (induction xs) auto

lemma rconcat_Inr:
  "rconcat f xs = Inr zs \<Longrightarrow> \<exists>g. (\<forall>x \<in> set xs. f x = Inr (g x)) \<and> zs = concat (map g xs)"
proof -
  assume r: "rconcat f xs = Inr zs"
  have "f x = Inr (projr (f x))" if "x \<in> set xs" for x
    using r that by (induction xs arbitrary: zs) (auto simp: rbind_Inr_iff)
  with rconcat_total [of xs f "\<lambda>x. projr (f x)"] r show ?thesis
    by (intro exI [of _ "\<lambda>x. projr (f x)"]) auto
qed

section \<open>Dictionaries\<close>

text \<open>
  A Python \<open>dict\<close> keeps its keys in insertion order: an assignment to a key that is there
  replaces its value in place, a new key goes to the end. \<open>AList.update\<close> does exactly that.
\<close>

type_synonym ('k, 'v) pydict = "('k \<times> 'v) list"

abbreviation dget :: "('k, 'v) pydict \<Rightarrow> 'k \<Rightarrow> 'v option" where
  "dget d k \<equiv> map_of d k"

abbreviation dset :: "('k, 'v) pydict \<Rightarrow> 'k \<Rightarrow> 'v \<Rightarrow> ('k, 'v) pydict" where
  "dset d k v \<equiv> AList.update k v d"

abbreviation dpop :: "('k, 'v) pydict \<Rightarrow> 'k \<Rightarrow> ('k, 'v) pydict" where
  "dpop d k \<equiv> AList.delete k d"

abbreviation dkeys :: "('k, 'v) pydict \<Rightarrow> 'k list" where
  "dkeys d \<equiv> map fst d"

abbreviation dvalues :: "('k, 'v) pydict \<Rightarrow> 'v list" where
  "dvalues d \<equiv> map snd d"

definition wf_dict :: "('k, 'v) pydict \<Rightarrow> bool" where
  "wf_dict d \<longleftrightarrow> distinct (dkeys d)"

text \<open>\<open>d.get(k, default)\<close>\<close>

definition dget_or :: "('k, 'v) pydict \<Rightarrow> 'k \<Rightarrow> 'v \<Rightarrow> 'v" where
  "dget_or d k v = (case dget d k of None \<Rightarrow> v | Some x \<Rightarrow> x)"

text \<open>A literal \<open>{**a, **b}\<close> or \<open>a.update(b)\<close>.\<close>

definition dmerge :: "('k, 'v) pydict \<Rightarrow> ('k, 'v) pydict \<Rightarrow> ('k, 'v) pydict" where
  "dmerge a b = foldl (\<lambda>d kv. dset d (fst kv) (snd kv)) a b"

lemma wf_dict_Nil [simp, dict_wf]: "wf_dict []"
  by (simp add: wf_dict_def)

lemma wf_dict_Cons [simp]: "wf_dict ((k, v) # d) \<longleftrightarrow> k \<notin> fst ` set d \<and> wf_dict d"
  by (auto simp: wf_dict_def)

lemma wf_dict_dset [simp, dict_wf]: "wf_dict d \<Longrightarrow> wf_dict (dset d k v)"
  by (simp add: wf_dict_def distinct_update)

lemma wf_dict_dpop [simp, dict_wf]: "wf_dict d \<Longrightarrow> wf_dict (dpop d k)"
  by (simp add: wf_dict_def distinct_delete)

lemma dget_dset [simp]: "dget (dset d k v) k' = (if k' = k then Some v else dget d k')"
  by (simp add: update_conv)

lemma dget_dpop [simp]: "dget (dpop d k) k' = (if k' = k then None else dget d k')"
  by (simp add: delete_conv)

lemma dkeys_dset_set [simp]: "fst ` set (dset d k v) = insert k (fst ` set d)"
  by (induction d) auto

lemma dget_None_iff: "dget d k = None \<longleftrightarrow> k \<notin> fst ` set d"
  by (rule map_of_eq_None_iff)

lemma dget_Some_in: "dget d k = Some v \<Longrightarrow> (k, v) \<in> set d"
  by (rule map_of_SomeD)

lemma wf_dict_dget: "wf_dict d \<Longrightarrow> (k, v) \<in> set d \<Longrightarrow> dget d k = Some v"
  by (simp add: wf_dict_def)

lemma dset_same: "dget d k = Some v \<Longrightarrow> dset d k v = d"
  by (induction d) (auto split: if_splits)

lemma dset_fresh: "dget d k = None \<Longrightarrow> dset d k v = d @ [(k, v)]"
  by (induction d) (auto split: if_splits)

lemma dget_or_dset [simp]: "dget_or (dset m k v) k' x = (if k' = k then v else dget_or m k' x)"
  by (simp add: dget_or_def)

lemma dget_or_dpop [simp]: "dget_or (dpop m k) k' x = (if k' = k then x else dget_or m k' x)"
  by (simp add: dget_or_def)

lemma dget_or_absent: "k \<notin> fst ` set m \<Longrightarrow> dget_or m k x = x"
  by (simp add: dget_or_def dget_None_iff [THEN iffD2])

lemma dkeys_dpop_set [simp]: "fst ` set (dpop m k) = fst ` set m - {k}"
  by (induction m) auto

lemma dget_map_value: "dget (map (\<lambda>kv. (fst kv, f (snd kv))) d) k = map_option f (dget d k)"
  by (induction d) auto

lemma foldl_dset_dget:
  "dget (foldl (\<lambda>d kv. dset d (fst kv) (snd kv)) a b) k =
     (case dget (rev b) k of None \<Rightarrow> dget a k | Some v \<Rightarrow> Some v)"
  by (induction b arbitrary: a rule: rev_induct) (auto split: option.splits)

lemma map_of_rev_wf: "wf_dict d \<Longrightarrow> map_of (rev d) = map_of d"
  unfolding wf_dict_def by (rule map_of_inject_set [THEN iffD2]) (simp_all add: rev_map [symmetric])

lemma dget_dmerge:
  "wf_dict b \<Longrightarrow> dget (dmerge a b) k = (case dget b k of None \<Rightarrow> dget a k | Some v \<Rightarrow> Some v)"
  by (simp add: dmerge_def foldl_dset_dget map_of_rev_wf)

lemma wf_dict_dmerge [simp, dict_wf]: "wf_dict a \<Longrightarrow> wf_dict (dmerge a b)"
  unfolding dmerge_def by (induction b arbitrary: a) auto

section \<open>Values\<close>

text \<open>
  The values of JSON payloads and of dictionaries of unknown shape. A dictionary's keys are
  strings, as JSON's are. Floating-point numbers do not occur in the modelled payloads.
\<close>

datatype pyval =
    VNone
  | VBool bool
  | VInt int
  | VStr string
  | VList "pyval list"
  | VDict "(string \<times> pyval) list"

type_synonym dict = "(string, pyval) pydict"

text \<open>\<open>bool(v)\<close>\<close>

fun truthy :: "pyval \<Rightarrow> bool" where
  "truthy VNone = False"
| "truthy (VBool b) = b"
| "truthy (VInt i) = (i \<noteq> 0)"
| "truthy (VStr s) = (s \<noteq> [])"
| "truthy (VList xs) = (xs \<noteq> [])"
| "truthy (VDict d) = (d \<noteq> [])"

text \<open>Python's \<open>a or b\<close> on values.\<close>

definition py_or :: "pyval \<Rightarrow> pyval \<Rightarrow> pyval" where
  "py_or a b = (if truthy a then a else b)"

lemma truthy_py_or [simp, py_eval]: "truthy (py_or a b) \<longleftrightarrow> truthy a \<or> truthy b"
  by (simp add: py_or_def)

text \<open>\<open>d.get(k)\<close> on a dictionary of values: \<open>None\<close> where the key is missing.\<close>

definition vget :: "dict \<Rightarrow> string \<Rightarrow> pyval" where
  "vget d k = (case dget d k of None \<Rightarrow> VNone | Some v \<Rightarrow> v)"

lemma vget_simps [simp, py_eval]:
  "vget [] k = VNone"
  "vget ((k', v) # d) k = (if k = k' then v else vget d k)"
  by (simp_all add: vget_def)

lemma vget_dset [simp]: "vget (dset d k v) k' = (if k' = k then v else vget d k')"
  by (simp add: vget_def)

fun is_dict :: "pyval \<Rightarrow> bool" where
  "is_dict (VDict _) = True"
| "is_dict _ = False"

fun is_str :: "pyval \<Rightarrow> bool" where
  "is_str (VStr _) = True"
| "is_str _ = False"

fun is_list :: "pyval \<Rightarrow> bool" where
  "is_list (VList _) = True"
| "is_list _ = False"

text \<open>\<open>k in v\<close> for a string \<open>k\<close>: a key of a dictionary, an element of a list, a substring.\<close>

fun py_in :: "string \<Rightarrow> pyval \<Rightarrow> bool result" where
  "py_in k (VDict d) = Inr (k \<in> fst ` set d)"
| "py_in k (VList xs) = Inr (VStr k \<in> set xs)"
| "py_in k (VStr s) = Inr (sublist k s)"
| "py_in k _ = Inl TypeError"

text \<open>\<open>v[k]\<close> and \<open>v[k] = x\<close> for a string \<open>k\<close>.\<close>

fun py_getitem :: "pyval \<Rightarrow> string \<Rightarrow> pyval result" where
  "py_getitem (VDict d) k = (case dget d k of None \<Rightarrow> Inl KeyError | Some v \<Rightarrow> Inr v)"
| "py_getitem _ k = Inl TypeError"

fun py_setitem :: "pyval \<Rightarrow> string \<Rightarrow> pyval \<Rightarrow> pyval result" where
  "py_setitem (VDict d) k x = Inr (VDict (dset d k x))"
| "py_setitem _ k x = Inl TypeError"

text \<open>\<open>v.get(k)\<close>: only a dictionary has the method.\<close>

fun py_get :: "pyval \<Rightarrow> string \<Rightarrow> pyval result" where
  "py_get (VDict d) k = Inr (vget d k)"
| "py_get _ k = Inl AttributeError"

section \<open>Strings\<close>

text \<open>
  Strings are lists of characters, those with a code below 256; the case mapping is that of Latin-1:
  the letters, and 192 to 222 without the multiplication sign 215.
\<close>

definition lower_char :: "char \<Rightarrow> char" where
  "lower_char c =
     (let n = (of_char c :: nat)
      in if 65 \<le> n \<and> n \<le> 90 \<or> 192 \<le> n \<and> n \<le> 222 \<and> n \<noteq> 215 then char_of (n + 32) else c)"

definition py_lower :: "string \<Rightarrow> string" where
  "py_lower s = map lower_char s"

text \<open>Whitespace as \<open>str.strip\<close> and \<open>\\s\<close> of a pattern see it, among the characters below 256.\<close>

definition is_space :: "char \<Rightarrow> bool" where
  "is_space c \<longleftrightarrow> (of_char c :: nat) \<in> {9, 10, 11, 12, 13, 28, 29, 30, 31, 32, 133, 160}"

definition py_strip :: "string \<Rightarrow> string" where
  "py_strip s = rev (dropWhile is_space (rev (dropWhile is_space s)))"

text \<open>An optional string that is neither missing nor empty.\<close>

definition given :: "string option \<Rightarrow> bool" where
  "given u \<longleftrightarrow> (case u of None \<Rightarrow> False | Some s \<Rightarrow> s \<noteq> [])"

text \<open>\<open>s.split(c)\<close> for a single character and \<open>sep.join(parts)\<close>.\<close>

fun py_split :: "char \<Rightarrow> string \<Rightarrow> string list" where
  "py_split c [] = [[]]"
| "py_split c (x # xs) =
     (if x = c then [] # py_split c xs
      else (case py_split c xs of [] \<Rightarrow> [[x]] | y # ys \<Rightarrow> (x # y) # ys))"

fun py_join :: "string \<Rightarrow> string list \<Rightarrow> string" where
  "py_join sep [] = []"
| "py_join sep [s] = s"
| "py_join sep (s # ss) = s @ sep @ py_join sep ss"

lemma py_split_nonempty [simp]: "py_split c s \<noteq> []"
  by (cases s) (auto split: list.split)

lemma py_join_split [simp]: "py_join [c] (py_split c s) = s"
proof (induction s)
  case (Cons x s)
  obtain y ys where y: "py_split c s = y # ys" by (cases "py_split c s") auto
  with Cons show ?case by (cases ys) auto
qed simp

lemma py_split_no_sep: "\<forall>p \<in> set (py_split c s). c \<notin> set p"
  by (induction s) (auto split: list.split)

text \<open>\<open>for x in v\<close>: a list's elements, a dictionary's keys, a string's characters.\<close>

fun py_iter :: "pyval \<Rightarrow> pyval list result" where
  "py_iter (VList xs) = Inr xs"
| "py_iter (VDict d) = Inr (map (\<lambda>kv. VStr (fst kv)) d)"
| "py_iter (VStr s) = Inr (map (\<lambda>c. VStr [c]) s)"
| "py_iter _ = Inl TypeError"

section \<open>Rows\<close>

text \<open>
  A query without \<open>ORDER BY\<close> reads a table in the order of its list, the order of insertion.
  \<open>order_by(c.desc())\<close> is a stable sort on the negated column.
\<close>

definition order_desc :: "('a \<Rightarrow> int) \<Rightarrow> 'a list \<Rightarrow> 'a list" where
  "order_desc c rows = sort_key (\<lambda>r. - c r) rows"

lemma set_order_desc [simp]: "set (order_desc c rows) = set rows"
  by (simp add: order_desc_def)

lemma length_order_desc [simp]: "length (order_desc c rows) = length rows"
  by (simp add: order_desc_def)

lemma order_desc_eq_Nil [simp]: "order_desc c rows = [] \<longleftrightarrow> rows = []"
  by (metis length_order_desc length_0_conv)

lemma distinct_order_desc [simp]: "distinct (order_desc c rows) = distinct rows"
  by (simp add: order_desc_def)

text \<open>\<open>offset(skip).limit(limit)\<close>, either of which may be absent.\<close>

definition paginate :: "nat option \<Rightarrow> nat option \<Rightarrow> 'a list \<Rightarrow> 'a list" where
  "paginate skip limit rows =
     (let r = (case skip of None \<Rightarrow> rows | Some s \<Rightarrow> drop s rows)
      in case limit of None \<Rightarrow> r | Some l \<Rightarrow> take l r)"

lemma set_paginate: "set (paginate skip limit rows) \<subseteq> set rows"
  by (auto simp: paginate_def Let_def split: option.splits dest: in_set_dropD in_set_takeD)

lemma length_paginate: "limit = Some l \<Longrightarrow> length (paginate skip limit rows) \<le> l"
  by (simp add: paginate_def Let_def)

lemma find_None_filter: "List.find P xs = None \<longleftrightarrow> filter P xs = []"
  by (induction xs) auto

lemma find_Some_iff_hd: "List.find P xs = (case filter P xs of [] \<Rightarrow> None | x # _ \<Rightarrow> Some x)"
  by (induction xs) auto

lemma find_SomeD: "List.find P xs = Some x \<Longrightarrow> x \<in> set xs \<and> P x"
  by (induction xs) (auto split: if_splits)

lemma find_Some_ex: "x \<in> set xs \<Longrightarrow> P x \<Longrightarrow> \<exists>y. List.find P xs = Some y"
  by (induction xs) auto

lemma find_distinct_key:
  "distinct (map f xs) \<Longrightarrow> x \<in> set xs \<Longrightarrow> List.find (\<lambda>y. f y = f x) xs = Some x"
  by (induction xs) (auto simp: rev_image_eqI)

lemma distinct_map_filter_key: "distinct (map f xs) \<Longrightarrow> distinct (map f (filter P xs))"
  by (rule distinct_map_filter)

text \<open>
  A walk along references that marks what it has seen ends: each new row is one fewer unseen.
\<close>

lemma filter_unseen_less:
  assumes "x \<in> set xs" "f x = k" "k \<notin> seen"
  shows "length (filter (\<lambda>y. f y \<notin> insert k seen) xs) < length (filter (\<lambda>y. f y \<notin> seen) xs)"
proof -
  have "filter (\<lambda>y. f y \<notin> insert k seen) xs = filter (\<lambda>y. f y \<noteq> k) (filter (\<lambda>y. f y \<notin> seen) xs)"
    by (simp add: conj_commute)
  moreover have "x \<in> set (filter (\<lambda>y. f y \<notin> seen) xs)" using assms by simp
  ultimately show ?thesis using assms(2) length_filter_less [of x "filter (\<lambda>y. f y \<notin> seen) xs"] by simp
qed

end
