(* ===== verification/Tables.thy ===== *)
theory Tables
  imports Prelude
begin

text \<open>
  The interface between the components and a table with a primary key and a unique constraint:
  what inserting a row promises, and what follows for the batches (\<open>db.add_all\<close> and one commit)
  that the table methods write. The components with such a table interpret it on their own
  insertion.
\<close>

text \<open>A batch of inserts in one transaction: the first error is the result of all of it.\<close>

fun insert_all :: "('r \<Rightarrow> 'db \<Rightarrow> 'db result) \<Rightarrow> 'r list \<Rightarrow> 'db \<Rightarrow> 'db result" where
  "insert_all ins [] db = Inr db"
| "insert_all ins (r # rs) db = rbind (ins r db) (insert_all ins rs)"

text \<open>The ids that \<open>uuid.uuid4()\<close> will return from call \<open>n\<close> on are new and differ from each other.\<close>

definition fresh_from :: "(nat \<Rightarrow> 'k) \<Rightarrow> 'k set \<Rightarrow> nat \<Rightarrow> bool" where
  "fresh_from uuid used n \<longleftrightarrow> inj_on uuid {n..} \<and> uuid ` {n..} \<inter> used = {}"

lemma fresh_from_notin: "fresh_from uuid used n \<Longrightarrow> uuid n \<notin> used"
  by (auto simp: fresh_from_def)

lemma fresh_from_ge: "fresh_from uuid used n \<Longrightarrow> n \<le> k \<Longrightarrow> uuid k \<notin> used"
  by (auto simp: fresh_from_def)

lemma fresh_from_Suc: "fresh_from uuid used n \<Longrightarrow> fresh_from uuid (insert (uuid n) used) (Suc n)"
proof -
  assume f: "fresh_from uuid used n"
  then have inj: "inj_on uuid {n..}" and d: "uuid ` {n..} \<inter> used = {}"
    by (auto simp: fresh_from_def)
  have "uuid n \<notin> uuid ` {Suc n..}"
  proof
    assume "uuid n \<in> uuid ` {Suc n..}"
    then obtain k where "Suc n \<le> k" "uuid n = uuid k" by auto
    with inj have "n = k" by (auto dest: inj_onD)
    with \<open>Suc n \<le> k\<close> show False by simp
  qed
  moreover have "inj_on uuid {Suc n..}" using inj by (rule inj_on_subset) auto
  moreover have "uuid ` {Suc n..} \<subseteq> uuid ` {n..}" by auto
  with d have "uuid ` {Suc n..} \<inter> used = {}" by blast
  ultimately show ?thesis by (auto simp: fresh_from_def)
qed

lemma fresh_from_later: "fresh_from uuid used n \<Longrightarrow> n \<le> m \<Longrightarrow> fresh_from uuid used m"
proof -
  assume f: "fresh_from uuid used n" and "n \<le> m"
  then have sub: "{m..} \<subseteq> {n..}" by auto
  from f show ?thesis
    using image_mono [OF sub, of uuid] by (auto simp: fresh_from_def intro: inj_on_subset [OF _ sub])
qed

lemma fresh_from_mono: "fresh_from uuid used n \<Longrightarrow> used' \<subseteq> used \<Longrightarrow> fresh_from uuid used' n"
  by (auto simp: fresh_from_def)

locale unique_table =
  fixes rows :: "'db \<Rightarrow> 'r list"
    and ins :: "'r \<Rightarrow> 'db \<Rightarrow> 'db result"
    and pk :: "'r \<Rightarrow> 'k"
    and ukey :: "'r \<Rightarrow> 'u"
    and fkey_ok :: "'r \<Rightarrow> 'db \<Rightarrow> bool"
  assumes ins_rows: "ins r db = Inr db' \<Longrightarrow> rows db' = rows db @ [r]"
    and ins_pk: "ins r db = Inr db' \<Longrightarrow> pk r \<notin> pk ` set (rows db)"
    and ins_ukey: "ins r db = Inr db' \<Longrightarrow> ukey r \<notin> ukey ` set (rows db)"
    and ins_error: "ins r db = Inl e \<Longrightarrow> e = IntegrityError"
    and ins_ok: "pk r \<notin> pk ` set (rows db) \<Longrightarrow> ukey r \<notin> ukey ` set (rows db) \<Longrightarrow> fkey_ok r db
                  \<Longrightarrow> \<exists>db'. ins r db = Inr db'"
    and ins_fkey: "ins r db = Inr db' \<Longrightarrow> fkey_ok s db' = fkey_ok s db"
begin

lemma insert_all_rows: "insert_all ins rs db = Inr db' \<Longrightarrow> rows db' = rows db @ rs"
  by (induction rs arbitrary: db) (auto simp: rbind_Inr_iff dest: ins_rows)

lemma insert_all_error: "insert_all ins rs db = Inl e \<Longrightarrow> e = IntegrityError"
  by (induction rs arbitrary: db) (auto simp: rbind_Inl_iff dest: ins_error)

lemma insert_all_keys:
  assumes "insert_all ins rs db = Inr db'"
    and "distinct (map pk (rows db))" and "distinct (map ukey (rows db))"
  shows "distinct (map pk (rows db')) \<and> distinct (map ukey (rows db'))"
  using assms
proof (induction rs arbitrary: db)
  case Nil
  then show ?case by simp
next
  case (Cons r rs)
  from Cons.prems(1) obtain db1 where i: "ins r db = Inr db1" and rest: "insert_all ins rs db1 = Inr db'"
    by (auto simp: rbind_Inr_iff)
  from ins_rows [OF i] ins_pk [OF i] ins_ukey [OF i] Cons.prems(2,3)
  have "distinct (map pk (rows db1))" and "distinct (map ukey (rows db1))" by auto
  with Cons.IH [OF rest] show ?case by blast
qed

lemma insert_all_conflict:
  "insert_all ins rs db = Inr db' \<Longrightarrow> distinct (map ukey rs) \<and> ukey ` set rs \<inter> ukey ` set (rows db) = {}"
proof (induction rs arbitrary: db)
  case Nil
  then show ?case by simp
next
  case (Cons r rs)
  from Cons.prems obtain db1 where i: "ins r db = Inr db1" and rest: "insert_all ins rs db1 = Inr db'"
    by (auto simp: rbind_Inr_iff)
  from Cons.IH [OF rest] ins_rows [OF i] ins_ukey [OF i] show ?case by auto
qed

lemma insert_all_ok:
  assumes "distinct (map pk rs)" and "pk ` set rs \<inter> pk ` set (rows db) = {}"
    and "distinct (map ukey rs)" and "ukey ` set rs \<inter> ukey ` set (rows db) = {}"
    and "\<And>r. r \<in> set rs \<Longrightarrow> fkey_ok r db"
  shows "\<exists>db'. insert_all ins rs db = Inr db'"
  using assms
proof (induction rs arbitrary: db)
  case Nil
  then show ?case by simp
next
  case (Cons r rs)
  then obtain db1 where i: "ins r db = Inr db1"
    using ins_ok [of r db] by auto
  have "\<exists>db'. insert_all ins rs db1 = Inr db'"
    using Cons.prems ins_rows [OF i] ins_fkey [OF i] by (intro Cons.IH) auto
  with i show ?case by simp
qed

end

end
