(* ===== verification/UserGroups.thy ===== *)
theory UserGroups
  imports Tables
begin

text \<open>
  User groups: \<open>backend/open_webui/models/groups.py\<close>. The state is the pair of tables
  \<open>group\<close> and \<open>group_member\<close> and the supply of fresh identifiers; every method of
  \<open>GroupTable\<close> that reads or changes them is an operation here. A statement that
  violates a primary key, the unique constraint on \<open>(group_id, user_id)\<close> or, where the
  database enforces it (\<open>fk\<close>), the foreign key, raises \<open>IntegrityError\<close>.
\<close>

section \<open>Tables\<close>

record group_row =
  g_id :: string
  g_user_id :: string
  g_name :: string
  g_description :: string
  g_data :: pyval
  g_meta :: pyval
  g_permissions :: pyval
  g_created_at :: int
  g_updated_at :: int

record group_member =
  gm_id :: string
  gm_group_id :: string
  gm_user_id :: string
  gm_created_at :: int
  gm_updated_at :: int

text \<open>\<open>db_uuid\<close> counts the calls of \<open>uuid.uuid4()\<close>; the ids are \<open>uuid 0, uuid 1, \<dots>\<close>.\<close>

record group_db =
  db_groups :: "group_row list"
  db_members :: "group_member list"
  db_uuid :: nat

text \<open>The fields of \<open>GroupForm\<close>; \<open>model_dump(exclude_none=True)\<close> leaves the absent ones out.\<close>

record group_form =
  gf_name :: string
  gf_description :: string
  gf_permissions :: "dict option"
  gf_data :: "dict option"

definition group_form_dump :: "group_form \<Rightarrow> dict" where
  "group_form_dump f =
     [(''name'', VStr (gf_name f)), (''description'', VStr (gf_description f))]
     @ (case gf_permissions f of None \<Rightarrow> [] | Some p \<Rightarrow> [(''permissions'', VDict p)])
     @ (case gf_data f of None \<Rightarrow> [] | Some d \<Rightarrow> [(''data'', VDict d)])"

definition member_key :: "group_member \<Rightarrow> string \<times> string" where
  "member_key m = (gm_group_id m, gm_user_id m)"

definition is_member :: "group_db \<Rightarrow> string \<Rightarrow> string \<Rightarrow> bool" where
  "is_member db gid uid \<longleftrightarrow> (gid, uid) \<in> member_key ` set (db_members db)"

definition wf_group_db :: "group_db \<Rightarrow> bool" where
  "wf_group_db db \<longleftrightarrow> distinct (map g_id (db_groups db)) \<and>
     distinct (map gm_id (db_members db)) \<and> distinct (map member_key (db_members db))"

definition insert_group_row :: "group_row \<Rightarrow> group_db \<Rightarrow> group_db result" where
  "insert_group_row r db =
     (if g_id r \<in> g_id ` set (db_groups db) then Inl IntegrityError
      else Inr (db\<lparr>db_groups := db_groups db @ [r]\<rparr>))"

definition insert_member :: "bool \<Rightarrow> group_member \<Rightarrow> group_db \<Rightarrow> group_db result" where
  "insert_member fk m db =
     (if gm_id m \<in> gm_id ` set (db_members db) \<or> is_member db (gm_group_id m) (gm_user_id m)
         \<or> (fk \<and> gm_group_id m \<notin> g_id ` set (db_groups db))
      then Inl IntegrityError
      else Inr (db\<lparr>db_members := db_members db @ [m]\<rparr>))"

definition touch_groups :: "(string \<Rightarrow> bool) \<Rightarrow> int \<Rightarrow> group_db \<Rightarrow> group_db" where
  "touch_groups P now db =
     db\<lparr>db_groups := map (\<lambda>g. if P (g_id g) then g\<lparr>g_updated_at := now\<rparr> else g) (db_groups db)\<rparr>"

definition delete_members :: "(group_member \<Rightarrow> bool) \<Rightarrow> group_db \<Rightarrow> group_db" where
  "delete_members P db = db\<lparr>db_members := filter (\<lambda>m. \<not> P m) (db_members db)\<rparr>"

section \<open>Operations\<close>

text \<open>\<open>_ensure_default_share_config\<close>: \<open>share\<close> is \<open>DEFAULT_GROUP_SHARE_PERMISSION\<close>.\<close>

definition ensure_default_share_config :: "pyval \<Rightarrow> dict \<Rightarrow> dict result" where
  "ensure_default_share_config share group_data =
     (let data0 = (if vget group_data ''data'' = VNone then VDict [] else vget group_data ''data'')
      in rbind (py_in ''config'' data0) (\<lambda>has_config.
         rbind (if has_config then Inr data0 else py_setitem data0 ''config'' (VDict [])) (\<lambda>data1.
         rbind (py_getitem data1 ''config'') (\<lambda>config.
         rbind (py_in ''share'' config) (\<lambda>has_share.
         if has_share then Inr (dset group_data ''data'' data1)
         else rbind (py_setitem config ''share'' share) (\<lambda>config'.
              rbind (py_setitem data1 ''config'' config') (\<lambda>data2.
              Inr (dset group_data ''data'' data2))))))))"

text \<open>
  \<open>insert_new_group\<close>: the default share config is filled in before the \<open>try\<close>, so its errors
  are raised; a failing insert is caught and gives \<open>None\<close>.
\<close>

definition insert_new_group ::
  "(nat \<Rightarrow> string) \<Rightarrow> pyval \<Rightarrow> int \<Rightarrow> string \<Rightarrow> group_form \<Rightarrow> group_db
     \<Rightarrow> (group_row option \<times> group_db) result" where
  "insert_new_group uuid share now user_id form db =
     rbind (ensure_default_share_config share (group_form_dump form)) (\<lambda>group_data.
       let row = \<lparr>g_id = uuid (db_uuid db), g_user_id = user_id,
                  g_name = gf_name form, g_description = gf_description form,
                  g_data = vget group_data ''data'', g_meta = VNone,
                  g_permissions = vget group_data ''permissions'',
                  g_created_at = now, g_updated_at = now\<rparr>;
           db0 = db\<lparr>db_uuid := Suc (db_uuid db)\<rparr>
       in case insert_group_row row db0 of
            Inl e \<Rightarrow> Inr (None, db0)
          | Inr db' \<Rightarrow> Inr (Some row, db'))"

definition get_all_groups :: "group_db \<Rightarrow> group_row list" where
  "get_all_groups db = order_desc g_updated_at (db_groups db)"

definition get_group_by_name :: "string \<Rightarrow> group_db \<Rightarrow> group_row option" where
  "get_group_by_name name db = List.find (\<lambda>g. g_name g = name) (db_groups db)"

definition get_group_by_id :: "string \<Rightarrow> group_db \<Rightarrow> group_row option" where
  "get_group_by_id gid db = List.find (\<lambda>g. g_id g = gid) (db_groups db)"

definition member_count :: "group_db \<Rightarrow> string \<Rightarrow> nat" where
  "member_count db gid = length (filter (\<lambda>m. gm_group_id m = gid) (db_members db))"

text \<open>
  The filters of \<open>get_groups\<close> and \<open>search_groups\<close>. \<open>gq_member_id\<close> is \<open>Some None\<close> where the key
  is present with the value \<open>None\<close>. The SQL operators are parameters: \<open>ilike\<close>, the rendering
  \<open>as_string\<close> of \<open>data['config']['share']\<close> (\<open>None\<close> for SQL NULL) and \<open>data ->> 'share'\<close>.
\<close>

record group_query =
  gq_query :: "string option"
  gq_share :: "pyval option"
  gq_member_id :: "string option option"

definition in_member_groups :: "group_db \<Rightarrow> string option \<Rightarrow> group_row \<Rightarrow> bool" where
  "in_member_groups db uid g = (case uid of None \<Rightarrow> False | Some u \<Rightarrow> is_member db (g_id g) u)"

definition share_filter ::
  "(pyval \<Rightarrow> string option) \<Rightarrow> group_db \<Rightarrow> pyval \<Rightarrow> string option \<Rightarrow> group_row \<Rightarrow> bool" where
  "share_filter as_string db share_value member_id g =
     (let s = as_string (g_data g);
          anyone = (case s of None \<Rightarrow> True | Some v \<Rightarrow> py_lower v = ''true'' \<or> py_lower v = ''1'')
                   \<or> g_data g = VNone;
          members = (case s of None \<Rightarrow> False | Some v \<Rightarrow> py_lower v = ''members'')
      in if truthy share_value then
           (case member_id of
              Some u \<Rightarrow> if u \<noteq> [] then anyone \<or> (members \<and> is_member db (g_id g) u) else anyone
            | None \<Rightarrow> anyone)
         else g_data g \<noteq> VNone
              \<and> (case s of None \<Rightarrow> False | Some v \<Rightarrow> py_lower v = ''false''))"

definition get_groups ::
  "(string \<Rightarrow> string \<Rightarrow> bool) \<Rightarrow> (pyval \<Rightarrow> string option) \<Rightarrow> group_query \<Rightarrow> group_db
     \<Rightarrow> (group_row \<times> nat) list" where
  "get_groups ilike as_string q db =
     (let by_name = (\<lambda>g. case gq_query q of None \<Rightarrow> True
                          | Some s \<Rightarrow> ilike (g_name g) (''%'' @ s @ ''%''));
          by_rest = (\<lambda>g. case gq_share q of
                       Some v \<Rightarrow> share_filter as_string db v
                                   (case gq_member_id q of None \<Rightarrow> None | Some m \<Rightarrow> m) g
                     | None \<Rightarrow> (case gq_member_id q of None \<Rightarrow> True
                                | Some m \<Rightarrow> in_member_groups db m g))
      in map (\<lambda>g. (g, member_count db (g_id g)))
           (order_desc g_updated_at (filter (\<lambda>g. by_name g \<and> by_rest g) (db_groups db))))"

definition search_groups ::
  "(string \<Rightarrow> string \<Rightarrow> bool) \<Rightarrow> (pyval \<Rightarrow> pyval \<Rightarrow> bool) \<Rightarrow> group_query \<Rightarrow> nat \<Rightarrow> nat \<Rightarrow> group_db
     \<Rightarrow> (group_row \<times> nat) list \<times> nat" where
  "search_groups ilike share_is q skip limit db =
     (let hits = filter (\<lambda>g.
              (case gq_query q of None \<Rightarrow> True | Some s \<Rightarrow> ilike (g_name g) (''%'' @ s @ ''%''))
            \<and> (case gq_member_id q of None \<Rightarrow> True | Some m \<Rightarrow> in_member_groups db m g)
            \<and> (case gq_share q of None \<Rightarrow> True | Some v \<Rightarrow> share_is (g_data g) v)) (db_groups db)
      in (map (\<lambda>g. (g, member_count db (g_id g)))
            (paginate (Some skip) (Some limit) (order_desc g_updated_at hits)),
          length hits))"

text \<open>The join of \<open>group\<close> with \<open>group_member\<close>, for one user.\<close>

definition member_join :: "string \<Rightarrow> group_db \<Rightarrow> group_row list" where
  "member_join uid db =
     concat (map (\<lambda>m. filter (\<lambda>g. g_id g = gm_group_id m) (db_groups db))
       (filter (\<lambda>m. gm_user_id m = uid) (db_members db)))"

definition get_groups_by_member_id :: "string \<Rightarrow> group_db \<Rightarrow> group_row list" where
  "get_groups_by_member_id uid db = order_desc g_updated_at (member_join uid db)"

definition get_groups_by_member_ids ::
  "string list \<Rightarrow> group_db \<Rightarrow> (string, group_row list) pydict" where
  "get_groups_by_member_ids uids db =
     (let rows = order_desc (\<lambda>r. g_updated_at (snd r))
            (concat (map (\<lambda>m. map (Pair (gm_user_id m))
                        (filter (\<lambda>g. g_id g = gm_group_id m) (db_groups db)))
               (filter (\<lambda>m. gm_user_id m \<in> set uids) (db_members db))))
      in foldl (\<lambda>d r. dset d (fst r) (dget_or d (fst r) [] @ [snd r]))
           (map (\<lambda>u. (u, [])) (remdups uids)) rows)"

definition get_group_user_ids_by_id :: "string \<Rightarrow> group_db \<Rightarrow> string list" where
  "get_group_user_ids_by_id gid db =
     map gm_user_id (filter (\<lambda>m. gm_group_id m = gid) (db_members db))"

definition get_group_user_ids_by_ids ::
  "string list \<Rightarrow> group_db \<Rightarrow> (string, string list) pydict" where
  "get_group_user_ids_by_ids gids db =
     foldl (\<lambda>d m. dset d (gm_group_id m) (dget_or d (gm_group_id m) [] @ [gm_user_id m]))
       (map (\<lambda>g. (g, [])) (remdups gids))
       (filter (\<lambda>m. gm_group_id m \<in> set gids) (db_members db))"

definition get_group_member_count_by_id :: "string \<Rightarrow> group_db \<Rightarrow> nat" where
  "get_group_member_count_by_id gid db = member_count db gid"

definition get_group_member_counts_by_ids ::
  "string list \<Rightarrow> group_db \<Rightarrow> (string, nat) pydict" where
  "get_group_member_counts_by_ids gids db =
     (if gids = [] then []
      else map (\<lambda>gid. (gid, member_count db gid))
             (remdups (map gm_group_id (filter (\<lambda>m. gm_group_id m \<in> set gids) (db_members db)))))"

text \<open>A fresh membership row.\<close>

definition new_member :: "(nat \<Rightarrow> string) \<Rightarrow> int \<Rightarrow> string \<Rightarrow> string \<Rightarrow> nat \<Rightarrow> group_member" where
  "new_member uuid now gid uid n =
     \<lparr>gm_id = uuid n, gm_group_id = gid, gm_user_id = uid,
      gm_created_at = now, gm_updated_at = now\<rparr>"

fun new_members ::
  "(nat \<Rightarrow> string) \<Rightarrow> int \<Rightarrow> (string \<times> string) list \<Rightarrow> nat \<Rightarrow> group_member list" where
  "new_members uuid now [] n = []"
| "new_members uuid now ((gid, uid) # ks) n =
     new_member uuid now gid uid n # new_members uuid now ks (Suc n)"

text \<open>
  \<open>set_group_user_ids_by_id\<close>: one transaction. Where the commit fails the error is raised and
  the deletion is rolled back with it.
\<close>

definition set_group_user_ids_by_id ::
  "(nat \<Rightarrow> string) \<Rightarrow> bool \<Rightarrow> int \<Rightarrow> string \<Rightarrow> string list \<Rightarrow> group_db \<Rightarrow> py_error option \<times> group_db" where
  "set_group_user_ids_by_id uuid fk now gid uids db =
     (let db0 = delete_members (\<lambda>m. gm_group_id m = gid) db;
          ms = new_members uuid now (map (Pair gid) uids) (db_uuid db);
          n = db_uuid db + length uids
      in case insert_all (insert_member fk) ms db0 of
           Inl e \<Rightarrow> (Some e, db\<lparr>db_uuid := n\<rparr>)
         | Inr db' \<Rightarrow> (None, db'\<lparr>db_uuid := n\<rparr>))"

definition apply_group_form :: "group_form \<Rightarrow> int \<Rightarrow> group_row \<Rightarrow> group_row" where
  "apply_group_form f now g =
     g\<lparr>g_name := gf_name f, g_description := gf_description f,
       g_permissions := (case gf_permissions f of None \<Rightarrow> g_permissions g | Some p \<Rightarrow> VDict p),
       g_data := (case gf_data f of None \<Rightarrow> g_data g | Some d \<Rightarrow> VDict d),
       g_updated_at := now\<rparr>"

definition update_group_by_id ::
  "int \<Rightarrow> string \<Rightarrow> group_form \<Rightarrow> group_db \<Rightarrow> group_row option \<times> group_db" where
  "update_group_by_id now gid form db =
     (let db' = db\<lparr>db_groups := map (\<lambda>g. if g_id g = gid then apply_group_form form now g else g)
                                  (db_groups db)\<rparr>
      in (get_group_by_id gid db', db'))"

text \<open>\<open>ON DELETE CASCADE\<close> takes effect only where the database enforces foreign keys.\<close>

definition delete_group_by_id :: "bool \<Rightarrow> string \<Rightarrow> group_db \<Rightarrow> bool \<times> group_db" where
  "delete_group_by_id fk gid db =
     (let db1 = db\<lparr>db_groups := filter (\<lambda>g. g_id g \<noteq> gid) (db_groups db)\<rparr>
      in (True, if fk then delete_members (\<lambda>m. gm_group_id m = gid) db1 else db1))"

definition delete_all_groups :: "bool \<Rightarrow> group_db \<Rightarrow> bool \<times> group_db" where
  "delete_all_groups fk db =
     (True, if fk then delete_members (\<lambda>m. gm_group_id m \<in> g_id ` set (db_groups db))
                         (db\<lparr>db_groups := []\<rparr>)
            else db\<lparr>db_groups := []\<rparr>)"

definition remove_user_from_all_groups :: "int \<Rightarrow> string \<Rightarrow> group_db \<Rightarrow> bool \<times> group_db" where
  "remove_user_from_all_groups now uid db =
     (True, foldl (\<lambda>d g. touch_groups (\<lambda>i. i = g_id g) now
                     (delete_members (\<lambda>m. gm_group_id m = g_id g \<and> gm_user_id m = uid) d))
              db (member_join uid db))"

text \<open>
  \<open>create_groups_by_group_names\<close>: the names of the existing groups are read once, before the
  loop; each new group is committed on its own, and a failing one is skipped.
\<close>

fun create_groups_loop ::
  "(nat \<Rightarrow> string) \<Rightarrow> pyval \<Rightarrow> int \<Rightarrow> string \<Rightarrow> string set \<Rightarrow> string list \<Rightarrow> group_db
     \<Rightarrow> group_row list \<times> group_db" where
  "create_groups_loop uuid share now user_id existing [] db = ([], db)"
| "create_groups_loop uuid share now user_id existing (name # names) db =
     (if name \<in> existing then create_groups_loop uuid share now user_id existing names db
      else let row = \<lparr>g_id = uuid (db_uuid db), g_user_id = user_id, g_name = name,
                      g_description = [],
                      g_data = VDict [(''config'', VDict [(''share'', share)])],
                      g_meta = VNone, g_permissions = VNone,
                      g_created_at = now, g_updated_at = now\<rparr>;
               db0 = db\<lparr>db_uuid := Suc (db_uuid db)\<rparr>
           in case insert_group_row row db0 of
                Inl e \<Rightarrow> create_groups_loop uuid share now user_id existing names db0
              | Inr db1 \<Rightarrow>
                  let (rows, db2) = create_groups_loop uuid share now user_id existing names db1
                  in (row # rows, db2))"

definition create_groups_by_group_names ::
  "(nat \<Rightarrow> string) \<Rightarrow> pyval \<Rightarrow> int \<Rightarrow> string \<Rightarrow> string list \<Rightarrow> group_db
     \<Rightarrow> group_row list \<times> group_db" where
  "create_groups_by_group_names uuid share now user_id names db =
     create_groups_loop uuid share now user_id (g_name ` set (get_all_groups db)) names db"

text \<open>\<open>sync_groups_by_group_names\<close>: one transaction, rolled back (and \<open>False\<close>) on an error.\<close>

definition sync_groups_by_group_names ::
  "(nat \<Rightarrow> string) \<Rightarrow> bool \<Rightarrow> int \<Rightarrow> string \<Rightarrow> string list \<Rightarrow> group_db \<Rightarrow> bool \<times> group_db" where
  "sync_groups_by_group_names uuid fk now uid names db =
     (let target = map g_id (filter (\<lambda>g. g_name g \<in> set names) (db_groups db));
          existing = map g_id (member_join uid db);
          to_add = remdups (filter (\<lambda>i. i \<notin> set existing) target);
          to_remove = remdups (filter (\<lambda>i. i \<notin> set target) existing);
          db1 = (if to_remove \<noteq> [] then
                   touch_groups (\<lambda>i. i \<in> set to_remove) now
                     (delete_members (\<lambda>m. gm_user_id m = uid \<and> gm_group_id m \<in> set to_remove) db)
                 else db);
          n = db_uuid db + length to_add
      in case insert_all (insert_member fk)
                (new_members uuid now (map (\<lambda>i. (i, uid)) to_add) (db_uuid db)) db1 of
           Inl e \<Rightarrow> (False, db\<lparr>db_uuid := n\<rparr>)
         | Inr db2 \<Rightarrow> (True, (if to_add \<noteq> [] then touch_groups (\<lambda>i. i \<in> set to_add) now db2
                              else db2)\<lparr>db_uuid := n\<rparr>))"

text \<open>
  \<open>add_users_to_group\<close>: each insert is flushed on its own; where a flush fails, the handler
  calls \<open>db.rollback()\<close>, which ends the transaction and takes back every insert flushed since
  it began. \<open>base\<close> is the committed state, \<open>db\<close> the session's view of it.
\<close>

fun add_users_loop ::
  "(nat \<Rightarrow> string) \<Rightarrow> bool \<Rightarrow> int \<Rightarrow> string \<Rightarrow> string list \<Rightarrow> group_db \<Rightarrow> nat \<Rightarrow> group_db \<Rightarrow> group_db" where
  "add_users_loop uuid fk now gid [] base n db = db"
| "add_users_loop uuid fk now gid (u # us) base n db =
     (case insert_member fk (new_member uuid now gid u n) db of
        Inl e \<Rightarrow> add_users_loop uuid fk now gid us base (Suc n) base
      | Inr db' \<Rightarrow> add_users_loop uuid fk now gid us base (Suc n) db')"

definition add_users_to_group ::
  "(nat \<Rightarrow> string) \<Rightarrow> bool \<Rightarrow> int \<Rightarrow> string \<Rightarrow> string list option \<Rightarrow> group_db
     \<Rightarrow> group_row option \<times> group_db" where
  "add_users_to_group uuid fk now gid uids db =
     (case get_group_by_id gid db of
        None \<Rightarrow> (None, db)
      | Some g \<Rightarrow>
          let us = (case uids of None \<Rightarrow> [] | Some us \<Rightarrow> us);
              db1 = add_users_loop uuid fk now gid us db (db_uuid db) db;
              db2 = (touch_groups (\<lambda>i. i = gid) now db1)\<lparr>db_uuid := db_uuid db + length us\<rparr>
          in (Some (g\<lparr>g_updated_at := now\<rparr>), db2))"

definition remove_users_from_group ::
  "int \<Rightarrow> string \<Rightarrow> string list option \<Rightarrow> group_db \<Rightarrow> group_row option \<times> group_db" where
  "remove_users_from_group now gid uids db =
     (case get_group_by_id gid db of
        None \<Rightarrow> (None, db)
      | Some g \<Rightarrow>
          (case uids of
             None \<Rightarrow> (Some g, db)
           | Some [] \<Rightarrow> (Some g, db)
           | Some us \<Rightarrow>
               (Some (g\<lparr>g_updated_at := now\<rparr>),
                touch_groups (\<lambda>i. i = gid) now
                  (delete_members (\<lambda>m. gm_group_id m = gid \<and> gm_user_id m \<in> set us) db))))"

section \<open>The two tables keep their keys\<close>

lemma insert_member_Inr:
  "insert_member fk m db = Inr db' \<Longrightarrow>
     db' = db\<lparr>db_members := db_members db @ [m]\<rparr> \<and> gm_id m \<notin> gm_id ` set (db_members db)
     \<and> member_key m \<notin> member_key ` set (db_members db)"
  by (auto simp: insert_member_def is_member_def member_key_def split: if_splits)

interpretation gm: unique_table db_members "insert_member fk" gm_id member_key
    "\<lambda>m db. fk \<longrightarrow> gm_group_id m \<in> g_id ` set (db_groups db)" for fk
  by unfold_locales
    (auto simp: insert_member_def is_member_def member_key_def split: if_splits)

interpretation gr: unique_table db_groups insert_group_row g_id g_id "\<lambda>r db. True"
  by unfold_locales (auto simp: insert_group_row_def split: if_splits)

lemma insert_all_groups:
  "insert_all (insert_member fk) ms db = Inr db' \<Longrightarrow>
     db_groups db' = db_groups db \<and> db_uuid db' = db_uuid db"
  by (induction ms arbitrary: db) (fastforce simp: rbind_Inr_iff dest: insert_member_Inr)+

lemma is_member_insert_all:
  "insert_all (insert_member fk) ms db = Inr db' \<Longrightarrow>
     is_member db' g u \<longleftrightarrow> is_member db g u \<or> (g, u) \<in> member_key ` set ms"
  by (auto simp: is_member_def dest!: gm.insert_all_rows)

lemma touch_groups_simps [simp]:
  "db_members (touch_groups P now db) = db_members db"
  "db_uuid (touch_groups P now db) = db_uuid db"
  "map g_id (db_groups (touch_groups P now db)) = map g_id (db_groups db)"
  "map g_name (db_groups (touch_groups P now db)) = map g_name (db_groups db)"
  by (simp_all add: touch_groups_def o_def if_distrib cong: if_cong)

lemma touch_groups_ids [simp]:
  "g_id ` set (db_groups (touch_groups P now db)) = g_id ` set (db_groups db)"
  by (metis touch_groups_simps(3) set_map)

lemma delete_members_simps [simp]:
  "db_groups (delete_members P db) = db_groups db"
  "db_uuid (delete_members P db) = db_uuid db"
  "db_members (delete_members P db) = filter (\<lambda>m. \<not> P m) (db_members db)"
  by (simp_all add: delete_members_def)

lemma is_member_touch [simp]: "is_member (touch_groups P now db) = is_member db"
  by (simp add: is_member_def fun_eq_iff)

lemma is_member_uuid [simp]: "is_member (db\<lparr>db_uuid := n\<rparr>) = is_member db"
  by (simp add: is_member_def fun_eq_iff)

lemma is_member_delete:
  "is_member (delete_members (\<lambda>m. Q (gm_group_id m) (gm_user_id m)) db) g u
     \<longleftrightarrow> is_member db g u \<and> \<not> Q g u"
  by (auto simp: is_member_def member_key_def)

lemma wf_group_db_touch [simp]: "wf_group_db (touch_groups P now db) = wf_group_db db"
  by (simp add: wf_group_db_def del: map_map)

lemma wf_group_db_uuid [simp]: "wf_group_db (db\<lparr>db_uuid := n\<rparr>) = wf_group_db db"
  by (simp add: wf_group_db_def)

lemma wf_group_db_delete [simp]: "wf_group_db db \<Longrightarrow> wf_group_db (delete_members P db)"
  by (simp add: wf_group_db_def distinct_map_filter)

lemma wf_group_db_insert_all:
  "insert_all (insert_member fk) ms db = Inr db' \<Longrightarrow> wf_group_db db \<Longrightarrow> wf_group_db db'"
  using gm.insert_all_keys [of fk ms db db'] insert_all_groups [of fk ms db db']
  by (auto simp: wf_group_db_def)

lemma wf_group_db_insert_row:
  "insert_group_row r db = Inr db' \<Longrightarrow> wf_group_db db \<Longrightarrow> wf_group_db db'"
  by (auto simp: wf_group_db_def insert_group_row_def split: if_splits)

lemma set_member_join:
  "set (member_join uid db) = {g \<in> set (db_groups db). is_member db (g_id g) uid}"
  by (force simp: member_join_def is_member_def member_key_def)

lemma set_groups_by_member_id:
  "set (get_groups_by_member_id uid db) = {g \<in> set (db_groups db). is_member db (g_id g) uid}"
  by (simp add: get_groups_by_member_id_def set_member_join)

lemma new_members_keys:
  "map member_key (new_members uuid now ks n) = ks"
  by (induction uuid now ks n rule: new_members.induct) (auto simp: new_member_def member_key_def)

lemma new_members_ids:
  "map gm_id (new_members uuid now ks n) = map uuid [n..<n + length ks]"
proof (induction uuid now ks n rule: new_members.induct)
  case (2 uuid now gid uid ks n)
  then show ?case by (simp add: new_member_def upt_conv_Cons del: upt_Suc)
qed simp

lemma new_members_key_set:
  "member_key ` set (new_members uuid now ks n) = set ks"
  using arg_cong [OF new_members_keys, of set] by simp

text \<open>Fresh ids make a batch of new, pairwise different memberships go through.\<close>

lemma insert_new_members_ok:
  assumes "fresh_from uuid (gm_id ` set (db_members db)) n"
    and "distinct ks" and "\<And>g u. (g, u) \<in> set ks \<Longrightarrow> \<not> is_member db g u"
    and "\<And>g u. (g, u) \<in> set ks \<Longrightarrow> g \<in> g_id ` set (db_groups db)"
  shows "\<exists>db'. insert_all (insert_member fk) (new_members uuid now ks n) db = Inr db'"
proof (rule gm.insert_all_ok)
  let ?ms = "new_members uuid now ks n"
  have inj: "inj_on uuid {n..<n + length ks}"
    using assms(1) by (auto simp: fresh_from_def intro: inj_on_subset)
  show "distinct (map gm_id ?ms)"
    using inj by (simp add: new_members_ids distinct_map)
  have "gm_id ` set ?ms = uuid ` {n..<n + length ks}"
    using arg_cong [OF new_members_ids, of set] by simp
  then show "gm_id ` set ?ms \<inter> gm_id ` set (db_members db) = {}"
    using fresh_from_ge [OF assms(1)] by (auto simp: disjoint_iff image_iff)
  show "distinct (map member_key ?ms)" using assms(2) by (simp add: new_members_keys)
  show "member_key ` set ?ms \<inter> member_key ` set (db_members db) = {}"
    using assms(3) unfolding new_members_key_set by (auto simp: is_member_def)
  show "fk \<longrightarrow> gm_group_id r \<in> g_id ` set (db_groups db)" if "r \<in> set ?ms" for r
  proof -
    from that have "member_key r \<in> set ks" by (metis image_eqI new_members_key_set)
    then show ?thesis using assms(4) by (auto simp: member_key_def)
  qed
qed

section \<open>Invariant of the tables\<close>

text \<open>Every operation of the code, as the steps of one relation.\<close>

inductive group_step :: "(nat \<Rightarrow> string) \<Rightarrow> bool \<Rightarrow> pyval \<Rightarrow> group_db \<Rightarrow> group_db \<Rightarrow> bool"
  for uuid fk share where
  step_insert: "insert_new_group uuid share now u form db = Inr (r, db')
     \<Longrightarrow> group_step uuid fk share db db'"
| step_set: "set_group_user_ids_by_id uuid fk now gid us db = (e, db')
     \<Longrightarrow> group_step uuid fk share db db'"
| step_update: "update_group_by_id now gid form db = (r, db') \<Longrightarrow> group_step uuid fk share db db'"
| step_delete: "delete_group_by_id fk gid db = (b, db') \<Longrightarrow> group_step uuid fk share db db'"
| step_delete_all: "delete_all_groups fk db = (b, db') \<Longrightarrow> group_step uuid fk share db db'"
| step_remove_user: "remove_user_from_all_groups now u db = (b, db')
     \<Longrightarrow> group_step uuid fk share db db'"
| step_create: "create_groups_by_group_names uuid share now u names db = (rs, db')
     \<Longrightarrow> group_step uuid fk share db db'"
| step_sync: "sync_groups_by_group_names uuid fk now u names db = (b, db')
     \<Longrightarrow> group_step uuid fk share db db'"
| step_add: "add_users_to_group uuid fk now gid us db = (r, db') \<Longrightarrow> group_step uuid fk share db db'"
| step_remove: "remove_users_from_group now gid us db = (r, db') \<Longrightarrow> group_step uuid fk share db db'"

inductive group_reachable :: "(nat \<Rightarrow> string) \<Rightarrow> bool \<Rightarrow> pyval \<Rightarrow> group_db \<Rightarrow> bool"
  for uuid fk share where
  init: "group_reachable uuid fk share \<lparr>db_groups = [], db_members = [], db_uuid = 0\<rparr>"
| step: "group_reachable uuid fk share db \<Longrightarrow> group_step uuid fk share db db'
     \<Longrightarrow> group_reachable uuid fk share db'"

lemma apply_group_form_id [simp]: "g_id (apply_group_form f now g) = g_id g"
  by (simp add: apply_group_form_def)

lemma wf_create_groups_loop:
  "create_groups_loop uuid share now u ex names db = (rs, db') \<Longrightarrow> wf_group_db db \<Longrightarrow> wf_group_db db'"
proof (induction uuid share now u ex names db arbitrary: rs rule: create_groups_loop.induct)
  case (2 uuid share now u ex name names db)
  then show ?case
    by (fastforce simp: Let_def split: if_splits sum.splits prod.splits
        dest: wf_group_db_insert_row)
qed simp

lemma wf_add_users_loop:
  "wf_group_db base \<Longrightarrow> wf_group_db db \<Longrightarrow> wf_group_db (add_users_loop uuid fk now gid us base n db)"
proof (induction uuid fk now gid us base n db rule: add_users_loop.induct)
  case (2 uuid fk now gid u us base n db)
  have "wf_group_db db'" if "insert_member fk (new_member uuid now gid u n) db = Inr db'" for db'
    using wf_group_db_insert_all [of fk "[new_member uuid now gid u n]" db db'] that 2 by simp
  with 2 show ?case by (auto split: sum.splits)
qed simp

lemma wf_remove_user_foldl:
  "wf_group_db db \<Longrightarrow> wf_group_db (foldl (\<lambda>d g. touch_groups (P g) now (delete_members (Q g) d)) db gs)"
  by (induction gs arbitrary: db) auto

lemma wf_sync_commit:
  "wf_group_db db \<Longrightarrow> wf_group_db db1 \<Longrightarrow>
   wf_group_db (snd (case insert_all (insert_member fk) ms db1 of
       Inl e \<Rightarrow> (False, db\<lparr>db_uuid := n\<rparr>)
     | Inr db2 \<Rightarrow> (True, (if c then touch_groups P now db2 else db2)\<lparr>db_uuid := n\<rparr>)))"
  by (auto split: sum.split dest: wf_group_db_insert_all)

lemma insert_new_group_cases:
  assumes "insert_new_group uuid share now u form db = Inr (r, db')"
  obtains row where "db' = db\<lparr>db_uuid := Suc (db_uuid db)\<rparr>
      \<or> insert_group_row row (db\<lparr>db_uuid := Suc (db_uuid db)\<rparr>) = Inr db'"
proof -
  from assms obtain gd where
    "(let row = \<lparr>g_id = uuid (db_uuid db), g_user_id = u, g_name = gf_name form,
          g_description = gf_description form, g_data = vget gd ''data'', g_meta = VNone,
          g_permissions = vget gd ''permissions'', g_created_at = now, g_updated_at = now\<rparr>;
          db0 = db\<lparr>db_uuid := Suc (db_uuid db)\<rparr>
      in case insert_group_row row db0 of Inl e \<Rightarrow> Inr (None, db0) | Inr db' \<Rightarrow> Inr (Some row, db'))
     = (Inr (r, db') :: (group_row option \<times> group_db) result)" (is "(let row = ?row; db0 = ?db0 in _) = _")
    unfolding insert_new_group_def rbind_Inr_iff by blast
  then have "db' = ?db0 \<or> insert_group_row ?row ?db0 = Inr db'"
    by (cases "insert_group_row ?row ?db0") (simp_all add: Let_def)
  then show thesis by (rule that)
qed

lemma group_step_wf:
  assumes "group_step uuid fk share db db'" and wf: "wf_group_db db"
  shows "wf_group_db db'"
  using assms(1)
proof cases
  case (step_insert now u form r)
  then obtain row where "db' = db\<lparr>db_uuid := Suc (db_uuid db)\<rparr>
      \<or> insert_group_row row (db\<lparr>db_uuid := Suc (db_uuid db)\<rparr>) = Inr db'"
    by (rule insert_new_group_cases)
  with wf show ?thesis by (auto dest: wf_group_db_insert_row)
next
  case (step_set now gid us e)
  with wf show ?thesis
    by (auto simp: set_group_user_ids_by_id_def Let_def split: sum.splits
        dest!: wf_group_db_insert_all)
next
  case (step_update now gid form r)
  with wf show ?thesis
    by (auto simp: update_group_by_id_def Let_def wf_group_db_def o_def if_distrib cong: if_cong)
next
  case (step_delete gid b)
  with wf show ?thesis
    by (auto simp: delete_group_by_id_def Let_def wf_group_db_def distinct_map_filter)
next
  case (step_delete_all b)
  with wf show ?thesis
    by (auto simp: delete_all_groups_def wf_group_db_def distinct_map_filter)
next
  case (step_remove_user now u b)
  with wf show ?thesis by (auto simp: remove_user_from_all_groups_def intro: wf_remove_user_foldl)
next
  case (step_create now u names rs)
  with wf show ?thesis
    by (auto simp: create_groups_by_group_names_def intro: wf_create_groups_loop)
next
  case (step_sync now u names b)
  then have "db' = snd (sync_groups_by_group_names uuid fk now u names db)" by simp
  also have "wf_group_db \<dots>"
    unfolding sync_groups_by_group_names_def Let_def by (rule wf_sync_commit) (use wf in simp_all)
  finally show ?thesis .
next
  case (step_add now gid us r)
  with wf show ?thesis
    by (auto simp: add_users_to_group_def Let_def split: option.splits intro!: wf_add_users_loop)
next
  case (step_remove now gid us r)
  with wf show ?thesis
    by (auto simp: remove_users_from_group_def split: option.splits list.splits)
qed

text \<open>In every state the group table and its memberships can reach through the operations of
  \<open>GroupTable\<close>, whatever ids and times they are given, group ids and membership ids are unique and
  no user is in a group twice.\<close>

theorem group_reachable_wf: "group_reachable uuid fk share db \<Longrightarrow> wf_group_db db"
proof (induction rule: group_reachable.induct)
  case init
  show ?case by (simp add: wf_group_db_def)
next
  case (step db db')
  then show ?case by (blast intro: group_step_wf)
qed

lemma group_reachable_wf_witness:
  "wf_group_db (snd (create_groups_by_group_names (\<lambda>n. replicate n CHR ''a'') VNone 5 ''admin''
     [''staff''] \<lparr>db_groups = [], db_members = [], db_uuid = 0\<rparr>))"
  by (rule group_reachable_wf [where uuid = "\<lambda>n. replicate n CHR ''a''" and fk = True and share = VNone],
      rule group_reachable.step [OF group_reachable.init],
      rule step_create [where now = 5 and u = "''admin''" and names = "[''staff'']"],
      rule prod.collapse [symmetric])

section \<open>Membership operations\<close>

lemma insert_all_members_fresh:
  assumes "fresh_from uuid (gm_id ` set (db_members db)) n" "distinct ks"
    and "\<And>g u. (g, u) \<in> set ks \<Longrightarrow> \<not> is_member db g u \<and> g \<in> g_id ` set (db_groups db)"
  shows "\<exists>db'. insert_all (insert_member fk) (new_members uuid now ks n) db = Inr db' \<and>
    (\<forall>g u. is_member db' g u \<longleftrightarrow> is_member db g u \<or> (g, u) \<in> set ks)"
proof -
  from insert_new_members_ok [of uuid db n ks fk now] assms
  obtain db' where i: "insert_all (insert_member fk) (new_members uuid now ks n) db = Inr db'"
    by blast
  then show ?thesis
    by (auto simp: is_member_insert_all [OF i] new_members_key_set)
qed

lemma sync_groups_members:
  assumes fresh: "fresh_from uuid (gm_id ` set (db_members db)) (db_uuid db)"
  shows "\<exists>db'. sync_groups_by_group_names uuid fk now uid names db = (True, db') \<and>
     (\<forall>g u. is_member db' g u \<longleftrightarrow>
        (if u = uid \<and> g \<in> g_id ` set (db_groups db)
         then g \<in> g_id ` {x \<in> set (db_groups db). g_name x \<in> set names}
         else is_member db g u))"
proof -
  define target where "target = map g_id (filter (\<lambda>g. g_name g \<in> set names) (db_groups db))"
  define existing where "existing = map g_id (member_join uid db)"
  define add where "add = remdups (filter (\<lambda>i. i \<notin> set existing) target)"
  define rem where "rem = remdups (filter (\<lambda>i. i \<notin> set target) existing)"
  define db1 where "db1 = (if rem \<noteq> [] then
      touch_groups (\<lambda>i. i \<in> set rem) now
        (delete_members (\<lambda>m. gm_user_id m = uid \<and> gm_group_id m \<in> set rem) db) else db)"
  have existing: "set existing = {i \<in> g_id ` set (db_groups db). is_member db i uid}"
    by (auto simp: existing_def set_member_join)
  have del: "is_member (delete_members (\<lambda>m. gm_user_id m = uid \<and> gm_group_id m \<in> set rem) db) g u
      \<longleftrightarrow> is_member db g u \<and> \<not> (u = uid \<and> g \<in> set rem)" for g u
    by (rule is_member_delete [where Q = "\<lambda>g u. u = uid \<and> g \<in> set rem"])
  have db1: "is_member db1 g u \<longleftrightarrow> is_member db g u \<and> \<not> (u = uid \<and> g \<in> set rem)" for g u
    using del [of g u] by (auto simp: db1_def)
  have "fresh_from uuid (gm_id ` set (db_members db1)) (db_uuid db)"
    by (rule fresh_from_mono [OF fresh]) (auto simp: db1_def)
  moreover have "distinct (map (\<lambda>i. (i, uid)) add)" by (simp add: distinct_map inj_on_def add_def)
  moreover have "\<not> is_member db1 g u \<and> g \<in> g_id ` set (db_groups db1)"
    if "(g, u) \<in> set (map (\<lambda>i. (i, uid)) add)" for g u
  proof -
    from that have "g \<in> set target" "g \<notin> set existing" "u = uid" by (auto simp: add_def)
    moreover from this have "g \<in> g_id ` set (db_groups db)" by (auto simp: target_def)
    moreover have "g_id ` set (db_groups db1) = g_id ` set (db_groups db)" by (simp add: db1_def)
    ultimately show ?thesis unfolding db1 by (auto simp: existing)
  qed
  ultimately obtain db' where
    i: "insert_all (insert_member fk) (new_members uuid now (map (\<lambda>i. (i, uid)) add) (db_uuid db)) db1
        = Inr db'"
    and m: "\<forall>g u. is_member db' g u \<longleftrightarrow> is_member db1 g u \<or> (g, u) \<in> set (map (\<lambda>i. (i, uid)) add)"
    using insert_all_members_fresh [of uuid db1 "db_uuid db" "map (\<lambda>i. (i, uid)) add" fk now] by blast
  have "sync_groups_by_group_names uuid fk now uid names db =
      (True, (if add \<noteq> [] then touch_groups (\<lambda>i. i \<in> set add) now db' else db')
               \<lparr>db_uuid := db_uuid db + length add\<rparr>)"
    using i unfolding sync_groups_by_group_names_def Let_def target_def [symmetric]
      existing_def [symmetric] add_def [symmetric] rem_def [symmetric] db1_def [symmetric] by simp
  moreover have "g \<in> set rem \<longleftrightarrow> g \<in> set existing \<and> g \<notin> set target"
    and "g \<in> set add \<longleftrightarrow> g \<in> set target \<and> g \<notin> set existing" for g
    by (auto simp: rem_def add_def)
  moreover have "g \<in> set target \<longleftrightarrow> g \<in> g_id ` {x \<in> set (db_groups db). g_name x \<in> set names}" for g
    by (auto simp: target_def)
  ultimately show ?thesis
    using existing by (auto simp: m db1)
qed

text \<open>C1. Synchronising a user's groups with a list of names (OAuth and SCIM logins) succeeds
  when the ids it draws are new, and leaves the user in exactly the existing groups whose name is
  in the list; no other user's memberships change.\<close>

theorem sync_groups_exact:
  assumes "wf_group_db db" and "fresh_from uuid (gm_id ` set (db_members db)) (db_uuid db)"
  shows "\<exists>db'. sync_groups_by_group_names uuid fk now uid names db = (True, db') \<and>
     (\<forall>g \<in> set (db_groups db). is_member db' (g_id g) uid \<longleftrightarrow> g_name g \<in> set names) \<and>
     (\<forall>gid u. u \<noteq> uid \<longrightarrow> is_member db' gid u = is_member db gid u)"
proof -
  from sync_groups_members [OF assms(2)] obtain db' where
    s: "sync_groups_by_group_names uuid fk now uid names db = (True, db')" and
    m: "\<And>g u. is_member db' g u \<longleftrightarrow>
        (if u = uid \<and> g \<in> g_id ` set (db_groups db)
         then g \<in> g_id ` {x \<in> set (db_groups db). g_name x \<in> set names}
         else is_member db g u)" by blast
  have "inj_on g_id (set (db_groups db))"
    using assms(1) by (simp add: wf_group_db_def distinct_map)
  then have "is_member db' (g_id g) uid \<longleftrightarrow> g_name g \<in> set names" if "g \<in> set (db_groups db)" for g
    using that by (auto simp: m dest: inj_onD)
  then show ?thesis by (simp add: s m)
qed

lemma sync_groups_exact_witness:
  "\<exists>db'. sync_groups_by_group_names (\<lambda>n. replicate n CHR ''x'') True 9 ''u'' [''dev'']
       \<lparr>db_groups = [\<lparr>g_id = ''g1'', g_user_id = ''a'', g_name = ''dev'', g_description = [],
          g_data = VNone, g_meta = VNone, g_permissions = VNone, g_created_at = 1, g_updated_at = 1\<rparr>],
        db_members = [], db_uuid = 0\<rparr> = (True, db') \<and> is_member db' ''g1'' ''u''"
proof -
  let ?g = "\<lparr>g_id = ''g1'', g_user_id = ''a'', g_name = ''dev'', g_description = [],
          g_data = VNone, g_meta = VNone, g_permissions = VNone, g_created_at = 1, g_updated_at = 1\<rparr>"
  let ?db = "\<lparr>db_groups = [?g], db_members = [], db_uuid = 0\<rparr>"
  have "wf_group_db ?db" by (simp add: wf_group_db_def)
  moreover have "fresh_from (\<lambda>n. replicate n CHR ''x'') (gm_id ` set (db_members ?db)) (db_uuid ?db)"
    by (auto simp: fresh_from_def inj_on_def)
  ultimately show ?thesis
    using sync_groups_exact [of ?db "\<lambda>n. replicate n CHR ''x''" True 9 "''u''" "[''dev'']"] by auto
qed

text \<open>Inserting a user that is a member already fails; any other user of a fresh id goes through.\<close>

lemma insert_member_dup:
  "is_member db gid u \<Longrightarrow> insert_member fk (new_member uuid now gid u n) db = Inl IntegrityError"
  by (simp add: insert_member_def new_member_def)

lemma insert_member_new:
  assumes "\<not> is_member db gid u" "gid \<in> g_id ` set (db_groups db)" "uuid n \<notin> gm_id ` set (db_members db)"
  shows "insert_member fk (new_member uuid now gid u n) db =
     Inr (db\<lparr>db_members := db_members db @ [new_member uuid now gid u n]\<rparr>)"
  using assms by (simp add: insert_member_def new_member_def)

lemma is_member_append [simp]:
  "is_member (db\<lparr>db_members := db_members db @ [new_member uuid now gid u n]\<rparr>) g v
     \<longleftrightarrow> is_member db g v \<or> (g = gid \<and> v = u)"
  by (auto simp: is_member_def new_member_def member_key_def)

lemma add_users_loop_fresh:
  assumes "fresh_from uuid (gm_id ` set (db_members db)) n" and "gid \<in> g_id ` set (db_groups db)"
    and "distinct us" and "\<And>u. u \<in> set us \<Longrightarrow> \<not> is_member db gid u"
  shows "is_member (add_users_loop uuid fk now gid us base n db) g v
     \<longleftrightarrow> is_member db g v \<or> (g = gid \<and> v \<in> set us)"
  using assms
proof (induction us arbitrary: n db)
  case Nil
  then show ?case by simp
next
  case (Cons u us)
  let ?db = "db\<lparr>db_members := db_members db @ [new_member uuid now gid u n]\<rparr>"
  have i: "insert_member fk (new_member uuid now gid u n) db = Inr ?db"
    using Cons.prems fresh_from_notin [OF Cons.prems(1)] by (intro insert_member_new) auto
  have "fresh_from uuid (gm_id ` set (db_members ?db)) (Suc n)"
    using fresh_from_Suc [OF Cons.prems(1)] by (simp add: new_member_def)
  then have "is_member (add_users_loop uuid fk now gid us base (Suc n) ?db) g v
     \<longleftrightarrow> is_member ?db g v \<or> (g = gid \<and> v \<in> set us)"
    using Cons.prems by (intro Cons.IH) auto
  with i show ?case by auto
qed

text \<open>
  Whatever happened before, a user that is a member of the group in the committed state sends the
  session back to that state: an insert of it fails in every state that extends the committed one.
\<close>

lemma add_users_loop_rollback:
  "is_member base gid d \<Longrightarrow> is_member db gid d \<Longrightarrow>
   add_users_loop uuid fk now gid (pre @ d # post) base n db =
   add_users_loop uuid fk now gid post base (n + Suc (length pre)) base"
proof (induction pre arbitrary: n db)
  case Nil
  then show ?case by (simp add: insert_member_dup)
next
  case (Cons u pre)
  then show ?case
    by (auto split: sum.splits dest!: insert_member_Inr)
qed

text \<open>\<open>add_users_to_group\<close> loses the users listed before one that is already a member: the
  duplicate's \<open>db.rollback()\<close> takes their inserts back, and the call still reports the group as
  updated. Exactly the old members and the users listed after the duplicate are members at the end
  (for new ids and pairwise different new users after it).\<close>

theorem add_users_rollback_loses_earlier:
  assumes "fresh_from uuid (gm_id ` set (db_members db)) (db_uuid db)"
    and "gid \<in> g_id ` set (db_groups db)" and "is_member db gid dup"
    and "distinct post" and "\<forall>u \<in> set post. \<not> is_member db gid u"
  shows "\<exists>g db'. add_users_to_group uuid fk now gid (Some (pre @ dup # post)) db = (Some g, db') \<and>
     (\<forall>u. is_member db' gid u \<longleftrightarrow> is_member db gid u \<or> u \<in> set post)"
proof -
  let ?n = "db_uuid db + Suc (length pre)"
  let ?loop = "add_users_loop uuid fk now gid (pre @ dup # post) db (db_uuid db) db"
  from assms(2) obtain g where g: "get_group_by_id gid db = Some g"
    unfolding get_group_by_id_def by (metis (mono_tags, lifting) find_Some_ex imageE)
  have "?loop = add_users_loop uuid fk now gid post db ?n db"
    using add_users_loop_rollback [OF assms(3,3)] by simp
  moreover have "fresh_from uuid (gm_id ` set (db_members db)) ?n"
    using assms(1) by (rule fresh_from_later) simp
  ultimately have m: "is_member ?loop gid u \<longleftrightarrow> is_member db gid u \<or> u \<in> set post" for u
    using assms(2,4,5) add_users_loop_fresh [of uuid db ?n gid post fk now db gid u] by simp
  show ?thesis
    by (simp add: add_users_to_group_def g Let_def m)
qed

lemma add_users_rollback_loses_earlier_witness:
  "\<exists>g db'. add_users_to_group (\<lambda>n. replicate n CHR ''x'') True 9 ''g1'' (Some ([''new''] @ ''old'' # [''late'']))
       \<lparr>db_groups = [\<lparr>g_id = ''g1'', g_user_id = ''a'', g_name = ''dev'', g_description = [],
          g_data = VNone, g_meta = VNone, g_permissions = VNone, g_created_at = 1, g_updated_at = 1\<rparr>],
        db_members = [\<lparr>gm_id = ''m'', gm_group_id = ''g1'', gm_user_id = ''old'', gm_created_at = 1,
          gm_updated_at = 1\<rparr>], db_uuid = 0\<rparr> = (Some g, db')
     \<and> \<not> is_member db' ''g1'' ''new'' \<and> is_member db' ''g1'' ''late''"
proof -
  let ?g = "\<lparr>g_id = ''g1'', g_user_id = ''a'', g_name = ''dev'', g_description = [],
          g_data = VNone, g_meta = VNone, g_permissions = VNone, g_created_at = 1, g_updated_at = 1\<rparr>"
  let ?m = "\<lparr>gm_id = ''m'', gm_group_id = ''g1'', gm_user_id = ''old'', gm_created_at = 1, gm_updated_at = 1\<rparr>"
  let ?db = "\<lparr>db_groups = [?g], db_members = [?m], db_uuid = 0\<rparr>"
  let ?uuid = "\<lambda>n. replicate n CHR ''x''"
  have m: "(''m'' = replicate n CHR ''x'') = False" "(replicate n CHR ''x'' = ''m'') = False" for n
    by (cases n; auto)+
  have "fresh_from ?uuid (gm_id ` set (db_members ?db)) (db_uuid ?db)"
    by (auto simp: fresh_from_def inj_on_def m)
  moreover have "is_member ?db ''g1'' u \<longleftrightarrow> u = ''old''" for u
    by (auto simp: is_member_def member_key_def)
  ultimately show ?thesis
    using add_users_rollback_loses_earlier [of ?uuid ?db "''g1''" "''old''" "[''late'']" True 9 "[''new'']"]
    by auto
qed

lemma is_member_remove_foldl:
  "is_member (foldl (\<lambda>d g. touch_groups (P g) now
       (delete_members (\<lambda>m. gm_group_id m = g_id g \<and> gm_user_id m = uid) d)) db gs) i u
   \<longleftrightarrow> is_member db i u \<and> \<not> (u = uid \<and> i \<in> g_id ` set gs)"
proof (induction gs arbitrary: db)
  case (Cons g gs)
  have "is_member (delete_members (\<lambda>m. gm_group_id m = g_id g \<and> gm_user_id m = uid) db) i u
      \<longleftrightarrow> is_member db i u \<and> \<not> (i = g_id g \<and> u = uid)"
    by (rule is_member_delete [where Q = "\<lambda>i u. i = g_id g \<and> u = uid"])
  with Cons.IH show ?case by auto
qed simp

lemma remove_foldl_ids:
  "g_id ` set (db_groups (foldl (\<lambda>d g. touch_groups (P g) now (delete_members (Q g) d)) db gs))
     = g_id ` set (db_groups db)"
  by (induction gs arbitrary: db) simp_all

text \<open>After \<open>remove_user_from_all_groups\<close> the user is in no group, and the memberships of
  every other user are what they were.\<close>

theorem remove_user_from_all_groups_effect:
  "get_groups_by_member_id uid (snd (remove_user_from_all_groups now uid db)) = [] \<and>
   (\<forall>gid u. u \<noteq> uid \<longrightarrow>
      is_member (snd (remove_user_from_all_groups now uid db)) gid u = is_member db gid u)"
proof -
  let ?db' = "snd (remove_user_from_all_groups now uid db)"
  have m: "is_member ?db' i u \<longleftrightarrow> is_member db i u \<and> \<not> (u = uid \<and> i \<in> g_id ` set (member_join uid db))"
    for i u by (simp add: remove_user_from_all_groups_def is_member_remove_foldl)
  have ids: "g_id ` set (db_groups ?db') = g_id ` set (db_groups db)"
    by (simp add: remove_user_from_all_groups_def remove_foldl_ids)
  have "\<not> is_member ?db' (g_id g) uid" if "g \<in> set (db_groups ?db')" for g
  proof -
    from that ids have "g_id g \<in> g_id ` set (db_groups db)" by auto
    then show ?thesis by (auto simp: m set_member_join)
  qed
  then have "set (get_groups_by_member_id uid ?db') = {}"
    by (auto simp: set_groups_by_member_id)
  then show ?thesis using m by auto
qed

lemma remove_user_from_all_groups_effect_witness:
  "get_groups_by_member_id ''u'' (snd (remove_user_from_all_groups 9 ''u''
       \<lparr>db_groups = [], db_members = [], db_uuid = 0\<rparr>)) = []"
  using remove_user_from_all_groups_effect [of "''u''" 9] by blast

end
