(* ===== verification/Users.thy ===== *)
theory Users
  imports UserGroups
begin

text \<open>
  User accounts: \<open>backend/open_webui/models/users.py\<close>. The state is the \<open>user\<close> table, the
  \<open>api_key\<close> table and, for the filters of the user listing, the group memberships of
  \<open>UserGroups\<close> and the channel memberships (pairs of a channel and a user).
\<close>

record user =
  u_id :: string
  u_email :: string
  u_username :: "string option"
  u_role :: string
  u_name :: string
  u_profile_image_url :: string
  u_settings :: dict
  u_oauth :: dict
  u_scim :: dict
  u_last_active_at :: int
  u_updated_at :: int
  u_created_at :: int

record api_key =
  ak_id :: string
  ak_user_id :: string
  ak_key :: string
  ak_created_at :: int
  ak_updated_at :: int

record user_db =
  db_users :: "user list"
  db_api_keys :: "api_key list"

definition wf_user_db :: "user_db \<Rightarrow> bool" where
  "wf_user_db db \<longleftrightarrow> distinct (map u_id (db_users db)) \<and> distinct (map u_email (db_users db))"

section \<open>Lookups\<close>

definition get_user_by_id :: "string \<Rightarrow> user_db \<Rightarrow> user option" where
  "get_user_by_id i db = List.find (\<lambda>u. u_id u = i) (db_users db)"

definition get_user_by_api_key :: "string \<Rightarrow> user_db \<Rightarrow> user option" where
  "get_user_by_api_key key db =
     List.find (\<lambda>u. \<exists>k \<in> set (db_api_keys db). ak_user_id k = u_id u \<and> ak_key k = key) (db_users db)"

definition get_user_by_email :: "string \<Rightarrow> user_db \<Rightarrow> user option" where
  "get_user_by_email email db = List.find (\<lambda>u. py_lower (u_email u) = py_lower email) (db_users db)"

section \<open>Listing\<close>

text \<open>
  The filter dictionary of \<open>get_users\<close>. An absent key and a value of \<open>None\<close> are the same to the
  code, which reads every key with \<open>.get\<close>.
\<close>

record user_query =
  uq_query :: "string option"
  uq_channel_id :: "string option"
  uq_user_ids :: "string list option"
  uq_group_ids :: "string list option"
  uq_roles :: "string list"
  uq_order_by :: "string option"
  uq_direction :: "string option"

definition order_by :: "bool \<Rightarrow> ('a \<Rightarrow> 'k::linorder) \<Rightarrow> 'a list \<Rightarrow> 'a list" where
  "order_by asc f rows = (if asc then sort_key f rows else rev (sort_key f (rev rows)))"

lemma set_order_by [simp]: "set (order_by asc f rows) = set rows"
  by (simp add: order_by_def)

lemma length_order_by [simp]: "length (order_by asc f rows) = length rows"
  by (simp add: order_by_def)

definition user_role_filter :: "string list \<Rightarrow> user \<Rightarrow> bool" where
  "user_role_filter roles u =
     (let includes = filter (\<lambda>r. \<not> prefix ''!'' r) roles;
          excludes = map (drop 1) (filter (prefix ''!'') roles)
      in (includes \<noteq> [] \<longrightarrow> u_role u \<in> set includes)
         \<and> (excludes \<noteq> [] \<longrightarrow> u_role u \<notin> set excludes))"

definition user_filter ::
  "(string \<Rightarrow> string \<Rightarrow> bool) \<Rightarrow> group_db \<Rightarrow> (string \<times> string) list \<Rightarrow> user_query \<Rightarrow> user \<Rightarrow> bool" where
  "user_filter ilike gdb channel_members q u =
     ((case uq_query q of
         Some s \<Rightarrow> s \<noteq> [] \<longrightarrow> ilike (u_name u) (''%'' @ s @ ''%'') \<or> ilike (u_email u) (''%'' @ s @ ''%'')
       | None \<Rightarrow> True)
    \<and> (case uq_channel_id q of
         Some c \<Rightarrow> c \<noteq> [] \<longrightarrow> (c, u_id u) \<in> set channel_members
       | None \<Rightarrow> True)
    \<and> (case uq_user_ids q of Some ids \<Rightarrow> ids \<noteq> [] \<longrightarrow> u_id u \<in> set ids | None \<Rightarrow> True)
    \<and> (case uq_group_ids q of
         Some gs \<Rightarrow> gs \<noteq> [] \<longrightarrow> list_ex (\<lambda>g. is_member gdb g (u_id u)) gs
       | None \<Rightarrow> True)
    \<and> (uq_roles q \<noteq> [] \<longrightarrow> user_role_filter (uq_roles q) u))"

definition user_order :: "group_db \<Rightarrow> user_query \<Rightarrow> user list \<Rightarrow> user list" where
  "user_order gdb q us =
     (let asc = (uq_direction q = Some ''asc'')
      in case uq_order_by q of
           None \<Rightarrow> us
         | Some k \<Rightarrow>
             if prefix ''group_id:'' k then
               (let gid = drop (length ''group_id:'') k;
                    rank = (\<lambda>u. if is_member gdb gid (u_id u) then 1 else 0 :: int)
                in sort_key (\<lambda>u. (if asc then rank u else - rank u, u_name u)) us)
             else if k = ''name'' then order_by asc u_name us
             else if k = ''email'' then order_by asc u_email us
             else if k = ''created_at'' then order_by asc u_created_at us
             else if k = ''last_active_at'' then order_by asc u_last_active_at us
             else if k = ''updated_at'' then order_by asc u_updated_at us
             else if k = ''role'' then order_by asc u_role us
             else us)"

text \<open>\<open>filter\<close> is \<open>None\<close> where the code gets no filter or an empty one.\<close>

definition get_users ::
  "(string \<Rightarrow> string \<Rightarrow> bool) \<Rightarrow> group_db \<Rightarrow> (string \<times> string) list \<Rightarrow> user_query option
     \<Rightarrow> nat option \<Rightarrow> nat option \<Rightarrow> user_db \<Rightarrow> user list \<times> nat" where
  "get_users ilike gdb channel_members filt skip limit db =
     (case filt of
        None \<Rightarrow> (paginate skip limit (order_by False u_created_at (db_users db)), length (db_users db))
      | Some q \<Rightarrow>
          if uq_user_ids q = Some [] \<and> uq_group_ids q = Some [] then ([], 0)
          else let hits = filter (user_filter ilike gdb channel_members q) (db_users db)
               in (paginate skip limit (user_order gdb q hits), length hits))"

text \<open>The users who are not waiting for approval, as \<open>Users.get_users(filter={'roles': ['!pending']})\<close>.\<close>

definition non_pending_query :: user_query where
  "non_pending_query =
     \<lparr>uq_query = None, uq_channel_id = None, uq_user_ids = None, uq_group_ids = None,
      uq_roles = [''!pending''], uq_order_by = None, uq_direction = None\<rparr>"

definition get_users_by_group_id :: "string \<Rightarrow> group_db \<Rightarrow> user_db \<Rightarrow> user list" where
  "get_users_by_group_id gid gdb db =
     concat (map (\<lambda>m. filter (\<lambda>u. u_id u = gm_user_id m) (db_users db))
       (filter (\<lambda>m. gm_group_id m = gid) (db_members gdb)))"

definition get_users_by_user_ids :: "string list \<Rightarrow> user_db \<Rightarrow> user list" where
  "get_users_by_user_ids ids db = filter (\<lambda>u. u_id u \<in> set ids) (db_users db)"

definition get_num_users :: "user_db \<Rightarrow> nat" where
  "get_num_users db = length (db_users db)"

definition has_users :: "user_db \<Rightarrow> bool" where
  "has_users db \<longleftrightarrow> db_users db \<noteq> []"

definition get_first_user :: "user_db \<Rightarrow> user option" where
  "get_first_user db =
     (case sort_key u_created_at (db_users db) of [] \<Rightarrow> None | u # _ \<Rightarrow> Some u)"

definition get_num_users_active_today :: "int \<Rightarrow> user_db \<Rightarrow> nat" where
  "get_num_users_active_today now db =
     length (filter (\<lambda>u. u_last_active_at u > now - now mod 86400) (db_users db))"

definition get_valid_user_ids :: "string list \<Rightarrow> user_db \<Rightarrow> string list" where
  "get_valid_user_ids ids db = map u_id (filter (\<lambda>u. u_id u \<in> set ids) (db_users db))"

definition get_super_admin_user :: "user_db \<Rightarrow> user option" where
  "get_super_admin_user db = List.find (\<lambda>u. u_role u = ''admin'') (db_users db)"

definition get_active_user_count :: "int \<Rightarrow> user_db \<Rightarrow> nat" where
  "get_active_user_count now db =
     length (filter (\<lambda>u. u_last_active_at u \<ge> now - 180) (db_users db))"

definition is_active :: "int \<Rightarrow> user \<Rightarrow> bool" where
  "is_active now u = (if u_last_active_at u \<noteq> 0 then u_last_active_at u \<ge> now - 180 else False)"

definition is_user_active :: "int \<Rightarrow> string \<Rightarrow> user_db \<Rightarrow> bool" where
  "is_user_active now i db =
     (case get_user_by_id i db of None \<Rightarrow> False | Some u \<Rightarrow> is_active now u)"

section \<open>Updates\<close>

text \<open>
  \<open>insert_new_user\<close>: \<open>check_url\<close> is the validator of profile image URLs, whose failure selects the
  default picture; the keys of the table are \<open>id\<close> and \<open>email\<close>.
\<close>

definition insert_user_row :: "user \<Rightarrow> user_db \<Rightarrow> user_db result" where
  "insert_user_row u db =
     (if u_id u \<in> u_id ` set (db_users db) \<or> u_email u \<in> u_email ` set (db_users db)
      then Inl IntegrityError else Inr (db\<lparr>db_users := db_users db @ [u]\<rparr>))"

definition insert_new_user ::
  "(string \<Rightarrow> string option) \<Rightarrow> int \<Rightarrow> string \<Rightarrow> string \<Rightarrow> string \<Rightarrow> string \<Rightarrow> string
     \<Rightarrow> string option \<Rightarrow> dict \<Rightarrow> user_db \<Rightarrow> (user \<times> user_db) result" where
  "insert_new_user check_url now i name email url role username oauth db =
     (let u = \<lparr>u_id = i, u_email = email, u_username = username, u_role = role, u_name = name,
               u_profile_image_url = (case check_url url of None \<Rightarrow> ''/user.png'' | Some v \<Rightarrow> v),
               u_settings = [], u_oauth = oauth, u_scim = [],
               u_last_active_at = now, u_updated_at = now, u_created_at = now\<rparr>
      in rbind (insert_user_row u db) (\<lambda>db'. Inr (u, db')))"

definition update_user :: "string \<Rightarrow> (user \<Rightarrow> user) \<Rightarrow> user_db \<Rightarrow> user option \<times> user_db" where
  "update_user i f db =
     (case get_user_by_id i db of
        None \<Rightarrow> (None, db)
      | Some u \<Rightarrow> (Some (f u),
          db\<lparr>db_users := map (\<lambda>v. if u_id v = i then f v else v) (db_users db)\<rparr>))"

definition update_user_role_by_id :: "string \<Rightarrow> string \<Rightarrow> user_db \<Rightarrow> user option \<times> user_db" where
  "update_user_role_by_id i role = update_user i (\<lambda>u. u\<lparr>u_role := role\<rparr>)"

definition update_user_profile_image_url_by_id ::
  "(string \<Rightarrow> string option) \<Rightarrow> string \<Rightarrow> string \<Rightarrow> user_db \<Rightarrow> user option \<times> user_db" where
  "update_user_profile_image_url_by_id check_url i url =
     update_user i (\<lambda>u. u\<lparr>u_profile_image_url := (case check_url url of None \<Rightarrow> ''/user.png'' | Some v \<Rightarrow> v)\<rparr>)"

definition update_last_active_by_id :: "int \<Rightarrow> string \<Rightarrow> user_db \<Rightarrow> user_db" where
  "update_last_active_by_id now i db =
     db\<lparr>db_users := map (\<lambda>u. if u_id u = i then u\<lparr>u_last_active_at := now\<rparr> else u) (db_users db)\<rparr>"

definition update_user_oauth_by_id ::
  "string \<Rightarrow> string \<Rightarrow> string \<Rightarrow> user_db \<Rightarrow> user option \<times> user_db" where
  "update_user_oauth_by_id i provider sub =
     update_user i (\<lambda>u. u\<lparr>u_oauth := dset (u_oauth u) provider (VDict [(''sub'', VStr sub)])\<rparr>)"

definition update_user_scim_by_id ::
  "string \<Rightarrow> string \<Rightarrow> string \<Rightarrow> user_db \<Rightarrow> user option \<times> user_db" where
  "update_user_scim_by_id i provider external_id =
     update_user i (\<lambda>u. u\<lparr>u_scim := dset (u_scim u) provider (VDict [(''external_id'', VStr external_id)])\<rparr>)"

definition update_user_settings_by_id ::
  "string \<Rightarrow> dict \<Rightarrow> user_db \<Rightarrow> user option \<times> user_db" where
  "update_user_settings_by_id i updated =
     update_user i (\<lambda>u. u\<lparr>u_settings := dmerge (u_settings u) updated\<rparr>)"

definition get_user_api_key_by_id :: "string \<Rightarrow> user_db \<Rightarrow> string option" where
  "get_user_api_key_by_id i db = map_option ak_key (List.find (\<lambda>k. ak_user_id k = i) (db_api_keys db))"

definition delete_user_api_key_by_id :: "string \<Rightarrow> user_db \<Rightarrow> bool \<times> user_db" where
  "delete_user_api_key_by_id i db =
     (True, db\<lparr>db_api_keys := filter (\<lambda>k. ak_user_id k \<noteq> i) (db_api_keys db)\<rparr>)"

definition update_user_api_key_by_id ::
  "int \<Rightarrow> string \<Rightarrow> string \<Rightarrow> user_db \<Rightarrow> (bool \<times> user_db) result" where
  "update_user_api_key_by_id now i key db =
     (let ks = filter (\<lambda>k. ak_user_id k \<noteq> i) (db_api_keys db);
          new = \<lparr>ak_id = ''key_'' @ i, ak_user_id = i, ak_key = key, ak_created_at = now,
                 ak_updated_at = now\<rparr>
      in if ak_id new \<in> ak_id ` set ks \<or> key \<in> ak_key ` set ks then Inl IntegrityError
         else Inr (True, db\<lparr>db_api_keys := ks @ [new]\<rparr>))"

text \<open>
  \<open>delete_user_by_id\<close>: the memberships go first, in a transaction of their own; \<open>chats_deleted\<close> is
  the answer of \<open>Chats.delete_chats_by_user_id\<close>.
\<close>

definition delete_user_by_id ::
  "int \<Rightarrow> bool \<Rightarrow> string \<Rightarrow> group_db \<Rightarrow> user_db \<Rightarrow> bool \<times> group_db \<times> user_db" where
  "delete_user_by_id now chats_deleted i gdb db =
     (let gdb' = snd (remove_user_from_all_groups now i gdb)
      in if \<not> chats_deleted then (False, gdb', db)
         else (True, gdb', db\<lparr>db_users := filter (\<lambda>u. u_id u \<noteq> i) (db_users db)\<rparr>))"

section \<open>Properties\<close>

interpretation us: unique_table db_users insert_user_row u_id u_email "\<lambda>u db. True"
  by unfold_locales (auto simp: insert_user_row_def split: if_splits)

lemma insert_user_row_wf: "insert_user_row u db = Inr db' \<Longrightarrow> wf_user_db db \<Longrightarrow> wf_user_db db'"
  using us.insert_all_keys [of "[u]" db db'] by (auto simp: wf_user_db_def)

lemma set_user_order [simp]: "set (user_order gdb q us) = set us"
  by (auto simp: user_order_def Let_def split: option.splits)

lemma non_pending_role: "user_role_filter [''!pending''] u \<longleftrightarrow> u_role u \<noteq> ''pending''"
  by (simp add: user_role_filter_def)

lemma get_users_non_pending:
  "set (fst (get_users ilike gdb cm (Some non_pending_query) None None db)) =
     {u \<in> set (db_users db). u_role u \<noteq> ''pending''}"
  by (auto simp: get_users_def non_pending_query_def user_filter_def paginate_def non_pending_role Let_def)

lemma get_users_bound:
  "length (fst (get_users ilike gdb cm filt skip (Some l) db)) \<le> l"
  by (auto simp: get_users_def Let_def length_paginate split: option.splits)

lemma get_users_subset:
  "set (fst (get_users ilike gdb cm (Some q) skip limit db))
     \<subseteq> {u \<in> set (db_users db). user_filter ilike gdb cm q u}"
  using set_paginate [of skip limit "user_order gdb q (filter (user_filter ilike gdb cm q) (db_users db))"]
  by (auto simp: get_users_def Let_def)

text \<open>A page of the user listing holds at most \<open>limit\<close> users, all of them accounts that
  satisfy the filter; the reported total is the number of accounts that satisfy it, whatever the
  page.\<close>

theorem get_users_page:
  assumes "\<not> (uq_user_ids q = Some [] \<and> uq_group_ids q = Some [])"
  shows "length (fst (get_users ilike gdb cm (Some q) skip (Some l) db)) \<le> l \<and>
    (\<forall>u \<in> set (fst (get_users ilike gdb cm (Some q) skip (Some l) db)).
       u \<in> set (db_users db) \<and> user_filter ilike gdb cm q u) \<and>
    snd (get_users ilike gdb cm (Some q) skip (Some l) db)
      = length (filter (user_filter ilike gdb cm q) (db_users db))"
proof -
  have "snd (get_users ilike gdb cm (Some q) skip (Some l) db)
      = length (filter (user_filter ilike gdb cm q) (db_users db))"
    unfolding get_users_def using assms by (simp add: Let_def del: de_Morgan_conj)
  then show ?thesis
    using get_users_bound [of ilike gdb cm "Some q" skip l db]
      get_users_subset [of ilike gdb cm q skip "Some l" db] by auto
qed

lemma get_users_page_witness:
  "length (fst (get_users (\<lambda>a b. True) \<lparr>db_groups = [], db_members = [], db_uuid = 0\<rparr> []
     (Some non_pending_query) (Some 0) (Some 30) \<lparr>db_users = [], db_api_keys = []\<rparr>)) \<le> 30"
  using get_users_page [of non_pending_query "\<lambda>a b. True"
      "\<lparr>db_groups = [], db_members = [], db_uuid = 0\<rparr>" "[]" "Some 0" 30 "\<lparr>db_users = [], db_api_keys = []\<rparr>"]
  by (simp add: non_pending_query_def)

lemma get_user_by_api_key_new:
  "get_user_by_api_key key (db\<lparr>db_api_keys := ks @ [n]\<rparr>) =
     List.find (\<lambda>u. (\<exists>k \<in> set ks. ak_user_id k = u_id u \<and> ak_key k = key)
                   \<or> (ak_user_id n = u_id u \<and> ak_key n = key)) (db_users db)"
  by (auto simp: get_user_by_api_key_def intro: arg_cong [of _ _ "\<lambda>P. List.find P (db_users db)"])

text \<open>Setting a user's API key retires the old one: the new key authenticates exactly that
  user, and no other key authenticates as that user any more.\<close>

theorem api_key_rotation:
  assumes "update_user_api_key_by_id now i key db = Inr (b, db')"
  shows "get_user_by_api_key key db' = get_user_by_id i db \<and>
    (\<forall>k u. k \<noteq> key \<longrightarrow> get_user_by_api_key k db' = Some u \<longrightarrow> u_id u \<noteq> i)"
proof -
  define ks where "ks = filter (\<lambda>k. ak_user_id k \<noteq> i) (db_api_keys db)"
  define n where "n = \<lparr>ak_id = ''key_'' @ i, ak_user_id = i, ak_key = key, ak_created_at = now,
                 ak_updated_at = now\<rparr>"
  have db': "db' = db\<lparr>db_api_keys := ks @ [n]\<rparr>" and new: "key \<notin> ak_key ` set ks"
    using assms by (auto simp: update_user_api_key_by_id_def Let_def ks_def n_def split: if_splits)
  have "(\<lambda>u. (\<exists>k \<in> set ks. ak_user_id k = u_id u \<and> ak_key k = key)
                   \<or> (ak_user_id n = u_id u \<and> ak_key n = key)) = (\<lambda>u. u_id u = i)"
    using new by (auto simp: n_def fun_eq_iff)
  then have "get_user_by_api_key key db' = get_user_by_id i db"
    unfolding db' get_user_by_api_key_new get_user_by_id_def
    by (rule arg_cong [where f = "\<lambda>P. List.find P (db_users db)"])
  moreover have "u_id u \<noteq> i" if "k \<noteq> key" "get_user_by_api_key k db' = Some u" for k u
    using that find_SomeD [of _ "db_users db" u]
    unfolding db' get_user_by_api_key_new by (fastforce simp: n_def ks_def)
  ultimately show ?thesis by blast
qed

lemma api_key_rotation_witness:
  "get_user_by_api_key ''new'' \<lparr>db_users = [], db_api_keys =
      [\<lparr>ak_id = ''key_u'', ak_user_id = ''u'', ak_key = ''new'', ak_created_at = 5, ak_updated_at = 5\<rparr>]\<rparr>
    = get_user_by_id ''u'' \<lparr>db_users = [], db_api_keys =
      [\<lparr>ak_id = ''key_u'', ak_user_id = ''u'', ak_key = ''old'', ak_created_at = 1, ak_updated_at = 1\<rparr>]\<rparr>"
  using api_key_rotation [of 5 "''u''" "''new''" "\<lparr>db_users = [], db_api_keys =
      [\<lparr>ak_id = ''key_u'', ak_user_id = ''u'', ak_key = ''old'', ak_created_at = 1, ak_updated_at = 1\<rparr>]\<rparr>"
      True "\<lparr>db_users = [], db_api_keys =
      [\<lparr>ak_id = ''key_u'', ak_user_id = ''u'', ak_key = ''new'', ak_created_at = 5, ak_updated_at = 5\<rparr>]\<rparr>"]
  by (simp add: update_user_api_key_by_id_def)

end
