(* ===== verification/AccessGrants.thy ===== *)
theory AccessGrants
  imports Users
begin

text \<open>
  Access grants: \<open>backend/open_webui/models/access_grants.py\<close>. A grant gives a principal (a user,
  a group, every user as \<open>user:*\<close>, or anyone without an account as \<open>anyone:*\<close>) the permission
  \<open>read\<close> or \<open>write\<close> on a resource. The state is the \<open>access_grant\<close> table, whose five columns
  besides the id are unique together. The conversions between the legacy \<open>access_control\<close>
  dictionaries and grants, the clean-up of grant lists of unknown shape from API forms, the table's
  operations and the query filters are modelled.
\<close>

section \<open>Grants\<close>

record access_grant =
  ag_id :: string
  ag_resource_type :: string
  ag_resource_id :: string
  ag_principal_type :: string
  ag_principal_id :: string
  ag_permission :: string
  ag_created_at :: int

text \<open>A grant as a dictionary without an id, as the conversions build it.\<close>

record grant_dict =
  gd_resource_type :: string
  gd_resource_id :: string
  gd_principal_type :: string
  gd_principal_id :: string
  gd_permission :: string

text \<open>The slim grant of API responses and of normalised payloads.\<close>

record access_grant_response =
  agr_id :: string
  agr_principal_type :: string
  agr_principal_id :: string
  agr_permission :: string

definition from_grant :: "access_grant \<Rightarrow> access_grant_response" where
  "from_grant g = \<lparr>agr_id = ag_id g, agr_principal_type = ag_principal_type g,
                   agr_principal_id = ag_principal_id g, agr_permission = ag_permission g\<rparr>"

record grant_db =
  db_grants :: "access_grant list"
  gdb_uuid :: nat

definition grant_key :: "access_grant \<Rightarrow> string \<times> string \<times> string \<times> string \<times> string" where
  "grant_key g = (ag_resource_type g, ag_resource_id g, ag_principal_type g, ag_principal_id g,
                  ag_permission g)"

definition wf_grant_db :: "grant_db \<Rightarrow> bool" where
  "wf_grant_db db \<longleftrightarrow> distinct (map ag_id (db_grants db)) \<and> distinct (map grant_key (db_grants db))"

text \<open>The columns of a grant that say who may do what, without the resource.\<close>

type_synonym triple = "string \<times> string \<times> string"

definition grant_triple :: "access_grant \<Rightarrow> triple" where
  "grant_triple g = (ag_principal_type g, ag_principal_id g, ag_permission g)"

definition response_triple :: "access_grant_response \<Rightarrow> triple" where
  "response_triple g = (agr_principal_type g, agr_principal_id g, agr_permission g)"

section \<open>Conversions\<close>

text \<open>
  The legacy dictionary \<open>{read: {group_ids, user_ids}, write: {group_ids, user_ids}}\<close>, each part of
  which may be missing; \<open>None\<close> means public.
\<close>

type_synonym perm_data = "(string, string list) pydict"
type_synonym access_control = "(string, perm_data) pydict"

definition permission_grants :: "string \<Rightarrow> string \<Rightarrow> access_control \<Rightarrow> string \<Rightarrow> grant_dict list" where
  "permission_grants rtype rid ac perm =
     (let perm_data = dget_or ac perm []
      in if perm_data = [] then []
         else map (\<lambda>i. \<lparr>gd_resource_type = rtype, gd_resource_id = rid, gd_principal_type = ''group'',
                        gd_principal_id = i, gd_permission = perm\<rparr>) (dget_or perm_data ''group_ids'' [])
            @ map (\<lambda>i. \<lparr>gd_resource_type = rtype, gd_resource_id = rid, gd_principal_type = ''user'',
                        gd_principal_id = i, gd_permission = perm\<rparr>) (dget_or perm_data ''user_ids'' []))"

definition access_control_to_grants :: "string \<Rightarrow> string \<Rightarrow> access_control option \<Rightarrow> grant_dict list" where
  "access_control_to_grants rtype rid access_control =
     (case access_control of
        None \<Rightarrow> if rtype \<noteq> ''file'' then
                  [\<lparr>gd_resource_type = rtype, gd_resource_id = rid, gd_principal_type = ''user'',
                    gd_principal_id = ''*'', gd_permission = ''read''\<rparr>]
                else []
      | Some ac \<Rightarrow> if ac = [] then []
                   else concat (map (permission_grants rtype rid ac) [''read'', ''write'']))"

text \<open>
  An entry of a payload: a pydantic model, whose \<open>model_dump\<close> is the dictionary, or a JSON value.
\<close>

datatype grant_item = GModel dict | GJson pyval

fun item_dict :: "grant_item \<Rightarrow> dict option" where
  "item_dict (GModel d) = Some d"
| "item_dict (GJson (VDict d)) = Some d"
| "item_dict (GJson _) = None"

text \<open>\<open>getattr(grant, k, None)\<close> of a model, \<open>grant.get(k)\<close> of a dictionary, \<open>None\<close> of anything else.\<close>

definition item_get :: "grant_item \<Rightarrow> string \<Rightarrow> pyval" where
  "item_get g k = (case item_dict g of None \<Rightarrow> VNone | Some d \<Rightarrow> vget d k)"

text \<open>The checks of \<open>normalize_access_grants\<close>: the valid grant an entry stands for, if any.\<close>

definition valid_triple :: "dict \<Rightarrow> triple option" where
  "valid_triple d =
     (case (vget d ''principal_type'', vget d ''permission'', vget d ''principal_id'') of
        (VStr pt, VStr perm, VStr pid) \<Rightarrow>
          if pt \<notin> {''user'', ''group'', ''anyone''} then None
          else if perm \<notin> {''read'', ''write''} then None
          else if pid = [] then None
          else if pt = ''anyone'' \<and> (pid \<noteq> ''*'' \<or> perm \<noteq> ''read'') then None
          else Some (pt, pid, perm)
      | _ \<Rightarrow> None)"

fun normalize_loop ::
  "(nat \<Rightarrow> string) \<Rightarrow> grant_item list \<Rightarrow> (triple, access_grant_response) pydict \<Rightarrow> nat
     \<Rightarrow> (triple, access_grant_response) pydict \<times> nat" where
  "normalize_loop uuid [] deduped n = (deduped, n)"
| "normalize_loop uuid (g # gs) deduped n =
     (case item_dict g of
        None \<Rightarrow> normalize_loop uuid gs deduped n
      | Some d \<Rightarrow>
          (case valid_triple d of
             None \<Rightarrow> normalize_loop uuid gs deduped n
           | Some (pt, pid, perm) \<Rightarrow>
               let (i, n') = (case vget d ''id'' of
                                VStr s \<Rightarrow> if s \<noteq> [] then (s, n) else (uuid n, Suc n)
                              | _ \<Rightarrow> (uuid n, Suc n))
               in normalize_loop uuid gs
                    (dset deduped (pt, pid, perm)
                       \<lparr>agr_id = i, agr_principal_type = pt, agr_principal_id = pid, agr_permission = perm\<rparr>)
                    n'))"

definition normalize_access_grants ::
  "(nat \<Rightarrow> string) \<Rightarrow> grant_item list option \<Rightarrow> nat \<Rightarrow> access_grant_response list \<times> nat" where
  "normalize_access_grants uuid grants n =
     (case grants of
        None \<Rightarrow> ([], n)
      | Some gs \<Rightarrow> if gs = [] then ([], n)
                   else let (deduped, n') = normalize_loop uuid gs [] n in (dvalues deduped, n'))"

text \<open>The ids drawn by the normalisation of the \<open>has_\<dots>\<close> tests are discarded.\<close>

definition normalized :: "grant_item list option \<Rightarrow> access_grant_response list" where
  "normalized grants = fst (normalize_access_grants (\<lambda>n. []) grants 0)"

definition has_public_read_access_grant :: "grant_item list option \<Rightarrow> bool" where
  "has_public_read_access_grant gs \<longleftrightarrow>
     list_ex (\<lambda>g. agr_principal_type g = ''user'' \<and> agr_principal_id g = ''*'' \<and> agr_permission g = ''read'')
       (normalized gs)"

definition has_public_write_access_grant :: "grant_item list option \<Rightarrow> bool" where
  "has_public_write_access_grant gs \<longleftrightarrow>
     list_ex (\<lambda>g. agr_principal_type g = ''user'' \<and> agr_principal_id g = ''*'' \<and> agr_permission g = ''write'')
       (normalized gs)"

definition has_anyone_read_access_grant :: "grant_item list option \<Rightarrow> bool" where
  "has_anyone_read_access_grant gs \<longleftrightarrow>
     list_ex (\<lambda>g. agr_principal_type g = ''anyone'' \<and> agr_principal_id g = ''*'' \<and> agr_permission g = ''read'')
       (normalized gs)"

definition has_user_access_grant :: "grant_item list option \<Rightarrow> bool" where
  "has_user_access_grant gs \<longleftrightarrow>
     list_ex (\<lambda>g. agr_principal_type g = ''user'' \<and> agr_principal_id g \<noteq> ''*'') (normalized gs)"

definition strip_user_access_grants :: "grant_item list option \<Rightarrow> grant_item list" where
  "strip_user_access_grants gs =
     (case gs of None \<Rightarrow> []
      | Some gs \<Rightarrow> filter (\<lambda>g. \<not> (item_get g ''principal_type'' = VStr ''user''
                                  \<and> item_get g ''principal_id'' \<noteq> VStr ''*'')) gs)"

definition strip_anyone_access_grants :: "grant_item list option \<Rightarrow> grant_item list" where
  "strip_anyone_access_grants gs =
     (case gs of None \<Rightarrow> []
      | Some gs \<Rightarrow> filter (\<lambda>g. item_get g ''principal_type'' \<noteq> VStr ''anyone'') gs)"

text \<open>\<open>result[permission][key].append(id)\<close>, unless the id is there already.\<close>

definition append_id :: "access_control \<Rightarrow> string \<Rightarrow> string \<Rightarrow> string \<Rightarrow> access_control" where
  "append_id ac perm key i =
     (let pd = dget_or ac perm []; ids = dget_or pd key []
      in if i \<in> set ids then ac else dset ac perm (dset pd key (ids @ [i])))"

fun access_control_loop :: "access_grant list \<Rightarrow> access_control \<Rightarrow> bool \<Rightarrow> access_control \<times> bool" where
  "access_control_loop [] result is_public = (result, is_public)"
| "access_control_loop (g # gs) result is_public =
     (if ag_principal_type g = ''user'' \<and> ag_principal_id g = ''*'' \<and> ag_permission g = ''read''
      then access_control_loop gs result True
      else if ag_permission g \<notin> {''read'', ''write''} then access_control_loop gs result is_public
      else if ag_principal_type g = ''group'' then
        access_control_loop gs (append_id result (ag_permission g) ''group_ids'' (ag_principal_id g)) is_public
      else if ag_principal_type g = ''user'' then
        access_control_loop gs (append_id result (ag_permission g) ''user_ids'' (ag_principal_id g)) is_public
      else access_control_loop gs result is_public)"

definition empty_access_control :: access_control where
  "empty_access_control =
     [(''read'', [(''group_ids'', []), (''user_ids'', [])]),
      (''write'', [(''group_ids'', []), (''user_ids'', [])])]"

definition grants_to_access_control :: "access_grant list \<Rightarrow> access_control option" where
  "grants_to_access_control grants =
     (if grants = [] then Some []
      else let (result, is_public) = access_control_loop grants empty_access_control False
           in if is_public then None else Some result)"

section \<open>The table\<close>

definition insert_grant :: "access_grant \<Rightarrow> grant_db \<Rightarrow> grant_db result" where
  "insert_grant g db =
     (if ag_id g \<in> ag_id ` set (db_grants db) \<or> grant_key g \<in> grant_key ` set (db_grants db)
      then Inl IntegrityError else Inr (db\<lparr>db_grants := db_grants db @ [g]\<rparr>))"

definition delete_grants :: "(access_grant \<Rightarrow> bool) \<Rightarrow> grant_db \<Rightarrow> grant_db" where
  "delete_grants P db = db\<lparr>db_grants := filter (\<lambda>g. \<not> P g) (db_grants db)\<rparr>"

definition of_resource :: "string \<Rightarrow> string \<Rightarrow> access_grant \<Rightarrow> bool" where
  "of_resource rtype rid g \<longleftrightarrow> ag_resource_type g = rtype \<and> ag_resource_id g = rid"

definition grant_access ::
  "(nat \<Rightarrow> string) \<Rightarrow> int \<Rightarrow> string \<Rightarrow> string \<Rightarrow> string \<Rightarrow> string \<Rightarrow> string \<Rightarrow> grant_db
     \<Rightarrow> (access_grant \<times> grant_db) result" where
  "grant_access uuid now rtype rid ptype pid perm db =
     (case List.find (\<lambda>g. grant_key g = (rtype, rid, ptype, pid, perm)) (db_grants db) of
        Some g \<Rightarrow> Inr (g, db)
      | None \<Rightarrow>
          let g = \<lparr>ag_id = uuid (gdb_uuid db), ag_resource_type = rtype, ag_resource_id = rid,
                   ag_principal_type = ptype, ag_principal_id = pid, ag_permission = perm,
                   ag_created_at = now\<rparr>
          in rbind (insert_grant g (db\<lparr>gdb_uuid := Suc (gdb_uuid db)\<rparr>)) (\<lambda>db'. Inr (g, db')))"

text \<open>The statement's row count is the number of rows it deletes.\<close>

definition revoke_access ::
  "string \<Rightarrow> string \<Rightarrow> string \<Rightarrow> string \<Rightarrow> string \<Rightarrow> grant_db \<Rightarrow> bool \<times> grant_db" where
  "revoke_access rtype rid ptype pid perm db =
     (let hit = (\<lambda>g. grant_key g = (rtype, rid, ptype, pid, perm))
      in (0 < length (filter hit (db_grants db)), delete_grants hit db))"

definition revoke_all_access :: "string \<Rightarrow> string \<Rightarrow> grant_db \<Rightarrow> nat \<times> grant_db" where
  "revoke_all_access rtype rid db =
     (length (filter (of_resource rtype rid) (db_grants db)), delete_grants (of_resource rtype rid) db)"

fun grant_rows ::
  "(nat \<Rightarrow> string) \<Rightarrow> int \<Rightarrow> string \<Rightarrow> string \<Rightarrow> triple list \<Rightarrow> nat \<Rightarrow> access_grant list" where
  "grant_rows uuid now rtype rid [] n = []"
| "grant_rows uuid now rtype rid ((pt, pid, perm) # ts) n =
     \<lparr>ag_id = uuid n, ag_resource_type = rtype, ag_resource_id = rid, ag_principal_type = pt,
      ag_principal_id = pid, ag_permission = perm, ag_created_at = now\<rparr>
     # grant_rows uuid now rtype rid ts (Suc n)"

text \<open>
  \<open>set_access_control\<close> and \<open>set_access_grants\<close>: delete the resource's grants and insert the new ones
  in one transaction; an error is raised and leaves the table as it was.
\<close>

definition replace_grants ::
  "(nat \<Rightarrow> string) \<Rightarrow> int \<Rightarrow> string \<Rightarrow> string \<Rightarrow> triple list \<Rightarrow> nat \<Rightarrow> grant_db
     \<Rightarrow> access_grant list result \<times> grant_db" where
  "replace_grants uuid now rtype rid ts n db =
     (let rows = grant_rows uuid now rtype rid ts n;
          m = n + length ts
      in case insert_all insert_grant rows (delete_grants (of_resource rtype rid) db) of
           Inl e \<Rightarrow> (Inl e, db\<lparr>gdb_uuid := m\<rparr>)
         | Inr db' \<Rightarrow> (Inr rows, db'\<lparr>gdb_uuid := m\<rparr>))"

definition set_access_control ::
  "(nat \<Rightarrow> string) \<Rightarrow> int \<Rightarrow> string \<Rightarrow> string \<Rightarrow> access_control option \<Rightarrow> grant_db
     \<Rightarrow> access_grant list result \<times> grant_db" where
  "set_access_control uuid now rtype rid ac db =
     replace_grants uuid now rtype rid
       (map (\<lambda>g. (gd_principal_type g, gd_principal_id g, gd_permission g))
          (access_control_to_grants rtype rid ac)) (gdb_uuid db) db"

definition set_access_grants ::
  "(nat \<Rightarrow> string) \<Rightarrow> int \<Rightarrow> string \<Rightarrow> string \<Rightarrow> grant_item list option \<Rightarrow> grant_db
     \<Rightarrow> access_grant list result \<times> grant_db" where
  "set_access_grants uuid now rtype rid grants db =
     (let (normalized_grants, n) = normalize_access_grants uuid grants (gdb_uuid db)
      in replace_grants uuid now rtype rid (map response_triple normalized_grants) n db)"

definition get_grants_by_resource :: "string \<Rightarrow> string \<Rightarrow> grant_db \<Rightarrow> access_grant list" where
  "get_grants_by_resource rtype rid db = filter (of_resource rtype rid) (db_grants db)"

definition get_access_control :: "string \<Rightarrow> string \<Rightarrow> grant_db \<Rightarrow> access_control option" where
  "get_access_control rtype rid db = grants_to_access_control (get_grants_by_resource rtype rid db)"

definition get_grants_by_resources ::
  "string \<Rightarrow> string list \<Rightarrow> grant_db \<Rightarrow> (string, access_grant list) pydict" where
  "get_grants_by_resources rtype rids db =
     (if rids = [] then []
      else foldl (\<lambda>d g. dset d (ag_resource_id g) (dget_or d (ag_resource_id g) [] @ [g]))
             (map (\<lambda>r. (r, [])) (remdups rids))
             (filter (\<lambda>g. ag_resource_type g = rtype \<and> ag_resource_id g \<in> set rids) (db_grants db)))"

section \<open>Checks\<close>

definition has_anyone_access :: "string \<Rightarrow> string \<Rightarrow> string \<Rightarrow> grant_db \<Rightarrow> bool" where
  "has_anyone_access rtype rid perm db \<longleftrightarrow>
     list_ex (\<lambda>g. of_resource rtype rid g \<and> grant_triple g = (''anyone'', ''*'', perm)) (db_grants db)"

text \<open>
  The disjunction over the principals a user acts as. Without a set of group ids the groups are
  read from the group tables; an empty set adds no condition.
\<close>

definition effective_group_ids :: "group_db \<Rightarrow> string \<Rightarrow> string list option \<Rightarrow> string list" where
  "effective_group_ids gdb uid gids =
     (case gids of None \<Rightarrow> map g_id (get_groups_by_member_id uid gdb) | Some gs \<Rightarrow> gs)"

definition principal_matches :: "string \<Rightarrow> string list \<Rightarrow> access_grant \<Rightarrow> bool" where
  "principal_matches uid gids g \<longleftrightarrow>
     (ag_principal_type g = ''user'' \<and> ag_principal_id g = ''*'')
   \<or> (ag_principal_type g = ''user'' \<and> ag_principal_id g = uid)
   \<or> (gids \<noteq> [] \<and> ag_principal_type g = ''group'' \<and> ag_principal_id g \<in> set gids)"

definition has_access ::
  "group_db \<Rightarrow> string \<Rightarrow> string \<Rightarrow> string \<Rightarrow> string \<Rightarrow> string list option \<Rightarrow> grant_db \<Rightarrow> bool" where
  "has_access gdb uid rtype rid perm gids db \<longleftrightarrow>
     list_ex (\<lambda>g. of_resource rtype rid g \<and> ag_permission g = perm
                  \<and> principal_matches uid (effective_group_ids gdb uid gids) g) (db_grants db)"

definition get_accessible_resource_ids ::
  "group_db \<Rightarrow> string \<Rightarrow> string \<Rightarrow> string list \<Rightarrow> string \<Rightarrow> string list option \<Rightarrow> grant_db
     \<Rightarrow> string set" where
  "get_accessible_resource_ids gdb uid rtype rids perm gids db =
     (if rids = [] then {}
      else set (map ag_resource_id
             (filter (\<lambda>g. ag_resource_type g = rtype \<and> ag_resource_id g \<in> set rids
                          \<and> ag_permission g = perm
                          \<and> principal_matches uid (effective_group_ids gdb uid gids) g)
               (db_grants db))))"

fun users_with_access_ids :: "group_db \<Rightarrow> access_grant list \<Rightarrow> string list" where
  "users_with_access_ids gdb [] = []"
| "users_with_access_ids gdb (g # gs) =
     (if ag_principal_type g = ''user'' then [ag_principal_id g]
      else if ag_principal_type g = ''group'' then get_group_user_ids_by_id (ag_principal_id g) gdb
      else []) @ users_with_access_ids gdb gs"

definition get_users_with_access ::
  "(string \<Rightarrow> string \<Rightarrow> bool) \<Rightarrow> (string \<times> string) list \<Rightarrow> group_db \<Rightarrow> user_db
     \<Rightarrow> string \<Rightarrow> string \<Rightarrow> string \<Rightarrow> grant_db \<Rightarrow> user list" where
  "get_users_with_access ilike channel_members gdb udb rtype rid perm db =
     (let grants = filter (\<lambda>g. of_resource rtype rid g \<and> ag_permission g = perm) (db_grants db)
      in if list_ex (\<lambda>g. ag_principal_type g = ''user'' \<and> ag_principal_id g = ''*'') grants
         then fst (get_users ilike gdb channel_members (Some non_pending_query) None None udb)
         else let ids = users_with_access_ids gdb grants
              in if ids = [] then [] else get_users_by_user_ids ids udb)"

section \<open>Query filters\<close>

text \<open>
  A document of a query: its id and its owner. The filter dictionary's \<open>group_ids\<close> default to the
  empty list, its \<open>user_id\<close> may be missing. \<open>or_()\<close> without a clause is what the SQL library makes
  of it, a parameter \<open>empty_or\<close>.
\<close>

record document =
  doc_id :: string
  doc_user_id :: string

definition direct_principal :: "string option \<Rightarrow> string list \<Rightarrow> access_grant \<Rightarrow> bool" where
  "direct_principal uid gids g \<longleftrightarrow>
     (given uid \<and> ag_principal_type g = ''user'' \<and> Some (ag_principal_id g) = uid)
   \<or> (gids \<noteq> [] \<and> ag_principal_type g = ''group'' \<and> ag_principal_id g \<in> set gids)"

definition read_only_permission_filter ::
  "bool \<Rightarrow> string option \<Rightarrow> string list \<Rightarrow> string \<Rightarrow> grant_db \<Rightarrow> document list \<Rightarrow> document list" where
  "read_only_permission_filter empty_or uid gids rtype db docs =
     (let principal = (\<lambda>g. if given uid \<or> gids \<noteq> [] then direct_principal uid gids g else empty_or);
          read_grant = (\<lambda>d. list_ex (\<lambda>g. of_resource rtype (doc_id d) g \<and> ag_permission g = ''read''
                                         \<and> principal g) (db_grants db));
          write_grant = (\<lambda>d. list_ex (\<lambda>g. of_resource rtype (doc_id d) g \<and> ag_permission g = ''write''
                                          \<and> principal g) (db_grants db));
          public_grant = (\<lambda>d. list_ex (\<lambda>g. of_resource rtype (doc_id d) g
                                \<and> grant_triple g = (''user'', ''*'', ''read'')) (db_grants db))
      in filter (\<lambda>d. read_grant d \<and> \<not> write_grant d \<and> \<not> public_grant d
                     \<and> (given uid \<longrightarrow> Some (doc_user_id d) \<noteq> uid)) docs)"

definition has_permission_filter ::
  "bool \<Rightarrow> string option \<Rightarrow> string list \<Rightarrow> string \<Rightarrow> string \<Rightarrow> grant_db \<Rightarrow> document list \<Rightarrow> document list" where
  "has_permission_filter empty_or uid gids rtype perm db docs =
     (if perm = ''read_only'' then read_only_permission_filter empty_or uid gids rtype db docs
      else if \<not> (gids \<noteq> [] \<or> given uid) then docs
      else filter (\<lambda>d.
             list_ex (\<lambda>g. of_resource rtype (doc_id d) g \<and> ag_permission g = perm
                 \<and> ((ag_principal_type g = ''user'' \<and> ag_principal_id g = ''*'')
                    \<or> direct_principal uid gids g)) (db_grants db)
             \<or> (given uid \<and> Some (doc_user_id d) = uid)) docs)"

section \<open>Normalisation\<close>

definition item_triple :: "grant_item \<Rightarrow> triple option" where
  "item_triple g = (case item_dict g of None \<Rightarrow> None | Some d \<Rightarrow> valid_triple d)"

lemma normalize_loop_wf:
  "wf_dict d \<Longrightarrow> wf_dict (fst (normalize_loop uuid gs d n))"
  by (induction uuid gs d n rule: normalize_loop.induct)
    (auto split: option.splits prod.splits simp: Let_def)

lemma normalize_loop_keys:
  "fst ` set (fst (normalize_loop uuid gs d n)) = fst ` set d \<union> {t. \<exists>g \<in> set gs. item_triple g = Some t}"
  by (induction uuid gs d n rule: normalize_loop.induct)
    (auto split: option.splits prod.splits simp: Let_def item_triple_def)

lemma response_triple_make [simp]:
  "response_triple \<lparr>agr_id = i, agr_principal_type = pt, agr_principal_id = pid, agr_permission = perm\<rparr>
     = (pt, pid, perm)"
  by (simp add: response_triple_def)

definition keyed_by_triple :: "(triple, access_grant_response) pydict \<Rightarrow> bool" where
  "keyed_by_triple d \<longleftrightarrow> (\<forall>x \<in> set d. response_triple (snd x) = fst x)"

lemma keyed_by_triple_dset:
  "keyed_by_triple d \<Longrightarrow> response_triple r = k \<Longrightarrow> keyed_by_triple (dset d k r)"
  unfolding keyed_by_triple_def by (induction d) auto

lemma keyed_by_triple_loop:
  "keyed_by_triple d \<Longrightarrow> keyed_by_triple (fst (normalize_loop uuid gs d n))"
  by (induction gs arbitrary: d n)
    (simp_all add: Let_def keyed_by_triple_dset split: option.split prod.split)

lemma normalize_loop_mono: "n \<le> snd (normalize_loop uuid gs d n)"
  by (induction gs arbitrary: d n)
    (auto simp: Let_def split: option.split prod.split pyval.split intro: Suc_leD)

lemma normalize_map:
  "map response_triple (fst (normalize_access_grants uuid (Some gs) n)) =
     map fst (fst (normalize_loop uuid gs [] n))"
  using keyed_by_triple_loop [of "[]" uuid gs n]
  by (simp add: normalize_access_grants_def split_beta keyed_by_triple_def)

lemma normalize_distinct: "distinct (map response_triple (fst (normalize_access_grants uuid grants n)))"
proof (cases grants)
  case (Some gs)
  then show ?thesis
    using normalize_loop_wf [of "[]" uuid gs n] unfolding wf_dict_def by (simp only: normalize_map) simp
qed (simp add: normalize_access_grants_def)

lemma normalize_set:
  "response_triple ` set (fst (normalize_access_grants uuid grants n)) =
     {t. \<exists>gs g. grants = Some gs \<and> g \<in> set gs \<and> item_triple g = Some t}"
proof (cases grants)
  case (Some gs)
  have "response_triple ` set (fst (normalize_access_grants uuid (Some gs) n)) =
      fst ` set (fst (normalize_loop uuid gs [] n))"
    using arg_cong [OF normalize_map, of set] by simp
  then show ?thesis unfolding Some normalize_loop_keys by auto
qed (simp add: normalize_access_grants_def)

lemma normalize_mono: "n \<le> snd (normalize_access_grants uuid grants n)"
  using normalize_loop_mono [of n uuid "the grants" "[]"]
  by (auto simp: normalize_access_grants_def split: option.split prod.split)

lemma valid_tripleD:
  "valid_triple d = Some (pt, pid, perm) \<Longrightarrow>
     pt \<in> {''user'', ''group'', ''anyone''} \<and> perm \<in> {''read'', ''write''} \<and> pid \<noteq> [] \<and>
     (pt = ''anyone'' \<longrightarrow> pid = ''*'' \<and> perm = ''read'')"
  by (auto simp: valid_triple_def split: pyval.splits if_splits)

text \<open>Whatever the payload, the normalised grants are exactly the valid ones it contains, each
  once: a principal type the system knows, \<open>read\<close> or \<open>write\<close>, a non-empty principal id, and for
  \<open>anyone\<close> only \<open>*\<close> with \<open>read\<close>.\<close>

theorem normalize_access_grants_valid:
  "distinct (map response_triple (fst (normalize_access_grants uuid grants n))) \<and>
   response_triple ` set (fst (normalize_access_grants uuid grants n)) =
     {t. \<exists>gs g. grants = Some gs \<and> g \<in> set gs \<and> item_triple g = Some t} \<and>
   response_triple ` set (fst (normalize_access_grants uuid grants n)) \<subseteq>
     {(pt, pid, perm). pt \<in> {''user'', ''group'', ''anyone''} \<and> perm \<in> {''read'', ''write''} \<and> pid \<noteq> [] \<and>
        \<not> (pt = ''anyone'' \<and> \<not> (pid = ''*'' \<and> perm = ''read''))}"
proof -
  have "t \<in> {(pt, pid, perm). pt \<in> {''user'', ''group'', ''anyone''} \<and> perm \<in> {''read'', ''write''} \<and> pid \<noteq> [] \<and>
        \<not> (pt = ''anyone'' \<and> \<not> (pid = ''*'' \<and> perm = ''read''))}" if "item_triple g = Some t" for g t
  proof (cases t)
    case (fields pt pid perm)
    with that obtain d where "valid_triple d = Some (pt, pid, perm)"
      by (auto simp: item_triple_def split: option.splits)
    from valid_tripleD [OF this] fields show ?thesis by blast
  qed
  then show ?thesis
    unfolding normalize_set using normalize_distinct [of uuid grants n] by blast
qed

section \<open>Replacing the grants of a resource\<close>

interpretation ag: unique_table db_grants insert_grant ag_id grant_key "\<lambda>g db. True"
  by unfold_locales (auto simp: insert_grant_def split: if_splits)

lemma delete_grants_simps [simp]:
  "db_grants (delete_grants P db) = filter (\<lambda>g. \<not> P g) (db_grants db)"
  "gdb_uuid (delete_grants P db) = gdb_uuid db"
  by (simp_all add: delete_grants_def)

lemma grant_rows_ids: "map ag_id (grant_rows uuid now rtype rid ts n) = map uuid [n..<n + length ts]"
proof (induction uuid now rtype rid ts n rule: grant_rows.induct)
  case (2 uuid now rtype rid pt pid perm ts n)
  then show ?case by (simp add: upt_conv_Cons del: upt_Suc)
qed simp

lemma grant_rows_triples [simp]: "map grant_triple (grant_rows uuid now rtype rid ts n) = ts"
  by (induction uuid now rtype rid ts n rule: grant_rows.induct) (auto simp: grant_triple_def)

lemma grant_rows_resource: "g \<in> set (grant_rows uuid now rtype rid ts n) \<Longrightarrow> of_resource rtype rid g"
  by (induction uuid now rtype rid ts n rule: grant_rows.induct) (auto simp: of_resource_def)

lemma grant_key_resource: "of_resource rtype rid g \<Longrightarrow> grant_key g = (rtype, rid, grant_triple g)"
  by (simp add: of_resource_def grant_key_def grant_triple_def)

lemma grant_rows_keys:
  "map grant_key (grant_rows uuid now rtype rid ts n) = map (\<lambda>t. (rtype, rid, t)) ts"
proof -
  let ?rows = "grant_rows uuid now rtype rid ts n"
  have "map grant_key ?rows = map (\<lambda>g. (rtype, rid, grant_triple g)) ?rows"
    by (rule map_cong [OF refl]) (rule grant_key_resource [OF grant_rows_resource])
  also have "\<dots> = map (\<lambda>t. (rtype, rid, t)) (map grant_triple ?rows)"
    by (simp only: map_map o_def)
  finally show ?thesis by (simp only: grant_rows_triples)
qed

lemma grant_rows_distinct: "distinct (map grant_key (grant_rows uuid now rtype rid ts n)) \<longleftrightarrow> distinct ts"
  unfolding grant_rows_keys by (auto simp: distinct_map inj_on_def)

lemma replace_grants_ok:
  assumes fresh: "fresh_from uuid (ag_id ` set (db_grants db)) n" and ts: "distinct ts"
  shows "\<exists>db'. replace_grants uuid now rtype rid ts n db = (Inr (grant_rows uuid now rtype rid ts n), db') \<and>
    db_grants db' = filter (\<lambda>g. \<not> of_resource rtype rid g) (db_grants db) @ grant_rows uuid now rtype rid ts n"
proof -
  let ?rows = "grant_rows uuid now rtype rid ts n"
  let ?db0 = "delete_grants (of_resource rtype rid) db"
  have "\<exists>db'. insert_all insert_grant ?rows ?db0 = Inr db'"
  proof (rule ag.insert_all_ok)
    show "distinct (map ag_id ?rows)"
      unfolding grant_rows_ids using fresh by (auto simp: distinct_map fresh_from_def intro: inj_on_subset)
    have "ag_id ` set ?rows = uuid ` {n..<n + length ts}"
      using arg_cong [OF grant_rows_ids, of set] by simp
    then show "ag_id ` set ?rows \<inter> ag_id ` set (db_grants ?db0) = {}"
      using fresh_from_ge [OF fresh] by (auto simp: disjoint_iff image_iff)
    show "distinct (map grant_key ?rows)" using ts by (simp add: grant_rows_distinct)
    show "grant_key ` set ?rows \<inter> grant_key ` set (db_grants ?db0) = {}"
      by (auto simp: grant_key_def of_resource_def dest!: grant_rows_resource)
  qed simp
  then obtain db' where i: "insert_all insert_grant ?rows ?db0 = Inr db'" by blast
  from ag.insert_all_rows [OF i] i show ?thesis by (simp add: replace_grants_def Let_def)
qed

lemma replace_grants_dup:
  assumes "\<not> distinct ts"
  shows "replace_grants uuid now rtype rid ts n db = (Inl IntegrityError, db\<lparr>gdb_uuid := n + length ts\<rparr>)"
proof -
  let ?i = "insert_all insert_grant (grant_rows uuid now rtype rid ts n) (delete_grants (of_resource rtype rid) db)"
  have "?i \<noteq> Inr db'" for db'
    using ag.insert_all_conflict assms grant_rows_distinct by blast
  then obtain e where "?i = Inl e" by (cases ?i) auto
  with ag.insert_all_error [OF this] show ?thesis by (simp add: replace_grants_def Let_def)
qed

lemma grants_by_resource_replaced:
  "db_grants db' = filter (\<lambda>g. \<not> of_resource rtype rid g) gs @ grant_rows uuid now rtype rid ts n \<Longrightarrow>
   get_grants_by_resource rtype rid db' = grant_rows uuid now rtype rid ts n"
  using grant_rows_resource by (auto simp: get_grants_by_resource_def filter_id_conv)

lemma grants_of_other_resource:
  assumes g: "db_grants db' = filter (\<lambda>g. \<not> of_resource rtype rid g) (db_grants db)
      @ grant_rows uuid now rtype rid ts n"
    and other: "(rtype', rid') \<noteq> (rtype, rid)"
  shows "get_grants_by_resource rtype' rid' db' = get_grants_by_resource rtype' rid' db"
proof -
  have "\<not> of_resource rtype' rid' x" if "of_resource rtype rid x" for x
    using that other by (auto simp: of_resource_def)
  then have "filter (of_resource rtype' rid') (grant_rows uuid now rtype rid ts n) = []"
    and "filter (of_resource rtype' rid') (filter (\<lambda>g. \<not> of_resource rtype rid g) xs)
      = filter (of_resource rtype' rid') xs" for xs
    using grant_rows_resource by (auto simp: filter_empty_conv intro: filter_cong)
  then show ?thesis by (simp add: get_grants_by_resource_def g)
qed

lemma set_access_grants_frame:
  assumes "set_access_grants uuid now rtype rid grants db = (r, db')" "(rtype', rid') \<noteq> (rtype, rid)"
  shows "get_grants_by_resource rtype' rid' db' = get_grants_by_resource rtype' rid' db"
proof -
  obtain ng n where n: "normalize_access_grants uuid grants (gdb_uuid db) = (ng, n)" by force
  let ?rows = "grant_rows uuid now rtype rid (map response_triple ng) n"
  show ?thesis
  proof (cases "insert_all insert_grant ?rows (delete_grants (of_resource rtype rid) db)")
    case (Inl e)
    then show ?thesis using assms(1) n by (auto simp: set_access_grants_def replace_grants_def Let_def get_grants_by_resource_def)
  next
    case (Inr db1)
    then have "db_grants db' = filter (\<lambda>g. \<not> of_resource rtype rid g) (db_grants db) @ ?rows"
      using assms(1) n ag.insert_all_rows [OF Inr] by (auto simp: set_access_grants_def replace_grants_def Let_def)
    then show ?thesis using assms(2) by (rule grants_of_other_resource)
  qed
qed

text \<open>Storing a payload of grants never fails on a duplicate: with new ids,
  \<open>set_access_grants\<close> leaves the resource with exactly the normalised grants, in their order, and
  the grants of every other resource as they were.\<close>

theorem set_access_grants_stores:
  assumes "fresh_from uuid (ag_id ` set (db_grants db)) (gdb_uuid db)"
  shows "\<exists>rows db'. set_access_grants uuid now rtype rid grants db = (Inr rows, db') \<and>
     get_grants_by_resource rtype rid db' = rows \<and>
     map grant_triple rows
       = map response_triple (fst (normalize_access_grants uuid grants (gdb_uuid db))) \<and>
     (\<forall>t r. (t, r) \<noteq> (rtype, rid) \<longrightarrow> get_grants_by_resource t r db' = get_grants_by_resource t r db)"
proof -
  obtain ns n where ns: "normalize_access_grants uuid grants (gdb_uuid db) = (ns, n)" by fastforce
  with normalize_mono [of "gdb_uuid db" uuid grants] assms
  have "fresh_from uuid (ag_id ` set (db_grants db)) n" by (auto intro: fresh_from_later)
  moreover have "distinct (map response_triple ns)"
    using normalize_distinct [of uuid grants "gdb_uuid db"] ns by simp
  ultimately obtain db' where
    r: "replace_grants uuid now rtype rid (map response_triple ns) n db =
        (Inr (grant_rows uuid now rtype rid (map response_triple ns) n), db')" and
    g: "db_grants db' = filter (\<lambda>g. \<not> of_resource rtype rid g) (db_grants db)
        @ grant_rows uuid now rtype rid (map response_triple ns) n"
    using replace_grants_ok by blast
  show ?thesis
    using r grants_by_resource_replaced [OF g] grants_of_other_resource [OF g]
    by (simp add: set_access_grants_def ns)
qed

lemma set_access_grants_stores_witness:
  "\<exists>rows db'. set_access_grants (\<lambda>n. replicate n CHR ''x'') 5 ''note'' ''n1''
       (Some [GJson (VDict [(''principal_type'', VStr ''user''), (''principal_id'', VStr ''*''),
                            (''permission'', VStr ''read'')]), GJson VNone])
       \<lparr>db_grants = [], gdb_uuid = 0\<rparr> = (Inr rows, db') \<and> map grant_triple rows = [(''user'', ''*'', ''read'')]"
proof -
  have "fresh_from (\<lambda>n. replicate n CHR ''x'') (ag_id ` set (db_grants \<lparr>db_grants = [], gdb_uuid = 0\<rparr>)) 0"
    by (auto simp: fresh_from_def inj_on_def)
  then show ?thesis
    using set_access_grants_stores [of "\<lambda>n. replicate n CHR ''x''" "\<lparr>db_grants = [], gdb_uuid = 0\<rparr>" 5
        "''note''" "''n1''" "Some [GJson (VDict [(''principal_type'', VStr ''user''),
          (''principal_id'', VStr ''*''), (''permission'', VStr ''read'')]), GJson VNone]"]
    by (fastforce simp: normalize_access_grants_def valid_triple_def)
qed

section \<open>The legacy dictionaries\<close>

text \<open>The dictionary with all four lists present.\<close>

definition full_access_control ::
  "string list \<Rightarrow> string list \<Rightarrow> string list \<Rightarrow> string list \<Rightarrow> access_control" where
  "full_access_control rg ru wg wu =
     [(''read'', [(''group_ids'', rg), (''user_ids'', ru)]),
      (''write'', [(''group_ids'', wg), (''user_ids'', wu)])]"

lemma append_id_full:
  "append_id (full_access_control rg ru wg wu) ''read'' ''group_ids'' i =
     full_access_control (if i \<in> set rg then rg else rg @ [i]) ru wg wu"
  "append_id (full_access_control rg ru wg wu) ''read'' ''user_ids'' i =
     full_access_control rg (if i \<in> set ru then ru else ru @ [i]) wg wu"
  "append_id (full_access_control rg ru wg wu) ''write'' ''group_ids'' i =
     full_access_control rg ru (if i \<in> set wg then wg else wg @ [i]) wu"
  "append_id (full_access_control rg ru wg wu) ''write'' ''user_ids'' i =
     full_access_control rg ru wg (if i \<in> set wu then wu else wu @ [i])"
  by (simp_all add: append_id_def full_access_control_def dget_or_def)

lemma loop_groups_read:
  "distinct (rg @ is) \<Longrightarrow>
   access_control_loop (grant_rows uuid now t r (map (\<lambda>i. (''group'', i, ''read'')) is @ rest) n)
     (full_access_control rg ru wg wu) b =
   access_control_loop (grant_rows uuid now t r rest (n + length is)) (full_access_control (rg @ is) ru wg wu) b"
  by (induction "is" arbitrary: rg n) (simp_all add: append_id_full)

lemma loop_users_read:
  "distinct (ru @ is) \<Longrightarrow> ''*'' \<notin> set is \<Longrightarrow>
   access_control_loop (grant_rows uuid now t r (map (\<lambda>i. (''user'', i, ''read'')) is @ rest) n)
     (full_access_control rg ru wg wu) b =
   access_control_loop (grant_rows uuid now t r rest (n + length is)) (full_access_control rg (ru @ is) wg wu) b"
  by (induction "is" arbitrary: ru n) (auto simp: append_id_full)

lemma loop_groups_write:
  "distinct (wg @ is) \<Longrightarrow>
   access_control_loop (grant_rows uuid now t r (map (\<lambda>i. (''group'', i, ''write'')) is @ rest) n)
     (full_access_control rg ru wg wu) b =
   access_control_loop (grant_rows uuid now t r rest (n + length is)) (full_access_control rg ru (wg @ is) wu) b"
  by (induction "is" arbitrary: wg n) (simp_all add: append_id_full)

lemma loop_users_write:
  "distinct (wu @ is) \<Longrightarrow>
   access_control_loop (grant_rows uuid now t r (map (\<lambda>i. (''user'', i, ''write'')) is @ rest) n)
     (full_access_control rg ru wg wu) b =
   access_control_loop (grant_rows uuid now t r rest (n + length is)) (full_access_control rg ru wg (wu @ is)) b"
  by (induction "is" arbitrary: wu n) (simp_all add: append_id_full)

lemma full_triples:
  "map (\<lambda>g. (gd_principal_type g, gd_principal_id g, gd_permission g))
     (access_control_to_grants rtype rid (Some (full_access_control rg ru wg wu))) =
   map (\<lambda>i. (''group'', i, ''read'')) rg @ map (\<lambda>i. (''user'', i, ''read'')) ru @
   map (\<lambda>i. (''group'', i, ''write'')) wg @ map (\<lambda>i. (''user'', i, ''write'')) wu"
  by (simp add: access_control_to_grants_def permission_grants_def full_access_control_def dget_or_def)

lemma full_triples_distinct:
  "distinct rg \<Longrightarrow> distinct ru \<Longrightarrow> distinct wg \<Longrightarrow> distinct wu \<Longrightarrow>
   distinct (map (\<lambda>i. (''group'', i, ''read'')) rg @ map (\<lambda>i. (''user'', i, ''read'')) ru @
     map (\<lambda>i. (''group'', i, ''write'')) wg @ map (\<lambda>i. (''user'', i, ''write'')) wu)"
  by (auto simp: distinct_map inj_on_def)

lemma access_control_loop_full:
  assumes "distinct rg" "distinct ru" "distinct wg" "distinct wu" "''*'' \<notin> set ru"
  shows "access_control_loop (grant_rows uuid now t r
      (map (\<lambda>i. (''group'', i, ''read'')) rg @ map (\<lambda>i. (''user'', i, ''read'')) ru @
       map (\<lambda>i. (''group'', i, ''write'')) wg @ map (\<lambda>i. (''user'', i, ''write'')) wu) n)
      empty_access_control False = (full_access_control rg ru wg wu, False)"
proof -
  have e: "empty_access_control = full_access_control [] [] [] []"
    by (simp add: empty_access_control_def full_access_control_def)
  have w: "map (\<lambda>i. (''user'', i, ''write'')) wu = map (\<lambda>i. (''user'', i, ''write'')) wu @ []" by simp
  show ?thesis
    unfolding e by (subst w) (simp add: loop_groups_read loop_users_read loop_groups_write loop_users_write
        assms del: append_Nil2)
qed

text \<open>The legacy interface round-trips: what \<open>set_access_control\<close> stores from a dictionary with
  duplicate-free id lists (no wildcard among the readers) is what \<open>get_access_control\<close> reads back,
  except that a dictionary of empty lists reads back as the empty dictionary.\<close>

theorem access_control_roundtrip:
  assumes "fresh_from uuid (ag_id ` set (db_grants db)) (gdb_uuid db)"
    and "distinct rg" "distinct ru" "distinct wg" "distinct wu" "''*'' \<notin> set ru"
  shows "\<exists>rows db'. set_access_control uuid now rtype rid (Some (full_access_control rg ru wg wu)) db
       = (Inr rows, db') \<and>
     get_access_control rtype rid db' =
       Some (if rg = [] \<and> ru = [] \<and> wg = [] \<and> wu = [] then [] else full_access_control rg ru wg wu)"
proof -
  define ts where "ts = map (\<lambda>i. (''group'', i, ''read'')) rg @ map (\<lambda>i. (''user'', i, ''read'')) ru @
     map (\<lambda>i. (''group'', i, ''write'')) wg @ map (\<lambda>i. (''user'', i, ''write'')) wu"
  have "distinct ts" unfolding ts_def using assms by (intro full_triples_distinct)
  from replace_grants_ok [OF assms(1) this] obtain db' where
    r: "replace_grants uuid now rtype rid ts (gdb_uuid db) db =
        (Inr (grant_rows uuid now rtype rid ts (gdb_uuid db)), db')" and
    g: "db_grants db' = filter (\<lambda>g. \<not> of_resource rtype rid g) (db_grants db)
        @ grant_rows uuid now rtype rid ts (gdb_uuid db)" by blast
  have loop: "access_control_loop (grant_rows uuid now rtype rid ts (gdb_uuid db)) empty_access_control False
      = (full_access_control rg ru wg wu, False)"
    unfolding ts_def using assms(2-) by (rule access_control_loop_full)
  have nil: "grant_rows uuid now rtype rid ts n = [] \<longleftrightarrow> rg = [] \<and> ru = [] \<and> wg = [] \<and> wu = []" for n
  proof -
    have "grant_rows uuid now rtype rid ts n = [] \<longleftrightarrow> ts = []" by (cases ts) auto
    then show ?thesis by (simp add: ts_def)
  qed
  show ?thesis
    using r unfolding set_access_control_def full_triples ts_def [symmetric]
    by (auto simp: get_access_control_def grants_by_resource_replaced [OF g] grants_to_access_control_def
        loop nil)
qed

lemma access_control_roundtrip_witness:
  "\<exists>rows db'. set_access_control (\<lambda>n. replicate n CHR ''x'') 5 ''prompt'' ''p''
       (Some (full_access_control [''g''] [''u'', ''v''] [] [''u''])) \<lparr>db_grants = [], gdb_uuid = 0\<rparr> = (Inr rows, db') \<and>
     get_access_control ''prompt'' ''p'' db' = Some (full_access_control [''g''] [''u'', ''v''] [] [''u''])"
proof -
  have "fresh_from (\<lambda>n. replicate n CHR ''x'') (ag_id ` set (db_grants \<lparr>db_grants = [], gdb_uuid = 0\<rparr>))
      (gdb_uuid \<lparr>db_grants = [], gdb_uuid = 0\<rparr>)"
    by (auto simp: fresh_from_def inj_on_def)
  from access_control_roundtrip [OF this, of "[''g'']" "[''u'', ''v'']" "[]" "[''u'']" 5 "''prompt''" "''p''"]
  show ?thesis by simp
qed

text \<open>A legacy dictionary that lists an id twice makes \<open>set_access_control\<close> fail with an
  integrity error, unlike a payload with a duplicate grant; the table keeps the old grants.\<close>

theorem set_access_control_duplicate:
  assumes "\<not> distinct rg"
  shows "set_access_control uuid now rtype rid (Some (full_access_control rg ru wg wu)) db =
    (Inl IntegrityError, db\<lparr>gdb_uuid := gdb_uuid db + length rg + length ru + length wg + length wu\<rparr>)"
proof -
  have "\<not> distinct (map (\<lambda>i. (''group'', i, ''read'')) rg @ map (\<lambda>i. (''user'', i, ''read'')) ru @
     map (\<lambda>i. (''group'', i, ''write'')) wg @ map (\<lambda>i. (''user'', i, ''write'')) wu)"
    using assms by (auto simp: distinct_map)
  then show ?thesis
    unfolding set_access_control_def full_triples by (simp add: replace_grants_dup add.assoc)
qed

lemma set_access_control_duplicate_witness:
  "fst (set_access_control (\<lambda>n. replicate n CHR ''x'') 5 ''prompt'' ''p''
     (Some (full_access_control [''g'', ''g''] [] [] [])) \<lparr>db_grants = [], gdb_uuid = 0\<rparr>) = Inl IntegrityError"
  using set_access_control_duplicate [of "[''g'', ''g'']" "\<lambda>n. replicate n CHR ''x''" 5 "''prompt''" "''p''"
      "[]" "[]" "[]" "\<lparr>db_grants = [], gdb_uuid = 0\<rparr>"] by simp

section \<open>Who has access\<close>

text \<open>
  The interface the other components use: a check of a user, with the ids of the user's groups,
  on a resource. More groups never take access away, and the check depends on the groups only as
  a set.
\<close>

locale access_check =
  fixes check :: "'db \<Rightarrow> string \<Rightarrow> string list \<Rightarrow> string \<Rightarrow> string \<Rightarrow> string \<Rightarrow> bool"
  assumes check_mono: "set gs \<subseteq> set gs' \<Longrightarrow> check db u gs rtype rid p \<Longrightarrow> check db u gs' rtype rid p"
begin

lemma check_cong: "set gs = set gs' \<Longrightarrow> check db u gs rtype rid p = check db u gs' rtype rid p"
  using check_mono by blast

lemma check_any_mono:
  "set gs \<subseteq> set gs' \<Longrightarrow> list_ex (\<lambda>r. check db u gs rtype (f r) p) rs
     \<Longrightarrow> list_ex (\<lambda>r. check db u gs' rtype (f r) p) rs"
  by (auto simp: list_ex_iff intro: check_mono)

lemma check_all_mono:
  "set gs \<subseteq> set gs' \<Longrightarrow> list_all (\<lambda>r. check db u gs rtype (f r) p) rs
     \<Longrightarrow> list_all (\<lambda>r. check db u gs' rtype (f r) p) rs"
  by (auto simp: list_all_iff intro: check_mono)

end

lemma principal_matches_mono:
  "set gs \<subseteq> set gs' \<Longrightarrow> principal_matches u gs g \<Longrightarrow> principal_matches u gs' g"
  by (auto simp: principal_matches_def)

interpretation ac: access_check "\<lambda>db u gs rtype rid p. has_access gdb u rtype rid p (Some gs) db" for gdb
  by unfold_locales
    (auto simp: has_access_def list_ex_iff effective_group_ids_def intro: principal_matches_mono)

lemma effective_group_ids_Some [simp]: "effective_group_ids gdb u (Some gs) = gs"
  by (simp add: effective_group_ids_def)

lemma has_access_None:
  "has_access gdb u rtype rid p None db =
     has_access gdb u rtype rid p (Some (map g_id (get_groups_by_member_id u gdb))) db"
  by (simp add: has_access_def effective_group_ids_def)

text \<open>The batch check returns exactly the resources for which the single check would say yes.\<close>

theorem accessible_resource_ids_exact:
  "get_accessible_resource_ids gdb uid rtype rids perm gids db =
     {r \<in> set rids. has_access gdb uid rtype r perm gids db}"
  by (auto simp: get_accessible_resource_ids_def has_access_def list_ex_iff of_resource_def)

lemma permission_filter_eq:
  assumes "uid \<noteq> []" and "perm \<noteq> ''read_only''"
  shows "has_permission_filter empty_or (Some uid) gids rtype perm db docs =
    filter (\<lambda>d. doc_user_id d = uid \<or> has_access gdb uid rtype (doc_id d) perm (Some gids) db) docs"
  using assms
  by (auto simp: has_permission_filter_def given_def has_access_def direct_principal_def
      principal_matches_def list_ex_iff intro!: filter_cong)

text \<open>C2. For a known user, the query filter keeps exactly the documents the user owns or has the
  permission on by the single check.\<close>

theorem permission_filter_exact:
  assumes "uid \<noteq> []" and "perm \<noteq> ''read_only''"
  shows "has_permission_filter empty_or (Some uid) gids rtype perm db docs =
    filter (\<lambda>d. doc_user_id d = uid \<or> has_access gdb uid rtype (doc_id d) perm (Some gids) db) docs"
  using assms by (rule permission_filter_eq)

lemma permission_filter_exact_witness:
  "has_permission_filter False (Some ''u'') [''g''] ''note'' ''read''
     \<lparr>db_grants = [\<lparr>ag_id = ''a'', ag_resource_type = ''note'', ag_resource_id = ''n1'',
        ag_principal_type = ''group'', ag_principal_id = ''g'', ag_permission = ''read'', ag_created_at = 1\<rparr>],
      gdb_uuid = 0\<rparr>
     [\<lparr>doc_id = ''n1'', doc_user_id = ''v''\<rparr>, \<lparr>doc_id = ''n2'', doc_user_id = ''v''\<rparr>]
   = [\<lparr>doc_id = ''n1'', doc_user_id = ''v''\<rparr>]"
  using permission_filter_exact [of "''u''" "''read''" False "[''g'']" "''note''"
      "\<lparr>db_grants = [\<lparr>ag_id = ''a'', ag_resource_type = ''note'', ag_resource_id = ''n1'',
        ag_principal_type = ''group'', ag_principal_id = ''g'', ag_permission = ''read'', ag_created_at = 1\<rparr>],
      gdb_uuid = 0\<rparr>" "[\<lparr>doc_id = ''n1'', doc_user_id = ''v''\<rparr>, \<lparr>doc_id = ''n2'', doc_user_id = ''v''\<rparr>]"
      "\<lparr>db_groups = [], db_members = [], db_uuid = 0\<rparr>"]
  by (simp add: has_access_def of_resource_def principal_matches_def)

text \<open>The \<open>read_only\<close> filter promises documents the user can read but not write. It keeps only
  documents of others that the user can read; but a write grant to every user is not looked at, so
  a document that everybody may write passes where the user also has a read grant of their own.\<close>

theorem read_only_filter_public_write:
  assumes "uid \<noteq> []"
  shows "d \<in> set (has_permission_filter empty_or (Some uid) gids rtype ''read_only'' db docs) \<Longrightarrow>
      doc_user_id d \<noteq> uid \<and> has_access gdb uid rtype (doc_id d) ''read'' (Some gids) db \<and>
      (has_access gdb uid rtype (doc_id d) ''write'' (Some gids) db \<longleftrightarrow>
         list_ex (\<lambda>g. of_resource rtype (doc_id d) g \<and> grant_triple g = (''user'', ''*'', ''write''))
           (db_grants db))"
  using assms
  by (fastforce simp: has_permission_filter_def read_only_permission_filter_def given_def has_access_def
      direct_principal_def principal_matches_def list_ex_iff grant_triple_def)

lemma read_only_filter_public_write_witness:
  "has_access \<lparr>db_groups = [], db_members = [], db_uuid = 0\<rparr> ''u'' ''note'' ''n'' ''write'' (Some [])
     \<lparr>db_grants = [\<lparr>ag_id = ''a'', ag_resource_type = ''note'', ag_resource_id = ''n'',
        ag_principal_type = ''user'', ag_principal_id = ''u'', ag_permission = ''read'', ag_created_at = 1\<rparr>,
        \<lparr>ag_id = ''b'', ag_resource_type = ''note'', ag_resource_id = ''n'',
        ag_principal_type = ''user'', ag_principal_id = ''*'', ag_permission = ''write'', ag_created_at = 1\<rparr>],
      gdb_uuid = 0\<rparr>"
proof -
  let ?db = "\<lparr>db_grants = [\<lparr>ag_id = ''a'', ag_resource_type = ''note'', ag_resource_id = ''n'',
        ag_principal_type = ''user'', ag_principal_id = ''u'', ag_permission = ''read'', ag_created_at = 1\<rparr>,
        \<lparr>ag_id = ''b'', ag_resource_type = ''note'', ag_resource_id = ''n'',
        ag_principal_type = ''user'', ag_principal_id = ''*'', ag_permission = ''write'', ag_created_at = 1\<rparr>],
      gdb_uuid = 0\<rparr>"
  let ?d = "\<lparr>doc_id = ''n'', doc_user_id = ''v''\<rparr>"
  have "?d \<in> set (has_permission_filter False (Some ''u'') [] ''note'' ''read_only'' ?db [?d])"
    by (simp add: has_permission_filter_def read_only_permission_filter_def given_def direct_principal_def
        of_resource_def grant_triple_def)
  from read_only_filter_public_write [OF _ this, of "\<lparr>db_groups = [], db_members = [], db_uuid = 0\<rparr>"]
  show ?thesis by (simp add: of_resource_def grant_triple_def)
qed

lemma set_group_user_ids: "set (get_group_user_ids_by_id gid gdb) = {u. is_member gdb gid u}"
  by (force simp: get_group_user_ids_by_id_def is_member_def member_key_def)

lemma set_users_with_access_ids:
  "set (users_with_access_ids gdb gs) =
     {u. \<exists>g \<in> set gs. (ag_principal_type g = ''user'' \<and> ag_principal_id g = u)
        \<or> (ag_principal_type g = ''group'' \<and> is_member gdb (ag_principal_id g) u)}"
  by (induction gs) (auto simp: set_group_user_ids)

definition no_orphans :: "group_db \<Rightarrow> bool" where
  "no_orphans gdb \<longleftrightarrow> gm_group_id ` set (db_members gdb) \<subseteq> g_id ` set (db_groups gdb)"

lemma effective_groups_members:
  "no_orphans gdb \<Longrightarrow> gid \<in> set (effective_group_ids gdb u None) \<longleftrightarrow> is_member gdb gid u"
  by (force simp: effective_group_ids_def set_groups_by_member_id no_orphans_def is_member_def member_key_def)

lemma principal_matches_members:
  "no_orphans gdb \<Longrightarrow> principal_matches u (effective_group_ids gdb u None) g \<longleftrightarrow>
     (ag_principal_type g = ''user'' \<and> ag_principal_id g = ''*'') \<or>
     (ag_principal_type g = ''user'' \<and> ag_principal_id g = u) \<or>
     (ag_principal_type g = ''group'' \<and> is_member gdb (ag_principal_id g) u)"
  using effective_groups_members [of gdb "ag_principal_id g" u]
  by (auto simp: principal_matches_def)

text \<open>Without a grant to every user, the accounts listed as having a permission are exactly
  those for which the single check says yes (for memberships of existing groups).\<close>

theorem users_with_access_exact:
  assumes "no_orphans gdb"
    and "\<not> has_access gdb ''*'' rtype rid perm (Some []) db"
  shows "set (get_users_with_access ilike cm gdb udb rtype rid perm db) =
    {u \<in> set (db_users udb). has_access gdb (u_id u) rtype rid perm None db}"
proof -
  let ?gs = "filter (\<lambda>g. of_resource rtype rid g \<and> ag_permission g = perm) (db_grants db)"
  have nowild: "\<not> (ag_principal_type g = ''user'' \<and> ag_principal_id g = ''*'')" if "g \<in> set ?gs" for g
    using assms(2) that by (auto simp: has_access_def principal_matches_def list_ex_iff)
  then have "\<not> list_ex (\<lambda>g. ag_principal_type g = ''user'' \<and> ag_principal_id g = ''*'') ?gs"
    by (auto simp: list_ex_iff)
  then have "set (get_users_with_access ilike cm gdb udb rtype rid perm db) =
      {u \<in> set (db_users udb). u_id u \<in> set (users_with_access_ids gdb ?gs)}"
    by (auto simp: get_users_with_access_def Let_def get_users_by_user_ids_def)
  moreover have "u \<in> set (users_with_access_ids gdb ?gs) \<longleftrightarrow> has_access gdb u rtype rid perm None db" for u
    using nowild unfolding set_users_with_access_ids has_access_def list_ex_iff
      principal_matches_members [OF assms(1)] by auto
  ultimately show ?thesis by simp
qed

lemma users_with_access_exact_witness:
  "set (get_users_with_access (\<lambda>a b. True) [] \<lparr>db_groups = [], db_members = [], db_uuid = 0\<rparr>
      \<lparr>db_users = [], db_api_keys = []\<rparr> ''note'' ''n'' ''read'' \<lparr>db_grants = [\<lparr>ag_id = ''a'',
        ag_resource_type = ''note'', ag_resource_id = ''n'', ag_principal_type = ''user'',
        ag_principal_id = ''u'', ag_permission = ''read'', ag_created_at = 1\<rparr>], gdb_uuid = 0\<rparr>) = {}"
  using users_with_access_exact [of "\<lparr>db_groups = [], db_members = [], db_uuid = 0\<rparr>" "''note''" "''n''" "''read''"
      "\<lparr>db_grants = [\<lparr>ag_id = ''a'',
        ag_resource_type = ''note'', ag_resource_id = ''n'', ag_principal_type = ''user'',
        ag_principal_id = ''u'', ag_permission = ''read'', ag_created_at = 1\<rparr>], gdb_uuid = 0\<rparr>"
      "\<lambda>a b. True" "[]" "\<lparr>db_users = [], db_api_keys = []\<rparr>"]
  by (simp add: no_orphans_def has_access_def principal_matches_def)

end
