(* ===== verification/Permissions.thy ===== *)
theory Permissions
  imports AccessGrants
begin

text \<open>
  Permissions and model access: \<open>backend/open_webui/utils/access_control/__init__.py\<close>. Permission
  dictionaries are nested; a user's permissions combine the defaults with those of the user's
  groups. Grants kept in configuration dictionaries are checked without the table. Access to a
  model extends along the chain of its base models.
\<close>

section \<open>Nested permissions\<close>

text \<open>
  \<open>fill_missing_permissions\<close> changes its first argument in place and returns it; the recursion on
  the entries of the defaults is the loop.
\<close>

fun fill_missing_permissions :: "dict \<Rightarrow> dict \<Rightarrow> dict" where
  "fill_missing_permissions p [] = p"
| "fill_missing_permissions p ((k, v) # rest) =
     fill_missing_permissions
       (case dget p k of
          None \<Rightarrow> dset p k v
        | Some w \<Rightarrow>
            (case (v, w) of
               (VDict dv, VDict dw) \<Rightarrow> dset p k (VDict (fill_missing_permissions dw dv))
             | _ \<Rightarrow> p))
       rest"

fun combine_permissions :: "pyval \<Rightarrow> dict \<Rightarrow> pyval result" where
  "combine_permissions p [] = Inr p"
| "combine_permissions p ((k, v) # rest) =
     rbind (py_in k p) (\<lambda>has.
     rbind (case v of
              VDict dv \<Rightarrow>
                rbind (if has then Inr p else py_setitem p k (VDict [])) (\<lambda>p1.
                rbind (py_getitem p1 k) (\<lambda>cur.
                rbind (combine_permissions cur dv) (\<lambda>new.
                py_setitem p1 k new)))
            | _ \<Rightarrow>
                if \<not> has then py_setitem p k v
                else rbind (py_getitem p k) (\<lambda>cur. py_setitem p k (py_or cur v)))
       (\<lambda>p'. combine_permissions p' rest))"

text \<open>\<open>group.permissions or {}\<close>\<close>

definition group_permissions :: "group_row \<Rightarrow> dict" where
  "group_permissions g = (case g_permissions g of VDict d \<Rightarrow> d | _ \<Rightarrow> [])"

fun combine_groups :: "pyval \<Rightarrow> dict list \<Rightarrow> pyval result" where
  "combine_groups p [] = Inr p"
| "combine_groups p (q # qs) = rbind (combine_permissions p q) (\<lambda>p'. combine_groups p' qs)"

definition get_permissions :: "group_db \<Rightarrow> string \<Rightarrow> dict \<Rightarrow> dict result" where
  "get_permissions gdb uid default_permissions =
     rbind (combine_groups (VDict default_permissions)
              (map group_permissions (get_groups_by_member_id uid gdb))) (\<lambda>p.
       case p of VDict d \<Rightarrow> Inr (fill_missing_permissions d default_permissions)
               | _ \<Rightarrow> Inl TypeError)"

fun get_permission :: "pyval \<Rightarrow> string list \<Rightarrow> bool result" where
  "get_permission p [] = Inr (truthy p)"
| "get_permission p (k # ks) =
     rbind (py_in k p) (\<lambda>has.
       if \<not> has then Inr False else rbind (py_getitem p k) (\<lambda>q. get_permission q ks))"

fun any_group_permission :: "dict list \<Rightarrow> string list \<Rightarrow> bool result" where
  "any_group_permission [] ks = Inr False"
| "any_group_permission (p # ps) ks =
     rbind (get_permission (VDict p) ks) (\<lambda>b. if b then Inr True else any_group_permission ps ks)"

text \<open>
  \<open>has_permission\<close>: the answer and the dictionary of defaults after the call, which
  \<open>fill_missing_permissions\<close> has changed in place where the groups did not decide;
  \<open>builtin\<close> is \<open>DEFAULT_USER_PERMISSIONS\<close>.
\<close>

definition has_permission :: "dict \<Rightarrow> group_db \<Rightarrow> string \<Rightarrow> string \<Rightarrow> dict \<Rightarrow> (bool \<times> dict) result" where
  "has_permission builtin gdb uid permission_key default_permissions =
     (let ks = py_split CHR ''.'' permission_key
      in rbind (any_group_permission (map group_permissions (get_groups_by_member_id uid gdb)) ks) (\<lambda>b.
           if b then Inr (True, default_permissions)
           else let d = fill_missing_permissions default_permissions builtin
                in rbind (get_permission (VDict d) ks) (\<lambda>r. Inr (r, d))))"

section \<open>Grants kept in configuration\<close>

text \<open>\<open>principal_id in user_group_ids\<close>: a list or a dictionary cannot be looked up in a set.\<close>

fun in_id_set :: "pyval \<Rightarrow> string list \<Rightarrow> bool result" where
  "in_id_set (VList _) ids = Inl TypeError"
| "in_id_set (VDict _) ids = Inl TypeError"
| "in_id_set (VStr s) ids = Inr (s \<in> set ids)"
| "in_id_set _ ids = Inr False"

fun config_grant_loop :: "string \<Rightarrow> string \<Rightarrow> string list \<Rightarrow> pyval list \<Rightarrow> bool result" where
  "config_grant_loop uid perm gids [] = Inr False"
| "config_grant_loop uid perm gids (VDict g # gs) =
     (if vget g ''permission'' \<noteq> VStr perm then config_grant_loop uid perm gids gs
      else if vget g ''principal_type'' = VStr ''user''
              \<and> (vget g ''principal_id'' = VStr ''*'' \<or> vget g ''principal_id'' = VStr uid) then Inr True
      else if vget g ''principal_type'' = VStr ''group'' \<and> gids \<noteq> [] then
        rbind (in_id_set (vget g ''principal_id'') gids) (\<lambda>b.
          if b then Inr True else config_grant_loop uid perm gids gs)
      else config_grant_loop uid perm gids gs)"
| "config_grant_loop uid perm gids (_ # gs) = config_grant_loop uid perm gids gs"

definition config_has_access ::
  "group_db \<Rightarrow> string \<Rightarrow> string \<Rightarrow> pyval \<Rightarrow> string list option \<Rightarrow> bool result" where
  "config_has_access gdb uid perm access_grants gids =
     (if \<not> truthy access_grants then Inr False
      else rbind (py_iter access_grants)
             (config_grant_loop uid perm (effective_group_ids gdb uid gids)))"

text \<open>\<open>bypass\<close> is \<open>BYPASS_ADMIN_ACCESS_CONTROL\<close>.\<close>

definition has_connection_access ::
  "bool \<Rightarrow> group_db \<Rightarrow> user \<Rightarrow> dict \<Rightarrow> string list option \<Rightarrow> bool result" where
  "has_connection_access bypass gdb u connection gids =
     (if u_role u = ''admin'' \<and> bypass then Inr True
      else rbind (py_get (py_or (vget connection ''config'') (VDict [])) ''access_grants'') (\<lambda>grants.
        if \<not> truthy grants then Inr (u_role u = ''admin'')
        else config_has_access gdb (u_id u) ''read'' grants
               (Some (effective_group_ids gdb (u_id u) gids))))"

definition principal_grant :: "string \<Rightarrow> string \<Rightarrow> pyval \<Rightarrow> pyval" where
  "principal_grant ptype perm i =
     VDict [(''principal_type'', VStr ptype), (''principal_id'', i), (''permission'', VStr perm)]"

text \<open>\<open>perm_data.get(key, [])\<close>, iterated.\<close>

definition ids_of :: "pyval \<Rightarrow> string \<Rightarrow> pyval list result" where
  "ids_of perm_data key =
     (case perm_data of
        VDict d \<Rightarrow> (case dget d key of None \<Rightarrow> Inr [] | Some v \<Rightarrow> py_iter v)
      | _ \<Rightarrow> Inl AttributeError)"

definition migrate_perm :: "dict \<Rightarrow> string \<Rightarrow> pyval list result" where
  "migrate_perm ac perm =
     (let perm_data = vget ac perm
      in if \<not> truthy perm_data then Inr []
         else rbind (ids_of perm_data ''group_ids'') (\<lambda>gs.
              rbind (ids_of perm_data ''user_ids'') (\<lambda>us.
              Inr (map (principal_grant ''group'' perm) gs @ map (principal_grant ''user'' perm) us))))"

definition migrate_access_control :: "dict \<Rightarrow> string \<Rightarrow> string \<Rightarrow> dict result" where
  "migrate_access_control data ac_key grants_key =
     (if grants_key \<in> fst ` set data then Inr data
      else if ac_key \<notin> fst ` set data then Inr data
      else rbind (case vget data ac_key of
                    VDict ac \<Rightarrow>
                      if ac = [] then Inr []
                      else rbind (migrate_perm ac ''read'') (\<lambda>r.
                           rbind (migrate_perm ac ''write'') (\<lambda>w. Inr (r @ w)))
                  | _ \<Rightarrow> Inr []) (\<lambda>grants.
           Inr (dpop (dset data grants_key (VList grants)) ac_key)))"

section \<open>Which grants a user may give\<close>

definition strip_public :: "grant_item list \<Rightarrow> grant_item list" where
  "strip_public gs = filter (\<lambda>g. \<not> (item_get g ''principal_type'' = VStr ''user''
                                    \<and> item_get g ''principal_id'' = VStr ''*'')) gs"

definition strip_groups :: "grant_item list \<Rightarrow> grant_item list" where
  "strip_groups gs = filter (\<lambda>g. item_get g ''principal_type'' \<noteq> VStr ''group'') gs"

text \<open>
  A step of the clean-up: where the grants are of the kind in question, ask for the permission and
  drop them without it. The dictionary of defaults is passed on as each question leaves it.
\<close>

definition restrict ::
  "dict \<Rightarrow> group_db \<Rightarrow> string \<Rightarrow> bool \<Rightarrow> string \<Rightarrow> (grant_item list \<Rightarrow> grant_item list)
     \<Rightarrow> grant_item list \<times> dict \<Rightarrow> (grant_item list \<times> dict) result" where
  "restrict builtin gdb uid concerned key strip s =
     (if \<not> concerned then Inr s
      else rbind (has_permission builtin gdb uid key (snd s)) (\<lambda>(b, d).
             Inr (if b then fst s else strip (fst s), d)))"

text \<open>The test on \<open>anyone\<close> grants, and the three tests for users who are not administrators.\<close>

definition filter_anyone ::
  "dict \<Rightarrow> group_db \<Rightarrow> string \<Rightarrow> string \<Rightarrow> string option \<Rightarrow> grant_item list \<times> dict
     \<Rightarrow> (grant_item list \<times> dict) result" where
  "filter_anyone builtin gdb uid role anyone_key s =
     (if \<not> has_anyone_read_access_grant (Some (fst s)) then Inr s
      else if \<not> given anyone_key then Inr (strip_anyone_access_grants (Some (fst s)), snd s)
      else restrict builtin gdb uid (role \<noteq> ''admin'') (the anyone_key)
             (\<lambda>gs. strip_anyone_access_grants (Some gs)) s)"

definition filter_others ::
  "dict \<Rightarrow> group_db \<Rightarrow> string \<Rightarrow> string \<Rightarrow> grant_item list \<times> dict \<Rightarrow> (grant_item list \<times> dict) result" where
  "filter_others builtin gdb uid public_key s1 =
     rbind (restrict builtin gdb uid
              (has_public_read_access_grant (Some (fst s1)) \<or> has_public_write_access_grant (Some (fst s1)))
              public_key strip_public s1) (\<lambda>s2.
     rbind (restrict builtin gdb uid (has_user_access_grant (Some (fst s2)))
              ''access_grants.allow_users'' (\<lambda>gs. strip_user_access_grants (Some gs)) s2) (\<lambda>s3.
     restrict builtin gdb uid
       (list_ex (\<lambda>g. item_get g ''principal_type'' = VStr ''group'') (fst s3))
       ''access_grants.allow_groups'' strip_groups s3))"

definition filter_allowed_access_grants ::
  "dict \<Rightarrow> group_db \<Rightarrow> dict \<Rightarrow> string \<Rightarrow> string \<Rightarrow> grant_item list \<Rightarrow> string \<Rightarrow> string option
     \<Rightarrow> (grant_item list \<times> dict) result" where
  "filter_allowed_access_grants builtin gdb defaults uid role grants public_key anyone_key =
     (if grants = [] then Inr ([], defaults)
      else rbind (filter_anyone builtin gdb uid role anyone_key (grants, defaults)) (\<lambda>s1.
             if role = ''admin'' then Inr s1 else filter_others builtin gdb uid public_key s1))"

section \<open>Model access\<close>

record model_row =
  m_id :: string
  m_user_id :: string
  m_base_model_id :: "string option"

definition get_model_by_id :: "model_row list \<Rightarrow> string \<Rightarrow> model_row option" where
  "get_model_by_id models i = List.find (\<lambda>m. m_id m = i) models"

text \<open>
  The loop along \<open>base_model_id\<close>. It stops at an id it has seen; each turn sees one more row of
  the table, so it ends.
\<close>

function base_model_walk ::
  "model_row list \<Rightarrow> (model_row \<Rightarrow> bool) \<Rightarrow> bool \<Rightarrow> string option \<Rightarrow> string set \<Rightarrow> bool" where
  "base_model_walk models ok admin b seen =
     (if \<not> given b \<or> the b \<in> seen then True
      else case get_model_by_id models (the b) of
             None \<Rightarrow> admin
           | Some m \<Rightarrow> if \<not> ok m then False
                       else base_model_walk models ok admin (m_base_model_id m) (insert (the b) seen))"
  by pat_completeness auto
termination
proof (relation "measure (\<lambda>(models, ok, admin, b, seen). length (filter (\<lambda>m. m_id m \<notin> seen) models))",
    goal_cases)
  case (2 models ok admin b seen m)
  then have m: "m \<in> set models" "m_id m = the b"
    by (auto simp: get_model_by_id_def dest: find_SomeD)
  then show ?case using 2 by (simp add: filter_unseen_less del: insert_iff)
qed simp

declare base_model_walk.simps [simp del]

definition may_read_model :: "group_db \<Rightarrow> grant_db \<Rightarrow> string \<Rightarrow> string list option \<Rightarrow> model_row \<Rightarrow> bool" where
  "may_read_model gdb db uid gids m \<longleftrightarrow>
     uid = m_user_id m \<or> has_access gdb uid ''model'' (m_id m) ''read'' gids db"

definition has_base_model_access ::
  "model_row list \<Rightarrow> group_db \<Rightarrow> grant_db \<Rightarrow> string \<Rightarrow> model_row \<Rightarrow> string option \<Rightarrow> string list option \<Rightarrow> bool" where
  "has_base_model_access models gdb db uid m role gids =
     base_model_walk models (may_read_model gdb db uid gids) (role = Some ''admin'')
       (m_base_model_id m) {m_id m}"

definition check_model_access ::
  "model_row list \<Rightarrow> group_db \<Rightarrow> grant_db \<Rightarrow> user \<Rightarrow> model_row option \<Rightarrow> bool \<Rightarrow> unit result" where
  "check_model_access models gdb db u model_info bypass_filter =
     (if bypass_filter then Inr ()
      else case model_info of
        Some m \<Rightarrow>
          if u_role u \<noteq> ''admin'' then
            let gids = Some (map g_id (get_groups_by_member_id (u_id u) gdb))
            in if \<not> may_read_model gdb db (u_id u) gids m then Inl (HTTPException 403 ''Model not found'')
               else if \<not> has_base_model_access models gdb db (u_id u) m (Some (u_role u)) gids
               then Inl (HTTPException 403 ''Model not found'')
               else Inr ()
          else Inr ()
      | None \<Rightarrow> if u_role u \<noteq> ''admin'' then Inl (HTTPException 403 ''Model not found'') else Inr ())"

section \<open>What a permission dictionary grants\<close>

definition grants_key :: "pyval \<Rightarrow> string list \<Rightarrow> bool" where
  "grants_key p ks \<longleftrightarrow> get_permission p ks = Inr True"

text \<open>A Python dictionary never holds a key twice, at any depth.\<close>

fun wf_val :: "pyval \<Rightarrow> bool" where
  "wf_val (VDict d) \<longleftrightarrow> distinct (map fst d) \<and> list_all (\<lambda>kv. wf_val (snd kv)) d"
| "wf_val (VList xs) \<longleftrightarrow> list_all wf_val xs"
| "wf_val _ \<longleftrightarrow> True"

lemma grants_key_Nil [simp]: "grants_key p [] = truthy p"
  by (simp add: grants_key_def)

lemma grants_key_Cons [simp]:
  "grants_key (VDict d) (k # ks) = (case dget d k of None \<Rightarrow> False | Some q \<Rightarrow> grants_key q ks)"
  by (auto simp: grants_key_def dget_None_iff [symmetric] split: option.split)

lemma grants_key_Cons_leaf: "\<not> is_dict p \<Longrightarrow> \<not> grants_key p (k # ks)"
  by (cases p) (auto simp: grants_key_def rbind_Inr_iff)

lemma grants_key_empty [simp]: "\<not> grants_key (VDict []) ks"
  by (cases ks) auto

lemma grants_key_py_or:
  "\<not> is_dict v \<Longrightarrow> grants_key (py_or cur v) ks \<longleftrightarrow> grants_key cur ks \<or> grants_key v ks"
proof (cases ks)
  case (Cons k ks')
  assume v: "\<not> is_dict v"
  have "\<not> grants_key cur ks" if "\<not> truthy cur"
    using that Cons grants_key_Cons_leaf [of cur k ks'] by (cases cur) auto
  then show ?thesis
    using Cons grants_key_Cons_leaf [OF v, of k ks'] by (auto simp: py_or_def)
qed (auto simp: py_or_def)

lemma combine_leaf:
  assumes v: "\<not> is_dict v" and new: "k \<notin> fst ` set rest"
    and p': "(if k \<in> fst ` set d then py_or (the (dget d k)) v else v) = w"
  shows "grants_key (VDict (dset d k w)) ks \<or> grants_key (VDict rest) ks \<longleftrightarrow>
     grants_key (VDict d) ks \<or> grants_key (VDict ((k, v) # rest)) ks"
proof (cases ks)
  case Nil
  have "dset d k w \<noteq> []" by (cases d) auto
  with Nil show ?thesis by simp
next
  case (Cons k1 ks1)
  show ?thesis
  proof (cases "k1 = k")
    case True
    have r: "dget rest k = None" using new by (simp add: dget_None_iff)
    show ?thesis
    proof (cases "dget d k")
      case None
      then have "w = v" using p' by (simp add: dget_None_iff)
      with None r True Cons show ?thesis by simp
    next
      case (Some c)
      then have "k \<in> fst ` set d" by (metis dget_None_iff option.distinct(1))
      with Some p' have "w = py_or c v" by simp
      with Some r True Cons v show ?thesis by (simp add: grants_key_py_or)
    qed
  qed (simp add: Cons)
qed

lemma combine_dict:
  assumes new: "k \<notin> fst ` set rest"
    and c: "\<And>ks. grants_key w ks \<longleftrightarrow> grants_key cur ks \<or> grants_key (VDict dv) ks"
    and cur: "cur = (case dget d k of None \<Rightarrow> VDict [] | Some c \<Rightarrow> c)"
  shows "grants_key (VDict (dset d k w)) ks \<or> grants_key (VDict rest) ks \<longleftrightarrow>
     grants_key (VDict d) ks \<or> grants_key (VDict ((k, VDict dv) # rest)) ks"
proof (cases ks)
  case Nil
  have "dset d k w \<noteq> []" by (cases d) auto
  with Nil show ?thesis by simp
next
  case (Cons k1 ks1)
  have r: "dget rest k = None" using new by (simp add: dget_None_iff)
  show ?thesis
    using Cons r cur by (cases "k1 = k"; cases "dget d k") (auto simp: c)
qed

lemma combine_step_shape:
  assumes "combine_permissions p ((k, v) # rest) = Inr r"
  shows "\<exists>d. p = VDict d"
  using assms by (cases p) (auto simp: rbind_Inr_iff split: pyval.splits if_splits)

lemma combine_leaf_eq:
  assumes "\<not> is_dict v"
  shows "combine_permissions (VDict d) ((k, v) # rest) =
    combine_permissions (VDict (dset d k (if k \<in> fst ` set d then py_or (the (dget d k)) v else v))) rest"
proof (cases "dget d k")
  case None
  then have "k \<notin> fst ` set d" by (simp add: dget_None_iff)
  with assms show ?thesis by (cases v) simp_all
next
  case (Some c)
  then have "k \<in> fst ` set d" by (metis dget_None_iff option.distinct(1))
  with assms Some show ?thesis by (cases v) simp_all
qed

lemma dset_dset [simp]: "dset (dset d k x) k y = dset d k y"
  by (induction d) auto

lemma combine_dict_eq:
  "combine_permissions (VDict d) ((k, VDict dv) # rest) =
     rbind (combine_permissions (case dget d k of None \<Rightarrow> VDict [] | Some c \<Rightarrow> c) dv)
       (\<lambda>w. combine_permissions (VDict (dset d k w)) rest)"
proof (cases "dget d k")
  case None
  then have "k \<notin> fst ` set d" by (simp add: dget_None_iff)
  with None show ?thesis by (simp add: rbind_def split: sum.split)
next
  case (Some c)
  then have "k \<in> fst ` set d" by (metis dget_None_iff option.distinct(1))
  with Some show ?thesis by (simp add: rbind_def split: sum.split)
qed

lemma combine_permissions_exact:
  "combine_permissions p q = Inr r \<Longrightarrow> wf_val (VDict q) \<Longrightarrow>
     grants_key r ks \<longleftrightarrow> grants_key p ks \<or> grants_key (VDict q) ks"
proof (induction p q arbitrary: r ks rule: combine_permissions.induct)
  case (1 p)
  then show ?case by simp
next
  case (2 p k v rest)
  from combine_step_shape [OF "2.prems"(1)] obtain d where p: "p = VDict d" by blast
  have wf: "k \<notin> fst ` set rest" "wf_val v" "wf_val (VDict rest)" using "2.prems"(2) by auto
  have "\<exists>w. combine_permissions (VDict (dset d k w)) rest = Inr r \<and>
      (grants_key (VDict (dset d k w)) ks \<or> grants_key (VDict rest) ks \<longleftrightarrow>
       grants_key (VDict d) ks \<or> grants_key (VDict ((k, v) # rest)) ks)"
  proof (cases "is_dict v")
    case False
    show ?thesis
      using "2.prems"(1) combine_leaf [OF False wf(1) refl, of d ks]
      unfolding p combine_leaf_eq [OF False] by blast
  next
    case True
    then obtain dv where v: "v = VDict dv" by (cases v) auto
    define cur where "cur = (case dget d k of None \<Rightarrow> VDict [] | Some c \<Rightarrow> c)"
    from "2.prems"(1) obtain w where
      w: "combine_permissions cur dv = Inr w" "combine_permissions (VDict (dset d k w)) rest = Inr r"
      unfolding p v combine_dict_eq cur_def [symmetric] by (auto simp: rbind_Inr_iff)
    have "grants_key w ks \<longleftrightarrow> grants_key cur ks \<or> grants_key (VDict dv) ks" for ks
      using "2.IH"(1) [OF v w(1)] wf(2) v by simp
    with w show ?thesis
      using combine_dict [OF wf(1) _ cur_def, of w dv ks] v by blast
  qed
  then show ?case using "2.IH"(2) wf(3) p by blast
qed

lemma combine_permissions_dict:
  "combine_permissions p q = Inr r \<Longrightarrow> is_dict p \<Longrightarrow> is_dict r"
proof (induction p q arbitrary: r rule: combine_permissions.induct)
  case (2 p k v rest)
  from combine_step_shape [OF "2.prems"(1)] obtain d where p: "p = VDict d" by blast
  have "\<exists>w. combine_permissions (VDict (dset d k w)) rest = Inr r"
  proof (cases "is_dict v")
    case False
    show ?thesis using "2.prems"(1) unfolding p combine_leaf_eq [OF False] by blast
  next
    case True
    then obtain dv where v: "v = VDict dv" by (cases v) auto
    show ?thesis using "2.prems"(1) unfolding p v combine_dict_eq by (auto simp: rbind_Inr_iff)
  qed
  with "2.IH"(2) show ?case by auto
qed simp

lemma combine_groups_exact:
  "combine_groups p qs = Inr r \<Longrightarrow> list_all (\<lambda>q. wf_val (VDict q)) qs \<Longrightarrow>
     grants_key r ks \<longleftrightarrow> grants_key p ks \<or> list_ex (\<lambda>q. grants_key (VDict q) ks) qs"
proof (induction p qs rule: combine_groups.induct)
  case (2 p q qs)
  then obtain x where x: "combine_permissions p q = Inr x" "combine_groups x qs = Inr r"
    by (auto simp: rbind_Inr_iff)
  have "wf_val (VDict q)" using "2.prems"(2) by (simp only: list_all_iff) simp
  from combine_permissions_exact [OF x(1) this, of ks] "2.IH" [OF x(2)] "2.prems"(2)
  show ?case by (simp del: wf_val.simps)
qed simp

lemma combine_groups_dict: "combine_groups p qs = Inr r \<Longrightarrow> is_dict p \<Longrightarrow> is_dict r"
  by (induction p qs rule: combine_groups.induct)
    (auto simp: rbind_Inr_iff dest: combine_permissions_dict)

lemma fill_keeps: "k \<notin> fst ` set d \<Longrightarrow> dget (fill_missing_permissions p d) k = dget p k"
  by (induction p d rule: fill_missing_permissions.induct) (auto split: option.split pyval.split)

text \<open>One entry of the defaults, filled in.\<close>

definition fill_one :: "dict \<Rightarrow> string \<Rightarrow> pyval \<Rightarrow> dict" where
  "fill_one p k v =
     (case dget p k of
        None \<Rightarrow> dset p k v
      | Some w \<Rightarrow> (case (v, w) of
           (VDict dv, VDict dw) \<Rightarrow> dset p k (VDict (fill_missing_permissions dw dv))
         | _ \<Rightarrow> p))"

lemma fill_Cons: "fill_missing_permissions p ((k, v) # rest) = fill_missing_permissions (fill_one p k v) rest"
  by (simp add: fill_one_def)

declare fill_missing_permissions.simps(2) [simp del]

lemma fill_one_other: "k' \<noteq> k \<Longrightarrow> dget (fill_one p k v) k' = dget p k'"
  by (auto simp: fill_one_def split: option.split pyval.split)

lemma fill_one_same:
  "dget (fill_one p k v) k = Some (case dget p k of
       None \<Rightarrow> v
     | Some w \<Rightarrow> (case (v, w) of (VDict dv, VDict dw) \<Rightarrow> VDict (fill_missing_permissions dw dv) | _ \<Rightarrow> w))"
  by (auto simp: fill_one_def split: option.split pyval.split)

text \<open>Every key of the defaults is there, at every depth where both sides are dictionaries.\<close>

fun covers :: "dict \<Rightarrow> dict \<Rightarrow> bool" where
  "covers p [] \<longleftrightarrow> True"
| "covers p ((k, v) # rest) \<longleftrightarrow>
     (case dget p k of
        None \<Rightarrow> False
      | Some w \<Rightarrow> (case (v, w) of (VDict dv, VDict dw) \<Rightarrow> covers dw dv | _ \<Rightarrow> True))
     \<and> covers p rest"

lemma covers_fill_id: "covers p d \<Longrightarrow> fill_missing_permissions p d = p"
proof (induction p d rule: covers.induct)
  case (2 p k v rest)
  then obtain w where w: "dget p k = Some w" by (auto split: option.splits)
  have "fill_one p k v = p"
    using 2 w by (auto simp: fill_one_def dset_same split: pyval.split)
  with 2 show ?case by (simp add: fill_Cons)
qed simp

lemma covers_refl:
  "(\<forall>kv \<in> set d. dget p (fst kv) = Some (snd kv) \<and> wf_val (snd kv)) \<Longrightarrow> covers p d"
proof (induction p d rule: covers.induct)
  case (2 p k v rest)
  have "covers dw dv" if "v = VDict dv" "v = VDict dw" for dv dw
    using 2 that by (auto simp: list_all_iff)
  with 2 show ?case by (auto split: pyval.split)
qed simp

lemma covers_fill: "wf_val (VDict d) \<Longrightarrow> covers (fill_missing_permissions p d) d"
proof -
  have gen: "covers q d" if "\<forall>kv \<in> set d. \<exists>w. dget q (fst kv) = Some w \<and>
      (case (snd kv, w) of (VDict dv, VDict dw) \<Rightarrow> covers dw dv | _ \<Rightarrow> True)" for q d
    using that by (induction d) auto
  show "wf_val (VDict d) \<Longrightarrow> covers (fill_missing_permissions p d) d"
  proof (induction p d rule: fill_missing_permissions.induct)
    case (2 p k v rest)
    let ?f = "fill_missing_permissions (fill_one p k v) rest"
    have k: "k \<notin> fst ` set rest" and wf: "wf_val v" "wf_val (VDict rest)" using "2.prems" by auto
    have "covers ?f rest"
      using "2.IH"(2) [OF wf(2)] by (cases "dget p k") (simp_all add: fill_one_def)
    moreover have "dget ?f k = dget (fill_one p k v) k" using k by (rule fill_keeps)
    moreover have "covers dv dv" if "v = VDict dv" for dv
      using wf(1) that by (intro covers_refl) (auto simp: list_all_iff)
    ultimately show ?case
      using "2.IH"(1) wf(1) by (auto simp: fill_Cons fill_one_same split: option.split pyval.split)
  qed simp
qed

lemma fill_idem:
  "wf_val (VDict d) \<Longrightarrow>
   fill_missing_permissions (fill_missing_permissions p d) d = fill_missing_permissions p d"
  by (rule covers_fill_id [OF covers_fill])

lemma fill_induct [case_names Nil Cons]:
  assumes "\<And>p. P p []"
    and "\<And>p k v rest. (\<And>dv dw. v = VDict dv \<Longrightarrow> dget p k = Some (VDict dw) \<Longrightarrow> P dw dv) \<Longrightarrow>
      P (fill_one p k v) rest \<Longrightarrow> P p ((k, v) # rest)"
  shows "P p d"
proof (induction p d rule: fill_missing_permissions.induct)
  case (2 p k v rest)
  have "fill_one p k v = (case dget p k of None \<Rightarrow> dset p k v
      | Some w \<Rightarrow> (case (v, w) of
          (VDict dv, VDict dw) \<Rightarrow> dset p k (VDict (fill_missing_permissions dw dv)) | _ \<Rightarrow> p))"
    by (simp add: fill_one_def)
  with 2 assms(2) show ?case by auto
qed (rule assms(1))

lemma fill_one_mono:
  assumes ih: "\<And>dv dw ks. v = VDict dv \<Longrightarrow> dget p k = Some (VDict dw) \<Longrightarrow>
      grants_key (VDict dw) ks \<Longrightarrow> grants_key (VDict (fill_missing_permissions dw dv)) ks"
    and g: "grants_key (VDict p) ks"
  shows "grants_key (VDict (fill_one p k v)) ks"
proof (cases ks)
  case Nil
  with g have "p \<noteq> []" by simp
  then have "fill_one p k v \<noteq> []"
    by (cases p) (auto simp: fill_one_def split: option.split pyval.split)
  with Nil show ?thesis by simp
next
  case (Cons k1 ks1)
  with g ih show ?thesis
    by (cases "k1 = k") (auto simp: fill_one_other fill_one_same split: option.splits pyval.split)
qed

lemma fill_mono:
  "grants_key (VDict p) ks \<Longrightarrow> grants_key (VDict (fill_missing_permissions p d)) ks"
proof (induction p d arbitrary: ks rule: fill_induct)
  case (Cons p k v rest)
  have "grants_key (VDict (fill_one p k v)) ks"
    using Cons.IH(1) Cons.prems by (intro fill_one_mono) auto
  from Cons.IH(2) [OF this] show ?case by (simp add: fill_Cons)
qed simp

lemma fill_bound:
  "grants_key (VDict (fill_missing_permissions p d)) ks \<Longrightarrow> wf_val (VDict d) \<Longrightarrow>
   grants_key (VDict p) ks \<or> grants_key (VDict d) ks"
proof (induction p d arbitrary: ks rule: fill_induct)
  case (Cons p k v rest)
  have k: "dget rest k = None" and wf: "wf_val v" "wf_val (VDict rest)"
    using Cons.prems(2) by (auto simp: dget_None_iff)
  have "grants_key (VDict (fill_one p k v)) ks \<or> grants_key (VDict rest) ks"
    using Cons.IH(2) Cons.prems(1) wf(2) by (simp add: fill_Cons)
  then show ?case
  proof
    assume g: "grants_key (VDict (fill_one p k v)) ks"
    show ?thesis
    proof (cases ks)
      case C: (Cons k1 ks1)
      show ?thesis
        using g Cons.IH(1) wf(1) C
        by (cases "k1 = k") (auto simp: fill_one_other fill_one_same split: option.splits pyval.splits)
    qed simp
  next
    assume g: "grants_key (VDict rest) ks"
    then show ?thesis
    proof (cases ks)
      case C: (Cons k1 ks1)
      then have "k1 \<noteq> k" using g k by auto
      with g C show ?thesis by simp
    qed simp
  qed
qed simp

section \<open>A user's permissions\<close>

text \<open>A user's permission dictionary grants a key exactly when the defaults do or one of the
  user's groups does: groups only add permissions.\<close>

theorem get_permissions_exact:
  assumes "get_permissions gdb uid default_permissions = Inr p"
    and "wf_val (VDict default_permissions)"
    and "\<forall>g \<in> set (get_groups_by_member_id uid gdb). wf_val (VDict (group_permissions g))"
  shows "grants_key (VDict p) ks \<longleftrightarrow> grants_key (VDict default_permissions) ks \<or>
    (\<exists>g \<in> set (get_groups_by_member_id uid gdb). grants_key (VDict (group_permissions g)) ks)"
proof -
  let ?qs = "map group_permissions (get_groups_by_member_id uid gdb)"
  from assms(1) obtain x where x: "combine_groups (VDict default_permissions) ?qs = Inr x"
    and p': "(case x of VDict d \<Rightarrow> Inr (fill_missing_permissions d default_permissions)
                | _ \<Rightarrow> Inl TypeError) = Inr p"
    by (auto simp: get_permissions_def rbind_Inr_iff)
  from p' obtain d where "x = VDict d" and p: "p = fill_missing_permissions d default_permissions"
    by (cases x) auto
  with x have d: "combine_groups (VDict default_permissions) ?qs = Inr (VDict d)" by simp
  have "grants_key (VDict d) ks \<longleftrightarrow> grants_key (VDict default_permissions) ks \<or>
      list_ex (\<lambda>q. grants_key (VDict q) ks) ?qs"
    using combine_groups_exact [OF d] assms(3) by (simp add: list_all_iff)
  moreover from this have "grants_key (VDict p) ks \<longleftrightarrow> grants_key (VDict d) ks"
    using fill_bound [OF _ assms(2), of d ks] fill_mono [of d ks default_permissions] p by blast
  ultimately show ?thesis by (simp add: list_ex_iff)
qed

lemma get_permissions_exact_witness:
  "\<not> grants_key (VDict [(''chat'', VDict [(''share'', VBool False)])]) [''chat'', ''share'']"
  using get_permissions_exact [of "\<lparr>db_groups = [], db_members = [], db_uuid = 0\<rparr>" "''u''"
      "[(''chat'', VDict [(''share'', VBool False)])]" "[(''chat'', VDict [(''share'', VBool False)])]"
      "[''chat'', ''share'']"]
  by (simp add: get_permissions_def get_groups_by_member_id_def member_join_def fill_Cons fill_one_def)

lemma any_group_permission_Inr:
  "any_group_permission ps ks = Inr b \<Longrightarrow> b \<longleftrightarrow> list_ex (\<lambda>p. grants_key (VDict p) ks) ps"
  by (induction ps) (auto simp: grants_key_def rbind_Inr_iff split: if_splits)

lemma has_permission_filled:
  assumes "wf_val (VDict builtin)"
  shows "has_permission builtin gdb uid key (fill_missing_permissions d builtin) =
    rbind (has_permission builtin gdb uid key d) (\<lambda>(b, _). Inr (b, fill_missing_permissions d builtin))"
  by (auto simp: has_permission_def Let_def rbind_def fill_idem [OF assms] split: sum.split)

lemma has_permission_defaults:
  "has_permission builtin gdb uid key d = Inr (b, d') \<Longrightarrow> d' = d \<or> d' = fill_missing_permissions d builtin"
  by (auto simp: has_permission_def Let_def rbind_Inr_iff split: if_splits)

section \<open>What a permission question asks\<close>

text \<open>
  The specification follows paths into nested dictionaries, without the code's operations: the value
  a path leads to; whether a dictionary grants the path; whether it leaves the path open, because a
  dictionary on the way lacks the next key.
\<close>

primrec value_at :: "string list \<Rightarrow> pyval \<Rightarrow> pyval option" where
  "value_at [] p = Some p"
| "value_at (k # ks) p = (case p of VDict d \<Rightarrow> Option.bind (dget d k) (value_at ks) | _ \<Rightarrow> None)"

definition grants_path :: "pyval \<Rightarrow> string list \<Rightarrow> bool" where
  "grants_path p ks \<longleftrightarrow> (case value_at ks p of Some v \<Rightarrow> truthy v | None \<Rightarrow> False)"

definition lacks :: "pyval \<Rightarrow> string \<Rightarrow> bool" where
  "lacks p k \<longleftrightarrow> (case p of VDict d \<Rightarrow> dget d k = None | _ \<Rightarrow> False)"

definition leaves_open :: "pyval \<Rightarrow> string list \<Rightarrow> bool" where
  "leaves_open p ks \<longleftrightarrow> (\<exists>n < length ks. \<exists>q. value_at (take n ks) p = Some q \<and> lacks q (ks ! n))"

lemma grants_path_iff: "grants_path p ks \<longleftrightarrow> grants_key p ks"
proof (induction ks arbitrary: p)
  case (Cons k ks)
  then show ?case
    using grants_key_Cons_leaf [of p k ks]
    by (cases p) (auto simp: grants_path_def split: option.split)
qed (simp add: grants_path_def)

lemma leaves_open_Nil: "\<not> leaves_open p []"
  by (simp add: leaves_open_def)

lemma leaves_open_Cons:
  "leaves_open (VDict d) (k # ks) \<longleftrightarrow> (case dget d k of None \<Rightarrow> True | Some q \<Rightarrow> leaves_open q ks)"
proof -
  have "leaves_open (VDict d) (k # ks) \<longleftrightarrow> lacks (VDict d) k \<or>
      (\<exists>n < length ks. \<exists>q. value_at (take (Suc n) (k # ks)) (VDict d) = Some q \<and> lacks q (ks ! n))"
    unfolding leaves_open_def by (simp only: list.size(4) add_0_right add_Suc_right Ex_less_Suc2) simp
  then show ?thesis by (cases "dget d k") (simp_all add: leaves_open_def lacks_def)
qed

lemma leaves_open_dict: "leaves_open p ks \<Longrightarrow> is_dict p"
proof (cases ks)
  case (Cons k ks')
  assume "leaves_open p ks"
  then obtain n q where "value_at (take n ks) p = Some q" "lacks q (ks ! n)" by (auto simp: leaves_open_def)
  then show ?thesis using Cons by (cases n; cases p) (auto simp: lacks_def)
qed (simp add: leaves_open_Nil)

lemma fill_at:
  assumes "wf_val (VDict b)"
  shows "dget (fill_missing_permissions d b) k = (case dget d k of
       None \<Rightarrow> dget b k
     | Some w \<Rightarrow> Some (case dget b k of
          Some v \<Rightarrow> (case (v, w) of (VDict dv, VDict dw) \<Rightarrow> VDict (fill_missing_permissions dw dv) | _ \<Rightarrow> w)
        | None \<Rightarrow> w))"
  using assms
proof (induction b arbitrary: d)
  case (Cons kv rest)
  obtain k1 v where kv: "kv = (k1, v)" by (cases kv)
  with Cons.prems have k1: "k1 \<notin> fst ` set rest" and wf: "wf_val (VDict rest)" by auto
  show ?case
  proof (cases "k = k1")
    case True
    then show ?thesis
      using fill_keeps [OF k1, of "fill_one d k1 v"] by (simp add: kv fill_Cons fill_one_same split: option.split)
  next
    case False
    then show ?thesis using Cons.IH [OF wf, of "fill_one d k1 v"] by (simp add: kv fill_Cons fill_one_other cong: option.case_cong)
  qed
qed (simp split: option.split)

lemma wf_val_dget: "wf_val (VDict b) \<Longrightarrow> dget b k = Some v \<Longrightarrow> wf_val v"
  by (induction b) (auto split: if_splits)

lemma fill_grants:
  "wf_val (VDict b) \<Longrightarrow> grants_path (VDict (fill_missing_permissions d b)) ks \<longleftrightarrow>
     grants_path (VDict d) ks \<or>
     grants_path (VDict b) ks \<and>
       (leaves_open (VDict d) ks \<or> value_at ks (VDict d) = Some (VDict []) \<and> is_dict (the (value_at ks (VDict b))))"
proof (induction ks arbitrary: d b)
  case Nil
  have "fill_missing_permissions d b = [] \<longleftrightarrow> d = [] \<and> b = []"
  proof
    assume e: "fill_missing_permissions d b = []"
    have "dget d k = None \<and> dget b k = None" for k
      using fill_at [OF Nil, of d k] e by (cases "dget d k") simp_all
    from this [of "fst (hd d)"] this [of "fst (hd b)"] show "d = [] \<and> b = []"
      by (cases d; cases b) auto
  qed simp
  then show ?case by (auto simp: grants_path_def leaves_open_Nil)
next
  case (Cons k ks)
  note IH = Cons.IH and wf = Cons.prems
  show ?case
  proof (cases "dget d k")
    case None
    then show ?thesis by (simp add: grants_path_def fill_at [OF wf] leaves_open_Cons)
  next
    case (Some w)
    show ?thesis
    proof (cases "\<exists>dv dw. dget b k = Some (VDict dv) \<and> w = VDict dw")
      case True
      then obtain dv dw where b: "dget b k = Some (VDict dv)" and w: "w = VDict dw" by blast
      from IH [OF wf_val_dget [OF wf b], of dw] show ?thesis
        by (simp add: grants_path_def fill_at [OF wf] leaves_open_Cons Some b w)
    next
      case False
      have f: "dget (fill_missing_permissions d b) k = Some w"
        using False Some by (auto simp: fill_at [OF wf] split: option.split pyval.split)
      have "\<not> (grants_path (VDict b) (k # ks) \<and> (leaves_open w ks \<or> value_at ks w = Some (VDict []) \<and>
          is_dict (the (value_at (k # ks) (VDict b)))))"
      proof
        assume a: "grants_path (VDict b) (k # ks) \<and> (leaves_open w ks \<or> value_at ks w = Some (VDict []) \<and>
          is_dict (the (value_at (k # ks) (VDict b))))"
        then obtain v where b: "dget b k = Some v" by (cases "dget b k") (auto simp: grants_path_def)
        have w: "is_dict w" if "leaves_open w ks" using that by (rule leaves_open_dict)
        have w': "is_dict w" if "value_at ks w = Some (VDict [])"
          using that by (cases ks; cases w) auto
        from a w w' have dw: "is_dict w" by blast
        with False b have "\<not> is_dict v" by (cases v; cases w) auto
        then have "ks = []" using a b by (cases ks; cases v) (auto simp: grants_path_def)
        with a b \<open>\<not> is_dict v\<close> show False by (simp add: leaves_open_Nil)
      qed
      then show ?thesis by (auto simp: grants_path_def leaves_open_Cons Some f)
    qed
  qed
qed

text \<open>C3. A permission question is answered yes exactly when one of the user's groups grants the path of
  the key, or the configured defaults do, or the built-in defaults do and the configured ones leave the
  path open (a dictionary on the way lacks the next key, or the path ends at an empty dictionary that
  the built-in ones fill): what is configured wins over the built-in value, and a key nobody defines is
  a no. Although the call writes into the caller's defaults, asking again gives the same answer and
  changes nothing more.\<close>

theorem has_permission_exact:
  assumes "has_permission builtin gdb uid key d = Inr (b, d')" and "wf_val (VDict builtin)"
  shows "(let ks = py_split CHR ''.'' key; configured = VDict d; default = VDict builtin in
      b \<longleftrightarrow> (\<exists>g \<in> set (get_groups_by_member_id uid gdb). grants_path (VDict (group_permissions g)) ks) \<or>
        grants_path configured ks \<or>
        grants_path default ks \<and>
          (leaves_open configured ks \<or> value_at ks configured = Some (VDict []) \<and> is_dict (the (value_at ks default)))) \<and>
    has_permission builtin gdb uid key d' = Inr (b, d')"
proof -
  let ?ks = "py_split CHR ''.'' key" and ?qs = "map group_permissions (get_groups_by_member_id uid gdb)"
  from assms(1) obtain a where a: "any_group_permission ?qs ?ks = Inr a"
    and b: "if a then b \<and> d' = d else grants_key (VDict (fill_missing_permissions d builtin)) ?ks = b"
    by (auto simp: has_permission_def Let_def rbind_Inr_iff grants_key_def split: if_splits)
  have g: "a \<longleftrightarrow> (\<exists>g \<in> set (get_groups_by_member_id uid gdb). grants_path (VDict (group_permissions g)) ?ks)"
    using any_group_permission_Inr [OF a] by (auto simp: list_ex_iff grants_path_iff)
  have "has_permission builtin gdb uid key d' = Inr (b, d')"
    using has_permission_defaults [OF assms(1)] assms(1) has_permission_filled [OF assms(2)] by auto
  moreover have "b \<longleftrightarrow> a \<or> grants_path (VDict (fill_missing_permissions d builtin)) ?ks"
    using b by (auto simp: grants_path_iff split: if_splits)
  ultimately show ?thesis unfolding fill_grants [OF assms(2)] g Let_def by blast
qed

text \<open>A configured no wins over a built-in yes; a key that is not configured falls back to it.\<close>

lemma has_permission_exact_witness:
  "has_permission [(''chat'', VDict [(''share'', VBool True)])] \<lparr>db_groups = [], db_members = [], db_uuid = 0\<rparr>
     ''u'' ''chat.share'' [(''chat'', VDict [(''share'', VBool False)])]
   = Inr (False, [(''chat'', VDict [(''share'', VBool False)])]) \<and>
   \<not> grants_path (VDict [(''chat'', VDict [(''share'', VBool False)])]) [''chat'', ''share''] \<and>
   \<not> leaves_open (VDict [(''chat'', VDict [(''share'', VBool False)])]) [''chat'', ''share'']"
proof -
  have h: "has_permission [(''chat'', VDict [(''share'', VBool True)])] \<lparr>db_groups = [], db_members = [], db_uuid = 0\<rparr>
     ''u'' ''chat.share'' [(''chat'', VDict [(''share'', VBool False)])]
   = Inr (False, [(''chat'', VDict [(''share'', VBool False)])])"
    by (simp add: has_permission_def get_groups_by_member_id_def member_join_def fill_Cons fill_one_def Let_def
        order_desc_def rbind_def)
  have k: "py_split CHR ''.'' ''chat.share'' = [''chat'', ''share'']" by simp
  have "grants_path (VDict [(''chat'', VDict [(''share'', VBool True)])]) [''chat'', ''share'']"
    by (simp add: grants_path_def)
  with has_permission_exact [OF h] h show ?thesis by (simp add: Let_def k)
qed

section \<open>Grants in configuration and in the table\<close>

definition grant_json :: "access_grant \<Rightarrow> pyval" where
  "grant_json g = VDict [(''id'', VStr (ag_id g)), (''principal_type'', VStr (ag_principal_type g)),
     (''principal_id'', VStr (ag_principal_id g)), (''permission'', VStr (ag_permission g))]"

lemma config_grant_loop_json:
  "config_grant_loop uid perm gids (map grant_json gs) =
     Inr (list_ex (\<lambda>g. ag_permission g = perm \<and> principal_matches uid gids g) gs)"
  by (induction gs) (auto simp: grant_json_def principal_matches_def)

text \<open>A resource whose grants are kept as JSON in a configuration gives access to exactly the users
  the grant table would: both checks agree on the grants of a resource.\<close>

theorem config_has_access_agrees:
  "config_has_access gdb uid perm (VList (map grant_json (get_grants_by_resource rtype rid db))) gids =
     Inr (has_access gdb uid rtype rid perm gids db)"
proof (cases "get_grants_by_resource rtype rid db = []")
  case True
  then have "\<not> has_access gdb uid rtype rid perm gids db"
    by (auto simp: get_grants_by_resource_def has_access_def list_ex_iff filter_empty_conv)
  with True show ?thesis by (simp add: config_has_access_def)
next
  case False
  then have "config_has_access gdb uid perm (VList (map grant_json (get_grants_by_resource rtype rid db))) gids
     = Inr (list_ex (\<lambda>g. ag_permission g = perm \<and> principal_matches uid (effective_group_ids gdb uid gids) g)
         (get_grants_by_resource rtype rid db))"
    by (simp add: config_has_access_def config_grant_loop_json)
  then show ?thesis by (auto simp: get_grants_by_resource_def has_access_def list_ex_iff)
qed

section \<open>Which grants a user may give\<close>

text \<open>The permission a grant needs, by its kind; an administrator needs one for \<open>anyone\<close> only by the
  key's being there.\<close>

definition may_give :: "(string \<Rightarrow> bool) \<Rightarrow> bool \<Rightarrow> string \<Rightarrow> string option \<Rightarrow> triple \<Rightarrow> bool" where
  "may_give permitted admin public_key anyone_key t \<longleftrightarrow>
     (case t of (pt, pid, perm) \<Rightarrow>
        if pt = ''anyone'' then given anyone_key \<and> (admin \<or> permitted (the anyone_key))
        else admin \<or> (if pt = ''group'' then permitted ''access_grants.allow_groups''
                      else if pid = ''*'' then permitted public_key
                      else permitted ''access_grants.allow_users''))"

definition permitted :: "dict \<Rightarrow> group_db \<Rightarrow> string \<Rightarrow> dict \<Rightarrow> string \<Rightarrow> bool" where
  "permitted builtin gdb uid defaults key \<longleftrightarrow>
     (case has_permission builtin gdb uid key defaults of Inr (b, _) \<Rightarrow> b | Inl _ \<Rightarrow> False)"

lemma item_triple_get:
  "item_triple g = Some (pt, pid, perm) \<Longrightarrow>
     item_get g ''principal_type'' = VStr pt \<and> item_get g ''principal_id'' = VStr pid"
  by (auto simp: item_triple_def item_get_def valid_triple_def split: option.splits pyval.splits if_splits)

lemma normalized_ex:
  "list_ex (\<lambda>g. P (response_triple g)) (normalized (Some gs)) \<longleftrightarrow>
     (\<exists>g \<in> set gs. \<exists>t. item_triple g = Some t \<and> P t)"
proof -
  have "list_ex (\<lambda>g. P (response_triple g)) (normalized (Some gs)) \<longleftrightarrow>
      (\<exists>t \<in> response_triple ` set (normalized (Some gs)). P t)" by (auto simp: list_ex_iff)
  then show ?thesis unfolding normalized_def normalize_set by auto
qed

lemma has_kind_iff:
  "has_anyone_read_access_grant (Some gs) \<longleftrightarrow>
     (\<exists>g \<in> set gs. \<exists>pid perm. item_triple g = Some (''anyone'', pid, perm))"
  "has_user_access_grant (Some gs) \<longleftrightarrow>
     (\<exists>g \<in> set gs. \<exists>pid perm. item_triple g = Some (''user'', pid, perm) \<and> pid \<noteq> ''*'')"
  "has_public_read_access_grant (Some gs) \<or> has_public_write_access_grant (Some gs) \<longleftrightarrow>
     (\<exists>g \<in> set gs. \<exists>perm. item_triple g = Some (''user'', ''*'', perm))"
proof -
  have v: "item_triple g = Some (pt, pid, perm) \<Longrightarrow> perm \<in> {''read'', ''write''} \<and>
      (pt = ''anyone'' \<longrightarrow> pid = ''*'' \<and> perm = ''read'')" for g pt pid perm
    by (auto simp: item_triple_def dest: valid_tripleD split: option.splits)
  show "has_anyone_read_access_grant (Some gs) \<longleftrightarrow>
      (\<exists>g \<in> set gs. \<exists>pid perm. item_triple g = Some (''anyone'', pid, perm))"
    using normalized_ex [of "\<lambda>t. t = (''anyone'', ''*'', ''read'')" gs] v
    unfolding has_anyone_read_access_grant_def response_triple_def by auto
  show "has_user_access_grant (Some gs) \<longleftrightarrow>
      (\<exists>g \<in> set gs. \<exists>pid perm. item_triple g = Some (''user'', pid, perm) \<and> pid \<noteq> ''*'')"
    using normalized_ex [of "\<lambda>t. fst t = ''user'' \<and> fst (snd t) \<noteq> ''*''" gs]
    unfolding has_user_access_grant_def response_triple_def by auto
  show "has_public_read_access_grant (Some gs) \<or> has_public_write_access_grant (Some gs) \<longleftrightarrow>
      (\<exists>g \<in> set gs. \<exists>perm. item_triple g = Some (''user'', ''*'', perm))"
  proof -
    have "has_public_read_access_grant (Some gs) \<longleftrightarrow>
        (\<exists>g \<in> set gs. item_triple g = Some (''user'', ''*'', ''read''))"
      using normalized_ex [of "\<lambda>t. t = (''user'', ''*'', ''read'')" gs]
      unfolding has_public_read_access_grant_def response_triple_def by simp
    moreover have "has_public_write_access_grant (Some gs) \<longleftrightarrow>
        (\<exists>g \<in> set gs. item_triple g = Some (''user'', ''*'', ''write''))"
      using normalized_ex [of "\<lambda>t. t = (''user'', ''*'', ''write'')" gs]
      unfolding has_public_write_access_grant_def response_triple_def by simp
    moreover have "perm = ''read'' \<or> perm = ''write''"
      if "item_triple g = Some (''user'', ''*'', perm)" for g perm using v [OF that] by simp
    ultimately show ?thesis by blast
  qed
qed

lemma restrict_Inr:
  assumes "restrict builtin gdb uid c key strip s = Inr s'" and "wf_val (VDict builtin)"
    and "snd s = d \<or> snd s = fill_missing_permissions d builtin"
  shows "(snd s' = d \<or> snd s' = fill_missing_permissions d builtin) \<and>
    fst s' = (if c \<and> \<not> permitted builtin gdb uid d key then strip (fst s) else fst s)"
proof (cases c)
  case True
  with assms(1) obtain b d' where h: "has_permission builtin gdb uid key (snd s) = Inr (b, d')"
    and s': "s' = (if b then fst s else strip (fst s), d')"
    by (auto simp: restrict_def rbind_Inr_iff)
  have "permitted builtin gdb uid d key \<longleftrightarrow> b"
    using assms(3) h has_permission_filled [OF assms(2), of gdb uid key d]
    by (auto simp: permitted_def rbind_Inr_iff split: sum.splits)
  moreover have "d' = d \<or> d' = fill_missing_permissions d builtin"
    using has_permission_defaults [OF h] assms(3) fill_idem [OF assms(2)] by auto
  ultimately show ?thesis using s' True by auto
qed (use assms in \<open>auto simp: restrict_def\<close>)

lemma strips_valid:
  assumes "item_triple g = Some t"
  shows "g \<in> set (strip_anyone_access_grants (Some gs)) \<longleftrightarrow> g \<in> set gs \<and> fst t \<noteq> ''anyone''"
    and "g \<in> set (strip_public gs) \<longleftrightarrow> g \<in> set gs \<and> \<not> (fst t = ''user'' \<and> fst (snd t) = ''*'')"
    and "g \<in> set (strip_user_access_grants (Some gs)) \<longleftrightarrow>
      g \<in> set gs \<and> \<not> (fst t = ''user'' \<and> fst (snd t) \<noteq> ''*'')"
    and "g \<in> set (strip_groups gs) \<longleftrightarrow> g \<in> set gs \<and> fst t \<noteq> ''group''"
proof -
  obtain pt pid perm where t: "t = (pt, pid, perm)" by (cases t)
  note i = item_triple_get [OF assms [unfolded t]]
  show "g \<in> set (strip_anyone_access_grants (Some gs)) \<longleftrightarrow> g \<in> set gs \<and> fst t \<noteq> ''anyone''"
    using i t by (auto simp: strip_anyone_access_grants_def)
  show "g \<in> set (strip_public gs) \<longleftrightarrow> g \<in> set gs \<and> \<not> (fst t = ''user'' \<and> fst (snd t) = ''*'')"
    using i t by (auto simp: strip_public_def)
  show "g \<in> set (strip_user_access_grants (Some gs)) \<longleftrightarrow>
      g \<in> set gs \<and> \<not> (fst t = ''user'' \<and> fst (snd t) \<noteq> ''*'')"
    using i t by (auto simp: strip_user_access_grants_def)
  show "g \<in> set (strip_groups gs) \<longleftrightarrow> g \<in> set gs \<and> fst t \<noteq> ''group''"
    using i t by (auto simp: strip_groups_def)
qed

lemma strips_subset:
  "set (strip_anyone_access_grants (Some gs)) \<subseteq> set gs" "set (strip_public gs) \<subseteq> set gs"
  "set (strip_user_access_grants (Some gs)) \<subseteq> set gs" "set (strip_groups gs) \<subseteq> set gs"
  by (auto simp: strip_anyone_access_grants_def strip_public_def strip_user_access_grants_def strip_groups_def)

lemma restrict_step:
  assumes "restrict builtin gdb uid c key strip s = Inr s'" and "wf_val (VDict builtin)"
    and "snd s = d \<or> snd s = fill_missing_permissions d builtin"
    and "\<And>g t. item_triple g = Some t \<Longrightarrow> g \<in> set (strip (fst s)) \<longleftrightarrow> g \<in> set (fst s) \<and> \<not> K t"
    and "set (strip (fst s)) \<subseteq> set (fst s)"
    and "\<And>g t. g \<in> set (fst s) \<Longrightarrow> item_triple g = Some t \<Longrightarrow> K t \<Longrightarrow> c"
  shows "(snd s' = d \<or> snd s' = fill_missing_permissions d builtin) \<and> set (fst s') \<subseteq> set (fst s) \<and>
    (\<forall>g t. item_triple g = Some t \<longrightarrow>
       (g \<in> set (fst s') \<longleftrightarrow> g \<in> set (fst s) \<and> (K t \<longrightarrow> permitted builtin gdb uid d key)))"
proof -
  from restrict_Inr [OF assms(1-3)]
  have d: "snd s' = d \<or> snd s' = fill_missing_permissions d builtin"
    and f: "fst s' = (if c \<and> \<not> permitted builtin gdb uid d key then strip (fst s) else fst s)" by auto
  have "g \<in> set (fst s') \<longleftrightarrow> g \<in> set (fst s) \<and> (K t \<longrightarrow> permitted builtin gdb uid d key)"
    if "item_triple g = Some t" for g t
    using assms(4) [OF that] assms(6) [OF _ that] by (auto simp: f)
  with d assms(5) show ?thesis by (simp add: f)
qed

lemma valid_kinds:
  "item_triple g = Some t \<Longrightarrow> fst t = ''user'' \<or> fst t = ''group'' \<or> fst t = ''anyone''"
  using valid_tripleD by (cases t) (fastforce simp: item_triple_def split: option.splits)

lemma filter_anyone_exact:
  assumes "filter_anyone builtin gdb uid role anyone_key (grants, d) = Inr s" and "wf_val (VDict builtin)"
  shows "(snd s = d \<or> snd s = fill_missing_permissions d builtin) \<and> set (fst s) \<subseteq> set grants \<and>
    (\<forall>g t. item_triple g = Some t \<longrightarrow> (g \<in> set (fst s) \<longleftrightarrow> g \<in> set grants \<and>
        (fst t = ''anyone'' \<longrightarrow> given anyone_key \<and>
           (role = ''admin'' \<or> permitted builtin gdb uid d (the anyone_key)))))"
proof (cases "has_anyone_read_access_grant (Some grants) \<and> given anyone_key \<and> role \<noteq> ''admin''")
  case False
  then show ?thesis
    using assms(1) strips_subset(1) [of grants] has_kind_iff(1) [of grants]
    by (auto simp: filter_anyone_def restrict_def strips_valid split: if_splits)
next
  case True
  with assms(1) have "restrict builtin gdb uid True (the anyone_key)
      (\<lambda>gs. strip_anyone_access_grants (Some gs)) (grants, d) = Inr s" by (simp add: filter_anyone_def)
  from restrict_step [OF this assms(2), where K = "\<lambda>t. fst t = ''anyone''" and d = d] True
  show ?thesis by (simp add: strips_valid strips_subset)
qed

lemma has_kindI:
  assumes "g \<in> set gs" "item_triple g = Some t"
  shows "fst t = ''user'' \<and> fst (snd t) = ''*'' \<Longrightarrow>
      has_public_read_access_grant (Some gs) \<or> has_public_write_access_grant (Some gs)"
    and "fst t = ''user'' \<and> fst (snd t) \<noteq> ''*'' \<Longrightarrow> has_user_access_grant (Some gs)"
    and "fst t = ''group'' \<Longrightarrow> list_ex (\<lambda>g. item_get g ''principal_type'' = VStr ''group'') gs"
proof -
  obtain pt pid perm where t: "t = (pt, pid, perm)" by (cases t)
  note g = assms(1) assms(2) [unfolded t]
  show "fst t = ''user'' \<and> fst (snd t) = ''*'' \<Longrightarrow>
      has_public_read_access_grant (Some gs) \<or> has_public_write_access_grant (Some gs)"
    unfolding has_kind_iff using g t by auto
  show "fst t = ''user'' \<and> fst (snd t) \<noteq> ''*'' \<Longrightarrow> has_user_access_grant (Some gs)"
    unfolding has_kind_iff using g t by auto
  show "fst t = ''group'' \<Longrightarrow> list_ex (\<lambda>g. item_get g ''principal_type'' = VStr ''group'') gs"
    using g t item_triple_get [OF g(2)] by (auto simp: list_ex_iff)
qed

lemma filter_others_exact:
  assumes "filter_others builtin gdb uid public_key s1 = Inr s4" and "wf_val (VDict builtin)"
    and "snd s1 = d \<or> snd s1 = fill_missing_permissions d builtin"
  shows "set (fst s4) \<subseteq> set (fst s1) \<and>
    (\<forall>g t. item_triple g = Some t \<longrightarrow> (g \<in> set (fst s4) \<longleftrightarrow> g \<in> set (fst s1) \<and>
        (fst t = ''user'' \<and> fst (snd t) = ''*'' \<longrightarrow> permitted builtin gdb uid d public_key) \<and>
        (fst t = ''user'' \<and> fst (snd t) \<noteq> ''*'' \<longrightarrow> permitted builtin gdb uid d ''access_grants.allow_users'') \<and>
        (fst t = ''group'' \<longrightarrow> permitted builtin gdb uid d ''access_grants.allow_groups'')))"
proof -
  let ?f = "fill_missing_permissions d builtin" and ?p = "permitted builtin gdb uid d"
  from assms(1) obtain s2 s3 where
    r2: "restrict builtin gdb uid
            (has_public_read_access_grant (Some (fst s1)) \<or> has_public_write_access_grant (Some (fst s1)))
            public_key strip_public s1 = Inr s2"
    and r3: "restrict builtin gdb uid (has_user_access_grant (Some (fst s2)))
            ''access_grants.allow_users'' (\<lambda>gs. strip_user_access_grants (Some gs)) s2 = Inr s3"
    and r4: "restrict builtin gdb uid
             (list_ex (\<lambda>g. item_get g ''principal_type'' = VStr ''group'') (fst s3))
             ''access_grants.allow_groups'' strip_groups s3 = Inr s4"
    unfolding filter_others_def rbind_Inr_iff by blast
  have d2: "(snd s2 = d \<or> snd s2 = ?f) \<and> set (fst s2) \<subseteq> set (fst s1) \<and>
    (\<forall>g t. item_triple g = Some t \<longrightarrow> (g \<in> set (fst s2) \<longleftrightarrow> g \<in> set (fst s1) \<and>
        (fst t = ''user'' \<and> fst (snd t) = ''*'' \<longrightarrow> ?p public_key)))"
    by (rule restrict_step [OF r2 assms(2,3) strips_valid(2) strips_subset(2) has_kindI(1)])
  have d3: "(snd s3 = d \<or> snd s3 = ?f) \<and> set (fst s3) \<subseteq> set (fst s2) \<and>
    (\<forall>g t. item_triple g = Some t \<longrightarrow> (g \<in> set (fst s3) \<longleftrightarrow> g \<in> set (fst s2) \<and>
        (fst t = ''user'' \<and> fst (snd t) \<noteq> ''*'' \<longrightarrow> ?p ''access_grants.allow_users'')))"
    by (rule restrict_step [OF r3 assms(2) d2 [THEN conjunct1] strips_valid(3) strips_subset(3) has_kindI(2)])
  have d4: "(snd s4 = d \<or> snd s4 = ?f) \<and> set (fst s4) \<subseteq> set (fst s3) \<and>
    (\<forall>g t. item_triple g = Some t \<longrightarrow> (g \<in> set (fst s4) \<longleftrightarrow> g \<in> set (fst s3) \<and>
        (fst t = ''group'' \<longrightarrow> ?p ''access_grants.allow_groups'')))"
    by (rule restrict_step [OF r4 assms(2) d3 [THEN conjunct1] strips_valid(4) strips_subset(4) has_kindI(3)])
  from d2 d3 d4 show ?thesis by (intro conjI) (blast, simp)
qed

text \<open>C4. What is left of the grants a user submits: nothing new, and of the valid grants exactly those
  the user may give. A grant to anyone needs the resource's key for it and, except for an
  administrator, that permission; for other users a public grant, a grant to a user and a grant to a
  group each need their own permission.\<close>

theorem filter_allowed_exact:
  assumes "filter_allowed_access_grants builtin gdb defaults uid role grants public_key anyone_key = Inr (out, d')"
    and "wf_val (VDict builtin)"
  shows "set out \<subseteq> set grants \<and>
    (\<forall>g t. item_triple g = Some t \<longrightarrow>
       (g \<in> set out \<longleftrightarrow> g \<in> set grants \<and>
          may_give (permitted builtin gdb uid defaults) (role = ''admin'') public_key anyone_key t))"
proof (cases "grants = []")
  case False
  with assms(1) obtain s1 where s1: "filter_anyone builtin gdb uid role anyone_key (grants, defaults) = Inr s1"
    and s2: "(if role = ''admin'' then Inr s1 else filter_others builtin gdb uid public_key s1) = Inr (out, d')"
    by (auto simp: filter_allowed_access_grants_def rbind_Inr_iff)
  note f1 = filter_anyone_exact [OF s1 assms(2)]
  show ?thesis
  proof (cases "role = ''admin''")
    case True
    with s2 have "out = fst s1" by simp
    with f1 True show ?thesis by (simp add: may_give_def split_beta)
  next
    case False
    with s2 have "filter_others builtin gdb uid public_key s1 = Inr (out, d')" by simp
    note f2 = filter_others_exact [OF this assms(2) f1 [THEN conjunct1], unfolded fst_conv]
    have "g \<in> set out \<longleftrightarrow> g \<in> set grants \<and>
        may_give (permitted builtin gdb uid defaults) False public_key anyone_key t"
      if "item_triple g = Some t" for g t
    proof -
      obtain pt pid perm where t: "t = (pt, pid, perm)" by (cases t)
      from f1 [THEN conjunct2, THEN conjunct2, rule_format, OF that] f2 [THEN conjunct2, rule_format, OF that]
      have "g \<in> set out \<longleftrightarrow> g \<in> set grants \<and>
          (pt = ''anyone'' \<longrightarrow> given anyone_key \<and> permitted builtin gdb uid defaults (the anyone_key)) \<and>
          (pt = ''user'' \<and> pid = ''*'' \<longrightarrow> permitted builtin gdb uid defaults public_key) \<and>
          (pt = ''user'' \<and> pid \<noteq> ''*'' \<longrightarrow> permitted builtin gdb uid defaults ''access_grants.allow_users'') \<and>
          (pt = ''group'' \<longrightarrow> permitted builtin gdb uid defaults ''access_grants.allow_groups'')"
        using False by (auto simp: t)
      with valid_kinds [OF that] show ?thesis unfolding may_give_def t by (elim disjE) simp_all
    qed
    moreover have "set out \<subseteq> set grants" using f1 f2 by blast
    ultimately show ?thesis using False by simp
  qed
qed (use assms(1) in \<open>simp add: filter_allowed_access_grants_def\<close>)

lemma filter_allowed_exact_witness:
  "\<not> may_give (permitted [] \<lparr>db_groups = [], db_members = [], db_uuid = 0\<rparr> ''u'' []) False ''public'' None
     (''user'', ''*'', ''read'')"
proof -
  let ?g = "GModel [(''principal_type'', VStr ''user''), (''principal_id'', VStr ''*''), (''permission'', VStr ''read'')]"
  have t: "item_triple ?g = Some (''user'', ''*'', ''read'')" by (simp add: item_triple_def valid_triple_def)
  have k: "has_public_read_access_grant (Some [?g])"
    by (simp add: has_public_read_access_grant_def normalized_def normalize_access_grants_def valid_triple_def)
  from t have k': "\<not> has_anyone_read_access_grant (Some [?g])"
    unfolding has_kind_iff by auto
  have e: "\<not> has_user_access_grant (Some [])"
    unfolding has_kind_iff by simp
  from k k' e have "filter_allowed_access_grants [] \<lparr>db_groups = [], db_members = [], db_uuid = 0\<rparr> [] ''u'' ''user''
      [?g] ''public'' None = Inr ([], [])"
    by (simp add: filter_allowed_access_grants_def filter_anyone_def filter_others_def restrict_def
        has_permission_def get_groups_by_member_id_def member_join_def order_desc_def Let_def rbind_def
        strip_public_def item_get_def)
  from filter_allowed_exact [OF this] t show ?thesis by auto
qed

section \<open>Access along the base models\<close>

text \<open>The ids the chain of base models of \<open>m\<close> refers to.\<close>

inductive base_id :: "model_row list \<Rightarrow> model_row \<Rightarrow> string \<Rightarrow> bool" for models m where
  base_first: "given (m_base_model_id m) \<Longrightarrow> base_id models m (the (m_base_model_id m))"
| base_next: "base_id models m i \<Longrightarrow> get_model_by_id models i = Some r \<Longrightarrow> given (m_base_model_id r) \<Longrightarrow>
    base_id models m (the (m_base_model_id r))"

text \<open>A successful walk has seen a set of ids that the references stay in.\<close>

definition stays_in :: "model_row list \<Rightarrow> bool \<Rightarrow> string set \<Rightarrow> string option \<Rightarrow> bool" where
  "stays_in models admin V b \<longleftrightarrow>
     (given b \<longrightarrow> the b \<in> V \<or> (get_model_by_id models (the b) = None \<and> admin))"

lemma base_model_walk_closed:
  "base_model_walk models ok admin b seen \<Longrightarrow>
    \<exists>V. seen \<subseteq> V \<and> stays_in models admin V b \<and>
      (\<forall>i \<in> V - seen. \<exists>r. get_model_by_id models i = Some r \<and> ok r \<and> stays_in models admin V (m_base_model_id r))"
proof (induction models ok admin b seen rule: base_model_walk.induct)
  case (1 models ok admin b seen)
  show ?case
  proof (cases "\<not> given b \<or> the b \<in> seen")
    case True
    then show ?thesis by (intro exI [of _ seen]) (auto simp: stays_in_def)
  next
    case new: False
    show ?thesis
    proof (cases "get_model_by_id models (the b)")
      case None
      then show ?thesis
        using "1.prems" new by (intro exI [of _ seen]) (auto simp: stays_in_def base_model_walk.simps [of _ _ _ b])
    next
      case (Some r)
      with "1.prems" new have ok: "ok r" "base_model_walk models ok admin (m_base_model_id r) (insert (the b) seen)"
        by (auto simp: base_model_walk.simps [of _ _ _ b] split: if_splits)
      from "1.IH" [OF new Some _ ok(2)] ok(1) obtain V where
        "insert (the b) seen \<subseteq> V" "stays_in models admin V (m_base_model_id r)"
        "\<forall>i \<in> V - insert (the b) seen. \<exists>r. get_model_by_id models i = Some r \<and> ok r \<and>
            stays_in models admin V (m_base_model_id r)" by auto
      with ok(1) Some show ?thesis by (intro exI [of _ V]) (auto simp: stays_in_def)
    qed
  qed
qed

lemma base_model_walk_complete:
  "(\<And>i. base_id models m i \<Longrightarrow> i \<notin> seen \<Longrightarrow> \<exists>r. get_model_by_id models i = Some r \<and> ok r) \<Longrightarrow>
   (given b \<longrightarrow> base_id models m (the b)) \<Longrightarrow> base_model_walk models ok admin b seen"
proof (induction models ok admin b seen rule: base_model_walk.induct)
  case (1 models ok admin b seen)
  show ?case
  proof (cases "given b \<and> the b \<notin> seen")
    case True
    with "1.prems" obtain r where r: "get_model_by_id models (the b) = Some r" "ok r" by blast
    have n: "given (m_base_model_id r) \<longrightarrow> base_id models m (the (m_base_model_id r))"
      using "1.prems"(2) True r(1) base_next by blast
    have "base_model_walk models ok admin (m_base_model_id r) (insert (the b) seen)"
      using "1.IH" [of r] True r "1.prems"(1) n by simp
    with r show ?thesis by (simp add: base_model_walk.simps [of _ _ _ b])
  qed (auto simp: base_model_walk.simps [of _ _ _ b])
qed

lemma base_model_walk_exact:
  assumes m: "get_model_by_id models (m_id m) = Some m"
  shows "base_model_walk models ok False (m_base_model_id m) {m_id m} \<longleftrightarrow>
    (\<forall>i. base_id models m i \<longrightarrow> i = m_id m \<or> (\<exists>r. get_model_by_id models i = Some r \<and> ok r))"
    (is "?w \<longleftrightarrow> ?all")
proof
  assume ?w
  from base_model_walk_closed [OF this] obtain V where
    V: "m_id m \<in> V" "stays_in models False V (m_base_model_id m)"
    "\<forall>i \<in> V - {m_id m}. \<exists>r. get_model_by_id models i = Some r \<and> ok r \<and> stays_in models False V (m_base_model_id r)"
    by auto
  have "i \<in> V" if "base_id models m i" for i
    using that
  proof induction
    case base_first
    with V(2) show ?case by (simp add: stays_in_def)
  next
    case (base_next i r)
    have "stays_in models False V (m_base_model_id r)"
    proof (cases "i = m_id m")
      case True
      with base_next m have "r = m" by simp
      with V(2) show ?thesis by simp
    next
      case False
      with base_next have "i \<in> V - {m_id m}" by simp
      with V(3) obtain r' where "get_model_by_id models i = Some r'" "stays_in models False V (m_base_model_id r')"
        by blast
      with base_next show ?thesis by simp
    qed
    with base_next show ?case by (simp add: stays_in_def)
  qed
  with V(3) show ?all by blast
next
  assume ?all
  then show ?w by (intro base_model_walk_complete [of models m]) (auto intro: base_first)
qed

text \<open>C5. A user who is not an administrator may use a registered model exactly when the user owns or
  can read the model and every model its chain of base models leads to, none of them unregistered.\<close>

theorem check_model_access_exact:
  assumes "u_role u \<noteq> ''admin''" and "get_model_by_id models (m_id m) = Some m"
  shows "check_model_access models gdb db u (Some m) False = Inr () \<longleftrightarrow>
    may_read_model gdb db (u_id u) None m \<and>
    (\<forall>i. base_id models m i \<longrightarrow> i = m_id m \<or>
       (\<exists>r. get_model_by_id models i = Some r \<and> may_read_model gdb db (u_id u) None r))"
proof -
  have "may_read_model gdb db (u_id u) (Some (map g_id (get_groups_by_member_id (u_id u) gdb))) =
      may_read_model gdb db (u_id u) None"
    by (rule ext) (simp add: may_read_model_def has_access_None)
  then show ?thesis
    using assms(1) by (simp add: check_model_access_def has_base_model_access_def Let_def
        base_model_walk_exact [OF assms(2)])
qed

lemma check_model_access_exact_witness:
  "check_model_access [\<lparr>m_id = ''a'', m_user_id = ''u'', m_base_model_id = Some ''b''\<rparr>]
     \<lparr>db_groups = [], db_members = [], db_uuid = 0\<rparr> \<lparr>db_grants = [], gdb_uuid = 0\<rparr>
     \<lparr>u_id = ''u'', u_email = ''e'', u_username = None, u_role = ''user'', u_name = ''n'',
      u_profile_image_url = [], u_settings = [], u_oauth = [], u_scim = [], u_last_active_at = 0,
      u_updated_at = 0, u_created_at = 0\<rparr>
     (Some \<lparr>m_id = ''a'', m_user_id = ''u'', m_base_model_id = Some ''b''\<rparr>) False \<noteq> Inr ()"
proof -
  let ?m = "\<lparr>m_id = ''a'', m_user_id = ''u'', m_base_model_id = Some ''b''\<rparr>"
  let ?u = "\<lparr>u_id = ''u'', u_email = ''e'', u_username = None, u_role = ''user'', u_name = ''n'',
      u_profile_image_url = [], u_settings = [], u_oauth = [], u_scim = [], u_last_active_at = 0,
      u_updated_at = 0, u_created_at = 0\<rparr>"
  have b: "base_id [?m] ?m ''b''" using base_first [of ?m "[?m]"] by (simp add: given_def)
  have "get_model_by_id [?m] (m_id ?m) = Some ?m" "get_model_by_id [?m] ''b'' = None"
    by (simp_all add: get_model_by_id_def)
  then show ?thesis
    using b check_model_access_exact [of ?u "[?m]" ?m] by fastforce
qed

text \<open>Joining a group never takes access to a model away: with more groups a user passes every
  check of the chain that was passed before.\<close>

theorem base_model_access_mono:
  assumes "set gs \<subseteq> set gs'"
    and "has_base_model_access models gdb db uid m role (Some gs)"
  shows "has_base_model_access models gdb db uid m role (Some gs')"
proof -
  have ok: "may_read_model gdb db uid (Some gs) r \<Longrightarrow> may_read_model gdb db uid (Some gs') r" for r
    using ac.check_mono [OF assms(1)] by (auto simp: may_read_model_def)
  have "base_model_walk models (may_read_model gdb db uid (Some gs)) a b seen \<Longrightarrow>
      base_model_walk models (may_read_model gdb db uid (Some gs')) a b seen" for a b seen
  proof (induction models "may_read_model gdb db uid (Some gs)" a b seen rule: base_model_walk.induct)
    case (1 models a b seen)
    show ?case
      using 1 ok
      by (subst base_model_walk.simps) (auto simp: base_model_walk.simps [of _ "may_read_model gdb db uid (Some gs)" _ b]
          split: option.splits if_splits)
  qed
  with assms(2) show ?thesis by (simp add: has_base_model_access_def)
qed

lemma base_model_access_mono_witness:
  "has_base_model_access [] \<lparr>db_groups = [], db_members = [], db_uuid = 0\<rparr> \<lparr>db_grants = [], gdb_uuid = 0\<rparr> ''u''
     \<lparr>m_id = ''a'', m_user_id = ''u'', m_base_model_id = None\<rparr> None (Some [''g''])"
  by (rule base_model_access_mono [of "[]"])
    (simp_all add: has_base_model_access_def base_model_walk.simps given_def)

end
