(* ===== verification/Folders.thy ===== *)
theory Folders
  imports Permissions
begin

text \<open>
  Folders: \<open>backend/open_webui/models/folders.py\<close>, the check along the ancestors in
  \<open>utils/access_control/folders.py\<close>, and the unread counts and the move of \<open>routers/folders.py\<close>.
  A folder refers to its parent by id. The columns of the table may be null, the model of a row
  requires a name: reading a row without one fails. The recursive methods go as deep as the
  interpreter's recursion limit, a parameter \<open>depth\<close>; the work-list loop over a subtree has no
  bound and is a partial function.
\<close>

section \<open>Rows\<close>

record folder =
  f_id :: string
  f_parent_id :: "string option"
  f_user_id :: string
  f_name :: "string option"
  f_items :: pyval
  f_meta :: pyval
  f_data :: pyval
  f_is_expanded :: bool
  f_created_at :: int
  f_updated_at :: int

record folder_form =
  ff_name :: string
  ff_data :: pyval
  ff_meta :: pyval

text \<open>The update form: \<open>None\<close> is a field the request leaves out.\<close>

record folder_update_form =
  uf_name :: "string option option"
  uf_data :: "pyval option"
  uf_meta :: "pyval option"

record folder_db =
  db_folders :: "folder list"
  fdb_uuid :: nat

text \<open>\<open>FolderModel.model_validate\<close>\<close>

definition folder_model :: "folder \<Rightarrow> folder result" where
  "folder_model f = (if f_name f = None then Inl (ValueError ''name'') else Inr f)"

definition model_or_none :: "folder option \<Rightarrow> folder option" where
  "model_or_none f = (case f of None \<Rightarrow> None | Some r \<Rightarrow> if f_name r = None then None else Some r)"

section \<open>Operations\<close>

definition insert_new_folder ::
  "(nat \<Rightarrow> string) \<Rightarrow> int \<Rightarrow> string \<Rightarrow> folder_form \<Rightarrow> string option \<Rightarrow> folder_db \<Rightarrow> folder option \<times> folder_db" where
  "insert_new_folder uuid now uid form parent_id db =
     (let row = \<lparr>f_id = uuid (fdb_uuid db), f_parent_id = parent_id, f_user_id = uid,
                  f_name = Some (ff_name form), f_items = VNone, f_meta = ff_meta form, f_data = ff_data form,
                  f_is_expanded = False, f_created_at = now, f_updated_at = now\<rparr>;
          db1 = db\<lparr>fdb_uuid := Suc (fdb_uuid db)\<rparr>
      in if f_id row \<in> f_id ` set (db_folders db) then (None, db1)
         else (Some row, db1\<lparr>db_folders := db_folders db @ [row]\<rparr>))"

definition find_owned :: "string \<Rightarrow> string \<Rightarrow> folder_db \<Rightarrow> folder option" where
  "find_owned i uid db = List.find (\<lambda>f. f_id f = i \<and> f_user_id f = uid) (db_folders db)"

definition get_folder_by_id_and_user_id :: "string \<Rightarrow> string \<Rightarrow> folder_db \<Rightarrow> folder option" where
  "get_folder_by_id_and_user_id i uid db = model_or_none (find_owned i uid db)"

definition get_folder_by_id :: "string \<Rightarrow> folder_db \<Rightarrow> folder option" where
  "get_folder_by_id i db = model_or_none (List.find (\<lambda>f. f_id f = i) (db_folders db))"

text \<open>\<open>existing != 'write'\<close>: a write permission is never replaced.\<close>

definition add_shared :: "(string, string) pydict \<Rightarrow> access_grant \<Rightarrow> (string, string) pydict" where
  "add_shared perms g =
     (if dget perms (ag_resource_id g) \<noteq> Some ''write''
      then dset perms (ag_resource_id g) (ag_permission g) else perms)"

definition get_shared_folder_ids_for_user ::
  "string \<Rightarrow> string list \<Rightarrow> grant_db \<Rightarrow> (string, string) pydict" where
  "get_shared_folder_ids_for_user uid gids gdb =
     foldl add_shared []
       (filter (\<lambda>g. ag_resource_type g = ''folder'' \<and> principal_matches uid gids g) (db_grants gdb))"

definition get_folders_by_parent_id_and_user_id ::
  "string option \<Rightarrow> string \<Rightarrow> folder_db \<Rightarrow> folder list result" where
  "get_folders_by_parent_id_and_user_id parent uid db =
     rmap folder_model (filter (\<lambda>f. f_parent_id f = parent \<and> f_user_id f = uid) (db_folders db))"

primrec get_children :: "nat \<Rightarrow> string \<Rightarrow> folder_db \<Rightarrow> string \<Rightarrow> folder list result" where
  "get_children 0 uid db i = Inl RecursionError"
| "get_children (Suc depth) uid db i =
     rbind (get_folders_by_parent_id_and_user_id (Some i) uid db)
       (rconcat (\<lambda>c. rbind (get_children depth uid db (f_id c)) (\<lambda>below. Inr (below @ [c]))))"

definition get_children_folders_by_id_and_user_id ::
  "nat \<Rightarrow> string \<Rightarrow> string \<Rightarrow> folder_db \<Rightarrow> folder list option" where
  "get_children_folders_by_id_and_user_id depth i uid db =
     (case find_owned i uid db of
        None \<Rightarrow> None
      | Some f \<Rightarrow> (case get_children depth uid db (f_id f) of Inl e \<Rightarrow> None | Inr fs \<Rightarrow> Some fs))"

definition get_folders_by_user_id :: "string \<Rightarrow> folder_db \<Rightarrow> folder list result" where
  "get_folders_by_user_id uid db = rmap folder_model (filter (\<lambda>f. f_user_id f = uid) (db_folders db))"

text \<open>\<open>ilike\<close> is the database's case-insensitive pattern match.\<close>

definition get_folder_by_parent_id_and_user_id_and_name ::
  "(string \<Rightarrow> string \<Rightarrow> bool) \<Rightarrow> string option \<Rightarrow> string \<Rightarrow> string \<Rightarrow> folder_db \<Rightarrow> folder option" where
  "get_folder_by_parent_id_and_user_id_and_name ilike parent uid name db =
     model_or_none (List.find (\<lambda>f. f_parent_id f = parent \<and> f_user_id f = uid
        \<and> (case f_name f of None \<Rightarrow> False | Some n \<Rightarrow> ilike n name)) (db_folders db))"

text \<open>The work list: \<open>folders.pop()\<close> takes the last entry.\<close>

partial_function (option) subtree_loop ::
  "string \<Rightarrow> folder_db \<Rightarrow> string list \<Rightarrow> folder list \<Rightarrow> string list result option" where
  "subtree_loop uid db ids folders =
     (if folders = [] then Some (Inr ids)
      else case get_folders_by_parent_id_and_user_id (Some (f_id (last folders))) uid db of
             Inl e \<Rightarrow> Some (Inl e)
           | Inr children \<Rightarrow>
               subtree_loop uid db (ids @ map f_id children) (butlast folders @ children))"

declare subtree_loop.simps [code]

definition get_folder_ids_in_subtree :: "string \<Rightarrow> string \<Rightarrow> folder_db \<Rightarrow> string list result option" where
  "get_folder_ids_in_subtree i uid db =
     (case find_owned i uid db of
        None \<Rightarrow> Some (Inr [])
      | Some f \<Rightarrow> (case folder_model f of Inl e \<Rightarrow> Some (Inl e)
                   | Inr f \<Rightarrow> subtree_loop uid db [f_id f] [f]))"

definition update_owned :: "string \<Rightarrow> string \<Rightarrow> (folder \<Rightarrow> folder) \<Rightarrow> folder_db \<Rightarrow> folder option \<times> folder_db" where
  "update_owned i uid change db =
     (case find_owned i uid db of
        None \<Rightarrow> (None, db)
      | Some f \<Rightarrow> (model_or_none (Some (change f)),
          db\<lparr>db_folders := map (\<lambda>r. if f_id r = i \<and> f_user_id r = uid then change r else r) (db_folders db)\<rparr>))"

definition update_folder_parent_id_by_id_and_user_id ::
  "int \<Rightarrow> string \<Rightarrow> string \<Rightarrow> string option \<Rightarrow> folder_db \<Rightarrow> folder option \<times> folder_db" where
  "update_folder_parent_id_by_id_and_user_id now i uid parent_id db =
     update_owned i uid (\<lambda>f. f\<lparr>f_parent_id := parent_id, f_updated_at := now\<rparr>) db"

text \<open>\<open>{**(old or {}), **new}\<close>\<close>

definition merge_json :: "pyval \<Rightarrow> pyval \<Rightarrow> pyval result" where
  "merge_json old new =
     (case py_or old (VDict []) of
        VDict a \<Rightarrow> (case new of VDict b \<Rightarrow> Inr (VDict (dmerge a b)) | _ \<Rightarrow> Inl TypeError)
      | _ \<Rightarrow> Inl TypeError)"

definition merge_field :: "pyval \<Rightarrow> pyval option \<Rightarrow> pyval result" where
  "merge_field old new = (case new of None \<Rightarrow> Inr old | Some v \<Rightarrow> merge_json old v)"

text \<open>
  The update. An error in a merge is caught before the commit; a row without a name is committed
  before its validation fails.
\<close>

definition update_folder_by_id_and_user_id ::
  "int \<Rightarrow> string \<Rightarrow> string \<Rightarrow> folder_update_form \<Rightarrow> folder_db \<Rightarrow> folder option \<times> folder_db" where
  "update_folder_by_id_and_user_id now i uid form db =
     (case find_owned i uid db of
        None \<Rightarrow> (None, db)
      | Some f \<Rightarrow>
          let new_name = (case uf_name form of None \<Rightarrow> None | Some n \<Rightarrow> n);
              existing = List.find (\<lambda>r. f_name r = new_name \<and> f_parent_id r = f_parent_id f \<and> f_user_id r = uid)
                           (db_folders db)
          in if existing \<noteq> None \<and> f_id (the existing) \<noteq> i then (None, db)
             else (case rbind (merge_field (f_data f) (uf_data form)) (\<lambda>d.
                        rbind (merge_field (f_meta f) (uf_meta form)) (\<lambda>m. Inr (d, m))) of
                     Inl e \<Rightarrow> (None, db)
                   | Inr (d, m) \<Rightarrow>
                       update_owned i uid
                         (\<lambda>r. r\<lparr>f_name := (case uf_name form of None \<Rightarrow> f_name r | Some n \<Rightarrow> n),
                                f_data := d, f_meta := m, f_updated_at := now\<rparr>) db))"

definition update_folder_is_expanded_by_id_and_user_id ::
  "int \<Rightarrow> string \<Rightarrow> string \<Rightarrow> bool \<Rightarrow> folder_db \<Rightarrow> folder option \<times> folder_db" where
  "update_folder_is_expanded_by_id_and_user_id now i uid e db =
     update_owned i uid (\<lambda>f. f\<lparr>f_is_expanded := e, f_updated_at := now\<rparr>) db"

text \<open>
  Deletion commits after each child. The state is the table and the ids collected; an exception
  stops the traversal and leaves the table as it is then.
\<close>

definition delete_row :: "string \<Rightarrow> folder_db \<Rightarrow> folder_db" where
  "delete_row i db = db\<lparr>db_folders := filter (\<lambda>f. f_id f \<noteq> i) (db_folders db)\<rparr>"

fun delete_each ::
  "(string \<Rightarrow> folder_db \<times> string list \<Rightarrow> (folder_db \<times> string list) \<times> py_error option) \<Rightarrow> folder list
     \<Rightarrow> folder_db \<times> string list \<Rightarrow> (folder_db \<times> string list) \<times> py_error option" where
  "delete_each below [] s = (s, None)"
| "delete_each below (c # cs) s =
     (case below (f_id c) s of
        (s', Some e) \<Rightarrow> (s', Some e)
      | ((db, ids), None) \<Rightarrow>
          if List.find (\<lambda>f. f_id f = f_id c) (db_folders db) = None
          then ((db, ids @ [f_id c]), Some (RuntimeError ''UnmappedInstanceError''))
          else delete_each below cs (delete_row (f_id c) db, ids @ [f_id c]))"

primrec delete_children ::
  "nat \<Rightarrow> string \<Rightarrow> string \<Rightarrow> folder_db \<times> string list \<Rightarrow> (folder_db \<times> string list) \<times> py_error option" where
  "delete_children 0 uid i s = (s, Some RecursionError)"
| "delete_children (Suc depth) uid i s =
     (case get_folders_by_parent_id_and_user_id (Some i) uid (fst s) of
        Inl e \<Rightarrow> (s, Some e)
      | Inr children \<Rightarrow> delete_each (delete_children depth uid) children s)"

definition delete_folder_by_id_and_user_id ::
  "nat \<Rightarrow> string \<Rightarrow> string \<Rightarrow> folder_db \<Rightarrow> string list \<times> folder_db" where
  "delete_folder_by_id_and_user_id depth i uid db =
     (case find_owned i uid db of
        None \<Rightarrow> ([], db)
      | Some f \<Rightarrow>
          (case delete_children depth uid (f_id f) (db, [f_id f]) of
             ((db', ids), Some e) \<Rightarrow> ([], db')
           | ((db', ids), None) \<Rightarrow> (ids, delete_row (f_id f) db')))"

text \<open>Runs of whitespace and underscores become one space.\<close>

function squeeze :: "string \<Rightarrow> string" where
  "squeeze [] = []"
| "squeeze (c # cs) =
     (if is_space c \<or> c = CHR ''_''
      then CHR '' '' # squeeze (dropWhile (\<lambda>x. is_space x \<or> x = CHR ''_'') cs)
      else c # squeeze cs)"
  by pat_completeness auto
termination
  by (relation "measure length") (auto simp: le_imp_less_Suc length_dropWhile_le)

definition normalize_folder_name :: "string \<Rightarrow> string" where
  "normalize_folder_name name = py_lower (py_strip (squeeze name))"

definition folder_names_match :: "(string \<Rightarrow> bool) \<Rightarrow> folder \<Rightarrow> bool result" where
  "folder_names_match p f =
     (case f_name f of None \<Rightarrow> Inl TypeError | Some n \<Rightarrow> Inr (p (normalize_folder_name n)))"

fun search_loop ::
  "nat \<Rightarrow> string \<Rightarrow> string list \<Rightarrow> folder_db \<Rightarrow> folder list \<Rightarrow> (string, folder) pydict
     \<Rightarrow> (string, folder) pydict result" where
  "search_loop depth uid queries db [] results = Inr results"
| "search_loop depth uid queries db (f # fs) results =
     rbind (folder_names_match (\<lambda>n. n \<in> set queries) f) (\<lambda>hit.
       search_loop depth uid queries db fs
         (if hit then
            foldl (\<lambda>d c. dset d (f_id c) c) (dset results (f_id f) f)
              (case get_children_folders_by_id_and_user_id depth (f_id f) uid db of
                 None \<Rightarrow> [] | Some cs \<Rightarrow> cs)
          else results))"

definition search_folders_by_names ::
  "nat \<Rightarrow> string \<Rightarrow> string list \<Rightarrow> folder_db \<Rightarrow> folder list result" where
  "search_folders_by_names depth uid queries db =
     (if queries = [] then Inr []
      else rbind (search_loop depth uid (map normalize_folder_name queries) db
                    (filter (\<lambda>f. f_user_id f = uid) (db_folders db)) []) (\<lambda>d. Inr (dvalues d)))"

definition search_folders_by_name_contains :: "string \<Rightarrow> string \<Rightarrow> folder_db \<Rightarrow> folder list result" where
  "search_folders_by_name_contains uid query db =
     rconcat (\<lambda>f. rbind (folder_names_match (sublist (normalize_folder_name query)) f)
                    (\<lambda>hit. Inr (if hit then [f] else [])))
       (filter (\<lambda>f. f_user_id f = uid) (db_folders db))"

section \<open>Access along the ancestors\<close>

primrec has_folder_access ::
  "nat \<Rightarrow> group_db \<Rightarrow> grant_db \<Rightarrow> folder_db \<Rightarrow> string \<Rightarrow> string \<Rightarrow> folder \<Rightarrow> bool result" where
  "has_folder_access 0 gdb adb db uid perm f = Inl RecursionError"
| "has_folder_access (Suc depth) gdb adb db uid perm f =
     (if f_user_id f = uid then Inr True
      else if has_access gdb uid ''folder'' (f_id f) perm None adb then Inr True
      else if given (f_parent_id f) then
        (case get_folder_by_id (the (f_parent_id f)) db of
           None \<Rightarrow> Inr False
         | Some p \<Rightarrow> has_folder_access depth gdb adb db uid perm p)
      else Inr False)"

section \<open>Requests\<close>

text \<open>The handler of a move, after its permission check.\<close>

definition move_folder ::
  "(string \<Rightarrow> string \<Rightarrow> bool) \<Rightarrow> int \<Rightarrow> string \<Rightarrow> string \<Rightarrow> string option \<Rightarrow> folder_db \<Rightarrow> folder option result \<times> folder_db" where
  "move_folder ilike now i uid parent_id db =
     (case get_folder_by_id_and_user_id i uid db of
        None \<Rightarrow> (Inl (HTTPException 404 ''Not found''), db)
      | Some f \<Rightarrow>
          if get_folder_by_parent_id_and_user_id_and_name ilike parent_id uid (the (f_name f)) db \<noteq> None
          then (Inl (HTTPException 400 ''Folder already exists''), db)
          else let (r, db') = update_folder_parent_id_by_id_and_user_id now i uid parent_id db
               in (Inr r, db'))"

text \<open>The walk of one folder's unread count along its ancestors.\<close>

function unread_walk ::
  "(string, string option) pydict \<Rightarrow> nat \<Rightarrow> string option \<Rightarrow> string set \<Rightarrow> (string, nat) pydict
     \<Rightarrow> (string, nat) pydict" where
  "unread_walk parents n current seen counts =
     (if \<not> given current \<or> the current \<in> seen then counts
      else let i = the current;
               counts' = (case dget counts i of None \<Rightarrow> counts | Some c \<Rightarrow> dset counts i (c + n))
           in case dget parents i of
                None \<Rightarrow> counts'
              | Some p \<Rightarrow> unread_walk parents n p (insert i seen) counts')"
  by pat_completeness auto
termination
proof (relation "measure (\<lambda>(parents, n, current, seen, counts).
    length (filter (\<lambda>kv. fst kv \<notin> seen) parents))", goal_cases)
  case (2 parents n current seen counts i counts' p)
  then have "(i, p) \<in> set parents" by (simp add: dget_Some_in)
  then show ?case using 2 filter_unseen_less [of "(i, p)" parents fst i seen] by simp
qed simp

declare unread_walk.simps [simp del]

definition get_folder_unread_counts ::
  "(string, nat) pydict \<Rightarrow> string \<Rightarrow> folder_db \<Rightarrow> (string, nat) pydict result" where
  "get_folder_unread_counts direct uid db =
     rbind (get_folders_by_user_id uid db) (\<lambda>folders.
       let parents = map (\<lambda>f. (f_id f, f_parent_id f)) folders
       in Inr (foldl (\<lambda>counts kv. unread_walk parents (snd kv) (Some (fst kv)) {} counts)
                 (map (\<lambda>f. (f_id f, 0)) folders) direct))"

section \<open>The forest of folders\<close>

definition child_of :: "string \<Rightarrow> folder_db \<Rightarrow> (string \<times> string) set" where
  "child_of uid db = {(f_id c, p) | c p. c \<in> set (db_folders db) \<and> f_user_id c = uid \<and> f_parent_id c = Some p}"

definition wf_folder_db :: "folder_db \<Rightarrow> bool" where
  "wf_folder_db db \<longleftrightarrow> distinct (map f_id (db_folders db)) \<and> (\<forall>f \<in> set (db_folders db). f_name f \<noteq> None)"

definition children :: "string \<Rightarrow> folder_db \<Rightarrow> string \<Rightarrow> folder list" where
  "children uid db i = filter (\<lambda>f. f_parent_id f = Some i \<and> f_user_id f = uid) (db_folders db)"

lemma rmap_folder_model: "\<forall>f \<in> set fs. f_name f \<noteq> None \<Longrightarrow> rmap folder_model fs = Inr fs"
  using rmap_total [of fs folder_model id] by (simp add: folder_model_def)

lemma rmap_folder_model_Inr: "rmap folder_model fs = Inr gs \<Longrightarrow> gs = fs"
  by (induction fs arbitrary: gs) (auto simp: rbind_Inr_iff folder_model_def split: if_splits)

lemma get_children_rows:
  "wf_folder_db db \<Longrightarrow> get_folders_by_parent_id_and_user_id (Some i) uid db = Inr (children uid db i)"
  unfolding get_folders_by_parent_id_and_user_id_def children_def
  by (rule rmap_folder_model) (auto simp: wf_folder_db_def)

lemma child_of_children: "(j, i) \<in> child_of uid db \<longleftrightarrow> j \<in> f_id ` set (children uid db i)"
  by (auto simp: child_of_def children_def)

lemma children_id: "c \<in> set (children uid db i) \<Longrightarrow> (f_id c, i) \<in> child_of uid db"
  by (auto simp: child_of_def children_def)

lemma distinct_children: "wf_folder_db db \<Longrightarrow> distinct (map f_id (children uid db i))"
  unfolding children_def wf_folder_db_def by (rule distinct_map_filter_key) simp

lemma row_eqI: "wf_folder_db db \<Longrightarrow> f \<in> set (db_folders db) \<Longrightarrow> g \<in> set (db_folders db) \<Longrightarrow> f_id f = f_id g \<Longrightarrow> f = g"
  by (auto simp: wf_folder_db_def distinct_map dest: inj_onD)

lemma child_ofD:
  "(j, p) \<in> child_of uid db \<Longrightarrow> \<exists>c \<in> set (db_folders db). f_id c = j \<and> f_parent_id c = Some p \<and> f_user_id c = uid"
  by (auto simp: child_of_def)

lemma parent_unique:
  assumes "wf_folder_db db" "(j, p) \<in> child_of uid db" "(j, q) \<in> child_of uid db"
  shows "p = q"
proof -
  from child_ofD [OF assms(2)] child_ofD [OF assms(3)] obtain c d
    where cd: "c \<in> set (db_folders db)" "d \<in> set (db_folders db)" "f_id c = f_id d"
    and p: "f_parent_id c = Some p" "f_parent_id d = Some q" by auto
  from row_eqI [OF assms(1) cd] p show "p = q" by simp
qed

lemma finite_child_of: "finite (child_of uid db)"
proof -
  have "child_of uid db \<subseteq> f_id ` set (db_folders db) \<times> the ` f_parent_id ` set (db_folders db)"
    by (force simp: child_of_def image_image)
  then show ?thesis by (rule finite_subset) simp
qed

lemma forest_rank:
  assumes "acyclic R" and "finite R"
  shows "\<exists>rank :: 'a \<Rightarrow> nat. \<forall>(c, p) \<in> R. rank c < rank p"
proof -
  have fin: "finite {y. (y, x) \<in> R\<^sup>+}" for x
    using assms(2) by (auto intro: finite_subset [of _ "fst ` (R\<^sup>+)"] simp: rev_image_eqI)
  have "card {y. (y, c) \<in> R\<^sup>+} < card {y. (y, p) \<in> R\<^sup>+}" if r: "(c, p) \<in> R" for c p
  proof (rule psubset_card_mono [OF fin])
    have "(c, c) \<notin> R\<^sup>+" using assms(1) by (simp add: acyclic_def)
    with r show "{y. (y, c) \<in> R\<^sup>+} \<subset> {y. (y, p) \<in> R\<^sup>+}" by (auto intro: trancl_into_trancl)
  qed
  then show ?thesis by (intro exI [of _ "\<lambda>x. card {y. (y, x) \<in> R\<^sup>+}"]) auto
qed

lemma sum_list_pow_less:
  fixes rank :: "'a \<Rightarrow> nat"
  assumes "\<And>c. c \<in> set cs \<Longrightarrow> rank c < r" and "length cs < N"
  shows "sum_list (map (\<lambda>c. N ^ rank c) cs) < N ^ r"
proof (cases cs)
  case Nil
  with assms(2) show ?thesis by simp
next
  case (Cons c cs')
  then obtain k where r: "r = Suc k" using assms(1) [of c] by (cases r) auto
  have "sum_list (map (\<lambda>c. N ^ rank c) cs) \<le> sum_list (map (\<lambda>c. N ^ k) cs)"
    using assms r by (intro sum_list_mono power_increasing) (auto simp: less_Suc_eq_le)
  also have "\<dots> = length cs * N ^ k" by (simp add: sum_list_triv)
  also have "\<dots> < N * N ^ k" using assms(2) by simp
  finally show ?thesis by (simp add: r)
qed

section \<open>The ids of a subtree\<close>

text \<open>What the work list maintains: the ids found are the root and folders below it, each once; the
  parent of each is an id that has left the list, and with such an id its children are found.\<close>

definition subtree_inv :: "string \<Rightarrow> folder_db \<Rightarrow> string \<Rightarrow> string list \<Rightarrow> folder list \<Rightarrow> bool" where
  "subtree_inv uid db root ids stack \<longleftrightarrow>
     (let open_ids = f_id ` set stack; R = child_of uid db
      in distinct ids \<and> distinct (map f_id stack) \<and> open_ids \<subseteq> set ids \<and> root \<in> set ids \<and>
         set stack \<subseteq> set (db_folders db) \<and>
         (\<forall>j \<in> set ids. (j, root) \<in> R\<^sup>*) \<and>
         (\<forall>j \<in> set ids - {root}. \<exists>p \<in> set ids - open_ids. (j, p) \<in> R) \<and>
         (\<forall>p \<in> set ids - open_ids. \<forall>c. (c, p) \<in> R \<longrightarrow> c \<in> set ids))"

lemma subtree_inv_done:
  assumes "subtree_inv uid db root ids []"
  shows "distinct ids \<and> set ids = {j. (j, root) \<in> (child_of uid db)\<^sup>*}"
proof -
  have "j \<in> set ids" if "(j, root) \<in> (child_of uid db)\<^sup>*" for j
    using that
  proof (induction rule: converse_rtrancl_induct)
    case base
    from assms show ?case by (simp add: subtree_inv_def Let_def)
  next
    case (step c p)
    have "\<forall>p \<in> set ids. \<forall>c. (c, p) \<in> child_of uid db \<longrightarrow> c \<in> set ids"
      using assms by (simp add: subtree_inv_def Let_def)
    with step show ?case by blast
  qed
  moreover have "distinct ids" "\<forall>j \<in> set ids. (j, root) \<in> (child_of uid db)\<^sup>*"
    using assms by (simp_all add: subtree_inv_def Let_def)
  ultimately show ?thesis by blast
qed

lemma subtree_inv_new:
  assumes wf: "wf_folder_db db" and ac: "acyclic (child_of uid db)"
    and inv: "subtree_inv uid db root ids (stack @ [f])"
    and c: "(c, f_id f) \<in> child_of uid db"
  shows "c \<notin> set ids"
proof
  assume "c \<in> set ids"
  let ?R = "child_of uid db"
  show False
  proof (cases "c = root")
    case True
    have "(f_id f, root) \<in> ?R\<^sup>*" using inv by (auto simp: subtree_inv_def Let_def)
    with c True have "(root, root) \<in> ?R\<^sup>+" by (auto intro: rtrancl_into_trancl2)
    with ac show False by (simp add: acyclic_def)
  next
    case False
    with \<open>c \<in> set ids\<close> inv obtain p where "p \<notin> f_id ` set (stack @ [f])" "(c, p) \<in> ?R"
      unfolding subtree_inv_def Let_def by blast
    with parent_unique [OF wf c, of p] show False by simp
  qed
qed

lemma subtree_inv_step:
  assumes wf: "wf_folder_db db" and ac: "acyclic (child_of uid db)"
    and inv: "subtree_inv uid db root ids (stack @ [f])"
  shows "subtree_inv uid db root (ids @ map f_id (children uid db (f_id f)))
           (stack @ children uid db (f_id f))"
proof -
  let ?cs = "children uid db (f_id f)" and ?R = "child_of uid db"
  note new = subtree_inv_new [OF wf ac inv, unfolded child_of_children]
  from inv have i: "distinct ids" "distinct (map f_id (stack @ [f]))" "f_id ` set (stack @ [f]) \<subseteq> set ids"
    "root \<in> set ids" "set (stack @ [f]) \<subseteq> set (db_folders db)" "\<forall>j \<in> set ids. (j, root) \<in> ?R\<^sup>*"
    "\<forall>j \<in> set ids - {root}. \<exists>p \<in> set ids - f_id ` set (stack @ [f]). (j, p) \<in> ?R"
    "\<forall>p \<in> set ids - f_id ` set (stack @ [f]). \<forall>c. (c, p) \<in> ?R \<longrightarrow> c \<in> set ids"
    by (simp_all add: subtree_inv_def Let_def)
  have f: "f_id f \<in> set ids" "f_id f \<notin> f_id ` set stack" using i(2,3) by auto
  have fcs: "f_id f \<notin> f_id ` set ?cs" using new f(1) by blast
  have d: "set ids \<inter> f_id ` set ?cs = {}" using new by blast
  moreover from d i(3) have "f_id ` set stack \<inter> f_id ` set ?cs = {}" by auto
  ultimately have n1: "distinct (ids @ map f_id ?cs)" "distinct (map f_id (stack @ ?cs))"
    using i(1,2) distinct_children [OF wf] by simp_all
  have n2: "set (stack @ ?cs) \<subseteq> set (db_folders db)" using i(5) by (auto simp: children_def)
  have n3: "(j, root) \<in> ?R\<^sup>*" if "j \<in> set (ids @ map f_id ?cs)" for j
    using that i(6) f(1) by (auto dest!: children_id intro: converse_rtrancl_into_rtrancl)
  have n4: "\<exists>p \<in> set (ids @ map f_id ?cs) - f_id ` set (stack @ ?cs). (j, p) \<in> ?R"
    if j: "j \<in> set (ids @ map f_id ?cs) - {root}" for j
  proof (cases "j \<in> set ids")
    case True
    with j i(7) obtain p where p: "p \<in> set ids" "p \<notin> f_id ` set (stack @ [f])" "(j, p) \<in> ?R" by blast
    with new have "p \<notin> f_id ` set ?cs" by blast
    with p show ?thesis by auto
  next
    case False
    with j have "(j, f_id f) \<in> ?R" by (auto dest: children_id)
    with f fcs show ?thesis by auto
  qed
  have n5: "c \<in> set (ids @ map f_id ?cs)"
    if "p \<in> set (ids @ map f_id ?cs) - f_id ` set (stack @ ?cs)" "(c, p) \<in> ?R" for p c
  proof (cases "p = f_id f")
    case True
    with that(2) show ?thesis by (simp add: child_of_children)
  next
    case False
    with that(1) have "p \<in> set ids - f_id ` set (stack @ [f])" by (simp add: image_Un) blast
    with i(8) that(2) have "c \<in> set ids" by blast
    then show ?thesis by simp
  qed
  have n6: "f_id ` set (stack @ ?cs) \<subseteq> set (ids @ map f_id ?cs)" using i(3) by auto
  have n7: "root \<in> set (ids @ map f_id ?cs)" using i(4) by simp
  show ?thesis
    unfolding subtree_inv_def Let_def
    by (intro conjI ballI allI impI) (rule n1 n2 n6 n7 | erule n3 n4 | erule (1) n5)+
qed

lemma subtree_loop_done: "subtree_loop uid db ids [] = Some (Inr ids)"
  by (simp add: subtree_loop.simps)

lemma subtree_loop_step:
  "wf_folder_db db \<Longrightarrow> subtree_loop uid db ids (stack @ [f]) =
     subtree_loop uid db (ids @ map f_id (children uid db (f_id f))) (stack @ children uid db (f_id f))"
  by (subst subtree_loop.simps) (simp add: get_children_rows)

lemma subtree_loop_total:
  assumes wf: "wf_folder_db db" and ac: "acyclic (child_of uid db)"
    and inv: "subtree_inv uid db root ids stack"
  shows "\<exists>ids'. subtree_loop uid db ids stack = Some (Inr ids') \<and> distinct ids' \<and>
     set ids' = {j. (j, root) \<in> (child_of uid db)\<^sup>*}"
proof -
  from forest_rank [OF ac finite_child_of] obtain rank :: "string \<Rightarrow> nat"
    where rank: "\<And>c p. (c, p) \<in> child_of uid db \<Longrightarrow> rank c < rank p" by blast
  define N where "N = Suc (length (db_folders db))"
  define w :: "folder list \<Rightarrow> nat" where "w stack = sum_list (map (\<lambda>f. N ^ rank (f_id f)) stack)" for stack
  show ?thesis
    using inv
  proof (induction "w stack" arbitrary: ids stack rule: less_induct)
    case less
    show ?case
    proof (cases stack rule: rev_cases)
      case Nil
      with less.prems subtree_inv_done show ?thesis by (simp add: subtree_loop_done)
    next
      case (snoc st f)
      let ?cs = "children uid db (f_id f)"
      have "length ?cs < N" by (simp add: N_def children_def less_Suc_eq_le)
      then have "w ?cs < N ^ rank (f_id f)"
        unfolding w_def using sum_list_pow_less [of "?cs" "\<lambda>c. rank (f_id c)"] rank children_id by blast
      then have "w (st @ ?cs) < w stack" by (simp add: w_def snoc)
      from less.hyps [OF this subtree_inv_step [OF wf ac]] less.prems
      show ?thesis unfolding snoc subtree_loop_step [OF wf] by blast
    qed
  qed
qed

lemma find_owned_row: "find_owned i uid db = Some f \<Longrightarrow> f \<in> set (db_folders db) \<and> f_id f = i \<and> f_user_id f = uid"
  unfolding find_owned_def by (drule find_SomeD) simp

lemma subtree_inv_start: "f \<in> set (db_folders db) \<Longrightarrow> subtree_inv uid db (f_id f) [f_id f] [f]"
  by (simp add: subtree_inv_def Let_def)

text \<open>C6. Where the parents of a user's folders form no cycle, the work list over a subtree ends and
  finds the folder and every folder below it, each exactly once.\<close>

theorem subtree_ids_exact:
  assumes "wf_folder_db db" and "acyclic (child_of uid db)" and "find_owned i uid db \<noteq> None"
  shows "\<exists>ids. get_folder_ids_in_subtree i uid db = Some (Inr ids) \<and> distinct ids \<and>
     set ids = {j. (j, i) \<in> (child_of uid db)\<^sup>*}"
proof -
  from assms(3) obtain f where f: "find_owned i uid db = Some f" by blast
  note r = find_owned_row [OF f]
  with assms(1) have "folder_model f = Inr f" by (auto simp: folder_model_def wf_folder_db_def)
  moreover have "\<exists>ids'. subtree_loop uid db [f_id f] [f] = Some (Inr ids') \<and> distinct ids' \<and>
      set ids' = {j. (j, f_id f) \<in> (child_of uid db)\<^sup>*}"
    using subtree_loop_total [OF assms(1,2) subtree_inv_start] r by blast
  ultimately show ?thesis using f r by (simp add: get_folder_ids_in_subtree_def)
qed

text \<open>A folder for the concrete instances.\<close>

definition example_folder :: "string \<Rightarrow> string option \<Rightarrow> folder" where
  "example_folder i p = \<lparr>f_id = i, f_parent_id = p, f_user_id = ''u'', f_name = Some i, f_items = VNone,
     f_meta = VNone, f_data = VNone, f_is_expanded = False, f_created_at = 0, f_updated_at = 0\<rparr>"

lemma example_folder_simps [simp]:
  "f_id (example_folder i p) = i" "f_parent_id (example_folder i p) = p"
  "f_user_id (example_folder i p) = ''u''" "f_name (example_folder i p) = Some i"
  by (simp_all add: example_folder_def)

lemma subtree_ids_exact_witness:
  "\<exists>ids. get_folder_ids_in_subtree ''a'' ''u''
     \<lparr>db_folders = [example_folder ''b'' (Some ''a''),
       example_folder ''a'' None], fdb_uuid = 0\<rparr>
     = Some (Inr ids) \<and> distinct ids \<and> {''a'', ''b''} \<subseteq> set ids"
proof -
  let ?b = "example_folder ''b'' (Some ''a'')"
  let ?a = "example_folder ''a'' None"
  let ?db = "\<lparr>db_folders = [?b, ?a], fdb_uuid = 0\<rparr>"
  have R: "child_of ''u'' ?db = {(''b'', ''a'')}"
    by (auto simp: child_of_def intro: exI [of _ ?b])
  have w: "wf_folder_db ?db" by (simp add: wf_folder_db_def)
  have a: "acyclic (child_of ''u'' ?db)" unfolding R by (intro acyclicI) (auto simp: trancl_insert)
  have o: "find_owned ''a'' ''u'' ?db \<noteq> None" by (simp add: find_owned_def)
  from subtree_ids_exact [OF w a o] R show ?thesis by auto
qed

section \<open>Moving a folder below itself\<close>

text \<open>A folder that is below itself is a child of one that is.\<close>

lemma cycle_child:
  assumes "(i, i) \<in> (child_of uid db)\<^sup>+"
  shows "\<exists>c \<in> set (children uid db i). (f_id c, f_id c) \<in> (child_of uid db)\<^sup>+"
proof -
  from assms obtain c where c: "(i, c) \<in> (child_of uid db)\<^sup>*" "(c, i) \<in> child_of uid db"
    by (auto dest: tranclD2)
  then have "(c, c) \<in> (child_of uid db)\<^sup>+" by (auto intro: rtrancl_into_trancl2)
  with c(2) show ?thesis by (auto simp: child_of_children)
qed

lemma subtree_loop_cycle:
  assumes "subtree_loop uid db ids stack = Some r" and "wf_folder_db db" and "f \<in> set stack"
  shows "(f_id f, f_id f) \<notin> (child_of uid db)\<^sup>+"
proof -
  have "wf_folder_db db \<longrightarrow> (\<forall>f \<in> set stack. (f_id f, f_id f) \<notin> (child_of uid db)\<^sup>+)"
  proof (rule subtree_loop.raw_induct [where P = "\<lambda>uid db ids stack r. wf_folder_db db \<longrightarrow>
      (\<forall>f \<in> set stack. (f_id f, f_id f) \<notin> (child_of uid db)\<^sup>+)", OF _ assms(1)], intro impI)
    fix loop uid db ids stack r
    assume IH: "\<And>uid db ids stack r. loop uid db ids stack = Some r \<Longrightarrow> wf_folder_db db \<longrightarrow>
        (\<forall>f \<in> set stack. (f_id f, f_id f) \<notin> (child_of uid db)\<^sup>+)"
      and step: "(if stack = [] then Some (Inr ids)
          else case get_folders_by_parent_id_and_user_id (Some (f_id (last stack))) uid db of
                 Inl e \<Rightarrow> Some (Inl e)
               | Inr cs \<Rightarrow> loop uid db (ids @ map f_id cs) (butlast stack @ cs)) = Some r"
      and wf: "wf_folder_db db"
    show "\<forall>f \<in> set stack. (f_id f, f_id f) \<notin> (child_of uid db)\<^sup>+"
    proof (cases stack rule: rev_cases)
      case (snoc st f)
      with step have "loop uid db (ids @ map f_id (children uid db (f_id f)))
          (st @ children uid db (f_id f)) = Some r"
        using wf by (simp add: get_children_rows)
      from IH [OF this] wf have "\<forall>g \<in> set (st @ children uid db (f_id f)).
          (f_id g, f_id g) \<notin> (child_of uid db)\<^sup>+" by blast
      with cycle_child [of "f_id f" uid db] show ?thesis by (auto simp: snoc)
    qed simp
  qed
  with assms(2,3) show ?thesis by blast
qed

text \<open>A move changes the row of the folder and nothing else.\<close>

lemma update_owned_rows:
  "find_owned i uid db = Some f \<Longrightarrow> db_folders (snd (update_owned i uid change db)) =
     map (\<lambda>r. if f_id r = i \<and> f_user_id r = uid then change r else r) (db_folders db)"
  by (simp add: update_owned_def)

lemma find_owned_I:
  "wf_folder_db db \<Longrightarrow> f \<in> set (db_folders db) \<Longrightarrow> find_owned (f_id f) (f_user_id f) db = Some f"
proof -
  assume wf: "wf_folder_db db" and f: "f \<in> set (db_folders db)"
  from find_Some_ex [OF f, of "\<lambda>g. f_id g = f_id f \<and> f_user_id g = f_user_id f"] obtain g
    where g: "find_owned (f_id f) (f_user_id f) db = Some g" by (auto simp: find_owned_def)
  with row_eqI [OF wf f, of g] find_owned_row [OF g] show ?thesis by simp
qed

lemma move_wf:
  assumes "wf_folder_db db"
  shows "wf_folder_db (snd (update_folder_parent_id_by_id_and_user_id now i uid parent db))"
proof (cases "find_owned i uid db")
  case (Some f)
  let ?ch = "\<lambda>r. if f_id r = i \<and> f_user_id r = uid then r\<lparr>f_parent_id := parent, f_updated_at := now\<rparr> else r"
  have "map f_id (map ?ch (db_folders db)) = map f_id (db_folders db)" by simp
  moreover have "\<forall>f \<in> set (map ?ch (db_folders db)). f_name f \<noteq> None"
    using assms by (auto simp: wf_folder_db_def)
  moreover have "db_folders (snd (update_folder_parent_id_by_id_and_user_id now i uid parent db)) =
      map ?ch (db_folders db)"
    using Some by (simp add: update_folder_parent_id_by_id_and_user_id_def update_owned_def)
  ultimately show ?thesis using assms by (simp only: wf_folder_db_def simp_thms)
qed (use assms in \<open>simp add: update_folder_parent_id_by_id_and_user_id_def update_owned_def\<close>)

lemma child_ofI:
  "c \<in> set (db_folders db) \<Longrightarrow> f_user_id c = uid \<Longrightarrow> f_parent_id c = Some p \<Longrightarrow> (f_id c, p) \<in> child_of uid db"
  by (auto simp: child_of_def)

text \<open>C7. Moving a folder into one of its own subfolders is accepted, and from then on the work list
  over the folder's subtree never ends: the requests that need it, deleting the folder and marking its
  chats as read, do not return.\<close>

theorem move_below_itself_diverges:
  assumes "wf_folder_db db" and "a \<in> set (db_folders db)" and "b \<in> set (children uid db (f_id a))"
    and "f_user_id a = uid" and "f_id b \<noteq> f_id a"
    and "get_folder_by_parent_id_and_user_id_and_name ilike (Some (f_id b)) uid (the (f_name a)) db = None"
  shows "\<exists>db'. move_folder ilike now (f_id a) uid (Some (f_id b)) db =
      (Inr (Some (a\<lparr>f_parent_id := Some (f_id b), f_updated_at := now\<rparr>)), db') \<and>
    get_folder_ids_in_subtree (f_id a) uid db' = None"
proof -
  let ?a = "a\<lparr>f_parent_id := Some (f_id b), f_updated_at := now\<rparr>"
  let ?ch = "\<lambda>f. f\<lparr>f_parent_id := Some (f_id b), f_updated_at := now\<rparr>"
  let ?db = "snd (update_folder_parent_id_by_id_and_user_id now (f_id a) uid (Some (f_id b)) db)"
  have o: "find_owned (f_id a) uid db = Some a" using find_owned_I [OF assms(1,2)] assms(4) by simp
  have n: "f_name a \<noteq> None" using assms(1,2) by (auto simp: wf_folder_db_def)
  then have m: "move_folder ilike now (f_id a) uid (Some (f_id b)) db = (Inr (Some ?a), ?db)"
    using assms(6) o by (auto simp: move_folder_def get_folder_by_id_and_user_id_def model_or_none_def
        update_folder_parent_id_by_id_and_user_id_def update_owned_def)
  have rows: "db_folders ?db = map (\<lambda>r. if f_id r = f_id a \<and> f_user_id r = uid then ?ch r else r) (db_folders db)"
    using update_owned_rows [OF o] by (simp add: update_folder_parent_id_by_id_and_user_id_def)
  have wf: "wf_folder_db ?db" by (rule move_wf [OF assms(1)])
  have b: "b \<in> set (db_folders db)" "f_parent_id b = Some (f_id a)" "f_user_id b = uid"
    using assms(3) by (auto simp: children_def)
  have "?a \<in> set (db_folders ?db)" "b \<in> set (db_folders ?db)"
    using assms(2,4,5) b(1) unfolding rows by (force simp: image_iff)+
  then have "(f_id ?a, f_id b) \<in> child_of uid ?db" "(f_id b, f_id ?a) \<in> child_of uid ?db"
    using assms(4) b child_ofI [of ?a ?db uid "f_id b"] child_ofI [of b ?db uid "f_id a"] by simp_all
  then have cyc: "(f_id ?a, f_id ?a) \<in> (child_of uid ?db)\<^sup>+" by auto
  have o': "find_owned (f_id a) uid ?db = Some ?a"
    using find_owned_I [OF wf \<open>?a \<in> set (db_folders ?db)\<close>] assms(4) by simp
  have "subtree_loop uid ?db [f_id a] [?a] = None"
    using subtree_loop_cycle [OF _ wf] cyc by (metis list.set_intros(1) not_None_eq)
  then have "get_folder_ids_in_subtree (f_id a) uid ?db = None"
    using o' n by (simp add: get_folder_ids_in_subtree_def folder_model_def)
  with m show ?thesis by blast
qed

lemma move_below_itself_diverges_witness:
  "\<exists>db'. get_folder_ids_in_subtree ''a'' ''u'' db' = None"
proof -
  let ?b = "example_folder ''b'' (Some ''a'')"
  let ?a = "example_folder ''a'' None"
  let ?db = "\<lparr>db_folders = [?b, ?a], fdb_uuid = 0\<rparr>"
  have "\<exists>db'. move_folder (=) 1 (f_id ?a) ''u'' (Some (f_id ?b)) ?db =
      (Inr (Some (?a\<lparr>f_parent_id := Some (f_id ?b), f_updated_at := 1\<rparr>)), db') \<and>
    get_folder_ids_in_subtree (f_id ?a) ''u'' db' = None"
    by (rule move_below_itself_diverges)
      (simp_all add: wf_folder_db_def children_def get_folder_by_parent_id_and_user_id_and_name_def model_or_none_def)
  then show ?thesis by auto
qed

section \<open>Folders below a folder\<close>

lemma siblings_apart:
  assumes wf: "wf_folder_db db" and ac: "acyclic (child_of uid db)"
    and c: "c \<in> set (children uid db i)" "c' \<in> set (children uid db i)"
    and y: "(y, f_id c) \<in> (child_of uid db)\<^sup>*" "(y, f_id c') \<in> (child_of uid db)\<^sup>*"
  shows "f_id c = f_id c'"
proof -
  let ?R = "child_of uid db"
  have sv: "single_valued ?R" by (auto intro: single_valuedI parent_unique [OF wf])
  have no: "(f_id d, f_id e) \<notin> ?R\<^sup>+" if "d \<in> set (children uid db i)" "e \<in> set (children uid db i)" for d e
  proof
    assume "(f_id d, f_id e) \<in> ?R\<^sup>+"
    then obtain p where p: "(f_id d, p) \<in> ?R" "(p, f_id e) \<in> ?R\<^sup>*" by (auto dest: tranclD)
    with parent_unique [OF wf p(1) children_id [OF that(1)]] have "(i, f_id e) \<in> ?R\<^sup>*" by simp
    with children_id [OF that(2)] have "(i, i) \<in> ?R\<^sup>+" by (auto intro: rtrancl_into_trancl1)
    with ac show False by (simp add: acyclic_def)
  qed
  from single_valued_confluent [OF sv y] no c show ?thesis by (auto simp: rtrancl_eq_or_trancl)
qed

lemma below_children:
  "(j, i) \<in> (child_of uid db)\<^sup>+ \<longleftrightarrow> (\<exists>c \<in> set (children uid db i). (j, f_id c) \<in> (child_of uid db)\<^sup>*)"
proof
  assume "(j, i) \<in> (child_of uid db)\<^sup>+"
  then obtain p where "(j, p) \<in> (child_of uid db)\<^sup>*" "(p, i) \<in> child_of uid db" by (auto dest: tranclD2)
  then show "\<exists>c \<in> set (children uid db i). (j, f_id c) \<in> (child_of uid db)\<^sup>*"
    by (auto simp: child_of_children)
next
  assume "\<exists>c \<in> set (children uid db i). (j, f_id c) \<in> (child_of uid db)\<^sup>*"
  then show "(j, i) \<in> (child_of uid db)\<^sup>+" by (auto intro: rtrancl_into_trancl1 children_id)
qed

lemma distinct_concat_map:
  assumes "distinct xs" and "\<And>x. x \<in> set xs \<Longrightarrow> distinct (g x)"
    and "\<And>x y z. x \<in> set xs \<Longrightarrow> y \<in> set xs \<Longrightarrow> z \<in> set (g x) \<Longrightarrow> z \<in> set (g y) \<Longrightarrow> x = y"
  shows "distinct (concat (map g xs))"
  using assms
proof (induction xs)
  case (Cons a xs)
  have "distinct (concat (map g xs))" using Cons.prems by (intro Cons.IH) auto
  moreover have "set (g a) \<inter> set (concat (map g xs)) = {}" using Cons.prems by fastforce
  ultimately show ?case using Cons.prems(2) by simp
qed simp

lemma get_children_exact:
  assumes wf: "wf_folder_db db" and ac: "acyclic (child_of uid db)"
  shows "get_children depth uid db i = Inr fs \<Longrightarrow>
    distinct (map f_id fs) \<and> set fs \<subseteq> set (db_folders db) \<and> f_id ` set fs = {j. (j, i) \<in> (child_of uid db)\<^sup>+}"
proof (induction depth arbitrary: i fs)
  case (Suc depth)
  let ?cs = "children uid db i" and ?R = "child_of uid db"
  from Suc.prems obtain g where
    g: "\<forall>c \<in> set ?cs. rbind (get_children depth uid db (f_id c)) (\<lambda>below. Inr (below @ [c])) = Inr (g c)"
    and fs: "fs = concat (map g ?cs)"
    using rconcat_Inr by (fastforce simp: get_children_rows [OF wf])
  have gc: "distinct (map f_id (g c)) \<and> set (g c) \<subseteq> set (db_folders db) \<and>
      f_id ` set (g c) = {j. (j, f_id c) \<in> ?R\<^sup>*}" if c: "c \<in> set ?cs" for c
  proof -
    from g c obtain b where b: "get_children depth uid db (f_id c) = Inr b" "g c = b @ [c]"
      by (auto simp: rbind_Inr_iff)
    have "c \<in> set (db_folders db)" using c by (simp add: children_def)
    moreover have "(f_id c, f_id c) \<notin> ?R\<^sup>+" using ac by (simp add: acyclic_def)
    ultimately show ?thesis using Suc.IH [OF b(1)] b(2) by (auto simp: rtrancl_eq_or_trancl)
  qed
  have dc: "distinct ?cs" using distinct_children [OF wf, of uid i] by (simp add: distinct_map)
  have cs_eq: "x = y" if "x \<in> set ?cs" "y \<in> set ?cs" "f_id x = f_id y" for x y
    using that distinct_children [OF wf, of uid i] by (auto simp: distinct_map dest: inj_onD)
  have "distinct (concat (map (\<lambda>c. map f_id (g c)) ?cs))"
  proof (rule distinct_concat_map [OF dc])
    fix x y z
    assume x: "x \<in> set ?cs" "y \<in> set ?cs" "z \<in> set (map f_id (g x))" "z \<in> set (map f_id (g y))"
    then have "(z, f_id x) \<in> ?R\<^sup>*" "(z, f_id y) \<in> ?R\<^sup>*" using gc by auto
    with siblings_apart [OF wf ac x(1,2)] cs_eq x show "x = y" by blast
  qed (use gc in blast)
  moreover have "f_id ` set fs = {j. (j, i) \<in> ?R\<^sup>+}"
    unfolding fs below_children using gc by (auto simp: image_UN)
  moreover have "set fs \<subseteq> set (db_folders db)" unfolding fs using gc by auto
  ultimately show ?case by (simp add: fs map_concat comp_def)
qed simp

text \<open>The interpreter's recursion is deep enough when it exceeds the number of folders.\<close>

lemma below_count_less:
  assumes "acyclic (child_of uid db)" and "(c, i) \<in> child_of uid db"
  shows "card {j. (j, c) \<in> (child_of uid db)\<^sup>+} < card {j. (j, i) \<in> (child_of uid db)\<^sup>+}"
proof (rule psubset_card_mono)
  have "(c, c) \<notin> (child_of uid db)\<^sup>+" using assms(1) by (simp add: acyclic_def)
  with assms(2) show "{j. (j, c) \<in> (child_of uid db)\<^sup>+} \<subset> {j. (j, i) \<in> (child_of uid db)\<^sup>+}"
    by (auto intro: trancl_into_trancl)
  show "finite {j. (j, i) \<in> (child_of uid db)\<^sup>+}"
    using finite_child_of [of uid db]
    by (auto intro: finite_subset [of _ "fst ` ((child_of uid db)\<^sup>+)"] simp: rev_image_eqI)
qed

lemma get_children_total:
  assumes wf: "wf_folder_db db" and ac: "acyclic (child_of uid db)"
  shows "card {j. (j, i) \<in> (child_of uid db)\<^sup>+} < depth \<Longrightarrow> \<exists>fs. get_children depth uid db i = Inr fs"
proof (induction depth arbitrary: i)
  case (Suc depth)
  have "\<exists>fs. get_children depth uid db (f_id c) = Inr fs" if "c \<in> set (children uid db i)" for c
    using below_count_less [OF ac children_id [OF that]] Suc.prems by (intro Suc.IH) simp
  then have "rbind (get_children depth uid db (f_id c)) (\<lambda>below. Inr (below @ [c])) =
      Inr (projr (get_children depth uid db (f_id c)) @ [c])" if "c \<in> set (children uid db i)" for c
    using that by fastforce
  then show ?case by (simp add: get_children_rows [OF wf] rconcat_total)
qed simp

lemma below_rows: "{j. (j, i) \<in> (child_of uid db)\<^sup>+} \<subseteq> f_id ` set (db_folders db)"
  by (auto simp: child_of_def dest!: tranclD)

lemma below_count_le: "card {j. (j, i) \<in> (child_of uid db)\<^sup>+} \<le> length (db_folders db)"
proof -
  have "card {j. (j, i) \<in> (child_of uid db)\<^sup>+} \<le> card (f_id ` set (db_folders db))"
    by (rule card_mono [OF _ below_rows]) simp
  also have "\<dots> \<le> length (db_folders db)" using card_length [of "map f_id (db_folders db)"] by simp
  finally show ?thesis .
qed

section \<open>Deleting a folder\<close>

definition without :: "string set \<Rightarrow> folder_db \<Rightarrow> folder_db" where
  "without D db = db\<lparr>db_folders := filter (\<lambda>f. f_id f \<notin> D) (db_folders db)\<rparr>"

lemma delete_row_without: "delete_row i (without D db) = without (insert i D) db"
proof -
  have "filter (\<lambda>f. f_id f \<noteq> i) (filter (\<lambda>f. f_id f \<notin> D) rs) = filter (\<lambda>f. f_id f \<notin> insert i D) rs"
    for rs :: "folder list" by (induction rs) auto
  then show ?thesis by (simp add: delete_row_def without_def)
qed

lemma wf_without: "wf_folder_db db \<Longrightarrow> wf_folder_db (without D db)"
  by (auto simp: wf_folder_db_def without_def intro: distinct_map_filter_key)

lemma children_without:
  "f_id ` set (children uid db i) \<inter> D = {} \<Longrightarrow> children uid (without D db) i = children uid db i"
proof -
  assume d: "f_id ` set (children uid db i) \<inter> D = {}"
  have "children uid (without D db) i = filter (\<lambda>f. f_id f \<notin> D) (children uid db i)"
    by (simp add: children_def without_def conj_commute)
  also have "\<dots> = children uid db i" using d by (intro filter_True) auto
  finally show ?thesis .
qed

lemma delete_each_ok:
  assumes "\<And>c D ids. c \<in> set cs \<Longrightarrow> D \<inter> set (g c) = {} \<Longrightarrow>
      below (f_id c) (without D db, ids) = ((without (D \<union> set (g c)) db, ids @ g c), None)"
    and "set cs \<subseteq> set (db_folders db)"
    and "distinct (concat (map (\<lambda>c. g c @ [f_id c]) cs))"
    and "D \<inter> set (concat (map (\<lambda>c. g c @ [f_id c]) cs)) = {}"
  shows "delete_each below cs (without D db, ids) =
    ((without (D \<union> set (concat (map (\<lambda>c. g c @ [f_id c]) cs))) db,
      ids @ concat (map (\<lambda>c. g c @ [f_id c]) cs)), None)"
  using assms
proof (induction cs arbitrary: D ids)
  case (Cons c cs)
  let ?D = "insert (f_id c) (D \<union> set (g c))"
  have b: "below (f_id c) (without D db, ids) = ((without (D \<union> set (g c)) db, ids @ g c), None)"
    using Cons.prems(4) by (intro Cons.prems(1)) auto
  have "c \<in> set (db_folders (without (D \<union> set (g c)) db))"
    using Cons.prems(2-4) by (auto simp: without_def)
  then obtain y where "List.find (\<lambda>f. f_id f = f_id c) (db_folders (without (D \<union> set (g c)) db)) = Some y"
    using find_Some_ex [of c _ "\<lambda>f. f_id f = f_id c"] by fastforce
  then have "delete_each below (c # cs) (without D db, ids) =
      delete_each below cs (without ?D db, ids @ g c @ [f_id c])"
    by (simp add: b delete_row_without)
  also have "\<dots> = ((without (?D \<union> set (concat (map (\<lambda>c. g c @ [f_id c]) cs))) db,
      (ids @ g c @ [f_id c]) @ concat (map (\<lambda>c. g c @ [f_id c]) cs)), None)"
    using Cons.prems by (intro Cons.IH) auto
  finally show ?case by (simp add: Un_assoc)
qed simp

lemma delete_children_ok:
  assumes wf: "wf_folder_db db"
  shows "get_children depth uid db i = Inr fs \<Longrightarrow> distinct (map f_id fs) \<Longrightarrow> D \<inter> f_id ` set fs = {} \<Longrightarrow>
    delete_children depth uid i (without D db, ids) =
      ((without (D \<union> f_id ` set fs) db, ids @ map f_id fs), None)"
proof (induction depth arbitrary: i fs D ids)
  case (Suc depth)
  let ?cs = "children uid db i"
  from Suc.prems(1) obtain h where
    h: "\<forall>c \<in> set ?cs. rbind (get_children depth uid db (f_id c)) (\<lambda>below. Inr (below @ [c])) = Inr (h c)"
    and fs: "fs = concat (map h ?cs)"
    using rconcat_Inr by (fastforce simp: get_children_rows [OF wf])
  define b :: "folder \<Rightarrow> folder list" where "b c = projr (get_children depth uid db (f_id c))" for c
  have hb: "get_children depth uid db (f_id c) = Inr (b c)" "h c = b c @ [c]" if "c \<in> set ?cs" for c
    using h that by (auto simp: rbind_Inr_iff b_def)
  have fs': "map f_id fs = concat (map (\<lambda>c. map f_id (b c) @ [f_id c]) ?cs)"
    unfolding fs map_concat map_map comp_def by (rule arg_cong [of _ _ concat]) (simp add: hb)
  have "f_id ` set ?cs \<subseteq> f_id ` set fs" using fs hb by fastforce
  then have cs: "children uid (without D db) i = ?cs" using Suc.prems(3) by (intro children_without) auto
  have "delete_each (delete_children depth uid) ?cs (without D db, ids) =
      ((without (D \<union> set (map f_id fs)) db, ids @ map f_id fs), None)"
    unfolding fs'
  proof (rule delete_each_ok)
    fix c D ids
    assume c: "c \<in> set ?cs" and d: "D \<inter> set (map f_id (b c)) = {}"
    have "distinct (map f_id (h c))" using Suc.prems(2) c unfolding fs by (auto simp: map_concat distinct_concat_iff)
    then have "distinct (map f_id (b c))" using hb(2) [OF c] by simp
    with Suc.IH [OF hb(1) [OF c], of D ids] d show "delete_children depth uid (f_id c) (without D db, ids) =
        ((without (D \<union> set (map f_id (b c))) db, ids @ map f_id (b c)), None)" by simp
  next
    show "set ?cs \<subseteq> set (db_folders db)" by (auto simp: children_def)
  qed (use Suc.prems(2,3) in \<open>simp_all add: fs' [symmetric]\<close>)
  then show ?case by (simp add: get_children_rows [OF wf_without [OF wf]] cs)
qed simp

text \<open>C8. Deleting a folder in a forest removes the folder and every folder below it, and no other
  folder; the answer lists the removed ids, the folder first and each once.\<close>

theorem delete_folder_exact:
  assumes "wf_folder_db db" and "acyclic (child_of uid db)" and "find_owned i uid db \<noteq> None"
    and "length (db_folders db) < depth"
  shows "\<exists>ids db'. delete_folder_by_id_and_user_id depth i uid db = (i # ids, db') \<and> distinct (i # ids) \<and>
     set (i # ids) = {j. (j, i) \<in> (child_of uid db)\<^sup>*} \<and>
     db_folders db' = filter (\<lambda>f. f_id f \<notin> set (i # ids)) (db_folders db)"
proof -
  from assms(3) obtain f where f: "find_owned i uid db = Some f" by blast
  from get_children_total [OF assms(1,2)] below_count_le [of i uid db] assms(4)
  obtain fs where fs: "get_children depth uid db i = Inr fs" by (meson le_less_trans)
  note e = get_children_exact [OF assms(1,2) fs]
  have "delete_children depth uid i (without {} db, [i]) = ((without (f_id ` set fs) db, [i] @ map f_id fs), None)"
    using delete_children_ok [OF assms(1) fs, of "{}"] e by simp
  then have "delete_folder_by_id_and_user_id depth i uid db =
      (i # map f_id fs, without (insert i (f_id ` set fs)) db)"
    using f find_owned_row [OF f] by (simp add: delete_folder_by_id_and_user_id_def without_def delete_row_without
        [of i "f_id ` set fs" db, unfolded without_def])
  moreover have "(i, i) \<notin> (child_of uid db)\<^sup>+" using assms(2) by (simp add: acyclic_def)
  ultimately show ?thesis
    using e by (intro exI [of _ "map f_id fs"] exI [of _ "without (insert i (f_id ` set fs)) db"])
      (auto simp: without_def rtrancl_eq_or_trancl)
qed

lemma delete_folder_exact_witness:
  "\<exists>ids db'. delete_folder_by_id_and_user_id 3 ''a'' ''u''
     \<lparr>db_folders = [example_folder ''b'' (Some ''a''),
       example_folder ''a'' None], fdb_uuid = 0\<rparr>
     = (ids, db') \<and> db_folders db' = []"
proof -
  let ?b = "example_folder ''b'' (Some ''a'')"
  let ?a = "example_folder ''a'' None"
  let ?db = "\<lparr>db_folders = [?b, ?a], fdb_uuid = 0\<rparr>"
  have R: "child_of ''u'' ?db = {(''b'', ''a'')}" by (auto simp: child_of_def intro: exI [of _ ?b])
  have w: "wf_folder_db ?db" by (simp add: wf_folder_db_def)
  have a: "acyclic (child_of ''u'' ?db)" unfolding R by (intro acyclicI) (auto simp: trancl_insert)
  have o: "find_owned ''a'' ''u'' ?db \<noteq> None" "length (db_folders ?db) < 3" by (simp_all add: find_owned_def)
  from delete_folder_exact [OF w a o] obtain ids db' where
    d: "delete_folder_by_id_and_user_id 3 ''a'' ''u'' ?db = (''a'' # ids, db')"
    and s: "set (''a'' # ids) = {j. (j, ''a'') \<in> {(''b'', ''a'')}\<^sup>*}"
    and r: "db_folders db' = filter (\<lambda>f. f_id f \<notin> set (''a'' # ids)) (db_folders ?db)"
    unfolding R by blast
  have "''b'' \<in> set (''a'' # ids)" unfolding s by auto
  then have "db_folders db' = []" unfolding r by simp
  with d show ?thesis by blast
qed

section \<open>Renaming a folder to nothing\<close>

text \<open>An update request whose name is null passes the checks: the row loses its name, the request
  fails only after the commit, and from then on the listing of the user's folders fails.\<close>

theorem rename_to_null_breaks_listing:
  assumes "wf_folder_db db" and "find_owned i uid db \<noteq> None"
  shows "\<exists>db'. update_folder_by_id_and_user_id now i uid \<lparr>uf_name = Some None, uf_data = None, uf_meta = None\<rparr> db
      = (None, db') \<and> get_folders_by_user_id uid db' = Inl (ValueError ''name'')"
proof -
  let ?form = "\<lparr>uf_name = Some None, uf_data = None, uf_meta = None\<rparr>"
  from assms(2) obtain f where f: "find_owned i uid db = Some f" by blast
  let ?ch = "\<lambda>r. r\<lparr>f_name := None, f_data := f_data f, f_meta := f_meta f, f_updated_at := now\<rparr>"
  let ?rows = "map (\<lambda>r. if f_id r = i \<and> f_user_id r = uid then ?ch r else r) (db_folders db)"
  have "List.find (\<lambda>r. f_name r = None \<and> f_parent_id r = f_parent_id f \<and> f_user_id r = uid) (db_folders db) = None"
    using assms(1) by (auto simp: find_None_filter filter_empty_conv wf_folder_db_def)
  then have u: "update_folder_by_id_and_user_id now i uid ?form db = (None, db\<lparr>db_folders := ?rows\<rparr>)"
    by (simp add: update_folder_by_id_and_user_id_def f merge_field_def update_owned_def model_or_none_def)
  have fail: "rmap folder_model fs = Inl (ValueError ''name'')"
    if "g \<in> set fs" "f_name g = None" for g and fs :: "folder list"
    using that by (induction fs) (auto simp: folder_model_def rbind_Inl_iff)
  have "?ch f \<in> set (filter (\<lambda>f. f_user_id f = uid) ?rows)"
    using find_owned_row [OF f] by (auto intro!: image_eqI [of _ _ f])
  from fail [OF this] have "get_folders_by_user_id uid (db\<lparr>db_folders := ?rows\<rparr>) = Inl (ValueError ''name'')"
    by (simp add: get_folders_by_user_id_def)
  with u show ?thesis by blast
qed

lemma rename_to_null_breaks_listing_witness:
  "\<exists>db'. get_folders_by_user_id ''u'' db' = Inl (ValueError ''name'')"
  using rename_to_null_breaks_listing [of "\<lparr>db_folders = [example_folder ''a'' None], fdb_uuid = 0\<rparr>" "''a''" "''u''"]
  by (auto simp: wf_folder_db_def find_owned_def)

section \<open>Access along the ancestors\<close>

text \<open>The folder and the folders its references to parents lead to.\<close>

inductive ancestor :: "folder_db \<Rightarrow> folder \<Rightarrow> folder \<Rightarrow> bool" for db where
  ancestor_refl: "ancestor db f f"
| ancestor_parent: "given (f_parent_id f) \<Longrightarrow> get_folder_by_id (the (f_parent_id f)) db = Some p \<Longrightarrow>
    ancestor db p g \<Longrightarrow> ancestor db f g"

inductive_cases ancestorE: "ancestor db f g"

definition parent_of :: "folder_db \<Rightarrow> (string \<times> string) set" where
  "parent_of db = {(f_id c, p) | c p. c \<in> set (db_folders db) \<and> f_parent_id c = Some p}"

definition grants_folder :: "group_db \<Rightarrow> grant_db \<Rightarrow> string \<Rightarrow> string \<Rightarrow> folder \<Rightarrow> bool" where
  "grants_folder gdb adb uid perm g \<longleftrightarrow>
     f_user_id g = uid \<or> has_access gdb uid ''folder'' (f_id g) perm None adb"

lemma has_folder_access_answer:
  "has_folder_access depth gdb adb db uid perm f = Inr b \<Longrightarrow>
     b \<longleftrightarrow> (\<exists>g. ancestor db f g \<and> grants_folder gdb adb uid perm g)"
proof (induction depth arbitrary: f)
  case (Suc depth)
  show ?case
  proof (cases "grants_folder gdb adb uid perm f")
    case True
    with Suc.prems have b by (auto simp: grants_folder_def split: if_splits)
    with True show ?thesis by (auto intro: ancestor_refl)
  next
    case False
    show ?thesis
    proof (cases "given (f_parent_id f) \<and> get_folder_by_id (the (f_parent_id f)) db \<noteq> None")
      case True
      then obtain p where p: "given (f_parent_id f)" "get_folder_by_id (the (f_parent_id f)) db = Some p" by auto
      with Suc.prems False have "has_folder_access depth gdb adb db uid perm p = Inr b"
        by (auto simp: grants_folder_def)
      from Suc.IH [OF this] p False show ?thesis by (auto elim: ancestorE intro: ancestor_parent)
    next
      case no: False
      with Suc.prems False have "\<not> b" by (auto simp: grants_folder_def split: option.splits)
      with no False show ?thesis by (auto elim: ancestorE)
    qed
  qed
qed simp

lemma get_folder_by_id_row: "get_folder_by_id i db = Some p \<Longrightarrow> p \<in> set (db_folders db) \<and> f_id p = i"
  unfolding get_folder_by_id_def
  by (cases "List.find (\<lambda>f. f_id f = i) (db_folders db)")
    (auto simp: model_or_none_def dest: find_SomeD split: if_splits)

lemma finite_parent_of: "finite (parent_of db)"
proof -
  have "parent_of db \<subseteq> f_id ` set (db_folders db) \<times> (\<lambda>f. the (f_parent_id f)) ` set (db_folders db)"
    by (force simp: parent_of_def)
  then show ?thesis by (rule finite_subset) simp
qed

lemma above_finite: "finite {p. (i, p) \<in> (parent_of db)\<^sup>+}"
  using finite_parent_of [of db]
  by (auto intro: finite_subset [of _ "snd ` ((parent_of db)\<^sup>+)"] simp: rev_image_eqI)

lemma above_count_less:
  assumes "acyclic (parent_of db)" and "(i, p) \<in> parent_of db"
  shows "card {q. (p, q) \<in> (parent_of db)\<^sup>+} < card {q. (i, q) \<in> (parent_of db)\<^sup>+}"
proof (rule psubset_card_mono [OF above_finite])
  have "(p, p) \<notin> (parent_of db)\<^sup>+" using assms(1) by (simp add: acyclic_def)
  with assms(2) show "{q. (p, q) \<in> (parent_of db)\<^sup>+} \<subset> {q. (i, q) \<in> (parent_of db)\<^sup>+}"
    by (auto intro: trancl_into_trancl2)
qed

lemma above_count_le: "card {q. (i, q) \<in> (parent_of db)\<^sup>+} \<le> length (db_folders db)"
proof -
  have "{q. (i, q) \<in> (parent_of db)\<^sup>+} \<subseteq> (\<lambda>f. the (f_parent_id f)) ` set (db_folders db)"
    by (force simp: parent_of_def dest!: tranclD2)
  then have "card {q. (i, q) \<in> (parent_of db)\<^sup>+} \<le> card ((\<lambda>f. the (f_parent_id f)) ` set (db_folders db))"
    by (intro card_mono) simp_all
  also have "\<dots> \<le> length (db_folders db)"
    using card_length [of "map (\<lambda>f. the (f_parent_id f)) (db_folders db)"] by simp
  finally show ?thesis .
qed

lemma has_folder_access_total:
  assumes "acyclic (parent_of db)"
  shows "f \<in> set (db_folders db) \<Longrightarrow> card {q. (f_id f, q) \<in> (parent_of db)\<^sup>+} < depth \<Longrightarrow>
    \<exists>b. has_folder_access depth gdb adb db uid perm f = Inr b"
proof (induction depth arbitrary: f)
  case (Suc depth)
  show ?case
  proof (cases "given (f_parent_id f) \<and> get_folder_by_id (the (f_parent_id f)) db \<noteq> None")
    case True
    then obtain p where p: "given (f_parent_id f)" "get_folder_by_id (the (f_parent_id f)) db = Some p" by auto
    from p(1) have "(f_id f, the (f_parent_id f)) \<in> parent_of db"
      using Suc.prems(1) by (auto simp: parent_of_def given_def split: option.splits)
    with above_count_less [OF assms] Suc.prems(2) get_folder_by_id_row [OF p(2)]
    have "\<exists>b. has_folder_access depth gdb adb db uid perm p = Inr b" by (intro Suc.IH) fastforce+
    with p show ?thesis by auto
  qed (auto split: option.split)
qed simp

text \<open>C9. Access to a folder is inherited: in a forest the check always answers, and it says yes exactly
  when the user owns, or has the permission on, the folder or one of the folders above it.\<close>

theorem has_folder_access_exact:
  assumes "acyclic (parent_of db)" and "f \<in> set (db_folders db)" and "length (db_folders db) < depth"
  shows "has_folder_access depth gdb adb db uid perm f =
    Inr (\<exists>g. ancestor db f g \<and> (f_user_id g = uid \<or> has_access gdb uid ''folder'' (f_id g) perm None adb))"
proof -
  have "card {q. (f_id f, q) \<in> (parent_of db)\<^sup>+} < depth"
    using above_count_le [of "f_id f" db] assms(3) by (rule le_less_trans)
  from has_folder_access_total [OF assms(1,2) this] obtain b
    where b: "has_folder_access depth gdb adb db uid perm f = Inr b" by blast
  with has_folder_access_answer [OF b] show ?thesis by (simp add: grants_folder_def)
qed

lemma has_folder_access_exact_witness:
  "has_folder_access 2 \<lparr>db_groups = [], db_members = [], db_uuid = 0\<rparr> \<lparr>db_grants = [], gdb_uuid = 0\<rparr>
     \<lparr>db_folders = [example_folder ''a'' None], fdb_uuid = 0\<rparr>
     ''u'' ''read''
     (example_folder ''a'' None) = Inr True"
proof -
  let ?a = "example_folder ''a'' None"
  let ?db = "\<lparr>db_folders = [?a], fdb_uuid = 0\<rparr>"
  have "parent_of ?db = {}" by (auto simp: parent_of_def)
  then have "acyclic (parent_of ?db)" "?a \<in> set (db_folders ?db)" "length (db_folders ?db) < 2"
    by (simp_all add: acyclic_def)
  from has_folder_access_exact [OF this, of "\<lparr>db_groups = [], db_members = [], db_uuid = 0\<rparr>"
      "\<lparr>db_grants = [], gdb_uuid = 0\<rparr>" "''u''" "''read''"] ancestor_refl [of ?db ?a]
  show ?thesis by force
qed

lemma shared_loop:
  "(dget (foldl add_shared [] gs) r = Some ''write'' \<longleftrightarrow>
      (\<exists>g \<in> set gs. ag_resource_id g = r \<and> ag_permission g = ''write'')) \<and>
   (dget (foldl add_shared [] gs) r \<noteq> None \<longleftrightarrow> (\<exists>g \<in> set gs. ag_resource_id g = r))"
proof (induction gs rule: rev_induct)
  case (snoc g gs)
  show ?case
  proof (cases "ag_resource_id g = r")
    case True
    with snoc show ?thesis
      by (cases "dget (foldl add_shared [] gs) r = Some ''write''") (auto simp: add_shared_def)
  next
    case False
    with snoc show ?thesis by (simp add: add_shared_def)
  qed
qed simp

text \<open>The folders shared with a user are those the user has some permission on by the single check,
  and they are listed as writable exactly when that check says so.\<close>

theorem shared_folder_ids_exact:
  "(dget (get_shared_folder_ids_for_user uid gids adb) r = Some ''write'' \<longleftrightarrow>
      has_access gdb uid ''folder'' r ''write'' (Some gids) adb) \<and>
   (dget (get_shared_folder_ids_for_user uid gids adb) r \<noteq> None \<longleftrightarrow>
      (\<exists>perm. has_access gdb uid ''folder'' r perm (Some gids) adb))"
proof -
  let ?gs = "filter (\<lambda>g. ag_resource_type g = ''folder'' \<and> principal_matches uid gids g) (db_grants adb)"
  have "get_shared_folder_ids_for_user uid gids adb = foldl add_shared [] ?gs"
    by (simp add: get_shared_folder_ids_for_user_def)
  moreover have "has_access gdb uid ''folder'' r p (Some gids) adb \<longleftrightarrow>
      (\<exists>g \<in> set ?gs. ag_resource_id g = r \<and> ag_permission g = p)" for p
    by (auto simp: has_access_def of_resource_def list_ex_iff)
  ultimately show ?thesis using shared_loop [of ?gs r] by auto
qed

end
