(* ===== verification/PyText.thy ===== *)
theory PyText
  imports Prelude
begin

text \<open>
  Values as text: \<open>str(v)\<close>, \<open>repr(v)\<close> and \<open>json.dumps(v)\<close> of the JSON-like values, for characters
  below 256, and the remaining string methods the components call.
\<close>

section \<open>Numbers\<close>

fun digits :: "nat \<Rightarrow> string" where
  "digits n = (if n < 10 then [char_of (48 + n)] else digits (n div 10) @ [char_of (48 + n mod 10)])"

declare digits.simps [simp del]

definition show_int :: "int \<Rightarrow> string" where
  "show_int i = (if i < 0 then CHR ''-'' # digits (nat (- i)) else digits (nat i))"

lemma digits_nonempty [simp]: "digits n \<noteq> []"
  by (subst digits.simps) simp

lemma show_int_nonempty [simp]: "show_int i \<noteq> []"
  by (simp add: show_int_def)

definition hex_digit :: "nat \<Rightarrow> char" where
  "hex_digit n = (if n < 10 then char_of (48 + n) else char_of (87 + n))"

definition hex2 :: "nat \<Rightarrow> string" where
  "hex2 n = [hex_digit (n div 16), hex_digit (n mod 16)]"

section \<open>repr\<close>

definition code :: "char \<Rightarrow> nat" where
  "code c = of_char c"

definition printable :: "char \<Rightarrow> bool" where
  "printable c \<longleftrightarrow> (32 \<le> code c \<and> code c < 127) \<or> (161 \<le> code c \<and> code c \<noteq> 173)"

definition repr_char :: "char \<Rightarrow> char \<Rightarrow> string" where
  "repr_char quote c =
     (if c = quote \<or> code c = 92 then [char_of (92::nat), c]
      else if code c = 10 then [char_of (92::nat), CHR ''n'']
      else if code c = 13 then [char_of (92::nat), CHR ''r'']
      else if code c = 9 then [char_of (92::nat), CHR ''t'']
      else if printable c then [c]
      else [char_of (92::nat), CHR ''x''] @ hex2 (code c))"

definition repr_str :: "string \<Rightarrow> string" where
  "repr_str s =
     (let q = (if char_of (39::nat) \<in> set s \<and> char_of (34::nat) \<notin> set s then char_of (34::nat)
               else char_of (39::nat))
      in q # concat (map (repr_char q) s) @ [q])"

fun py_repr :: "pyval \<Rightarrow> string" where
  "py_repr VNone = ''None''"
| "py_repr (VBool b) = (if b then ''True'' else ''False'')"
| "py_repr (VInt i) = show_int i"
| "py_repr (VStr s) = repr_str s"
| "py_repr (VList xs) = ''['' @ py_join '', '' (map py_repr xs) @ '']''"
| "py_repr (VDict d) = ''{'' @ py_join '', '' (map (\<lambda>kv. repr_str (fst kv) @ '': '' @ py_repr (snd kv)) d) @ ''}''"

definition py_str :: "pyval \<Rightarrow> string" where
  "py_str v = (case v of VStr s \<Rightarrow> s | _ \<Rightarrow> py_repr v)"

lemma py_str_VStr [simp]: "py_str (VStr s) = s"
  by (simp add: py_str_def)

section \<open>Equality\<close>

text \<open>\<open>a == b\<close>: a boolean equals its number, and the order of the keys of a dictionary does not matter.\<close>

function py_eq :: "pyval \<Rightarrow> pyval \<Rightarrow> bool" where
  "py_eq VNone b = (b = VNone)"
| "py_eq (VBool x) b = (case b of VBool y \<Rightarrow> x = y | VInt i \<Rightarrow> of_bool x = i | _ \<Rightarrow> False)"
| "py_eq (VInt i) b = (case b of VBool y \<Rightarrow> i = of_bool y | VInt j \<Rightarrow> i = j | _ \<Rightarrow> False)"
| "py_eq (VStr s) b = (b = VStr s)"
| "py_eq (VList xs) b =
     (case b of VList ys \<Rightarrow> length xs = length ys \<and> list_all (\<lambda>p. py_eq (fst p) (snd p)) (zip xs ys) | _ \<Rightarrow> False)"
| "py_eq (VDict d) b =
     (case b of
        VDict e \<Rightarrow> length d = length e \<and>
          list_all (\<lambda>kv. case dget e (fst kv) of None \<Rightarrow> False | Some w \<Rightarrow> py_eq (snd kv) w) d
      | _ \<Rightarrow> False)"
  by pat_completeness auto

termination
proof (relation "measure (\<lambda>(a, b). size a)")
  fix xs ys :: "pyval list" and b and p :: "pyval \<times> pyval"
  assume "p \<in> set (zip xs ys)"
  then have "fst p \<in> set xs" by (metis in_set_zipE prod.collapse)
  then show "((fst p, snd p), VList xs, b) \<in> measure (\<lambda>(a, b). size a)"
    using size_list_estimation' [of "fst p" xs "size (fst p)" size] by (simp add: case_prod_beta)
next
  fix d e :: dict and b w and kv :: "string \<times> pyval"
  assume "kv \<in> set d"
  then have "size_prod (\<lambda>s. 0) size kv \<le> size_list (size_prod (\<lambda>s. 0) size) d"
    by (rule size_list_estimation') simp
  then show "((snd kv, w), VDict d, b) \<in> measure (\<lambda>(a, b). size a)" by (cases kv) simp
qed auto

section \<open>json.dumps\<close>

definition json_char :: "bool \<Rightarrow> char \<Rightarrow> string" where
  "json_char ascii c =
     (if code c = 34 \<or> code c = 92 then [char_of (92::nat), c]
      else if code c = 10 then [char_of (92::nat), CHR ''n'']
      else if code c = 13 then [char_of (92::nat), CHR ''r'']
      else if code c = 9 then [char_of (92::nat), CHR ''t'']
      else if code c = 12 then [char_of (92::nat), CHR ''f'']
      else if code c = 8 then [char_of (92::nat), CHR ''b'']
      else if code c < 32 \<or> (ascii \<and> 127 < code c) then [char_of (92::nat), CHR ''u'', CHR ''0'', CHR ''0''] @ hex2 (code c)
      else [c])"

definition json_str :: "bool \<Rightarrow> string \<Rightarrow> string" where
  "json_str ascii s = char_of (34::nat) # concat (map (json_char ascii) s) @ [char_of (34::nat)]"

text \<open>\<open>ascii\<close> is the option \<open>ensure_ascii\<close>.\<close>

fun json_dumps :: "bool \<Rightarrow> pyval \<Rightarrow> string" where
  "json_dumps ascii VNone = ''null''"
| "json_dumps ascii (VBool b) = (if b then ''true'' else ''false'')"
| "json_dumps ascii (VInt i) = show_int i"
| "json_dumps ascii (VStr s) = json_str ascii s"
| "json_dumps ascii (VList xs) = ''['' @ py_join '', '' (map (json_dumps ascii) xs) @ '']''"
| "json_dumps ascii (VDict d) =
     ''{'' @ py_join '', '' (map (\<lambda>kv. json_str ascii (fst kv) @ '': '' @ json_dumps ascii (snd kv)) d) @ ''}''"

lemma json_dumps_nonempty [simp]: "json_dumps ascii v \<noteq> []"
  by (cases v) (simp_all add: json_str_def)

section \<open>String methods\<close>

text \<open>\<open>s.strip(chars)\<close> and \<open>s.rstrip(chars)\<close>\<close>

definition rstrip_chars :: "char set \<Rightarrow> string \<Rightarrow> string" where
  "rstrip_chars cs s = rev (dropWhile (\<lambda>c. c \<in> cs) (rev s))"

definition strip_chars :: "char set \<Rightarrow> string \<Rightarrow> string" where
  "strip_chars cs s = rstrip_chars cs (dropWhile (\<lambda>c. c \<in> cs) s)"

text \<open>A set of Python holds hashable values: no list and no dictionary.\<close>

fun hashable :: "pyval \<Rightarrow> bool" where
  "hashable (VList _) = False"
| "hashable (VDict _) = False"
| "hashable _ = True"

definition py_in_set :: "pyval \<Rightarrow> pyval list \<Rightarrow> bool result" where
  "py_in_set v s = (if hashable v then Inr (v \<in> set s) else Inl TypeError)"

section \<open>Access to values of unknown shape\<close>

text \<open>\<open>v.get(k, default)\<close>, \<open>v[0]\<close>, an operand of an arithmetic operation and one of \<open>text + v\<close>.\<close>

fun py_get_or :: "pyval \<Rightarrow> string \<Rightarrow> pyval \<Rightarrow> pyval result" where
  "py_get_or (VDict d) k x = Inr (dget_or d k x)"
| "py_get_or _ k x = Inl AttributeError"

fun py_first :: "pyval \<Rightarrow> pyval result" where
  "py_first (VList (c # cs)) = Inr c"
| "py_first (VStr (c # cs)) = Inr (VStr [c])"
| "py_first (VDict d) = Inl KeyError"
| "py_first (VList []) = Inl IndexError"
| "py_first (VStr []) = Inl IndexError"
| "py_first v = Inl TypeError"

fun py_number :: "pyval \<Rightarrow> int result" where
  "py_number (VInt i) = Inr i"
| "py_number (VBool b) = Inr (of_bool b)"
| "py_number _ = Inl TypeError"

fun as_text :: "pyval \<Rightarrow> string result" where
  "as_text (VStr s) = Inr s"
| "as_text v = Inl TypeError"

text \<open>\<open>xs[i]\<close> and \<open>xs[i] = v\<close>, where a negative index counts from the end.\<close>

definition py_index :: "'a list \<Rightarrow> int \<Rightarrow> nat result" where
  "py_index xs i =
     (if 0 \<le> i \<and> nat i < length xs then Inr (nat i)
      else if i < 0 \<and> nat (- i) \<le> length xs then Inr (length xs - nat (- i))
      else Inl IndexError)"

definition py_nth :: "'a list \<Rightarrow> int \<Rightarrow> 'a result" where
  "py_nth xs i = rbind (py_index xs i) (\<lambda>n. Inr (xs ! n))"

lemma py_index_nat [simp]: "py_index xs (int n) = (if n < length xs then Inr n else Inl IndexError)"
  by (simp add: py_index_def)

text \<open>The strings a value holds, keys apart; an access finds none that is not there.\<close>

fun strings_in :: "pyval \<Rightarrow> string set" where
  "strings_in (VStr s) = {s}"
| "strings_in (VList xs) = (\<Union>v \<in> set xs. strings_in v)"
| "strings_in (VDict d) = (\<Union>kv \<in> set d. strings_in (snd kv))"
| "strings_in _ = {}"

lemma strings_in_vget: "strings_in (vget d k) \<subseteq> strings_in (VDict d)"
  by (auto simp: vget_def split: option.splits dest!: dget_Some_in)

lemma strings_in_py_get: "py_get v k = Inr w \<Longrightarrow> strings_in w \<subseteq> strings_in v"
  using strings_in_vget by (cases v) auto

lemma strings_in_py_get_or: "py_get_or v k x = Inr w \<Longrightarrow> strings_in w \<subseteq> strings_in v \<union> strings_in x"
  by (cases v) (auto simp: dget_or_def split: option.splits dest!: dget_Some_in)

lemma strings_in_py_or: "strings_in (py_or a b) \<subseteq> strings_in a \<union> strings_in b"
  by (auto simp: py_or_def)

lemma py_split_append: "py_split c (a @ c # b) = py_split c a @ py_split c b"
  by (induction a) (auto split: list.splits simp: neq_Nil_conv)

lemma py_split_join:
  "ps \<noteq> [] \<Longrightarrow> \<forall>p \<in> set ps. c \<notin> set p \<Longrightarrow> py_split c (py_join [c] ps) = ps"
proof (induction ps)
  case (Cons p ps)
  have plain: "c \<notin> set q \<Longrightarrow> py_split c q = [q]" for q by (induction q) auto
  show ?case
  proof (cases ps)
    case Nil
    with Cons.prems plain show ?thesis by simp
  next
    case (Cons q qs)
    then have "py_join [c] (p # ps) = p @ c # py_join [c] ps" by simp
    with Cons Cons.IH Cons.prems plain show ?thesis by (simp add: py_split_append del: py_join.simps)
  qed
qed simp

lemma py_join_append:
  "xs \<noteq> [] \<Longrightarrow> ys \<noteq> [] \<Longrightarrow> py_join sep (xs @ ys) = py_join sep xs @ sep @ py_join sep ys"
proof (induction xs)
  case (Cons x xs)
  then show ?case by (cases xs; cases ys) auto
qed simp

text \<open>\<open>s.replace('\r\n', '\n')\<close>\<close>

fun unix_lines :: "string \<Rightarrow> string" where
  "unix_lines (c # d # s) =
     (if code c = 13 \<and> code d = 10 then d # unix_lines s else c # unix_lines (d # s))"
| "unix_lines s = s"

lemma length_unix_lines: "length (unix_lines s) \<le> length s"
  by (induction s rule: unix_lines.induct) auto

lemma unix_lines_eq_Nil [simp]: "unix_lines s = [] \<longleftrightarrow> s = []"
  by (cases s rule: unix_lines.cases) auto

text \<open>What follows a literal text.\<close>

fun after_text :: "string \<Rightarrow> string \<Rightarrow> string option" where
  "after_text [] s = Some s"
| "after_text (c # cs) [] = None"
| "after_text (c # cs) (d # s) = (if c = d then after_text cs s else None)"

lemma length_after_text: "after_text p s = Some r \<Longrightarrow> length s = length p + length r"
  by (induction p s rule: after_text.induct) (auto split: if_splits)

text \<open>\<open>s.split()\<close> and \<open>s.replace(c, t)\<close> for a character \<open>c\<close>.\<close>

fun split_words :: "string \<Rightarrow> string \<Rightarrow> string list" where
  "split_words word [] = (if word = [] then [] else [word])"
| "split_words word (c # s) =
     (if is_space c then (if word = [] then split_words [] s else word # split_words [] s) else split_words (word @ [c]) s)"

definition replace_char :: "char \<Rightarrow> string \<Rightarrow> string \<Rightarrow> string" where
  "replace_char c t s = concat (map (\<lambda>x. if x = c then t else [x]) s)"

lemma replace_char_simps [simp]:
  "replace_char c t [] = []"
  "replace_char c t (x # s) = (if x = c then t else [x]) @ replace_char c t s"
  "replace_char c t (a @ b) = replace_char c t a @ replace_char c t b"
  by (simp_all add: replace_char_def)

end
