(* ===== verification/HostFilter.thy ===== *)
theory HostFilter
  imports PyText
begin

text \<open>
  The allow and block lists for fetched hosts: \<open>get_allow_block_lists\<close>, \<open>is_string_allowed\<close>,
  \<open>_host_matches_pattern\<close> and \<open>is_host_allowed\<close> of \<open>backend/open_webui/utils/misc.py\<close>.
\<close>

definition strip_filter_entry :: "string option \<Rightarrow> string" where
  "strip_filter_entry entry =
     py_strip (strip_chars {char_of (34::nat), char_of (39::nat)} (py_strip (case entry of None \<Rightarrow> [] | Some s \<Rightarrow> s)))"

fun allow_block_loop :: "string option list \<Rightarrow> string list \<Rightarrow> string list \<Rightarrow> string list \<times> string list" where
  "allow_block_loop [] allow block = (allow, block)"
| "allow_block_loop (raw # raws) allow block =
     (let entry = strip_filter_entry raw;
          is_blocked = prefix ''!'' entry;
          entry = (if is_blocked then strip_filter_entry (Some (drop 1 entry)) else entry)
      in if entry = [] then allow_block_loop raws allow block
         else if is_blocked then allow_block_loop raws allow (block @ [entry])
         else allow_block_loop raws (allow @ [entry]) block)"

definition get_allow_block_lists :: "string option list \<Rightarrow> string list \<times> string list" where
  "get_allow_block_lists filter_list = allow_block_loop filter_list [] []"

definition is_string_allowed :: "string list \<Rightarrow> string option list \<Rightarrow> bool" where
  "is_string_allowed strings filter_list \<longleftrightarrow>
     filter_list = [] \<or>
     (let (allow, block) = get_allow_block_lists filter_list
      in (allow = [] \<or> list_ex (\<lambda>s. list_ex (\<lambda>a. suffix a s) allow) strings)
         \<and> \<not> list_ex (\<lambda>s. list_ex (\<lambda>b. suffix b s) block) strings)"

definition normal_host :: "string \<Rightarrow> string" where
  "normal_host h = rstrip_chars {CHR ''.''} (py_lower (py_strip h))"

definition host_matches_pattern :: "string \<Rightarrow> string \<Rightarrow> bool" where
  "host_matches_pattern host pattern \<longleftrightarrow>
     (let h = normal_host host; p = normal_host pattern
      in h \<noteq> [] \<and> p \<noteq> [] \<and> (h = p \<or> suffix (CHR ''.'' # p) h))"

definition is_host_allowed :: "string list \<Rightarrow> string option list \<Rightarrow> bool" where
  "is_host_allowed hosts filter_list \<longleftrightarrow>
     filter_list = [] \<or>
     (let (allow, block) = get_allow_block_lists filter_list
      in (allow = [] \<or> list_ex (\<lambda>h. list_ex (host_matches_pattern h) allow) hosts)
         \<and> \<not> list_ex (\<lambda>h. list_ex (host_matches_pattern h) block) hosts)"

section \<open>Labels\<close>

definition labels :: "string \<Rightarrow> string list" where
  "labels h = py_split CHR ''.'' (normal_host h)"

lemma split_suffix: "p \<noteq> [] \<Longrightarrow> h = p \<or> suffix (c # p) h \<longleftrightarrow> suffix (py_split c p) (py_split c h)"
proof
  assume "h = p \<or> suffix (c # p) h"
  then show "suffix (py_split c p) (py_split c h)"
    by (auto simp: suffix_def py_split_append)
next
  assume "suffix (py_split c p) (py_split c h)"
  then obtain xs where xs: "py_split c h = xs @ py_split c p" by (auto simp: suffix_def)
  have h: "h = py_join [c] (xs @ py_split c p)" by (simp add: xs [symmetric])
  show "h = p \<or> suffix (c # p) h"
  proof (cases "xs = []")
    case False
    then have "h = py_join [c] xs @ [c] @ p" unfolding h by (subst py_join_append) simp_all
    then show ?thesis by (auto simp: suffix_def)
  qed (simp add: h)
qed

lemma host_matches_labels:
  "host_matches_pattern host pattern \<longleftrightarrow>
     normal_host host \<noteq> [] \<and> normal_host pattern \<noteq> [] \<and> suffix (labels pattern) (labels host)"
  using split_suffix [of "normal_host pattern" "normal_host host" "CHR ''.''"]
  by (auto simp: host_matches_pattern_def labels_def Let_def)

text \<open>The entry a raw line of the list stands for: blocked or allowed, and the host pattern.\<close>

definition filter_entry :: "string option \<Rightarrow> bool \<times> string" where
  "filter_entry raw =
     (let e = strip_filter_entry raw
      in if prefix ''!'' e then (True, strip_filter_entry (Some (drop 1 e))) else (False, e))"

lemma allow_block_loop_sets:
  "set (fst (allow_block_loop raws allow block)) =
     set allow \<union> {e. e \<noteq> [] \<and> (False, e) \<in> filter_entry ` set raws}"
  "set (snd (allow_block_loop raws allow block)) =
     set block \<union> {e. e \<noteq> [] \<and> (True, e) \<in> filter_entry ` set raws}"
  by (induction raws allow block rule: allow_block_loop.induct)
    (auto simp: Let_def filter_entry_def split: if_splits)

text \<open>C10. A list with entries lets a set of hosts through exactly when no blocked entry is one of the
  hosts or a parent domain of one, compared label by label, and, if the list allows anything, some
  allowed entry is. An entry for \<open>corp.com\<close> thus never speaks about \<open>evilcorp.com\<close>.\<close>

theorem is_host_allowed_labels:
  assumes "filter_list \<noteq> []"
  shows "is_host_allowed hosts filter_list \<longleftrightarrow>
    (let covers = (\<lambda>e. \<exists>h \<in> set hosts. normal_host h \<noteq> [] \<and> normal_host e \<noteq> [] \<and> suffix (labels e) (labels h));
         entries = (\<lambda>blocked. {e. e \<noteq> [] \<and> (blocked, e) \<in> filter_entry ` set filter_list})
     in (\<forall>e \<in> entries True. \<not> covers e) \<and> (entries False = {} \<or> (\<exists>e \<in> entries False. covers e)))"
proof -
  define cov where "cov e = (\<exists>h \<in> set hosts. normal_host h \<noteq> [] \<and> normal_host e \<noteq> [] \<and> suffix (labels e) (labels h))"
    for e
  define E where "E b = {e. e \<noteq> [] \<and> (b, e) \<in> filter_entry ` set filter_list}" for b
  obtain allow block where ab: "get_allow_block_lists filter_list = (allow, block)"
    by (cases "get_allow_block_lists filter_list")
  have sets: "set allow = E False" "set block = E True"
    using allow_block_loop_sets [of filter_list "[]" "[]"] ab
    by (simp_all add: get_allow_block_lists_def E_def)
  have "is_host_allowed hosts filter_list \<longleftrightarrow>
      (allow = [] \<or> (\<exists>e \<in> set allow. cov e)) \<and> \<not> (\<exists>e \<in> set block. cov e)"
    using assms ab by (auto simp: is_host_allowed_def list_ex_iff cov_def host_matches_labels)
  moreover have "allow = [] \<longleftrightarrow> E False = {}" unfolding sets(1) [symmetric] by simp
  ultimately have "is_host_allowed hosts filter_list \<longleftrightarrow>
      (\<forall>e \<in> E True. \<not> cov e) \<and> (E False = {} \<or> (\<exists>e \<in> E False. cov e))"
    by (simp add: sets conj_commute)
  then show ?thesis unfolding Let_def cov_def E_def .
qed

lemma is_host_allowed_labels_witness:
  "\<not> is_host_allowed [''api.corp.com''] [Some ''!corp.com''] \<and> is_host_allowed [''evilcorp.com''] [Some ''!corp.com'']"
proof -
  have e: "filter_entry (Some ''!corp.com'') = (True, ''corp.com'')" by code_simp
  have l: "labels ''corp.com'' = [''corp'', ''com'']" "labels ''api.corp.com'' = [''api'', ''corp'', ''com'']"
    "labels ''evilcorp.com'' = [''evilcorp'', ''com'']" by code_simp+
  have n: "normal_host ''corp.com'' \<noteq> []" "normal_host ''api.corp.com'' \<noteq> []" by code_simp+
  have "{x. x \<noteq> [] \<and> (True, x) \<in> filter_entry ` set [Some ''!corp.com'']} = {''corp.com''}"
    "{x. x \<noteq> [] \<and> (False, x) \<in> filter_entry ` set [Some ''!corp.com'']} = {}"
    by (auto simp: e)
  then show ?thesis
    using is_host_allowed_labels [of "[Some ''!corp.com'']" "[''api.corp.com'']"]
      is_host_allowed_labels [of "[Some ''!corp.com'']" "[''evilcorp.com'']"]
    by (simp add: Let_def l n suffix_to_prefix)
qed

end
