(* ===== verification/Messages.thy ===== *)
theory Messages
  imports PyText
begin

text \<open>
  Chat messages: the functions of \<open>backend/open_webui/utils/misc.py\<close> that rebuild a conversation
  from stored messages and from the stored output items of an answer. A message is a dictionary of
  JSON values; an access with the wrong shape of value raises what Python raises.
\<close>

section \<open>The chain of messages\<close>

text \<open>\<open>messages_map.get(key)\<close>; the keys of the map are strings.\<close>

fun map_get :: "(string, dict) pydict \<Rightarrow> pyval \<Rightarrow> dict option result" where
  "map_get m (VStr s) = Inr (dget m s)"
| "map_get m k = (if hashable k then Inr None else Inl TypeError)"

text \<open>
  The walk along \<open>parentId\<close>. The list is built in reverse by the code and reversed at the end;
  \<open>acc\<close> is that reversed list. Only an id that is there is remembered, so the loop has no bound of
  its own.
\<close>

partial_function (option) chain_loop ::
  "(string, dict) pydict \<Rightarrow> dict option \<Rightarrow> pyval list \<Rightarrow> dict list \<Rightarrow> dict list result option" where
  "chain_loop m current visited acc =
     (case current of
        None \<Rightarrow> Some (Inr acc)
      | Some msg \<Rightarrow>
          if msg = [] then Some (Inr acc)
          else (case py_in_set (vget msg ''id'') visited of
             Inl e \<Rightarrow> Some (Inl e)
           | Inr seen \<Rightarrow>
               if seen then Some (Inr acc)
               else let visited' = (if vget msg ''id'' = VNone then visited else vget msg ''id'' # visited);
                        parent_id = vget msg ''parentId''
                    in if truthy parent_id
                       then (case map_get m parent_id of
                               Inl e \<Rightarrow> Some (Inl e)
                             | Inr parent \<Rightarrow> chain_loop m parent visited' (msg # acc))
                       else Some (Inr (msg # acc))))"

definition get_message_list ::
  "(string, dict) pydict option \<Rightarrow> pyval \<Rightarrow> dict list result option" where
  "get_message_list messages_map message_id =
     (case messages_map of
        None \<Rightarrow> Some (Inr [])
      | Some m \<Rightarrow>
          if m = [] then Some (Inr [])
          else (case map_get m message_id of
                  Inl e \<Rightarrow> Some (Inl e)
                | Inr current \<Rightarrow> chain_loop m current [] []))"

section \<open>Texts\<close>

text \<open>\<open>''.join(str(part.get('text')) for part in parts if \<dots>)\<close>\<close>

fun part_text :: "pyval \<Rightarrow> string" where
  "part_text (VDict d) = (if vget d ''text'' = VNone then [] else py_str (vget d ''text''))"
| "part_text _ = []"

fun output_item_texts :: "pyval \<Rightarrow> string list" where
  "output_item_texts (VDict item) =
     (if vget item ''type'' \<noteq> VStr ''message'' then []
      else case py_or (vget item ''content'') (VList []) of
             VList parts \<Rightarrow>
               let text = concat (map part_text parts)
               in if py_strip text \<noteq> [] then [text] else []
           | _ \<Rightarrow> [])"
| "output_item_texts _ = []"

definition get_output_text :: "pyval \<Rightarrow> string" where
  "get_output_text output =
     (case output of VList items \<Rightarrow> py_join [char_of (10::nat)] (concat (map output_item_texts items)) | _ \<Rightarrow> [])"

definition first_text_item :: "pyval list \<Rightarrow> dict option" where
  "first_text_item items =
     map_option (\<lambda>v. case v of VDict d \<Rightarrow> d | _ \<Rightarrow> [])
       (List.find (\<lambda>v. case v of VDict d \<Rightarrow> vget d ''type'' = VStr ''text'' | _ \<Rightarrow> False) items)"

definition get_content_from_message :: "dict \<Rightarrow> pyval" where
  "get_content_from_message message =
     (let content = vget message ''content'';
          rest = (let t = get_output_text (vget message ''output'')
                  in if t \<noteq> [] then VStr t else if is_str content then content else VNone)
      in case content of
           VList items \<Rightarrow> (case first_text_item items of Some d \<Rightarrow> vget d ''text'' | None \<Rightarrow> rest)
         | _ \<Rightarrow> if truthy content then content else rest)"

text \<open>\<open>message['role']\<close> of the first message from the end that has the role.\<close>

fun find_role :: "string \<Rightarrow> dict list \<Rightarrow> dict option result" where
  "find_role r [] = Inr None"
| "find_role r (m # ms) =
     (case dget m ''role'' of
        None \<Rightarrow> Inl KeyError
      | Some v \<Rightarrow> if v = VStr r then Inr (Some m) else find_role r ms)"

definition get_last_user_message_item :: "dict list \<Rightarrow> dict option result" where
  "get_last_user_message_item messages = find_role ''user'' (rev messages)"

definition get_last_user_message :: "dict list \<Rightarrow> pyval result" where
  "get_last_user_message messages =
     rbind (get_last_user_message_item messages) (\<lambda>m.
       Inr (case m of None \<Rightarrow> VNone | Some m \<Rightarrow> get_content_from_message m))"

definition get_last_assistant_message_item :: "dict list \<Rightarrow> dict option result" where
  "get_last_assistant_message_item messages = find_role ''assistant'' (rev messages)"

definition get_last_assistant_message :: "dict list \<Rightarrow> pyval result" where
  "get_last_assistant_message messages =
     rbind (get_last_assistant_message_item messages) (\<lambda>m.
       Inr (case m of None \<Rightarrow> VNone | Some m \<Rightarrow> get_content_from_message m))"

definition get_system_message :: "dict list \<Rightarrow> dict option result" where
  "get_system_message messages = find_role ''system'' messages"

definition remove_system_message :: "dict list \<Rightarrow> dict list result" where
  "remove_system_message messages =
     rconcat (\<lambda>m. case dget m ''role'' of
                     None \<Rightarrow> Inl KeyError
                   | Some v \<Rightarrow> Inr (if v \<noteq> VStr ''system'' then [m] else [])) messages"

definition pop_system_message :: "dict list \<Rightarrow> (dict option \<times> dict list) result" where
  "pop_system_message messages =
     rbind (get_system_message messages) (\<lambda>s.
     rbind (remove_system_message messages) (\<lambda>r. Inr (s, r)))"

text \<open>\<open>'\n'.join\<close> of the contents raises on a content that is no string.\<close>

definition merge_system_messages :: "dict list \<Rightarrow> dict list result" where
  "merge_system_messages messages =
     (let sys = filter (\<lambda>m. vget m ''role'' = VStr ''system'') messages;
          others = filter (\<lambda>m. vget m ''role'' \<noteq> VStr ''system'') messages;
          contents = filter truthy (map get_content_from_message sys)
      in if contents = [] then Inr others
         else rbind (rmap (\<lambda>v. case v of VStr s \<Rightarrow> Inr s | _ \<Rightarrow> Inl TypeError) contents) (\<lambda>ss.
           Inr ([(''role'', VStr ''system''), (''content'', VStr (py_join [char_of (10::nat)] ss))] # others)))"

section \<open>Tool calls and their results\<close>

text \<open>\<open>message.get('tool_calls') or ()\<close>, iterated.\<close>

definition tool_calls_of :: "dict \<Rightarrow> pyval list result" where
  "tool_calls_of m = (let v = vget m ''tool_calls'' in if truthy v then py_iter v else Inr [])"

definition has_role :: "string \<Rightarrow> dict \<Rightarrow> bool" where
  "has_role r m \<longleftrightarrow> vget m ''role'' = VStr r"

definition completed_ids_of :: "dict \<Rightarrow> pyval list result" where
  "completed_ids_of m =
     (let i = vget m ''tool_call_id''
      in if has_role ''tool'' m \<and> truthy i then (if hashable i then Inr [i] else Inl TypeError) else Inr [])"

definition requested_id :: "pyval \<Rightarrow> pyval list result" where
  "requested_id c =
     rbind (py_get c ''id'') (\<lambda>i.
       if truthy i then (if hashable i then Inr [i] else Inl TypeError) else Inr [])"

definition requested_ids_of :: "dict \<Rightarrow> pyval list result" where
  "requested_ids_of m =
     rbind (tool_calls_of m) (\<lambda>cs.
       if has_role ''assistant'' m then rconcat requested_id cs else Inr [])"

definition valid_calls :: "pyval list \<Rightarrow> pyval list \<Rightarrow> pyval list result" where
  "valid_calls completed cs =
     rconcat (\<lambda>c. rbind (py_get c ''id'') (\<lambda>i. rbind (py_in_set i completed) (\<lambda>b.
       Inr (if b then [c] else [])))) cs"

definition meaningful :: "dict \<Rightarrow> bool" where
  "meaningful m =
     ((case py_or (get_content_from_message m) (VStr []) of
         VStr s \<Rightarrow> py_strip s \<noteq> [] | v \<Rightarrow> truthy v)
      \<or> truthy (vget m ''reasoning_content''))"

definition reconcile_message :: "pyval list \<Rightarrow> pyval list \<Rightarrow> dict \<Rightarrow> dict list result" where
  "reconcile_message completed requested m =
     rbind (if has_role ''tool'' m
            then rbind (py_in_set (vget m ''tool_call_id'') requested) (\<lambda>b. Inr (\<not> b)) else Inr False) (\<lambda>orphan.
       if orphan then Inr []
       else if \<not> has_role ''assistant'' m \<or> \<not> truthy (vget m ''tool_calls'') then Inr [m]
       else rbind (tool_calls_of m) (\<lambda>cs. rbind (valid_calls completed cs) (\<lambda>valid.
         if valid \<noteq> [] then Inr [dset m ''tool_calls'' (VList valid)]
         else if meaningful m then Inr [filter (\<lambda>kv. fst kv \<noteq> ''tool_calls'') m]
         else Inr [])))"

definition reconcile_tool_pairs :: "dict list \<Rightarrow> dict list result" where
  "reconcile_tool_pairs messages =
     rbind (rconcat completed_ids_of messages) (\<lambda>completed.
     rbind (rconcat requested_ids_of messages) (\<lambda>requested.
       rconcat (reconcile_message completed requested) messages))"

section \<open>Pairing\<close>

text \<open>The ids a message asks for, the id it answers, and a message whose ids can be looked up.\<close>

definition call_ids :: "dict \<Rightarrow> pyval set" where
  "call_ids m = {i. has_role ''assistant'' m \<and>
     (\<exists>cs. tool_calls_of m = Inr cs \<and> (\<exists>c \<in> set cs. py_get c ''id'' = Inr i))}"

definition answer_ids :: "dict \<Rightarrow> pyval set" where
  "answer_ids m = (if has_role ''tool'' m then {vget m ''tool_call_id''} else {})"

definition usable :: "pyval \<Rightarrow> bool" where
  "usable i \<longleftrightarrow> truthy i \<and> hashable i"

definition wf_message :: "dict \<Rightarrow> bool" where
  "wf_message m \<longleftrightarrow>
     (\<exists>cs. tool_calls_of m = Inr cs \<and>
        (has_role ''assistant'' m \<longrightarrow>
           (\<forall>c \<in> set cs. \<exists>i. py_get c ''id'' = Inr i \<and> usable i) \<and>
           (truthy (vget m ''tool_calls'') \<longrightarrow> vget m ''tool_calls'' = VList cs)))
     \<and> (has_role ''tool'' m \<longrightarrow> usable (vget m ''tool_call_id''))"

definition paired :: "dict list \<Rightarrow> bool" where
  "paired ms \<longleftrightarrow> (\<forall>m \<in> set ms. wf_message m) \<and> \<Union> (answer_ids ` set ms) = \<Union> (call_ids ` set ms)"

lemma rconcat_set:
  "rconcat f xs = Inr ys \<Longrightarrow> set ys = {y. \<exists>x \<in> set xs. \<exists>zs. f x = Inr zs \<and> y \<in> set zs}"
  by (induction xs arbitrary: ys) (auto simp: rbind_Inr_iff)

lemma rconcat_Inr_each: "rconcat f xs = Inr ys \<Longrightarrow> x \<in> set xs \<Longrightarrow> \<exists>zs. f x = Inr zs"
  by (induction xs arbitrary: ys) (auto simp: rbind_Inr_iff)

lemma rconcat_singletons: "(\<And>x. x \<in> set xs \<Longrightarrow> f x = Inr [x]) \<Longrightarrow> rconcat f xs = Inr xs"
  by (induction xs) auto

lemma has_role_unique: "has_role r m \<Longrightarrow> r \<noteq> r' \<Longrightarrow> \<not> has_role r' m"
  by (simp add: has_role_def)

lemma completed_ids_set:
  "rconcat completed_ids_of ms = Inr ids \<Longrightarrow>
    set ids = {i. \<exists>m \<in> set ms. has_role ''tool'' m \<and> vget m ''tool_call_id'' = i \<and> usable i}"
proof -
  assume r: "rconcat completed_ids_of ms = Inr ids"
  have "\<exists>zs. completed_ids_of m = Inr zs \<and> set zs =
      {i. has_role ''tool'' m \<and> vget m ''tool_call_id'' = i \<and> usable i}" if "m \<in> set ms" for m
    using rconcat_Inr_each [OF r that]
    by (auto simp: completed_ids_of_def Let_def usable_def split: if_splits)
  then show ?thesis unfolding rconcat_set [OF r] by fastforce
qed

lemma requested_id_Inr:
  "requested_id c = Inr ys \<longleftrightarrow>
     (\<exists>i. py_get c ''id'' = Inr i \<and> (truthy i \<longrightarrow> hashable i) \<and> ys = (if truthy i then [i] else []))"
  by (auto simp: requested_id_def rbind_Inr_iff)

lemma requested_ids_set:
  "rconcat requested_ids_of ms = Inr ids \<Longrightarrow> set ids = {i. usable i \<and> (\<exists>m \<in> set ms. i \<in> call_ids m)}"
proof -
  assume r: "rconcat requested_ids_of ms = Inr ids"
  have "\<exists>zs. requested_ids_of m = Inr zs \<and> set zs = {i \<in> call_ids m. usable i}" if m: "m \<in> set ms" for m
  proof -
    from rconcat_Inr_each [OF r m] obtain zs cs where zs: "requested_ids_of m = Inr zs"
      and cs: "tool_calls_of m = Inr cs" by (auto simp: requested_ids_of_def rbind_Inr_iff)
    show ?thesis
    proof (cases "has_role ''assistant'' m")
      case False
      with zs cs show ?thesis by (auto simp: requested_ids_of_def call_ids_def)
    next
      case True
      from True zs cs have f: "rconcat requested_id cs = Inr zs" by (simp add: requested_ids_of_def)
      have "\<exists>ys i. requested_id c = Inr ys \<and> py_get c ''id'' = Inr i \<and> set ys = (if usable i then {i} else {})"
        if "c \<in> set cs" for c
      proof -
        from rconcat_Inr_each [OF f that] obtain ys where ys: "requested_id c = Inr ys" by blast
        from ys [unfolded requested_id_Inr] obtain i where "py_get c ''id'' = Inr i" "truthy i \<longrightarrow> hashable i"
          "ys = (if truthy i then [i] else [])" by blast
        with ys show ?thesis by (intro exI [of _ ys] exI [of _ i]) (simp add: usable_def)
      qed
      then have "set zs = {i \<in> call_ids m. usable i}"
        using True cs unfolding rconcat_set [OF f] call_ids_def by (fastforce split: if_splits)
      with zs show ?thesis by blast
    qed
  qed
  then show ?thesis unfolding rconcat_set [OF r] by fastforce
qed

lemma valid_calls_Inr:
  "valid_calls completed cs = Inr valid \<Longrightarrow> set valid = {c \<in> set cs. \<exists>i \<in> set completed. py_get c ''id'' = Inr i \<and> hashable i}"
proof -
  assume r: "valid_calls completed cs = Inr valid"
  have "\<exists>zs. rbind (py_get c ''id'') (\<lambda>i. rbind (py_in_set i completed) (\<lambda>b. Inr (if b then [c] else []))) = Inr zs
      \<and> set zs = {d. d = c \<and> (\<exists>i \<in> set completed. py_get c ''id'' = Inr i \<and> hashable i)}" if "c \<in> set cs" for c
    using rconcat_Inr_each [OF r [unfolded valid_calls_def] that]
    by (auto simp: rbind_Inr_iff py_in_set_def split: if_splits)
  then show ?thesis unfolding rconcat_set [OF r [unfolded valid_calls_def]] by fastforce
qed

lemma valid_calls_all:
  "(\<And>c. c \<in> set cs \<Longrightarrow> \<exists>i \<in> set completed. py_get c ''id'' = Inr i \<and> hashable i) \<Longrightarrow> valid_calls completed cs = Inr cs"
  unfolding valid_calls_def by (rule rconcat_singletons) (fastforce simp: py_in_set_def)

text \<open>What is left of one message, where nothing raises.\<close>

lemma reconcile_message_cases:
  assumes "reconcile_message completed requested m = Inr ys"
  obtains (dropped) "ys = []" "has_role ''tool'' m \<Longrightarrow> vget m ''tool_call_id'' \<notin> set requested"
      "\<forall>cs c i. has_role ''assistant'' m \<longrightarrow> tool_calls_of m = Inr cs \<longrightarrow> c \<in> set cs \<longrightarrow> py_get c ''id'' = Inr i \<longrightarrow>
         i \<in> set completed \<longrightarrow> \<not> hashable i"
    | (kept) "ys = [m]" "has_role ''tool'' m \<Longrightarrow> vget m ''tool_call_id'' \<in> set requested"
      "has_role ''assistant'' m \<Longrightarrow> \<not> truthy (vget m ''tool_calls'')"
    | (trimmed) cs valid where "ys = [dset m ''tool_calls'' (VList valid)]" "has_role ''assistant'' m"
      "tool_calls_of m = Inr cs" "valid_calls completed cs = Inr valid" "valid \<noteq> []"
    | (bare) "ys = [filter (\<lambda>kv. fst kv \<noteq> ''tool_calls'') m]" "has_role ''assistant'' m"
      "\<forall>cs c i. tool_calls_of m = Inr cs \<longrightarrow> c \<in> set cs \<longrightarrow> py_get c ''id'' = Inr i \<longrightarrow>
         i \<in> set completed \<longrightarrow> \<not> hashable i"
proof (cases "has_role ''tool'' m")
  case True
  then have na: "\<not> has_role ''assistant'' m" by (simp add: has_role_def)
  show ?thesis
  proof (cases "vget m ''tool_call_id'' \<in> set requested")
    case t: True
    with True na assms have "ys = [m]" by (auto simp: reconcile_message_def rbind_Inr_iff py_in_set_def split: if_splits)
    with t na show ?thesis by (intro kept) auto
  next
    case f: False
    with True na assms have "ys = []" by (auto simp: reconcile_message_def rbind_Inr_iff py_in_set_def split: if_splits)
    with f na show ?thesis by (intro dropped) auto
  qed
next
  case nt: False
  show ?thesis
  proof (cases "has_role ''assistant'' m \<and> truthy (vget m ''tool_calls'')")
    case False
    with nt assms have "ys = [m]" by (auto simp: reconcile_message_def)
    with nt False show ?thesis by (intro kept) auto
  next
    case True
    with nt assms have "rbind (tool_calls_of m) (\<lambda>cs. rbind (valid_calls completed cs) (\<lambda>valid.
         if valid \<noteq> [] then Inr [dset m ''tool_calls'' (VList valid)]
         else if meaningful m then Inr [filter (\<lambda>kv. fst kv \<noteq> ''tool_calls'') m]
         else Inr [])) = Inr ys" by (simp add: reconcile_message_def)
    then obtain cs valid where v: "tool_calls_of m = Inr cs" "valid_calls completed cs = Inr valid"
      and ys: "(if valid \<noteq> [] then Inr [dset m ''tool_calls'' (VList valid)]
         else if meaningful m then Inr [filter (\<lambda>kv. fst kv \<noteq> ''tool_calls'') m]
         else Inr []) = (Inr ys :: dict list result)"
      unfolding rbind_Inr_iff by blast
    show ?thesis
    proof (cases "valid = []")
      case False
      with ys True v show ?thesis by (intro trimmed) auto
    next
      case e: True
      have n: "\<forall>cs c i. tool_calls_of m = Inr cs \<longrightarrow> c \<in> set cs \<longrightarrow> py_get c ''id'' = Inr i \<longrightarrow>
         i \<in> set completed \<longrightarrow> \<not> hashable i"
        using valid_calls_Inr [OF v(2)] v(1) e by auto
      show ?thesis
      proof (cases "meaningful m")
        case True
        with ys e n \<open>has_role ''assistant'' m \<and> _\<close> show ?thesis by (intro bare) auto
      next
        case False
        with ys e n nt show ?thesis by (intro dropped) auto
      qed
    qed
  qed
qed

lemma vget_drop: "vget (filter (\<lambda>kv. fst kv \<noteq> k) m) k' = (if k' = k then VNone else vget m k')"
  by (induction m) (auto simp: vget_def)

lemma trimmed_simps:
  assumes "m' = dset m ''tool_calls'' (VList valid)" "valid \<noteq> []"
  shows "has_role r m' \<longleftrightarrow> has_role r m" "tool_calls_of m' = Inr valid"
    "vget m' ''tool_call_id'' = vget m ''tool_call_id''"
  using assms by (simp_all add: has_role_def tool_calls_of_def)

lemma bare_simps:
  assumes "m' = filter (\<lambda>kv. fst kv \<noteq> ''tool_calls'') m"
  shows "has_role r m' \<longleftrightarrow> has_role r m" "tool_calls_of m' = Inr []" "vget m' ''tool_calls'' = VNone"
    "vget m' ''tool_call_id'' = vget m ''tool_call_id''"
  using assms by (simp_all add: has_role_def tool_calls_of_def vget_drop)

lemma reconcile_output:
  assumes "reconcile_tool_pairs ms = Inr out"
  obtains completed requested where
    "set completed = {i. \<exists>m \<in> set ms. has_role ''tool'' m \<and> vget m ''tool_call_id'' = i \<and> usable i}"
    "set requested = {i. usable i \<and> (\<exists>m \<in> set ms. i \<in> call_ids m)}"
    "set out = {y. \<exists>m \<in> set ms. \<exists>ys. reconcile_message completed requested m = Inr ys \<and> y \<in> set ys}"
    "\<forall>m \<in> set ms. (\<exists>ys. reconcile_message completed requested m = Inr ys) \<and> (\<exists>cs. tool_calls_of m = Inr cs)"
proof -
  from assms obtain completed requested where c: "rconcat completed_ids_of ms = Inr completed"
    and r: "rconcat requested_ids_of ms = Inr requested"
    and o: "rconcat (reconcile_message completed requested) ms = Inr out"
    unfolding reconcile_tool_pairs_def rbind_Inr_iff by blast
  have t: "\<exists>cs. tool_calls_of m = Inr cs" if "m \<in> set ms" for m
    using rconcat_Inr_each [OF r that] by (auto simp: requested_ids_of_def rbind_Inr_iff)
  show ?thesis
    using that [OF completed_ids_set [OF c] requested_ids_set [OF r] rconcat_set [OF o]]
      rconcat_Inr_each [OF o] t by blast
qed

text \<open>A message of the result comes from one of the input, and its ids are asked for and answered there.\<close>

lemma reconcile_member:
  assumes r: "reconcile_message completed requested m = Inr ys" and y: "y \<in> set ys"
    and t: "\<exists>cs. tool_calls_of m = Inr cs"
    and u: "\<forall>i \<in> set completed \<union> set requested. usable i"
  shows "wf_message y \<and> call_ids y = call_ids m \<inter> set completed \<and> answer_ids y \<subseteq> set requested \<and>
    answer_ids y = answer_ids m"
proof (cases rule: reconcile_message_cases [OF r])
  case 1
  with y show ?thesis by simp
next
  case 2
  then have e: "y = m" using y by simp
  from t obtain cs where cs: "tool_calls_of m = Inr cs" by blast
  have "cs = []" if "has_role ''assistant'' m"
    using 2(3) [OF that] cs by (simp add: tool_calls_of_def)
  with cs have "call_ids m = {}" by (auto simp: call_ids_def)
  moreover have "wf_message m" using 2(2,3) cs u \<open>has_role ''assistant'' m \<Longrightarrow> cs = []\<close>
    by (auto simp: wf_message_def)
  ultimately show ?thesis using 2(2) e by (auto simp: answer_ids_def)
next
  case (3 cs valid)
  then have e: "y = dset m ''tool_calls'' (VList valid)" using y by simp
  note s = trimmed_simps [OF e 3(5)]
  note v = valid_calls_Inr [OF 3(4)]
  have nt: "\<not> has_role ''tool'' m" using 3(2) by (simp add: has_role_def)
  have "\<exists>i. py_get c ''id'' = Inr i \<and> usable i \<and> i \<in> set completed" if "c \<in> set valid" for c
    using that v u by auto
  then have "wf_message y" using s 3(2) nt e by (fastforce simp: wf_message_def)
  moreover have "call_ids y = call_ids m \<inter> set completed"
    using s 3(2,3) v u by (auto simp: call_ids_def usable_def)
  ultimately show ?thesis using s nt by (auto simp: answer_ids_def)
next
  case 4
  then have e: "y = filter (\<lambda>kv. fst kv \<noteq> ''tool_calls'') m" using y by simp
  note s = bare_simps [OF e]
  have nt: "\<not> has_role ''tool'' m" using 4(2) by (simp add: has_role_def)
  have "wf_message y" using s nt by (auto simp: wf_message_def)
  moreover have "call_ids y = {}" using s(2) by (auto simp: call_ids_def)
  moreover have "call_ids m \<inter> set completed = {}" using 4(3) u by (fastforce simp: call_ids_def usable_def)
  ultimately show ?thesis using s nt by (auto simp: answer_ids_def)
qed

lemma reconcile_paired:
  assumes "reconcile_tool_pairs ms = Inr out"
  shows "paired out"
proof (rule reconcile_output [OF assms])
  fix completed requested
  assume C: "set completed = {i. \<exists>m \<in> set ms. has_role ''tool'' m \<and> vget m ''tool_call_id'' = i \<and> usable i}"
    and R: "set requested = {i. usable i \<and> (\<exists>m \<in> set ms. i \<in> call_ids m)}"
    and O: "set out = {y. \<exists>m \<in> set ms. \<exists>ys. reconcile_message completed requested m = Inr ys \<and> y \<in> set ys}"
    and A: "\<forall>m \<in> set ms. (\<exists>ys. reconcile_message completed requested m = Inr ys) \<and> (\<exists>cs. tool_calls_of m = Inr cs)"
  have u: "\<forall>i \<in> set completed \<union> set requested. usable i" using C R by auto
  have mem: "wf_message y \<and> (\<exists>m \<in> set ms. call_ids y = call_ids m \<inter> set completed) \<and> answer_ids y \<subseteq> set requested
      \<and> (\<exists>m \<in> set ms. answer_ids y = answer_ids m)" if "y \<in> set out" for y
    using that A reconcile_member [OF _ _ _ u] unfolding O by blast
  have k1: "i \<in> \<Union> (call_ids ` set out)" if "i \<in> set completed" "i \<in> set requested" for i
  proof -
    from that(2) R obtain m where m: "m \<in> set ms" "i \<in> call_ids m" "usable i" by auto
    then obtain cs c where cs: "has_role ''assistant'' m" "tool_calls_of m = Inr cs" "c \<in> set cs" "py_get c ''id'' = Inr i"
      by (auto simp: call_ids_def)
    from A m(1) obtain ys where ys: "reconcile_message completed requested m = Inr ys" by blast
    have "cs \<noteq> []" using cs(3) by auto
    then have "ys \<noteq> []"
      using cs m(3) that(1) by (cases rule: reconcile_message_cases [OF ys]) (auto simp: usable_def)
    then obtain y where "y \<in> set ys" by (cases ys) auto
    with reconcile_member [OF ys this _ u] cs(2) m that(1) ys O show ?thesis by blast
  qed
  have k2: "i \<in> \<Union> (answer_ids ` set out)" if "i \<in> set completed" "i \<in> set requested" for i
  proof -
    from that(1) C obtain m where m: "m \<in> set ms" "has_role ''tool'' m" "vget m ''tool_call_id'' = i" by auto
    from A m(1) obtain ys where ys: "reconcile_message completed requested m = Inr ys" by blast
    have "ys = [m]"
      using m that(2) by (cases rule: reconcile_message_cases [OF ys]) (auto simp: has_role_def)
    with ys m O show ?thesis by (force simp: answer_ids_def)
  qed
  have k3: "call_ids y \<subseteq> set completed \<inter> set requested" if y: "y \<in> set out" for y
  proof
    fix i assume i: "i \<in> call_ids y"
    from mem [OF y] obtain m where m: "m \<in> set ms" "call_ids y = call_ids m \<inter> set completed" by blast
    with i u have "i \<in> set completed" "usable i" "i \<in> call_ids m" by auto
    with m(1) R show "i \<in> set completed \<inter> set requested" by blast
  qed
  have k4: "answer_ids y \<subseteq> set completed \<inter> set requested" if y: "y \<in> set out" for y
  proof -
    from mem [OF y] obtain m where "m \<in> set ms" "answer_ids y = answer_ids m" "answer_ids y \<subseteq> set requested" by blast
    note m = this
    show ?thesis
    proof
      fix i assume i: "i \<in> answer_ids y"
      with m(3) u have r: "i \<in> set requested" "usable i" by auto
      from i m(2) have "has_role ''tool'' m" "vget m ''tool_call_id'' = i"
        by (simp_all add: answer_ids_def split: if_splits)
      with m(1) r C show "i \<in> set completed \<inter> set requested" by blast
    qed
  qed
  have "\<Union> (call_ids ` set out) = set completed \<inter> set requested"
    using k1 k3 by (intro equalityI) (rule UN_least, assumption, rule subsetI, simp)
  moreover have "\<Union> (answer_ids ` set out) = set completed \<inter> set requested"
    using k2 k4 by (intro equalityI) (rule UN_least, assumption, rule subsetI, simp)
  moreover have "\<forall>y \<in> set out. wf_message y" using mem by simp
  ultimately show ?thesis by (simp add: paired_def)
qed

lemma rconcat_ok: "(\<And>x. x \<in> set xs \<Longrightarrow> \<exists>ys. f x = Inr ys) \<Longrightarrow> \<exists>zs. rconcat f xs = Inr zs"
  by (induction xs) (auto, fastforce)

lemma completed_ids_ok: "\<forall>m \<in> set ms. wf_message m \<Longrightarrow> \<exists>ids. rconcat completed_ids_of ms = Inr ids"
  by (rule rconcat_ok) (auto simp: completed_ids_of_def Let_def wf_message_def usable_def)

lemma requested_ids_ok: "\<forall>m \<in> set ms. wf_message m \<Longrightarrow> \<exists>ids. rconcat requested_ids_of ms = Inr ids"
proof (rule rconcat_ok)
  fix m assume "\<forall>m \<in> set ms. wf_message m" "m \<in> set ms"
  then obtain cs where cs: "tool_calls_of m = Inr cs"
    and u: "has_role ''assistant'' m \<Longrightarrow> \<forall>c \<in> set cs. \<exists>i. py_get c ''id'' = Inr i \<and> usable i"
    by (auto simp: wf_message_def)
  have "\<exists>ids. rconcat requested_id cs = Inr ids" if "has_role ''assistant'' m"
    using u [OF that] by (intro rconcat_ok) (auto simp: requested_id_def usable_def)
  with cs show "\<exists>ids. requested_ids_of m = Inr ids" by (auto simp: requested_ids_of_def)
qed

lemma wf_call_ids_usable: "wf_message m \<Longrightarrow> i \<in> call_ids m \<Longrightarrow> usable i"
  by (fastforce simp: wf_message_def call_ids_def)

lemma paired_fixed:
  assumes "paired ms"
  shows "reconcile_tool_pairs ms = Inr ms"
proof -
  have wf: "\<forall>m \<in> set ms. wf_message m" and p: "\<Union> (answer_ids ` set ms) = \<Union> (call_ids ` set ms)"
    using assms by (simp_all add: paired_def)
  from completed_ids_ok [OF wf] requested_ids_ok [OF wf] obtain completed requested
    where c: "rconcat completed_ids_of ms = Inr completed" and r: "rconcat requested_ids_of ms = Inr requested"
    by blast
  have C: "\<Union> (answer_ids ` set ms) \<subseteq> set completed"
    unfolding completed_ids_set [OF c] using wf by (auto simp: answer_ids_def wf_message_def split: if_splits)
  have R: "\<Union> (call_ids ` set ms) \<subseteq> set requested"
    unfolding requested_ids_set [OF r] using wf wf_call_ids_usable by blast
  have "reconcile_message completed requested m = Inr [m]" if m: "m \<in> set ms" for m
  proof (cases "has_role ''tool'' m")
    case True
    then have "vget m ''tool_call_id'' \<in> set requested" using m p R by (auto simp: answer_ids_def)
    moreover have "hashable (vget m ''tool_call_id'')" using wf m True by (auto simp: wf_message_def usable_def)
    ultimately show ?thesis using True by (simp add: reconcile_message_def py_in_set_def has_role_def)
  next
    case nt: False
    show ?thesis
    proof (cases "has_role ''assistant'' m \<and> truthy (vget m ''tool_calls'')")
      case True
      with wf m obtain cs where cs: "tool_calls_of m = Inr cs" "vget m ''tool_calls'' = VList cs"
        and u: "\<forall>c \<in> set cs. \<exists>i. py_get c ''id'' = Inr i \<and> usable i" by (auto simp: wf_message_def)
      have "\<exists>i \<in> set completed. py_get c ''id'' = Inr i \<and> hashable i" if "c \<in> set cs" for c
      proof -
        from u that obtain i where i: "py_get c ''id'' = Inr i" "usable i" by blast
        with True cs(1) that have "i \<in> call_ids m" by (auto simp: call_ids_def)
        with m p C have "i \<in> set completed" by blast
        with i show ?thesis by (auto simp: usable_def)
      qed
      then have "valid_calls completed cs = Inr cs" by (rule valid_calls_all)
      moreover have "dset m ''tool_calls'' (VList cs) = m"
        using cs(2) by (intro dset_same) (auto simp: vget_def split: option.splits)
      moreover have "cs \<noteq> []" using True cs(2) by auto
      ultimately show ?thesis using nt True cs(1) by (simp add: reconcile_message_def)
    qed (use nt in \<open>auto simp: reconcile_message_def\<close>)
  qed
  then have "rconcat (reconcile_message completed requested) ms = Inr ms" by (rule rconcat_singletons)
  with c r show ?thesis by (simp add: reconcile_tool_pairs_def)
qed

text \<open>C11. After the reconciliation every tool call of an assistant message has a tool message that answers
  it and every tool message answers a call: the ids asked for and the ids answered are the same set.
  A conversation for which that holds is left as it is, so a second reconciliation changes nothing.\<close>

theorem reconcile_tool_pairs_paired:
  assumes "reconcile_tool_pairs messages = Inr out"
  shows "\<Union> (answer_ids ` set out) = \<Union> (call_ids ` set out) \<and> reconcile_tool_pairs out = Inr out"
  using reconcile_paired [OF assms] paired_fixed by (auto simp: paired_def)

lemma reconcile_tool_pairs_paired_witness:
  "reconcile_tool_pairs [[(''role'', VStr ''tool''), (''tool_call_id'', VStr ''t'')]] = Inr [] \<and>
   reconcile_tool_pairs ([] :: dict list) = Inr []"
proof -
  have "reconcile_tool_pairs [[(''role'', VStr ''tool''), (''tool_call_id'', VStr ''t'')]] = Inr []"
    by (simp add: reconcile_tool_pairs_def completed_ids_of_def requested_ids_of_def reconcile_message_def
        tool_calls_of_def has_role_def py_in_set_def)
  with reconcile_tool_pairs_paired [OF this] show ?thesis by blast
qed

section \<open>The chain is a chain\<close>

text \<open>The message a message refers to as its parent.\<close>

definition parent_message :: "(string, dict) pydict \<Rightarrow> dict \<Rightarrow> dict option" where
  "parent_message m msg =
     (case vget msg ''parentId'' of VStr p \<Rightarrow> if p = [] then None else dget m p | _ \<Rightarrow> None)"

text \<open>Messages under their own id, as the chat models store them.\<close>

definition wf_messages_map :: "(string, dict) pydict \<Rightarrow> bool" where
  "wf_messages_map m \<longleftrightarrow> wf_dict m \<and> (\<forall>(k, msg) \<in> set m. vget msg ''id'' = VStr k \<and>
     (vget msg ''parentId'' = VNone \<or> is_str (vget msg ''parentId'')))"

definition chain_inv :: "(string, dict) pydict \<Rightarrow> dict \<Rightarrow> pyval list \<Rightarrow> dict list \<Rightarrow> bool" where
  "chain_inv m start visited acc \<longleftrightarrow>
     set acc \<subseteq> set (dvalues m) \<and> visited = map (\<lambda>msg. vget msg ''id'') acc \<and> distinct visited \<and>
     (acc \<noteq> [] \<longrightarrow> last acc = start) \<and>
     (\<forall>j. Suc j < length acc \<longrightarrow> parent_message m (acc ! Suc j) = Some (acc ! j))"

lemma wf_map_value:
  "wf_messages_map m \<Longrightarrow> dget m k = Some msg \<Longrightarrow>
     vget msg ''id'' = VStr k \<and> msg \<noteq> [] \<and> (vget msg ''parentId'' = VNone \<or> is_str (vget msg ''parentId''))"
  by (auto simp: wf_messages_map_def dest!: dget_Some_in)

lemma wf_map_member:
  "wf_messages_map m \<Longrightarrow> msg \<in> set (dvalues m) \<Longrightarrow> \<exists>k. vget msg ''id'' = VStr k \<and> dget m k = Some msg"
  by (auto simp: wf_messages_map_def intro!: wf_dict_dget)

lemma chain_loop_total:
  assumes wf: "wf_messages_map m"
  shows "chain_inv m start visited acc \<Longrightarrow>
    (case current of None \<Rightarrow> acc \<noteq> [] \<and> parent_message m (hd acc) = None
     | Some msg \<Rightarrow> msg \<in> set (dvalues m) \<and> (if acc = [] then msg = start else parent_message m (hd acc) = Some msg)) \<Longrightarrow>
    \<exists>ms. chain_loop m current visited acc = Some (Inr ms) \<and> ms \<noteq> [] \<and>
      chain_inv m start (map (\<lambda>msg. vget msg ''id'') ms) ms \<and>
      (case parent_message m (hd ms) of None \<Rightarrow> True | Some p \<Rightarrow> p \<in> set ms)"
proof (induction "length (filter (\<lambda>kv. VStr (fst kv) \<notin> set visited) m)" arbitrary: current visited acc rule: less_induct)
  case less
  show ?case
  proof (cases current)
    case None
    with less.prems show ?thesis by (subst chain_loop.simps) (auto simp: chain_inv_def)
  next
    case (Some msg)
    with less.prems have msg: "msg \<in> set (dvalues m)"
      "if acc = [] then msg = start else parent_message m (hd acc) = Some msg" by auto
    from wf_map_member [OF wf msg(1)] obtain k where k: "vget msg ''id'' = VStr k" "dget m k = Some msg" by blast
    note v = wf_map_value [OF wf k(2)]
    show ?thesis
    proof (cases "VStr k \<in> set visited")
      case True
      then have a: "acc \<noteq> []" using less.prems(1) by (auto simp: chain_inv_def)
      from less.prems(1) have sub: "set acc \<subseteq> set (dvalues m)" and "visited = map (\<lambda>msg. vget msg ''id'') acc"
        by (simp_all add: chain_inv_def)
      with True obtain msg' where "msg' \<in> set acc" "vget msg' ''id'' = VStr k" by auto
      with sub have m': "msg' \<in> set acc" "vget msg' ''id'' = VStr k" "msg' \<in> set (dvalues m)" by blast+
      from wf_map_member [OF wf m'(3)] m'(2) k(2) have "msg' = msg" by auto
      with m'(1) msg(2) a True Some less.prems(1) k v show ?thesis
        by (subst chain_loop.simps) (auto simp: py_in_set_def chain_inv_def)
    next
      case False
      let ?v = "VStr k # visited" and ?p = "parent_message m msg"
      have step: "chain_loop m current visited acc = (case ?p of
          None \<Rightarrow> chain_loop m None ?v (msg # acc) | Some p \<Rightarrow> chain_loop m (Some p) ?v (msg # acc))"
        using Some False k v
        by (subst chain_loop.simps)
          (auto simp: py_in_set_def parent_message_def chain_loop.simps [of m None] split: pyval.splits option.splits)
      have inv: "chain_inv m start ?v (msg # acc)"
        using less.prems(1) msg False k(1)
        by (auto simp: chain_inv_def nth_Cons hd_conv_nth split: nat.splits if_splits)
      have "length (filter (\<lambda>kv. VStr (fst kv) \<notin> set ?v) m) < length (filter (\<lambda>kv. VStr (fst kv) \<notin> set visited) m)"
        using filter_unseen_less [of "(k, msg)" m "\<lambda>kv. VStr (fst kv)" "VStr k" "set visited"] k(2) False
        by (simp add: dget_Some_in)
      note IH = less.hyps [OF this inv]
      show ?thesis
      proof (cases ?p)
        case None
        with step IH [of None] show ?thesis by simp
      next
        case p: (Some p)
        then obtain i where "dget m i = Some p" by (auto simp: parent_message_def split: pyval.splits if_splits)
        then have "p \<in> set (dvalues m)" by (force dest: dget_Some_in)
        with step p IH [of "Some p"] show ?thesis by simp
      qed
    qed
  qed
qed

text \<open>C12. With every message stored under its id, the conversation up to a message is always found: a
  list that ends with the message, in which each message follows its parent and none appears twice, and
  which goes back to a message without a stored parent, or to where the references close a cycle.\<close>

theorem message_list_chain:
  assumes "wf_messages_map m" and "dget m i = Some start"
  shows "\<exists>ms. get_message_list (Some m) (VStr i) = Some (Inr ms) \<and> ms \<noteq> [] \<and> last ms = start \<and>
     set ms \<subseteq> set (dvalues m) \<and> distinct (map (\<lambda>msg. vget msg ''id'') ms) \<and>
     (\<forall>j. Suc j < length ms \<longrightarrow> parent_message m (ms ! Suc j) = Some (ms ! j)) \<and>
     (case parent_message m (hd ms) of None \<Rightarrow> True | Some p \<Rightarrow> p \<in> set ms)"
proof -
  have "start \<in> set (dvalues m)" using assms(2) by (force dest: dget_Some_in)
  then have "\<exists>ms. chain_loop m (Some start) [] [] = Some (Inr ms) \<and> ms \<noteq> [] \<and>
      chain_inv m start (map (\<lambda>msg. vget msg ''id'') ms) ms \<and>
      (case parent_message m (hd ms) of None \<Rightarrow> True | Some p \<Rightarrow> p \<in> set ms)"
    by (intro chain_loop_total [OF assms(1)]) (simp_all add: chain_inv_def)
  moreover have "m \<noteq> []" using assms(2) by auto
  ultimately show ?thesis using assms(2) by (auto simp: get_message_list_def chain_inv_def)
qed

lemma message_list_chain_witness:
  "\<exists>ms. get_message_list (Some [(''a'', [(''id'', VStr ''a'')]),
       (''b'', [(''id'', VStr ''b''), (''parentId'', VStr ''a'')])]) (VStr ''b'') = Some (Inr ms) \<and>
     last ms = [(''id'', VStr ''b''), (''parentId'', VStr ''a'')]"
  using message_list_chain [of "[(''a'', [(''id'', VStr ''a'')]),
       (''b'', [(''id'', VStr ''b''), (''parentId'', VStr ''a'')])]" "''b''"]
  by (fastforce simp: wf_messages_map_def)

lemma chain_loop_no_id:
  assumes "chain_loop m current visited acc = Some r"
    and "dget m k = Some msg" "vget msg ''id'' = VNone" "vget msg ''parentId'' = VStr k" "k \<noteq> []" "VNone \<notin> set visited"
  shows "current \<noteq> Some msg"
proof -
  have "dget m k = Some msg \<longrightarrow> VNone \<notin> set visited \<longrightarrow> current \<noteq> Some msg"
  proof (rule chain_loop.raw_induct [where P = "\<lambda>m current visited acc r. dget m k = Some msg \<longrightarrow>
      VNone \<notin> set visited \<longrightarrow> current \<noteq> Some msg", OF _ assms(1)], intro impI notI)
    fix loop m current visited acc r
    assume IH: "\<And>m current visited acc r. loop m current visited acc = Some r \<Longrightarrow> dget m k = Some msg \<longrightarrow>
        VNone \<notin> set visited \<longrightarrow> current \<noteq> Some msg"
      and step: "(case current of
        None \<Rightarrow> Some (Inr acc)
      | Some msg \<Rightarrow>
          if msg = [] then Some (Inr acc)
          else (case py_in_set (vget msg ''id'') visited of
             Inl e \<Rightarrow> Some (Inl e)
           | Inr seen \<Rightarrow>
               if seen then Some (Inr acc)
               else let visited' = (if vget msg ''id'' = VNone then visited else vget msg ''id'' # visited);
                        parent_id = vget msg ''parentId''
                    in if truthy parent_id
                       then (case map_get m parent_id of
                               Inl e \<Rightarrow> Some (Inl e)
                             | Inr parent \<Rightarrow> loop m parent visited' (msg # acc))
                       else Some (Inr (msg # acc)))) = Some r"
      and h: "dget m k = Some msg" "VNone \<notin> set visited" "current = Some msg"
    have "msg \<noteq> []" using assms(4) by auto
    with step h assms(3-5) have "loop m (Some msg) visited (msg # acc) = Some r"
      by (simp add: py_in_set_def)
    from IH [OF this] h show False by simp
  qed
  with assms(2,6) show ?thesis by blast
qed

text \<open>The walk remembers the ids inside the messages, not the keys it follows: a stored message
  without an id that names itself as its parent makes it run for ever.\<close>

theorem message_list_without_id_diverges:
  assumes "dget m k = Some msg" and "k \<noteq> []" and "vget msg ''id'' = VNone" and "vget msg ''parentId'' = VStr k"
  shows "get_message_list (Some m) (VStr k) = None"
proof -
  have "chain_loop m (Some msg) [] [] = None"
    using chain_loop_no_id [OF _ assms(1,3,4,2), of "Some msg" "[]"] by (cases "chain_loop m (Some msg) [] []") auto
  then show ?thesis using assms(1) by (auto simp: get_message_list_def)
qed

lemma message_list_without_id_diverges_witness:
  "get_message_list (Some [(''a'', [(''parentId'', VStr ''a'')])]) (VStr ''a'') = None"
  by (rule message_list_without_id_diverges [where msg = "[(''parentId'', VStr ''a'')]"]) simp_all

section \<open>From output items to messages\<close>

text \<open>
  \<open>convert_output_to_messages\<close>: the messages so far and the pending parts that the next flush
  turns into one. An f-string formats a value by \<open>str\<close>.
\<close>

record conv =
  cv_messages :: "dict list"
  cv_calls :: "pyval list"
  cv_content :: "string list"
  cv_reasoning :: "string list"
  cv_details :: "pyval list"
  cv_images :: "pyval list"

abbreviation nl :: string where
  "nl \<equiv> [char_of (10::nat)]"

definition flush_pending :: "conv \<Rightarrow> conv" where
  "flush_pending cv =
     (if cv_content cv = [] \<and> cv_calls cv = [] \<and> cv_reasoning cv = [] \<and> cv_details cv = [] then cv
      else let message = [(''role'', VStr ''assistant''), (''content'', VStr (py_join nl (cv_content cv)))]
             @ (if cv_calls cv \<noteq> [] then [(''tool_calls'', VList (cv_calls cv))] else [])
             @ (if cv_reasoning cv \<noteq> [] then [(''reasoning_content'', VStr (py_join nl (cv_reasoning cv)))] else [])
             @ (if cv_details cv \<noteq> [] then [(''reasoning_details'', VList (cv_details cv))] else [])
           in cv\<lparr>cv_messages := cv_messages cv @ [message], cv_content := [], cv_calls := [],
                 cv_reasoning := [], cv_details := []\<rparr>)"














section \<open>What the conversion makes of the turns of an answer\<close>




















definition waiting :: "dict list \<Rightarrow> string list \<Rightarrow> conv" where
  "waiting ms us = \<lparr>cv_messages = ms, cv_calls = [], cv_content = [], cv_reasoning = [], cv_details = [],
     cv_images = map VStr us\<rparr>"




lemma flush_waiting [simp]: "flush_pending (waiting ms us) = waiting ms us"
  by (simp add: flush_pending_def waiting_def)




















end
