(* ===== verification/ChatHistory.thy ===== *)
theory ChatHistory
  imports Messages Folders
begin

text \<open>
  The history of a chat: the message tree that \<open>ChatTable\<close> of \<open>backend/open_webui/models/chats.py\<close>
  keeps in the chat's JSON, with its static methods. A history is the dictionary of its messages and
  the id of the current one; its other keys are passed through and left out here. A message is a
  dictionary with its parent's id under \<open>parentId\<close> and the ids of its children under
  \<open>childrenIds\<close>.
\<close>

type_synonym messages = "(string, dict) pydict"

record history =
  hi_messages :: messages
  hi_current :: pyval

text \<open>\<open>key in messages\<close>\<close>

fun key_in :: "pyval \<Rightarrow> messages \<Rightarrow> bool result" where
  "key_in (VStr s) ms = Inr (s \<in> fst ` set ms)"
| "key_in k ms = (if hashable k then Inr False else Inl TypeError)"

text \<open>\<open>[x for x in (value or []) if x in messages]\<close>\<close>

definition known_id :: "messages \<Rightarrow> pyval \<Rightarrow> string list result" where
  "known_id ms x = rbind (key_in x ms) (\<lambda>b. Inr (case x of VStr s \<Rightarrow> if b then [s] else [] | _ \<Rightarrow> []))"

definition known_ids :: "messages \<Rightarrow> pyval \<Rightarrow> string list result" where
  "known_ids ms v = rbind (py_iter (py_or v (VList []))) (rconcat (known_id ms))"

section \<open>The current message\<close>

text \<open>\<open>get_current_message_id\<close>, for a chat with keys \<open>history\<close>, \<open>currentId\<close>, \<open>branchPointMessageId\<close> and
  \<open>messages\<close>.\<close>

definition last_message_id :: "pyval list \<Rightarrow> pyval" where
  "last_message_id xs =
     (case List.find (\<lambda>v. case v of VDict m \<Rightarrow> truthy (vget m ''id'') | _ \<Rightarrow> False) (rev xs) of
        Some (VDict m) \<Rightarrow> vget m ''id'' | _ \<Rightarrow> VNone)"

definition get_current_message_id :: "dict \<Rightarrow> pyval" where
  "get_current_message_id chat =
     (let history = (case vget chat ''history'' of VDict h \<Rightarrow> h | _ \<Rightarrow> []);
          current_id = py_or (py_or (vget history ''currentId'') (vget chat ''currentId''))
                         (vget chat ''branchPointMessageId'')
      in if truthy current_id then current_id
         else case vget chat ''messages'' of VList xs \<Rightarrow> last_message_id xs | _ \<Rightarrow> VNone)"

definition get_unresolved_parent_ids :: "messages \<Rightarrow> string list result" where
  "get_unresolved_parent_ids ms =
     rconcat (\<lambda>msg. let p = vget msg ''parentId'' in
        if truthy p then rbind (key_in p ms) (\<lambda>b. Inr (case p of VStr s \<Rightarrow> if b then [] else [s] | _ \<Rightarrow> []))
        else Inr []) (dvalues ms)"

section \<open>Merging\<close>

text \<open>The messages that are dictionaries, their children rebuilt from the parents.\<close>

definition dict_messages :: "dict \<Rightarrow> messages" where
  "dict_messages d =
     concat (map (\<lambda>kv. case snd kv of VDict m \<Rightarrow> [(fst kv, m)] | _ \<Rightarrow> []) d)"

definition append_child :: "string \<Rightarrow> dict \<Rightarrow> dict" where
  "append_child c msg =
     dset msg ''childrenIds'' (case vget msg ''childrenIds'' of VList xs \<Rightarrow> VList (xs @ [VStr c]) | v \<Rightarrow> v)"

fun link_children :: "(string \<times> dict) list \<Rightarrow> messages \<Rightarrow> messages result" where
  "link_children [] ms = Inr ms"
| "link_children ((i, msg) # rest) ms =
     rbind (key_in (vget msg ''parentId'') ms) (\<lambda>b.
       link_children rest
         (case vget msg ''parentId'' of
            VStr p \<Rightarrow> (case dget ms p of Some parent \<Rightarrow> dset ms p (append_child i parent) | None \<Rightarrow> ms)
          | _ \<Rightarrow> ms))"

text \<open>\<open>existing\<close> and \<open>incoming\<close> are the \<open>messages\<close> of the two histories, with their current ids.\<close>

definition reset_children :: "messages \<Rightarrow> messages" where
  "reset_children ms = map (\<lambda>kv. (fst kv, dset (snd kv) ''childrenIds'' (VList []))) ms"

definition merge_history :: "dict \<Rightarrow> pyval \<Rightarrow> dict \<Rightarrow> pyval \<Rightarrow> history result" where
  "merge_history existing existing_current incoming incoming_current =
     (let merged0 = reset_children (dict_messages (dmerge existing incoming))
      in rbind (link_children merged0 merged0) (\<lambda>merged.
         rbind (key_in incoming_current merged) (\<lambda>b.
           if b then Inr \<lparr>hi_messages = merged, hi_current = incoming_current\<rparr>
           else rbind (key_in existing_current merged) (\<lambda>b'.
             Inr \<lparr>hi_messages = merged, hi_current = (if b' then existing_current else VNone)\<rparr>))))"

section \<open>Deleting a message\<close>

text \<open>\<open>xs[-1]\<close> of a non-empty value\<close>

fun py_last :: "pyval \<Rightarrow> pyval result" where
  "py_last (VList xs) = Inr (last xs)"
| "py_last (VStr s) = Inr (VStr [last s])"
| "py_last (VDict d) = Inl KeyError"
| "py_last v = Inl TypeError"

text \<open>\<open>messages.get(current_id, {}).get('childrenIds', [])\<close>\<close>

definition children_at :: "messages \<Rightarrow> pyval \<Rightarrow> pyval result" where
  "children_at ms i =
     rbind (map_get ms i) (\<lambda>m. Inr (case m of None \<Rightarrow> VList [] | Some m \<Rightarrow> dget_or m ''childrenIds'' (VList [])))"

partial_function (option) descend :: "messages \<Rightarrow> pyval \<Rightarrow> pyval \<Rightarrow> pyval result option" where
  "descend ms current child_ids =
     (if \<not> truthy child_ids then Some (Inr current)
      else case py_last child_ids of
             Inl e \<Rightarrow> Some (Inl e)
           | Inr c \<Rightarrow> (case children_at ms c of
                Inl e \<Rightarrow> Some (Inl e)
              | Inr cs \<Rightarrow> descend ms c cs))"

text \<open>The messages after the tree is changed: the parent takes over the grandchildren, the message and
  its children go.\<close>

definition relink :: "messages \<Rightarrow> string \<Rightarrow> pyval \<Rightarrow> string list \<Rightarrow> string list \<Rightarrow> messages result" where
  "relink ms i parent_id child_ids grandchild_ids =
     rbind (map_get ms parent_id) (\<lambda>parent.
     rbind (case parent of
              None \<Rightarrow> Inr ms
            | Some pm \<Rightarrow>
                rbind (py_iter (py_or (vget pm ''childrenIds'') (VList []))) (\<lambda>cs.
                  Inr (dset ms (case parent_id of VStr p \<Rightarrow> p | _ \<Rightarrow> [])
                    (dset pm ''childrenIds'' (VList (filter (\<lambda>c. c \<noteq> VStr i) cs @ map VStr grandchild_ids)))))) (\<lambda>ms1.
     let ms2 = foldl (\<lambda>ms g. case dget ms g of
                               Some m \<Rightarrow> dset ms g (dset m ''parentId'' parent_id) | None \<Rightarrow> ms) ms1 grandchild_ids
     in Inr (filter (\<lambda>kv. fst kv \<notin> set (i # child_ids)) ms2)))"

definition delete_message_from_history ::
  "history \<Rightarrow> string \<Rightarrow> (string set \<times> history) result option" where
  "delete_message_from_history h i =
     (case dget (hi_messages h) i of
        None \<Rightarrow> Some (Inr ({}, h))
      | Some m \<Rightarrow>
          let ms = hi_messages h; parent_id = vget m ''parentId''
          in (case rbind (known_ids ms (vget m ''childrenIds'')) (\<lambda>child_ids.
                   rbind (rconcat (\<lambda>c. known_ids ms (vget (the (dget ms c)) ''childrenIds'')) child_ids) (\<lambda>grandchild_ids.
                   rbind (relink ms i parent_id child_ids grandchild_ids) (\<lambda>ms'.
                   rbind (if parent_id = VNone
                          then Inr (VList (map (\<lambda>kv. VStr (fst kv)) (filter (\<lambda>kv. vget (snd kv) ''parentId'' = VNone) ms')))
                          else children_at ms' parent_id) (\<lambda>start.
                   Inr (child_ids, ms', start))))) of
                Inl e \<Rightarrow> Some (Inl e)
              | Inr (child_ids, ms', start) \<Rightarrow>
                  (case descend ms' parent_id start of
                     None \<Rightarrow> None
                   | Some (Inl e) \<Rightarrow> Some (Inl e)
                   | Some (Inr current) \<Rightarrow>
                       Some (rbind (key_in current ms') (\<lambda>b.
                         Inr (set (i # child_ids), \<lparr>hi_messages = ms', hi_current = (if b then current else VNone)\<rparr>))))))"

section \<open>Writing a message\<close>

text \<open>The first message whose \<open>childrenIds\<close> name the new one.\<close>

fun naming_parent :: "string \<Rightarrow> (string \<times> dict) list \<Rightarrow> pyval result" where
  "naming_parent i [] = Inr VNone"
| "naming_parent i ((k, m) # rest) =
     rbind (py_in i (dget_or m ''childrenIds'' (VList []))) (\<lambda>b.
       if b then Inr (VStr k) else naming_parent i rest)"

definition output_role :: "pyval list \<Rightarrow> pyval" where
  "output_role items =
     (case List.find (\<lambda>v. case v of VDict d \<Rightarrow> truthy (vget d ''role'') | _ \<Rightarrow> False) items of
        Some (VDict d) \<Rightarrow> vget d ''role'' | _ \<Rightarrow> VNone)"

definition new_role :: "dict option \<Rightarrow> pyval \<Rightarrow> pyval" where
  "new_role parent role =
     (if truthy role then role
      else if (case parent of None \<Rightarrow> VNone | Some m \<Rightarrow> if m = [] then VNone else vget m ''role'') = VStr ''assistant''
      then VStr ''user'' else VStr ''assistant'')"

definition upsert_message_to_history :: "int \<Rightarrow> history \<Rightarrow> string \<Rightarrow> dict \<Rightarrow> (dict \<times> history) result" where
  "upsert_message_to_history now h i message =
     (let ms = hi_messages h
      in rbind (case dget ms i of
            Some old \<Rightarrow> Inr (dmerge old message)
          | None \<Rightarrow>
              rbind (if vget message ''parentId'' = VNone then naming_parent i ms
                     else Inr (vget message ''parentId'')) (\<lambda>parent_id.
              rbind (if truthy parent_id then map_get ms parent_id else Inr None) (\<lambda>parent.
              rbind (py_iter (py_or (vget message ''output'') (VList []))) (\<lambda>output.
                Inr (foldl (\<lambda>d kv. dset d (fst kv) (snd kv)) message
                  [(''id'', py_or (vget message ''id'') (VStr i)),
                   (''parentId'', if vget message ''parentId'' \<noteq> VNone then vget message ''parentId'' else parent_id),
                   (''childrenIds'', if is_list (vget message ''childrenIds'') then vget message ''childrenIds'' else VList []),
                   (''role'', new_role parent (py_or (vget message ''role'') (output_role output))),
                   (''timestamp'', py_or (vget message ''timestamp'') (VInt now))]))))) (\<lambda>saved.
         Inr (saved, \<lparr>hi_messages = dset ms i saved, hi_current = VStr i\<rparr>)))"

section \<open>A merge rebuilds the tree\<close>

lemma dkeys_dset_present: "k \<in> fst ` set d \<Longrightarrow> dkeys (dset d k v) = dkeys d"
  by (induction d) auto

lemma link_children_step:
  assumes "dget ms k = Some m" and "vget m ''childrenIds'' = VList xs"
    and "ms1 = (case pid of
            VStr p \<Rightarrow> (case dget ms p of Some parent \<Rightarrow> dset ms p (append_child i parent) | None \<Rightarrow> ms)
          | _ \<Rightarrow> ms)"
  shows "\<exists>m1. dget ms1 k = Some m1 \<and>
    vget m1 ''childrenIds'' = VList (xs @ (if pid = VStr k then [VStr i] else [])) \<and>
    (\<forall>f. f \<noteq> ''childrenIds'' \<longrightarrow> vget m1 f = vget m f)"
  using assms by (auto simp: append_child_def split: pyval.splits option.splits)

abbreviation link_child :: "pyval \<Rightarrow> string \<Rightarrow> messages \<Rightarrow> messages" where
  "link_child pid i ms \<equiv>
     (case pid of
        VStr p \<Rightarrow> (case dget ms p of Some parent \<Rightarrow> dset ms p (append_child i parent) | None \<Rightarrow> ms)
      | _ \<Rightarrow> ms)"

lemma dkeys_link_child: "dkeys (link_child pid i ms) = dkeys ms"
proof (cases pid)
  case (VStr p)
  then show ?thesis by (cases "dget ms p") (auto intro!: dkeys_dset_present dest!: dget_Some_in simp: rev_image_eqI)
qed simp_all

lemma link_children_keys: "link_children todo ms = Inr ms' \<Longrightarrow> dkeys ms' = dkeys ms"
proof (induction todo arbitrary: ms)
  case (Cons kv todo)
  obtain i msg where kv: "kv = (i, msg)" by (cases kv)
  with Cons.prems have "link_children todo (link_child (vget msg ''parentId'') i ms) = Inr ms'"
    by (auto simp: rbind_Inr_iff)
  from Cons.IH [OF this] show ?case by (simp only: dkeys_link_child)
qed simp

lemma link_children_lists:
  "link_children todo ms = Inr ms' \<Longrightarrow> dget ms k = Some m \<Longrightarrow> vget m ''childrenIds'' = VList xs \<Longrightarrow>
    \<exists>m'. dget ms' k = Some m' \<and>
      vget m' ''childrenIds'' = VList (xs @ map (\<lambda>kv. VStr (fst kv)) (filter (\<lambda>kv. vget (snd kv) ''parentId'' = VStr k) todo)) \<and>
      (\<forall>f. f \<noteq> ''childrenIds'' \<longrightarrow> vget m' f = vget m f)"
proof (induction todo arbitrary: ms m xs)
  case (Cons kv todo)
  obtain i msg where kv: "kv = (i, msg)" by (cases kv)
  let ?ms1 = "link_child (vget msg ''parentId'') i ms"
  from link_children_step [OF Cons.prems(2,3) refl, where pid = "vget msg ''parentId''" and i = i] obtain m1 where
    m1: "dget ?ms1 k = Some m1"
      "vget m1 ''childrenIds'' = VList (xs @ (if vget msg ''parentId'' = VStr k then [VStr i] else []))"
      "\<forall>f. f \<noteq> ''childrenIds'' \<longrightarrow> vget m1 f = vget m f" by blast
  from Cons.prems(1) kv have l: "link_children todo ?ms1 = Inr ms'" by (auto simp: rbind_Inr_iff)
  from Cons.IH [OF l m1(1,2)] m1(3) kv show ?case by (cases "vget msg ''parentId'' = VStr k") auto
qed simp

lemma dict_messages_Nil [simp]: "dict_messages [] = []"
  by (simp add: dict_messages_def)

lemma dict_messages_Cons [simp]:
  "dict_messages ((k, v) # d) = (case v of VDict m \<Rightarrow> (k, m) # dict_messages d | _ \<Rightarrow> dict_messages d)"
  by (simp add: dict_messages_def split: pyval.split)

lemma dict_messages_keys: "fst ` set (dict_messages d) \<subseteq> fst ` set d"
proof (induction d)
  case (Cons kv d)
  obtain i v where kv: "kv = (i, v)" by (cases kv)
  have "fst ` set (dict_messages (kv # d)) \<subseteq> insert i (fst ` set (dict_messages d))"
    unfolding kv by (cases v) auto
  also have "\<dots> \<subseteq> fst ` set (kv # d)" using Cons.IH kv by auto
  finally show ?case .
qed simp

lemma wf_dict_messages: "wf_dict d \<Longrightarrow> wf_dict (dict_messages d)"
proof (induction d)
  case (Cons kv d)
  obtain i v where kv: "kv = (i, v)" by (cases kv)
  have "i \<notin> fst ` set (dict_messages d)" using Cons.prems kv dict_messages_keys [of d] by auto
  with Cons kv show ?case by (cases v) simp_all
qed simp

lemma dget_dict_messages:
  "wf_dict d \<Longrightarrow> dget (dict_messages d) k = (case dget d k of Some (VDict m) \<Rightarrow> Some m | _ \<Rightarrow> None)"
proof (induction d)
  case (Cons kv d)
  obtain i v where kv: "kv = (i, v)" by (cases kv)
  have "dget (dict_messages d) i = None" using Cons.prems kv dict_messages_keys [of d]
    by (auto simp: dget_None_iff)
  with Cons kv show ?case by (auto split: pyval.splits)
qed simp

lemma dget_reset_children:
  "dget (reset_children ms) k = map_option (\<lambda>m. dset m ''childrenIds'' (VList [])) (dget ms k)"
  unfolding reset_children_def by (induction ms) auto

lemma keys_reset_children [simp]: "dkeys (reset_children ms) = dkeys ms"
  by (simp add: reset_children_def)

lemma wf_reset_children: "wf_dict ms \<Longrightarrow> wf_dict (reset_children ms)"
  by (simp add: wf_dict_def)

text \<open>The children a message gets are those whose message names it.\<close>

abbreviation named_children :: "messages \<Rightarrow> string \<Rightarrow> string list" where
  "named_children ms k \<equiv> map fst (filter (\<lambda>kv. vget (snd kv) ''parentId'' = VStr k) ms)"

lemma named_children_iff:
  "wf_dict ms \<Longrightarrow> c \<in> set (named_children ms k) \<longleftrightarrow> (\<exists>cm. dget ms c = Some cm \<and> vget cm ''parentId'' = VStr k)"
  by (force dest: wf_dict_dget dget_Some_in)

lemma relinked_message:
  assumes "link_children (reset_children base) (reset_children base) = Inr merged"
    and "dget merged k = Some m"
  shows "\<exists>d. dget base k = Some d \<and> (\<forall>f. f \<noteq> ''childrenIds'' \<longrightarrow> vget m f = vget d f) \<and>
    vget m ''childrenIds'' = VList (map VStr (named_children (reset_children base) k))"
proof -
  have "k \<in> set (dkeys merged)" using assms(2) by (auto dest!: dget_Some_in simp: rev_image_eqI)
  then have "k \<in> set (dkeys base)" unfolding link_children_keys [OF assms(1)] by simp
  then obtain d where d: "dget base k = Some d" by (cases "dget base k") (auto simp: dget_None_iff)
  then have r: "dget (reset_children base) k = Some (dset d ''childrenIds'' (VList []))"
    by (simp add: dget_reset_children)
  from link_children_lists [OF assms(1) r, of "[]"] assms(2) d show ?thesis by (auto simp: comp_def)
qed

lemma relinked_parent:
  assumes "link_children (reset_children base) (reset_children base) = Inr merged" and "wf_dict base"
  shows "c \<in> set (named_children (reset_children base) k) \<longleftrightarrow>
    (\<exists>cm. dget merged c = Some cm \<and> vget cm ''parentId'' = VStr k)"
proof -
  have "c \<in> set (named_children (reset_children base) k) \<longleftrightarrow>
      (\<exists>d. dget base c = Some d \<and> vget d ''parentId'' = VStr k)"
    unfolding named_children_iff [OF wf_reset_children [OF assms(2)]]
    by (auto simp: dget_reset_children)
  moreover have "dget merged c = None \<longleftrightarrow> dget base c = None"
    using arg_cong [OF link_children_keys [OF assms(1)], of set] by (simp add: dget_None_iff)
  ultimately show ?thesis using relinked_message [OF assms(1), of c]
    by (cases "dget merged c") auto
qed

lemma relinked_children:
  assumes "link_children (reset_children base) (reset_children base) = Inr merged" and "wf_dict base"
    and "dget merged k = Some m"
  shows "\<exists>cs. vget m ''childrenIds'' = VList (map VStr cs) \<and> distinct cs \<and>
    (\<forall>c. c \<in> set cs \<longleftrightarrow> (\<exists>cm. dget merged c = Some cm \<and> vget cm ''parentId'' = VStr k))"
proof (intro exI conjI)
  show "vget m ''childrenIds'' = VList (map VStr (named_children (reset_children base) k))"
    using relinked_message [OF assms(1,3)] by blast
  show "distinct (named_children (reset_children base) k)"
    using wf_reset_children [OF assms(2)] by (simp add: wf_dict_def distinct_map_filter_key)
qed (intro allI relinked_parent [OF assms(1,2)])

lemma dget_merge_base:
  assumes "wf_dict existing" and "wf_dict incoming" and "\<forall>(k, v) \<in> set (existing @ incoming). is_dict v"
  shows "dget (dict_messages (dmerge existing incoming)) k =
    (case dget incoming k of Some (VDict d) \<Rightarrow> Some d | _ \<Rightarrow>
      (case dget existing k of Some (VDict d) \<Rightarrow> Some d | _ \<Rightarrow> None))"
proof -
  have "(\<forall>v. dget incoming k = Some v \<longrightarrow> is_dict v) \<and> (\<forall>v. dget existing k = Some v \<longrightarrow> is_dict v)"
    using assms(3) by (auto dest!: dget_Some_in)
  then show ?thesis
    unfolding dget_dict_messages [OF wf_dict_dmerge [OF assms(1)]] dget_dmerge [OF assms(2)]
    by (auto split: option.splits pyval.splits)
qed

lemma merge_base_keys:
  assumes "wf_dict existing" and "wf_dict incoming" and "\<forall>(k, v) \<in> set (existing @ incoming). is_dict v"
  shows "fst ` set (dict_messages (dmerge existing incoming)) = fst ` set existing \<union> fst ` set incoming"
proof -
  have "k \<notin> fst ` set (dict_messages (dmerge existing incoming)) \<longleftrightarrow>
      k \<notin> fst ` set existing \<and> k \<notin> fst ` set incoming" for k
  proof -
    have "(\<forall>v. dget incoming k = Some v \<longrightarrow> is_dict v) \<and> (\<forall>v. dget existing k = Some v \<longrightarrow> is_dict v)"
      using assms(3) by (auto dest!: dget_Some_in)
    then show ?thesis unfolding dget_None_iff [symmetric] dget_merge_base [OF assms]
      by (auto split: option.splits pyval.splits)
  qed
  then show ?thesis by blast
qed

text \<open>C14. Merging two histories keeps every message of either, the incoming version first, and rebuilds the
  tree: the children of a message are exactly the messages that name it as their parent, each once, and
  the current message is one of the merged ones or none.\<close>

theorem merge_history_tree:
  assumes "merge_history existing ec incoming ic = Inr h" and "wf_dict existing" and "wf_dict incoming"
    and "\<forall>(k, v) \<in> set (existing @ incoming). is_dict v"
  shows "fst ` set (hi_messages h) = fst ` set existing \<union> fst ` set incoming \<and>
    (\<forall>k m. dget (hi_messages h) k = Some m \<longrightarrow>
       (\<forall>f. f \<noteq> ''childrenIds'' \<longrightarrow> Some (vget m f) =
          (case dget incoming k of Some (VDict d) \<Rightarrow> Some (vget d f) | _ \<Rightarrow>
             (case dget existing k of Some (VDict d) \<Rightarrow> Some (vget d f) | _ \<Rightarrow> None))) \<and>
       (\<exists>cs. vget m ''childrenIds'' = VList (map VStr cs) \<and> distinct cs \<and>
          (\<forall>c. c \<in> set cs \<longleftrightarrow> (\<exists>cm. dget (hi_messages h) c = Some cm \<and> vget cm ''parentId'' = VStr k)))) \<and>
    (hi_current h = VNone \<or> (\<exists>k. hi_current h = VStr k \<and> k \<in> fst ` set (hi_messages h)))"
proof -
  let ?base = "dict_messages (dmerge existing incoming)"
  from assms(1) obtain merged where l: "link_children (reset_children ?base) (reset_children ?base) = Inr merged"
    and m: "hi_messages h = merged" and cur: "hi_current h = VNone \<or> key_in (hi_current h) merged = Inr True"
    unfolding merge_history_def Let_def by (auto simp: rbind_Inr_iff split: if_splits)
  have wb: "wf_dict ?base" using assms(2) by (intro wf_dict_messages) simp
  have "fst ` set merged = fst ` set existing \<union> fst ` set incoming"
    using arg_cong [OF link_children_keys [OF l], of set] merge_base_keys [OF assms(2-4)] by simp
  moreover have "\<forall>f. f \<noteq> ''childrenIds'' \<longrightarrow> Some (vget m f) =
          (case dget incoming k of Some (VDict d) \<Rightarrow> Some (vget d f) | _ \<Rightarrow>
             (case dget existing k of Some (VDict d) \<Rightarrow> Some (vget d f) | _ \<Rightarrow> None))"
    if "dget merged k = Some m" for k m
    using relinked_message [OF l that] unfolding dget_merge_base [OF assms(2-4)]
    by (auto split: option.splits pyval.splits)
  moreover have "hi_current h = VNone \<or> (\<exists>k. hi_current h = VStr k \<and> k \<in> fst ` set merged)"
    using cur by (cases "hi_current h") auto
  ultimately show ?thesis unfolding m by (simp add: relinked_children [OF l wb])
qed

theorem merge_history_tree_witness:
  "\<exists>h. merge_history [(''a'', VDict [(''role'', VStr ''user''), (''childrenIds'', VList [VStr ''z''])])] (VStr ''a'')
       [(''b'', VDict [(''parentId'', VStr ''a'')])] (VStr ''b'') = Inr h \<and>
     fst ` set (hi_messages h) = {''a''} \<union> {''b''}"
proof -
  have "merge_history [(''a'', VDict [(''role'', VStr ''user''), (''childrenIds'', VList [VStr ''z''])])] (VStr ''a'')
       [(''b'', VDict [(''parentId'', VStr ''a'')])] (VStr ''b'') =
     Inr \<lparr>hi_messages = [(''a'', [(''role'', VStr ''user''), (''childrenIds'', VList [VStr ''b''])]),
            (''b'', [(''parentId'', VStr ''a''), (''childrenIds'', VList [])])], hi_current = VStr ''b''\<rparr>"
    by code_simp
  from this merge_history_tree [OF this] show ?thesis by auto
qed
section \<open>A deletion keeps the tree\<close>

text \<open>The parent field of a stored message, and the histories that are trees: the parents are there, the
  children lists are the inverse of the parents, and no message is above itself.\<close>

definition parent_field :: "messages \<Rightarrow> string \<Rightarrow> pyval option" where
  "parent_field ms k = map_option (\<lambda>m. vget m ''parentId'') (dget ms k)"

definition tree_history :: "messages \<Rightarrow> bool" where
  "tree_history ms \<longleftrightarrow> wf_dict ms \<and>
     (\<forall>k v. parent_field ms k = Some v \<longrightarrow> v = VNone \<or> (\<exists>p. v = VStr p \<and> p \<in> fst ` set ms)) \<and>
     (\<forall>k m. dget ms k = Some m \<longrightarrow> (\<exists>cs. vget m ''childrenIds'' = VList (map VStr cs) \<and> distinct cs \<and>
        (\<forall>c. c \<in> set cs \<longleftrightarrow> parent_field ms c = Some (VStr k)))) \<and>
     (\<exists>rank :: string \<Rightarrow> nat. \<forall>c p. parent_field ms c = Some (VStr p) \<longrightarrow> rank p < rank c)"

lemma parent_field_present: "parent_field ms c = Some v \<Longrightarrow> c \<in> fst ` set ms"
  by (auto simp: parent_field_def dest!: dget_Some_in simp: rev_image_eqI)

lemma tree_children:
  "tree_history ms \<Longrightarrow> dget ms k = Some m \<Longrightarrow>
    \<exists>cs. vget m ''childrenIds'' = VList (map VStr cs) \<and> distinct cs \<and>
      (\<forall>c. c \<in> set cs \<longleftrightarrow> parent_field ms c = Some (VStr k))"
  by (simp add: tree_history_def)

lemma known_ids_all: "set cs \<subseteq> fst ` set ms \<Longrightarrow> known_ids ms (VList (map VStr cs)) = Inr cs"
proof -
  assume a: "set cs \<subseteq> fst ` set ms"
  have "rconcat (known_id ms) (map VStr cs) = Inr cs"
    using a by (induction cs) (auto simp: known_id_def)
  then show ?thesis by (cases cs) (auto simp: known_ids_def py_or_def)
qed

lemma py_last_strs [simp]: "xs \<noteq> [] \<Longrightarrow> py_last (VList (map VStr xs)) = Inr (VStr (last xs))"
  by (simp add: last_map)

lemma children_at_tree:
  "dget ms k = Some m \<Longrightarrow> vget m ''childrenIds'' = VList (map VStr cs) \<Longrightarrow>
    children_at ms (VStr k) = Inr (VList (map VStr cs))"
  by (auto simp: children_at_def dget_or_def vget_def split: option.splits)

lemma dget_present:
  assumes "k \<in> fst ` set ms" obtains m where "dget ms k = Some m"
  using assms by (cases "dget ms k") (auto simp: dget_None_iff)

lemma descend_leaf:
  fixes rank :: "string \<Rightarrow> nat"
  assumes t: "tree_history ms" and r: "\<And>c p. parent_field ms c = Some (VStr p) \<Longrightarrow> rank p < rank c"
    and b: "\<And>k. k \<in> fst ` set ms \<Longrightarrow> rank k \<le> B"
  shows "k \<in> fst ` set ms \<Longrightarrow> children_at ms (VStr k) = Inr ch \<Longrightarrow>
    \<exists>l. descend ms (VStr k) ch = Some (Inr (VStr l)) \<and> l \<in> fst ` set ms \<and> (\<forall>c. parent_field ms c \<noteq> Some (VStr l))"
proof (induction "B - rank k" arbitrary: k ch rule: less_induct)
  case less
  obtain m where m: "dget ms k = Some m" by (rule dget_present [OF less.prems(1)])
  obtain cs where cs: "vget m ''childrenIds'' = VList (map VStr cs)" "distinct cs"
    "\<forall>c. c \<in> set cs \<longleftrightarrow> parent_field ms c = Some (VStr k)" using tree_children [OF t m] by (elim exE conjE)
  have ch: "ch = VList (map VStr cs)" using children_at_tree [OF m cs(1)] less.prems(2) by simp
  show ?case
  proof (cases "cs = []")
    case True
    with ch cs(3) less.prems(1) show ?thesis by (subst descend.simps) auto
  next
    case False
    have l: "parent_field ms (last cs) = Some (VStr k)" using last_in_set [OF False] cs(3) by blast
    have p: "last cs \<in> fst ` set ms" by (rule parent_field_present [OF l])
    obtain m' where m': "dget ms (last cs) = Some m'" by (rule dget_present [OF p])
    from tree_children [OF t m'] obtain cs' where
      c': "children_at ms (VStr (last cs)) = Inr (VList (map VStr cs'))" using children_at_tree [OF m'] by metis
    have "B - rank (last cs) < B - rank k" using r [OF l] b [OF p] by simp
    from less.hyps [OF this p c'] False ch c' show ?thesis by (subst descend.simps) (simp add: last_map)
  qed
qed

lemma tree_rank_bound:
  assumes "tree_history ms"
  obtains rank :: "string \<Rightarrow> nat" and B where "\<And>c p. parent_field ms c = Some (VStr p) \<Longrightarrow> rank p < rank c"
    "\<And>k. k \<in> fst ` set ms \<Longrightarrow> rank k \<le> B"
proof -
  from assms obtain rank :: "string \<Rightarrow> nat" where
    r: "\<And>c p. parent_field ms c = Some (VStr p) \<Longrightarrow> rank p < rank c" unfolding tree_history_def by blast
  have "rank k \<le> Max (rank ` fst ` set ms)" if "k \<in> fst ` set ms" for k using that by (intro Max_ge) auto
  with r show ?thesis by (rule that)
qed

lemma tree_has_root:
  assumes "tree_history ms" and "ms \<noteq> []"
  shows "\<exists>k. parent_field ms k = Some VNone"
proof -
  from assms(1) obtain rank :: "string \<Rightarrow> nat" where
    r: "\<And>c p. parent_field ms c = Some (VStr p) \<Longrightarrow> rank p < rank c" unfolding tree_history_def by blast
  obtain k0 where "k0 \<in> fst ` set ms" using assms(2) by (cases ms) auto
  then obtain k where k: "k \<in> fst ` set ms" "\<And>k'. k' \<in> fst ` set ms \<Longrightarrow> rank k \<le> rank k'"
    using ex_has_least_nat [of "\<lambda>k. k \<in> fst ` set ms" k0 rank] by blast
  then obtain v where v: "parent_field ms k = Some v"
    by (cases "dget ms k") (auto simp: parent_field_def dget_None_iff)
  then have "v = VNone \<or> (\<exists>p. v = VStr p \<and> p \<in> fst ` set ms)" using assms(1) unfolding tree_history_def by blast
  then show ?thesis
  proof
    assume "\<exists>p. v = VStr p \<and> p \<in> fst ` set ms"
    then obtain p where p: "v = VStr p" "p \<in> fst ` set ms" by blast
    with r [of k p] k(2) [OF p(2)] v show ?thesis by simp
  qed (use v in blast)
qed
text \<open>The messages after the tree is changed, one by one.\<close>

definition set_parents :: "pyval \<Rightarrow> string list \<Rightarrow> messages \<Rightarrow> messages" where
  "set_parents pid gs ms =
     foldl (\<lambda>ms g. case dget ms g of
              Some m \<Rightarrow> dset ms g (dset m ''parentId'' pid) | None \<Rightarrow> ms) ms gs"

lemma set_parents_dget:
  "distinct gs \<Longrightarrow> dget (set_parents pid gs ms) k =
     (if k \<in> set gs then map_option (\<lambda>m. dset m ''parentId'' pid) (dget ms k) else dget ms k)"
proof (induction gs arbitrary: ms)
  case (Cons g gs)
  then show ?case by (cases "dget ms g") (auto simp: set_parents_def)
qed (simp add: set_parents_def)

lemma set_parents_wf: "wf_dict ms \<Longrightarrow> wf_dict (set_parents pid gs ms)"
  unfolding set_parents_def by (induction gs arbitrary: ms) (auto split: option.split)

lemma dget_filter_keys: "dget (filter (\<lambda>kv. fst kv \<notin> D) ms) k = (if k \<in> D then None else dget ms k)"
  by (induction ms) auto

text \<open>\<open>ps\<close> are the new children of the parent, \<open>cs\<close> the children that go, \<open>gs\<close> theirs.\<close>

definition moved :: "pyval \<Rightarrow> pyval \<Rightarrow> string list \<Rightarrow> string \<Rightarrow> dict \<Rightarrow> dict" where
  "moved pid ps gs k m =
     (let m1 = (if pid = VStr k then dset m ''childrenIds'' ps else m)
      in if k \<in> set gs then dset m1 ''parentId'' pid else m1)"

lemma relink_dget:
  assumes "wf_dict ms" and "distinct gs" and "hashable pid"
    and "\<And>p pm. pid = VStr p \<Longrightarrow> dget ms p = Some pm \<Longrightarrow> vget pm ''childrenIds'' = VList (map VStr cp)"
  shows "\<exists>ms'. relink ms i pid cs gs = Inr ms' \<and> wf_dict ms' \<and>
    (\<forall>k. dget ms' k = (if k \<in> set (i # cs) then None
       else map_option (moved pid (VList (map VStr (filter (\<lambda>c. c \<noteq> i) cp @ gs))) gs k) (dget ms k)))"
proof -
  have f: "filter (\<lambda>c. c \<noteq> VStr i) (map VStr cp) = map VStr (filter (\<lambda>c. c \<noteq> i) cp)"
    by (induction cp) auto
  have iter: "py_iter (py_or (VList (map VStr cp)) (VList [])) = Inr (map VStr cp)"
    by (cases cp) (simp_all add: py_or_def)
  define ms1 where "ms1 = (case pid of VStr p \<Rightarrow> (case dget ms p of None \<Rightarrow> ms
      | Some pm \<Rightarrow> dset ms p (dset pm ''childrenIds'' (VList (map VStr (filter (\<lambda>c. c \<noteq> i) cp @ gs))))) | _ \<Rightarrow> ms)"
  have "relink ms i pid cs gs = Inr (filter (\<lambda>kv. fst kv \<notin> set (i # cs)) (set_parents pid gs ms1))"
    using assms(3,4) f iter unfolding relink_def ms1_def Let_def set_parents_def
    by (auto split: pyval.splits option.splits)
  moreover have "wf_dict (filter (\<lambda>kv. fst kv \<notin> set (i # cs)) (set_parents pid gs ms1))"
  proof -
    have "wf_dict ms1" using assms(1) by (auto simp: ms1_def split: pyval.split option.split)
    from set_parents_wf [OF this] show ?thesis by (simp add: wf_dict_def distinct_map_filter_key)
  qed
  moreover have "dget (filter (\<lambda>kv. fst kv \<notin> set (i # cs)) (set_parents pid gs ms1)) k =
      (if k \<in> set (i # cs) then None
       else map_option (moved pid (VList (map VStr (filter (\<lambda>c. c \<noteq> i) cp @ gs))) gs k) (dget ms k))" for k
  proof -
    have "dget ms1 k = map_option (\<lambda>m. if pid = VStr k
        then dset m ''childrenIds'' (VList (map VStr (filter (\<lambda>c. c \<noteq> i) cp @ gs))) else m) (dget ms k)"
      by (cases "dget ms k") (auto simp: ms1_def split: pyval.split option.split)
    then show ?thesis unfolding dget_filter_keys set_parents_dget [OF assms(2)]
      by (cases "dget ms k") (simp_all add: moved_def)
  qed
  ultimately show ?thesis by blast
qed
text \<open>What a deletion finds: the parent's field, the children and the grandchildren.\<close>

definition grandchildren :: "messages \<Rightarrow> string \<Rightarrow> string set" where
  "grandchildren ms i = {g. \<exists>c. parent_field ms c = Some (VStr i) \<and> parent_field ms g = Some (VStr c)}"

definition child_list :: "messages \<Rightarrow> string \<Rightarrow> string list" where
  "child_list ms k =
     (case dget ms k of
        Some m \<Rightarrow> (case vget m ''childrenIds'' of VList xs \<Rightarrow> map (\<lambda>v. case v of VStr s \<Rightarrow> s | _ \<Rightarrow> []) xs | _ \<Rightarrow> [])
      | None \<Rightarrow> [])"

lemma child_list_tree:
  assumes "tree_history ms" and "dget ms k = Some m"
  shows "vget m ''childrenIds'' = VList (map VStr (child_list ms k))" and "distinct (child_list ms k)"
    and "c \<in> set (child_list ms k) \<longleftrightarrow> parent_field ms c = Some (VStr k)"
proof -
  obtain cs where cs: "vget m ''childrenIds'' = VList (map VStr cs)" "distinct cs"
    "\<forall>c. c \<in> set cs \<longleftrightarrow> parent_field ms c = Some (VStr k)" using tree_children [OF assms] by (elim exE conjE)
  have "child_list ms k = cs" using assms(2) cs(1) by (simp add: child_list_def comp_def)
  with cs show "vget m ''childrenIds'' = VList (map VStr (child_list ms k))" "distinct (child_list ms k)"
    "c \<in> set (child_list ms k) \<longleftrightarrow> parent_field ms c = Some (VStr k)" by blast+
qed

lemma child_list_iff:
  assumes "tree_history ms"
  shows "c \<in> set (child_list ms k) \<longleftrightarrow> parent_field ms c = Some (VStr k)"
proof (cases "dget ms k")
  case None
  then have "k \<notin> fst ` set ms" by (simp add: dget_None_iff)
  then have "parent_field ms c \<noteq> Some (VStr k)" using assms unfolding tree_history_def by blast
  with None show ?thesis by (simp add: child_list_def)
qed (rule child_list_tree(3) [OF assms])

lemma child_list_distinct: "tree_history ms \<Longrightarrow> distinct (child_list ms k)"
  by (cases "dget ms k") (auto simp: child_list_tree(2), simp add: child_list_def)

definition grandchild_list :: "messages \<Rightarrow> string \<Rightarrow> string list" where
  "grandchild_list ms i = concat (map (child_list ms) (child_list ms i))"

lemma grandchild_list_set: "tree_history ms \<Longrightarrow> set (grandchild_list ms i) = grandchildren ms i"
  by (auto simp: grandchild_list_def grandchildren_def child_list_iff)

lemma grandchild_list_distinct:
  assumes t: "tree_history ms"
  shows "distinct (grandchild_list ms i)"
proof -
  have "distinct cs \<Longrightarrow> distinct (concat (map (child_list ms) cs))" for cs
    by (induction cs) (auto simp: child_list_distinct [OF t] child_list_iff [OF t])
  then show ?thesis unfolding grandchild_list_def using child_list_distinct [OF t] by blast
qed

lemma found_lists:
  assumes t: "tree_history ms" and m: "dget ms i = Some m"
  shows "known_ids ms (vget m ''childrenIds'') = Inr (child_list ms i) \<and>
    rconcat (\<lambda>c. known_ids ms (vget (the (dget ms c)) ''childrenIds'')) (child_list ms i) = Inr (grandchild_list ms i)"
proof -
  have k: "known_ids ms (vget m' ''childrenIds'') = Inr (child_list ms k)" if "dget ms k = Some m'" for k m'
    unfolding child_list_tree(1) [OF t that]
    by (rule known_ids_all) (use child_list_tree(3) [OF t that] parent_field_present in blast)
  have "known_ids ms (vget (the (dget ms c)) ''childrenIds'') = Inr (child_list ms c)"
    if "c \<in> set (child_list ms i)" for c
  proof (rule dget_present)
    show "c \<in> fst ` set ms" using that child_list_tree(3) [OF t m] parent_field_present by blast
  qed (use k in simp)
  with k [OF m] show ?thesis unfolding grandchild_list_def by (auto intro: rconcat_total)
qed
text \<open>The tree after a deletion of the children \<open>child_list ms i\<close> of the message \<open>i\<close> whose parent field is \<open>pid\<close>.\<close>

definition gone :: "messages \<Rightarrow> string \<Rightarrow> string set" where
  "gone ms i = insert i {c. parent_field ms c = Some (VStr i)}"

lemma gone_list: "tree_history ms \<Longrightarrow> set (i # child_list ms i) = gone ms i"
  by (auto simp: gone_def child_list_iff)

lemma tree_rank:
  "tree_history ms \<Longrightarrow> \<exists>rank :: string \<Rightarrow> nat. \<forall>c p. parent_field ms c = Some (VStr p) \<longrightarrow> rank p < rank c"
  by (simp add: tree_history_def)

lemma parent_not_gone:
  assumes "tree_history ms" and "parent_field ms i = Some (VStr p)"
  shows "p \<notin> gone ms i"
proof -
  obtain rank :: "string \<Rightarrow> nat" where "\<forall>c p. parent_field ms c = Some (VStr p) \<longrightarrow> rank p < rank c"
    using tree_rank [OF assms(1)] by (elim exE)
  note r = this [rule_format]
  have "rank p < rank i" by (rule r [OF assms(2)])
  then show ?thesis using r [of p i] by (auto simp: gone_def)
qed

lemma grandchild_not_gone:
  assumes "tree_history ms" and "g \<in> grandchildren ms i"
  shows "g \<notin> gone ms i"
proof -
  obtain rank :: "string \<Rightarrow> nat" where "\<forall>c p. parent_field ms c = Some (VStr p) \<longrightarrow> rank p < rank c"
    using tree_rank [OF assms(1)] by (elim exE)
  note r = this [rule_format]
  obtain c where c: "parent_field ms c = Some (VStr i)" "parent_field ms g = Some (VStr c)"
    using assms(2) by (auto simp: grandchildren_def)
  from r [OF c(1)] r [OF c(2)] c show ?thesis by (auto simp: gone_def)
qed

definition pruned :: "messages \<Rightarrow> string \<Rightarrow> pyval \<Rightarrow> messages \<Rightarrow> bool" where
  "pruned ms i pid ms' \<longleftrightarrow> wf_dict ms' \<and>
     (\<forall>k. dget ms' k = (if k \<in> gone ms i then None
        else map_option (moved pid (VList (map VStr (filter (\<lambda>c. c \<noteq> i)
               (case pid of VStr p \<Rightarrow> child_list ms p | _ \<Rightarrow> []) @ grandchild_list ms i)))
             (grandchild_list ms i) k) (dget ms k)))"

lemma pruned_parent:
  assumes "tree_history ms" and "pruned ms i pid ms'"
  shows "parent_field ms' k =
    (if k \<in> gone ms i then None else if k \<in> grandchildren ms i then Some pid else parent_field ms k)"
proof -
  have "dget ms k \<noteq> None" if "k \<in> grandchildren ms i"
    using that by (auto simp: grandchildren_def parent_field_def)
  then show ?thesis using assms(2) unfolding pruned_def parent_field_def
    by (cases "dget ms k") (auto simp: moved_def Let_def grandchild_list_set [OF assms(1)])
qed

lemma pruned_keys:
  assumes "pruned ms i pid ms'"
  shows "fst ` set ms' = fst ` set ms - gone ms i"
proof -
  have "k \<notin> fst ` set ms' \<longleftrightarrow> k \<notin> fst ` set ms \<or> k \<in> gone ms i" for k
    using assms unfolding dget_None_iff [symmetric] by (auto simp: pruned_def)
  then show ?thesis by blast
qed

lemma pruned_children:
  assumes t: "tree_history ms" and w: "pruned ms i pid ms'" and p: "parent_field ms i = Some pid"
    and m': "dget ms' k = Some m'"
  shows "\<exists>cs. vget m' ''childrenIds'' = VList (map VStr cs) \<and> distinct cs \<and>
    (\<forall>c. c \<in> set cs \<longleftrightarrow> parent_field ms' c = Some (VStr k))"
proof -
  from w m' obtain m where k: "k \<notin> gone ms i" "dget ms k = Some m"
    and c: "vget m' ''childrenIds'' = (if pid = VStr k
      then VList (map VStr (filter (\<lambda>c. c \<noteq> i) (child_list ms k) @ grandchild_list ms i)) else vget m ''childrenIds'')"
    by (auto simp: pruned_def moved_def Let_def split: if_splits)
  have par: "\<not> (\<exists>c. parent_field ms c = Some (VStr i) \<and> c = k)" "k \<noteq> i" using k(1) by (auto simp: gone_def)
  have disj: "c \<notin> grandchildren ms i" if "parent_field ms c = Some (VStr k)" for c
    using that par by (auto simp: grandchildren_def)
  have kept: "c \<notin> gone ms i" if "parent_field ms c = Some (VStr k)" "c \<noteq> i" for c
    using that par by (auto simp: gone_def)
  show ?thesis
  proof (cases "pid = VStr k")
    case True
    let ?cs = "filter (\<lambda>c. c \<noteq> i) (child_list ms k) @ grandchild_list ms i"
    have "distinct ?cs" using disj
      by (auto simp: child_list_distinct [OF t] grandchild_list_distinct [OF t] child_list_iff [OF t] grandchild_list_set [OF t])
    moreover have "c \<in> set ?cs \<longleftrightarrow> parent_field ms' c = Some (VStr k)" for c
      using kept [of c] grandchild_not_gone [OF t, of c i] True disj [of c]
      by (auto simp: pruned_parent [OF t w] child_list_iff [OF t] grandchild_list_set [OF t] gone_def)
    moreover have "vget m' ''childrenIds'' = VList (map VStr ?cs)" using c True by simp
    ultimately show ?thesis by blast
  next
    case False
    have "c \<in> set (child_list ms k) \<longleftrightarrow> parent_field ms' c = Some (VStr k)" for c
      using kept [of c] False disj [of c] p
      by (cases "c = i") (auto simp: pruned_parent [OF t w] child_list_iff [OF t])
    with c False child_list_tree(1,2) [OF t k(2)] show ?thesis by auto
  qed
qed

lemma pruned_tree:
  assumes t: "tree_history ms" and w: "pruned ms i pid ms'" and p: "parent_field ms i = Some pid"
  shows "tree_history ms'"
proof -
  obtain rank :: "string \<Rightarrow> nat" where "\<forall>c p. parent_field ms c = Some (VStr p) \<longrightarrow> rank p < rank c"
    using tree_rank [OF t] by (elim exE)
  note r = this [rule_format]
  have old: "\<And>k v. parent_field ms k = Some v \<Longrightarrow> v = VNone \<or> (\<exists>p. v = VStr p \<and> p \<in> fst ` set ms)"
    using t unfolding tree_history_def by blast
  have ok: "v = VNone \<or> (\<exists>q. v = VStr q \<and> q \<in> fst ` set ms')" if v: "parent_field ms' k = Some v" for k v
  proof (cases "k \<in> grandchildren ms i")
    case True
    then have "v = pid" using v by (simp add: pruned_parent [OF t w] split: if_splits)
    with old [OF p] parent_not_gone [OF t] p pruned_keys [OF w] show ?thesis by auto
  next
    case False
    then have o: "parent_field ms k = Some v" "k \<notin> gone ms i"
      using v by (auto simp: pruned_parent [OF t w] split: if_splits)
    have "q \<notin> gone ms i" if "v = VStr q" for q
      using o False that by (auto simp: gone_def grandchildren_def)
    with old [OF o(1)] pruned_keys [OF w] show ?thesis by auto
  qed
  have up: "rank q < rank c" if "parent_field ms' c = Some (VStr q)" for c q
  proof (cases "c \<in> grandchildren ms i")
    case True
    then obtain d where d: "parent_field ms d = Some (VStr i)" "parent_field ms c = Some (VStr d)"
      by (auto simp: grandchildren_def)
    from True that have "pid = VStr q" by (simp add: pruned_parent [OF t w] split: if_splits)
    with r [OF d(1)] r [OF d(2)] r [of i q] p show ?thesis by simp
  next
    case False
    with that show ?thesis by (intro r) (simp add: pruned_parent [OF t w] split: if_splits)
  qed
  show ?thesis unfolding tree_history_def
    using w ok up pruned_children [OF t w p] by (auto simp: pruned_def)
qed
text \<open>Where the walk down from the parent, or from the roots, ends.\<close>

abbreviation leaf_of :: "messages \<Rightarrow> pyval \<Rightarrow> bool" where
  "leaf_of ms v \<equiv> \<exists>l. v = VStr l \<and> l \<in> fst ` set ms \<and> (\<forall>c. parent_field ms c \<noteq> Some (VStr l))"

lemma descend_from:
  assumes t: "tree_history ms" and k: "k \<in> fst ` set ms"
  shows "\<exists>ch cur. children_at ms (VStr k) = Inr ch \<and> descend ms (VStr k) ch = Some (Inr cur) \<and> leaf_of ms cur"
proof -
  obtain rank :: "string \<Rightarrow> nat" where "\<forall>c p. parent_field ms c = Some (VStr p) \<longrightarrow> rank p < rank c"
    using tree_rank [OF t] by (elim exE)
  note r = this [rule_format]
  have B: "rank k \<le> Max (rank ` fst ` set ms)" if "k \<in> fst ` set ms" for k using that by (intro Max_ge) auto
  obtain m where m: "dget ms k = Some m" by (rule dget_present [OF k])
  have ch: "children_at ms (VStr k) = Inr (VList (map VStr (child_list ms k)))"
    by (rule children_at_tree [OF m child_list_tree(1) [OF t m]])
  have "\<exists>l. descend ms (VStr k) (VList (map VStr (child_list ms k))) = Some (Inr (VStr l)) \<and>
      l \<in> fst ` set ms \<and> (\<forall>c. parent_field ms c \<noteq> Some (VStr l))"
    by (rule descend_leaf [OF t, where rank = rank, OF r B k ch])
  with ch show ?thesis by blast
qed

lemma descend_roots:
  assumes t: "tree_history ms"
  shows "\<exists>cur. descend ms VNone (VList (map (\<lambda>kv. VStr (fst kv)) (filter (\<lambda>kv. vget (snd kv) ''parentId'' = VNone) ms)))
      = Some (Inr cur) \<and> (if ms = [] then cur = VNone else leaf_of ms cur)"
proof (cases "ms = []")
  case True
  then show ?thesis by (subst descend.simps) simp
next
  case False
  let ?roots = "map fst (filter (\<lambda>kv. vget (snd kv) ''parentId'' = VNone) ms)"
  have l: "map (\<lambda>kv. VStr (fst kv)) (filter (\<lambda>kv. vget (snd kv) ''parentId'' = VNone) ms) = map VStr ?roots" by simp
  obtain k m where "dget ms k = Some m" "vget m ''parentId'' = VNone"
    using tree_has_root [OF t False] by (auto simp: parent_field_def)
  then have ne: "?roots \<noteq> []" by (force simp: filter_empty_conv dest: dget_Some_in)
  have "set ?roots \<subseteq> fst ` set ms" by auto
  then have "last ?roots \<in> fst ` set ms" using last_in_set [OF ne] by (rule subsetD)
  from descend_from [OF t this] obtain ch cur where
    "children_at ms (VStr (last ?roots)) = Inr ch" "descend ms (VStr (last ?roots)) ch = Some (Inr cur)" "leaf_of ms cur"
    by blast
  with False ne show ?thesis unfolding l by (subst descend.simps) (simp del: map_map add: last_map)
qed

lemma key_in_leaf: "leaf_of ms cur \<Longrightarrow> key_in cur ms = Inr True"
  by (elim exE conjE) simp

lemma delete_run:
  assumes t: "tree_history (hi_messages h)" and m: "dget (hi_messages h) i = Some m"
  shows "\<exists>ms' cur. pruned (hi_messages h) i (vget m ''parentId'') ms' \<and> tree_history ms' \<and>
    (ms' = [] \<longrightarrow> cur = VNone) \<and> (ms' \<noteq> [] \<longrightarrow> leaf_of ms' cur) \<and>
    delete_message_from_history h i =
      Some (Inr (gone (hi_messages h) i, \<lparr>hi_messages = ms', hi_current = cur\<rparr>))"
proof -
  let ?ms = "hi_messages h" and ?pid = "vget m ''parentId''"
  have pf: "parent_field ?ms i = Some ?pid" using m by (simp add: parent_field_def)
  have pid: "?pid = VNone \<or> (\<exists>p. ?pid = VStr p \<and> p \<in> fst ` set ?ms)"
    using t pf unfolding tree_history_def by blast
  obtain ms' where rl: "relink ?ms i ?pid (child_list ?ms i) (grandchild_list ?ms i) = Inr ms'"
    and w: "pruned ?ms i ?pid ms'"
  proof -
    let ?cp = "case ?pid of VStr p \<Rightarrow> child_list ?ms p | _ \<Rightarrow> []"
    have "hashable ?pid" using pid by auto
    moreover have "wf_dict ?ms" using t by (simp add: tree_history_def)
    ultimately show ?thesis
      using relink_dget [of ?ms "grandchild_list ?ms i" ?pid ?cp i "child_list ?ms i"] grandchild_list_distinct [OF t]
        child_list_tree(1) [OF t] that
      unfolding pruned_def gone_list [OF t] by auto
  qed
  have t': "tree_history ms'" by (rule pruned_tree [OF t w pf])
  obtain start cur where s: "(if ?pid = VNone
      then Inr (VList (map (\<lambda>kv. VStr (fst kv)) (filter (\<lambda>kv. vget (snd kv) ''parentId'' = VNone) ms')))
      else children_at ms' ?pid) = Inr start"
    and d: "descend ms' ?pid start = Some (Inr cur)" and c: "(ms' = [] \<longrightarrow> cur = VNone) \<and> (ms' \<noteq> [] \<longrightarrow> leaf_of ms' cur)"
  proof (cases "?pid = VNone")
    case True
    with descend_roots [OF t'] that show ?thesis by auto
  next
    case False
    with pid obtain p where p: "?pid = VStr p" "p \<in> fst ` set ms'"
      using parent_not_gone [OF t] pf pruned_keys [OF w] by auto
    obtain ch cur where "children_at ms' (VStr p) = Inr ch" "descend ms' (VStr p) ch = Some (Inr cur)"
      "leaf_of ms' cur" using descend_from [OF t' p(2)] by (elim exE conjE) blast
    with p that [of ch cur] show ?thesis by (cases "ms' = []") simp_all
  qed
  have "delete_message_from_history h i = Some (Inr (gone ?ms i, \<lparr>hi_messages = ms', hi_current = cur\<rparr>))"
  proof -
    have "\<exists>b. key_in cur ms' = Inr b \<and> (if b then cur else VNone) = cur"
      using key_in_leaf c by (cases "ms' = []") auto
    then show ?thesis
      using m found_lists [OF t m] rl s d unfolding gone_list [OF t, symmetric] delete_message_from_history_def Let_def
      by (elim exE) simp
  qed
  with w t' c show ?thesis by blast
qed

text \<open>C15. Deleting a message of a history that is a tree returns, deletes the message and its children and
  leaves a tree: the grandchildren get the message's parent, every other field stays, and the current
  message is a leaf of the new tree, or none when nothing is left.\<close>

theorem delete_message_keeps_tree:
  assumes t: "tree_history (hi_messages h)" and m: "dget (hi_messages h) i = Some m"
  shows "\<exists>h'. delete_message_from_history h i = Some (Inr (gone (hi_messages h) i, h')) \<and>
    tree_history (hi_messages h') \<and>
    fst ` set (hi_messages h') = fst ` set (hi_messages h) - gone (hi_messages h) i \<and>
    (\<forall>k m0. dget (hi_messages h) k = Some m0 \<and> k \<notin> gone (hi_messages h) i \<longrightarrow>
       (\<exists>m1. dget (hi_messages h') k = Some m1 \<and>
          vget m1 ''parentId'' = vget (if k \<in> grandchildren (hi_messages h) i then m else m0) ''parentId'' \<and>
          (\<forall>f. f \<noteq> ''parentId'' \<and> f \<noteq> ''childrenIds'' \<longrightarrow> vget m1 f = vget m0 f))) \<and>
    (if hi_messages h' = [] then hi_current h' = VNone else leaf_of (hi_messages h') (hi_current h'))"
proof -
  let ?ms = "hi_messages h"
  obtain ms' cur where w: "pruned ?ms i (vget m ''parentId'') ms'" and t': "tree_history ms'"
    and c: "ms' = [] \<longrightarrow> cur = VNone" "ms' \<noteq> [] \<longrightarrow> leaf_of ms' cur"
    and d: "delete_message_from_history h i = Some (Inr (gone ?ms i, \<lparr>hi_messages = ms', hi_current = cur\<rparr>))"
    using delete_run [OF t m] by (elim exE conjE)
  have "\<exists>m1. dget ms' k = Some m1 \<and>
          vget m1 ''parentId'' = vget (if k \<in> grandchildren ?ms i then m else m0) ''parentId'' \<and>
          (\<forall>f. f \<noteq> ''parentId'' \<and> f \<noteq> ''childrenIds'' \<longrightarrow> vget m1 f = vget m0 f)"
    if "dget ?ms k = Some m0 \<and> k \<notin> gone ?ms i" for k m0
    using that w by (auto simp: pruned_def moved_def grandchild_list_set [OF t])
  with d t' pruned_keys [OF w] c show ?thesis
    by (intro exI [of _ "\<lparr>hi_messages = ms', hi_current = cur\<rparr>"]) simp
qed
definition sample_tree :: messages where
  "sample_tree =
     [(''a'', [(''parentId'', VNone), (''childrenIds'', VList [VStr ''b''])]),
      (''b'', [(''parentId'', VStr ''a''), (''childrenIds'', VList [VStr ''c''])]),
      (''c'', [(''parentId'', VStr ''b''), (''childrenIds'', VList [VStr ''d''])]),
      (''d'', [(''parentId'', VStr ''c''), (''childrenIds'', VList [])])]"

lemma sample_parents:
  "parent_field sample_tree k =
     (if k = ''a'' then Some VNone else if k = ''b'' then Some (VStr ''a'')
      else if k = ''c'' then Some (VStr ''b'') else if k = ''d'' then Some (VStr ''c'') else None)"
  by (simp add: parent_field_def sample_tree_def)

lemma sample_is_tree: "tree_history sample_tree"
  unfolding tree_history_def sample_parents
proof (intro conjI allI impI)
  fix k m assume "dget sample_tree k = Some m"
  then show "\<exists>cs. vget m ''childrenIds'' = VList (map VStr cs) \<and> distinct cs \<and>
      (\<forall>c. c \<in> set cs \<longleftrightarrow> (if c = ''a'' then Some VNone else if c = ''b'' then Some (VStr ''a'')
        else if c = ''c'' then Some (VStr ''b'') else if c = ''d'' then Some (VStr ''c'') else None) = Some (VStr k))"
    by (intro exI [of _ "if k = ''a'' then [''b''] else if k = ''b'' then [''c''] else if k = ''c'' then [''d''] else []"])
      (auto simp: sample_tree_def split: if_splits)
next
  show "\<exists>rank :: string \<Rightarrow> nat. \<forall>c p. (if c = ''a'' then Some VNone else if c = ''b'' then Some (VStr ''a'')
      else if c = ''c'' then Some (VStr ''b'') else if c = ''d'' then Some (VStr ''c'') else None) = Some (VStr p)
      \<longrightarrow> rank p < rank c"
    by (intro exI [of _ "\<lambda>k. if k = ''a'' then 0 else if k = ''b'' then 1 else if k = ''c'' then 2 else 3"])
      (auto split: if_splits)
qed (auto simp: sample_tree_def split: if_splits)

theorem delete_message_keeps_tree_witness:
  "\<exists>h'. delete_message_from_history \<lparr>hi_messages = sample_tree, hi_current = VStr ''d''\<rparr> ''b'' =
      Some (Inr ({''b'', ''c''}, h')) \<and> fst ` set (hi_messages h') = {''a'', ''d''}"
proof -
  have g: "gone sample_tree ''b'' = {''b'', ''c''}" by (auto simp: gone_def sample_parents split: if_splits)
  have m: "dget (hi_messages \<lparr>hi_messages = sample_tree, hi_current = VStr ''d''\<rparr>) ''b'' =
      Some [(''parentId'', VStr ''a''), (''childrenIds'', VList [VStr ''c''])]" by (simp add: sample_tree_def)
  have "tree_history (hi_messages \<lparr>hi_messages = sample_tree, hi_current = VStr ''d''\<rparr>)"
    using sample_is_tree by simp
  from delete_message_keeps_tree [OF this m] obtain h' where
    h: "delete_message_from_history \<lparr>hi_messages = sample_tree, hi_current = VStr ''d''\<rparr> ''b'' =
        Some (Inr ({''b'', ''c''}, h'))" "fst ` set (hi_messages h') = fst ` set sample_tree - {''b'', ''c''}"
    unfolding history.simps g by (elim exE conjE)
  then show ?thesis by (intro exI [of _ h']) (auto simp: sample_tree_def)
qed
section \<open>Repairing the current message\<close>

definition is_leaf_message :: "dict \<Rightarrow> bool" where
  "is_leaf_message m \<longleftrightarrow> truthy (vget m ''role'') \<and> (\<forall>xs. vget m ''childrenIds'' = VList xs \<longrightarrow> xs = [])"

lemma is_leaf_message_code [code]:
  "is_leaf_message m \<longleftrightarrow> truthy (vget m ''role'') \<and> (case vget m ''childrenIds'' of VList xs \<Rightarrow> xs = [] | _ \<Rightarrow> True)"
  by (simp add: is_leaf_message_def split: pyval.split)

fun latest_leaf :: "dict \<Rightarrow> string option \<Rightarrow> int \<Rightarrow> string option result" where
  "latest_leaf [] best latest = Inr best"
| "latest_leaf ((k, VDict m) # rest) best latest =
     (if is_leaf_message m
      then rbind (py_number (py_or (vget m ''timestamp'') (VInt 0))) (\<lambda>n.
             if latest < n then latest_leaf rest (Some k) n else latest_leaf rest best latest)
      else latest_leaf rest best latest)"
| "latest_leaf (_ # rest) best latest = latest_leaf rest best latest"

text \<open>\<open>current_message\<close>: \<open>messages.get(current_id)\<close> where it is a dictionary.\<close>

definition current_message :: "dict \<Rightarrow> pyval \<Rightarrow> dict option result" where
  "current_message ms current =
     (case current of
        VStr s \<Rightarrow> Inr (case dget ms s of Some (VDict m) \<Rightarrow> Some m | _ \<Rightarrow> None)
      | _ \<Rightarrow> if hashable current then Inr None else Inl TypeError)"

definition keeps_current :: "dict \<Rightarrow> dict option \<Rightarrow> bool result" where
  "keeps_current ms current =
     (case current of None \<Rightarrow> Inr False
      | Some m \<Rightarrow>
          rbind (py_iter (py_or (vget m ''output'') (VList []))) (\<lambda>output.
          let bad_leaf = (output_role output = VStr ''assistant'' \<and> vget m ''parentId'' = VNone
                \<and> \<not> truthy (vget m ''timestamp'') \<and> 1 < length ms)
          in Inr (truthy (vget m ''id'') \<and> truthy (vget m ''role'') \<and> \<not> bad_leaf)))"

text \<open>\<open>_repair_chat_current_id\<close> on the messages and the current id of a chat's history: the new current id,
  \<open>None\<close> where nothing changes.\<close>

definition repair_chat_current_id :: "dict \<Rightarrow> pyval \<Rightarrow> string option result" where
  "repair_chat_current_id ms current =
     rbind (current_message ms current) (\<lambda>m.
     rbind (keeps_current ms m) (\<lambda>keep.
       if keep then Inr None
       else rbind (latest_leaf ms None (- 1)) (\<lambda>best.
         Inr (case best of Some k \<Rightarrow> if k = [] \<or> VStr k = current then None else Some k | None \<Rightarrow> None))))"

text \<open>The leaves that take part, with their times.\<close>

definition timed_leaves :: "dict \<Rightarrow> (string \<times> int) set" where
  "timed_leaves ms = {(k, n). \<exists>m. (k, VDict m) \<in> set ms \<and> is_leaf_message m \<and>
     py_number (py_or (vget m ''timestamp'') (VInt 0)) = Inr n}"

lemma timed_leaves_simps [simp]:
  "timed_leaves [] = {}"
  "timed_leaves ((k, VDict m) # rest) =
     {(k, n) | n. is_leaf_message m \<and> py_number (py_or (vget m ''timestamp'') (VInt 0)) = Inr n} \<union> timed_leaves rest"
  by (auto simp: timed_leaves_def)

lemma timed_leaves_other: "\<not> is_dict v \<Longrightarrow> timed_leaves ((k, v) # rest) = timed_leaves rest"
  by (auto simp: timed_leaves_def)

lemma latest_leaf_best:
  "latest_leaf ms best latest = Inr r \<Longrightarrow>
    \<exists>t. latest \<le> t \<and> (\<forall>(k, n) \<in> timed_leaves ms. n \<le> t) \<and>
      (t = latest \<and> r = best \<or> latest < t \<and> (\<exists>k. r = Some k \<and> (k, t) \<in> timed_leaves ms))"
proof (induction ms best latest arbitrary: r rule: latest_leaf.induct)
  case (2 k m rest best latest)
  show ?case
  proof (cases "is_leaf_message m")
    case False
    with 2 show ?thesis by simp
  next
    case True
    with "2.prems" obtain n where n: "py_number (py_or (vget m ''timestamp'') (VInt 0)) = Inr n"
      "(if latest < n then latest_leaf rest (Some k) n else latest_leaf rest best latest) = Inr r"
      by (auto simp: rbind_Inr_iff)
    have l: "timed_leaves ((k, VDict m) # rest) = insert (k, n) (timed_leaves rest)"
      using True n(1) by auto
    show ?thesis
    proof (cases "latest < n")
      case less: True
      with n have "latest_leaf rest (Some k) n = Inr r" by simp
      from "2.IH"(1) [OF True less this] obtain t where "n \<le> t" "\<forall>(k, n) \<in> timed_leaves rest. n \<le> t"
        "t = n \<and> r = Some k \<or> n < t \<and> (\<exists>k. r = Some k \<and> (k, t) \<in> timed_leaves rest)" by blast
      with less show ?thesis unfolding l by (intro exI [of _ t]) auto
    next
      case le: False
      with n have "latest_leaf rest best latest = Inr r" by simp
      from "2.IH"(2) [OF True le this] obtain t where "latest \<le> t" "\<forall>(k, n) \<in> timed_leaves rest. n \<le> t"
        "t = latest \<and> r = best \<or> latest < t \<and> (\<exists>k. r = Some k \<and> (k, t) \<in> timed_leaves rest)" by blast
      with le show ?thesis unfolding l by (intro exI [of _ t]) auto
    qed
  qed
qed (auto simp: timed_leaves_other)

text \<open>A repair changes the current message only to a message that has a role and no children, with a
  timestamp no other such message exceeds, and a second repair changes nothing.\<close>

theorem repair_picks_latest_leaf:
  assumes "repair_chat_current_id ms current = Inr (Some k)"
  shows "(\<exists>t. (k, t) \<in> timed_leaves ms \<and> 0 \<le> t \<and> (\<forall>(k', t') \<in> timed_leaves ms. t' \<le> t)) \<and> VStr k \<noteq> current \<and>
    (\<forall>r. repair_chat_current_id ms (VStr k) = Inr r \<longrightarrow> r = None)"
proof -
  from assms obtain best where l: "latest_leaf ms None (- 1) = Inr best" and b: "best = Some k" "VStr k \<noteq> current"
    by (auto simp: repair_chat_current_id_def rbind_Inr_iff split: if_splits option.splits)
  from latest_leaf_best [OF l] b obtain t where
    t: "- 1 < t" "(k, t) \<in> timed_leaves ms" "\<forall>(k', t') \<in> timed_leaves ms. t' \<le> t" by auto
  have "repair_chat_current_id ms (VStr k) = Inr r \<Longrightarrow> r = None" for r
    using l b by (auto simp: repair_chat_current_id_def rbind_Inr_iff split: if_splits)
  with t b show ?thesis by (intro conjI exI [of _ t]) auto
qed

theorem repair_picks_latest_leaf_witness:
  "repair_chat_current_id
     [(''a'', VDict [(''role'', VStr ''user''), (''timestamp'', VInt 5)]),
      (''b'', VDict [(''role'', VStr ''assistant''), (''timestamp'', VInt 7)])] VNone = Inr (Some ''b'') \<and>
   repair_chat_current_id
     [(''a'', VDict [(''role'', VStr ''user''), (''timestamp'', VInt 5)]),
      (''b'', VDict [(''role'', VStr ''assistant''), (''timestamp'', VInt 7)])] (VStr ''b'') = Inr None"
proof -
  have r: "repair_chat_current_id
     [(''a'', VDict [(''role'', VStr ''user''), (''timestamp'', VInt 5)]),
      (''b'', VDict [(''role'', VStr ''assistant''), (''timestamp'', VInt 7)])] VNone = Inr (Some ''b'')"
    by code_simp
  have "isl (repair_chat_current_id
     [(''a'', VDict [(''role'', VStr ''user''), (''timestamp'', VInt 5)]),
      (''b'', VDict [(''role'', VStr ''assistant''), (''timestamp'', VInt 7)])] (VStr ''b'')) = False"
    by code_simp
  with r repair_picks_latest_leaf [OF r] show ?thesis
    by (cases "repair_chat_current_id
     [(''a'', VDict [(''role'', VStr ''user''), (''timestamp'', VInt 5)]),
      (''b'', VDict [(''role'', VStr ''assistant''), (''timestamp'', VInt 7)])] (VStr ''b'')") auto
qed

text \<open>An answer that is written with its parent's id is not added to the parent's children, so deleting
  the question keeps the answer: it names a parent that is gone, and the chat has no current message.\<close>

theorem answer_left_without_parent:
  assumes "i \<noteq> p" and "p \<noteq> []" and "vget m ''parentId'' = VNone" and "vget m ''childrenIds'' = VList []"
    and "vget msg ''parentId'' = VStr p" and "vget msg ''output'' = VNone"
  shows "\<exists>saved h1 h2.
    upsert_message_to_history now \<lparr>hi_messages = [(p, m)], hi_current = VStr p\<rparr> i msg = Inr (saved, h1) \<and>
    delete_message_from_history h1 p = Some (Inr ({p}, h2)) \<and>
    hi_messages h2 = [(i, saved)] \<and> vget saved ''parentId'' = VStr p \<and>
    get_unresolved_parent_ids (hi_messages h2) = Inr [p] \<and> hi_current h2 = VNone"
proof -
  define saved where "saved = foldl (\<lambda>d kv. dset d (fst kv) (snd kv)) msg
      [(''id'', py_or (vget msg ''id'') (VStr i)), (''parentId'', VStr p),
       (''childrenIds'', if is_list (vget msg ''childrenIds'') then vget msg ''childrenIds'' else VList []),
       (''role'', new_role (Some m) (py_or (vget msg ''role'') VNone)),
       (''timestamp'', py_or (vget msg ''timestamp'') (VInt now))]"
  have out: "py_iter (py_or VNone (VList [])) = Inr []" "output_role [] = VNone"
    by (simp_all add: py_or_def output_role_def)
  have up: "upsert_message_to_history now \<lparr>hi_messages = [(p, m)], hi_current = VStr p\<rparr> i msg =
      Inr (saved, \<lparr>hi_messages = [(p, m), (i, saved)], hi_current = VStr i\<rparr>)"
    unfolding upsert_message_to_history_def saved_def using assms out by (simp add: Let_def)
  have par: "vget saved ''parentId'' = VStr p" by (simp add: saved_def)
  have "known_ids [(p, m), (i, saved)] (VList []) = Inr []" by (simp add: known_ids_def py_or_def)
  then have del: "delete_message_from_history \<lparr>hi_messages = [(p, m), (i, saved)], hi_current = VStr i\<rparr> p =
      Some (Inr ({p}, \<lparr>hi_messages = [(i, saved)], hi_current = VNone\<rparr>))"
    using assms par unfolding delete_message_from_history_def
    by (simp add: Let_def relink_def) (subst descend.simps, simp)
  have "get_unresolved_parent_ids [(i, saved)] = Inr [p]"
    using par assms by (simp add: get_unresolved_parent_ids_def Let_def)
  with up del par show ?thesis by auto
qed

theorem answer_left_without_parent_witness:
  "\<exists>saved h1 h2.
    upsert_message_to_history 9 \<lparr>hi_messages = [(''q'', [(''role'', VStr ''user''), (''childrenIds'', VList [])])],
       hi_current = VStr ''q''\<rparr> ''a'' [(''parentId'', VStr ''q'')] = Inr (saved, h1) \<and>
    delete_message_from_history h1 ''q'' = Some (Inr ({''q''}, h2)) \<and> hi_messages h2 = [(''a'', saved)]"
  using answer_left_without_parent [of "''a''" "''q''" "[(''role'', VStr ''user''), (''childrenIds'', VList [])]"
    "[(''parentId'', VStr ''q'')]" 9] by auto

end
