(* ===== verification/RateLimit.thy ===== *)
theory RateLimit
  imports Prelude
begin

text \<open>
  The rate limiter of \<open>backend/open_webui/utils/rate_limit.py\<close>: events are counted per key in buckets
  of \<open>bucket_size\<close> seconds, in Redis or, without it or when it fails, in a dictionary of the process.
  The clock is an argument. The three Redis commands are arguments too, each of which may raise; the
  abstract limiter below keeps the log of all events instead of counters.
\<close>

record limiter =
  rl_limit :: int
  rl_window :: int
  rl_bucket_size :: int
  rl_enabled :: bool

type_synonym rate_store = "(string, (int, int) pydict) pydict"

record 'r counter_ops =
  r_incr :: "string \<Rightarrow> 'r \<Rightarrow> int result \<times> 'r"
  r_expire :: "string \<Rightarrow> int \<Rightarrow> 'r \<Rightarrow> unit result \<times> 'r"
  r_mget :: "string list \<Rightarrow> 'r \<Rightarrow> int option list result \<times> 'r"

definition num_buckets :: "limiter \<Rightarrow> int" where
  "num_buckets l = rl_window l div rl_bucket_size l"

definition current_bucket :: "limiter \<Rightarrow> int \<Rightarrow> int" where
  "current_bucket l now = now div rl_bucket_size l"

text \<open>\<open>_bucket_key\<close>; \<open>show\<close> renders the number of the bucket.\<close>

definition bucket_key :: "string \<Rightarrow> (int \<Rightarrow> string) \<Rightarrow> string \<Rightarrow> int \<Rightarrow> string" where
  "bucket_key pfx show key i = pfx @ '':ratelimit:'' @ py_lower key @ '':'' @ show i"

section \<open>The counters of the process\<close>

definition drop_expired :: "int \<Rightarrow> (int, int) pydict \<Rightarrow> (int, int) pydict" where
  "drop_expired min_bucket store = filter (\<lambda>kv. \<not> fst kv < min_bucket) store"

definition is_limited_memory :: "limiter \<Rightarrow> int \<Rightarrow> string \<Rightarrow> rate_store \<Rightarrow> bool \<times> rate_store" where
  "is_limited_memory l now key mem =
     (let now_bucket = current_bucket l now;
          store = dget_or mem key [];
          store1 = dset store now_bucket (dget_or store now_bucket 0 + 1);
          store2 = drop_expired (now_bucket - num_buckets l) store1
      in (rl_limit l < sum_list (dvalues store2), dset mem key store2))"

definition get_count_memory :: "limiter \<Rightarrow> int \<Rightarrow> string \<Rightarrow> rate_store \<Rightarrow> int \<times> rate_store" where
  "get_count_memory l now key mem =
     (case dget mem key of
        None \<Rightarrow> (0, mem)
      | Some store \<Rightarrow>
          let store1 = drop_expired (current_bucket l now - num_buckets l) store
          in (sum_list (dvalues store1), dset mem key store1))"

section \<open>The counters in Redis\<close>

definition recent_keys :: "string \<Rightarrow> (int \<Rightarrow> string) \<Rightarrow> limiter \<Rightarrow> int \<Rightarrow> string \<Rightarrow> string list" where
  "recent_keys pfx show l now key =
     map (\<lambda>i. bucket_key pfx show key (current_bucket l now - i)) [0..num_buckets l]"

definition total_of :: "int option list \<Rightarrow> int" where
  "total_of counts = sum_list (map (\<lambda>c. case c of None \<Rightarrow> 0 | Some n \<Rightarrow> n) counts)"

definition get_count_redis ::
  "'r counter_ops \<Rightarrow> string \<Rightarrow> (int \<Rightarrow> string) \<Rightarrow> limiter \<Rightarrow> int \<Rightarrow> string \<Rightarrow> 'r \<Rightarrow> int result \<times> 'r" where
  "get_count_redis ops pfx show l now key r =
     (case r_mget ops (recent_keys pfx show l now key) r of
        (Inl e, r') \<Rightarrow> (Inl e, r') | (Inr counts, r') \<Rightarrow> (Inr (total_of counts), r'))"

definition is_limited_redis ::
  "'r counter_ops \<Rightarrow> string \<Rightarrow> (int \<Rightarrow> string) \<Rightarrow> limiter \<Rightarrow> int \<Rightarrow> string \<Rightarrow> 'r \<Rightarrow> bool result \<times> 'r" where
  "is_limited_redis ops pfx show l now key r =
     (let k = bucket_key pfx show key (current_bucket l now)
      in case r_incr ops k r of
           (Inl e, r1) \<Rightarrow> (Inl e, r1)
         | (Inr attempts, r1) \<Rightarrow>
             (case (if attempts = 1 then r_expire ops k (rl_window l + rl_bucket_size l) r1 else (Inr (), r1)) of
                (Inl e, r2) \<Rightarrow> (Inl e, r2)
              | (Inr _, r2) \<Rightarrow>
                  (case get_count_redis ops pfx show l now key r2 of
                     (Inl e, r3) \<Rightarrow> (Inl e, r3) | (Inr count, r3) \<Rightarrow> (Inr (rl_limit l < count), r3))))"

section \<open>The limiter\<close>

text \<open>\<open>redis\<close> is \<open>None\<close> where there is no client; the state is that of Redis and of the process.\<close>

definition is_limited ::
  "'r counter_ops option \<Rightarrow> string \<Rightarrow> (int \<Rightarrow> string) \<Rightarrow> limiter \<Rightarrow> int \<Rightarrow> string \<Rightarrow> 'r \<times> rate_store
     \<Rightarrow> bool \<times> 'r \<times> rate_store" where
  "is_limited redis pfx show l now key s =
     (if \<not> rl_enabled l then (False, s)
      else case redis of
             None \<Rightarrow> let (b, mem) = is_limited_memory l now key (snd s) in (b, fst s, mem)
           | Some ops \<Rightarrow>
               (case is_limited_redis ops pfx show l now key (fst s) of
                  (Inr b, r') \<Rightarrow> (b, r', snd s)
                | (Inl e, r') \<Rightarrow> let (b, mem) = is_limited_memory l now key (snd s) in (b, r', mem)))"

definition get_count ::
  "'r counter_ops option \<Rightarrow> string \<Rightarrow> (int \<Rightarrow> string) \<Rightarrow> limiter \<Rightarrow> int \<Rightarrow> string \<Rightarrow> 'r \<times> rate_store
     \<Rightarrow> int \<times> 'r \<times> rate_store" where
  "get_count redis pfx show l now key s =
     (if \<not> rl_enabled l then (0, s)
      else case redis of
             None \<Rightarrow> let (n, mem) = get_count_memory l now key (snd s) in (n, fst s, mem)
           | Some ops \<Rightarrow>
               (case get_count_redis ops pfx show l now key (fst s) of
                  (Inr n, r') \<Rightarrow> (n, r', snd s)
                | (Inl e, r') \<Rightarrow> let (n, mem) = get_count_memory l now key (snd s) in (n, r', mem)))"

definition remaining ::
  "'r counter_ops option \<Rightarrow> string \<Rightarrow> (int \<Rightarrow> string) \<Rightarrow> limiter \<Rightarrow> int \<Rightarrow> string \<Rightarrow> 'r \<times> rate_store
     \<Rightarrow> int \<times> 'r \<times> rate_store" where
  "remaining redis pfx show l now key s =
     (let (used, s') = get_count redis pfx show l now key s in (max 0 (rl_limit l - used), s'))"

section \<open>The log of events\<close>

text \<open>What the counters stand for: the events so far, the buckets that still count, and the answers of a
  limiter that looks at them.\<close>

type_synonym event_log = "(string \<times> int) list"

definition counted :: "limiter \<Rightarrow> int \<Rightarrow> string \<Rightarrow> event_log \<Rightarrow> event_log" where
  "counted l now key log =
     filter (\<lambda>(k, t). k = key \<and> current_bucket l now - num_buckets l \<le> current_bucket l t) log"

definition in_bucket :: "limiter \<Rightarrow> string \<Rightarrow> int \<Rightarrow> event_log \<Rightarrow> nat" where
  "in_bucket l key b log = length (filter (\<lambda>(k, t). k = key \<and> current_bucket l t = b) log)"

text \<open>The counters stand for a log up to the time \<open>now\<close>: per key the buckets are distinct, hold the
  number of events in them, and are those events of the log, except for old ones.\<close>

definition stands_for :: "limiter \<Rightarrow> int \<Rightarrow> rate_store \<Rightarrow> event_log \<Rightarrow> bool" where
  "stands_for l now mem log \<longleftrightarrow>
     (\<forall>key. wf_dict (dget_or mem key []) \<and>
        (\<forall>b n. dget (dget_or mem key []) b = Some n \<longrightarrow> n = int (in_bucket l key b log) \<and> b \<le> current_bucket l now) \<and>
        (\<forall>b. dget (dget_or mem key []) b = None \<and> current_bucket l now - num_buckets l \<le> b
           \<longrightarrow> in_bucket l key b log = 0)) \<and>
     (\<forall>(k, t) \<in> set log. t \<le> now)"

text \<open>The answers of both to a list of events.\<close>

fun memory_run :: "limiter \<Rightarrow> (string \<times> int) list \<Rightarrow> rate_store \<Rightarrow> bool list \<times> rate_store" where
  "memory_run l [] mem = ([], mem)"
| "memory_run l ((key, now) # es) mem =
     (let (b, mem1) = is_limited_memory l now key mem; (bs, mem2) = memory_run l es mem1 in (b # bs, mem2))"

fun log_run :: "limiter \<Rightarrow> (string \<times> int) list \<Rightarrow> event_log \<Rightarrow> bool list" where
  "log_run l [] log = []"
| "log_run l ((key, now) # es) log =
     (let log1 = log @ [(key, now)] in (rl_limit l < int (length (counted l now key log1))) # log_run l es log1)"
section \<open>The counters count the log\<close>

lemma in_bucket_snoc:
  "in_bucket l key b (log @ [(k, t)]) = in_bucket l key b log + (if k = key \<and> current_bucket l t = b then 1 else 0)"
  by (simp add: in_bucket_def)

lemma sum_buckets:
  "finite B \<Longrightarrow> (\<Sum>b \<in> B. int (in_bucket l key b log)) =
     int (length (filter (\<lambda>(k, t). k = key \<and> current_bucket l t \<in> B) log))"
proof (induction log)
  case Nil
  then show ?case by (simp add: in_bucket_def)
next
  case (Cons e log)
  obtain k t where e: "e = (k, t)" by (cases e)
  have "in_bucket l key b (e # log) = in_bucket l key b log + (if k = key \<and> current_bucket l t = b then 1 else 0)" for b
    by (simp add: in_bucket_def e)
  moreover have "{x. c = x \<and> x \<in> B} = (if c \<in> B then {c} else {})" for c by auto
  ultimately show ?case using Cons by (simp add: e sum.distrib if_distrib [of int] sum.If_cases Int_def cong: if_cong) auto
qed

lemma bucket_mono: "0 < rl_bucket_size l \<Longrightarrow> s \<le> t \<Longrightarrow> current_bucket l s \<le> current_bucket l t"
  by (simp add: current_bucket_def zdiv_mono1)

lemma sum_dvalues: "wf_dict d \<Longrightarrow> sum_list (dvalues d) = (\<Sum>b \<in> fst ` set d. the (dget d b))"
proof (induction d)
  case (Cons kv d)
  obtain k v where kv: "kv = (k, v)" by (cases kv)
  have "(\<Sum>b \<in> fst ` set d. the (dget ((k, v) # d) b)) = (\<Sum>b \<in> fst ` set d. the (dget d b))"
    using Cons.prems kv by (intro sum.cong) auto
  with Cons kv show ?case by simp
qed simp

lemma dget_drop_expired: "dget (drop_expired m d) b = (if b < m then None else dget d b)"
  unfolding drop_expired_def by (induction d) auto

lemma wf_drop_expired: "wf_dict d \<Longrightarrow> wf_dict (drop_expired m d)"
  by (simp add: drop_expired_def wf_dict_def distinct_map_filter_key)

text \<open>One bucket dictionary whose entries are those of the log, from \<open>m\<close> to the current bucket.\<close>

lemma total_counted:
  assumes "wf_dict d" and b: "0 < rl_bucket_size l"
    and d: "\<And>b n. dget d b = Some n \<Longrightarrow> n = int (in_bucket l key b log) \<and> m \<le> b \<and> b \<le> current_bucket l now"
    and z: "\<And>b. dget d b = None \<Longrightarrow> m \<le> b \<Longrightarrow> in_bucket l key b log = 0"
    and m: "m = current_bucket l now - num_buckets l" and t: "\<forall>(k, t) \<in> set log. t \<le> now"
  shows "sum_list (dvalues d) = int (length (counted l now key log))"
proof -
  let ?r = "{m..current_bucket l now}"
  have sub: "fst ` set d \<subseteq> ?r"
  proof
    fix b assume "b \<in> fst ` set d"
    then obtain n where "dget d b = Some n" by (cases "dget d b") (auto simp: dget_None_iff)
    from d [OF this] show "b \<in> ?r" by simp
  qed
  have "sum_list (dvalues d) = (\<Sum>b \<in> fst ` set d. int (in_bucket l key b log))"
    unfolding sum_dvalues [OF assms(1)]
  proof (rule sum.cong [OF refl])
    fix b assume "b \<in> fst ` set d"
    then obtain n where "dget d b = Some n" by (cases "dget d b") (auto simp: dget_None_iff)
    with d [OF this] show "the (dget d b) = int (in_bucket l key b log)" by simp
  qed
  also have "\<dots> = (\<Sum>b \<in> ?r. int (in_bucket l key b log))"
    by (rule sum.mono_neutral_left [OF _ sub]) (auto intro!: z simp: dget_None_iff [symmetric])
  also have "\<dots> = int (length (filter (\<lambda>(k, t). k = key \<and> current_bucket l t \<in> ?r) log))"
    by (rule sum_buckets) simp
  also have "filter (\<lambda>(k, t). k = key \<and> current_bucket l t \<in> ?r) log = counted l now key log"
    unfolding counted_def m by (rule filter_cong [OF refl]) (use t bucket_mono [OF b] in auto)
  finally show ?thesis .
qed
lemma is_limited_memory_step:
  assumes st: "stands_for l now mem log" and le: "now \<le> now'" and bs: "0 < rl_bucket_size l" and w: "0 \<le> rl_window l"
  shows "fst (is_limited_memory l now' key mem) =
      (rl_limit l < int (length (counted l now' key (log @ [(key, now')])))) \<and>
    stands_for l now' (snd (is_limited_memory l now' key mem)) (log @ [(key, now')])"
proof -
  let ?nb = "current_bucket l now'" and ?m = "current_bucket l now' - num_buckets l"
  let ?log = "log @ [(key, now')]"
  define d where "d = dget_or mem key []"
  define d1 where "d1 = dset d ?nb (dget_or d ?nb 0 + 1)"
  define d2 where "d2 = drop_expired ?m d1"
  have n: "0 \<le> num_buckets l" using bs w by (simp add: num_buckets_def pos_imp_zdiv_nonneg_iff)
  have nb: "current_bucket l now \<le> ?nb" by (rule bucket_mono [OF bs le])
  have wf: "wf_dict d" and old: "\<And>b n. dget d b = Some n \<Longrightarrow> n = int (in_bucket l key b log) \<and> b \<le> current_bucket l now"
    and none: "\<And>b. dget d b = None \<Longrightarrow> current_bucket l now - num_buckets l \<le> b \<Longrightarrow> in_bucket l key b log = 0"
    and times: "\<forall>(k, t) \<in> set log. t \<le> now"
    using st unfolding stands_for_def d_def by auto
  have new: "dget_or d ?nb 0 = int (in_bucket l key ?nb log)"
  proof (cases "dget d ?nb")
    case None
    with none [OF None] nb n show ?thesis by (simp add: dget_or_def)
  qed (use old in \<open>simp add: dget_or_def\<close>)
  have d2: "dget d2 b = (if b < ?m then None else if b = ?nb then Some (int (in_bucket l key b ?log)) else dget d b)" for b
    unfolding d2_def d1_def dget_drop_expired by (simp add: new in_bucket_snoc)
  have same: "in_bucket l k b ?log = in_bucket l k b log" if "k \<noteq> key \<or> b \<noteq> ?nb" for k b
    using that by (auto simp: in_bucket_snoc)
  have some2: "n = int (in_bucket l key b ?log) \<and> ?m \<le> b \<and> b \<le> ?nb" if "dget d2 b = Some n" for b n
    using that old [of b n] nb n same [of key b] by (auto simp: d2 split: if_splits)
  have none2: "in_bucket l key b ?log = 0" if "dget d2 b = None" "?m \<le> b" for b
    using that none [of b] nb same [of key b] by (auto simp: d2 split: if_splits)
  have wf2: "wf_dict d2" unfolding d2_def d1_def using wf by (intro wf_drop_expired) simp
  have t2: "\<forall>(k, t) \<in> set ?log. t \<le> now'" using times le by fastforce
  have run: "is_limited_memory l now' key mem = (rl_limit l < sum_list (dvalues d2), dset mem key d2)"
    by (simp add: is_limited_memory_def Let_def d_def d1_def d2_def)
  have "stands_for l now' (dset mem key d2) ?log" unfolding stands_for_def
  proof (intro conjI allI)
    fix k
    show "wf_dict (dget_or (dset mem key d2) k [])" using wf2 st by (simp add: dget_or_def stands_for_def)
  next
    fix k b n
    show "dget (dget_or (dset mem key d2) k []) b = Some n \<longrightarrow> n = int (in_bucket l k b ?log) \<and> b \<le> ?nb"
    proof (cases "k = key")
      case True
      with some2 [of b n] show ?thesis by (simp add: dget_or_def)
    next
      case False
      have "dget (dget_or mem k []) b = Some n \<longrightarrow> n = int (in_bucket l k b log) \<and> b \<le> current_bucket l now"
        using st unfolding stands_for_def by blast
      with False nb same [of k b] show ?thesis by (auto simp: dget_or_def)
    qed
  next
    fix k b
    show "dget (dget_or (dset mem key d2) k []) b = None \<and> ?nb - num_buckets l \<le> b \<longrightarrow> in_bucket l k b ?log = 0"
    proof (cases "k = key")
      case True
      with none2 [of b] show ?thesis by (simp add: dget_or_def)
    next
      case False
      have "dget (dget_or mem k []) b = None \<and> current_bucket l now - num_buckets l \<le> b \<longrightarrow> in_bucket l k b log = 0"
        using st unfolding stands_for_def by blast
      with False nb same [of k b] show ?thesis by (auto simp: dget_or_def)
    qed
  qed (rule t2)
  with total_counted [OF wf2 bs some2 none2 refl t2] run show ?thesis by simp
qed

lemma stands_for_empty: "stands_for l now [] []"
  by (simp add: stands_for_def dget_or_def in_bucket_def)

lemma memory_run_counts:
  "stands_for l now mem log \<Longrightarrow> sorted (map snd es) \<Longrightarrow> \<forall>(k, t) \<in> set es. now \<le> t \<Longrightarrow>
    0 < rl_bucket_size l \<Longrightarrow> 0 \<le> rl_window l \<Longrightarrow> fst (memory_run l es mem) = log_run l es log"
proof (induction es arbitrary: now mem log)
  case (Cons e es)
  obtain key t where e: "e = (key, t)" by (cases e)
  have le: "now \<le> t" using Cons.prems(3) e by simp
  note s = is_limited_memory_step [OF Cons.prems(1) le Cons.prems(4,5), of key]
  have "fst (memory_run l es (snd (is_limited_memory l t key mem))) = log_run l es (log @ [(key, t)])"
    by (rule Cons.IH [OF conjunct2 [OF s]]) (use Cons.prems e in auto)
  with s e show ?case by (simp add: split_beta Let_def)
qed simp

text \<open>C17. The counters of the process answer as if every event was remembered: for events in the order of
  their times, each answer says whether the events with the key in the current bucket and the
  \<open>window / bucket_size\<close> buckets before it, this one included, are more than the limit.\<close>

theorem memory_limiter_refines_log:
  assumes "0 < rl_bucket_size l" and "0 \<le> rl_window l" and "sorted (map snd es)"
  shows "fst (memory_run l es []) = log_run l es []"
proof (cases es)
  case (Cons e es')
  show ?thesis
    by (rule memory_run_counts [OF stands_for_empty [of l "snd e"]]) (use assms Cons in auto)
qed simp

theorem memory_limiter_refines_log_witness:
  "fst (memory_run \<lparr>rl_limit = 1, rl_window = 120, rl_bucket_size = 60, rl_enabled = True\<rparr>
     [(''a'', 10), (''b'', 20), (''a'', 130), (''a'', 200)] []) = [False, False, True, True]"
  using memory_limiter_refines_log [of "\<lparr>rl_limit = 1, rl_window = 120, rl_bucket_size = 60, rl_enabled = True\<rparr>"
      "[(''a'', 10), (''b'', 20), (''a'', 130), (''a'', 200)]"]
  by (simp add: counted_def current_bucket_def num_buckets_def)

text \<open>An event is counted if it is at most \<open>num_buckets * bucket_size\<close> seconds old and not once it is a
  bucket older than that; a key never has more than \<open>num_buckets + 1\<close> counters.\<close>

theorem limiter_window_bounds:
  assumes bs: "0 < rl_bucket_size l" and w: "0 \<le> rl_window l" and st: "stands_for l now mem log" and le: "now \<le> now'"
  shows "(\<forall>t. (key, t) \<in> set log \<longrightarrow>
       (now' - num_buckets l * rl_bucket_size l \<le> t \<longrightarrow> (key, t) \<in> set (counted l now' key log)) \<and>
       (t \<le> now' - (num_buckets l + 1) * rl_bucket_size l \<longrightarrow> (key, t) \<notin> set (counted l now' key log))) \<and>
    int (length (dget_or (snd (is_limited_memory l now' key mem)) key [])) \<le> num_buckets l + 1"
proof -
  have shift: "(now' - n * rl_bucket_size l) div rl_bucket_size l = current_bucket l now' - n" for n
    using div_mult_self1 [of "rl_bucket_size l" now' "- n"] bs by (simp add: current_bucket_def algebra_simps)
  have young: "current_bucket l now' - num_buckets l \<le> current_bucket l t"
    if "now' - num_buckets l * rl_bucket_size l \<le> t" for t
    using zdiv_mono1 [OF that bs] unfolding shift by (simp add: current_bucket_def)
  have old: "current_bucket l t < current_bucket l now' - num_buckets l"
    if "t \<le> now' - (num_buckets l + 1) * rl_bucket_size l" for t
    using zdiv_mono1 [OF that bs] unfolding shift by (simp add: current_bucket_def)
  let ?d = "dget_or (snd (is_limited_memory l now' key mem)) key []"
  from is_limited_memory_step [OF st le bs w, of key] have wf: "wf_dict ?d"
    and up: "\<And>b n. dget ?d b = Some n \<Longrightarrow> b \<le> current_bucket l now'" unfolding stands_for_def by blast+
  have "dget ?d b = None" if "b < current_bucket l now' - num_buckets l" for b
    using that by (simp add: is_limited_memory_def Let_def dget_or_def dget_drop_expired)
  with up have "fst ` set ?d \<subseteq> {current_bucket l now' - num_buckets l..current_bucket l now'}"
    by (metis (no_types, lifting) atLeastAtMost_iff dget_None_iff linorder_not_less option.exhaust subsetI)
  then have "card (fst ` set ?d) \<le> card {current_bucket l now' - num_buckets l..current_bucket l now'}"
    by (intro card_mono) simp_all
  moreover have "card (fst ` set ?d) = length ?d" using distinct_card [of "dkeys ?d"] wf by (simp add: wf_dict_def)
  moreover have "0 \<le> num_buckets l" using bs w by (simp add: num_buckets_def pos_imp_zdiv_nonneg_iff)
  ultimately have "int (length ?d) \<le> num_buckets l + 1" by simp
  with young old show ?thesis by (auto simp: counted_def not_le)
qed

theorem limiter_window_bounds_witness:
  "int (length (dget_or (snd (is_limited_memory \<lparr>rl_limit = 1, rl_window = 120, rl_bucket_size = 60, rl_enabled = True\<rparr>
     700 ''a'' [])) ''a'' [])) \<le> 3"
  using limiter_window_bounds [of "\<lparr>rl_limit = 1, rl_window = 120, rl_bucket_size = 60, rl_enabled = True\<rparr>"
      700 "[]" "[]" 700 "''a''"] stands_for_empty
  by (simp add: num_buckets_def)

section \<open>Nobody is limited for ever\<close>

lemma log_run_nth:
  "i < length es \<Longrightarrow> log_run l es log ! i =
     (rl_limit l < int (length (counted l (snd (es ! i)) (fst (es ! i)) (log @ take (Suc i) es))))"
proof (induction es arbitrary: i log)
  case (Cons e es)
  then show ?case by (cases e; cases i) (auto simp: Let_def)
qed simp

lemma old_bucket:
  assumes "0 < rl_bucket_size l" "t + (num_buckets l + 1) * rl_bucket_size l \<le> now"
  shows "current_bucket l t < current_bucket l now - num_buckets l"
proof -
  have "(now - (num_buckets l + 1) * rl_bucket_size l) div rl_bucket_size l = current_bucket l now - (num_buckets l + 1)"
    using div_mult_self1 [of "rl_bucket_size l" now "- (num_buckets l + 1)"] assms(1) by (simp add: current_bucket_def algebra_simps)
  moreover have "t div rl_bucket_size l \<le> (now - (num_buckets l + 1) * rl_bucket_size l) div rl_bucket_size l"
    using assms by (intro zdiv_mono1) auto
  ultimately show ?thesis by (simp add: current_bucket_def)
qed

lemma length_counted: "length (counted l now key log) \<le> length (filter (\<lambda>e. fst e = key) log)"
  unfolding counted_def by (induction log) auto

text \<open>C33. Whatever happened before and whatever other keys do, a key that has been quiet for \<open>num_buckets + 1\<close> buckets is accepted
  again: of the events from then on none of the first \<open>limit\<close> with the key is refused.\<close>
theorem quiet_key_accepted:
  assumes "0 < rl_bucket_size l" "0 \<le> rl_window l" "sorted (map snd (es @ fs))"
    and quiet: "\<forall>t t'. (key, t) \<in> set es \<and> (key, t') \<in> set fs \<longrightarrow> t + (num_buckets l + 1) * rl_bucket_size l \<le> t'"
    and few: "int (length (filter (\<lambda>e. fst e = key) fs)) \<le> rl_limit l"
    and i: "i < length fs" "fst (fs ! i) = key"
  shows "\<not> fst (memory_run l (es @ fs) []) ! (length es + i)"
proof -
  define now where "now = Min (insert 0 (snd ` set (es @ fs)))"
  have now: "\<forall>(k, t) \<in> set (es @ fs). now \<le> t"
  proof clarify
    fix k t assume "(k, t) \<in> set (es @ fs)"
    then have "t \<in> insert 0 (snd ` set (es @ fs))" by force
    then show "now \<le> t" unfolding now_def by (intro Min_le) simp_all
  qed
  let ?t = "snd (fs ! i)"
  have t: "(key, ?t) \<in> set fs" using i by (metis nth_mem prod.collapse)
  have "counted l ?t key (es @ take (Suc i) fs) = counted l ?t key (take (Suc i) fs)"
    using quiet t old_bucket [OF assms(1)] by (fastforce simp: counted_def filter_empty_conv)
  also have "length \<dots> \<le> length (filter (\<lambda>e. fst e = key) (take (Suc i) fs))"
    by (rule length_counted)
  also have "\<dots> \<le> length (filter (\<lambda>e. fst e = key) fs)"
    using filter_append [of "\<lambda>e. fst e = key" "take (Suc i) fs" "drop (Suc i) fs"] by (metis append_take_drop_id le_add1 length_append)
  finally have "\<not> log_run l (es @ fs) [] ! (length es + i)"
    using few i by (subst log_run_nth) (auto simp: nth_append)
  then show ?thesis using memory_run_counts [OF stands_for_empty assms(3) now assms(1, 2)] by simp
qed

theorem quiet_key_accepted_witness:
  "\<not> fst (memory_run \<lparr>rl_limit = 1, rl_window = 120, rl_bucket_size = 60, rl_enabled = True\<rparr>
     ([(''a'', 10), (''a'', 20), (''a'', 30)] @ [(''b'', 200), (''a'', 215)]) []) ! (3 + 1)"
proof -
  have three: "(3::nat) = length [(''a'', 10), (''a'', 20), (''a'', 30::int)]" by simp
  show ?thesis unfolding three by (rule quiet_key_accepted [where key = "''a''"]) (auto simp: num_buckets_def)
qed

end
