(* ===== verification/Redis.thy ===== *)
theory Redis
  imports Prelude
begin

text \<open>
  The Redis commands the server calls, as arguments of the models that use them: one function per command
  on an abstract state. The locale states what the commands are documented to do to the three kinds of
  value the server keeps, hashes, sets and lists; a key without a value is an empty one. The concrete store at the end
  satisfies it and lets the examples compute.
\<close>

record 'r redis_ops =
  hset :: "string \<Rightarrow> string \<Rightarrow> string \<Rightarrow> 'r \<Rightarrow> 'r"
  hdel :: "string \<Rightarrow> string list \<Rightarrow> 'r \<Rightarrow> nat \<times> 'r"
  hget :: "string \<Rightarrow> string \<Rightarrow> 'r \<Rightarrow> string option"
  hexists :: "string \<Rightarrow> string \<Rightarrow> 'r \<Rightarrow> bool"
  hlen :: "string \<Rightarrow> 'r \<Rightarrow> nat"
  hkeys :: "string \<Rightarrow> 'r \<Rightarrow> string list"
  hvals :: "string \<Rightarrow> 'r \<Rightarrow> string list"
  hgetall :: "string \<Rightarrow> 'r \<Rightarrow> (string, string) pydict"
  sadd :: "string \<Rightarrow> string \<Rightarrow> 'r \<Rightarrow> 'r"
  srem :: "string \<Rightarrow> string \<Rightarrow> 'r \<Rightarrow> 'r"
  smembers :: "string \<Rightarrow> 'r \<Rightarrow> string list"
  rpush :: "string \<Rightarrow> string list \<Rightarrow> 'r \<Rightarrow> 'r"
  llen :: "string \<Rightarrow> 'r \<Rightarrow> nat"
  lrange :: "string \<Rightarrow> 'r \<Rightarrow> string list"
  scard :: "string \<Rightarrow> 'r \<Rightarrow> nat"
  exists_key :: "string \<Rightarrow> 'r \<Rightarrow> bool"
  del_key :: "string \<Rightarrow> 'r \<Rightarrow> 'r"

locale redis =
  fixes ops :: "'r redis_ops"
    and hash :: "'r \<Rightarrow> string \<Rightarrow> string \<Rightarrow> string option"
    and members :: "'r \<Rightarrow> string \<Rightarrow> string set"
    and items :: "'r \<Rightarrow> string \<Rightarrow> string list"
  assumes hash_hset: "hash (hset ops k f v r) = (hash r)(k := (hash r k)(f \<mapsto> v))"
    and members_hset: "members (hset ops k f v r) = members r"
    and items_hset: "items (hset ops k f v r) = items r"
    and fst_hdel: "fst (hdel ops k fs r) = card (set fs \<inter> dom (hash r k))"
    and hash_hdel: "hash (snd (hdel ops k fs r)) = (hash r)(k := (hash r k) |` (- set fs))"
    and members_hdel: "members (snd (hdel ops k fs r)) = members r"
    and items_hdel: "items (snd (hdel ops k fs r)) = items r"
    and hget_hash: "hget ops k f r = hash r k f"
    and hexists_hash: "hexists ops k f r \<longleftrightarrow> hash r k f \<noteq> None"
    and hlen_hgetall: "hlen ops k r = length (hgetall ops k r)"
    and hkeys_hgetall: "hkeys ops k r = map fst (hgetall ops k r)"
    and hvals_hgetall: "hvals ops k r = map snd (hgetall ops k r)"
    and map_hgetall: "map_of (hgetall ops k r) = hash r k"
    and distinct_hgetall: "distinct (map fst (hgetall ops k r))"
    and hash_sadd: "hash (sadd ops k x r) = hash r"
    and members_sadd: "members (sadd ops k x r) = (members r)(k := insert x (members r k))"
    and items_sadd: "items (sadd ops k x r) = items r"
    and hash_srem: "hash (srem ops k x r) = hash r"
    and members_srem: "members (srem ops k x r) = (members r)(k := members r k - {x})"
    and items_srem: "items (srem ops k x r) = items r"
    and set_smembers: "set (smembers ops k r) = members r k"
    and distinct_smembers: "distinct (smembers ops k r)"
    and hash_rpush: "hash (rpush ops k xs r) = hash r"
    and members_rpush: "members (rpush ops k xs r) = members r"
    and items_rpush: "items (rpush ops k xs r) = (items r)(k := items r k @ xs)"
    and llen_items: "llen ops k r = length (items r k)"
    and lrange_items: "lrange ops k r = items r k"
    and scard_members: "scard ops k r = card (members r k)"
    and exists_key_iff: "exists_key ops k r \<longleftrightarrow> hash r k \<noteq> Map.empty \<or> members r k \<noteq> {} \<or> items r k \<noteq> []"
    and hash_del: "hash (del_key ops k r) = (hash r)(k := Map.empty)"
    and members_del: "members (del_key ops k r) = (members r)(k := {})"
    and items_del: "items (del_key ops k r) = (items r)(k := [])"
begin

lemmas hash_facts = hash_hset hash_hdel hash_sadd hash_srem hash_rpush hash_del

lemmas member_facts = members_hset members_hdel members_sadd members_srem members_rpush members_del

lemmas item_facts = items_hset items_hdel items_sadd items_srem items_rpush items_del

end

section \<open>A store in memory\<close>

record redis_store =
  rs_hashes :: "(string, (string, string) pydict) pydict"
  rs_sets :: "(string, string list) pydict"
  rs_lists :: "(string, string list) pydict"

definition at_key :: "(string, 'a list) pydict \<Rightarrow> string \<Rightarrow> 'a list" where
  "at_key d k = dget_or d k []"

lemma at_key_dset [simp]: "at_key (dset d k v) k' = (if k' = k then v else at_key d k')"
  by (simp add: at_key_def dget_or_def)

lemma at_key_dpop [simp]: "at_key (dpop d k) k' = (if k' = k then [] else at_key d k')"
  by (simp add: at_key_def dget_or_def)

definition memory_redis :: "redis_store redis_ops" where
  "memory_redis = \<lparr>
     hset = (\<lambda>k f v r. r\<lparr>rs_hashes := dset (rs_hashes r) k (dset (at_key (rs_hashes r) k) f v)\<rparr>),
     hdel = (\<lambda>k fs r. (card (set fs \<inter> fst ` set (at_key (rs_hashes r) k)),
       r\<lparr>rs_hashes := dset (rs_hashes r) k (filter (\<lambda>kv. fst kv \<notin> set fs) (at_key (rs_hashes r) k))\<rparr>)),
     hget = (\<lambda>k f r. map_of (at_key (rs_hashes r) k) f),
     hexists = (\<lambda>k f r. f \<in> fst ` set (at_key (rs_hashes r) k)),
     hlen = (\<lambda>k r. length (AList.clearjunk (at_key (rs_hashes r) k))),
     hkeys = (\<lambda>k r. map fst (AList.clearjunk (at_key (rs_hashes r) k))),
     hvals = (\<lambda>k r. map snd (AList.clearjunk (at_key (rs_hashes r) k))),
     hgetall = (\<lambda>k r. AList.clearjunk (at_key (rs_hashes r) k)),
     sadd = (\<lambda>k x r. r\<lparr>rs_sets := dset (rs_sets r) k (List.insert x (at_key (rs_sets r) k))\<rparr>),
     srem = (\<lambda>k x r. r\<lparr>rs_sets := dset (rs_sets r) k (removeAll x (at_key (rs_sets r) k))\<rparr>),
     smembers = (\<lambda>k r. remdups (at_key (rs_sets r) k)),
     rpush = (\<lambda>k xs r. r\<lparr>rs_lists := dset (rs_lists r) k (at_key (rs_lists r) k @ xs)\<rparr>),
     llen = (\<lambda>k r. length (at_key (rs_lists r) k)),
     lrange = (\<lambda>k r. at_key (rs_lists r) k),
     scard = (\<lambda>k r. length (remdups (at_key (rs_sets r) k))),
     exists_key = (\<lambda>k r. at_key (rs_hashes r) k \<noteq> [] \<or> at_key (rs_sets r) k \<noteq> [] \<or> at_key (rs_lists r) k \<noteq> []),
     del_key = (\<lambda>k r. r\<lparr>rs_hashes := dpop (rs_hashes r) k, rs_sets := dpop (rs_sets r) k, rs_lists := dpop (rs_lists r) k\<rparr>)\<rparr>"

definition memory_hash :: "redis_store \<Rightarrow> string \<Rightarrow> string \<Rightarrow> string option" where
  "memory_hash r k = map_of (at_key (rs_hashes r) k)"

definition memory_members :: "redis_store \<Rightarrow> string \<Rightarrow> string set" where
  "memory_members r k = set (at_key (rs_sets r) k)"

definition memory_items :: "redis_store \<Rightarrow> string \<Rightarrow> string list" where
  "memory_items r k = at_key (rs_lists r) k"

lemma map_of_filter_out: "map_of (filter (\<lambda>kv. fst kv \<notin> D) d) = map_of d |` (- D)"
proof
  fix k
  show "map_of (filter (\<lambda>kv. fst kv \<notin> D) d) k = (map_of d |` (- D)) k"
    by (induction d) (auto simp: restrict_map_def)
qed

interpretation mr: redis memory_redis memory_hash memory_members memory_items
proof unfold_locales
  fix k fs r
  show "fst (hdel memory_redis k fs r) = card (set fs \<inter> dom (memory_hash r k))"
    by (simp add: memory_redis_def memory_hash_def dom_map_of_conv_image_fst)
next
  fix k f r
  show "hexists memory_redis k f r \<longleftrightarrow> memory_hash r k f \<noteq> None"
    by (auto simp: memory_redis_def memory_hash_def dget_None_iff)
next
  fix k r
  have "map_of d = Map.empty \<longleftrightarrow> d = []" for d :: "(string, string) pydict" by (cases d) auto
  then show "exists_key memory_redis k r \<longleftrightarrow>
      memory_hash r k \<noteq> Map.empty \<or> memory_members r k \<noteq> {} \<or> memory_items r k \<noteq> []"
    by (simp add: memory_redis_def memory_hash_def memory_members_def memory_items_def)
qed (auto simp: memory_redis_def memory_hash_def memory_members_def memory_items_def fun_eq_iff map_of_filter_out
    map_of_clearjunk update_conv length_remdups_card_conv)

end
