(* ===== verification/SocketState.thy ===== *)
theory SocketState
  imports Redis
begin

text \<open>
  The shared state of the websocket server, \<open>backend/open_webui/socket/utils.py\<close>: the dictionary kept
  in a Redis hash and the manager of collaborative documents, which keeps the updates and the users of a
  document in Redis or in the process. The JSON codec, the digest and the merge of document updates (a
  third-party library) are arguments.
\<close>

section \<open>A dictionary in Redis\<close>

record redis_dict =
  rd_name :: string
  rd_last_signature :: "string option"

definition rdict_setitem :: "'r redis_ops \<Rightarrow> ('v \<Rightarrow> string) \<Rightarrow> redis_dict \<Rightarrow> string \<Rightarrow> 'v \<Rightarrow> 'r \<Rightarrow> 'r" where
  "rdict_setitem ops dumps d k v r = hset ops (rd_name d) k (dumps v) r"

definition rdict_getitem :: "'r redis_ops \<Rightarrow> (string \<Rightarrow> 'v) \<Rightarrow> redis_dict \<Rightarrow> string \<Rightarrow> 'r \<Rightarrow> 'v result" where
  "rdict_getitem ops loads d k r =
     (case hget ops (rd_name d) k r of None \<Rightarrow> Inl KeyError | Some s \<Rightarrow> Inr (loads s))"

definition rdict_delitem :: "'r redis_ops \<Rightarrow> redis_dict \<Rightarrow> string \<Rightarrow> 'r \<Rightarrow> unit result \<times> 'r" where
  "rdict_delitem ops d k r =
     (let (n, r') = hdel ops (rd_name d) [k] r in (if n = 0 then Inl KeyError else Inr (), r'))"

definition rdict_contains :: "'r redis_ops \<Rightarrow> redis_dict \<Rightarrow> string \<Rightarrow> 'r \<Rightarrow> bool" where
  "rdict_contains ops d k r = hexists ops (rd_name d) k r"

definition rdict_len :: "'r redis_ops \<Rightarrow> redis_dict \<Rightarrow> 'r \<Rightarrow> nat" where
  "rdict_len ops d r = hlen ops (rd_name d) r"

definition rdict_keys :: "'r redis_ops \<Rightarrow> redis_dict \<Rightarrow> 'r \<Rightarrow> string list" where
  "rdict_keys ops d r = hkeys ops (rd_name d) r"

definition rdict_values :: "'r redis_ops \<Rightarrow> (string \<Rightarrow> 'v) \<Rightarrow> redis_dict \<Rightarrow> 'r \<Rightarrow> 'v list" where
  "rdict_values ops loads d r = map loads (hvals ops (rd_name d) r)"

definition rdict_items :: "'r redis_ops \<Rightarrow> (string \<Rightarrow> 'v) \<Rightarrow> redis_dict \<Rightarrow> 'r \<Rightarrow> (string \<times> 'v) list" where
  "rdict_items ops loads d r = map (\<lambda>kv. (fst kv, loads (snd kv))) (hgetall ops (rd_name d) r)"

text \<open>The bytes whose digest is the signature of a mapping, its keys in order.\<close>

definition signed_text :: "(string, string) pydict \<Rightarrow> string" where
  "signed_text serialized =
     concat (map (\<lambda>k. k @ [CHR 0x00] @ the (dget serialized k) @ [CHR 0x00]) (sort (dkeys serialized)))"

definition write_fields :: "'r redis_ops \<Rightarrow> string \<Rightarrow> (string, string) pydict \<Rightarrow> 'r \<Rightarrow> 'r" where
  "write_fields ops name serialized r = foldl (\<lambda>r kv. hset ops name (fst kv) (snd kv) r) r serialized"

definition rdict_set ::
  "'r redis_ops \<Rightarrow> ('v \<Rightarrow> string) \<Rightarrow> (string \<Rightarrow> string) \<Rightarrow> (string, 'v) pydict \<Rightarrow> redis_dict \<Rightarrow> 'r \<Rightarrow> redis_dict \<times> 'r" where
  "rdict_set ops dumps digest mapping d r =
     (if mapping = [] then (d\<lparr>rd_last_signature := None\<rparr>, del_key ops (rd_name d) r)
      else let serialized = map (\<lambda>kv. (fst kv, dumps (snd kv))) mapping;
               signature = digest (signed_text serialized)
           in if rd_last_signature d = Some signature then (d, r)
              else let keys_to_remove = filter (\<lambda>k. k \<notin> set (dkeys mapping)) (hkeys ops (rd_name d) r);
                       r1 = write_fields ops (rd_name d) serialized r;
                       r2 = (if keys_to_remove \<noteq> [] then snd (hdel ops (rd_name d) keys_to_remove r1) else r1)
                   in (d\<lparr>rd_last_signature := Some signature\<rparr>, r2))"

definition rdict_get :: "'r redis_ops \<Rightarrow> (string \<Rightarrow> 'v) \<Rightarrow> redis_dict \<Rightarrow> string \<Rightarrow> 'v \<Rightarrow> 'r \<Rightarrow> 'v" where
  "rdict_get ops loads d k fallback r =
     (case rdict_getitem ops loads d k r of Inl e \<Rightarrow> fallback | Inr v \<Rightarrow> v)"

definition rdict_clear :: "'r redis_ops \<Rightarrow> redis_dict \<Rightarrow> 'r \<Rightarrow> redis_dict \<times> 'r" where
  "rdict_clear ops d r = (d\<lparr>rd_last_signature := None\<rparr>, del_key ops (rd_name d) r)"

definition rdict_update :: "'r redis_ops \<Rightarrow> ('v \<Rightarrow> string) \<Rightarrow> redis_dict \<Rightarrow> (string \<times> 'v) list \<Rightarrow> 'r \<Rightarrow> 'r" where
  "rdict_update ops dumps d other r = foldl (\<lambda>r kv. rdict_setitem ops dumps d (fst kv) (snd kv) r) r other"

definition rdict_setdefault ::
  "'r redis_ops \<Rightarrow> ('v \<Rightarrow> string) \<Rightarrow> (string \<Rightarrow> 'v) \<Rightarrow> redis_dict \<Rightarrow> string \<Rightarrow> 'v \<Rightarrow> 'r \<Rightarrow> 'v result \<times> 'r" where
  "rdict_setdefault ops dumps loads d k fallback r =
     (let r' = (if rdict_contains ops d k r then r else rdict_setitem ops dumps d k fallback r)
      in (rdict_getitem ops loads d k r', r'))"

section \<open>A written mapping is read back\<close>

context redis
begin

lemma hash_write_fields:
  "hash (write_fields ops n ss r) = (hash r)(n := hash r n ++ map_of (rev ss))"
  unfolding write_fields_def by (induction ss arbitrary: r rule: rev_induct) (auto simp: hash_hset)

lemma rdict_keys_hash: "set (rdict_keys ops d r) = {k. hash r (rd_name d) k \<noteq> None}"
  by (auto simp: rdict_keys_def hkeys_hgetall map_hgetall [symmetric] dget_None_iff)

lemma rdict_set_hash:
  assumes "mapping \<noteq> []" and "wf_dict mapping"
    and "rd_last_signature d \<noteq> Some (digest (signed_text (map (\<lambda>kv. (fst kv, dumps (snd kv))) mapping)))"
  shows "hash (snd (rdict_set ops dumps digest mapping d r)) (rd_name d) = map_option dumps \<circ> map_of mapping"
proof -
  let ?ss = "map (\<lambda>kv. (fst kv, dumps (snd kv))) mapping"
  let ?gone = "filter (\<lambda>k. k \<notin> set (dkeys mapping)) (hkeys ops (rd_name d) r)"
  have ss: "map_of (rev ?ss) = map_option dumps \<circ> map_of mapping"
    using assms(2) map_of_rev_wf [of ?ss] by (simp add: wf_dict_def comp_def dget_map_value fun_eq_iff)
  have old: "k \<in> set (hkeys ops (rd_name d) r) \<longleftrightarrow> hash r (rd_name d) k \<noteq> None" for k
    by (simp add: hkeys_hgetall map_hgetall [symmetric] dget_None_iff)
  have gone: "k \<in> set ?gone \<longleftrightarrow> map_of mapping k = None \<and> hash r (rd_name d) k \<noteq> None" for k
    using old [of k] by (auto simp: dget_None_iff)
  have "hash (snd (rdict_set ops dumps digest mapping d r)) (rd_name d) =
      (hash r (rd_name d) ++ (map_option dumps \<circ> map_of mapping)) |` (- set ?gone)"
  proof (cases "?gone = []")
    case True
    then have "snd (rdict_set ops dumps digest mapping d r) = write_fields ops (rd_name d) ?ss r"
      using assms by (simp add: rdict_set_def Let_def)
    then show ?thesis by (simp only: hash_write_fields ss True) (simp add: restrict_map_def fun_eq_iff)
  next
    case False
    then have "snd (rdict_set ops dumps digest mapping d r) =
        snd (hdel ops (rd_name d) ?gone (write_fields ops (rd_name d) ?ss r))"
      using assms by (simp add: rdict_set_def Let_def)
    then show ?thesis by (simp only: hash_hdel hash_write_fields ss fun_upd_same)
  qed
  also have "\<dots> = map_option dumps \<circ> map_of mapping"
  proof
    fix k
    show "((hash r (rd_name d) ++ (map_option dumps \<circ> map_of mapping)) |` (- set ?gone)) k =
        (map_option dumps \<circ> map_of mapping) k"
      using gone [of k] by (cases "map_of mapping k") (auto simp: restrict_map_def map_add_def split: option.splits)
  qed
  finally show ?thesis .
qed

end


text \<open>A mapping that is not the one this process wrote last replaces the content: afterwards the keys are
  those of the mapping and each reads the value it has there.\<close>

theorem rdict_set_exact:
  assumes laws: "redis ops hash members items" and codec: "\<And>v. loads (dumps v) = v"
    and m: "mapping \<noteq> []" "wf_dict mapping"
    and new: "rd_last_signature d \<noteq> Some (digest (signed_text (map (\<lambda>kv. (fst kv, dumps (snd kv))) mapping)))"
    and run: "rdict_set ops dumps digest mapping d r = (d', r')"
  shows "(\<forall>k. rdict_getitem ops loads d' k r' =
       (case dget mapping k of None \<Rightarrow> Inl KeyError | Some v \<Rightarrow> Inr v)) \<and>
    set (rdict_keys ops d' r') = fst ` set mapping"
proof -
  have h: "hash r' (rd_name d) = map_option dumps \<circ> map_of mapping"
    using redis.rdict_set_hash [OF laws m, where dumps = dumps and digest = digest, OF new, of r] run by simp
  have n: "rd_name d' = rd_name d" using run by (auto simp: rdict_set_def Let_def split: if_splits)
  have "rdict_getitem ops loads d' k r' = (case dget mapping k of None \<Rightarrow> Inl KeyError | Some v \<Rightarrow> Inr v)" for k
    by (simp add: rdict_getitem_def redis.hget_hash [OF laws] n h codec split: option.split)
  moreover have "set (rdict_keys ops d' r') = fst ` set mapping"
    using redis.rdict_keys_hash [OF laws, of d' r'] dom_map_of_conv_image_fst [of mapping]
    by (simp add: n h dom_def)
  ultimately show ?thesis by blast
qed

theorem rdict_set_exact_witness:
  "\<exists>d' r'. rdict_set memory_redis (\<lambda>v. v) (\<lambda>t. t) [(''m1'', ''x''), (''m2'', ''y'')]
       \<lparr>rd_name = ''models'', rd_last_signature = None\<rparr>
       \<lparr>rs_hashes = [(''models'', [(''old'', ''z'')])], rs_sets = [], rs_lists = []\<rparr> = (d', r') \<and>
     rdict_getitem memory_redis (\<lambda>v. v) d' ''m2'' r' = Inr ''y'' \<and>
     rdict_getitem memory_redis (\<lambda>v. v) d' ''old'' r' = Inl KeyError"
proof -
  obtain d' r' where run: "rdict_set memory_redis (\<lambda>v. v) (\<lambda>t. t) [(''m1'', ''x''), (''m2'', ''y'')]
       \<lparr>rd_name = ''models'', rd_last_signature = None\<rparr>
       \<lparr>rs_hashes = [(''models'', [(''old'', ''z'')])], rs_sets = [], rs_lists = []\<rparr> = (d', r')" by fastforce
  from rdict_set_exact [OF mr.redis_axioms _ _ _ _ run, of "\<lambda>v. v"] run show ?thesis by auto
qed

text \<open>The signature remembers what this process wrote last, not what the hash holds: when another process
  has written another mapping in between, writing the first mapping again is skipped and readers go on
  seeing the other one.\<close>

theorem rdict_set_skips_after_other_process:
  assumes laws: "redis ops hash members items" and codec: "\<And>v. loads (dumps v) = v"
    and m: "mapping \<noteq> []" and m2: "mapping2 \<noteq> []" "wf_dict mapping2" and name: "rd_name d2 = rd_name d"
    and new: "rd_last_signature d2 \<noteq> Some (digest (signed_text (map (\<lambda>kv. (fst kv, dumps (snd kv))) mapping2)))"
    and run: "rdict_set ops dumps digest mapping d r = (d', r1)" "rdict_set ops dumps digest mapping2 d2 r1 = (d2', r2)"
  shows "rdict_set ops dumps digest mapping d' r2 = (d', r2) \<and>
    (\<forall>k. rdict_getitem ops loads d' k r2 = (case dget mapping2 k of None \<Rightarrow> Inl KeyError | Some v \<Rightarrow> Inr v))"
proof -
  have "rd_last_signature d' = Some (digest (signed_text (map (\<lambda>kv. (fst kv, dumps (snd kv))) mapping)))"
    and n: "rd_name d' = rd_name d"
    using run(1) m by (auto simp: rdict_set_def Let_def split: if_splits)
  then have "rdict_set ops dumps digest mapping d' r2 = (d', r2)" using m by (simp add: rdict_set_def)
  moreover have "hash r2 (rd_name d) = map_option dumps \<circ> map_of mapping2"
    using redis.rdict_set_hash [OF laws m2, where dumps = dumps and digest = digest, OF new, of r1] run(2) name by simp
  then have "rdict_getitem ops loads d' k r2 = (case dget mapping2 k of None \<Rightarrow> Inl KeyError | Some v \<Rightarrow> Inr v)" for k
    by (simp add: rdict_getitem_def redis.hget_hash [OF laws] n codec split: option.split)
  ultimately show ?thesis by blast
qed

theorem rdict_set_skips_after_other_process_witness:
  "\<exists>d' r1 d2' r2. rdict_set memory_redis (\<lambda>v. v) (\<lambda>t. t) [(''m1'', ''x''), (''m2'', ''y'')]
       \<lparr>rd_name = ''models'', rd_last_signature = None\<rparr> \<lparr>rs_hashes = [], rs_sets = [], rs_lists = []\<rparr> = (d', r1) \<and>
     rdict_set memory_redis (\<lambda>v. v) (\<lambda>t. t) [(''m1'', ''x'')]
       \<lparr>rd_name = ''models'', rd_last_signature = None\<rparr> r1 = (d2', r2) \<and>
     rdict_set memory_redis (\<lambda>v. v) (\<lambda>t. t) [(''m1'', ''x''), (''m2'', ''y'')] d' r2 = (d', r2) \<and>
     rdict_getitem memory_redis (\<lambda>v. v) d' ''m2'' r2 = Inl KeyError"
proof -
  obtain d' r1 where run: "rdict_set memory_redis (\<lambda>v. v) (\<lambda>t. t) [(''m1'', ''x''), (''m2'', ''y'')]
       \<lparr>rd_name = ''models'', rd_last_signature = None\<rparr> \<lparr>rs_hashes = [], rs_sets = [], rs_lists = []\<rparr> = (d', r1)"
    by fastforce
  obtain d2' r2 where run2: "rdict_set memory_redis (\<lambda>v. v) (\<lambda>t. t) [(''m1'', ''x'')]
       \<lparr>rd_name = ''models'', rd_last_signature = None\<rparr> r1 = (d2', r2)" by fastforce
  from rdict_set_skips_after_other_process [OF mr.redis_axioms _ _ _ _ _ _ run run2, of "\<lambda>v. v"] run run2
  show ?thesis by auto
qed

end
