(* ===== verification/Documents.thy ===== *)
theory Documents
  imports Redis
begin

text \<open>
  The manager of collaborative documents, \<open>YdocManager\<close> of \<open>backend/open_webui/socket/utils.py\<close>: the
  updates and the users of each document, in Redis or in the dictionaries of the process. An update is a
  value of any type; its JSON form and the merge of updates into one (\<open>pycrdt\<close>) are arguments. Both
  versions are shown to do what the abstract documents at the end of the first part do.
\<close>

section \<open>Keys\<close>

text \<open>\<open>document_id.replace(':', '_')\<close>\<close>

definition norm_id :: "string \<Rightarrow> string" where
  "norm_id d = map (\<lambda>c. if c = CHR '':'' then CHR ''_'' else c) d"

definition updates_key :: "string \<Rightarrow> string \<Rightarrow> string" where
  "updates_key pfx d = pfx @ '':'' @ d @ '':updates''"

definition users_key :: "string \<Rightarrow> string \<Rightarrow> string" where
  "users_key pfx d = pfx @ '':'' @ d @ '':users''"

definition session_key :: "string \<Rightarrow> string \<Rightarrow> string" where
  "session_key pfx u = pfx @ '':session:'' @ u @ '':documents''"

definition compaction_threshold :: nat where
  "compaction_threshold = 500"

section \<open>In Redis\<close>

definition compact_updates_redis ::
  "'r redis_ops \<Rightarrow> string \<Rightarrow> ('u \<Rightarrow> string) \<Rightarrow> (string \<Rightarrow> 'u) \<Rightarrow> ('u list \<Rightarrow> 'u) \<Rightarrow> string \<Rightarrow> 'r \<Rightarrow> 'r" where
  "compact_updates_redis ops pfx dumps loads merge d r =
     (let k = updates_key pfx d; all_updates = lrange ops k r
      in if length all_updates \<le> 1 then r
         else let mid = length all_updates div 2;
                  snapshot = dumps (merge (map loads (take mid all_updates)))
              in rpush ops k (snapshot # drop mid all_updates) (del_key ops k r))"

definition append_to_updates_redis ::
  "'r redis_ops \<Rightarrow> string \<Rightarrow> ('u \<Rightarrow> string) \<Rightarrow> (string \<Rightarrow> 'u) \<Rightarrow> ('u list \<Rightarrow> 'u) \<Rightarrow> string \<Rightarrow> 'u \<Rightarrow> 'r \<Rightarrow> 'r" where
  "append_to_updates_redis ops pfx dumps loads merge document_id update r =
     (let d = norm_id document_id; k = updates_key pfx d; r1 = rpush ops k [dumps update] r
      in if compaction_threshold \<le> llen ops k r1 then compact_updates_redis ops pfx dumps loads merge d r1 else r1)"

definition get_updates_redis :: "'r redis_ops \<Rightarrow> string \<Rightarrow> (string \<Rightarrow> 'u) \<Rightarrow> string \<Rightarrow> 'r \<Rightarrow> 'u list" where
  "get_updates_redis ops pfx loads document_id r = map loads (lrange ops (updates_key pfx (norm_id document_id)) r)"

definition document_exists_redis :: "'r redis_ops \<Rightarrow> string \<Rightarrow> string \<Rightarrow> 'r \<Rightarrow> bool" where
  "document_exists_redis ops pfx document_id r = exists_key ops (updates_key pfx (norm_id document_id)) r"

definition get_users_redis :: "'r redis_ops \<Rightarrow> string \<Rightarrow> string \<Rightarrow> 'r \<Rightarrow> string list" where
  "get_users_redis ops pfx document_id r = smembers ops (users_key pfx (norm_id document_id)) r"

definition add_user_redis :: "'r redis_ops \<Rightarrow> string \<Rightarrow> string \<Rightarrow> string \<Rightarrow> 'r \<Rightarrow> 'r" where
  "add_user_redis ops pfx document_id user_id r =
     (let d = norm_id document_id
      in sadd ops (session_key pfx user_id) d (sadd ops (users_key pfx d) user_id r))"

definition remove_user_redis :: "'r redis_ops \<Rightarrow> string \<Rightarrow> string \<Rightarrow> string \<Rightarrow> 'r \<Rightarrow> 'r" where
  "remove_user_redis ops pfx document_id user_id r =
     (let d = norm_id document_id
      in srem ops (session_key pfx user_id) d (srem ops (users_key pfx d) user_id r))"

definition clear_document_redis :: "'r redis_ops \<Rightarrow> string \<Rightarrow> string \<Rightarrow> 'r \<Rightarrow> 'r" where
  "clear_document_redis ops pfx document_id r =
     (let d = norm_id document_id in del_key ops (users_key pfx d) (del_key ops (updates_key pfx d) r))"

fun leave_each_redis :: "'r redis_ops \<Rightarrow> string \<Rightarrow> string \<Rightarrow> string list \<Rightarrow> 'r \<Rightarrow> 'r" where
  "leave_each_redis ops pfx user_id [] r = r"
| "leave_each_redis ops pfx user_id (d # ds) r =
     (let r1 = srem ops (users_key pfx d) user_id r;
          r2 = (if get_users_redis ops pfx d r1 = [] then clear_document_redis ops pfx d r1 else r1)
      in leave_each_redis ops pfx user_id ds r2)"

definition remove_user_from_all_documents_redis :: "'r redis_ops \<Rightarrow> string \<Rightarrow> string \<Rightarrow> 'r \<Rightarrow> 'r" where
  "remove_user_from_all_documents_redis ops pfx user_id r =
     (let k = session_key pfx user_id
      in del_key ops k (leave_each_redis ops pfx user_id (smembers ops k r) r))"

section \<open>In the process\<close>

record 'u ydoc =
  yd_updates :: "(string, 'u list) pydict"
  yd_users :: "(string, string set) pydict"

definition compact_updates_memory :: "('u list \<Rightarrow> 'u) \<Rightarrow> string \<Rightarrow> 'u ydoc \<Rightarrow> 'u ydoc" where
  "compact_updates_memory merge d s =
     (let updates = dget_or (yd_updates s) d []
      in if length updates \<le> 1 then s
         else let mid = length updates div 2
              in s\<lparr>yd_updates := dset (yd_updates s) d (merge (take mid updates) # drop mid updates)\<rparr>)"

definition append_to_updates_memory :: "('u list \<Rightarrow> 'u) \<Rightarrow> string \<Rightarrow> 'u \<Rightarrow> 'u ydoc \<Rightarrow> 'u ydoc" where
  "append_to_updates_memory merge document_id update s =
     (let d = norm_id document_id;
          updates = dget_or (yd_updates s) d [] @ [update];
          s1 = s\<lparr>yd_updates := dset (yd_updates s) d updates\<rparr>
      in if compaction_threshold \<le> length updates then compact_updates_memory merge d s1 else s1)"

definition get_updates_memory :: "string \<Rightarrow> 'u ydoc \<Rightarrow> 'u list" where
  "get_updates_memory document_id s = dget_or (yd_updates s) (norm_id document_id) []"

definition document_exists_memory :: "string \<Rightarrow> 'u ydoc \<Rightarrow> bool" where
  "document_exists_memory document_id s \<longleftrightarrow> norm_id document_id \<in> fst ` set (yd_updates s)"

definition get_users_memory :: "string \<Rightarrow> 'u ydoc \<Rightarrow> string set" where
  "get_users_memory document_id s = dget_or (yd_users s) (norm_id document_id) {}"

definition add_user_memory :: "string \<Rightarrow> string \<Rightarrow> 'u ydoc \<Rightarrow> 'u ydoc" where
  "add_user_memory document_id user_id s =
     (let d = norm_id document_id
      in s\<lparr>yd_users := dset (yd_users s) d (insert user_id (dget_or (yd_users s) d {}))\<rparr>)"

definition remove_user_memory :: "string \<Rightarrow> string \<Rightarrow> 'u ydoc \<Rightarrow> 'u ydoc" where
  "remove_user_memory document_id user_id s =
     (let d = norm_id document_id
      in case dget (yd_users s) d of
           None \<Rightarrow> s
         | Some us \<Rightarrow> if user_id \<in> us then s\<lparr>yd_users := dset (yd_users s) d (us - {user_id})\<rparr> else s)"

definition clear_document_memory :: "string \<Rightarrow> 'u ydoc \<Rightarrow> 'u ydoc" where
  "clear_document_memory document_id s =
     (let d = norm_id document_id
      in s\<lparr>yd_updates := dpop (yd_updates s) d, yd_users := dpop (yd_users s) d\<rparr>)"

fun leave_each_memory :: "string \<Rightarrow> string list \<Rightarrow> 'u ydoc \<Rightarrow> 'u ydoc" where
  "leave_each_memory user_id [] s = s"
| "leave_each_memory user_id (d # ds) s =
     (let us = dget_or (yd_users s) d {}
      in leave_each_memory user_id ds
           (if user_id \<notin> us then s
            else if us - {user_id} = {} then clear_document_memory d (s\<lparr>yd_users := dpop (yd_users s) d\<rparr>)
            else s\<lparr>yd_users := dset (yd_users s) d (us - {user_id})\<rparr>))"

definition remove_user_from_all_documents_memory :: "string \<Rightarrow> 'u ydoc \<Rightarrow> 'u ydoc" where
  "remove_user_from_all_documents_memory user_id s = leave_each_memory user_id (dkeys (yd_users s)) s"

section \<open>What the socket handlers do\<close>

text \<open>The handlers join, leave, write and disconnect. Leaving ends with the check of \<open>yjs_document_leave\<close>
  that clears a document nobody has open.\<close>

datatype 'u doc_op =
    Join string string
  | Leave string string
  | Write string 'u
  | Disconnect string

definition leave_redis :: "'r redis_ops \<Rightarrow> string \<Rightarrow> string \<Rightarrow> string \<Rightarrow> 'r \<Rightarrow> 'r" where
  "leave_redis ops pfx d u r =
     (let r1 = remove_user_redis ops pfx d u r
      in if document_exists_redis ops pfx d r1 \<and> get_users_redis ops pfx d r1 = []
         then clear_document_redis ops pfx d r1 else r1)"

definition leave_memory :: "string \<Rightarrow> string \<Rightarrow> 'u ydoc \<Rightarrow> 'u ydoc" where
  "leave_memory d u s =
     (let s1 = remove_user_memory d u s
      in if document_exists_memory d s1 \<and> get_users_memory d s1 = {} then clear_document_memory d s1 else s1)"

fun step_redis ::
  "'r redis_ops \<Rightarrow> string \<Rightarrow> ('u \<Rightarrow> string) \<Rightarrow> (string \<Rightarrow> 'u) \<Rightarrow> ('u list \<Rightarrow> 'u) \<Rightarrow> 'u doc_op \<Rightarrow> 'r \<Rightarrow> 'r" where
  "step_redis ops pfx dumps loads merge (Join d u) r = add_user_redis ops pfx d u r"
| "step_redis ops pfx dumps loads merge (Leave d u) r = leave_redis ops pfx d u r"
| "step_redis ops pfx dumps loads merge (Write d x) r = append_to_updates_redis ops pfx dumps loads merge d x r"
| "step_redis ops pfx dumps loads merge (Disconnect u) r = remove_user_from_all_documents_redis ops pfx u r"

fun step_memory :: "('u list \<Rightarrow> 'u) \<Rightarrow> 'u doc_op \<Rightarrow> 'u ydoc \<Rightarrow> 'u ydoc" where
  "step_memory merge (Join d u) s = add_user_memory d u s"
| "step_memory merge (Leave d u) s = leave_memory d u s"
| "step_memory merge (Write d x) s = append_to_updates_memory merge d x s"
| "step_memory merge (Disconnect u) s = remove_user_from_all_documents_memory u s"

section \<open>Documents\<close>

text \<open>What both keep: who has a document open and its updates.\<close>

record 'u documents =
  doc_users :: "string \<Rightarrow> string set"
  doc_updates :: "string \<Rightarrow> 'u list"

definition compacted :: "('u list \<Rightarrow> 'u) \<Rightarrow> 'u list \<Rightarrow> 'u list" where
  "compacted merge us =
     (if compaction_threshold \<le> length us
      then merge (take (length us div 2) us) # drop (length us div 2) us else us)"

fun step_documents :: "('u list \<Rightarrow> 'u) \<Rightarrow> 'u doc_op \<Rightarrow> 'u documents \<Rightarrow> 'u documents" where
  "step_documents merge (Join d u) s =
     s\<lparr>doc_users := (doc_users s)(norm_id d := insert u (doc_users s (norm_id d)))\<rparr>"
| "step_documents merge (Leave d u) s =
     (let us = doc_users s (norm_id d) - {u}
      in s\<lparr>doc_users := (doc_users s)(norm_id d := us),
           doc_updates := (doc_updates s)(norm_id d := if us = {} then [] else doc_updates s (norm_id d))\<rparr>)"
| "step_documents merge (Write d x) s =
     s\<lparr>doc_updates := (doc_updates s)(norm_id d := compacted merge (doc_updates s (norm_id d) @ [x]))\<rparr>"
| "step_documents merge (Disconnect u) s =
     s\<lparr>doc_users := (\<lambda>d. doc_users s d - {u}),
       doc_updates := (\<lambda>d. if doc_users s d = {u} then [] else doc_updates s d)\<rparr>"
section \<open>Keys never meet\<close>

lemma key_inject [simp]:
  "users_key pfx d = users_key pfx d' \<longleftrightarrow> d = d'"
  "updates_key pfx d = updates_key pfx d' \<longleftrightarrow> d = d'"
  "session_key pfx u = session_key pfx u' \<longleftrightarrow> u = u'"
  by (simp_all add: users_key_def updates_key_def session_key_def)

lemma different_end: "rev s ! 1 \<noteq> rev t ! 1 \<Longrightarrow> s \<noteq> t"
  by auto

lemma key_differ [simp]:
  "users_key pfx d \<noteq> updates_key pfx d'" "updates_key pfx d' \<noteq> users_key pfx d"
  "users_key pfx d \<noteq> session_key pfx u" "session_key pfx u \<noteq> users_key pfx d"
  "updates_key pfx d \<noteq> session_key pfx u" "session_key pfx u \<noteq> updates_key pfx d"
  by (rule different_end, simp add: users_key_def updates_key_def session_key_def)+

lemma norm_norm_id [simp]: "norm_id (norm_id d) = norm_id d"
  by (simp add: norm_id_def)

section \<open>Both versions keep the documents\<close>

definition leave_one :: "string \<Rightarrow> 'u documents \<Rightarrow> string \<Rightarrow> 'u documents" where
  "leave_one u a d =
     a\<lparr>doc_users := (doc_users a)(d := doc_users a d - {u}),
       doc_updates := (doc_updates a)(d := if doc_users a d = {u} then [] else doc_updates a d)\<rparr>"

lemma leave_all:
  "doc_users (foldl (leave_one u) a ds) = (\<lambda>d. if d \<in> set ds then doc_users a d - {u} else doc_users a d) \<and>
   doc_updates (foldl (leave_one u) a ds) = (\<lambda>d. if d \<in> set ds \<and> doc_users a d = {u} then [] else doc_updates a d)"
  by (induction ds arbitrary: a) (auto simp: leave_one_def fun_eq_iff)

lemma leave_all_disconnect:
  assumes "\<And>d. u \<in> doc_users a d \<Longrightarrow> d \<in> set ds"
  shows "foldl (leave_one u) a ds = step_documents merge (Disconnect u) a"
proof -
  have "doc_users (foldl (leave_one u) a ds) = doc_users (step_documents merge (Disconnect u) a)"
    "doc_updates (foldl (leave_one u) a ds) = doc_updates (step_documents merge (Disconnect u) a)"
    using leave_all [of u a ds] assms by (auto simp: fun_eq_iff)
  then show ?thesis by simp
qed

definition memory_docs :: "'u ydoc \<Rightarrow> 'u documents \<Rightarrow> bool" where
  "memory_docs s a \<longleftrightarrow>
     (\<forall>d. dget_or (yd_users s) d {} = doc_users a d \<and> dget_or (yd_updates s) d [] = doc_updates a d) \<and>
     (\<forall>d. d \<in> fst ` set (yd_users s) \<longrightarrow> norm_id d = d) \<and>
     (\<forall>d. d \<in> fst ` set (yd_updates s) \<longrightarrow> norm_id d = d \<and> doc_updates a d \<noteq> [])"

lemma compacted_nonempty [simp]: "compacted merge us = [] \<longleftrightarrow> us = []"
  by (auto simp: compacted_def compaction_threshold_def)

lemma memory_docs_seen:
  assumes "memory_docs s a"
  shows "document_exists_memory d s \<longleftrightarrow> doc_updates a (norm_id d) \<noteq> []"
    and "get_users_memory d s = doc_users a (norm_id d)" and "get_updates_memory d s = doc_updates a (norm_id d)"
  using assms dget_or_absent [of "norm_id d" "yd_updates s" "[]"]
  by (auto simp: memory_docs_def document_exists_memory_def get_users_memory_def get_updates_memory_def)

lemma clear_memory_docs:
  "memory_docs s a \<Longrightarrow> memory_docs (clear_document_memory d s)
     (a\<lparr>doc_users := (doc_users a)(norm_id d := {}), doc_updates := (doc_updates a)(norm_id d := [])\<rparr>)"
  by (auto simp: memory_docs_def clear_document_memory_def Let_def)

lemma append_memory_docs:
  assumes "memory_docs s a"
  shows "memory_docs (append_to_updates_memory merge d x s) (step_documents merge (Write d x) a)"
proof -
  let ?us = "doc_updates a (norm_id d) @ [x]"
  have u: "dget_or (yd_updates s) (norm_id d) [] = doc_updates a (norm_id d)" using assms by (simp add: memory_docs_def)
  have "yd_updates (append_to_updates_memory merge d x s) =
      (if compaction_threshold \<le> length ?us then dset (dset (yd_updates s) (norm_id d) ?us) (norm_id d) (compacted merge ?us)
       else dset (yd_updates s) (norm_id d) ?us)"
    "yd_users (append_to_updates_memory merge d x s) = yd_users s"
    by (auto simp: append_to_updates_memory_def compact_updates_memory_def u Let_def compacted_def compaction_threshold_def)
  with assms show ?thesis by (auto simp: memory_docs_def compacted_def)
qed

lemma leave_each_memory_docs:
  "memory_docs s a \<Longrightarrow> (\<And>d. d \<in> set ds \<Longrightarrow> norm_id d = d) \<Longrightarrow>
    memory_docs (leave_each_memory u ds s) (foldl (leave_one u) a ds)"
proof (induction ds arbitrary: s a)
  case (Cons d ds)
  have us: "dget_or (yd_users s) d {} = doc_users a d" and n: "norm_id d = d"
    using Cons.prems by (simp_all add: memory_docs_def)
  let ?s = "if u \<notin> doc_users a d then s
            else if doc_users a d - {u} = {} then clear_document_memory d (s\<lparr>yd_users := dpop (yd_users s) d\<rparr>)
            else s\<lparr>yd_users := dset (yd_users s) d (doc_users a d - {u})\<rparr>"
  have "memory_docs ?s (leave_one u a d)"
    using Cons.prems(1) n by (auto simp: memory_docs_def leave_one_def clear_document_memory_def Let_def)
  from Cons.IH [OF this] Cons.prems(2) us show ?case by (simp add: Let_def)
qed simp

lemma remove_user_memory_docs:
  assumes "memory_docs s a"
  shows "memory_docs (remove_user_memory d u s)
    (a\<lparr>doc_users := (doc_users a)(norm_id d := doc_users a (norm_id d) - {u})\<rparr>)"
proof -
  have "dget_or (yd_users (remove_user_memory d u s)) k {} =
      (if k = norm_id d then dget_or (yd_users s) k {} - {u} else dget_or (yd_users s) k {})" for k
    by (cases "dget (yd_users s) (norm_id d)") (auto simp: remove_user_memory_def Let_def dget_or_def)
  moreover have "norm_id d \<in> fst ` set (yd_users s)" if "dget (yd_users s) (norm_id d) = Some us" for us
    using that by (force dest: dget_Some_in)
  then have "fst ` set (yd_users (remove_user_memory d u s)) = fst ` set (yd_users s)"
    by (auto simp: remove_user_memory_def Let_def split: option.split)
  moreover have "yd_updates (remove_user_memory d u s) = yd_updates s"
    by (simp add: remove_user_memory_def Let_def split: option.split)
  ultimately show ?thesis using assms by (simp add: memory_docs_def)
qed

lemma step_memory_docs:
  assumes "memory_docs s a"
  shows "memory_docs (step_memory merge op s) (step_documents merge op a)"
proof (cases op)
  case (Join d u)
  with assms show ?thesis by (auto simp: memory_docs_def add_user_memory_def Let_def)
next
  case (Leave d u)
  let ?us = "doc_users a (norm_id d) - {u}"
  let ?a = "a\<lparr>doc_users := (doc_users a)(norm_id d := ?us)\<rparr>"
  have r: "memory_docs (remove_user_memory d u s) ?a" by (rule remove_user_memory_docs [OF assms])
  have e: "document_exists_memory d (remove_user_memory d u s) \<longleftrightarrow> doc_updates a (norm_id d) \<noteq> []"
    "get_users_memory d (remove_user_memory d u s) = ?us"
    using memory_docs_seen [OF r, of d] by simp_all
  show ?thesis
  proof (cases "doc_updates a (norm_id d) \<noteq> [] \<and> ?us = {}")
    case True
    then have "step_documents merge op a =
        a\<lparr>doc_users := (doc_users a)(norm_id d := {}), doc_updates := (doc_updates a)(norm_id d := [])\<rparr>"
      unfolding Leave step_documents.simps Let_def by (simp only: simp_thms if_True)
    with True clear_memory_docs [OF r, of d] e Leave show ?thesis by (simp add: leave_memory_def)
  next
    case False
    then have "step_documents merge op a = ?a" using Leave by (auto simp: fun_eq_iff)
    with False e r Leave show ?thesis by (auto simp: leave_memory_def Let_def)
  qed
next
  case (Write d x)
  with append_memory_docs [OF assms] show ?thesis by simp
next
  case (Disconnect u)
  have "\<And>d. d \<in> set (dkeys (yd_users s)) \<Longrightarrow> norm_id d = d" using assms by (auto simp: memory_docs_def)
  from leave_each_memory_docs [OF assms this, where u = u]
  have "memory_docs (step_memory merge op s) (foldl (leave_one u) a (dkeys (yd_users s)))"
    using Disconnect by (auto simp: remove_user_from_all_documents_memory_def simp del: set_map)
  moreover have "d \<in> set (dkeys (yd_users s))" if "u \<in> doc_users a d" for d
    using assms that dget_or_absent [of d "yd_users s" "{}"] by (auto simp: memory_docs_def)
  ultimately show ?thesis using leave_all_disconnect [of u a "dkeys (yd_users s)" merge] Disconnect by simp
qed

text \<open>In Redis the index of a session's documents is the inverse of the documents' users; \<open>except\<close> are the
  sessions for which it is not kept while their documents are left one by one.\<close>

definition redis_docs ::
  "('r \<Rightarrow> string \<Rightarrow> string \<Rightarrow> string option) \<Rightarrow> ('r \<Rightarrow> string \<Rightarrow> string set) \<Rightarrow> ('r \<Rightarrow> string \<Rightarrow> string list)
     \<Rightarrow> string \<Rightarrow> ('u \<Rightarrow> string) \<Rightarrow> string set \<Rightarrow> 'r \<Rightarrow> 'u documents \<Rightarrow> bool" where
  "redis_docs hash members items pfx dumps except r a \<longleftrightarrow>
     (\<forall>d. norm_id d = d \<longrightarrow> members r (users_key pfx d) = doc_users a d
         \<and> items r (updates_key pfx d) = map dumps (doc_updates a d)
         \<and> hash r (updates_key pfx d) = Map.empty \<and> members r (updates_key pfx d) = {}) \<and>
     (\<forall>d. norm_id d \<noteq> d \<longrightarrow> doc_users a d = {} \<and> doc_updates a d = []) \<and>
     (\<forall>u. u \<notin> except \<longrightarrow> members r (session_key pfx u) = {d. u \<in> doc_users a d})"

context redis
begin

lemmas redis_simps = hash_facts member_facts item_facts

lemma redis_docs_seen:
  assumes "redis_docs hash members items pfx dumps ex r a" and "\<And>x. loads (dumps x) = x"
  shows "document_exists_redis ops pfx d r \<longleftrightarrow> doc_updates a (norm_id d) \<noteq> []"
    and "set (get_users_redis ops pfx d r) = doc_users a (norm_id d)"
    and "get_updates_redis ops pfx loads d r = doc_updates a (norm_id d)"
proof -
  have "members r (users_key pfx (norm_id d)) = doc_users a (norm_id d)
      \<and> items r (updates_key pfx (norm_id d)) = map dumps (doc_updates a (norm_id d))
      \<and> hash r (updates_key pfx (norm_id d)) = Map.empty \<and> members r (updates_key pfx (norm_id d)) = {}"
    using assms(1) by (simp add: redis_docs_def)
  then show "document_exists_redis ops pfx d r \<longleftrightarrow> doc_updates a (norm_id d) \<noteq> []"
    "set (get_users_redis ops pfx d r) = doc_users a (norm_id d)"
    "get_updates_redis ops pfx loads d r = doc_updates a (norm_id d)"
    using assms(2) by (simp_all add: document_exists_redis_def exists_key_iff get_users_redis_def set_smembers
        get_updates_redis_def lrange_items comp_def)
qed

lemma clear_redis_docs:
  assumes "redis_docs hash members items pfx dumps ex r a" and "doc_users a (norm_id d) = {}"
  shows "redis_docs hash members items pfx dumps ex (clear_document_redis ops pfx d r)
    (a\<lparr>doc_updates := (doc_updates a)(norm_id d := [])\<rparr>)"
  using assms by (auto simp: redis_docs_def clear_document_redis_def Let_def redis_simps)

lemma append_redis_docs:
  assumes "redis_docs hash members items pfx dumps {} r a" and c: "\<And>x. loads (dumps x) = x"
  shows "redis_docs hash members items pfx dumps {} (append_to_updates_redis ops pfx dumps loads merge d x r)
    (step_documents merge (Write d x) a)"
proof -
  let ?k = "updates_key pfx (norm_id d)" and ?us = "doc_updates a (norm_id d) @ [x]"
  let ?r = "append_to_updates_redis ops pfx dumps loads merge d x r"
  have u: "items r ?k = map dumps (doc_updates a (norm_id d))" and e: "members r ?k = {}" "hash r ?k = Map.empty"
    using assms(1) by (simp_all add: redis_docs_def)
  have l: "map (\<lambda>x. loads (dumps x)) us = us" for us using c by (simp add: map_idI)
  have "items ?r = (items r)(?k := map dumps (compacted merge ?us))"
    by (simp add: append_to_updates_redis_def compact_updates_redis_def Let_def llen_items lrange_items redis_simps u
        compacted_def compaction_threshold_def take_map drop_map comp_def l fun_eq_iff) auto
  moreover have "hash ?r = hash r" "members ?r = members r"
    using e by (auto simp: append_to_updates_redis_def compact_updates_redis_def Let_def redis_simps fun_eq_iff)
  ultimately show ?thesis using assms(1) by (auto simp: redis_docs_def)
qed

lemma leave_each_redis_docs:
  "redis_docs hash members items pfx dumps {u} r a \<Longrightarrow> (\<And>x. loads (dumps x) = x) \<Longrightarrow>
    (\<And>d. d \<in> set ds \<Longrightarrow> norm_id d = d \<and> u \<in> doc_users a d) \<Longrightarrow> distinct ds \<Longrightarrow>
    redis_docs hash members items pfx dumps {u} (leave_each_redis ops pfx u ds r) (foldl (leave_one u) a ds)"
proof (induction ds arbitrary: r a)
  case (Cons d ds)
  have n: "norm_id d = d" and in_d: "u \<in> doc_users a d" using Cons.prems(3) by simp_all
  let ?r1 = "srem ops (users_key pfx d) u r"
  let ?a1 = "a\<lparr>doc_users := (doc_users a)(d := doc_users a d - {u})\<rparr>"
  have r1: "redis_docs hash members items pfx dumps {u} ?r1 ?a1"
    using Cons.prems(1) n by (auto simp: redis_docs_def redis_simps)
  have g: "get_users_redis ops pfx d ?r1 = [] \<longleftrightarrow> doc_users a d = {u}"
  proof -
    have "set (get_users_redis ops pfx d ?r1) = doc_users a d - {u}"
      using redis_docs_seen(2) [OF r1 Cons.prems(2), of d] n by simp
    then show ?thesis using in_d by (metis Diff_eq_empty_iff Diff_idemp insert_absorb set_empty subset_singleton_iff insert_not_empty)
  qed
  let ?r2 = "if get_users_redis ops pfx d ?r1 = [] then clear_document_redis ops pfx d ?r1 else ?r1"
  have "redis_docs hash members items pfx dumps {u} ?r2 (leave_one u a d)"
  proof (cases "doc_users a d = {u}")
    case True
    with clear_redis_docs [OF r1, of d] g n show ?thesis by (simp add: leave_one_def)
  next
    case False
    with r1 g show ?thesis by (simp add: leave_one_def)
  qed
  then have "redis_docs hash members items pfx dumps {u} (leave_each_redis ops pfx u ds ?r2)
      (foldl (leave_one u) (leave_one u a d) ds)"
    by (rule Cons.IH [OF _ Cons.prems(2)]) (use Cons.prems in \<open>auto simp: leave_one_def\<close>)
  then show ?case by (simp add: Let_def)
qed simp

lemma step_redis_docs:
  assumes r: "redis_docs hash members items pfx dumps {} r a" and c: "\<And>x. loads (dumps x) = x"
  shows "redis_docs hash members items pfx dumps {} (step_redis ops pfx dumps loads merge op r) (step_documents merge op a)"
proof (cases op)
  case (Join d u)
  with r show ?thesis by (auto simp: redis_docs_def add_user_redis_def Let_def redis_simps)
next
  case (Leave d u)
  let ?us = "doc_users a (norm_id d) - {u}"
  let ?a = "a\<lparr>doc_users := (doc_users a)(norm_id d := ?us)\<rparr>" and ?r = "remove_user_redis ops pfx d u r"
  have r1: "redis_docs hash members items pfx dumps {} ?r ?a"
    using r by (auto simp: redis_docs_def remove_user_redis_def Let_def redis_simps)
  have e: "document_exists_redis ops pfx d ?r \<longleftrightarrow> doc_updates a (norm_id d) \<noteq> []"
    "get_users_redis ops pfx d ?r = [] \<longleftrightarrow> ?us = {}"
    using redis_docs_seen(1,2) [OF r1 c, of d] by (simp_all flip: set_empty)
  show ?thesis
  proof (cases "doc_updates a (norm_id d) \<noteq> [] \<and> ?us = {}")
    case True
    then have "step_documents merge op a = ?a\<lparr>doc_updates := (doc_updates a)(norm_id d := [])\<rparr>"
      unfolding Leave step_documents.simps Let_def by (simp only: simp_thms if_True)
    with True clear_redis_docs [OF r1, of d] e Leave show ?thesis by (simp add: leave_redis_def)
  next
    case False
    then have "step_documents merge op a = ?a" using Leave by (auto simp: fun_eq_iff)
    moreover have "step_redis ops pfx dumps loads merge op r = ?r"
      using False e Leave by (simp only: step_redis.simps leave_redis_def Let_def) auto
    ultimately show ?thesis using r1 by simp
  qed
next
  case (Write d x)
  with append_redis_docs [OF r c] show ?thesis by simp
next
  case (Disconnect u)
  let ?ds = "smembers ops (session_key pfx u) r"
  have m: "set ?ds = {d. u \<in> doc_users a d}" using r by (simp add: set_smembers redis_docs_def)
  have "norm_id d = d \<and> u \<in> doc_users a d" if "d \<in> set ?ds" for d
    using that r unfolding m redis_docs_def by blast
  note found = this
  have "redis_docs hash members items pfx dumps {u} (leave_each_redis ops pfx u ?ds r) (foldl (leave_one u) a ?ds)"
  proof (rule leave_each_redis_docs [where loads = loads])
    show "redis_docs hash members items pfx dumps {u} r a" using r by (simp add: redis_docs_def)
  qed (rule found c distinct_smembers, assumption?)+
  moreover have "foldl (leave_one u) a ?ds = step_documents merge op a"
    unfolding Disconnect by (rule leave_all_disconnect) (simp add: m)
  moreover have "redis_docs hash members items pfx dumps {} (del_key ops (session_key pfx u) r') a'"
    if "redis_docs hash members items pfx dumps {u} r' a'" "\<And>d. u \<notin> doc_users a' d" for r' a'
    using that by (auto simp: redis_docs_def redis_simps)
  ultimately show ?thesis using Disconnect
    by (simp add: remove_user_from_all_documents_redis_def Let_def)
qed

lemma run_redis_docs:
  "redis_docs hash members items pfx dumps {} r a \<Longrightarrow> (\<And>x. loads (dumps x) = x) \<Longrightarrow>
    redis_docs hash members items pfx dumps {} (fold (step_redis ops pfx dumps loads merge) evs r)
      (fold (step_documents merge) evs a)"
  by (induction evs arbitrary: r a) (simp_all add: step_redis_docs)

end

lemma run_memory_docs: "memory_docs s a \<Longrightarrow> memory_docs (fold (step_memory merge) evs s) (fold (step_documents merge) evs a)"
  by (induction evs arbitrary: s a) (simp_all add: step_memory_docs)

lemma step_documents_bound:
  assumes "\<And>d. length (doc_updates a d) < compaction_threshold"
  shows "length (doc_updates (step_documents merge op a) d) < compaction_threshold"
proof (cases op)
  case (Write d' x)
  have "length (compacted merge (doc_updates a d' @ [x])) < compaction_threshold" for d'
    using assms [of d'] by (simp add: compacted_def compaction_threshold_def) linarith
  with Write assms show ?thesis by simp
qed (use assms [of d] in \<open>auto simp: Let_def\<close>)

lemma run_documents_bound:
  "(\<And>d. length (doc_updates a d) < compaction_threshold) \<Longrightarrow>
    length (doc_updates (fold (step_documents merge) evs a) d) < compaction_threshold"
  by (induction evs arbitrary: a) (simp_all add: step_documents_bound)

text \<open>C16. Whatever the sessions do, the documents kept in Redis and those kept in the process look the same:
  the same users, the same updates, the same documents exist; and no document ever has as many stored
  updates as the compaction threshold.\<close>

theorem document_backends_agree:
  assumes laws: "redis ops hash members items" and codec: "\<And>x. loads (dumps x) = x"
    and empty: "hash r = (\<lambda>k. Map.empty)" "members r = (\<lambda>k. {})" "items r = (\<lambda>k. [])"
    and r': "r' = fold (step_redis ops pfx dumps loads merge) evs r"
    and s': "s' = fold (step_memory merge) evs \<lparr>yd_updates = [], yd_users = []\<rparr>"
  shows "set (get_users_redis ops pfx d r') = get_users_memory d s' \<and>
    get_updates_redis ops pfx loads d r' = get_updates_memory d s' \<and>
    (document_exists_redis ops pfx d r' \<longleftrightarrow> document_exists_memory d s') \<and>
    length (get_updates_memory d s') < compaction_threshold"
proof -
  let ?a = "\<lparr>doc_users = (\<lambda>d. {}), doc_updates = (\<lambda>d. [])\<rparr>"
  have "redis_docs hash members items pfx dumps {} r ?a" using empty by (simp add: redis_docs_def)
  from redis.run_redis_docs [OF laws this codec, of merge evs] have
    r: "redis_docs hash members items pfx dumps {} r' (fold (step_documents merge) evs ?a)" unfolding r' .
  have "memory_docs \<lparr>yd_updates = [], yd_users = []\<rparr> ?a" by (simp add: memory_docs_def dget_or_def)
  from run_memory_docs [OF this, of merge evs] have
    s: "memory_docs s' (fold (step_documents merge) evs ?a)" unfolding s' .
  have "length (doc_updates (fold (step_documents merge) evs ?a) (norm_id d)) < compaction_threshold"
    by (rule run_documents_bound) (simp add: compaction_threshold_def)
  then show ?thesis
    using redis.redis_docs_seen [OF laws r codec, of d] memory_docs_seen [OF s, of d] by simp
qed

theorem document_backends_agree_witness:
  "set (get_users_redis memory_redis ''p'' ''a:b''
      (fold (step_redis memory_redis ''p'' (\<lambda>x. x) (\<lambda>x. x) concat)
         [Join ''a:b'' ''u'', Write ''a:b'' ''x'', Join ''a:b'' ''v'', Disconnect ''u''] \<lparr>rs_hashes = [], rs_sets = [], rs_lists = []\<rparr>)) = {''v''}"
  using document_backends_agree [OF mr.redis_axioms, of "\<lambda>x. x" "\<lambda>x. x"
      "\<lparr>rs_hashes = [], rs_sets = [], rs_lists = []\<rparr>" _ "''p''" concat
      "[Join ''a:b'' ''u'', Write ''a:b'' ''x'', Join ''a:b'' ''v'', Disconnect ''u'']" _ "''a:b''", OF _ _ _ _ refl refl]
  by (simp add: memory_hash_def memory_members_def memory_items_def at_key_def dget_or_def fun_eq_iff insert_Diff_if
      get_users_memory_def add_user_memory_def append_to_updates_memory_def compact_updates_memory_def compaction_threshold_def
      remove_user_from_all_documents_memory_def norm_id_def Let_def)

end
