(* ===== verification/Tasks.thy ===== *)
theory Tasks
  imports Redis
begin

text \<open>
  The background tasks of \<open>backend/open_webui/tasks.py\<close>: the tasks of the process, those of an item (a
  chat), and their copies in Redis. A task itself is opaque; with its id the process keeps the item the
  cleanup callback was made with. \<open>ts_pending\<close> are the cleanups that finished tasks have scheduled: the
  event loop is first in, first out, so they run when the running coroutine waits for a task, before that
  task has ended and scheduled its own.
\<close>

record task_state =
  ts_tasks :: "(string, string option) pydict"
  ts_item_tasks :: "(string option, string list) pydict"
  ts_cancelled :: "string list"
  ts_pending :: "(string \<times> string option) list"

section \<open>Redis\<close>

definition tasks_key :: "string \<Rightarrow> string" where
  "tasks_key pfx = pfx @ '':tasks''"

definition item_tasks_key :: "string \<Rightarrow> string \<Rightarrow> string" where
  "item_tasks_key pfx item = pfx @ '':tasks:item:'' @ item"

definition redis_save_task :: "'r redis_ops \<Rightarrow> string \<Rightarrow> string \<Rightarrow> string option \<Rightarrow> 'r \<Rightarrow> 'r" where
  "redis_save_task ops pfx tid item r =
     (let r1 = hset ops (tasks_key pfx) tid (case item of None \<Rightarrow> [] | Some i \<Rightarrow> i) r
      in if given item then sadd ops (item_tasks_key pfx (the item)) tid r1 else r1)"

definition redis_cleanup_task :: "'r redis_ops \<Rightarrow> string \<Rightarrow> string \<Rightarrow> string option \<Rightarrow> 'r \<Rightarrow> 'r" where
  "redis_cleanup_task ops pfx tid item r =
     (let r1 = snd (hdel ops (tasks_key pfx) [tid] r)
      in if given item
         then let k = item_tasks_key pfx (the item); r2 = srem ops k tid r1
              in if scard ops k r2 = 0 then del_key ops k r2 else r2
         else r1)"

definition redis_list_tasks :: "'r redis_ops \<Rightarrow> string \<Rightarrow> 'r \<Rightarrow> string list" where
  "redis_list_tasks ops pfx r = hkeys ops (tasks_key pfx) r"

definition redis_list_item_tasks :: "'r redis_ops \<Rightarrow> string \<Rightarrow> string \<Rightarrow> 'r \<Rightarrow> string list" where
  "redis_list_item_tasks ops pfx item r = smembers ops (item_tasks_key pfx item) r"

text \<open>\<open>stop_task\<close> with Redis: the ids of the tasks the instances are told to stop, and the state.\<close>

definition stop_task_redis :: "'r redis_ops \<Rightarrow> string \<Rightarrow> string \<Rightarrow> 'r \<Rightarrow> string list \<times> 'r" where
  "stop_task_redis ops pfx tid r = ([tid], redis_cleanup_task ops pfx tid (hget ops (tasks_key pfx) tid r) r)"

fun stop_each_redis :: "'r redis_ops \<Rightarrow> string \<Rightarrow> string list \<Rightarrow> 'r \<Rightarrow> string list \<times> 'r" where
  "stop_each_redis ops pfx [] r = ([], r)"
| "stop_each_redis ops pfx (tid # tids) r =
     (let (c1, r1) = stop_task_redis ops pfx tid r; (c2, r2) = stop_each_redis ops pfx tids r1 in (c1 @ c2, r2))"

definition stop_item_tasks_redis :: "'r redis_ops \<Rightarrow> string \<Rightarrow> string \<Rightarrow> 'r \<Rightarrow> string list \<times> 'r" where
  "stop_item_tasks_redis ops pfx item r = stop_each_redis ops pfx (redis_list_item_tasks ops pfx item r) r"

text \<open>\<open>redis_task_command_listener\<close>: a stop command cancels the task where this instance has it.\<close>

definition on_stop_command :: "string \<Rightarrow> task_state \<Rightarrow> task_state" where
  "on_stop_command tid s =
     (if tid \<in> fst ` set (ts_tasks s) then s\<lparr>ts_cancelled := ts_cancelled s @ [tid]\<rparr> else s)"

section \<open>The process\<close>

definition item_list :: "task_state \<Rightarrow> string option \<Rightarrow> string list" where
  "item_list s item = dget_or (ts_item_tasks s) item []"

definition cleanup_task :: "string \<Rightarrow> string option \<Rightarrow> task_state \<Rightarrow> task_state" where
  "cleanup_task tid item s =
     (let s1 = s\<lparr>ts_tasks := dpop (ts_tasks s) tid\<rparr>
      in if given item \<and> tid \<in> set (item_list s1 item)
         then let xs = remove1 tid (item_list s1 item)
              in s1\<lparr>ts_item_tasks := (if xs = [] then dpop (ts_item_tasks s1) item else dset (ts_item_tasks s1) item xs)\<rparr>
         else s1)"

definition create_task :: "string \<Rightarrow> string option \<Rightarrow> string option \<Rightarrow> task_state \<Rightarrow> string \<times> task_state" where
  "create_task uuid item task_id s =
     (let tid = (if given task_id then the task_id else uuid)
      in (tid, s\<lparr>ts_tasks := dset (ts_tasks s) tid item,
                 ts_item_tasks := dset (ts_item_tasks s) item (item_list s item @ [tid])\<rparr>))"

definition list_tasks :: "task_state \<Rightarrow> string list" where
  "list_tasks s = dkeys (ts_tasks s)"

definition list_task_ids_by_item_id :: "string option \<Rightarrow> task_state \<Rightarrow> string list" where
  "list_task_ids_by_item_id item s = item_list s item"

definition has_active_tasks :: "string option \<Rightarrow> task_state \<Rightarrow> bool" where
  "has_active_tasks item s \<longleftrightarrow> list_task_ids_by_item_id item s \<noteq> []"

definition run_pending :: "task_state \<Rightarrow> task_state" where
  "run_pending s = fold (\<lambda>(tid, item). cleanup_task tid item) (ts_pending s) (s\<lparr>ts_pending := []\<rparr>)"

text \<open>\<open>stop_task\<close> without Redis: the status it reports.\<close>

definition stop_task :: "string \<Rightarrow> task_state \<Rightarrow> bool \<times> task_state" where
  "stop_task tid s =
     (case dget (ts_tasks s) tid of
        None \<Rightarrow> (False, s)
      | Some item \<Rightarrow>
          let s1 = run_pending (s\<lparr>ts_tasks := dpop (ts_tasks s) tid, ts_cancelled := ts_cancelled s @ [tid]\<rparr>)
          in (True, s1\<lparr>ts_pending := [(tid, item)]\<rparr>))"

text \<open>The \<open>for\<close> loop of \<open>stop_item_tasks\<close> walks along the list of the item itself, by position; the cleanups
  shorten that list meanwhile.\<close>

lemma item_list_cleanup: "length (item_list (cleanup_task tid item s) x) \<le> length (item_list s x)"
  by (auto simp: cleanup_task_def item_list_def Let_def dget_or_def length_remove1)

lemma item_list_pending: "length (item_list (run_pending s) x) \<le> length (item_list s x)"
proof -
  have "length (item_list (fold (\<lambda>(tid, item). cleanup_task tid item) ps s) x) \<le> length (item_list s x)" for ps s
    by (induction ps arbitrary: s) (auto intro: order_trans item_list_cleanup)
  from this [of "ts_pending s" "s\<lparr>ts_pending := []\<rparr>"] show ?thesis by (simp add: run_pending_def item_list_def)
qed

lemma item_list_stop: "length (item_list (snd (stop_task tid s)) x) \<le> length (item_list s x)"
  using item_list_pending [of "s\<lparr>ts_tasks := dpop (ts_tasks s) tid, ts_cancelled := ts_cancelled s @ [tid]\<rparr>" x]
  by (simp add: stop_task_def item_list_def Let_def split: option.split)

function stop_loop :: "string option \<Rightarrow> nat \<Rightarrow> task_state \<Rightarrow> bool \<times> task_state" where
  "stop_loop item i s =
     (if i < length (item_list s item)
      then let (ok, s') = stop_task (item_list s item ! i) s
           in if ok then stop_loop item (Suc i) s' else (False, s')
      else (True, s))"
  by pat_completeness auto

termination
proof (relation "measure (\<lambda>(item, i, s). length (item_list s item) - i)", goal_cases)
  case (2 item i s x ok s')
  then have "length (item_list s' item) \<le> length (item_list s item)"
    using item_list_stop [of "item_list s item ! i" s item] by (metis snd_conv)
  with 2 show ?case by simp
qed simp

declare stop_loop.simps [simp del]

definition stop_item_tasks :: "string option \<Rightarrow> task_state \<Rightarrow> bool \<times> task_state" where
  "stop_item_tasks item s = (if item_list s item = [] then (True, s) else stop_loop item 0 s)"

section \<open>Every other task is left running\<close>

fun every_other :: "'a list \<Rightarrow> 'a list" where
  "every_other [] = []"
| "every_other [x] = [x]"
| "every_other (x # y # zs) = x # every_other zs"
lemma remove1_nth: "distinct ys \<Longrightarrow> q < length ys \<Longrightarrow> remove1 (ys ! q) ys = take q ys @ drop (Suc q) ys"
proof (induction ys arbitrary: q)
  case (Cons y ys)
  then show ?case by (cases q) (auto)
qed simp

lemma stop_task_step:
  assumes p: "ts_pending s = [(p, item)]" and g: "given item" and l: "item_list s item = ys"
    and pt: "p \<in> set ys" "t \<in> set ys" "p \<noteq> t" and tt: "dget (ts_tasks s) t = Some item"
    and np: "p \<notin> fst ` set (ts_tasks s)" and ok: "stop_task t s = (ok, s')"
  shows "ok \<and> item_list s' item = remove1 p ys \<and> ts_pending s' = [(t, item)] \<and>
    ts_cancelled s' = ts_cancelled s @ [t] \<and> (\<forall>x. dget (ts_tasks s') x = (if x = t then None else dget (ts_tasks s) x))"
proof -
  have r: "remove1 p ys \<noteq> []" using pt by (metis in_set_remove1 list.set_cases list.distinct(1))
  have "dget (ts_tasks s) p = None" using np by (simp add: dget_None_iff)
  with assms r show ?thesis
    by (auto simp: stop_task_def run_pending_def cleanup_task_def item_list_def Let_def)
qed

lemma drop_ConsD: "drop i ys = x # xs \<Longrightarrow> i < length ys \<and> ys ! i = x \<and> drop (Suc i) ys = xs"
  by (metis Cons_nth_drop_Suc drop_eq_Nil list.distinct(1) list.inject not_le)

lemma stop_loop_from:
  "drop i ys = rest \<Longrightarrow> q < i \<Longrightarrow> q < length ys \<Longrightarrow> distinct ys \<Longrightarrow> given item \<Longrightarrow> item_list s item = ys \<Longrightarrow>
    ts_pending s = [(ys ! q, item)] \<Longrightarrow> ys ! q \<notin> fst ` set (ts_tasks s) \<Longrightarrow>
    (\<And>t. t \<in> set rest \<Longrightarrow> dget (ts_tasks s) t = Some item) \<Longrightarrow>
    \<exists>s'. stop_loop item i s = (True, s') \<and> ts_cancelled s' = ts_cancelled s @ every_other rest \<and>
      (\<forall>t. t \<in> set (every_other rest) \<or> dget (ts_tasks s') t = dget (ts_tasks s) t)"
proof (induction rest arbitrary: i q ys s rule: every_other.induct)
  case 1
  then show ?case by (subst stop_loop.simps) auto
next
  case (2 x)
  then have i: "i < length ys" "ys ! i = x" using drop_ConsD by metis+
  obtain ok s' where ok: "stop_task x s = (ok, s')" by fastforce
  have "x \<in> set ys" "ys ! q \<in> set ys" "ys ! q \<noteq> x" using 2 i by (auto simp: nth_eq_iff_index_eq)
  from stop_task_step [OF "2.prems"(7,5,6) this(2,1,3) _ "2.prems"(8) ok] "2.prems"(9)
  have s': "ok" "item_list s' item = remove1 (ys ! q) ys" "ts_cancelled s' = ts_cancelled s @ [x]"
    "\<forall>y. dget (ts_tasks s') y = (if y = x then None else dget (ts_tasks s) y)" by simp_all
  have "\<not> Suc i < length (item_list s' item)" using 2 s'(2) drop_ConsD [OF "2.prems"(1)] by (auto simp: length_remove1)
  then have "stop_loop item (Suc i) s' = (True, s')" by (subst stop_loop.simps) simp
  with i ok s' "2.prems"(6) show ?case by (subst stop_loop.simps) simp
next
  case (3 x y zs)
  then have i: "i < length ys" "ys ! i = x" using drop_ConsD by metis+
  obtain ok s' where ok: "stop_task x s = (ok, s')" by fastforce
  have "x \<in> set ys" "ys ! q \<in> set ys" "ys ! q \<noteq> x" using 3 i by (auto simp: nth_eq_iff_index_eq)
  from stop_task_step [OF "3.prems"(7,5,6) this(2,1,3) _ "3.prems"(8) ok] "3.prems"(9)
  have s': "ok" "item_list s' item = remove1 (ys ! q) ys" "ts_pending s' = [(x, item)]"
    "ts_cancelled s' = ts_cancelled s @ [x]"
    "\<forall>y. dget (ts_tasks s') y = (if y = x then None else dget (ts_tasks s) y)" by simp_all
  let ?ys = "remove1 (ys ! q) ys"
  have ys: "?ys = take q ys @ drop (Suc q) ys" by (rule remove1_nth) (use 3 in simp_all)
  have "drop (Suc (Suc i)) ys = zs" using drop_ConsD "3.prems"(1) by metis
  then have rest: "drop (Suc i) ?ys = zs" using "3.prems"(2,3) unfolding ys by simp
  have at: "?ys ! (i - 1) = x" using i "3.prems"(2,3) unfolding ys by (auto simp: nth_append min_def)
  have len: "i - 1 < length ?ys" using i "3.prems"(2,3) by (simp add: length_remove1)
  have x: "x \<notin> set zs" "x \<notin> fst ` set (ts_tasks s')"
    using distinct_drop [OF "3.prems"(4), of i] "3.prems"(1) s'(5) by (simp_all flip: dget_None_iff)
  have "\<exists>s''. stop_loop item (Suc i) s' = (True, s'') \<and> ts_cancelled s'' = ts_cancelled s' @ every_other zs \<and>
      (\<forall>t. t \<in> set (every_other zs) \<or> dget (ts_tasks s'') t = dget (ts_tasks s') t)"
    by (rule "3.IH" [OF rest _ len distinct_remove1 [OF "3.prems"(4)] "3.prems"(5) s'(2)])
      (use "3.prems" s' at x in auto)
  then obtain s'' where l: "stop_loop item (Suc i) s' = (True, s'')"
    and c: "ts_cancelled s'' = ts_cancelled s' @ every_other zs"
    and k: "\<forall>t. t \<in> set (every_other zs) \<or> dget (ts_tasks s'') t = dget (ts_tasks s') t" by blast
  have "stop_loop item i s = (True, s'')" using i ok s'(1) l "3.prems"(6) by (subst stop_loop.simps) simp
  moreover have "t \<in> set (every_other (x # y # zs)) \<or> dget (ts_tasks s'') t = dget (ts_tasks s) t" for t
    using k [rule_format, of t] s'(5) [rule_format, of t] by (cases "t = x") auto
  ultimately show ?case using c s'(4) by simp
qed

text \<open>Stopping the tasks of an item stops the first, the second and from there on every other one and
  reports that all are stopped: the cleanup of a stopped task shortens the list the loop is walking along,
  so each step skips a task, which keeps running.\<close>

theorem stop_item_tasks_skips:
  assumes xs: "item_list s item = x # xs" "distinct (x # xs)" and g: "given item"
    and own: "\<forall>t \<in> set (x # xs). dget (ts_tasks s) t = Some item" and idle: "ts_pending s = []"
  shows "\<exists>s'. stop_item_tasks item s = (True, s') \<and> ts_cancelled s' = ts_cancelled s @ x # every_other xs \<and>
    (\<forall>t. t \<in> set xs \<and> t \<notin> set (every_other xs) \<longrightarrow> dget (ts_tasks s') t = Some item)"
proof -
  let ?s = "s\<lparr>ts_tasks := dpop (ts_tasks s) x, ts_cancelled := ts_cancelled s @ [x], ts_pending := [(x, item)]\<rparr>"
  have first: "stop_task x s = (True, ?s)" using own idle by (simp add: stop_task_def run_pending_def Let_def)
  have "\<exists>s'. stop_loop item (Suc 0) ?s = (True, s') \<and> ts_cancelled s' = ts_cancelled ?s @ every_other xs \<and>
      (\<forall>t. t \<in> set (every_other xs) \<or> dget (ts_tasks s') t = dget (ts_tasks ?s) t)"
    by (rule stop_loop_from [where q = 0 and ys = "x # xs"])
      (use assms in \<open>auto simp: item_list_def dget_None_iff [symmetric]\<close>)
  then obtain s' where s': "stop_loop item (Suc 0) ?s = (True, s')"
    "ts_cancelled s' = ts_cancelled s @ x # every_other xs"
    "\<forall>t. t \<in> set (every_other xs) \<or> dget (ts_tasks s') t = dget (ts_tasks ?s) t" by auto
  have "stop_item_tasks item s = (True, s')" using xs(1) first s'(1)
    by (simp add: stop_item_tasks_def stop_loop.simps [of item 0])
  moreover have "dget (ts_tasks s') t = Some item" if "t \<in> set xs \<and> t \<notin> set (every_other xs)" for t
    using that s'(3) own xs(2) by auto
  ultimately show ?thesis using s'(2) by blast
qed

theorem stop_item_tasks_skips_witness:
  "\<exists>s'. stop_item_tasks (Some ''chat'')
      \<lparr>ts_tasks = [(''t1'', Some ''chat''), (''t2'', Some ''chat''), (''t3'', Some ''chat'')],
       ts_item_tasks = [(Some ''chat'', [''t1'', ''t2'', ''t3''])], ts_cancelled = [], ts_pending = []\<rparr> = (True, s') \<and>
    ts_cancelled s' = [''t1'', ''t2''] \<and> dget (ts_tasks s') ''t3'' = Some (Some ''chat'')"
  using stop_item_tasks_skips [of "\<lparr>ts_tasks = [(''t1'', Some ''chat''), (''t2'', Some ''chat''), (''t3'', Some ''chat'')],
       ts_item_tasks = [(Some ''chat'', [''t1'', ''t2'', ''t3''])], ts_cancelled = [], ts_pending = []\<rparr>"
      "Some ''chat''" "''t1''" "[''t2'', ''t3'']"]
  by (auto simp: item_list_def dget_or_def given_def)

end
