(* ===== verification/Compaction.thy ===== *)
theory Compaction
  imports Messages
begin

text \<open>
  Context compaction, \<open>backend/open_webui/utils/context_compaction.py\<close>: when a conversation is too long
  for a model, its older part is replaced by a summary that is stored with the first message kept. The
  generation of the summary is an argument; what a request does besides, events and the message it
  stores the summary with, is part of the result. Numbers are integers, so the percentage of a usage,
  which is a float, is left out.
\<close>

section \<open>Numbers\<close>

text \<open>\<open>int(value)\<close>: of a string, decimal digits with single underscores between them.\<close>

definition is_digit :: "char \<Rightarrow> bool" where
  "is_digit c \<longleftrightarrow> 48 \<le> code c \<and> code c \<le> 57"

fun parse_digits :: "nat \<Rightarrow> string \<Rightarrow> nat option" where
  "parse_digits acc [] = Some acc"
| "parse_digits acc (c # cs) =
     (if is_digit c then parse_digits (10 * acc + (code c - 48)) cs
      else if c = CHR ''_'' \<and> cs \<noteq> [] \<and> is_digit (hd cs) then parse_digits acc cs else None)"

definition parse_nat :: "string \<Rightarrow> nat option" where
  "parse_nat s = (if s \<noteq> [] \<and> is_digit (hd s) then parse_digits 0 s else None)"

definition parse_int :: "string \<Rightarrow> int option" where
  "parse_int s =
     (case py_strip s of
        [] \<Rightarrow> None
      | c # cs \<Rightarrow>
          if c = CHR ''-'' then map_option (\<lambda>n. - int n) (parse_nat cs)
          else if c = CHR ''+'' then map_option int (parse_nat cs)
          else map_option int (parse_nat (c # cs)))"

fun py_int :: "pyval \<Rightarrow> int result" where
  "py_int (VInt n) = Inr n"
| "py_int (VBool b) = Inr (if b then 1 else 0)"
| "py_int (VStr s) = (case parse_int s of None \<Rightarrow> Inl (ValueError ''int'') | Some n \<Rightarrow> Inr n)"
| "py_int v = Inl TypeError"

section \<open>Configuration\<close>

definition parse_positive_int :: "pyval \<Rightarrow> int option" where
  "parse_positive_int v = (case py_int v of Inl e \<Rightarrow> None | Inr n \<Rightarrow> if 0 < n then Some n else None)"

definition clamp_retention_percentage :: "pyval \<Rightarrow> int" where
  "clamp_retention_percentage v = (let parsed = (case py_int v of Inl e \<Rightarrow> 40 | Inr n \<Rightarrow> n) in min 50 (max 10 parsed))"

text \<open>\<open>(metadata.get('params') or {}).get('compact_token_threshold')\<close>\<close>

definition resolve_token_threshold :: "int \<Rightarrow> int \<Rightarrow> dict \<Rightarrow> int result" where
  "resolve_token_threshold global_threshold global_cap metadata =
     rbind (py_get (py_or (vget metadata ''params'') (VDict [])) ''compact_token_threshold'') (\<lambda>v.
       Inr (min (case parse_positive_int v of Some n \<Rightarrow> n | None \<Rightarrow> global_threshold) global_cap))"

record compaction_config =
  cc_enable :: bool
  cc_token_threshold :: int
  cc_token_cap :: int
  cc_retention_percentage :: int
  cc_prompt_template :: pyval

definition load_config :: "dict \<Rightarrow> compaction_config" where
  "load_config vs =
     (let threshold = (case parse_positive_int (vget vs ''chat.context_compaction.token_threshold'') of
                         Some n \<Rightarrow> n | None \<Rightarrow> 80000)
      in \<lparr>cc_enable = truthy (dget_or vs ''chat.context_compaction.enable'' (VBool False)),
          cc_token_threshold = threshold,
          cc_token_cap = (case parse_positive_int (vget vs ''chat.context_compaction.token_cap'') of
                            Some n \<Rightarrow> n | None \<Rightarrow> threshold),
          cc_retention_percentage = clamp_retention_percentage (vget vs ''chat.context_compaction.retention_percentage''),
          cc_prompt_template = py_or (dget_or vs ''chat.context_compaction.prompt_template'' (VStr [])) (VStr [])\<rparr>)"

section \<open>The size of a conversation\<close>

definition estimate_tokens :: "pyval \<Rightarrow> int" where
  "estimate_tokens v =
     (if v = VNone then 0
      else let s = (case v of VStr s \<Rightarrow> s | _ \<Rightarrow> json_dumps False v)
           in if s = [] then 0 else max 1 (int (length s) div 4))"

fun estimate_item :: "pyval \<Rightarrow> int result" where
  "estimate_item (VDict d) =
     rbind (py_in_set (vget d ''type'') [VStr ''image'', VStr ''image_url'']) (\<lambda>b.
       Inr (if b then 1000 else estimate_tokens (py_or (py_or (vget d ''text'') (vget d ''content'')) (VDict d))))"
| "estimate_item v = Inr (estimate_tokens v)"

definition estimate_message :: "dict \<Rightarrow> int result" where
  "estimate_message m =
     rbind (case vget m ''content'' of
              VList items \<Rightarrow> rbind (rmap estimate_item items) (\<lambda>ns. Inr (sum_list ns))
            | v \<Rightarrow> Inr (estimate_tokens v)) (\<lambda>content.
       Inr (4 + content + estimate_tokens (vget m ''output'') + estimate_tokens (vget m ''tool_calls'')
              + estimate_tokens (vget m ''files'')))"

definition estimate_messages_tokens :: "dict list \<Rightarrow> int result" where
  "estimate_messages_tokens messages = rbind (rmap estimate_message messages) (\<lambda>ns. Inr (sum_list ns))"

text \<open>The tokens a message says its answer used, zero for none.\<close>

definition first_given :: "dict \<Rightarrow> string list \<Rightarrow> pyval" where
  "first_given d ks = foldr (\<lambda>k rest. py_or (vget d k) rest) ks (VInt 0)"

definition usage_tokens :: "dict \<Rightarrow> int result" where
  "usage_tokens m =
     rbind (if truthy (vget m ''usage'') then Inr (vget m ''usage'')
            else py_get (py_or (vget m ''info'') (VDict [])) ''usage'') (\<lambda>usage.
       case usage of
         VDict u \<Rightarrow>
           rbind (py_int (first_given u [''prompt_tokens'', ''input_tokens'', ''prompt_eval_count'', ''prompt_n''])) (\<lambda>a.
           rbind (py_int (first_given u [''completion_tokens'', ''output_tokens'', ''eval_count'', ''predicted_n''])) (\<lambda>b.
           rbind (py_int (first_given u [''cache_n''])) (\<lambda>c. Inr (a + b + c))))
       | _ \<Rightarrow> Inr 0)"

text \<open>The messages from the end: the tokens up to the last message with a usage, and the messages after it.\<close>

fun last_usage :: "dict list \<Rightarrow> dict list \<Rightarrow> (int \<times> dict list) option result" where
  "last_usage [] after = Inr None"
| "last_usage (m # before) after =
     rbind (usage_tokens m) (\<lambda>n. if n \<noteq> 0 then Inr (Some (n, after)) else last_usage before (m # after))"

definition exceeds_token_threshold :: "dict list \<Rightarrow> string \<Rightarrow> string option \<Rightarrow> int \<Rightarrow> bool result" where
  "exceeds_token_threshold messages system_prompt summary threshold =
     (if threshold \<le> 0 then Inr False
      else rbind (last_usage (rev messages) []) (\<lambda>u.
        case u of
          Some (tokens, after) \<Rightarrow> rbind (estimate_messages_tokens after) (\<lambda>n. Inr (threshold < tokens + n))
        | None \<Rightarrow> rbind (estimate_messages_tokens messages) (\<lambda>n.
            Inr (threshold < estimate_tokens (VStr system_prompt)
                   + estimate_tokens (case summary of None \<Rightarrow> VStr [] | Some s \<Rightarrow> VStr s) + n))))"

section \<open>Where to cut\<close>

text \<open>The summary stored with a message.\<close>

definition summary_of :: "dict \<Rightarrow> string option" where
  "summary_of m =
     (case py_or (vget m ''contextSummary'') (vget m ''context_summary'') of
        VStr s \<Rightarrow> if py_strip s \<noteq> [] then Some s else None | _ \<Rightarrow> None)"

fun latest_checkpoint :: "nat \<Rightarrow> dict list \<Rightarrow> (nat \<times> string) option \<Rightarrow> (nat \<times> string) option" where
  "latest_checkpoint idx [] best = best"
| "latest_checkpoint idx (m # ms) best =
     latest_checkpoint (Suc idx) ms (case summary_of m of Some s \<Rightarrow> Some (idx, s) | None \<Rightarrow> best)"

definition apply_latest_summary_checkpoint :: "dict list \<Rightarrow> dict list \<times> string option" where
  "apply_latest_summary_checkpoint messages =
     (case latest_checkpoint 0 messages None of
        None \<Rightarrow> (messages, None) | Some (i, s) \<Rightarrow> (drop i messages, Some s))"

definition find_compaction_boundary :: "dict list \<Rightarrow> pyval \<Rightarrow> nat" where
  "find_compaction_boundary messages percentage =
     (let keep_count = max 2 (int (length messages) * clamp_retention_percentage percentage div 100);
          target = max 1 (int (length messages) - keep_count);
          boundaries = tl (filter (\<lambda>i. vget (messages ! i) ''role'' = VStr ''user'') [0..<length messages])
      in case List.find (\<lambda>i. int i \<le> target) (rev boundaries) of None \<Rightarrow> 0 | Some i \<Rightarrow> i)"

section \<open>A request\<close>

definition is_saved_chat_id :: "string option \<Rightarrow> bool" where
  "is_saved_chat_id c \<longleftrightarrow>
     given c \<and> \<not> prefix ''temporary:'' (the c) \<and> \<not> prefix ''local:'' (the c) \<and> \<not> prefix ''channel:'' (the c)"

definition is_temporary_chat_id :: "string option \<Rightarrow> bool" where
  "is_temporary_chat_id c \<longleftrightarrow> given c \<and> (prefix ''temporary:'' (the c) \<or> prefix ''local:'' (the c))"

definition get_temporary_chat_session_id :: "string \<Rightarrow> string option" where
  "get_temporary_chat_session_id c =
     (if prefix ''temporary:'' c then Some (drop 10 c)
      else if prefix ''local:'' c then Some (drop 6 c) else None)"

datatype compaction_event = Compacting | Compaction_failed | Compacted

text \<open>What a compaction leaves behind: the messages sent on, the summary, whether it compacted, the events
  for the client, and the message that gets the summary.\<close>

record compaction =
  co_messages :: "dict list"
  co_summary :: "string option"
  co_compacted :: bool
  co_events :: "compaction_event list"
  co_stored :: "(string \<times> pyval \<times> string) option"

definition compact_messages_for_request ::
  "(dict list \<Rightarrow> dict list \<Rightarrow> string option \<Rightarrow> string result) \<Rightarrow> compaction_config \<Rightarrow> dict list \<Rightarrow> dict \<Rightarrow> string option
     \<Rightarrow> string \<Rightarrow> (compaction result \<times> compaction_event list)" where
  "compact_messages_for_request generate config messages metadata chat_id system_prompt =
     (if \<not> cc_enable config
      then (Inr \<lparr>co_messages = messages, co_summary = None, co_compacted = False, co_events = [], co_stored = None\<rparr>, [])
      else
        let system = (if messages \<noteq> [] \<and> vget (hd messages) ''role'' = VStr ''system'' then [hd messages] else []);
            (rest, previous) = apply_latest_summary_checkpoint (if system \<noteq> [] then tl messages else messages);
            unchanged = \<lparr>co_messages = system @ rest, co_summary = previous, co_compacted = False, co_events = [],
                         co_stored = None\<rparr>
        in case rbind (resolve_token_threshold (cc_token_threshold config) (cc_token_cap config) metadata)
                  (exceeds_token_threshold rest system_prompt previous) of
             Inl e \<Rightarrow> (Inl e, [])
           | Inr exceeds \<Rightarrow>
               if \<not> exceeds \<or> length rest \<le> 3 then (Inr unchanged, [])
               else
                 let b = find_compaction_boundary rest (VInt (cc_retention_percentage config));
                     old = take b rest; recent = drop b rest;
                     emit = given chat_id \<and> truthy (vget metadata ''message_id'')
                 in if old = [] \<or> recent = [] then (Inr unchanged, [])
                    else (case generate old recent previous of
                           Inl e \<Rightarrow> (Inl e, if emit then [Compacting, Compaction_failed] else [])
                         | Inr summary \<Rightarrow>
                             let i = py_or (py_or (vget (hd recent) ''id'') (vget metadata ''user_message_id''))
                                       (vget metadata ''message_id'');
                                 events = (if emit then [Compacting, Compacted] else [])
                             in (Inr \<lparr>co_messages = system @ recent, co_summary = Some summary, co_compacted = True,
                                      co_events = events,
                                      co_stored = (if is_saved_chat_id chat_id \<and> truthy i
                                                   then Some (the chat_id, i, summary) else None)\<rparr>, events)))"
section \<open>The summary\<close>

definition content_part :: "pyval \<Rightarrow> pyval list" where
  "content_part v = (case v of VDict d \<Rightarrow> [py_or (py_or (vget d ''text'') (vget d ''content'')) (VStr [])] | _ \<Rightarrow> [])"

text \<open>\<open>_response_text\<close> of a response that is not a \<open>JSONResponse\<close> any more.\<close>

definition response_text :: "pyval \<Rightarrow> pyval result" where
  "response_text response =
     (case (case response of VList [r] \<Rightarrow> r | r \<Rightarrow> r) of
        VDict d \<Rightarrow>
          let choices = py_or (vget d ''choices'') (VList [])
          in if truthy choices
             then rbind (py_first choices) (\<lambda>c.
                  rbind (py_get c ''message'') (\<lambda>m.
                  rbind (py_get (py_or m (VDict [])) ''content'') (\<lambda>content.
                  rbind (py_get (py_or m (VDict [])) ''reasoning_content'') (\<lambda>reasoning.
                    Inr (py_or (py_or content reasoning) (VStr []))))))
             else rbind (py_iter (py_or (vget d ''output'') (VList []))) (\<lambda>items.
                  rbind (rconcat (\<lambda>item. rbind (py_get item ''content'') (\<lambda>content.
                           rbind (py_iter (py_or content (VList []))) (\<lambda>parts. Inr (concat (map content_part parts))))) items) (\<lambda>parts.
                  rbind (rmap as_text (filter truthy parts)) (\<lambda>texts.
                    Inr (VStr (py_join [char_of (10::nat)] texts)))))
      | _ \<Rightarrow> Inr (VStr []))"

fun first_500 :: "pyval \<Rightarrow> string result" where
  "first_500 (VStr s) = Inr (take 500 s)"
| "first_500 (VList xs) = Inr (py_repr (VList (take 500 xs)))"
| "first_500 v = Inl TypeError"

text \<open>What is kept when the model answers with nothing.\<close>

definition fallback_line :: "dict \<Rightarrow> string list result" where
  "fallback_line m =
     (let content = get_content_from_message m
      in if truthy content
         then rbind (first_500 content) (\<lambda>s.
                Inr [''- '' @ py_str (dget_or m ''role'' (VStr ''unknown'')) @ '': '' @ s])
         else Inr [])"

definition summary_of_response :: "pyval \<Rightarrow> string option \<Rightarrow> dict list \<Rightarrow> string result" where
  "summary_of_response response previous compacted =
     rbind (response_text response) (\<lambda>t.
       case t of
         VStr s \<Rightarrow>
           if py_strip s \<noteq> [] then Inr (py_strip s)
           else rbind (rconcat fallback_line compacted) (\<lambda>lines.
                  Inr (take 4000 (py_join [char_of (10::nat)] ((if given previous then [the previous] else []) @ lines))))
       | _ \<Rightarrow> Inl AttributeError)"

text \<open>The model that writes the summary: \<open>get_task_model_id\<close> of \<open>utils/task.py\<close> and the choice around it.\<close>

definition get_task_model_id :: "string \<Rightarrow> pyval \<Rightarrow> pyval \<Rightarrow> (string, dict) pydict \<Rightarrow> pyval result" where
  "get_task_model_id default_model_id task_model task_model_external models =
     (let local = (vget (dget_or models default_model_id []) ''connection_type'' = VStr ''local'');
          choice = (if local then task_model else task_model_external)
      in rbind (if truthy choice then map_get models choice else Inr None) (\<lambda>m.
           Inr (if m = None then VStr default_model_id else choice)))"

definition summary_model :: "string \<Rightarrow> dict \<Rightarrow> (string, dict) pydict \<Rightarrow> pyval result" where
  "summary_model model_id task_config models =
     rbind (map_get models (vget task_config ''chat.context_compaction.model'')) (\<lambda>own.
     rbind (if own \<noteq> None then Inr (vget task_config ''chat.context_compaction.model'')
            else get_task_model_id model_id (vget task_config ''task.model.default'')
                   (vget task_config ''task.model.external'') models) (\<lambda>task_model_id.
     rbind (map_get models task_model_id) (\<lambda>m.
       if m \<noteq> None then Inr task_model_id
       else if dget models model_id \<noteq> None then Inr (VStr model_id)
       else Inl (ValueError ''No available model for context compaction''))))"

section \<open>Compacting a whole branch\<close>

fun last_message_field :: "pyval \<Rightarrow> pyval result" where
  "last_message_field (VList xs) = (if xs = [] then Inr VNone else py_get (last xs) ''id'')"
| "last_message_field v = Inr VNone"

text \<open>The id the branch ends with: the column, then the history, then the older places.\<close>

definition branch_end :: "pyval \<Rightarrow> dict \<Rightarrow> pyval result" where
  "branch_end current_message_id chat_data =
     rbind (if truthy current_message_id then Inr current_message_id
            else py_get (py_or (vget chat_data ''history'') (VDict [])) ''currentId'') (\<lambda>i1.
       let i2 = (if truthy i1 then i1 else py_or (vget chat_data ''currentId'') (vget chat_data ''branchPointMessageId''))
       in if truthy i2 then Inr i2 else last_message_field (vget chat_data ''messages''))"

text \<open>\<open>stored\<close> is the message map the chat table gives for the chat; without one the map in the history counts.
  \<open>get_message_list\<close> may run for ever, which is \<open>None\<close>. The branch is cut before its last message, which gets the summary.\<close>

datatype branch_result =
  Not_compacted string
| Branch_compacted nat nat nat

definition branch_messages :: "dict \<Rightarrow> (string, dict) pydict option \<Rightarrow> (string, dict) pydict option \<Rightarrow> pyval \<Rightarrow>
     dict list result option" where
  "branch_messages chat_data stored in_history current_id =
     get_message_list (case stored of Some (m # ms) \<Rightarrow> stored | _ \<Rightarrow> in_history) current_id"

definition compact_chat_branch ::
  "(dict list \<Rightarrow> dict list \<Rightarrow> string option \<Rightarrow> string result) \<Rightarrow> compaction_config \<Rightarrow> pyval \<Rightarrow> dict \<Rightarrow>
     (string, dict) pydict option \<Rightarrow> (string, dict) pydict option \<Rightarrow>
     (branch_result \<times> (pyval \<times> string) option) result option" where
  "compact_chat_branch generate config current_message_id chat_data stored in_history =
     (if \<not> cc_enable config then Some (Inr (Not_compacted ''disabled'', None))
      else case branch_end current_message_id chat_data of
             Inl e \<Rightarrow> Some (Inl e)
           | Inr current_id \<Rightarrow>
               if \<not> truthy current_id then Some (Inr (Not_compacted ''empty'', None))
               else map_option (\<lambda>r. rbind r (\<lambda>branch.
                      let (messages, previous) = apply_latest_summary_checkpoint branch;
                          old = butlast messages; recent = drop (length messages - 1) messages
                      in if old = [] \<or> recent = [] then Inr (Not_compacted ''too_short'', None)
                         else rbind (generate old recent previous) (\<lambda>s.
                                Inr (Branch_compacted (length old) (length recent) (length s), Some (current_id, s)))))
                    (branch_messages chat_data stored in_history current_id))"

text \<open>\<open>get_chat_context_usage\<close>: the tokens and the threshold they are compared with.\<close>

definition chat_context_usage ::
  "compaction_config \<Rightarrow> pyval \<Rightarrow> pyval \<Rightarrow> dict \<Rightarrow> (string, dict) pydict option \<Rightarrow> (string, dict) pydict option \<Rightarrow>
     (int \<times> int) option result option" where
  "chat_context_usage config model_id current_message_id chat_data stored in_history =
     (case branch_end current_message_id chat_data of
        Inl e \<Rightarrow> Some (Inl e)
      | Inr current_id \<Rightarrow>
          if \<not> truthy current_id then Some (Inr None)
          else map_option (\<lambda>r. rbind r (\<lambda>branch.
                 if branch = [] \<or> \<not> cc_enable config then Inr None
                 else rbind (case py_or (vget chat_data ''params'') (VDict []) of
                               VDict ps \<Rightarrow> Inr (if truthy model_id then dset ps ''model'' model_id else ps)
                             | VList _ \<Rightarrow> Inl (if truthy model_id then TypeError else AttributeError)
                             | _ \<Rightarrow> Inl AttributeError) (\<lambda>params.
                      rbind (resolve_token_threshold (cc_token_threshold config) (cc_token_cap config)
                               [(''params'', VDict params)]) (\<lambda>threshold.
                      let (messages, previous) = apply_latest_summary_checkpoint branch
                      in rbind (last_usage (rev messages) []) (\<lambda>u.
                           case u of
                             Some (tokens, after) \<Rightarrow>
                               rbind (estimate_messages_tokens after) (\<lambda>n. Inr (Some (tokens + n, threshold)))
                           | None \<Rightarrow> rbind (estimate_messages_tokens messages) (\<lambda>n.
                               Inr (Some (estimate_tokens (case previous of None \<Rightarrow> VStr [] | Some s \<Rightarrow> VStr s) + n, threshold))))))))
               (branch_messages chat_data stored in_history current_id))"

section \<open>What a compaction keeps\<close>

lemma in_set_tlD: "x \<in> set (tl xs) \<Longrightarrow> x \<in> set xs"
  by (cases xs) auto

lemma latest_checkpoint_append:
  "latest_checkpoint i (xs @ ys) best = latest_checkpoint (i + length xs) ys (latest_checkpoint i xs best)"
  by (induction xs arbitrary: i best) simp_all

lemma latest_checkpoint_none: "(\<And>m. m \<in> set ms \<Longrightarrow> summary_of m = None) \<Longrightarrow> latest_checkpoint i ms best = best"
  by (induction ms arbitrary: i) simp_all

lemma latest_checkpoint_split:
  "latest_checkpoint i ms best = best \<and> (\<forall>m \<in> set ms. summary_of m = None) \<or>
    (\<exists>xs m ys s. ms = xs @ m # ys \<and> summary_of m = Some s \<and> (\<forall>m \<in> set ys. summary_of m = None) \<and>
       latest_checkpoint i ms best = Some (i + length xs, s))"
proof (induction ms rule: rev_induct)
  case (snoc m ms)
  show ?case
  proof (cases "summary_of m")
    case None
    then have e: "latest_checkpoint i (ms @ [m]) best = latest_checkpoint i ms best"
      by (simp add: latest_checkpoint_append)
    from snoc.IH show ?thesis
    proof
      assume "\<exists>xs m ys s. ms = xs @ m # ys \<and> summary_of m = Some s \<and> (\<forall>m \<in> set ys. summary_of m = None) \<and>
         latest_checkpoint i ms best = Some (i + length xs, s)"
      then obtain xs m' ys s where "ms = xs @ m' # ys" "summary_of m' = Some s" "\<forall>m \<in> set ys. summary_of m = None"
         "latest_checkpoint i ms best = Some (i + length xs, s)" by blast
      with None e show ?thesis by (intro disjI2 exI [of _ xs] exI [of _ m'] exI [of _ "ys @ [m]"] exI [of _ s]) auto
    qed (use None e in auto)
  next
    case (Some s)
    then show ?thesis
      by (intro disjI2 exI [of _ ms] exI [of _ m] exI [of _ "[]"] exI [of _ s]) (simp add: latest_checkpoint_append)
  qed
qed simp

lemma checkpoint_tail:
  assumes "apply_latest_summary_checkpoint messages = (rest, previous)"
  shows "\<forall>m \<in> set (tl rest). summary_of m = None"
  using latest_checkpoint_split [of 0 messages None] assms
  by (auto simp: apply_latest_summary_checkpoint_def dest: in_set_tlD)

lemma stored_checkpoint:
  assumes "\<forall>m \<in> set ys. summary_of m = None" and "summary_of m = Some s"
  shows "apply_latest_summary_checkpoint (xs @ m # ys) = (m # ys, Some s)"
  using assms by (simp add: apply_latest_summary_checkpoint_def latest_checkpoint_append latest_checkpoint_none)

lemma clamp_bounds: "10 \<le> clamp_retention_percentage v \<and> clamp_retention_percentage v \<le> 50"
  by (simp add: clamp_retention_percentage_def Let_def split: sum.split)

lemma boundary_found:
  assumes b: "find_compaction_boundary ms v \<noteq> 0" and n: "3 < length ms"
  shows "find_compaction_boundary ms v < length ms" and "vget (ms ! find_compaction_boundary ms v) ''role'' = VStr ''user''"
    and "max 2 (int (length ms) * clamp_retention_percentage v div 100) \<le> int (length ms) - int (find_compaction_boundary ms v)"
proof -
  let ?p = "clamp_retention_percentage v" and ?b = "find_compaction_boundary ms v"
  let ?keep = "max 2 (int (length ms) * ?p div 100)"
  let ?users = "filter (\<lambda>i. vget (ms ! i) ''role'' = VStr ''user'') [0..<length ms]"
  from b obtain f: "List.find (\<lambda>i. int i \<le> max 1 (int (length ms) - ?keep)) (rev (tl ?users)) = Some ?b"
    unfolding find_compaction_boundary_def Let_def by (auto split: option.splits)
  have t: "?b \<in> set (tl ?users)" "int ?b \<le> max 1 (int (length ms) - ?keep)" using find_SomeD [OF f] by auto
  from t(1) have u: "?b \<in> set ?users" by (rule in_set_tlD)
  then show "?b < length ms" "vget (ms ! ?b) ''role'' = VStr ''user''" by auto
  have "int (length ms) * ?p \<le> int (length ms) * 50" using clamp_bounds [of v] by (intro mult_left_mono) auto
  then have "int (length ms) * ?p div 100 \<le> int (length ms) * 50 div 100" by (rule zdiv_mono1) simp
  then have "?keep \<le> int (length ms) - 1" using n by linarith
  with t(2) show "?keep \<le> int (length ms) - int ?b" by linarith
qed

text \<open>C18. A compacted request sends on a suffix of the conversation since the last summary: it begins with a
  user message, has at least two messages and the retained percentage of them, and once its summary is
  stored with its first message the next request starts from exactly there.\<close>

theorem compaction_keeps_recent:
  assumes run: "compact_messages_for_request generate config messages metadata chat_id system_prompt = (Inr c, events)"
    and comp: "co_compacted c"
  shows "\<exists>sys rest previous b s.
    sys = (if vget (hd messages) ''role'' = VStr ''system'' \<and> messages \<noteq> [] then [hd messages] else []) \<and>
    apply_latest_summary_checkpoint (drop (length sys) messages) = (rest, previous) \<and>
    co_messages c = sys @ drop b rest \<and> co_summary c = Some s \<and> 0 < b \<and> b < length rest \<and>
    vget (rest ! b) ''role'' = VStr ''user'' \<and>
    max 2 (int (length rest) * clamp_retention_percentage (VInt (cc_retention_percentage config)) div 100)
      \<le> int (length rest) - int b \<and>
    (py_strip s \<noteq> [] \<longrightarrow>
       (let m = dset (rest ! b) ''contextSummary'' (VStr s)
        in apply_latest_summary_checkpoint (take b rest @ m # drop (Suc b) rest) = (m # drop (Suc b) rest, Some s)))"
proof -
  define sys where "sys = (if messages \<noteq> [] \<and> vget (hd messages) ''role'' = VStr ''system'' then [hd messages] else [])"
  have d: "(if sys \<noteq> [] then tl messages else messages) = drop (length sys) messages"
    by (simp add: sys_def drop_Suc)
  obtain rest previous where r: "apply_latest_summary_checkpoint (drop (length sys) messages) = (rest, previous)" by fastforce
  define b where "b = find_compaction_boundary rest (VInt (cc_retention_percentage config))"
  from run comp obtain s where s: "3 < length rest" "take b rest \<noteq> []" "drop b rest \<noteq> []"
    "co_messages c = sys @ drop b rest" "co_summary c = Some s"
    unfolding compact_messages_for_request_def Let_def sys_def [symmetric] d r prod.case b_def [symmetric]
    by (auto split: if_splits sum.splits)
  then have b: "b \<noteq> 0" "b < length rest" by (auto simp: not_le)
  note f = boundary_found [OF b(1) [unfolded b_def] s(1), folded b_def]
  have "\<forall>m \<in> set (drop (Suc b) rest). summary_of m = None"
    using checkpoint_tail [OF r] by (auto simp: drop_Suc dest: in_set_dropD)
  moreover have "summary_of (dset (rest ! b) ''contextSummary'' (VStr s)) = Some s" if "py_strip s \<noteq> []"
    using that by (auto simp: summary_of_def py_or_def py_strip_def)
  ultimately have "py_strip s \<noteq> [] \<longrightarrow> (let m = dset (rest ! b) ''contextSummary'' (VStr s)
      in apply_latest_summary_checkpoint (take b rest @ m # drop (Suc b) rest) = (m # drop (Suc b) rest, Some s))"
    by (simp add: Let_def stored_checkpoint)
  with b f r s(4,5) show ?thesis
    by (intro exI [of _ sys] exI [of _ rest] exI [of _ previous] exI [of _ b] exI [of _ s]) (simp add: sys_def conj_commute)
qed

definition sample_conversation :: "dict list" where
  "sample_conversation =
     [[(''role'', VStr ''user''), (''content'', VStr ''a'')],
      [(''role'', VStr ''assistant''), (''content'', VStr ''b'')],
      [(''role'', VStr ''user''), (''content'', VStr ''c''), (''id'', VStr ''m3'')],
      [(''role'', VStr ''assistant''), (''usage'', VDict [(''prompt_tokens'', VInt 90), (''completion_tokens'', VInt 20)])],
      [(''role'', VStr ''user''), (''content'', VStr ''d'')]]"

definition sample_config :: compaction_config where
  "sample_config = \<lparr>cc_enable = True, cc_token_threshold = 100, cc_token_cap = 100, cc_retention_percentage = 40,
     cc_prompt_template = VStr []\<rparr>"

theorem compaction_keeps_recent_witness:
  "\<exists>c events. compact_messages_for_request (\<lambda>old recent prev. Inr ''sum'') sample_config sample_conversation [] (Some ''chat'') []
      = (Inr c, events) \<and> co_compacted c \<and> co_stored c = Some (''chat'', VStr ''m3'', ''sum'') \<and>
    (\<exists>b. co_messages c = drop b sample_conversation \<and> 0 < b)"
proof -
  have run: "compact_messages_for_request (\<lambda>old recent prev. Inr ''sum'') sample_config sample_conversation [] (Some ''chat'') [] =
    (Inr \<lparr>co_messages = drop 2 sample_conversation, co_summary = Some ''sum'', co_compacted = True, co_events = [],
       co_stored = Some (''chat'', VStr ''m3'', ''sum'')\<rparr>, [])"
    by code_simp
  have "apply_latest_summary_checkpoint sample_conversation = (sample_conversation, None)" by code_simp
  moreover have "vget (hd sample_conversation) ''role'' \<noteq> VStr ''system''" by code_simp
  ultimately show ?thesis using compaction_keeps_recent [OF run] run by auto
qed

end
