(* ===== verification/ChatFork.thy ===== *)
theory ChatFork
  imports ChatHistory
begin

text \<open>
  Forking a chat, \<open>backend/open_webui/utils/chat_fork.py\<close>: the branch that ends with a message becomes a
  history of its own. The walk up the parents remembers the ids it follows, so it ends on every input.
\<close>

text \<open>\<open>branch\<close> holds what has been found so far, the last one first.\<close>

function fork_branch :: "messages \<Rightarrow> pyval \<Rightarrow> string list \<Rightarrow> (string \<times> dict) list \<Rightarrow> (string \<times> dict) list result" where
  "fork_branch m message_id seen branch =
     (if \<not> truthy message_id then Inr branch
      else case message_id of
             VStr s \<Rightarrow>
               if s \<in> set seen then Inl (ValueError ''message branch contains a cycle'')
               else (case dget m s of
                       None \<Rightarrow> Inl (ValueError ''message not found'')
                     | Some msg \<Rightarrow> fork_branch m (vget msg ''parentId'') (s # seen) ((s, msg) # branch))
           | _ \<Rightarrow> Inl (if hashable message_id then ValueError ''message not found'' else TypeError))"
  by pat_completeness auto

termination
proof (relation "measure (\<lambda>(m, message_id, seen, branch). length (filter (\<lambda>k. k \<notin> set seen) (dkeys m)))", goal_cases)
  case (2 m message_id seen branch s msg)
  then have "s \<in> set (dkeys m)" by (force dest: dget_Some_in)
  from filter_unseen_less [OF this, of id s "set seen"] 2 show ?case by simp
qed simp

declare fork_branch.simps [simp del]

text \<open>The branch from its root: each copy gets its own id and parent and no children, and the one before it
  gets it as its only child.\<close>

definition fork_copy :: "pyval \<Rightarrow> string \<Rightarrow> dict \<Rightarrow> dict" where
  "fork_copy parent_id i msg =
     dset (dset (dset msg ''id'' (VStr i)) ''parentId'' parent_id) ''childrenIds'' (VList [])"

fun fork_messages :: "pyval \<Rightarrow> (string \<times> dict) list \<Rightarrow> messages \<Rightarrow> messages" where
  "fork_messages parent_id [] acc = acc"
| "fork_messages parent_id ((i, msg) # rest) acc =
     (let acc1 = (case parent_id of
                    VStr p \<Rightarrow> (case dget acc p of
                                 Some pm \<Rightarrow> dset acc p (dset pm ''childrenIds'' (VList [VStr i])) | None \<Rightarrow> acc)
                  | _ \<Rightarrow> acc)
      in fork_messages (VStr i) rest (dset acc1 i (fork_copy parent_id i msg)))"

definition build_fork_history :: "messages \<Rightarrow> pyval \<Rightarrow> history result" where
  "build_fork_history m source =
     (if m = [] then Inl (ValueError ''chat has no messages to fork'')
      else rbind (fork_branch m source [] []) (\<lambda>branch.
             Inr \<lparr>hi_messages = fork_messages VNone branch [], hi_current = source\<rparr>))"

section \<open>The branch\<close>

lemma fork_branch_sound:
  "fork_branch m v seen branch = Inr xs \<Longrightarrow> distinct (dkeys branch) \<Longrightarrow> set (dkeys branch) \<subseteq> set seen \<Longrightarrow>
    (\<forall>(i, msg) \<in> set branch. dget m i = Some msg \<and> i \<noteq> []) \<Longrightarrow>
    \<exists>ys. xs = ys @ branch \<and> distinct (dkeys xs) \<and> (\<forall>(i, msg) \<in> set xs. dget m i = Some msg \<and> i \<noteq> []) \<and>
      (if truthy v then ys \<noteq> [] \<and> v = VStr (fst (last ys)) else ys = [])"
proof (induction m v seen branch rule: fork_branch.induct)
  case (1 m v seen branch)
  show ?case
  proof (cases "truthy v")
    case False
    with 1 show ?thesis by (subst (asm) fork_branch.simps) auto
  next
    case True
    with "1.prems"(1) obtain s msg where v: "v = VStr s" "s \<notin> set seen" "dget m s = Some msg"
      and r: "fork_branch m (vget msg ''parentId'') (s # seen) ((s, msg) # branch) = Inr xs"
      by (subst (asm) fork_branch.simps) (auto split: pyval.splits if_splits option.splits)
    have "s \<noteq> []" using True v(1) by simp
    then obtain ys where ys: "xs = ys @ (s, msg) # branch" "distinct (dkeys xs)"
      "\<forall>(i, msg) \<in> set xs. dget m i = Some msg \<and> i \<noteq> []"
      using "1.IH" [OF _ v(1,2,3) r] True "1.prems"(2-4) v by fastforce
    then show ?thesis using True v(1) by (intro exI [of _ "ys @ [(s, msg)]"]) simp
  qed
qed

text \<open>The branch of a message are the message and those above it, each the parent of the next.\<close>

definition parent_links :: "messages \<Rightarrow> (string \<times> string) set" where
  "parent_links m = {(c, p). p \<noteq> [] \<and> parent_field m c = Some (VStr p)}"

definition child_of_previous :: "string \<times> dict \<Rightarrow> string \<times> dict \<Rightarrow> bool" where
  "child_of_previous e1 e2 \<longleftrightarrow> vget (snd e2) ''parentId'' = VStr (fst e1)"

lemma links_from: "dget m s = Some msg \<Longrightarrow>
    {k. (s, k) \<in> (parent_links m)\<^sup>*} = insert s {k. \<exists>p. vget msg ''parentId'' = VStr p \<and> p \<noteq> [] \<and> (p, k) \<in> (parent_links m)\<^sup>*}"
  by (auto simp: parent_links_def parent_field_def elim: converse_rtranclE intro: converse_rtrancl_into_rtrancl)

lemma fork_branch_chain:
  "fork_branch m v seen branch = Inr xs \<Longrightarrow>
    \<exists>ys. xs = ys @ branch \<and> fst ` set ys = {k. \<exists>s. v = VStr s \<and> s \<noteq> [] \<and> (s, k) \<in> (parent_links m)\<^sup>*} \<and>
      successively child_of_previous ys \<and> (ys \<noteq> [] \<longrightarrow> \<not> truthy (vget (snd (hd ys)) ''parentId'')) \<and>
      (if truthy v then ys \<noteq> [] \<and> v = VStr (fst (last ys)) else ys = [])"
proof (induction m v seen branch rule: fork_branch.induct)
  case (1 m v seen branch)
  show ?case
  proof (cases "truthy v")
    case False
    with 1 show ?thesis by (subst (asm) fork_branch.simps) auto
  next
    case True
    with "1.prems" obtain s msg where v: "v = VStr s" "s \<notin> set seen" "dget m s = Some msg"
      and r: "fork_branch m (vget msg ''parentId'') (s # seen) ((s, msg) # branch) = Inr xs"
      by (subst (asm) fork_branch.simps) (auto split: pyval.splits if_splits option.splits)
    have s: "s \<noteq> []" using True v(1) by simp
    let ?v = "vget msg ''parentId''"
    obtain ys where ys: "xs = ys @ (s, msg) # branch"
      "fst ` set ys = {k. \<exists>p. ?v = VStr p \<and> p \<noteq> [] \<and> (p, k) \<in> (parent_links m)\<^sup>*}"
      "successively child_of_previous ys" "ys \<noteq> [] \<longrightarrow> \<not> truthy (vget (snd (hd ys)) ''parentId'')"
      "if truthy ?v then ys \<noteq> [] \<and> ?v = VStr (fst (last ys)) else ys = []"
      using "1.IH" [OF _ v r] True by blast
    have "fst ` set (ys @ [(s, msg)]) = {k. (s, k) \<in> (parent_links m)\<^sup>*}" unfolding links_from [OF v(3)] using ys(2) by auto
    moreover have "successively child_of_previous (ys @ [(s, msg)])"
      using ys(3, 5) by (auto simp: successively_append_iff child_of_previous_def split: if_splits)
    moreover have "\<not> truthy (vget (snd (hd (ys @ [(s, msg)]))) ''parentId'')" using ys(4, 5) by (cases ys) (auto split: if_splits)
    ultimately show ?thesis using True v(1) s ys(1) by (intro exI [of _ "ys @ [(s, msg)]"]) simp
  qed
qed

section \<open>The new history\<close>

text \<open>The messages of a fork in one go: each names the one before it as its parent and the one after it as its
  only child.\<close>

fun linked :: "pyval \<Rightarrow> (string \<times> dict) list \<Rightarrow> messages" where
  "linked parent_id [] = []"
| "linked parent_id ((i, msg) # rest) =
     (i, case rest of [] \<Rightarrow> fork_copy parent_id i msg
         | (j, _) # _ \<Rightarrow> dset (fork_copy parent_id i msg) ''childrenIds'' (VList [VStr j])) # linked (VStr i) rest"

lemma dset_last: "p \<notin> fst ` set pre \<Longrightarrow> dset (pre @ [(p, v)]) p w = pre @ [(p, w)]"
  by (induction pre) auto

lemma fork_messages_linked:
  "distinct (dkeys (pre @ (p, pm) # rest)) \<Longrightarrow>
    fork_messages (VStr p) rest (pre @ [(p, pm)]) =
      pre @ (p, case rest of [] \<Rightarrow> pm | (j, _) # _ \<Rightarrow> dset pm ''childrenIds'' (VList [VStr j])) # linked (VStr p) rest"
proof (induction rest arbitrary: pre p pm)
  case (Cons e rest)
  obtain i msg where e: "e = (i, msg)" by (cases e)
  have p: "p \<notin> fst ` set pre" "dget pre p = None" and i: "i \<noteq> p" "i \<notin> fst ` set pre"
    using Cons.prems e by (auto simp: dget_None_iff)
  let ?pm = "dset pm ''childrenIds'' (VList [VStr i])"
  have "dget (pre @ [(p, ?pm)]) i = None" using i by (auto simp: dget_None_iff)
  then have "fork_messages (VStr p) (e # rest) (pre @ [(p, pm)]) =
      fork_messages (VStr i) rest ((pre @ [(p, ?pm)]) @ [(i, fork_copy (VStr p) i msg)])"
    using p by (simp add: e dset_last dset_fresh map_add_def)
  also have "\<dots> = (pre @ [(p, ?pm)]) @ (i, case rest of [] \<Rightarrow> fork_copy (VStr p) i msg
      | (j, _) # _ \<Rightarrow> dset (fork_copy (VStr p) i msg) ''childrenIds'' (VList [VStr j])) # linked (VStr i) rest"
    by (rule Cons.IH) (use Cons.prems e in auto)
  finally show ?case by (simp add: e)
qed simp

lemma fork_messages_all: "distinct (dkeys xs) \<Longrightarrow> fork_messages VNone xs [] = linked VNone xs"
proof (cases xs)
  case (Cons e rest)
  obtain i msg where "e = (i, msg)" by (cases e)
  moreover assume "distinct (dkeys xs)"
  ultimately show ?thesis using fork_messages_linked [of "[]" i "fork_copy VNone i msg" rest] Cons by simp
qed simp

lemma dkeys_linked [simp]: "dkeys (linked pid xs) = dkeys xs"
  by (induction pid xs rule: linked.induct) simp_all

lemma length_linked [simp]: "length (linked pid xs) = length xs"
  by (induction pid xs rule: linked.induct) simp_all

lemma linked_key_set [simp]: "fst ` set (linked pid xs) = fst ` set xs"
  by (induction pid xs rule: linked.induct) simp_all

lemma linked_nth:
  "j < length xs \<Longrightarrow> fst (linked pid xs ! j) = fst (xs ! j) \<and>
    vget (snd (linked pid xs ! j)) ''parentId'' = (if j = 0 then pid else VStr (fst (xs ! (j - 1)))) \<and>
    vget (snd (linked pid xs ! j)) ''childrenIds'' =
      VList (map VStr (if Suc j < length xs then [fst (xs ! Suc j)] else [])) \<and>
    vget (snd (linked pid xs ! j)) ''id'' = VStr (fst (xs ! j)) \<and>
    (\<forall>f. f \<noteq> ''id'' \<and> f \<noteq> ''parentId'' \<and> f \<noteq> ''childrenIds'' \<longrightarrow> vget (snd (linked pid xs ! j)) f = vget (snd (xs ! j)) f)"
proof (induction pid xs arbitrary: j rule: linked.induct)
  case (2 pid i msg rest)
  show ?case
  proof (cases j)
    case 0
    then show ?thesis by (cases rest) (auto simp: fork_copy_def split: prod.split)
  next
    case (Suc k)
    with 2 show ?thesis by (cases k) auto
  qed
qed simp

lemmas linked_keys = linked_nth [THEN conjunct1]

lemmas linked_parents = linked_nth [THEN conjunct2, THEN conjunct1]

lemma linked_parent_field:
  assumes "distinct (dkeys xs)"
  shows "parent_field (linked VNone xs) c = Some v \<longleftrightarrow>
    (\<exists>j < length xs. fst (xs ! j) = c \<and> v = (if j = 0 then VNone else VStr (fst (xs ! (j - 1)))))"
proof -
  have w: "wf_dict (linked VNone xs)" using assms by (simp add: wf_dict_def)
  have "parent_field (linked VNone xs) c = Some v \<longleftrightarrow> (\<exists>m. (c, m) \<in> set (linked VNone xs) \<and> v = vget m ''parentId'')"
    using wf_dict_dget [OF w] by (auto simp: parent_field_def dest: dget_Some_in)
  also have "\<dots> \<longleftrightarrow> (\<exists>j < length xs. fst (linked VNone xs ! j) = c \<and> v = vget (snd (linked VNone xs ! j)) ''parentId'')"
    by (auto simp: in_set_conv_nth) (metis prod.collapse)+
  also have "\<dots> \<longleftrightarrow> (\<exists>j < length xs. fst (xs ! j) = c \<and> v = (if j = 0 then VNone else VStr (fst (xs ! (j - 1)))))"
    by (intro iff_exI conj_cong refl) (simp_all only: linked_keys linked_parents)
  finally show ?thesis .
qed

lemma key_index:
  assumes "distinct (dkeys xs)" and "i < length xs" and "j < length xs" and "fst (xs ! i) = fst (xs ! j)"
  shows "i = j"
  using assms nth_eq_iff_index_eq [of "dkeys xs" i j] by simp

lemma linked_tree:
  assumes d: "distinct (dkeys xs)"
  shows "tree_history (linked VNone xs)"
proof -
  let ?t = "linked VNone xs"
  define rank where "rank c = (THE j. j < length xs \<and> fst (xs ! j) = c)" for c
  have rank: "rank (fst (xs ! j)) = j" if "j < length xs" for j
    unfolding rank_def using that key_index [OF d] by (intro the_equality) auto
  have "rank p < rank c" if "parent_field ?t c = Some (VStr p)" for c p
    using that unfolding linked_parent_field [OF d] by (auto simp: rank split: if_splits)
  moreover have "v = VNone \<or> (\<exists>p. v = VStr p \<and> p \<in> fst ` set ?t)" if "parent_field ?t k = Some v" for k v
  proof -
    from that obtain j where "j < length xs" "v = (if j = 0 then VNone else VStr (fst (xs ! (j - 1))))"
      unfolding linked_parent_field [OF d] by blast
    moreover have "fst (xs ! (j - 1)) \<in> fst ` set ?t" if "j < length xs"
    proof -
      have "xs ! (j - 1) \<in> set xs" using that by (intro nth_mem) simp
      then show ?thesis by simp
    qed
    ultimately show ?thesis by auto
  qed
  moreover have "\<exists>cs. vget m ''childrenIds'' = VList (map VStr cs) \<and> distinct cs \<and>
      (\<forall>c. c \<in> set cs \<longleftrightarrow> parent_field ?t c = Some (VStr k))" if "dget ?t k = Some m" for k m
  proof -
    from dget_Some_in [OF that] obtain j where j: "j < length xs" "linked VNone xs ! j = (k, m)"
      by (auto simp: in_set_conv_nth)
    let ?cs = "if Suc j < length xs then [fst (xs ! Suc j)] else []"
    have k: "fst (xs ! j) = k" "vget m ''childrenIds'' = VList (map VStr ?cs)"
      using linked_nth [OF j(1), of VNone] j(2) by simp_all
    have "c \<in> set ?cs \<longleftrightarrow> parent_field ?t c = Some (VStr k)" for c
    proof -
      have "parent_field ?t c = Some (VStr k) \<longleftrightarrow>
          (\<exists>i < length xs. fst (xs ! i) = c \<and> i \<noteq> 0 \<and> fst (xs ! (i - 1)) = fst (xs ! j))"
        unfolding linked_parent_field [OF d] k(1) by auto
      also have "\<dots> \<longleftrightarrow> (\<exists>i < length xs. fst (xs ! i) = c \<and> i = Suc j)"
        using key_index [OF d _ j(1)] by (intro iff_exI) (auto simp: gr0_conv_Suc)
      finally show ?thesis by auto
    qed
    with k(2) show ?thesis by (intro exI [of _ ?cs]) auto
  qed
  ultimately show ?thesis using d unfolding tree_history_def by (auto simp: wf_dict_def)
qed

lemma fork_branch_total:
  fixes rank :: "string \<Rightarrow> nat"
  assumes r: "\<And>c p. parent_field m c = Some (VStr p) \<Longrightarrow> rank p < rank c" and t: "tree_history m"
  shows "s \<in> fst ` set m \<Longrightarrow> (\<And>k. k \<in> set seen \<Longrightarrow> rank s < rank k) \<Longrightarrow>
    \<exists>xs. fork_branch m (VStr s) seen branch = Inr xs"
proof (induction "rank s" arbitrary: s seen branch rule: less_induct)
  case less
  obtain msg where m: "dget m s = Some msg" by (rule dget_present [OF less.prems(1)])
  have s: "s \<notin> set seen" using less.prems(2) by blast
  have pf: "parent_field m s = Some (vget msg ''parentId'')" using m by (simp add: parent_field_def)
  then have "vget msg ''parentId'' = VNone \<or> (\<exists>p. vget msg ''parentId'' = VStr p \<and> p \<in> fst ` set m)"
    using t unfolding tree_history_def by blast
  then have "\<exists>xs. fork_branch m (vget msg ''parentId'') (s # seen) ((s, msg) # branch) = Inr xs"
  proof (elim disjE exE conjE)
    fix p assume p: "vget msg ''parentId'' = VStr p" "p \<in> fst ` set m"
    have lt: "rank p < rank s" using r [of s p] pf p(1) by simp
    have "rank p < rank k" if "k \<in> set (s # seen)" for k using that lt less.prems(2) [of k] by fastforce
    from less.hyps [OF lt p(2) this] show ?thesis unfolding p(1) .
  qed (subst fork_branch.simps, simp)
  then show ?case using m s by (cases "s = []") (subst fork_branch.simps, simp)+
qed

text \<open>Whatever the messages, a fork that succeeds is a tree.\<close>

lemma fork_good:
  assumes r: "build_fork_history m source = Inr h" and t: "truthy source"
  shows "tree_history (hi_messages h) \<and> hi_current h = source \<and> leaf_of (hi_messages h) source \<and>
    (\<forall>k m1. dget (hi_messages h) k = Some m1 \<longrightarrow> vget m1 ''id'' = VStr k \<and>
      (\<exists>m0. dget m k = Some m0 \<and>
        (\<forall>f. f \<noteq> ''id'' \<and> f \<noteq> ''parentId'' \<and> f \<noteq> ''childrenIds'' \<longrightarrow> vget m1 f = vget m0 f)))"
proof -
  from r t obtain xs where b: "fork_branch m source [] [] = Inr xs" and h: "h = \<lparr>hi_messages = fork_messages VNone xs [], hi_current = source\<rparr>"
    by (auto simp: build_fork_history_def rbind_Inr_iff split: if_splits)
  from fork_branch_sound [OF b] t have xs: "distinct (dkeys xs)" "\<forall>(i, msg) \<in> set xs. dget m i = Some msg \<and> i \<noteq> []"
    "xs \<noteq> []" "source = VStr (fst (last xs))" by auto
  note f = fork_messages_all [OF xs(1)]
  let ?l = "fst (last xs)"
  have l: "?l = fst (xs ! (length xs - 1))" using xs(3) by (simp add: last_conv_nth)
  have "parent_field (linked VNone xs) c \<noteq> Some (VStr ?l)" for c
  proof
    assume "parent_field (linked VNone xs) c = Some (VStr ?l)"
    then obtain j where j: "j < length xs" "j \<noteq> 0" "fst (xs ! (j - 1)) = fst (xs ! (length xs - 1))"
      unfolding linked_parent_field [OF xs(1)] l by (auto split: if_splits)
    then have "j - 1 = length xs - 1" by (intro key_index [OF xs(1)]) auto
    with j show False by simp
  qed
  moreover have "?l \<in> fst ` set (linked VNone xs)"
    using xs(3) by simp
  moreover have "vget m1 ''id'' = VStr k \<and> (\<exists>m0. dget m k = Some m0 \<and>
      (\<forall>f. f \<noteq> ''id'' \<and> f \<noteq> ''parentId'' \<and> f \<noteq> ''childrenIds'' \<longrightarrow> vget m1 f = vget m0 f))"
    if "dget (linked VNone xs) k = Some m1" for k m1
  proof -
    from dget_Some_in [OF that] obtain j where j: "j < length xs" "linked VNone xs ! j = (k, m1)"
      by (auto simp: in_set_conv_nth)
    have "dget m (fst (xs ! j)) = Some (snd (xs ! j))" using xs(2) nth_mem [OF j(1)] by (cases "xs ! j") auto
    with linked_nth [OF j(1), of VNone] j(2) show ?thesis by auto
  qed
  ultimately show ?thesis using linked_tree [OF xs(1)] xs(4) unfolding h f by simp
qed

lemma fork_keeps_branch:
  assumes "build_fork_history m (VStr s) = Inr h" "s \<noteq> []"
  shows "fst ` set (hi_messages h) = {k. (s, k) \<in> (parent_links m)\<^sup>*}"
    "dget (hi_messages h) k = Some m1 \<Longrightarrow> dget m k = Some m0 \<Longrightarrow>
      vget m1 ''parentId'' = (if truthy (vget m0 ''parentId'') then vget m0 ''parentId'' else VNone)"
proof -
  obtain xs where b: "fork_branch m (VStr s) [] [] = Inr xs" and h: "h = \<lparr>hi_messages = fork_messages VNone xs [], hi_current = VStr s\<rparr>"
    using assms by (auto simp: build_fork_history_def rbind_Inr_iff split: if_splits)
  have xs: "distinct (dkeys xs)" "\<forall>(i, msg) \<in> set xs. dget m i = Some msg \<and> i \<noteq> []" using fork_branch_sound [OF b] by auto
  have c: "fst ` set xs = {k. (s, k) \<in> (parent_links m)\<^sup>*}" "successively child_of_previous xs"
    "xs \<noteq> [] \<Longrightarrow> \<not> truthy (vget (snd (hd xs)) ''parentId'')" using fork_branch_chain [OF b] assms(2) by auto
  note f = fork_messages_all [OF xs(1)]
  show "fst ` set (hi_messages h) = {k. (s, k) \<in> (parent_links m)\<^sup>*}" unfolding h using f c(1) by simp
  have ne: "fst e \<noteq> []" if "e \<in> set xs" for e using xs(2) that by (cases e) auto
  assume k: "dget (hi_messages h) k = Some m1" "dget m k = Some m0"
  then obtain j where j: "j < length xs" "linked VNone xs ! j = (k, m1)" using h f by (auto simp: in_set_conv_nth dest!: dget_Some_in)
  have "xs ! j = (k, m0)" using linked_keys [OF j(1), of VNone] j(2) xs(2) nth_mem [OF j(1)] k(2) by (cases "xs ! j") auto
  moreover have "vget m1 ''parentId'' = (if j = 0 then VNone else VStr (fst (xs ! (j - 1))))" using linked_parents [OF j(1), of VNone] j(2) by simp
  moreover have "j \<noteq> 0 \<Longrightarrow> child_of_previous (xs ! (j - 1)) (xs ! j)" using successively_nth [OF c(2), of "j - 1"] j(1) by simp
  moreover have "j = 0 \<Longrightarrow> \<not> truthy (vget (snd (xs ! j)) ''parentId'')" using c(3) j(1) by (cases xs) auto
  moreover have "j \<noteq> 0 \<Longrightarrow> fst (xs ! (j - 1)) \<noteq> []" using ne [OF nth_mem, of "j - 1"] j(1) by simp
  ultimately show "vget m1 ''parentId'' = (if truthy (vget m0 ''parentId'') then vget m0 ''parentId'' else VNone)"
    by (cases "j = 0") (auto simp: child_of_previous_def)
qed

text \<open>C19. Every message of a history that is a tree can be forked: the fork is a tree whose messages are exactly the message and those
  above it, each under the parent it had and otherwise as it was except for the list of its children; its current message is the source,
  which is now a leaf.\<close>

theorem fork_is_tree:
  assumes t: "tree_history m" and s: "s \<in> fst ` set m" "s \<noteq> []"
  shows "\<exists>h. build_fork_history m (VStr s) = Inr h \<and>
    tree_history (hi_messages h) \<and> hi_current h = VStr s \<and> leaf_of (hi_messages h) (VStr s) \<and>
    fst ` set (hi_messages h) = {k. (s, k) \<in> (parent_links m)\<^sup>*} \<and>
    (\<forall>k m1. dget (hi_messages h) k = Some m1 \<longrightarrow> vget m1 ''id'' = VStr k \<and>
      (\<exists>m0. dget m k = Some m0 \<and> vget m1 ''parentId'' = (if truthy (vget m0 ''parentId'') then vget m0 ''parentId'' else VNone) \<and>
        (\<forall>f. f \<noteq> ''id'' \<and> f \<noteq> ''parentId'' \<and> f \<noteq> ''childrenIds'' \<longrightarrow> vget m1 f = vget m0 f)))"
proof -
  obtain rank :: "string \<Rightarrow> nat" where "\<forall>c p. parent_field m c = Some (VStr p) \<longrightarrow> rank p < rank c"
    using tree_rank [OF t] by (elim exE)
  note r = this [rule_format]
  have "\<exists>xs. fork_branch m (VStr s) [] [] = Inr xs" by (rule fork_branch_total [where rank = rank, OF r t s(1)]) simp_all
  then have "\<exists>h. build_fork_history m (VStr s) = Inr h" using s(1) by (auto simp: build_fork_history_def)
  then obtain h where h: "build_fork_history m (VStr s) = Inr h" by blast
  have "truthy (VStr s)" using s(2) by simp
  note g = fork_good [OF h this] and k = fork_keeps_branch [OF h s(2)]
  have "vget m1 ''id'' = VStr k \<and>
      (\<exists>m0. dget m k = Some m0 \<and> vget m1 ''parentId'' = (if truthy (vget m0 ''parentId'') then vget m0 ''parentId'' else VNone) \<and>
        (\<forall>f. f \<noteq> ''id'' \<and> f \<noteq> ''parentId'' \<and> f \<noteq> ''childrenIds'' \<longrightarrow> vget m1 f = vget m0 f))"
    if km: "dget (hi_messages h) k = Some m1" for k m1
  proof -
    obtain m0 where "vget m1 ''id'' = VStr k" "dget m k = Some m0"
      "\<forall>f. f \<noteq> ''id'' \<and> f \<noteq> ''parentId'' \<and> f \<noteq> ''childrenIds'' \<longrightarrow> vget m1 f = vget m0 f" using g km by blast
    then show ?thesis using k(2) [OF km] by blast
  qed
  then show ?thesis using g k(1) h s(2) by (intro exI [of _ h]) simp
qed

theorem fork_is_tree_witness:
  "\<exists>h. build_fork_history sample_tree (VStr ''c'') = Inr h \<and> tree_history (hi_messages h) \<and>
    hi_current h = VStr ''c'' \<and> leaf_of (hi_messages h) (VStr ''c'') \<and>
    fst ` set (hi_messages h) = {k. (''c'', k) \<in> (parent_links sample_tree)\<^sup>*}"
proof -
  have "''c'' \<in> fst ` set sample_tree" "''c'' \<noteq> []" by (simp_all add: sample_tree_def)
  from fork_is_tree [OF sample_is_tree this] show ?thesis by (elim exE conjE) (intro exI conjI)
qed

end
