(* ===== verification/AnthropicStream.thy ===== *)
theory AnthropicStream
  imports PyText
begin

text \<open>
  The streaming half of \<open>backend/open_webui/utils/anthropic.py\<close>:
  \<open>openai_stream_to_anthropic_stream\<close> turns the chunks of an OpenAI answer into the events of
  Anthropic's protocol. The state of the generator is a record, an event it yields is a value of \<open>sse\<close>, and an
  exception raised half-way through a chunk ends the loop with the events yielded so far, as the
  handler around it does. \<open>json.loads\<close> is the argument \<open>loads\<close>, \<open>None\<close> where it raises, and the random
  identifiers are the sequence \<open>fresh\<close>.
\<close>

section \<open>Events\<close>

datatype block =
  Thinking_block
| Text_block
| Tool_block pyval pyval

datatype delta =
  Thinking_delta pyval
| Text_delta pyval
| Json_delta string

record usage_state =
  us_input :: pyval
  us_output :: pyval
  us_cache_creation :: pyval
  us_cache_read :: pyval
  us_output_details :: pyval
  us_server_tool_use :: pyval
  us_service_tier :: pyval

datatype sse =
  Message_start string string pyval
| Block_start nat block
| Block_delta nat delta
| Block_stop nat
| Message_delta string dict
| Message_stop

text \<open>The data of an event and the text sent for it.\<close>

fun block_data :: "block \<Rightarrow> pyval" where
  "block_data Thinking_block = VDict [(''type'', VStr ''thinking''), (''thinking'', VStr [])]"
| "block_data Text_block = VDict [(''type'', VStr ''text''), (''text'', VStr [])]"
| "block_data (Tool_block i name) =
     VDict [(''type'', VStr ''tool_use''), (''id'', i), (''name'', name), (''input'', VDict [])]"

fun delta_data :: "delta \<Rightarrow> pyval" where
  "delta_data (Thinking_delta t) = VDict [(''type'', VStr ''thinking_delta''), (''thinking'', t)]"
| "delta_data (Text_delta t) = VDict [(''type'', VStr ''text_delta''), (''text'', t)]"
| "delta_data (Json_delta s) = VDict [(''type'', VStr ''input_json_delta''), (''partial_json'', VStr s)]"

fun sse_data :: "sse \<Rightarrow> dict" where
  "sse_data (Message_start i model input_tokens) =
     [(''type'', VStr ''message_start''),
      (''message'', VDict
        [(''id'', VStr i), (''type'', VStr ''message''), (''role'', VStr ''assistant''), (''content'', VList []),
         (''model'', VStr model), (''stop_reason'', VNone), (''stop_sequence'', VNone),
         (''usage'', VDict [(''input_tokens'', py_or input_tokens (VInt 0)), (''output_tokens'', VInt 0)])])]"
| "sse_data (Block_start n b) =
     [(''type'', VStr ''content_block_start''), (''index'', VInt (int n)), (''content_block'', block_data b)]"
| "sse_data (Block_delta n d) =
     [(''type'', VStr ''content_block_delta''), (''index'', VInt (int n)), (''delta'', delta_data d)]"
| "sse_data (Block_stop n) = [(''type'', VStr ''content_block_stop''), (''index'', VInt (int n))]"
| "sse_data (Message_delta reason usage) =
     [(''type'', VStr ''message_delta''),
      (''delta'', VDict [(''stop_reason'', VStr reason), (''stop_sequence'', VNone)]), (''usage'', VDict usage)]"
| "sse_data Message_stop = [(''type'', VStr ''message_stop'')]"

definition sse_text :: "sse \<Rightarrow> string" where
  "sse_text e =
     (let nl = [char_of (10::nat)]
      in ''event: '' @ py_str (vget (sse_data e) ''type'') @ nl @ ''data: '' @ json_dumps True (VDict (sse_data e)) @ nl @ nl)"

section \<open>State\<close>

record tool_call =
  tc_id :: pyval
  tc_name :: pyval
  tc_arguments :: string
  tc_block :: nat
  tc_started :: bool
  tc_stopped :: bool

record astream =
  an_out :: "sse list"
  an_usage :: usage_state
  an_stop_reason :: string
  an_index :: nat
  an_thinking :: bool
  an_text :: bool
  an_tools :: "(pyval, tool_call) pydict"
  an_tool_ids :: "(pyval, pyval) pydict"
  an_has_tools :: bool
  an_fresh :: nat

text \<open>A part of the loop body: the state it leaves and the exception it ends with.\<close>

type_synonym outcome = "astream \<times> py_error option"

definition attempt :: "'a result \<Rightarrow> astream \<Rightarrow> ('a \<Rightarrow> outcome) \<Rightarrow> outcome" where
  "attempt r s f = (case r of Inl e \<Rightarrow> (s, Some e) | Inr x \<Rightarrow> f x)"

definition and_then :: "outcome \<Rightarrow> (astream \<Rightarrow> outcome) \<Rightarrow> outcome" where
  "and_then r f = (case snd r of None \<Rightarrow> f (fst r) | Some e \<Rightarrow> r)"

fun each :: "('a \<Rightarrow> astream \<Rightarrow> outcome) \<Rightarrow> 'a list \<Rightarrow> astream \<Rightarrow> outcome" where
  "each f [] s = (s, None)"
| "each f (x # xs) s = and_then (f x s) (each f xs)"

definition emit :: "sse \<Rightarrow> astream \<Rightarrow> astream" where
  "emit e s = s\<lparr>an_out := an_out s @ [e]\<rparr>"

section \<open>Usage\<close>

text \<open>What both conversions read from a usage: cache creation, cache read, input and output tokens.\<close>

definition usage_numbers :: "dict \<Rightarrow> (pyval \<times> pyval \<times> pyval \<times> pyval) result" where
  "usage_numbers u =
     (let creation = vget u ''cache_creation_input_tokens'';
          details = vget u ''prompt_tokens_details'';
          cached = vget u ''cache_read_input_tokens'';
          read = (if cached = VNone then case details of VDict d \<Rightarrow> vget d ''cached_tokens'' | _ \<Rightarrow> cached else cached);
          output = (if vget u ''output_tokens'' = VNone then vget u ''completion_tokens'' else vget u ''output_tokens'')
      in if vget u ''input_tokens'' \<noteq> VNone then Inr (creation, read, vget u ''input_tokens'', output)
         else if vget u ''prompt_tokens'' = VNone then Inr (creation, read, VNone, output)
         else rbind (py_number (vget u ''prompt_tokens'')) (\<lambda>p.
              rbind (py_number (py_or creation (VInt 0))) (\<lambda>c.
              rbind (py_number (py_or read (VInt 0))) (\<lambda>r.
                Inr (creation, read, VInt (max (p - c - r) 0), output)))))"

definition given_or :: "pyval \<Rightarrow> pyval \<Rightarrow> pyval" where
  "given_or v old = (if v = VNone then old else v)"

definition dict_or :: "pyval \<Rightarrow> pyval \<Rightarrow> pyval" where
  "dict_or v old = (if is_dict v then v else old)"

definition usage_step :: "pyval \<Rightarrow> astream \<Rightarrow> outcome" where
  "usage_step usage_data s =
     (case usage_data of
        VDict u \<Rightarrow> attempt (usage_numbers u) s (\<lambda>(creation, read, input, output).
          (s\<lparr>an_usage := \<lparr>us_input = given_or input (us_input (an_usage s)),
                           us_output = given_or output (us_output (an_usage s)),
                           us_cache_creation = given_or creation (us_cache_creation (an_usage s)),
                           us_cache_read = given_or read (us_cache_read (an_usage s)),
                           us_output_details = dict_or (vget u ''output_tokens_details'') (us_output_details (an_usage s)),
                           us_server_tool_use = dict_or (vget u ''server_tool_use'') (us_server_tool_use (an_usage s)),
                           us_service_tier = given_or (vget u ''service_tier'') (us_service_tier (an_usage s))\<rparr>\<rparr>, None))
      | _ \<Rightarrow> (s, None))"

section \<open>One piece of data\<close>

text \<open>The reasoning of a choice: five places, then the thinking blocks.\<close>

fun first_text :: "pyval list \<Rightarrow> pyval \<Rightarrow> pyval" where
  "first_text [] found = found"
| "first_text (VDict b # bs) found =
     (let t = py_or (py_or (vget b ''thinking'') (vget b ''content'')) (vget b ''text'')
      in if truthy t then t else first_text bs t)"
| "first_text (_ # bs) found = first_text bs found"

fun first_truthy :: "pyval result list \<Rightarrow> pyval result" where
  "first_truthy [] = Inr VNone"
| "first_truthy [r] = r"
| "first_truthy (r # rs) = rbind r (\<lambda>v. if truthy v then Inr v else first_truthy rs)"

definition reasoning_of :: "pyval \<Rightarrow> pyval \<Rightarrow> pyval result" where
  "reasoning_of delta message =
     rbind (first_truthy [py_get delta ''reasoning_content'', py_get delta ''reasoning'', py_get delta ''thinking'',
                          py_get message ''reasoning_content'', py_get message ''reasoning'']) (\<lambda>reasoning.
       if truthy reasoning then Inr reasoning
       else rbind (first_truthy [py_get delta ''thinking_blocks'', py_get message ''thinking_blocks'', Inr (VList [])]) (\<lambda>blocks.
            rbind (py_iter blocks) (\<lambda>bs. Inr (first_text bs reasoning))))"

definition close_thinking :: "astream \<Rightarrow> astream" where
  "close_thinking s =
     (if an_thinking s
      then (emit (Block_stop (an_index s)) s)\<lparr>an_thinking := False, an_index := an_index s + 1\<rparr> else s)"

definition close_text :: "astream \<Rightarrow> astream" where
  "close_text s =
     (if an_text s
      then (emit (Block_stop (an_index s)) s)\<lparr>an_text := False, an_index := an_index s + 1\<rparr> else s)"

definition thinking_step :: "pyval \<Rightarrow> astream \<Rightarrow> astream" where
  "thinking_step reasoning s =
     (if truthy reasoning \<and> \<not> an_text s \<and> \<not> an_has_tools s
      then let s1 = (if an_thinking s then s
                     else (emit (Block_start (an_index s) Thinking_block) s)\<lparr>an_thinking := True\<rparr>)
           in emit (Block_delta (an_index s1) (Thinking_delta reasoning)) s1
      else s)"

definition text_step :: "pyval \<Rightarrow> astream \<Rightarrow> astream" where
  "text_step content s =
     (if truthy content \<and> \<not> an_has_tools s
      then let s1 = close_thinking s;
               s2 = (if an_text s1 then s1
                     else (emit (Block_start (an_index s1) Text_block) s1)\<lparr>an_text := True\<rparr>)
           in emit (Block_delta (an_index s2) (Text_delta content)) s2
      else s)"

text \<open>The call a delta belongs to: the one with its id, the last one at its index, or a new one under a
  generated id. A key that cannot be hashed raises, after the new entry is there.\<close>

definition new_call :: "pyval \<Rightarrow> pyval \<Rightarrow> tool_call" where
  "new_call i name = \<lparr>tc_id = i, tc_name = name, tc_arguments = [], tc_block = 0, tc_started = False, tc_stopped = False\<rparr>"

definition need_hashable :: "pyval \<Rightarrow> unit result" where
  "need_hashable v = (if hashable v then Inr () else Inl TypeError)"

definition resolve_call :: "(nat \<Rightarrow> string) \<Rightarrow> pyval \<Rightarrow> pyval \<Rightarrow> pyval \<Rightarrow> astream \<Rightarrow> (pyval \<Rightarrow> astream \<Rightarrow> outcome) \<Rightarrow> outcome" where
  "resolve_call fresh i ix name s f =
     (if truthy i
      then attempt (need_hashable i) s (\<lambda>_.
        let s1 = (if dget (an_tools s) i = None then s\<lparr>an_tools := dset (an_tools s) i (new_call i name)\<rparr> else s)
        in attempt (need_hashable ix) s1 (\<lambda>_. f i (s1\<lparr>an_tool_ids := dset (an_tool_ids s1) ix i\<rparr>)))
      else attempt (need_hashable ix) s (\<lambda>_.
        case dget (an_tool_ids s) ix of
          Some i' \<Rightarrow> f i' s
        | None \<Rightarrow>
            let i' = VStr (fresh (an_fresh s))
            in f i' (s\<lparr>an_tools := dset (an_tools s) i' (new_call i' name), an_fresh := an_fresh s + 1,
                       an_tool_ids := dset (an_tool_ids s) ix i'\<rparr>)))"

text \<open>The updates of the entry of a call; it is there.\<close>

definition call_of :: "astream \<Rightarrow> pyval \<Rightarrow> tool_call" where
  "call_of s i = (case dget (an_tools s) i of Some t \<Rightarrow> t | None \<Rightarrow> new_call i VNone)"

definition put_call :: "pyval \<Rightarrow> tool_call \<Rightarrow> astream \<Rightarrow> astream" where
  "put_call i t s = s\<lparr>an_tools := dset (an_tools s) i t\<rparr>"

definition name_call :: "pyval \<Rightarrow> pyval \<Rightarrow> astream \<Rightarrow> astream" where
  "name_call i name s =
     (let t = call_of s i in if truthy name \<and> \<not> truthy (tc_name t) then put_call i (t\<lparr>tc_name := name\<rparr>) s else s)"

definition begin_call :: "pyval \<Rightarrow> astream \<Rightarrow> astream" where
  "begin_call i s =
     (let t = call_of s i
      in if \<not> tc_started t \<and> truthy (tc_name t)
         then (emit (Block_start (an_index s) (Tool_block (tc_id t) (tc_name t)))
                (put_call i (t\<lparr>tc_block := an_index s, tc_started := True\<rparr>) s))\<lparr>an_index := an_index s + 1\<rparr>
         else s)"

definition start_call :: "pyval \<Rightarrow> astream \<Rightarrow> astream" where
  "start_call i s =
     (let t = call_of s i
      in if \<not> tc_started t \<and> truthy (tc_name t) then (begin_call i s)\<lparr>an_has_tools := True\<rparr> else s)"

definition arguments_step :: "(string \<Rightarrow> pyval option) \<Rightarrow> pyval \<Rightarrow> pyval \<Rightarrow> astream \<Rightarrow> outcome" where
  "arguments_step loads i chunk s =
     (if truthy chunk
      then attempt (as_text chunk) s (\<lambda>a.
        let t = (call_of s i)\<lparr>tc_arguments := tc_arguments (call_of s i) @ a\<rparr>;
            s1 = put_call i t s;
            live = (tc_started t \<and> \<not> tc_stopped t);
            s2 = (if live then emit (Block_delta (tc_block t) (Json_delta a)) s1 else s1)
        in (if live \<and> loads (tc_arguments t) \<noteq> None
            then emit (Block_stop (tc_block t)) (put_call i (t\<lparr>tc_stopped := True\<rparr>) s2) else s2, None))
      else (s, None))"

definition tool_step :: "(nat \<Rightarrow> string) \<Rightarrow> (string \<Rightarrow> pyval option) \<Rightarrow> pyval \<Rightarrow> astream \<Rightarrow> outcome" where
  "tool_step fresh loads tool_call s =
     attempt (py_get_or tool_call ''index'' (VInt 0)) s (\<lambda>ix.
     attempt (py_get_or tool_call ''id'' (VStr [])) s (\<lambda>i.
     attempt (py_get tool_call ''function'') s (\<lambda>function.
     attempt (py_get_or (py_or function (VDict [])) ''name'' (VStr [])) s (\<lambda>name.
     attempt (py_get_or (py_or function (VDict [])) ''arguments'' (VStr [])) s (\<lambda>chunk.
       resolve_call fresh i ix name s (\<lambda>i' s1. arguments_step loads i' chunk (start_call i' (name_call i' name s1))))))))"

definition tools_step :: "(nat \<Rightarrow> string) \<Rightarrow> (string \<Rightarrow> pyval option) \<Rightarrow> pyval \<Rightarrow> astream \<Rightarrow> outcome" where
  "tools_step fresh loads tool_calls s =
     (if truthy tool_calls
      then let s1 = close_text (close_thinking s)
           in attempt (py_iter tool_calls) s1 (\<lambda>calls. each (tool_step fresh loads) calls s1)
      else (s, None))"

definition stop_reason_of :: "pyval \<Rightarrow> string result" where
  "stop_reason_of finish_reason =
     (if \<not> hashable finish_reason then Inl TypeError
      else Inr (if finish_reason = VStr ''stop'' then ''end_turn''
                else if finish_reason = VStr ''length'' then ''max_tokens''
                else if finish_reason = VStr ''tool_calls'' then ''tool_use'' else ''end_turn''))"

definition finish_step :: "pyval \<Rightarrow> astream \<Rightarrow> outcome" where
  "finish_step finish_reason s =
     (if finish_reason = VNone then (s, None)
      else attempt (stop_reason_of finish_reason) s (\<lambda>r. (s\<lparr>an_stop_reason := r\<rparr>, None)))"

definition choice_step :: "(nat \<Rightarrow> string) \<Rightarrow> (string \<Rightarrow> pyval option) \<Rightarrow> pyval \<Rightarrow> astream \<Rightarrow> outcome" where
  "choice_step fresh loads choices s =
     attempt (py_first choices) s (\<lambda>choice.
     attempt (py_get_or choice ''delta'' (VDict [])) s (\<lambda>delta.
     attempt (py_get choice ''finish_reason'') s (\<lambda>finish_reason.
     attempt (py_get choice ''message'') s (\<lambda>given_message.
       let message = py_or given_message (VDict [])
       in attempt (reasoning_of delta message) s (\<lambda>reasoning.
          attempt (py_get delta ''content'') (thinking_step reasoning s) (\<lambda>content.
            let s1 = text_step content (thinking_step reasoning s)
            in attempt (first_truthy [py_get delta ''tool_calls'', py_get message ''tool_calls'']) s1 (\<lambda>tool_calls.
                 and_then (tools_step fresh loads tool_calls s1) (finish_step finish_reason))))))))"

definition data_step :: "(nat \<Rightarrow> string) \<Rightarrow> (string \<Rightarrow> pyval option) \<Rightarrow> pyval \<Rightarrow> astream \<Rightarrow> outcome" where
  "data_step fresh loads data s =
     attempt (py_get data ''usage'') s (\<lambda>usage_data.
       and_then (usage_step usage_data s) (\<lambda>s1.
         attempt (py_get_or data ''choices'' (VList [])) s1 (\<lambda>choices.
           if truthy choices then choice_step fresh loads choices s1 else (s1, None))))"

section \<open>The whole stream\<close>

text \<open>The lines of a chunk that carry data.\<close>

definition line_data :: "(string \<Rightarrow> pyval option) \<Rightarrow> string \<Rightarrow> pyval list" where
  "line_data loads line =
     (let l = py_strip line; d = py_strip (drop 5 l)
      in if take 5 l \<noteq> ''data:'' \<or> d = ''[DONE]'' \<or> d = ''{}'' then []
         else case loads d of None \<Rightarrow> [] | Some v \<Rightarrow> [v])"

definition chunk_data :: "(string \<Rightarrow> pyval option) \<Rightarrow> string \<Rightarrow> pyval list" where
  "chunk_data loads chunk = concat (map (line_data loads) (py_split (char_of (10::nat)) (py_strip chunk)))"

definition initial :: "string \<Rightarrow> string \<Rightarrow> pyval \<Rightarrow> astream" where
  "initial message_id model input_tokens =
     \<lparr>an_out = [Message_start message_id model input_tokens],
      an_usage = \<lparr>us_input = input_tokens, us_output = VInt 0, us_cache_creation = VNone, us_cache_read = VNone,
                   us_output_details = VNone, us_server_tool_use = VNone, us_service_tier = VNone\<rparr>,
      an_stop_reason = ''end_turn'', an_index = 0, an_thinking = False, an_text = False, an_tools = [],
      an_tool_ids = [], an_has_tools = False, an_fresh = 0\<rparr>"

text \<open>Tools that got a name and never a block.\<close>

definition flush_call :: "pyval \<Rightarrow> astream \<Rightarrow> astream" where
  "flush_call i s =
     (let t = call_of s i
      in if \<not> tc_started t \<and> truthy (tc_name t)
         then (let s1 = begin_call i s
               in if tc_arguments t \<noteq> [] then emit (Block_delta (an_index s) (Json_delta (tc_arguments t))) s1 else s1)
         else s)"

definition stop_call :: "pyval \<Rightarrow> astream \<Rightarrow> astream" where
  "stop_call i s =
     (let t = call_of s i in if tc_started t \<and> \<not> tc_stopped t then emit (Block_stop (tc_block t)) s else s)"

definition final_usage :: "usage_state \<Rightarrow> dict" where
  "final_usage u =
     (''output_tokens'', us_output u) #
     filter (\<lambda>kv. snd kv \<noteq> VNone)
       [(''input_tokens'', us_input u), (''cache_creation_input_tokens'', us_cache_creation u),
        (''cache_read_input_tokens'', us_cache_read u), (''output_tokens_details'', us_output_details u),
        (''server_tool_use'', us_server_tool_use u), (''service_tier'', us_service_tier u)]"

definition close_blocks :: "astream \<Rightarrow> astream" where
  "close_blocks s =
     (let s1 = close_thinking s;
          s2 = fold flush_call (dkeys (an_tools s1)) s1;
          s3 = (if an_text s2 then emit (Block_stop (an_index s2)) s2 else s2)
      in fold stop_call (dkeys (an_tools s3)) s3)"

definition finish_stream :: "astream \<Rightarrow> sse list" where
  "finish_stream s =
     (let s1 = close_blocks s
      in an_out s1 @ [Message_delta (an_stop_reason s1) (final_usage (an_usage s1)), Message_stop])"

definition openai_stream_to_anthropic_stream ::
  "(nat \<Rightarrow> string) \<Rightarrow> (string \<Rightarrow> pyval option) \<Rightarrow> string \<Rightarrow> string \<Rightarrow> pyval \<Rightarrow> string list \<Rightarrow> sse list" where
  "openai_stream_to_anthropic_stream fresh loads message_id model input_tokens chunks =
     finish_stream (fst (each (data_step fresh loads) (concat (map (chunk_data loads) chunks))
                           (initial message_id model input_tokens)))"

section \<open>The protocol\<close>

text \<open>The clients' rules: blocks are numbered from zero in the order of their starts, a delta goes to an open block of its kind, a
  block is stopped once, thinking and text blocks stand alone and come before the first tool block. The state holds the next number,
  the open blocks and whether a tool block has been started.\<close>

datatype kind = Thinking | Text | Tool

fun block_kind :: "block \<Rightarrow> kind" where
  "block_kind Thinking_block = Thinking"
| "block_kind Text_block = Text"
| "block_kind (Tool_block i name) = Tool"

fun delta_kind :: "delta \<Rightarrow> kind" where
  "delta_kind (Thinking_delta t) = Thinking"
| "delta_kind (Text_delta t) = Text"
| "delta_kind (Json_delta a) = Tool"

type_synonym protocol = "nat \<times> (nat \<times> kind) set \<times> bool"

fun accept :: "sse \<Rightarrow> protocol \<Rightarrow> protocol option" where
  "accept (Block_start i b) (n, blocks, tools) =
     (if i = n \<and> (if block_kind b = Tool then \<forall>p \<in> blocks. snd p = Tool else blocks = {} \<and> \<not> tools)
      then Some (n + 1, insert (i, block_kind b) blocks, tools \<or> block_kind b = Tool) else None)"
| "accept (Block_delta i d) (n, blocks, tools) =
     (if (i, delta_kind d) \<in> blocks then Some (n, blocks, tools) else None)"
| "accept (Block_stop i) (n, blocks, tools) =
     (if i \<in> fst ` blocks then Some (n, {p \<in> blocks. fst p \<noteq> i}, tools) else None)"
| "accept _ st = None"

fun accept_all :: "sse list \<Rightarrow> protocol \<Rightarrow> protocol option" where
  "accept_all [] st = Some st"
| "accept_all (e # es) st = (case accept e st of None \<Rightarrow> None | Some st' \<Rightarrow> accept_all es st')"

definition body_state :: "sse list \<Rightarrow> protocol option" where
  "body_state out = accept_all (tl out) (0, {}, False)"

lemma accept_all_append:
  "accept_all (xs @ ys) st = (case accept_all xs st of None \<Rightarrow> None | Some st' \<Rightarrow> accept_all ys st')"
  by (induction xs arbitrary: st) (auto split: option.split)

lemma body_state_snoc:
  "out \<noteq> [] \<Longrightarrow> body_state out = Some st \<Longrightarrow> body_state (out @ [e]) = accept e st"
  by (simp add: body_state_def accept_all_append split: option.split)

lemma body_state_snoc2:
  "out \<noteq> [] \<Longrightarrow> body_state out = Some st \<Longrightarrow> body_state (out @ [e, f]) =
     (case accept e st of None \<Rightarrow> None | Some st' \<Rightarrow> accept f st')"
  by (auto simp: body_state_def accept_all_append split: option.split)

section \<open>The invariant of the stream\<close>

definition block_of :: "(pyval, tool_call) pydict \<Rightarrow> pyval \<Rightarrow> nat option" where
  "block_of tools k = (case dget tools k of Some t \<Rightarrow> if tc_started t then Some (tc_block t) else None | None \<Rightarrow> None)"

definition live_block :: "(pyval, tool_call) pydict \<Rightarrow> pyval \<Rightarrow> nat option" where
  "live_block tools k =
     (case dget tools k of Some t \<Rightarrow> if tc_started t \<and> \<not> tc_stopped t then Some (tc_block t) else None | None \<Rightarrow> None)"

definition open_calls :: "(pyval, tool_call) pydict \<Rightarrow> (nat \<times> kind) set" where
  "open_calls tools = (\<lambda>n. (n, Tool)) ` ran (live_block tools)"

definition any_started :: "(pyval, tool_call) pydict \<Rightarrow> bool" where
  "any_started tools \<longleftrightarrow> (\<exists>k n. block_of tools k = Some n)"

definition opened :: "astream \<Rightarrow> (nat \<times> kind) set" where
  "opened s = (if an_thinking s then {(an_index s, Thinking)} else {}) \<union> (if an_text s then {(an_index s, Text)} else {})
     \<union> open_calls (an_tools s)"

definition next_index :: "astream \<Rightarrow> nat" where
  "next_index s = an_index s + of_bool (an_thinking s \<or> an_text s)"

definition known_key :: "(nat \<Rightarrow> string) \<Rightarrow> string set \<Rightarrow> nat \<Rightarrow> pyval \<Rightarrow> bool" where
  "known_key fresh ids n k \<longleftrightarrow> (\<forall>x. k = VStr x \<longrightarrow> x \<in> ids \<or> (\<exists>m < n. x = fresh m))"

definition blocks_distinct :: "(pyval, tool_call) pydict \<Rightarrow> nat \<Rightarrow> bool" where
  "blocks_distinct tools n \<longleftrightarrow>
     (\<forall>k b. block_of tools k = Some b \<longrightarrow> b < n) \<and>
     (\<forall>k k' b. block_of tools k = Some b \<longrightarrow> block_of tools k' = Some b \<longrightarrow> k = k') \<and>
     (\<forall>k t. dget tools k = Some t \<longrightarrow> tc_stopped t \<longrightarrow> tc_started t)"

lemma block_of_dset: "block_of (dset tools i t) = (block_of tools)(i := if tc_started t then Some (tc_block t) else None)"
  by (auto simp: block_of_def)

lemma live_block_dset:
  "live_block (dset tools i t) = (live_block tools)(i := if tc_started t \<and> \<not> tc_stopped t then Some (tc_block t) else None)"
  by (auto simp: live_block_def)

lemma live_block_of: "live_block tools k = Some n \<Longrightarrow> block_of tools k = Some n"
  by (auto simp: live_block_def block_of_def split: option.splits if_splits)

definition stream_inv :: "sse \<Rightarrow> astream \<Rightarrow> bool" where
  "stream_inv first s \<longleftrightarrow>
     an_out s \<noteq> [] \<and> hd (an_out s) = first \<and>
     body_state (an_out s) = Some (next_index s, opened s, any_started (an_tools s)) \<and>
     \<not> (an_thinking s \<and> an_text s) \<and> (any_started (an_tools s) \<longrightarrow> \<not> an_thinking s \<and> \<not> an_text s) \<and>
     blocks_distinct (an_tools s) (an_index s)"

text \<open>The keys of the calls and the routes to them.\<close>

definition keys_inv :: "(nat \<Rightarrow> string) \<Rightarrow> string set \<Rightarrow> astream \<Rightarrow> bool" where
  "keys_inv fresh ids s \<longleftrightarrow>
     wf_dict (an_tools s) \<and> (any_started (an_tools s) \<longrightarrow> an_has_tools s) \<and>
     (\<forall>k \<in> fst ` set (an_tools s). known_key fresh ids (an_fresh s) k) \<and>
     (\<forall>ix i. dget (an_tool_ids s) ix = Some i \<longrightarrow> i \<in> fst ` set (an_tools s))"

text \<open>No call waits for its block but those with a key in \<open>K\<close>.\<close>

definition calm_but :: "pyval set \<Rightarrow> astream \<Rightarrow> bool" where
  "calm_but K s \<longleftrightarrow> (\<forall>k t. dget (an_tools s) k = Some t \<longrightarrow> \<not> tc_started t \<longrightarrow> truthy (tc_name t) \<longrightarrow> k \<in> K)"

lemma emit_simps [simp]:
  "an_out (emit e s) = an_out s @ [e]" "an_tools (emit e s) = an_tools s" "an_index (emit e s) = an_index s"
  "an_thinking (emit e s) = an_thinking s" "an_text (emit e s) = an_text s" "an_has_tools (emit e s) = an_has_tools s"
  "an_tool_ids (emit e s) = an_tool_ids s" "an_fresh (emit e s) = an_fresh s"
  by (simp_all add: emit_def)

lemma put_call_simps [simp]:
  "an_out (put_call i t s) = an_out s" "an_tools (put_call i t s) = dset (an_tools s) i t" "an_index (put_call i t s) = an_index s"
  "an_thinking (put_call i t s) = an_thinking s" "an_text (put_call i t s) = an_text s"
  "an_has_tools (put_call i t s) = an_has_tools s" "an_tool_ids (put_call i t s) = an_tool_ids s"
  "an_fresh (put_call i t s) = an_fresh s"
  by (simp_all add: put_call_def)

lemma stream_inv_cong:
  "stream_inv first s \<Longrightarrow> an_out s' = an_out s \<Longrightarrow> an_index s' = an_index s \<Longrightarrow> an_thinking s' = an_thinking s \<Longrightarrow>
    an_text s' = an_text s \<Longrightarrow> an_tools s' = an_tools s \<Longrightarrow> stream_inv first s'"
  by (simp add: stream_inv_def opened_def next_index_def)

subsection \<open>Thinking and text\<close>

lemma inv_close_thinking: "stream_inv first s \<Longrightarrow> stream_inv first (close_thinking s)"
  by (auto simp: stream_inv_def close_thinking_def body_state_snoc opened_def next_index_def blocks_distinct_def open_calls_def
      any_started_def ran_def less_Suc_eq dest: live_block_of)

lemma inv_close_text: "stream_inv first s \<Longrightarrow> stream_inv first (close_text s)"
  by (auto simp: stream_inv_def close_text_def body_state_snoc opened_def next_index_def blocks_distinct_def open_calls_def
      any_started_def ran_def less_Suc_eq dest: live_block_of)

lemma no_open_calls: "\<not> any_started tools \<Longrightarrow> open_calls tools = {}"
  by (auto simp: open_calls_def any_started_def ran_def dest: live_block_of)

lemma inv_thinking_step:
  "stream_inv first s \<Longrightarrow> keys_inv fresh ids s \<Longrightarrow> stream_inv first (thinking_step r s)"
  by (auto simp: stream_inv_def keys_inv_def thinking_step_def body_state_snoc body_state_snoc2 opened_def next_index_def
      no_open_calls Let_def)

lemma inv_open_text:
  "stream_inv first s \<Longrightarrow> \<not> any_started (an_tools s) \<Longrightarrow> \<not> an_thinking s \<Longrightarrow> \<not> an_text s \<Longrightarrow>
    stream_inv first ((emit (Block_start (an_index s) Text_block) s)\<lparr>an_text := True\<rparr>)"
  by (simp add: stream_inv_def body_state_snoc opened_def next_index_def no_open_calls)

lemma inv_text_delta: "stream_inv first s \<Longrightarrow> an_text s \<Longrightarrow> stream_inv first (emit (Block_delta (an_index s) (Text_delta t)) s)"
  by (simp add: stream_inv_def body_state_snoc opened_def next_index_def)

lemma close_thinking_simps [simp]:
  "an_tools (close_thinking s) = an_tools s" "an_text (close_thinking s) = an_text s" "\<not> an_thinking (close_thinking s)"
  "an_has_tools (close_thinking s) = an_has_tools s" "an_tool_ids (close_thinking s) = an_tool_ids s"
  "an_fresh (close_thinking s) = an_fresh s"
  by (simp_all add: close_thinking_def)

lemma close_text_simps [simp]:
  "an_tools (close_text s) = an_tools s" "an_thinking (close_text s) = an_thinking s" "\<not> an_text (close_text s)"
  "an_has_tools (close_text s) = an_has_tools s" "an_tool_ids (close_text s) = an_tool_ids s"
  "an_fresh (close_text s) = an_fresh s"
  by (simp_all add: close_text_def)

lemma inv_text_step:
  assumes s: "stream_inv first s" and k: "keys_inv fresh ids s"
  shows "stream_inv first (text_step c s)"
proof (cases "truthy c \<and> \<not> an_has_tools s")
  case True
  let ?s1 = "close_thinking s"
  let ?s2 = "if an_text ?s1 then ?s1 else (emit (Block_start (an_index ?s1) Text_block) ?s1)\<lparr>an_text := True\<rparr>"
  have "\<not> any_started (an_tools ?s1)" using True k by (auto simp: keys_inv_def)
  then have "stream_inv first ?s2" "an_text ?s2" using inv_close_thinking [OF s] inv_open_text [of first ?s1] by auto
  from inv_text_delta [OF this] True show ?thesis by (simp add: text_step_def Let_def)
qed (use s in \<open>auto simp: text_step_def\<close>)

lemma thinking_step_simps [simp]:
  "an_tools (thinking_step r s) = an_tools s" "an_text (thinking_step r s) = an_text s"
  "an_has_tools (thinking_step r s) = an_has_tools s" "an_tool_ids (thinking_step r s) = an_tool_ids s"
  "an_fresh (thinking_step r s) = an_fresh s"
  by (simp_all add: thinking_step_def Let_def)

lemma text_step_simps [simp]:
  "an_tools (text_step c s) = an_tools s" "an_has_tools (text_step c s) = an_has_tools s"
  "an_tool_ids (text_step c s) = an_tool_ids s" "an_fresh (text_step c s) = an_fresh s"
  by (simp_all add: text_step_def Let_def)

subsection \<open>Calls\<close>

text \<open>A call that keeps its block may change anything else; a new call has none.\<close>

lemma inv_put_call:
  assumes s: "stream_inv first s"
    and t: "(if tc_started t then Some (tc_block t) else None) = block_of (an_tools s) i"
      "(if tc_started t \<and> \<not> tc_stopped t then Some (tc_block t) else None) = live_block (an_tools s) i"
      "tc_stopped t \<longrightarrow> tc_started t"
  shows "stream_inv first (put_call i t s)"
proof -
  have "block_of (dset (an_tools s) i t) = block_of (an_tools s)" "live_block (dset (an_tools s) i t) = live_block (an_tools s)"
    unfolding block_of_dset live_block_dset t by simp_all
  with s t(3) show ?thesis
    by (simp add: stream_inv_def opened_def next_index_def any_started_def open_calls_def blocks_distinct_def)
qed

lemma inv_begin_call:
  assumes s: "stream_inv first s" and no: "\<not> an_thinking s" "\<not> an_text s" and i: "i \<in> fst ` set (an_tools s)"
  shows "stream_inv first (begin_call i s)"
proof (cases "\<not> tc_started (call_of s i) \<and> truthy (tc_name (call_of s i))")
  case True
  let ?t = "(call_of s i)\<lparr>tc_block := an_index s, tc_started := True\<rparr>"
  obtain u where u: "dget (an_tools s) i = Some u" "\<not> tc_started u" "call_of s i = u"
    using i True by (cases "dget (an_tools s) i") (auto simp: dget_None_iff call_of_def)
  have no_stop: "\<not> tc_stopped u" using s u unfolding stream_inv_def blocks_distinct_def by blast
  have old: "block_of (an_tools s) i = None" "live_block (an_tools s) i = None"
    using u by (simp_all add: block_of_def live_block_def)
  have bd: "blocks_distinct (dset (an_tools s) i ?t) (Suc (an_index s))"
    using s unfolding stream_inv_def blocks_distinct_def block_of_dset by (auto simp: less_Suc_eq)
  have oc: "open_calls (dset (an_tools s) i ?t) = insert (an_index s, Tool) (open_calls (an_tools s))"
    unfolding open_calls_def live_block_dset using no_stop old u(3) by simp
  have as: "any_started (dset (an_tools s) i ?t)" unfolding any_started_def block_of_dset by auto
  show ?thesis
    using s True bd no oc as by (auto simp: stream_inv_def begin_call_def body_state_snoc opened_def next_index_def Let_def open_calls_def)
qed (use s in \<open>auto simp: begin_call_def Let_def\<close>)

lemma inv_json_delta:
  "stream_inv first s \<Longrightarrow> live_block (an_tools s) i = Some n \<Longrightarrow> stream_inv first (emit (Block_delta n (Json_delta a)) s)"
  by (auto simp: stream_inv_def body_state_snoc opened_def next_index_def open_calls_def intro: ranI)

lemma tool_image_diff: "(\<lambda>n. (n :: 'a, Tool)) ` (A - {n}) = {p \<in> (\<lambda>n. (n, Tool)) ` A. fst p \<noteq> n}"
proof (rule set_eqI)
  fix p :: "'a \<times> kind"
  show "p \<in> (\<lambda>n. (n, Tool)) ` (A - {n}) \<longleftrightarrow> p \<in> {p \<in> (\<lambda>n. (n, Tool)) ` A. fst p \<noteq> n}"
    by (cases p) (auto simp only: image_iff mem_Collect_eq Diff_iff singleton_iff fst_conv prod.inject)
qed

lemma inv_stop_call:
  assumes s: "stream_inv first s" and l: "live_block (an_tools s) i = Some n"
    and t: "tc_started t" "tc_stopped t" "tc_block t = n"
  shows "stream_inv first (emit (Block_stop n) (put_call i t s))"
proof -
  have b: "block_of (an_tools s) i = Some n" by (rule live_block_of [OF l])
  then have same: "block_of (dset (an_tools s) i t) = block_of (an_tools s)" unfolding block_of_dset using t by auto
  have no: "\<not> an_thinking s" "\<not> an_text s" using s b unfolding stream_inv_def any_started_def by blast+
  have inj: "live_block (an_tools s) k = Some n \<Longrightarrow> k = i" for k
    using s b unfolding stream_inv_def blocks_distinct_def by (blast dest: live_block_of)
  have lb: "live_block (dset (an_tools s) i t) = (live_block (an_tools s))(i := None)"
    unfolding live_block_dset using t(2) by simp
  have r: "ran ((live_block (an_tools s))(i := None)) = ran (live_block (an_tools s)) - {n}"
  proof (intro set_eqI iffI)
    fix x assume "x \<in> ran (live_block (an_tools s)) - {n}"
    then obtain k where "live_block (an_tools s) k = Some x" "x \<noteq> n" by (auto simp: ran_def)
    then show "x \<in> ran ((live_block (an_tools s))(i := None))" using l by (intro ranI [of _ k]) auto
  qed (auto simp: ran_def split: if_splits dest: inj)
  have "open_calls (dset (an_tools s) i t) = (\<lambda>n. (n, Tool)) ` (ran (live_block (an_tools s)) - {n})"
    unfolding open_calls_def lb r ..
  also have "\<dots> = {p \<in> open_calls (an_tools s). fst p \<noteq> n}" unfolding open_calls_def by (rule tool_image_diff)
  finally have "open_calls (dset (an_tools s) i t) = {p \<in> open_calls (an_tools s). fst p \<noteq> n}" .
  moreover have "n \<in> fst ` open_calls (an_tools s)" using l by (simp add: open_calls_def image_image ranI)
  moreover have "blocks_distinct (dset (an_tools s) i t) (an_index s)"
    using s t(1) unfolding stream_inv_def blocks_distinct_def same by simp
  moreover have "any_started (dset (an_tools s) i t) = any_started (an_tools s)" by (simp add: any_started_def same)
  ultimately show ?thesis using s no t(3)
    by (simp add: stream_inv_def body_state_snoc opened_def next_index_def)
qed

subsection \<open>The body of the loop\<close>

definition loop_inv :: "sse \<Rightarrow> (nat \<Rightarrow> string) \<Rightarrow> string set \<Rightarrow> astream \<Rightarrow> bool" where
  "loop_inv first fresh ids s \<longleftrightarrow> stream_inv first s \<and> keys_inv fresh ids s"

text \<open>What a part of the body leaves: no call waits for its block, unless an exception ended it outside a text block.\<close>

definition outcome_ok :: "(astream \<Rightarrow> bool) \<Rightarrow> sse \<Rightarrow> (nat \<Rightarrow> string) \<Rightarrow> string set \<Rightarrow> outcome \<Rightarrow> bool" where
  "outcome_ok Q first fresh ids r \<longleftrightarrow>
     loop_inv first fresh ids (fst r) \<and> (calm_but {} (fst r) \<or> snd r \<noteq> None \<and> \<not> an_text (fst r)) \<and> (snd r = None \<longrightarrow> Q (fst r))"

lemma outcome_okI:
  "loop_inv first fresh ids s \<Longrightarrow> calm_but {} s \<Longrightarrow> Q s \<Longrightarrow> outcome_ok Q first fresh ids (s, e)"
  by (simp add: outcome_ok_def)

lemma attempt_ok:
  assumes "loop_inv first fresh ids s" "calm_but {} s" "\<And>x. r = Inr x \<Longrightarrow> outcome_ok Q first fresh ids (f x)"
  shows "outcome_ok Q first fresh ids (attempt r s f)"
  using assms by (cases r) (simp_all add: attempt_def outcome_ok_def)

lemma and_then_ok:
  assumes "outcome_ok P first fresh ids r" "\<And>s. loop_inv first fresh ids s \<Longrightarrow> calm_but {} s \<Longrightarrow> P s \<Longrightarrow> outcome_ok Q first fresh ids (f s)"
  shows "outcome_ok Q first fresh ids (and_then r f)"
  using assms by (cases r) (auto simp: and_then_def outcome_ok_def split: option.splits)

lemma each_ok:
  assumes "loop_inv first fresh ids s" "calm_but {} s" "P s"
    and "\<And>x s. x \<in> set xs \<Longrightarrow> loop_inv first fresh ids s \<Longrightarrow> calm_but {} s \<Longrightarrow> P s \<Longrightarrow> outcome_ok P first fresh ids (f x s)"
  shows "outcome_ok P first fresh ids (each f xs s)"
  using assms
proof (induction xs arbitrary: s)
  case (Cons x xs)
  show ?case unfolding each.simps
    by (rule and_then_ok [where P = P]) (use Cons in auto)
qed (simp add: outcome_okI)

definition no_text :: "astream \<Rightarrow> bool" where
  "no_text s \<longleftrightarrow> \<not> an_thinking s \<and> \<not> an_text s"

lemma known_key_mono: "known_key fresh ids n k \<Longrightarrow> n \<le> m \<Longrightarrow> known_key fresh ids m k"
  by (auto simp: known_key_def intro: less_le_trans)

lemma loop_inv_cong:
  "loop_inv first fresh ids s \<Longrightarrow> an_out s' = an_out s \<Longrightarrow> an_index s' = an_index s \<Longrightarrow> an_thinking s' = an_thinking s \<Longrightarrow>
    an_text s' = an_text s \<Longrightarrow> an_tools s' = an_tools s \<Longrightarrow> an_tool_ids s' = an_tool_ids s \<Longrightarrow>
    an_has_tools s' = an_has_tools s \<Longrightarrow> an_fresh s' = an_fresh s \<Longrightarrow> loop_inv first fresh ids s'"
  using stream_inv_cong [of first s s'] by (simp add: loop_inv_def keys_inv_def)

text \<open>A new call, under the id of the provider or a generated one.\<close>

lemma inv_add_call:
  assumes s: "loop_inv first fresh ids s" and new: "dget (an_tools s) i = None"
    and key: "known_key fresh ids n i" "an_fresh s \<le> n"
  shows "loop_inv first fresh ids (s\<lparr>an_tools := dset (an_tools s) i (new_call i name), an_fresh := n\<rparr>)"
proof -
  have "stream_inv first (put_call i (new_call i name) s)"
    using s new by (intro inv_put_call) (simp_all add: loop_inv_def new_call_def block_of_def live_block_def)
  moreover have "any_started (dset (an_tools s) i (new_call i name)) \<longleftrightarrow> any_started (an_tools s)"
  proof -
    have "(block_of (an_tools s))(i := None) = block_of (an_tools s)" using new by (simp add: fun_upd_idem_iff block_of_def)
    then show ?thesis by (simp add: any_started_def block_of_dset new_call_def)
  qed
  ultimately show ?thesis
    using s key unfolding loop_inv_def keys_inv_def
    by (auto intro: known_key_mono stream_inv_cong [of first "put_call i (new_call i name) s"])
qed

lemma calm_add_call:
  "calm_but {} s \<Longrightarrow> calm_but {i} (s\<lparr>an_tools := dset (an_tools s) i (new_call i name), an_fresh := n\<rparr>)"
  by (auto simp: calm_but_def)

lemma call_of_put [simp]: "call_of (put_call i t s) i = t"
  by (simp add: call_of_def)

lemma call_of_Some: "i \<in> fst ` set (an_tools s) \<Longrightarrow> dget (an_tools s) i = Some (call_of s i)"
  by (cases "dget (an_tools s) i") (auto simp: call_of_def dget_None_iff)

lemma keys_put_call: "keys_inv fresh ids s \<Longrightarrow> i \<in> fst ` set (an_tools s) \<Longrightarrow> (tc_started t \<longrightarrow> an_has_tools s) \<Longrightarrow>
    keys_inv fresh ids (put_call i t s)"
  by (auto simp: keys_inv_def any_started_def block_of_dset split: if_splits)

lemma inv_name_call:
  assumes s: "loop_inv first fresh ids s" and i: "i \<in> fst ` set (an_tools s)"
  shows "loop_inv first fresh ids (name_call i name s)"
proof -
  let ?t = "(call_of s i)\<lparr>tc_name := name\<rparr>"
  note u = call_of_Some [OF i]
  from s u have "stream_inv first (put_call i ?t s)"
    by (intro inv_put_call) (auto simp: loop_inv_def block_of_def live_block_def stream_inv_def blocks_distinct_def)
  moreover have "tc_started ?t \<longrightarrow> an_has_tools s"
    using s u by (auto simp: loop_inv_def keys_inv_def any_started_def block_of_def split: option.splits)
  then have "keys_inv fresh ids (put_call i ?t s)" using s i by (intro keys_put_call) (simp_all add: loop_inv_def)
  ultimately show ?thesis using s by (simp add: name_call_def Let_def loop_inv_def)
qed

lemma inv_start_call:
  assumes s: "loop_inv first fresh ids s" and i: "i \<in> fst ` set (an_tools s)" and no: "no_text s"
  shows "loop_inv first fresh ids (start_call i s)"
proof (cases "\<not> tc_started (call_of s i) \<and> truthy (tc_name (call_of s i))")
  case True
  have "stream_inv first (begin_call i s)" using s i no by (intro inv_begin_call) (simp_all add: loop_inv_def no_text_def)
  then have "stream_inv first ((begin_call i s)\<lparr>an_has_tools := True\<rparr>)" by (rule stream_inv_cong) simp_all
  moreover have "keys_inv fresh ids ((begin_call i s)\<lparr>an_has_tools := True\<rparr>)"
    using s i True by (auto simp: loop_inv_def keys_inv_def begin_call_def Let_def)
  ultimately show ?thesis using True by (simp add: start_call_def loop_inv_def Let_def)
qed (use s in \<open>auto simp: start_call_def Let_def\<close>)

lemma inv_arguments_step:
  assumes s: "loop_inv first fresh ids s" and i: "i \<in> fst ` set (an_tools s)" and c: "calm_but {} s" and no: "no_text s"
  shows "outcome_ok no_text first fresh ids (arguments_step loads i chunk s)"
proof (cases "truthy chunk")
  case True
  have "outcome_ok no_text first fresh ids
     (let t = (call_of s i)\<lparr>tc_arguments := tc_arguments (call_of s i) @ a\<rparr>; s1 = put_call i t s;
          live = (tc_started t \<and> \<not> tc_stopped t);
          s2 = (if live then emit (Block_delta (tc_block t) (Json_delta a)) s1 else s1)
      in (if live \<and> loads (tc_arguments t) \<noteq> None
          then emit (Block_stop (tc_block t)) (put_call i (t\<lparr>tc_stopped := True\<rparr>) s2) else s2, None))" for a
  proof -
    define t where "t = (call_of s i)\<lparr>tc_arguments := tc_arguments (call_of s i) @ a\<rparr>"
    note u = call_of_Some [OF i]
    define s1 where "s1 = put_call i t s"
    have st: "tc_started t \<longrightarrow> an_has_tools s"
      using s u by (auto simp: t_def loop_inv_def keys_inv_def any_started_def block_of_def split: option.splits)
    have "stream_inv first s1" unfolding s1_def
      using s u by (intro inv_put_call) (auto simp: t_def loop_inv_def block_of_def live_block_def stream_inv_def blocks_distinct_def)
    moreover have "keys_inv fresh ids s1" unfolding s1_def
      using s i st by (intro keys_put_call) (simp_all add: loop_inv_def)
    ultimately have l1: "loop_inv first fresh ids s1" by (simp add: loop_inv_def)
    have c1: "calm_but {} s1" "no_text s1" using c no u by (auto simp: s1_def t_def calm_but_def no_text_def)
    show ?thesis
    proof (cases "tc_started t \<and> \<not> tc_stopped t")
      case live: True
      then have lb: "live_block (an_tools s1) i = Some (tc_block t)" by (simp add: s1_def live_block_dset)
      define s2 where "s2 = emit (Block_delta (tc_block t) (Json_delta a)) s1"
      have "stream_inv first s2" unfolding s2_def using l1 lb by (intro inv_json_delta) (simp_all add: loop_inv_def)
      moreover have "keys_inv fresh ids s2" "calm_but {} s2" "no_text s2"
        using l1 c1 by (simp_all add: s2_def loop_inv_def keys_inv_def calm_but_def no_text_def)
      ultimately have 2: "loop_inv first fresh ids s2" "calm_but {} s2" "no_text s2" by (simp_all add: loop_inv_def)
      let ?t = "t\<lparr>tc_stopped := True\<rparr>"
      have lb2: "live_block (an_tools s2) i = Some (tc_block t)" using lb by (simp add: s2_def)
      have "stream_inv first (emit (Block_stop (tc_block t)) (put_call i ?t s2))"
        using 2(1) lb2 live by (intro inv_stop_call) (simp_all add: loop_inv_def)
      moreover have "keys_inv fresh ids (emit (Block_stop (tc_block t)) (put_call i ?t s2))"
        using keys_put_call [of fresh ids s2 i ?t] 2(1) i st by (simp add: loop_inv_def keys_inv_def s2_def s1_def)
      ultimately show ?thesis
        unfolding t_def [symmetric] s1_def [symmetric] Let_def using 2 live
        by (auto simp: s2_def [symmetric] outcome_ok_def loop_inv_def calm_but_def no_text_def)
    next
      case False
      then show ?thesis
        unfolding t_def [symmetric] s1_def [symmetric] Let_def using l1 c1 by (auto simp: outcome_ok_def)
    qed
  qed
  then show ?thesis using True unfolding arguments_step_def by (auto intro: attempt_ok [OF s c])
qed (use s c no in \<open>simp add: arguments_step_def outcome_okI\<close>)

text \<open>Start and arguments of the call that was found or made; nothing else waits for its block.\<close>

lemma inv_route:
  assumes s: "loop_inv first fresh ids s" and i: "i \<in> fst ` set (an_tools s)" and c: "calm_but {i} s" and no: "no_text s"
  shows "outcome_ok no_text first fresh ids (arguments_step loads i chunk (start_call i (name_call i name s)))"
proof -
  let ?s1 = "name_call i name s"
  let ?s2 = "start_call i ?s1"
  have 1: "loop_inv first fresh ids ?s1" "i \<in> fst ` set (an_tools ?s1)" "no_text ?s1" "calm_but {i} ?s1"
    using inv_name_call [OF s i] i no c call_of_Some [OF i] by (auto simp: name_call_def no_text_def calm_but_def Let_def)
  have "calm_but {} ?s2"
  proof (cases "\<not> tc_started (call_of ?s1 i) \<and> truthy (tc_name (call_of ?s1 i))")
    case True
    then show ?thesis using 1(4) by (auto simp: start_call_def begin_call_def calm_but_def Let_def)
  next
    case False
    then have "?s2 = ?s1" by (auto simp: start_call_def Let_def)
    with 1(4) call_of_Some [OF 1(2)] False show ?thesis unfolding calm_but_def by (metis option.inject singletonD)
  qed
  moreover have "i \<in> fst ` set (an_tools ?s2)" "no_text ?s2"
    using 1 by (auto simp: start_call_def begin_call_def no_text_def Let_def)
  ultimately show ?thesis using inv_start_call [OF 1(1,2,3)] by (intro inv_arguments_step)
qed

lemma calm_mono: "calm_but K s \<Longrightarrow> K \<subseteq> L \<Longrightarrow> calm_but L s"
  unfolding calm_but_def by blast

lemma inv_add_route:
  assumes "loop_inv first fresh ids s" and "i \<in> fst ` set (an_tools s)"
  shows "loop_inv first fresh ids (s\<lparr>an_tool_ids := dset (an_tool_ids s) ix i\<rparr>)"
proof -
  have "stream_inv first (s\<lparr>an_tool_ids := dset (an_tool_ids s) ix i\<rparr>)"
    by (rule stream_inv_cong [of _ s]) (use assms(1) in \<open>simp_all add: loop_inv_def\<close>)
  with assms show ?thesis by (simp add: loop_inv_def keys_inv_def)
qed

lemma inv_resolve_call:
  assumes s: "loop_inv first fresh ids s" and c: "calm_but {} s" and no: "no_text s"
    and key: "\<And>x. i = VStr x \<Longrightarrow> x \<in> ids" and fresh: "inj fresh" "\<And>n. fresh n \<notin> ids"
    and f: "\<And>i s1. loop_inv first fresh ids s1 \<Longrightarrow> i \<in> fst ` set (an_tools s1) \<Longrightarrow> calm_but {i} s1 \<Longrightarrow> no_text s1 \<Longrightarrow>
      outcome_ok no_text first fresh ids (f i s1)"
  shows "outcome_ok no_text first fresh ids (resolve_call fresh i ix name s f)"
proof (cases "truthy i")
  case True
  define s1 where "s1 = (if dget (an_tools s) i = None then s\<lparr>an_tools := dset (an_tools s) i (new_call i name)\<rparr> else s)"
  have "loop_inv first fresh ids (s\<lparr>an_tools := dset (an_tools s) i (new_call i name), an_fresh := an_fresh s\<rparr>)"
    if "dget (an_tools s) i = None"
    using key by (intro inv_add_call [OF s that]) (auto simp: known_key_def)
  then have 1: "loop_inv first fresh ids s1" using s by (simp add: s1_def)
  have 2: "i \<in> fst ` set (an_tools s1)" "no_text s1" "calm_but {i} s1"
    using no calm_add_call [OF c, where i = i and name = name and n = "an_fresh s"]
    by (auto simp: s1_def no_text_def dget_None_iff intro: calm_mono [OF c])
  have "outcome_ok no_text first fresh ids (f i (s1\<lparr>an_tool_ids := dset (an_tool_ids s1) ix i\<rparr>))"
    using 2 by (intro f inv_add_route 1) (simp_all add: no_text_def calm_but_def)
  moreover have "outcome_ok no_text first fresh ids (s1, Some TypeError)"
    using 1 2(2) by (simp add: outcome_ok_def no_text_def)
  moreover have "outcome_ok no_text first fresh ids (s, Some TypeError)"
    using s c by (simp add: outcome_ok_def)
  ultimately show ?thesis using True
    unfolding resolve_call_def Let_def attempt_def need_hashable_def s1_def [symmetric] by simp
next
  case False
  let ?i = "VStr (fresh (an_fresh s))"
  have new: "dget (an_tools s) ?i = None"
  proof (rule ccontr)
    assume "dget (an_tools s) ?i \<noteq> None"
    then have "?i \<in> fst ` set (an_tools s)" by (simp add: dget_None_iff)
    with s have "known_key fresh ids (an_fresh s) ?i" by (auto simp: loop_inv_def keys_inv_def)
    then show False using fresh by (auto simp: known_key_def inj_def)
  qed
  define s1 where "s1 = s\<lparr>an_tools := dset (an_tools s) ?i (new_call ?i name), an_fresh := an_fresh s + 1\<rparr>"
  have 1: "loop_inv first fresh ids s1" unfolding s1_def by (rule inv_add_call [OF s new]) (auto simp: known_key_def)
  have 2: "?i \<in> fst ` set (an_tools s1)" "no_text s1" "an_tool_ids s1 = an_tool_ids s"
    using no by (simp_all add: s1_def no_text_def)
  have 3: "calm_but {?i} s1" unfolding s1_def by (rule calm_add_call [OF c])
  have "outcome_ok no_text first fresh ids (f ?i (s1\<lparr>an_tool_ids := dset (an_tool_ids s1) ix ?i\<rparr>))"
    using 2 3 by (intro f inv_add_route 1) (simp_all add: no_text_def calm_but_def)
  then have "outcome_ok no_text first fresh ids (f ?i (s\<lparr>an_tools := dset (an_tools s) ?i (new_call ?i name),
      an_fresh := an_fresh s + 1, an_tool_ids := dset (an_tool_ids s) ix ?i\<rparr>))"
    by (simp add: s1_def)
  moreover have "outcome_ok no_text first fresh ids (f i' s)" if "dget (an_tool_ids s) ix = Some i'" for i'
    using s that no calm_mono [OF c] by (intro f) (auto simp: loop_inv_def keys_inv_def)
  moreover have "outcome_ok no_text first fresh ids (s, Some TypeError)"
    using s c by (simp add: outcome_ok_def)
  ultimately show ?thesis using False
    unfolding resolve_call_def Let_def attempt_def need_hashable_def by (simp split: option.split)
qed

lemma strings_in_iter: "py_iter v = Inr xs \<Longrightarrow> x \<in> set xs \<Longrightarrow> is_dict x \<Longrightarrow> strings_in x \<subseteq> strings_in v"
  by (cases v) auto

lemma strings_in_first: "py_first v = Inr w \<Longrightarrow> is_dict w \<Longrightarrow> strings_in w \<subseteq> strings_in v"
  by (cases v rule: py_first.cases) auto

lemma first_truthy_in: "first_truthy rs = Inr v \<Longrightarrow> Inr v \<in> set rs \<or> v = VNone"
  by (induction rs rule: first_truthy.induct) (auto simp: rbind_Inr_iff split: if_splits)

lemma py_get_or_dict: "py_get_or v k x = Inr w \<Longrightarrow> is_dict v"
  by (cases v) auto

definition fresh_for :: "(nat \<Rightarrow> string) \<Rightarrow> string set \<Rightarrow> bool" where
  "fresh_for fresh ids \<longleftrightarrow> inj fresh \<and> (\<forall>n. fresh n \<notin> ids) \<and> [] \<in> ids"

lemma inv_tool_step:
  assumes fresh: "fresh_for fresh ids" and "loop_inv first fresh ids s" and "calm_but {} s" and "no_text s"
    and key: "is_dict tool_call \<longrightarrow> strings_in tool_call \<subseteq> ids"
  shows "outcome_ok no_text first fresh ids (tool_step fresh loads tool_call s)"
proof -
  have "x \<in> ids" if "py_get_or tool_call ''id'' (VStr []) = Inr (VStr x)" for x
    using strings_in_py_get_or [OF that] py_get_or_dict [OF that] key fresh by (auto simp: fresh_for_def)
  moreover have "inj fresh" "\<And>n. fresh n \<notin> ids" using fresh by (auto simp: fresh_for_def)
  ultimately show ?thesis unfolding tool_step_def
    by (intro attempt_ok assms(2-4) inv_resolve_call inv_route) simp_all
qed

lemma inv_tools_step:
  assumes fresh: "fresh_for fresh ids" and s: "loop_inv first fresh ids s" and c: "calm_but {} s" and key: "strings_in tool_calls \<subseteq> ids"
  shows "outcome_ok (\<lambda>_. True) first fresh ids (tools_step fresh loads tool_calls s)"
proof -
  let ?s1 = "close_text (close_thinking s)"
  have "keys_inv fresh ids ?s1" using s by (simp add: loop_inv_def keys_inv_def)
  then have 1: "loop_inv first fresh ids ?s1" using s by (simp add: loop_inv_def inv_close_text inv_close_thinking)
  have 2: "calm_but {} ?s1" "no_text ?s1" using c by (simp_all add: calm_but_def no_text_def)
  have el: "is_dict x \<longrightarrow> strings_in x \<subseteq> ids" if "py_iter tool_calls = Inr calls" "x \<in> set calls" for x calls
    using strings_in_iter [OF that] key by auto
  have "outcome_ok no_text first fresh ids (each (tool_step fresh loads) calls ?s1)" if "py_iter tool_calls = Inr calls" for calls
    using el [OF that] by (intro each_ok 1 2 inv_tool_step [OF fresh])
  then have "outcome_ok (\<lambda>_. True) first fresh ids (attempt (py_iter tool_calls) ?s1 (\<lambda>calls. each (tool_step fresh loads) calls ?s1))"
    by (intro attempt_ok 1 2) (simp add: outcome_ok_def)
  then show ?thesis using s c by (simp add: tools_step_def Let_def outcome_okI)
qed

lemma inv_choice_step:
  assumes fresh: "fresh_for fresh ids" and s: "loop_inv first fresh ids s" and c: "calm_but {} s" and key: "strings_in choices \<subseteq> ids"
  shows "outcome_ok (\<lambda>_. True) first fresh ids (choice_step fresh loads choices s)"
proof -
  have think: "loop_inv first fresh ids (thinking_step r s)" "calm_but {} (thinking_step r s)" for r
    using s c inv_thinking_step [of first s fresh ids r] by (auto simp: loop_inv_def keys_inv_def calm_but_def)
  have textual: "loop_inv first fresh ids (text_step t (thinking_step r s))" "calm_but {} (text_step t (thinking_step r s))" for r t
    using think [of r] inv_text_step [of first "thinking_step r s" fresh ids t] by (auto simp: loop_inv_def keys_inv_def calm_but_def)
  have finish: "outcome_ok (\<lambda>_. True) first fresh ids (finish_step f s')" if "loop_inv first fresh ids s'" "calm_but {} s'" for f s'
  proof -
    have "loop_inv first fresh ids (s'\<lparr>an_stop_reason := r\<rparr>)" for r by (rule loop_inv_cong [OF that(1)]) simp_all
    then have "outcome_ok (\<lambda>_. True) first fresh ids (attempt (stop_reason_of f) s' (\<lambda>r. (s'\<lparr>an_stop_reason := r\<rparr>, None)))"
      using that by (intro attempt_ok outcome_okI) (simp_all add: calm_but_def)
    with that show ?thesis by (simp add: finish_step_def outcome_okI)
  qed
  have calls: "strings_in tool_calls \<subseteq> ids"
    if ch: "py_first choices = Inr choice" "py_get_or choice ''delta'' (VDict []) = Inr delta"
      "py_get choice ''message'' = Inr m"
      and t: "first_truthy [py_get delta ''tool_calls'', py_get (py_or m (VDict [])) ''tool_calls''] = Inr tool_calls"
    for choice delta m tool_calls
  proof -
    have c0: "strings_in choice \<subseteq> ids" using strings_in_first [OF ch(1)] py_get_or_dict [OF ch(2)] key by blast
    have "strings_in delta \<subseteq> ids" using strings_in_py_get_or [OF ch(2)] c0 by auto
    moreover have "strings_in (py_or m (VDict [])) \<subseteq> ids"
      using strings_in_py_get [OF ch(3)] strings_in_py_or [of m "VDict []"] c0 by auto
    ultimately show ?thesis using first_truthy_in [OF t] by (auto dest!: strings_in_py_get [OF sym])
  qed
  show ?thesis unfolding choice_step_def Let_def
    by (intro attempt_ok s c think textual and_then_ok [where P = "\<lambda>_. True"] inv_tools_step [OF fresh] finish) (rule calls)
qed

lemma inv_data_step:
  assumes fresh: "fresh_for fresh ids" and s: "loop_inv first fresh ids s" and c: "calm_but {} s" and key: "strings_in data \<subseteq> ids"
  shows "outcome_ok (\<lambda>_. True) first fresh ids (data_step fresh loads data s)"
proof -
  have "loop_inv first fresh ids (s\<lparr>an_usage := u\<rparr>)" "calm_but {} (s\<lparr>an_usage := u\<rparr>)" for u
    using c by (auto intro: loop_inv_cong [OF s] simp: calm_but_def)
  then have usage: "outcome_ok (\<lambda>_. True) first fresh ids (usage_step v s)" for v
    using s c by (cases v) (auto simp: usage_step_def outcome_okI intro!: attempt_ok)
  have "strings_in choices \<subseteq> ids" if "py_get_or data ''choices'' (VList []) = Inr choices" for choices
    using strings_in_py_get_or [OF that] key by auto
  then show ?thesis unfolding data_step_def
    by (intro attempt_ok s c and_then_ok [OF usage]) (simp_all add: inv_choice_step [OF fresh] outcome_okI)
qed

lemma inv_stream:
  assumes fresh: "fresh_for fresh ids" and s: "loop_inv first fresh ids s" and c: "calm_but {} s" and key: "\<forall>d \<in> set datas. strings_in d \<subseteq> ids"
  shows "outcome_ok (\<lambda>_. True) first fresh ids (each (data_step fresh loads) datas s)"
  using key by (intro each_ok s c inv_data_step [OF fresh]) auto

subsection \<open>The end of the stream\<close>

lemma inv_flush_call:
  assumes "stream_inv first s" and "no_text s" and "i \<in> fst ` set (an_tools s)"
  shows "stream_inv first (flush_call i s)" "no_text (flush_call i s)" "fst ` set (an_tools (flush_call i s)) = fst ` set (an_tools s)"
proof -
  have b: "stream_inv first (begin_call i s)" using assms by (intro inv_begin_call) (simp_all add: no_text_def)
  have l: "live_block (an_tools (begin_call i s)) i = Some (an_index s)"
    if "\<not> tc_started (call_of s i)" "truthy (tc_name (call_of s i))"
    using that assms(1) call_of_Some [OF assms(3)]
    by (auto simp: begin_call_def Let_def live_block_dset stream_inv_def blocks_distinct_def)
  show "stream_inv first (flush_call i s)"
    using assms(1) b inv_json_delta [OF b l] by (simp add: flush_call_def Let_def)
  show "no_text (flush_call i s)" "fst ` set (an_tools (flush_call i s)) = fst ` set (an_tools s)"
    using assms(2,3) by (auto simp: flush_call_def begin_call_def no_text_def Let_def)
qed

lemma wf_flush_call: "wf_dict (an_tools s) \<Longrightarrow> wf_dict (an_tools (flush_call i s))"
  by (simp add: flush_call_def begin_call_def Let_def)

lemma inv_flush:
  assumes "stream_inv first s" and "no_text s" and "set ks \<subseteq> fst ` set (an_tools s)" and "wf_dict (an_tools s)"
  shows "stream_inv first (fold flush_call ks s) \<and> no_text (fold flush_call ks s) \<and> wf_dict (an_tools (fold flush_call ks s))"
  using assms
proof (induction ks arbitrary: s)
  case (Cons k ks)
  have "k \<in> fst ` set (an_tools s)" using Cons.prems(3) by simp
  note f = inv_flush_call [OF Cons.prems(1,2) this]
  show ?case using Cons.prems Cons.IH [OF f(1,2)] f(3) wf_flush_call by simp
qed simp

lemma calm_flush: "calm_but {} s \<Longrightarrow> set ks \<subseteq> fst ` set (an_tools s) \<Longrightarrow> fold flush_call ks s = s"
proof (induction ks)
  case (Cons k ks)
  then have "dget (an_tools s) k = Some (call_of s k)" by (intro call_of_Some) simp
  with Cons.prems(1) have "\<not> (\<not> tc_started (call_of s k) \<and> truthy (tc_name (call_of s k)))" by (auto simp: calm_but_def)
  then have "flush_call k s = s" by (auto simp: flush_call_def Let_def)
  with Cons show ?case by simp
qed simp

lemma stop_calls:
  assumes "an_out s \<noteq> []" and "distinct ks" and "set ks \<subseteq> fst ` set (an_tools s)" and "blocks_distinct (an_tools s) m"
    and "body_state (an_out s) = Some (n, (\<lambda>b. (b, Tool)) ` {b. \<exists>k \<in> set ks. live_block (an_tools s) k = Some b}, a)"
  shows "body_state (an_out (fold stop_call ks s)) = Some (n, {}, a) \<and> an_out (fold stop_call ks s) \<noteq> [] \<and>
    hd (an_out (fold stop_call ks s)) = hd (an_out s)"
  using assms
proof (induction ks arbitrary: s)
  case (Cons k ks)
  let ?rest = "{b. \<exists>k \<in> set ks. live_block (an_tools s) k = Some b}"
  have k: "dget (an_tools s) k = Some (call_of s k)" using Cons.prems(3) by (intro call_of_Some) simp
  have "body_state (an_out (stop_call k s)) = Some (n, (\<lambda>b. (b, Tool)) ` ?rest, a)"
  proof (cases "tc_started (call_of s k) \<and> \<not> tc_stopped (call_of s k)")
    case True
    let ?b = "tc_block (call_of s k)"
    have l: "live_block (an_tools s) k = Some ?b" using k True by (simp add: live_block_def)
    have "?b \<notin> ?rest"
    proof
      assume "?b \<in> ?rest"
      then obtain k' where k': "k' \<in> set ks" "live_block (an_tools s) k' = Some ?b" by blast
      have "k' = k" using Cons.prems(4) live_block_of [OF k'(2)] live_block_of [OF l] unfolding blocks_distinct_def by blast
      with k' Cons.prems(2) show False by simp
    qed
    moreover have "{b. \<exists>k \<in> set (k # ks). live_block (an_tools s) k = Some b} = insert ?b ?rest" using l by auto
    ultimately have "accept (Block_stop ?b) (n, (\<lambda>b. (b, Tool)) ` {b. \<exists>k \<in> set (k # ks). live_block (an_tools s) k = Some b}, a) =
        Some (n, (\<lambda>b. (b, Tool)) ` (insert ?b ?rest - {?b}), a)"
      unfolding tool_image_diff by (simp add: image_image)
    with \<open>?b \<notin> ?rest\<close> True show ?thesis
      by (simp add: stop_call_def Let_def body_state_snoc [OF Cons.prems(1,5)])
  next
    case False
    then have "live_block (an_tools s) k = None" using k by (simp add: live_block_def)
    with False Cons.prems(5) show ?thesis by (auto simp: stop_call_def Let_def)
  qed
  moreover have "an_tools (stop_call k s) = an_tools s" "an_out (stop_call k s) \<noteq> []" "hd (an_out (stop_call k s)) = hd (an_out s)"
    using Cons.prems(1) by (simp_all add: stop_call_def Let_def)
  ultimately show ?case using Cons.IH [of "stop_call k s"] Cons.prems(2-4) by simp
qed simp

lemma open_calls_keys:
  "open_calls tools = (\<lambda>b. (b, Tool)) ` {b. \<exists>k \<in> set (dkeys tools). live_block tools k = Some b}"
proof -
  have "ran (live_block tools) = {b. \<exists>k \<in> set (dkeys tools). live_block tools k = Some b}"
  proof (intro set_eqI iffI)
    fix b assume "b \<in> ran (live_block tools)"
    then obtain k where k: "live_block tools k = Some b" by (auto simp: ran_def)
    then have "k \<in> set (dkeys tools)" by (auto simp: live_block_def split: option.splits dest: dget_Some_in intro: rev_image_eqI)
    with k show "b \<in> {b. \<exists>k \<in> set (dkeys tools). live_block tools k = Some b}" by blast
  qed (auto intro: ranI)
  then show ?thesis by (simp add: open_calls_def)
qed

lemma close_blocks_accepted:
  assumes s: "loop_inv first fresh ids s" and c: "calm_but {} s \<or> \<not> an_text s"
  shows "\<exists>n a. body_state (an_out (close_blocks s)) = Some (n, {}, a) \<and> an_out (close_blocks s) \<noteq> [] \<and>
    hd (an_out (close_blocks s)) = first"
proof -
  define s1 where "s1 = close_thinking s"
  define s2 where "s2 = fold flush_call (dkeys (an_tools s1)) s1"
  define s3 where "s3 = (if an_text s2 then emit (Block_stop (an_index s2)) s2 else s2)"
  have 1: "stream_inv first s1" "wf_dict (an_tools s1)" "\<not> an_thinking s1"
    using s inv_close_thinking by (auto simp: s1_def loop_inv_def keys_inv_def)
  have 2: "stream_inv first s2 \<and> wf_dict (an_tools s2) \<and> \<not> an_thinking s2"
  proof (cases "an_text s")
    case True
    with c have "calm_but {} s1" by (simp add: s1_def calm_but_def)
    with 1 calm_flush [of s1] show ?thesis by (simp add: s2_def)
  next
    case False
    then have "no_text s1" using 1 by (simp add: s1_def no_text_def)
    from inv_flush [OF 1(1) this _ 1(2)] show ?thesis by (simp add: s2_def no_text_def)
  qed
  have "body_state (an_out s3) = Some (an_index s2 + of_bool (an_text s2), open_calls (an_tools s2), any_started (an_tools s2)) \<and>
      an_out s3 \<noteq> [] \<and> hd (an_out s3) = first"
    using 2 by (auto simp: s3_def stream_inv_def body_state_snoc opened_def next_index_def no_open_calls)
  moreover have "an_tools s3 = an_tools s2" by (simp add: s3_def)
  moreover have "blocks_distinct (an_tools s2) (an_index s2)" "distinct (dkeys (an_tools s2))"
    using 2 by (simp_all add: stream_inv_def wf_dict_def)
  ultimately have "body_state (an_out (fold stop_call (dkeys (an_tools s3)) s3)) =
      Some (an_index s2 + of_bool (an_text s2), {}, any_started (an_tools s2)) \<and>
      an_out (fold stop_call (dkeys (an_tools s3)) s3) \<noteq> [] \<and> hd (an_out (fold stop_call (dkeys (an_tools s3)) s3)) = hd (an_out s3)"
    by (intro stop_calls [where m = "an_index s2"]) (simp_all add: open_calls_keys)
  with \<open>_ \<and> an_out s3 \<noteq> [] \<and> hd (an_out s3) = first\<close> have
    "body_state (an_out (fold stop_call (dkeys (an_tools s3)) s3)) =
      Some (an_index s2 + of_bool (an_text s2), {}, any_started (an_tools s2)) \<and>
     an_out (fold stop_call (dkeys (an_tools s3)) s3) \<noteq> [] \<and> hd (an_out (fold stop_call (dkeys (an_tools s3)) s3)) = first"
    by simp
  then show ?thesis
    unfolding close_blocks_def Let_def s1_def [symmetric] s2_def [symmetric] s3_def [symmetric] by blast
qed

section \<open>Every stream is well formed\<close>

text \<open>C20. Whatever the provider sends, and wherever the conversion fails, the client gets one message: its start, blocks that are
  numbered in order, opened and closed once, with deltas of their kind while they are open and thinking and text before the first tool,
  no block left open, then the message's delta and its end. The generated ids are distinct and not among the strings received.\<close>

theorem anthropic_stream_well_formed:
  assumes "fresh_for fresh ids"
    and "\<forall>chunk \<in> set chunks. \<forall>d \<in> set (chunk_data loads chunk). strings_in d \<subseteq> ids"
  shows "\<exists>body reason usage n tools.
    openai_stream_to_anthropic_stream fresh loads message_id model input_tokens chunks =
      Message_start message_id model input_tokens # body @ [Message_delta reason usage, Message_stop] \<and>
    accept_all body (0, {}, False) = Some (n, {}, tools)"
proof -
  let ?first = "Message_start message_id model input_tokens" and ?init = "initial message_id model input_tokens"
  let ?s = "fst (each (data_step fresh loads) (concat (map (chunk_data loads) chunks)) ?init)"
  have "loop_inv ?first fresh ids ?init" "calm_but {} ?init"
    by (simp_all add: initial_def loop_inv_def stream_inv_def keys_inv_def body_state_def next_index_def opened_def open_calls_def
        live_block_def ran_def any_started_def block_of_def blocks_distinct_def calm_but_def)
  from inv_stream [OF assms(1) this, of "concat (map (chunk_data loads) chunks)" loads] assms(2)
  have "outcome_ok (\<lambda>_. True) ?first fresh ids (each (data_step fresh loads) (concat (map (chunk_data loads) chunks)) ?init)"
    by auto
  then have "loop_inv ?first fresh ids ?s" "calm_but {} ?s \<or> \<not> an_text ?s" by (auto simp: outcome_ok_def)
  from close_blocks_accepted [OF this] obtain n a where
    c: "body_state (an_out (close_blocks ?s)) = Some (n, {}, a)" "an_out (close_blocks ?s) \<noteq> []"
      "hd (an_out (close_blocks ?s)) = ?first" by blast
  have "openai_stream_to_anthropic_stream fresh loads message_id model input_tokens chunks =
      ?first # tl (an_out (close_blocks ?s)) @
        [Message_delta (an_stop_reason (close_blocks ?s)) (final_usage (an_usage (close_blocks ?s))), Message_stop]"
    using c(2,3) by (cases "an_out (close_blocks ?s)") (simp_all add: openai_stream_to_anthropic_stream_def finish_stream_def Let_def)
  with c(1) show ?thesis unfolding body_state_def by blast
qed

text \<open>A decoder for the witness: it knows a piece of reasoning and a piece of text.\<close>

definition sample_loads :: "string \<Rightarrow> pyval option" where
  "sample_loads s =
     (if s = ''r'' then Some (VDict [(''choices'', VList [VDict [(''delta'', VDict [(''reasoning'', VStr ''why'')])]])])
      else if s = ''t'' then Some (VDict [(''choices'', VList [VDict [(''delta'', VDict [(''content'', VStr ''hi'')])]])])
      else None)"

theorem anthropic_stream_well_formed_witness:
  "\<exists>body reason usage.
    openai_stream_to_anthropic_stream (\<lambda>n. replicate (n + 4) CHR ''u'') sample_loads ''m'' ''gpt'' VNone [''data: r'', ''data: t''] =
      Message_start ''m'' ''gpt'' VNone # body @ [Message_delta reason usage, Message_stop] \<and>
    body = [Block_start 0 Thinking_block, Block_delta 0 (Thinking_delta (VStr ''why'')), Block_stop 0,
            Block_start 1 Text_block, Block_delta 1 (Text_delta (VStr ''hi'')), Block_stop 1]"
proof -
  have d: "chunk_data sample_loads ''data: r'' = [VDict [(''choices'', VList [VDict [(''delta'', VDict [(''reasoning'', VStr ''why'')])]])]]"
    "chunk_data sample_loads ''data: t'' = [VDict [(''choices'', VList [VDict [(''delta'', VDict [(''content'', VStr ''hi'')])]])]]"
    by code_simp+
  have run: "openai_stream_to_anthropic_stream f sample_loads ''m'' ''gpt'' VNone
      [''data: r'', ''data: t''] = Message_start ''m'' ''gpt'' VNone #
     [Block_start 0 Thinking_block, Block_delta 0 (Thinking_delta (VStr ''why'')), Block_stop 0,
            Block_start 1 Text_block, Block_delta 1 (Text_delta (VStr ''hi'')), Block_stop 1] @
     [Message_delta ''end_turn'' [(''output_tokens'', VInt 0)], Message_stop]" for f
    by code_simp
  have "fresh_for (\<lambda>n. replicate (n + 4) CHR ''u'') {[], ''hi'', ''why''}"
    by (auto simp: fresh_for_def inj_def dest: arg_cong [of _ _ length])
  from anthropic_stream_well_formed [OF this, of "[''data: r'', ''data: t'']" sample_loads "''m''" "''gpt''" VNone] d run
  show ?thesis by auto
qed

end
