(* ===== verification/Settings.thy ===== *)
theory Settings
  imports PyText
begin

text \<open>
  The configuration table, \<open>backend/open_webui/models/config.py\<close>, with one row per key, and the walk that
  flattened the old blob into these rows (\<open>_walk_blob\<close> of the migration \<open>3ff2c63645b8\<close>). Keys the database is not the
  authority for live in the defaults of the process. \<open>like p k\<close> is the database's \<open>k LIKE 'p.%'\<close>; values are JSON
  already, so \<open>jsonable_encoder\<close> leaves them as they are.
\<close>

section \<open>State\<close>

record config_state =
  cf_rows :: "(string, pyval \<times> int) pydict"
  cf_defaults :: dict
  cf_persistent :: bool
  cf_oauth_persistent :: bool

definition has_prefix :: "string \<Rightarrow> string \<Rightarrow> bool" where
  "has_prefix p k \<longleftrightarrow> take (length p + 1) k = p @ ''.''"

definition configure :: "dict \<Rightarrow> bool \<Rightarrow> bool \<Rightarrow> config_state \<Rightarrow> config_state" where
  "configure defaults persistent oauth s =
     s\<lparr>cf_defaults := defaults, cf_persistent := persistent, cf_oauth_persistent := oauth\<rparr>"

definition default_value :: "config_state \<Rightarrow> string \<Rightarrow> pyval \<Rightarrow> pyval" where
  "default_value s key d = dget_or (cf_defaults s) key d"

definition persistent_enabled_for :: "config_state \<Rightarrow> string \<Rightarrow> bool" where
  "persistent_enabled_for s key \<longleftrightarrow> cf_persistent s \<and> \<not> (has_prefix ''oauth'' key \<and> \<not> cf_oauth_persistent s)"

definition config_get :: "config_state \<Rightarrow> string \<Rightarrow> pyval \<Rightarrow> pyval" where
  "config_get s key d =
     (if \<not> persistent_enabled_for s key then default_value s key d
      else case dget (cf_rows s) key of Some row \<Rightarrow> fst row | None \<Rightarrow> default_value s key d)"

definition row_values :: "config_state \<Rightarrow> (string \<Rightarrow> bool) \<Rightarrow> dict" where
  "row_values s P = map (\<lambda>(k, v, t). (k, v)) (filter (\<lambda>kv. P (fst kv)) (cf_rows s))"

definition config_get_many :: "config_state \<Rightarrow> string list \<Rightarrow> dict" where
  "config_get_many s keys =
     (let disabled = dmerge [] (map (\<lambda>k. (k, default_value s k VNone))
             (filter (\<lambda>k. \<not> persistent_enabled_for s k \<and> k \<in> fst ` set (cf_defaults s)) keys));
          enabled = filter (persistent_enabled_for s) keys
      in if enabled = [] then disabled
         else let found = row_values s (\<lambda>k. k \<in> set enabled)
              in dmerge [] (map (\<lambda>k. (k, dget_or found k (default_value s k VNone)))
                   (filter (\<lambda>k. k \<in> fst ` set found \<or> k \<in> fst ` set (cf_defaults s) \<or> k \<in> fst ` set disabled) keys)))"

definition get_namespace :: "(string \<Rightarrow> string \<Rightarrow> bool) \<Rightarrow> config_state \<Rightarrow> string \<Rightarrow> dict" where
  "get_namespace like s namespace =
     (let defaults = filter (\<lambda>kv. has_prefix namespace (fst kv) \<and> \<not> persistent_enabled_for s (fst kv)) (cf_defaults s)
      in if \<not> cf_persistent s then defaults else dmerge (row_values s (like namespace)) defaults)"

definition get_all :: "config_state \<Rightarrow> dict" where
  "get_all s =
     (if \<not> cf_persistent s then cf_defaults s
      else let found = row_values s (\<lambda>_. True)
           in if cf_oauth_persistent s then found else dmerge found (filter (\<lambda>kv. has_prefix ''oauth'' (fst kv)) (cf_defaults s)))"

definition upsert_one :: "int \<Rightarrow> string \<times> pyval \<Rightarrow> config_state \<Rightarrow> config_state" where
  "upsert_one now kv s =
     (if persistent_enabled_for s (fst kv) then s\<lparr>cf_rows := dset (cf_rows s) (fst kv) (snd kv, now)\<rparr>
      else s\<lparr>cf_defaults := dset (cf_defaults s) (fst kv) (snd kv)\<rparr>)"

definition config_upsert :: "int \<Rightarrow> dict \<Rightarrow> config_state \<Rightarrow> config_state" where
  "config_upsert now updates s = fold (upsert_one now) updates s"

definition config_delete :: "string \<Rightarrow> config_state \<Rightarrow> bool \<times> config_state" where
  "config_delete key s =
     (if key \<in> fst ` set (cf_rows s) then (True, s\<lparr>cf_rows := dpop (cf_rows s) key\<rparr>) else (False, s))"

definition config_clear :: "config_state \<Rightarrow> config_state" where
  "config_clear s = s\<lparr>cf_rows := []\<rparr>"

definition seed_one :: "int \<Rightarrow> string \<times> pyval \<Rightarrow> config_state \<Rightarrow> config_state" where
  "seed_one now kv s =
     (if persistent_enabled_for s (fst kv) \<and> fst kv \<notin> fst ` set (cf_rows s)
      then s\<lparr>cf_rows := cf_rows s @ [(fst kv, snd kv, now)]\<rparr> else s)"

definition seed_defaults :: "int \<Rightarrow> dict \<Rightarrow> config_state \<Rightarrow> config_state" where
  "seed_defaults now defaults s = fold (seed_one now) defaults s"

definition removeprefix :: "string \<Rightarrow> string \<Rightarrow> string" where
  "removeprefix p k = (if take (length p) k = p then drop (length p) k else k)"

definition rename_one :: "int \<Rightarrow> string \<Rightarrow> string \<Rightarrow> string \<times> pyval \<times> int \<Rightarrow>
    (string, pyval \<times> int) pydict \<Rightarrow> (string, pyval \<times> int) pydict" where
  "rename_one now old_prefix new_prefix row rows =
     (let new_key = new_prefix @ ''.'' @ removeprefix (old_prefix @ ''.'') (fst row);
          rows1 = (if new_key \<in> fst ` set rows then rows else rows @ [(new_key, fst (snd row), now)])
      in dpop rows1 (fst row))"

definition rename_prefix :: "(string \<Rightarrow> string \<Rightarrow> bool) \<Rightarrow> int \<Rightarrow> string \<Rightarrow> string \<Rightarrow> config_state \<Rightarrow> config_state" where
  "rename_prefix like now old_prefix new_prefix s =
     (if \<not> cf_persistent s then s
      else s\<lparr>cf_rows := fold (rename_one now old_prefix new_prefix) (filter (\<lambda>kv. like old_prefix (fst kv)) (cf_rows s)) (cf_rows s)\<rparr>)"

section \<open>Repairing flattened dictionaries\<close>

definition api_config_keys :: "string list" where
  "api_config_keys = [''openai.api_configs'', ''ollama.api_configs'']"

definition dict_config_key_aliases :: "(string \<times> string list) list" where
  "dict_config_key_aliases =
     [(''openai.api_configs'', [''OPENAI_API_CONFIGS'']),
      (''ollama.api_configs'', [''OLLAMA_API_CONFIGS'']),
      (''rag.mineru_params'', [''MINERU_PARAMS'']),
      (''rag.docling_params'', [''DOCLING_PARAMS'']),
      (''web.search.linkup_search_params'', [''LINKUP_SEARCH_PARAMS'']),
      (''image_generation.automatic1111.api_params'', [''AUTOMATIC1111_PARAMS'']),
      (''image_generation.openai.params'', [''IMAGES_OPENAI_API_PARAMS'']),
      (''audio.tts.openai.params'', [''AUDIO_TTS_OPENAI_PARAMS'']),
      (''models.default_metadata'', [''DEFAULT_MODEL_METADATA'']),
      (''models.default_params'', [''DEFAULT_MODEL_PARAMS'']),
      (''user.permissions'', [''USER_PERMISSIONS''])]"

definition api_config_fields :: "string list" where
  "api_config_fields = [''enable'', ''key'', ''prefix_id'', ''tags'', ''model_ids'', ''connection_type'', ''provider'',
     ''auth_type'', ''headers'', ''azure'', ''api_type'', ''api_version'', ''extra_params'', ''passthrough_params'']"

text \<open>\<open>s.isdigit()\<close>, among the characters below 256, and \<open>s.rfind(sub)\<close>.\<close>

definition py_isdigit :: "string \<Rightarrow> bool" where
  "py_isdigit s \<longleftrightarrow> s \<noteq> [] \<and> (\<forall>c \<in> set s. 48 \<le> code c \<and> code c \<le> 57 \<or> code c \<in> {178, 179, 185})"

definition py_rfind :: "string \<Rightarrow> string \<Rightarrow> nat option" where
  "py_rfind sub s = List.find (\<lambda>i. take (length sub) (drop i s) = sub) (rev [0..<length s + 1])"

definition last_field :: "string \<Rightarrow> (nat \<times> string) option" where
  "last_field fragment =
     foldl (\<lambda>best field. case py_rfind (''.'' @ field) fragment of
                           None \<Rightarrow> best
                         | Some i \<Rightarrow> (case best of None \<Rightarrow> Some (i, field)
                                      | Some (j, f) \<Rightarrow> if j < i then Some (i, field) else best))
       None api_config_fields"

definition split_api_config_fragment :: "string \<Rightarrow> (string \<times> string list) option" where
  "split_api_config_fragment fragment =
     (let first = takeWhile (\<lambda>c. c \<noteq> CHR ''.'') fragment; rest = drop (length first + 1) fragment
      in if fragment = [] then None
         else if py_isdigit first \<and> rest \<noteq> [] then Some (first, py_split CHR ''.'' rest)
         else case last_field fragment of
                None \<Rightarrow> None
              | Some (i, field) \<Rightarrow>
                  if i = 0 then None else Some (take i fragment, py_split CHR ''.'' (drop (i + 1) fragment)))"

text \<open>\<open>_assign_path\<close>; the path is not empty.\<close>

fun as_dict :: "pyval option \<Rightarrow> dict" where
  "as_dict (Some (VDict d)) = d"
| "as_dict _ = []"

fun assign_path :: "string list \<Rightarrow> pyval \<Rightarrow> dict \<Rightarrow> dict" where
  "assign_path [] v target = target"
| "assign_path [p] v target = dset target p v"
| "assign_path (p # ps) v target = dset target p (VDict (assign_path ps v (as_dict (dget target p))))"

definition fragment_of :: "string list \<Rightarrow> string \<Rightarrow> string option" where
  "fragment_of pfxs key =
     map_option (\<lambda>p. drop (length p + 1) key) (List.find (\<lambda>p. has_prefix p key) pfxs)"

text \<open>One row: the dictionary repaired so far and the keys that were put into it.\<close>

definition repair_row :: "string \<Rightarrow> string list \<Rightarrow> string \<times> pyval \<times> int \<Rightarrow> dict \<times> string list \<Rightarrow> dict \<times> string list" where
  "repair_row config_key pfxs row st =
     (case fragment_of pfxs (fst row) of
        None \<Rightarrow> st
      | Some fragment \<Rightarrow>
          if config_key \<in> set api_config_keys
          then (case split_api_config_fragment fragment of
                  None \<Rightarrow> st
                | Some (object_key, path) \<Rightarrow>
                    let d1 = (if dget (fst st) object_key = None then fst st @ [(object_key, VDict [])] else fst st)
                    in (case dget d1 object_key of
                          Some (VDict target) \<Rightarrow>
                            (dset d1 object_key (VDict (assign_path path (fst (snd row)) target)), snd st @ [fst row])
                        | _ \<Rightarrow> (d1, snd st)))
          else (assign_path (py_split CHR ''.'' fragment) (fst (snd row)) (fst st), snd st @ [fst row]))"

text \<open>One key. An existing dictionary is repaired in place and assigned to its row again; \<open>tracked\<close> says whether the
  database layer notices such a change and writes it.\<close>

definition repair_key :: "(string \<Rightarrow> string \<Rightarrow> bool) \<Rightarrow> bool \<Rightarrow> int \<Rightarrow> string \<times> string list \<Rightarrow>
    (string, pyval \<times> int) pydict \<times> string list \<Rightarrow> (string, pyval \<times> int) pydict \<times> string list" where
  "repair_key like tracked now ka st =
     (let config_key = fst ka; pfxs = fst ka # snd ka; rows = fst st;
          found = concat (map (\<lambda>p. filter (\<lambda>kv. like p (fst kv)) rows) pfxs);
          existing = dget rows config_key;
          start = (case existing of Some (VDict d, t) \<Rightarrow> d | _ \<Rightarrow> []);
          (repaired, moved) = fold (repair_row config_key pfxs) found (start, [])
      in if found = [] \<or> moved = [] then st
         else (case existing of
                 None \<Rightarrow> (rows @ [(config_key, VDict repaired, now)], snd st @ moved)
               | Some (v, t) \<Rightarrow>
                   (dset rows config_key (if is_dict v \<and> \<not> tracked then v else VDict repaired, now), snd st @ moved)))"

definition repair_flattened_dict_configs :: "(string \<Rightarrow> string \<Rightarrow> bool) \<Rightarrow> bool \<Rightarrow> int \<Rightarrow> config_state \<Rightarrow> config_state" where
  "repair_flattened_dict_configs like tracked now s =
     (if \<not> cf_persistent s then s
      else let (rows, orphans) = fold (repair_key like tracked now) dict_config_key_aliases (cf_rows s, [])
           in s\<lparr>cf_rows := filter (\<lambda>kv. fst kv \<notin> set orphans) rows\<rparr>)"

text \<open>\<open>_walk_blob\<close>: a value of a known path is kept as it is.\<close>

fun walk_blob :: "(string \<Rightarrow> bool) \<Rightarrow> dict \<Rightarrow> string \<Rightarrow> dict" where
  "walk_blob known [] pfx = []"
| "walk_blob known ((key, v) # rest) pfx =
     (let path = (if pfx = [] then key else pfx @ ''.'' @ key)
      in dmerge (if known path then [(path, v)]
                 else case v of VDict d \<Rightarrow> walk_blob known d path | _ \<Rightarrow> [(path, v)])
           (walk_blob known rest pfx))"

section \<open>Reading after writing\<close>

lemma persistent_upsert [simp]: "persistent_enabled_for (upsert_one now kv s) k = persistent_enabled_for s k"
  by (simp add: persistent_enabled_for_def upsert_one_def)

lemma get_upsert_one:
  "config_get (upsert_one now kv s) k d = (if k = fst kv then snd kv else config_get s k d)"
  by (auto simp: config_get_def upsert_one_def default_value_def persistent_enabled_for_def split: option.split)

lemma get_upsert:
  "config_get (config_upsert now updates s) k d = (case dget (rev updates) k of Some v \<Rightarrow> v | None \<Rightarrow> config_get s k d)"
  unfolding config_upsert_def
  by (induction updates arbitrary: s) (auto simp: get_upsert_one split: option.split)

lemma dget_row_values: "dget (row_values s P) k = (if P k then map_option fst (dget (cf_rows s) k) else None)"
proof -
  have "dget (map (\<lambda>(k, v, t). (k, v)) (filter (\<lambda>kv. P (fst kv)) rows)) k = (if P k then map_option fst (dget rows k) else None)"
    for rows :: "(string, pyval \<times> int) pydict" by (induction rows) auto
  then show ?thesis by (simp add: row_values_def)
qed

definition config_known :: "config_state \<Rightarrow> string \<Rightarrow> bool" where
  "config_known s k \<longleftrightarrow> persistent_enabled_for s k \<and> k \<in> fst ` set (cf_rows s) \<or> k \<in> fst ` set (cf_defaults s)"

lemma dget_dmerge_map: "dget (dmerge [] (map (\<lambda>k. (k, f k)) ks)) k = (if k \<in> set ks then Some (f k) else None)"
  by (induction ks rule: rev_induct) (auto simp: dmerge_def)

lemma dkeys_dmerge_map: "fst ` set (dmerge [] (map (\<lambda>k. (k, f k)) ks)) = set ks"
  by (induction ks rule: rev_induct) (auto simp: dmerge_def)

lemma dkeys_row_values: "fst ` set (row_values s P) = {k \<in> fst ` set (cf_rows s). P k}"
  by (force simp: row_values_def)

lemma dget_get_many:
  "dget (config_get_many s keys) k = (if k \<in> set keys \<and> config_known s k then Some (config_get s k VNone) else None)"
proof (cases "filter (persistent_enabled_for s) keys = []")
  case True
  then have "\<not> persistent_enabled_for s k" if "k \<in> set keys" using that by (auto simp: filter_empty_conv)
  with True show ?thesis by (simp add: config_get_many_def dget_dmerge_map config_known_def config_get_def)
next
  case False
  let ?found = "row_values s (\<lambda>k. k \<in> set (filter (persistent_enabled_for s) keys))"
  have "dget (config_get_many s keys) k =
     (if k \<in> set keys \<and> config_known s k then Some (dget_or ?found k (default_value s k VNone)) else None)"
    unfolding config_get_many_def Let_def using False
    by (auto simp only: dget_dmerge_map dkeys_dmerge_map dkeys_row_values config_known_def if_False if_True
        set_filter mem_Collect_eq split: if_splits)
  moreover have "dget_or ?found k (default_value s k VNone) = config_get s k VNone" if "k \<in> set keys"
    using that by (auto simp: dget_or_def dget_row_values config_get_def split: option.split)
  ultimately show ?thesis by simp
qed

section \<open>Flattening and repairing\<close>

text \<open>A dictionary that survives the flattening: no key has a dot, and no dictionary in it is empty.\<close>

fun clean :: "pyval \<Rightarrow> bool" where
  "clean (VDict d) \<longleftrightarrow> d \<noteq> [] \<and> distinct (map fst d) \<and> (\<forall>kv \<in> set d. CHR ''.'' \<notin> set (fst kv) \<and> clean (snd kv))"
| "clean _ \<longleftrightarrow> True"

text \<open>The leaves and the way to them.\<close>

fun paths :: "dict \<Rightarrow> (string list \<times> pyval) list" where
  "paths [] = []"
| "paths ((k, v) # rest) =
     (case v of VDict d \<Rightarrow> map (\<lambda>px. (k # fst px, snd px)) (paths d) | _ \<Rightarrow> [([k], v)]) @ paths rest"

definition clean_items :: "dict \<Rightarrow> bool" where
  "clean_items d \<longleftrightarrow> distinct (map fst d) \<and> (\<forall>kv \<in> set d. CHR ''.'' \<notin> set (fst kv) \<and> clean (snd kv))"

lemma clean_items_Cons:
  "clean_items ((k, v) # d) \<longleftrightarrow> k \<notin> fst ` set d \<and> CHR ''.'' \<notin> set k \<and> clean v \<and> clean_items d"
  by (auto simp: clean_items_def)

lemma clean_VDict: "clean (VDict d) \<longleftrightarrow> d \<noteq> [] \<and> clean_items d"
  by (simp add: clean_items_def)

lemma paths_nonempty: "clean_items d \<Longrightarrow> d \<noteq> [] \<Longrightarrow> paths d \<noteq> []"
  by (induction d rule: paths.induct) (auto simp: clean_items_Cons clean_VDict simp del: clean.simps split: pyval.splits)

lemma path_props: "clean_items d \<Longrightarrow> (p, x) \<in> set (paths d) \<Longrightarrow> p \<noteq> [] \<and> hd p \<in> fst ` set d \<and> (\<forall>k \<in> set p. CHR ''.'' \<notin> set k)"
proof (induction d arbitrary: p rule: paths.induct)
  case (2 k v rest)
  have c: "CHR ''.'' \<notin> set k" "clean v" "clean_items rest" using 2(3) by (simp_all add: clean_items_Cons)
  show ?case
  proof (cases "(p, x) \<in> set (paths rest)")
    case True
    from 2(2) [OF c(3) True] show ?thesis by simp
  next
    case out: False
    show ?thesis
    proof (cases v)
      case (VDict e)
      with out 2(4) obtain p' where p': "p = k # p'" "(p', x) \<in> set (paths e)" by auto
      have "clean_items e" using c(2) VDict clean_VDict by blast
      from 2(1) [OF VDict this p'(2)] c(1) p'(1) show ?thesis by simp
    qed (use out 2(4) c(1) in simp_all)
  qed
qed simp

lemma paths_distinct: "clean_items d \<Longrightarrow> distinct (map fst (paths d))"
proof (induction d rule: paths.induct)
  case (2 k v rest)
  have r: "distinct (map fst (paths rest))" "clean_items rest" "k \<notin> fst ` set rest" using 2 by (auto simp: clean_items_Cons)
  have h: "p \<in> fst ` set (paths rest) \<Longrightarrow> hd p \<in> fst ` set rest" for p using path_props [OF r(2)] by fastforce
  show ?case
  proof (cases v)
    case (VDict d)
    have "distinct (map fst (paths d))" using 2 VDict by (auto simp: clean_items_Cons clean_VDict simp del: clean.simps)
    then have "distinct (map (\<lambda>px. k # fst px) (paths d))" by (simp add: distinct_map inj_on_def)
    moreover have "k # q \<notin> fst ` set (paths rest)" for q using h [of "k # q"] r(3) by auto
    then have "(\<lambda>px. k # fst px) ` set (paths d) \<inter> fst ` set (paths rest) = {}" by blast
    ultimately show ?thesis using VDict r(1) by (simp add: comp_def image_image)
  qed (use r h [of "[k]"] in auto)
qed simp

text \<open>Assigning the leaves one by one builds the dictionary again, in its order.\<close>

lemma dset_append: "k \<notin> fst ` set acc \<Longrightarrow> dset (acc @ rest) k v = acc @ dset rest k v"
  by (induction acc) auto

lemma dget_append_fresh: "k \<notin> fst ` set acc \<Longrightarrow> dget (acc @ rest) k = dget rest k"
  by (induction acc) auto

lemma assign_below:
  assumes "ps \<noteq> []" "\<forall>px \<in> set ps. fst px \<noteq> []" "k \<notin> fst ` set acc"
  shows "fold (\<lambda>px. assign_path (k # fst px) (snd px)) ps acc =
     acc @ [(k, VDict (fold (\<lambda>px. assign_path (fst px) (snd px)) ps []))]"
proof -
  have step: "assign_path (k # p) x (acc @ [(k, VDict t)]) = acc @ [(k, VDict (assign_path p x t))]" if "p \<noteq> []" for p x t
    using that assms(3) by (cases p) (simp_all add: dset_append dget_append_fresh del: map_of_append)
  have start: "assign_path (k # p) x acc = acc @ [(k, VDict (assign_path p x []))]" if "p \<noteq> []" for p x
    using that assms(3) by (cases p) (simp_all add: dset_fresh dget_None_iff [THEN iffD2])
  have "fold (\<lambda>px. assign_path (k # fst px) (snd px)) ps (acc @ [(k, VDict t)]) =
     acc @ [(k, VDict (fold (\<lambda>px. assign_path (fst px) (snd px)) ps t))]" if "\<forall>px \<in> set ps. fst px \<noteq> []" for ps t
    using that by (induction ps arbitrary: t) (simp_all add: step)
  with assms(1,2) start show ?thesis by (cases ps) simp_all
qed

lemma assign_paths:
  "clean_items d \<Longrightarrow> fst ` set d \<inter> fst ` set acc = {} \<Longrightarrow>
    fold (\<lambda>px. assign_path (fst px) (snd px)) (paths d) acc = acc @ d"
proof (induction d arbitrary: acc rule: paths.induct)
  case (2 k v rest)
  have c: "clean v" "clean_items rest" "k \<notin> fst ` set rest" "k \<notin> fst ` set acc" using 2(3,4) by (auto simp: clean_items_Cons)
  have "fold (\<lambda>px. assign_path (fst px) (snd px))
      (case v of VDict d \<Rightarrow> map (\<lambda>px. (k # fst px, snd px)) (paths d) | _ \<Rightarrow> [([k], v)]) acc = acc @ [(k, v)]"
  proof (cases v)
    case (VDict e)
    have e: "clean_items e" "e \<noteq> []" using c(1) VDict clean_VDict by blast+
    have "\<forall>px \<in> set (paths e). fst px \<noteq> []" using path_props [OF e(1)] by fastforce
    from assign_below [OF paths_nonempty [OF e] this c(4)] 2(1) [OF VDict e(1), of "[]"] show ?thesis
      by (simp add: VDict fold_map comp_def)
  qed (use c(4) in \<open>simp_all add: dset_fresh dget_None_iff [THEN iffD2]\<close>)
  then show ?case using 2(2) [OF c(2), of "acc @ [(k, v)]"] 2(4) c(3) by (auto simp: fold_append)
qed simp

lemma dmerge_fresh: "distinct (map fst b) \<Longrightarrow> fst ` set b \<inter> fst ` set a = {} \<Longrightarrow> dmerge a b = a @ b"
proof (induction b arbitrary: a)
  case (Cons kv b)
  then have "dset a (fst kv) (snd kv) = a @ [kv]" by (simp add: dset_fresh dget_None_iff [THEN iffD2])
  with Cons show ?case by (auto simp: dmerge_def)
qed (simp add: dmerge_def)

lemma dmerge_append: "distinct (map fst (a @ b)) \<Longrightarrow> dmerge a b = a @ b"
  by (rule dmerge_fresh) auto

definition full_path :: "string \<Rightarrow> string list \<Rightarrow> string" where
  "full_path pfx p = pfx @ ''.'' @ py_join ''.'' p"

lemma full_path_inj:
  "full_path pfx p = full_path pfx q \<Longrightarrow> p \<noteq> [] \<Longrightarrow> q \<noteq> [] \<Longrightarrow> \<forall>k \<in> set p. CHR ''.'' \<notin> set k \<Longrightarrow> \<forall>k \<in> set q. CHR ''.'' \<notin> set k \<Longrightarrow> p = q"
  unfolding full_path_def by (metis same_append_eq py_split_join)

lemma walk_paths:
  "clean_items d \<Longrightarrow> pfx \<noteq> [] \<Longrightarrow> \<forall>x. \<not> known (pfx @ ''.'' @ x) \<Longrightarrow>
    walk_blob known d pfx = map (\<lambda>px. (full_path pfx (fst px), snd px)) (paths d)"
proof (induction d arbitrary: pfx rule: paths.induct)
  case (2 k v rest pfx)
  have c: "clean v" "clean_items rest" using 2(3) by (simp_all add: clean_items_Cons)
  let ?f = "map (\<lambda>px. (full_path pfx (fst px), snd px))"
  let ?here = "case v of VDict d \<Rightarrow> map (\<lambda>px. (k # fst px, snd px)) (paths d) | _ \<Rightarrow> [([k], v)]"
  have here: "(case v of VDict d \<Rightarrow> walk_blob known d (pfx @ CHR ''.'' # k) | _ \<Rightarrow> [(pfx @ CHR ''.'' # k, v)]) = ?f ?here"
  proof (cases v)
    case (VDict e)
    have e: "clean_items e" using c(1) VDict clean_VDict by blast
    have "full_path (pfx @ ''.'' @ k) p = full_path pfx (k # p)" if "p \<noteq> []" for p
      using that by (cases p) (simp_all add: full_path_def)
    then have "full_path (pfx @ ''.'' @ k) (fst px) = full_path pfx (k # fst px)" if "px \<in> set (paths e)" for px
      using path_props [OF e, of "fst px" "snd px"] that by simp
    moreover have "\<forall>x. \<not> known ((pfx @ ''.'' @ k) @ ''.'' @ x)"
      using 2(5) by (metis append.assoc)
    ultimately show ?thesis using 2(1) [OF VDict e, of "pfx @ ''.'' @ k"] VDict by simp
  qed (simp_all add: full_path_def)
  have d: "distinct (map fst (?here @ paths rest))" using paths_distinct [OF 2(3)] by simp
  have good: "p \<noteq> [] \<and> (\<forall>k \<in> set p. CHR ''.'' \<notin> set k)" if p: "p \<in> fst ` set (?here @ paths rest)" for p
  proof -
    have "p \<in> fst ` set (paths ((k, v) # rest))" using p by simp
    then obtain x where "(p, x) \<in> set (paths ((k, v) # rest))" unfolding image_iff by (metis prod.collapse)
    from path_props [OF 2(3) this] show ?thesis by simp
  qed
  have "inj_on (full_path pfx) (fst ` set (?here @ paths rest))"
    by (rule inj_onI, erule full_path_inj) (use good in blast)+
  with d have "distinct (map (full_path pfx) (map fst (?here @ paths rest)))" by (simp only: distinct_map set_map)
  then have "distinct (map fst (?f ?here @ ?f (paths rest)))" by (simp add: comp_def)
  then have "dmerge (?f ?here) (?f (paths rest)) = ?f ?here @ ?f (paths rest)" by (rule dmerge_append)
  moreover have "\<not> known (pfx @ CHR ''.'' # k)" using spec [OF 2(5), of k] by simp
  ultimately show ?case using here 2(2) [OF c(2) 2(4,5)] 2(4) by (simp add: Let_def)
qed simp

section \<open>The repair undoes the flattening\<close>

definition dict_prefixes :: "string set" where
  "dict_prefixes = (\<Union>ka \<in> set dict_config_key_aliases. set (fst ka # snd ka))"

text \<open>No key of a dictionary is the beginning of another one.\<close>

definition apart :: "string \<Rightarrow> string \<Rightarrow> bool" where
  "apart a b \<longleftrightarrow> take (length a + 1) (b @ ''.'') \<noteq> a @ ''.'' \<and> take (length b + 1) (a @ ''.'') \<noteq> b @ ''.''"

lemma keys_apart: "list_all (\<lambda>ka. list_all (\<lambda>kb. fst ka = fst kb \<or> list_all (apart (fst ka)) (fst kb # snd kb)) dict_config_key_aliases)
   dict_config_key_aliases"
  by code_simp

lemma aliases_apart: "list_all (\<lambda>ka. list_all (apart (fst ka)) (snd ka)) dict_config_key_aliases"
  by code_simp

lemma has_prefix_below: "apart a b \<Longrightarrow> \<not> has_prefix b (a @ ''.'' @ x)"
proof
  assume a: "apart a b" and h: "has_prefix b (a @ ''.'' @ x)"
  then have t: "take (length b + 1) (a @ ''.'' @ x) = b @ ''.''" by (simp add: has_prefix_def)
  show False
  proof (cases "length b \<le> length a")
    case True
    then have "take (length b + 1) ((a @ ''.'') @ x) = take (length b + 1) (a @ ''.'')" by (subst take_append) simp
    with t have "take (length b + 1) (a @ ''.'') = b @ ''.''" by simp
    with a show False by (simp add: apart_def)
  next
    case False
    then have "take (length a + 1) (b @ ''.'') = take (length a + 1) (take (length b + 1) (a @ ''.'' @ x))" unfolding t by simp
    also have "\<dots> = a @ ''.''" using False by (simp add: min_def)
    finally show False using a by (simp add: apart_def)
  qed
qed

lemma has_prefix_self: "\<not> has_prefix a b" if "apart b a"
  using that by (auto simp: apart_def has_prefix_def)

lemma fragment_full_path: "fragment_of (K # aliases) (full_path K p) = Some (py_join ''.'' p)"
  by (simp add: fragment_of_def full_path_def has_prefix_def)

lemma repair_rows:
  assumes "K \<notin> set api_config_keys" and "\<forall>px \<in> set ps. fst px \<noteq> [] \<and> (\<forall>k \<in> set (fst px). CHR ''.'' \<notin> set k)"
  shows "fold (repair_row K (K # aliases)) (map (\<lambda>px. (full_path K (fst px), snd px, t)) ps) (d, moved) =
    (fold (\<lambda>px. assign_path (fst px) (snd px)) ps d, moved @ map (\<lambda>px. full_path K (fst px)) ps)"
  using assms(2)
proof (induction ps arbitrary: d moved)
  case (Cons px ps)
  then have "repair_row K (K # aliases) (full_path K (fst px), snd px, t) (d, moved) =
      (assign_path (fst px) (snd px) d, moved @ [full_path K (fst px)])"
    using assms(1) by (simp add: repair_row_def fragment_full_path py_split_join)
  with Cons show ?case by simp
qed simp

lemma repair_key_idle:
  "\<forall>kv \<in> set (fst st). \<forall>p \<in> set (fst ka # snd ka). \<not> like p (fst kv) \<Longrightarrow> repair_key like tracked now ka st = st"
proof -
  assume "\<forall>kv \<in> set (fst st). \<forall>p \<in> set (fst ka # snd ka). \<not> like p (fst kv)"
  then have "concat (map (\<lambda>p. filter (\<lambda>kv. like p (fst kv)) (fst st)) (fst ka # snd ka)) = []" by (auto simp: filter_empty_conv)
  then show ?thesis unfolding repair_key_def Let_def by (simp only: if_True simp_thms split_def)
qed

lemma repair_idle:
  "\<forall>kv \<in> set (fst st). \<forall>ka \<in> set kas. \<forall>p \<in> set (fst ka # snd ka). \<not> like p (fst kv) \<Longrightarrow>
    fold (repair_key like tracked now) kas st = st"
  by (induction kas) (simp_all add: repair_key_idle)

lemma repair_key_restores:
  assumes K: "K \<notin> set api_config_keys" and d: "clean (VDict d)" and new: "K \<notin> fst ` set others"
    and found: "concat (map (\<lambda>p. filter (\<lambda>kv. like p (fst kv)) rows) (K # aliases)) = flat"
    and rows: "rows = others @ flat" and flat: "flat = map (\<lambda>px. (full_path K (fst px), snd px, t)) (paths d)"
  shows "repair_key like tracked now (K, aliases) (rows, orphans) = (rows @ [(K, VDict d, now)], orphans @ map fst flat)"
proof -
  have c: "clean_items d" "d \<noteq> []" using d unfolding clean_VDict by blast+
  have "\<forall>px \<in> set (paths d). fst px \<noteq> [] \<and> (\<forall>k \<in> set (fst px). CHR ''.'' \<notin> set k)"
    using path_props [OF c(1)] by auto
  from repair_rows [OF K this, of aliases t "[]" "[]"] assign_paths [OF c(1), of "[]"]
  have r: "fold (repair_row K (K # aliases)) flat ([], []) = (d, map fst flat)" unfolding flat by (simp add: comp_def)
  have "K \<noteq> full_path K p" for p by (simp add: full_path_def)
  then have "K \<notin> fst ` set rows" using new unfolding rows flat by auto
  then have "dget rows K = None" by (simp add: dget_None_iff)
  moreover have "flat \<noteq> []" using paths_nonempty [OF c] by (simp add: flat)
  ultimately show ?thesis unfolding repair_key_def Let_def fst_conv snd_conv found by (simp add: r)
qed

text \<open>A dictionary setting, other than the connection configurations, that the migration did not know and flattened
  into rows, and that has no row of its own yet, is restored as it was, its order included: the repair replaces the rows by
  one row with the dictionary and touches no other row. No key in the dictionary has a dot, no dictionary in it is empty, no
  other row lies below a dictionary setting, and the database's LIKE is exact on the keys of the table.\<close>

theorem repair_restores_flattened:
  assumes K: "(K, aliases) \<in> set dict_config_key_aliases" "K \<notin> set api_config_keys" and d: "clean (VDict d)"
    and rows: "cf_rows s = others @ map (\<lambda>(k, v). (k, v, t)) (walk_blob known d K)" and on: "cf_persistent s"
    and unknown: "\<forall>x. \<not> known (K @ ''.'' @ x)"
    and new: "K \<notin> fst ` set others" "\<forall>k \<in> fst ` set others. \<forall>p \<in> dict_prefixes. \<not> has_prefix p k"
    and like: "\<forall>k \<in> insert K (fst ` set (cf_rows s)). \<forall>p \<in> dict_prefixes. like p k \<longleftrightarrow> has_prefix p k"
  shows "cf_rows (repair_flattened_dict_configs like tracked now s) = others @ [(K, VDict d, now)]"
proof -
  define flat where "flat = map (\<lambda>px. (full_path K (fst px), snd px, t)) (paths d)"
  have c: "clean_items d" using d unfolding clean_VDict by blast
  have "K \<noteq> []" using K(1) by (auto simp: dict_config_key_aliases_def)
  from walk_paths [OF c this unknown] have w: "cf_rows s = others @ flat" by (simp add: rows flat_def comp_def)
  obtain xs ys where split: "dict_config_key_aliases = xs @ (K, aliases) # ys" using K(1) by (auto simp: in_set_conv_decomp)
  have dist: "distinct (map fst dict_config_key_aliases)" by code_simp
  have away: "apart K p" "apart p K" if "ka \<in> set (xs @ ys)" "p \<in> set (fst ka # snd ka)" for ka p
  proof -
    have "fst ka \<noteq> K" using dist that(1) by (auto simp: split)
    with keys_apart that K(1) show "apart K p" by (fastforce simp: list_all_iff split)
    then show "apart p K" by (simp add: apart_def conj_commute)
  qed
  have own: "apart K p" if "p \<in> set aliases" for p
    using aliases_apart that by (simp add: split list_all_iff)
  have pre: "p \<in> dict_prefixes" if "ka \<in> set dict_config_key_aliases" "p \<in> set (fst ka # snd ka)" for ka p
    using that unfolding dict_prefixes_def by blast
  have K': "K \<in> dict_prefixes" "\<And>p. p \<in> set aliases \<Longrightarrow> p \<in> dict_prefixes" using pre [OF K(1)] by auto
  let ?new = "(K, VDict d, now)"
  have idle: "fold (repair_key like tracked now) zs st = st" if "set zs \<subseteq> set (xs @ ys)" "set (fst st) \<subseteq> insert ?new (set (cf_rows s))" for zs st
  proof (rule repair_idle, intro ballI)
    fix kv ka p assume kv: "kv \<in> set (fst st)" and ka: "ka \<in> set zs" "p \<in> set (fst ka # snd ka)"
    have ka': "ka \<in> set (xs @ ys)" "ka \<in> set dict_config_key_aliases" using ka(1) that(1) by (auto simp: split)
    note a = away [OF ka'(1) ka(2)] and p = pre [OF ka'(2) ka(2)]
    have "\<not> has_prefix p (fst kv)"
      using kv that(2) new(2) p has_prefix_below [OF a(1)] has_prefix_self [OF a(1)] by (auto simp: w flat_def full_path_def)
    moreover have "fst kv \<in> insert K (fst ` set (cf_rows s))" using kv that(2) by auto
    ultimately show "\<not> like p (fst kv)" using like p by blast
  qed
  have like': "like p (fst kv) \<longleftrightarrow> has_prefix p (fst kv)" if "kv \<in> set (others @ flat)" "p \<in> dict_prefixes" for kv p
    using like that by (simp add: w image_iff)
  have "filter (\<lambda>kv. like K (fst kv)) (others @ flat) = filter (\<lambda>kv. has_prefix K (fst kv)) (others @ flat)"
    using like' [OF _ K'(1)] by (intro filter_cong) simp_all
  also have "\<dots> = flat" using new(2) K'(1) by (auto simp: filter_empty_conv filter_id_conv flat_def full_path_def has_prefix_def)
  finally have fK: "filter (\<lambda>kv. like K (fst kv)) (others @ flat) = flat" .
  have "filter (\<lambda>kv. like p (fst kv)) (others @ flat) = []" if "p \<in> set aliases" for p
    using like' [OF _ K'(2) [OF that]] new(2) K'(2) [OF that] has_prefix_below [OF own [OF that]]
    by (auto simp: filter_empty_conv flat_def full_path_def)
  with fK have found: "concat (map (\<lambda>p. filter (\<lambda>kv. like p (fst kv)) (others @ flat)) (K # aliases)) = flat" by simp
  have "fold (repair_key like tracked now) xs (others @ flat, []) = (others @ flat, [])"
    by (rule idle) (auto simp: w)
  moreover have "fold (repair_key like tracked now) ys (others @ flat @ [?new], map fst flat) = (others @ flat @ [?new], map fst flat)"
    by (rule idle) (auto simp: w)
  ultimately have e: "fold (repair_key like tracked now) dict_config_key_aliases (cf_rows s, []) = (others @ flat @ [?new], map fst flat)"
    using repair_key_restores [OF K(2) d new(1) found refl flat_def, of tracked now "[]"] by (simp add: split w)
  have f: "filter (\<lambda>kv. fst kv \<notin> set (map fst flat)) (others @ flat @ [?new]) = others @ [?new]"
  proof -
    have "k \<notin> fst ` set flat" if "k \<in> fst ` set others" for k
    proof
      assume "k \<in> fst ` set flat"
      then have "has_prefix K k" by (auto simp: flat_def full_path_def has_prefix_def)
      with new(2) that K'(1) show False by blast
    qed
    moreover have "K \<notin> fst ` set flat" by (auto simp: flat_def full_path_def)
    ultimately show ?thesis by (auto simp: filter_id_conv filter_empty_conv)
  qed
  show ?thesis unfolding repair_flattened_dict_configs_def e Let_def prod.case f using on by simp
qed

theorem repair_restores_flattened_witness:
  "cf_rows (repair_flattened_dict_configs has_prefix True 7
     \<lparr>cf_rows = [(''ui.theme'', VStr ''dark'', 3), (''user.permissions.chat.edit'', VBool True, 3),
                  (''user.permissions.chat.delete'', VBool False, 3)],
       cf_defaults = [], cf_persistent = True, cf_oauth_persistent = False\<rparr>) =
   [(''ui.theme'', VStr ''dark'', 3),
    (''user.permissions'', VDict [(''chat'', VDict [(''edit'', VBool True), (''delete'', VBool False)])], 7)]"
proof -
  let ?d = "[(''chat'', VDict [(''edit'', VBool True), (''delete'', VBool False)])]"
  have "(''user.permissions'', [''USER_PERMISSIONS'']) \<in> set dict_config_key_aliases" "''user.permissions'' \<notin> set api_config_keys"
    by (simp_all add: dict_config_key_aliases_def api_config_keys_def)
  moreover have "clean (VDict ?d)" by simp
  moreover have "walk_blob (\<lambda>p. p = ''ui.theme'') ?d ''user.permissions'' =
      [(''user.permissions.chat.edit'', VBool True), (''user.permissions.chat.delete'', VBool False)]"
    by code_simp
  moreover have "list_all (\<lambda>p. \<not> has_prefix p ''ui.theme'') (concat (map (\<lambda>ka. fst ka # snd ka) dict_config_key_aliases))"
    by code_simp
  then have "\<forall>p \<in> dict_prefixes. \<not> has_prefix p ''ui.theme''" by (auto simp: dict_prefixes_def list_all_iff)
  ultimately show ?thesis
    using repair_restores_flattened [of "''user.permissions''" "[''USER_PERMISSIONS'']" ?d
        "\<lparr>cf_rows = [(''ui.theme'', VStr ''dark'', 3), (''user.permissions.chat.edit'', VBool True, 3),
                  (''user.permissions.chat.delete'', VBool False, 3)],
           cf_defaults = [], cf_persistent = True, cf_oauth_persistent = False\<rparr>"
        "[(''ui.theme'', VStr ''dark'', 3)]" 3 "\<lambda>p. p = ''ui.theme''" has_prefix True 7] by simp
qed

text \<open>A repaired dictionary that already had a row is lost where the database layer does not notice a change in place: the row keeps
  its old value and the rows with the missing parts are deleted.\<close>

lemma repair_row_untracked:
  assumes "dget rows K = Some (VDict e, t)" and "fold (repair_row K (K # aliases)) (concat (map (\<lambda>p. filter (\<lambda>kv. like p (fst kv)) rows) (K # aliases))) (e, []) = (d, moved)"
    and "moved \<noteq> []"
  shows "repair_key like False now (K, aliases) (rows, orphans) = (dset rows K (VDict e, now), orphans @ moved)"
proof -
  let ?found = "concat (map (\<lambda>p. filter (\<lambda>kv. like p (fst kv)) rows) (K # aliases))"
  have "?found \<noteq> []"
  proof
    assume "?found = []"
    with assms(2) have "moved = []" unfolding \<open>?found = []\<close> by simp
    with assms(3) show False ..
  qed
  with assms show ?thesis unfolding repair_key_def Let_def fst_conv snd_conv by simp
qed

section \<open>Writing and reading\<close>

text \<open>C21. What is written is what is read, whether the database or the defaults keep the key: after an update every key of it
  reads its new value and every other key what it read before, and reading many keys gives each key that is known what reading
  it alone gives, and no other.\<close>

theorem config_write_then_read:
  assumes "wf_dict updates"
  shows "config_get (config_upsert now updates s) k d = (case dget updates k of Some v \<Rightarrow> v | None \<Rightarrow> config_get s k d) \<and>
    dget (config_get_many (config_upsert now updates s) keys) k =
      (if k \<in> set keys \<and> config_known (config_upsert now updates s) k
       then Some (case dget updates k of Some v \<Rightarrow> v | None \<Rightarrow> config_get s k VNone) else None)"
  using map_of_rev_wf [OF assms] by (simp add: get_upsert dget_get_many)

theorem config_write_then_read_witness:
  "let s = config_upsert 5 [(''oauth.x'', VInt 1), (''ui.y'', VInt 2)]
      \<lparr>cf_rows = [], cf_defaults = [], cf_persistent = True, cf_oauth_persistent = False\<rparr>
   in config_get s ''oauth.x'' VNone = VInt 1 \<and> config_get s ''ui.y'' VNone = VInt 2 \<and> cf_rows s = [(''ui.y'', VInt 2, 5)]"
  using config_write_then_read [of "[(''oauth.x'', VInt 1), (''ui.y'', VInt 2)]" 5
      "\<lparr>cf_rows = [], cf_defaults = [], cf_persistent = True, cf_oauth_persistent = False\<rparr>"]
  by (simp add: Let_def config_upsert_def upsert_one_def persistent_enabled_for_def has_prefix_def)

end
