(* ===== verification/Knowledge.thy ===== *)
theory Knowledge
  imports Folders
begin

text \<open>
  Knowledge bases and their directories, \<open>backend/open_webui/models/knowledge.py\<close>. A directory refers to its parent and a
  file to its directory by id. Whether the database enforces these references is the parameter \<open>fk\<close>: with \<open>fk\<close> a missing parent
  is refused, a deletion cascades along \<open>parent_id\<close> and clears the \<open>directory_id\<close> of files; without it, as in SQLite, where the code does not
  switch enforcement on, references may dangle. The recursive methods go as deep as the recursion limit \<open>depth\<close>.
\<close>

section \<open>Rows\<close>

record knowledge_row =
  kn_id :: string
  kn_user_id :: string
  kn_name :: string
  kn_description :: string
  kn_meta :: pyval
  kn_created_at :: int
  kn_updated_at :: int

record directory =
  kd_id :: string
  kd_knowledge_id :: string
  kd_parent_id :: "string option"
  kd_name :: string
  kd_user_id :: string
  kd_created_at :: int
  kd_updated_at :: int

record kb_file =
  kf_id :: string
  kf_knowledge_id :: string
  kf_file_id :: string
  kf_directory_id :: "string option"
  kf_user_id :: string
  kf_created_at :: int
  kf_updated_at :: int

record kb_db =
  db_knowledge :: "knowledge_row list"
  db_dirs :: "directory list"
  db_kb_files :: "kb_file list"
  kb_uuid :: nat

record knowledge_form =
  nf_name :: string
  nf_description :: string
  nf_grants :: "grant_item list option"

section \<open>Referential actions\<close>

text \<open>\<open>ON DELETE CASCADE\<close> along \<open>parent_id\<close>: the directories with ids in the list, and those below them.\<close>

definition cascade_step :: "directory list \<Rightarrow> string list \<Rightarrow> string list" where
  "cascade_step ds ids =
     ids @ map kd_id (filter (\<lambda>d. kd_parent_id d \<in> Some ` set ids \<and> kd_id d \<notin> set ids) ds)"

definition cascade :: "directory list \<Rightarrow> string list \<Rightarrow> string list" where
  "cascade ds ids = (cascade_step ds ^^ length ds) ids"

text \<open>Deleting directories; \<open>ON DELETE SET NULL\<close> for the files in them.\<close>

definition drop_dirs :: "bool \<Rightarrow> string list \<Rightarrow> kb_db \<Rightarrow> kb_db" where
  "drop_dirs fk ids db =
     (let out = (if fk then cascade (db_dirs db) ids else ids)
      in db\<lparr>db_dirs := filter (\<lambda>d. kd_id d \<notin> set out) (db_dirs db),
            db_kb_files := (if fk then map (\<lambda>f. if kf_directory_id f \<in> Some ` set out then f\<lparr>kf_directory_id := None\<rparr> else f)
                                         (db_kb_files db)
                            else db_kb_files db)\<rparr>)"

text \<open>A reference to a directory.\<close>

definition parent_fk_ok :: "bool \<Rightarrow> string option \<Rightarrow> kb_db \<Rightarrow> bool" where
  "parent_fk_ok fk parent db \<longleftrightarrow> (fk \<longrightarrow> (case parent of None \<Rightarrow> True | Some p \<Rightarrow> p \<in> kd_id ` set (db_dirs db)))"

definition dirs_of :: "string \<Rightarrow> kb_db \<Rightarrow> string list" where
  "dirs_of kid db = map kd_id (filter (\<lambda>d. kd_knowledge_id d = kid) (db_dirs db))"

section \<open>Knowledge bases\<close>

definition get_knowledge_by_id :: "string \<Rightarrow> kb_db \<Rightarrow> knowledge_row option" where
  "get_knowledge_by_id i db = List.find (\<lambda>k. kn_id k = i) (db_knowledge db)"

text \<open>The row is committed before the grants are stored: an error there leaves the row.\<close>

definition insert_new_knowledge ::
  "(nat \<Rightarrow> string) \<Rightarrow> int \<Rightarrow> string \<Rightarrow> knowledge_form \<Rightarrow> kb_db \<Rightarrow> grant_db \<Rightarrow> knowledge_row option \<times> kb_db \<times> grant_db" where
  "insert_new_knowledge uuid now uid form db gdb =
     (let row = \<lparr>kn_id = uuid (kb_uuid db), kn_user_id = uid, kn_name = nf_name form, kn_description = nf_description form,
                 kn_meta = VNone, kn_created_at = now, kn_updated_at = now\<rparr>;
          db1 = db\<lparr>kb_uuid := Suc (kb_uuid db)\<rparr>
      in if kn_id row \<in> kn_id ` set (db_knowledge db) then (None, db1, gdb)
         else let db2 = db1\<lparr>db_knowledge := db_knowledge db @ [row]\<rparr>
              in (case set_access_grants uuid now ''knowledge'' (kn_id row) (nf_grants form) gdb of
                    (Inl e, gdb1) \<Rightarrow> (None, db2, gdb1)
                  | (Inr gs, gdb1) \<Rightarrow> (Some row, db2, gdb1)))"

text \<open>The parameters \<open>skip\<close> and \<open>limit\<close> are not used.\<close>

definition get_knowledge_bases :: "kb_db \<Rightarrow> knowledge_row list" where
  "get_knowledge_bases db = order_desc kn_updated_at (db_knowledge db)"

definition check_knowledge_access :: "group_db \<Rightarrow> grant_db \<Rightarrow> kb_db \<Rightarrow> string \<Rightarrow> string \<Rightarrow> string \<Rightarrow> bool" where
  "check_knowledge_access gdb adb db i uid perm =
     (case get_knowledge_by_id i db of
        None \<Rightarrow> False
      | Some k \<Rightarrow> kn_user_id k = uid \<or>
          has_access gdb uid ''knowledge'' (kn_id k) perm (Some (map g_id (get_groups_by_member_id uid gdb))) adb)"

definition get_knowledge_bases_by_user_id :: "group_db \<Rightarrow> grant_db \<Rightarrow> kb_db \<Rightarrow> string \<Rightarrow> string \<Rightarrow> knowledge_row list" where
  "get_knowledge_bases_by_user_id gdb adb db uid perm =
     (let kbs = get_knowledge_bases db;
          accessible = get_accessible_resource_ids gdb uid ''knowledge'' (map kn_id (filter (\<lambda>k. kn_user_id k \<noteq> uid) kbs)) perm
            (Some (map g_id (get_groups_by_member_id uid gdb))) adb
      in filter (\<lambda>k. kn_user_id k = uid \<or> kn_id k \<in> accessible) kbs)"

definition get_knowledge_by_id_and_user_id :: "group_db \<Rightarrow> grant_db \<Rightarrow> kb_db \<Rightarrow> string \<Rightarrow> string \<Rightarrow> knowledge_row option" where
  "get_knowledge_by_id_and_user_id gdb adb db i uid =
     (case get_knowledge_by_id i db of
        None \<Rightarrow> None
      | Some k \<Rightarrow>
          if kn_user_id k = uid then Some k
          else if has_access gdb uid ''knowledge'' (kn_id k) ''write'' (Some (map g_id (get_groups_by_member_id uid gdb))) adb
          then Some k else None)"

definition get_knowledges_by_file_id :: "string \<Rightarrow> kb_db \<Rightarrow> knowledge_row list" where
  "get_knowledges_by_file_id file_id db =
     concat (map (\<lambda>f. filter (\<lambda>k. kn_id k = kf_knowledge_id f) (db_knowledge db))
       (filter (\<lambda>f. kf_file_id f = file_id) (db_kb_files db)))"

definition change_knowledge :: "string \<Rightarrow> (knowledge_row \<Rightarrow> knowledge_row) \<Rightarrow> kb_db \<Rightarrow> kb_db" where
  "change_knowledge i change db = db\<lparr>db_knowledge := map (\<lambda>k. if kn_id k = i then change k else k) (db_knowledge db)\<rparr>"

definition update_knowledge_by_id ::
  "(nat \<Rightarrow> string) \<Rightarrow> int \<Rightarrow> string \<Rightarrow> knowledge_form \<Rightarrow> kb_db \<Rightarrow> grant_db \<Rightarrow> knowledge_row option \<times> kb_db \<times> grant_db" where
  "update_knowledge_by_id uuid now i form db gdb =
     (let db1 = change_knowledge i (\<lambda>k. k\<lparr>kn_name := nf_name form, kn_description := nf_description form, kn_updated_at := now\<rparr>) db
      in case nf_grants form of
           None \<Rightarrow> (get_knowledge_by_id i db1, db1, gdb)
         | Some gs \<Rightarrow>
             (case set_access_grants uuid now ''knowledge'' i (Some gs) gdb of
                (Inl e, gdb1) \<Rightarrow> (None, db1, gdb1)
              | (Inr rows, gdb1) \<Rightarrow> (get_knowledge_by_id i db1, db1, gdb1)))"

definition update_knowledge_meta_by_id :: "int \<Rightarrow> string \<Rightarrow> pyval \<Rightarrow> kb_db \<Rightarrow> knowledge_row option \<times> kb_db" where
  "update_knowledge_meta_by_id now i meta db =
     (let db1 = change_knowledge i (\<lambda>k. k\<lparr>kn_meta := meta, kn_updated_at := now\<rparr>) db in (get_knowledge_by_id i db1, db1))"

text \<open>Deleting a knowledge base: with \<open>fk\<close> its directories and files go with it.\<close>

definition delete_knowledge_by_id :: "bool \<Rightarrow> string \<Rightarrow> kb_db \<Rightarrow> grant_db \<Rightarrow> kb_db \<times> grant_db" where
  "delete_knowledge_by_id fk i db gdb =
     (let db1 = db\<lparr>db_knowledge := filter (\<lambda>k. kn_id k \<noteq> i) (db_knowledge db)\<rparr>;
          db2 = db1\<lparr>db_kb_files := filter (\<lambda>f. kf_knowledge_id f \<noteq> i) (db_kb_files db)\<rparr>
      in (if fk then drop_dirs fk (dirs_of i db) db2 else db1, snd (revoke_all_access ''knowledge'' i gdb)))"

definition delete_all_knowledge :: "bool \<Rightarrow> kb_db \<Rightarrow> grant_db \<Rightarrow> kb_db \<times> grant_db" where
  "delete_all_knowledge fk db gdb =
     (let db1 = db\<lparr>db_knowledge := []\<rparr>
      in (if fk then db1\<lparr>db_dirs := [], db_kb_files := []\<rparr> else db1,
          fold (\<lambda>k g. snd (revoke_all_access ''knowledge'' (kn_id k) g)) (db_knowledge db) gdb))"

section \<open>Files of a knowledge base\<close>

text \<open>\<open>known\<close> says which files exist in the file table.\<close>

definition kb_file_fk_ok :: "bool \<Rightarrow> (string \<Rightarrow> bool) \<Rightarrow> kb_file \<Rightarrow> kb_db \<Rightarrow> bool" where
  "kb_file_fk_ok fk known f db \<longleftrightarrow> fk \<longrightarrow>
     kf_knowledge_id f \<in> kn_id ` set (db_knowledge db) \<and> known (kf_file_id f) \<and> parent_fk_ok fk (kf_directory_id f) db"

definition add_file_to_knowledge_by_id ::
  "bool \<Rightarrow> (string \<Rightarrow> bool) \<Rightarrow> (nat \<Rightarrow> string) \<Rightarrow> int \<Rightarrow> string \<Rightarrow> string \<Rightarrow> string \<Rightarrow> string option \<Rightarrow> kb_db \<Rightarrow> kb_file option \<times> kb_db" where
  "add_file_to_knowledge_by_id fk known uuid now kid file_id uid directory_id db =
     (let row = \<lparr>kf_id = uuid (kb_uuid db), kf_knowledge_id = kid, kf_file_id = file_id, kf_directory_id = directory_id,
                 kf_user_id = uid, kf_created_at = now, kf_updated_at = now\<rparr>;
          db1 = db\<lparr>kb_uuid := Suc (kb_uuid db)\<rparr>
      in if kf_id row \<in> kf_id ` set (db_kb_files db) \<or>
            list_ex (\<lambda>f. kf_knowledge_id f = kid \<and> kf_file_id f = file_id) (db_kb_files db) \<or>
            \<not> kb_file_fk_ok fk known row db
         then (None, db1) else (Some row, db1\<lparr>db_kb_files := db_kb_files db @ [row]\<rparr>))"

definition has_file :: "string \<Rightarrow> string \<Rightarrow> kb_db \<Rightarrow> bool" where
  "has_file kid file_id db \<longleftrightarrow> list_ex (\<lambda>f. kf_knowledge_id f = kid \<and> kf_file_id f = file_id) (db_kb_files db)"

definition remove_file_from_knowledge_by_id :: "string \<Rightarrow> string \<Rightarrow> kb_db \<Rightarrow> kb_db" where
  "remove_file_from_knowledge_by_id kid file_id db =
     db\<lparr>db_kb_files := filter (\<lambda>f. \<not> (kf_knowledge_id f = kid \<and> kf_file_id f = file_id)) (db_kb_files db)\<rparr>"

definition set_directory :: "(kb_file \<Rightarrow> bool) \<Rightarrow> string option \<Rightarrow> kb_db \<Rightarrow> kb_db" where
  "set_directory P target db =
     db\<lparr>db_kb_files := map (\<lambda>f. if P f then f\<lparr>kf_directory_id := target\<rparr> else f) (db_kb_files db)\<rparr>"

definition reset_knowledge_by_id :: "bool \<Rightarrow> int \<Rightarrow> string \<Rightarrow> bool \<Rightarrow> kb_db \<Rightarrow> knowledge_row option \<times> kb_db" where
  "reset_knowledge_by_id fk now i include_directories db =
     (let db1 = db\<lparr>db_kb_files := filter (\<lambda>f. kf_knowledge_id f \<noteq> i) (db_kb_files db)\<rparr>;
          db2 = (if include_directories then drop_dirs fk (dirs_of i db) db1 else db1);
          db3 = change_knowledge i (\<lambda>k. k\<lparr>kn_updated_at := now\<rparr>) db2
      in (get_knowledge_by_id i db3, db3))"

definition move_file_to_directory ::
  "bool \<Rightarrow> int \<Rightarrow> string \<Rightarrow> string \<Rightarrow> string option \<Rightarrow> kb_db \<Rightarrow> bool \<times> kb_db" where
  "move_file_to_directory fk now kid file_id directory_id db =
     (if has_file kid file_id db \<and> \<not> parent_fk_ok fk directory_id db then (False, db)
      else (True, db\<lparr>db_kb_files := map (\<lambda>f. if kf_knowledge_id f = kid \<and> kf_file_id f = file_id
              then f\<lparr>kf_directory_id := directory_id, kf_updated_at := now\<rparr> else f) (db_kb_files db)\<rparr>))"

section \<open>Directories\<close>

definition find_dir :: "string \<Rightarrow> kb_db \<Rightarrow> directory option" where
  "find_dir i db = List.find (\<lambda>d. kd_id d = i) (db_dirs db)"

text \<open>The unique constraint on knowledge base, parent and name; a null parent conflicts with nothing.\<close>

definition same_place :: "directory \<Rightarrow> directory \<Rightarrow> bool" where
  "same_place a b \<longleftrightarrow> kd_knowledge_id a = kd_knowledge_id b \<and> kd_parent_id a = kd_parent_id b \<and> kd_parent_id a \<noteq> None \<and> kd_name a = kd_name b"

definition new_directory :: "(nat \<Rightarrow> string) \<Rightarrow> int \<Rightarrow> string \<Rightarrow> string \<Rightarrow> string \<Rightarrow> string option \<Rightarrow> kb_db \<Rightarrow> directory" where
  "new_directory uuid now kid name uid parent_id db =
     \<lparr>kd_id = uuid (kb_uuid db), kd_knowledge_id = kid, kd_parent_id = parent_id, kd_name = name, kd_user_id = uid,
      kd_created_at = now, kd_updated_at = now\<rparr>"

definition directory_refused :: "bool \<Rightarrow> directory \<Rightarrow> kb_db \<Rightarrow> bool" where
  "directory_refused fk row db \<longleftrightarrow>
     kd_id row \<in> kd_id ` set (db_dirs db) \<or> list_ex (same_place row) (db_dirs db) \<or>
     fk \<and> kd_knowledge_id row \<notin> kn_id ` set (db_knowledge db) \<or> \<not> parent_fk_ok fk (kd_parent_id row) db"

definition create_directory ::
  "bool \<Rightarrow> (nat \<Rightarrow> string) \<Rightarrow> int \<Rightarrow> string \<Rightarrow> string \<Rightarrow> string \<Rightarrow> string option \<Rightarrow> kb_db \<Rightarrow> directory option \<times> kb_db" where
  "create_directory fk uuid now kid name uid parent_id db =
     (let row = new_directory uuid now kid name uid parent_id db;
          db1 = db\<lparr>kb_uuid := Suc (kb_uuid db)\<rparr>
      in if directory_refused fk row db then (None, db1) else (Some row, db1\<lparr>db_dirs := db_dirs db @ [row]\<rparr>))"

definition get_directories :: "string \<Rightarrow> string option \<Rightarrow> kb_db \<Rightarrow> directory list" where
  "get_directories kid parent_id db =
     sort_key kd_name (filter (\<lambda>d. kd_knowledge_id d = kid \<and>
       (if given parent_id then kd_parent_id d = parent_id else kd_parent_id d = None)) (db_dirs db))"

definition get_all_directories :: "string \<Rightarrow> kb_db \<Rightarrow> directory list" where
  "get_all_directories kid db = sort_key kd_name (filter (\<lambda>d. kd_knowledge_id d = kid) (db_dirs db))"

text \<open>The walk towards the root; what has been seen ends it.\<close>

function breadcrumbs_loop :: "kb_db \<Rightarrow> string option \<Rightarrow> string list \<Rightarrow> directory list \<Rightarrow> directory list" where
  "breadcrumbs_loop db current seen acc =
     (case current of
        None \<Rightarrow> acc
      | Some c \<Rightarrow>
          if c = [] \<or> c \<in> set seen then acc
          else (case find_dir c db of
                  None \<Rightarrow> acc
                | Some d \<Rightarrow> breadcrumbs_loop db (kd_parent_id d) (c # seen) (d # acc)))"
  by pat_completeness auto

termination
proof (relation "measure (\<lambda>(db, current, seen, acc). length (filter (\<lambda>d. kd_id d \<notin> set seen) (db_dirs db)))", goal_cases)
  case (2 db current seen acc c d)
  then have "d \<in> set (db_dirs db)" "kd_id d = c" by (auto simp: find_dir_def dest: find_SomeD)
  from filter_unseen_less [where f = kd_id, OF this, of "set seen"] 2 show ?case by simp
qed simp

definition get_directory_breadcrumbs :: "string option \<Rightarrow> kb_db \<Rightarrow> directory list" where
  "get_directory_breadcrumbs directory_id db = breadcrumbs_loop db directory_id [] []"

function meets :: "kb_db \<Rightarrow> string \<Rightarrow> string option \<Rightarrow> string list \<Rightarrow> bool" where
  "meets db i current seen =
     (case current of
        None \<Rightarrow> False
      | Some c \<Rightarrow>
          if c = [] \<or> c \<in> set seen then False
          else if c = i then True
          else (case find_dir c db of None \<Rightarrow> False | Some d \<Rightarrow> meets db i (kd_parent_id d) (c # seen)))"
  by pat_completeness auto

termination
proof (relation "measure (\<lambda>(db, i, current, seen). length (filter (\<lambda>d. kd_id d \<notin> set seen) (db_dirs db)))", goal_cases)
  case (2 db i current seen c d)
  then have "d \<in> set (db_dirs db)" "kd_id d = c" by (auto simp: find_dir_def dest: find_SomeD)
  from filter_unseen_less [where f = kd_id, OF this, of "set seen"] 2 show ?case by simp
qed simp

declare breadcrumbs_loop.simps [simp del] meets.simps [simp del]

text \<open>An update of one directory's row; a conflict with another row leaves the table alone.\<close>

definition update_dir :: "bool \<Rightarrow> string \<Rightarrow> (directory \<Rightarrow> directory) \<Rightarrow> kb_db \<Rightarrow> directory option \<times> kb_db" where
  "update_dir ok i change db =
     (case find_dir i db of
        None \<Rightarrow> (None, db)
      | Some d \<Rightarrow>
          if \<not> ok \<or> list_ex (\<lambda>e. kd_id e \<noteq> i \<and> same_place (change d) e) (db_dirs db) then (None, db)
          else (Some (change d), db\<lparr>db_dirs := map (\<lambda>e. if kd_id e = i then change e else e) (db_dirs db)\<rparr>))"

definition rename_directory :: "int \<Rightarrow> string \<Rightarrow> string \<Rightarrow> kb_db \<Rightarrow> directory option \<times> kb_db" where
  "rename_directory now i name db = update_dir True i (\<lambda>d. d\<lparr>kd_name := name, kd_updated_at := now\<rparr>) db"

definition move_directory :: "bool \<Rightarrow> int \<Rightarrow> string \<Rightarrow> string option \<Rightarrow> kb_db \<Rightarrow> directory option \<times> kb_db" where
  "move_directory fk now i new_parent_id db =
     (if given new_parent_id \<and> meets db i new_parent_id [] then (None, db)
      else update_dir (parent_fk_ok fk new_parent_id db) i
             (\<lambda>d. d\<lparr>kd_parent_id := new_parent_id, kd_updated_at := now\<rparr>) db)"

text \<open>The parent is left alone when it is not given or the text \<open>__unset__\<close>.\<close>

definition update_directory ::
  "bool \<Rightarrow> int \<Rightarrow> string \<Rightarrow> string option \<Rightarrow> string option option \<Rightarrow> kb_db \<Rightarrow> directory option \<times> kb_db" where
  "update_directory fk now i name parent_id db =
     (let move = (case parent_id of None \<Rightarrow> None | Some p \<Rightarrow> if p = Some ''__unset__'' then None else Some p);
          (ok, db1) = (case move of None \<Rightarrow> (True, db)
                       | Some p \<Rightarrow> (case move_directory fk now i p db of (None, db1) \<Rightarrow> (False, db1) | (Some d, db1) \<Rightarrow> (True, db1)))
      in if \<not> ok then (None, db1)
         else case name of None \<Rightarrow> (find_dir i db1, db1) | Some n \<Rightarrow> rename_directory now i n db1)"

definition dir_children :: "string \<Rightarrow> kb_db \<Rightarrow> string list" where
  "dir_children i db = map kd_id (filter (\<lambda>d. kd_parent_id d = Some i) (db_dirs db))"

text \<open>A loop that threads the database and stops at an error.\<close>

fun in_turn :: "(string \<Rightarrow> kb_db \<Rightarrow> kb_db result) \<Rightarrow> string list \<Rightarrow> kb_db \<Rightarrow> kb_db result" where
  "in_turn f [] db = Inr db"
| "in_turn f (c # cs) db = rbind (f c db) (in_turn f cs)"

primrec move_files_from_subtree :: "nat \<Rightarrow> string option \<Rightarrow> string \<Rightarrow> kb_db \<Rightarrow> kb_db result" where
  "move_files_from_subtree 0 target i db = Inl RecursionError"
| "move_files_from_subtree (Suc depth) target i db =
     in_turn (\<lambda>c db. move_files_from_subtree depth target c (set_directory (\<lambda>f. kf_directory_id f = Some c) target db))
       (dir_children i db) db"

primrec delete_files_in_subtree :: "nat \<Rightarrow> string \<Rightarrow> kb_db \<Rightarrow> kb_db result" where
  "delete_files_in_subtree 0 i db = Inl RecursionError"
| "delete_files_in_subtree (Suc depth) i db =
     (let db1 = db\<lparr>db_kb_files := filter (\<lambda>f. kf_directory_id f \<noteq> Some i) (db_kb_files db)\<rparr>
      in in_turn (delete_files_in_subtree depth) (dir_children i db1) db1)"

text \<open>The deletion is one transaction: an error leaves the table as it was.\<close>

definition delete_directory :: "bool \<Rightarrow> nat \<Rightarrow> string \<Rightarrow> bool \<Rightarrow> kb_db \<Rightarrow> bool \<times> kb_db" where
  "delete_directory fk depth i move_files db =
     (case find_dir i db of
        None \<Rightarrow> (False, db)
      | Some d \<Rightarrow>
          (case (if move_files
                 then move_files_from_subtree depth (kd_parent_id d) i
                        (set_directory (\<lambda>f. kf_directory_id f = Some i) (kd_parent_id d) db)
                 else delete_files_in_subtree depth i db) of
             Inl e \<Rightarrow> (False, db)
           | Inr db1 \<Rightarrow> (True, drop_dirs fk [i] db1)))"

section \<open>The tree of directories\<close>

definition above :: "kb_db \<Rightarrow> (string \<times> string) set" where
  "above db = {(kd_id d, p) | d p. d \<in> set (db_dirs db) \<and> kd_parent_id d = Some p}"

lemma aboveI: "d \<in> set (db_dirs db) \<Longrightarrow> kd_parent_id d = Some p \<Longrightarrow> (kd_id d, p) \<in> above db"
  by (auto simp: above_def)

text \<open>What every operation keeps: ids are unique and not empty, no directory is above itself, and where the database enforces
  the references every parent exists.\<close>

definition dirs_inv :: "bool \<Rightarrow> kb_db \<Rightarrow> bool" where
  "dirs_inv fk db \<longleftrightarrow>
     distinct (map kd_id (db_dirs db)) \<and> [] \<notin> kd_id ` set (db_dirs db) \<and> acyclic (above db) \<and>
     (fk \<longrightarrow> (\<forall>(c, p) \<in> above db. p \<in> kd_id ` set (db_dirs db)))"

lemma find_dir_Some: "find_dir i db = Some d \<Longrightarrow> d \<in> set (db_dirs db) \<and> kd_id d = i"
  unfolding find_dir_def by (drule find_SomeD) simp

lemma find_dir_None: "find_dir i db = None \<longleftrightarrow> i \<notin> kd_id ` set (db_dirs db)"
  by (auto simp: find_dir_def find_None_filter filter_empty_conv)

lemma dir_unique:
  "distinct (map kd_id (db_dirs db)) \<Longrightarrow> d \<in> set (db_dirs db) \<Longrightarrow> e \<in> set (db_dirs db) \<Longrightarrow> kd_id d = kd_id e \<Longrightarrow> d = e"
  by (auto simp: distinct_map dest: inj_onD)

lemma above_find:
  "distinct (map kd_id (db_dirs db)) \<Longrightarrow> (c, p) \<in> above db \<longleftrightarrow> (\<exists>d. find_dir c db = Some d \<and> kd_parent_id d = Some p)"
proof -
  assume dist: "distinct (map kd_id (db_dirs db))"
  have "\<exists>d. find_dir (kd_id e) db = Some d \<and> kd_parent_id d = Some p" if e: "e \<in> set (db_dirs db)" "kd_parent_id e = Some p" for e
  proof -
    obtain d where d: "find_dir (kd_id e) db = Some d" using e(1) find_dir_None [of "kd_id e" db] by fastforce
    with find_dir_Some [OF d] dir_unique [OF dist] e show ?thesis by metis
  qed
  then show ?thesis using find_dir_Some by (fastforce simp: above_def)
qed

text \<open>The walk of the cycle check finds the directory exactly if it is on the way to the root.\<close>

lemma meets_iff:
  assumes inv: "dirs_inv fk db" and "i \<in> kd_id ` set (db_dirs db)"
    and "\<forall>x \<in> set seen. (x, c) \<in> (above db)\<^sup>+"
  shows "meets db i (Some c) seen \<longleftrightarrow> (c, i) \<in> (above db)\<^sup>*"
  using assms(3)
proof (induction "length (filter (\<lambda>d. kd_id d \<notin> set seen) (db_dirs db))" arbitrary: c seen rule: less_induct)
  case less
  have dist: "distinct (map kd_id (db_dirs db))" and ac: "acyclic (above db)" and ne: "[] \<notin> kd_id ` set (db_dirs db)"
    using inv by (simp_all add: dirs_inv_def)
  have c: "c \<notin> set seen" using less.prems ac by (auto simp: acyclic_def)
  show ?case
  proof (cases "find_dir c db")
    case None
    then have "(c, p) \<notin> above db" for p using above_find [OF dist] by simp
    then have "(c, i) \<in> (above db)\<^sup>* \<longleftrightarrow> c = i" by (metis converse_rtranclE rtrancl.rtrancl_refl)
    moreover have "c \<noteq> i" using None assms(2) by (auto simp: find_dir_None)
    ultimately show ?thesis using None by (subst meets.simps) simp
  next
    case (Some d)
    note d = find_dir_Some [OF Some]
    then have "c \<noteq> []" using ne by force
    show ?thesis
    proof (cases "c = i")
      case False
      then have m: "meets db i (Some c) seen = meets db i (kd_parent_id d) (c # seen)"
        using c \<open>c \<noteq> []\<close> Some by (subst meets.simps) simp
      show ?thesis
      proof (cases "kd_parent_id d")
        case None
        then have "(c, p) \<notin> above db" for p using above_find [OF dist] Some by simp
        then have "(c, i) \<notin> (above db)\<^sup>*" using False by (metis converse_rtranclE)
        then show ?thesis unfolding m None by (subst meets.simps) simp
      next
        case par: (Some p)
        then have up: "(c, q) \<in> above db \<longleftrightarrow> q = p" for q using above_find [OF dist] Some by auto
        have "(c, i) \<in> (above db)\<^sup>* \<longleftrightarrow> (p, i) \<in> (above db)\<^sup>*"
          using up False by (metis converse_rtranclE converse_rtrancl_into_rtrancl)
        moreover have "\<forall>x \<in> set (c # seen). (x, p) \<in> (above db)\<^sup>+"
          using less.prems up by (auto intro: trancl_into_trancl)
        moreover have "length (filter (\<lambda>d. kd_id d \<notin> set (c # seen)) (db_dirs db)) < length (filter (\<lambda>d. kd_id d \<notin> set seen) (db_dirs db))"
          using filter_unseen_less [where f = kd_id and x = d and xs = "db_dirs db" and k = c and seen = "set seen"] d c by simp
        ultimately show ?thesis using less.hyps [of "c # seen" p] unfolding m par by simp
      qed
    next
      case True
      then show ?thesis using c \<open>c \<noteq> []\<close> by (subst meets.simps) simp
    qed
  qed
qed

subsection \<open>The cascade\<close>

definition closed_below :: "directory list \<Rightarrow> string set \<Rightarrow> bool" where
  "closed_below ds S \<longleftrightarrow> (\<forall>d \<in> set ds. kd_parent_id d \<in> Some ` S \<longrightarrow> kd_id d \<in> S)"

lemma set_cascade_step:
  "set (cascade_step ds ids) = set ids \<union> {kd_id d | d. d \<in> set ds \<and> kd_parent_id d \<in> Some ` set ids}"
  by (auto simp: cascade_step_def)

lemma cascade_step_closed: "closed_below ds (set ids) \<Longrightarrow> set (cascade_step ds ids) = set ids"
  by (auto simp: set_cascade_step closed_below_def)

lemma cascade_grows:
  "closed_below ds (set ((cascade_step ds ^^ n) ids)) \<or> n \<le> card (set ((cascade_step ds ^^ n) ids) \<inter> kd_id ` set ds)"
proof (induction n)
  case (Suc n)
  let ?S = "set ((cascade_step ds ^^ n) ids)" and ?D = "kd_id ` set ds"
  have grown: "set ((cascade_step ds ^^ Suc n) ids) = ?S \<union> {kd_id d | d. d \<in> set ds \<and> kd_parent_id d \<in> Some ` ?S}"
    by (simp add: set_cascade_step)
  show ?case
  proof (cases "closed_below ds ?S")
    case True
    from cascade_step_closed [OF True] True show ?thesis by simp
  next
    case False
    then obtain d where d: "d \<in> set ds" "kd_parent_id d \<in> Some ` ?S" "kd_id d \<notin> ?S" by (auto simp: closed_below_def)
    then have "insert (kd_id d) (?S \<inter> ?D) \<subseteq> set ((cascade_step ds ^^ Suc n) ids) \<inter> ?D" unfolding grown by blast
    then have "card (insert (kd_id d) (?S \<inter> ?D)) \<le> card (set ((cascade_step ds ^^ Suc n) ids) \<inter> ?D)" by (intro card_mono) simp_all
    moreover have "card (insert (kd_id d) (?S \<inter> ?D)) = Suc (card (?S \<inter> ?D))" using d(3) by simp
    ultimately show ?thesis using Suc False by simp
  qed
qed simp

lemma cascade_closed: "closed_below ds (set (cascade ds ids))"
proof -
  let ?S = "set (cascade ds ids)" and ?D = "kd_id ` set ds"
  have "?D \<subseteq> ?S" if "length ds \<le> card (?S \<inter> ?D)"
  proof -
    have "card ?D \<le> card (?S \<inter> ?D)" using that card_length [of "map kd_id ds"] by simp
    then have "?S \<inter> ?D = ?D" by (intro card_seteq) simp_all
    then show ?thesis by blast
  qed
  then show ?thesis using cascade_grows [of ds "length ds" ids] unfolding cascade_def closed_below_def by blast
qed

lemma cascade_sound: "j \<in> set ((cascade_step (db_dirs db) ^^ n) ids) \<Longrightarrow> \<exists>i \<in> set ids. (j, i) \<in> (above db)\<^sup>*"
proof (induction n arbitrary: j)
  case (Suc n)
  from Suc.prems consider "j \<in> set ((cascade_step (db_dirs db) ^^ n) ids)"
    | d p where "j = kd_id d" "d \<in> set (db_dirs db)" "kd_parent_id d = Some p" "p \<in> set ((cascade_step (db_dirs db) ^^ n) ids)"
    by (auto simp: set_cascade_step)
  then show ?case
  proof cases
    case 2
    then have "(j, p) \<in> above db" by (auto simp: above_def)
    with Suc.IH [OF 2(4)] show ?thesis by (auto intro: converse_rtrancl_into_rtrancl)
  qed (rule Suc.IH)
qed auto

lemma set_cascade: "set (cascade (db_dirs db) ids) = {j. \<exists>i \<in> set ids. (j, i) \<in> (above db)\<^sup>*}"
proof (intro set_eqI iffI)
  fix j assume "j \<in> {j. \<exists>i \<in> set ids. (j, i) \<in> (above db)\<^sup>*}"
  then obtain i where i: "i \<in> set ids" "(j, i) \<in> (above db)\<^sup>*" by blast
  from i(2) show "j \<in> set (cascade (db_dirs db) ids)"
  proof (induction rule: converse_rtrancl_induct)
    case base
    have "set ids \<subseteq> set ((cascade_step (db_dirs db) ^^ n) ids)" for n by (induction n) (auto simp: set_cascade_step)
    with i(1) show ?case by (auto simp: cascade_def)
  next
    case (step j p)
    with cascade_closed [of "db_dirs db" ids] show ?case by (auto simp: closed_below_def above_def)
  qed
qed (use cascade_sound in \<open>auto simp: cascade_def\<close>)

subsection \<open>The invariant\<close>

lemma dirs_inv_cong: "db_dirs db' = db_dirs db \<Longrightarrow> dirs_inv fk db' = dirs_inv fk db"
  by (simp add: dirs_inv_def above_def)

lemma dirs_inv_filter:
  assumes "dirs_inv fk db" and "db_dirs db' = filter P (db_dirs db)"
    and "fk \<Longrightarrow> (\<And>d p. d \<in> set (db_dirs db) \<Longrightarrow> P d \<Longrightarrow> kd_parent_id d = Some p \<Longrightarrow> p \<in> kd_id ` set (db_dirs db) \<Longrightarrow> p \<in> kd_id ` set (filter P (db_dirs db)))"
  shows "dirs_inv fk db'"
proof -
  have "above db' \<subseteq> above db" using assms(2) by (auto simp: above_def)
  then have "acyclic (above db')" using assms(1) by (auto simp: dirs_inv_def intro: acyclic_subset)
  moreover have "p \<in> kd_id ` set (db_dirs db')" if fk "(c, p) \<in> above db'" for c p
    using that assms by (fastforce simp: above_def dirs_inv_def)
  ultimately show ?thesis using assms(1,2) by (auto simp: dirs_inv_def distinct_map_filter)
qed

lemma drop_dirs_inv: "dirs_inv fk db \<Longrightarrow> dirs_inv fk (drop_dirs fk ids db)"
proof (rule dirs_inv_filter [where P = "\<lambda>d. kd_id d \<notin> set (if fk then cascade (db_dirs db) ids else ids)"])
  fix d p
  assume fk and "d \<in> set (db_dirs db)" "kd_id d \<notin> set (if fk then cascade (db_dirs db) ids else ids)"
    "kd_parent_id d = Some p" "p \<in> kd_id ` set (db_dirs db)"
  then show "p \<in> kd_id ` set (filter (\<lambda>d. kd_id d \<notin> set (if fk then cascade (db_dirs db) ids else ids)) (db_dirs db))"
    using cascade_closed [of "db_dirs db" ids] by (auto simp: closed_below_def)
qed (simp_all add: drop_dirs_def Let_def)

lemma create_inv:
  assumes inv: "dirs_inv fk db" and fresh: "uuid (kb_uuid db) \<notin> Range (above db)" "uuid (kb_uuid db) \<noteq> []" "parent \<noteq> Some (uuid (kb_uuid db))"
  shows "dirs_inv fk (snd (create_directory fk uuid now kid name uid parent db))"
proof (cases "directory_refused fk (new_directory uuid now kid name uid parent db) db")
  case True
  then have "db_dirs (snd (create_directory fk uuid now kid name uid parent db)) = db_dirs db"
    by (simp add: create_directory_def Let_def)
  from dirs_inv_cong [OF this] inv show ?thesis by blast
next
  case False
  define row where "row = new_directory uuid now kid name uid parent db"
  define db' where "db' = snd (create_directory fk uuid now kid name uid parent db)"
  have r: "db_dirs db' = db_dirs db @ [row]" using False by (simp add: db'_def row_def create_directory_def Let_def)
  have row: "kd_id row = uuid (kb_uuid db)" "kd_parent_id row = parent" by (simp_all add: row_def new_directory_def)
  have ok: "kd_id row \<notin> kd_id ` set (db_dirs db)" "parent_fk_ok fk parent db"
    using False row by (simp_all add: directory_refused_def flip: row_def)
  have a: "above db' = above db \<union> (case parent of None \<Rightarrow> {} | Some p \<Rightarrow> {(kd_id row, p)})"
    unfolding above_def r row(2) [symmetric] by (auto split: option.splits)
  have "acyclic (above db')"
  proof (cases parent)
    case (Some p)
    have "(p, kd_id row) \<notin> (above db)\<^sup>*" using fresh Some row by (auto elim: rtranclE)
    with inv a Some show ?thesis by (simp add: dirs_inv_def)
  qed (use inv a in \<open>simp add: dirs_inv_def\<close>)
  moreover have "p \<in> kd_id ` set (db_dirs db')" if fk "(x, p) \<in> above db'" for x p
    using that inv ok(2) unfolding a r by (auto simp: dirs_inv_def parent_fk_ok_def split: option.splits)
  ultimately have "dirs_inv fk db'" using inv ok row fresh(2) unfolding dirs_inv_def r by auto
  then show ?thesis by (simp only: db'_def)
qed

lemma update_dir_inv:
  assumes inv: "dirs_inv fk db" and same: "\<And>d. kd_id (change d) = kd_id d"
    and up: "\<And>d. find_dir i db = Some d \<Longrightarrow> ok \<Longrightarrow>
       kd_parent_id (change d) = kd_parent_id d \<or>
       (\<forall>p. kd_parent_id (change d) = Some p \<longrightarrow> (p, i) \<notin> (above db)\<^sup>* \<and> (fk \<longrightarrow> p \<in> kd_id ` set (db_dirs db)))"
  shows "dirs_inv fk (snd (update_dir ok i change db))"
proof (cases "db_dirs (snd (update_dir ok i change db)) = db_dirs db")
  case True
  from dirs_inv_cong [OF this] inv show ?thesis by blast
next
  case False
  then obtain d where d: "find_dir i db = Some d" and ok by (auto simp: update_dir_def split: option.splits if_splits)
  define db' where "db' = snd (update_dir ok i change db)"
  have dist: "distinct (map kd_id (db_dirs db))" and ac: "acyclic (above db)" using inv by (simp_all add: dirs_inv_def)
  have r: "db_dirs db' = map (\<lambda>e. if kd_id e = i then change e else e) (db_dirs db)"
    using False by (auto simp: db'_def update_dir_def split: option.splits)
  note d' = find_dir_Some [OF d]
  have ids: "map kd_id (db_dirs db') = map kd_id (db_dirs db)" unfolding r by (simp add: same)
  then have idset: "kd_id ` set (db_dirs db') = kd_id ` set (db_dirs db)" by (metis list.set_map)
  have only: "e = d" if "e \<in> set (db_dirs db)" "kd_id e = i" for e using that d' dir_unique [OF dist] by metis
  have a: "above db' \<subseteq> above db \<union> {(i, p) | p. kd_parent_id (change d) = Some p}"
    using only by (fastforce simp: above_def r same)
  have "acyclic (above db')" and "\<forall>(c, p) \<in> above db'. fk \<longrightarrow> p \<in> kd_id ` set (db_dirs db)"
  proof (atomize (full), cases "kd_parent_id (change d)")
    case None
    with a have "above db' \<subseteq> above db" by auto
    with ac inv show "acyclic (above db') \<and> (\<forall>(c, p) \<in> above db'. fk \<longrightarrow> p \<in> kd_id ` set (db_dirs db))"
      by (auto simp: dirs_inv_def intro: acyclic_subset)
  next
    case (Some p)
    with a have sub: "above db' \<subseteq> insert (i, p) (above db)" by auto
    have "(p, i) \<notin> (above db)\<^sup>* \<and> (fk \<longrightarrow> p \<in> kd_id ` set (db_dirs db))"
    proof (cases "kd_parent_id (change d) = kd_parent_id d")
      case True
      then have "(i, p) \<in> above db" using d' Some by (auto simp: above_def)
      with ac inv show ?thesis by (auto simp: acyclic_def dirs_inv_def dest: rtrancl_into_trancl2)
    qed (use up [OF d \<open>ok\<close>] Some in blast)
    then show "acyclic (above db') \<and> (\<forall>(c, p) \<in> above db'. fk \<longrightarrow> p \<in> kd_id ` set (db_dirs db))"
      using sub ac inv by (auto simp: dirs_inv_def acyclic_insert intro: acyclic_subset [OF _ sub])
  qed
  then have "dirs_inv fk db'" using inv idset ids unfolding dirs_inv_def by auto
  then show ?thesis by (simp only: db'_def)
qed

lemma rename_inv: "dirs_inv fk db \<Longrightarrow> dirs_inv fk (snd (rename_directory now i name db))"
  unfolding rename_directory_def by (rule update_dir_inv) simp_all

lemma move_inv:
  assumes inv: "dirs_inv fk db"
  shows "dirs_inv fk (snd (move_directory fk now i parent db))"
proof (cases "given parent \<and> meets db i parent []")
  case False
  have "dirs_inv fk (snd (update_dir (parent_fk_ok fk parent db) i (\<lambda>d. d\<lparr>kd_parent_id := parent, kd_updated_at := now\<rparr>) db))"
  proof (rule update_dir_inv [OF inv], goal_cases)
    case (2 d)
    note d = find_dir_Some [OF 2(1)]
    have "(p, i) \<notin> (above db)\<^sup>*" if p: "parent = Some p" for p
    proof (cases "p = []")
      case True
      have "([], x) \<notin> above db" for x using inv by (auto simp: above_def dirs_inv_def)
      then show ?thesis using True d inv by (metis converse_rtranclE dirs_inv_def image_eqI)
    next
      case ne: False
      then have "\<not> meets db i (Some p) []" using False p by (simp add: given_def)
      with meets_iff [OF inv, of i "[]" p] d show ?thesis by auto
    qed
    with 2(2) show ?case by (auto simp: parent_fk_ok_def)
  qed simp
  then show ?thesis unfolding move_directory_def if_not_P [OF False] .
qed (use inv in \<open>simp add: move_directory_def\<close>)

lemma update_inv: "dirs_inv fk db \<Longrightarrow> dirs_inv fk (snd (update_directory fk now i name parent db))"
  using move_inv [of fk db now i] rename_inv
  by (fastforce simp: update_directory_def Let_def split: option.splits prod.splits dest: arg_cong [where f = snd])

subsection \<open>Breadcrumbs\<close>

text \<open>A trail: every directory is the parent of the one after it.\<close>

definition trail :: "directory list \<Rightarrow> bool" where
  "trail ds = successively (\<lambda>p c. kd_parent_id c = Some (kd_id p)) ds"

lemma trail_Cons: "trail (d # ds) \<longleftrightarrow> (ds = [] \<or> kd_parent_id (hd ds) = Some (kd_id d) \<and> trail ds)"
  by (simp add: trail_def successively_Cons)

lemma breadcrumbs_loop_trail:
  assumes inv: "dirs_inv fk db"
    and "\<forall>x \<in> set seen. (x, c) \<in> (above db)\<^sup>+" "trail acc" "acc \<noteq> [] \<Longrightarrow> kd_parent_id (hd acc) = Some c"
  shows "\<exists>ds. breadcrumbs_loop db (Some c) seen acc = ds @ acc \<and> trail (ds @ acc) \<and> set ds \<subseteq> set (db_dirs db) \<and>
     (case find_dir c db of None \<Rightarrow> ds = [] | Some d \<Rightarrow> ds \<noteq> [] \<and> last ds = d \<and> (fk \<longrightarrow> kd_parent_id (hd ds) = None))"
  using assms(2-)
proof (induction "length (filter (\<lambda>d. kd_id d \<notin> set seen) (db_dirs db))" arbitrary: c seen acc rule: less_induct)
  case less
  have dist: "distinct (map kd_id (db_dirs db))" and ac: "acyclic (above db)" and ne: "[] \<notin> kd_id ` set (db_dirs db)"
    using inv by (simp_all add: dirs_inv_def)
  have c: "c \<notin> set seen" using less.prems(1) ac by (auto simp: acyclic_def)
  show ?case
  proof (cases "find_dir c db")
    case None
    then show ?thesis using less.prems(2) by (subst breadcrumbs_loop.simps) simp
  next
    case (Some d)
    note d = find_dir_Some [OF Some]
    then have "c \<noteq> []" using ne by force
    then have loop: "breadcrumbs_loop db (Some c) seen acc = breadcrumbs_loop db (kd_parent_id d) (c # seen) (d # acc)"
      using c Some by (subst breadcrumbs_loop.simps) simp
    have tr: "trail (d # acc)" using less.prems(2,3) d by (auto simp: trail_Cons)
    show ?thesis
    proof (cases "kd_parent_id d")
      case None
      then have "breadcrumbs_loop db (kd_parent_id d) (c # seen) (d # acc) = [d] @ acc" by (subst breadcrumbs_loop.simps) simp
      with tr None d Some loop show ?thesis by (intro exI [of _ "[d]"]) simp
    next
      case par: (Some p)
      have up: "(c, p) \<in> above db" using above_find [OF dist] Some par by blast
      have "length (filter (\<lambda>d. kd_id d \<notin> set (c # seen)) (db_dirs db)) < length (filter (\<lambda>d. kd_id d \<notin> set seen) (db_dirs db))"
        using filter_unseen_less [where f = kd_id and x = d and xs = "db_dirs db" and k = c and seen = "set seen"] d c by simp
      from less.hyps [OF this, of p "d # acc"] less.prems(1) up tr par
      obtain ds where ds: "breadcrumbs_loop db (Some p) (c # seen) (d # acc) = ds @ d # acc" "trail (ds @ d # acc)"
          "set ds \<subseteq> set (db_dirs db)"
          "case find_dir p db of None \<Rightarrow> ds = [] | Some e \<Rightarrow> ds \<noteq> [] \<and> last ds = e \<and> (fk \<longrightarrow> kd_parent_id (hd ds) = None)"
        by (auto intro: trancl_into_trancl)
      have "fk \<longrightarrow> find_dir p db \<noteq> None" using inv up by (auto simp: find_dir_None dirs_inv_def)
      with ds d Some loop par show ?thesis
        by (intro exI [of _ "ds @ [d]"]) (auto split: option.splits)
    qed
  qed
qed

lemma breadcrumbs_trail:
  assumes "dirs_inv fk db" "d \<in> set (db_dirs db)"
  shows "\<exists>ds. get_directory_breadcrumbs (Some (kd_id d)) db = ds \<and> trail ds \<and> ds \<noteq> [] \<and> last ds = d \<and>
     set ds \<subseteq> set (db_dirs db) \<and> (fk \<longrightarrow> kd_parent_id (hd ds) = None)"
proof -
  have "find_dir (kd_id d) db \<noteq> None" using assms(2) by (simp add: find_dir_None)
  then obtain e where e: "find_dir (kd_id d) db = Some e" by blast
  with find_dir_Some [OF e] assms dir_unique have "e = d" unfolding dirs_inv_def by metis
  with e breadcrumbs_loop_trail [OF assms(1), of "[]" "kd_id d" "[]"] show ?thesis
    by (auto simp: get_directory_breadcrumbs_def trail_def)
qed

subsection \<open>Moving and deleting the files of a subtree\<close>

definition moved :: "string option \<Rightarrow> string set \<Rightarrow> kb_db \<Rightarrow> kb_db" where
  "moved target S db = set_directory (\<lambda>f. kf_directory_id f \<in> Some ` S) target db"

definition dropped :: "string set \<Rightarrow> kb_db \<Rightarrow> kb_db" where
  "dropped S db = db\<lparr>db_kb_files := filter (\<lambda>f. kf_directory_id f \<notin> Some ` S) (db_kb_files db)\<rparr>"

lemma moved_dirs [simp]: "db_dirs (moved t S db) = db_dirs db" and dropped_dirs [simp]: "db_dirs (dropped S db) = db_dirs db"
  by (simp_all add: moved_def set_directory_def dropped_def)

lemma moved_moved: "moved t T (moved t S db) = moved t (S \<union> T) db"
proof -
  have "(\<lambda>f :: kb_file. if kf_directory_id f \<in> Some ` T then f\<lparr>kf_directory_id := t\<rparr> else f) \<circ>
        (\<lambda>f. if kf_directory_id f \<in> Some ` S then f\<lparr>kf_directory_id := t\<rparr> else f) =
        (\<lambda>f. if kf_directory_id f \<in> Some ` (S \<union> T) then f\<lparr>kf_directory_id := t\<rparr> else f)"
    by (intro ext) (simp add: image_Un)
  then show ?thesis by (simp add: moved_def set_directory_def)
qed

lemma dropped_dropped: "dropped T (dropped S db) = dropped (S \<union> T) db"
  by (simp add: dropped_def image_Un)

lemma moved_empty [simp]: "moved t {} db = db"
  by (simp add: moved_def set_directory_def)

lemma above_cong: "db_dirs db' = db_dirs db \<Longrightarrow> above db' = above db"
  by (simp add: above_def)

lemma set_dir_children: "set (dir_children i db) = {c. (c, i) \<in> above db}"
  by (auto simp: dir_children_def above_def)

text \<open>A loop in which the round for \<open>c\<close> acts on the set \<open>B c\<close> acts on the union.\<close>

lemma in_turn_union:
  assumes "\<And>c S. c \<in> set cs \<Longrightarrow> f c (g S) = Inr (g (S \<union> B c))"
  shows "in_turn f cs (g S) = Inr (g (S \<union> (\<Union>c \<in> set cs. B c)))"
  using assms
proof (induction cs arbitrary: S)
  case (Cons c cs)
  from Cons.IH [of "S \<union> B c"] Cons.prems show ?case by (simp add: Un_assoc)
qed simp

lemma union_below: "(\<Union>c \<in> {c. (c, i) \<in> R}. {j. (j, c) \<in> R\<^sup>*}) = {j. (j, i) \<in> R\<^sup>+}"
  by (auto dest: tranclD2 intro: rtrancl_into_trancl1)

definition height :: "kb_db \<Rightarrow> string \<Rightarrow> nat" where
  "height db i = card {j. (j, i) \<in> (above db)\<^sup>+}"

lemma finite_below: "finite {j. (j, i) \<in> (above db)\<^sup>+}"
proof (rule finite_subset)
  show "{j. (j, i) \<in> (above db)\<^sup>+} \<subseteq> kd_id ` set (db_dirs db)" by (auto dest!: tranclD simp: above_def)
qed simp

lemma height_le: "height db i \<le> length (db_dirs db)"
proof -
  have "{j. (j, i) \<in> (above db)\<^sup>+} \<subseteq> set (map kd_id (db_dirs db))" by (auto dest!: tranclD simp: above_def)
  then have "height db i \<le> card (set (map kd_id (db_dirs db)))" unfolding height_def by (intro card_mono) simp_all
  also have "\<dots> \<le> length (db_dirs db)" using card_length [of "map kd_id (db_dirs db)"] by simp
  finally show ?thesis .
qed

lemma height_less: "acyclic (above db) \<Longrightarrow> (c, i) \<in> above db \<Longrightarrow> height db c < height db i"
  unfolding height_def by (rule psubset_card_mono [OF finite_below]) (auto simp: acyclic_def intro: trancl_into_trancl)

lemma move_files_exact:
  assumes "acyclic (above db)" "height db i < depth"
  shows "move_files_from_subtree depth target i db = Inr (moved target {j. (j, i) \<in> (above db)\<^sup>+} db)"
  using assms
proof (induction depth arbitrary: i db)
  case (Suc depth)
  have "in_turn (\<lambda>c db. move_files_from_subtree depth target c (set_directory (\<lambda>f. kf_directory_id f = Some c) target db))
      (dir_children i db) (moved target {} db) =
    Inr (moved target ({} \<union> (\<Union>c \<in> set (dir_children i db). {j. (j, c) \<in> (above db)\<^sup>*})) db)"
  proof (rule in_turn_union)
    fix c S
    assume c: "c \<in> set (dir_children i db)"
    then have "height db c < depth" using Suc.prems height_less [of db c i] by (simp add: set_dir_children)
    moreover have "set_directory (\<lambda>f. kf_directory_id f = Some c) target (moved target S db) = moved target (S \<union> {c}) db"
      unfolding moved_moved [symmetric] by (simp add: moved_def)
    moreover have "{j. (j, c) \<in> (above db)\<^sup>*} = {c} \<union> {j. (j, c) \<in> (above db)\<^sup>+}"
      by (auto simp: rtrancl_eq_or_trancl)
    ultimately show "move_files_from_subtree depth target c (set_directory (\<lambda>f. kf_directory_id f = Some c) target (moved target S db)) =
        Inr (moved target (S \<union> {j. (j, c) \<in> (above db)\<^sup>*}) db)"
      using Suc.IH [of "moved target (S \<union> {c}) db" c] Suc.prems(1)
      by (simp add: above_cong [OF moved_dirs] height_def moved_moved Un_assoc)
  qed
  then show ?case by (simp add: set_dir_children union_below)
qed simp

lemma delete_files_exact:
  assumes "acyclic (above db)" "height db i < depth"
  shows "delete_files_in_subtree depth i db = Inr (dropped {j. (j, i) \<in> (above db)\<^sup>*} db)"
  using assms
proof (induction depth arbitrary: i db)
  case (Suc depth)
  have "in_turn (delete_files_in_subtree depth) (dir_children i db) (dropped {i} db) =
    Inr (dropped ({i} \<union> (\<Union>c \<in> set (dir_children i db). {j. (j, c) \<in> (above db)\<^sup>*})) db)"
  proof (rule in_turn_union)
    fix c S
    assume "c \<in> set (dir_children i db)"
    then have "height db c < depth" using Suc.prems height_less [of db c i] by (simp add: set_dir_children)
    then show "delete_files_in_subtree depth c (dropped S db) = Inr (dropped (S \<union> {j. (j, c) \<in> (above db)\<^sup>*}) db)"
      using Suc.IH [of "dropped S db" c] Suc.prems(1) by (simp add: above_cong [OF dropped_dirs] height_def dropped_dropped)
  qed
  moreover have "{j. (j, i) \<in> (above db)\<^sup>*} = {i} \<union> {j. (j, i) \<in> (above db)\<^sup>+}" by (auto simp: rtrancl_eq_or_trancl)
  moreover have "db\<lparr>db_kb_files := filter (\<lambda>f. kf_directory_id f \<noteq> Some i) (db_kb_files db)\<rparr> = dropped {i} db"
    by (simp add: dropped_def)
  moreover have "dir_children i (dropped {i} db) = dir_children i db" by (simp add: dir_children_def)
  ultimately show ?case by (simp add: Let_def set_dir_children union_below)
qed simp

text \<open>The files and directories that the deletion of a directory leaves.\<close>

lemma delete_directory_result:
  assumes inv: "dirs_inv fk db" and d: "find_dir i db = Some d" and depth: "length (db_dirs db) < depth"
  shows "delete_directory fk depth i move_files db =
     (True, drop_dirs fk [i] (if move_files then moved (kd_parent_id d) {j. (j, i) \<in> (above db)\<^sup>*} db
                              else dropped {j. (j, i) \<in> (above db)\<^sup>*} db))"
proof -
  have ac: "acyclic (above db)" using inv by (simp add: dirs_inv_def)
  have h: "height db i < depth" using height_le [of db i] depth by simp
  have "set_directory (\<lambda>f. kf_directory_id f = Some i) t db = moved t {i} db" for t by (simp add: moved_def)
  moreover have "{j. (j, i) \<in> (above db)\<^sup>*} = {i} \<union> {j. (j, i) \<in> (above db)\<^sup>+}" by (auto simp: rtrancl_eq_or_trancl)
  ultimately show ?thesis
    using move_files_exact [of "moved t {i} db" i depth t for t] delete_files_exact [OF ac h] ac h d
    by (simp add: delete_directory_def above_cong [OF moved_dirs] height_def moved_moved)
qed

subsection \<open>Reachable tables\<close>

text \<open>The operations in any order and with any arguments; a parent that a request names is not an id that \<open>uuid4\<close> has yet to return.\<close>

definition unborn :: "(nat \<Rightarrow> string) \<Rightarrow> kb_db \<Rightarrow> string option set" where
  "unborn uuid db = Some ` uuid ` {kb_uuid db..}"

inductive kb_step :: "bool \<Rightarrow> (nat \<Rightarrow> string) \<Rightarrow> kb_db \<Rightarrow> kb_db \<Rightarrow> bool" for fk uuid where
  insert_knowledge: "insert_new_knowledge uuid now uid form db gdb = (r, db', gdb') \<Longrightarrow> kb_step fk uuid db db'"
| update_knowledge: "update_knowledge_by_id uuid now k form db gdb = (r, db', gdb') \<Longrightarrow> kb_step fk uuid db db'"
| update_meta: "update_knowledge_meta_by_id now k meta db = (r, db') \<Longrightarrow> kb_step fk uuid db db'"
| delete_knowledge: "delete_knowledge_by_id fk k db gdb = (db', gdb') \<Longrightarrow> kb_step fk uuid db db'"
| delete_all: "delete_all_knowledge fk db gdb = (db', gdb') \<Longrightarrow> kb_step fk uuid db db'"
| add_file: "add_file_to_knowledge_by_id fk known uuid now k f uid d db = (r, db') \<Longrightarrow> kb_step fk uuid db db'"
| remove_file: "kb_step fk uuid db (remove_file_from_knowledge_by_id k f db)"
| reset: "reset_knowledge_by_id fk now k dirs db = (r, db') \<Longrightarrow> kb_step fk uuid db db'"
| move_file: "move_file_to_directory fk now k f d db = (r, db') \<Longrightarrow> kb_step fk uuid db db'"
| create: "parent \<notin> unborn uuid db \<Longrightarrow> create_directory fk uuid now k name uid parent db = (r, db') \<Longrightarrow> kb_step fk uuid db db'"
| update: "parent \<notin> Some ` unborn uuid db \<Longrightarrow> update_directory fk now i name parent db = (r, db') \<Longrightarrow> kb_step fk uuid db db'"
| delete: "delete_directory fk depth i move_files db = (r, db') \<Longrightarrow> kb_step fk uuid db db'"

inductive kb_reachable :: "bool \<Rightarrow> (nat \<Rightarrow> string) \<Rightarrow> kb_db \<Rightarrow> bool" for fk uuid where
  start: "kb_reachable fk uuid \<lparr>db_knowledge = [], db_dirs = [], db_kb_files = [], kb_uuid = 0\<rparr>"
| step: "kb_reachable fk uuid db \<Longrightarrow> kb_step fk uuid db db' \<Longrightarrow> kb_reachable fk uuid db'"

definition dir_ids :: "kb_db \<Rightarrow> string set" where
  "dir_ids db = {[]} \<union> kd_id ` set (db_dirs db) \<union> {p. \<exists>d \<in> set (db_dirs db). kd_parent_id d = Some p}"

definition kb_wf :: "bool \<Rightarrow> (nat \<Rightarrow> string) \<Rightarrow> kb_db \<Rightarrow> bool" where
  "kb_wf fk uuid db \<longleftrightarrow> dirs_inv fk db \<and> fresh_from uuid (dir_ids db) (kb_uuid db)"

lemma kb_wf_same:
  assumes "kb_wf fk uuid db" "db_dirs db' = db_dirs db" "kb_uuid db \<le> kb_uuid db'"
  shows "kb_wf fk uuid db'"
proof -
  have "dir_ids db' = dir_ids db" using assms(2) by (simp add: dir_ids_def)
  with assms dirs_inv_cong [OF assms(2)] show ?thesis by (auto simp: kb_wf_def intro: fresh_from_later)
qed

lemma drop_dirs_wf: "kb_wf fk uuid db \<Longrightarrow> kb_wf fk uuid (drop_dirs fk ids db)"
proof -
  assume wf: "kb_wf fk uuid db"
  have "dir_ids (drop_dirs fk ids db) \<subseteq> dir_ids db" by (auto simp: dir_ids_def drop_dirs_def Let_def above_def)
  moreover have "kb_uuid (drop_dirs fk ids db) = kb_uuid db" by (simp add: drop_dirs_def Let_def)
  ultimately show ?thesis using wf drop_dirs_inv by (auto simp: kb_wf_def intro: fresh_from_mono)
qed

text \<open>The operations that leave the directories alone.\<close>

lemma directories_untouched:
  "insert_new_knowledge uuid now uid form db gdb = (r, db', gdb') \<Longrightarrow> db_dirs db' = db_dirs db \<and> kb_uuid db \<le> kb_uuid db'"
  "update_knowledge_by_id uuid now k form db gdb = (r', db', gdb') \<Longrightarrow> db_dirs db' = db_dirs db \<and> kb_uuid db \<le> kb_uuid db'"
  "update_knowledge_meta_by_id now k meta db = (r', db') \<Longrightarrow> db_dirs db' = db_dirs db \<and> kb_uuid db \<le> kb_uuid db'"
  "add_file_to_knowledge_by_id fk known uuid now k f uid d db = (r'', db') \<Longrightarrow> db_dirs db' = db_dirs db \<and> kb_uuid db \<le> kb_uuid db'"
  "move_file_to_directory fk now k f d db = (b, db') \<Longrightarrow> db_dirs db' = db_dirs db \<and> kb_uuid db \<le> kb_uuid db'"
  by (auto simp: insert_new_knowledge_def update_knowledge_by_id_def update_knowledge_meta_by_id_def change_knowledge_def
      add_file_to_knowledge_by_id_def move_file_to_directory_def Let_def split: if_splits option.splits prod.splits sum.splits)

lemma kb_wf_more:
  "kb_wf fk uuid db \<Longrightarrow> dirs_inv fk db' \<Longrightarrow> kb_uuid db \<le> kb_uuid db' \<Longrightarrow> dir_ids db' \<subseteq> dir_ids db \<union> X \<Longrightarrow>
   X \<inter> uuid ` {kb_uuid db'..} = {} \<Longrightarrow> kb_wf fk uuid db'"
  unfolding kb_wf_def using fresh_from_later [of uuid "dir_ids db" "kb_uuid db" "kb_uuid db'"]
  by (fastforce simp: fresh_from_def)

lemma create_wf:
  assumes wf: "kb_wf fk uuid db" and parent: "parent \<notin> unborn uuid db"
  shows "kb_wf fk uuid (snd (create_directory fk uuid now kid name uid parent db))"
proof (rule kb_wf_more [OF wf, where X = "{uuid (kb_uuid db)} \<union> set_option parent"])
  have fresh: "fresh_from uuid (dir_ids db) (kb_uuid db)" and inv: "dirs_inv fk db" using wf by (simp_all add: kb_wf_def)
  have "uuid (kb_uuid db) \<notin> dir_ids db" using fresh by (rule fresh_from_notin)
  with parent show "dirs_inv fk (snd (create_directory fk uuid now kid name uid parent db))"
    by (intro create_inv [OF inv]) (auto simp: dir_ids_def unborn_def above_def)
  show "kb_uuid db \<le> kb_uuid (snd (create_directory fk uuid now kid name uid parent db))"
    by (simp add: create_directory_def Let_def)
  show "dir_ids (snd (create_directory fk uuid now kid name uid parent db)) \<subseteq> dir_ids db \<union> ({uuid (kb_uuid db)} \<union> set_option parent)"
    by (auto simp: create_directory_def Let_def dir_ids_def above_def new_directory_def)
  have "uuid (kb_uuid db) \<notin> uuid ` {Suc (kb_uuid db)..}"
    using fresh_from_notin [OF fresh] fresh_from_Suc [OF fresh] by (auto simp: fresh_from_def)
  with parent show "({uuid (kb_uuid db)} \<union> set_option parent) \<inter> uuid ` {kb_uuid (snd (create_directory fk uuid now kid name uid parent db))..} = {}"
    by (auto simp: create_directory_def Let_def unborn_def Suc_le_eq)
qed

lemma update_dir_ids:
  assumes "\<And>d. kd_id (change d) = kd_id d"
  shows "dir_ids (snd (update_dir ok i change db)) \<subseteq> dir_ids db \<union> {p. \<exists>d \<in> set (db_dirs db). kd_parent_id (change d) = Some p}"
    and "kb_uuid (snd (update_dir ok i change db)) = kb_uuid db"
  using assms by (auto simp: update_dir_def dir_ids_def split: option.splits if_splits)

lemma rename_wf:
  assumes "kb_wf fk uuid db"
  shows "kb_wf fk uuid (snd (rename_directory now i name db))"
proof (rule kb_wf_more [OF assms, where X = "{}"])
  note ids = update_dir_ids [where change = "\<lambda>d. d\<lparr>kd_name := name, kd_updated_at := now\<rparr>" and ok = True and i = i and db = db]
  show "dirs_inv fk (snd (rename_directory now i name db))" using assms rename_inv by (simp add: kb_wf_def)
  show "dir_ids (snd (rename_directory now i name db)) \<subseteq> dir_ids db \<union> {}"
    using ids(1) by (auto simp: rename_directory_def dir_ids_def)
  show "kb_uuid db \<le> kb_uuid (snd (rename_directory now i name db))"
    using ids(2) by (simp add: rename_directory_def)
qed simp

lemma move_directory_wf:
  assumes "kb_wf fk uuid db" and "parent \<notin> unborn uuid db"
  shows "kb_wf fk uuid (snd (move_directory fk now i parent db))"
proof (rule kb_wf_more [OF assms(1), where X = "set_option parent"])
  show "dirs_inv fk (snd (move_directory fk now i parent db))" using assms(1) move_inv by (simp add: kb_wf_def)
  show "dir_ids (snd (move_directory fk now i parent db)) \<subseteq> dir_ids db \<union> set_option parent"
    using update_dir_ids(1) [where change = "\<lambda>d. d\<lparr>kd_parent_id := parent, kd_updated_at := now\<rparr>" and ok = "parent_fk_ok fk parent db"
        and i = i and db = db]
    by (auto simp: move_directory_def)
  have "kb_uuid (snd (move_directory fk now i parent db)) = kb_uuid db"
    using update_dir_ids(2) [where change = "\<lambda>d. d\<lparr>kd_parent_id := parent, kd_updated_at := now\<rparr>"] by (simp add: move_directory_def)
  then show "kb_uuid db \<le> kb_uuid (snd (move_directory fk now i parent db))"
    and "set_option parent \<inter> uuid ` {kb_uuid (snd (move_directory fk now i parent db))..} = {}"
    using assms(2) by (auto simp: unborn_def)
qed

lemma update_wf:
  assumes "kb_wf fk uuid db" and "parent \<notin> Some ` unborn uuid db"
  shows "kb_wf fk uuid (snd (update_directory fk now i name parent db))"
proof -
  have "kb_wf fk uuid (snd (move_directory fk now i p db))" if "parent = Some p" for p
    using that assms by (intro move_directory_wf) auto
  then show ?thesis using assms(1) rename_wf
    by (fastforce simp: update_directory_def Let_def split: option.splits prod.splits dest: arg_cong [where f = snd])
qed

lemma delete_directory_wf: "kb_wf fk uuid db \<Longrightarrow> kb_wf fk uuid (snd (delete_directory fk depth i move_files db))"
proof -
  assume wf: "kb_wf fk uuid db"
  have turn: "db_dirs db' = db_dirs db \<and> kb_uuid db' = kb_uuid db"
    if "in_turn f cs db = Inr db'" "\<And>c db db'. f c db = Inr db' \<Longrightarrow> db_dirs db' = db_dirs db \<and> kb_uuid db' = kb_uuid db" for f cs db db'
    using that by (induction cs arbitrary: db) (auto simp: rbind_Inr_iff)
  have move: "move_files_from_subtree n t j db = Inr db' \<Longrightarrow> db_dirs db' = db_dirs db \<and> kb_uuid db' = kb_uuid db" for n t j db db'
  proof (induction n arbitrary: j db db')
    case (Suc n)
    then show ?case by (auto dest!: turn simp: set_directory_def)
  qed simp
  have del: "delete_files_in_subtree n j db = Inr db' \<Longrightarrow> db_dirs db' = db_dirs db \<and> kb_uuid db' = kb_uuid db" for n j db db'
  proof (induction n arbitrary: j db db')
    case (Suc n)
    then show ?case by (auto dest!: turn simp: Let_def)
  qed simp
  show ?thesis
    using wf move del by (auto simp: delete_directory_def set_directory_def intro!: drop_dirs_wf kb_wf_same [OF wf]
        split: option.splits sum.splits dest!: move del)
qed

lemma delete_knowledge_wf: "kb_wf fk uuid db \<Longrightarrow> kb_wf fk uuid (fst (delete_knowledge_by_id fk k db gdb))"
  by (auto simp: delete_knowledge_by_id_def Let_def intro!: drop_dirs_wf elim!: kb_wf_same)

lemma delete_all_wf: "kb_wf fk uuid db \<Longrightarrow> kb_wf fk uuid (fst (delete_all_knowledge fk db gdb))"
  by (auto simp: delete_all_knowledge_def Let_def kb_wf_def dirs_inv_def above_def dir_ids_def acyclic_def fresh_from_def)

lemma reset_wf: "kb_wf fk uuid db \<Longrightarrow> kb_wf fk uuid (snd (reset_knowledge_by_id fk now k directories db))"
proof -
  assume wf: "kb_wf fk uuid db"
  then have "kb_wf fk uuid (db\<lparr>db_kb_files := filter (\<lambda>f. kf_knowledge_id f \<noteq> k) (db_kb_files db)\<rparr>)" by (rule kb_wf_same) simp_all
  then have "kb_wf fk uuid (if directories then drop_dirs fk (dirs_of k db) (db\<lparr>db_kb_files := filter (\<lambda>f. kf_knowledge_id f \<noteq> k) (db_kb_files db)\<rparr>)
      else db\<lparr>db_kb_files := filter (\<lambda>f. kf_knowledge_id f \<noteq> k) (db_kb_files db)\<rparr>)" by (simp add: drop_dirs_wf)
  then show ?thesis by (rule kb_wf_same) (simp_all add: reset_knowledge_by_id_def Let_def change_knowledge_def)
qed

lemma kb_step_wf: "kb_step fk uuid db db' \<Longrightarrow> kb_wf fk uuid db \<Longrightarrow> kb_wf fk uuid db'"
proof (induction rule: kb_step.induct)
  case (insert_knowledge now uid form db gdb r db' gdb')
  with directories_untouched(1) show ?case by (metis kb_wf_same)
next
  case (update_knowledge now k form db gdb r db' gdb')
  with directories_untouched(2) show ?case by (metis kb_wf_same)
next
  case (update_meta now k meta db r db')
  with directories_untouched(3) show ?case by (metis kb_wf_same)
next
  case (add_file known now k f uid d db r db')
  with directories_untouched(4) show ?case by (metis kb_wf_same)
next
  case (move_file now k f d db r db')
  with directories_untouched(5) show ?case by (metis kb_wf_same)
next
  case (remove_file db k f)
  then show ?case by (rule kb_wf_same) (simp_all add: remove_file_from_knowledge_by_id_def)
next
  case (delete_knowledge k db gdb db' gdb')
  with delete_knowledge_wf show ?case by (metis fst_conv)
next
  case (delete_all db gdb db' gdb')
  with delete_all_wf show ?case by (metis fst_conv)
next
  case (reset now k directories db r db')
  with reset_wf show ?case by (metis snd_conv)
next
  case (create parent db now k name uid r db')
  with create_wf show ?case by (metis snd_conv)
next
  case (update parent db now i name r db')
  with update_wf show ?case by (metis snd_conv)
next
  case (delete depth i move_files db r db')
  with delete_directory_wf show ?case by (metis snd_conv)
qed

lemma kb_reachable_wf: "kb_reachable fk uuid db \<Longrightarrow> fresh_from uuid {[]} 0 \<Longrightarrow> kb_wf fk uuid db"
proof (induction rule: kb_reachable.induct)
  case (step db db')
  with kb_step_wf show ?case by blast
qed (simp add: kb_wf_def dirs_inv_def above_def dir_ids_def acyclic_def)

section \<open>What the operations guarantee\<close>

text \<open>C22. Directories always form a forest: whatever sequence of operations, no directory is above itself, and the breadcrumbs of
  a directory are directories that lead down to it, each the parent of the next; where the database enforces references, they
  begin at a root.\<close>

theorem directories_stay_forest:
  assumes "kb_reachable fk uuid db" and "fresh_from uuid {[]} 0" and "d \<in> set (db_dirs db)"
    and "ds = get_directory_breadcrumbs (Some (kd_id d)) db"
  shows "(kd_id d, kd_id d) \<notin> (above db)\<^sup>+ \<and> ds \<noteq> [] \<and> last ds = d \<and> set ds \<subseteq> set (db_dirs db) \<and>
    successively (\<lambda>p c. kd_parent_id c = Some (kd_id p)) ds \<and> (fk \<longrightarrow> kd_parent_id (hd ds) = None)"
  using breadcrumbs_trail [OF _ assms(3), of fk] kb_reachable_wf [OF assms(1,2)] assms(4)
  by (auto simp: kb_wf_def dirs_inv_def acyclic_def trail_def)

text \<open>Sample tables: a knowledge base with a directory in a directory and a file in it.\<close>

definition sample_uuid :: "nat \<Rightarrow> string" where
  "sample_uuid n = replicate (Suc n) CHR ''x''"

lemma sample_uuid_fresh: "fresh_from sample_uuid {[]} 0"
  by (auto simp: fresh_from_def sample_uuid_def inj_on_def replicate_eq_replicate)

definition sample_form :: knowledge_form where
  "sample_form = \<lparr>nf_name = ''n'', nf_description = [], nf_grants = None\<rparr>"

definition sample_kb1 :: kb_db where
  "sample_kb1 = fst (snd (insert_new_knowledge sample_uuid 1 ''u'' sample_form
     \<lparr>db_knowledge = [], db_dirs = [], db_kb_files = [], kb_uuid = 0\<rparr> \<lparr>db_grants = [], gdb_uuid = 0\<rparr>))"

definition sample_kb2 :: kb_db where
  "sample_kb2 = snd (create_directory True sample_uuid 1 ''x'' ''docs'' ''u'' None sample_kb1)"

definition sample_kb3 :: kb_db where
  "sample_kb3 = snd (create_directory True sample_uuid 1 ''x'' ''old'' ''u'' (Some ''xx'') sample_kb2)"

definition sample_kb :: kb_db where
  "sample_kb = snd (add_file_to_knowledge_by_id True (\<lambda>_. True) sample_uuid 1 ''x'' ''f'' ''u'' (Some ''xxx'') sample_kb3)"

lemma sample_kb_reachable: "kb_reachable True sample_uuid sample_kb"
proof -
  have triple: "x = (fst x, fst (snd x), snd (snd x))" for x :: "knowledge_row option \<times> kb_db \<times> grant_db" by simp
  have "kb_reachable True sample_uuid sample_kb1" unfolding sample_kb1_def
    by (rule kb_reachable.step [OF kb_reachable.start kb_step.insert_knowledge [OF triple]])
  then have "kb_reachable True sample_uuid sample_kb2" unfolding sample_kb2_def
    by (elim kb_reachable.step [OF _ kb_step.create [OF _ prod.collapse [symmetric]]]) (simp add: unborn_def)
  moreover have "Some ''xx'' \<notin> unborn sample_uuid sample_kb2"
  proof -
    have "sample_uuid n = ''xx'' \<Longrightarrow> n = 1" for n by (drule arg_cong [where f = length]) (simp add: sample_uuid_def)
    moreover have "kb_uuid sample_kb2 = 2" by code_simp
    ultimately show ?thesis by (force simp: unborn_def)
  qed
  ultimately have "kb_reachable True sample_uuid sample_kb3" unfolding sample_kb3_def
    by (elim kb_reachable.step [OF _ kb_step.create [OF _ prod.collapse [symmetric]]])
  then show ?thesis unfolding sample_kb_def
    by (elim kb_reachable.step [OF _ kb_step.add_file [OF prod.collapse [symmetric]]])
qed

definition sample_dir :: "string \<Rightarrow> string \<Rightarrow> string option \<Rightarrow> directory" where
  "sample_dir i name parent =
     \<lparr>kd_id = i, kd_knowledge_id = ''x'', kd_parent_id = parent, kd_name = name, kd_user_id = ''u'', kd_created_at = 1, kd_updated_at = 1\<rparr>"

lemma sample_kb_dirs: "db_dirs sample_kb = [sample_dir ''xx'' ''docs'' None, sample_dir ''xxx'' ''old'' (Some ''xx'')]"
  by code_simp

lemma sample_kb_inv: "dirs_inv True sample_kb"
  using kb_reachable_wf [OF sample_kb_reachable sample_uuid_fresh] by (simp add: kb_wf_def)

lemma directories_stay_forest_witness:
  "(''xxx'', ''xxx'') \<notin> (above sample_kb)\<^sup>+ \<and>
   get_directory_breadcrumbs (Some ''xxx'') sample_kb = [sample_dir ''xx'' ''docs'' None, sample_dir ''xxx'' ''old'' (Some ''xx'')]"
proof
  have "sample_dir ''xxx'' ''old'' (Some ''xx'') \<in> set (db_dirs sample_kb)" by (simp add: sample_kb_dirs)
  from directories_stay_forest [OF sample_kb_reachable sample_uuid_fresh this refl]
  show "(''xxx'', ''xxx'') \<notin> (above sample_kb)\<^sup>+" by (simp add: sample_dir_def)
  show "get_directory_breadcrumbs (Some ''xxx'') sample_kb = [sample_dir ''xx'' ''docs'' None, sample_dir ''xxx'' ''old'' (Some ''xx'')]"
    by code_simp
qed

text \<open>C23. Deleting a directory of a database that enforces references removes the directory and everything below it, and nothing else; the
  files of all these directories move to the parent of the deleted one, or are deleted with it, as the caller chose.\<close>

theorem delete_directory_exact:
  assumes "dirs_inv True db" and "find_dir i db = Some d" and "length (db_dirs db) < depth"
    and "below = {j. (j, i) \<in> (above db)\<^sup>*}"
  shows "delete_directory True depth i move_files db =
     (True, db\<lparr>db_dirs := filter (\<lambda>e. kd_id e \<notin> below) (db_dirs db),
               db_kb_files := (if move_files
                 then map (\<lambda>f. if kf_directory_id f \<in> Some ` below then f\<lparr>kf_directory_id := kd_parent_id d\<rparr> else f) (db_kb_files db)
                 else filter (\<lambda>f. kf_directory_id f \<notin> Some ` below) (db_kb_files db))\<rparr>)"
proof -
  have ac: "acyclic (above db)" using assms(1) by (simp add: dirs_inv_def)
  have out: "kd_parent_id d \<notin> Some ` below"
  proof
    assume "kd_parent_id d \<in> Some ` below"
    then obtain p where "kd_parent_id d = Some p" "(p, i) \<in> (above db)\<^sup>*" using assms(4) by blast
    moreover have "(i, p) \<in> above db" using find_dir_Some [OF assms(2)] calculation(1) by (auto simp: above_def)
    ultimately show False using ac by (auto simp: acyclic_def dest: rtrancl_into_trancl2)
  qed
  have gone: "map (\<lambda>f. if kf_directory_id f \<in> Some ` below then f\<lparr>kf_directory_id := None\<rparr> else f)
      (filter (\<lambda>f. kf_directory_id f \<notin> Some ` below) fs) = filter (\<lambda>f. kf_directory_id f \<notin> Some ` below) fs" for fs :: "kb_file list"
    by (rule map_idI) simp
  have casc: "set (cascade (db_dirs db) [i]) = below" by (simp add: set_cascade assms(4))
  show ?thesis
    unfolding delete_directory_result [OF assms(1-3)] assms(4) [symmetric]
    using out by (auto simp: drop_dirs_def casc moved_def dropped_def set_directory_def gone)
qed

lemma delete_directory_exact_witness:
  "delete_directory True 5 ''xx'' False sample_kb = (True, sample_kb\<lparr>db_dirs := [], db_kb_files := []\<rparr>)"
proof -
  have d: "find_dir ''xx'' sample_kb = Some (sample_dir ''xx'' ''docs'' None)" by code_simp
  have "sample_dir ''xxx'' ''old'' (Some ''xx'') \<in> set (db_dirs sample_kb)" by (simp add: sample_kb_dirs)
  from aboveI [OF this] have up: "(''xxx'', ''xx'') \<in> above sample_kb" by (simp add: sample_dir_def)
  then have "delete_directory True 5 ''xx'' False sample_kb = (True, sample_kb\<lparr>db_dirs := [], db_kb_files := filter
      (\<lambda>f. kf_directory_id f \<notin> Some ` {j. (j, ''xx'') \<in> (above sample_kb)\<^sup>*}) (db_kb_files sample_kb)\<rparr>)"
    unfolding delete_directory_exact [OF sample_kb_inv d, of 5, OF _ refl, simplified sample_kb_dirs, simplified]
    by (auto simp: sample_kb_dirs sample_dir_def)
  moreover have "map kf_directory_id (db_kb_files sample_kb) = [Some ''xxx'']" by code_simp
  moreover have "Some ''xxx'' \<in> Some ` {j. (j, ''xx'') \<in> (above sample_kb)\<^sup>*}" using up by blast
  ultimately show ?thesis by (auto simp: map_eq_Cons_conv)
qed

text \<open>Where the database does not enforce references, deleting a directory leaves its subdirectories in the table, under a parent that
  no longer exists: their breadcrumbs begin with themselves and no listing of a directory that exists shows them.\<close>

theorem delete_directory_orphans:
  assumes "dirs_inv False db" and "find_dir i db = Some d" and "length (db_dirs db) < depth"
    and e: "e \<in> set (db_dirs db)" "kd_parent_id e = Some i"
    and db': "db' = snd (delete_directory False depth i move_files db)"
  shows "e \<in> set (db_dirs db') \<and> find_dir i db' = None \<and> get_directory_breadcrumbs (Some (kd_id e)) db' = [e] \<and>
    (\<forall>kid. \<forall>parent \<in> insert None (Some ` kd_id ` set (db_dirs db')). e \<notin> set (get_directories kid parent db'))"
proof -
  have dirs: "db_dirs db' = filter (\<lambda>e. kd_id e \<noteq> i) (db_dirs db)"
    unfolding db' delete_directory_result [OF assms(1-3)] by (simp add: drop_dirs_def)
  have inv: "dirs_inv False db'" using assms(1) by (rule dirs_inv_filter [OF _ dirs]) simp
  have "(kd_id e, i) \<in> above db" using e by (auto simp: above_def)
  then have "kd_id e \<noteq> i" using assms(1) by (auto simp: dirs_inv_def acyclic_def)
  with e(1) have mem: "e \<in> set (db_dirs db')" by (simp add: dirs)
  have gone: "find_dir i db' = None" by (auto simp: find_dir_None dirs)
  from breadcrumbs_trail [OF inv mem] obtain ds where ds: "get_directory_breadcrumbs (Some (kd_id e)) db' = ds" "trail ds" "ds \<noteq> []"
     "last ds = e" "set ds \<subseteq> set (db_dirs db')" by blast
  have "ds = [e]"
  proof (cases ds rule: rev_cases)
    case (snoc xs y)
    then have "xs = []"
      using ds(2,4,5) e(2) dirs by (cases xs rule: rev_cases) (auto simp: trail_def successively_append_iff)
    with snoc ds(4) show ?thesis by simp
  qed (use ds(3) in simp)
  moreover have "\<forall>kid. \<forall>parent \<in> insert None (Some ` kd_id ` set (db_dirs db')). e \<notin> set (get_directories kid parent db')"
    using e(2) dirs by (auto simp: get_directories_def split: if_splits)
  ultimately show ?thesis using ds(1) mem gone by simp
qed

lemma delete_directory_orphans_witness:
  "let db' = snd (delete_directory False 5 ''xx'' True sample_kb)
   in find_dir ''xx'' db' = None \<and> sample_dir ''xxx'' ''old'' (Some ''xx'') \<in> set (db_dirs db') \<and>
      sample_dir ''xxx'' ''old'' (Some ''xx'') \<notin> set (get_directories ''x'' None db')"
proof -
  have inv: "dirs_inv False sample_kb" using sample_kb_inv by (simp add: dirs_inv_def)
  have d: "find_dir ''xx'' sample_kb = Some (sample_dir ''xx'' ''docs'' None)" by code_simp
  have e: "sample_dir ''xxx'' ''old'' (Some ''xx'') \<in> set (db_dirs sample_kb)" by (simp add: sample_kb_dirs)
  have up: "kd_parent_id (sample_dir ''xxx'' ''old'' (Some ''xx'')) = Some ''xx''" by (simp add: sample_dir_def)
  have len: "length (db_dirs sample_kb) < 5" by (simp add: sample_kb_dirs)
  from delete_directory_orphans [OF inv d len e up refl] show ?thesis by (simp add: Let_def)
qed

end
