(* ===== verification/ResponsesStream.thy ===== *)
theory ResponsesStream
  imports PyText "HOL-Library.Sublist"
begin

text \<open>
  The events of a Responses API stream, \<open>deep_merge\<close> and \<open>handle_responses_streaming_event\<close> of
  \<open>backend/open_webui/utils/middleware.py\<close>. An event is the dictionary the provider sent, the output is the list of items
  assembled so far; the result is the new output with the metadata to emit, or the exception. An event type without a second
  dot makes the function return \<open>None\<close>, which its callers unpack: a \<open>TypeError\<close>.
\<close>

section \<open>Merging\<close>

function (sequential) deep_merge :: "pyval \<Rightarrow> pyval \<Rightarrow> pyval" and merge_items :: "dict \<Rightarrow> dict \<Rightarrow> dict" where
  "deep_merge (VDict t) (VDict s) = VDict (merge_items t s)"
| "deep_merge (VStr t) (VStr s) = VStr (t @ s)"
| "deep_merge t s = s"
| "merge_items t [] = t"
| "merge_items t ((k, v) # s) =
     merge_items (dset t k (case dget t k of Some w \<Rightarrow> deep_merge w v | None \<Rightarrow> v)) s"
  by pat_completeness auto

termination
  by (relation "measure (\<lambda>x. case x of Inl (t, s) \<Rightarrow> size s | Inr (t, s) \<Rightarrow> size_list (size_prod (\<lambda>_. 0) size) s)") auto

section \<open>Items and parts\<close>

text \<open>\<open>v.copy()\<close> of what should be a dictionary, and \<open>e\<close> what the next access does to the copy of a list.\<close>

fun copied :: "py_error \<Rightarrow> pyval \<Rightarrow> dict result" where
  "copied e (VDict d) = Inr d"
| "copied e (VList xs) = Inl e"
| "copied e _ = Inl AttributeError"

definition listed :: "dict \<Rightarrow> string \<Rightarrow> pyval list result" where
  "listed item field = (case dget item field of None \<Rightarrow> Inr [] | Some v \<Rightarrow> py_iter v)"

text \<open>The item an event is about, unless its index is out of range.\<close>

definition target :: "dict \<Rightarrow> pyval list \<Rightarrow> nat option result" where
  "target data out =
     (if out = [] then Inr None
      else rbind (py_number (dget_or data ''output_index'' (VInt (int (length out) - 1)))) (\<lambda>i.
           Inr (if 0 \<le> i \<and> nat i < length out then Some (nat i) else None)))"

definition is_type :: "string \<Rightarrow> dict \<Rightarrow> bool" where
  "is_type t item \<longleftrightarrow> vget item ''type'' = VStr t"

definition text_part :: pyval where
  "text_part = VDict [(''type'', VStr ''text''), (''text'', VStr [])]"

definition summary_part :: pyval where
  "summary_part = VDict [(''type'', VStr ''summary_text''), (''text'', VStr [])]"

section \<open>A part is added\<close>

definition part_added :: "string \<Rightarrow> dict \<Rightarrow> pyval list \<Rightarrow> (pyval \<times> pyval) result" where
  "part_added field data out =
     rbind (target data out) (\<lambda>t. case t of
       None \<Rightarrow> Inr (VList out, VNone)
     | Some i \<Rightarrow>
         rbind (copied TypeError (out ! i)) (\<lambda>item.
         rbind (listed item field) (\<lambda>parts.
         let parts1 = (if field = ''content'' \<and> is_type ''reasoning'' item then parts
                       else parts @ [dget_or data ''part'' (VDict [])])
         in Inr (VList (out[i := VDict (dset item field (VList parts1))]), VNone))))"

section \<open>A delta\<close>

text \<open>\<open>part[key] = deep_merge(old, delta)\<close> with what counts as old when there is nothing.\<close>

definition started :: "pyval \<Rightarrow> pyval option \<Rightarrow> pyval" where
  "started delta old = (case old of Some v \<Rightarrow> if v = VNone then if is_dict delta then VDict [] else VStr [] else v
                        | None \<Rightarrow> if is_dict delta then VDict [] else VStr [])"

definition text_before :: "pyval option \<Rightarrow> pyval" where
  "text_before old = (case old of Some v \<Rightarrow> v | None \<Rightarrow> VStr [])"

text \<open>The list is filled up to the index, then the part there takes the delta.\<close>

definition merge_part :: "(pyval option \<Rightarrow> pyval) \<Rightarrow> string \<Rightarrow> string \<Rightarrow> pyval \<Rightarrow> string \<Rightarrow> dict \<Rightarrow> pyval \<Rightarrow> dict \<Rightarrow> dict result" where
  "merge_part old field index_key pad key data delta item =
     rbind (listed item field) (\<lambda>parts.
     rbind (py_number (dget_or data index_key (VInt 0))) (\<lambda>j.
     let padded = parts @ replicate (nat (j + 1) - length parts) pad
     in rbind (py_index padded j) (\<lambda>n.
        rbind (copied AttributeError (padded ! n)) (\<lambda>part.
        Inr (dset item field (VList (padded[n := VDict (dset part key (deep_merge (old (dget part key)) delta))])))))))"

definition delta_key :: "string \<Rightarrow> string" where
  "delta_key kind = (if kind \<in> {''text'', ''output_text''} then ''text'' else kind)"

definition apply_delta :: "string \<Rightarrow> dict \<Rightarrow> pyval \<Rightarrow> dict \<Rightarrow> dict result" where
  "apply_delta kind data delta item =
     (if kind = ''function_call_arguments'' then
        (if is_type ''function_call'' item
         then rbind (as_text (dget_or item ''arguments'' (VStr []))) (\<lambda>a. Inr (dset item ''arguments'' (VStr (a @ py_str delta))))
         else Inr item)
      else if is_type ''message'' item then
        (if kind \<in> {''reasoning_text'', ''reasoning_summary_text''} then Inr item
         else merge_part (started delta) ''content'' ''content_index'' text_part (delta_key kind) data delta item)
      else if is_type ''reasoning'' item then
        (if kind = ''reasoning_summary_text''
         then merge_part text_before ''summary'' ''summary_index'' summary_part ''text'' data delta item
         else if kind = ''reasoning_text''
         then merge_part text_before ''content'' ''content_index'' text_part ''text'' data delta item
         else Inr item)
      else Inr (dset item (delta_key kind) (deep_merge (started delta (dget item (delta_key kind))) delta)))"

text \<open>Where the index is out of range \<open>new_output\<close> has no value when it is returned.\<close>

definition delta_event :: "string \<Rightarrow> dict \<Rightarrow> pyval list \<Rightarrow> (pyval \<times> pyval) result" where
  "delta_event event_type data out =
     (case py_split CHR ''.'' event_type of
        _ # kind # _ # _ \<Rightarrow>
          rbind (target data out) (\<lambda>t. case t of
            None \<Rightarrow> Inl UnboundLocalError
          | Some i \<Rightarrow>
              rbind (copied AttributeError (out ! i)) (\<lambda>item.
              rbind (apply_delta kind data (dget_or data ''delta'' (VStr [])) item) (\<lambda>item1.
              Inr (VList (out[i := VDict item1]), VNone))))
      | _ \<Rightarrow> Inl TypeError)"

section \<open>Something is done\<close>

text \<open>The final form of a part replaces it.\<close>

definition part_done :: "string \<Rightarrow> string \<Rightarrow> dict \<Rightarrow> pyval list \<Rightarrow> (pyval \<times> pyval) result" where
  "part_done field index_key data out =
     (if \<not> truthy (vget data ''part'') then Inr (VList out, VNone)
      else rbind (target data out) (\<lambda>t. case t of
        None \<Rightarrow> Inr (VList out, VNone)
      | Some i \<Rightarrow>
          (case out ! i of
             VDict item \<Rightarrow>
               if dget item field = None then Inr (VList out, VNone)
               else rbind (listed item field) (\<lambda>parts.
                    rbind (py_number (dget_or data index_key (VInt (int (length parts) - 1)))) (\<lambda>j.
                    if 0 \<le> j \<and> nat j < length parts
                    then Inr (VList (out[i := VDict (dset item field (VList (parts[nat j := vget data ''part''])))]), VDict [])
                    else Inr (VList out, VNone)))
           | VList xs \<Rightarrow> if VStr field \<in> set xs then Inl TypeError else Inr (VList out, VNone)
           | _ \<Rightarrow> Inl AttributeError)))"

definition finish_item :: "string \<Rightarrow> string \<Rightarrow> pyval \<Rightarrow> dict \<Rightarrow> dict \<Rightarrow> dict result" where
  "finish_item kind key final_value data item =
     (if kind = ''function_call_arguments'' then
        Inr (if is_type ''function_call'' item then dset item ''arguments'' final_value else item)
      else if is_type ''message'' item then
        (if dget item ''content'' = None then Inr item
         else rbind (listed item ''content'') (\<lambda>parts.
              rbind (py_number (dget_or data ''content_index'' (VInt 0))) (\<lambda>j.
              if int (length parts) > j
              then rbind (py_index parts j) (\<lambda>n.
                   rbind (copied TypeError (parts ! n)) (\<lambda>part.
                   Inr (dset item ''content'' (VList (parts[n := VDict (dset part key final_value)])))))
              else Inr (dset item ''content'' (VList parts)))))
      else if is_type ''reasoning'' item then Inr (dset item ''status'' (VStr ''completed''))
      else Inr (dset item key final_value))"

definition done_key :: "string \<Rightarrow> string" where
  "done_key kind =
     (if kind = ''function_call_arguments'' then ''arguments''
      else if kind \<in> {''text'', ''output_text'', ''reasoning_text'', ''reasoning_summary_text''} then ''text'' else kind)"

definition done_event :: "string \<Rightarrow> dict \<Rightarrow> pyval list \<Rightarrow> (pyval \<times> pyval) result" where
  "done_event event_type data out =
     (case py_split CHR ''.'' event_type of
        _ # kind # _ # _ \<Rightarrow>
          if kind = ''content_part'' then part_done ''content'' ''content_index'' data out
          else if kind = ''reasoning_summary_part'' then part_done ''summary'' ''summary_index'' data out
          else if kind \<in> {''output_item'', ''completed'', ''failed''} then Inr (VList out, VNone)
          else rbind (target data out) (\<lambda>t. case t of
                 None \<Rightarrow> Inr (VList out, VNone)
               | Some i \<Rightarrow>
                   (case dget data (done_key kind) of
                      None \<Rightarrow> Inr (VList out, VNone)
                    | Some final_value \<Rightarrow>
                        rbind (copied AttributeError (out ! i)) (\<lambda>item.
                        rbind (finish_item kind (done_key kind) final_value data item) (\<lambda>item1.
                        Inr (VList (out[i := VDict item1]), VDict [])))))
      | _ \<Rightarrow> Inr (VList out, VNone))"

section \<open>The end of the response\<close>

fun complete_item :: "pyval \<Rightarrow> pyval result" where
  "complete_item (VDict item) =
     Inr (VDict (if is_type ''reasoning'' item \<and> vget item ''status'' \<noteq> VStr ''completed''
                 then dset item ''status'' (VStr ''completed'') else item))"
| "complete_item _ = Inl AttributeError"

definition completed_event :: "dict \<Rightarrow> pyval list \<Rightarrow> (pyval \<times> pyval) result" where
  "completed_event data out =
     (case dget_or data ''response'' (VDict []) of
        VDict response \<Rightarrow>
          (let new_output = (if vget response ''output'' = VNone then VList out else vget response ''output'');
               meta = VDict [(''usage'', vget response ''usage''), (''done'', VBool True), (''response_id'', vget response ''id'')]
           in if truthy new_output
              then rbind (py_iter new_output) (\<lambda>items. rbind (rmap complete_item items) (\<lambda>items1. Inr (VList items1, meta)))
              else Inr (new_output, meta))
      | _ \<Rightarrow> Inl AttributeError)"

definition failed_event :: "dict \<Rightarrow> pyval list \<Rightarrow> (pyval \<times> pyval) result" where
  "failed_event data out =
     rbind (py_get_or (dget_or data ''response'' (VDict [])) ''error'' (VDict [])) (\<lambda>e. Inr (VList out, VDict [(''error'', e)]))"

section \<open>The dispatch\<close>

text \<open>The test for \<open>.done\<close> stands before the one for \<open>response.output_item.done\<close>, which is therefore never reached.\<close>

definition handle_responses_streaming_event :: "dict \<Rightarrow> pyval list \<Rightarrow> (pyval \<times> pyval) result" where
  "handle_responses_streaming_event data out =
     (case dget_or data ''type'' (VStr []) of
        VStr event_type \<Rightarrow>
          if event_type = ''response.output_item.added'' then
            let item = dget_or data ''item'' (VDict [])
            in Inr (VList (if truthy item then out @ [item] else out), VNone)
          else if event_type = ''response.content_part.added'' then part_added ''content'' data out
          else if event_type = ''response.reasoning_summary_part.added'' then part_added ''summary'' data out
          else if prefix ''response.'' event_type \<and> suffix ''.delta'' event_type then delta_event event_type data out
          else if prefix ''response.'' event_type \<and> suffix ''.done'' event_type then done_event event_type data out
          else if event_type = ''response.completed'' then completed_event data out
          else if event_type = ''response.failed'' then failed_event data out
          else Inr (VList out, VNone)
      | _ \<Rightarrow> Inl AttributeError)"

section \<open>The transcript a stream describes\<close>

text \<open>What a reader of the protocol keeps of an item: the texts of a message's parts, the summaries and texts of a reasoning,
  the arguments of a call.\<close>

datatype transcript = Message "string list" | Reasoning "string list" "string list" | Call string

datatype event =
    Added transcript
  | Part_added nat string
  | Summary_added nat string
  | Text_delta nat nat string
  | Reasoning_delta nat nat string
  | Summary_delta nat nat string
  | Arguments_delta nat string
  | Text_done nat nat string
  | Arguments_done nat string
  | Completed "transcript list"
  | Part_done nat nat string
  | Summary_part_done nat nat string
  | Summary_done nat nat string
  | Reasoning_done nat nat string
  | Item_done nat transcript
  | Lifecycle

text \<open>
  A delta for part \<open>j\<close>, which may not have been announced. The end of a text, of a part or of an item repeats
  what it ended with: for the texts of a reasoning and for whole items a stream that says something else is against
  the protocol. The states of the response itself say nothing about the items.
\<close>

definition grow :: "nat \<Rightarrow> string \<Rightarrow> string list \<Rightarrow> string list" where
  "grow j s ts = (let padded = ts @ replicate (Suc j - length ts) [] in padded[j := padded ! j @ s])"

fun step_item :: "event \<Rightarrow> transcript \<Rightarrow> transcript option" where
  "step_item (Part_added i s) (Message ts) = Some (Message (ts @ [s]))"
| "step_item (Part_added i s) (Reasoning ss ts) = Some (Reasoning ss ts)"
| "step_item (Summary_added i s) (Reasoning ss ts) = Some (Reasoning (ss @ [s]) ts)"
| "step_item (Text_delta i j s) (Message ts) = Some (Message (grow j s ts))"
| "step_item (Text_delta i j s) (Reasoning ss ts) = Some (Reasoning ss ts)"
| "step_item (Reasoning_delta i j s) (Reasoning ss ts) = Some (Reasoning ss (grow j s ts))"
| "step_item (Reasoning_delta i j s) (Message ts) = Some (Message ts)"
| "step_item (Summary_delta i j s) (Reasoning ss ts) = Some (Reasoning (grow j s ss) ts)"
| "step_item (Arguments_delta i s) (Call a) = Some (Call (a @ s))"
| "step_item (Text_done i j s) (Message ts) = Some (Message (ts[j := s]))"
| "step_item (Arguments_done i s) (Call a) = Some (Call s)"
| "step_item (Part_done i j s) (Message ts) = Some (Message (ts[j := s]))"
| "step_item (Part_done i j s) (Reasoning ss ts) = Some (Reasoning ss (ts[j := s]))"
| "step_item (Summary_part_done i j s) (Reasoning ss ts) = Some (Reasoning (ss[j := s]) ts)"
| "step_item (Summary_done i j s) (Reasoning ss ts) =
     (if j < length ss \<and> ss ! j = s then Some (Reasoning ss ts) else None)"
| "step_item (Reasoning_done i j s) (Reasoning ss ts) =
     (if j < length ts \<and> ts ! j = s then Some (Reasoning ss ts) else None)"
| "step_item (Item_done i t') t = (if t' = t then Some t else None)"
| "step_item _ _ = None"

fun item_of :: "event \<Rightarrow> nat" where
  "item_of (Part_added i s) = i"
| "item_of (Summary_added i s) = i"
| "item_of (Text_delta i j s) = i"
| "item_of (Reasoning_delta i j s) = i"
| "item_of (Summary_delta i j s) = i"
| "item_of (Arguments_delta i s) = i"
| "item_of (Text_done i j s) = i"
| "item_of (Arguments_done i s) = i"
| "item_of (Part_done i j s) = i"
| "item_of (Summary_part_done i j s) = i"
| "item_of (Summary_done i j s) = i"
| "item_of (Reasoning_done i j s) = i"
| "item_of (Item_done i t) = i"
| "item_of _ = 0"

text \<open>An event about an item that is not there, or of another kind, is against the protocol.\<close>

fun step_event :: "event \<Rightarrow> transcript list \<Rightarrow> transcript list option" where
  "step_event (Added t) ts = Some (ts @ [t])"
| "step_event (Completed ts') ts = Some (if ts' = [] then ts else ts')"
| "step_event Lifecycle ts = Some ts"
| "step_event e ts =
     (if item_of e < length ts
      then (case step_item e (ts ! item_of e) of None \<Rightarrow> None | Some t \<Rightarrow> Some (ts[item_of e := t])) else None)"

fun run_events :: "event list \<Rightarrow> transcript list \<Rightarrow> transcript list option" where
  "run_events [] ts = Some ts"
| "run_events (e # es) ts = (case step_event e ts of None \<Rightarrow> None | Some ts1 \<Rightarrow> run_events es ts1)"

section \<open>Items and events that stand for them\<close>

definition shows_field :: "dict \<Rightarrow> string \<Rightarrow> string \<Rightarrow> bool" where
  "shows_field d key t \<longleftrightarrow> (case dget d key of None \<Rightarrow> t = [] | Some v \<Rightarrow> v = VStr t)"

definition shows_text :: "pyval \<Rightarrow> string \<Rightarrow> bool" where
  "shows_text v t \<longleftrightarrow> (\<exists>d. v = VDict d \<and> shows_field d ''text'' t)"

definition shows_parts :: "dict \<Rightarrow> string \<Rightarrow> string list \<Rightarrow> bool" where
  "shows_parts item field ts \<longleftrightarrow>
     (case dget item field of None \<Rightarrow> ts = [] | Some v \<Rightarrow> \<exists>ps. v = VList ps \<and> list_all2 shows_text ps ts)"

fun displays :: "pyval \<Rightarrow> transcript \<Rightarrow> bool" where
  "displays (VDict item) (Message ts) \<longleftrightarrow> is_type ''message'' item \<and> shows_parts item ''content'' ts"
| "displays (VDict item) (Reasoning ss ts) \<longleftrightarrow>
     is_type ''reasoning'' item \<and> shows_parts item ''summary'' ss \<and> shows_parts item ''content'' ts"
| "displays (VDict item) (Call a) \<longleftrightarrow> is_type ''function_call'' item \<and> shows_field item ''arguments'' a"
| "displays _ _ \<longleftrightarrow> False"

definition has :: "dict \<Rightarrow> string \<Rightarrow> pyval \<Rightarrow> bool" where
  "has data key v \<longleftrightarrow> dget data key = Some v"

fun encodes :: "dict \<Rightarrow> event \<Rightarrow> bool" where
  "encodes data (Added t) \<longleftrightarrow>
     has data ''type'' (VStr ''response.output_item.added'') \<and> (\<exists>v. has data ''item'' v \<and> displays v t)"
| "encodes data (Part_added i s) \<longleftrightarrow>
     has data ''type'' (VStr ''response.content_part.added'') \<and> has data ''output_index'' (VInt (int i)) \<and>
     (\<exists>p. has data ''part'' p \<and> shows_text p s)"
| "encodes data (Summary_added i s) \<longleftrightarrow>
     has data ''type'' (VStr ''response.reasoning_summary_part.added'') \<and> has data ''output_index'' (VInt (int i)) \<and>
     (\<exists>p. has data ''part'' p \<and> shows_text p s)"
| "encodes data (Text_delta i j s) \<longleftrightarrow>
     has data ''type'' (VStr ''response.output_text.delta'') \<and> has data ''output_index'' (VInt (int i)) \<and>
     has data ''content_index'' (VInt (int j)) \<and> has data ''delta'' (VStr s)"
| "encodes data (Reasoning_delta i j s) \<longleftrightarrow>
     has data ''type'' (VStr ''response.reasoning_text.delta'') \<and> has data ''output_index'' (VInt (int i)) \<and>
     has data ''content_index'' (VInt (int j)) \<and> has data ''delta'' (VStr s)"
| "encodes data (Summary_delta i j s) \<longleftrightarrow>
     has data ''type'' (VStr ''response.reasoning_summary_text.delta'') \<and> has data ''output_index'' (VInt (int i)) \<and>
     has data ''summary_index'' (VInt (int j)) \<and> has data ''delta'' (VStr s)"
| "encodes data (Arguments_delta i s) \<longleftrightarrow>
     has data ''type'' (VStr ''response.function_call_arguments.delta'') \<and> has data ''output_index'' (VInt (int i)) \<and>
     has data ''delta'' (VStr s)"
| "encodes data (Text_done i j s) \<longleftrightarrow>
     has data ''type'' (VStr ''response.output_text.done'') \<and> has data ''output_index'' (VInt (int i)) \<and>
     has data ''content_index'' (VInt (int j)) \<and> has data ''text'' (VStr s)"
| "encodes data (Arguments_done i s) \<longleftrightarrow>
     has data ''type'' (VStr ''response.function_call_arguments.done'') \<and> has data ''output_index'' (VInt (int i)) \<and>
     has data ''arguments'' (VStr s)"
| "encodes data (Completed ts) \<longleftrightarrow>
     has data ''type'' (VStr ''response.completed'') \<and>
     (\<exists>r. has data ''response'' (VDict r) \<and>
        (if ts = [] then vget r ''output'' = VNone else \<exists>vs. has r ''output'' (VList vs) \<and> list_all2 displays vs ts))"
| "encodes data (Part_done i j s) \<longleftrightarrow>
     has data ''type'' (VStr ''response.content_part.done'') \<and> has data ''output_index'' (VInt (int i)) \<and>
     has data ''content_index'' (VInt (int j)) \<and> (\<exists>p. has data ''part'' p \<and> truthy p \<and> shows_text p s)"
| "encodes data (Summary_part_done i j s) \<longleftrightarrow>
     has data ''type'' (VStr ''response.reasoning_summary_part.done'') \<and> has data ''output_index'' (VInt (int i)) \<and>
     has data ''summary_index'' (VInt (int j)) \<and> (\<exists>p. has data ''part'' p \<and> truthy p \<and> shows_text p s)"
| "encodes data (Summary_done i j s) \<longleftrightarrow>
     has data ''type'' (VStr ''response.reasoning_summary_text.done'') \<and> has data ''output_index'' (VInt (int i)) \<and>
     has data ''summary_index'' (VInt (int j)) \<and> has data ''text'' (VStr s)"
| "encodes data (Reasoning_done i j s) \<longleftrightarrow>
     has data ''type'' (VStr ''response.reasoning_text.done'') \<and> has data ''output_index'' (VInt (int i)) \<and>
     has data ''content_index'' (VInt (int j)) \<and> has data ''text'' (VStr s)"
| "encodes data (Item_done i t) \<longleftrightarrow>
     has data ''type'' (VStr ''response.output_item.done'') \<and> has data ''output_index'' (VInt (int i)) \<and>
     (\<exists>v. has data ''item'' v \<and> displays v t)"
| "encodes data Lifecycle \<longleftrightarrow>
     (\<exists>t \<in> {''response.created'', ''response.queued'', ''response.in_progress''}. has data ''type'' (VStr t)) \<or>
     has data ''type'' (VStr ''response.failed'') \<and> (\<exists>r. has data ''response'' (VDict r))"

text \<open>The handler over a stream: its output and that it met no exception.\<close>

fun run_handler :: "dict list \<Rightarrow> pyval list \<Rightarrow> pyval list result" where
  "run_handler [] out = Inr out"
| "run_handler (d # ds) out =
     rbind (handle_responses_streaming_event d out) (\<lambda>(v, meta). rbind (py_iter v) (run_handler ds))"

section \<open>The handler follows the transcript\<close>

lemma has_values: "has d k v \<Longrightarrow> dget d k = Some v" "has d k v \<Longrightarrow> dget_or d k x = v" "has d k v \<Longrightarrow> vget d k = v"
  by (simp_all add: has_def dget_or_def vget_def)

lemma target_at: "has data ''output_index'' (VInt (int i)) \<Longrightarrow> i < length out \<Longrightarrow> target data out = Inr (Some i)"
  by (auto simp: target_def has_values)

lemma listed_parts: "shows_parts item field ts \<Longrightarrow> \<exists>ps. listed item field = Inr ps \<and> list_all2 shows_text ps ts"
  by (auto simp: shows_parts_def listed_def split: option.splits)

lemma shows_parts_dset [simp]: "shows_parts (dset item key v) field ts \<longleftrightarrow>
   (if field = key then \<exists>ps. v = VList ps \<and> list_all2 shows_text ps ts else shows_parts item field ts)"
  by (simp add: shows_parts_def)

lemma shows_field_dset [simp]: "shows_field (dset item key v) field t \<longleftrightarrow> (if field = key then v = VStr t else shows_field item field t)"
  by (simp add: shows_field_def)

lemma is_type_dset [simp]: "key \<noteq> ''type'' \<Longrightarrow> is_type t (dset item key v) = is_type t item"
  by (simp add: is_type_def)

lemma is_type_unique: "is_type a item \<Longrightarrow> is_type b item \<longleftrightarrow> b = a"
  by (auto simp: is_type_def)

lemma shows_pads: "shows_text text_part []" "shows_text summary_part []"
  by (simp_all add: shows_text_def shows_field_def text_part_def summary_part_def)

text \<open>The text a delta makes of a field that shows a text.\<close>

lemma merged_text:
  "shows_field d key t \<Longrightarrow> deep_merge (started (VStr s) (dget d key)) (VStr s) = VStr (t @ s)"
  "shows_field d key t \<Longrightarrow> deep_merge (text_before (dget d key)) (VStr s) = VStr (t @ s)"
  by (auto simp: shows_field_def started_def text_before_def split: option.splits)

lemma merge_part_grows:
  assumes parts: "shows_parts item field ts" and at: "has data index_key (VInt (int j))" and pad: "shows_text pad []"
    and old: "\<And>d t. shows_field d ''text'' t \<Longrightarrow> deep_merge (old (dget d ''text'')) (VStr s) = VStr (t @ s)"
  shows "\<exists>ps. merge_part old field index_key pad ''text'' data (VStr s) item = Inr (dset item field (VList ps)) \<and>
     list_all2 shows_text ps (grow j s ts)"
proof -
  obtain ps where ps: "listed item field = Inr ps" "list_all2 shows_text ps ts" using listed_parts [OF parts] by blast
  define padded where "padded = ps @ replicate (Suc j - length ps) pad"
  define texts where "texts = ts @ replicate (Suc j - length ts) []"
  have len: "length ps = length ts" using ps(2) by (rule list_all2_lengthD)
  have all: "list_all2 shows_text padded texts"
    unfolding padded_def texts_def len using ps(2) pad by (intro list_all2_appendI) (auto simp: list_all2_conv_all_nth)
  have j: "j < length padded" by (simp add: padded_def)
  with all have "shows_text (padded ! j) (texts ! j)" by (rule list_all2_nthD)
  then obtain d where d: "padded ! j = VDict d" "shows_field d ''text'' (texts ! j)" by (auto simp: shows_text_def)
  let ?part = "VDict (dset d ''text'' (VStr (texts ! j @ s)))"
  have "nat (int j + 1) = Suc j" by simp
  then have "merge_part old field index_key pad ''text'' data (VStr s) item = Inr (dset item field (VList (padded[j := ?part])))"
    using ps(1) at j d old [OF d(2)] by (simp add: merge_part_def has_values padded_def [symmetric])
  moreover have "list_all2 shows_text (padded[j := ?part]) (grow j s ts)"
    unfolding grow_def Let_def texts_def [symmetric] using all by (intro list_all2_update_cong) (simp_all add: shows_text_def)
  ultimately show ?thesis by blast
qed

text \<open>The types of the events, taken apart.\<close>

lemma delta_dispatch:
  assumes "has data ''type'' (VStr (''response.'' @ kind @ ''.delta''))"
    and "kind \<in> {''output_text'', ''reasoning_text'', ''reasoning_summary_text'', ''function_call_arguments''}"
    and "target data out = Inr (Some i)" and "out ! i = VDict item" and "has data ''delta'' v"
    and "apply_delta kind data v item = Inr item1"
  shows "handle_responses_streaming_event data out = Inr (VList (out[i := VDict item1]), VNone)"
proof -
  have "handle_responses_streaming_event data out = delta_event (''response.'' @ kind @ ''.delta'') data out"
    using assms(1,2) by (auto simp: handle_responses_streaming_event_def has_values suffix_def)
  moreover have "py_split CHR ''.'' (''response.'' @ kind @ ''.delta'') = [''response'', kind, ''delta'']" using assms(2) by auto
  ultimately show ?thesis using assms(3-6) by (simp add: delta_event_def has_values)
qed

lemma done_dispatch:
  assumes "has data ''type'' (VStr (''response.'' @ kind @ ''.done''))" and "kind \<in> {''output_text'', ''reasoning_text'', ''reasoning_summary_text'', ''function_call_arguments''}"
    and "target data out = Inr (Some i)" and "out ! i = VDict item" and "has data (done_key kind) v"
    and "finish_item kind (done_key kind) v data item = Inr item1"
  shows "handle_responses_streaming_event data out = Inr (VList (out[i := VDict item1]), VDict [])"
proof -
  have "handle_responses_streaming_event data out = done_event (''response.'' @ kind @ ''.done'') data out"
    using assms(1,2) by (auto simp: handle_responses_streaming_event_def has_values suffix_def)
  moreover have "py_split CHR ''.'' (''response.'' @ kind @ ''.done'') = [''response'', kind, ''done'']" using assms(2) by auto
  ultimately show ?thesis using assms(2-6) by (auto simp: done_event_def has_values)
qed

lemma part_dispatch:
  "has data ''type'' (VStr ''response.content_part.added'') \<Longrightarrow> handle_responses_streaming_event data out = part_added ''content'' data out"
  "has data ''type'' (VStr ''response.reasoning_summary_part.added'') \<Longrightarrow> handle_responses_streaming_event data out = part_added ''summary'' data out"
  "has data ''type'' (VStr ''response.completed'') \<Longrightarrow> handle_responses_streaming_event data out = completed_event data out"
  by (simp_all add: handle_responses_streaming_event_def has_values suffix_def)

text \<open>An item and what it displays before and after an event.\<close>

fun kind_of :: "event \<Rightarrow> string" where
  "kind_of (Text_delta i j s) = ''output_text''"
| "kind_of (Reasoning_delta i j s) = ''reasoning_text''"
| "kind_of (Summary_delta i j s) = ''reasoning_summary_text''"
| "kind_of (Arguments_delta i s) = ''function_call_arguments''"
| "kind_of (Text_done i j s) = ''output_text''"
| "kind_of (Arguments_done i s) = ''function_call_arguments''"
| "kind_of (Summary_done i j s) = ''reasoning_summary_text''"
| "kind_of (Reasoning_done i j s) = ''reasoning_text''"
| "kind_of _ = []"

fun is_delta :: "event \<Rightarrow> bool" where
  "is_delta (Text_delta i j s) \<longleftrightarrow> True"
| "is_delta (Reasoning_delta i j s) \<longleftrightarrow> True"
| "is_delta (Summary_delta i j s) \<longleftrightarrow> True"
| "is_delta (Arguments_delta i s) \<longleftrightarrow> True"
| "is_delta _ \<longleftrightarrow> False"

fun is_done :: "event \<Rightarrow> bool" where
  "is_done (Text_done i j s) \<longleftrightarrow> True"
| "is_done (Arguments_done i s) \<longleftrightarrow> True"
| "is_done (Summary_done i j s) \<longleftrightarrow> True"
| "is_done (Reasoning_done i j s) \<longleftrightarrow> True"
| "is_done _ \<longleftrightarrow> False"

lemma displays_status: "displays (VDict item) t \<Longrightarrow> displays (VDict (dset item ''status'' v)) t"
  by (cases t) simp_all

lemma delta_displays:
  assumes "displays (VDict item) t" and "step_item e t = Some t'" and "encodes data e" and "has data ''delta'' v"
    and "is_delta e"
  shows "\<exists>item1. apply_delta (kind_of e) data v item = Inr item1 \<and> displays (VDict item1) t'"
proof -
  note grows = merge_part_grows [where old = "started (VStr x)" and s = x for x, OF _ _ shows_pads(1) merged_text(1)]
    merge_part_grows [where old = text_before, OF _ _ shows_pads(1) merged_text(2)]
    merge_part_grows [where old = text_before, OF _ _ shows_pads(2) merged_text(2)]
  show ?thesis
  proof (cases "(e, t)" rule: step_item.cases)
    case (4 i j s ts)
    then have "shows_parts item ''content'' ts" "has data ''content_index'' (VInt (int j))" "v = VStr s" using assms by (auto simp: has_def)
    from grows(1) [OF this(1,2), of s] this(3) 4 assms(1,2) show ?thesis by (auto simp: apply_delta_def is_type_unique delta_key_def)
  next
    case (6 i j s ss ts)
    then have "shows_parts item ''content'' ts" "has data ''content_index'' (VInt (int j))" "v = VStr s" using assms by (auto simp: has_def)
    from grows(2) [OF this(1,2), of s] this(3) 6 assms(1,2) show ?thesis by (auto simp: apply_delta_def is_type_unique)
  next
    case (8 i j s ss ts)
    then have "shows_parts item ''summary'' ss" "has data ''summary_index'' (VInt (int j))" "v = VStr s" using assms by (auto simp: has_def)
    from grows(3) [OF this(1,2), of s] this(3) 8 assms(1,2) show ?thesis by (auto simp: apply_delta_def is_type_unique)
  next
    case (9 i s a)
    then have "v = VStr s" using assms by (auto simp: has_def)
    with 9 assms(1,2) show ?thesis
      by (auto simp: apply_delta_def is_type_unique shows_field_def dget_or_def py_str_def split: option.splits)
  qed (use assms in \<open>auto simp: apply_delta_def is_type_unique\<close>)
qed

lemma done_displays:
  assumes "displays (VDict item) t" and "step_item e t = Some t'" and "encodes data e"
    and "is_done e"
    and "has data (done_key (kind_of e)) v"
  shows "\<exists>item1. finish_item (kind_of e) (done_key (kind_of e)) v data item = Inr item1 \<and> displays (VDict item1) t'"
proof (cases "(e, t)" rule: step_item.cases)
  case (10 i j s ts)
  then have parts: "shows_parts item ''content'' ts" and m: "is_type ''message'' item" and v: "v = VStr s"
    and j: "has data ''content_index'' (VInt (int j))" and t': "t' = Message (ts[j := s])"
    using assms by (auto simp: has_def done_key_def)
  show ?thesis
  proof (cases "dget item ''content'' = None")
    case True
    with parts have "ts = []" by (simp add: shows_parts_def)
    with True 10 m parts show ?thesis by (simp add: finish_item_def is_type_unique t')
  next
    case False
    obtain ps where ps: "listed item ''content'' = Inr ps" "list_all2 shows_text ps ts" using listed_parts [OF parts] by blast
    show ?thesis
    proof (cases "j < length ps")
      case True
      with ps(2) have "shows_text (ps ! j) (ts ! j)" by (rule list_all2_nthD)
      then obtain d where d: "ps ! j = VDict d" by (auto simp: shows_text_def)
      have "list_all2 shows_text (ps[j := VDict (dset d ''text'' (VStr s))]) (ts[j := s])"
        using ps(2) by (intro list_all2_update_cong) (simp_all add: shows_text_def)
      with True False ps(1) d j m 10 show ?thesis
        by (auto simp: finish_item_def is_type_unique has_values t' v done_key_def)
    next
      case out: False
      then have "ts[j := s] = ts" using list_all2_lengthD [OF ps(2)] by (intro list_update_beyond) simp
      with out False ps j m 10 show ?thesis by (auto simp: finish_item_def is_type_unique has_values t')
    qed
  qed
next
  case (11 i s a)
  with assms show ?thesis by (auto simp: finish_item_def is_type_unique done_key_def has_def)
next
  case (15 i j s ss ts)
  with assms have "is_type ''reasoning'' item" "t' = t" by (auto split: if_splits)
  with 15 displays_status [OF assms(1)] show ?thesis by (simp add: finish_item_def is_type_unique)
next
  case (16 i j s ss ts)
  with assms have "is_type ''reasoning'' item" "t' = t" by (auto split: if_splits)
  with 16 displays_status [OF assms(1)] show ?thesis by (simp add: finish_item_def is_type_unique)
qed (use assms in auto)

lemma part_displays:
  assumes "list_all2 displays out ts" and "i < length ts" and "encodes data e" and "step_item e (ts ! i) = Some t'"
    and "e = Part_added i s \<or> e = Summary_added i s"
  shows "\<exists>out1 meta. handle_responses_streaming_event data out = Inr (VList out1, meta) \<and> list_all2 displays out1 (ts[i := t'])"
proof -
  have len: "i < length out" using assms(1,2) by (simp add: list_all2_lengthD)
  have "displays (out ! i) (ts ! i)" using assms(1) len by (rule list_all2_nthD)
  then obtain item where item: "out ! i = VDict item" "displays (VDict item) (ts ! i)" by (cases "(out ! i, ts ! i)" rule: displays.cases) auto
  obtain p where at: "has data ''output_index'' (VInt (int i))" and p: "has data ''part'' p" "shows_text p s" using assms(3,5) by auto
  define field where "field = (if e = Part_added i s then ''content'' else ''summary'')"
  have call: "handle_responses_streaming_event data out = part_added field data out"
    using assms(3,5) part_dispatch by (auto simp: field_def)
  have "\<exists>ps. listed item field = Inr ps \<and>
     displays (VDict (dset item field (VList (if field = ''content'' \<and> is_type ''reasoning'' item then ps else ps @ [p])))) t'"
  proof (cases "(e, ts ! i)" rule: step_item.cases)
    case (1 k s' us)
    with item(2) have "shows_parts item ''content'' us" by simp
    from listed_parts [OF this] 1 item(2) assms(4,5) p(2) show ?thesis
      by (auto simp: field_def is_type_unique intro!: list_all2_appendI)
  next
    case (2 k s' us vs)
    with item(2) have "shows_parts item ''content'' vs" by simp
    from listed_parts [OF this] 2 item(2) assms(4,5) show ?thesis by (auto simp: field_def is_type_unique)
  next
    case (3 k s' us vs)
    with item(2) have "shows_parts item ''summary'' us" by simp
    from listed_parts [OF this] 3 item(2) assms(4,5) p(2) show ?thesis
      by (auto simp: field_def is_type_unique intro!: list_all2_appendI)
  qed (use assms(4,5) in auto)
  then obtain ps where ps: "listed item field = Inr ps"
    "displays (VDict (dset item field (VList (if field = ''content'' \<and> is_type ''reasoning'' item then ps else ps @ [p])))) t'" by blast
  have "part_added field data out = Inr (VList (out[i := VDict (dset item field
      (VList (if field = ''content'' \<and> is_type ''reasoning'' item then ps else ps @ [p])))]), VNone)"
    using target_at [OF at len] item(1) ps(1) p(1) by (simp add: part_added_def has_values)
  with call ps(2) assms(1) show ?thesis by (auto intro!: list_all2_update_cong)
qed

text \<open>The end of a part replaces it where it is.\<close>

lemma part_done_dispatch:
  "has data ''type'' (VStr ''response.content_part.done'') \<Longrightarrow>
     handle_responses_streaming_event data out = part_done ''content'' ''content_index'' data out"
  "has data ''type'' (VStr ''response.reasoning_summary_part.done'') \<Longrightarrow>
     handle_responses_streaming_event data out = part_done ''summary'' ''summary_index'' data out"
  by (simp_all add: handle_responses_streaming_event_def done_event_def has_values suffix_def)

lemma part_done_field:
  assumes all: "list_all2 displays out ts" and i: "i < length ts" and item: "out ! i = VDict item"
    and parts: "shows_parts item field us"
    and shown: "\<And>ps. list_all2 shows_text ps (us[j := s]) \<Longrightarrow> displays (VDict (dset item field (VList ps))) t'"
    and same: "j \<ge> length us \<Longrightarrow> t' = ts ! i"
    and at: "has data ''output_index'' (VInt (int i))" "has data index_key (VInt (int j))"
    and p: "has data ''part'' p" "truthy p" "shows_text p s"
  shows "\<exists>out1 meta. part_done field index_key data out = Inr (VList out1, meta) \<and> list_all2 displays out1 (ts[i := t'])"
proof -
  have len: "i < length out" using i all by (simp add: list_all2_lengthD)
  note tgt = target_at [OF at(1) len]
  obtain ps where ps: "listed item field = Inr ps" "list_all2 shows_text ps us" using listed_parts [OF parts] by blast
  have l: "length ps = length us" using ps(2) by (rule list_all2_lengthD)
  show ?thesis
  proof (cases "j < length us")
    case True
    then have "dget item field \<noteq> None" using parts by (auto simp: shows_parts_def split: option.splits)
    then have "part_done field index_key data out =
        Inr (VList (out[i := VDict (dset item field (VList (ps[j := p])))]), VDict [])"
      using True tgt item ps(1) p at(2) l by (auto simp: part_done_def has_values)
    moreover have "displays (VDict (dset item field (VList (ps[j := p])))) t'"
      using ps(2) p(3) by (intro shown list_all2_update_cong)
    ultimately show ?thesis using all by (auto intro!: list_all2_update_cong)
  next
    case False
    then have "ts[i := t'] = ts" using same by simp
    moreover have "part_done field index_key data out = Inr (VList out, VNone)"
      using False tgt item ps(1) p at(2) l by (auto simp: part_done_def has_values)
    ultimately show ?thesis using all by simp
  qed
qed

lemma part_done_displays:
  assumes all: "list_all2 displays out ts" and e: "encodes data e" and i: "item_of e < length ts"
    and t': "step_item e (ts ! item_of e) = Some t'"
    and kind: "(\<exists>i j s. e = Part_done i j s) \<or> (\<exists>i j s. e = Summary_part_done i j s)"
  shows "\<exists>out1 meta. handle_responses_streaming_event data out = Inr (VList out1, meta) \<and>
     list_all2 displays out1 (ts[item_of e := t'])"
proof -
  let ?i = "item_of e"
  have "displays (out ! ?i) (ts ! ?i)" using all i by (simp add: list_all2_conv_all_nth)
  then obtain item where item: "out ! ?i = VDict item" "displays (VDict item) (ts ! ?i)"
    by (cases "(out ! ?i, ts ! ?i)" rule: displays.cases) auto
  show ?thesis
  proof (cases "(e, ts ! ?i)" rule: step_item.cases)
    case (12 i j s us)
    then show ?thesis
      using e t' item part_done_dispatch(1)
        part_done_field [OF all i item(1), of "''content''" us j s t' data "''content_index''"]
      by (auto simp: list_update_beyond)
  next
    case (13 i j s ss us)
    then show ?thesis
      using e t' item part_done_dispatch(1)
        part_done_field [OF all i item(1), of "''content''" us j s t' data "''content_index''"]
      by (auto simp: list_update_beyond)
  next
    case (14 i j s ss us)
    then show ?thesis
      using e t' item part_done_dispatch(2)
        part_done_field [OF all i item(1), of "''summary''" ss j s t' data "''summary_index''"]
      by (auto simp: list_update_beyond)
  qed (use kind t' in auto)
qed

lemma complete_displays:
  assumes "displays v t"
  shows "\<exists>v1. complete_item v = Inr v1 \<and> displays v1 t"
proof -
  obtain item where "v = VDict item" using assms by (cases "(v, t)" rule: displays.cases) simp_all
  with assms displays_status show ?thesis by (simp del: displays.simps)
qed

lemma complete_all: "list_all2 displays vs ts \<Longrightarrow> \<exists>ws. rmap complete_item vs = Inr ws \<and> list_all2 displays ws ts"
proof (induction vs ts rule: list_all2_induct)
  case (Cons v vs t ts)
  from Cons complete_displays [OF Cons.hyps(1)] show ?case by auto
qed simp

lemma completed_displays:
  assumes "list_all2 displays out ts" and "encodes data (Completed us)"
  shows "\<exists>out1 meta. handle_responses_streaming_event data out = Inr (VList out1, meta) \<and>
     list_all2 displays out1 (if us = [] then ts else us)"
proof -
  obtain r where r: "has data ''response'' (VDict r)"
    "if us = [] then vget r ''output'' = VNone else \<exists>vs. has r ''output'' (VList vs) \<and> list_all2 displays vs us"
    using assms(2) by auto
  have "\<exists>vs. (if vget r ''output'' = VNone then VList out else vget r ''output'') = VList vs \<and>
     list_all2 displays vs (if us = [] then ts else us)"
    using r(2) assms(1) by (auto simp: has_values)
  then obtain vs where vs: "(if vget r ''output'' = VNone then VList out else vget r ''output'') = VList vs"
    "list_all2 displays vs (if us = [] then ts else us)" by blast
  from complete_all [OF vs(2)] obtain ws where ws: "rmap complete_item vs = Inr ws" "list_all2 displays ws (if us = [] then ts else us)" by blast
  have "handle_responses_streaming_event data out = completed_event data out" using assms(2) part_dispatch(3) by simp
  with vs ws r(1) show ?thesis by (cases "vs = []") (auto simp: completed_event_def has_values Let_def)
qed

lemma field_event_displays:
  assumes all: "list_all2 displays out ts" and e: "encodes data e" and i: "item_of e < length ts"
    and t': "step_item e (ts ! item_of e) = Some t'" and kind: "is_delta e \<or> is_done e"
  shows "\<exists>out1 meta. handle_responses_streaming_event data out = Inr (VList out1, meta) \<and>
     list_all2 displays out1 (ts[item_of e := t'])"
proof -
  let ?i = "item_of e"
  have len: "?i < length out" using i all by (simp add: list_all2_lengthD)
  have "displays (out ! ?i) (ts ! ?i)" using all len by (rule list_all2_nthD)
  then obtain item where item: "out ! ?i = VDict item" "displays (VDict item) (ts ! ?i)"
    by (cases "(out ! ?i, ts ! ?i)" rule: displays.cases) auto
  have "has data ''output_index'' (VInt (int ?i))" using e kind by (cases e) auto
  from target_at [OF this len] have tgt: "target data out = Inr (Some ?i)" .
  show ?thesis
  proof (cases "is_delta e")
    case True
    then obtain v where v: "has data ''delta'' v" using e by (cases e) auto
    from delta_displays [OF item(2) t' e v True] obtain item1
      where item1: "apply_delta (kind_of e) data v item = Inr item1" "displays (VDict item1) t'" by blast
    have "has data ''type'' (VStr (''response.'' @ kind_of e @ ''.delta''))" using e True by (cases e) auto
    from delta_dispatch [OF this _ tgt item(1) v item1(1)] True
    have "handle_responses_streaming_event data out = Inr (VList (out[?i := VDict item1]), VNone)" by (cases e) auto
    with item1(2) all show ?thesis by (auto intro!: list_all2_update_cong)
  next
    case False
    with kind have d: "is_done e" by blast
    then obtain v where v: "has data (done_key (kind_of e)) v" using e by (cases e) (auto simp: done_key_def)
    from done_displays [OF item(2) t' e d v] obtain item1
      where item1: "finish_item (kind_of e) (done_key (kind_of e)) v data item = Inr item1" "displays (VDict item1) t'" by blast
    have "has data ''type'' (VStr (''response.'' @ kind_of e @ ''.done''))" using e d by (cases e) auto
    from done_dispatch [OF this _ tgt item(1) v item1(1)] d
    have "handle_responses_streaming_event data out = Inr (VList (out[?i := VDict item1]), VDict [])" by (cases e) auto
    with item1(2) all show ?thesis by (auto intro!: list_all2_update_cong)
  qed
qed

text \<open>The event that completes an output item is ignored: the branch meant for it cannot be reached, so the final form of
  the item does not replace the one assembled so far.\<close>

theorem item_done_ignored:
  assumes "has data ''type'' (VStr ''response.output_item.done'')"
  shows "handle_responses_streaming_event data out = Inr (VList out, VNone)"
  using assms by (simp add: handle_responses_streaming_event_def done_event_def has_values suffix_def)

lemma item_done_ignored_witness:
  "handle_responses_streaming_event [(''type'', VStr ''response.output_item.done''), (''output_index'', VInt 0),
      (''item'', VDict [(''type'', VStr ''function_call''), (''status'', VStr ''completed'')])]
     [VDict [(''type'', VStr ''function_call''), (''status'', VStr ''in_progress'')]] =
   Inr (VList [VDict [(''type'', VStr ''function_call''), (''status'', VStr ''in_progress'')]], VNone)"
  by (rule item_done_ignored) (simp add: has_def)

lemma lifecycle_ignored:
  "encodes data Lifecycle \<Longrightarrow> \<exists>meta. handle_responses_streaming_event data out = Inr (VList out, meta)"
  by (auto simp: handle_responses_streaming_event_def failed_event_def has_values suffix_def)

lemma event_displays:
  assumes all: "list_all2 displays out ts" and e: "encodes data e" and s: "step_event e ts = Some ts1"
  shows "\<exists>out1 meta. handle_responses_streaming_event data out = Inr (VList out1, meta) \<and> list_all2 displays out1 ts1"
proof (cases "(\<exists>t. e = Added t) \<or> (\<exists>us. e = Completed us) \<or> e = Lifecycle")
  case True
  then consider t where "e = Added t" | us where "e = Completed us" | "e = Lifecycle" by blast
  then show ?thesis
  proof cases
    case 1
    with e obtain v where v: "has data ''type'' (VStr ''response.output_item.added'')" "has data ''item'' v" "displays v t" by auto
    then have "truthy v" by (cases "(v, t)" rule: displays.cases) (auto simp: is_type_def)
    with v 1 s all show ?thesis
      by (auto simp: handle_responses_streaming_event_def has_values intro!: list_all2_appendI)
  next
    case (2 us)
    then have "encodes data (Completed us)" using e by blast
    from completed_displays [OF all this] 2 s show ?thesis by simp
  next
    case 3
    with e lifecycle_ignored [of data out] all s show ?thesis by auto
  qed
next
  case False
  then obtain t' where t': "item_of e < length ts" "step_item e (ts ! item_of e) = Some t'" "ts1 = ts[item_of e := t']"
    using s by (cases e) (auto split: if_splits option.splits)
  consider "is_delta e \<or> is_done e" | s' where "e = Part_added (item_of e) s' \<or> e = Summary_added (item_of e) s'"
    | "(\<exists>i j s. e = Part_done i j s) \<or> (\<exists>i j s. e = Summary_part_done i j s)" | i t where "e = Item_done i t"
    using False by (cases e) auto
  then show ?thesis
  proof cases
    case 1
    from field_event_displays [OF all e t'(1,2) 1] t'(3) show ?thesis by simp
  next
    case 2
    from part_displays [OF all t'(1) e t'(2) 2] t'(3) show ?thesis by simp
  next
    case 3
    from part_done_displays [OF all e t'(1,2) 3] t'(3) show ?thesis by simp
  next
    case (4 i t)
    then have "has data ''type'' (VStr ''response.output_item.done'')" using e by simp
    moreover have "ts1 = ts" using 4 t' by (auto split: if_splits)
    ultimately show ?thesis using item_done_ignored [of data out] all by blast
  qed
qed

text \<open>C24. The assembled output follows the protocol: whatever messages, reasonings and calls, parts, deltas and ends of texts,
  summaries and arguments, parts and items, and states of the response a provider interleaves, after every stream of these events
  that keeps to the protocol the items show exactly the transcript the events describe.\<close>

theorem responses_stream_refines:
  assumes "list_all2 encodes ds es" and "run_events es ts = Some ts1" and "list_all2 displays out ts"
  shows "\<exists>out1. run_handler ds out = Inr out1 \<and> list_all2 displays out1 ts1"
  using assms
proof (induction ds es arbitrary: out ts rule: list_all2_induct)
  case (Cons d ds e es)
  then obtain ts2 where ts2: "step_event e ts = Some ts2" "run_events es ts2 = Some ts1" by (auto split: option.splits)
  from event_displays [OF Cons.prems(2) Cons.hyps(1) ts2(1)] obtain out2 meta
    where out2: "handle_responses_streaming_event d out = Inr (VList out2, meta)" "list_all2 displays out2 ts2" by blast
  from Cons.IH [OF ts2(2) out2(2)] out2(1) show ?case by simp
qed simp

definition sample_stream :: "dict list" where
  "sample_stream =
     [[(''type'', VStr ''response.created'')],
      [(''type'', VStr ''response.output_item.added''), (''item'', VDict [(''type'', VStr ''message'')])],
      [(''type'', VStr ''response.output_item.added''), (''item'', VDict [(''type'', VStr ''function_call''), (''arguments'', VStr [])])],
      [(''type'', VStr ''response.output_text.delta''), (''output_index'', VInt 0), (''content_index'', VInt 0), (''delta'', VStr ''he'')],
      [(''type'', VStr ''response.function_call_arguments.delta''), (''output_index'', VInt 1), (''delta'', VStr ''{'')],
      [(''type'', VStr ''response.output_text.delta''), (''output_index'', VInt 0), (''content_index'', VInt 0), (''delta'', VStr ''llo'')],
      [(''type'', VStr ''response.function_call_arguments.delta''), (''output_index'', VInt 1), (''delta'', VStr ''}'')],
      [(''type'', VStr ''response.content_part.done''), (''output_index'', VInt 0), (''content_index'', VInt 0),
       (''part'', VDict [(''text'', VStr ''hello'')])],
      [(''type'', VStr ''response.output_item.done''), (''output_index'', VInt 1),
       (''item'', VDict [(''type'', VStr ''function_call''), (''arguments'', VStr ''{}'')])]]"

lemma responses_stream_refines_witness:
  "\<exists>out. run_handler sample_stream [] = Inr out \<and> list_all2 displays out [Message [''hello''], Call ''{}'']"
proof -
  let ?es = "[Lifecycle, Added (Message []), Added (Call []), Text_delta 0 0 ''he'', Arguments_delta 1 ''{'', Text_delta 0 0 ''llo'', Arguments_delta 1 ''}'',
      Part_done 0 0 ''hello'', Item_done 1 (Call ''{}'')]"
  have "list_all2 encodes sample_stream ?es"
    by (simp add: sample_stream_def has_def is_type_def shows_parts_def shows_field_def shows_text_def)
  moreover have "run_events ?es [] = Some [Message [''hello''], Call ''{}'']" by code_simp
  ultimately show ?thesis by (rule responses_stream_refines) simp
qed

text \<open>A delta for an item that is not there ends in an exception instead of being skipped.\<close>

lemma delta_without_item:
  assumes "has data ''type'' (VStr ''response.output_text.delta'')" and "has data ''output_index'' (VInt (int i))" and "length out \<le> i"
  shows "handle_responses_streaming_event data out = Inl UnboundLocalError"
  using assms by (simp add: handle_responses_streaming_event_def delta_event_def target_def has_values suffix_def)

end
