(* ===== verification/TagStream.thy ===== *)
theory TagStream
  imports PyText "HOL-Library.Sublist"
begin

text \<open>
  Tags in a streamed answer: \<open>tag_output_handler\<close> and the part of \<open>stream_body_handler\<close> that appends a piece of content,
  in \<open>streaming_chat_response_handler\<close> of \<open>backend/open_webui/utils/middleware.py\<close>. A start tag in the last message turns
  what follows into a reasoning, a code block or a solution, an end tag closes it. The items are those this code makes: their content
  parts are all of type \<open>output_text\<close> and are kept as texts. Times are whole seconds, \<open>fresh\<close> yields the ids, and the recursion of the
  handler goes as deep as \<open>depth\<close>.
\<close>

section \<open>Patterns\<close>

text \<open>\<open>_start_tag_pattern\<close>: a tag in angle brackets may carry attributes, \<open><name(\s.*?)?>\<close>; any other tag is literal. The result is the
  group, empty where it took no part, and the length of the match at the beginning of the text.\<close>

definition angled :: "string \<Rightarrow> bool" where
  "angled tag \<longleftrightarrow> tag \<noteq> [] \<and> hd tag = CHR ''<'' \<and> last tag = CHR ''>''"

definition match_attributes :: "string \<Rightarrow> (string \<times> nat) option" where
  "match_attributes r =
     (case r of
        [] \<Rightarrow> None
      | c # cs \<Rightarrow>
          if is_space c then
            let attrs = takeWhile (\<lambda>c. c \<noteq> CHR ''>'' \<and> c \<noteq> CHR 0x0A) cs
            in if prefix (attrs @ ''>'') cs then Some (c # attrs, length attrs + 2) else None
          else if c = CHR ''>'' then Some ([], 1) else None)"

definition match_at :: "string \<Rightarrow> string \<Rightarrow> (string \<times> nat) option" where
  "match_at tag t =
     (if angled tag then
        let open_part = CHR ''<'' # butlast (tl tag)
        in if prefix open_part t
           then map_option (\<lambda>(a, k). (a, length open_part + k)) (match_attributes (drop (length open_part) t)) else None
      else if prefix tag t then Some ([], length tag) else None)"

text \<open>\<open>search(text, start)\<close>: the first position with a match, its group and its length.\<close>

definition search_tag :: "string \<Rightarrow> string \<Rightarrow> nat \<Rightarrow> (nat \<times> string \<times> nat) option" where
  "search_tag tag t start =
     (case List.find (\<lambda>p. match_at tag (drop p t) \<noteq> None) [start..<Suc (length t)] of
        None \<Rightarrow> None
      | Some p \<Rightarrow> map_option (\<lambda>m. (p, m)) (match_at tag (drop p t)))"

text \<open>The first tag of the list that occurs.\<close>

fun first_tag :: "(string \<times> string) list \<Rightarrow> string \<Rightarrow> nat \<Rightarrow> ((string \<times> string) \<times> nat \<times> string \<times> nat) option" where
  "first_tag [] t start = None"
| "first_tag (tag # tags) t start =
     (case search_tag (fst tag) t start of Some m \<Rightarrow> Some (tag, m) | None \<Rightarrow> first_tag tags t start)"

text \<open>\<open>re.sub(pattern, '', text)\<close>\<close>

function remove_tag :: "string \<Rightarrow> string \<Rightarrow> string" where
  "remove_tag tag t =
     (case t of
        [] \<Rightarrow> []
      | c # cs \<Rightarrow>
          (case match_at tag t of
             Some (a, k) \<Rightarrow> if k = 0 then c # remove_tag tag cs else remove_tag tag (drop k t)
           | None \<Rightarrow> c # remove_tag tag cs))"
  by pat_completeness auto

termination
  by (relation "measure (\<lambda>(tag, t). length t)") auto

declare remove_tag.simps [simp del]

text \<open>\<open>text.find(s, start)\<close> and \<open>text.rfind(c, 0, n)\<close>.\<close>

definition find_from :: "string \<Rightarrow> string \<Rightarrow> nat \<Rightarrow> nat option" where
  "find_from s t start = List.find (\<lambda>p. prefix s (drop p t)) [start..<Suc (length t)]"

definition rfind_char :: "char \<Rightarrow> string \<Rightarrow> nat \<Rightarrow> int" where
  "rfind_char c t n = (case List.find (\<lambda>p. t ! p = c) (rev [0..<min n (length t)]) of None \<Rightarrow> -1 | Some p \<Rightarrow> int p)"

text \<open>The attributes \<open>key="value"\<close> of a tag.\<close>

definition is_word :: "char \<Rightarrow> bool" where
  "is_word c \<longleftrightarrow>
     (let n = code c
      in 48 \<le> n \<and> n \<le> 57 \<or> 65 \<le> n \<and> n \<le> 90 \<or> n = 95 \<or> 97 \<le> n \<and> n \<le> 122 \<or> n \<in> {170, 178, 179, 181, 185, 186, 188, 189, 190} \<or>
         192 \<le> n \<and> n \<le> 255 \<and> n \<noteq> 215 \<and> n \<noteq> 247)"

definition match_attribute :: "string \<Rightarrow> ((string \<times> string) \<times> string) option" where
  "match_attribute t =
     (let key = takeWhile is_word t; r1 = dropWhile is_space (drop (length key) t)
      in if key = [] then None
         else (case r1 of
                 [] \<Rightarrow> None
               | c # r2 \<Rightarrow>
                   if c \<noteq> CHR ''='' then None
                   else (case dropWhile is_space r2 of
                           [] \<Rightarrow> None
                         | q # r3 \<Rightarrow>
                             let v = takeWhile (\<lambda>c. c \<noteq> CHR 0x22) r3
                             in if q = CHR 0x22 \<and> v \<noteq> [] \<and> length v < length r3 then Some ((key, v), drop (length v + 1) r3) else None)))"

lemma match_attribute_shorter: "match_attribute t = Some (kv, r) \<Longrightarrow> length r < length t"
proof -
  assume m: "match_attribute t = Some (kv, r)"
  have "length (dropWhile P xs) \<le> length xs" for P :: "char \<Rightarrow> bool" and xs by (rule length_dropWhile_le)
  note short = this
  obtain c r2 q r3 where s: "dropWhile is_space (drop (length (takeWhile is_word t)) t) = c # r2" "dropWhile is_space r2 = q # r3"
    and r: "r = drop (length (takeWhile (\<lambda>c. c \<noteq> CHR 0x22) r3) + 1) r3"
    using m by (auto simp: match_attribute_def Let_def split: if_splits list.splits)
  have "length (c # r2) \<le> length t" using short [of is_space "drop (length (takeWhile is_word t)) t"] s(1) by simp
  moreover have "length (q # r3) \<le> length r2" using short [of is_space r2] s(2) by simp
  ultimately show ?thesis using r by simp
qed

function find_attributes :: "string \<Rightarrow> (string \<times> string) list" where
  "find_attributes t =
     (case t of
        [] \<Rightarrow> []
      | c # cs \<Rightarrow> (case match_attribute t of Some (kv, r) \<Rightarrow> kv # find_attributes r | None \<Rightarrow> find_attributes cs))"
  by pat_completeness auto

termination
  by (relation "measure length") (auto dest: match_attribute_shorter)

declare find_attributes.simps [simp del]

definition extract_attributes :: "string \<Rightarrow> (string, string) pydict" where
  "extract_attributes s = dmerge [] (find_attributes s)"

section \<open>Items\<close>

record out_item =
  oi_type :: string
  oi_id :: string
  oi_status :: string
  oi_content :: "string list"
  oi_code :: string
  oi_lang :: string
  oi_tag_type :: "string option"
  oi_start_tag :: string
  oi_end_tag :: string
  oi_attributes :: "(string, string) pydict"
  oi_started_at :: int
  oi_ended_at :: "int option"
  oi_duration :: "int option"

record tag_state =
  ts_output :: "out_item list"
  ts_scanned :: "(string \<times> string, nat) pydict"
  ts_ids :: nat

abbreviation code_block :: string where
  "code_block \<equiv> ''open_webui:code_interpreter''"

definition new_item :: "string \<Rightarrow> string \<Rightarrow> out_item" where
  "new_item type i =
     \<lparr>oi_type = type, oi_id = i, oi_status = ''in_progress'', oi_content = [], oi_code = [], oi_lang = [], oi_tag_type = None,
      oi_start_tag = [], oi_end_tag = [], oi_attributes = [], oi_started_at = 0, oi_ended_at = None, oi_duration = None\<rparr>"

definition new_message :: "string \<Rightarrow> string \<Rightarrow> out_item" where
  "new_message i t = (new_item ''message'' i)\<lparr>oi_content := [t]\<rparr>"

text \<open>\<open>set_last_text\<close> and the text of the last part; a message made by this code has one part.\<close>

definition item_text :: "out_item \<Rightarrow> string" where
  "item_text it = (if oi_content it = [] then [] else last (oi_content it))"

definition set_text :: "string \<Rightarrow> out_item \<Rightarrow> out_item" where
  "set_text t it = (if oi_content it = [] then it else it\<lparr>oi_content := butlast (oi_content it) @ [t]\<rparr>)"

definition set_last :: "out_item \<Rightarrow> tag_state \<Rightarrow> tag_state" where
  "set_last it s = s\<lparr>ts_output := butlast (ts_output s) @ [it]\<rparr>"

definition get_scanned_length :: "out_item \<Rightarrow> string \<Rightarrow> string \<Rightarrow> tag_state \<Rightarrow> nat" where
  "get_scanned_length it content_type t s =
     (if oi_id it = [] then 0
      else let n = dget_or (ts_scanned s) (oi_id it, content_type) 0 in if n \<le> length t then n else 0)"

definition save_scanned_length :: "out_item \<Rightarrow> string \<Rightarrow> string \<Rightarrow> tag_state \<Rightarrow> tag_state" where
  "save_scanned_length it content_type t s =
     (if oi_id it = [] then s else s\<lparr>ts_scanned := dset (ts_scanned s) (oi_id it, content_type) (length t)\<rparr>)"

definition clear_scanned_length :: "out_item \<Rightarrow> string \<Rightarrow> tag_state \<Rightarrow> tag_state" where
  "clear_scanned_length it content_type s =
     (if oi_id it = [] then s else s\<lparr>ts_scanned := dpop (ts_scanned s) (oi_id it, content_type)\<rparr>)"

section \<open>Start tags\<close>

text \<open>Where the search resumes: no tag that ends within the scanned text is looked for again, but one that may have begun in it is.\<close>

definition search_start :: "(string \<times> string) list \<Rightarrow> string \<Rightarrow> nat \<Rightarrow> nat" where
  "search_start tags t scanned =
     (let longest = (if tags = [] then 1 else Max (set (map (length \<circ> fst) tags)));
          start = nat (max 0 (int scanned - int longest + 1));
          boundary = max (rfind_char CHR ''>'' t scanned) (rfind_char CHR 0x0A t scanned);
          open_tag = rfind_char CHR ''<'' t scanned
      in if scanned \<noteq> 0 \<and> list_ex (angled \<circ> fst) tags \<and> open_tag > boundary then min start (nat open_tag) else start)"

text \<open>The item that takes the text after a start tag.\<close>

definition open_item :: "(nat \<Rightarrow> string) \<Rightarrow> int \<Rightarrow> string \<Rightarrow> string \<times> string \<Rightarrow> string \<Rightarrow> string \<Rightarrow> tag_state \<Rightarrow> tag_state" where
  "open_item fresh now content_type tag attr_content after s =
     (let attrs = extract_attributes attr_content; i = fresh (ts_ids s);
          tagged = (\<lambda>it. it\<lparr>oi_start_tag := fst tag, oi_end_tag := snd tag, oi_attributes := attrs, oi_started_at := now\<rparr>);
          item = (if content_type = ''reasoning'' then
                    tagged ((new_item ''reasoning'' i)\<lparr>oi_content := (if after = [] then [] else [after])\<rparr>)
                  else if content_type = ''code_interpreter'' then
                    tagged ((new_item code_block i)\<lparr>oi_lang := dget_or attrs ''lang'' ''python'', oi_code := after\<rparr>)
                  else tagged ((new_message i after)\<lparr>oi_tag_type := Some content_type\<rparr>))
      in s\<lparr>ts_output := ts_output s @ [item], ts_ids := Suc (ts_ids s)\<rparr>)"

text \<open>The text before the tag stays in the message, which goes if it is blank.\<close>

definition keep_before :: "string \<Rightarrow> tag_state \<Rightarrow> tag_state" where
  "keep_before before s =
     (if py_strip before = [] then s\<lparr>ts_output := butlast (ts_output s)\<rparr>
      else set_last (set_text before (last (ts_output s))) s)"

section \<open>End tags\<close>

definition block_text :: "out_item \<Rightarrow> string" where
  "block_text it = (if oi_type it = code_block then oi_code it else item_text it)"

definition finish_block :: "int \<Rightarrow> string \<Rightarrow> out_item \<Rightarrow> out_item" where
  "finish_block now t it =
     (if oi_type it = ''reasoning''
      then it\<lparr>oi_content := [t], oi_ended_at := Some now, oi_duration := Some (now - oi_started_at it), oi_status := ''completed''\<rparr>
      else if oi_type it = code_block
      then it\<lparr>oi_code := t, oi_ended_at := Some now, oi_duration := Some (now - oi_started_at it)\<rparr>
      else (set_text t it)\<lparr>oi_ended_at := Some now\<rparr>)"

text \<open>The text of the block without its tags, and what follows the end tag.\<close>

definition split_block :: "out_item \<Rightarrow> string \<times> string" where
  "split_block it =
     (let stripped = py_strip (remove_tag (oi_start_tag it) (block_text it))
      in case find_from (oi_end_tag it) stripped 0 of
           None \<Rightarrow> (py_strip stripped, [])
         | Some p \<Rightarrow> (py_strip (take p stripped), py_strip (drop (p + length (oi_end_tag it)) stripped)))"

text \<open>The block is finished, or removed if it is empty, and a new message takes what is left.\<close>

definition leave_block :: "(nat \<Rightarrow> string) \<Rightarrow> int \<Rightarrow> out_item \<Rightarrow> tag_state \<Rightarrow> tag_state" where
  "leave_block fresh now it s =
     (let (content, leftover) = split_block it;
          kept = (if content = [] then butlast (ts_output s) else butlast (ts_output s) @ [finish_block now content it])
      in s\<lparr>ts_output := kept @ [new_message (fresh (ts_ids s)) leftover], ts_ids := Suc (ts_ids s)\<rparr>)"

definition close_block :: "(nat \<Rightarrow> string) \<Rightarrow> int \<Rightarrow> string \<Rightarrow> tag_state \<Rightarrow> tag_state \<times> bool" where
  "close_block fresh now content_type s =
     (let it = last (ts_output s); block = block_text it; end_tag = oi_end_tag it;
          scanned = get_scanned_length it content_type block s
      in case find_from end_tag block (nat (max 0 (int scanned - int (max (length end_tag) 1) + 1))) of
           None \<Rightarrow> (save_scanned_length it content_type block s, False)
         | Some _ \<Rightarrow> (leave_block fresh now it (clear_scanned_length it content_type s), True))"

section \<open>The handler\<close>

text \<open>A message is always searched for start tags, also one that a solution tag opened: the case for its end tag is not reached.\<close>

primrec tag_output_handler ::
  "nat \<Rightarrow> (nat \<Rightarrow> string) \<Rightarrow> int \<Rightarrow> string \<Rightarrow> (string \<times> string) list \<Rightarrow> tag_state \<Rightarrow> (tag_state \<times> bool) result" where
  "tag_output_handler 0 fresh now content_type tags s = Inl RecursionError"
| "tag_output_handler (Suc depth) fresh now content_type tags s =
     (if ts_output s = [] then Inr (s, False)
      else let it = last (ts_output s)
      in if oi_type it = ''message'' then
           let t = item_text it
           in (case first_tag tags t (search_start tags t (get_scanned_length it content_type t s)) of
                 None \<Rightarrow> Inr (save_scanned_length it content_type t s, False)
               | Some (tag, p, attr_content, k) \<Rightarrow>
                   let after = drop (p + k) t;
                       s1 = open_item fresh now content_type tag attr_content after
                              (keep_before (take p t) (clear_scanned_length it content_type s))
                   in if after = [] then Inr (s1, False) else tag_output_handler depth fresh now content_type tags s1)
         else if oi_type it = ''reasoning'' \<and> content_type = ''reasoning'' \<or>
                 oi_type it = code_block \<and> content_type = ''code_interpreter'' \<or>
                 oi_type it = ''message'' \<and> oi_tag_type it = Some content_type
         then Inr (close_block fresh now content_type s)
         else Inr (s, False))"

section \<open>A piece of content\<close>

text \<open>Reasoning that came outside the content ends when content comes.\<close>

definition end_reasoning_content :: "(nat \<Rightarrow> string) \<Rightarrow> int \<Rightarrow> tag_state \<Rightarrow> tag_state" where
  "end_reasoning_content fresh now s =
     (if ts_output s \<noteq> [] \<and> oi_type (last (ts_output s)) = ''reasoning'' \<and>
         dget (oi_attributes (last (ts_output s))) ''type'' = Some ''reasoning_content''
      then let it = last (ts_output s)
           in s\<lparr>ts_output := butlast (ts_output s) @
                  [it\<lparr>oi_ended_at := Some now, oi_duration := Some (now - oi_started_at it), oi_status := ''completed''\<rparr>,
                   new_message (fresh (ts_ids s)) []],
                ts_ids := Suc (ts_ids s)\<rparr>
      else s)"

definition add_text :: "string \<Rightarrow> out_item \<Rightarrow> out_item" where
  "add_text v it = (if oi_content it = [] then it\<lparr>oi_content := [v]\<rparr> else set_text (item_text it @ v) it)"

definition inside_tag_block :: "out_item \<Rightarrow> bool" where
  "inside_tag_block it \<longleftrightarrow>
     oi_status it = ''in_progress'' \<and> dget (oi_attributes it) ''type'' \<noteq> Some ''reasoning_content'' \<and>
     (oi_type it = ''reasoning'' \<or> oi_type it = code_block \<or> oi_type it = ''message'' \<and> oi_tag_type it \<noteq> None)"

definition append_value :: "(nat \<Rightarrow> string) \<Rightarrow> string \<Rightarrow> tag_state \<Rightarrow> tag_state" where
  "append_value fresh v s =
     (if ts_output s \<noteq> [] \<and> inside_tag_block (last (ts_output s))
      then let it = last (ts_output s)
           in set_last (if oi_type it = code_block then it\<lparr>oi_code := oi_code it @ v\<rparr> else add_text v it) s
      else let s1 = (if ts_output s = [] \<or> oi_type (last (ts_output s)) \<noteq> ''message''
                     then s\<lparr>ts_output := ts_output s @ [new_message (fresh (ts_ids s)) []], ts_ids := Suc (ts_ids s)\<rparr> else s)
           in set_last (add_text v (last (ts_output s1))) s1)"

definition solution_tags :: "(string \<times> string) list" where
  "solution_tags = [(''<|begin_of_solution|>'', ''<|end_of_solution|>'')]"

definition code_interpreter_tags :: "(string \<times> string) list" where
  "code_interpreter_tags = [(''<code_interpreter>'', ''</code_interpreter>'')]"

text \<open>One chunk: the content is appended, then the handlers look for their tags; the result says whether a code block has ended.\<close>

definition content_step ::
  "nat \<Rightarrow> (nat \<Rightarrow> string) \<Rightarrow> (string \<times> string) list \<Rightarrow> bool \<Rightarrow> bool \<Rightarrow> int \<Rightarrow> string \<Rightarrow> tag_state \<Rightarrow> (tag_state \<times> bool) result" where
  "content_step depth fresh reasoning_tags detect_reasoning detect_code now v s =
     (let s0 = append_value fresh v (end_reasoning_content fresh now s)
      in rbind (if detect_reasoning
                then rbind (tag_output_handler depth fresh now ''reasoning'' reasoning_tags s0) (\<lambda>(s1, _).
                     rbind (tag_output_handler depth fresh now ''solution'' solution_tags s1) (\<lambda>(s2, _). Inr s2))
                else Inr s0) (\<lambda>s3.
         if detect_code then tag_output_handler depth fresh now ''code_interpreter'' code_interpreter_tags s3 else Inr (s3, False)))"

section \<open>Resuming the search\<close>

text \<open>A match depends only on the characters it covers.\<close>

lemma span_take: "takeWhile P (take m cs) = take m (takeWhile P cs)"
    "dropWhile P (take m cs) = take (m - length (takeWhile P cs)) (dropWhile P cs)"
proof (induction cs arbitrary: m)
  case (Cons c cs)
  { case 1 show ?case using Cons(1) by (cases m) simp_all next
    case 2 show ?case using Cons(2) by (cases m) simp_all }
qed simp_all

lemma take_is_Cons: "take j ys = x # r \<longleftrightarrow> 0 < j \<and> (\<exists>r'. ys = x # r' \<and> r = take (j - 1) r')"
  by (cases j; cases ys) auto

lemma prefix_span: "prefix (takeWhile P cs @ [x]) cs \<longleftrightarrow> (\<exists>r. dropWhile P cs = x # r)"
proof
  assume "prefix (takeWhile P cs @ [x]) cs"
  then obtain r where "cs = takeWhile P cs @ x # r" by (auto simp: prefix_def)
  moreover have "cs = takeWhile P cs @ dropWhile P cs" by simp
  ultimately show "\<exists>r. dropWhile P cs = x # r" by (metis same_append_eq)
next
  assume "\<exists>r. dropWhile P cs = x # r"
  then obtain r where "dropWhile P cs = x # r" ..
  then have "cs = takeWhile P cs @ x # r" by (metis takeWhile_dropWhile_id)
  then show "prefix (takeWhile P cs @ [x]) cs" by (metis append_Cons append_Nil append_assoc prefixI)
qed

lemma match_attributes_take:
  "match_attributes (take m r) = Some (a, k) \<longleftrightarrow> match_attributes r = Some (a, k) \<and> k \<le> m"
proof (cases r)
  case (Cons c cs)
  show ?thesis
  proof (cases m)
    case (Suc m')
    let ?P = "\<lambda>c. c \<noteq> CHR ''>'' \<and> c \<noteq> CHR 0x0A"
    have "prefix (takeWhile ?P (take m' cs) @ ''>'') (take m' cs) \<longleftrightarrow>
        length (takeWhile ?P cs) < m' \<and> prefix (takeWhile ?P cs @ ''>'') cs"
      unfolding prefix_span span_take(2) take_is_Cons by auto
    moreover have "length (takeWhile ?P cs) < m' \<Longrightarrow> takeWhile ?P (take m' cs) = takeWhile ?P cs" by (simp add: span_take(1))
    ultimately show ?thesis using Cons Suc by (auto simp: match_attributes_def Let_def)
  qed (auto simp: match_attributes_def Cons Let_def)
qed (simp add: match_attributes_def)

lemma prefix_take: "prefix xs (take m t) \<longleftrightarrow> prefix xs t \<and> length xs \<le> m"
proof
  assume p: "prefix xs (take m t)"
  then have "prefix xs t" by (meson prefix_order.trans take_is_prefix)
  with p show "prefix xs t \<and> length xs \<le> m" by (auto dest: prefix_length_le)
next
  assume "prefix xs t \<and> length xs \<le> m"
  then show "prefix xs (take m t)" by (auto simp: prefix_def)
qed

lemma match_at_take: "match_at tag (take m t) = Some (a, k) \<longleftrightarrow> match_at tag t = Some (a, k) \<and> k \<le> m"
proof (cases "angled tag")
  case True
  let ?o = "CHR ''<'' # butlast (tl tag)"
  have "match_attributes (drop (length ?o) (take m t)) = Some (b, j) \<longleftrightarrow>
      match_attributes (drop (length ?o) t) = Some (b, j) \<and> j \<le> m - length ?o" for b j
    unfolding drop_take by (rule match_attributes_take)
  with True show ?thesis by (auto simp: match_at_def prefix_take Let_def)
qed (auto simp: match_at_def prefix_take)

text \<open>What a match of a tag in angle brackets looks like.\<close>

lemma match_angled:
  assumes "angled tag" "match_at tag t = Some (a, k)"
  shows "\<exists>r. t = CHR ''<'' # butlast (tl tag) @ a @ CHR ''>'' # r" and "k = length (butlast (tl tag)) + length a + 2"
    and "CHR ''>'' \<notin> set a" and "a = [] \<or> is_space (hd a) \<and> CHR 0x0A \<notin> set (tl a)"
proof -
  let ?o = "CHR ''<'' # butlast (tl tag)"
  obtain r j where r: "t = ?o @ r" "match_attributes r = Some (a, j)" "k = length ?o + j"
    using assms by (auto simp: match_at_def Let_def prefix_def split: if_splits)
  have "(\<exists>r'. r = a @ CHR ''>'' # r') \<and> j = length a + 1 \<and> CHR ''>'' \<notin> set a \<and> (a = [] \<or> is_space (hd a) \<and> CHR 0x0A \<notin> set (tl a))"
    using r(2)
    by (auto simp: match_attributes_def Let_def prefix_def is_space_def split: list.splits if_splits dest: set_takeWhileD)
  with r show "\<exists>r. t = CHR ''<'' # butlast (tl tag) @ a @ CHR ''>'' # r" "k = length (butlast (tl tag)) + length a + 2"
    "CHR ''>'' \<notin> set a" "a = [] \<or> is_space (hd a) \<and> CHR 0x0A \<notin> set (tl a)" by auto
qed

text \<open>Tags as they are configured, and texts whose tags carry attributes without an angle bracket or a line break.\<close>

definition usual_tags :: "(string \<times> string) list \<Rightarrow> bool" where
  "usual_tags tags \<longleftrightarrow>
     (\<forall>tag \<in> set tags. fst tag \<noteq> [] \<and>
        (angled (fst tag) \<longrightarrow> set (butlast (tl (fst tag))) \<inter> {CHR ''<'', CHR ''>'', CHR 0x0A} = {}))"

definition plain_attributes :: "(string \<times> string) list \<Rightarrow> string \<Rightarrow> bool" where
  "plain_attributes tags t \<longleftrightarrow>
     (\<forall>tag \<in> set tags. \<forall>p a k. match_at (fst tag) (drop p t) = Some (a, k) \<longrightarrow> CHR ''<'' \<notin> set a \<and> CHR 0x0A \<notin> set a)"

definition free_of_tags :: "(string \<times> string) list \<Rightarrow> string \<Rightarrow> bool" where
  "free_of_tags tags t \<longleftrightarrow> (\<forall>tag \<in> set tags. \<forall>p. match_at (fst tag) (drop p t) = None)"

lemma find_upt_None: "List.find P [a..<b] = None \<longleftrightarrow> (\<forall>p. a \<le> p \<and> p < b \<longrightarrow> \<not> P p)"
  by (auto simp: find_None_filter filter_empty_conv)

lemma find_upt_skip: "a \<le> b \<Longrightarrow> \<forall>p < b. a \<le> p \<longrightarrow> \<not> P p \<Longrightarrow> List.find P [b..<c] = List.find P [a..<c]"
proof (cases "b \<le> c")
  case True
  assume "a \<le> b" and none: "\<forall>p < b. a \<le> p \<longrightarrow> \<not> P p"
  then have "[a..<c] = [a..<b] @ [b..<c]" using True by (metis le_add_diff_inverse upt_add_eq_append)
  moreover have "List.find P (xs @ ys) = List.find P ys" if "\<forall>x \<in> set xs. \<not> P x" for xs ys using that by (induction xs) auto
  ultimately show ?thesis using none by simp
next
  case False
  assume "a \<le> b" and none: "\<forall>p < b. a \<le> p \<longrightarrow> \<not> P p"
  have "List.find P [a..<c] = None" unfolding find_upt_None using False none by auto
  with False show ?thesis by simp
qed

lemma search_tag_skip:
  "\<forall>p < start. match_at tag (drop p t) = None \<Longrightarrow> search_tag tag t start = search_tag tag t 0"
  unfolding search_tag_def using find_upt_skip [of 0 start "\<lambda>p. match_at tag (drop p t) \<noteq> None" "Suc (length t)"] by simp

lemma first_tag_skip:
  assumes "\<forall>tag \<in> set tags. \<forall>p < start. match_at (fst tag) (drop p t) = None"
  shows "first_tag tags t start = first_tag tags t 0"
proof -
  have "\<forall>tag \<in> set tags. search_tag (fst tag) t start = search_tag (fst tag) t 0"
    using assms search_tag_skip by blast
  then show ?thesis by (induction tags) (simp_all split: option.split)
qed

lemma search_tag_None: "search_tag tag t 0 = None \<longleftrightarrow> (\<forall>p \<le> length t. match_at tag (drop p t) = None)"
proof (cases "List.find (\<lambda>p. match_at tag (drop p t) \<noteq> None) [0..<Suc (length t)]")
  case None
  with find_upt_None [of "\<lambda>p. match_at tag (drop p t) \<noteq> None" 0 "Suc (length t)"] show ?thesis
    unfolding search_tag_def None by (auto simp: less_Suc_eq_le simp del: not_None_eq not_Some_eq)
next
  case (Some p)
  from find_SomeD [OF this] have "p \<le> length t" "match_at tag (drop p t) \<noteq> None" by auto
  then show ?thesis unfolding search_tag_def Some by auto
qed

lemma first_tag_None: "first_tag tags t 0 = None \<longleftrightarrow> (\<forall>tag \<in> set tags. \<forall>p \<le> length t. match_at (fst tag) (drop p t) = None)"
proof -
  have "first_tag tags t 0 = None \<longleftrightarrow> (\<forall>tag \<in> set tags. search_tag (fst tag) t 0 = None)"
    by (induction tags) (simp_all split: option.split)
  then show ?thesis by (simp only: search_tag_None)
qed

lemma free_of_tags_iff: "first_tag tags t 0 = None \<longleftrightarrow> free_of_tags tags t"
proof -
  have "(\<forall>p \<le> length t. match_at tag (drop p t) = None) \<longleftrightarrow> (\<forall>p. match_at tag (drop p t) = None)" for tag
    by (metis drop_all nle_le)
  then show ?thesis by (simp add: first_tag_None free_of_tags_def)
qed

lemma rfind_char_bounds:
  assumes "p < n" "n \<le> length t" "t ! p = c" "\<forall>q. p < q \<and> q < n \<longrightarrow> t ! q \<noteq> c"
  shows "rfind_char c t n = int p"
proof -
  have "[0..<n] = [0..<p] @ p # [Suc p..<n]" using assms(1) by (metis le_add_diff_inverse less_imp_le upt_add_eq_append upt_conv_Cons zero_le)
  then have "rev [0..<n] = rev [Suc p..<n] @ p # rev [0..<p]" by simp
  moreover have "List.find P (xs @ y # ys) = Some y" if "\<forall>x \<in> set xs. \<not> P x" "P y" for P :: "nat \<Rightarrow> bool" and xs y ys
    using that by (induction xs) auto
  ultimately show ?thesis using assms by (simp add: rfind_char_def min_absorb1)
qed

lemma rfind_char_before:
  assumes "n \<le> length t" "\<forall>q. p < q \<and> q < n \<longrightarrow> t ! q \<noteq> c" "t ! p \<noteq> c"
  shows "rfind_char c t n < int p \<or> n \<le> p"
proof (cases "List.find (\<lambda>q. t ! q = c) (rev [0..<n])")
  case (Some q)
  then have "q < n" "t ! q = c" by (auto dest: find_SomeD)
  with assms have "q < p" by (metis linorder_neqE_nat)
  with Some assms(1) show ?thesis by (simp add: rfind_char_def min_absorb1)
qed (simp add: rfind_char_def assms(1) min_absorb1)

text \<open>The resumed search finds what a search of the whole text finds.\<close>

lemma no_match_before_start:
  assumes tag: "tag \<in> set tags" and usual: "usual_tags tags" and plain: "plain_attributes tags t"
    and free: "free_of_tags tags (take n t)" and n: "n \<le> length t" and p: "p < search_start tags t n"
  shows "match_at (fst tag) (drop p t) = None"
proof (rule ccontr)
  assume "match_at (fst tag) (drop p t) \<noteq> None"
  then obtain a k where m: "match_at (fst tag) (drop p t) = Some (a, k)" by auto
  define longest where "longest = Max (set (map (length \<circ> fst) tags))"
  have "length (fst tag) \<le> longest" unfolding longest_def using tag by (intro Max_ge) auto
  moreover have "p < nat (max 0 (int n - int longest + 1))"
    using p tag by (auto simp: search_start_def longest_def Let_def split: if_splits)
  ultimately have len: "p + length (fst tag) \<le> n" by linarith
  have "match_at (fst tag) (drop p (take n t)) = None" using free tag by (simp add: free_of_tags_def)
  then have past: "n < p + k" using m match_at_take [of "fst tag" "n - p" "drop p t" a k] by (auto simp: drop_take)
  with len have k: "length (fst tag) < k" by linarith
  then have ang: "angled (fst tag)" using m by (auto simp: match_at_def split: if_splits)
  let ?name = "butlast (tl (fst tag))"
  obtain r where r: "drop p t = CHR ''<'' # ?name @ a @ CHR ''>'' # r" and kk: "k = length ?name + length a + 2"
    using match_angled [OF ang m] by blast
  have clean: "set ?name \<inter> {CHR ''<'', CHR ''>'', CHR 0x0A} = {}" using usual tag ang by (auto simp: usual_tags_def)
  have a: "CHR ''<'' \<notin> set a" "CHR 0x0A \<notin> set a" "CHR ''>'' \<notin> set a"
    using plain tag m match_angled(3) [OF ang m] by (auto simp: plain_attributes_def)
  have at: "t ! (p + q) = (CHR ''<'' # ?name @ a @ CHR ''>'' # r) ! q" if "p + q < length t" for q
    using that by (metis nth_drop r add_leD1 less_imp_le_nat)
  have inner: "t ! q \<in> set ?name \<union> set a" if "p < q" "q < n" for q
  proof -
    from that obtain j where j: "q = p + Suc j" using less_imp_Suc_add by fastforce
    with that past kk have "j < length ?name + length a" by linarith
    moreover have "t ! q = ((?name @ a) @ CHR ''>'' # r) ! j" using at [of "Suc j"] that n j by simp
    ultimately have "t ! q = (?name @ a) ! j" "j < length (?name @ a)" by (simp_all only: nth_append length_append if_True)
    then have "t ! q \<in> set (?name @ a)" by (metis length_append nth_mem)
    then show ?thesis by simp
  qed
  have pn: "p < n" using len ang by (cases "fst tag") (auto simp: angled_def)
  have first: "t ! p = CHR ''<''" using at [of 0] pn n by simp
  have away: "\<forall>q. p < q \<and> q < n \<longrightarrow> t ! q \<noteq> c" if "c \<notin> set ?name" "c \<notin> set a" for c using inner that by blast
  have names: "CHR ''<'' \<notin> set ?name" "CHR ''>'' \<notin> set ?name" "CHR 0x0A \<notin> set ?name" using clean by blast+
  have lt: "rfind_char CHR ''<'' t n = int p" by (rule rfind_char_bounds [OF pn n first away [OF names(1) a(1)]])
  have other: "rfind_char c t n < int p" if "c \<notin> set ?name" "c \<notin> set a" "c \<noteq> CHR ''<''" for c
    using rfind_char_before [OF n away [OF that(1,2)]] that(3) first pn by force
  have "rfind_char CHR ''>'' t n < int p" by (rule other [OF names(2) a(3)]) simp
  moreover have "rfind_char CHR 0x0A t n < int p" by (rule other [OF names(3) a(2)]) simp
  moreover have "list_ex (angled \<circ> fst) tags" using tag ang by (auto simp: list_ex_iff)
  ultimately have "search_start tags t n \<le> p" using pn lt by (simp add: search_start_def Let_def)
  with p show False by simp
qed

lemma resumed_search:
  assumes "usual_tags tags" "plain_attributes tags t" "free_of_tags tags (take n t)" "n \<le> length t"
  shows "first_tag tags t (search_start tags t n) = first_tag tags t 0"
  using no_match_before_start [OF _ assms] by (intro first_tag_skip) blast

lemma search_start_zero: "usual_tags tags \<Longrightarrow> first_tag tags t (search_start tags t 0) = first_tag tags t 0"
proof (cases "tags = []")
  case False
  assume usual: "usual_tags tags"
  obtain tag where tag: "tag \<in> set tags" using False by (cases tags) auto
  then have "length (fst tag) \<le> Max (set (map (length \<circ> fst) tags))" by (intro Max_ge) auto
  moreover have "0 < length (fst tag)" using usual tag by (auto simp: usual_tags_def)
  ultimately have "1 \<le> Max (set (map (length \<circ> fst) tags))" by linarith
  then have "search_start tags t 0 = 0" by (simp add: search_start_def Let_def)
  then show ?thesis by simp
qed simp

text \<open>The same for the end tag.\<close>

lemma resumed_find:
  assumes "find_from e (take n t) 0 = None" "n \<le> length t"
  shows "find_from e t (nat (max 0 (int n - int (max (length e) 1) + 1))) = find_from e t 0"
  unfolding find_from_def
proof (rule find_upt_skip, simp, intro allI impI)
  fix p assume "p < nat (max 0 (int n - int (max (length e) 1) + 1))"
  then have p: "p + length e \<le> n" "p < n" by linarith+
  show "\<not> prefix e (drop p t)"
  proof
    assume "prefix e (drop p t)"
    then have "prefix e (drop p (take n t))" using p by (simp add: drop_take prefix_take)
    moreover have "\<not> prefix e (drop p (take n t))" using assms p(2) unfolding find_from_def find_upt_None by simp
    ultimately show False by blast
  qed
qed

section \<open>Remembered positions\<close>

definition forget :: "tag_state \<Rightarrow> tag_state" where
  "forget s = s\<lparr>ts_scanned := []\<rparr>"

definition view :: "(tag_state \<times> bool) result \<Rightarrow> (tag_state \<times> bool) result" where
  "view r = (case r of Inl e \<Rightarrow> Inl e | Inr (s, b) \<Rightarrow> Inr (forget s, b))"

lemma view_simps [simp]: "view (Inl e) = Inl e" "view (Inr (s, b)) = Inr (forget s, b)"
  by (simp_all add: view_def)

lemma forget_simps [simp]: "ts_output (forget s) = ts_output s" "ts_ids (forget s) = ts_ids s" "ts_scanned (forget s) = []" "forget (forget s) = forget s"
  by (simp_all add: forget_def)

text \<open>What is remembered of the last item is true of its text, which only grows; nothing is remembered of an id not given out yet.\<close>

definition nothing_before :: "(string \<times> string) list \<Rightarrow> out_item \<Rightarrow> nat \<Rightarrow> bool" where
  "nothing_before tags it n \<longleftrightarrow> n \<le> length (block_text it) \<and>
     (if oi_type it = ''message'' then free_of_tags tags (take n (block_text it))
      else find_from (oi_end_tag it) (take n (block_text it)) 0 = None)"

definition scanned_ids :: "tag_state \<Rightarrow> string set" where
  "scanned_ids s = fst ` fst ` set (ts_scanned s)"

definition old_id :: "(nat \<Rightarrow> string) \<Rightarrow> nat \<Rightarrow> string \<Rightarrow> bool" where
  "old_id fresh n i \<longleftrightarrow> (\<forall>k \<ge> n. fresh k \<noteq> i)"

lemma old_id_Suc: "old_id fresh n i \<Longrightarrow> old_id fresh (Suc n) i"
  and old_id_given: "inj fresh \<Longrightarrow> old_id fresh (Suc n) (fresh n)"
  and old_id_not_new: "\<not> old_id fresh n (fresh n)"
  by (auto simp: old_id_def dest: injD)

definition scan_inv :: "(nat \<Rightarrow> string) \<Rightarrow> (string \<Rightarrow> (string \<times> string) list) \<Rightarrow> tag_state \<Rightarrow> bool" where
  "scan_inv fresh tags_of s \<longleftrightarrow> inj fresh \<and>
     (\<forall>it \<in> set (ts_output s). old_id fresh (ts_ids s) (oi_id it)) \<and>
     (\<forall>i \<in> scanned_ids s. old_id fresh (ts_ids s) i) \<and>
     (ts_output s \<noteq> [] \<longrightarrow>
        (\<forall>ct n. dget (ts_scanned s) (oi_id (last (ts_output s)), ct) = Some n \<longrightarrow> nothing_before (tags_of ct) (last (ts_output s)) n))"

text \<open>The position for a content type can be used: the text is plain, or there is none.\<close>

definition usable :: "string \<Rightarrow> (string \<times> string) list \<Rightarrow> tag_state \<Rightarrow> bool" where
  "usable ct tags s \<longleftrightarrow> ts_output s \<noteq> [] \<longrightarrow> oi_type (last (ts_output s)) = ''message'' \<longrightarrow>
     plain_attributes tags (item_text (last (ts_output s))) \<or> dget (ts_scanned s) (oi_id (last (ts_output s)), ct) = None"

lemma block_text_message: "oi_type it = ''message'' \<Longrightarrow> block_text it = item_text it"
  by (simp add: block_text_def)

lemma scan_positions:
  assumes inv: "scan_inv fresh tags_of s" and ne: "ts_output s \<noteq> []"
  shows "nothing_before (tags_of ct) (last (ts_output s)) (get_scanned_length (last (ts_output s)) ct (block_text (last (ts_output s))) s) \<or>
     get_scanned_length (last (ts_output s)) ct (block_text (last (ts_output s))) s = 0"
  using assms by (auto simp: get_scanned_length_def scan_inv_def dget_or_def Let_def split: option.splits)

lemma message_search:
  assumes inv: "scan_inv fresh tags_of s" and ne: "ts_output s \<noteq> []" and m: "oi_type (last (ts_output s)) = ''message''"
    and ok: "usable ct (tags_of ct) s" and usual: "usual_tags (tags_of ct)" and t: "t = item_text (last (ts_output s))"
  shows "first_tag (tags_of ct) t (search_start (tags_of ct) t (get_scanned_length (last (ts_output s)) ct t s)) = first_tag (tags_of ct) t 0"
proof (cases "get_scanned_length (last (ts_output s)) ct t s = 0")
  case False
  then have "dget (ts_scanned s) (oi_id (last (ts_output s)), ct) \<noteq> None"
    by (auto simp: get_scanned_length_def dget_or_def Let_def split: if_splits option.splits)
  with ok ne m t have plain: "plain_attributes (tags_of ct) t" by (auto simp: usable_def)
  have "nothing_before (tags_of ct) (last (ts_output s)) (get_scanned_length (last (ts_output s)) ct t s)"
    using scan_positions [OF inv ne, of ct] False m t by (simp add: block_text_message)
  with resumed_search [OF usual plain] m t show ?thesis by (simp add: nothing_before_def block_text_message)
qed (simp add: search_start_zero [OF usual])

lemma block_search:
  assumes inv: "scan_inv fresh tags_of s" and ne: "ts_output s \<noteq> []" and m: "oi_type (last (ts_output s)) \<noteq> ''message''"
  defines "it \<equiv> last (ts_output s)"
  shows "find_from (oi_end_tag it) (block_text it)
     (nat (max 0 (int (get_scanned_length it ct (block_text it) s) - int (max (length (oi_end_tag it)) 1) + 1))) =
     find_from (oi_end_tag it) (block_text it) 0"
proof (cases "get_scanned_length it ct (block_text it) s = 0")
  case False
  with scan_positions [OF inv ne, of ct] have "nothing_before (tags_of ct) it (get_scanned_length it ct (block_text it) s)"
    by (auto simp: it_def)
  with m resumed_find show ?thesis by (simp add: nothing_before_def it_def)
qed simp

text \<open>A new item at the end: nothing is remembered of it.\<close>

lemma new_item_inv:
  assumes inv: "scan_inv fresh tags_of s" and s1: "ts_output s1 = items @ [item]" "ts_ids s1 = Suc (ts_ids s)"
    and ids: "oi_id ` set items \<subseteq> oi_id ` set (ts_output s)" "oi_id item = fresh (ts_ids s)"
    and keys: "scanned_ids s1 \<subseteq> scanned_ids s"
  shows "scan_inv fresh tags_of s1 \<and> (\<forall>ct. dget (ts_scanned s1) (oi_id (last (ts_output s1)), ct) = None)"
proof -
  have inj: "inj fresh" using inv by (simp add: scan_inv_def)
  have keys1: "\<forall>i \<in> scanned_ids s1. old_id fresh (ts_ids s) i" using inv keys by (auto simp: scan_inv_def)
  then have "fresh (ts_ids s) \<notin> scanned_ids s1" using old_id_not_new by blast
  then have none: "dget (ts_scanned s1) (oi_id item, ct) = None" for ct
    unfolding ids(2) by (force simp: dget_None_iff scanned_ids_def)
  have "\<forall>it \<in> set (ts_output s). old_id fresh (ts_ids s) (oi_id it)" using inv by (simp add: scan_inv_def)
  then have "\<forall>i \<in> oi_id ` set (ts_output s). old_id fresh (ts_ids s) i" by simp
  then have "\<forall>i \<in> oi_id ` set items. old_id fresh (ts_ids s) i" using ids(1) by (metis subsetD)
  then have "\<forall>it \<in> set items. old_id fresh (Suc (ts_ids s)) (oi_id it)" by (simp add: old_id_Suc)
  moreover have "old_id fresh (Suc (ts_ids s)) (oi_id item)" unfolding ids(2) by (rule old_id_given [OF inj])
  ultimately have "\<forall>it \<in> set (ts_output s1). old_id fresh (ts_ids s1) (oi_id it)" by (simp add: s1)
  moreover have "\<forall>i \<in> scanned_ids s1. old_id fresh (ts_ids s1) i" using keys1 by (simp add: s1 old_id_Suc)
  ultimately show ?thesis using inj none by (simp add: scan_inv_def s1)
qed

lemma clear_keys: "scanned_ids (clear_scanned_length it ct s) \<subseteq> scanned_ids s"
  unfolding scanned_ids_def by (rule image_mono) (simp add: clear_scanned_length_def Diff_subset)

lemma save_keys: "scanned_ids (save_scanned_length it ct t s) \<subseteq> insert (oi_id it) (scanned_ids s)"
  by (simp add: save_scanned_length_def scanned_ids_def subset_insertI)

lemma clear_simps [simp]: "ts_output (clear_scanned_length it ct s) = ts_output s" "ts_ids (clear_scanned_length it ct s) = ts_ids s"
    "forget (clear_scanned_length it ct s) = forget s" "clear_scanned_length it ct (forget s) = forget s"
  by (simp_all add: clear_scanned_length_def forget_def)

lemma save_simps [simp]: "ts_output (save_scanned_length it ct t s) = ts_output s" "ts_ids (save_scanned_length it ct t s) = ts_ids s"
    "forget (save_scanned_length it ct t s) = forget s" "forget (save_scanned_length it ct t (forget s)) = forget s"
  by (simp_all add: save_scanned_length_def forget_def)

lemma keep_before_simps [simp]: "ts_ids (keep_before b s) = ts_ids s" "ts_scanned (keep_before b s) = ts_scanned s"
    "forget (keep_before b s) = keep_before b (forget s)"
  by (simp_all add: keep_before_def set_last_def forget_def)

lemma set_text_simps [simp]: "oi_id (set_text t it) = oi_id it" "oi_type (set_text t it) = oi_type it" "oi_end_tag (set_text t it) = oi_end_tag it"
  by (simp_all add: set_text_def)

lemma keep_before_ids: "ts_output s \<noteq> [] \<Longrightarrow> oi_id ` set (ts_output (keep_before b s)) \<subseteq> oi_id ` set (ts_output s)"
  by (auto simp: keep_before_def set_last_def dest: in_set_butlastD intro: rev_image_eqI [OF last_in_set])

lemma open_item_simps [simp]: "ts_ids (open_item fresh now ct tag a after s) = Suc (ts_ids s)"
    "ts_scanned (open_item fresh now ct tag a after s) = ts_scanned s"
    "forget (open_item fresh now ct tag a after s) = open_item fresh now ct tag a after (forget s)"
  by (simp_all add: open_item_def Let_def forget_def)

lemma open_item_output:
  "\<exists>item. ts_output (open_item fresh now ct tag a after s) = ts_output s @ [item] \<and> oi_id item = fresh (ts_ids s)"
  by (simp add: open_item_def Let_def new_item_def new_message_def)

text \<open>No match: the length of the text is remembered.\<close>

lemma save_inv:
  assumes inv: "scan_inv fresh tags_of s" and ne: "ts_output s \<noteq> []"
    and n: "nothing_before (tags_of ct) (last (ts_output s)) (length (block_text (last (ts_output s))))"
  shows "scan_inv fresh tags_of (save_scanned_length (last (ts_output s)) ct (block_text (last (ts_output s))) s)"
    (is "scan_inv _ _ ?s1")
proof -
  have "old_id fresh (ts_ids s) (oi_id (last (ts_output s)))" using inv ne by (simp add: scan_inv_def)
  then have "\<forall>i \<in> scanned_ids ?s1. old_id fresh (ts_ids s) i"
    using save_keys [of "last (ts_output s)" ct "block_text (last (ts_output s))" s] inv by (auto simp: scan_inv_def)
  moreover have "nothing_before (tags_of ct') (last (ts_output s)) m"
    if "dget (ts_scanned ?s1) (oi_id (last (ts_output s)), ct') = Some m" for ct' m
    using that inv ne n by (auto simp: scan_inv_def save_scanned_length_def split: if_splits)
  ultimately show ?thesis using inv ne by (simp add: scan_inv_def)
qed

lemma save_other: "ct' \<noteq> ct \<Longrightarrow> dget (ts_scanned (save_scanned_length it ct t s)) (i, ct') = dget (ts_scanned s) (i, ct')"
  by (simp add: save_scanned_length_def)

lemma leave_block_simps [simp]: "ts_ids (leave_block fresh now it s) = Suc (ts_ids s)" "ts_scanned (leave_block fresh now it s) = ts_scanned s"
    "forget (leave_block fresh now it s) = leave_block fresh now it (forget s)"
  by (simp_all add: leave_block_def Let_def split_def forget_def)

lemma leave_block_output:
  assumes "ts_output s \<noteq> []" "it = last (ts_output s)"
  shows "\<exists>items item. ts_output (leave_block fresh now it s) = items @ [item] \<and> oi_id item = fresh (ts_ids s) \<and>
     oi_id ` set items \<subseteq> oi_id ` set (ts_output s)"
proof -
  have "oi_id (finish_block now t it) = oi_id it" for t by (simp add: finish_block_def)
  with assms show ?thesis
    by (auto simp: leave_block_def Let_def split_def new_message_def new_item_def dest: in_set_butlastD)
qed

lemma close_block_view:
  assumes inv: "scan_inv fresh tags_of s" and ne: "ts_output s \<noteq> []" and m: "oi_type (last (ts_output s)) \<noteq> ''message''"
  shows "view (Inr (close_block fresh now ct s)) = view (Inr (close_block fresh now ct (forget s))) \<and>
    scan_inv fresh tags_of (fst (close_block fresh now ct s)) \<and>
    (\<forall>ct'. ct' \<noteq> ct \<longrightarrow> usable ct' (tags_of ct') s \<longrightarrow> usable ct' (tags_of ct') (fst (close_block fresh now ct s)))"
proof -
  let ?it = "last (ts_output s)"
  note resume = block_search [OF inv ne m, of ct]
  have zero: "get_scanned_length it ct t (forget s) = 0" for it t by (simp add: get_scanned_length_def dget_or_def)
  show ?thesis
  proof (cases "find_from (oi_end_tag ?it) (block_text ?it) 0")
    case None
    then have c: "close_block fresh now ct s = (save_scanned_length ?it ct (block_text ?it) s, False)"
      "close_block fresh now ct (forget s) = (save_scanned_length ?it ct (block_text ?it) (forget s), False)"
      unfolding close_block_def Let_def zero using resume by simp_all
    have "nothing_before (tags_of ct) ?it (length (block_text ?it))" using None m by (simp add: nothing_before_def)
    with save_inv [OF inv ne] m show ?thesis unfolding c by (simp add: usable_def)
  next
    case (Some p)
    let ?s1 = "leave_block fresh now ?it (clear_scanned_length ?it ct s)"
    from Some have c: "close_block fresh now ct s = (?s1, True)"
      "close_block fresh now ct (forget s) = (leave_block fresh now ?it (clear_scanned_length ?it ct (forget s)), True)"
      unfolding close_block_def Let_def zero using resume by simp_all
    obtain items item where new: "ts_output ?s1 = items @ [item]" "oi_id item = fresh (ts_ids s)" "oi_id ` set items \<subseteq> oi_id ` set (ts_output s)"
      using leave_block_output [of "clear_scanned_length ?it ct s" ?it fresh now] ne by auto
    have "scan_inv fresh tags_of ?s1 \<and> (\<forall>ct. dget (ts_scanned ?s1) (oi_id (last (ts_output ?s1)), ct) = None)"
      by (rule new_item_inv [OF inv new(1) _ new(3,2)]) (use clear_keys [of ?it ct s] in \<open>simp_all add: scanned_ids_def\<close>)
    then show ?thesis unfolding c by (simp add: usable_def)
  qed
qed

text \<open>One call of the handler: the remembered position makes no difference, and what it leaves is remembered truly.\<close>

definition handler_ok ::
  "(nat \<Rightarrow> string) \<Rightarrow> (string \<Rightarrow> (string \<times> string) list) \<Rightarrow> string \<Rightarrow> tag_state \<Rightarrow> (tag_state \<times> bool) result \<Rightarrow> bool" where
  "handler_ok fresh tags_of ct s r \<longleftrightarrow> (\<forall>s' b. r = Inr (s', b) \<longrightarrow> scan_inv fresh tags_of s' \<and>
     (\<forall>ct'. ct' \<noteq> ct \<longrightarrow> usable ct' (tags_of ct') s \<longrightarrow> usable ct' (tags_of ct') s'))"

lemma handler_view:
  assumes "scan_inv fresh tags_of s" and "usable ct (tags_of ct) s" and usual: "usual_tags (tags_of ct)"
  shows "view (tag_output_handler depth fresh now ct (tags_of ct) s) = view (tag_output_handler depth fresh now ct (tags_of ct) (forget s)) \<and>
    handler_ok fresh tags_of ct s (tag_output_handler depth fresh now ct (tags_of ct) s)"
  using assms(1,2)
proof (induction depth arbitrary: s)
  case (Suc depth)
  note inv = Suc.prems(1)
  let ?h = "tag_output_handler (Suc depth) fresh now ct (tags_of ct)"
  show ?case
  proof (cases "ts_output s = []")
    case ne: False
    let ?it = "last (ts_output s)"
    let ?t = "item_text ?it"
    have zero: "get_scanned_length it ct t (forget s) = 0" for it t by (simp add: get_scanned_length_def dget_or_def)
    show ?thesis
    proof (cases "oi_type ?it = ''message''")
      case m: True
      note found = message_search [OF inv ne m Suc.prems(2) usual refl]
      show ?thesis
      proof (cases "first_tag (tags_of ct) ?t 0")
        case None
        then have h: "?h s = Inr (save_scanned_length ?it ct ?t s, False)" "?h (forget s) = Inr (save_scanned_length ?it ct ?t (forget s), False)"
          using ne m found search_start_zero [OF usual, of ?t] zero by (simp_all add: Let_def)
        have "nothing_before (tags_of ct) ?it (length (block_text ?it))"
          using None m by (simp add: nothing_before_def block_text_message free_of_tags_iff)
        with save_inv [OF inv ne] m have "scan_inv fresh tags_of (save_scanned_length ?it ct ?t s)" by (simp add: block_text_message)
        then show ?thesis unfolding h by (simp add: handler_ok_def usable_def save_other)
      next
        case (Some f)
        obtain tag p a k where f: "f = (tag, p, a, k)" by (cases f) auto
        define opened where "opened r = open_item fresh now ct tag a (drop (p + k) ?t) (keep_before (take p ?t) (clear_scanned_length ?it ct r))" for r
        have h: "?h r = (if drop (p + k) ?t = [] then Inr (opened r, False) else tag_output_handler depth fresh now ct (tags_of ct) (opened r))"
          if "r = s \<or> r = forget s" for r
          using that ne m Some f found search_start_zero [OF usual, of ?t] zero by (auto simp: Let_def opened_def)
        have forgot: "forget (opened s) = opened (forget s)" by (simp add: opened_def)
        obtain item where item: "ts_output (opened s) = ts_output (keep_before (take p ?t) (clear_scanned_length ?it ct s)) @ [item]"
          "oi_id item = fresh (ts_ids s)"
          using open_item_output [of fresh now ct tag a "drop (p + k) ?t" "keep_before (take p ?t) (clear_scanned_length ?it ct s)"]
          by (auto simp: opened_def)
        have "oi_id ` set (ts_output (keep_before (take p ?t) (clear_scanned_length ?it ct s))) \<subseteq> oi_id ` set (ts_output s)"
          using keep_before_ids [of "clear_scanned_length ?it ct s" "take p ?t"] ne by simp
        then have inv1: "scan_inv fresh tags_of (opened s)" and none: "dget (ts_scanned (opened s)) (oi_id (last (ts_output (opened s))), c) = None" for c
          using new_item_inv [OF inv item(1) _ _ item(2)] clear_keys [of ?it ct s] by (simp_all add: opened_def scanned_ids_def)
        then have us: "usable c tags (opened s)" for c tags by (simp add: usable_def)
        show ?thesis
        proof (cases "drop (p + k) ?t = []")
          case True
          with h [of s] h [of "forget s"] show ?thesis using inv1 us by (simp add: handler_ok_def forgot [symmetric] del: tag_output_handler.simps)
        next
          case False
          with h [of s] h [of "forget s"] Suc.IH [OF inv1 us] us show ?thesis
            by (simp add: handler_ok_def forgot [symmetric] del: tag_output_handler.simps)
        qed
      qed
    next
      case m: False
      show ?thesis
      proof (cases "oi_type ?it = ''reasoning'' \<and> ct = ''reasoning'' \<or> oi_type ?it = code_block \<and> ct = ''code_interpreter''")
        case True
        then have "?h r = Inr (close_block fresh now ct r)" if "r = s \<or> r = forget s" for r using that ne m by (auto simp: Let_def)
        with close_block_view [OF inv ne m] show ?thesis
          by (simp add: handler_ok_def del: tag_output_handler.simps) (metis fst_conv)
      next
        case False
        then have "?h r = Inr (r, False)" if "r = s \<or> r = forget s" for r using that ne m by (auto simp: Let_def)
        with inv show ?thesis by (simp add: handler_ok_def del: tag_output_handler.simps)
      qed
    qed
  qed (use Suc.prems in \<open>simp add: handler_ok_def\<close>)
qed (simp add: handler_ok_def)

section \<open>A stream\<close>

text \<open>All chunks, each with its time, until a code block ends; \<open>remember\<close> is whether positions are kept from chunk to chunk.\<close>

fun content_run ::
  "bool \<Rightarrow> nat \<Rightarrow> (nat \<Rightarrow> string) \<Rightarrow> (string \<times> string) list \<Rightarrow> bool \<Rightarrow> bool \<Rightarrow> (int \<times> string) list \<Rightarrow> tag_state \<Rightarrow> tag_state result" where
  "content_run remember depth fresh tags dr dc [] s = Inr s"
| "content_run remember depth fresh tags dr dc ((now, v) # vs) s =
     rbind (content_step depth fresh tags dr dc now v (if remember then s else forget s)) (\<lambda>(s1, stop).
       if stop then Inr s1 else content_run remember depth fresh tags dr dc vs s1)"

definition stream_tags :: "(string \<times> string) list \<Rightarrow> string \<Rightarrow> (string \<times> string) list" where
  "stream_tags reasoning_tags ct =
     (if ct = ''reasoning'' then reasoning_tags else if ct = ''solution'' then solution_tags else code_interpreter_tags)"

abbreviation content_types :: "string set" where
  "content_types \<equiv> {''reasoning'', ''solution'', ''code_interpreter''}"

text \<open>Every text that is searched has plain attributes in its tags.\<close>

fun plain_run ::
  "nat \<Rightarrow> (nat \<Rightarrow> string) \<Rightarrow> (string \<times> string) list \<Rightarrow> bool \<Rightarrow> bool \<Rightarrow> (int \<times> string) list \<Rightarrow> tag_state \<Rightarrow> bool" where
  "plain_run depth fresh tags dr dc [] s \<longleftrightarrow> True"
| "plain_run depth fresh tags dr dc ((now, v) # vs) s \<longleftrightarrow>
     (let t = item_text (last (ts_output (append_value fresh v (end_reasoning_content fresh now s))))
      in plain_attributes tags t \<and> plain_attributes solution_tags t \<and> plain_attributes code_interpreter_tags t) \<and>
     (case content_step depth fresh tags dr dc now v (forget s) of
        Inl e \<Rightarrow> True | Inr (s1, stop) \<Rightarrow> stop \<or> plain_run depth fresh tags dr dc vs s1)"

lemma usual_fixed_tags: "usual_tags solution_tags" "usual_tags code_interpreter_tags"
  by (simp_all add: usual_tags_def solution_tags_def code_interpreter_tags_def angled_def)

lemma add_text_simps [simp]: "oi_id (add_text v it) = oi_id it" "oi_type (add_text v it) = oi_type it"
    "oi_end_tag (add_text v it) = oi_end_tag it" "item_text (add_text v it) = item_text it @ v"
  by (simp_all add: add_text_def set_text_def item_text_def)

lemma grow_last_inv:
  assumes inv: "scan_inv fresh tags_of s" and ne: "ts_output s \<noteq> []" and same: "oi_id it = oi_id (last (ts_output s))"
    "oi_type it = oi_type (last (ts_output s))" "oi_end_tag it = oi_end_tag (last (ts_output s))"
    and grows: "block_text it = block_text (last (ts_output s)) @ v"
  shows "scan_inv fresh tags_of (set_last it s)"
proof -
  have "nothing_before tags it n" if "nothing_before tags (last (ts_output s)) n" for tags n
    using that same grows by (simp add: nothing_before_def)
  moreover have "old_id fresh (ts_ids s) (oi_id x)" if "x \<in> set (butlast (ts_output s) @ [it])" for x
    using that inv ne same(1) by (auto simp: scan_inv_def dest: in_set_butlastD)
  ultimately show ?thesis using inv ne same(1) by (auto simp: scan_inv_def set_last_def scanned_ids_def)
qed

lemma new_message_inv:
  assumes "scan_inv fresh tags_of s" "oi_id ` set items \<subseteq> oi_id ` set (ts_output s)"
  shows "scan_inv fresh tags_of (s\<lparr>ts_output := items @ [new_message (fresh (ts_ids s)) []], ts_ids := Suc (ts_ids s)\<rparr>)"
  using new_item_inv [OF assms(1) _ _ assms(2), of _ "new_message (fresh (ts_ids s)) []"]
  by (simp add: new_message_def new_item_def scanned_ids_def)

lemma end_reasoning_inv: "scan_inv fresh tags_of s \<Longrightarrow> scan_inv fresh tags_of (end_reasoning_content fresh now s)"
proof -
  assume inv: "scan_inv fresh tags_of s"
  have "scan_inv fresh tags_of (s\<lparr>ts_output := (butlast (ts_output s) @ [it]) @ [new_message (fresh (ts_ids s)) []], ts_ids := Suc (ts_ids s)\<rparr>)"
    if "ts_output s \<noteq> []" "oi_id it = oi_id (last (ts_output s))" for it
    using that by (intro new_message_inv [OF inv]) (auto dest: in_set_butlastD)
  with inv show ?thesis by (simp add: end_reasoning_content_def Let_def)
qed

lemma append_inv: "scan_inv fresh tags_of s \<Longrightarrow> scan_inv fresh tags_of (append_value fresh v s)"
proof -
  assume inv: "scan_inv fresh tags_of s"
  have grow: "scan_inv fresh tags_of (set_last (add_text v (last (ts_output r))) r)"
    if "scan_inv fresh tags_of r" "ts_output r \<noteq> []" "oi_type (last (ts_output r)) \<noteq> code_block" for r
    using that by (intro grow_last_inv [where v = v]) (simp_all add: block_text_def)
  have code: "scan_inv fresh tags_of (set_last (it\<lparr>oi_code := oi_code it @ v\<rparr>) s)"
    if "ts_output s \<noteq> []" "it = last (ts_output s)" "oi_type it = code_block" for it
    using that inv by (intro grow_last_inv [where v = v]) (simp_all add: block_text_def)
  define s1 where "s1 = (if ts_output s = [] \<or> oi_type (last (ts_output s)) \<noteq> ''message''
      then s\<lparr>ts_output := ts_output s @ [new_message (fresh (ts_ids s)) []], ts_ids := Suc (ts_ids s)\<rparr> else s)"
  have "scan_inv fresh tags_of s1" "ts_output s1 \<noteq> []" "oi_type (last (ts_output s1)) = ''message''"
    using inv new_message_inv [OF inv, of "ts_output s"] by (auto simp: s1_def new_message_def new_item_def)
  with grow [of s1] have "scan_inv fresh tags_of (set_last (add_text v (last (ts_output s1))) s1)" by simp
  with grow [OF inv] code show ?thesis
    unfolding append_value_def Let_def s1_def [symmetric] by (auto simp: inside_tag_block_def)
qed

lemma forget_append: "forget (append_value fresh v s) = append_value fresh v (forget s)"
    "forget (end_reasoning_content fresh now s) = end_reasoning_content fresh now (forget s)"
  by (simp_all add: append_value_def end_reasoning_content_def set_last_def forget_def Let_def)

lemma forget_inv: "scan_inv fresh tags_of s \<Longrightarrow> scan_inv fresh tags_of (forget s)"
  by (simp add: scan_inv_def scanned_ids_def)

text \<open>Two states that differ in what they remember only, and truly so, with usable positions for the content types in \<open>C\<close>.\<close>

definition same_view ::
  "(nat \<Rightarrow> string) \<Rightarrow> (string \<Rightarrow> (string \<times> string) list) \<Rightarrow> string set \<Rightarrow> tag_state \<Rightarrow> tag_state \<Rightarrow> bool" where
  "same_view fresh tags_of C s s' \<longleftrightarrow> scan_inv fresh tags_of s \<and> scan_inv fresh tags_of s' \<and> forget s = forget s' \<and>
     (\<forall>ct \<in> C. usable ct (tags_of ct) s \<and> usable ct (tags_of ct) s')"

definition same_result ::
  "(tag_state \<Rightarrow> tag_state \<Rightarrow> bool) \<Rightarrow> (tag_state \<times> bool) result \<Rightarrow> (tag_state \<times> bool) result \<Rightarrow> bool" where
  "same_result R r r' \<longleftrightarrow>
     (case (r, r') of (Inr (s, b), Inr (s', b')) \<Rightarrow> b = b' \<and> R s s' | (Inl e, Inl e') \<Rightarrow> e = e' | _ \<Rightarrow> False)"

lemma same_result_cases:
  assumes "same_result R r r'"
  obtains (error) e where "r = Inl e" "r' = Inl e" | (result) x b x' where "r = Inr (x, b)" "r' = Inr (x', b)" "R x x'"
  using assms by (cases r; cases r') (auto simp: same_result_def)

lemma handler_same:
  assumes "same_view fresh tags_of (insert ct C) s s'" "ct \<notin> C" "usual_tags (tags_of ct)"
  shows "same_result (same_view fresh tags_of C) (tag_output_handler depth fresh now ct (tags_of ct) s)
    (tag_output_handler depth fresh now ct (tags_of ct) s')"
proof -
  let ?h = "tag_output_handler depth fresh now ct (tags_of ct)"
  have v: "view (?h s) = view (?h s')" and ok: "handler_ok fresh tags_of ct s (?h s)" "handler_ok fresh tags_of ct s' (?h s')"
    using assms(1) handler_view [of fresh tags_of s ct, OF _ _ assms(3), of depth now] handler_view [of fresh tags_of s' ct, OF _ _ assms(3), of depth now]
    by (simp_all add: same_view_def)
  have "usable c (tags_of c) s \<and> usable c (tags_of c) s' \<and> c \<noteq> ct" if "c \<in> C" for c using that assms(1,2) by (auto simp: same_view_def)
  with v ok show ?thesis
    by (auto simp: same_result_def view_def handler_ok_def same_view_def split: sum.splits prod.splits)
qed

lemma step_same:
  assumes same: "same_view fresh (stream_tags tags) {} s s'" and usual: "usual_tags tags"
    and plain: "let t = item_text (last (ts_output (append_value fresh v (end_reasoning_content fresh now s))))
      in plain_attributes tags t \<and> plain_attributes solution_tags t \<and> plain_attributes code_interpreter_tags t"
  shows "same_result (same_view fresh (stream_tags tags) {}) (content_step depth fresh tags dr dc now v s) (content_step depth fresh tags dr dc now v s')"
proof -
  let ?T = "stream_tags tags" and ?a = "\<lambda>s. append_value fresh v (end_reasoning_content fresh now s)"
  let ?r = "\<lambda>s. tag_output_handler depth fresh now ''reasoning'' tags s"
  let ?u = "\<lambda>s. tag_output_handler depth fresh now ''solution'' solution_tags s"
  let ?c = "\<lambda>s. tag_output_handler depth fresh now ''code_interpreter'' code_interpreter_tags s"
  have T: "?T ''reasoning'' = tags" "?T ''solution'' = solution_tags" "?T ''code_interpreter'' = code_interpreter_tags"
    by (simp_all add: stream_tags_def)
  have fa: "forget (?a s) = forget (?a s')" using same by (simp add: same_view_def forget_append)
  then have "ts_output (?a s) = ts_output (?a s')" by (metis forget_simps(1))
  then have s0: "same_view fresh ?T content_types (?a s) (?a s')"
    using same plain fa by (auto simp: same_view_def append_inv end_reasoning_inv usable_def T Let_def)
  have r: "same_result (same_view fresh ?T {''solution'', ''code_interpreter''}) (?r x) (?r x')" if "same_view fresh ?T content_types x x'" for x x'
    using handler_same [of fresh ?T "''reasoning''" "{''solution'', ''code_interpreter''}"] that usual by (simp add: T)
  have u: "same_result (same_view fresh ?T {''code_interpreter''}) (?u x) (?u x')" if "same_view fresh ?T {''solution'', ''code_interpreter''} x x'" for x x'
    using handler_same [of fresh ?T "''solution''" "{''code_interpreter''}"] that usual_fixed_tags by (simp add: T)
  have c: "same_result (same_view fresh ?T {}) (?c x) (?c x')" if "same_view fresh ?T {''code_interpreter''} x x'" for x x'
    using handler_same [of fresh ?T "''code_interpreter''" "{}"] that usual_fixed_tags by (simp add: T)
  have fewer: "same_view fresh ?T C x x'" if "same_view fresh ?T D x x'" "C \<subseteq> D" for C D x x'
    using that by (auto simp: same_view_def)
  let ?f = "\<lambda>x. if dr then rbind (?r x) (\<lambda>(s1, _). rbind (?u s1) (\<lambda>(s2, _). Inr s2)) else Inr x"
  have first: "(\<exists>e. ?f (?a s) = Inl e \<and> ?f (?a s') = Inl e) \<or>
     (\<exists>x x'. ?f (?a s) = Inr x \<and> ?f (?a s') = Inr x' \<and> same_view fresh ?T {''code_interpreter''} x x')"
  proof (cases dr)
    case True
    show ?thesis
    proof (cases rule: same_result_cases [OF r [OF s0]])
      case (2 x b x')
      show ?thesis by (cases rule: same_result_cases [OF u [OF 2(3)]]) (simp_all add: True 2)
    qed (simp add: True)
  qed (use s0 fewer in auto)
  have step: "content_step depth fresh tags dr dc now v x = rbind (?f (?a x)) (\<lambda>s3. if dc then ?c s3 else Inr (s3, False))" for x
    by (simp add: content_step_def Let_def)
  from first show ?thesis
  proof (elim disjE exE conjE)
    fix e assume "?f (?a s) = Inl e" "?f (?a s') = Inl e"
    then show ?thesis unfolding step by (simp add: same_result_def)
  next
    fix x x' assume f: "?f (?a s) = Inr x" "?f (?a s') = Inr x'" and sv: "same_view fresh ?T {''code_interpreter''} x x'"
    from c [OF sv] fewer [OF sv, of "{}"] show ?thesis unfolding step f by (auto simp: same_result_def)
  qed
qed

text \<open>C25. Remembering how far a text has been searched is sound: with start tags that are not empty and hold no angle bracket or
  line break between theirs, and in streams whose tags have no opening angle bracket and no line break in their attributes, the
  items assembled are those that a search of the whole text after every chunk gives.\<close>

theorem remembered_positions_sound:
  assumes "inj fresh" and "usual_tags tags" and "plain_run depth fresh tags dr dc vs s0"
    and "s0 = \<lparr>ts_output = [], ts_scanned = [], ts_ids = 0\<rparr>"
  shows "(case content_run True depth fresh tags dr dc vs s0 of Inl e \<Rightarrow> Inl e | Inr s \<Rightarrow> Inr (ts_output s)) =
    (case content_run False depth fresh tags dr dc vs s0 of Inl e \<Rightarrow> Inl e | Inr s \<Rightarrow> Inr (ts_output s))"
proof -
  have "(case content_run True depth fresh tags dr dc vs s of Inl e \<Rightarrow> Inl e | Inr s \<Rightarrow> Inr (ts_output s)) =
      (case content_run False depth fresh tags dr dc vs s' of Inl e \<Rightarrow> Inl e | Inr s \<Rightarrow> Inr (ts_output s))"
    if "same_view fresh (stream_tags tags) {} s s'" "plain_run depth fresh tags dr dc vs s'" for s s'
    using that
  proof (induction vs arbitrary: s s')
    case Nil
    then have "forget s = forget s'" by (simp add: same_view_def)
    then show ?case by simp (metis forget_simps(1))
  next
    case (Cons nv vs)
    obtain now v where nv: "nv = (now, v)" by (cases nv)
    have same: "same_view fresh (stream_tags tags) {} s (forget s')" using Cons.prems(1) forget_inv by (simp add: same_view_def)
    have "ts_output (append_value fresh v (end_reasoning_content fresh now s)) = ts_output (append_value fresh v (end_reasoning_content fresh now s'))"
      using Cons.prems(1) by (metis forget_append forget_simps(1) same_view_def)
    with Cons.prems(2) nv have "let t = item_text (last (ts_output (append_value fresh v (end_reasoning_content fresh now s))))
      in plain_attributes tags t \<and> plain_attributes solution_tags t \<and> plain_attributes code_interpreter_tags t" by (simp add: Let_def)
    note step = step_same [OF same assms(2) this, of depth dr dc]
    show ?case
    proof (cases rule: same_result_cases [OF step])
      case (2 x b x')
      have "forget x = forget x'" using 2(3) by (simp add: same_view_def)
      then have "ts_output x = ts_output x'" by (metis forget_simps(1))
      with 2 Cons.IH [OF 2(3)] Cons.prems(2) nv show ?thesis by (cases b) simp_all
    qed (simp add: nv)
  qed
  moreover have "same_view fresh (stream_tags tags) {} s0 s0" using assms(1,4) by (simp add: same_view_def scan_inv_def scanned_ids_def)
  ultimately show ?thesis using assms(3) by blast
qed

lemma plain_attributes_code [code]:
  "plain_attributes tags t \<longleftrightarrow>
     list_all (\<lambda>tag. list_all (\<lambda>p. case match_at (fst tag) (drop p t) of None \<Rightarrow> True
       | Some (a, k) \<Rightarrow> CHR ''<'' \<notin> set a \<and> CHR 0x0A \<notin> set a) [0..<Suc (length t)]) tags"
proof -
  have "(\<forall>p a k. match_at tag (drop p t) = Some (a, k) \<longrightarrow> Q a) \<longleftrightarrow>
      (\<forall>p < Suc (length t). case match_at tag (drop p t) of None \<Rightarrow> True | Some (a, k) \<Rightarrow> Q a)" for tag Q
  proof (intro iffI allI impI)
    fix p a k assume all: "\<forall>p < Suc (length t). case match_at tag (drop p t) of None \<Rightarrow> True | Some (a, k) \<Rightarrow> Q a"
      and m: "match_at tag (drop p t) = Some (a, k)"
    have "drop (min p (length t)) t = drop p t" by (cases "p \<le> length t") (simp_all add: min_def)
    with all [rule_format, of "min p (length t)"] m show "Q a" by simp
  qed (auto split: option.split)
  then show ?thesis by (simp add: plain_attributes_def list_all_iff atLeast0LessThan lessThan_def Ball_def del: upt_Suc)
qed

definition think :: "(string \<times> string) list" where
  "think = [(''<think>'', ''</think>'')]"

definition sample_ids :: "nat \<Rightarrow> string" where
  "sample_ids n = replicate (Suc n) CHR ''i''"

definition sample_chunks :: "(int \<times> string) list" where
  "sample_chunks = [(1, ''<thi''), (2, ''nk>ok</th''), (5, ''ink> bye'')]"

definition no_items :: tag_state where
  "no_items = \<lparr>ts_output = [], ts_scanned = [], ts_ids = 0\<rparr>"

lemma remembered_positions_sound_witness:
  "\<exists>s. content_run True 9 sample_ids think True False sample_chunks no_items = Inr s \<and>
     map (\<lambda>it. (oi_type it, block_text it)) (ts_output s) = [(''reasoning'', ''ok''), (''message'', ''bye'')] \<and>
     (\<exists>s'. content_run False 9 sample_ids think True False sample_chunks no_items = Inr s' \<and> ts_output s' = ts_output s)"
proof -
  have "inj sample_ids" by (auto simp: inj_on_def sample_ids_def replicate_eq_replicate)
  moreover have "usual_tags think" by (simp add: usual_tags_def think_def angled_def)
  moreover have "plain_run 9 sample_ids think True False sample_chunks no_items" by code_simp
  ultimately have same: "(case content_run True 9 sample_ids think True False sample_chunks no_items of Inl e \<Rightarrow> Inl e | Inr s \<Rightarrow> Inr (ts_output s)) =
    (case content_run False 9 sample_ids think True False sample_chunks no_items of Inl e \<Rightarrow> Inl e | Inr s \<Rightarrow> Inr (ts_output s))"
    by (rule remembered_positions_sound) (simp add: no_items_def)
  have "case content_run True 9 sample_ids think True False sample_chunks no_items of Inl e \<Rightarrow> False | Inr s \<Rightarrow>
      map (\<lambda>it. (oi_type it, block_text it)) (ts_output s) = [(''reasoning'', ''ok''), (''message'', ''bye'')]" by code_simp
  with same show ?thesis by (auto split: sum.splits)
qed

text \<open>The condition is needed: with a line break before the attributes a tag that arrives in two chunks is missed.\<close>

lemma line_break_in_tag:
  "(case content_run True 9 sample_ids think True False [(1, ''<think'' @ [CHR 0x0A] @ ''effort=''), (2, ''high>ok'')] no_items of
      Inl e \<Rightarrow> [] | Inr s \<Rightarrow> map oi_type (ts_output s)) = [''message'']"
  "(case content_run False 9 sample_ids think True False [(1, ''<think'' @ [CHR 0x0A] @ ''effort=''), (2, ''high>ok'')] no_items of
      Inl e \<Rightarrow> [] | Inr s \<Rightarrow> map oi_type (ts_output s)) = [''reasoning'']"
  by code_simp+

text \<open>The chunk that holds an end tag loses the blanks at its end: two words run together.\<close>

lemma blank_after_block_lost:
  "(case content_run True 9 sample_ids think True False [(1, ''<think>a</think> one ''), (2, ''two'')] no_items of
      Inl e \<Rightarrow> [] | Inr s \<Rightarrow> map block_text (ts_output s)) = [''a'', ''onetwo'']"
  by code_simp

text \<open>The end tag of a solution is never recognised: the message a solution tag opened keeps its text, end tag included, and
  stays open for all content that follows.\<close>

theorem solution_never_ends:
  assumes "ts_output s \<noteq> []" and "it = last (ts_output s)" and "oi_type it = ''message''" and "oi_tag_type it = Some ''solution''"
    and "free_of_tags solution_tags (item_text it)"
  shows "\<exists>s'. tag_output_handler (Suc depth) fresh now ''solution'' solution_tags s = Inr (s', False) \<and> ts_output s' = ts_output s \<and>
    (oi_status it = ''in_progress'' \<and> dget (oi_attributes it) ''type'' \<noteq> Some ''reasoning_content'' \<longrightarrow> inside_tag_block (last (ts_output s')))"
proof -
  have "search_tag (fst tag) t n = None" if "free_of_tags [tag] t" for tag t n
    using that find_upt_None [of "\<lambda>p. match_at (fst tag) (drop p t) \<noteq> None" n "Suc (length t)"]
    by (auto simp: search_tag_def free_of_tags_def)
  from this [of "hd solution_tags" "item_text it"] have "search_tag ''<|begin_of_solution|>'' (item_text it) n = None" for n
    using assms(5) by (simp add: solution_tags_def)
  then have "first_tag solution_tags (item_text it) n = None" for n by (simp add: solution_tags_def)
  with assms show ?thesis by (simp add: Let_def inside_tag_block_def)
qed

lemma solution_never_ends_witness:
  "\<exists>s'. tag_output_handler 3 sample_ids 1 ''solution'' solution_tags
     \<lparr>ts_output = [(new_message ''m'' ''x<|end_of_solution|>'')\<lparr>oi_tag_type := Some ''solution''\<rparr>], ts_scanned = [], ts_ids = 0\<rparr> =
     Inr (s', False) \<and> map item_text (ts_output s') = [''x<|end_of_solution|>'']"
proof -
  have "free_of_tags solution_tags ''x<|end_of_solution|>''" unfolding free_of_tags_iff [symmetric] by code_simp
  with solution_never_ends [of "\<lparr>ts_output = [(new_message ''m'' ''x<|end_of_solution|>'')\<lparr>oi_tag_type := Some ''solution''\<rparr>], ts_scanned = [], ts_ids = 0\<rparr>"
      _ 2 sample_ids 1, OF _ refl]
  show ?thesis by (fastforce simp: new_message_def new_item_def item_text_def numeral_3_eq_3 simp del: tag_output_handler.simps)
qed

end
