(* ===== verification/Usage.thy ===== *)
theory Usage
  imports PyText
begin

text \<open>
  Usage statistics, the first half of \<open>backend/open_webui/utils/response.py\<close>: the counters under the names of several providers are
  normalised, and the usages of several calls are added up. Numbers are integers: costs, which are floats, are not modelled. A usage
  arrives as a dictionary of values of unknown shape.
\<close>

section \<open>Numbers\<close>

text \<open>\<open>int(s)\<close>: digits, in groups separated by single underscores, with a sign.\<close>

definition digit_groups :: "string \<Rightarrow> nat option" where
  "digit_groups s =
     (if list_all (\<lambda>g. g \<noteq> [] \<and> list_all (\<lambda>c. 48 \<le> code c \<and> code c \<le> 57) g) (py_split CHR ''_'' s)
      then Some (foldl (\<lambda>n c. 10 * n + (code c - 48)) 0 (filter (\<lambda>c. c \<noteq> CHR ''_'') s)) else None)"

definition int_of_text :: "string \<Rightarrow> int result" where
  "int_of_text s =
     (let t = py_strip s
      in case (case t of [] \<Rightarrow> None
               | c # cs \<Rightarrow> if c = CHR ''-'' then map_option (\<lambda>n. - int n) (digit_groups cs)
                           else if c = CHR ''+'' then map_option int (digit_groups cs) else map_option int (digit_groups t)) of
           None \<Rightarrow> Inl (ValueError ''invalid literal'') | Some i \<Rightarrow> Inr i)"

fun py_int :: "pyval \<Rightarrow> int result" where
  "py_int (VInt i) = Inr i"
| "py_int (VBool b) = Inr (of_bool b)"
| "py_int (VStr s) = int_of_text s"
| "py_int _ = Inl TypeError"

fun py_add :: "pyval \<Rightarrow> pyval \<Rightarrow> pyval result" where
  "py_add (VStr a) (VStr b) = Inr (VStr (a @ b))"
| "py_add (VList a) (VList b) = Inr (VList (a @ b))"
| "py_add a b = rbind (py_number a) (\<lambda>i. rbind (py_number b) (\<lambda>j. Inr (VInt (i + j))))"

section \<open>Normalising\<close>

definition first_counter :: "dict \<Rightarrow> string list \<Rightarrow> pyval" where
  "first_counter u ks = foldr (\<lambda>k v. py_or (vget u k) v) ks (VInt 0)"

definition input_keys :: "string list" where
  "input_keys = [''input_tokens'', ''prompt_tokens'', ''prompt_eval_count'', ''prompt_n'']"

definition output_keys :: "string list" where
  "output_keys = [''output_tokens'', ''completion_tokens'', ''eval_count'', ''predicted_n'']"

definition normalize_usage :: "dict \<Rightarrow> dict result" where
  "normalize_usage usage =
     (if usage = [] then Inr []
      else let input = first_counter usage input_keys; output = first_counter usage output_keys
      in rbind (if truthy (vget usage ''total_tokens'') then Inr (vget usage ''total_tokens'') else py_add input output) (\<lambda>total_v.
         rbind (py_int input) (\<lambda>i. rbind (py_int output) (\<lambda>j. rbind (py_int total_v) (\<lambda>t.
           Inr (dset (dset (dset usage ''input_tokens'' (VInt i)) ''output_tokens'' (VInt j)) ''total_tokens'' (VInt t)))))))"

section \<open>Merging\<close>

definition summable_keys :: "string list" where
  "summable_keys = [''input_tokens'', ''output_tokens'', ''total_tokens'', ''cost'', ''total_cost'', ''input_cost'', ''output_cost'',
     ''prompt_cost'', ''completion_cost'']"

definition detail_keys :: "string list" where
  "detail_keys = [''prompt_tokens_details'', ''completion_tokens_details'', ''input_tokens_details'', ''output_tokens_details'']"

fun is_numeric_usage_value :: "pyval \<Rightarrow> bool" where
  "is_numeric_usage_value (VInt i) = True"
| "is_numeric_usage_value _ = False"

fun numeric_or_zero :: "pyval \<Rightarrow> int" where
  "numeric_or_zero (VInt i) = i"
| "numeric_or_zero _ = 0"

fun dict_value :: "pyval \<Rightarrow> dict" where
  "dict_value (VDict d) = d"
| "dict_value _ = []"

lemma dget_size: "dget d k = Some v \<Longrightarrow> size v < Suc (size_list (size_prod (\<lambda>_. 0) size) d)"
  by (induction d) (auto split: if_splits)

lemma dict_value_size: "size_list (size_prod (\<lambda>_. 0) size) (dict_value v) \<le> size v"
  by (cases v) auto

text \<open>Every key of either: dictionaries are merged, numbers added; other values are the incoming ones.\<close>

function merge_numeric_usage_map :: "dict \<Rightarrow> dict \<Rightarrow> dict" where
  "merge_numeric_usage_map current incoming =
     map (\<lambda>(k, v). (k,
         let a = dget_or current k (VInt 0); b = dget_or incoming k (VInt 0)
         in if is_dict a \<or> is_dict b then VDict (merge_numeric_usage_map (dict_value a) (dict_value b))
            else if is_numeric_usage_value a \<or> is_numeric_usage_value b then VInt (numeric_or_zero a + numeric_or_zero b)
            else v))
       (dmerge current incoming)"
  by pat_completeness auto

termination
proof (relation "measure (\<lambda>(c, i). size_list (size_prod (\<lambda>_. 0) size) c + size_list (size_prod (\<lambda>_. 0) size) i)", goal_cases)
  case (2 current incoming x k v a b)
  have le: "size_list (size_prod (\<lambda>_. 0) size) (dict_value (dget_or d k (VInt 0))) \<le> size_list (size_prod (\<lambda>_. 0) size) d" for d
    using dget_size [of d k] dict_value_size [of "dget_or d k (VInt 0)"] by (auto simp: dget_or_def split: option.splits)
  have "size_list (size_prod (\<lambda>_. 0) size) (dict_value (dget_or d k (VInt 0))) < size_list (size_prod (\<lambda>_. 0) size) d"
    if "is_dict (dget_or d k (VInt 0))" for d
    using that dget_size [of d k] by (cases "dget_or d k (VInt 0)") (auto simp: dget_or_def split: option.splits)
  with 2 le [of current] le [of incoming] show ?case by (auto intro: add_less_le_mono add_le_less_mono)
qed simp

declare merge_numeric_usage_map.simps [simp del]

definition sum_key :: "dict \<Rightarrow> dict \<Rightarrow> string \<Rightarrow> dict \<Rightarrow> dict" where
  "sum_key current incoming k result =
     (let a = dget_or current k (VInt 0); b = dget_or incoming k (VInt 0)
      in if (k \<in> fst ` set current \<or> k \<in> fst ` set incoming) \<and> (is_numeric_usage_value a \<or> is_numeric_usage_value b)
         then dset result k (VInt (numeric_or_zero a + numeric_or_zero b)) else result)"

definition merge_key :: "dict \<Rightarrow> dict \<Rightarrow> string \<Rightarrow> dict \<Rightarrow> dict" where
  "merge_key current incoming k result =
     (if is_dict (vget current k) \<or> is_dict (vget incoming k)
      then dset result k (VDict (merge_numeric_usage_map (dict_value (vget current k)) (dict_value (vget incoming k)))) else result)"

definition merge_usage :: "dict \<Rightarrow> dict \<Rightarrow> dict result" where
  "merge_usage current incoming =
     rbind (normalize_usage current) (\<lambda>c. rbind (normalize_usage incoming) (\<lambda>i.
       if i = [] then Inr c else if c = [] then Inr i
       else let r1 = fold (sum_key c i) summable_keys (dmerge c i);
                r2 = fold (merge_key c i) detail_keys r1;
                r3 = dset r2 ''prompt_tokens'' (py_or (vget i ''prompt_tokens'') (py_or (vget i ''input_tokens'') (dget_or c ''prompt_tokens'' (VInt 0))))
            in Inr (dset r3 ''completion_tokens''
                 (py_or (vget i ''completion_tokens'') (py_or (vget i ''output_tokens'') (dget_or c ''completion_tokens'' (VInt 0)))))))"

section \<open>The totals add up\<close>

definition token_keys :: "string set" where
  "token_keys = {''input_tokens'', ''output_tokens'', ''total_tokens''}"

definition counter :: "pyval \<Rightarrow> bool" where
  "counter v \<longleftrightarrow> v = VNone \<or> (\<exists>n \<ge> 0. v = VInt n)"

text \<open>A usage in which every counter the code reads is missing, null or a number that is not negative.\<close>

definition usual_usage :: "dict \<Rightarrow> bool" where
  "usual_usage u \<longleftrightarrow> (\<forall>k \<in> set input_keys \<union> set output_keys \<union> {''total_tokens''}. counter (vget u k))"

definition tokens :: "dict \<Rightarrow> string \<Rightarrow> int" where
  "tokens u k = numeric_or_zero (vget u k)"

text \<open>Normalising again changes no count.\<close>

definition settled :: "dict \<Rightarrow> bool" where
  "settled u \<longleftrightarrow> usual_usage u \<and> (\<forall>k \<in> token_keys. is_numeric_usage_value (vget u k)) \<and>
     (tokens u ''input_tokens'' = 0 \<longrightarrow> (\<forall>k \<in> set input_keys. \<not> truthy (vget u k))) \<and>
     (tokens u ''output_tokens'' = 0 \<longrightarrow> (\<forall>k \<in> set output_keys. \<not> truthy (vget u k))) \<and>
     (tokens u ''total_tokens'' = 0 \<longrightarrow> tokens u ''input_tokens'' = 0 \<and> tokens u ''output_tokens'' = 0)"

lemma counter_cases: "counter v \<Longrightarrow> \<exists>n \<ge> 0. numeric_or_zero v = n \<and> (truthy v \<longrightarrow> v = VInt n) \<and> (\<not> truthy v \<longleftrightarrow> n = 0)"
  by (auto simp: counter_def)

lemma first_given_counter:
  assumes "\<forall>k \<in> set ks. counter (vget u k)"
  shows "\<exists>n \<ge> 0. first_counter u ks = VInt n \<and> (n = 0 \<longleftrightarrow> (\<forall>k \<in> set ks. \<not> truthy (vget u k)))"
  using assms
proof (induction ks)
  case (Cons k ks)
  then obtain n where n: "0 \<le> n" "first_counter u ks = VInt n" "n = 0 \<longleftrightarrow> (\<forall>k \<in> set ks. \<not> truthy (vget u k))" by auto
  have "first_counter u (k # ks) = py_or (vget u k) (first_counter u ks)" by (simp add: first_counter_def)
  moreover have "counter (vget u k)" using Cons.prems by simp
  ultimately show ?case using n by (auto simp: counter_def py_or_def)
qed (simp add: first_counter_def)

lemma first_given_hd: "truthy (vget u k) \<Longrightarrow> first_counter u (k # ks) = vget u k"
  by (simp add: first_counter_def py_or_def)

lemma normalize_settled:
  assumes "usual_usage u" "u \<noteq> []"
  shows "\<exists>v. normalize_usage u = Inr v \<and> settled v \<and>
    (settled u \<longrightarrow> (\<forall>k \<in> token_keys. tokens v k = tokens u k)) \<and>
    (\<forall>k. k \<notin> token_keys \<longrightarrow> dget v k = dget u k)"
proof -
  obtain i where i: "0 \<le> i" "first_counter u input_keys = VInt i" "i = 0 \<longleftrightarrow> (\<forall>k \<in> set input_keys. \<not> truthy (vget u k))"
    using first_given_counter [of input_keys u] assms(1) by (auto simp: usual_usage_def)
  obtain j where j: "0 \<le> j" "first_counter u output_keys = VInt j" "j = 0 \<longleftrightarrow> (\<forall>k \<in> set output_keys. \<not> truthy (vget u k))"
    using first_given_counter [of output_keys u] assms(1) by (auto simp: usual_usage_def)
  have c: "counter (vget u ''total_tokens'')" using assms(1) by (simp add: usual_usage_def)
  define t where "t = (if truthy (vget u ''total_tokens'') then numeric_or_zero (vget u ''total_tokens'') else i + j)"
  have t0: "0 \<le> t" "t = 0 \<Longrightarrow> i = 0 \<and> j = 0" using c i(1) j(1) by (auto simp: t_def counter_def split: if_splits)
  let ?v = "dset (dset (dset u ''input_tokens'' (VInt i)) ''output_tokens'' (VInt j)) ''total_tokens'' (VInt t)"
  have n: "normalize_usage u = Inr ?v"
    using assms(2) c by (auto simp: normalize_usage_def i j t_def counter_def)
  have u: "counter (vget u k)" if "k \<in> set input_keys \<union> set output_keys" for k using assms(1) that by (auto simp: usual_usage_def)
  have "settled ?v"
    using i j t0 u by (auto simp: settled_def usual_usage_def token_keys_def tokens_def input_keys_def output_keys_def counter_def)
  moreover have "tokens ?v k = tokens u k" if s: "settled u" and k: "k \<in> token_keys" for k
  proof -
    have hd: "first_counter u (k # ks) = VInt (tokens u k)" if "counter (vget u k)" "tokens u k = 0 \<longrightarrow> (\<forall>k \<in> set (k # ks). \<not> truthy (vget u k))"
      "\<forall>k \<in> set ks. counter (vget u k)" for k ks
    proof (cases "truthy (vget u k)")
      case True
      with that(1) show ?thesis by (auto simp: first_given_hd tokens_def counter_def)
    next
      case False
      with that(1) have z: "tokens u k = 0" by (auto simp: tokens_def counter_def)
      with that first_given_counter [of "k # ks" u] show ?thesis by auto
    qed
    have "i = tokens u ''input_tokens''" "j = tokens u ''output_tokens''"
      using hd [of "''input_tokens''" "tl input_keys"] hd [of "''output_tokens''" "tl output_keys"] i(2) j(2) s u
      by (auto simp: settled_def input_keys_def output_keys_def)
    moreover have "t = tokens u ''total_tokens''" using s c calculation by (auto simp: t_def settled_def tokens_def counter_def split: if_splits)
    ultimately show ?thesis using k by (auto simp: token_keys_def tokens_def)
  qed
  ultimately show ?thesis unfolding n by (auto simp: token_keys_def)
qed

definition sums_at :: "dict \<Rightarrow> dict \<Rightarrow> string \<Rightarrow> bool" where
  "sums_at c i k \<longleftrightarrow> (k \<in> fst ` set c \<or> k \<in> fst ` set i) \<and>
     (is_numeric_usage_value (dget_or c k (VInt 0)) \<or> is_numeric_usage_value (dget_or i k (VInt 0)))"

lemma vget_sums:
  "vget (fold (sum_key c i) ks r) k =
     (if k \<in> set ks \<and> sums_at c i k then VInt (numeric_or_zero (dget_or c k (VInt 0)) + numeric_or_zero (dget_or i k (VInt 0)))
      else vget r k)"
  by (induction ks arbitrary: r) (auto simp: sum_key_def sums_at_def Let_def)

lemma vget_details: "k \<notin> set ks \<Longrightarrow> vget (fold (merge_key c i) ks r) k = vget r k"
  by (induction ks arbitrary: r) (auto simp: merge_key_def)

lemma wf_sums [dict_wf]: "wf_dict r \<Longrightarrow> wf_dict (fold (sum_key c i) ks r)"
  by (induction ks arbitrary: r) (auto simp: sum_key_def Let_def)

lemma wf_details [dict_wf]: "wf_dict r \<Longrightarrow> wf_dict (fold (merge_key c i) ks r)"
  by (induction ks arbitrary: r) (auto simp: merge_key_def)

lemma vget_dmerge: "wf_dict b \<Longrightarrow> vget (dmerge a b) k = (if k \<in> fst ` set b then vget b k else vget a k)"
  using dget_None_iff [of b k] by (auto simp: vget_def dget_dmerge split: option.splits)

lemma wf_normalize: "normalize_usage u = Inr v \<Longrightarrow> wf_dict u \<Longrightarrow> wf_dict v"
  by (auto simp: normalize_usage_def rbind_Inr_iff Let_def split: if_splits)

lemma numeric_at: "is_numeric_usage_value (vget u k) \<Longrightarrow> k \<in> fst ` set u \<and> dget_or u k (VInt 0) = VInt (tokens u k)"
  using dget_None_iff [of u k]
  by (cases "dget u k") (auto simp: vget_def dget_or_def tokens_def elim!: is_numeric_usage_value.elims(2))

definition merged :: "dict \<Rightarrow> dict \<Rightarrow> dict" where
  "merged c i =
     (let r2 = fold (merge_key c i) detail_keys (fold (sum_key c i) summable_keys (dmerge c i));
          r3 = dset r2 ''prompt_tokens'' (py_or (vget i ''prompt_tokens'') (py_or (vget i ''input_tokens'') (dget_or c ''prompt_tokens'' (VInt 0))))
      in dset r3 ''completion_tokens''
           (py_or (vget i ''completion_tokens'') (py_or (vget i ''output_tokens'') (dget_or c ''completion_tokens'' (VInt 0)))))"

lemma token_keys_summable: "k \<in> token_keys \<Longrightarrow> k \<in> set summable_keys \<and> k \<notin> set detail_keys \<and> k \<notin> {''prompt_tokens'', ''completion_tokens''}"
  by (auto simp: token_keys_def summable_keys_def detail_keys_def)

lemma alias_keys_unsummed:
  "k \<in> set input_keys \<union> set output_keys \<Longrightarrow> k \<notin> token_keys \<Longrightarrow> k \<notin> set summable_keys \<and> k \<notin> set detail_keys"
proof -
  have "\<forall>k \<in> set input_keys \<union> set output_keys. k \<in> token_keys \<or> k \<notin> set summable_keys \<and> k \<notin> set detail_keys" by code_simp
  then show "k \<in> set input_keys \<union> set output_keys \<Longrightarrow> k \<notin> token_keys \<Longrightarrow> k \<notin> set summable_keys \<and> k \<notin> set detail_keys" by blast
qed

lemma token_keys_read: "token_keys \<subseteq> set input_keys \<union> set output_keys \<union> {''total_tokens''}"
  by code_simp

lemma merged_tokens:
  assumes "settled c" "settled i" "k \<in> token_keys"
  shows "vget (merged c i) k = VInt (tokens c k + tokens i k)"
proof -
  have "is_numeric_usage_value (vget c k)" "is_numeric_usage_value (vget i k)" using assms by (auto simp: settled_def)
  then have "k \<in> fst ` set c" "dget_or c k (VInt 0) = VInt (tokens c k)" "dget_or i k (VInt 0) = VInt (tokens i k)"
    using numeric_at by blast+
  then show ?thesis using token_keys_summable [OF assms(3)]
    by (simp add: merged_def Let_def vget_details vget_sums sums_at_def)
qed

lemma merged_alias:
  assumes "wf_dict i" "k \<in> set input_keys \<union> set output_keys" "k \<notin> token_keys" "k \<notin> {''prompt_tokens'', ''completion_tokens''}"
  shows "vget (merged c i) k = vget c k \<or> vget (merged c i) k = vget i k"
  using alias_keys_unsummed [OF assms(2, 3)] assms(1, 4)
  by (simp add: merged_def Let_def vget_details vget_sums vget_dmerge)

lemma merged_latest:
  "vget (merged c i) ''prompt_tokens'' = py_or (vget i ''prompt_tokens'') (py_or (vget i ''input_tokens'') (dget_or c ''prompt_tokens'' (VInt 0)))"
  "vget (merged c i) ''completion_tokens'' = py_or (vget i ''completion_tokens'') (py_or (vget i ''output_tokens'') (dget_or c ''completion_tokens'' (VInt 0)))"
  by (simp_all add: merged_def Let_def)

lemma counter_or_default: "counter (vget c k) \<Longrightarrow> counter (dget_or c k (VInt 0)) \<and> (truthy (dget_or c k (VInt 0)) \<longleftrightarrow> truthy (vget c k))"
  by (auto simp: vget_def dget_or_def counter_def split: option.splits)

lemma counter_py_or: "counter a \<Longrightarrow> counter b \<Longrightarrow> counter (py_or a b)"
  by (simp add: py_or_def)

lemma settled_counter:
  assumes "settled u"
  shows "k \<in> set input_keys \<union> set output_keys \<union> {''total_tokens''} \<Longrightarrow> counter (vget u k)"
    and "k \<in> token_keys \<Longrightarrow> 0 \<le> tokens u k"
proof -
  show c: "counter (vget u k)" if "k \<in> set input_keys \<union> set output_keys \<union> {''total_tokens''}" for k
    using that assms unfolding settled_def usual_usage_def by blast
  show "0 \<le> tokens u k" if "k \<in> token_keys"
  proof -
    have "counter (vget u k)" using c that token_keys_read by blast
    then show ?thesis by (auto simp: counter_def tokens_def)
  qed
qed

lemma merged_counter:
  assumes c: "settled c" and i: "settled i" "wf_dict i" and k: "k \<in> set input_keys \<union> set output_keys" "k \<notin> token_keys"
  shows "counter (vget (merged c i) k) \<and> (truthy (vget (merged c i) k) \<longrightarrow>
      (k \<in> set input_keys \<longrightarrow> (\<exists>k' \<in> set input_keys. truthy (vget c k') \<or> truthy (vget i k'))) \<and>
      (k \<in> set output_keys \<longrightarrow> (\<exists>k' \<in> set output_keys. truthy (vget c k') \<or> truthy (vget i k'))))"
proof -
  have in_keys: "''prompt_tokens'' \<in> set input_keys" "''input_tokens'' \<in> set input_keys" "''completion_tokens'' \<in> set output_keys"
    "''output_tokens'' \<in> set output_keys" by code_simp+
  have cnt: "counter (vget u k)" if "settled u" "k \<in> set input_keys \<union> set output_keys" for u k
    using settled_counter that by blast
  consider "k = ''prompt_tokens''" | "k = ''completion_tokens''" | "k \<notin> {''prompt_tokens'', ''completion_tokens''}" by blast
  then show ?thesis
  proof cases
    case 1
    have "k \<notin> set output_keys" unfolding 1 by code_simp
    then show ?thesis unfolding 1 merged_latest truthy_py_or
      using in_keys cnt [OF c, of "''prompt_tokens''"] cnt [OF i(1), of "''prompt_tokens''"] cnt [OF i(1), of "''input_tokens''"]
        counter_or_default [of c "''prompt_tokens''"] 1
      by (blast intro!: counter_py_or)
  next
    case 2
    have "k \<notin> set input_keys" unfolding 2 by code_simp
    then show ?thesis unfolding 2 merged_latest truthy_py_or
      using in_keys cnt [OF c, of "''completion_tokens''"] cnt [OF i(1), of "''completion_tokens''"] cnt [OF i(1), of "''output_tokens''"]
        counter_or_default [of c "''completion_tokens''"] 2
      by (blast intro!: counter_py_or)
  next
    case 3
    then show ?thesis using merged_alias [OF i(2) k] cnt [OF c k(1)] cnt [OF i(1) k(1)] k(1) by metis
  qed
qed

lemma settled_zero:
  "settled u \<Longrightarrow> ks = input_keys \<and> n = ''input_tokens'' \<or> ks = output_keys \<and> n = ''output_tokens'' \<Longrightarrow> tokens u n = 0 \<Longrightarrow>
     \<forall>k \<in> set ks. \<not> truthy (vget u k)"
  unfolding settled_def by metis

lemma merged_falsy:
  assumes c: "settled c" and i: "settled i" "wf_dict i"
    and z: "tokens (merged c i) n = 0" and n: "n \<in> token_keys"
    and p: "ks = input_keys \<and> n = ''input_tokens'' \<or> ks = output_keys \<and> n = ''output_tokens''" and only: "set ks \<inter> token_keys = {n}"
  shows "\<forall>k \<in> set ks. \<not> truthy (vget (merged c i) k)"
proof -
  let ?m = "merged c i"
  have t: "vget ?m k = VInt (tokens c k + tokens i k)" if "k \<in> token_keys" for k using merged_tokens c i(1) that by blast
  then have tok: "tokens ?m k = tokens c k + tokens i k" if "k \<in> token_keys" for k using that by (simp add: tokens_def)
  note nn = settled_counter(2)
  note a = merged_counter [OF c i]
  have "tokens c n = 0" "tokens i n = 0" using z tok [OF n] nn [OF c n] nn [OF i(1) n] by auto
  note zs = settled_zero [OF c p this(1)] settled_zero [OF i(1) p this(2)]
  have "\<not> truthy (vget ?m n)" using t [OF n] z tok [OF n] by simp
  moreover have "\<not> truthy (vget ?m k)" if k: "k \<in> set ks" "k \<noteq> n" for k
  proof -
    have "k \<notin> token_keys" using k only by blast
    moreover have "k \<in> set input_keys \<union> set output_keys" using k(1) p by auto
    ultimately have "truthy (vget ?m k) \<longrightarrow> (\<exists>k' \<in> set ks. truthy (vget c k') \<or> truthy (vget i k'))" using a [of k] k(1) p by auto
    then show ?thesis using zs by auto
  qed
  ultimately show ?thesis by metis
qed

lemma merged_settled:
  assumes c: "settled c" and i: "settled i" "wf_dict i"
  shows "settled (merged c i) \<and> (\<forall>k \<in> token_keys. tokens (merged c i) k = tokens c k + tokens i k)"
proof -
  let ?m = "merged c i"
  have t: "vget ?m k = VInt (tokens c k + tokens i k)" if "k \<in> token_keys" for k using merged_tokens c i(1) that by blast
  note nn = settled_counter(2)
  note a = merged_counter [OF c i]
  have tok: "tokens ?m k = tokens c k + tokens i k" if "k \<in> token_keys" for k using t [OF that] by (simp add: tokens_def)
  have mem: "''input_tokens'' \<in> token_keys" "''output_tokens'' \<in> token_keys" "''total_tokens'' \<in> token_keys" by (simp_all add: token_keys_def)
  have usual: "usual_usage ?m" unfolding usual_usage_def
  proof
    fix k assume k: "k \<in> set input_keys \<union> set output_keys \<union> {''total_tokens''}"
    show "counter (vget ?m k)"
    proof (cases "k \<in> token_keys")
      case True
      then show ?thesis using t nn [OF c] nn [OF i(1)] by (auto simp: counter_def)
    next
      case False
      then show ?thesis using a k mem(3) by blast
    qed
  qed
  note zero = merged_falsy [OF c i]
  have sep: "set input_keys \<inter> token_keys = {''input_tokens''}" "set output_keys \<inter> token_keys = {''output_tokens''}" by code_simp+
  have total: "tokens ?m ''total_tokens'' = 0 \<longrightarrow> tokens ?m ''input_tokens'' = 0 \<and> tokens ?m ''output_tokens'' = 0"
  proof
    assume "tokens ?m ''total_tokens'' = 0"
    then have "tokens c ''total_tokens'' = 0" "tokens i ''total_tokens'' = 0"
      using tok [OF mem(3)] nn [OF c mem(3)] nn [OF i(1) mem(3)] by simp_all
    then have "tokens c ''input_tokens'' = 0 \<and> tokens c ''output_tokens'' = 0" "tokens i ''input_tokens'' = 0 \<and> tokens i ''output_tokens'' = 0"
      using c i(1) by (simp_all add: settled_def)
    then show "tokens ?m ''input_tokens'' = 0 \<and> tokens ?m ''output_tokens'' = 0" using tok [OF mem(1)] tok [OF mem(2)] by simp
  qed
  have "\<forall>k \<in> token_keys. is_numeric_usage_value (vget ?m k)" using t by simp
  then have "settled ?m" unfolding settled_def
    using usual zero [OF _ mem(1) _ sep(1)] zero [OF _ mem(2) _ sep(2)] total by (intro conjI impI) simp_all
  then show ?thesis using tok by simp
qed

lemma merge_usage_eq: "normalize_usage u = Inr i \<Longrightarrow> normalize_usage c = Inr d \<Longrightarrow>
    merge_usage c u = Inr (if i = [] then d else if d = [] then i else merged d i)"
  by (simp add: merge_usage_def merged_def Let_def)

definition empty_or_settled :: "dict \<Rightarrow> bool" where
  "empty_or_settled u \<longleftrightarrow> wf_dict u \<and> (u = [] \<or> settled u)"

definition normal :: "dict \<Rightarrow> dict" where
  "normal u = projr (normalize_usage u)"

lemma normal_usual:
  assumes "usual_usage u" "wf_dict u"
  shows "normalize_usage u = Inr (normal u) \<and> empty_or_settled (normal u)"
proof (cases "u = []")
  case True
  then show ?thesis by (simp add: normal_def normalize_usage_def empty_or_settled_def)
next
  case False
  then obtain v where v: "normalize_usage u = Inr v" "settled v" using normalize_settled [OF assms(1)] by blast
  then show ?thesis using wf_normalize assms(2) by (auto simp: normal_def empty_or_settled_def)
qed

lemma normal_settled: "empty_or_settled u \<Longrightarrow> k \<in> token_keys \<Longrightarrow> tokens (normal u) k = tokens u k"
  using normalize_settled [of u] by (cases "u = []") (auto simp: normal_def normalize_usage_def empty_or_settled_def settled_def)

lemma usual_Nil: "usual_usage []"
  by (simp add: usual_usage_def counter_def)

lemma merge_step:
  assumes "empty_or_settled c" "usual_usage u" "wf_dict u"
  shows "\<exists>v. merge_usage c u = Inr v \<and> empty_or_settled v \<and> (\<forall>k \<in> token_keys. tokens v k = tokens c k + tokens (normal u) k)"
proof -
  have c: "usual_usage c" "wf_dict c" using assms(1) usual_Nil by (auto simp: empty_or_settled_def settled_def)
  note n = normal_usual [OF c] normal_usual [OF assms(2, 3)]
  let ?d = "normal c" and ?i = "normal u"
  define v where "v = (if ?i = [] then ?d else if ?d = [] then ?i else merged ?d ?i)"
  have e: "merge_usage c u = Inr v" unfolding v_def using n merge_usage_eq by blast
  have wf: "wf_dict (merged ?d ?i)" using n by (auto simp: merged_def Let_def empty_or_settled_def intro!: dict_wf)
  have z: "tokens [] k = 0" for k by (simp add: tokens_def)
  have "empty_or_settled v \<and> (\<forall>k \<in> token_keys. tokens v k = tokens ?d k + tokens ?i k)"
    using n merged_settled [of ?d ?i] wf by (auto simp: v_def empty_or_settled_def z)
  then show ?thesis using e normal_settled [OF assms(1)] by auto
qed

fun run_usage :: "dict \<Rightarrow> dict list \<Rightarrow> dict result" where
  "run_usage u [] = Inr u"
| "run_usage u (x # xs) = rbind (merge_usage u x) (\<lambda>v. run_usage v xs)"

lemma run_usage_sums:
  "empty_or_settled c \<Longrightarrow> \<forall>u \<in> set us. usual_usage u \<and> wf_dict u \<Longrightarrow> k \<in> token_keys \<Longrightarrow>
     \<exists>v. run_usage c us = Inr v \<and> tokens v k = tokens c k + (\<Sum>u\<leftarrow>us. tokens (normal u) k)"
proof (induction us arbitrary: c)
  case (Cons u us)
  then obtain v where "merge_usage c u = Inr v" "empty_or_settled v" "\<forall>k \<in> token_keys. tokens v k = tokens c k + tokens (normal u) k"
    using merge_step [of c u] by auto
  with Cons.IH [of v] Cons.prems show ?case by auto
qed simp

text \<open>C26. Over the calls of a conversation the counts add up: where every usage a provider reports has counters that are missing,
  null or not negative, merging them one after the other succeeds and the input, output and total tokens of the result are the sums
  of the counts each report normalises to, whatever aliases, costs and details the reports carry.\<close>
theorem usage_totals_add_up:
  assumes "\<forall>u \<in> set us. usual_usage u \<and> wf_dict u" "k \<in> token_keys"
  shows "\<exists>v. run_usage [] us = Inr v \<and> tokens v k = (\<Sum>u\<leftarrow>us. tokens (normal u) k)"
  using run_usage_sums [of "[]" us k] assms by (simp add: empty_or_settled_def tokens_def)

definition sample_reports :: "dict list" where
  "sample_reports =
     [[(''prompt_tokens'', VInt 7), (''completion_tokens'', VInt 2), (''prompt_tokens_details'', VDict [(''cached_tokens'', VInt 5)])],
      [],
      [(''prompt_eval_count'', VInt 11), (''eval_count'', VInt 3), (''cost'', VInt 1)],
      [(''input_tokens'', VInt 4), (''output_tokens'', VNone), (''total_tokens'', VInt 6)]]"

lemma sample_usual: "\<forall>u \<in> set sample_reports. usual_usage u \<and> wf_dict u"
  by (simp add: sample_reports_def usual_usage_def counter_def input_keys_def output_keys_def wf_dict_def)

lemma usage_totals_add_up_witness:
  "\<exists>v. run_usage [] sample_reports = Inr v \<and> tokens v ''total_tokens'' = 29"
proof -
  have "(\<Sum>u\<leftarrow>sample_reports. tokens (normal u) ''total_tokens'') = 29" by code_simp
  then show ?thesis using usage_totals_add_up [OF sample_usual, of "''total_tokens''"] by (simp add: token_keys_def)
qed

end
