(* ===== verification/OllamaChat.thy ===== *)
theory OllamaChat
  imports Usage
begin

text \<open>
  The conversion of Ollama's answers to the OpenAI format: the \<open>convert_\<close> functions of
  \<open>backend/open_webui/utils/response.py\<close> and the message templates of \<open>utils/misc.py\<close> they fill. The random identifiers are the
  sequence \<open>fresh\<close>, read from a position; \<open>now\<close> is the time; \<open>rate\<close> computes the tokens per second, a rounded float, from a count
  and a duration. A generator is the list of what it yields with the exception that ended it, if one did.
\<close>

section \<open>Templates\<close>

definition openai_chat_message_template :: "string \<Rightarrow> int \<Rightarrow> pyval \<Rightarrow> string option \<Rightarrow> dict" where
  "openai_chat_message_template uuid now model message_id =
     [(''id'', VStr (if given message_id then the message_id else py_str model @ ''-'' @ uuid)), (''created'', VInt now), (''model'', model),
      (''choices'', VList [VDict [(''index'', VInt 0), (''logprobs'', VNone), (''finish_reason'', VNone)]])]"

text \<open>\<open>template['choices'][0]\<close>, edited in place.\<close>

definition edit_choice :: "(dict \<Rightarrow> dict) \<Rightarrow> dict \<Rightarrow> dict" where
  "edit_choice f template = (case vget template ''choices'' of VList (VDict c # cs) \<Rightarrow> dset template ''choices'' (VList (VDict (f c) # cs)) | _ \<Rightarrow> template)"

definition set_if :: "string \<Rightarrow> pyval \<Rightarrow> dict \<Rightarrow> dict" where
  "set_if k v d = (if truthy v then dset d k v else d)"

definition openai_chat_chunk_message_template ::
    "string \<Rightarrow> int \<Rightarrow> pyval \<Rightarrow> pyval \<Rightarrow> pyval \<Rightarrow> pyval \<Rightarrow> dict \<Rightarrow> string option \<Rightarrow> dict" where
  "openai_chat_chunk_message_template uuid now model content reasoning_content tool_calls usage message_id =
     (let template = dset (openai_chat_message_template uuid now model message_id) ''object'' (VStr ''chat.completion.chunk'');
          delta = set_if ''tool_calls'' tool_calls (set_if ''reasoning_content'' reasoning_content (set_if ''content'' content []));
          template = edit_choice (\<lambda>c. dset (dset c ''index'' (VInt 0)) ''delta'' (VDict delta)) template;
          template = (if \<not> truthy content \<and> \<not> truthy reasoning_content \<and> \<not> truthy tool_calls
                      then edit_choice (\<lambda>c. dset c ''finish_reason'' (VStr ''stop'')) template else template)
      in set_if ''usage'' (VDict usage) template)"

definition openai_chat_completion_message_template ::
    "string \<Rightarrow> int \<Rightarrow> pyval \<Rightarrow> pyval \<Rightarrow> pyval \<Rightarrow> pyval \<Rightarrow> dict \<Rightarrow> dict" where
  "openai_chat_completion_message_template uuid now model message reasoning_content tool_calls usage =
     (let template = dset (openai_chat_message_template uuid now model None) ''object'' (VStr ''chat.completion'');
          template = (if message = VNone then template
                      else edit_choice (\<lambda>c. dset c ''message'' (VDict (set_if ''tool_calls'' tool_calls (set_if ''reasoning_content'' reasoning_content
                             [(''role'', VStr ''assistant''), (''content'', message)])))) template);
          template = edit_choice (\<lambda>c. dset c ''finish_reason'' (VStr (if truthy tool_calls then ''tool_calls'' else ''stop''))) template
      in set_if ''usage'' (VDict usage) template)"

section \<open>Tool calls and usage\<close>

definition convert_tool_call :: "string \<Rightarrow> pyval \<Rightarrow> pyval result" where
  "convert_tool_call uuid tool_call =
     rbind (py_get_or tool_call ''function'' (VDict [])) (\<lambda>f.
     rbind (py_get_or f ''index'' (VInt 0)) (\<lambda>fi.
     rbind (py_get_or tool_call ''index'' fi) (\<lambda>i.
     rbind (py_get_or tool_call ''id'' (VStr (''call_'' @ uuid))) (\<lambda>call_id.
     rbind (py_get_or f ''name'' (VStr [])) (\<lambda>name.
     rbind (py_get_or f ''arguments'' (VDict [])) (\<lambda>arguments.
       Inr (VDict [(''index'', i), (''id'', call_id), (''type'', VStr ''function''),
         (''function'', VDict [(''name'', name), (''arguments'', VStr (json_dumps True arguments))])])))))))"

fun convert_ollama_tool_call_to_openai :: "(nat \<Rightarrow> string) \<Rightarrow> nat \<Rightarrow> pyval list \<Rightarrow> pyval list result" where
  "convert_ollama_tool_call_to_openai fresh n [] = Inr []"
| "convert_ollama_tool_call_to_openai fresh n (c # cs) =
     rbind (convert_tool_call (fresh n) c) (\<lambda>v. rbind (convert_ollama_tool_call_to_openai fresh (Suc n) cs) (\<lambda>vs. Inr (v # vs)))"

definition approximate_total :: "int \<Rightarrow> string" where
  "approximate_total s = show_int (s div 3600) @ ''h'' @ show_int ((s mod 3600) div 60) @ ''m'' @ show_int (s mod 60) @ ''s''"

definition rate_or :: "(int \<Rightarrow> int \<Rightarrow> pyval) \<Rightarrow> dict \<Rightarrow> string \<Rightarrow> string \<Rightarrow> pyval result" where
  "rate_or rate data count duration =
     rbind (py_number (dget_or data duration (VInt 0))) (\<lambda>d.
       if d > 0 then rbind (py_number (dget_or data count (VInt 0))) (\<lambda>c. Inr (rate c d)) else Inr (VStr ''N/A''))"

definition convert_ollama_usage_to_openai :: "(int \<Rightarrow> int \<Rightarrow> pyval) \<Rightarrow> dict \<Rightarrow> dict result" where
  "convert_ollama_usage_to_openai rate data =
     (let at = (\<lambda>k. dget_or data k (VInt 0)) in
      rbind (py_int (at ''prompt_eval_count'')) (\<lambda>i.
      rbind (py_int (at ''eval_count'')) (\<lambda>j.
      rbind (rate_or rate data ''eval_count'' ''eval_duration'') (\<lambda>response_rate.
      rbind (rate_or rate data ''prompt_eval_count'' ''prompt_eval_duration'') (\<lambda>prompt_rate.
      rbind (py_number (py_or (at ''total_duration'') (VInt 0))) (\<lambda>t.
        Inr [(''input_tokens'', VInt i), (''output_tokens'', VInt j), (''total_tokens'', VInt (i + j)),
             (''prompt_tokens'', VInt i), (''completion_tokens'', VInt j),
             (''response_token/s'', response_rate), (''prompt_token/s'', prompt_rate),
             (''total_duration'', at ''total_duration''), (''load_duration'', at ''load_duration''),
             (''prompt_eval_count'', at ''prompt_eval_count''), (''prompt_eval_duration'', at ''prompt_eval_duration''),
             (''eval_count'', at ''eval_count''), (''eval_duration'', at ''eval_duration''),
             (''approximate_total'', VStr (approximate_total (t div 1000000000))),
             (''completion_tokens_details'', VDict [(''reasoning_tokens'', VInt 0), (''accepted_prediction_tokens'', VInt 0),
                (''rejected_prediction_tokens'', VInt 0)])]))))))"

section \<open>Whole answers\<close>

definition calls_of :: "(nat \<Rightarrow> string) \<Rightarrow> nat \<Rightarrow> pyval \<Rightarrow> pyval result" where
  "calls_of fresh n tool_calls =
     (if truthy tool_calls
      then rbind (py_iter tool_calls) (\<lambda>cs. rbind (convert_ollama_tool_call_to_openai fresh n cs) (\<lambda>vs. Inr (VList vs)))
      else Inr VNone)"

definition convert_response_ollama_to_openai ::
    "(nat \<Rightarrow> string) \<Rightarrow> nat \<Rightarrow> int \<Rightarrow> (int \<Rightarrow> int \<Rightarrow> pyval) \<Rightarrow> dict \<Rightarrow> dict result" where
  "convert_response_ollama_to_openai fresh n now rate response =
     (let model = dget_or response ''model'' (VStr ''ollama''); message = dget_or response ''message'' (VDict []) in
      rbind (py_get_or message ''content'' (VStr [])) (\<lambda>content.
      rbind (py_get message ''thinking'') (\<lambda>reasoning.
      rbind (py_get message ''tool_calls'') (\<lambda>tool_calls.
      rbind (calls_of fresh (Suc n) tool_calls) (\<lambda>calls.
      rbind (convert_ollama_usage_to_openai rate response) (\<lambda>usage.
        Inr (openai_chat_completion_message_template (fresh n) now model content reasoning calls usage)))))))"

section \<open>Streams\<close>

datatype line = Chunk dict | Done

definition line_text :: "(pyval \<Rightarrow> string) \<Rightarrow> line \<Rightarrow> string" where
  "line_text dumps l = ''data: '' @ (case l of Chunk d \<Rightarrow> dumps (VDict d) | Done \<Rightarrow> ''[DONE]'') @ [char_of (10::nat), char_of (10::nat)]"

text \<open>One round of the loop: the chunk it yields, whether it carries tool calls and how many identifiers it drew.\<close>

record stream_state =
  st_calls :: bool
  st_first :: bool
  st_next :: nat

definition stream_chunk ::
    "(nat \<Rightarrow> string) \<Rightarrow> string \<Rightarrow> int \<Rightarrow> (int \<Rightarrow> int \<Rightarrow> pyval) \<Rightarrow> pyval \<Rightarrow> stream_state \<Rightarrow> (dict \<times> stream_state) result" where
  "stream_chunk fresh completion_id now rate data s =
     rbind (py_get_or data ''model'' (VStr ''ollama'')) (\<lambda>model.
     rbind (py_get data ''message'') (\<lambda>m. let message = py_or m (VDict []) in
     rbind (py_get message ''content'') (\<lambda>content.
     rbind (py_get message ''thinking'') (\<lambda>reasoning.
     rbind (py_get message ''tool_calls'') (\<lambda>tool_calls.
     rbind (calls_of fresh (st_next s) tool_calls) (\<lambda>calls.
     rbind (py_get_or data ''done'' (VBool False)) (\<lambda>done_flag.
     rbind (if truthy done_flag then convert_ollama_usage_to_openai rate (dict_value data) else Inr []) (\<lambda>usage.
       let has_tool_calls = st_calls s \<or> truthy tool_calls;
           d0 = openai_chat_chunk_message_template [] now model content reasoning calls usage (Some completion_id);
           d1 = (if st_first s
                 then edit_choice (\<lambda>c. dset c ''delta'' (VDict (dset (dict_value (vget c ''delta'')) ''role'' (VStr ''assistant'')))) d0
                 else d0);
           d2 = (if truthy done_flag \<and> has_tool_calls then edit_choice (\<lambda>c. dset c ''finish_reason'' (VStr ''tool_calls'')) d1 else d1);
           drawn = (case calls of VList vs \<Rightarrow> length vs | _ \<Rightarrow> 0)
       in Inr (d2, \<lparr>st_calls = has_tool_calls, st_first = False, st_next = st_next s + drawn\<rparr>)))))))))"

fun stream_lines ::
    "(string \<Rightarrow> pyval result) \<Rightarrow> (nat \<Rightarrow> string) \<Rightarrow> string \<Rightarrow> (int \<Rightarrow> int \<Rightarrow> pyval) \<Rightarrow> (int \<times> string) list \<Rightarrow> stream_state \<Rightarrow>
     line list \<times> py_error option" where
  "stream_lines loads fresh completion_id rate [] s = ([Done], None)"
| "stream_lines loads fresh completion_id rate ((now, t) # ts) s =
     (case rbind (loads t) (\<lambda>data. stream_chunk fresh completion_id now rate data s) of
        Inl e \<Rightarrow> ([], Some e)
      | Inr (d, s') \<Rightarrow> (case stream_lines loads fresh completion_id rate ts s' of (ls, e) \<Rightarrow> (Chunk d # ls, e)))"

definition convert_streaming_response_ollama_to_openai ::
    "(string \<Rightarrow> pyval result) \<Rightarrow> (nat \<Rightarrow> string) \<Rightarrow> nat \<Rightarrow> (int \<Rightarrow> int \<Rightarrow> pyval) \<Rightarrow> (int \<times> string) list \<Rightarrow> line list \<times> py_error option" where
  "convert_streaming_response_ollama_to_openai loads fresh n rate body =
     stream_lines loads fresh (''chatcmpl-'' @ fresh n) rate body \<lparr>st_calls = False, st_first = True, st_next = Suc n\<rparr>"

section \<open>Embeddings\<close>

definition embedding_item :: "pyval \<Rightarrow> pyval \<Rightarrow> pyval" where
  "embedding_item e i = VDict [(''object'', VStr ''embedding''), (''embedding'', e), (''index'', i)]"

fun embedding_items :: "int \<Rightarrow> pyval list \<Rightarrow> pyval list" where
  "embedding_items i [] = []"
| "embedding_items i (VList xs # es) = embedding_item (VList xs) (VInt i) # embedding_items (i + 1) es"
| "embedding_items i (VDict d # es) = embedding_item (vget d ''embedding'') (dget_or d ''index'' (VInt i)) # embedding_items (i + 1) es"
| "embedding_items i (_ # es) = embedding_items (i + 1) es"

definition convert_embedding_response_ollama_to_openai :: "pyval \<Rightarrow> pyval result" where
  "convert_embedding_response_ollama_to_openai response =
     (case response of
        VDict d \<Rightarrow>
          (case dget d ''embeddings'' of
             Some es \<Rightarrow> rbind (py_iter es) (\<lambda>xs.
               Inr (VDict [(''object'', VStr ''list''), (''data'', VList (embedding_items 0 xs)), (''model'', vget d ''model'')]))
           | None \<Rightarrow>
             (case dget d ''embedding'' of
                Some e \<Rightarrow> Inr (VDict [(''object'', VStr ''list''), (''data'', VList [embedding_item e (VInt 0)]), (''model'', vget d ''model'')])
              | None \<Rightarrow> Inr response))
      | _ \<Rightarrow> Inr response)"

section \<open>What a client reads\<close>

text \<open>The chunks Ollama sends: counters are integers where they are given, a message has text or nothing, calls are dictionaries.\<close>

definition number_or_missing :: "dict \<Rightarrow> string \<Rightarrow> bool" where
  "number_or_missing d k \<longleftrightarrow> (case dget d k of None \<Rightarrow> True | Some (VInt i) \<Rightarrow> True | _ \<Rightarrow> False)"

definition text_or_none :: "dict \<Rightarrow> string \<Rightarrow> bool" where
  "text_or_none d k \<longleftrightarrow> vget d k = VNone \<or> is_str (vget d k)"

fun usual_call :: "pyval \<Rightarrow> bool" where
  "usual_call (VDict c) = is_dict (dget_or c ''function'' (VDict []))"
| "usual_call _ = False"

definition message_of :: "dict \<Rightarrow> dict" where
  "message_of d = dict_value (py_or (vget d ''message'') (VDict []))"

definition usual_chunk :: "dict \<Rightarrow> bool" where
  "usual_chunk d \<longleftrightarrow>
     (vget d ''message'' = VNone \<or> is_dict (vget d ''message'')) \<and>
     text_or_none (message_of d) ''content'' \<and> text_or_none (message_of d) ''thinking'' \<and>
     (vget (message_of d) ''tool_calls'' = VNone \<or>
        (case vget (message_of d) ''tool_calls'' of VList cs \<Rightarrow> list_all usual_call cs | _ \<Rightarrow> False)) \<and>
     list_all (number_or_missing d) [''prompt_eval_count'', ''eval_count'', ''eval_duration'', ''prompt_eval_duration'', ''total_duration'']"

definition is_done :: "dict \<Rightarrow> bool" where
  "is_done d \<longleftrightarrow> truthy (dget_or d ''done'' (VBool False))"

definition says :: "dict \<Rightarrow> string \<Rightarrow> bool" where
  "says d k \<longleftrightarrow> truthy (vget (message_of d) k)"

text \<open>What a client must read of a tool call: its name, its arguments as JSON, its position, and its id or a new one.\<close>

fun call_reads :: "pyval \<Rightarrow> pyval \<Rightarrow> bool" where
  "call_reads (VDict c) (VDict v) \<longleftrightarrow>
     (\<exists>f g. dget_or c ''function'' (VDict []) = VDict f \<and> vget v ''function'' = VDict g \<and>
        vget g ''name'' = dget_or f ''name'' (VStr []) \<and>
        vget g ''arguments'' = VStr (json_dumps True (dget_or f ''arguments'' (VDict []))) \<and>
        vget v ''index'' = (case dget c ''index'' of Some i \<Rightarrow> i | None \<Rightarrow> dget_or f ''index'' (VInt 0)) \<and>
        (case dget c ''id'' of Some i \<Rightarrow> vget v ''id'' = i | None \<Rightarrow> (\<exists>u. vget v ''id'' = VStr (''call_'' @ u))) \<and>
        vget v ''type'' = VStr ''function'')"
| "call_reads _ _ \<longleftrightarrow> False"

text \<open>And of the usage: both names of each count, their sum, the speeds, and the counters as they came.\<close>

definition count_of :: "dict \<Rightarrow> string \<Rightarrow> int" where
  "count_of d k = (case dget d k of Some (VInt i) \<Rightarrow> i | _ \<Rightarrow> 0)"

definition speed :: "(int \<Rightarrow> int \<Rightarrow> pyval) \<Rightarrow> dict \<Rightarrow> string \<Rightarrow> string \<Rightarrow> pyval" where
  "speed rate d count duration =
     (if count_of d duration > 0 then rate (count_of d count) (count_of d duration) else VStr ''N/A'')"

definition usage_reads :: "(int \<Rightarrow> int \<Rightarrow> pyval) \<Rightarrow> dict \<Rightarrow> dict \<Rightarrow> bool" where
  "usage_reads rate d u \<longleftrightarrow>
     (\<forall>k \<in> {''input_tokens'', ''prompt_tokens'', ''prompt_eval_count''}. vget u k = VInt (count_of d ''prompt_eval_count'')) \<and>
     (\<forall>k \<in> {''output_tokens'', ''completion_tokens'', ''eval_count''}. vget u k = VInt (count_of d ''eval_count'')) \<and>
     vget u ''total_tokens'' = VInt (count_of d ''prompt_eval_count'' + count_of d ''eval_count'') \<and>
     vget u ''response_token/s'' = speed rate d ''eval_count'' ''eval_duration'' \<and>
     vget u ''prompt_token/s'' = speed rate d ''prompt_eval_count'' ''prompt_eval_duration'' \<and>
     (\<forall>k \<in> {''total_duration'', ''eval_duration'', ''prompt_eval_duration''}. vget u k = VInt (count_of d k))"

text \<open>What a client must read from the \<open>i\<close>-th chunk of an answer with this id.\<close>

definition reads_as :: "(int \<Rightarrow> int \<Rightarrow> pyval) \<Rightarrow> string \<Rightarrow> bool \<Rightarrow> bool \<Rightarrow> dict \<Rightarrow> dict \<Rightarrow> bool" where
  "reads_as rate i first called d c \<longleftrightarrow>
     vget c ''id'' = VStr i \<and>
     (if is_done d then \<exists>u. dget c ''usage'' = Some (VDict u) \<and> usage_reads rate d u else dget c ''usage'' = None) \<and>
     (\<exists>choice delta. vget c ''choices'' = VList [VDict choice] \<and> vget choice ''delta'' = VDict delta \<and>
        dget delta ''role'' = (if first then Some (VStr ''assistant'') else None) \<and>
        dget delta ''content'' = (if says d ''content'' then Some (vget (message_of d) ''content'') else None) \<and>
        dget delta ''reasoning_content'' = (if says d ''thinking'' then Some (vget (message_of d) ''thinking'') else None) \<and>
        (if says d ''tool_calls''
         then \<exists>cs vs. vget (message_of d) ''tool_calls'' = VList cs \<and> dget delta ''tool_calls'' = Some (VList vs) \<and>
                list_all2 call_reads cs vs
         else dget delta ''tool_calls'' = None) \<and>
        vget choice ''finish_reason'' =
          (if is_done d \<and> called then VStr ''tool_calls''
           else if \<not> says d ''content'' \<and> \<not> says d ''thinking'' \<and> \<not> says d ''tool_calls'' then VStr ''stop'' else VNone))"

lemma convert_usual_calls:
  "list_all usual_call cs \<Longrightarrow> \<exists>vs. convert_ollama_tool_call_to_openai fresh n cs = Inr vs \<and> list_all2 call_reads cs vs"
proof (induction cs arbitrary: n)
  case (Cons c cs)
  then obtain d f where c: "c = VDict d" "dget_or d ''function'' (VDict []) = VDict f"
    by (cases c; cases "dget_or (dict_value c) ''function'' (VDict [])") auto
  have s: "dget e k = Some x \<Longrightarrow> dget_or e k y = x" "dget e k = None \<Longrightarrow> dget_or e k y = y" for e k x y
    by (simp_all add: dget_or_def)
  have "\<exists>v. convert_tool_call (fresh n) c = Inr v \<and> call_reads c v"
    by (cases "dget d ''index''"; cases "dget d ''id''") (simp_all add: convert_tool_call_def c s)
  with Cons.IH [of "Suc n"] Cons.prems show ?case by auto
qed simp

lemma calls_usual:
  assumes "usual_chunk d"
  shows "\<exists>v. calls_of fresh n (vget (message_of d) ''tool_calls'') = Inr v \<and>
     (if says d ''tool_calls''
      then truthy v \<and> (\<exists>cs vs. vget (message_of d) ''tool_calls'' = VList cs \<and> v = VList vs \<and> list_all2 call_reads cs vs)
      else \<not> truthy v)"
proof (cases "vget (message_of d) ''tool_calls''")
  case (VList cs)
  then have "list_all usual_call cs" using assms by (simp add: usual_chunk_def)
  then obtain vs where vs: "convert_ollama_tool_call_to_openai fresh n cs = Inr vs" "list_all2 call_reads cs vs"
    using convert_usual_calls by blast
  then show ?thesis using VList list_all2_lengthD [OF vs(2)] by (auto simp: calls_of_def says_def)
qed (use assms in \<open>auto simp: usual_chunk_def calls_of_def says_def\<close>)

lemma number_counted: "number_or_missing d k \<Longrightarrow> dget_or d k (VInt 0) = VInt (count_of d k)"
  by (auto simp: number_or_missing_def dget_or_def count_of_def split: option.splits pyval.splits)

lemma usage_usual:
  assumes "usual_chunk d"
  shows "\<exists>u. convert_ollama_usage_to_openai rate d = Inr u \<and> u \<noteq> [] \<and> usage_reads rate d u"
proof -
  have n: "dget_or d k (VInt 0) = VInt (count_of d k)"
    if "k \<in> set [''prompt_eval_count'', ''eval_count'', ''eval_duration'', ''prompt_eval_duration'', ''total_duration'']" for k
    using assms that number_counted [of d k] unfolding usual_chunk_def list_all_iff by blast
  note v = n [of "''prompt_eval_count''", simplified] n [of "''eval_count''", simplified] n [of "''eval_duration''", simplified]
    n [of "''prompt_eval_duration''", simplified] n [of "''total_duration''", simplified]
  show ?thesis
    by (simp add: convert_ollama_usage_to_openai_def rate_or_def Let_def py_or_def v usage_reads_def speed_def)
qed

lemma dget_set_if: "dget (set_if k v d) k' = (if k' = k \<and> truthy v then Some v else dget d k')"
  by (simp add: set_if_def)

lemma dkeys_set_if: "k' \<in> fst ` set (set_if k v d) \<longleftrightarrow> k' = k \<and> truthy v \<or> k' \<in> fst ` set d"
  by (simp add: set_if_def)

lemma chunk_template_eq:
  "i \<noteq> [] \<Longrightarrow> openai_chat_chunk_message_template uuid now model content reasoning calls usage (Some i) =
     [(''id'', VStr i), (''created'', VInt now), (''model'', model),
      (''choices'', VList [VDict [(''index'', VInt 0), (''logprobs'', VNone),
         (''finish_reason'', if \<not> truthy content \<and> \<not> truthy reasoning \<and> \<not> truthy calls then VStr ''stop'' else VNone),
         (''delta'', VDict (set_if ''tool_calls'' calls (set_if ''reasoning_content'' reasoning (set_if ''content'' content []))))]]),
      (''object'', VStr ''chat.completion.chunk'')] @ (if usage \<noteq> [] then [(''usage'', VDict usage)] else [])"
  unfolding openai_chat_chunk_message_template_def openai_chat_message_template_def Let_def
  by (simp add: edit_choice_def given_def set_if_def [of "''usage''"])

lemma chunk_reads:
  assumes "usual_chunk d" "i \<noteq> []"
  shows "\<exists>c n. stream_chunk fresh i now rate (VDict d) s =
      Inr (c, \<lparr>st_calls = st_calls s \<or> says d ''tool_calls'', st_first = False, st_next = n\<rparr>) \<and>
    reads_as rate i (st_first s) (st_calls s \<or> says d ''tool_calls'') d c"
proof -
  have m: "py_or (vget d ''message'') (VDict []) = VDict (message_of d)"
    using assms(1) by (cases "vget d ''message''") (auto simp: usual_chunk_def message_of_def py_or_def)
  obtain v where v: "calls_of fresh (st_next s) (vget (message_of d) ''tool_calls'') = Inr v"
    and calls: "if says d ''tool_calls''
      then truthy v \<and> (\<exists>cs vs. vget (message_of d) ''tool_calls'' = VList cs \<and> v = VList vs \<and> list_all2 call_reads cs vs)
      else \<not> truthy v"
    using calls_usual [OF assms(1)] by blast
  have tv: "truthy v \<longleftrightarrow> says d ''tool_calls''" using calls by (simp split: if_splits)
  obtain u where u: "convert_ollama_usage_to_openai rate d = Inr u" "u \<noteq> []" "usage_reads rate d u"
    using usage_usual [OF assms(1)] by blast
  let ?content = "vget (message_of d) ''content''" and ?thinking = "vget (message_of d) ''thinking''"
  let ?called = "st_calls s \<or> says d ''tool_calls''"
  define delta where "delta = set_if ''tool_calls'' v (set_if ''reasoning_content'' ?thinking (set_if ''content'' ?content []))"
  define silent where "silent \<longleftrightarrow> \<not> says d ''content'' \<and> \<not> says d ''thinking'' \<and> \<not> says d ''tool_calls''"
  define usage where "usage = (if is_done d then u else [])"
  define choice where "choice = [(''index'', VInt 0), (''logprobs'', VNone),
     (''finish_reason'', if is_done d \<and> ?called then VStr ''tool_calls'' else if silent then VStr ''stop'' else VNone),
     (''delta'', VDict (if st_first s then dset delta ''role'' (VStr ''assistant'') else delta))]"
  define c where "c = [(''id'', VStr i), (''created'', VInt now), (''model'', dget_or d ''model'' (VStr ''ollama'')), (''choices'', VList [VDict choice]),
     (''object'', VStr ''chat.completion.chunk'')] @ (if is_done d then [(''usage'', VDict usage)] else [])"
  have t: "openai_chat_chunk_message_template [] now (dget_or d ''model'' (VStr ''ollama'')) ?content ?thinking v usage (Some i) =
     [(''id'', VStr i), (''created'', VInt now), (''model'', dget_or d ''model'' (VStr ''ollama'')),
      (''choices'', VList [VDict [(''index'', VInt 0), (''logprobs'', VNone), (''finish_reason'', if silent then VStr ''stop'' else VNone), (''delta'', VDict delta)]]),
      (''object'', VStr ''chat.completion.chunk'')] @ (if is_done d then [(''usage'', VDict usage)] else [])"
    using assms(2) u(2) tv
    by (simp add: chunk_template_eq delta_def [symmetric] silent_def says_def usage_def)
  have e: "stream_chunk fresh i now rate (VDict d) s = Inr (c, \<lparr>st_calls = ?called, st_first = False,
      st_next = st_next s + (case v of VList vs \<Rightarrow> length vs | _ \<Rightarrow> 0)\<rparr>)"
  proof -
    have us: "(if truthy (dget_or d ''done'' (VBool False)) then convert_ollama_usage_to_openai rate (dict_value (VDict d)) else Inr []) = Inr usage"
      using u by (simp add: usage_def is_done_def)
    show ?thesis
      unfolding stream_chunk_def py_get_or.simps py_get.simps rbind_simps m Let_def v us t
      by (simp add: c_def choice_def is_done_def [symmetric] edit_choice_def says_def)
  qed
  have "dget delta ''role'' = None" "dget delta ''content'' = (if says d ''content'' then Some ?content else None)"
    "dget delta ''reasoning_content'' = (if says d ''thinking'' then Some ?thinking else None)"
    by (simp_all add: delta_def dget_set_if says_def)
  moreover have "if says d ''tool_calls''
      then \<exists>cs vs. vget (message_of d) ''tool_calls'' = VList cs \<and> dget delta ''tool_calls'' = Some (VList vs) \<and> list_all2 call_reads cs vs
      else dget delta ''tool_calls'' = None"
    using calls by (auto simp: delta_def dget_set_if)
  ultimately have "reads_as rate i (st_first s) ?called d c"
    using u(3) unfolding reads_as_def by (cases "is_done d") (auto simp: c_def choice_def silent_def usage_def)
  then show ?thesis using e by blast
qed

definition carries :: "(string \<Rightarrow> pyval result) \<Rightarrow> int \<times> string \<Rightarrow> dict \<Rightarrow> bool" where
  "carries loads line d \<longleftrightarrow> loads (snd line) = Inr (VDict d) \<and> usual_chunk d"

lemma ex_le_Suc: "(\<exists>j \<le> Suc m. P j) \<longleftrightarrow> P 0 \<or> (\<exists>j \<le> m. P (Suc j))"
proof
  assume "\<exists>j \<le> Suc m. P j"
  then obtain j where "j \<le> Suc m" "P j" by blast
  then show "P 0 \<or> (\<exists>j \<le> m. P (Suc j))" by (cases j) auto
qed (auto simp: Suc_le_mono)

lemma lines_read:
  assumes "list_all2 (carries loads) body ds" "i \<noteq> []"
  shows "\<exists>cs. stream_lines loads fresh i rate body s = (map Chunk cs @ [Done], None) \<and> length cs = length ds \<and>
    (\<forall>k < length ds. reads_as rate i (st_first s \<and> k = 0) (st_calls s \<or> (\<exists>j \<le> k. says (ds ! j) ''tool_calls'')) (ds ! k) (cs ! k))"
  using assms(1)
proof (induction body ds arbitrary: s rule: list_all2_induct)
  case (Cons line body d ds)
  obtain c n where c: "stream_chunk fresh i (fst line) rate (VDict d) s =
      Inr (c, \<lparr>st_calls = st_calls s \<or> says d ''tool_calls'', st_first = False, st_next = n\<rparr>)"
    "reads_as rate i (st_first s) (st_calls s \<or> says d ''tool_calls'') d c"
    using chunk_reads [of d i fresh "fst line" rate s] Cons.hyps(1) assms(2) by (auto simp: carries_def)
  obtain cs where cs: "stream_lines loads fresh i rate body \<lparr>st_calls = st_calls s \<or> says d ''tool_calls'', st_first = False, st_next = n\<rparr> =
      (map Chunk cs @ [Done], None)" "length cs = length ds"
    "\<forall>k < length ds. reads_as rate i False ((st_calls s \<or> says d ''tool_calls'') \<or> (\<exists>j \<le> k. says (ds ! j) ''tool_calls'')) (ds ! k) (cs ! k)"
    using Cons.IH by fastforce
  have "reads_as rate i (st_first s \<and> k = 0) (st_calls s \<or> (\<exists>j \<le> k. says ((d # ds) ! j) ''tool_calls'')) ((d # ds) ! k) ((c # cs) ! k)"
    if "k < length (d # ds)" for k
  proof (cases k)
    case (Suc m)
    have "(\<exists>j \<le> Suc m. says ((d # ds) ! j) ''tool_calls'') \<longleftrightarrow> says d ''tool_calls'' \<or> (\<exists>j \<le> m. says (ds ! j) ''tool_calls'')"
      by (subst ex_le_Suc) simp
    then show ?thesis using cs(3) that Suc by (simp add: disj_assoc)
  qed (use c(2) in simp)
  then show ?case using c(1) cs(1, 2) Cons.hyps(1)
    by (cases line) (auto simp: carries_def intro!: exI [of _ "c # cs"])
qed simp

text \<open>C27. Whatever chunks of the usual kind Ollama sends, the stream ends without an exception with one chunk for each and the end
  mark: all have the same id, the first and only the first names the role, each carries its text and its reasoning, its tool calls
  in their order, each with its name, its arguments as JSON text, its index and its id or a new one, and, once done, the usage with
  the prompt and answer tokens under both names, their sum, the speeds and the durations; and the reason to finish is tool_calls on
  a finished chunk when some chunk up to it had a call, stop on any other chunk without content, and missing on all others.\<close>

theorem ollama_stream_reads:
  assumes "list_all2 (carries loads) body ds"
  shows "\<exists>cs. convert_streaming_response_ollama_to_openai loads fresh n rate body = (map Chunk cs @ [Done], None) \<and> length cs = length ds \<and>
    (\<forall>k < length ds. reads_as rate (''chatcmpl-'' @ fresh n) (k = 0) (\<exists>j \<le> k. says (ds ! j) ''tool_calls'') (ds ! k) (cs ! k))"
  using lines_read [OF assms, of "''chatcmpl-'' @ fresh n" fresh rate "\<lparr>st_calls = False, st_first = True, st_next = Suc n\<rparr>"]
  by (simp add: convert_streaming_response_ollama_to_openai_def)

definition sample_answer :: "dict list" where
  "sample_answer =
     [[(''model'', VStr ''m''), (''message'', VDict [(''role'', VStr ''assistant''), (''thinking'', VStr ''hm'')]), (''done'', VBool False)],
      [(''model'', VStr ''m''), (''message'', VDict [(''content'', VStr []),
         (''tool_calls'', VList [VDict [(''function'', VDict [(''name'', VStr ''f''), (''arguments'', VDict [(''x'', VInt 1)])])]])])],
      [(''model'', VStr ''m''), (''message'', VDict [(''content'', VStr ''ok'')]), (''done'', VBool True), (''eval_count'', VInt 3)]]"

definition sample_loads :: "string \<Rightarrow> pyval result" where
  "sample_loads t = Inr (VDict (if t = ''a'' then sample_answer ! 0 else if t = ''b'' then sample_answer ! 1 else sample_answer ! 2))"

lemma sample_carries: "list_all2 (carries sample_loads) [(5, ''a''), (5, ''b''), (6, ''c'')] sample_answer"
  by (simp add: sample_answer_def carries_def sample_loads_def usual_chunk_def message_of_def py_or_def text_or_none_def number_or_missing_def dget_or_def)

lemma ollama_stream_reads_witness:
  "\<exists>c1 c2 c3. convert_streaming_response_ollama_to_openai sample_loads digits 0 (\<lambda>c d. VInt (c * d)) [(5, ''a''), (5, ''b''), (6, ''c'')] =
       ([Chunk c1, Chunk c2, Chunk c3, Done], None) \<and>
     reads_as (\<lambda>c d. VInt (c * d)) ''chatcmpl-0'' False True (sample_answer ! 2) c3"
proof -
  obtain cs where cs: "convert_streaming_response_ollama_to_openai sample_loads digits 0 (\<lambda>c d. VInt (c * d)) [(5, ''a''), (5, ''b''), (6, ''c'')] =
      (map Chunk cs @ [Done], None)" "length cs = 3"
    "\<forall>k < 3. reads_as (\<lambda>c d. VInt (c * d)) (''chatcmpl-'' @ digits 0) (k = 0) (\<exists>j \<le> k. says (sample_answer ! j) ''tool_calls'') (sample_answer ! k) (cs ! k)"
    using ollama_stream_reads [OF sample_carries, of digits 0 "\<lambda>c d. VInt (c * d)"] by (auto simp: sample_answer_def)
  obtain a b c where l: "cs = [a, b, c]" using cs(2) by (auto simp: numeral_3_eq_3 length_Suc_conv)
  have "digits 0 = ''0''" by code_simp
  moreover have "says (sample_answer ! 1) ''tool_calls''" by (simp add: sample_answer_def says_def message_of_def py_or_def)
  then have "\<exists>j \<le> 2. says (sample_answer ! j) ''tool_calls''" by (intro exI [of _ 1]) simp
  ultimately show ?thesis using cs(1) cs(3) [rule_format, of 2] l by simp
qed

text \<open>A finished answer whose last chunk still has text, without a tool call, never gets a reason to finish.\<close>

lemma last_text_without_reason:
  "reads_as rate i first False d c \<Longrightarrow> says d ''content'' \<Longrightarrow>
     \<exists>choice. vget c ''choices'' = VList [VDict choice] \<and> vget choice ''finish_reason'' = VNone"
  by (auto simp: reads_as_def)

end
