(* ===== verification/Prompts.thy ===== *)
theory Prompts
  imports AccessGrants
begin

text \<open>
  Prompts and their versions: \<open>PromptsTable\<close> of \<open>backend/open_webui/models/prompts.py\<close> and \<open>PromptHistoryTable\<close> of
  \<open>models/prompt_history.py\<close>. Sessions are not shared between calls, as is the default: what a nested call commits stays
  when a later commit fails. The grants of prompts are those of \<open>AccessGrants\<close>. A snapshot is the record of the keys the code writes
  into it, and \<open>sn_tags\<close> is \<open>None\<close> where the key is missing. \<open>uuid.uuid4()\<close> is the sequence \<open>uuid\<close>, \<open>ilike\<close>, \<open>lower_sql\<close> and
  \<open>unified_diff\<close> are arguments. Text columns are ordered character by character.
\<close>

section \<open>Rows and forms\<close>

record prompt =
  pr_id :: string
  pr_command :: string
  pr_user_id :: string
  pr_name :: string
  pr_content :: string
  pr_data :: "dict option"
  pr_meta :: "dict option"
  pr_tags :: "string option list"
  pr_is_active :: bool
  pr_version_id :: "string option"
  pr_created_at :: int
  pr_updated_at :: int

record snapshot =
  sn_name :: string
  sn_content :: string
  sn_command :: string
  sn_data :: dict
  sn_meta :: dict
  sn_tags :: "string option list option"
  sn_access_grants :: "access_grant list"

record prompt_history =
  ph_id :: string
  ph_prompt_id :: string
  ph_parent_id :: "string option"
  ph_snapshot :: snapshot
  ph_user_id :: string
  ph_commit_message :: "string option"
  ph_created_at :: int

record prompt_form =
  pf_command :: string
  pf_name :: string
  pf_content :: string
  pf_data :: "dict option"
  pf_meta :: "dict option"
  pf_tags :: "string option list option"
  pf_access_grants :: "grant_item list option"
  pf_commit_message :: "string option"
  pf_is_production :: "bool option"

record prompt_db =
  db_prompts :: "prompt list"
  db_histories :: "prompt_history list"
  db_prompt_grants :: grant_db
  db_prompt_uuid :: nat

text \<open>A prompt as the methods return it, with its grants.\<close>

type_synonym prompt_model = "prompt \<times> access_grant list"

text \<open>\<open>data or {}\<close>, \<open>tags or []\<close> and \<open>form.data or prompt.data\<close>\<close>

definition or_empty :: "'a list option \<Rightarrow> 'a list" where
  "or_empty x = (case x of None \<Rightarrow> [] | Some d \<Rightarrow> d)"

definition or_old :: "'a list option \<Rightarrow> 'a list option \<Rightarrow> 'a list option" where
  "or_old x old = (if or_empty x = [] then old else x)"

section \<open>Versions\<close>

definition histories_of :: "string \<Rightarrow> prompt_db \<Rightarrow> prompt_history list" where
  "histories_of i db = filter (\<lambda>h. ph_prompt_id h = i) (db_histories db)"

definition create_history_entry ::
    "(nat \<Rightarrow> string) \<Rightarrow> int \<Rightarrow> string \<Rightarrow> snapshot \<Rightarrow> string \<Rightarrow> string option \<Rightarrow> string option \<Rightarrow> prompt_db \<Rightarrow> prompt_history result \<times> prompt_db" where
  "create_history_entry uuid now i snap uid parent message db =
     (let h = \<lparr>ph_id = uuid (db_prompt_uuid db), ph_prompt_id = i, ph_parent_id = parent, ph_snapshot = snap, ph_user_id = uid,
               ph_commit_message = message, ph_created_at = now\<rparr>;
          db0 = db\<lparr>db_prompt_uuid := Suc (db_prompt_uuid db)\<rparr>
      in if ph_id h \<in> ph_id ` set (db_histories db) then (Inl IntegrityError, db0)
         else (Inr h, db0\<lparr>db_histories := db_histories db @ [h]\<rparr>))"

definition get_history_by_prompt_id :: "user_db \<Rightarrow> string \<Rightarrow> nat \<Rightarrow> nat \<Rightarrow> prompt_db \<Rightarrow> (prompt_history \<times> user option) list" where
  "get_history_by_prompt_id udb i limit offset db =
     map (\<lambda>h. (h, List.find (\<lambda>u. u_id u = ph_user_id h) (db_users udb)))
       (paginate (Some offset) (Some limit) (order_desc ph_created_at (histories_of i db)))"

definition get_history_entry_by_id :: "string \<Rightarrow> prompt_db \<Rightarrow> prompt_history option" where
  "get_history_entry_by_id hid db = List.find (\<lambda>h. ph_id h = hid) (db_histories db)"

definition get_latest_history_entry :: "string \<Rightarrow> prompt_db \<Rightarrow> prompt_history option" where
  "get_latest_history_entry i db =
     (case order_desc ph_created_at (histories_of i db) of [] \<Rightarrow> None | h # _ \<Rightarrow> Some h)"

definition get_history_count :: "string \<Rightarrow> prompt_db \<Rightarrow> nat" where
  "get_history_count i db = length (histories_of i db)"

record history_diff =
  hd_from :: string
  hd_to :: string
  hd_from_snapshot :: snapshot
  hd_to_snapshot :: snapshot
  hd_content_diff :: "string list"
  hd_name_changed :: bool

definition bound_entry :: "string \<Rightarrow> string \<Rightarrow> prompt_db \<Rightarrow> prompt_history option" where
  "bound_entry hid i db = List.find (\<lambda>h. ph_id h = hid \<and> ph_prompt_id h = i) (db_histories db)"

definition compute_diff ::
    "(string \<Rightarrow> string \<Rightarrow> string \<Rightarrow> string \<Rightarrow> string list) \<Rightarrow> string \<Rightarrow> string \<Rightarrow> string \<Rightarrow> prompt_db \<Rightarrow> history_diff option" where
  "compute_diff unified_diff from_id to_id i db =
     (case (bound_entry from_id i db, bound_entry to_id i db) of
        (Some a, Some b) \<Rightarrow>
          let sa = ph_snapshot a; sb = ph_snapshot b
          in Some \<lparr>hd_from = from_id, hd_to = to_id, hd_from_snapshot = sa, hd_to_snapshot = sb,
                   hd_content_diff = unified_diff (sn_content sa) (sn_content sb) (CHR ''v'' # take 8 from_id) (CHR ''v'' # take 8 to_id),
                   hd_name_changed = (sn_name sa \<noteq> sn_name sb)\<rparr>
      | _ \<Rightarrow> None)"

definition delete_history_by_prompt_id :: "string \<Rightarrow> prompt_db \<Rightarrow> prompt_db" where
  "delete_history_by_prompt_id i db = db\<lparr>db_histories := filter (\<lambda>h. ph_prompt_id h \<noteq> i) (db_histories db)\<rparr>"

text \<open>The children of the entry get its parent.\<close>

definition delete_history_entry :: "string \<Rightarrow> string \<Rightarrow> prompt_db \<Rightarrow> bool \<times> prompt_db" where
  "delete_history_entry hid i db =
     (case bound_entry hid i db of
        None \<Rightarrow> (False, db)
      | Some e \<Rightarrow>
          (True, db\<lparr>db_histories :=
             filter (\<lambda>h. ph_id h \<noteq> hid)
               (map (\<lambda>h. if ph_parent_id h = Some hid then h\<lparr>ph_parent_id := ph_parent_id e\<rparr> else h) (db_histories db))\<rparr>))"

section \<open>Prompts\<close>

definition find_prompt :: "string \<Rightarrow> prompt_db \<Rightarrow> prompt option" where
  "find_prompt i db = List.find (\<lambda>p. pr_id p = i) (db_prompts db)"

definition put_prompt :: "prompt \<Rightarrow> prompt_db \<Rightarrow> prompt_db" where
  "put_prompt p db = db\<lparr>db_prompts := map (\<lambda>q. if pr_id q = pr_id p then p else q) (db_prompts db)\<rparr>"

definition command_taken :: "string \<Rightarrow> string \<Rightarrow> prompt_db \<Rightarrow> bool" where
  "command_taken command i db \<longleftrightarrow> list_ex (\<lambda>q. pr_command q = command \<and> pr_id q \<noteq> i) (db_prompts db)"

definition prompt_grants :: "string \<Rightarrow> prompt_db \<Rightarrow> access_grant list" where
  "prompt_grants i db = get_grants_by_resource ''prompt'' i (db_prompt_grants db)"

definition to_prompt_model :: "prompt \<Rightarrow> prompt_db \<Rightarrow> prompt_model" where
  "to_prompt_model p db = (p, prompt_grants (pr_id p) db)"

definition set_prompt_grants :: "(nat \<Rightarrow> string) \<Rightarrow> int \<Rightarrow> string \<Rightarrow> grant_item list option \<Rightarrow> prompt_db \<Rightarrow> access_grant list result \<times> prompt_db" where
  "set_prompt_grants uuid now i grants db =
     (case set_access_grants uuid now ''prompt'' i grants (db_prompt_grants db) of (r, adb) \<Rightarrow> (r, db\<lparr>db_prompt_grants := adb\<rparr>))"

text \<open>The new version, made the production version if asked for; the prompt itself is committed before.\<close>

definition add_version ::
    "(nat \<Rightarrow> string) \<Rightarrow> int \<Rightarrow> bool \<Rightarrow> prompt \<Rightarrow> snapshot \<Rightarrow> string \<Rightarrow> string option \<Rightarrow> string option \<Rightarrow> prompt_db \<Rightarrow>
       prompt_model option \<times> prompt_db" where
  "add_version uuid now production p snap uid parent message db =
     (case create_history_entry uuid now (pr_id p) snap uid parent message db of
        (Inl e, db1) \<Rightarrow> (None, db1)
      | (Inr h, db1) \<Rightarrow>
          let p1 = (if production then p\<lparr>pr_version_id := Some (ph_id h)\<rparr> else p); db2 = put_prompt p1 db1
          in (Some (to_prompt_model p1 db2), db2))"

definition new_prompt :: "string \<Rightarrow> int \<Rightarrow> string \<Rightarrow> prompt_form \<Rightarrow> prompt" where
  "new_prompt i now uid form =
     \<lparr>pr_id = i, pr_command = pf_command form, pr_user_id = uid, pr_name = pf_name form, pr_content = pf_content form,
      pr_data = Some (or_empty (pf_data form)), pr_meta = Some (or_empty (pf_meta form)), pr_tags = or_empty (pf_tags form),
      pr_is_active = True, pr_version_id = None, pr_created_at = now, pr_updated_at = now\<rparr>"

definition form_snapshot :: "prompt_form \<Rightarrow> string \<Rightarrow> string option list option \<Rightarrow> access_grant list \<Rightarrow> snapshot" where
  "form_snapshot form command tags grants =
     \<lparr>sn_name = pf_name form, sn_content = pf_content form, sn_command = command, sn_data = or_empty (pf_data form),
      sn_meta = or_empty (pf_meta form), sn_tags = tags, sn_access_grants = grants\<rparr>"

definition insert_new_prompt :: "(nat \<Rightarrow> string) \<Rightarrow> int \<Rightarrow> string \<Rightarrow> prompt_form \<Rightarrow> prompt_db \<Rightarrow> prompt_model option \<times> prompt_db" where
  "insert_new_prompt uuid now uid form db =
     (let i = uuid (db_prompt_uuid db); db0 = db\<lparr>db_prompt_uuid := Suc (db_prompt_uuid db)\<rparr>; p = new_prompt i now uid form
      in if i \<in> pr_id ` set (db_prompts db) \<or> pf_command form \<in> pr_command ` set (db_prompts db) then (None, db0)
         else case set_prompt_grants uuid now i (pf_access_grants form) (db0\<lparr>db_prompts := db_prompts db @ [p]\<rparr>) of
                (Inl e, db1) \<Rightarrow> (None, db1)
              | (Inr _, db1) \<Rightarrow>
                  add_version uuid now True p
                    (form_snapshot form (pf_command form) (Some (or_empty (pf_tags form))) (prompt_grants i db1)) uid None
                    (Some (if given (pf_commit_message form) then the (pf_commit_message form) else ''Initial version'')) db1)"

definition get_prompt_by_id :: "string \<Rightarrow> prompt_db \<Rightarrow> prompt_model option" where
  "get_prompt_by_id i db = map_option (\<lambda>p. to_prompt_model p db) (find_prompt i db)"

definition get_prompt_by_command :: "string \<Rightarrow> prompt_db \<Rightarrow> prompt_model option" where
  "get_prompt_by_command command db =
     map_option (\<lambda>p. to_prompt_model p db) (List.find (\<lambda>p. pr_command p = command) (db_prompts db))"

text \<open>Prompts with their grants and their owner.\<close>

type_synonym prompt_response = "prompt_model \<times> user option"

definition with_grants_and_user :: "user_db \<Rightarrow> prompt_db \<Rightarrow> prompt list \<Rightarrow> prompt_response list" where
  "with_grants_and_user udb db ps =
     (let grants_map = get_grants_by_resources ''prompt'' (map pr_id ps) (db_prompt_grants db)
      in map (\<lambda>p. ((p, dget_or grants_map (pr_id p) []), List.find (\<lambda>u. u_id u = pr_user_id p) (db_users udb))) ps)"

definition get_prompts :: "user_db \<Rightarrow> prompt_db \<Rightarrow> prompt_response list" where
  "get_prompts udb db = with_grants_and_user udb db (order_desc pr_updated_at (filter pr_is_active (db_prompts db)))"

definition prompt_doc :: "prompt \<Rightarrow> document" where
  "prompt_doc p = \<lparr>doc_id = pr_id p, doc_user_id = pr_user_id p\<rparr>"

definition permitted_prompts :: "bool \<Rightarrow> string option \<Rightarrow> string list \<Rightarrow> string \<Rightarrow> prompt_db \<Rightarrow> prompt list \<Rightarrow> prompt list" where
  "permitted_prompts empty_or uid gids perm db ps =
     filter (\<lambda>p. has_permission_filter empty_or uid gids ''prompt'' perm (db_prompt_grants db) [prompt_doc p] \<noteq> []) ps"

definition get_prompts_by_user_id :: "bool \<Rightarrow> group_db \<Rightarrow> user_db \<Rightarrow> string \<Rightarrow> string \<Rightarrow> prompt_db \<Rightarrow> prompt_response list" where
  "get_prompts_by_user_id empty_or gdb udb uid perm db =
     with_grants_and_user udb db
       (permitted_prompts empty_or (Some uid) (map g_id (get_groups_by_member_id uid gdb)) perm db
          (order_desc pr_updated_at (filter pr_is_active (db_prompts db))))"

section \<open>Search\<close>

record prompt_query =
  pq_query :: "string option"
  pq_view_option :: "string option"
  pq_tag :: "string option"
  pq_order_by :: "string option"
  pq_direction :: "string option"
  pq_user_id :: "string option"
  pq_group_ids :: "string list option"

definition prompt_matches :: "(string \<Rightarrow> string \<Rightarrow> bool) \<Rightarrow> user_db \<Rightarrow> string \<Rightarrow> prompt \<Rightarrow> bool" where
  "prompt_matches ilike udb s p \<longleftrightarrow>
     (let pattern = ''%'' @ s @ ''%''
      in ilike (pr_name p) pattern \<or> ilike (pr_command p) pattern \<or> ilike (pr_content p) pattern \<or>
         (case List.find (\<lambda>u. u_id u = pr_user_id p) (db_users udb) of
            None \<Rightarrow> False | Some u \<Rightarrow> ilike (u_name u) pattern \<or> ilike (u_email u) pattern))"

definition view_matches :: "string \<Rightarrow> string option \<Rightarrow> prompt \<Rightarrow> bool" where
  "view_matches uid view p \<longleftrightarrow>
     (view = Some ''created'' \<longrightarrow> pr_user_id p = uid) \<and> (view = Some ''shared'' \<longrightarrow> pr_user_id p \<noteq> uid)"

definition tag_matches :: "(string \<Rightarrow> string) \<Rightarrow> string option \<Rightarrow> prompt \<Rightarrow> bool" where
  "tag_matches lower_sql tag p \<longleftrightarrow>
     (given tag \<longrightarrow> list_ex (\<lambda>t. map_option lower_sql t = Some (py_lower (the tag))) (pr_tags p))"

text \<open>Descending order leaves rows with the same value in the order they had.\<close>

definition order_rows :: "string option \<Rightarrow> string option \<Rightarrow> prompt list \<Rightarrow> prompt list" where
  "order_rows by direction ps =
     (let asc = (direction = Some ''asc'')
      in if by = Some ''name'' then (if asc then sort_key pr_name ps else rev (sort_key pr_name (rev ps)))
         else if by = Some ''created_at'' then (if asc then sort_key pr_created_at ps else order_desc pr_created_at ps)
         else if by = Some ''updated_at'' then (if asc then sort_key pr_updated_at ps else order_desc pr_updated_at ps)
         else order_desc pr_updated_at ps)"

definition empty_query :: "prompt_query \<Rightarrow> bool" where
  "empty_query q \<longleftrightarrow> q = \<lparr>pq_query = None, pq_view_option = None, pq_tag = None, pq_order_by = None, pq_direction = None,
     pq_user_id = None, pq_group_ids = None\<rparr>"

definition search_hits ::
    "bool \<Rightarrow> (string \<Rightarrow> string \<Rightarrow> bool) \<Rightarrow> (string \<Rightarrow> string) \<Rightarrow> user_db \<Rightarrow> string \<Rightarrow> prompt_query \<Rightarrow> prompt_db \<Rightarrow> prompt list" where
  "search_hits empty_or ilike lower_sql udb uid q db =
     (if empty_query q then order_desc pr_updated_at (db_prompts db)
      else let ps = filter (\<lambda>p. (given (pq_query q) \<longrightarrow> prompt_matches ilike udb (the (pq_query q)) p) \<and>
                                view_matches uid (pq_view_option q) p \<and> tag_matches lower_sql (pq_tag q) p) (db_prompts db)
           in order_rows (pq_order_by q) (pq_direction q)
                (permitted_prompts empty_or (pq_user_id q) (or_empty (pq_group_ids q)) ''read'' db ps))"

definition search_prompts ::
    "bool \<Rightarrow> (string \<Rightarrow> string \<Rightarrow> bool) \<Rightarrow> (string \<Rightarrow> string) \<Rightarrow> user_db \<Rightarrow> string \<Rightarrow> prompt_query \<Rightarrow> nat \<Rightarrow> nat \<Rightarrow> prompt_db \<Rightarrow>
       prompt_response list \<times> nat" where
  "search_prompts empty_or ilike lower_sql udb uid q skip limit db =
     (let hits = search_hits empty_or ilike lower_sql udb uid q db
      in (with_grants_and_user udb db (paginate (Some skip) (if limit = 0 then None else Some limit) hits), length hits))"

section \<open>Updates\<close>

definition replace_prompt_grants ::
    "(nat \<Rightarrow> string) \<Rightarrow> int \<Rightarrow> string \<Rightarrow> grant_item list option \<Rightarrow> prompt_db \<Rightarrow> access_grant list result \<times> prompt_db" where
  "replace_prompt_grants uuid now i grants db = (if grants = None then (Inr [], db) else set_prompt_grants uuid now i grants db)"

text \<open>What follows the change of the fields \<open>p1\<close>: the new grants, the commit, the new version if something changed.\<close>

definition store_update ::
    "(nat \<Rightarrow> string) \<Rightarrow> int \<Rightarrow> string \<Rightarrow> prompt_form \<Rightarrow> bool \<Rightarrow> prompt \<Rightarrow> (access_grant list \<Rightarrow> snapshot) \<Rightarrow> string option \<Rightarrow> prompt_db \<Rightarrow>
       prompt_model option \<times> prompt_db" where
  "store_update uuid now uid form changed p1 snap parent db =
     (case replace_prompt_grants uuid now (pr_id p1) (pf_access_grants form) db of
        (Inl e, db1) \<Rightarrow> (None, db1)
      | (Inr _, db1) \<Rightarrow>
          if command_taken (pr_command p1) (pr_id p1) db1 then (None, db1)
          else let db2 = put_prompt p1 db1
               in if changed
                  then add_version uuid now (pf_is_production form = Some True) p1 (snap (prompt_grants (pr_id p1) db1)) uid parent
                         (pf_commit_message form) db2
                  else (Some (to_prompt_model p1 db2), db2))"

definition update_prompt_by_command ::
    "(nat \<Rightarrow> string) \<Rightarrow> int \<Rightarrow> string \<Rightarrow> prompt_form \<Rightarrow> string \<Rightarrow> prompt_db \<Rightarrow> prompt_model option \<times> prompt_db" where
  "update_prompt_by_command uuid now command form uid db =
     (if command = [] then (None, db)
      else case List.find (\<lambda>p. pr_command p = command) (db_prompts db) of
             None \<Rightarrow> (None, db)
           | Some p \<Rightarrow>
               store_update uuid now uid form
                 (pr_name p \<noteq> pf_name form \<or> pr_content p \<noteq> pf_content form \<or> pf_access_grants form \<noteq> None)
                 (p\<lparr>pr_name := pf_name form, pr_content := pf_content form, pr_data := or_old (pf_data form) (pr_data p),
                    pr_meta := or_old (pf_meta form) (pr_meta p), pr_updated_at := now\<rparr>)
                 (form_snapshot form command None)
                 (map_option ph_id (get_latest_history_entry (pr_id p) db)) db)"

definition new_tags :: "prompt_form \<Rightarrow> prompt \<Rightarrow> string option list" where
  "new_tags form p = (case pf_tags form of None \<Rightarrow> pr_tags p | Some ts \<Rightarrow> ts)"

definition update_prompt_by_id ::
    "(nat \<Rightarrow> string) \<Rightarrow> int \<Rightarrow> string \<Rightarrow> prompt_form \<Rightarrow> string \<Rightarrow> prompt_db \<Rightarrow> prompt_model option \<times> prompt_db" where
  "update_prompt_by_id uuid now i form uid db =
     (case find_prompt i db of
        None \<Rightarrow> (None, db)
      | Some p \<Rightarrow>
          store_update uuid now uid form
            (pr_name p \<noteq> pf_name form \<or> pr_command p \<noteq> pf_command form \<or> pr_content p \<noteq> pf_content form \<or>
             pf_access_grants form \<noteq> None \<or> (pf_tags form \<noteq> None \<and> pr_tags p \<noteq> new_tags form p))
            (p\<lparr>pr_name := pf_name form, pr_command := pf_command form, pr_content := pf_content form,
               pr_data := or_old (pf_data form) (pr_data p), pr_meta := or_old (pf_meta form) (pr_meta p),
               pr_tags := new_tags form p, pr_updated_at := now\<rparr>)
            (form_snapshot form (pf_command form) (Some (new_tags form p)))
            (map_option ph_id (get_latest_history_entry i db)) db)"

definition update_prompt_metadata ::
    "int \<Rightarrow> string \<Rightarrow> string \<Rightarrow> string \<Rightarrow> string option list option \<Rightarrow> prompt_db \<Rightarrow> prompt_model option \<times> prompt_db" where
  "update_prompt_metadata now i name command tags db =
     (case find_prompt i db of
        None \<Rightarrow> (None, db)
      | Some p \<Rightarrow>
          let p1 = p\<lparr>pr_name := name, pr_command := command, pr_tags := (case tags of None \<Rightarrow> pr_tags p | Some ts \<Rightarrow> ts), pr_updated_at := now\<rparr>;
              db1 = put_prompt p1 db
          in if command_taken command i db then (None, db) else (Some (to_prompt_model p1 db1), db1))"

definition update_prompt_version :: "int \<Rightarrow> string \<Rightarrow> string \<Rightarrow> prompt_db \<Rightarrow> prompt_model option \<times> prompt_db" where
  "update_prompt_version now i version_id db =
     (case find_prompt i db of
        None \<Rightarrow> (None, db)
      | Some p \<Rightarrow>
          (case get_history_entry_by_id version_id db of
             None \<Rightarrow> (None, db)
           | Some h \<Rightarrow>
               if ph_prompt_id h \<noteq> i then (None, db)
               else let snap = ph_snapshot h;
                        p1 = p\<lparr>pr_name := sn_name snap, pr_content := sn_content snap, pr_data := Some (sn_data snap),
                               pr_meta := Some (sn_meta snap),
                               pr_tags := (case sn_tags snap of None \<Rightarrow> pr_tags p | Some ts \<Rightarrow> ts),
                               pr_version_id := Some version_id, pr_updated_at := now\<rparr>;
                        db1 = put_prompt p1 db
                    in (Some (to_prompt_model p1 db1), db1)))"

definition toggle_prompt_active :: "int \<Rightarrow> string \<Rightarrow> prompt_db \<Rightarrow> prompt_model option \<times> prompt_db" where
  "toggle_prompt_active now i db =
     (if i = [] then (None, db)
      else case find_prompt i db of
             None \<Rightarrow> (None, db)
           | Some p \<Rightarrow>
               let p1 = p\<lparr>pr_is_active := \<not> pr_is_active p, pr_updated_at := now\<rparr>; db1 = put_prompt p1 db
               in (Some (to_prompt_model p1 db1), db1))"

section \<open>Deletion and tags\<close>

definition remove_prompt :: "prompt \<Rightarrow> prompt_db \<Rightarrow> prompt_db" where
  "remove_prompt p db =
     (let db1 = delete_history_by_prompt_id (pr_id p) db
      in db1\<lparr>db_prompt_grants := snd (revoke_all_access ''prompt'' (pr_id p) (db_prompt_grants db1)),
             db_prompts := filter (\<lambda>q. pr_id q \<noteq> pr_id p) (db_prompts db1)\<rparr>)"

definition delete_prompt_by_command :: "string \<Rightarrow> prompt_db \<Rightarrow> bool \<times> prompt_db" where
  "delete_prompt_by_command command db =
     (case List.find (\<lambda>p. pr_command p = command) (db_prompts db) of None \<Rightarrow> (False, db) | Some p \<Rightarrow> (True, remove_prompt p db))"

definition delete_prompt_by_id :: "string \<Rightarrow> prompt_db \<Rightarrow> bool \<times> prompt_db" where
  "delete_prompt_by_id i db =
     (case find_prompt i db of None \<Rightarrow> (False, db) | Some p \<Rightarrow> (True, remove_prompt p db))"

definition collect_tags :: "prompt list \<Rightarrow> string list" where
  "collect_tags ps = sort (remdups (concat (map (\<lambda>p. map the (filter given (pr_tags p))) ps)))"

definition get_tags :: "prompt_db \<Rightarrow> string list" where
  "get_tags db = collect_tags (filter pr_is_active (db_prompts db))"

definition get_tags_by_user_id :: "bool \<Rightarrow> group_db \<Rightarrow> string \<Rightarrow> prompt_db \<Rightarrow> string list" where
  "get_tags_by_user_id empty_or gdb uid db =
     collect_tags (permitted_prompts empty_or (Some uid) (map g_id (get_groups_by_member_id uid gdb)) ''read'' db
       (filter pr_is_active (db_prompts db)))"

section \<open>Well-formed tables\<close>

text \<open>The parent of a version is an earlier version of the same prompt.\<close>

definition parent_in :: "prompt_history list \<Rightarrow> prompt_history \<Rightarrow> bool" where
  "parent_in hs h \<longleftrightarrow>
     (case ph_parent_id h of None \<Rightarrow> True | Some q \<Rightarrow> \<exists>e \<in> set hs. ph_id e = q \<and> ph_prompt_id e = ph_prompt_id h)"

definition versions_ok :: "prompt_history list \<Rightarrow> bool" where
  "versions_ok hs \<longleftrightarrow> (\<forall>xs h ys. hs = xs @ h # ys \<longrightarrow> parent_in xs h)"

lemma versions_ok_Nil [simp]: "versions_ok []"
  by (simp add: versions_ok_def)

lemma versions_ok_snoc [simp]: "versions_ok (hs @ [h]) \<longleftrightarrow> versions_ok hs \<and> parent_in hs h"
proof
  assume v: "versions_ok (hs @ [h])"
  have "parent_in xs k" if "hs = xs @ k # ys" for xs k ys
    using v that unfolding versions_ok_def by (metis append.assoc append_Cons)
  then show "versions_ok hs \<and> parent_in hs h" using v unfolding versions_ok_def by blast
next
  assume v: "versions_ok hs \<and> parent_in hs h"
  have "parent_in xs k" if "hs @ [h] = xs @ k # ys" for xs k ys
    using v that by (cases ys rule: rev_cases) (auto simp: versions_ok_def)
  then show "versions_ok (hs @ [h])" unfolding versions_ok_def by blast
qed

lemma versions_ok_in: "versions_ok hs \<Longrightarrow> h \<in> set hs \<Longrightarrow> parent_in hs h"
  by (induction hs rule: rev_induct) (auto simp: parent_in_def split: option.splits)

definition reparent :: "string \<Rightarrow> string option \<Rightarrow> prompt_history \<Rightarrow> prompt_history" where
  "reparent hid q h = (if ph_parent_id h = Some hid then h\<lparr>ph_parent_id := q\<rparr> else h)"

lemma reparent_simps [simp]:
  "ph_id (reparent hid q h) = ph_id h" "ph_prompt_id (reparent hid q h) = ph_prompt_id h" "ph_snapshot (reparent hid q h) = ph_snapshot h"
  by (simp_all add: reparent_def)

lemma parent_in_mono: "parent_in hs h \<Longrightarrow> set hs \<subseteq> set hs' \<Longrightarrow> parent_in hs' h"
  by (auto simp: parent_in_def split: option.splits)

lemma same_key: "distinct (map f xs) \<Longrightarrow> x \<in> set xs \<Longrightarrow> y \<in> set xs \<Longrightarrow> f x = f y \<Longrightarrow> x = y"
  by (auto simp: distinct_map inj_on_def)

lemma reparented_parent:
  assumes v: "versions_ok (hs @ [h])" and d: "distinct (map ph_id (hs @ [h]))" and e: "e \<in> set hs"
  shows "parent_in (filter (\<lambda>h. ph_id h \<noteq> ph_id e) (map (reparent (ph_id e) (ph_parent_id e)) hs)) (reparent (ph_id e) (ph_parent_id e) h)"
proof (cases "ph_parent_id (reparent (ph_id e) (ph_parent_id e) h)")
  case (Some q)
  have "\<exists>g \<in> set hs. ph_id g = q \<and> ph_prompt_id g = ph_prompt_id h \<and> ph_id g \<noteq> ph_id e"
  proof (cases "ph_parent_id h = Some (ph_id e)")
    case True
    then obtain g where "g \<in> set hs" "ph_id g = ph_id e" "ph_prompt_id g = ph_prompt_id h" using v by (auto simp: parent_in_def)
    then have same: "ph_prompt_id e = ph_prompt_id h" using same_key [of ph_id hs g e] d e by simp
    obtain xs ys where hs: "hs = xs @ e # ys" using e by (auto simp: in_set_conv_decomp)
    then have "parent_in xs e" using v by (auto simp: versions_ok_def)
    then obtain k where k: "k \<in> set xs" "ph_id k = q" "ph_prompt_id k = ph_prompt_id e"
      using Some True by (auto simp: parent_in_def reparent_def)
    moreover have "ph_id k \<noteq> ph_id e" using k(1) d hs by (auto simp: image_iff)
    ultimately show ?thesis using hs same by auto
  qed (use Some v in \<open>auto simp: parent_in_def reparent_def\<close>)
  then obtain g where "g \<in> set hs" "ph_id g = q" "ph_prompt_id g = ph_prompt_id h" "ph_id g \<noteq> ph_id e" by blast
  then show ?thesis using Some by (auto simp: parent_in_def)
qed (simp add: parent_in_def)

text \<open>Without the entry the rest is still well-formed: its children hang below its parent.\<close>

lemma versions_ok_delete:
  assumes "versions_ok hs" "distinct (map ph_id hs)" "e \<in> set hs"
  shows "versions_ok (filter (\<lambda>h. ph_id h \<noteq> ph_id e) (map (reparent (ph_id e) (ph_parent_id e)) hs))"
  using assms
proof (induction hs rule: rev_induct)
  case (snoc h hs)
  let ?f = "reparent (ph_id e) (ph_parent_id e)" and ?keep = "\<lambda>h. ph_id h \<noteq> ph_id e"
  show ?case
  proof (cases "h = e")
    case True
    have other: "ph_parent_id k \<noteq> Some (ph_id e)" if "k \<in> set hs" for k
      
    proof
      assume k: "ph_parent_id k = Some (ph_id e)"
      have "parent_in hs k" using versions_ok_in that snoc.prems(1) by simp
      with k obtain g where "g \<in> set hs" "ph_id g = ph_id e" by (auto simp: parent_in_def)
      then show False using snoc.prems(2) True by (auto simp: image_iff)
    qed
    then have "map ?f hs = hs" by (intro map_idI) (simp add: reparent_def)
    moreover have "filter ?keep hs = hs" using snoc.prems(2) True by (intro filter_True) (auto simp: image_iff)
    ultimately show ?thesis using snoc.prems(1) True by simp
  next
    case False
    then have e: "e \<in> set hs" "ph_id h \<noteq> ph_id e" using snoc.prems by auto
    have "parent_in (filter ?keep (map ?f hs)) (?f h)" using reparented_parent snoc.prems(1, 2) e(1) by blast
    then show ?thesis using snoc.IH snoc.prems e by simp
  qed
qed simp

definition wf_prompt_db :: "prompt_db \<Rightarrow> bool" where
  "wf_prompt_db db \<longleftrightarrow>
     distinct (map pr_id (db_prompts db)) \<and> distinct (map pr_command (db_prompts db)) \<and> distinct (map ph_id (db_histories db)) \<and>
     versions_ok (db_histories db) \<and> (\<forall>h \<in> set (db_histories db). ph_prompt_id h \<in> pr_id ` set (db_prompts db)) \<and>
     (\<forall>p \<in> set (db_prompts db). \<forall>v. pr_version_id p = Some v \<longrightarrow>
        (\<exists>h \<in> set (db_histories db). ph_id h = v \<and> ph_prompt_id h = pr_id p))"

lemma distinct_map_replace:
  "distinct (map f xs) \<Longrightarrow> distinct (map key xs) \<Longrightarrow> \<forall>q \<in> set xs. key q \<noteq> key p \<longrightarrow> f q \<noteq> f p \<Longrightarrow>
     distinct (map f (map (\<lambda>q. if key q = key p then p else q) xs))"
  by (induction xs) (auto simp: image_iff)

lemma find_prompt_in: "find_prompt i db = Some p \<Longrightarrow> p \<in> set (db_prompts db) \<and> pr_id p = i"
  by (auto simp: find_prompt_def dest: find_SomeD)

lemma put_prompt_ids [simp]: "map pr_id (db_prompts (put_prompt p db)) = map pr_id (db_prompts db)"
  by (simp add: put_prompt_def)

lemma put_prompt_simps [simp]: "db_histories (put_prompt p db) = db_histories db" "db_prompt_grants (put_prompt p db) = db_prompt_grants db"
  "db_prompt_uuid (put_prompt p db) = db_prompt_uuid db"
  by (simp_all add: put_prompt_def)

lemma wf_put_prompt:
  assumes wf: "wf_prompt_db db" and free: "\<not> command_taken (pr_command p) (pr_id p) db"
    and v: "\<And>v. pr_version_id p = Some v \<Longrightarrow> \<exists>h \<in> set (db_histories db). ph_id h = v \<and> ph_prompt_id h = pr_id p"
  shows "wf_prompt_db (put_prompt p db)"
proof -
  have "distinct (map pr_command (db_prompts (put_prompt p db)))"
    using wf free unfolding put_prompt_def wf_prompt_db_def
    by (auto simp: command_taken_def list_ex_iff simp del: map_map intro!: distinct_map_replace)
  moreover have "pr_id ` set (db_prompts (put_prompt p db)) = pr_id ` set (db_prompts db)"
    by (metis put_prompt_ids list.set_map)
  moreover have "q = p \<or> q \<in> set (db_prompts db)" if "q \<in> set (db_prompts (put_prompt p db))" for q
    using that by (auto simp: put_prompt_def)
  moreover have "\<exists>h \<in> set (db_histories db). ph_id h = w \<and> ph_prompt_id h = pr_id q"
    if "q \<in> set (db_prompts (put_prompt p db))" "pr_version_id q = Some w" for q w
    using calculation(3) [OF that(1)] v wf that(2) unfolding wf_prompt_db_def by blast
  ultimately show ?thesis using wf unfolding wf_prompt_db_def by (simp del: map_map)
qed

lemma wf_set_prompt_grants: "set_prompt_grants uuid now i gs db = (r, db') \<Longrightarrow> \<exists>adb. db' = db\<lparr>db_prompt_grants := adb\<rparr>"
  by (auto simp: set_prompt_grants_def split: prod.splits)

lemma wf_grants_update [simp]: "wf_prompt_db (db\<lparr>db_prompt_grants := adb\<rparr>) \<longleftrightarrow> wf_prompt_db db"
  by (simp add: wf_prompt_db_def)

lemma wf_uuid_update [simp]: "wf_prompt_db (db\<lparr>db_prompt_uuid := n\<rparr>) \<longleftrightarrow> wf_prompt_db db"
  by (simp add: wf_prompt_db_def)

lemma latest_history_in: "get_latest_history_entry i db = Some h \<Longrightarrow> h \<in> set (db_histories db) \<and> ph_prompt_id h = i"
proof -
  assume "get_latest_history_entry i db = Some h"
  then obtain hs where "order_desc ph_created_at (histories_of i db) = h # hs"
    by (auto simp: get_latest_history_entry_def split: list.splits)
  then have "h \<in> set (order_desc ph_created_at (histories_of i db))" by simp
  then show ?thesis by (simp add: histories_of_def)
qed

lemma wf_create_history:
  assumes "wf_prompt_db db" "create_history_entry uuid now i snap uid parent message db = (r, db')" "i \<in> pr_id ` set (db_prompts db)"
    "\<And>q. parent = Some q \<Longrightarrow> \<exists>h \<in> set (db_histories db). ph_id h = q \<and> ph_prompt_id h = i"
  shows "wf_prompt_db db' \<and> db_prompts db' = db_prompts db \<and> (\<forall>h. r = Inr h \<longrightarrow> h \<in> set (db_histories db') \<and> ph_prompt_id h = i)"
proof (cases "uuid (db_prompt_uuid db) \<in> ph_id ` set (db_histories db)")
  case False
  define h where "h = \<lparr>ph_id = uuid (db_prompt_uuid db), ph_prompt_id = i, ph_parent_id = parent, ph_snapshot = snap, ph_user_id = uid,
    ph_commit_message = message, ph_created_at = now\<rparr>"
  have db': "r = Inr h" "db_histories db' = db_histories db @ [h]" "db_prompts db' = db_prompts db"
    using assms(2) False by (auto simp: create_history_entry_def Let_def h_def)
  have "parent_in (db_histories db) h" using assms(4) by (cases parent) (auto simp: parent_in_def h_def)
  moreover have "ph_id h \<notin> ph_id ` set (db_histories db)" "ph_prompt_id h = i" using False by (simp_all add: h_def)
  moreover have "\<exists>h \<in> set (db_histories db @ [h]). ph_id h = v \<and> ph_prompt_id h = pr_id p"
    if "p \<in> set (db_prompts db)" "pr_version_id p = Some v" for p v
    using that assms(1) unfolding wf_prompt_db_def by (metis UnI1 set_append)
  ultimately show ?thesis using assms(1, 3) unfolding wf_prompt_db_def db' by simp
qed (use assms(1, 2) in \<open>auto simp: create_history_entry_def Let_def\<close>)

lemma wf_add_version:
  assumes "wf_prompt_db db" "p \<in> set (db_prompts db)"
    "\<And>q. parent = Some q \<Longrightarrow> \<exists>h \<in> set (db_histories db). ph_id h = q \<and> ph_prompt_id h = pr_id p"
  shows "wf_prompt_db (snd (add_version uuid now production p snap uid parent message db))"
proof (cases "create_history_entry uuid now (pr_id p) snap uid parent message db")
  case (Pair r db1)
  have w: "wf_prompt_db db1 \<and> db_prompts db1 = db_prompts db \<and> (\<forall>h. r = Inr h \<longrightarrow> h \<in> set (db_histories db1) \<and> ph_prompt_id h = pr_id p)"
    using wf_create_history [OF assms(1) Pair _ assms(3)] assms(2) by simp
  then have free: "\<not> command_taken (pr_command p) (pr_id p) db1"
    using same_key [OF _ _ assms(2), of pr_command] assms(1) by (auto simp: command_taken_def list_ex_iff wf_prompt_db_def)
  have old: "\<exists>h \<in> set (db_histories db1). ph_id h = v \<and> ph_prompt_id h = pr_id p" if "pr_version_id p = Some v" for v
    using w assms(2) that by (metis wf_prompt_db_def)
  show ?thesis
  proof (cases r)
    case (Inr h)
    have "wf_prompt_db (put_prompt (if production then p\<lparr>pr_version_id := Some (ph_id h)\<rparr> else p) db1)"
      by (rule wf_put_prompt) (use w free old Inr in \<open>auto split: if_splits\<close>)
    then show ?thesis using Inr Pair by (simp add: add_version_def Let_def)
  qed (use w Pair in \<open>simp add: add_version_def\<close>)
qed

section \<open>Every operation keeps the tables well-formed\<close>

lemma wf_insert_new_prompt: "wf_prompt_db db \<Longrightarrow> wf_prompt_db (snd (insert_new_prompt uuid now uid form db))"
proof (cases "uuid (db_prompt_uuid db) \<in> pr_id ` set (db_prompts db) \<or> pf_command form \<in> pr_command ` set (db_prompts db)")
  case False
  assume wf: "wf_prompt_db db"
  let ?i = "uuid (db_prompt_uuid db)"
  let ?p = "new_prompt ?i now uid form"
  let ?db0 = "db\<lparr>db_prompt_uuid := Suc (db_prompt_uuid db), db_prompts := db_prompts db @ [?p]\<rparr>"
  have wf0: "wf_prompt_db ?db0" using wf False by (auto simp: wf_prompt_db_def new_prompt_def)
  obtain r db1 where g: "set_prompt_grants uuid now ?i (pf_access_grants form) ?db0 = (r, db1)" by force
  then obtain adb where db1: "db1 = ?db0\<lparr>db_prompt_grants := adb\<rparr>" using wf_set_prompt_grants by blast
  have wf1: "wf_prompt_db db1" unfolding db1 using wf0 by simp
  have "?p \<in> set (db_prompts db1)" by (simp add: db1)
  then have v: "wf_prompt_db (snd (add_version uuid now True ?p snap uid None message db1))" for snap message
    by (intro wf_add_version [OF wf1]) simp_all
  show ?thesis
  proof (cases r)
    case (Inl e)
    then show ?thesis using g False wf1 by (simp add: insert_new_prompt_def Let_def)
  next
    case (Inr rows)
    then have "insert_new_prompt uuid now uid form db = add_version uuid now True ?p
        (form_snapshot form (pf_command form) (Some (or_empty (pf_tags form))) (prompt_grants ?i db1)) uid None
        (Some (if given (pf_commit_message form) then the (pf_commit_message form) else ''Initial version'')) db1"
      using g False by (simp add: insert_new_prompt_def Let_def)
    then show ?thesis using v by simp
  qed
qed (auto simp: insert_new_prompt_def Let_def)

lemma wf_replace_prompt_grants: "replace_prompt_grants uuid now i gs db = (r, db') \<Longrightarrow> \<exists>adb. db' = db\<lparr>db_prompt_grants := adb\<rparr>"
  by (cases "gs = None") (auto simp: replace_prompt_grants_def intro: wf_set_prompt_grants exI [of _ "db_prompt_grants db"])

lemma wf_store_update:
  assumes "wf_prompt_db db" "find_prompt i db = Some p" "pr_id p1 = pr_id p" "pr_version_id p1 = pr_version_id p"
    "parent = map_option ph_id (get_latest_history_entry i db)"
  shows "wf_prompt_db (snd (store_update uuid now uid form changed p1 snap parent db))"
proof -
  have p: "p \<in> set (db_prompts db)" "pr_id p = i" using find_prompt_in assms(2) by auto
  obtain r db1 where g: "replace_prompt_grants uuid now (pr_id p1) (pf_access_grants form) db = (r, db1)" by force
  then obtain adb where db1: "db1 = db\<lparr>db_prompt_grants := adb\<rparr>" using wf_replace_prompt_grants by blast
  have wf1: "wf_prompt_db db1" using assms(1) db1 by simp
  show ?thesis
  proof (cases "\<exists>rows. r = Inr rows \<and> \<not> command_taken (pr_command p1) (pr_id p1) db1")
    case True
    have wf2: "wf_prompt_db (put_prompt p1 db1)"
      by (rule wf_put_prompt) (use wf1 True assms p db1 in \<open>auto simp: wf_prompt_db_def\<close>)
    have "p1 \<in> set (db_prompts (put_prompt p1 db1))" using p assms(3) db1 by (auto simp: put_prompt_def intro!: rev_image_eqI)
    moreover have "\<exists>h \<in> set (db_histories (put_prompt p1 db1)). ph_id h = q \<and> ph_prompt_id h = pr_id p1" if "parent = Some q" for q
      using that latest_history_in [of i db] assms(3, 5) p db1 by auto
    ultimately show ?thesis using g True wf2 wf_add_version [OF wf2, of p1 parent]
      by (auto simp: store_update_def Let_def)
  qed (use g wf1 in \<open>auto simp: store_update_def split: sum.splits\<close>)
qed

lemma wf_update_prompt_by_id: "wf_prompt_db db \<Longrightarrow> wf_prompt_db (snd (update_prompt_by_id uuid now i form uid db))"
  by (auto simp: update_prompt_by_id_def intro!: wf_store_update split: option.splits)

lemma wf_find_command: "wf_prompt_db db \<Longrightarrow> List.find (\<lambda>p. pr_command p = c) (db_prompts db) = Some p \<Longrightarrow> find_prompt (pr_id p) db = Some p"
  unfolding find_prompt_def wf_prompt_db_def using find_distinct_key find_SomeD by metis

lemma wf_update_prompt_by_command: "wf_prompt_db db \<Longrightarrow> wf_prompt_db (snd (update_prompt_by_command uuid now c form uid db))"
  by (auto simp: update_prompt_by_command_def intro!: wf_store_update [OF _ wf_find_command] split: option.splits)

lemma version_in:
  "wf_prompt_db db \<Longrightarrow> p \<in> set (db_prompts db) \<Longrightarrow> pr_version_id p = Some v \<Longrightarrow>
     \<exists>h \<in> set (db_histories db). ph_id h = v \<and> ph_prompt_id h = pr_id p"
  by (simp add: wf_prompt_db_def)

lemma wf_update_prompt_metadata: "wf_prompt_db db \<Longrightarrow> wf_prompt_db (snd (update_prompt_metadata now i name c tags db))"
proof (cases "find_prompt i db")
  case (Some p)
  assume wf: "wf_prompt_db db"
  have p: "p \<in> set (db_prompts db)" "pr_id p = i" using find_prompt_in Some by auto
  then show ?thesis using Some version_in [OF wf p(1)] wf
    by (auto simp: update_prompt_metadata_def Let_def intro!: wf_put_prompt)
qed (simp add: update_prompt_metadata_def)

lemma own_command_free: "wf_prompt_db db \<Longrightarrow> p \<in> set (db_prompts db) \<Longrightarrow> \<not> command_taken (pr_command p) (pr_id p) db"
  using same_key [of pr_command "db_prompts db" _ p] by (auto simp: command_taken_def list_ex_iff wf_prompt_db_def)

lemma wf_update_prompt_version: "wf_prompt_db db \<Longrightarrow> wf_prompt_db (snd (update_prompt_version now i v db))"
proof (cases "\<exists>p h. find_prompt i db = Some p \<and> get_history_entry_by_id v db = Some h \<and> ph_prompt_id h = i")
  case True
  assume wf: "wf_prompt_db db"
  obtain p h where ph: "find_prompt i db = Some p" "get_history_entry_by_id v db = Some h" "ph_prompt_id h = i" using True by blast
  then have p: "p \<in> set (db_prompts db)" "pr_id p = i" and h: "h \<in> set (db_histories db)" "ph_id h = v"
    using find_prompt_in by (auto simp: get_history_entry_by_id_def dest: find_SomeD)
  have "\<not> command_taken (pr_command p) i db" using own_command_free [OF wf p(1)] p(2) by simp
  then show ?thesis using ph h p wf by (auto simp: update_prompt_version_def Let_def intro!: wf_put_prompt)
qed (auto simp: update_prompt_version_def split: option.splits)

lemma wf_toggle_prompt: "wf_prompt_db db \<Longrightarrow> wf_prompt_db (snd (toggle_prompt_active now i db))"
proof (cases "find_prompt i db")
  case (Some p)
  assume wf: "wf_prompt_db db"
  have p: "p \<in> set (db_prompts db)" "pr_id p = i" using find_prompt_in Some by auto
  then show ?thesis using Some version_in [OF wf p(1)] own_command_free [OF wf p(1)] wf
    by (auto simp: toggle_prompt_active_def Let_def intro!: wf_put_prompt)
qed (simp add: toggle_prompt_active_def)

lemma distinct_map_filtered: "distinct (map f xs) \<Longrightarrow> distinct (map f (filter P xs))"
  by (rule distinct_map_filter)

lemma versions_ok_filter_prompt: "versions_ok hs \<Longrightarrow> versions_ok (filter (\<lambda>h. ph_prompt_id h \<noteq> i) hs)"
  by (induction hs rule: rev_induct) (auto simp: parent_in_def split: option.splits)

lemma wf_remove_prompt:
  assumes "wf_prompt_db db"
  shows "wf_prompt_db (remove_prompt p db)"
proof -
  let ?db = "remove_prompt p db"
  have rows: "db_prompts ?db = filter (\<lambda>q. pr_id q \<noteq> pr_id p) (db_prompts db)"
    "db_histories ?db = filter (\<lambda>h. ph_prompt_id h \<noteq> pr_id p) (db_histories db)"
    by (simp_all add: remove_prompt_def delete_history_by_prompt_id_def Let_def)
  have "\<exists>h \<in> set (db_histories ?db). ph_id h = v \<and> ph_prompt_id h = pr_id q"
    if "q \<in> set (db_prompts ?db)" "pr_version_id q = Some v" for q v
    using version_in [OF assms, of q v] that rows by auto
  moreover have "ph_prompt_id h \<in> pr_id ` set (db_prompts ?db)" if "h \<in> set (db_histories ?db)" for h
    using that assms rows by (force simp: wf_prompt_db_def)
  ultimately show ?thesis using assms unfolding wf_prompt_db_def
    by (simp add: rows distinct_map_filtered versions_ok_filter_prompt)
qed

lemma wf_delete_history_entry:
  assumes wf: "wf_prompt_db db" and v: "\<And>p. p \<in> set (db_prompts db) \<Longrightarrow> pr_id p = i \<Longrightarrow> pr_version_id p \<noteq> Some hid"
  shows "wf_prompt_db (snd (delete_history_entry hid i db))"
proof (cases "bound_entry hid i db")
  case (Some e)
  have e: "e \<in> set (db_histories db)" "ph_id e = hid" "ph_prompt_id e = i" using Some by (auto simp: bound_entry_def dest: find_SomeD)
  let ?f = "reparent hid (ph_parent_id e)"
  let ?hs = "filter (\<lambda>h. ph_id h \<noteq> hid) (map ?f (db_histories db))"
  have db': "snd (delete_history_entry hid i db) = db\<lparr>db_histories := ?hs\<rparr>"
    using Some by (simp add: delete_history_entry_def reparent_def [abs_def])
  have "distinct (map ph_id ?hs)" using wf by (auto simp: wf_prompt_db_def comp_def intro!: distinct_map_filtered)
  moreover have "versions_ok ?hs" using versions_ok_delete [of "db_histories db" e] wf e by (simp add: wf_prompt_db_def)
  moreover have "\<exists>h \<in> set ?hs. ph_id h = w \<and> ph_prompt_id h = pr_id p" if p: "p \<in> set (db_prompts db)" "pr_version_id p = Some w" for p w
  proof -
    obtain h where h: "h \<in> set (db_histories db)" "ph_id h = w" "ph_prompt_id h = pr_id p" using version_in [OF wf p] by blast
    have "w \<noteq> hid"
    proof
      assume "w = hid"
      then have "h = e" using same_key [of ph_id "db_histories db" h e] wf h e by (simp add: wf_prompt_db_def)
      then show False using v [OF p(1)] p(2) h e \<open>w = hid\<close> by simp
    qed
    then show ?thesis using h by (intro bexI [of _ "?f h"]) auto
  qed
  ultimately show ?thesis using wf by (auto simp: db' wf_prompt_db_def)
qed (use wf in \<open>simp add: delete_history_entry_def\<close>)

lemmas wf_prompt_operations =
  wf_insert_new_prompt wf_update_prompt_by_id wf_update_prompt_by_command wf_update_prompt_metadata wf_update_prompt_version
  wf_toggle_prompt wf_remove_prompt

section \<open>What an operation leaves alone\<close>

text \<open>All there is of a prompt: its row, its versions and its grants.\<close>

definition prompt_view :: "string \<Rightarrow> prompt_db \<Rightarrow> prompt option \<times> prompt_history list \<times> access_grant list" where
  "prompt_view i db = (find_prompt i db, histories_of i db, prompt_grants i db)"

lemma find_put [simp]: "pr_id p \<noteq> i \<Longrightarrow> find_prompt i (put_prompt p db) = find_prompt i db"
proof -
  have "pr_id p \<noteq> i \<Longrightarrow> List.find (\<lambda>q. pr_id q = i) (map (\<lambda>q. if pr_id q = pr_id p then p else q) ps) = List.find (\<lambda>q. pr_id q = i) ps" for ps
    by (induction ps) auto
  then show "pr_id p \<noteq> i \<Longrightarrow> find_prompt i (put_prompt p db) = find_prompt i db" by (simp add: find_prompt_def put_prompt_def)
qed

lemma view_put [simp]: "pr_id p \<noteq> i \<Longrightarrow> prompt_view i (put_prompt p db) = prompt_view i db"
  by (simp add: prompt_view_def histories_of_def prompt_grants_def)

lemma view_uuid [simp]: "prompt_view i (db\<lparr>db_prompt_uuid := n\<rparr>) = prompt_view i db"
  by (simp add: prompt_view_def find_prompt_def histories_of_def prompt_grants_def)

lemma view_grants:
  assumes "set_prompt_grants uuid now j gs db = (r, db')" "i \<noteq> j"
  shows "prompt_view i db' = prompt_view i db"
proof -
  obtain adb where g: "set_access_grants uuid now ''prompt'' j gs (db_prompt_grants db) = (r, adb)"
    using assms(1) by (auto simp: set_prompt_grants_def split: prod.splits)
  then have "db' = db\<lparr>db_prompt_grants := adb\<rparr>" using assms(1) by (simp add: set_prompt_grants_def)
  then show ?thesis using set_access_grants_frame [OF g, of "''prompt''" i] assms(2)
    by (simp add: prompt_view_def find_prompt_def histories_of_def prompt_grants_def)
qed

lemma view_replace_grants: "replace_prompt_grants uuid now j gs db = (r, db') \<Longrightarrow> i \<noteq> j \<Longrightarrow> prompt_view i db' = prompt_view i db"
  by (cases "gs = None") (auto simp: replace_prompt_grants_def dest: view_grants)

lemma view_create_history:
  "create_history_entry uuid now j snap uid parent message db = (r, db') \<Longrightarrow> i \<noteq> j \<Longrightarrow> prompt_view i db' = prompt_view i db"
  by (auto simp: create_history_entry_def Let_def prompt_view_def find_prompt_def histories_of_def prompt_grants_def split: if_splits)

lemma view_add_version:
  "pr_id p \<noteq> i \<Longrightarrow> prompt_view i (snd (add_version uuid now production p snap uid parent message db)) = prompt_view i db"
proof -
  assume i: "pr_id p \<noteq> i"
  obtain r db1 where c: "create_history_entry uuid now (pr_id p) snap uid parent message db = (r, db1)" by force
  then show ?thesis using view_create_history [OF c, of i] i by (cases r) (auto simp: add_version_def Let_def)
qed

lemma view_store_update:
  assumes "pr_id p1 \<noteq> i"
  shows "prompt_view i (snd (store_update uuid now uid form changed p1 snap parent db)) = prompt_view i db"
proof -
  obtain r db1 where g: "replace_prompt_grants uuid now (pr_id p1) (pf_access_grants form) db = (r, db1)" by force
  note v = view_replace_grants [OF g, of i]
  show ?thesis using assms g v view_add_version [of p1 i uuid now "pf_is_production form = Some True"]
    by (cases r) (auto simp: store_update_def Let_def)
qed

lemma view_insert:
  assumes "find_prompt i db \<noteq> None"
  shows "prompt_view i (snd (insert_new_prompt uuid now uid form db)) = prompt_view i db"
proof (cases "uuid (db_prompt_uuid db) \<in> pr_id ` set (db_prompts db) \<or> pf_command form \<in> pr_command ` set (db_prompts db)")
  case False
  let ?j = "uuid (db_prompt_uuid db)"
  let ?p = "new_prompt ?j now uid form"
  let ?db0 = "db\<lparr>db_prompt_uuid := Suc (db_prompt_uuid db), db_prompts := db_prompts db @ [?p]\<rparr>"
  have id: "pr_id ?p = ?j" by (simp add: new_prompt_def)
  have i: "i \<noteq> ?j" using assms False find_prompt_in by (metis imageI option.exhaust)
  have "find_prompt i ?db0 = find_prompt i db"
    using assms by (auto simp: find_prompt_def find_Some_iff_hd split: list.splits)
  then have v0: "prompt_view i ?db0 = prompt_view i db" by (simp add: prompt_view_def histories_of_def prompt_grants_def)
  obtain r db1 where g: "set_prompt_grants uuid now ?j (pf_access_grants form) ?db0 = (r, db1)" by force
  note v1 = view_grants [OF g i]
  show ?thesis using False g v0 v1 id i view_add_version [of ?p i uuid now True]
    by (cases r) (auto simp: insert_new_prompt_def Let_def)
qed (auto simp: insert_new_prompt_def Let_def)

lemma view_update_prompt_by_id: "j \<noteq> i \<Longrightarrow> prompt_view i (snd (update_prompt_by_id uuid now j form uid db)) = prompt_view i db"
  by (auto simp: update_prompt_by_id_def view_store_update split: option.splits dest: find_prompt_in)

lemma view_update_prompt_metadata: "j \<noteq> i \<Longrightarrow> prompt_view i (snd (update_prompt_metadata now j name c tags db)) = prompt_view i db"
  by (auto simp: update_prompt_metadata_def Let_def split: option.splits dest: find_prompt_in)

lemma view_update_prompt_version: "j \<noteq> i \<Longrightarrow> prompt_view i (snd (update_prompt_version now j v db)) = prompt_view i db"
  by (auto simp: update_prompt_version_def Let_def split: option.splits dest: find_prompt_in)

lemma view_toggle: "j \<noteq> i \<Longrightarrow> prompt_view i (snd (toggle_prompt_active now j db)) = prompt_view i db"
  by (auto simp: toggle_prompt_active_def Let_def split: option.splits dest: find_prompt_in)

lemma view_remove: "pr_id p \<noteq> i \<Longrightarrow> prompt_view i (remove_prompt p db) = prompt_view i db"
proof -
  assume i: "pr_id p \<noteq> i"
  have "List.find (\<lambda>q. pr_id q = i) (filter (\<lambda>q. pr_id q \<noteq> pr_id p) ps) = List.find (\<lambda>q. pr_id q = i) ps" for ps :: "prompt list"
    using i by (induction ps) auto
  moreover have "filter (\<lambda>h. ph_prompt_id h = i) (filter (\<lambda>h. ph_prompt_id h \<noteq> pr_id p) hs) = filter (\<lambda>h. ph_prompt_id h = i) hs" for hs :: "prompt_history list"
    using i by (auto intro: filter_cong)
  moreover have "filter (of_resource ''prompt'' i) (filter (\<lambda>g. \<not> of_resource ''prompt'' (pr_id p) g) gs) = filter (of_resource ''prompt'' i) gs" for gs
    using i by (auto simp: of_resource_def intro: filter_cong)
  ultimately show ?thesis
    by (simp add: remove_prompt_def Let_def delete_history_by_prompt_id_def revoke_all_access_def delete_grants_def prompt_view_def
        find_prompt_def histories_of_def prompt_grants_def get_grants_by_resource_def)
qed

lemma view_delete_history_entry:
  assumes wf: "wf_prompt_db db" and i: "j \<noteq> i"
  shows "prompt_view i (snd (delete_history_entry hid j db)) = prompt_view i db"
proof (cases "bound_entry hid j db")
  case (Some e)
  have e: "e \<in> set (db_histories db)" "ph_id e = hid" "ph_prompt_id e = j" using Some by (auto simp: bound_entry_def dest: find_SomeD)
  have other: "ph_id h \<noteq> hid \<and> ph_parent_id h \<noteq> Some hid" if h: "h \<in> set (db_histories db)" "ph_prompt_id h = i" for h
  proof -
    have same: "g = e" if "g \<in> set (db_histories db)" "ph_id g = hid" for g
      using same_key [of ph_id "db_histories db" g e] wf e that by (simp add: wf_prompt_db_def)
    have "parent_in (db_histories db) h" using versions_ok_in wf h(1) by (simp add: wf_prompt_db_def)
    then show ?thesis using same [of h] same h e(3) i by (auto simp: parent_in_def)
  qed
  have "filter (\<lambda>h. ph_prompt_id h = i) (filter (\<lambda>h. ph_id h \<noteq> hid) (map (reparent hid q) hs)) = filter (\<lambda>h. ph_prompt_id h = i) hs"
    if "set hs \<subseteq> set (db_histories db)" for hs q
    using that other by (induction hs) (auto simp: reparent_def)
  then show ?thesis using Some
    by (simp add: delete_history_entry_def prompt_view_def find_prompt_def histories_of_def prompt_grants_def reparent_def [abs_def])
qed (simp add: delete_history_entry_def)

end
