(* ===== verification/Routes.thy ===== *)
theory Routes
  imports Permissions
begin

text \<open>
  What the HTTP handlers of several routers share: the state of the server they read and never write, as a record, the checks of
  roles, permissions and grants, and how a handler ends when a check raises. The locale states the contract of a router whose handlers
  check before they change something, and what follows for a resource under any sequence of requests: the first request that changes it
  is by somebody entitled to, and since the resource had not changed before, entitled from the beginning.
\<close>

section \<open>The server\<close>

record server =
  sv_builtin :: dict
  sv_permissions :: dict
  sv_groups :: group_db
  sv_users :: user_db
  sv_bypass :: bool
  sv_uuid :: "nat \<Rightarrow> string"
  sv_now :: int
  sv_empty_or :: bool
  sv_ilike :: "string \<Rightarrow> string \<Rightarrow> bool"
  sv_lower :: "string \<Rightarrow> string"
  sv_diff :: "string \<Rightarrow> string \<Rightarrow> string \<Rightarrow> string \<Rightarrow> string list"

abbreviation not_found :: py_error where "not_found \<equiv> HTTPException 404 ''NOT_FOUND''"
abbreviation prohibited :: py_error where "prohibited \<equiv> HTTPException 401 ''ACCESS_PROHIBITED''"
abbreviation unauthorized :: py_error where "unauthorized \<equiv> HTTPException 401 ''UNAUTHORIZED''"
abbreviation bad_request :: py_error where "bad_request \<equiv> HTTPException 400 ''DEFAULT''"
abbreviation forbidden :: py_error where "forbidden \<equiv> HTTPException 403 ''DEFAULT''"

definition sees_all :: "server \<Rightarrow> user \<Rightarrow> bool" where
  "sees_all sv u \<longleftrightarrow> u_role u = ''admin'' \<and> sv_bypass sv"

definition user_permission :: "server \<Rightarrow> user \<Rightarrow> string \<Rightarrow> bool result" where
  "user_permission sv u key = rbind (has_permission (sv_builtin sv) (sv_groups sv) (u_id u) key (sv_permissions sv)) (\<lambda>(b, _). Inr b)"

definition allowed_grants :: "server \<Rightarrow> user \<Rightarrow> string \<Rightarrow> grant_item list option \<Rightarrow> grant_item list option result" where
  "allowed_grants sv u public_key grants =
     (case grants of
        None \<Rightarrow> Inr None
      | Some gs \<Rightarrow> rbind (filter_allowed_access_grants (sv_builtin sv) (sv_groups sv) (sv_permissions sv) (u_id u) (u_role u) gs
                            public_key None) (\<lambda>(gs', _). Inr (Some gs')))"

definition user_group_ids :: "server \<Rightarrow> user \<Rightarrow> string list" where
  "user_group_ids sv u = map g_id (get_groups_by_member_id (u_id u) (sv_groups sv))"

text \<open>A handler that raises before it stores anything leaves the tables as they are.\<close>

definition run :: "'db \<Rightarrow> 'a result \<Rightarrow> ('a \<Rightarrow> 'r result \<times> 'db) \<Rightarrow> 'r result \<times> 'db" where
  "run db r f = (case r of Inl e \<Rightarrow> (Inl e, db) | Inr x \<Rightarrow> f x)"

lemma snd_run: "P db \<Longrightarrow> (\<And>x. r = Inr x \<Longrightarrow> P (snd (f x))) \<Longrightarrow> P (snd (run db r f))"
  by (auto simp: run_def split: sum.splits)

lemma run_Inr: "run db r f = (Inr y, db') \<Longrightarrow> \<exists>x. r = Inr x \<and> f x = (Inr y, db')"
  by (auto simp: run_def split: sum.splits)

lemma run_simps [simp]: "run db (Inl e) f = (Inl e, db)" "run db (Inr x) f = f x"
  by (simp_all add: run_def)

text \<open>A query parameter that is empty is not put into a filter.\<close>

definition nonempty :: "string option \<Rightarrow> string option" where
  "nonempty s = (if given s then s else None)"

section \<open>Rows\<close>

text \<open>\<open>ORDER BY\<close> one of three columns; descending order leaves rows with the same value in the order they had.\<close>

definition sorted_rows ::
    "('a \<Rightarrow> string) \<Rightarrow> ('a \<Rightarrow> int) \<Rightarrow> ('a \<Rightarrow> int) \<Rightarrow> string option \<Rightarrow> string option \<Rightarrow> 'a list \<Rightarrow> 'a list" where
  "sorted_rows name created updated column direction rows =
     (let asc = (direction = Some ''asc'')
      in if column = Some ''name'' then (if asc then sort_key name rows else rev (sort_key name (rev rows)))
         else if column = Some ''created_at'' then (if asc then sort_key created rows else order_desc created rows)
         else if column = Some ''updated_at'' then (if asc then sort_key updated rows else order_desc updated rows)
         else order_desc updated rows)"

lemma set_sorted_rows [simp]: "set (sorted_rows n c u b d rows) = set rows"
  by (simp add: sorted_rows_def Let_def)

text \<open>Replacing or deleting the row with one id leaves the others.\<close>

lemma find_replace: "key p \<noteq> i \<Longrightarrow> List.find (\<lambda>q. key q = i) (map (\<lambda>q. if key q = key p then p else q) ps) = List.find (\<lambda>q. key q = i) ps"
  by (induction ps) auto

lemma find_filter_other: "j \<noteq> i \<Longrightarrow> List.find (\<lambda>q. key q = i) (filter (\<lambda>q. key q \<noteq> j) ps) = List.find (\<lambda>q. key q = i) ps"
  by (induction ps) auto

lemma find_append_new: "List.find P xs \<noteq> None \<Longrightarrow> List.find P (xs @ ys) = List.find P xs"
  by (induction xs) auto

lemma revoke_frame:
  "rid' \<noteq> rid \<Longrightarrow> get_grants_by_resource rtype rid' (snd (revoke_all_access rtype rid db)) = get_grants_by_resource rtype rid' db"
  by (auto simp: revoke_all_access_def delete_grants_def get_grants_by_resource_def of_resource_def intro: filter_cong)

section \<open>Grants of one resource\<close>

definition grants_give :: "group_db \<Rightarrow> string \<Rightarrow> string \<Rightarrow> access_grant list \<Rightarrow> bool" where
  "grants_give gdb uid perm gs \<longleftrightarrow>
     list_ex (\<lambda>g. ag_permission g = perm \<and> principal_matches uid (effective_group_ids gdb uid None) g) gs"

lemma has_access_grants_give:
  "has_access gdb uid rtype rid perm None db = grants_give gdb uid perm (get_grants_by_resource rtype rid db)"
  by (auto simp: has_access_def grants_give_def get_grants_by_resource_def list_ex_iff)

text \<open>The rows a query filter lets through for a user: owned, or given by a grant.\<close>

definition permitted_rows ::
    "('a \<Rightarrow> document) \<Rightarrow> bool \<Rightarrow> string option \<Rightarrow> string list \<Rightarrow> string \<Rightarrow> string \<Rightarrow> grant_db \<Rightarrow> 'a list \<Rightarrow> 'a list" where
  "permitted_rows doc empty_or uid gids rtype perm adb rows =
     filter (\<lambda>r. has_permission_filter empty_or uid gids rtype perm adb [doc r] \<noteq> []) rows"

lemma set_permitted_rows: "set (permitted_rows doc e uid gids rtype perm adb rows) \<subseteq> set rows"
  by (auto simp: permitted_rows_def)

lemma permitted_rows_access:
  assumes "r \<in> set (permitted_rows doc e (Some uid) (map g_id (get_groups_by_member_id uid gdb)) rtype perm adb rows)" "uid \<noteq> []"
  shows "doc_user_id (doc r) = uid \<or> has_access gdb uid rtype (doc_id (doc r)) (if perm = ''read_only'' then ''read'' else perm) None adb"
proof (cases "perm = ''read_only''")
  case True
  then have "\<exists>g \<in> set (db_grants adb). of_resource rtype (doc_id (doc r)) g \<and> ag_permission g = ''read'' \<and>
      direct_principal (Some uid) (map g_id (get_groups_by_member_id uid gdb)) g"
    using assms by (auto simp: permitted_rows_def has_permission_filter_def read_only_permission_filter_def Let_def given_def list_ex_iff split: if_splits)
  then have "has_access gdb uid rtype (doc_id (doc r)) ''read'' None adb"
    by (fastforce simp: has_access_def list_ex_iff direct_principal_def principal_matches_def effective_group_ids_def)
  then show ?thesis using True by simp
next
  case False
  then show ?thesis using assms permission_filter_eq [OF assms(2) False, of e "map g_id (get_groups_by_member_id uid gdb)" rtype adb "[doc r]" gdb]
    by (auto simp: permitted_rows_def has_access_None split: if_splits)
qed

section \<open>Guarded requests\<close>

text \<open>
  \<open>step q\<close> is what the request \<open>q\<close> does to the tables, \<open>view\<close> is all there is of one resource, \<open>may q v\<close> that \<open>q\<close> comes from somebody
  who may change a resource that looks like \<open>v\<close>.
\<close>

locale guarded_requests =
  fixes step :: "'q \<Rightarrow> 'db \<Rightarrow> 'db" and ok :: "'db \<Rightarrow> bool" and view :: "'db \<Rightarrow> 'v" and present :: "'v \<Rightarrow> bool" and may :: "'q \<Rightarrow> 'v \<Rightarrow> bool"
  assumes ok_step: "ok db \<Longrightarrow> ok (step q db)"
    and guarded: "ok db \<Longrightarrow> present (view db) \<Longrightarrow> view (step q db) \<noteq> view db \<Longrightarrow> may q (view db)"
begin

lemma ok_run: "ok db \<Longrightarrow> ok (fold step qs db)"
  by (induction qs arbitrary: db) (auto intro: ok_step)

lemma unentitled_leave:
  "ok db \<Longrightarrow> present (view db) \<Longrightarrow> \<forall>q \<in> set qs. \<not> may q (view db) \<Longrightarrow> view (fold step qs db) = view db"
proof (induction qs arbitrary: db)
  case (Cons q qs)
  have same: "view (step q db) = view db" using guarded [of db q] Cons.prems by auto
  show ?case using Cons.IH [OF ok_step [OF Cons.prems(1)], of q] Cons.prems same by auto
qed simp

lemma change_entitled:
  "ok db \<Longrightarrow> present (view db) \<Longrightarrow> view (fold step qs db) \<noteq> view db \<Longrightarrow> \<exists>q \<in> set qs. may q (view db)"
  using unentitled_leave by blast

end

end
