(* ===== verification/PromptRoutes.thy ===== *)
theory PromptRoutes
  imports Prompts Routes
begin

text \<open>
  The handlers of \<open>backend/open_webui/routers/prompts.py\<close> over the tables of \<open>Prompts\<close>, the grants and the permissions. A request is
  one of the endpoints with its parameters; which endpoint a path reaches is decided by the order in which the router declares them.
  The details of an \<open>HTTPException\<close> are named by their constants. Publishing events, which notifies webhooks, is left out.
\<close>

section \<open>Checks\<close>

definition has_prompt_access :: "server \<Rightarrow> user \<Rightarrow> string \<Rightarrow> string \<Rightarrow> prompt_db \<Rightarrow> bool" where
  "has_prompt_access sv u i perm db \<longleftrightarrow> has_access (sv_groups sv) (u_id u) ''prompt'' i perm None (db_prompt_grants db)"

definition may_access :: "server \<Rightarrow> user \<Rightarrow> prompt \<Rightarrow> string \<Rightarrow> prompt_db \<Rightarrow> bool" where
  "may_access sv u p perm db \<longleftrightarrow> pr_user_id p = u_id u \<or> has_prompt_access sv u (pr_id p) perm db \<or> u_role u = ''admin''"

definition write_access :: "server \<Rightarrow> user \<Rightarrow> prompt \<Rightarrow> prompt_db \<Rightarrow> bool" where
  "write_access sv u p db \<longleftrightarrow> sees_all sv u \<or> u_id u = pr_user_id p \<or> has_prompt_access sv u (pr_id p) ''write'' db"

text \<open>The prompt a request is about, if the user may read or write it.\<close>

definition checked_prompt :: "server \<Rightarrow> user \<Rightarrow> string \<Rightarrow> string \<Rightarrow> prompt_db \<Rightarrow> prompt result" where
  "checked_prompt sv u i perm db =
     (case find_prompt i db of
        None \<Rightarrow> Inl not_found
      | Some p \<Rightarrow> if may_access sv u p perm db then Inr p else Inl prohibited)"

text \<open>The command a prompt is to get must not be another's.\<close>

definition command_free :: "string \<Rightarrow> prompt \<Rightarrow> prompt_db \<Rightarrow> unit result" where
  "command_free command p db =
     (if command \<noteq> pr_command p \<and>
         (case get_prompt_by_command command db of None \<Rightarrow> False | Some m \<Rightarrow> pr_id (fst m) \<noteq> pr_id p)
      then Inl (HTTPException 400 ''COMMAND_TAKEN'') else Inr ())"

section \<open>Responses\<close>

datatype response =
  Prompts "prompt_response list"
| Tags "string list"
| Page "(prompt_response \<times> bool) list" nat
| Prompt prompt_model
| Prompt_access prompt_model bool
| No_prompt
| Versions "(prompt_history \<times> user option) list"
| Version prompt_history
| Difference history_diff
| Done bool

text \<open>A handler that stores something answers with the prompt, or 400 if it could not.\<close>

definition stored :: "prompt_model option \<times> prompt_db \<Rightarrow> response result \<times> prompt_db" where
  "stored r = (case r of (None, db) \<Rightarrow> (Inl bad_request, db) | (Some m, db) \<Rightarrow> (Inr (Prompt m), db))"

section \<open>Reading\<close>

definition get_prompts_route :: "server \<Rightarrow> user \<Rightarrow> prompt_db \<Rightarrow> response" where
  "get_prompts_route sv u db =
     Prompts (if sees_all sv u then get_prompts (sv_users sv) db
              else get_prompts_by_user_id (sv_empty_or sv) (sv_groups sv) (sv_users sv) (u_id u) ''read'' db)"

definition get_prompt_tags_route :: "server \<Rightarrow> user \<Rightarrow> prompt_db \<Rightarrow> response" where
  "get_prompt_tags_route sv u db =
     Tags (if sees_all sv u then get_tags db else get_tags_by_user_id (sv_empty_or sv) (sv_groups sv) (u_id u) db)"

definition page_item_count :: nat where
  "page_item_count = 30"

definition list_query :: "server \<Rightarrow> user \<Rightarrow> prompt_query \<Rightarrow> prompt_query" where
  "list_query sv u q =
     (let gids = map g_id (get_groups_by_member_id (u_id u) (sv_groups sv)); all = sees_all sv u
      in \<lparr>pq_query = nonempty (pq_query q), pq_view_option = nonempty (pq_view_option q), pq_tag = nonempty (pq_tag q),
          pq_order_by = nonempty (pq_order_by q), pq_direction = nonempty (pq_direction q),
          pq_user_id = (if all then None else Some (u_id u)), pq_group_ids = (if all \<or> gids = [] then None else Some gids)\<rparr>)"

definition get_prompt_list :: "server \<Rightarrow> user \<Rightarrow> prompt_query \<Rightarrow> int \<Rightarrow> prompt_db \<Rightarrow> response" where
  "get_prompt_list sv u q page db =
     (let skip = nat (max 1 page - 1) * page_item_count;
          (items, total) = search_prompts (sv_empty_or sv) (sv_ilike sv) (sv_lower sv) (sv_users sv) (u_id u) (list_query sv u q)
                             skip page_item_count db;
          writable = get_accessible_resource_ids (sv_groups sv) (u_id u) ''prompt'' (map (\<lambda>x. pr_id (fst (fst x))) items) ''write''
                       (Some (map g_id (get_groups_by_member_id (u_id u) (sv_groups sv)))) (db_prompt_grants db)
      in Page (map (\<lambda>x. let p = fst (fst x) in (x, sees_all sv u \<or> u_id u = pr_user_id p \<or> pr_id p \<in> writable)) items) total)"

definition get_prompt_route :: "server \<Rightarrow> user \<Rightarrow> string \<Rightarrow> prompt_db \<Rightarrow> response result" where
  "get_prompt_route sv u i db =
     (case get_prompt_by_id i db of
        None \<Rightarrow> Inl not_found
      | Some m \<Rightarrow> if may_access sv u (fst m) ''read'' db then Inr (Prompt_access m (write_access sv u (fst m) db)) else Inl not_found)"

definition get_prompt_history :: "server \<Rightarrow> user \<Rightarrow> string \<Rightarrow> nat \<Rightarrow> prompt_db \<Rightarrow> response result" where
  "get_prompt_history sv u i page db =
     rbind (checked_prompt sv u i ''read'' db) (\<lambda>p.
       Inr (Versions (get_history_by_prompt_id (sv_users sv) (pr_id p) 20 (page * 20) db)))"

definition get_prompt_history_entry :: "server \<Rightarrow> user \<Rightarrow> string \<Rightarrow> string \<Rightarrow> prompt_db \<Rightarrow> response result" where
  "get_prompt_history_entry sv u i hid db =
     rbind (checked_prompt sv u i ''read'' db) (\<lambda>p.
       case get_history_entry_by_id hid db of
         None \<Rightarrow> Inl not_found
       | Some h \<Rightarrow> if ph_prompt_id h \<noteq> pr_id p then Inl not_found else Inr (Version h))"

definition get_prompt_diff :: "server \<Rightarrow> user \<Rightarrow> string \<Rightarrow> string \<Rightarrow> string \<Rightarrow> prompt_db \<Rightarrow> response result" where
  "get_prompt_diff sv u i from_id to_id db =
     rbind (checked_prompt sv u i ''read'' db) (\<lambda>p.
       case compute_diff (sv_diff sv) from_id to_id (pr_id p) db of None \<Rightarrow> Inl not_found | Some d \<Rightarrow> Inr (Difference d))"

section \<open>Writing\<close>

definition create_new_prompt :: "server \<Rightarrow> user \<Rightarrow> prompt_form \<Rightarrow> prompt_db \<Rightarrow> response result \<times> prompt_db" where
  "create_new_prompt sv u form db =
     run db (if u_role u = ''admin'' then Inr True
             else rbind (user_permission sv u ''workspace.prompts'') (\<lambda>b.
                  if b then Inr True else user_permission sv u ''workspace.prompts_import'')) (\<lambda>allowed.
     if \<not> allowed then (Inl (HTTPException 401 ''UNAUTHORIZED''), db)
     else run db (allowed_grants sv u ''sharing.public_prompts'' (pf_access_grants form)) (\<lambda>grants.
          if get_prompt_by_command (pf_command form) db = None
          then stored (insert_new_prompt (sv_uuid sv) (sv_now sv) (u_id u) (form\<lparr>pf_access_grants := grants\<rparr>) db)
          else (Inl (HTTPException 400 ''COMMAND_TAKEN''), db)))"

definition update_prompt_route :: "server \<Rightarrow> user \<Rightarrow> string \<Rightarrow> prompt_form \<Rightarrow> prompt_db \<Rightarrow> response result \<times> prompt_db" where
  "update_prompt_route sv u i form db =
     run db (checked_prompt sv u i ''write'' db) (\<lambda>p.
     run db (command_free (pf_command form) p db) (\<lambda>_.
     run db (allowed_grants sv u ''sharing.public_prompts'' (pf_access_grants form)) (\<lambda>grants.
       stored (update_prompt_by_id (sv_uuid sv) (sv_now sv) (pr_id p) (form\<lparr>pf_access_grants := grants\<rparr>) (u_id u) db))))"

definition update_metadata_route ::
    "server \<Rightarrow> user \<Rightarrow> string \<Rightarrow> string \<Rightarrow> string \<Rightarrow> string option list option \<Rightarrow> prompt_db \<Rightarrow> response result \<times> prompt_db" where
  "update_metadata_route sv u i name command tags db =
     run db (checked_prompt sv u i ''write'' db) (\<lambda>p.
     run db (command_free command p db) (\<lambda>_.
       stored (update_prompt_metadata (sv_now sv) (pr_id p) name command tags db)))"

definition set_prompt_version :: "server \<Rightarrow> user \<Rightarrow> string \<Rightarrow> string \<Rightarrow> prompt_db \<Rightarrow> response result \<times> prompt_db" where
  "set_prompt_version sv u i version_id db =
     run db (checked_prompt sv u i ''write'' db) (\<lambda>p. stored (update_prompt_version (sv_now sv) (pr_id p) version_id db))"

definition update_prompt_access :: "server \<Rightarrow> user \<Rightarrow> string \<Rightarrow> grant_item list \<Rightarrow> prompt_db \<Rightarrow> response result \<times> prompt_db" where
  "update_prompt_access sv u i grants db =
     run db (checked_prompt sv u i ''write'' db) (\<lambda>p.
     run db (allowed_grants sv u ''sharing.public_prompts'' (Some grants)) (\<lambda>gs.
       case set_prompt_grants (sv_uuid sv) (sv_now sv) i gs db of
         (Inl e, db1) \<Rightarrow> (Inl e, db1)
       | (Inr _, db1) \<Rightarrow> (Inr (case get_prompt_by_id i db1 of None \<Rightarrow> No_prompt | Some m \<Rightarrow> Prompt m), db1)))"

definition toggle_prompt_route :: "server \<Rightarrow> user \<Rightarrow> string \<Rightarrow> prompt_db \<Rightarrow> response result \<times> prompt_db" where
  "toggle_prompt_route sv u i db =
     run db (checked_prompt sv u i ''write'' db) (\<lambda>p. stored (toggle_prompt_active (sv_now sv) (pr_id p) db))"

definition delete_prompt_route :: "server \<Rightarrow> user \<Rightarrow> string \<Rightarrow> prompt_db \<Rightarrow> response result \<times> prompt_db" where
  "delete_prompt_route sv u i db =
     run db (checked_prompt sv u i ''write'' db) (\<lambda>p.
       case delete_prompt_by_id (pr_id p) db of (b, db1) \<Rightarrow> (Inr (Done b), db1))"

definition delete_history_route :: "server \<Rightarrow> user \<Rightarrow> string \<Rightarrow> string \<Rightarrow> prompt_db \<Rightarrow> response result \<times> prompt_db" where
  "delete_history_route sv u i hid db =
     run db (checked_prompt sv u i ''write'' db) (\<lambda>p.
     if pr_version_id p = Some hid then (Inl (HTTPException 400 ''Cannot delete the active production version''), db)
     else case delete_history_entry hid (pr_id p) db of
            (b, db1) \<Rightarrow> if b then (Inr (Done True), db1) else (Inl not_found, db1))"

section \<open>The router\<close>

datatype request =
  List_prompts
| List_tags
| List_page prompt_query int
| Create prompt_form
| Get string
| Update string prompt_form
| Update_metadata string string string "string option list option"
| Set_version string string
| Set_access string "grant_item list"
| Toggle string
| Delete string
| History string nat
| History_entry string string
| Delete_history string string
| Diff string string string

fun handle :: "server \<Rightarrow> user \<Rightarrow> request \<Rightarrow> prompt_db \<Rightarrow> response result \<times> prompt_db" where
  "handle sv u List_prompts db = (Inr (get_prompts_route sv u db), db)"
| "handle sv u List_tags db = (Inr (get_prompt_tags_route sv u db), db)"
| "handle sv u (List_page q page) db = (Inr (get_prompt_list sv u q page db), db)"
| "handle sv u (Create form) db = create_new_prompt sv u form db"
| "handle sv u (Get i) db = (get_prompt_route sv u i db, db)"
| "handle sv u (Update i form) db = update_prompt_route sv u i form db"
| "handle sv u (Update_metadata i name command tags) db = update_metadata_route sv u i name command tags db"
| "handle sv u (Set_version i v) db = set_prompt_version sv u i v db"
| "handle sv u (Set_access i gs) db = update_prompt_access sv u i gs db"
| "handle sv u (Toggle i) db = toggle_prompt_route sv u i db"
| "handle sv u (Delete i) db = delete_prompt_route sv u i db"
| "handle sv u (History i page) db = (get_prompt_history sv u i page db, db)"
| "handle sv u (History_entry i hid) db = (get_prompt_history_entry sv u i hid db, db)"
| "handle sv u (Delete_history i hid) db = delete_history_route sv u i hid db"
| "handle sv u (Diff i a b) db = (get_prompt_diff sv u i a b db, db)"

text \<open>The paths of the \<open>GET\<close> endpoints in the order of their declarations; a parameter matches any one segment, and the first path that
  matches is taken.\<close>

datatype segment = Lit string | Param

datatype get_endpoint = E_prompts | E_tags | E_list | E_get | E_history | E_entry | E_diff

definition get_paths :: "(segment list \<times> get_endpoint) list" where
  "get_paths =
     [([], E_prompts), ([Lit ''tags''], E_tags), ([Lit ''list''], E_list), ([Lit ''id'', Param], E_get),
      ([Lit ''id'', Param, Lit ''history''], E_history), ([Lit ''id'', Param, Lit ''history'', Param], E_entry),
      ([Lit ''id'', Param, Lit ''history'', Lit ''diff''], E_diff)]"

fun path_params :: "segment list \<Rightarrow> string list \<Rightarrow> string list option" where
  "path_params [] [] = Some []"
| "path_params (Lit s # ps) (x # xs) = (if s = x then path_params ps xs else None)"
| "path_params (Param # ps) (x # xs) = (if x = [] then None else map_option ((#) x) (path_params ps xs))"
| "path_params _ _ = None"

fun first_path :: "(segment list \<times> get_endpoint) list \<Rightarrow> string list \<Rightarrow> (get_endpoint \<times> string list) option" where
  "first_path [] path = None"
| "first_path ((ps, e) # rs) path =
     (case path_params ps path of Some xs \<Rightarrow> Some (e, xs) | None \<Rightarrow> first_path rs path)"

definition get_request :: "string list \<Rightarrow> prompt_query \<Rightarrow> int \<Rightarrow> string \<Rightarrow> string \<Rightarrow> request option" where
  "get_request path q page from_id to_id =
     (case first_path get_paths path of
        Some (E_prompts, _) \<Rightarrow> Some List_prompts
      | Some (E_tags, _) \<Rightarrow> Some List_tags
      | Some (E_list, _) \<Rightarrow> Some (List_page q page)
      | Some (E_get, [i]) \<Rightarrow> Some (Get i)
      | Some (E_history, [i]) \<Rightarrow> Some (History i (nat page))
      | Some (E_entry, [i, h]) \<Rightarrow> Some (History_entry i h)
      | Some (E_diff, [i]) \<Rightarrow> Some (Diff i from_id to_id)
      | _ \<Rightarrow> None)"

section \<open>The tables stay well-formed\<close>

text \<open>How a handler that stores something ends: with the tables its operation leaves, or unchanged.\<close>

lemma snd_stored [simp]: "snd (stored r) = snd r"
  by (cases r) (auto simp: stored_def split: option.splits)

lemma checked_promptD: "checked_prompt sv u i perm db = Inr p \<Longrightarrow> find_prompt i db = Some p \<and> pr_id p = i \<and> may_access sv u p perm db"
  by (auto simp: checked_prompt_def dest: find_prompt_in split: option.splits if_splits)

lemma handle_wf:
  assumes "wf_prompt_db db"
  shows "wf_prompt_db (snd (handle sv u r db))"
proof (cases r)
  case (Set_access i gs)
  have "wf_prompt_db db'" if "set_prompt_grants uuid now i gs' db = (r', db')" for uuid now gs' r' db'
    using assms wf_set_prompt_grants [OF that] by auto
  then show ?thesis using assms Set_access
    by (auto simp: update_prompt_access_def split: prod.splits sum.splits intro!: snd_run [where P = wf_prompt_db])
next
  case (Delete i)
  then show ?thesis using assms wf_prompt_operations
    by (auto simp: delete_prompt_route_def delete_prompt_by_id_def split: option.splits intro!: snd_run [where P = wf_prompt_db])
next
  case (Delete_history i hid)
  have "wf_prompt_db (snd (delete_history_entry hid i db))" if p: "find_prompt i db = Some p" "pr_version_id p \<noteq> Some hid" for p
  proof (rule wf_delete_history_entry [OF assms])
    fix q assume "q \<in> set (db_prompts db)" "pr_id q = i"
    then have "q = p" using same_key [of pr_id "db_prompts db" q p] assms find_prompt_in [OF p(1)] by (simp add: wf_prompt_db_def)
    then show "pr_version_id q \<noteq> Some hid" using p(2) by simp
  qed
  then show ?thesis using assms Delete_history
    by (auto simp: delete_history_route_def split: prod.splits dest!: checked_promptD intro!: snd_run [where P = wf_prompt_db])
qed (use assms wf_prompt_operations in \<open>auto simp: create_new_prompt_def update_prompt_route_def update_metadata_route_def
    set_prompt_version_def toggle_prompt_route_def intro!: snd_run [where P = wf_prompt_db]\<close>)

inductive prompt_reachable :: "prompt_db \<Rightarrow> bool" where
  start: "prompt_reachable \<lparr>db_prompts = [], db_histories = [], db_prompt_grants = \<lparr>db_grants = [], gdb_uuid = 0\<rparr>, db_prompt_uuid = 0\<rparr>"
| request: "prompt_reachable db \<Longrightarrow> prompt_reachable (snd (handle sv u r db))"
| by_command: "prompt_reachable db \<Longrightarrow> prompt_reachable (snd (update_prompt_by_command uuid now c form uid db))"
| deletion: "prompt_reachable db \<Longrightarrow> prompt_reachable (snd (delete_prompt_by_command c db))"

lemma reachable_wf: "prompt_reachable db \<Longrightarrow> wf_prompt_db db"
proof (induction rule: prompt_reachable.induct)
  case start
  show ?case by (simp add: wf_prompt_db_def)
next
  case (deletion db c)
  then show ?case using wf_remove_prompt by (auto simp: delete_prompt_by_command_def split: option.splits)
qed (auto intro: handle_wf wf_update_prompt_by_command)

text \<open>C28. Whatever requests are sent, by whom, with whatever configuration and identifiers, and whatever the methods by command do:
  prompts have different ids and different commands, versions have different ids and belong to a prompt that exists, the parent of a
  version is an earlier version of the same prompt, and the production version of a prompt is one of its own.\<close>
theorem prompt_tables_wf:
  assumes "prompt_reachable db"
  shows "wf_prompt_db db"
  using assms by (rule reachable_wf)

section \<open>Who may change a prompt\<close>

lemma handle_view:
  assumes "wf_prompt_db db" "find_prompt i db = Some p" "prompt_view i (snd (handle sv u r db)) \<noteq> prompt_view i db"
  shows "may_access sv u p ''write'' db"
proof (rule ccontr)
  assume no: "\<not> may_access sv u p ''write'' db"
  have id: "pr_id p = i" using find_prompt_in assms(2) by blast
  have other: "j \<noteq> i \<and> pr_id q = j" if "checked_prompt sv u j ''write'' db = Inr q" for j q
    using checked_promptD [OF that] no assms(2) by auto
  let ?same = "\<lambda>db'. prompt_view i db' = prompt_view i db"
  have "?same (snd (handle sv u r db))"
  proof (cases r)
    case (Create form)
    then show ?thesis using view_insert [of i db] assms(2)
      by (auto simp: create_new_prompt_def intro!: snd_run [where P = ?same])
  next
    case (Set_access j gs)
    have "?same db'" if "set_prompt_grants uuid now j gs' db = (r', db')" "j \<noteq> i" for uuid now gs' r' db'
      using view_grants [OF that(1), of i] that(2) by simp
    then show ?thesis using Set_access
      by (auto simp: update_prompt_access_def split: prod.splits sum.splits intro!: snd_run [where P = ?same] dest!: other)
  next
    case (Delete j)
    have "?same (snd (delete_prompt_by_id k db))" if "k \<noteq> i" for k
      using view_remove that by (auto simp: delete_prompt_by_id_def split: option.splits dest: find_prompt_in)
    then show ?thesis using Delete other checked_promptD
      by (auto simp: delete_prompt_route_def case_prod_beta intro!: snd_run [where P = ?same])
  next
    case (Delete_history j hid)
    have "?same (snd (delete_history_entry hid j db))" if "j \<noteq> i" using view_delete_history_entry assms(1) that by blast
    then show ?thesis using Delete_history other checked_promptD
      by (auto simp: delete_history_route_def split: prod.splits intro!: snd_run [where P = ?same])
  qed (auto simp: update_prompt_route_def update_metadata_route_def set_prompt_version_def toggle_prompt_route_def dest!: other
      intro!: snd_run [where P = ?same] view_update_prompt_by_id view_update_prompt_metadata view_update_prompt_version view_toggle)
  then show False using assms(3) by simp
qed

definition run_requests :: "(server \<times> user \<times> request) list \<Rightarrow> prompt_db \<Rightarrow> prompt_db" where
  "run_requests rs db = fold (\<lambda>(sv, u, r) db. snd (handle sv u r db)) rs db"

definition entitled :: "server \<times> user \<times> request \<Rightarrow> prompt option \<times> prompt_history list \<times> access_grant list \<Rightarrow> bool" where
  "entitled q v \<longleftrightarrow>
     (case (q, v) of
        ((sv, u, r), (Some p, hs, gs)) \<Rightarrow> pr_user_id p = u_id u \<or> grants_give (sv_groups sv) (u_id u) ''write'' gs \<or> u_role u = ''admin''
      | _ \<Rightarrow> False)"

lemma may_access_entitled: "find_prompt i db = Some p \<Longrightarrow> may_access sv u p ''write'' db \<longleftrightarrow> entitled (sv, u, r) (prompt_view i db)"
  using find_prompt_in [of i db p]
  by (simp add: entitled_def prompt_view_def may_access_def has_prompt_access_def has_access_grants_give prompt_grants_def)

interpretation guarded_prompts: guarded_requests "\<lambda>(sv, u, r) db. snd (handle sv u r db)" wf_prompt_db "prompt_view i" "\<lambda>v. fst v \<noteq> None" entitled
  for i
proof
  fix db and q :: "server \<times> user \<times> request"
  assume wf: "wf_prompt_db db"
  show "wf_prompt_db ((case q of (sv, u, r) \<Rightarrow> \<lambda>db. snd (handle sv u r db)) db)" using handle_wf [OF wf] by (simp add: case_prod_beta)
  assume p: "fst (prompt_view i db) \<noteq> None" and c: "prompt_view i ((case q of (sv, u, r) \<Rightarrow> \<lambda>db. snd (handle sv u r db)) db) \<noteq> prompt_view i db"
  obtain p sv u r where "find_prompt i db = Some p" "q = (sv, u, r)" using p by (cases q) (auto simp: prompt_view_def)
  then show "entitled q (prompt_view i db)" using handle_view [OF wf, of i p sv u r] may_access_entitled c by simp
qed

text \<open>C29. Whatever requests are sent, a prompt that exists stays as it is, its row, its versions and its grants, unless one of the
  requests comes from somebody who was entitled from the beginning: its owner, a user with a grant to write it, or an administrator.\<close>
theorem prompt_changes_authorised:
  assumes "prompt_reachable db" "find_prompt i db = Some p" "prompt_view i (run_requests rs db) \<noteq> prompt_view i db"
  shows "\<exists>(sv, u, r) \<in> set rs. pr_user_id p = u_id u \<or>
    has_access (sv_groups sv) (u_id u) ''prompt'' i ''write'' None (db_prompt_grants db) \<or> u_role u = ''admin''"
proof -
  obtain q where q: "q \<in> set rs" "entitled q (prompt_view i db)"
    using guarded_prompts.change_entitled [OF reachable_wf [OF assms(1)], of i rs] assms(2, 3) by (auto simp: prompt_view_def run_requests_def)
  obtain sv u r where "q = (sv, u, r)" by (cases q)
  with q(2) have "pr_user_id p = u_id u \<or> has_access (sv_groups sv) (u_id u) ''prompt'' i ''write'' None (db_prompt_grants db) \<or> u_role u = ''admin''"
    by (simp add: entitled_def prompt_view_def assms(2) has_access_grants_give prompt_grants_def)
  with q(1) \<open>q = (sv, u, r)\<close> show ?thesis by blast
qed

section \<open>Who may read a prompt\<close>

text \<open>The prompts whose rows or versions are in a response, looked up in the tables after the request.\<close>

fun reveals :: "prompt_db \<Rightarrow> response \<Rightarrow> string set" where
  "reveals db (Prompts xs) = (\<lambda>x. pr_id (fst (fst x))) ` set xs"
| "reveals db (Page xs n) = (\<lambda>x. pr_id (fst (fst (fst x)))) ` set xs"
| "reveals db (Prompt m) = {pr_id (fst m)}"
| "reveals db (Prompt_access m w) = {pr_id (fst m)}"
| "reveals db (Versions hs) = (\<lambda>h. ph_prompt_id (fst h)) ` set hs"
| "reveals db (Version h) = {ph_prompt_id h}"
| "reveals db (Difference d) = ph_prompt_id ` {h \<in> set (db_histories db). ph_id h = hd_from d \<or> ph_id h = hd_to d}"
| "reveals db _ = {}"

lemma permitted_readable:
  assumes "p \<in> set (permitted_prompts e (Some (u_id u)) gids ''read'' db ps)" "u_id u \<noteq> []"
    "gids = map g_id (get_groups_by_member_id (u_id u) (sv_groups sv))"
  shows "p \<in> set ps \<and> may_access sv u p ''read'' db"
  using assms by (auto simp: permitted_prompts_def permission_filter_eq [where gdb = "sv_groups sv"] prompt_doc_def may_access_def
      has_prompt_access_def has_access_None split: if_splits)

lemma set_with_grants: "x \<in> set (with_grants_and_user udb db ps) \<Longrightarrow> fst (fst x) \<in> set ps"
  by (auto simp: with_grants_and_user_def Let_def)

lemma set_order_rows [simp]: "set (order_rows b d ps) = set ps"
  by (simp add: order_rows_def Let_def)

lemma page_readable:
  assumes "p \<in> set (search_hits e il lo udb uid (list_query sv u q) db)" "u_id u \<noteq> []"
  shows "p \<in> set (db_prompts db) \<and> may_access sv u p ''read'' db"
proof (cases "sees_all sv u")
  case True
  then show ?thesis using assms
    by (auto simp: search_hits_def sees_all_def may_access_def permitted_prompts_def Let_def split: if_splits)
next
  case False
  let ?gids = "map g_id (get_groups_by_member_id (u_id u) (sv_groups sv))"
  have q: "pq_user_id (list_query sv u q) = Some (u_id u)" "or_empty (pq_group_ids (list_query sv u q)) = ?gids"
    using False by (auto simp: list_query_def Let_def or_empty_def)
  then have "\<not> empty_query (list_query sv u q)" by (auto simp: empty_query_def)
  then obtain ps where "p \<in> set (permitted_prompts e (Some (u_id u)) ?gids ''read'' db ps)" "set ps \<subseteq> set (db_prompts db)"
    using assms(1) q by (auto simp: search_hits_def Let_def)
  then show ?thesis using permitted_readable assms(2) by blast
qed

lemma unique_prompt: "wf_prompt_db db \<Longrightarrow> find_prompt i db = Some p \<Longrightarrow> q \<in> set (db_prompts db) \<Longrightarrow> pr_id q = i \<Longrightarrow> q = p"
  using same_key [of pr_id "db_prompts db" q p] find_prompt_in by (auto simp: wf_prompt_db_def)

text \<open>The prompt an operation answers with.\<close>

lemma add_version_id: "fst (add_version uuid now production p snap uid parent message db) = Some m \<Longrightarrow> pr_id (fst m) = pr_id p"
  by (auto simp: add_version_def to_prompt_model_def Let_def split: prod.splits sum.splits if_splits)

lemma store_update_id: "fst (store_update uuid now uid form changed p1 snap parent db) = Some m \<Longrightarrow> pr_id (fst m) = pr_id p1"
  by (auto simp: store_update_def to_prompt_model_def Let_def split: prod.splits sum.splits if_splits dest: add_version_id)

lemma update_ids:
  "fst (update_prompt_by_id uuid now i form uid db) = Some m \<Longrightarrow> pr_id (fst m) = i"
  "fst (update_prompt_metadata now i name c tags db) = Some m \<Longrightarrow> pr_id (fst m) = i"
  "fst (update_prompt_version now i v db) = Some m \<Longrightarrow> pr_id (fst m) = i"
  "fst (toggle_prompt_active now i db) = Some m \<Longrightarrow> pr_id (fst m) = i"
  by (auto simp: update_prompt_by_id_def update_prompt_metadata_def update_prompt_version_def toggle_prompt_active_def to_prompt_model_def
      Let_def split: option.splits if_splits dest!: find_prompt_in store_update_id)

lemma insert_id: "fst (insert_new_prompt uuid now uid form db) = Some m \<Longrightarrow> pr_id (fst m) \<notin> pr_id ` set (db_prompts db)"
  by (auto simp: insert_new_prompt_def Let_def new_prompt_def image_iff split: prod.splits sum.splits if_splits dest!: add_version_id)

lemma stored_Inr: "stored r = (Inr resp, db') \<Longrightarrow> \<exists>m. fst r = Some m \<and> resp = Prompt m"
  by (auto simp: stored_def split: prod.splits option.splits)

lemma write_handlers_reveal:
  assumes "handle sv u r db = (Inr resp, db')" "i \<in> reveals db' resp" "find_prompt i db = Some p"
    "\<forall>q n. r \<noteq> List_page q n" "\<forall>j h. r \<noteq> History j h" "\<forall>j h. r \<noteq> History_entry j h" "\<forall>j a b. r \<noteq> Diff j a b"
    "r \<noteq> List_prompts" "\<forall>j. r \<noteq> Get j"
  shows "may_access sv u p ''write'' db"
proof (cases r)
  case (Create form)
  then obtain form' m where m: "fst (insert_new_prompt (sv_uuid sv) (sv_now sv) (u_id u) form' db) = Some m" "resp = Prompt m"
    using assms(1) by (auto simp: create_new_prompt_def dest!: run_Inr stored_Inr split: if_splits)
  then have "pr_id (fst m) \<in> pr_id ` set (db_prompts db)" using assms(2) find_prompt_in [OF assms(3)] by (intro image_eqI [of _ _ p]) auto
  then have False using insert_id [OF m(1)] by blast
  then show ?thesis ..
next
  case (Set_access j gs)
  then obtain q where q: "find_prompt j db = Some q" "may_access sv u q ''write'' db" "resp = (case get_prompt_by_id j db' of None \<Rightarrow> No_prompt | Some m \<Rightarrow> Prompt m)"
    using assms(1) by (auto simp: update_prompt_access_def split: prod.splits sum.splits dest!: run_Inr checked_promptD)
  then have "i = j" using assms(2) find_prompt_in by (auto simp: get_prompt_by_id_def to_prompt_model_def split: option.splits)
  then show ?thesis using q assms(3) by simp
qed (use assms in \<open>auto simp: update_prompt_route_def update_metadata_route_def set_prompt_version_def toggle_prompt_route_def
    update_prompt_access_def delete_prompt_route_def delete_history_route_def get_prompt_by_id_def to_prompt_model_def get_prompt_tags_route_def
    split: prod.splits sum.splits option.splits if_splits dest!: run_Inr stored_Inr checked_promptD update_ids\<close>)

lemma list_reveals:
  assumes "wf_prompt_db db" "u_id u \<noteq> []" "i \<in> reveals db (get_prompts_route sv u db)" "find_prompt i db = Some p"
  shows "may_access sv u p ''read'' db"
proof -
  let ?l = "if sees_all sv u then get_prompts (sv_users sv) db
     else get_prompts_by_user_id (sv_empty_or sv) (sv_groups sv) (sv_users sv) (u_id u) ''read'' db"
  have readable: "q \<in> set (db_prompts db) \<and> may_access sv u q ''read'' db" if "x \<in> set ?l" "q = fst (fst x)" for x q
    using that permitted_readable [OF _ assms(2) refl, where p = q and sv = sv and e = "sv_empty_or sv" and db = db and
        ps = "order_desc pr_updated_at (filter pr_is_active (db_prompts db))"]
    by (auto simp: get_prompts_def get_prompts_by_user_id_def sees_all_def may_access_def dest!: set_with_grants split: if_splits)
  obtain x where x: "x \<in> set ?l" "i = pr_id (fst (fst x))"
    using assms(3) by (auto simp: get_prompts_route_def split del: if_split)
  then have "fst (fst x) = p" using readable [OF x(1) refl] unique_prompt [OF assms(1, 4)] by blast
  then show ?thesis using readable [OF x(1) refl] by simp
qed

lemma diff_reveals:
  assumes "wf_prompt_db db" "get_prompt_diff sv u j a b db = Inr resp" "i \<in> reveals db resp" "find_prompt i db = Some p"
  shows "may_access sv u p ''read'' db"
proof -
  obtain q d ha hb where q: "find_prompt j db = Some q" "may_access sv u q ''read'' db" "resp = Difference d"
    "bound_entry a j db = Some ha" "bound_entry b j db = Some hb" "hd_from d = a" "hd_to d = b"
    using assms(2) by (auto simp: get_prompt_diff_def rbind_Inr_iff compute_diff_def Let_def split: option.splits dest!: checked_promptD)
  have "ph_prompt_id h = j" if "h \<in> set (db_histories db)" "ph_id h = a \<or> ph_id h = b" for h
    using that q(4, 5) same_key [of ph_id "db_histories db" h] assms(1)
    by (auto simp: bound_entry_def wf_prompt_db_def dest!: find_SomeD)
  then show ?thesis using q assms(3, 4) by auto
qed

lemma handle_reveals:
  assumes "wf_prompt_db db" "u_id u \<noteq> []" "handle sv u r db = (Inr resp, db')" "i \<in> reveals db' resp" "find_prompt i db = Some p"
  shows "may_access sv u p ''read'' db \<or> may_access sv u p ''write'' db"
proof (cases r)
  case List_prompts
  then show ?thesis using list_reveals [OF assms(1, 2)] assms(3-5) by auto
next
  case (List_page q page)
  have "x \<in> set (fst (search_prompts e il lo udb (u_id u) (list_query sv u q) skip n db)) \<Longrightarrow>
      fst (fst x) \<in> set (db_prompts db) \<and> may_access sv u (fst (fst x)) ''read'' db" for e il lo udb skip n x
    using page_readable [OF _ assms(2), where e = e and il = il and lo = lo and udb = udb and uid = "u_id u" and sv = sv and q = q and db = db] set_paginate
    by (fastforce simp: search_prompts_def Let_def dest!: set_with_grants)
  then show ?thesis using List_page assms unique_prompt [OF assms(1, 5)]
    by (fastforce simp: get_prompt_list_def Let_def case_prod_beta)
next
  case (Get j)
  then obtain q where q: "find_prompt j db = Some q" "may_access sv u q ''read'' db" "i = pr_id q"
    using assms(3, 4) by (auto simp: get_prompt_route_def get_prompt_by_id_def to_prompt_model_def split: option.splits if_splits)
  then show ?thesis using assms(5) find_prompt_in [OF q(1)] by simp
next
  case (History j page)
  then show ?thesis using assms set_paginate
    by (fastforce simp: get_prompt_history_def get_history_by_prompt_id_def histories_of_def rbind_Inr_iff dest!: checked_promptD)
next
  case (History_entry j hid)
  then show ?thesis using assms
    by (auto simp: get_prompt_history_entry_def rbind_Inr_iff split: option.splits if_splits dest!: checked_promptD)
next
  case (Diff j a b)
  then show ?thesis using diff_reveals [OF assms(1)] assms(3-5) by auto
qed (use write_handlers_reveal [OF assms(3-5)] in auto)

text \<open>C30. A response shows the row or a version of a prompt that existed only to a user who owns it, may read or write it by a grant
  at the time of the request, or is an administrator, whichever endpoint it comes from.\<close>
theorem prompt_responses_authorised:
  assumes "prompt_reachable db" "u_id u \<noteq> []" "handle sv u r db = (Inr resp, db')" "i \<in> reveals db' resp" "find_prompt i db = Some p"
  shows "pr_user_id p = u_id u \<or> has_access (sv_groups sv) (u_id u) ''prompt'' i ''read'' None (db_prompt_grants db) \<or>
    has_access (sv_groups sv) (u_id u) ''prompt'' i ''write'' None (db_prompt_grants db) \<or> u_role u = ''admin''"
  using handle_reveals [OF reachable_wf [OF assms(1)] assms(2-5)] find_prompt_in [OF assms(5)]
  by (auto simp: may_access_def has_prompt_access_def)

section \<open>The comparison of versions\<close>

lemma path_params_Cons:
  "path_params (Lit s # ps) path = Some xs \<longleftrightarrow> (\<exists>path'. path = s # path' \<and> path_params ps path' = Some xs)"
  "path_params (Param # ps) path = Some xs \<longleftrightarrow> (\<exists>x path' xs'. path = x # path' \<and> x \<noteq> [] \<and> xs = x # xs' \<and> path_params ps path' = Some xs')"
  "path_params [] path = Some xs \<longleftrightarrow> path = [] \<and> xs = []"
  by (cases path; auto)+

lemma no_diff_path: "first_path get_paths path \<noteq> Some (E_diff, xs)"
proof
  assume "first_path get_paths path = Some (E_diff, xs)"
  then have none: "path_params [Lit ''id'', Param, Lit ''history'', Param] path = None"
    and "path_params [Lit ''id'', Param, Lit ''history'', Lit ''diff''] path = Some xs"
    by (simp_all add: get_paths_def split: option.splits)
  then obtain i where "path = [''id'', i, ''history'', ''diff'']" "i \<noteq> []" by (auto simp: path_params_Cons)
  then show False using none by simp
qed

text \<open>The endpoint that compares two versions is never reached: its path also matches that of a single version, which is
  declared before it, so the request is taken for one of the version with the id diff.\<close>
theorem prompt_diff_unreachable:
  "get_request path q page a b \<noteq> Some (Diff i c d) \<and>
   get_request [''id'', x # xs, ''history'', ''diff''] q page a b = Some (History_entry (x # xs) ''diff'')"
proof
  show "get_request path q page a b \<noteq> Some (Diff i c d)"
  proof (cases "first_path get_paths path")
    case (Some r)
    then show ?thesis using no_diff_path by (cases "fst r"; cases r) (auto simp: get_request_def split: list.splits)
  qed (simp add: get_request_def)
  show "get_request [''id'', x # xs, ''history'', ''diff''] q page a b = Some (History_entry (x # xs) ''diff'')"
    by (simp add: get_request_def get_paths_def)
qed

section \<open>Restoring a version\<close>

text \<open>What the versions with this id hold, and that no later version gets the id.\<close>

definition version_is :: "(nat \<Rightarrow> string) \<Rightarrow> string \<Rightarrow> string \<Rightarrow> snapshot \<Rightarrow> prompt_db \<Rightarrow> bool" where
  "version_is uuid v i snap db \<longleftrightarrow>
     (\<forall>h \<in> set (db_histories db). ph_id h = v \<longrightarrow> ph_snapshot h = snap \<and> ph_prompt_id h = i) \<and> (\<forall>n \<ge> db_prompt_uuid db. uuid n \<noteq> v)"

lemma version_is_simps [simp]:
  "version_is uuid v i snap (put_prompt p db) = version_is uuid v i snap db"
  "version_is uuid v i snap (db\<lparr>db_prompt_grants := adb\<rparr>) = version_is uuid v i snap db"
  "version_is uuid v i snap (db\<lparr>db_prompts := ps\<rparr>) = version_is uuid v i snap db"
  by (simp_all add: version_is_def)

lemma version_is_later: "version_is uuid v i snap db \<Longrightarrow> version_is uuid v i snap (db\<lparr>db_prompt_uuid := Suc (db_prompt_uuid db)\<rparr>)"
  by (simp add: version_is_def)

lemma version_is_create:
  assumes v: "version_is uuid v i snap db" and c: "create_history_entry uuid now j sn uid parent message db = (r, db')"
  shows "version_is uuid v i snap db'"
proof -
  have new: "uuid (db_prompt_uuid db) \<noteq> v" "\<forall>n \<ge> Suc (db_prompt_uuid db). uuid n \<noteq> v"
    using v Suc_leD unfolding version_is_def by blast+
  have "db_prompt_uuid db' = Suc (db_prompt_uuid db)"
    "set (db_histories db') \<subseteq> set (db_histories db) \<union> {h. ph_id h = uuid (db_prompt_uuid db)}"
    using c by (auto simp: create_history_entry_def Let_def split: if_splits)
  then show ?thesis using v new unfolding version_is_def by (metis (mono_tags, lifting) UnE mem_Collect_eq subsetD)
qed

lemma version_is_delete: "version_is uuid v i snap db \<Longrightarrow> version_is uuid v i snap (snd (delete_history_entry hid j db))"
  by (auto simp: delete_history_entry_def version_is_def split: option.splits)

lemma version_is_remove: "version_is uuid v i snap db \<Longrightarrow> version_is uuid v i snap (remove_prompt p db)"
  by (auto simp: remove_prompt_def delete_history_by_prompt_id_def version_is_def Let_def)

lemma version_is_add: "version_is uuid v i snap db \<Longrightarrow> version_is uuid v i snap (snd (add_version uuid now production p sn uid parent message db))"
  by (auto simp: add_version_def Let_def split: prod.splits sum.splits dest: version_is_create)

lemma version_is_grants: "version_is uuid v i snap db \<Longrightarrow> set_prompt_grants uuid' now j gs db = (r, db') \<Longrightarrow> version_is uuid v i snap db'"
  using wf_set_prompt_grants by fastforce

lemma version_is_store:
  assumes "version_is uuid v i snap db"
  shows "version_is uuid v i snap (snd (store_update uuid now uid form changed p1 sn parent db))"
proof -
  obtain r db1 where g: "replace_prompt_grants uuid now (pr_id p1) (pf_access_grants form) db = (r, db1)" by force
  then have "version_is uuid v i snap db1" using wf_replace_prompt_grants [OF g] assms by auto
  then show ?thesis using g version_is_add by (cases r) (auto simp: store_update_def Let_def)
qed

lemma version_is_insert: "version_is uuid v i snap db \<Longrightarrow> version_is uuid v i snap (snd (insert_new_prompt uuid now uid form db))"
  by (auto simp: insert_new_prompt_def Let_def version_is_later split: prod.splits sum.splits
      intro!: version_is_add dest!: version_is_grants [rotated])

lemma version_is_updates:
  assumes "version_is uuid v i snap db"
  shows "version_is uuid v i snap (snd (update_prompt_by_id uuid now j form uid db))"
    "version_is uuid v i snap (snd (update_prompt_metadata now j name c tags db))"
    "version_is uuid v i snap (snd (update_prompt_version now j w db))"
    "version_is uuid v i snap (snd (toggle_prompt_active now j db))"
    "version_is uuid v i snap (snd (delete_prompt_by_id j db))"
  using assms version_is_store version_is_remove
  by (auto simp: update_prompt_by_id_def update_prompt_metadata_def update_prompt_version_def toggle_prompt_active_def delete_prompt_by_id_def
      Let_def split: option.splits)

lemma version_is_handle:
  assumes "version_is (sv_uuid sv) v i snap db"
  shows "version_is (sv_uuid sv) v i snap (snd (handle sv u r db))"
proof (cases r)
  case (Set_access j gs)
  then show ?thesis using assms(1)
    by (auto simp: update_prompt_access_def split: prod.splits sum.splits intro!: snd_run [where P = "version_is (sv_uuid sv) v i snap"]
        dest: version_is_grants)
next
  case (Delete_history j hid)
  then show ?thesis using assms(1) version_is_delete
    by (auto simp: delete_history_route_def case_prod_beta intro!: snd_run [where P = "version_is (sv_uuid sv) v i snap"])
next
  case (Delete j)
  then show ?thesis using assms(1) version_is_updates
    by (auto simp: delete_prompt_route_def case_prod_beta intro!: snd_run [where P = "version_is (sv_uuid sv) v i snap"])
qed (use assms in \<open>auto simp: create_new_prompt_def update_prompt_route_def update_metadata_route_def set_prompt_version_def
    toggle_prompt_route_def intro!: snd_run [where P = "version_is (sv_uuid sv) v i snap"] version_is_insert version_is_updates\<close>)

lemma version_is_run:
  "\<forall>(sv, u, r) \<in> set rs. sv_uuid sv = uuid \<Longrightarrow> version_is uuid v i snap db \<Longrightarrow> version_is uuid v i snap (run_requests rs db)"
  by (induction rs arbitrary: db) (auto simp: run_requests_def intro: version_is_handle)

lemma update_makes_version:
  assumes "update_prompt_by_id uuid now i form uid db = (Some m, db1)" "pr_version_id (fst m) = Some v" "v \<notin> ph_id ` set (db_histories db)"
    "pr_version_id (the (find_prompt i db)) \<noteq> Some v"
  shows "\<exists>h. db_histories db1 = db_histories db @ [h] \<and> ph_id h = v \<and> ph_prompt_id h = i \<and> sn_name (ph_snapshot h) = pf_name form \<and>
    sn_content (ph_snapshot h) = pf_content form \<and> sn_data (ph_snapshot h) = or_empty (pf_data form) \<and>
    sn_meta (ph_snapshot h) = or_empty (pf_meta form) \<and> sn_tags (ph_snapshot h) = Some (pr_tags (fst m))"
proof -
  obtain p where p: "find_prompt i db = Some p" using assms(1) by (auto simp: update_prompt_by_id_def split: option.splits)
  then have old: "pr_version_id p \<noteq> Some v" "pr_id p = i" using assms(4) find_prompt_in by auto
  define p1 where "p1 = p\<lparr>pr_name := pf_name form, pr_command := pf_command form, pr_content := pf_content form,
    pr_data := or_old (pf_data form) (pr_data p), pr_meta := or_old (pf_meta form) (pr_meta p), pr_tags := new_tags form p, pr_updated_at := now\<rparr>"
  obtain changed parent where s: "store_update uuid now uid form changed p1 (form_snapshot form (pf_command form) (Some (new_tags form p))) parent db = (Some m, db1)"
    using assms(1) p unfolding update_prompt_by_id_def p1_def by auto
  obtain r db2 where g: "replace_prompt_grants uuid now (pr_id p1) (pf_access_grants form) db = (r, db2)" by force
  then have h2: "db_histories db2 = db_histories db" using wf_replace_prompt_grants by fastforce
  have p1: "pr_id p1 = i" "pr_version_id p1 \<noteq> Some v" "pr_tags p1 = new_tags form p" using old by (simp_all add: p1_def)
  show ?thesis using s g assms(2) p1 h2
    by (auto simp: store_update_def add_version_def create_history_entry_def to_prompt_model_def form_snapshot_def Let_def
        split: sum.splits if_splits)
qed

text \<open>C31. A version can be restored: when an update has made a version the production version of a prompt, then after any requests a
  change of the production version back to it, if it succeeds, gives the prompt the name, the content and the tags it had, and the data and
  metadata of the request of the update.\<close>
theorem version_restores:
  assumes "update_prompt_by_id uuid now i form uid db = (Some m, db1)" "pr_version_id (fst m) = Some v" "v \<notin> ph_id ` set (db_histories db)"
    "pr_version_id (the (find_prompt i db)) \<noteq> Some v" "\<forall>n \<ge> db_prompt_uuid db1. uuid n \<noteq> v" "\<forall>(sv, u, r) \<in> set rs. sv_uuid sv = uuid"
    "update_prompt_version now' i v (run_requests rs db1) = (Some m', db2)"
  shows "pr_name (fst m') = pf_name form \<and> pr_content (fst m') = pf_content form \<and> pr_tags (fst m') = pr_tags (fst m) \<and>
    pr_data (fst m') = Some (or_empty (pf_data form)) \<and> pr_meta (fst m') = Some (or_empty (pf_meta form)) \<and> pr_version_id (fst m') = Some v"
proof -
  obtain h where h: "db_histories db1 = db_histories db @ [h]" "ph_id h = v" "ph_prompt_id h = i" "sn_name (ph_snapshot h) = pf_name form"
    "sn_content (ph_snapshot h) = pf_content form" "sn_data (ph_snapshot h) = or_empty (pf_data form)"
    "sn_meta (ph_snapshot h) = or_empty (pf_meta form)" "sn_tags (ph_snapshot h) = Some (pr_tags (fst m))"
    using update_makes_version [OF assms(1-4)] by blast
  have "ph_id g \<noteq> v" if "g \<in> set (db_histories db)" for g using assms(3) that by blast
  then have "version_is uuid v i (ph_snapshot h) db1" using h(1-3) assms(5) by (simp add: version_is_def)
  then have "version_is uuid v i (ph_snapshot h) (run_requests rs db1)" by (rule version_is_run [OF assms(6)])
  then show ?thesis using assms(7) h(4-)
    by (auto simp: update_prompt_version_def get_history_entry_by_id_def version_is_def to_prompt_model_def Let_def
        split: option.splits if_splits dest!: find_SomeD)
qed

section \<open>An example\<close>

definition sample_account :: "string \<Rightarrow> string \<Rightarrow> user" where
  "sample_account i role =
     \<lparr>u_id = i, u_email = i, u_username = None, u_role = role, u_name = i, u_profile_image_url = [], u_settings = [], u_oauth = [],
      u_scim = [], u_last_active_at = 0, u_updated_at = 0, u_created_at = 0\<rparr>"

definition sample_server :: server where
  "sample_server =
     \<lparr>sv_builtin = [], sv_permissions = [], sv_groups = \<lparr>db_groups = [], db_members = [], db_uuid = 0\<rparr>,
      sv_users = \<lparr>db_users = [], db_api_keys = []\<rparr>, sv_bypass = True, sv_uuid = (\<lambda>n. replicate (Suc n) CHR ''x''), sv_now = 5,
      sv_empty_or = False, sv_ilike = (\<lambda>a b. True), sv_lower = id, sv_diff = (\<lambda>a b c d. [])\<rparr>"

definition sample_request :: "string \<Rightarrow> grant_item list option \<Rightarrow> prompt_form" where
  "sample_request t grants =
     \<lparr>pf_command = ''hi'', pf_name = ''n'', pf_content = t, pf_data = None, pf_meta = None, pf_tags = Some [Some ''a''],
      pf_access_grants = grants, pf_commit_message = None, pf_is_production = Some True\<rparr>"

definition no_prompts :: prompt_db where
  "no_prompts = \<lparr>db_prompts = [], db_histories = [], db_prompt_grants = \<lparr>db_grants = [], gdb_uuid = 0\<rparr>, db_prompt_uuid = 0\<rparr>"

text \<open>An administrator creates a prompt that the user b may write, as the prompt x with the version xx.\<close>

definition shared_prompt :: prompt_db where
  "shared_prompt = snd (handle sample_server (sample_account ''a'' ''admin'')
     (Create (sample_request ''one'' (Some [GJson (VDict [(''principal_type'', VStr ''user''), (''principal_id'', VStr ''b''),
        (''permission'', VStr ''write'')])]))) no_prompts)"

lemma sample_reachable: "prompt_reachable shared_prompt"
  unfolding shared_prompt_def no_prompts_def by (rule prompt_reachable.request [OF prompt_reachable.start])

lemma sample_prompt: "map_option pr_user_id (find_prompt ''x'' shared_prompt) = Some ''a''"
  by code_simp

lemma sample_change:
  "prompt_view ''x'' (run_requests [(sample_server, sample_account ''b'' ''user'', Update ''x'' (sample_request ''two'' None))] shared_prompt) \<noteq>
     prompt_view ''x'' shared_prompt"
  by code_simp

lemma prompt_tables_wf_witness: "wf_prompt_db shared_prompt"
  by (rule prompt_tables_wf [OF sample_reachable])

lemma prompt_changes_authorised_witness:
  "has_access (sv_groups sample_server) ''b'' ''prompt'' ''x'' ''write'' None (db_prompt_grants shared_prompt)"
proof -
  obtain p where p: "find_prompt ''x'' shared_prompt = Some p" "pr_user_id p = ''a''" using sample_prompt by auto
  show ?thesis using prompt_changes_authorised [OF sample_reachable p(1) sample_change] p(2) by (auto simp: sample_account_def)
qed

lemma sample_response:
  "\<exists>m. fst (handle sample_server (sample_account ''b'' ''user'') (Update ''x'' (sample_request ''two'' None)) shared_prompt) = Inr (Prompt m) \<and>
     pr_id (fst m) = ''x''"
proof -
  have "case fst (handle sample_server (sample_account ''b'' ''user'') (Update ''x'' (sample_request ''two'' None)) shared_prompt) of
      Inr (Prompt m) \<Rightarrow> pr_id (fst m) = ''x'' | _ \<Rightarrow> False" by code_simp
  then show ?thesis by (auto split: sum.splits response.splits)
qed

lemma prompt_responses_authorised_witness:
  "has_access (sv_groups sample_server) ''b'' ''prompt'' ''x'' ''read'' None (db_prompt_grants shared_prompt) \<or>
   has_access (sv_groups sample_server) ''b'' ''prompt'' ''x'' ''write'' None (db_prompt_grants shared_prompt)"
proof -
  obtain p where p: "find_prompt ''x'' shared_prompt = Some p" "pr_user_id p = ''a''" using sample_prompt by auto
  obtain m db' where r: "handle sample_server (sample_account ''b'' ''user'') (Update ''x'' (sample_request ''two'' None)) shared_prompt =
      (Inr (Prompt m), db')" "pr_id (fst m) = ''x''"
    using sample_response by (metis prod.collapse)
  have b: "u_id (sample_account ''b'' ''user'') \<noteq> []" "''x'' \<in> reveals db' (Prompt m)" using r(2) by (simp_all add: sample_account_def)
  show ?thesis using prompt_responses_authorised [OF sample_reachable b(1) r(1) b(2) p(1)] p(2) by (simp add: sample_account_def)
qed

text \<open>The user b stores a second version, xxx, and a third, then the second is restored.\<close>

definition second_version :: "prompt_model option \<times> prompt_db" where
  "second_version = update_prompt_by_id (sv_uuid sample_server) 6 ''x'' (sample_request ''two'' None) ''b'' shared_prompt"

definition later_requests :: "(server \<times> user \<times> request) list" where
  "later_requests = [(sample_server, sample_account ''b'' ''user'', Update ''x'' (sample_request ''three'' None))]"

lemma version_restores_witness:
  "\<exists>m db'. update_prompt_version 9 ''x'' ''xxx'' (run_requests later_requests (snd second_version)) = (Some m, db') \<and>
     pr_content (fst m) = ''two''"
proof -
  have s: "case fst second_version of Some m \<Rightarrow> pr_version_id (fst m) = Some ''xxx'' | None \<Rightarrow> False" by code_simp
  then obtain m db1 where m: "second_version = (Some m, db1)" "pr_version_id (fst m) = Some ''xxx''"
    by (auto split: option.splits simp: prod_eq_iff)
  have old: "''xxx'' \<notin> ph_id ` set (db_histories shared_prompt)" "pr_version_id (the (find_prompt ''x'' shared_prompt)) \<noteq> Some ''xxx''"
    by code_simp+
  have "db_prompt_uuid (snd second_version) = 3" by code_simp
  then have "db_prompt_uuid db1 = 3" unfolding m(1) by simp
  then have fresh: "\<forall>n \<ge> db_prompt_uuid db1. sv_uuid sample_server n \<noteq> ''xxx''"
    by (auto simp: sample_server_def dest!: arg_cong [where f = length])
  have "case fst (update_prompt_version 9 ''x'' ''xxx'' (run_requests later_requests (snd second_version))) of Some m \<Rightarrow> True | None \<Rightarrow> False"
    by code_simp
  then obtain m' db' where m': "update_prompt_version 9 ''x'' ''xxx'' (run_requests later_requests db1) = (Some m', db')"
    unfolding m(1) by (auto split: option.splits simp: prod_eq_iff)
  have "pr_content (fst m') = pf_content (sample_request ''two'' None)"
    using version_restores [OF m(1) [unfolded second_version_def] m(2) old fresh _ m'] by (auto simp: later_requests_def)
  then show ?thesis using m' unfolding m(1) by (auto simp: sample_request_def)
qed

text \<open>A draft, an update that is not to become the production version, changes the prompt all the same.\<close>

lemma draft_changes_prompt:
  assumes "update_prompt_by_id uuid now i form uid db = (Some m, db1)" "pf_is_production form \<noteq> Some True"
  shows "pr_content (fst m) = pf_content form \<and> pr_name (fst m) = pf_name form \<and>
    (\<exists>p. find_prompt i db = Some p \<and> pr_version_id (fst m) = pr_version_id p)"
  using assms by (auto simp: update_prompt_by_id_def store_update_def add_version_def to_prompt_model_def Let_def
      split: option.splits prod.splits sum.splits if_splits)

end
