(* ===== verification/Notes.thy ===== *)
theory Notes
  imports Routes PyText
begin

text \<open>
  Notes: \<open>NoteTable\<close> of \<open>backend/open_webui/models/notes.py\<close> and the handlers of \<open>routers/notes.py\<close>, except those for the chats
  attached to a note. The tables are the notes, the pins of the users and the grants. Times are in nanoseconds, \<open>ilike\<close> is an argument,
  and \<open>json_text\<close> is what the database takes for the text of a JSON value that is not a string. A negative offset is none, as in SQLite.
  A dictionary counts as changed when it is another list of pairs. Events to the other clients and to webhooks are left out.
\<close>

section \<open>Rows and forms\<close>

record note_row =
  nt_id :: string
  nt_user_id :: string
  nt_title :: string
  nt_data :: "dict option"
  nt_meta :: "dict option"
  nt_created_at :: int
  nt_updated_at :: int

record pinned_note =
  pn_id :: string
  pn_user_id :: string
  pn_note_id :: string
  pn_created_at :: int

record note_db =
  db_notes :: "note_row list"
  db_pins :: "pinned_note list"
  db_note_grants :: grant_db
  db_note_uuid :: nat

text \<open>A form for a new note; and one for an update, where the outer option says whether the request sets the field.\<close>

record note_form =
  nf_title :: string
  nf_data :: "dict option"
  nf_meta :: "dict option"
  nf_access_grants :: "grant_item list option"

record note_update_form =
  nu_title :: "string option"
  nu_data :: "dict option option"
  nu_meta :: "dict option option"
  nu_access_grants :: "grant_item list option option"

type_synonym note_model = "note_row \<times> access_grant list"

section \<open>Reading\<close>

definition find_note :: "string \<Rightarrow> note_db \<Rightarrow> note_row option" where
  "find_note i db = List.find (\<lambda>n. nt_id n = i) (db_notes db)"

definition note_grants :: "string \<Rightarrow> note_db \<Rightarrow> access_grant list" where
  "note_grants i db = get_grants_by_resource ''note'' i (db_note_grants db)"

definition or_nothing :: "dict option \<Rightarrow> dict" where
  "or_nothing d = (case d of None \<Rightarrow> [] | Some x \<Rightarrow> x)"

definition to_note_model :: "note_row \<Rightarrow> access_grant list \<Rightarrow> note_model" where
  "to_note_model n gs = (n\<lparr>nt_data := Some (or_nothing (nt_data n))\<rparr>, gs)"

definition note_model_of :: "note_row \<Rightarrow> note_db \<Rightarrow> note_model" where
  "note_model_of n db = to_note_model n (note_grants (nt_id n) db)"

definition with_note_grants :: "note_db \<Rightarrow> note_row list \<Rightarrow> note_model list" where
  "with_note_grants db ns =
     (let grants_map = get_grants_by_resources ''note'' (map nt_id ns) (db_note_grants db)
      in map (\<lambda>n. to_note_model n (dget_or grants_map (nt_id n) [])) ns)"

definition page_of :: "int option \<Rightarrow> int option \<Rightarrow> 'a list \<Rightarrow> 'a list" where
  "page_of skip limit rows = paginate (map_option nat skip) (map_option nat limit) rows"

definition get_notes :: "int option \<Rightarrow> int option \<Rightarrow> note_db \<Rightarrow> note_model list" where
  "get_notes skip limit db = with_note_grants db (page_of skip limit (order_desc nt_updated_at (db_notes db)))"

definition note_doc :: "note_row \<Rightarrow> document" where
  "note_doc n = \<lparr>doc_id = nt_id n, doc_user_id = nt_user_id n\<rparr>"

definition permitted_notes :: "bool \<Rightarrow> string option \<Rightarrow> string list \<Rightarrow> string \<Rightarrow> note_db \<Rightarrow> note_row list \<Rightarrow> note_row list" where
  "permitted_notes empty_or uid gids perm db ns = permitted_rows note_doc empty_or uid gids ''note'' perm (db_note_grants db) ns"

definition get_notes_by_user_id :: "bool \<Rightarrow> group_db \<Rightarrow> string \<Rightarrow> string \<Rightarrow> int option \<Rightarrow> int option \<Rightarrow> note_db \<Rightarrow> note_model list" where
  "get_notes_by_user_id empty_or gdb uid perm skip limit db =
     with_note_grants db (page_of skip limit
       (permitted_notes empty_or (Some uid) (map g_id (get_groups_by_member_id uid gdb)) perm db (order_desc nt_updated_at (db_notes db))))"

definition get_note_by_id :: "string \<Rightarrow> note_db \<Rightarrow> note_model option" where
  "get_note_by_id i db = map_option (\<lambda>n. note_model_of n db) (find_note i db)"

text \<open>The join has one row for every pin of the user, the latest pin first.\<close>

definition get_pinned_notes_by_user_id :: "bool \<Rightarrow> group_db \<Rightarrow> string \<Rightarrow> string \<Rightarrow> note_db \<Rightarrow> note_model list" where
  "get_pinned_notes_by_user_id empty_or gdb uid perm db =
     with_note_grants db
       (permitted_notes empty_or (Some uid) (map g_id (get_groups_by_member_id uid gdb)) perm db
          (concat (map (\<lambda>p. filter (\<lambda>n. nt_id n = pn_note_id p) (db_notes db))
             (order_desc pn_created_at (filter (\<lambda>p. pn_user_id p = uid) (db_pins db))))))"

definition get_pinned_note_ids :: "string \<Rightarrow> note_db \<Rightarrow> string list" where
  "get_pinned_note_ids uid db = map pn_note_id (filter (\<lambda>p. pn_user_id p = uid) (db_pins db))"

section \<open>Search\<close>

record note_query =
  nq_query :: "string option"
  nq_view_option :: "string option"
  nq_permission :: "string option"
  nq_order_by :: "string option"
  nq_direction :: "string option"
  nq_user_id :: "string option"
  nq_group_ids :: "string list option"

definition without :: "string \<Rightarrow> string \<Rightarrow> string" where
  "without cs s = filter (\<lambda>c. c \<notin> set cs) s"

definition search_words :: "string \<Rightarrow> string list" where
  "search_words q = filter (\<lambda>w. w \<noteq> []) (map (without ''-'') (split_words [] q))"

definition note_text :: "(pyval \<Rightarrow> string option) \<Rightarrow> note_row \<Rightarrow> string option" where
  "note_text json_text n =
     (case vget (or_nothing (nt_data n)) ''content'' of
        VDict c \<Rightarrow> (case vget c ''md'' of VStr s \<Rightarrow> Some s | v \<Rightarrow> json_text v)
      | _ \<Rightarrow> None)"

definition word_matches :: "(string \<Rightarrow> string \<Rightarrow> bool) \<Rightarrow> (pyval \<Rightarrow> string option) \<Rightarrow> note_row \<Rightarrow> string \<Rightarrow> bool" where
  "word_matches ilike json_text n w \<longleftrightarrow>
     (let pattern = ''%'' @ w @ ''%''
      in ilike (without ''- '' (nt_title n)) pattern \<or>
         (case note_text json_text n of None \<Rightarrow> False | Some t \<Rightarrow> ilike (without ''- '' t) pattern))"

definition note_view_matches :: "string \<Rightarrow> string option \<Rightarrow> note_row \<Rightarrow> bool" where
  "note_view_matches uid view n \<longleftrightarrow>
     (view = Some ''created'' \<longrightarrow> nt_user_id n = uid) \<and> (view = Some ''shared'' \<longrightarrow> nt_user_id n \<noteq> uid)"

definition empty_note_query :: "note_query \<Rightarrow> bool" where
  "empty_note_query q \<longleftrightarrow> q = \<lparr>nq_query = None, nq_view_option = None, nq_permission = None, nq_order_by = None, nq_direction = None,
     nq_user_id = None, nq_group_ids = None\<rparr>"

definition note_hits ::
    "bool \<Rightarrow> (string \<Rightarrow> string \<Rightarrow> bool) \<Rightarrow> (pyval \<Rightarrow> string option) \<Rightarrow> string \<Rightarrow> note_query \<Rightarrow> note_db \<Rightarrow> note_row list" where
  "note_hits empty_or ilike json_text uid q db =
     (if empty_note_query q then order_desc nt_updated_at (db_notes db)
      else let ns = filter (\<lambda>n. (given (nq_query q) \<longrightarrow> list_all (word_matches ilike json_text n) (search_words (the (nq_query q)))) \<and>
                                note_view_matches uid (nq_view_option q) n) (db_notes db);
               perm = (case nq_permission q of None \<Rightarrow> ''write'' | Some p \<Rightarrow> p);
               gids = (case nq_group_ids q of None \<Rightarrow> [] | Some gs \<Rightarrow> gs)
           in sorted_rows nt_title nt_created_at nt_updated_at (nq_order_by q) (nq_direction q)
                (permitted_notes empty_or (nq_user_id q) gids perm db ns))"

text \<open>\<open>if skip\<close> and \<open>if limit\<close>: zero is no offset and no limit.\<close>

definition search_notes ::
    "bool \<Rightarrow> (string \<Rightarrow> string \<Rightarrow> bool) \<Rightarrow> (pyval \<Rightarrow> string option) \<Rightarrow> user_db \<Rightarrow> string \<Rightarrow> note_query \<Rightarrow> int option \<Rightarrow> int option \<Rightarrow> note_db \<Rightarrow>
       (note_model \<times> user option) list \<times> nat" where
  "search_notes empty_or ilike json_text udb uid q skip limit db =
     (let hits = note_hits empty_or ilike json_text uid q db;
          items = page_of skip (if limit = Some 0 then None else limit) hits
      in (zip (with_note_grants db items) (map (\<lambda>n. List.find (\<lambda>u. u_id u = nt_user_id n) (db_users udb)) items), length hits))"

section \<open>Writing\<close>

definition set_note_grants :: "(nat \<Rightarrow> string) \<Rightarrow> int \<Rightarrow> string \<Rightarrow> grant_item list option \<Rightarrow> note_db \<Rightarrow> access_grant list result \<times> note_db" where
  "set_note_grants uuid now i grants db =
     (case set_access_grants uuid now ''note'' i grants (db_note_grants db) of (r, adb) \<Rightarrow> (r, db\<lparr>db_note_grants := adb\<rparr>))"

definition insert_new_note :: "(nat \<Rightarrow> string) \<Rightarrow> int \<Rightarrow> string \<Rightarrow> note_form \<Rightarrow> note_db \<Rightarrow> note_model result \<times> note_db" where
  "insert_new_note uuid now uid form db =
     (let i = uuid (db_note_uuid db); db0 = db\<lparr>db_note_uuid := Suc (db_note_uuid db)\<rparr>;
          n = \<lparr>nt_id = i, nt_user_id = uid, nt_title = nf_title form, nt_data = nf_data form, nt_meta = nf_meta form,
               nt_created_at = now, nt_updated_at = now\<rparr>
      in if i \<in> nt_id ` set (db_notes db) then (Inl IntegrityError, db0)
         else case set_note_grants uuid now i (nf_access_grants form) (db0\<lparr>db_notes := db_notes db @ [n]\<rparr>) of
                (Inl e, db1) \<Rightarrow> (Inl e, db1)
              | (Inr _, db1) \<Rightarrow> (Inr (note_model_of n db1), db1))"

definition put_note :: "note_row \<Rightarrow> note_db \<Rightarrow> note_db" where
  "put_note n db = db\<lparr>db_notes := map (\<lambda>m. if nt_id m = nt_id n then n else m) (db_notes db)\<rparr>"

definition updated_dict :: "dict option \<Rightarrow> dict option option \<Rightarrow> dict option" where
  "updated_dict old new = (case new of None \<Rightarrow> old | Some d \<Rightarrow> Some (dmerge (or_nothing old) (or_nothing d)))"

definition changed_note :: "note_update_form \<Rightarrow> note_row \<Rightarrow> note_row" where
  "changed_note form n =
     n\<lparr>nt_title := (case nu_title form of None \<Rightarrow> nt_title n | Some t \<Rightarrow> t), nt_data := updated_dict (nt_data n) (nu_data form),
       nt_meta := updated_dict (nt_meta n) (nu_meta form)\<rparr>"

definition update_note_by_id :: "(nat \<Rightarrow> string) \<Rightarrow> int \<Rightarrow> string \<Rightarrow> note_update_form \<Rightarrow> note_db \<Rightarrow> note_model option result \<times> note_db" where
  "update_note_by_id uuid now i form db =
     (case find_note i db of
        None \<Rightarrow> (Inr None, db)
      | Some n \<Rightarrow>
          let n1 = changed_note form n
          in if n1 = n \<and> nu_access_grants form = None then (Inr (Some (note_model_of n1 db)), db)
             else (case (case nu_access_grants form of None \<Rightarrow> (Inr [], db) | Some gs \<Rightarrow> set_note_grants uuid now i gs db) of
                    (Inl e, db1) \<Rightarrow> (Inl e, db1)
                  | (Inr _, db1) \<Rightarrow>
                      let n2 = n1\<lparr>nt_updated_at := now\<rparr>; db2 = put_note n2 db1 in (Inr (Some (note_model_of n2 db2)), db2)))"

definition toggle_note_pinned_by_id :: "(nat \<Rightarrow> string) \<Rightarrow> int \<Rightarrow> string \<Rightarrow> string \<Rightarrow> note_db \<Rightarrow> note_model option \<times> note_db" where
  "toggle_note_pinned_by_id uuid now i uid db =
     (case find_note i db of
        None \<Rightarrow> (None, db)
      | Some n \<Rightarrow>
          if list_ex (\<lambda>p. pn_user_id p = uid \<and> pn_note_id p = i) (db_pins db)
          then (Some (note_model_of n db), db\<lparr>db_pins := filter (\<lambda>p. \<not> (pn_user_id p = uid \<and> pn_note_id p = i)) (db_pins db)\<rparr>)
          else let j = uuid (db_note_uuid db); db0 = db\<lparr>db_note_uuid := Suc (db_note_uuid db)\<rparr>
               in if j \<in> pn_id ` set (db_pins db) then (None, db0)
                  else (Some (note_model_of n db),
                        db0\<lparr>db_pins := db_pins db @ [\<lparr>pn_id = j, pn_user_id = uid, pn_note_id = i, pn_created_at = now\<rparr>]\<rparr>))"

definition delete_note_by_id :: "string \<Rightarrow> note_db \<Rightarrow> bool \<times> note_db" where
  "delete_note_by_id i db =
     (True, db\<lparr>db_note_grants := snd (revoke_all_access ''note'' i (db_note_grants db)),
               db_pins := filter (\<lambda>p. pn_note_id p \<noteq> i) (db_pins db), db_notes := filter (\<lambda>n. nt_id n \<noteq> i) (db_notes db)\<rparr>)"

section \<open>Handlers\<close>

datatype note_response =
  Note_list "(note_row \<times> bool \<times> user) list"
| Note_page "(note_model \<times> bool \<times> user option) list" nat
| Note_read note_model bool bool
| Note_stored note_model bool
| Note_deleted

text \<open>\<open>v[:n]\<close>\<close>

fun py_take :: "nat \<Rightarrow> pyval \<Rightarrow> pyval result" where
  "py_take n (VStr s) = Inr (VStr (take n s))"
| "py_take n (VList xs) = Inr (VList (take n xs))"
| "py_take n v = Inl TypeError"

definition truncate_note_data :: "dict option \<Rightarrow> dict option result" where
  "truncate_note_data data =
     (if or_nothing data = [] then Inr data
      else rbind (py_get (py_or (vget (or_nothing data) ''content'') (VDict [])) ''md'') (\<lambda>md.
           rbind (py_take 1000 (py_or md (VStr []))) (\<lambda>md'. Inr (Some [(''content'', VDict [(''md'', md')])]))))"

definition truncated :: "note_row \<Rightarrow> note_row result" where
  "truncated n = rbind (truncate_note_data (nt_data n)) (\<lambda>d. Inr (n\<lparr>nt_data := d\<rparr>))"

text \<open>Every handler asks for the permission to use notes first.\<close>

definition notes_allowed :: "server \<Rightarrow> user \<Rightarrow> unit result" where
  "notes_allowed sv u =
     rbind (if u_role u = ''admin'' then Inr True else user_permission sv u ''features.notes'') (\<lambda>b.
       if b then Inr () else Inl unauthorized)"

definition may_note :: "server \<Rightarrow> user \<Rightarrow> note_row \<Rightarrow> string \<Rightarrow> note_db \<Rightarrow> bool" where
  "may_note sv u n perm db \<longleftrightarrow> u_role u = ''admin'' \<or> u_id u = nt_user_id n \<or>
     has_access (sv_groups sv) (u_id u) ''note'' (nt_id n) perm None (db_note_grants db)"

definition checked_note :: "server \<Rightarrow> user \<Rightarrow> string \<Rightarrow> string \<Rightarrow> note_db \<Rightarrow> note_row result" where
  "checked_note sv u i perm db =
     rbind (notes_allowed sv u) (\<lambda>_.
       case find_note i db of
         None \<Rightarrow> Inl not_found
       | Some n \<Rightarrow> if may_note sv u n perm db then Inr n else Inl forbidden)"

definition list_items :: "server \<Rightarrow> (note_row \<Rightarrow> bool) \<Rightarrow> note_model list \<Rightarrow> note_response result" where
  "list_items sv pinned ms =
     rbind (rmap (\<lambda>(n, u). rbind (truncated n) (\<lambda>n'. Inr (n', pinned n, u)))
       (concat (map (\<lambda>m. case List.find (\<lambda>u. u_id u = nt_user_id (fst m)) (db_users (sv_users sv)) of None \<Rightarrow> [] | Some u \<Rightarrow> [(fst m, u)]) ms)))
       (\<lambda>xs. Inr (Note_list xs))"

definition page_bounds :: "int option \<Rightarrow> int option \<times> int option" where
  "page_bounds page = (case page of None \<Rightarrow> (None, None) | Some p \<Rightarrow> (Some ((p - 1) * 60), Some 60))"

definition get_notes_route :: "server \<Rightarrow> user \<Rightarrow> int option \<Rightarrow> note_db \<Rightarrow> note_response result" where
  "get_notes_route sv u page db =
     rbind (notes_allowed sv u) (\<lambda>_.
       let ms = get_notes_by_user_id (sv_empty_or sv) (sv_groups sv) (u_id u) ''read'' (fst (page_bounds page)) (snd (page_bounds page)) db
       in list_items sv (\<lambda>n. nt_id n \<in> set (get_pinned_note_ids (u_id u) db)) ms)"

definition get_pinned_notes_route :: "server \<Rightarrow> user \<Rightarrow> note_db \<Rightarrow> note_response result" where
  "get_pinned_notes_route sv u db =
     rbind (notes_allowed sv u) (\<lambda>_.
       list_items sv (\<lambda>n. True) (get_pinned_notes_by_user_id (sv_empty_or sv) (sv_groups sv) (u_id u) ''read'' db))"

definition note_list_query :: "server \<Rightarrow> user \<Rightarrow> note_query \<Rightarrow> note_query" where
  "note_list_query sv u q =
     \<lparr>nq_query = nonempty (nq_query q), nq_view_option = nonempty (nq_view_option q), nq_permission = nonempty (nq_permission q),
      nq_order_by = nonempty (nq_order_by q), nq_direction = nonempty (nq_direction q),
      nq_user_id = (if sees_all sv u then None else Some (u_id u)),
      nq_group_ids = (if sees_all sv u \<or> user_group_ids sv u = [] then None else Some (user_group_ids sv u))\<rparr>"

definition search_notes_route :: "(pyval \<Rightarrow> string option) \<Rightarrow> server \<Rightarrow> user \<Rightarrow> note_query \<Rightarrow> int option \<Rightarrow> note_db \<Rightarrow> note_response result" where
  "search_notes_route json_text sv u q page db =
     rbind (notes_allowed sv u) (\<lambda>_.
       let (items, total_hits) = search_notes (sv_empty_or sv) (sv_ilike sv) json_text (sv_users sv) (u_id u) (note_list_query sv u q)
             (fst (page_bounds page)) (snd (page_bounds page)) db
       in rbind (rmap (\<lambda>(m, owner). rbind (truncated (fst m)) (\<lambda>n.
                    Inr ((n, snd m), nt_id (fst m) \<in> set (get_pinned_note_ids (u_id u) db), owner))) items)
            (\<lambda>xs. Inr (Note_page xs total_hits)))"

definition create_new_note :: "server \<Rightarrow> user \<Rightarrow> note_form \<Rightarrow> note_db \<Rightarrow> note_response result \<times> note_db" where
  "create_new_note sv u form db =
     run db (notes_allowed sv u) (\<lambda>_.
     run db (allowed_grants sv u ''sharing.public_notes'' (nf_access_grants form)) (\<lambda>gs.
       case insert_new_note (sv_uuid sv) (sv_now sv) (u_id u) (form\<lparr>nf_access_grants := gs\<rparr>) db of
         (Inl e, db1) \<Rightarrow> (Inl bad_request, db1)
       | (Inr m, db1) \<Rightarrow> (Inr (Note_stored m False), db1)))"

text \<open>The grants a model of a row carries, as the check for public write access sees them.\<close>

definition grant_item_of :: "access_grant \<Rightarrow> grant_item" where
  "grant_item_of g = GModel [(''id'', VStr (ag_id g)), (''principal_type'', VStr (ag_principal_type g)),
     (''principal_id'', VStr (ag_principal_id g)), (''permission'', VStr (ag_permission g))]"

definition get_note_route :: "server \<Rightarrow> user \<Rightarrow> string \<Rightarrow> note_db \<Rightarrow> note_response result" where
  "get_note_route sv u i db =
     rbind (checked_note sv u i ''read'' db) (\<lambda>n.
       let m = note_model_of n db
       in Inr (Note_read m (nt_id n \<in> set (get_pinned_note_ids (u_id u) db))
                 (may_note sv u n ''write'' db \<or> has_public_write_access_grant (Some (map grant_item_of (snd m))))))"

text \<open>
  The handler assigns the filtered grants to the form, and an assigned field counts as set: the update always replaces the grants.
\<close>

definition update_note_route :: "server \<Rightarrow> user \<Rightarrow> string \<Rightarrow> string \<Rightarrow> dict option option \<Rightarrow> dict option option \<Rightarrow> grant_item list option \<Rightarrow>
    note_db \<Rightarrow> note_response result \<times> note_db" where
  "update_note_route sv u i title data meta grants db =
     run db (checked_note sv u i ''write'' db) (\<lambda>n.
     run db (allowed_grants sv u ''sharing.public_notes'' grants) (\<lambda>gs.
       case update_note_by_id (sv_uuid sv) (sv_now sv) i
              \<lparr>nu_title = Some title, nu_data = data, nu_meta = meta, nu_access_grants = Some gs\<rparr> db of
         (Inr (Some m), db1) \<Rightarrow> (Inr (Note_stored m (i \<in> set (get_pinned_note_ids (u_id u) db1))), db1)
       | (_, db1) \<Rightarrow> (Inl bad_request, db1)))"

definition update_note_access :: "server \<Rightarrow> user \<Rightarrow> string \<Rightarrow> grant_item list \<Rightarrow> note_db \<Rightarrow> note_response result \<times> note_db" where
  "update_note_access sv u i grants db =
     run db (checked_note sv u i ''write'' db) (\<lambda>n.
     run db (allowed_grants sv u ''sharing.public_notes'' (Some grants)) (\<lambda>gs.
       case set_note_grants (sv_uuid sv) (sv_now sv) i gs db of
         (Inl e, db1) \<Rightarrow> (Inl e, db1)
       | (Inr _, db1) \<Rightarrow>
           (case get_note_by_id i db1 of
              None \<Rightarrow> (Inl AttributeError, db1)
            | Some m \<Rightarrow> (Inr (Note_stored m (i \<in> set (get_pinned_note_ids (u_id u) db1))), db1))))"

definition pin_note :: "server \<Rightarrow> user \<Rightarrow> string \<Rightarrow> note_db \<Rightarrow> note_response result \<times> note_db" where
  "pin_note sv u i db =
     run db (checked_note sv u i ''read'' db) (\<lambda>n.
       case toggle_note_pinned_by_id (sv_uuid sv) (sv_now sv) i (u_id u) db of
         (None, db1) \<Rightarrow> (Inl AttributeError, db1)
       | (Some m, db1) \<Rightarrow> (Inr (Note_stored m (i \<in> set (get_pinned_note_ids (u_id u) db1))), db1))"

definition delete_note_route :: "server \<Rightarrow> user \<Rightarrow> string \<Rightarrow> note_db \<Rightarrow> note_response result \<times> note_db" where
  "delete_note_route sv u i db =
     run db (checked_note sv u i ''write'' db) (\<lambda>n. (Inr Note_deleted, snd (delete_note_by_id i db)))"

datatype note_request =
  List_notes "int option"
| List_pinned
| Search_notes note_query "int option"
| Create_note note_form
| Read_note string
| Update_note string string "dict option option" "dict option option" "grant_item list option"
| Share_note string "grant_item list"
| Pin_note string
| Delete_note string

fun handle_note :: "(pyval \<Rightarrow> string option) \<Rightarrow> server \<Rightarrow> user \<Rightarrow> note_request \<Rightarrow> note_db \<Rightarrow> note_response result \<times> note_db" where
  "handle_note jt sv u (List_notes page) db = (get_notes_route sv u page db, db)"
| "handle_note jt sv u List_pinned db = (get_pinned_notes_route sv u db, db)"
| "handle_note jt sv u (Search_notes q page) db = (search_notes_route jt sv u q page db, db)"
| "handle_note jt sv u (Create_note form) db = create_new_note sv u form db"
| "handle_note jt sv u (Read_note i) db = (get_note_route sv u i db, db)"
| "handle_note jt sv u (Update_note i title data meta gs) db = update_note_route sv u i title data meta gs db"
| "handle_note jt sv u (Share_note i gs) db = update_note_access sv u i gs db"
| "handle_note jt sv u (Pin_note i) db = pin_note sv u i db"
| "handle_note jt sv u (Delete_note i) db = delete_note_route sv u i db"

section \<open>The tables stay well-formed\<close>

definition wf_note_db :: "note_db \<Rightarrow> bool" where
  "wf_note_db db \<longleftrightarrow> distinct (map nt_id (db_notes db))"

inductive note_reachable :: "note_db \<Rightarrow> bool" where
  start: "note_reachable \<lparr>db_notes = [], db_pins = [], db_note_grants = \<lparr>db_grants = [], gdb_uuid = 0\<rparr>, db_note_uuid = 0\<rparr>"
| request: "note_reachable db \<Longrightarrow> note_reachable (snd (handle_note jt sv u r db))"
| update: "note_reachable db \<Longrightarrow> note_reachable (snd (update_note_by_id uuid now i form db))"

lemma set_note_grants_db: "set_note_grants uuid now i gs db = (r, db') \<Longrightarrow> \<exists>adb. db' = db\<lparr>db_note_grants := adb\<rparr>"
  by (auto simp: set_note_grants_def split: prod.splits)

lemma put_note_ids [simp]: "map nt_id (db_notes (put_note n db)) = map nt_id (db_notes db)"
  by (simp add: put_note_def)

lemma wf_put_note [simp]: "wf_note_db (put_note n db) = wf_note_db db"
  by (simp add: wf_note_db_def)

lemma wf_note_frame [simp]: "wf_note_db (db\<lparr>db_note_grants := adb\<rparr>) = wf_note_db db" "wf_note_db (db\<lparr>db_pins := ps\<rparr>) = wf_note_db db"
  "wf_note_db (db\<lparr>db_note_uuid := k\<rparr>) = wf_note_db db"
  by (simp_all add: wf_note_db_def)

lemma wf_set_note_grants: "set_note_grants uuid now i gs db = (r, db') \<Longrightarrow> wf_note_db db' = wf_note_db db"
  using set_note_grants_db by fastforce

lemma wf_update_note: "wf_note_db db \<Longrightarrow> wf_note_db (snd (update_note_by_id uuid now i form db))"
  by (auto simp: update_note_by_id_def Let_def wf_set_note_grants split: option.splits prod.splits sum.splits)

lemma wf_insert_note: "wf_note_db db \<Longrightarrow> wf_note_db (snd (insert_new_note uuid now uid form db))"
  by (auto simp: insert_new_note_def Let_def wf_set_note_grants wf_note_db_def split: prod.splits sum.splits
      dest!: set_note_grants_db)

lemma wf_toggle_note: "wf_note_db (snd (toggle_note_pinned_by_id uuid now i uid db)) = wf_note_db db"
  by (simp add: toggle_note_pinned_by_id_def Let_def split: option.split)

lemma wf_delete_note: "wf_note_db db \<Longrightarrow> wf_note_db (snd (delete_note_by_id i db))"
  by (simp add: delete_note_by_id_def wf_note_db_def distinct_map_filter)

lemma wf_handle_note: "wf_note_db db \<Longrightarrow> wf_note_db (snd (handle_note jt sv u r db))"
proof (cases r)
  case (Create_note form)
  moreover have "wf_note_db db1" if "wf_note_db db" "insert_new_note (sv_uuid sv) (sv_now sv) (u_id u) f db = (q, db1)" for f q db1
    using wf_insert_note [OF that(1), of "sv_uuid sv" "sv_now sv" "u_id u" f] that(2) by simp
  ultimately show "wf_note_db db \<Longrightarrow> ?thesis"
    by (auto simp: create_new_note_def split: prod.splits sum.splits intro!: snd_run [where P = wf_note_db])
next
  case (Update_note i title data meta gs)
  moreover have "wf_note_db db1" if "wf_note_db db" "update_note_by_id (sv_uuid sv) (sv_now sv) i f db = (q, db1)" for f q db1
    using wf_update_note [OF that(1), of "sv_uuid sv" "sv_now sv" i f] that(2) by simp
  ultimately show "wf_note_db db \<Longrightarrow> ?thesis"
    by (auto simp: update_note_route_def split: prod.splits sum.splits option.splits intro!: snd_run [where P = wf_note_db])
next
  case (Pin_note i)
  moreover have "wf_note_db db1" if "wf_note_db db" "toggle_note_pinned_by_id (sv_uuid sv) (sv_now sv) i (u_id u) db = (q, db1)" for q db1
    using wf_toggle_note [of "sv_uuid sv" "sv_now sv" i "u_id u" db] that by simp
  ultimately show "wf_note_db db \<Longrightarrow> ?thesis"
    by (auto simp: pin_note_def split: prod.splits option.splits intro!: snd_run [where P = wf_note_db])
qed (auto simp: update_note_access_def delete_note_route_def wf_delete_note wf_set_note_grants split: prod.splits sum.splits option.splits
    intro!: snd_run [where P = wf_note_db])

lemma note_reachable_wf: "note_reachable db \<Longrightarrow> wf_note_db db"
  by (induction rule: note_reachable.induct) (simp_all add: wf_handle_note wf_update_note, simp add: wf_note_db_def)

section \<open>Who may change a note\<close>

definition note_view :: "string \<Rightarrow> note_db \<Rightarrow> note_row option \<times> access_grant list" where
  "note_view i db = (find_note i db, note_grants i db)"

lemma find_noteD: "find_note i db = Some n \<Longrightarrow> n \<in> set (db_notes db) \<and> nt_id n = i"
  by (auto simp: find_note_def dest: find_SomeD)

lemma note_view_frame [simp]: "note_view i (db\<lparr>db_pins := ps\<rparr>) = note_view i db" "note_view i (db\<lparr>db_note_uuid := k\<rparr>) = note_view i db"
  by (simp_all add: note_view_def find_note_def note_grants_def)

lemma note_view_put [simp]: "nt_id n \<noteq> i \<Longrightarrow> note_view i (put_note n db) = note_view i db"
  by (simp add: note_view_def find_note_def note_grants_def put_note_def find_replace)

lemma note_view_grants:
  assumes "set_note_grants uuid now j gs db = (r, db')" "j \<noteq> i"
  shows "note_view i db' = note_view i db"
proof -
  obtain adb where g: "set_access_grants uuid now ''note'' j gs (db_note_grants db) = (r, adb)" "db' = db\<lparr>db_note_grants := adb\<rparr>"
    using assms(1) by (auto simp: set_note_grants_def split: prod.splits)
  then show ?thesis using set_access_grants_frame [OF g(1), of "''note''" i] assms(2)
    by (simp add: note_view_def find_note_def note_grants_def)
qed

lemma note_view_insert:
  assumes "find_note i db \<noteq> None"
  shows "note_view i (snd (insert_new_note uuid now uid form db)) = note_view i db"
proof (cases "uuid (db_note_uuid db) \<in> nt_id ` set (db_notes db)")
  case False
  define n where "n = \<lparr>nt_id = uuid (db_note_uuid db), nt_user_id = uid, nt_title = nf_title form, nt_data = nf_data form,
    nt_meta = nf_meta form, nt_created_at = now, nt_updated_at = now\<rparr>"
  let ?db0 = "db\<lparr>db_note_uuid := Suc (db_note_uuid db), db_notes := db_notes db @ [n]\<rparr>"
  obtain r db1 where g: "set_note_grants uuid now (nt_id n) (nf_access_grants form) ?db0 = (r, db1)" by force
  obtain m where "find_note i db = Some m" using assms by auto
  then have "i \<in> nt_id ` set (db_notes db)" using find_noteD by blast
  then have "nt_id n \<noteq> i" using False by (auto simp: n_def)
  then have "note_view i db1 = note_view i ?db0" by (rule note_view_grants [OF g])
  also have "\<dots> = note_view i db" using assms by (simp add: note_view_def find_note_def note_grants_def find_append_new)
  finally show ?thesis using False g by (cases r) (auto simp: insert_new_note_def Let_def n_def)
qed (simp add: insert_new_note_def Let_def)

lemma note_view_update: "j \<noteq> i \<Longrightarrow> note_view i (snd (update_note_by_id uuid now j form db)) = note_view i db"
  by (auto simp: update_note_by_id_def Let_def changed_note_def note_view_grants split: option.splits prod.splits sum.splits dest!: find_noteD)

lemma note_view_toggle: "note_view i (snd (toggle_note_pinned_by_id uuid now j uid db)) = note_view i db"
  by (simp add: toggle_note_pinned_by_id_def Let_def split: option.split)

lemma note_view_delete: "j \<noteq> i \<Longrightarrow> note_view i (snd (delete_note_by_id j db)) = note_view i db"
  by (simp add: delete_note_by_id_def note_view_def find_note_def note_grants_def find_filter_other revoke_frame)

lemma checked_noteD: "checked_note sv u i perm db = Inr n \<Longrightarrow> find_note i db = Some n \<and> may_note sv u n perm db"
  by (auto simp: checked_note_def rbind_Inr_iff split: option.splits if_splits)

lemma handle_note_view:
  assumes "find_note i db = Some n" "\<not> may_note sv u n ''write'' db"
  shows "note_view i (snd (handle_note jt sv u r db)) = note_view i db"
proof -
  let ?same = "\<lambda>db'. note_view i db' = note_view i db"
  have other: "j \<noteq> i" if "checked_note sv u j ''write'' db = Inr m" for j m
    using checked_noteD [OF that] assms by auto
  have ins: "?same db1" if "insert_new_note (sv_uuid sv) (sv_now sv) (u_id u) f db = (q, db1)" for f q db1
    using note_view_insert [of i db "sv_uuid sv" "sv_now sv" "u_id u" f] that assms(1) by simp
  have upd: "?same db1" if "update_note_by_id (sv_uuid sv) (sv_now sv) j f db = (q, db1)" "j \<noteq> i" for j f q db1
    using note_view_update [OF that(2), of "sv_uuid sv" "sv_now sv" f db] that(1) by simp
  have tog: "?same db1" if "toggle_note_pinned_by_id (sv_uuid sv) (sv_now sv) j (u_id u) db = (q, db1)" for j q db1
    using note_view_toggle [of i "sv_uuid sv" "sv_now sv" j "u_id u" db] that by simp
  show ?thesis
    by (cases r) (auto simp: create_new_note_def update_note_route_def update_note_access_def pin_note_def delete_note_route_def
        split: prod.splits sum.splits option.splits intro!: snd_run [where P = ?same] note_view_delete
        dest!: other intro: ins upd tog note_view_grants)
qed

definition note_entitled :: "server \<times> user \<times> note_request \<Rightarrow> note_row option \<times> access_grant list \<Rightarrow> bool" where
  "note_entitled q v \<longleftrightarrow>
     (case (q, v) of
        ((sv, u, r), (Some n, gs)) \<Rightarrow> u_role u = ''admin'' \<or> u_id u = nt_user_id n \<or> grants_give (sv_groups sv) (u_id u) ''write'' gs
      | _ \<Rightarrow> False)"

interpretation guarded_notes: guarded_requests "\<lambda>(sv, u, r) db. snd (handle_note jt sv u r db)" wf_note_db "note_view i" "\<lambda>v. fst v \<noteq> None" note_entitled
  for jt i
proof
  fix db and q :: "server \<times> user \<times> note_request"
  assume wf: "wf_note_db db"
  show "wf_note_db ((case q of (sv, u, r) \<Rightarrow> \<lambda>db. snd (handle_note jt sv u r db)) db)" using wf_handle_note [OF wf] by (simp add: case_prod_beta)
  assume p: "fst (note_view i db) \<noteq> None"
    and c: "note_view i ((case q of (sv, u, r) \<Rightarrow> \<lambda>db. snd (handle_note jt sv u r db)) db) \<noteq> note_view i db"
  obtain n sv u r where n: "find_note i db = Some n" "q = (sv, u, r)" using p by (cases q) (auto simp: note_view_def)
  then have "may_note sv u n ''write'' db" using handle_note_view c by fastforce
  then show "note_entitled q (note_view i db)" using n find_noteD [OF n(1)]
    by (auto simp: note_entitled_def note_view_def may_note_def has_access_grants_give note_grants_def)
qed

definition run_note_requests :: "(pyval \<Rightarrow> string option) \<Rightarrow> (server \<times> user \<times> note_request) list \<Rightarrow> note_db \<Rightarrow> note_db" where
  "run_note_requests jt rs db = fold (\<lambda>(sv, u, r) db. snd (handle_note jt sv u r db)) rs db"

text \<open>C36. Whatever requests are sent, a note that exists keeps its row and its grants unless one of the requests comes from an
  administrator, its owner or a user who had a grant to write it at the beginning.\<close>
theorem note_changes_authorised:
  assumes "note_reachable db" "find_note i db = Some n" "note_view i (run_note_requests jt rs db) \<noteq> note_view i db"
  shows "\<exists>(sv, u, r) \<in> set rs. u_role u = ''admin'' \<or> u_id u = nt_user_id n \<or>
    has_access (sv_groups sv) (u_id u) ''note'' i ''write'' None (db_note_grants db)"
proof -
  obtain q where q: "q \<in> set rs" "note_entitled q (note_view i db)"
    using guarded_notes.change_entitled [OF note_reachable_wf [OF assms(1)], of i jt rs] assms(2, 3) by (auto simp: note_view_def run_note_requests_def)
  obtain sv u r where "q = (sv, u, r)" by (cases q)
  with q show ?thesis by (auto simp: note_entitled_def note_view_def assms(2) has_access_grants_give note_grants_def intro!: bexI [of _ q])
qed

section \<open>An update without grants\<close>

text \<open>Every accepted update of a note replaces its grants, also one that does not mention them: afterwards nobody has access to
  the note by a grant any more.\<close>
theorem note_update_unshares:
  assumes "handle_note jt sv u (Update_note i title data meta None) db = (Inr resp, db')"
  shows "note_grants i db' = [] \<and> \<not> has_access gdb uid ''note'' i perm None (db_note_grants db')"
proof -
  have "note_grants i db' = []"
  proof -
    obtain m where m: "update_note_by_id (sv_uuid sv) (sv_now sv) i \<lparr>nu_title = Some title, nu_data = data, nu_meta = meta,
        nu_access_grants = Some None\<rparr> db = (Inr (Some m), db')"
      using assms by (auto simp: update_note_route_def allowed_grants_def split: prod.splits sum.splits option.splits dest!: run_Inr)
    then obtain r db1 n2 where g: "set_note_grants (sv_uuid sv) (sv_now sv) i None db = (Inr r, db1)" "db' = put_note n2 db1"
      by (auto simp: update_note_by_id_def Let_def split: option.splits prod.splits sum.splits)
    then show ?thesis
      by (auto simp: set_note_grants_def set_access_grants_def normalize_access_grants_def replace_grants_def Let_def put_note_def
          note_grants_def get_grants_by_resource_def delete_grants_def split: prod.splits sum.splits)
  qed
  then show ?thesis by (simp add: has_access_grants_give note_grants_def grants_give_def)
qed

section \<open>Who may read a note\<close>

text \<open>The ids of the notes a response shows.\<close>

fun note_reveals :: "note_response \<Rightarrow> string set" where
  "note_reveals (Note_list xs) = nt_id ` fst ` set xs"
| "note_reveals (Note_page xs k) = (\<lambda>x. nt_id (fst (fst x))) ` set xs"
| "note_reveals (Note_read m p w) = {nt_id (fst m)}"
| "note_reveals (Note_stored m p) = {nt_id (fst m)}"
| "note_reveals Note_deleted = {}"

definition note_known :: "server \<Rightarrow> user \<Rightarrow> string \<Rightarrow> note_db \<Rightarrow> bool" where
  "note_known sv u i db \<longleftrightarrow> (\<exists>n \<in> set (db_notes db). nt_id n = i \<and>
     (u_role u = ''admin'' \<or> u_id u = nt_user_id n \<or> (\<exists>perm. has_access (sv_groups sv) (u_id u) ''note'' i perm None (db_note_grants db))))"

lemma set_page_of: "set (page_of skip limit rows) \<subseteq> set rows"
  unfolding page_of_def by (rule set_paginate)

lemma truncated_id: "truncated n = Inr n' \<Longrightarrow> nt_id n' = nt_id n"
  by (auto simp: truncated_def rbind_Inr_iff)

lemma rmap_set: "rmap f xs = Inr ys \<Longrightarrow> y \<in> set ys \<Longrightarrow> \<exists>x \<in> set xs. f x = Inr y"
  by (induction xs arbitrary: ys) (auto simp: rbind_Inr_iff)

lemma with_note_grants_row: "m \<in> set (with_note_grants db ns) \<Longrightarrow> \<exists>n \<in> set ns. nt_id (fst m) = nt_id n"
  by (auto simp: with_note_grants_def to_note_model_def Let_def)

lemma permitted_notes_known:
  assumes "n \<in> set (permitted_notes e (Some (u_id u)) (user_group_ids sv u) perm db ns)" "u_id u \<noteq> []" "set ns \<subseteq> set (db_notes db)"
  shows "note_known sv u (nt_id n) db"
proof -
  have "doc_user_id (note_doc n) = u_id u \<or> has_access (sv_groups sv) (u_id u) ''note'' (doc_id (note_doc n))
      (if perm = ''read_only'' then ''read'' else perm) None (db_note_grants db)"
    using permitted_rows_access [OF _ assms(2), of n note_doc e "sv_groups sv" "''note''" perm "db_note_grants db" ns] assms(1)
    unfolding permitted_notes_def user_group_ids_def by blast
  moreover have "n \<in> set (db_notes db)" using assms(1, 3) by (auto simp: permitted_notes_def permitted_rows_def)
  ultimately show ?thesis unfolding note_known_def by (auto simp: note_doc_def)
qed

lemma list_items_known:
  assumes "list_items sv f ms = Inr resp" "i \<in> note_reveals resp" "\<And>m. m \<in> set ms \<Longrightarrow> note_known sv u (nt_id (fst m)) db"
  shows "note_known sv u i db"
proof -
  obtain xs where xs: "resp = Note_list xs" "rmap (\<lambda>(n, u). rbind (truncated n) (\<lambda>n'. Inr (n', f n, u)))
       (concat (map (\<lambda>m. case List.find (\<lambda>u. u_id u = nt_user_id (fst m)) (db_users (sv_users sv)) of None \<Rightarrow> [] | Some u \<Rightarrow> [(fst m, u)]) ms)) = Inr xs"
    using assms(1) by (auto simp: list_items_def rbind_Inr_iff)
  obtain y where y: "y \<in> set xs" "i = nt_id (fst y)" using assms(2) xs(1) by auto
  from rmap_set [OF xs(2) y(1)] y(2) assms(3) show ?thesis
    by (auto simp: rbind_Inr_iff truncated_id split: option.splits)
qed

lemma note_hits_known:
  assumes "n \<in> set (note_hits e il jt (u_id u) (note_list_query sv u q) db)" "u_id u \<noteq> []"
  shows "note_known sv u (nt_id n) db"
proof (cases "sees_all sv u")
  case True
  have "n \<in> set (db_notes db)"
    using assms(1) set_permitted_rows by (fastforce simp: note_hits_def Let_def permitted_notes_def split: if_splits)
  then show ?thesis using True unfolding note_known_def sees_all_def by blast
next
  case False
  let ?q = "note_list_query sv u q"
  have q: "nq_user_id ?q = Some (u_id u)" "(case nq_group_ids ?q of None \<Rightarrow> [] | Some gs \<Rightarrow> gs) = user_group_ids sv u"
    using False by (auto simp: note_list_query_def)
  then have "\<not> empty_note_query ?q" by (auto simp: empty_note_query_def)
  then obtain perm ns where "n \<in> set (permitted_notes e (Some (u_id u)) (user_group_ids sv u) perm db ns)" "set ns \<subseteq> set (db_notes db)"
    using assms(1) q by (auto simp: note_hits_def Let_def)
  then show ?thesis using permitted_notes_known assms(2) by blast
qed

lemma model_ids: "nt_id (fst (note_model_of n db)) = nt_id n"
  by (simp add: note_model_of_def to_note_model_def)

lemma checked_note_known: "checked_note sv u i perm db = Inr n \<Longrightarrow> note_known sv u i db \<and> nt_id n = i"
  using checked_noteD [of sv u i perm db n] find_noteD unfolding note_known_def may_note_def by blast

lemma update_note_model: "update_note_by_id uuid now i form db = (Inr (Some m), db') \<Longrightarrow> nt_id (fst m) = i"
  by (auto simp: update_note_by_id_def Let_def model_ids changed_note_def split: option.splits prod.splits sum.splits if_splits dest!: find_noteD)

lemma toggle_note_model: "toggle_note_pinned_by_id uuid now i uid db = (Some m, db') \<Longrightarrow> nt_id (fst m) = i"
  by (auto simp: toggle_note_pinned_by_id_def Let_def model_ids split: option.splits if_splits dest!: find_noteD)

lemma insert_note_model: "insert_new_note uuid now uid form db = (Inr m, db') \<Longrightarrow> nt_id (fst m) \<notin> nt_id ` set (db_notes db)"
  by (auto simp: insert_new_note_def Let_def model_ids split: prod.splits sum.splits if_splits)

lemma handle_note_known:
  assumes h: "handle_note jt sv u r db = (Inr resp, db')" "i \<in> note_reveals resp" "i \<in> nt_id ` set (db_notes db)" and u: "u_id u \<noteq> []"
  shows "note_known sv u i db"
proof (cases r)
  case (List_notes page)
  have known: "note_known sv u (nt_id (fst m)) db"
    if "m \<in> set (get_notes_by_user_id (sv_empty_or sv) (sv_groups sv) (u_id u) ''read'' sk li db)" for m sk li
    using that permitted_notes_known [OF _ u, where perm = "''read''" and sv = sv and db = db] set_page_of
    unfolding get_notes_by_user_id_def user_group_ids_def by (fastforce dest!: with_note_grants_row)
  show ?thesis using h(1, 2) List_notes list_items_known [OF _ h(2) known] by (auto simp: get_notes_route_def rbind_Inr_iff Let_def)
next
  case List_pinned
  have known: "note_known sv u (nt_id (fst m)) db"
    if "m \<in> set (get_pinned_notes_by_user_id (sv_empty_or sv) (sv_groups sv) (u_id u) ''read'' db)" for m
    using that permitted_notes_known [OF _ u, where perm = "''read''" and sv = sv and db = db]
    unfolding get_pinned_notes_by_user_id_def user_group_ids_def by (fastforce dest!: with_note_grants_row)
  show ?thesis using h(1, 2) List_pinned list_items_known [OF _ h(2) known] by (auto simp: get_pinned_notes_route_def rbind_Inr_iff)
next
  case (Search_notes q page)
  have known: "note_known sv u (nt_id (fst m)) db"
    if mem: "(m, w) \<in> set (fst (search_notes e il jt (sv_users sv) (u_id u) (note_list_query sv u q) sk li db))" for m w e il sk li
  proof -
    obtain n where "n \<in> set (note_hits e il jt (u_id u) (note_list_query sv u q) db)" "nt_id (fst m) = nt_id n"
      using mem set_page_of by (fastforce simp: search_notes_def Let_def dest!: set_zip_leftD with_note_grants_row)
    then show ?thesis using note_hits_known [OF _ u] by metis
  qed
  obtain items k where items: "search_notes (sv_empty_or sv) (sv_ilike sv) jt (sv_users sv) (u_id u) (note_list_query sv u q)
      (fst (page_bounds page)) (snd (page_bounds page)) db = (items, k)" by force
  then obtain xs where xs: "resp = Note_page xs k" "rmap (\<lambda>(m, owner). rbind (truncated (fst m)) (\<lambda>n.
      Inr ((n, snd m), nt_id (fst m) \<in> set (get_pinned_note_ids (u_id u) db), owner))) items = Inr xs"
    using h(1) Search_notes by (auto simp: search_notes_route_def rbind_Inr_iff)
  then obtain y where y: "y \<in> set xs" "i = nt_id (fst (fst y))" using h(2) by auto
  from rmap_set [OF xs(2) y(1)] obtain m w where "(m, w) \<in> set items" "nt_id (fst m) = i"
    using y(2) by (auto simp: rbind_Inr_iff truncated_id)
  then show ?thesis
    using known [of m w "sv_empty_or sv" "sv_ilike sv" "fst (page_bounds page)" "snd (page_bounds page)"] unfolding items by simp
next
  case (Create_note form)
  then obtain f m where "insert_new_note (sv_uuid sv) (sv_now sv) (u_id u) f db = (Inr m, db')" "resp = Note_stored m False"
    using h(1) by (auto simp: create_new_note_def split: prod.splits sum.splits dest!: run_Inr)
  then have False using insert_note_model [of "sv_uuid sv" "sv_now sv" "u_id u" f db m db'] h(2, 3) by simp
  then show ?thesis ..
next
  case (Read_note j)
  then show ?thesis using h(1, 2)
    by (auto simp: get_note_route_def rbind_Inr_iff Let_def model_ids dest!: checked_note_known)
next
  case (Update_note j title data meta gs)
  then show ?thesis using h(1, 2)
    by (auto simp: update_note_route_def split: prod.splits sum.splits option.splits dest!: run_Inr checked_note_known update_note_model)
next
  case (Share_note j gs)
  then show ?thesis using h(1, 2)
    by (auto simp: update_note_access_def get_note_by_id_def model_ids split: prod.splits sum.splits option.splits
        dest!: run_Inr checked_note_known find_noteD)
next
  case (Pin_note j)
  then show ?thesis using h(1, 2)
    by (auto simp: pin_note_def split: prod.splits option.splits dest!: run_Inr checked_note_known toggle_note_model)
next
  case (Delete_note j)
  then show ?thesis using h(1, 2) by (auto simp: delete_note_route_def dest!: run_Inr)
qed

text \<open>Whatever a user requests, a response shows a note that existed only to an administrator, its owner or a user who has some
  permission on it by a grant.\<close>
theorem note_responses_authorised:
  assumes "note_reachable db" "u_id u \<noteq> []" "find_note i db = Some n" "handle_note jt sv u r db = (Inr resp, db')" "i \<in> note_reveals resp"
  shows "u_role u = ''admin'' \<or> u_id u = nt_user_id n \<or>
    (\<exists>perm. has_access (sv_groups sv) (u_id u) ''note'' i perm None (db_note_grants db))"
proof -
  have n: "n \<in> set (db_notes db)" "nt_id n = i" using find_noteD [OF assms(3)] by simp_all
  then have "note_known sv u i db" using handle_note_known [OF assms(4, 5) _ assms(2)] by blast
  then obtain m where m: "m \<in> set (db_notes db)" "nt_id m = i"
    "u_role u = ''admin'' \<or> u_id u = nt_user_id m \<or> (\<exists>perm. has_access (sv_groups sv) (u_id u) ''note'' i perm None (db_note_grants db))"
    unfolding note_known_def by blast
  have "m = n" using note_reachable_wf [OF assms(1)] m(1, 2) n unfolding wf_note_db_def by (metis inj_on_eq_iff distinct_map)
  with m(3) show ?thesis by simp
qed

section \<open>An example\<close>

text \<open>An administrator creates a note that the user b may write.\<close>

definition note_account :: "string \<Rightarrow> string \<Rightarrow> user" where
  "note_account i role =
     \<lparr>u_id = i, u_email = i, u_username = None, u_role = role, u_name = i, u_profile_image_url = [], u_settings = [], u_oauth = [],
      u_scim = [], u_last_active_at = 0, u_updated_at = 0, u_created_at = 0\<rparr>"

definition note_server :: server where
  "note_server =
     \<lparr>sv_builtin = [], sv_permissions = [(''features'', VDict [(''notes'', VBool True)])], sv_groups = \<lparr>db_groups = [], db_members = [], db_uuid = 0\<rparr>,
      sv_users = \<lparr>db_users = [], db_api_keys = []\<rparr>, sv_bypass = True, sv_uuid = (\<lambda>n. replicate (Suc n) CHR ''x''), sv_now = 5,
      sv_empty_or = False, sv_ilike = (\<lambda>a b. True), sv_lower = id, sv_diff = (\<lambda>a b c d. [])\<rparr>"

definition shared_note :: note_db where
  "shared_note = run_note_requests (\<lambda>v. None)
     [(note_server, note_account ''a'' ''admin'', Create_note \<lparr>nf_title = ''t'', nf_data = None, nf_meta = None,
        nf_access_grants = Some [GJson (VDict [(''principal_type'', VStr ''user''), (''principal_id'', VStr ''b''), (''permission'', VStr ''write'')])]\<rparr>)]
     \<lparr>db_notes = [], db_pins = [], db_note_grants = \<lparr>db_grants = [], gdb_uuid = 0\<rparr>, db_note_uuid = 0\<rparr>"

lemma shared_note_reachable: "note_reachable shared_note"
  unfolding shared_note_def run_note_requests_def by (simp add: note_reachable.request [OF note_reachable.start] del: handle_note.simps)

lemma shared_note_owner: "map_option nt_user_id (find_note ''x'' shared_note) = Some ''a''"
  by code_simp

definition note_edit :: note_request where
  "note_edit = Update_note ''x'' ''u'' None None None"

lemma note_edit_changes:
  "note_view ''x'' (run_note_requests (\<lambda>v. None) [(note_server, note_account ''b'' ''user'', note_edit)] shared_note) \<noteq> note_view ''x'' shared_note"
  by code_simp

lemma note_edit_accepted:
  "\<exists>m db'. handle_note (\<lambda>v. None) note_server (note_account ''b'' ''user'') note_edit shared_note = (Inr (Note_stored m False), db') \<and> nt_id (fst m) = ''x''"
proof -
  have "case fst (handle_note (\<lambda>v. None) note_server (note_account ''b'' ''user'') note_edit shared_note) of
      Inr (Note_stored m p) \<Rightarrow> nt_id (fst m) = ''x'' \<and> \<not> p | _ \<Rightarrow> False" by code_simp
  then show ?thesis
    by (cases "handle_note (\<lambda>v. None) note_server (note_account ''b'' ''user'') note_edit shared_note") (auto split: sum.splits note_response.splits)
qed

lemma note_changes_authorised_witness:
  "has_access (sv_groups note_server) ''b'' ''note'' ''x'' ''write'' None (db_note_grants shared_note)"
proof -
  obtain n where n: "find_note ''x'' shared_note = Some n" "nt_user_id n = ''a''" using shared_note_owner by auto
  show ?thesis using note_changes_authorised [OF shared_note_reachable n(1) note_edit_changes] n(2) by (auto simp: note_account_def)
qed

lemma note_update_unshares_witness:
  "note_grants ''x'' (snd (handle_note (\<lambda>v. None) note_server (note_account ''b'' ''user'') note_edit shared_note)) = [] \<and>
   note_grants ''x'' shared_note \<noteq> []"
proof
  obtain m db' where h: "handle_note (\<lambda>v. None) note_server (note_account ''b'' ''user'') note_edit shared_note = (Inr (Note_stored m False), db')"
    using note_edit_accepted by blast
  show "note_grants ''x'' (snd (handle_note (\<lambda>v. None) note_server (note_account ''b'' ''user'') note_edit shared_note)) = []"
    using note_update_unshares [OF h [unfolded note_edit_def]] unfolding h [unfolded note_edit_def] note_edit_def by simp
  show "note_grants ''x'' shared_note \<noteq> []" by code_simp
qed

lemma note_responses_authorised_witness:
  "\<exists>perm. has_access (sv_groups note_server) ''b'' ''note'' ''x'' perm None (db_note_grants shared_note)"
proof -
  obtain n where n: "find_note ''x'' shared_note = Some n" "nt_user_id n = ''a''" using shared_note_owner by auto
  obtain m db' where h: "handle_note (\<lambda>v. None) note_server (note_account ''b'' ''user'') note_edit shared_note = (Inr (Note_stored m False), db')"
    "nt_id (fst m) = ''x''"
    using note_edit_accepted by blast
  have b: "u_id (note_account ''b'' ''user'') \<noteq> []" "''x'' \<in> note_reveals (Note_stored m False)" using h(2) by (simp_all add: note_account_def)
  show ?thesis using note_responses_authorised [OF shared_note_reachable b(1) n(1) h(1) b(2)] n(2) by (simp add: note_account_def)
qed

end
