(* ===== verification/ChatVariables.thy ===== *)
theory ChatVariables
  imports PyText
begin

text \<open>
  Variables of chats and users, \<open>backend/open_webui/utils/chat_variables.py\<close>: the fields that a system prompt declares as
  \<open>{{ chat.variables.key | type:property=value }}\<close>, the validation of the values a request brings and the rendering of the prompt.
  \<open>loads\<close> is \<open>json.loads\<close>, \<open>None\<close> where it raises. The keys of a field are copied in the order of a Python set, which differs from run
  to run; the model takes them in alphabetical order, and fields are compared without regard to it.
\<close>

section \<open>Variables in a text\<close>

definition key_start :: "char \<Rightarrow> bool" where
  "key_start c \<longleftrightarrow> 97 \<le> code c \<and> code c \<le> 122"

definition key_char :: "char \<Rightarrow> bool" where
  "key_char c \<longleftrightarrow> key_start c \<or> (48 \<le> code c \<and> code c \<le> 57) \<or> code c = 95"

text \<open>\<open>$\<close> also matches before a line break at the end.\<close>

definition key_matches :: "string \<Rightarrow> bool" where
  "key_matches s \<longleftrightarrow>
     (case s of [] \<Rightarrow> False
      | c # cs \<Rightarrow> key_start c \<and> list_all key_char (if cs \<noteq> [] \<and> code (last cs) = 10 then butlast cs else cs))"

definition max_value_length :: nat where "max_value_length = 20000"
definition max_json_length :: nat where "max_json_length = 100000"

text \<open>
  A match of the pattern at the beginning of a text: the key, the definition and what follows. Every part of the pattern ends at a
  character the part cannot contain, so the longest match of each part is the only one.
\<close>

definition in_name :: "char \<Rightarrow> bool" where
  "in_name c \<longleftrightarrow> \<not> is_space c \<and> c \<noteq> CHR ''|'' \<and> c \<noteq> CHR ''}''"

definition closing :: "string \<Rightarrow> string \<Rightarrow> string option \<Rightarrow> (string \<times> string option \<times> string) option" where
  "closing s key def = map_option (\<lambda>rest. (key, def, rest)) (after_text ''}}'' s)"

definition match_variable :: "string \<Rightarrow> string \<Rightarrow> (string \<times> string option \<times> string) option" where
  "match_variable kind s =
     (case after_text ''{{'' s of
        None \<Rightarrow> None
      | Some s1 \<Rightarrow>
          (case after_text kind (dropWhile is_space s1) of
             None \<Rightarrow> None
           | Some s2 \<Rightarrow>
               let key = takeWhile in_name s2; s3 = dropWhile is_space (dropWhile in_name s2)
               in if key = [] then None
                  else (case after_text ''|'' s3 of
                         None \<Rightarrow> closing s3 key None
                       | Some s4 \<Rightarrow>
                           let s5 = dropWhile is_space s4
                           in closing (dropWhile (\<lambda>c. c \<noteq> CHR ''}'') s5) key (Some (takeWhile (\<lambda>c. c \<noteq> CHR ''}'') s5)))))"

lemma match_variable_shorter:
  assumes "match_variable kind s = Some (key, def, rest)"
  shows "length rest < length s"
proof -
  have c: "length rest < length t" if "closing t k d = Some (key, def, rest)" for t k d
    using that by (auto simp: closing_def dest: length_after_text)
  have d: "length (dropWhile P t) \<le> length t" for P and t :: string by (rule length_dropWhile_le)
  obtain s1 where s1: "after_text ''{{'' s = Some s1" using assms by (auto simp: match_variable_def split: option.splits)
  then obtain s2 where s2: "after_text kind (dropWhile is_space s1) = Some s2"
    using assms by (auto simp: match_variable_def split: option.splits)
  let ?s3 = "dropWhile is_space (dropWhile in_name s2)"
  have "length rest < length ?s3"
  proof (cases "after_text ''|'' ?s3")
    case None
    then show ?thesis using assms s1 s2 by (auto simp: match_variable_def Let_def split: if_splits intro: c)
  next
    case (Some s4)
    then have "length rest < length s4" using assms s1 s2 d [of _ "dropWhile is_space s4"] d [of is_space s4]
      by (auto simp: match_variable_def Let_def split: if_splits dest!: c intro: less_le_trans)
    then show ?thesis using length_after_text [OF Some] by simp
  qed
  also have "length ?s3 \<le> length s2" using d le_trans by blast
  also have "length s2 \<le> length s" using length_after_text [OF s1] length_after_text [OF s2] d [of is_space s1] by simp
  finally show ?thesis .
qed

text \<open>The text as the pieces between the matches that \<open>finditer\<close> and \<open>sub\<close> find, character by character.\<close>

function pieces :: "string \<Rightarrow> string \<Rightarrow> (char + string \<times> string option) list" where
  "pieces kind s =
     (case match_variable kind s of
        Some (key, def, rest) \<Rightarrow> Inr (key, def) # pieces kind rest
      | None \<Rightarrow> (case s of [] \<Rightarrow> [] | c # cs \<Rightarrow> Inl c # pieces kind cs))"
  by pat_completeness auto

termination
  by (relation "measure (\<lambda>(kind, s). length s)") (auto dest: match_variable_shorter)

declare pieces.simps [simp del]

definition find_variables :: "string \<Rightarrow> string \<Rightarrow> (string \<times> string option) list" where
  "find_variables kind s = map projr (filter (\<lambda>p. \<not> isl p) (pieces kind s))"

definition replace_variables :: "string \<Rightarrow> (string \<Rightarrow> string) \<Rightarrow> string \<Rightarrow> string" where
  "replace_variables kind f s = concat (map (\<lambda>p. case p of Inl c \<Rightarrow> [c] | Inr (key, def) \<Rightarrow> f key) (pieces kind s))"

section \<open>Definitions of fields\<close>

primrec split_properties :: "char \<Rightarrow> string \<Rightarrow> string \<Rightarrow> int \<Rightarrow> bool \<Rightarrow> bool \<Rightarrow> string list" where
  "split_properties d [] current depth in_string escape_next =
     (if py_strip current \<noteq> [] then [py_strip current] else [])"
| "split_properties d (c # cs) current depth in_string escape_next =
     (if escape_next then split_properties d cs (current @ [c]) depth in_string False
      else if code c = 92 then split_properties d cs (current @ [c]) depth in_string True
      else if code c = 34 then split_properties d cs (current @ [c]) depth (\<not> in_string) False
      else let depth' = (if in_string then depth
                         else if c \<in> {CHR ''{'', CHR ''[''} then depth + 1
                         else if c \<in> {CHR ''}'', CHR '']''} then depth - 1 else depth)
           in if \<not> in_string \<and> c = d \<and> depth' = 0 then py_strip current # split_properties d cs [] depth' in_string False
              else split_properties d cs (current @ [c]) depth' in_string False)"

definition split_at :: "char \<Rightarrow> string \<Rightarrow> string list" where
  "split_at d s = split_properties d s [] 0 False False"

definition parse_json_value :: "(string \<Rightarrow> pyval option) \<Rightarrow> string \<Rightarrow> pyval" where
  "parse_json_value loads s =
     (if s \<noteq> [] \<and> code (hd s) = 34 \<and> code (last s) = 34 then VStr (butlast (tl s))
      else if s \<noteq> [] \<and> hd s \<in> {CHR ''['', CHR ''{''} then (case loads s of None \<Rightarrow> VStr s | Some v \<Rightarrow> v)
      else VStr s)"

text \<open>A text that is not blank has at least one part.\<close>

definition parse_property :: "(string \<Rightarrow> pyval option) \<Rightarrow> dict \<Rightarrow> string \<Rightarrow> dict" where
  "parse_property loads ps part =
     (let trimmed = py_strip part
      in if trimmed = [] then ps
         else case split_at (CHR ''='') trimmed of
                [] \<Rightarrow> ps
              | [name] \<Rightarrow> dset ps (py_strip name) (VBool True)
              | name # values \<Rightarrow> dset ps (py_strip name) (parse_json_value loads (py_strip (py_join ''='' values))))"

definition parse_variable_definition :: "(string \<Rightarrow> pyval option) \<Rightarrow> string \<Rightarrow> dict" where
  "parse_variable_definition loads s =
     (case split_at (CHR '':'') s of
        [] \<Rightarrow> [(''type'', VStr ''text'')]
      | first # parts \<Rightarrow>
          let t = py_strip (if prefix ''type='' first then drop 5 first else first)
          in dmerge [(''type'', VStr (if t = [] then ''text'' else t))] (foldl (parse_property loads) [] parts))"

definition allowed_keys :: "string list" where
  "allowed_keys = [''default'', ''label'', ''max'', ''maxlength'', ''min'', ''minlength'', ''options'', ''placeholder'', ''required'',
                   ''step'', ''type'']"

definition copy_field :: "string \<Rightarrow> dict \<Rightarrow> dict" where
  "copy_field key def =
     (let f = (''key'', VStr key) # map (\<lambda>k. (k, vget def k)) (filter (\<lambda>k. k \<in> fst ` set def) allowed_keys)
      in if dget f ''type'' = None then dset f ''type'' (VStr ''text'') else f)"

definition safe_field :: "string \<Rightarrow> dict \<Rightarrow> dict" where
  "safe_field key def =
     (let f1 = copy_field key def;
          f2 = (if vget f1 ''type'' = VStr ''select'' \<and> \<not> is_list (vget f1 ''options'') then dset f1 ''options'' (VList []) else f1)
      in dset f2 ''required'' (VBool (truthy (vget f2 ''required''))))"

section \<open>Fields of a prompt\<close>

abbreviation chat_variables_error :: "string \<Rightarrow> py_error" where
  "chat_variables_error \<equiv> ValueError"

type_synonym fields = "(string, dict) pydict"

definition same_field :: "dict \<Rightarrow> dict \<Rightarrow> bool" where
  "same_field a b \<longleftrightarrow> py_eq (VDict a) (VDict b)"

definition add_field :: "(string \<Rightarrow> pyval option) \<Rightarrow> string \<times> string option \<Rightarrow> fields \<times> fields \<Rightarrow> (fields \<times> fields) result" where
  "add_field loads m st =
     (case (m, st) of ((key0, def), (fields, typed)) \<Rightarrow>
       let key = py_strip key0
       in if \<not> key_matches key then Inl (chat_variables_error (''Invalid chat variable key: '' @ key))
          else (case def of
                 None \<Rightarrow> Inr (if dget fields key = None then dset fields key (safe_field key [(''type'', VStr ''text'')]) else fields, typed)
               | Some d \<Rightarrow>
                   if py_strip d = [] then
                     Inr (if dget fields key = None then dset fields key (safe_field key [(''type'', VStr ''text'')]) else fields, typed)
                   else let field = safe_field key (parse_variable_definition loads (py_strip d))
                        in if vget field ''type'' = VStr ''select'' \<and> \<not> truthy (vget field ''options'')
                           then Inl (chat_variables_error (''Chat variable '' @ key @ '' select needs options.''))
                           else if (case dget typed key of None \<Rightarrow> False | Some previous \<Rightarrow> \<not> same_field previous field)
                           then Inl (chat_variables_error (''Chat variable '' @ key @ '' has conflicting definitions.''))
                           else Inr (dset fields key field, dset typed key field)))"

fun add_fields :: "(string \<Rightarrow> pyval option) \<Rightarrow> (string \<times> string option) list \<Rightarrow> fields \<times> fields \<Rightarrow> (fields \<times> fields) result" where
  "add_fields loads [] st = Inr st"
| "add_fields loads (m # ms) st = rbind (add_field loads m st) (add_fields loads ms)"

definition collect_chat_variable_fields :: "(string \<Rightarrow> pyval option) \<Rightarrow> string option \<Rightarrow> fields result" where
  "collect_chat_variable_fields loads prompt =
     (if \<not> given prompt then Inr []
      else rbind (add_fields loads (find_variables ''chat.variables.'' (the prompt)) ([], [])) (\<lambda>(fields, typed). Inr fields))"

definition get_chat_variables_schema :: "(string \<Rightarrow> pyval option) \<Rightarrow> string option \<Rightarrow> pyval" where
  "get_chat_variables_schema loads prompt =
     (if \<not> given prompt then VNone
      else case collect_chat_variable_fields loads prompt of
             Inl e \<Rightarrow> VNone
           | Inr [] \<Rightarrow> VNone
           | Inr fields \<Rightarrow> VDict [(''fields'', VList (map VDict (dvalues fields)))])"

section \<open>Validation\<close>

definition normalize_chat_variables :: "pyval \<Rightarrow> dict" where
  "normalize_chat_variables v = (case v of VDict d \<Rightarrow> d | _ \<Rightarrow> [])"

definition normalize_user_variables :: "pyval \<Rightarrow> (string, string) pydict" where
  "normalize_user_variables v =
     (case v of VDict d \<Rightarrow> concat (map (\<lambda>kv. case snd kv of VStr s \<Rightarrow> [(fst kv, s)] | _ \<Rightarrow> []) d) | _ \<Rightarrow> [])"

fun check_user_variables :: "dict \<Rightarrow> (string, string) pydict \<Rightarrow> (string, string) pydict result" where
  "check_user_variables [] validated = Inr validated"
| "check_user_variables ((key, v) # d) validated =
     (if \<not> key_matches key then Inl (chat_variables_error (''Invalid user variable key: '' @ key))
      else case v of
             VStr s \<Rightarrow>
               if max_value_length < length (unix_lines s) then Inl (chat_variables_error (''User variable is too long: '' @ key))
               else check_user_variables d (dset validated key (unix_lines s))
           | _ \<Rightarrow> Inl (chat_variables_error (''User variable must be a string: '' @ key)))"

definition validate_user_variables :: "pyval \<Rightarrow> (string, string) pydict result" where
  "validate_user_variables v =
     (case v of
        VDict d \<Rightarrow> if max_json_length < length (json_dumps True (VDict d))
                   then Inl (chat_variables_error ''User variables are too large.'')
                   else check_user_variables d []
      | _ \<Rightarrow> Inl (chat_variables_error ''User variables must be an object.''))"

definition is_set_value :: "pyval \<Rightarrow> bool" where
  "is_set_value v \<longleftrightarrow> v \<noteq> VNone \<and> v \<noteq> VStr []"

definition is_option :: "pyval \<Rightarrow> pyval \<Rightarrow> bool" where
  "is_option options v \<longleftrightarrow> (case options of VList xs \<Rightarrow> list_ex (\<lambda>w. py_eq v w) xs | _ \<Rightarrow> False)"

definition field_label :: "string \<Rightarrow> dict \<Rightarrow> string" where
  "field_label key field = py_str (py_or (vget field ''label'') (VStr key))"

definition unix_value :: "pyval \<Rightarrow> pyval" where
  "unix_value v = (case v of VStr s \<Rightarrow> VStr (unix_lines s) | _ \<Rightarrow> v)"

definition too_long :: "pyval \<Rightarrow> bool" where
  "too_long v \<longleftrightarrow> (case v of VStr s \<Rightarrow> max_value_length < length s | _ \<Rightarrow> False)"

definition validate_field :: "bool \<Rightarrow> dict \<Rightarrow> string \<times> dict \<Rightarrow> (string \<times> pyval) result" where
  "validate_field required variables kf =
     (case kf of (key, field) \<Rightarrow>
       let given_value = vget variables key; standard = vget field ''default'';
           has_value = (is_set_value given_value \<or> is_set_value standard);
           v = (if is_set_value given_value then given_value else if is_set_value standard then standard else VStr [])
       in if \<not> has_value \<and> required \<and> truthy (vget field ''required'')
          then Inl (chat_variables_error (''Missing required chat variable: '' @ field_label key field))
          else if vget field ''type'' = VStr ''select'' \<and> has_value \<and> \<not> is_option (py_or (vget field ''options'') (VList [])) v
          then Inl (chat_variables_error (''Invalid value for chat variable: '' @ field_label key field))
          else if too_long (unix_value v)
          then Inl (chat_variables_error (''Chat variable is too long: '' @ field_label key field))
          else Inr (key, unix_value v))"

definition validate_chat_variables :: "(string \<Rightarrow> pyval option) \<Rightarrow> string option \<Rightarrow> pyval \<Rightarrow> bool \<Rightarrow> dict result" where
  "validate_chat_variables loads prompt variables required =
     rbind (collect_chat_variable_fields loads prompt) (\<lambda>fields.
       if max_json_length < length (json_dumps True (VDict (normalize_chat_variables variables)))
       then Inl (chat_variables_error ''Chat variables are too large.'')
       else rmap (validate_field required (normalize_chat_variables variables)) fields)"

section \<open>Rendering\<close>

definition render_chat_variables :: "(string \<Rightarrow> pyval option) \<Rightarrow> string option \<Rightarrow> pyval \<Rightarrow> bool \<Rightarrow> string option" where
  "render_chat_variables loads prompt variables required =
     (if \<not> given prompt then prompt
      else let validated = (case validate_chat_variables loads prompt variables required of Inl e \<Rightarrow> [] | Inr d \<Rightarrow> d)
           in Some (replace_variables ''chat.variables.''
                (\<lambda>key. case dget_or validated (py_strip key) (VStr []) of VNone \<Rightarrow> [] | v \<Rightarrow> py_str v) (the prompt)))"

definition render_user_variables :: "string option \<Rightarrow> pyval \<Rightarrow> string option" where
  "render_user_variables prompt variables =
     (if \<not> given prompt then prompt
      else Some (replace_variables ''user.variables.''
             (\<lambda>key. if key_matches (py_strip key) then dget_or (normalize_user_variables variables) (py_strip key) [] else [])
             (the prompt)))"

section \<open>The types of fields and values\<close>

definition field_typed :: "string \<Rightarrow> dict \<Rightarrow> bool" where
  "field_typed k f \<longleftrightarrow> key_matches k \<and> vget f ''key'' = VStr k \<and> (\<exists>b. vget f ''required'' = VBool b) \<and>
     (vget f ''type'' = VStr ''select'' \<longrightarrow> (\<exists>x xs. vget f ''options'' = VList (x # xs)))"

definition value_typed :: "bool \<Rightarrow> dict \<Rightarrow> pyval \<Rightarrow> bool" where
  "value_typed required f v \<longleftrightarrow> v \<noteq> VNone \<and> \<not> too_long v \<and>
     (required \<and> truthy (vget f ''required'') \<longrightarrow> v \<noteq> VStr []) \<and>
     (vget f ''type'' = VStr ''select'' \<longrightarrow> v = VStr [] \<or> (\<exists>w. is_option (vget f ''options'') w \<and> v = unix_value w))"

lemma rmap_list_all2: "rmap f xs = Inr ys \<Longrightarrow> list_all2 (\<lambda>x y. f x = Inr y) xs ys"
  by (induction xs arbitrary: ys) (auto simp: rbind_Inr_iff)

lemma unix_value_simps [simp]: "unix_value v = VNone \<longleftrightarrow> v = VNone" "unix_value v = VStr [] \<longleftrightarrow> v = VStr []"
  by (cases v; simp add: unix_value_def)+

lemma vget_copied: "k \<notin> set ks \<Longrightarrow> vget ((k, v) # map (\<lambda>x. (x, g x)) ks) k = v"
  by simp

lemma vget_safe_field:
  "vget (safe_field k def) ''key'' = VStr k" "\<exists>b. vget (safe_field k def) ''required'' = VBool b"
  "vget (safe_field k def) ''type'' = VStr ''select'' \<Longrightarrow> is_list (vget (safe_field k def) ''options'')"
proof -
  have k: "vget (copy_field k def) ''key'' = VStr k" by (simp add: copy_field_def Let_def)
  show "vget (safe_field k def) ''key'' = VStr k" "\<exists>b. vget (safe_field k def) ''required'' = VBool b"
    using k by (simp_all add: safe_field_def Let_def)
  show "vget (safe_field k def) ''type'' = VStr ''select'' \<Longrightarrow> is_list (vget (safe_field k def) ''options'')"
    by (auto simp: safe_field_def Let_def split: if_splits)
qed

lemma safe_field_typed:
  assumes "key_matches k" "vget (safe_field k def) ''type'' = VStr ''select'' \<longrightarrow> truthy (vget (safe_field k def) ''options'')"
  shows "field_typed k (safe_field k def)"
proof -
  have "\<exists>x xs. v = VList (x # xs)" if "is_list v" "truthy v" for v
    using that by (cases v) (auto simp: neq_Nil_conv)
  then show ?thesis using assms vget_safe_field [of k def] by (auto simp: field_typed_def)
qed

lemma text_field_typed: "key_matches k \<Longrightarrow> field_typed k (safe_field k [(''type'', VStr ''text'')])"
  by (rule safe_field_typed) (simp_all add: safe_field_def copy_field_def allowed_keys_def)

definition fields_typed :: "fields \<Rightarrow> bool" where
  "fields_typed fs \<longleftrightarrow> (\<forall>(k, f) \<in> set fs. field_typed k f)"

lemma fields_typed_dset: "fields_typed fs \<Longrightarrow> field_typed k f \<Longrightarrow> fields_typed (dset fs k f)"
  unfolding fields_typed_def by (induction fs) auto

lemma add_field_typed: "add_field loads m (fs, ts) = Inr (fs', ts') \<Longrightarrow> fields_typed fs \<Longrightarrow> fields_typed fs'"
  by (cases m) (auto simp: add_field_def Let_def split: option.splits if_splits
      intro!: fields_typed_dset text_field_typed safe_field_typed)

lemma add_fields_typed: "add_fields loads ms (fs, ts) = Inr (fs', ts') \<Longrightarrow> fields_typed fs \<Longrightarrow> fields_typed fs'"
  by (induction ms arbitrary: fs ts) (auto simp: rbind_Inr_iff dest: add_field_typed)

lemma collect_typed: "collect_chat_variable_fields loads prompt = Inr fs \<Longrightarrow> fields_typed fs"
  using add_fields_typed [of loads "find_variables ''chat.variables.'' (the prompt)" "[]" "[]" fs]
  by (auto simp: collect_chat_variable_fields_def fields_typed_def rbind_Inr_iff split: if_splits)

lemma validate_field_typed:
  assumes "validate_field required vs (k, f) = Inr (k', v)"
  shows "k' = k \<and> value_typed required f v"
  using assms by (auto simp: validate_field_def value_typed_def Let_def is_set_value_def py_or_def is_option_def split: if_splits)

text \<open>C32. Values that pass the validation are typed by the fields the prompt declares: there is one for every field, in their order; the
  key of a field matches the pattern and a selection has options; no value is \<open>None\<close> or longer than the limit, that of a required field is
  not empty, and that of a selection is empty or one of the options with its line ends normalised.\<close>
theorem chat_variables_typed:
  assumes "validate_chat_variables loads prompt variables required = Inr d"
  shows "\<exists>fields. collect_chat_variable_fields loads prompt = Inr fields \<and>
     list_all2 (\<lambda>(k, f) (k', v). k' = k \<and> field_typed k f \<and> value_typed required f v) fields d"
proof -
  obtain fields where f: "collect_chat_variable_fields loads prompt = Inr fields"
    "rmap (validate_field required (normalize_chat_variables variables)) fields = Inr d"
    using assms by (auto simp: validate_chat_variables_def rbind_Inr_iff split: if_splits)
  then have "list_all2 (\<lambda>kf kv. field_typed (fst kf) (snd kf) \<and> validate_field required (normalize_chat_variables variables) kf = Inr kv) fields d"
    using collect_typed [OF f(1)] rmap_list_all2 [OF f(2)]
    by (auto simp: fields_typed_def list_all2_conv_all_nth dest: nth_mem)
  then show ?thesis using f(1) by (auto elim!: list_all2_mono dest: validate_field_typed)
qed

theorem chat_variables_typed_witness:
  "\<exists>fields d. list_all2 (\<lambda>(k, f) (k', v). k' = k \<and> field_typed k f \<and> value_typed True f v) fields d \<and>
     d = [(''to'', VStr ''a''), (''size'', VStr ''b'')]"
proof -
  let ?loads = "\<lambda>s. Some (VList [VStr ''b''])"
  let ?prompt = "Some ''{{chat.variables.to}}, {{ chat.variables.size | select:options=[1]:required }}''"
  have "collect_chat_variable_fields ?loads ?prompt =
      Inr [(''to'', [(''key'', VStr ''to''), (''type'', VStr ''text''), (''required'', VBool False)]),
           (''size'', [(''key'', VStr ''size''), (''options'', VList [VStr ''b'']), (''required'', VBool True), (''type'', VStr ''select'')])]"
    by code_simp
  then have "validate_chat_variables ?loads ?prompt (VDict [(''size'', VStr ''b''), (''to'', VStr ''a'')]) True =
      Inr [(''to'', VStr ''a''), (''size'', VStr ''b'')]"
    by (simp add: validate_chat_variables_def normalize_chat_variables_def max_json_length_def json_str_def json_char_def code_def
        validate_field_def Let_def is_set_value_def py_or_def is_option_def unix_value_def too_long_def max_value_length_def)
  from chat_variables_typed [OF this] show ?thesis by blast
qed

end
