(* ===== verification/Files.thy ===== *)
theory Files
  imports PyText
begin

text \<open>
  Uploaded files, \<open>backend/open_webui/models/files.py\<close>: the rows, every method of \<open>FilesTable\<close> except the query of files pending for a
  knowledge base, which is in \<open>KnowledgeSearch\<close>. Metadata are JSON already, so sanitising them changes nothing. The case-insensitive
  comparison of characters by the database is the argument \<open>eq\<close>.
\<close>

section \<open>Rows and forms\<close>

record file_row =
  fl_id :: string
  fl_user_id :: string
  fl_hash :: "string option"
  fl_filename :: string
  fl_path :: "string option"
  fl_data :: "dict option"
  fl_meta :: "dict option"
  fl_created_at :: int
  fl_updated_at :: int

type_synonym file_db = "file_row list"

record file_form =
  ff_id :: string
  ff_hash :: "string option"
  ff_filename :: string
  ff_path :: string
  ff_data :: dict
  ff_meta :: dict

record file_update_form =
  fu_hash :: "string option"
  fu_data :: "dict option"
  fu_meta :: "dict option"

section \<open>Reading\<close>

definition get_file_by_id :: "string \<Rightarrow> file_db \<Rightarrow> file_row option" where
  "get_file_by_id i db = List.find (\<lambda>f. fl_id f = i) db"

definition get_file_by_id_and_user_id :: "string \<Rightarrow> string \<Rightarrow> file_db \<Rightarrow> file_row option" where
  "get_file_by_id_and_user_id i uid db = List.find (\<lambda>f. fl_id f = i \<and> fl_user_id f = uid) db"

record file_metadata =
  fm_id :: string
  fm_hash :: "string option"
  fm_meta :: "dict option"
  fm_created_at :: int
  fm_updated_at :: int

definition metadata_of :: "file_row \<Rightarrow> file_metadata" where
  "metadata_of f = \<lparr>fm_id = fl_id f, fm_hash = fl_hash f, fm_meta = fl_meta f, fm_created_at = fl_created_at f, fm_updated_at = fl_updated_at f\<rparr>"

definition get_file_metadata_by_id :: "string \<Rightarrow> file_db \<Rightarrow> file_metadata option" where
  "get_file_metadata_by_id i db = map_option metadata_of (get_file_by_id i db)"

definition count_files_by_user_id :: "string option \<Rightarrow> file_db \<Rightarrow> nat" where
  "count_files_by_user_id uid db = length (if given uid then filter (\<lambda>f. Some (fl_user_id f) = uid) db else db)"

definition check_file_access :: "string \<Rightarrow> string \<Rightarrow> file_db \<Rightarrow> bool" where
  "check_file_access i uid db = (case get_file_by_id i db of None \<Rightarrow> False | Some f \<Rightarrow> fl_user_id f = uid)"

definition get_files_by_ids :: "string list \<Rightarrow> file_db \<Rightarrow> file_row list" where
  "get_files_by_ids ids db = order_desc fl_updated_at (filter (\<lambda>f. fl_id f \<in> set ids) db)"

definition get_file_metadatas_by_ids :: "string list \<Rightarrow> file_db \<Rightarrow> file_metadata list" where
  "get_file_metadatas_by_ids ids db = map metadata_of (get_files_by_ids ids db)"

definition get_files_by_user_id :: "string \<Rightarrow> file_db \<Rightarrow> file_row list" where
  "get_files_by_user_id uid db = filter (\<lambda>f. fl_user_id f = uid) db"

definition owned_files :: "string option \<Rightarrow> file_db \<Rightarrow> file_row list" where
  "owned_files uid db = (if given uid then filter (\<lambda>f. Some (fl_user_id f) = uid) db else db)"

text \<open>The latest first, then by descending id.\<close>

definition get_file_list :: "string option \<Rightarrow> nat \<Rightarrow> nat \<Rightarrow> file_db \<Rightarrow> file_row list \<times> nat" where
  "get_file_list uid skip limit db =
     (let rows = owned_files uid db
      in (paginate (Some skip) (Some limit) (order_desc fl_updated_at (rev (sort_key fl_id rows))), length rows))"

section \<open>Search by a glob\<close>

definition backslash :: char where
  "backslash = char_of (92::nat)"

definition glob_to_like_pattern :: "string \<Rightarrow> string" where
  "glob_to_like_pattern glob =
     (let p1 = replace_char backslash [backslash, backslash] glob;
          p2 = replace_char (CHR ''%'') [backslash, CHR ''%''] p1;
          p3 = replace_char (CHR ''_'') [backslash, CHR ''_''] p2;
          p4 = replace_char (CHR ''*'') ''%'' p3
      in replace_char (CHR ''?'') ''_'' p4)"

text \<open>\<open>LIKE\<close> with the escape character, as the databases define it.\<close>

function like_match :: "(char \<Rightarrow> char \<Rightarrow> bool) \<Rightarrow> string \<Rightarrow> string \<Rightarrow> bool" where
  "like_match eq [] s = (s = [])"
| "like_match eq (p # ps) s =
     (if p = backslash then
        (case ps of [] \<Rightarrow> False | q # qs \<Rightarrow> (case s of [] \<Rightarrow> False | c # cs \<Rightarrow> eq q c \<and> like_match eq qs cs))
      else if p = CHR ''%'' then like_match eq ps s \<or> (case s of [] \<Rightarrow> False | c # cs \<Rightarrow> like_match eq (p # ps) cs)
      else (case s of [] \<Rightarrow> False | c # cs \<Rightarrow> (p = CHR ''_'' \<or> eq p c) \<and> like_match eq ps cs))"
  by pat_completeness auto

termination
  by (relation "measure (\<lambda>(eq, ps, s). length ps + length s)") auto

text \<open>What a glob means: any text for a star, any one character for a question mark.\<close>

function glob_match :: "(char \<Rightarrow> char \<Rightarrow> bool) \<Rightarrow> string \<Rightarrow> string \<Rightarrow> bool" where
  "glob_match eq [] s = (s = [])"
| "glob_match eq (p # ps) s =
     (if p = CHR ''*'' then glob_match eq ps s \<or> (case s of [] \<Rightarrow> False | c # cs \<Rightarrow> glob_match eq (p # ps) cs)
      else (case s of [] \<Rightarrow> False | c # cs \<Rightarrow> (p = CHR ''?'' \<or> eq p c) \<and> glob_match eq ps cs))"
  by pat_completeness auto

termination
  by (relation "measure (\<lambda>(eq, ps, s). length ps + length s)") auto

declare like_match.simps [simp del] glob_match.simps [simp del]

definition search_files :: "(char \<Rightarrow> char \<Rightarrow> bool) \<Rightarrow> string option \<Rightarrow> string \<Rightarrow> nat \<Rightarrow> nat \<Rightarrow> file_db \<Rightarrow> file_row list" where
  "search_files eq uid filename skip limit db =
     (let pattern = glob_to_like_pattern filename; rows = owned_files uid db;
          hits = (if pattern \<noteq> ''%'' then filter (\<lambda>f. like_match eq pattern (fl_filename f)) rows else rows)
      in paginate (Some skip) (Some limit) (order_desc fl_created_at (rev (sort_key fl_id hits))))"

section \<open>Writing\<close>

definition insert_new_file :: "int \<Rightarrow> string \<Rightarrow> file_form \<Rightarrow> file_db \<Rightarrow> file_row option \<times> file_db" where
  "insert_new_file now uid form db =
     (let f = \<lparr>fl_id = ff_id form, fl_user_id = uid, fl_hash = ff_hash form, fl_filename = ff_filename form, fl_path = Some (ff_path form),
               fl_data = Some (ff_data form), fl_meta = Some (ff_meta form), fl_created_at = now, fl_updated_at = now\<rparr>
      in if fl_id f \<in> fl_id ` set db then (None, db) else (Some f, db @ [f]))"

definition merged :: "dict option \<Rightarrow> dict \<Rightarrow> dict option" where
  "merged old new = Some (dmerge (case old of None \<Rightarrow> [] | Some d \<Rightarrow> d) new)"

text \<open>A change of one row; a missing row makes the method return \<open>None\<close>.\<close>

definition change_file :: "string \<Rightarrow> (file_row \<Rightarrow> file_row) \<Rightarrow> file_db \<Rightarrow> file_row option \<times> file_db" where
  "change_file i change db =
     (case get_file_by_id i db of
        None \<Rightarrow> (None, db)
      | Some f \<Rightarrow> (Some (change f), map (\<lambda>g. if fl_id g = i then change f else g) db))"

definition update_file_by_id :: "int \<Rightarrow> string \<Rightarrow> file_update_form \<Rightarrow> file_db \<Rightarrow> file_row option \<times> file_db" where
  "update_file_by_id now i form =
     change_file i (\<lambda>f. f\<lparr>fl_hash := (case fu_hash form of None \<Rightarrow> fl_hash f | Some h \<Rightarrow> Some h),
       fl_data := (case fu_data form of None \<Rightarrow> fl_data f | Some d \<Rightarrow> merged (fl_data f) d),
       fl_meta := (case fu_meta form of None \<Rightarrow> fl_meta f | Some m \<Rightarrow> merged (fl_meta f) m), fl_updated_at := now\<rparr>)"

definition update_file_hash_by_id :: "int \<Rightarrow> string \<Rightarrow> string option \<Rightarrow> file_db \<Rightarrow> file_row option \<times> file_db" where
  "update_file_hash_by_id now i h = change_file i (\<lambda>f. f\<lparr>fl_hash := h, fl_updated_at := now\<rparr>)"

definition update_file_data_by_id :: "int \<Rightarrow> string \<Rightarrow> dict \<Rightarrow> file_db \<Rightarrow> file_row option \<times> file_db" where
  "update_file_data_by_id now i data = change_file i (\<lambda>f. f\<lparr>fl_data := merged (fl_data f) data, fl_updated_at := now\<rparr>)"

definition update_file_metadata_by_id :: "int \<Rightarrow> string \<Rightarrow> dict \<Rightarrow> file_db \<Rightarrow> file_row option \<times> file_db" where
  "update_file_metadata_by_id now i meta = change_file i (\<lambda>f. f\<lparr>fl_meta := merged (fl_meta f) meta, fl_updated_at := now\<rparr>)"

definition update_file_name_by_id :: "int \<Rightarrow> string \<Rightarrow> string \<Rightarrow> file_db \<Rightarrow> file_row option \<times> file_db" where
  "update_file_name_by_id now i name =
     change_file i (\<lambda>f. f\<lparr>fl_filename := name, fl_meta := merged (fl_meta f) [(''name'', VStr name)], fl_updated_at := now\<rparr>)"

definition delete_file_by_id :: "string \<Rightarrow> file_db \<Rightarrow> bool \<times> file_db" where
  "delete_file_by_id i db = (True, filter (\<lambda>f. fl_id f \<noteq> i) db)"

definition delete_all_files :: "file_db \<Rightarrow> bool \<times> file_db" where
  "delete_all_files db = (True, [])"

section \<open>The search finds what the glob matches\<close>

text \<open>What the translation makes of one character.\<close>

definition like_of :: "char \<Rightarrow> string" where
  "like_of c = (if c = backslash \<or> c = CHR ''%'' \<or> c = CHR ''_'' then [backslash, c]
     else if c = CHR ''*'' then ''%'' else if c = CHR ''?'' then ''_'' else [c])"

lemma backslash_distinct [simp]: "backslash \<noteq> CHR ''%''" "backslash \<noteq> CHR ''_''" "backslash \<noteq> CHR ''*''" "backslash \<noteq> CHR ''?''"
  "CHR ''%'' \<noteq> backslash" "CHR ''_'' \<noteq> backslash" "CHR ''*'' \<noteq> backslash" "CHR ''?'' \<noteq> backslash"
  by code_simp+

lemma like_match_simps [simp]:
  "like_match eq [] s = (s = [])"
  "like_match eq (backslash # q # qs) [] = False"
  "like_match eq (backslash # q # qs) (c # cs) = (eq q c \<and> like_match eq qs cs)"
  "like_match eq (CHR ''%'' # ps) [] = like_match eq ps []"
  "like_match eq (CHR ''%'' # ps) (c # cs) = (like_match eq ps (c # cs) \<or> like_match eq (CHR ''%'' # ps) cs)"
  "like_match eq (CHR ''_'' # ps) [] = False"
  "like_match eq (CHR ''_'' # ps) (c # cs) = like_match eq ps cs"
  "p \<noteq> backslash \<Longrightarrow> p \<noteq> CHR ''%'' \<Longrightarrow> like_match eq (p # ps) [] = False"
  "p \<noteq> backslash \<Longrightarrow> p \<noteq> CHR ''%'' \<Longrightarrow> p \<noteq> CHR ''_'' \<Longrightarrow> like_match eq (p # ps) (c # cs) = (eq p c \<and> like_match eq ps cs)"
  by (subst like_match.simps; simp)+

lemma glob_match_simps [simp]:
  "glob_match eq [] s = (s = [])"
  "glob_match eq (CHR ''*'' # ps) [] = glob_match eq ps []"
  "glob_match eq (CHR ''*'' # ps) (c # cs) = (glob_match eq ps (c # cs) \<or> glob_match eq (CHR ''*'' # ps) cs)"
  "p \<noteq> CHR ''*'' \<Longrightarrow> glob_match eq (p # ps) [] = False"
  "p \<noteq> CHR ''*'' \<Longrightarrow> glob_match eq (p # ps) (c # cs) = ((p = CHR ''?'' \<or> eq p c) \<and> glob_match eq ps cs)"
  by (subst glob_match.simps; simp)+

lemma glob_to_like_of: "glob_to_like_pattern g = concat (map like_of g)"
  by (induction g) (simp_all add: glob_to_like_pattern_def like_of_def Let_def)

lemma like_of_cases:
  "c = CHR ''*'' \<Longrightarrow> like_of c = ''%''"
  "c = CHR ''?'' \<Longrightarrow> like_of c = ''_''"
  "c = backslash \<or> c = CHR ''%'' \<or> c = CHR ''_'' \<Longrightarrow> like_of c = [backslash, c]"
  "c \<noteq> CHR ''*'' \<Longrightarrow> c \<noteq> CHR ''?'' \<Longrightarrow> c \<noteq> backslash \<Longrightarrow> c \<noteq> CHR ''%'' \<Longrightarrow> c \<noteq> CHR ''_'' \<Longrightarrow> like_of c = [c]"
  unfolding like_of_def by auto

lemma like_match_of: "like_match eq (concat (map like_of g)) s = glob_match eq g s"
proof (induction g arbitrary: s)
  case (Cons p ps)
  consider "p = CHR ''*''" | "p = CHR ''?''" | "p = backslash \<or> p = CHR ''%'' \<or> p = CHR ''_''"
    | "p \<noteq> CHR ''*''" "p \<noteq> CHR ''?''" "p \<noteq> backslash" "p \<noteq> CHR ''%''" "p \<noteq> CHR ''_''" by blast
  then show ?case
  proof cases
    case 1
    then show ?thesis by (induction s) (simp_all add: like_of_cases Cons.IH)
  next
    case 2
    then show ?thesis by (cases s) (simp_all add: like_of_cases Cons.IH)
  next
    case 3
    then have "p \<noteq> CHR ''*''" "p \<noteq> CHR ''?''" by auto
    then show ?thesis using like_of_cases(3) [OF 3] by (cases s) (simp_all add: Cons.IH)
  next
    case 4
    then show ?thesis by (cases s) (simp_all add: like_of_cases Cons.IH)
  qed
qed simp

lemma glob_star: "glob_match eq ''*'' s"
  by (induction s) simp_all

lemma star_pattern: "glob_to_like_pattern g = ''%'' \<Longrightarrow> g = ''*''"
proof -
  assume p: "glob_to_like_pattern g = ''%''"
  have one: "like_of c \<noteq> []" for c by (simp add: like_of_def)
  obtain c g' where g: "g = c # g'" using p by (cases g) (auto simp: glob_to_like_of)
  then have "like_of c @ concat (map like_of g') = ''%''" using p by (simp add: glob_to_like_of)
  then have "like_of c = ''%'' \<and> concat (map like_of g') = []" using one [of c] by (auto simp: append_eq_Cons_conv)
  then show ?thesis using g one by (cases g') (auto simp: like_of_def split: if_splits)
qed

text \<open>C37. A search without pagination finds exactly the files, of the user if one is given, whose name the glob matches: the
  translation to a pattern of the database escapes its special characters and keeps the meaning of the glob.\<close>
theorem search_files_exact:
  assumes "length db \<le> limit"
  shows "set (search_files eq uid glob 0 limit db) =
    {f \<in> set db. (given uid \<longrightarrow> Some (fl_user_id f) = uid) \<and> glob_match eq glob (fl_filename f)}"
proof -
  define hits where "hits = (if glob_to_like_pattern glob \<noteq> ''%'' then filter (\<lambda>f. like_match eq (glob_to_like_pattern glob) (fl_filename f)) (owned_files uid db)
    else owned_files uid db)"
  have "length hits \<le> length db" unfolding hits_def owned_files_def by (auto intro: le_trans [OF length_filter_le])
  then have "set (search_files eq uid glob 0 limit db) = set hits"
    using assms by (simp add: search_files_def Let_def paginate_def hits_def [symmetric])
  also have "hits = filter (\<lambda>f. glob_match eq glob (fl_filename f)) (owned_files uid db)"
    unfolding hits_def using star_pattern [of glob] glob_star [of eq] by (auto simp: glob_to_like_of like_match_of)
  finally show ?thesis by (auto simp: owned_files_def)
qed

definition sample_file :: "string \<Rightarrow> string \<Rightarrow> file_row" where
  "sample_file i name = \<lparr>fl_id = i, fl_user_id = ''u'', fl_hash = None, fl_filename = name, fl_path = None, fl_data = None, fl_meta = None,
     fl_created_at = 0, fl_updated_at = 0\<rparr>"

theorem search_files_exact_witness:
  "set (search_files (=) (Some ''u'') ''100%_*'' 0 5 [sample_file ''a'' ''100%_a.txt'', sample_file ''b'' ''100xya.txt'']) =
     {sample_file ''a'' ''100%_a.txt''}"
proof -
  have m: "glob_match (=) ''100%_*'' ''100%_a.txt''" "\<not> glob_match (=) ''100%_*'' ''100xya.txt''" by code_simp+
  have "set (search_files (=) (Some ''u'') ''100%_*'' 0 5 [sample_file ''a'' ''100%_a.txt'', sample_file ''b'' ''100xya.txt'']) =
      {f \<in> {sample_file ''a'' ''100%_a.txt'', sample_file ''b'' ''100xya.txt''}. (given (Some ''u'') \<longrightarrow> Some (fl_user_id f) = Some ''u'') \<and>
         glob_match (=) ''100%_*'' (fl_filename f)}"
    by (subst search_files_exact) simp_all
  also have "\<dots> = {sample_file ''a'' ''100%_a.txt''}"
    using m by (auto simp only: sample_file_def file_row.simps given_def option.simps)
  finally show ?thesis .
qed

end
