(* ===== verification/KnowledgeSearch.thy ===== *)
theory KnowledgeSearch
  imports Knowledge Files Routes
begin

text \<open>
  The queries of \<open>KnowledgeTable\<close> in \<open>backend/open_webui/models/knowledge.py\<close> that join knowledge bases, their files and users, and the
  query of \<open>models/files.py\<close> for the files that wait to be added. Arguments stand for the database: \<open>ilike\<close> compares a text with a pattern,
  \<open>json_at\<close> is the text at a path of a JSON column, \<open>None\<close> being \<open>NULL\<close>, and \<open>sql_null\<close> says whether a value is stored as \<open>NULL\<close>. A join
  reads the rows of \<open>knowledge_file\<close> in their order.
\<close>

section \<open>Queries\<close>

record kb_query =
  kq_query :: "string option"
  kq_view_option :: "string option"
  kq_source :: "string option"
  kq_order_by :: "string option"
  kq_direction :: "string option"
  kq_user_id :: "string option"
  kq_group_ids :: "string list"
  kq_include_content :: bool
  kq_directory :: "string option option"

record sql =
  sql_ilike :: "string \<Rightarrow> string \<Rightarrow> bool"
  sql_json_at :: "string list \<Rightarrow> pyval \<Rightarrow> string option"
  sql_null :: "pyval \<Rightarrow> bool"
  sql_empty_or :: bool
  sql_max_content :: nat

definition row_user :: "user_db \<Rightarrow> string \<Rightarrow> user option" where
  "row_user udb uid = List.find (\<lambda>u. u_id u = uid) (db_users udb)"

definition text_hit :: "sql \<Rightarrow> string \<Rightarrow> string option \<Rightarrow> bool" where
  "text_hit sql q s = (case s of None \<Rightarrow> False | Some s \<Rightarrow> sql_ilike sql s (''%'' @ q @ ''%''))"

definition viewed :: "string \<Rightarrow> string option \<Rightarrow> string \<Rightarrow> bool" where
  "viewed uid view owner \<longleftrightarrow> (view = Some ''created'' \<longrightarrow> owner = uid) \<and> (view = Some ''shared'' \<longrightarrow> owner \<noteq> uid)"

section \<open>Knowledge bases\<close>

definition kb_doc :: "knowledge_row \<Rightarrow> document" where
  "kb_doc k = \<lparr>doc_id = kn_id k, doc_user_id = kn_user_id k\<rparr>"

definition kb_hit :: "sql \<Rightarrow> user_db \<Rightarrow> string \<Rightarrow> knowledge_row \<Rightarrow> bool" where
  "kb_hit sql udb q k \<longleftrightarrow>
     text_hit sql q (Some (kn_name k)) \<or> text_hit sql q (Some (kn_description k)) \<or>
     (case row_user udb (kn_user_id k) of None \<Rightarrow> False
      | Some u \<Rightarrow> text_hit sql q (Some (u_name u)) \<or> text_hit sql q (Some (u_email u)) \<or> text_hit sql q (u_username u))"

text \<open>\<open>NULL <> 'external'\<close> is not true.\<close>

definition source_hit :: "sql \<Rightarrow> string option \<Rightarrow> knowledge_row \<Rightarrow> bool" where
  "source_hit sql source k \<longleftrightarrow>
     (let s = sql_json_at sql [''source''] (kn_meta k)
      in if source = Some ''external'' then s = Some ''external''
         else if source = Some ''local'' then sql_null sql (kn_meta k) \<or> (s \<noteq> None \<and> s \<noteq> Some ''external'')
         else True)"

definition knowledge_hits :: "sql \<Rightarrow> user_db \<Rightarrow> grant_db \<Rightarrow> string \<Rightarrow> kb_query \<Rightarrow> kb_db \<Rightarrow> knowledge_row list" where
  "knowledge_hits sql udb adb uid q db =
     (let rows = filter (\<lambda>k. (given (kq_query q) \<longrightarrow> kb_hit sql udb (the (kq_query q)) k) \<and> viewed uid (kq_view_option q) (kn_user_id k)
                   \<and> source_hit sql (kq_source q) k) (db_knowledge db);
          readable = permitted_rows kb_doc (sql_empty_or sql) (kq_user_id q) (kq_group_ids q) ''knowledge'' ''read'' adb rows
      in sorted_rows kn_name kn_created_at kn_updated_at (kq_order_by q) (map_option py_lower (kq_direction q)) (sort_key kn_id readable))"

definition page_limit :: "nat \<Rightarrow> nat \<Rightarrow> 'a list \<Rightarrow> 'a list" where
  "page_limit skip limit rows = paginate (Some skip) (if limit = 0 then None else Some limit) rows"

record knowledge_item =
  ki_row :: knowledge_row
  ki_grants :: "access_grant list"
  ki_user :: "user option"
  ki_file_count :: nat

definition knowledge_item_of :: "user_db \<Rightarrow> grant_db \<Rightarrow> kb_db \<Rightarrow> knowledge_row \<Rightarrow> knowledge_item" where
  "knowledge_item_of udb adb db k =
     \<lparr>ki_row = k, ki_grants = get_grants_by_resource ''knowledge'' (kn_id k) adb, ki_user = row_user udb (kn_user_id k),
      ki_file_count = length (filter (\<lambda>f. kf_knowledge_id f = kn_id k) (db_kb_files db))\<rparr>"

definition search_knowledge_bases ::
    "sql \<Rightarrow> user_db \<Rightarrow> grant_db \<Rightarrow> string \<Rightarrow> kb_query \<Rightarrow> nat \<Rightarrow> nat \<Rightarrow> kb_db \<Rightarrow> knowledge_item list \<times> nat" where
  "search_knowledge_bases sql udb adb uid q skip limit db =
     (let hits = knowledge_hits sql udb adb uid q db
      in (map (knowledge_item_of udb adb db) (page_limit skip limit hits), length hits))"

section \<open>Files of knowledge bases\<close>

definition joined_files :: "file_db \<Rightarrow> kb_db \<Rightarrow> (file_row \<times> kb_file) list" where
  "joined_files fdb db =
     concat (map (\<lambda>kf. case get_file_by_id (kf_file_id kf) fdb of None \<Rightarrow> [] | Some f \<Rightarrow> [(f, kf)]) (db_kb_files db))"

definition files_of_knowledge :: "string \<Rightarrow> file_db \<Rightarrow> kb_db \<Rightarrow> (file_row \<times> kb_file) list" where
  "files_of_knowledge kid fdb db = filter (\<lambda>(f, kf). kf_knowledge_id kf = kid) (joined_files fdb db)"

definition get_files_with_directory_ids :: "string \<Rightarrow> file_db \<Rightarrow> kb_db \<Rightarrow> (file_row \<times> string option) list" where
  "get_files_with_directory_ids kid fdb db = map (\<lambda>(f, kf). (f, kf_directory_id kf)) (files_of_knowledge kid fdb db)"

definition get_files_by_id :: "string \<Rightarrow> file_db \<Rightarrow> kb_db \<Rightarrow> file_row list" where
  "get_files_by_id kid fdb db = map fst (files_of_knowledge kid fdb db)"

definition get_file_metadatas_by_id :: "string \<Rightarrow> file_db \<Rightarrow> kb_db \<Rightarrow> file_metadata list" where
  "get_file_metadatas_by_id kid fdb db = map metadata_of (get_files_by_id kid fdb db)"

definition data_value :: "dict option \<Rightarrow> pyval" where
  "data_value d = (case d of None \<Rightarrow> VNone | Some d \<Rightarrow> VDict d)"

definition file_hit :: "sql \<Rightarrow> kb_query \<Rightarrow> file_row \<Rightarrow> bool" where
  "file_hit sql q f \<longleftrightarrow>
     (given (kq_query q) \<longrightarrow>
        (let s = the (kq_query q)
         in text_hit sql s (Some (fl_filename f)) \<or>
            (kq_include_content q \<and>
             text_hit sql s (map_option (take (sql_max_content sql)) (sql_json_at sql [''content''] (data_value (fl_data f)))))))"

text \<open>What a response shows of a file: not its data.\<close>

record file_item =
  fi_id :: string
  fi_user_id :: string
  fi_hash :: "string option"
  fi_filename :: string
  fi_meta :: "dict option"
  fi_created_at :: int
  fi_updated_at :: int
  fi_user :: "user option"
  fi_collection :: "(knowledge_row \<times> access_grant list) option"

definition file_item_of :: "user_db \<Rightarrow> (knowledge_row \<times> access_grant list) option \<Rightarrow> file_row \<times> kb_file \<Rightarrow> file_item" where
  "file_item_of udb collection fk =
     (case fk of (f, kf) \<Rightarrow>
        \<lparr>fi_id = fl_id f, fi_user_id = fl_user_id f, fi_hash = fl_hash f, fi_filename = fl_filename f, fi_meta = fl_meta f,
         fi_created_at = fl_created_at f, fi_updated_at = fl_updated_at f, fi_user = row_user udb (kf_user_id kf), fi_collection = collection\<rparr>)"

definition file_hits :: "sql \<Rightarrow> grant_db \<Rightarrow> kb_query \<Rightarrow> file_db \<Rightarrow> kb_db \<Rightarrow> ((file_row \<times> kb_file) \<times> knowledge_row) list" where
  "file_hits sql adb q fdb db =
     (let rows = concat (map (\<lambda>fk. case get_knowledge_by_id (kf_knowledge_id (snd fk)) db of None \<Rightarrow> [] | Some k \<Rightarrow> [(fk, k)]) (joined_files fdb db));
          readable = permitted_rows (kb_doc \<circ> snd) (sql_empty_or sql) (kq_user_id q) (kq_group_ids q) ''knowledge'' ''read'' adb rows;
          hits = filter (\<lambda>(fk, k). file_hit sql q (fst fk)) readable
      in order_desc (fl_updated_at \<circ> fst \<circ> fst) (sort_key (fl_id \<circ> fst \<circ> fst) hits))"

definition search_knowledge_files ::
    "sql \<Rightarrow> user_db \<Rightarrow> grant_db \<Rightarrow> kb_query \<Rightarrow> nat \<Rightarrow> nat \<Rightarrow> file_db \<Rightarrow> kb_db \<Rightarrow> file_item list \<times> nat" where
  "search_knowledge_files sql udb adb q skip limit fdb db =
     (let hits = file_hits sql adb q fdb db
      in (map (\<lambda>(fk, k). file_item_of udb (Some (k, get_grants_by_resource ''knowledge'' (kn_id k) adb)) fk) (page_limit skip limit hits), length hits))"

definition in_directory :: "string option option \<Rightarrow> kb_file \<Rightarrow> bool" where
  "in_directory dir kf = (case dir of None \<Rightarrow> True | Some d \<Rightarrow> if given d then kf_directory_id kf = d else kf_directory_id kf = None)"

definition asked_directory :: "kb_query \<Rightarrow> string option" where
  "asked_directory q = (case kq_directory q of None \<Rightarrow> None | Some d \<Rightarrow> d)"

definition search_files_by_id ::
    "sql \<Rightarrow> user_db \<Rightarrow> string \<Rightarrow> string \<Rightarrow> kb_query \<Rightarrow> nat \<Rightarrow> nat \<Rightarrow> file_db \<Rightarrow> kb_db \<Rightarrow>
       file_item list \<times> directory list \<times> directory list \<times> nat" where
  "search_files_by_id sql udb kid uid q skip limit fdb db =
     (let hits = filter (\<lambda>(f, kf). in_directory (kq_directory q) kf \<and> file_hit sql q f \<and> viewed uid (kq_view_option q) (kf_user_id kf))
            (files_of_knowledge kid fdb db);
          rows = sorted_rows (fl_filename \<circ> fst) (fl_created_at \<circ> fst) (fl_updated_at \<circ> fst) (kq_order_by q) (kq_direction q)
            (sort_key (fl_id \<circ> fst) hits)
      in (map (file_item_of udb None) (page_limit skip limit rows), get_directories kid (asked_directory q) db,
          get_directory_breadcrumbs (asked_directory q) db, length hits))"

definition get_pending_files_for_knowledge :: "sql \<Rightarrow> string \<Rightarrow> file_db \<Rightarrow> kb_db \<Rightarrow> file_row list" where
  "get_pending_files_for_knowledge sql kid fdb db =
     order_desc fl_created_at (filter (\<lambda>f.
       sql_json_at sql [''data'', ''knowledge_id''] (data_value (fl_meta f)) = Some kid \<and>
       sql_json_at sql [''status''] (data_value (fl_data f)) \<in> {Some ''pending'', Some ''processing''} \<and>
       \<not> has_file kid (fl_id f) db) fdb)"

section \<open>What a search shows is readable\<close>

definition kb_readable :: "group_db \<Rightarrow> grant_db \<Rightarrow> string \<Rightarrow> knowledge_row \<Rightarrow> bool" where
  "kb_readable gdb adb uid k \<longleftrightarrow> kn_user_id k = uid \<or> has_access gdb uid ''knowledge'' (kn_id k) ''read'' None adb"

definition as_user :: "group_db \<Rightarrow> string \<Rightarrow> kb_query \<Rightarrow> bool" where
  "as_user gdb uid q \<longleftrightarrow> kq_user_id q = Some uid \<and> kq_group_ids q = map g_id (get_groups_by_member_id uid gdb) \<and> uid \<noteq> []"

lemma set_page_limit: "set (page_limit skip limit rows) \<subseteq> set rows"
  unfolding page_limit_def by (rule set_paginate)

lemma kb_permitted_readable:
  "r \<in> set (permitted_rows (kb_doc \<circ> f) e (kq_user_id q) (kq_group_ids q) ''knowledge'' ''read'' adb rows) \<Longrightarrow> as_user gdb uid q \<Longrightarrow>
     kb_readable gdb adb uid (f r)"
  using permitted_rows_access [of r "kb_doc \<circ> f" e uid gdb "''knowledge''" "''read''" adb rows]
  by (auto simp: as_user_def kb_readable_def kb_doc_def)

lemma knowledge_hits_readable:
  "k \<in> set (knowledge_hits sql udb adb uid q db) \<Longrightarrow> as_user gdb uid q \<Longrightarrow> k \<in> set (db_knowledge db) \<and> kb_readable gdb adb uid k"
  using kb_permitted_readable [where f = "\<lambda>k. k" and r = k] set_permitted_rows [of kb_doc]
  by (fastforce simp: knowledge_hits_def Let_def comp_def)

lemma file_hits_readable:
  "(fk, k) \<in> set (file_hits sql adb q fdb db) \<Longrightarrow> as_user gdb uid q \<Longrightarrow>
     fk \<in> set (joined_files fdb db) \<and> get_knowledge_by_id (kf_knowledge_id (snd fk)) db = Some k \<and> kb_readable gdb adb uid k"
  using kb_permitted_readable [where f = snd and r = "(fk, k)"] set_permitted_rows [of "kb_doc \<circ> snd"]
  by (fastforce simp: file_hits_def Let_def split: option.splits)

end
