(* ===== verification/Shell.thy ===== *)
theory Shell
  imports PyText
begin

text \<open>
  How a command line is read and text is formatted in \<open>backend/open_webui/tools/knowledge_fs.py\<close>: splitting at pipes, \<open>shlex.split\<close>, flags and
  numbers, \<open>fnmatch\<close>, the test and the translation of patterns, thousands separators and dates.
\<close>

section \<open>Characters\<close>

definition back_slash :: char where "back_slash = char_of (92::nat)"
definition single_quote :: char where "single_quote = char_of (39::nat)"
definition double_quote :: char where "double_quote = char_of (34::nat)"

text \<open>\<open>str.isdigit\<close>, which takes superscripts for digits, and \<open>\\d\<close>, which does not.\<close>

definition is_decimal :: "char \<Rightarrow> bool" where
  "is_decimal c \<longleftrightarrow> 48 \<le> code c \<and> code c \<le> 57"

definition is_digit :: "char \<Rightarrow> bool" where
  "is_digit c \<longleftrightarrow> is_decimal c \<or> code c \<in> {178, 179, 185}"

definition to_number :: "string \<Rightarrow> nat" where
  "to_number s = foldl (\<lambda>n c. 10 * n + (code c - 48)) 0 s"

section \<open>Splitting a command\<close>

text \<open>The segments between pipes that are not quoted; a backslash means nothing here.\<close>

fun split_pipes :: "bool \<Rightarrow> bool \<Rightarrow> string \<Rightarrow> string \<Rightarrow> string list" where
  "split_pipes in_single in_double buf [] = (if py_strip buf = [] then [] else [py_strip buf])"
| "split_pipes in_single in_double buf (c # s) =
     (if c = single_quote \<and> \<not> in_double then split_pipes (\<not> in_single) in_double (buf @ [c]) s
      else if c = double_quote \<and> \<not> in_single then split_pipes in_single (\<not> in_double) (buf @ [c]) s
      else if c = CHR ''|'' \<and> \<not> in_single \<and> \<not> in_double then py_strip buf # split_pipes in_single in_double [] s
      else split_pipes in_single in_double (buf @ [c]) s)"

text \<open>The states of \<open>shlex\<close>: between words, in a word, in quotes, after a backslash in one of the last two.\<close>

datatype lex_state = Between | In_word | Quoted char | Escaped lex_state

definition lex_space :: "char \<Rightarrow> bool" where
  "lex_space c \<longleftrightarrow> code c \<in> {9, 10, 13, 32}"

definition is_quote :: "char \<Rightarrow> bool" where
  "is_quote c \<longleftrightarrow> c = single_quote \<or> c = double_quote"

fun lex :: "lex_state \<Rightarrow> bool \<Rightarrow> string \<Rightarrow> string \<Rightarrow> string list result" where
  "lex st quoted token [] =
     (case st of
        Quoted q \<Rightarrow> Inl (ValueError ''No closing quotation'')
      | Escaped st' \<Rightarrow> Inl (ValueError ''No escaped character'')
      | _ \<Rightarrow> Inr (if token \<noteq> [] \<or> quoted then [token] else []))"
| "lex (Quoted q) quoted token (c # s) =
     (if c = q then lex In_word True token s
      else if c = back_slash \<and> q = double_quote then lex (Escaped (Quoted q)) True token s
      else lex (Quoted q) True (token @ [c]) s)"
| "lex (Escaped st) quoted token (c # s) =
     (let kept = (case st of Quoted q \<Rightarrow> if c \<noteq> back_slash \<and> c \<noteq> q then [back_slash] else [] | _ \<Rightarrow> [])
      in lex st quoted (token @ kept @ [c]) s)"
| "lex st quoted token (c # s) =
     (if lex_space c then (if token \<noteq> [] \<or> quoted then rbind (lex Between False [] s) (\<lambda>ts. Inr (token # ts)) else lex Between quoted token s)
      else if c = back_slash then lex (Escaped In_word) quoted token s
      else if is_quote c then lex (Quoted c) quoted token s
      else lex In_word quoted (token @ [c]) s)"

definition shlex_split :: "string \<Rightarrow> string list result" where
  "shlex_split s = lex Between False [] s"

definition tokens_of :: "string \<Rightarrow> string list" where
  "tokens_of seg = (case shlex_split seg of Inl e \<Rightarrow> split_words [] seg | Inr ts \<Rightarrow> ts)"

definition parse_pipeline :: "string \<Rightarrow> string list list" where
  "parse_pipeline command =
     filter (\<lambda>ts. ts \<noteq> []) (map tokens_of (filter (\<lambda>seg. seg \<noteq> []) (split_pipes False False [] command)))"

section \<open>Flags\<close>

definition is_flags :: "string \<Rightarrow> bool" where
  "is_flags t \<longleftrightarrow> (case t of c # cs \<Rightarrow> c = CHR ''-'' \<and> cs \<noteq> [] \<and> \<not> list_all is_digit cs | [] \<Rightarrow> False)"

definition extract_flags :: "string list \<Rightarrow> char set \<times> string list" where
  "extract_flags tokens = (set (concat (map tl (filter is_flags tokens))), filter (\<lambda>t. \<not> is_flags t) tokens)"

text \<open>\<open>$\<close> also matches before a line break at the end.\<close>

definition chomp :: "string \<Rightarrow> string" where
  "chomp s = (if s \<noteq> [] \<and> code (last s) = 10 then butlast s else s)"

definition numeric_flag :: "string \<Rightarrow> nat option" where
  "numeric_flag t =
     (case t of c # cs \<Rightarrow> if c = CHR ''-'' \<and> chomp cs \<noteq> [] \<and> list_all is_decimal (chomp cs) then Some (to_number (chomp cs)) else None
      | [] \<Rightarrow> None)"

fun extract_numeric_flag :: "string list \<Rightarrow> nat option \<times> string list" where
  "extract_numeric_flag [] = (None, [])"
| "extract_numeric_flag (t # ts) =
     (case numeric_flag t of
        Some n \<Rightarrow> (Some n, ts)
      | None \<Rightarrow> (case extract_numeric_flag ts of (n, rest) \<Rightarrow> (n, t # rest)))"

text \<open>\<open>M,Np\<close>: in quotes that were left over when \<open>quotes\<close>.\<close>

definition line_range :: "bool \<Rightarrow> string \<Rightarrow> (nat \<times> nat) option" where
  "line_range quotes arg =
     (let skip = (\<lambda>c s. case s of x # xs \<Rightarrow> if x = c then xs else s | [] \<Rightarrow> []);
          s1 = (if quotes then skip single_quote arg else arg);
          m = takeWhile is_decimal s1; s2 = dropWhile is_decimal s1
      in if m = [] \<or> s2 = [] \<or> hd s2 \<noteq> CHR '','' then None
         else let n = takeWhile is_decimal (tl s2); s3 = skip (CHR ''p'') (dropWhile is_decimal (tl s2));
                  s4 = (if quotes then skip single_quote s3 else s3)
              in if n = [] \<or> \<not> (s4 = [] \<or> map code s4 = [10]) then None else Some (to_number m, to_number n))"

section \<open>Patterns\<close>

primrec contains :: "string \<Rightarrow> string \<Rightarrow> bool" where
  "contains p [] = (p = [])"
| "contains p (c # s) = (after_text p (c # s) \<noteq> None \<or> contains p s)"

function replace_text :: "string \<Rightarrow> string \<Rightarrow> string \<Rightarrow> string" where
  "replace_text [] new s = s"
| "replace_text (p # ps) new [] = []"
| "replace_text (p # ps) new (c # s) =
     (if p = c then (case after_text ps s of None \<Rightarrow> c # replace_text (p # ps) new s | Some rest \<Rightarrow> new @ replace_text (p # ps) new rest)
      else c # replace_text (p # ps) new s)"
  by pat_completeness auto

termination
  by (relation "measure (\<lambda>(p, new, s). length s)") (auto dest: length_after_text)

text \<open>\<open>\[.+\]\<close> is found: a bracket, something but line breaks, and the other bracket.\<close>

fun bracketed_rest :: "string \<Rightarrow> bool" where
  "bracketed_rest (c # d # s) = (code c \<noteq> 10 \<and> (d = CHR '']'' \<or> bracketed_rest (d # s)))"
| "bracketed_rest _ = False"

primrec bracketed :: "string \<Rightarrow> bool" where
  "bracketed [] = False"
| "bracketed (c # s) = (c = CHR ''['' \<and> bracketed_rest s \<or> bracketed s)"

definition is_regex_pattern :: "string \<Rightarrow> bool" where
  "is_regex_pattern p \<longleftrightarrow>
     contains ''|'' p \<or> contains ''.*'' p \<or> contains ''.+'' p \<or> contains ''.?'' p \<or>
     contains [back_slash, CHR ''d''] p \<or> contains [back_slash, CHR ''w''] p \<or> contains [back_slash, CHR ''s''] p \<or> bracketed p"

definition normalize_regex :: "string \<Rightarrow> string" where
  "normalize_regex p = replace_text [back_slash, CHR ''|''] ''|'' (replace_text [back_slash, CHR ''|''] ''|'' p)"

text \<open>\<open>fnmatch\<close>: a star, a question mark and a class, whose members are characters and ranges; a bracket that is not closed is a character.
  A range with its ends the wrong way round has no members.\<close>

fun class_members :: "string \<Rightarrow> char \<Rightarrow> bool" where
  "class_members (lo # d # hi # s) c =
     (if d = CHR ''-'' then code lo \<le> code c \<and> code c \<le> code hi \<or> class_members s c else c = lo \<or> class_members (d # hi # s) c)"
| "class_members s c = (c \<in> set s)"

definition class_end :: "string \<Rightarrow> (string \<times> string) option" where
  "class_end s =
     (let bang = takeWhile (\<lambda>c. c = CHR ''!'') (take 1 s); s1 = drop (length bang) s;
          first = takeWhile (\<lambda>c. c = CHR '']'') (take 1 s1); s2 = drop (length first) s1;
          body = takeWhile (\<lambda>c. c \<noteq> CHR '']'') s2
      in if length body < length s2 then Some (bang @ first @ body, drop (length body + 1) s2) else None)"

definition in_class :: "string \<Rightarrow> char \<Rightarrow> bool" where
  "in_class cls c =
     (case cls of [] \<Rightarrow> False | x # xs \<Rightarrow> if x = CHR ''!'' then \<not> class_members xs c else class_members cls c)"

lemma length_class_end: "class_end s = Some (cls, rest) \<Longrightarrow> length rest < length s"
  by (auto simp: class_end_def Let_def split: if_splits)

function fnmatch :: "string \<Rightarrow> string \<Rightarrow> bool" where
  "fnmatch [] s = (s = [])"
| "fnmatch (p # ps) s =
     (if p = CHR ''*'' then fnmatch ps s \<or> (case s of [] \<Rightarrow> False | c # cs \<Rightarrow> fnmatch (p # ps) cs)
      else case s of [] \<Rightarrow> False
           | c # cs \<Rightarrow> if p = CHR ''?'' then fnmatch ps cs
               else if p = CHR ''['' then
                 (case class_end ps of None \<Rightarrow> c = p \<and> fnmatch ps cs | Some (cls, rest) \<Rightarrow> in_class cls c \<and> fnmatch rest cs)
               else c = p \<and> fnmatch ps cs)"
  by pat_completeness auto

termination
  by (relation "measure (\<lambda>(p, s). length p + length s)") (auto dest: length_class_end)

section \<open>Formatting\<close>

text \<open>\<open>{n:,}\<close>\<close>

fun commas :: "string \<Rightarrow> string" where
  "commas (a # b # c # d # s) = [a, b, c, CHR '',''] @ commas (d # s)"
| "commas s = s"

definition thousands :: "int \<Rightarrow> string" where
  "thousands i = (if i < 0 then ''-'' else []) @ rev (commas (rev (show_int \<bar>i\<bar>)))"

definition format_number :: "pyval \<Rightarrow> string result" where
  "format_number v =
     (case v of
        VInt i \<Rightarrow> Inr (thousands i)
      | VBool b \<Rightarrow> Inr (if b then ''1'' else ''0'')
      | VStr s \<Rightarrow> Inl (ValueError (''Cannot specify ',' with 's'.''))
      | _ \<Rightarrow> Inl TypeError)"

text \<open>The civil date of a day counted from the epoch, in eras of 400 years that begin in March.\<close>

definition civil :: "int \<Rightarrow> int \<times> int \<times> int" where
  "civil days =
     (let z = days + 719468; era = z div 146097; doe = z mod 146097;
          yoe = (doe - doe div 1460 + doe div 36524 - doe div 146096) div 365;
          doy = doe - (365 * yoe + yoe div 4 - yoe div 100);
          mp = (5 * doy + 2) div 153; m = (if mp < 10 then mp + 3 else mp - 9)
      in (yoe + era * 400 + (if m \<le> 2 then 1 else 0), m, doy - (153 * mp + 2) div 5 + 1))"

definition two_digits :: "int \<Rightarrow> string" where
  "two_digits n = (if n < 10 then ''0'' else []) @ show_int n"

definition date_of :: "int \<Rightarrow> string result" where
  "date_of t =
     (case civil (t div 86400) of (y, m, d) \<Rightarrow>
        if 1 \<le> y \<and> y \<le> 9999 then Inr (show_int y @ ''-'' @ two_digits m @ ''-'' @ two_digits d)
        else Inl (ValueError (''year '' @ show_int y @ '' is out of range'')))"

definition time_of :: "int \<Rightarrow> string result" where
  "time_of t =
     (let s = t mod 86400
      in rbind (date_of t) (\<lambda>d. Inr (d @ '' '' @ two_digits (s div 3600) @ '':'' @ two_digits (s div 60 mod 60) @ '':'' @ two_digits (s mod 60) @ '' UTC'')))"

definition py_rstrip :: "string \<Rightarrow> string" where
  "py_rstrip s = rev (dropWhile is_space (rev s))"

definition strip_slash :: "string \<Rightarrow> string" where
  "strip_slash s = strip_chars {CHR ''/''} s"

definition split_lines :: "string \<Rightarrow> string list" where
  "split_lines s = py_split (char_of (10::nat)) s"

definition newline :: string where "newline = [char_of (10::nat)]"

definition join_lines :: "string list \<Rightarrow> string" where
  "join_lines ls = py_join newline ls"

text \<open>Slices with a number of lines, from the start and from the end; \<open>xs[-0:]\<close> is everything.\<close>

definition last_lines :: "nat \<Rightarrow> 'a list \<Rightarrow> 'a list" where
  "last_lines n xs = (if n = 0 then xs else drop (length xs - n) xs)"

definition lines_between :: "nat \<Rightarrow> nat \<Rightarrow> 'a list \<Rightarrow> 'a list" where
  "lines_between start stop xs = drop (start - 1) (take stop xs)"

definition count_lines :: "string \<Rightarrow> nat" where
  "count_lines s = length (filter (\<lambda>c. code c = 10) s) + (if s \<noteq> [] \<and> code (last s) \<noteq> 10 then 1 else 0)"

definition count_words :: "string \<Rightarrow> nat" where
  "count_words s = length (split_words [] s)"

end
