(* ===== verification/KnowledgeFS.thy ===== *)
theory KnowledgeFS
  imports KnowledgeSearch Shell
begin

text \<open>
  The commands a model runs on knowledge bases, \<open>backend/open_webui/tools/knowledge_fs.py\<close>: which knowledge bases and files a user may see,
  how a path finds a directory and a reference a file, every command, and the pipeline. The tables are read, never written. Arguments in
  \<open>fs_config\<close>: the order in which a set is iterated, the engine of regular expressions with the time a search takes, the limits of the
  environment, the recursion limit, the text of exceptions, and the characters of the output that lie beyond the 256 of \<open>char\<close>. A command
  has a value, not always a text: \<open>cat\<close> returns the stored content, whatever it is.
\<close>

section \<open>What a command reads\<close>

record kb_world =
  kw_groups :: group_db
  kw_grants :: grant_db
  kw_users :: user_db
  kw_kb :: kb_db
  kw_files :: file_db

record fs_config =
  fc_sql :: sql
  fc_listing :: "string set \<Rightarrow> string list"
  fc_regex :: "bool \<Rightarrow> string \<Rightarrow> string + (int \<Rightarrow> string \<Rightarrow> bool option \<times> int)"
  fc_depth :: nat
  fc_max_grep_files :: nat
  fc_max_matches :: nat
  fc_max_output :: nat
  fc_error_text :: "py_error \<Rightarrow> string"
  fc_folder :: char
  fc_corner :: char
  fc_tee :: char
  fc_dash :: char
  fc_bar :: char
  fc_long_dash :: char

section \<open>Matching\<close>

text \<open>Nanoseconds; a matcher is given what is left and leaves the rest.\<close>

definition match_budget_time :: int where
  "match_budget_time = 2000000000"

definition match_budget_exceeded :: py_error where
  "match_budget_exceeded = RuntimeError ''Search exceeded 2s, narrow the pattern''"

type_synonym matcher = "int \<Rightarrow> string \<Rightarrow> (bool \<times> int) result"

definition build_matcher :: "fs_config \<Rightarrow> string \<Rightarrow> bool \<Rightarrow> bool \<Rightarrow> string + matcher" where
  "build_matcher cf pattern ignore_case use_regex =
     (if use_regex \<or> is_regex_pattern pattern then
        (case fc_regex cf ignore_case (normalize_regex pattern) of
           Inl e \<Rightarrow> Inl (''Invalid regex: '' @ e)
         | Inr search \<Rightarrow> Inr (\<lambda>budget line.
             if budget \<le> 0 then Inl match_budget_exceeded
             else case search budget line of (None, t) \<Rightarrow> Inl match_budget_exceeded | (Some b, t) \<Rightarrow> Inr (b, budget - t)))
      else Inr (\<lambda>budget line.
        Inr (contains (if ignore_case then py_lower pattern else pattern) (if ignore_case then py_lower line else line), budget)))"

text \<open>The matching lines with their numbers.\<close>

fun grep_lines :: "matcher \<Rightarrow> nat \<Rightarrow> int \<Rightarrow> string list \<Rightarrow> ((nat \<times> string) list \<times> int) result" where
  "grep_lines m i b [] = Inr ([], b)"
| "grep_lines m i b (l # ls) =
     rbind (m b l) (\<lambda>(hit, b1). rbind (grep_lines m (Suc i) b1 ls) (\<lambda>(ms, b2). Inr (if hit then (i, l) # ms else ms, b2)))"

section \<open>The directory tree\<close>

record entry =
  en_id :: string
  en_filename :: string
  en_directory :: "string option"
  en_size :: pyval
  en_type :: pyval
  en_updated_at :: int
  en_kb :: "(string \<times> string) option"

definition meta_get :: "file_row \<Rightarrow> string \<Rightarrow> pyval" where
  "meta_get f k = (case fl_meta f of None \<Rightarrow> VNone | Some d \<Rightarrow> vget d k)"

definition entry_of :: "string option \<Rightarrow> (string \<times> string) option \<Rightarrow> file_row \<Rightarrow> entry" where
  "entry_of dir kb f =
     \<lparr>en_id = fl_id f, en_filename = fl_filename f, en_directory = dir, en_size = meta_get f ''size'', en_type = meta_get f ''content_type'',
      en_updated_at = fl_updated_at f, en_kb = kb\<rparr>"

text \<open>The paths found so far are remembered, parents before their children.\<close>

primrec get_dir_path :: "nat \<Rightarrow> directory list \<Rightarrow> string \<Rightarrow> (string, string) pydict \<Rightarrow> (string \<times> (string, string) pydict) result" where
  "get_dir_path 0 ds i memo = Inl RecursionError"
| "get_dir_path (Suc n) ds i memo =
     (case dget memo i of
        Some p \<Rightarrow> Inr (p, memo)
      | None \<Rightarrow>
          (case List.find (\<lambda>d. kd_id d = i) ds of
             None \<Rightarrow> Inr ([], memo)
           | Some d \<Rightarrow>
               if given (kd_parent_id d) \<and> the (kd_parent_id d) \<in> kd_id ` set ds then
                 rbind (get_dir_path n ds (the (kd_parent_id d)) memo) (\<lambda>(pp, memo1).
                   let path = (if pp \<noteq> [] then pp @ ''/'' @ kd_name d else kd_name d) in Inr (path, dset memo1 i path))
               else Inr (kd_name d, dset memo i (kd_name d))))"

fun all_dir_paths :: "nat \<Rightarrow> directory list \<Rightarrow> string list \<Rightarrow> (string, string) pydict \<Rightarrow> (string, string) pydict result" where
  "all_dir_paths n ds [] memo = Inr memo"
| "all_dir_paths n ds (i # is) memo = rbind (get_dir_path n ds i memo) (\<lambda>(_, memo1). all_dir_paths n ds is memo1)"

record dir_tree =
  tr_dirs :: "directory list"
  tr_files :: "(entry \<times> string) list"
  tr_paths :: "(string, string) pydict"

definition tree_file :: "(string, string) pydict \<Rightarrow> file_row \<times> string option \<Rightarrow> entry \<times> string" where
  "tree_file paths fd =
     (case fd of (f, dir) \<Rightarrow>
        (entry_of dir None f,
         if given dir \<and> dget paths (the dir) \<noteq> None then the (dget paths (the dir)) @ ''/'' @ fl_filename f else fl_filename f))"

definition build_directory_tree :: "fs_config \<Rightarrow> kb_world \<Rightarrow> string \<Rightarrow> dir_tree result" where
  "build_directory_tree cf w kid =
     (let ds = get_all_directories kid (kw_kb w)
      in rbind (all_dir_paths (fc_depth cf) ds (map kd_id ds) []) (\<lambda>paths.
           Inr \<lparr>tr_dirs = ds, tr_files = map (tree_file paths) (get_files_with_directory_ids kid (kw_files w) (kw_kb w)), tr_paths = paths\<rparr>))"

text \<open>Of directories with the same path the last one is kept.\<close>

definition resolve_path :: "string \<Rightarrow> dir_tree \<Rightarrow> string option" where
  "resolve_path path t = map_option fst (List.find (\<lambda>kv. snd kv = strip_slash path) (rev (tr_paths t)))"

definition get_files_in_dir :: "dir_tree \<Rightarrow> string option \<Rightarrow> (entry \<times> string) list" where
  "get_files_in_dir t dir = filter (\<lambda>f. en_directory (fst f) = dir) (tr_files t)"

definition get_subdirs :: "dir_tree \<Rightarrow> string option \<Rightarrow> directory list" where
  "get_subdirs t parent = sort_key kd_name (filter (\<lambda>d. kd_parent_id d = parent) (tr_dirs t))"

section \<open>What a user may see\<close>

type_synonym kb_info = "string \<times> string \<times> string"

definition kb_open :: "kb_world \<Rightarrow> user \<Rightarrow> knowledge_row \<Rightarrow> bool" where
  "kb_open w u k \<longleftrightarrow>
     u_role u = ''admin'' \<or> kn_user_id k = u_id u \<or>
     has_access (kw_groups w) (u_id u) ''knowledge'' (kn_id k) ''read'' (Some (map g_id (get_groups_by_member_id (u_id u) (kw_groups w)))) (kw_grants w)"

definition kb_info_of :: "knowledge_row \<Rightarrow> kb_info" where
  "kb_info_of k = (kn_id k, kn_name k, kn_description k)"

definition one_kb :: "kb_world \<Rightarrow> user \<Rightarrow> string \<Rightarrow> kb_info list" where
  "one_kb w u kid =
     (case get_knowledge_by_id kid (kw_kb w) of None \<Rightarrow> [] | Some k \<Rightarrow> if kb_open w u k then [kb_info_of k] else [])"

text \<open>The ids of what is attached to the model, as a set: an id that cannot be hashed raises, one that is no text finds nothing.\<close>

definition attached_id :: "dict \<Rightarrow> string list result" where
  "attached_id item = (case vget item ''id'' of VStr s \<Rightarrow> Inr [s] | VList _ \<Rightarrow> Inl TypeError | VDict _ \<Rightarrow> Inl TypeError | _ \<Rightarrow> Inr [])"

definition attached :: "string \<Rightarrow> dict list \<Rightarrow> string set result" where
  "attached kind mk = rbind (rconcat attached_id (filter (\<lambda>item. vget item ''type'' = VStr kind) mk)) (\<lambda>ids. Inr (set ids))"

definition own_query :: "kb_world \<Rightarrow> user \<Rightarrow> kb_query" where
  "own_query w u =
     \<lparr>kq_query = Some [], kq_view_option = None, kq_source = None, kq_order_by = None, kq_direction = None, kq_user_id = Some (u_id u),
      kq_group_ids = map g_id (get_groups_by_member_id (u_id u) (kw_groups w)), kq_include_content = False, kq_directory = None\<rparr>"

definition get_accessible_kb_ids :: "fs_config \<Rightarrow> kb_world \<Rightarrow> user \<Rightarrow> dict list \<Rightarrow> string option \<Rightarrow> kb_info list result" where
  "get_accessible_kb_ids cf w u mk kid =
     (if mk \<noteq> [] then
        rbind (attached ''collection'' mk) (\<lambda>ids.
          if given kid then Inr (if the kid \<in> ids then one_kb w u (the kid) else [])
          else Inr (concat (map (one_kb w u) (fc_listing cf ids))))
      else if given kid then Inr (one_kb w u (the kid))
      else Inr (map (kb_info_of \<circ> ki_row)
             (fst (search_knowledge_bases (fc_sql cf) (kw_users w) (kw_grants w) (u_id u) (own_query w u) 0 50 (kw_kb w)))))"

definition kb_entries :: "kb_world \<Rightarrow> kb_info \<Rightarrow> entry list" where
  "kb_entries w kb =
     (case kb of (kid, name, _) \<Rightarrow>
        map (\<lambda>(f, dir). entry_of dir (Some (kid, name)) f) (get_files_with_directory_ids kid (kw_files w) (kw_kb w)))"

definition direct_entries :: "fs_config \<Rightarrow> kb_world \<Rightarrow> dict list \<Rightarrow> entry list result" where
  "direct_entries cf w mk =
     rbind (attached ''file'' mk) (\<lambda>ids. Inr (concat (map (\<lambda>i.
       case get_file_by_id i (kw_files w) of None \<Rightarrow> [] | Some f \<Rightarrow> [entry_of None None f]) (fc_listing cf ids))))"

definition get_accessible_files :: "fs_config \<Rightarrow> kb_world \<Rightarrow> user \<Rightarrow> dict list \<Rightarrow> string option \<Rightarrow> entry list result" where
  "get_accessible_files cf w u mk kid =
     rbind (get_accessible_kb_ids cf w u mk kid) (\<lambda>kbs.
     rbind (if mk \<noteq> [] then direct_entries cf w mk else Inr []) (\<lambda>direct.
       Inr (concat (map (kb_entries w) kbs) @ direct)))"

text \<open>The ids of the knowledge bases of some files, once each, in the order of a set.\<close>

definition kb_ids_of :: "fs_config \<Rightarrow> entry list \<Rightarrow> string list" where
  "kb_ids_of cf es = fc_listing cf (set (concat (map (\<lambda>e. case en_kb e of None \<Rightarrow> [] | Some (kid, _) \<Rightarrow> if kid = [] then [] else [kid]) es)))"

section \<open>Paths of directories\<close>

fun walk_dirs :: "kb_db \<Rightarrow> string \<Rightarrow> string option \<Rightarrow> string list \<Rightarrow> string option" where
  "walk_dirs db kid current [] = current"
| "walk_dirs db kid current (part # parts) =
     (case List.find (\<lambda>d. kd_name d = part) (get_directories kid current db) of
        None \<Rightarrow> None
      | Some d \<Rightarrow> walk_dirs db kid (Some (kd_id d)) parts)"

definition resolve_dir_path :: "kb_db \<Rightarrow> string \<Rightarrow> string \<Rightarrow> string option" where
  "resolve_dir_path db kid path = walk_dirs db kid None (py_split (CHR ''/'') (strip_slash path))"

text \<open>The work list over a subtree; what has been seen is not taken again.\<close>

fun push_unseen :: "string list \<Rightarrow> string list \<Rightarrow> string list \<Rightarrow> string list \<times> string list" where
  "push_unseen [] seen queue = (seen, queue)"
| "push_unseen (c # cs) seen queue =
     (if c \<in> set seen then push_unseen cs seen queue else push_unseen cs (c # seen) (queue @ [c]))"

lemma push_unseen_measure:
  "set cs \<subseteq> set ids \<Longrightarrow> push_unseen cs seen queue = (seen', queue') \<Longrightarrow>
     2 * length (filter (\<lambda>i. i \<notin> set seen') ids) + length queue' \<le> 2 * length (filter (\<lambda>i. i \<notin> set seen) ids) + length queue"
proof (induction cs seen queue rule: push_unseen.induct)
  case (2 c cs seen queue)
  show ?case
  proof (cases "c \<in> set seen")
    case False
    have "length (filter (\<lambda>i. i \<notin> set (c # seen)) ids) < length (filter (\<lambda>i. i \<notin> set seen) ids)"
      using filter_unseen_less [of c ids "\<lambda>i. i" c "set seen"] 2(3) False by simp
    then show ?thesis using 2 False by auto
  qed (use 2 in auto)
qed auto

function descendants_loop :: "kb_db \<Rightarrow> string \<Rightarrow> string list \<Rightarrow> string list \<Rightarrow> string list" where
  "descendants_loop db kid seen queue =
     (if queue = [] then seen
      else case push_unseen (map kd_id (get_directories kid (Some (last queue)) db)) seen (butlast queue) of
             (seen', queue') \<Rightarrow> descendants_loop db kid seen' queue')"
  by pat_completeness auto

termination
proof (relation "measure (\<lambda>(db, kid, seen, queue). 2 * length (filter (\<lambda>i. i \<notin> set seen) (map kd_id (db_dirs db))) + length queue)", goal_cases)
  case (2 db kid seen queue seen' queue')
  have "set (map kd_id (get_directories kid (Some (last queue)) db)) \<subseteq> set (map kd_id (db_dirs db))" by (auto simp: get_directories_def)
  from push_unseen_measure [OF this 2(2) [symmetric]] 2(1) have
    "2 * length (filter (\<lambda>i. i \<notin> set seen') (map kd_id (db_dirs db))) + length queue' <
     2 * length (filter (\<lambda>i. i \<notin> set seen) (map kd_id (db_dirs db))) + length queue"
    by (cases queue rule: rev_cases) simp_all
  then show ?case by simp
qed simp

declare descendants_loop.simps [simp del]

definition get_descendant_dir_ids :: "kb_db \<Rightarrow> string \<Rightarrow> string \<Rightarrow> string list" where
  "get_descendant_dir_ids db dir kid = descendants_loop db kid [dir] [dir]"

section \<open>References to files\<close>

definition has_data :: "file_row \<Rightarrow> bool" where
  "has_data f \<longleftrightarrow> (case fl_data f of None \<Rightarrow> False | Some d \<Rightarrow> d \<noteq> [])"

definition file_content :: "file_row \<Rightarrow> pyval" where
  "file_content f = (case fl_data f of None \<Rightarrow> VNone | Some d \<Rightarrow> dget_or d ''content'' (VStr []))"

definition readable_file :: "kb_world \<Rightarrow> string \<Rightarrow> file_row option" where
  "readable_file w i = (case get_file_by_id i (kw_files w) of None \<Rightarrow> None | Some f \<Rightarrow> if has_data f then Some f else None)"

record found =
  fo_id :: string
  fo_filename :: string
  fo_content :: pyval
  fo_meta :: "dict option"
  fo_updated_at :: int
  fo_created_at :: int
  fo_kb :: "(string \<times> string) option"

definition found_of :: "(string \<times> string) option \<Rightarrow> file_row \<Rightarrow> found" where
  "found_of kb f =
     \<lparr>fo_id = fl_id f, fo_filename = fl_filename f, fo_content = file_content f, fo_meta = fl_meta f, fo_updated_at = fl_updated_at f,
      fo_created_at = fl_created_at f, fo_kb = kb\<rparr>"

datatype resolved = Missing | Ambiguous string | Resolved found

definition the_match :: "kb_world \<Rightarrow> entry list \<Rightarrow> found option" where
  "the_match w matches =
     (case matches of [m] \<Rightarrow> map_option (found_of (en_kb m)) (readable_file w (en_id m)) | _ \<Rightarrow> None)"

fun first_some :: "('a \<Rightarrow> 'b option) \<Rightarrow> 'a list \<Rightarrow> 'b option" where
  "first_some f [] = None"
| "first_some f (x # xs) = (case f x of None \<Rightarrow> first_some f xs | Some y \<Rightarrow> Some y)"

text \<open>\<open>rsplit('/', 1)\<close>\<close>

definition split_last :: "string \<Rightarrow> (string \<times> string) option" where
  "split_last s =
     (let parts = py_split (CHR ''/'') s in if length parts < 2 then None else Some (py_join ''/'' (butlast parts), last parts))"

definition path_match :: "fs_config \<Rightarrow> kb_world \<Rightarrow> entry list \<Rightarrow> string \<Rightarrow> found option" where
  "path_match cf w es ref =
     (case split_last (strip_slash ref) of
        None \<Rightarrow> None
      | Some (dir_path, filename) \<Rightarrow>
          first_some (\<lambda>kid. case resolve_dir_path (kw_kb w) kid dir_path of
              None \<Rightarrow> None
            | Some dir \<Rightarrow> the_match w (filter (\<lambda>e. en_filename e = filename \<and> en_directory e = Some dir) es)) (kb_ids_of cf es))"

definition kb_label :: "entry \<Rightarrow> string" where
  "kb_label e = (case en_kb e of None \<Rightarrow> ''None'' | Some (_, name) \<Rightarrow> name)"

definition quoted_text :: "string \<Rightarrow> string" where
  "quoted_text s = [double_quote] @ s @ [double_quote]"

definition ambiguous_text :: "string \<Rightarrow> entry list \<Rightarrow> string" where
  "ambiguous_text ref es =
     ''Ambiguous filename '' @ quoted_text ref @ ''. Use full path to disambiguate:'' @ newline @
     join_lines (map (\<lambda>e. ''  '' @ en_id e @ ''  '' @ en_filename e @ ''  ('' @ kb_label e @ '')'') es)"

definition resolve_file :: "fs_config \<Rightarrow> kb_world \<Rightarrow> user \<Rightarrow> dict list \<Rightarrow> string \<Rightarrow> resolved result" where
  "resolve_file cf w u mk ref =
     rbind (get_accessible_files cf w u mk None) (\<lambda>es.
       case readable_file w ref of
         Some f \<Rightarrow> Inr (if fl_id f \<in> en_id ` set es then Resolved (found_of None f) else Missing)
       | None \<Rightarrow>
           (case path_match cf w es ref of
              Some f \<Rightarrow> Inr (Resolved f)
            | None \<Rightarrow>
                let matches = filter (\<lambda>e. en_filename e = ref) es
                in if length matches > 1 then Inr (Ambiguous (ambiguous_text ref matches))
                   else Inr (case the_match w matches of None \<Rightarrow> Missing | Some f \<Rightarrow> Resolved f)))"

definition with_file :: "fs_config \<Rightarrow> kb_world \<Rightarrow> user \<Rightarrow> dict list \<Rightarrow> string \<Rightarrow> (found \<Rightarrow> pyval result) \<Rightarrow> pyval result" where
  "with_file cf w u mk ref k =
     rbind (resolve_file cf w u mk ref) (\<lambda>r.
       case r of Missing \<Rightarrow> Inr (VStr (''File not found: '' @ ref)) | Ambiguous e \<Rightarrow> Inr (VStr e) | Resolved f \<Rightarrow> k f)"

text \<open>A method of \<open>str\<close> on a value.\<close>

definition str_of :: "pyval \<Rightarrow> string result" where
  "str_of v = (case v of VStr s \<Rightarrow> Inr s | _ \<Rightarrow> Inl AttributeError)"

section \<open>Commands on one file\<close>

definition format_size :: "entry \<Rightarrow> string result" where
  "format_size e = (if truthy (en_size e) then rbind (format_number (en_size e)) (\<lambda>s. Inr (s @ '' bytes'')) else Inr [])"

definition format_date :: "entry \<Rightarrow> string result" where
  "format_date e = (if en_updated_at e \<noteq> 0 then date_of (en_updated_at e) else Inr [])"

definition file_line :: "string \<Rightarrow> entry \<Rightarrow> string result" where
  "file_line name e =
     rbind (format_size e) (\<lambda>s. rbind (format_date e) (\<lambda>d. Inr (''  '' @ en_id e @ ''  '' @ name @ ''  '' @ s @ ''  '' @ d)))"

definition show_nat :: "nat \<Rightarrow> string" where
  "show_nat n = show_int (int n)"

definition numbered :: "nat \<times> string \<Rightarrow> string" where
  "numbered il = show_nat (fst il) @ '': '' @ snd il"

definition kb_cat :: "fs_config \<Rightarrow> kb_world \<Rightarrow> user \<Rightarrow> dict list \<Rightarrow> string list \<Rightarrow> char set \<Rightarrow> pyval result" where
  "kb_cat cf w u mk args flags =
     (case args of [] \<Rightarrow> Inr (VStr ''Usage: cat [-n] <file_id or filename>'')
      | ref # _ \<Rightarrow> with_file cf w u mk ref (\<lambda>f.
          if CHR ''n'' \<in> flags
          then rbind (str_of (fo_content f)) (\<lambda>s. Inr (VStr (join_lines (map numbered (enumerate 1 (split_lines s))))))
          else Inr (fo_content f)))"

definition kb_head :: "fs_config \<Rightarrow> kb_world \<Rightarrow> user \<Rightarrow> dict list \<Rightarrow> string list \<Rightarrow> char set \<Rightarrow> pyval \<Rightarrow> pyval result" where
  "kb_head cf w u mk args0 flags piped =
     (case extract_numeric_flag args0 of (num, args) \<Rightarrow>
        let n = (case num of None \<Rightarrow> 10 | Some n \<Rightarrow> n)
        in if piped \<noteq> VNone then rbind (str_of piped) (\<lambda>s. Inr (VStr (join_lines (take n (split_lines s)))))
           else case args of [] \<Rightarrow> Inr (VStr ''Usage: head [-N] <file>'')
             | ref # _ \<Rightarrow> with_file cf w u mk ref (\<lambda>f. rbind (str_of (fo_content f)) (\<lambda>s.
                 let lines = split_lines s
                 in Inr (VStr (join_lines (take n lines) @
                      (if length lines > n then newline @ ''[showing '' @ show_nat n @ '' of '' @ show_nat (length lines) @ '' lines]'' else []))))))"

definition kb_tail :: "fs_config \<Rightarrow> kb_world \<Rightarrow> user \<Rightarrow> dict list \<Rightarrow> string list \<Rightarrow> char set \<Rightarrow> pyval \<Rightarrow> pyval result" where
  "kb_tail cf w u mk args0 flags piped =
     (case extract_numeric_flag args0 of (num, args) \<Rightarrow>
        let n = (case num of None \<Rightarrow> 10 | Some n \<Rightarrow> n)
        in if piped \<noteq> VNone then rbind (str_of piped) (\<lambda>s. Inr (VStr (join_lines (last_lines n (split_lines s)))))
           else case args of [] \<Rightarrow> Inr (VStr ''Usage: tail [-N] <file>'')
             | ref # _ \<Rightarrow> with_file cf w u mk ref (\<lambda>f. rbind (str_of (fo_content f)) (\<lambda>s.
                 let lines = split_lines s
                 in Inr (VStr (join_lines (last_lines n lines) @
                      (if length lines > n then newline @ ''[showing last '' @ show_nat n @ '' of '' @ show_nat (length lines) @ '' lines]''
                       else []))))))"

definition kb_wc :: "fs_config \<Rightarrow> kb_world \<Rightarrow> user \<Rightarrow> dict list \<Rightarrow> string list \<Rightarrow> char set \<Rightarrow> pyval \<Rightarrow> pyval result" where
  "kb_wc cf w u mk args flags piped =
     (let counts = (\<lambda>s. ''  '' @ show_nat (count_lines s) @ ''  '' @ show_nat (count_words s) @ ''  '' @ show_nat (length s))
      in if piped \<noteq> VNone then rbind (str_of piped) (\<lambda>s. Inr (VStr (if CHR ''l'' \<in> flags then show_nat (count_lines s) else counts s)))
         else case args of [] \<Rightarrow> Inr (VStr ''Usage: wc [-l] <file>'')
           | ref # _ \<Rightarrow> with_file cf w u mk ref (\<lambda>f. rbind (str_of (fo_content f)) (\<lambda>s.
               Inr (VStr ((if CHR ''l'' \<in> flags then ''  '' @ show_nat (count_lines s) else counts s) @ ''  '' @ fo_filename f)))))"

definition stamp_line :: "string \<Rightarrow> int \<Rightarrow> string list result" where
  "stamp_line label t = (if t = 0 then Inr [] else rbind (time_of t) (\<lambda>s. Inr [label @ s]))"

definition kb_stat :: "fs_config \<Rightarrow> kb_world \<Rightarrow> user \<Rightarrow> dict list \<Rightarrow> string list \<Rightarrow> char set \<Rightarrow> pyval result" where
  "kb_stat cf w u mk args flags =
     (case args of [] \<Rightarrow> Inr (VStr ''Usage: stat <file>'')
      | ref # _ \<Rightarrow> with_file cf w u mk ref (\<lambda>f. rbind (str_of (fo_content f)) (\<lambda>s.
          let meta = (case fo_meta f of None \<Rightarrow> [] | Some d \<Rightarrow> d)
          in rbind (format_number (dget_or meta ''size'' (VInt (int (length s))))) (\<lambda>size.
             rbind (stamp_line ''  Created: '' (fo_created_at f)) (\<lambda>created.
             rbind (stamp_line ''  Updated: '' (fo_updated_at f)) (\<lambda>updated.
               Inr (VStr (join_lines (
                 [''  File: '' @ fo_filename f, ''    ID: '' @ fo_id f, ''  Size: '' @ size @ '' bytes'',
                  ''  Type: '' @ py_str (dget_or meta ''content_type'' (VStr ''unknown'')),
                  '' Lines: '' @ thousands (int (count_lines s)), '' Words: '' @ thousands (int (count_words s)),
                  '' Chars: '' @ thousands (int (length s))] @ created @ updated @
                 (case fo_kb f of None \<Rightarrow> [] | Some (kid, name) \<Rightarrow> if name = [] then [] else [''      KB: '' @ name @ '' ('' @ kid @ '')'']))))))))))"

definition sed_arguments :: "string list \<Rightarrow> (nat \<times> nat) option \<times> string option" where
  "sed_arguments args =
     foldl (\<lambda>(range, ref) arg. case line_range True arg of Some r \<Rightarrow> (Some r, ref) | None \<Rightarrow> (range, Some arg)) (None, None) args"

definition kb_sed :: "fs_config \<Rightarrow> kb_world \<Rightarrow> user \<Rightarrow> dict list \<Rightarrow> string list \<Rightarrow> char set \<Rightarrow> pyval \<Rightarrow> pyval result" where
  "kb_sed cf w u mk args flags piped =
     (if piped \<noteq> VNone then
        rbind (str_of piped) (\<lambda>s.
          let lines = split_lines s;
              range = (if CHR ''n'' \<in> flags \<and> args \<noteq> [] then line_range False (hd args) else None)
          in Inr (VStr (join_lines (case range of
               None \<Rightarrow> lines | Some (start, stop) \<Rightarrow> lines_between start (if stop = 0 then length lines else stop) lines))))
      else case sed_arguments args of
             (Some (start, stop), Some ref) \<Rightarrow>
               if ref = [] then Inr (VStr (''Usage: sed -n '' @ [single_quote] @ ''40,60p'' @ [single_quote] @ '' <file>''))
               else if start > stop
               then Inr (VStr (''Invalid range: start ('' @ show_nat start @ '') > end ('' @ show_nat stop @ '')''))
               else with_file cf w u mk ref (\<lambda>f. rbind (str_of (fo_content f)) (\<lambda>s.
                 let lines = split_lines s
                 in Inr (VStr (join_lines (lines_between start stop lines) @ newline @ ''[lines '' @ show_nat start @ ''-'' @
                      show_nat (min stop (length lines)) @ '' of '' @ show_nat (length lines) @ '']''))))
           | _ \<Rightarrow> Inr (VStr (''Usage: sed -n '' @ [single_quote] @ ''40,60p'' @ [single_quote] @ '' <file>'')))"

section \<open>Listing\<close>

definition kb_header :: "kb_info \<Rightarrow> string" where
  "kb_header kb =
     (case kb of (kid, name, desc) \<Rightarrow>
        ''Knowledge Base: '' @ name @ '' ('' @ kid @ '')'' @ (if desc \<noteq> [] then newline @ ''  '' @ desc else []))"

definition unlisted_files :: "fs_config \<Rightarrow> kb_world \<Rightarrow> user \<Rightarrow> dict list \<Rightarrow> entry list result" where
  "unlisted_files cf w u mk =
     (if mk = [] then Inr []
      else rbind (get_accessible_files cf w u mk None) (\<lambda>es.
        Inr (filter (\<lambda>e. case en_kb e of None \<Rightarrow> True | Some (kid, _) \<Rightarrow> kid = []) es)))"

definition ls_flat :: "fs_config \<Rightarrow> kb_world \<Rightarrow> kb_info \<Rightarrow> string list result" where
  "ls_flat cf w kb =
     rbind (build_directory_tree cf w (fst kb)) (\<lambda>t.
     rbind (rmap (\<lambda>(e, path). file_line path e) (tr_files t)) (\<lambda>lines. Inr (kb_header kb # lines @ [[]])))"

definition ls_level :: "fs_config \<Rightarrow> kb_world \<Rightarrow> user \<Rightarrow> dict list \<Rightarrow> kb_info \<Rightarrow> string option \<Rightarrow> string list \<Rightarrow> string list result" where
  "ls_level cf w u mk kb dir path_lines =
     (let subdirs = get_directories (fst kb) dir (kw_kb w)
      in rbind (get_accessible_files cf w u mk (Some (fst kb))) (\<lambda>es.
         let here = filter (\<lambda>e. en_directory e = dir) es
         in rbind (rmap (\<lambda>e. file_line (en_filename e) e) here) (\<lambda>lines.
              Inr ([kb_header kb] @ path_lines @ map (\<lambda>d. ''  '' @ [fc_folder cf] @ '' '' @ kd_name d @ ''/'') subdirs @ lines @
                   (if subdirs = [] \<and> here = [] then [''  (empty)''] else []) @ [[]]))))"

definition ls_kb :: "fs_config \<Rightarrow> kb_world \<Rightarrow> user \<Rightarrow> dict list \<Rightarrow> bool \<Rightarrow> string option \<Rightarrow> kb_info \<Rightarrow> string list result" where
  "ls_kb cf w u mk flat dir_path kb =
     (if flat then ls_flat cf w kb
      else if given dir_path then
        (case resolve_dir_path (kw_kb w) (fst kb) (the dir_path) of
           None \<Rightarrow> Inr [kb_header kb, ''  Directory not found: '' @ the dir_path, []]
         | Some dir \<Rightarrow> ls_level cf w u mk kb (Some dir) [''  Path: '' @ the dir_path @ ''/''])
      else ls_level cf w u mk kb None [])"

definition kb_ls :: "fs_config \<Rightarrow> kb_world \<Rightarrow> user \<Rightarrow> dict list \<Rightarrow> string list \<Rightarrow> char set \<Rightarrow> pyval result" where
  "kb_ls cf w u mk args flags =
     rbind (get_accessible_kb_ids cf w u mk None) (\<lambda>all_kbs.
     rbind (unlisted_files cf w u mk) (\<lambda>direct.
       let path_arg = (case args of [] \<Rightarrow> [] | a # _ \<Rightarrow> a);
           target = path_arg \<noteq> [] \<and> path_arg \<in> fst ` set all_kbs;
           kbs = (if target then filter (\<lambda>kb. fst kb = path_arg) all_kbs else all_kbs);
           dir_path = (if path_arg \<noteq> [] \<and> \<not> target then Some (strip_slash path_arg) else None)
       in if kbs = [] \<and> direct = [] then Inr (VStr ''No knowledge bases found.'')
          else rbind (rconcat (ls_kb cf w u mk (CHR ''a'' \<in> flags) dir_path) kbs) (\<lambda>lines.
               rbind (if direct \<noteq> [] \<and> \<not> target \<and> \<not> given dir_path
                      then rbind (rmap (\<lambda>e. file_line (en_filename e) e) direct) (\<lambda>ls. Inr ([''Attached Files:''] @ ls @ [[]]))
                      else Inr []) (\<lambda>more.
                 Inr (VStr (py_rstrip (join_lines (lines @ more))))))))"

section \<open>The tree\<close>

definition connector :: "fs_config \<Rightarrow> bool \<Rightarrow> string" where
  "connector cf is_last = [if is_last then fc_corner cf else fc_tee cf, fc_dash cf, fc_dash cf] @ '' ''"

primrec render_tree :: "nat \<Rightarrow> fs_config \<Rightarrow> dir_tree \<Rightarrow> string option \<Rightarrow> string \<Rightarrow> string list result" where
  "render_tree 0 cf t parent pfx = Inl RecursionError"
| "render_tree (Suc n) cf t parent pfx =
     (let subdirs = get_subdirs t parent; files = get_files_in_dir t parent; count = length subdirs + length files
      in rbind (rconcat (\<lambda>(i, d).
             let is_last = (Suc i = count)
             in rbind (render_tree n cf t (Some (kd_id d)) (pfx @ (if is_last then ''    '' else [fc_bar cf] @ ''   ''))) (\<lambda>below.
                  Inr ((pfx @ connector cf is_last @ [fc_folder cf] @ '' '' @ kd_name d @ ''/'') # below))) (enumerate 0 subdirs)) (\<lambda>dir_lines.
           Inr (dir_lines @ map (\<lambda>(i, f). pfx @ connector cf (Suc i = count) @ en_filename (fst f)) (enumerate (length subdirs) files))))"

definition tree_kb :: "fs_config \<Rightarrow> kb_world \<Rightarrow> string option \<Rightarrow> kb_info \<Rightarrow> string list result" where
  "tree_kb cf w dir_scope kb =
     rbind (build_directory_tree cf w (fst kb)) (\<lambda>t.
       let rendered = (\<lambda>root path_lines. rbind (render_tree (fc_depth cf) cf t root ''  '') (\<lambda>ls.
             Inr ([kb_header kb] @ path_lines @ ls @
                  [newline @ ''  '' @ show_nat (length (tr_dirs t)) @ '' directories, '' @ show_nat (length (tr_files t)) @ '' files'', []])))
       in if given dir_scope then
            (case resolve_path (the dir_scope) t of
               None \<Rightarrow> Inr [kb_header kb, ''  Directory not found: '' @ the dir_scope, []]
             | Some root \<Rightarrow> rendered (Some root) [''  '' @ the dir_scope @ ''/''])
          else rendered None [])"

definition kb_tree :: "fs_config \<Rightarrow> kb_world \<Rightarrow> user \<Rightarrow> dict list \<Rightarrow> string list \<Rightarrow> char set \<Rightarrow> pyval result" where
  "kb_tree cf w u mk args flags =
     rbind (get_accessible_kb_ids cf w u mk None) (\<lambda>kbs.
     rbind (unlisted_files cf w u mk) (\<lambda>direct.
       if kbs = [] \<and> direct = [] then Inr (VStr ''No knowledge bases found.'')
       else let dir_scope = (case args of [] \<Rightarrow> None | a # _ \<Rightarrow> Some (strip_slash a))
            in rbind (rconcat (tree_kb cf w dir_scope) kbs) (\<lambda>lines.
                 let more = (if direct \<noteq> [] \<and> \<not> given dir_scope
                   then [''Attached Files:''] @
                        map (\<lambda>(i, e). ''  '' @ connector cf (Suc i = length direct) @ en_filename e) (enumerate 0 direct) @
                        [newline @ ''  0 directories, '' @ show_nat (length direct) @ '' files'', []]
                   else [])
                 in Inr (VStr (py_rstrip (join_lines (lines @ more)))))))"

section \<open>Searching\<close>

text \<open>The directories below a path, in every knowledge base of the files.\<close>

definition scope_dirs :: "fs_config \<Rightarrow> kb_world \<Rightarrow> entry list \<Rightarrow> string \<Rightarrow> string set" where
  "scope_dirs cf w es path =
     set (concat (map (\<lambda>kid. case resolve_dir_path (kw_kb w) kid path of
            None \<Rightarrow> [] | Some dir \<Rightarrow> if dir = [] then [] else get_descendant_dir_ids (kw_kb w) dir kid) (kb_ids_of cf es)))"

definition in_scope :: "string set \<Rightarrow> entry \<Rightarrow> bool" where
  "in_scope dirs e \<longleftrightarrow> en_directory e \<in> Some ` dirs"

record grep_scope =
  gs_ref :: "string option"
  gs_ext :: "string option"
  gs_dir :: "string option"

definition grep_arguments :: "string list \<Rightarrow> grep_scope" where
  "grep_arguments args =
     foldl (\<lambda>g arg.
       if CHR ''*'' \<in> set arg \<or> take 1 arg = ''.''
       then g\<lparr>gs_ext := Some (dropWhile (\<lambda>c. c = CHR ''.'') (dropWhile (\<lambda>c. c = CHR ''*'') arg))\<rparr>
       else if arg \<noteq> [] \<and> last arg = CHR ''/'' then g\<lparr>gs_dir := Some (strip_slash arg)\<rparr>
       else g\<lparr>gs_ref := Some arg\<rparr>) \<lparr>gs_ref = None, gs_ext = None, gs_dir = None\<rparr> args"

definition no_matches :: "string \<Rightarrow> string" where
  "no_matches pattern = ''No matches for '' @ quoted_text pattern"

definition grep_piped :: "matcher \<Rightarrow> int \<Rightarrow> string \<Rightarrow> char set \<Rightarrow> string \<Rightarrow> (pyval \<times> int) result" where
  "grep_piped m b pattern flags s =
     rbind (grep_lines m 1 b (split_lines s)) (\<lambda>(ms, b1).
       Inr (VStr (if CHR ''c'' \<in> flags then show_nat (length ms)
                  else if CHR ''l'' \<in> flags then (if ms \<noteq> [] then ''(standard input)'' else no_matches pattern)
                  else if ms \<noteq> [] then join_lines (map numbered ms) else no_matches pattern), b1))"

definition grep_file :: "matcher \<Rightarrow> int \<Rightarrow> string \<Rightarrow> char set \<Rightarrow> found \<Rightarrow> (pyval \<times> int) result" where
  "grep_file m b pattern flags f =
     rbind (str_of (fo_content f)) (\<lambda>s.
     rbind (grep_lines m 1 b (split_lines s)) (\<lambda>(ms, b1).
       let name = fo_id f @ ''  '' @ fo_filename f
       in Inr (VStr (if CHR ''c'' \<in> flags then name @ '': '' @ show_nat (length ms)
                     else if CHR ''l'' \<in> flags then (if ms \<noteq> [] then name else no_matches pattern)
                     else if ms = [] then no_matches pattern @ '' in '' @ fo_filename f
                     else join_lines (map numbered ms)), b1)))"

text \<open>The files with matching lines.\<close>

fun grep_entries :: "kb_world \<Rightarrow> matcher \<Rightarrow> int \<Rightarrow> entry list \<Rightarrow> ((entry \<times> (nat \<times> string) list) list \<times> int) result" where
  "grep_entries w m b [] = Inr ([], b)"
| "grep_entries w m b (e # es) =
     (let content = (case readable_file w (en_id e) of None \<Rightarrow> VNone | Some f \<Rightarrow> file_content f)
      in if \<not> truthy content then grep_entries w m b es
         else rbind (str_of content) (\<lambda>s.
              rbind (grep_lines m 1 b (split_lines s)) (\<lambda>(ms, b1).
              rbind (grep_entries w m b1 es) (\<lambda>(hits, b2). Inr (if ms \<noteq> [] then (e, ms) # hits else hits, b2)))))"

definition grep_output :: "fs_config \<Rightarrow> string \<Rightarrow> char set \<Rightarrow> entry list \<Rightarrow> (entry \<times> (nat \<times> string) list) list \<Rightarrow> string" where
  "grep_output cf pattern flags es hits =
     (let name = (\<lambda>e. en_id e @ ''  '' @ en_filename e); total_matches = sum_list (map (length \<circ> snd) hits);
          results = take (fc_max_matches cf) (concat (map (\<lambda>(e, ms). map (\<lambda>(i, l). name e @ '':'' @ show_nat i @ '': '' @ py_rstrip l) ms) hits))
      in if CHR ''c'' \<in> flags then
           (if hits = [] then no_matches pattern
            else join_lines (map (\<lambda>(e, ms). name e @ '': '' @ show_nat (length ms)) hits @
                   [''Total: '' @ show_nat total_matches @ '' matches in '' @ show_nat (length hits) @ '' files'']))
         else if CHR ''l'' \<in> flags then (if hits = [] then no_matches pattern else join_lines (map (name \<circ> fst) hits))
         else if results = [] then no_matches pattern @ '' across '' @ show_nat (length es) @ '' files''
         else join_lines results @
              (if total_matches > fc_max_matches cf
               then newline @ ''[showing '' @ show_nat (fc_max_matches cf) @ '' of '' @ show_nat total_matches @ '' matches]'' else []))"

definition ends_with :: "string \<Rightarrow> string \<Rightarrow> bool" where
  "ends_with e s \<longleftrightarrow> length e \<le> length s \<and> drop (length s - length e) s = e"

definition grep_across :: "fs_config \<Rightarrow> kb_world \<Rightarrow> user \<Rightarrow> dict list \<Rightarrow> matcher \<Rightarrow> int \<Rightarrow> string \<Rightarrow> char set \<Rightarrow> string option \<Rightarrow> string option \<Rightarrow>
    (pyval \<times> int) result" where
  "grep_across cf w u mk m b pattern flags dir_scope ext =
     rbind (get_accessible_files cf w u mk None) (\<lambda>all.
       let es = (if given dir_scope then filter (in_scope (scope_dirs cf w all (the dir_scope))) all else all)
       in if given dir_scope \<and> es = [] then Inr (VStr (''No files found under '' @ quoted_text (the dir_scope @ ''/'')), b)
          else let es1 = (if given ext then filter (\<lambda>e. ends_with (''.'' @ the ext) (en_filename e)) es else es)
               in if length es1 > fc_max_grep_files cf
                  then Inr (VStr (''Too many files ('' @ show_nat (length es1) @ ''). Scope your search: grep '' @ quoted_text pattern @
                              '' docs/ or grep '' @ quoted_text pattern @ '' *.py''), b)
                  else rbind (grep_entries w m b es1) (\<lambda>(hits, b1). Inr (VStr (grep_output cf pattern flags es1 hits), b1)))"

definition kb_grep :: "fs_config \<Rightarrow> kb_world \<Rightarrow> user \<Rightarrow> dict list \<Rightarrow> string list \<Rightarrow> char set \<Rightarrow> pyval \<Rightarrow> int \<Rightarrow> (pyval \<times> int) result" where
  "kb_grep cf w u mk args flags piped b =
     (case args of
        [] \<Rightarrow> Inr (VStr (''Usage: grep [-E] [-i] [-l] [-c] '' @ quoted_text ''pattern'' @ '' [file] [*.ext]''), b)
      | pattern # rest \<Rightarrow>
          let g = grep_arguments rest
          in (case build_matcher cf pattern (CHR ''i'' \<in> flags) (CHR ''E'' \<in> flags) of
                Inl e \<Rightarrow> Inr (VStr e, b)
              | Inr m \<Rightarrow>
                  if piped \<noteq> VNone then rbind (str_of piped) (grep_piped m b pattern flags)
                  else if given (gs_ref g) \<and> \<not> given (gs_dir g) then
                    rbind (resolve_file cf w u mk (the (gs_ref g))) (\<lambda>r.
                      case r of
                        Missing \<Rightarrow> grep_across cf w u mk m b pattern flags (gs_ref g) (gs_ext g)
                      | Ambiguous e \<Rightarrow> Inr (VStr e, b)
                      | Resolved f \<Rightarrow> grep_file m b pattern flags f)
                  else grep_across cf w u mk m b pattern flags (gs_dir g) (gs_ext g)))"

definition kb_find :: "fs_config \<Rightarrow> kb_world \<Rightarrow> user \<Rightarrow> dict list \<Rightarrow> string list \<Rightarrow> char set \<Rightarrow> pyval result" where
  "kb_find cf w u mk args flags =
     (if args = [] then Inr (VStr (''Usage: find '' @ quoted_text ''*.md'' @ '' or find docs/ '' @ quoted_text ''*.md''))
      else let scoped = length args \<ge> 2 \<and> (CHR ''/'' \<in> set (hd args) \<or> \<not> (CHR ''*'' \<in> set (hd args) \<or> CHR ''?'' \<in> set (hd args)));
               dir_scope = (if scoped then Some (strip_slash (hd args)) else None);
               pattern = (if scoped then args ! 1 else hd args)
           in rbind (get_accessible_files cf w u mk None) (\<lambda>all.
                let es = (if given dir_scope then filter (in_scope (scope_dirs cf w all (the dir_scope))) all else all);
                    hits = filter (\<lambda>e. fnmatch pattern (en_filename e)) es
                in Inr (VStr (
                     if hits = [] then ''No files matching '' @ quoted_text pattern @
                       (if given dir_scope then '' under '' @ quoted_text (the dir_scope @ ''/'') else [])
                     else join_lines (map (\<lambda>e. en_id e @ ''  '' @ en_filename e @
                       (case en_kb e of None \<Rightarrow> [] | Some (_, name) \<Rightarrow> if name = [] then [] else '' ('' @ name @ '')'')) hits)))))"

section \<open>Pipelines\<close>

definition commands :: "string list" where
  "commands = [''cat'', ''find'', ''grep'', ''head'', ''ls'', ''sed'', ''stat'', ''tail'', ''tree'', ''wc'']"

definition run_command :: "fs_config \<Rightarrow> kb_world \<Rightarrow> user \<Rightarrow> dict list \<Rightarrow> string \<Rightarrow> string list \<Rightarrow> char set \<Rightarrow> pyval \<Rightarrow> int \<Rightarrow> (pyval \<times> int) result" where
  "run_command cf w u mk cmd args flags piped b =
     (let same = (\<lambda>r. rbind r (\<lambda>v. Inr (v, b)))
      in if cmd = ''grep'' then kb_grep cf w u mk args flags piped b
         else if cmd = ''ls'' then same (kb_ls cf w u mk args flags)
         else if cmd = ''cat'' then same (kb_cat cf w u mk args flags)
         else if cmd = ''head'' then same (kb_head cf w u mk args flags piped)
         else if cmd = ''tail'' then same (kb_tail cf w u mk args flags piped)
         else if cmd = ''find'' then same (kb_find cf w u mk args flags)
         else if cmd = ''wc'' then same (kb_wc cf w u mk args flags piped)
         else if cmd = ''stat'' then same (kb_stat cf w u mk args flags)
         else if cmd = ''sed'' then same (kb_sed cf w u mk args flags piped)
         else same (kb_tree cf w u mk args flags))"

text \<open>A command that is not known ends the pipeline.\<close>

fun execute_pipeline :: "fs_config \<Rightarrow> kb_world \<Rightarrow> user \<Rightarrow> dict list \<Rightarrow> pyval \<Rightarrow> int \<Rightarrow> string list list \<Rightarrow> pyval result" where
  "execute_pipeline cf w u mk piped b [] = Inr (py_or piped (VStr []))"
| "execute_pipeline cf w u mk piped b (tokens # segments) =
     (let cmd = py_lower (hd tokens)
      in if cmd \<notin> set commands
         then Inr (VStr (''Unknown command: '' @ cmd @ ''. Available: '' @ py_join '', '' commands))
         else case extract_flags (tl tokens) of (flags, args) \<Rightarrow>
           rbind (run_command cf w u mk cmd args flags piped b) (\<lambda>(v, b1). execute_pipeline cf w u mk v b1 segments))"

definition truncate_output :: "fs_config \<Rightarrow> pyval \<Rightarrow> pyval result" where
  "truncate_output cf v =
     (case v of
        VStr s \<Rightarrow> Inr (VStr (if length s > fc_max_output cf
          then take (fc_max_output cf) s @ newline @ ''[output truncated at '' @ thousands (int (fc_max_output cf)) @ '' chars '' @ [fc_long_dash cf] @
               '' narrow the command with a path, glob, head/tail/sed or grep]''
          else s))
      | VList xs \<Rightarrow> if length xs > fc_max_output cf then Inl TypeError else Inr v
      | VDict d \<Rightarrow> if length d > fc_max_output cf then Inl TypeError else Inr v
      | _ \<Rightarrow> Inl TypeError)"

definition kb_exec :: "fs_config \<Rightarrow> kb_world \<Rightarrow> user option \<Rightarrow> dict list \<Rightarrow> string \<Rightarrow> pyval" where
  "kb_exec cf w user mk command =
     (case user of
        None \<Rightarrow> VStr ''Error: User context not available''
      | Some u \<Rightarrow>
          if py_strip command = []
          then VStr (''Usage: kb_exec('' @ quoted_text ''<command>'' @ ''). Run kb_exec('' @ quoted_text ''ls'' @ '') to start.'')
          else let segments = parse_pipeline (py_strip command)
               in if segments = [] then VStr (''Could not parse command. Run kb_exec('' @ quoted_text ''ls'' @ '') to start.'')
                  else case rbind (execute_pipeline cf w u mk VNone match_budget_time segments) (truncate_output cf) of
                         Inl e \<Rightarrow> VStr (''Error: '' @ fc_error_text cf e)
                       | Inr v \<Rightarrow> v)"

section \<open>What a user may not see has no influence\<close>

text \<open>The files a user may see: in a knowledge base that is open to the user, or attached to the model.\<close>

definition shown :: "kb_world \<Rightarrow> user \<Rightarrow> dict list \<Rightarrow> file_row \<Rightarrow> bool" where
  "shown w u mk f \<longleftrightarrow>
     (\<exists>k \<in> set (db_knowledge (kw_kb w)). kb_open w u k \<and> has_file (kn_id k) (fl_id f) (kw_kb w)) \<or>
     (\<exists>item \<in> set mk. vget item ''type'' = VStr ''file'' \<and> vget item ''id'' = VStr (fl_id f))"

text \<open>Two states that look the same to a user.\<close>

definition same_view :: "fs_config \<Rightarrow> user \<Rightarrow> dict list \<Rightarrow> kb_world \<Rightarrow> kb_world \<Rightarrow> bool" where
  "same_view cf u mk w w' \<longleftrightarrow>
     kw_kb w' = kw_kb w \<and>
     (\<forall>kid. get_accessible_kb_ids cf w' u mk kid = get_accessible_kb_ids cf w u mk kid) \<and>
     (\<forall>kid. get_accessible_files cf w' u mk kid = get_accessible_files cf w u mk kid) \<and>
     (\<forall>kbs kb. get_accessible_kb_ids cf w u mk None = Inr kbs \<longrightarrow> kb \<in> set kbs \<longrightarrow>
        get_files_with_directory_ids (fst kb) (kw_files w') (kw_kb w) = get_files_with_directory_ids (fst kb) (kw_files w) (kw_kb w)) \<and>
     (\<forall>i. (readable_file w' i = None) = (readable_file w i = None)) \<and>
     (\<forall>es e. get_accessible_files cf w u mk None = Inr es \<longrightarrow> e \<in> set es \<longrightarrow> readable_file w' (en_id e) = readable_file w (en_id e))"

lemma same_viewD:
  assumes "same_view cf u mk w w'"
  shows "kw_kb w' = kw_kb w"
    and "get_accessible_kb_ids cf w' u mk kid = get_accessible_kb_ids cf w u mk kid"
    and "get_accessible_files cf w' u mk kid = get_accessible_files cf w u mk kid"
    and "get_accessible_kb_ids cf w u mk None = Inr kbs \<Longrightarrow> kb \<in> set kbs \<Longrightarrow>
      get_files_with_directory_ids (fst kb) (kw_files w') (kw_kb w) = get_files_with_directory_ids (fst kb) (kw_files w) (kw_kb w)"
    and "(readable_file w' i = None) = (readable_file w i = None)"
    and "get_accessible_files cf w u mk None = Inr es \<Longrightarrow> e \<in> set es \<Longrightarrow> readable_file w' (en_id e) = readable_file w (en_id e)"
  using assms unfolding same_view_def by blast+

lemma readable_file_id: "readable_file w i = Some f \<Longrightarrow> fl_id f = i"
  by (auto simp: readable_file_def get_file_by_id_def split: option.splits if_splits dest: find_SomeD)

lemma first_some_cong: "(\<And>x. x \<in> set xs \<Longrightarrow> f x = g x) \<Longrightarrow> first_some f xs = first_some g xs"
  by (induction xs) (auto split: option.split)

lemma rbind_cong: "r = s \<Longrightarrow> (\<And>x. s = Inr x \<Longrightarrow> f x = g x) \<Longrightarrow> rbind r f = rbind s g"
  by (cases s) auto

lemma rconcat_cong: "(\<And>x. x \<in> set xs \<Longrightarrow> f x = g x) \<Longrightarrow> rconcat f xs = rconcat g xs"
  by (induction xs) auto

lemma same_match:
  assumes "same_view cf u mk w w'" "get_accessible_files cf w u mk None = Inr es" "set ms \<subseteq> set es"
  shows "the_match w' ms = the_match w ms"
  using assms(3) same_viewD(6) [OF assms(1,2)] by (auto simp: the_match_def split: list.split)

lemma same_path_match:
  assumes "same_view cf u mk w w'" "get_accessible_files cf w u mk None = Inr es"
  shows "path_match cf w' es ref = path_match cf w es ref"
proof -
  have "the_match w' (filter P es) = the_match w (filter P es)" for P by (rule same_match [OF assms]) auto
  then show ?thesis
    unfolding path_match_def same_viewD(1) [OF assms(1)] by (auto intro!: first_some_cong split: option.split)
qed

lemma same_resolve:
  assumes "same_view cf u mk w w'"
  shows "resolve_file cf w' u mk ref = resolve_file cf w u mk ref"
  unfolding resolve_file_def
proof (rule rbind_cong [OF same_viewD(3) [OF assms]], goal_cases)
  case (1 es)
  note es = this
  have m: "the_match w' (filter P es) = the_match w (filter P es)" for P by (rule same_match [OF assms es]) auto
  show ?case
  proof (cases "readable_file w ref")
    case None
    then show ?thesis using same_viewD(5) [OF assms, of ref] by (simp add: same_path_match [OF assms es] m Let_def split: option.split)
  next
    case (Some f)
    then obtain f' where f': "readable_file w' ref = Some f'" using same_viewD(5) [OF assms, of ref] by auto
    have ids: "fl_id f = ref" "fl_id f' = ref" using Some f' by (simp_all add: readable_file_id)
    have "f' = f" if "ref \<in> en_id ` set es" using that same_viewD(6) [OF assms es] Some f' by force
    then show ?thesis using Some f' ids by auto
  qed
qed

lemma same_with_file: "same_view cf u mk w w' \<Longrightarrow> with_file cf w' u mk ref k = with_file cf w u mk ref k"
  by (simp add: with_file_def same_resolve)

lemma same_file_commands:
  assumes "same_view cf u mk w w'"
  shows "kb_cat cf w' u mk args flags = kb_cat cf w u mk args flags"
    and "kb_head cf w' u mk args flags piped = kb_head cf w u mk args flags piped"
    and "kb_tail cf w' u mk args flags piped = kb_tail cf w u mk args flags piped"
    and "kb_wc cf w' u mk args flags piped = kb_wc cf w u mk args flags piped"
    and "kb_stat cf w' u mk args flags = kb_stat cf w u mk args flags"
    and "kb_sed cf w' u mk args flags piped = kb_sed cf w u mk args flags piped"
  unfolding kb_cat_def kb_head_def kb_tail_def kb_wc_def kb_stat_def kb_sed_def same_with_file [OF assms] by (rule refl)+

lemma same_tree:
  assumes "same_view cf u mk w w'" "get_accessible_kb_ids cf w u mk None = Inr kbs" "kb \<in> set kbs"
  shows "build_directory_tree cf w' (fst kb) = build_directory_tree cf w (fst kb)"
  unfolding build_directory_tree_def same_viewD(1) [OF assms(1)] same_viewD(4) [OF assms] by (rule refl)

lemma same_unlisted: "same_view cf u mk w w' \<Longrightarrow> unlisted_files cf w' u mk = unlisted_files cf w u mk"
  by (simp add: unlisted_files_def same_viewD(3))

lemma same_ls:
  assumes "same_view cf u mk w w'"
  shows "kb_ls cf w' u mk args flags = kb_ls cf w u mk args flags"
proof -
  have level: "ls_level cf w' u mk kb dir pl = ls_level cf w u mk kb dir pl" for kb dir pl
    unfolding ls_level_def same_viewD(1,3) [OF assms] by (rule refl)
  have one: "ls_kb cf w' u mk flat dp kb = ls_kb cf w u mk flat dp kb"
    if "get_accessible_kb_ids cf w u mk None = Inr kbs" "kb \<in> set kbs" for kbs kb flat dp
    unfolding ls_kb_def ls_flat_def level same_tree [OF assms that] same_viewD(1) [OF assms] by (rule refl)
  show ?thesis
    unfolding kb_ls_def same_viewD(2) [OF assms] same_unlisted [OF assms] Let_def
    by (intro rbind_cong refl if_cong rconcat_cong) (auto intro: one split: if_splits)
qed

lemma same_tree_command:
  assumes "same_view cf u mk w w'"
  shows "kb_tree cf w' u mk args flags = kb_tree cf w u mk args flags"
proof -
  have one: "tree_kb cf w' scope kb = tree_kb cf w scope kb"
    if "get_accessible_kb_ids cf w u mk None = Inr kbs" "kb \<in> set kbs" for kbs kb scope
    unfolding tree_kb_def same_tree [OF assms that] by (rule refl)
  show ?thesis
    unfolding kb_tree_def same_viewD(2) [OF assms] same_unlisted [OF assms] Let_def
    by (intro rbind_cong refl if_cong rconcat_cong) (auto intro: one)
qed

lemma same_grep_entries:
  assumes "\<And>e. e \<in> set es \<Longrightarrow> readable_file w' (en_id e) = readable_file w (en_id e)"
  shows "grep_entries w' m b es = grep_entries w m b es"
  using assms
proof (induction es arbitrary: b)
  case (Cons e es)
  have "readable_file w' (en_id e) = readable_file w (en_id e)" using Cons.prems by simp
  moreover have "grep_entries w' m b es = grep_entries w m b es" for b using Cons by simp
  ultimately show ?case by (simp add: Let_def)
qed simp

lemma same_scope: "same_view cf u mk w w' \<Longrightarrow> scope_dirs cf w' es path = scope_dirs cf w es path"
  by (simp add: scope_dirs_def same_viewD(1))

lemma same_grep_across:
  assumes "same_view cf u mk w w'"
  shows "grep_across cf w' u mk m b pattern flags dir ext = grep_across cf w u mk m b pattern flags dir ext"
proof -
  have entries: "grep_entries w' m b sel = grep_entries w m b sel"
    if "get_accessible_files cf w u mk None = Inr es" "set sel \<subseteq> set es" for es sel
    using that same_viewD(6) [OF assms that(1)] by (intro same_grep_entries) auto
  show ?thesis
    unfolding grep_across_def same_viewD(3) [OF assms] same_scope [OF assms] Let_def
    by (intro rbind_cong refl if_cong) (auto intro!: entries)
qed

lemma same_grep:
  assumes "same_view cf u mk w w'"
  shows "kb_grep cf w' u mk args flags piped b = kb_grep cf w u mk args flags piped b"
  unfolding kb_grep_def same_resolve [OF assms] same_grep_across [OF assms] by (rule refl)

lemma same_find:
  assumes "same_view cf u mk w w'"
  shows "kb_find cf w' u mk args flags = kb_find cf w u mk args flags"
  unfolding kb_find_def same_viewD(3) [OF assms] same_scope [OF assms] by (rule refl)

lemma same_run: "same_view cf u mk w w' \<Longrightarrow> run_command cf w' u mk cmd args flags piped b = run_command cf w u mk cmd args flags piped b"
  by (simp add: run_command_def same_file_commands same_ls same_tree_command same_grep same_find)

lemma same_pipeline:
  "same_view cf u mk w w' \<Longrightarrow> execute_pipeline cf w' u mk piped b segments = execute_pipeline cf w u mk piped b segments"
  by (induction segments arbitrary: piped b) (simp_all add: same_run Let_def split: prod.split)

text \<open>A change of files that leaves what is shown, and for the others whether there are data, gives states that look the same.\<close>

definition hidden_change :: "kb_world \<Rightarrow> user \<Rightarrow> dict list \<Rightarrow> (file_row \<Rightarrow> file_row) \<Rightarrow> bool" where
  "hidden_change w u mk g \<longleftrightarrow>
     (\<forall>f. fl_id (g f) = fl_id f \<and> has_data (g f) = has_data f) \<and> (\<forall>f \<in> set (kw_files w). shown w u mk f \<longrightarrow> g f = f)"

definition change_files :: "(file_row \<Rightarrow> file_row) \<Rightarrow> kb_world \<Rightarrow> kb_world" where
  "change_files g w = w\<lparr>kw_files := map g (kw_files w)\<rparr>"

lemma find_map_id: "(\<And>f. fl_id (g f) = fl_id f) \<Longrightarrow> get_file_by_id i (map g fs) = map_option g (get_file_by_id i fs)"
  unfolding get_file_by_id_def by (induction fs) auto

lemma joined_map: "(\<And>f. fl_id (g f) = fl_id f) \<Longrightarrow> joined_files (map g fs) db = map (\<lambda>(f, kf). (g f, kf)) (joined_files fs db)"
  unfolding joined_files_def by (auto simp: find_map_id map_concat comp_def intro!: arg_cong [where f = concat] split: option.split)

lemma joined_filesD: "(f, kf) \<in> set (joined_files fs db) \<Longrightarrow> f \<in> set fs \<and> kf \<in> set (db_kb_files db) \<and> kf_file_id kf = fl_id f"
  by (auto simp: joined_files_def get_file_by_id_def split: option.splits dest!: sym [of "Some _"] dest: find_SomeD)

text \<open>Every knowledge base a command uses is open to the user.\<close>

lemma one_kb_open: "kb \<in> set (one_kb w u kid) \<Longrightarrow> \<exists>k \<in> set (db_knowledge (kw_kb w)). kb = kb_info_of k \<and> kb_open w u k"
  by (auto simp: one_kb_def get_knowledge_by_id_def split: option.splits if_splits dest!: sym [of "Some _"] dest: find_SomeD)

lemma accessible_open:
  assumes "get_accessible_kb_ids cf w u mk kid = Inr kbs" "kb \<in> set kbs" "u_id u \<noteq> []"
  shows "\<exists>k \<in> set (db_knowledge (kw_kb w)). kb = kb_info_of k \<and> kb_open w u k"
proof -
  have search: "k \<in> set (db_knowledge (kw_kb w)) \<and> kb_open w u k"
    if "k \<in> ki_row ` set (fst (search_knowledge_bases (fc_sql cf) (kw_users w) (kw_grants w) (u_id u) (own_query w u) 0 50 (kw_kb w)))" for k
  proof -
    have "k \<in> set (knowledge_hits (fc_sql cf) (kw_users w) (kw_grants w) (u_id u) (own_query w u) (kw_kb w))"
      using that set_page_limit by (fastforce simp: search_knowledge_bases_def Let_def knowledge_item_of_def)
    then show ?thesis
      using knowledge_hits_readable [of k "fc_sql cf" "kw_users w" "kw_grants w" "u_id u" "own_query w u" "kw_kb w" "kw_groups w"] assms(3)
      by (auto simp: as_user_def own_query_def kb_readable_def kb_open_def has_access_None)
  qed
  show ?thesis
  proof (cases "mk = [] \<and> \<not> given kid")
    case True
    then obtain x where "x \<in> set (fst (search_knowledge_bases (fc_sql cf) (kw_users w) (kw_grants w) (u_id u) (own_query w u) 0 50 (kw_kb w)))"
      "kb = kb_info_of (ki_row x)"
      using assms(1,2) by (auto simp: get_accessible_kb_ids_def)
    then show ?thesis using search [of "ki_row x"] by blast
  next
    case False
    then show ?thesis using assms(1,2) one_kb_open [of kb w u]
      by (auto simp: get_accessible_kb_ids_def rbind_Inr_iff split: if_splits)
  qed
qed

lemma same_kb_ids: "get_accessible_kb_ids cf (change_files g w) u mk kid = get_accessible_kb_ids cf w u mk kid"
proof -
  have kb: "kw_kb (change_files g w) = kw_kb w" by (simp add: change_files_def)
  have "kb_open (change_files g w) = kb_open w" by (intro ext) (simp add: kb_open_def change_files_def)
  then have one: "one_kb (change_files g w) = one_kb w" by (intro ext) (simp add: one_kb_def kb cong: option.case_cong)
  have same: "own_query (change_files g w) u = own_query w u" "kw_users (change_files g w) = kw_users w" "kw_grants (change_files g w) = kw_grants w"
    by (simp_all add: change_files_def own_query_def)
  show ?thesis unfolding get_accessible_kb_ids_def one kb same by (rule refl)
qed

lemma same_kb_files:
  assumes "hidden_change w u mk g" "k \<in> set (db_knowledge (kw_kb w))" "kb_open w u k"
  shows "get_files_with_directory_ids (kn_id k) (map g (kw_files w)) (kw_kb w) = get_files_with_directory_ids (kn_id k) (kw_files w) (kw_kb w)"
proof -
  have "g f = f" if "(f, kf) \<in> set (files_of_knowledge (kn_id k) (kw_files w) (kw_kb w))" for f kf
  proof -
    have "f \<in> set (kw_files w)" "kf \<in> set (db_kb_files (kw_kb w))" "kf_file_id kf = fl_id f" "kf_knowledge_id kf = kn_id k"
      using that joined_filesD by (auto simp: files_of_knowledge_def)
    then have "shown w u mk f" using assms(2,3) by (auto simp: shown_def has_file_def list_ex_iff)
    then show ?thesis using assms(1) \<open>f \<in> set (kw_files w)\<close> by (auto simp: hidden_change_def)
  qed
  moreover have "files_of_knowledge (kn_id k) (map g (kw_files w)) (kw_kb w) =
      map (\<lambda>(f, kf). (g f, kf)) (files_of_knowledge (kn_id k) (kw_files w) (kw_kb w))"
    using assms(1) by (simp add: files_of_knowledge_def joined_map hidden_change_def filter_map comp_def case_prod_unfold)
  ultimately show ?thesis by (auto simp: get_files_with_directory_ids_def)
qed

lemma attached_in: "attached kind mk = Inr ids \<Longrightarrow> i \<in> ids \<Longrightarrow> \<exists>item \<in> set mk. vget item ''type'' = VStr kind \<and> vget item ''id'' = VStr i"
proof -
  assume a: "attached kind mk = Inr ids" "i \<in> ids"
  then obtain g where g: "\<forall>x \<in> set (filter (\<lambda>item. vget item ''type'' = VStr kind) mk). attached_id x = Inr (g x)"
    "ids = set (concat (map g (filter (\<lambda>item. vget item ''type'' = VStr kind) mk)))"
    by (auto simp only: attached_def rbind_Inr_iff sum.inject dest!: rconcat_Inr)
  then obtain x where x: "x \<in> set mk" "vget x ''type'' = VStr kind" "i \<in> set (g x)" using a(2) by auto
  then have "attached_id x = Inr (g x)" using g(1) by simp
  then have "vget x ''id'' = VStr i" using x(3) by (cases "vget x ''id''") (auto simp: attached_id_def dest!: sym [of "[_]"])
  then show ?thesis using x by blast
qed

lemma same_view_change:
  assumes g: "hidden_change w u mk g" and user: "u_id u \<noteq> []" and sets: "\<And>A. finite A \<Longrightarrow> set (fc_listing cf A) \<subseteq> A"
  shows "same_view cf u mk w (change_files g w)"
proof -
  have keys: "fl_id (g f) = fl_id f" "has_data (g f) = has_data f" for f :: file_row using g by (auto simp: hidden_change_def)
  have files: "get_files_with_directory_ids (fst kb) (kw_files (change_files g w)) (kw_kb w) = get_files_with_directory_ids (fst kb) (kw_files w) (kw_kb w)"
    if "get_accessible_kb_ids cf w u mk kid = Inr kbs" "kb \<in> set kbs" for kid kbs kb
    using accessible_open [OF that user] same_kb_files [OF g] by (auto simp: kb_info_of_def change_files_def)
  have shown: "get_file_by_id i (kw_files (change_files g w)) = get_file_by_id i (kw_files w)"
    if shown: "\<And>f :: file_row. f \<in> set (kw_files w) \<Longrightarrow> fl_id f = i \<Longrightarrow> shown w u mk f" for i
    using shown g find_map_id [of g i "kw_files w"] keys
    by (cases "get_file_by_id i (kw_files w)") (auto simp: change_files_def hidden_change_def get_file_by_id_def dest!: find_SomeD)
  have direct: "direct_entries cf (change_files g w) mk = direct_entries cf w mk"
  proof (unfold direct_entries_def, rule rbind_cong [OF refl], goal_cases)
    case (1 ids)
    have fin: "finite ids" using 1 by (auto simp: attached_def rbind_Inr_iff)
    have "get_file_by_id i (kw_files (change_files g w)) = get_file_by_id i (kw_files w)" if "i \<in> set (fc_listing cf ids)" for i
    proof (rule shown)
      fix f :: file_row assume "fl_id f = i"
      then show "shown w u mk f" using attached_in [OF 1, of i] sets [OF fin] that by (auto simp: shown_def)
    qed
    then show ?case by (auto intro!: arg_cong [where f = concat])
  qed
  have entries: "kb_entries (change_files g w) kb = kb_entries w kb" if "get_accessible_kb_ids cf w u mk kid = Inr kbs" "kb \<in> set kbs" for kid kbs kb
    using files [OF that] by (cases kb) (simp add: kb_entries_def change_files_def)
  have accessible: "get_accessible_files cf (change_files g w) u mk kid = get_accessible_files cf w u mk kid" for kid
    unfolding get_accessible_files_def same_kb_ids direct
    by (intro rbind_cong refl) (auto intro!: arg_cong [where f = concat] entries)
  have none: "(readable_file (change_files g w) i = None) = (readable_file w i = None)" for i
    using find_map_id [of g i "kw_files w"] keys by (auto simp: readable_file_def change_files_def split: option.splits)
  have seen: "shown w u mk f"
    if es: "get_accessible_files cf w u mk None = Inr es" and e: "e \<in> set es" and f: "f \<in> set (kw_files w)" "fl_id f = en_id e" for es e and f :: file_row
  proof -
    obtain kbs ds where kbs: "get_accessible_kb_ids cf w u mk None = Inr kbs"
      and ds: "(if mk \<noteq> [] then direct_entries cf w mk else Inr []) = Inr ds" and es': "es = concat (map (kb_entries w) kbs) @ ds"
      using es by (auto simp: get_accessible_files_def rbind_Inr_iff)
    consider kb where "kb \<in> set kbs" "e \<in> set (kb_entries w kb)" | "e \<in> set ds" using e es' by auto
    then show ?thesis
    proof cases
      case 1
      obtain k where k: "k \<in> set (db_knowledge (kw_kb w))" "kb = kb_info_of k" "kb_open w u k"
        using accessible_open [OF kbs 1(1) user] by blast
      obtain f' kf where fk: "(f', kf) \<in> set (files_of_knowledge (kn_id k) (kw_files w) (kw_kb w))" "en_id e = fl_id f'"
        using 1(2) by (auto simp: k(2) kb_entries_def kb_info_of_def get_files_with_directory_ids_def entry_of_def)
      have "kf \<in> set (db_kb_files (kw_kb w))" "kf_file_id kf = fl_id f" "kf_knowledge_id kf = kn_id k"
        using fk f joined_filesD by (auto simp: files_of_knowledge_def)
      then show ?thesis using k by (auto simp: shown_def has_file_def list_ex_iff)
    next
      case 2
      then obtain ids i f' where ids: "attached ''file'' mk = Inr ids" "i \<in> set (fc_listing cf ids)" "get_file_by_id i (kw_files w) = Some f'" "e = entry_of None None f'"
        using ds by (auto simp: direct_entries_def rbind_Inr_iff split: if_splits option.splits dest!: sym [of "Some _"])
      have "finite ids" using ids(1) by (auto simp: attached_def rbind_Inr_iff)
      then have "i \<in> ids" using sets ids(2) by blast
      moreover have "i = fl_id f" using ids(3,4) f(2) by (auto simp: get_file_by_id_def entry_of_def dest!: find_SomeD)
      ultimately show ?thesis using attached_in [OF ids(1)] by (auto simp: shown_def)
    qed
  qed
  have same: "readable_file (change_files g w) (en_id e) = readable_file w (en_id e)"
    if "get_accessible_files cf w u mk None = Inr es" "e \<in> set es" for es e
    using shown [of "en_id e"] seen [OF that] by (simp add: readable_file_def)
  show ?thesis
    unfolding same_view_def using files accessible none same by (auto simp: same_kb_ids) (auto simp: change_files_def)
qed

text \<open>C38. The output of a command tells a user nothing about files outside the knowledge bases that are open to the user and not attached to the
  model: with any other name, content or metadata in them, as long as they have data or not as before, it is the same.\<close>
theorem kb_exec_confined:
  assumes "hidden_change w u mk g" "u_id u \<noteq> []" "\<And>A. finite A \<Longrightarrow> set (fc_listing cf A) \<subseteq> A"
  shows "kb_exec cf (change_files g w) (Some u) mk command = kb_exec cf w (Some u) mk command"
  using same_pipeline [OF same_view_change [OF assms]] by (simp add: kb_exec_def Let_def)

definition sample_fs :: fs_config where
  "sample_fs =
     \<lparr>fc_sql = \<lparr>sql_ilike = (\<lambda>s p. True), sql_json_at = (\<lambda>p v. None), sql_null = (\<lambda>v. v = VNone), sql_empty_or = False, sql_max_content = 10\<rparr>,
      fc_listing = (\<lambda>A. filter (\<lambda>i. i \<in> A) [''k1'', ''k2'', ''f1'', ''f2'']), fc_regex = (\<lambda>ci p. Inl ''none''), fc_depth = 9,
      fc_max_grep_files = 9, fc_max_matches = 9, fc_max_output = 900, fc_error_text = (\<lambda>e. ''error''), fc_folder = CHR ''D'', fc_corner = CHR ''L'',
      fc_tee = CHR ''T'', fc_dash = CHR ''-'', fc_bar = CHR ''I'', fc_long_dash = CHR ''-''\<rparr>"

definition sample_reader :: user where
  "sample_reader = \<lparr>u_id = ''u'', u_email = ''e'', u_username = None, u_role = ''user'', u_name = ''n'', u_profile_image_url = [], u_settings = [],
     u_oauth = [], u_scim = [], u_last_active_at = 0, u_updated_at = 0, u_created_at = 0\<rparr>"

definition sample_kb_row :: "string \<Rightarrow> string \<Rightarrow> knowledge_row" where
  "sample_kb_row i uid = \<lparr>kn_id = i, kn_user_id = uid, kn_name = i, kn_description = [], kn_meta = VNone, kn_created_at = 0, kn_updated_at = 0\<rparr>"

definition sample_kb_file :: "string \<Rightarrow> string \<Rightarrow> kb_file" where
  "sample_kb_file kid fid = \<lparr>kf_id = fid, kf_knowledge_id = kid, kf_file_id = fid, kf_directory_id = None, kf_user_id = ''u'', kf_created_at = 0, kf_updated_at = 0\<rparr>"

definition with_content :: "string \<Rightarrow> file_row \<Rightarrow> file_row" where
  "with_content s f = f\<lparr>fl_data := Some [(''content'', VStr s)]\<rparr>"

definition sample_world :: kb_world where
  "sample_world =
     \<lparr>kw_groups = \<lparr>db_groups = [], db_members = [], db_uuid = 0\<rparr>, kw_grants = \<lparr>db_grants = [], gdb_uuid = 0\<rparr>,
      kw_users = \<lparr>db_users = [], db_api_keys = []\<rparr>,
      kw_kb = \<lparr>db_knowledge = [sample_kb_row ''k1'' ''u'', sample_kb_row ''k2'' ''v''], db_dirs = [],
        db_kb_files = [sample_kb_file ''k1'' ''f1'', sample_kb_file ''k2'' ''f2''], kb_uuid = 0\<rparr>,
      kw_files = [with_content ''mine'' (sample_file ''f1'' ''a.txt''), with_content ''theirs'' (sample_file ''f2'' ''b.txt'')]\<rparr>"

definition sample_change :: "file_row \<Rightarrow> file_row" where
  "sample_change f = (if fl_id f = ''f2'' \<and> has_data f then with_content ''mine too'' f else f)"

theorem kb_exec_confined_witness:
  "kb_exec sample_fs (change_files sample_change sample_world) (Some sample_reader) [] ''grep mine'' =
   kb_exec sample_fs sample_world (Some sample_reader) [] ''grep mine''"
proof (rule kb_exec_confined)
  have "kb_open sample_world sample_reader k \<Longrightarrow> k \<in> set (db_knowledge (kw_kb sample_world)) \<Longrightarrow> kn_id k = ''k1''" for k
    by (auto simp: kb_open_def sample_reader_def sample_world_def sample_kb_row_def has_access_def)
  then show "hidden_change sample_world sample_reader [] sample_change"
    by (auto simp: hidden_change_def shown_def has_file_def sample_change_def with_content_def has_data_def sample_world_def sample_kb_file_def sample_file_def)
  show "u_id sample_reader \<noteq> []" by (simp add: sample_reader_def)
  show "set (fc_listing sample_fs A) \<subseteq> A" for A by (auto simp: sample_fs_def)
qed

end
