(* ===== verification/KnowledgePaths.thy ===== *)
theory KnowledgePaths
  imports KnowledgeFS
begin

text \<open>
  Two ways by which the commands of \<open>KnowledgeFS\<close> find a directory by its path, the tree that \<open>tree\<close> builds with all paths in memory and the
  walk of the other commands that asks the database level by level, and the directories below one.
\<close>

section \<open>Paths by names\<close>

text \<open>The directories of a knowledge base form a forest inside it, with names that a path can tell apart.\<close>

definition directories_ok :: "string \<Rightarrow> kb_db \<Rightarrow> bool" where
  "directories_ok kid db \<longleftrightarrow>
     dirs_inv False db \<and>
     (\<forall>d \<in> set (get_all_directories kid db).
        kd_name d \<noteq> [] \<and> CHR ''/'' \<notin> set (kd_name d) \<and>
        (\<forall>p. kd_parent_id d = Some p \<longrightarrow> p \<in> kd_id ` set (get_all_directories kid db)) \<and>
        (\<forall>e \<in> set (get_all_directories kid db). kd_parent_id e = kd_parent_id d \<longrightarrow> kd_name e = kd_name d \<longrightarrow> e = d))"

inductive named :: "string \<Rightarrow> kb_db \<Rightarrow> directory \<Rightarrow> string list \<Rightarrow> bool" for kid db where
  root: "d \<in> set (get_all_directories kid db) \<Longrightarrow> kd_parent_id d = None \<Longrightarrow> named kid db d [kd_name d]"
| child: "named kid db p ns \<Longrightarrow> d \<in> set (get_all_directories kid db) \<Longrightarrow> kd_parent_id d = Some (kd_id p) \<Longrightarrow> named kid db d (ns @ [kd_name d])"

inductive_simps named_root: "named kid db d [n]"

lemma named_dir: "named kid db d ns \<Longrightarrow> d \<in> set (get_all_directories kid db) \<and> ns \<noteq> []"
  by (induction rule: named.induct) auto

lemma set_all_directories: "set (get_all_directories kid db) = {d \<in> set (db_dirs db). kd_knowledge_id d = kid}"
  by (auto simp: get_all_directories_def)

lemma set_directories:
  "directories_ok kid db \<Longrightarrow> (parent = Some [] \<Longrightarrow> False) \<Longrightarrow>
     set (get_directories kid parent db) = {d \<in> set (get_all_directories kid db). kd_parent_id d = parent}"
  by (auto simp: get_directories_def set_all_directories given_def split: option.splits list.splits)

lemma ok_id: "directories_ok kid db \<Longrightarrow> d \<in> set (get_all_directories kid db) \<Longrightarrow> kd_id d \<noteq> []"
  using image_eqI [of "[]" kd_id d "set (db_dirs db)"] by (auto simp: directories_ok_def dirs_inv_def set_all_directories)

lemma ok_unique:
  "directories_ok kid db \<Longrightarrow> d \<in> set (get_all_directories kid db) \<Longrightarrow> e \<in> set (get_all_directories kid db) \<Longrightarrow> kd_id d = kd_id e \<Longrightarrow> d = e"
  by (auto simp: directories_ok_def dirs_inv_def set_all_directories intro: dir_unique)

lemma ok_name: "directories_ok kid db \<Longrightarrow> d \<in> set (get_all_directories kid db) \<Longrightarrow> kd_name d \<noteq> [] \<and> CHR ''/'' \<notin> set (kd_name d)"
  unfolding directories_ok_def by blast

lemma named_names: "named kid db d ns \<Longrightarrow> directories_ok kid db \<Longrightarrow> \<forall>n \<in> set ns. n \<noteq> [] \<and> CHR ''/'' \<notin> set n"
  by (induction rule: named.induct) (simp_all add: ok_name)

text \<open>One level of the walk.\<close>

lemma find_level:
  assumes "directories_ok kid db" "parent \<noteq> Some []"
  shows "List.find (\<lambda>d. kd_name d = n) (get_directories kid parent db) = Some d \<longleftrightarrow>
    d \<in> set (get_all_directories kid db) \<and> kd_parent_id d = parent \<and> kd_name d = n"
proof
  assume "List.find (\<lambda>d. kd_name d = n) (get_directories kid parent db) = Some d"
  then show "d \<in> set (get_all_directories kid db) \<and> kd_parent_id d = parent \<and> kd_name d = n"
    using set_directories [OF assms(1), of parent] assms(2) find_SomeD by fastforce
next
  assume d: "d \<in> set (get_all_directories kid db) \<and> kd_parent_id d = parent \<and> kd_name d = n"
  then have "d \<in> set (get_directories kid parent db)" using set_directories [OF assms(1), of parent] assms(2) by simp
  then obtain e where e: "List.find (\<lambda>d. kd_name d = n) (get_directories kid parent db) = Some e"
    using find_Some_ex [of d _ "\<lambda>d. kd_name d = n"] d by blast
  then have "e \<in> set (get_all_directories kid db) \<and> kd_parent_id e = parent \<and> kd_name e = n"
    using set_directories [OF assms(1), of parent] assms(2) find_SomeD by fastforce
  then have "e = d" using d assms(1) by (auto simp: directories_ok_def)
  then show "List.find (\<lambda>d. kd_name d = n) (get_directories kid parent db) = Some d" using e by simp
qed

lemma walk_named:
  assumes ok: "directories_ok kid db" and "named kid db d ns"
  shows "walk_dirs db kid None (ns @ ms) = walk_dirs db kid (Some (kd_id d)) ms"
  using assms(2)
proof (induction arbitrary: ms rule: named.induct)
  case (root d)
  then have "List.find (\<lambda>e. kd_name e = kd_name d) (get_directories kid None db) = Some d" using find_level [OF ok] by simp
  then show ?case by simp
next
  case (child p ns d)
  have "kd_id p \<noteq> []" using ok_id [OF ok] named_dir [OF child.hyps(1)] by blast
  then have "List.find (\<lambda>e. kd_name e = kd_name d) (get_directories kid (Some (kd_id p)) db) = Some d"
    using child.hyps find_level [OF ok, of "Some (kd_id p)"] by simp
  then show ?case using child.IH [of "kd_name d # ms"] by simp
qed

lemma walk_below:
  assumes ok: "directories_ok kid db"
  shows "named kid db d ns \<Longrightarrow> walk_dirs db kid (Some (kd_id d)) ms = Some i \<Longrightarrow> \<exists>e. kd_id e = i \<and> named kid db e (ns @ ms)"
proof (induction ms arbitrary: d ns)
  case (Cons m ms)
  have "kd_id d \<noteq> []" using ok_id [OF ok] named_dir [OF Cons.prems(1)] by blast
  then obtain e where e: "List.find (\<lambda>e. kd_name e = m) (get_directories kid (Some (kd_id d)) db) = Some e"
      "walk_dirs db kid (Some (kd_id e)) ms = Some i"
    using Cons.prems(2) by (auto split: option.splits)
  then have "named kid db e (ns @ [m])" using find_level [OF ok, of "Some (kd_id d)" m e] \<open>kd_id d \<noteq> []\<close> named.child [OF Cons.prems(1)] by auto
  then show ?case using Cons.IH e(2) by fastforce
qed auto

lemma walk_None_named:
  assumes ok: "directories_ok kid db" and "walk_dirs db kid None ns = Some i"
  shows "\<exists>d. kd_id d = i \<and> named kid db d ns"
proof (cases ns)
  case (Cons n ms)
  then obtain e where e: "List.find (\<lambda>e. kd_name e = n) (get_directories kid None db) = Some e" "walk_dirs db kid (Some (kd_id e)) ms = Some i"
    using assms(2) by (auto split: option.splits)
  then have "named kid db e [n]" using find_level [OF ok, of None n e] by (auto simp: named_root)
  then show ?thesis using walk_below [OF ok] e(2) Cons by fastforce
qed (use assms(2) in simp)

text \<open>The walk finds exactly the directory with these names.\<close>

lemma walk_iff: "directories_ok kid db \<Longrightarrow> walk_dirs db kid None ns = Some i \<longleftrightarrow> (\<exists>d. kd_id d = i \<and> named kid db d ns)"
  using walk_None_named walk_named [where ms = "[]"] by fastforce

section \<open>Every directory has a path, no longer than there are directories\<close>

lemma named_ids:
  assumes ok: "directories_ok kid db" and "named kid db d ns"
  shows "\<exists>ids. length ids = length ns \<and> distinct ids \<and> set ids \<subseteq> kd_id ` set (get_all_directories kid db) \<and> (\<forall>i \<in> set ids. (kd_id d, i) \<in> (above db)\<^sup>*)"
  using assms(2)
proof (induction rule: named.induct)
  case (root d)
  then show ?case by (intro exI [of _ "[kd_id d]"]) simp
next
  case (child p ns d)
  from child.IH obtain ids where ids: "length ids = length ns" "distinct ids" "set ids \<subseteq> kd_id ` set (get_all_directories kid db)"
    "\<forall>i \<in> set ids. (kd_id p, i) \<in> (above db)\<^sup>*" by blast
  have up: "(kd_id d, kd_id p) \<in> above db" using child.hyps by (auto simp: set_all_directories intro: aboveI)
  have "kd_id d \<notin> set ids"
  proof
    assume "kd_id d \<in> set ids"
    then have "(kd_id d, kd_id d) \<in> (above db)\<^sup>+" using ids(4) up by (meson rtrancl_into_trancl2)
    then show False using ok by (simp add: directories_ok_def dirs_inv_def acyclic_def)
  qed
  then show ?case using ids child.hyps up by (intro exI [of _ "kd_id d # ids"]) (auto intro: converse_rtrancl_into_rtrancl)
qed

lemma named_length:
  assumes "directories_ok kid db" "named kid db d ns"
  shows "length ns \<le> length (get_all_directories kid db)"
proof -
  obtain ids where ids: "length ids = length ns" "distinct ids" "set ids \<subseteq> set (map kd_id (get_all_directories kid db))"
    using named_ids [OF assms] by auto
  then have "length ns \<le> card (set (map kd_id (get_all_directories kid db)))" using card_mono [OF _ ids(3)] by (simp add: distinct_card)
  also have "\<dots> \<le> length (get_all_directories kid db)" using card_length [of "map kd_id (get_all_directories kid db)"] by simp
  finally show ?thesis .
qed

lemma ex_named:
  assumes ok: "directories_ok kid db"
  shows "d \<in> set (get_all_directories kid db) \<Longrightarrow> \<exists>ns. named kid db d ns"
proof -
  have "finite (above db)"
  proof (rule finite_subset)
    show "above db \<subseteq> (\<lambda>d. (kd_id d, the (kd_parent_id d))) ` set (db_dirs db)" by (force simp: above_def)
  qed simp
  then have wf: "wf ((above db)\<inverse>)" using ok by (simp add: finite_acyclic_wf_converse directories_ok_def dirs_inv_def)
  show "d \<in> set (get_all_directories kid db) \<Longrightarrow> \<exists>ns. named kid db d ns"
  proof (induction "kd_id d" arbitrary: d rule: wf_induct_rule [OF wf])
    case 1
    show ?case
    proof (cases "kd_parent_id d")
      case None
      then show ?thesis using named.root [OF 1(2)] by blast
    next
      case (Some p)
      then obtain e where e: "e \<in> set (get_all_directories kid db)" "kd_id e = p" using 1(2) ok by (fastforce simp: directories_ok_def)
      moreover have "(kd_id d, p) \<in> above db" using 1(2) Some by (auto simp: set_all_directories intro: aboveI)
      ultimately obtain ns where "named kid db e ns" using 1(1) [of e] by auto
      then show ?thesis using named.child [OF _ 1(2)] Some e(2) by blast
    qed
  qed
qed

section \<open>The tree agrees with the walk\<close>

text \<open>What the paths found so far say is right.\<close>

definition paths_right :: "string \<Rightarrow> kb_db \<Rightarrow> (string, string) pydict \<Rightarrow> bool" where
  "paths_right kid db memo \<longleftrightarrow> wf_dict memo \<and> (\<forall>i p. dget memo i = Some p \<longrightarrow> (\<exists>d ns. kd_id d = i \<and> named kid db d ns \<and> p = py_join ''/'' ns))"

lemma paths_right_set: "paths_right kid db memo \<Longrightarrow> named kid db d ns \<Longrightarrow> paths_right kid db (dset memo (kd_id d) (py_join ''/'' ns))"
  by (auto simp: paths_right_def)

lemma named_unique:
  assumes "directories_ok kid db" "named kid db d ns" "named kid db d ms"
  shows "ms = ns"
  using assms(2,3)
proof (induction arbitrary: ms rule: named.induct)
  case (root d)
  from root.prems root.hyps show ?case by (auto elim: named.cases)
next
  case (child p ns d)
  from child.prems child.hyps obtain q qs where q: "named kid db q qs" "kd_id q = kd_id p" "ms = qs @ [kd_name d]"
    by (auto elim: named.cases)
  then have "q = p" using ok_unique [OF assms(1)] named_dir child.hyps(1) by blast
  then show ?case using child.IH q by simp
qed

lemma find_directory: "directories_ok kid db \<Longrightarrow> d \<in> set (get_all_directories kid db) \<Longrightarrow>
    List.find (\<lambda>e. kd_id e = kd_id d) (get_all_directories kid db) = Some d"
  using find_Some_ex [of d "get_all_directories kid db" "\<lambda>e. kd_id e = kd_id d"] ok_unique find_SomeD by (metis (mono_tags, lifting))

lemma py_join_nonempty: "ns \<noteq> [] \<Longrightarrow> [] \<notin> set ns \<Longrightarrow> py_join sep ns \<noteq> []"
  by (induction sep ns rule: py_join.induct) auto

lemma get_dir_path_right:
  assumes ok: "directories_ok kid db"
  shows "named kid db d ns \<Longrightarrow> length ns \<le> n \<Longrightarrow> paths_right kid db memo \<Longrightarrow>
    \<exists>memo'. get_dir_path n (get_all_directories kid db) (kd_id d) memo = Inr (py_join ''/'' ns, memo') \<and> paths_right kid db memo' \<and>
      dget memo' (kd_id d) \<noteq> None \<and> (\<forall>i. dget memo i \<noteq> None \<longrightarrow> dget memo' i \<noteq> None)"
proof (induction arbitrary: n memo rule: named.induct)
  case (root d)
  note d = named.root [OF root.hyps]
  obtain m where n: "n = Suc m" using root.prems(1) by (cases n) auto
  show ?case
  proof (cases "dget memo (kd_id d)")
    case None
    then show ?thesis using root.hyps root.prems(2) paths_right_set [OF root.prems(2) d]
      by (simp add: n find_directory [OF ok] given_def)
  next
    case (Some p)
    then obtain e ms where "kd_id e = kd_id d" "named kid db e ms" "p = py_join ''/'' ms" using root.prems(2) unfolding paths_right_def by blast
    then have "p = py_join ''/'' [kd_name d]" using ok_unique [OF ok, of e d] named_dir root.hyps(1) named_unique [OF ok d, of ms] by metis
    then show ?thesis using Some root.prems(2) by (simp add: n)
  qed
next
  case (child p ns d)
  note d = named.child [OF child.hyps]
  obtain m where n: "n = Suc m" using child.prems(1) by (cases n) auto
  show ?case
  proof (cases "dget memo (kd_id d)")
    case None
    obtain memo' where memo': "get_dir_path m (get_all_directories kid db) (kd_id p) memo = Inr (py_join ''/'' ns, memo')" "paths_right kid db memo'"
        "\<forall>i. dget memo i \<noteq> None \<longrightarrow> dget memo' i \<noteq> None"
      using child.IH [of m memo] child.prems n by auto
    have p: "p \<in> set (get_all_directories kid db)" "ns \<noteq> []" using named_dir [OF child.hyps(1)] by auto
    have "py_join ''/'' ns \<noteq> []" using named_names [OF child.hyps(1) ok] p(2) by (intro py_join_nonempty) auto
    then have "get_dir_path n (get_all_directories kid db) (kd_id d) memo =
        Inr (py_join ''/'' ns @ ''/'' @ kd_name d, dset memo' (kd_id d) (py_join ''/'' ns @ ''/'' @ kd_name d))"
      using None child.hyps(3) memo'(1) p(1) ok_id [OF ok p(1)] by (simp add: n find_directory [OF ok child.hyps(2)] given_def Let_def)
    moreover have "py_join ''/'' (ns @ [kd_name d]) = py_join ''/'' ns @ ''/'' @ kd_name d" using p(2) by (simp add: py_join_append)
    ultimately show ?thesis using memo'(3) paths_right_set [OF memo'(2) d] by simp
  next
    case (Some q)
    then obtain e ms where "kd_id e = kd_id d" "named kid db e ms" "q = py_join ''/'' ms" using child.prems(2) unfolding paths_right_def by blast
    then have "q = py_join ''/'' (ns @ [kd_name d])" using ok_unique [OF ok, of e d] named_dir child.hyps(2) named_unique [OF ok d, of ms] by metis
    then show ?thesis using Some child.prems(2) by (simp add: n)
  qed
qed

lemma all_dir_paths_right:
  assumes ok: "directories_ok kid db" and n: "length (get_all_directories kid db) \<le> n"
  shows "set is \<subseteq> kd_id ` set (get_all_directories kid db) \<Longrightarrow> paths_right kid db memo \<Longrightarrow>
    \<exists>paths. all_dir_paths n (get_all_directories kid db) is memo = Inr paths \<and> paths_right kid db paths \<and>
      (\<forall>i. i \<in> set is \<or> dget memo i \<noteq> None \<longrightarrow> dget paths i \<noteq> None)"
proof (induction "is" arbitrary: memo)
  case (Cons i "is")
  then obtain d where d: "d \<in> set (get_all_directories kid db)" "kd_id d = i" by auto
  obtain ns where ns: "named kid db d ns" using ex_named [OF ok d(1)] by blast
  obtain memo' where memo': "get_dir_path n (get_all_directories kid db) i memo = Inr (py_join ''/'' ns, memo')" "paths_right kid db memo'"
      "dget memo' i \<noteq> None" "\<forall>i. dget memo i \<noteq> None \<longrightarrow> dget memo' i \<noteq> None"
    using get_dir_path_right [OF ok ns _ Cons.prems(2), of n] named_length [OF ok ns] n d(2) by auto
  obtain paths where "all_dir_paths n (get_all_directories kid db) is memo' = Inr paths" "paths_right kid db paths"
      "\<forall>i. i \<in> set is \<or> dget memo' i \<noteq> None \<longrightarrow> dget paths i \<noteq> None"
    using Cons.IH [OF _ memo'(2)] Cons.prems(1) by auto
  then show ?case using memo' by (intro exI [of _ paths]) auto
qed simp

lemma resolve_tree:
  assumes ok: "directories_ok kid db" and right: "paths_right kid db paths"
    and all: "\<forall>d \<in> set (get_all_directories kid db). dget paths (kd_id d) \<noteq> None"
  shows "map_option fst (List.find (\<lambda>kv. snd kv = s) (rev paths)) = walk_dirs db kid None (py_split (CHR ''/'') s)"
proof -
  have split: "py_split (CHR ''/'') (py_join ''/'' ns) = ns" if "named kid db d ns" for d ns
    using py_split_join [of ns "CHR ''/''"] named_names [OF that ok] named_dir [OF that] by simp
  have entry: "dget paths i = Some p \<longleftrightarrow> (i, p) \<in> set paths" for i p
    using right wf_dict_dget by (auto simp: paths_right_def dest: map_of_SomeD)
  show ?thesis
  proof (cases "List.find (\<lambda>kv. snd kv = s) (rev paths)")
    case None
    have "walk_dirs db kid None (py_split (CHR ''/'') s) \<noteq> Some i" for i
    proof
      assume "walk_dirs db kid None (py_split (CHR ''/'') s) = Some i"
      then obtain d where d: "kd_id d = i" "named kid db d (py_split (CHR ''/'') s)" using walk_iff [OF ok] by blast
      then obtain p where "dget paths i = Some p" using all named_dir by blast
      then obtain e ns where e: "(i, p) \<in> set paths" "kd_id e = i" "named kid db e ns" "p = py_join ''/'' ns"
        using right entry unfolding paths_right_def by blast
      then have "ns = py_split (CHR ''/'') s"
        using ok_unique [OF ok, of e d] d named_dir named_unique [OF ok d(2)] by metis
      then have "p = s" using e(4) by simp
      then show False using None e(1) by (auto simp: find_None_iff)
    qed
    then show ?thesis using None by (cases "walk_dirs db kid None (py_split (CHR ''/'') s)") auto
  next
    case (Some kv)
    then have kv: "kv \<in> set paths" "snd kv = s" by (auto dest: find_SomeD)
    then obtain d ns where d: "kd_id d = fst kv" "named kid db d ns" "s = py_join ''/'' ns"
      using right entry [of "fst kv" "snd kv"] unfolding paths_right_def by (metis prod.collapse)
    then have "walk_dirs db kid None ns = Some (fst kv)" using walk_iff [OF ok] by blast
    then show ?thesis using Some d(3) split [OF d(2)] by simp
  qed
qed

text \<open>C39. Where the directories of a knowledge base form a forest whose siblings have different names without slashes, the tree can be built, and
  for every text the paths it keeps in memory lead to the same directory as the walk through the database, or both to none.\<close>
theorem paths_agree:
  assumes "directories_ok kid (kw_kb w)" "length (get_all_directories kid (kw_kb w)) \<le> fc_depth cf"
  shows "\<exists>t. build_directory_tree cf w kid = Inr t \<and> (\<forall>path. resolve_path path t = resolve_dir_path (kw_kb w) kid path)"
proof -
  obtain paths where "all_dir_paths (fc_depth cf) (get_all_directories kid (kw_kb w)) (map kd_id (get_all_directories kid (kw_kb w))) [] = Inr paths"
      "paths_right kid (kw_kb w) paths" "\<forall>d \<in> set (get_all_directories kid (kw_kb w)). dget paths (kd_id d) \<noteq> None"
    using all_dir_paths_right [OF assms, of "map kd_id (get_all_directories kid (kw_kb w))" "[]"] by (auto simp: paths_right_def)
  then show ?thesis
    by (simp add: build_directory_tree_def Let_def resolve_path_def resolve_dir_path_def resolve_tree [OF assms(1)])
qed


text \<open>Two directories at the root may have the same name, since the unique constraint says nothing of null parents. Then the walk takes the first and
  the tree the last of them.\<close>

definition sample_directory :: "string \<Rightarrow> string option \<Rightarrow> string \<Rightarrow> directory" where
  "sample_directory i parent name = \<lparr>kd_id = i, kd_knowledge_id = ''k1'', kd_parent_id = parent, kd_name = name, kd_user_id = ''u'', kd_created_at = 0, kd_updated_at = 0\<rparr>"

definition with_directories :: "directory list \<Rightarrow> kb_world \<Rightarrow> kb_world" where
  "with_directories ds w = w\<lparr>kw_kb := (kw_kb w)\<lparr>db_dirs := ds\<rparr>\<rparr>"

lemma same_root_names_disagree:
  "(let w = with_directories [sample_directory ''a'' None ''docs'', sample_directory ''b'' None ''docs''] sample_world
    in (resolve_dir_path (kw_kb w) ''k1'' ''docs'', map_option (resolve_path ''docs'') (case build_directory_tree sample_fs w ''k1'' of Inr t \<Rightarrow> Some t | Inl e \<Rightarrow> None))) =
   (Some ''a'', Some (Some ''b''))"
  by code_simp

definition sample_tree :: kb_world where
  "sample_tree = with_directories [sample_directory ''a'' None ''docs'', sample_directory ''b'' (Some ''a'') ''api''] sample_world"

lemma sample_tree_ok: "directories_ok ''k1'' (kw_kb sample_tree)"
proof -
  let ?a = "sample_directory ''a'' None ''docs''" and ?b = "sample_directory ''b'' (Some ''a'') ''api''"
  have dirs: "db_dirs (kw_kb sample_tree) = [?a, ?b]" by (simp add: sample_tree_def with_directories_def)
  have all: "set (get_all_directories ''k1'' (kw_kb sample_tree)) = {?a, ?b}"
    unfolding set_all_directories dirs by (auto simp: sample_directory_def)
  have "above (kw_kb sample_tree) = {(''b'', ''a'')}"
    unfolding above_def dirs by (auto simp: sample_directory_def intro!: exI [of _ ?b])
  then have "acyclic (above (kw_kb sample_tree))" by (simp add: acyclic_insert wf_acyclic)
  then have "dirs_inv False (kw_kb sample_tree)" unfolding dirs_inv_def dirs by (simp add: sample_directory_def)
  then show ?thesis unfolding directories_ok_def all by (simp add: sample_directory_def)
qed

theorem paths_agree_witness:
  "\<exists>t. build_directory_tree sample_fs sample_tree ''k1'' = Inr t \<and>
     (\<forall>path. resolve_path path t = resolve_dir_path (kw_kb sample_tree) ''k1'' path) \<and> resolve_path ''/docs/api'' t = Some ''b''"
proof -
  have "length (get_all_directories ''k1'' (kw_kb sample_tree)) \<le> fc_depth sample_fs" by code_simp
  moreover have "resolve_dir_path (kw_kb sample_tree) ''k1'' ''/docs/api'' = Some ''b''" by code_simp
  ultimately show ?thesis using paths_agree [OF sample_tree_ok, of sample_fs] by auto
qed

section \<open>The directories below one\<close>

definition child_of :: "string \<Rightarrow> kb_db \<Rightarrow> (string \<times> string) set" where
  "child_of kid db = {(kd_id d, p) | d p. d \<in> set (get_all_directories kid db) \<and> kd_parent_id d = Some p}"

lemma push_unseen_sets:
  "push_unseen cs seen queue = (seen', queue') \<Longrightarrow> set seen' = set seen \<union> set cs \<and> set queue' = set queue \<union> (set cs - set seen)"
  by (induction cs seen queue rule: push_unseen.induct) (auto split: if_splits)

lemma children_ids:
  "directories_ok kid db \<Longrightarrow> p \<noteq> [] \<Longrightarrow> set (map kd_id (get_directories kid (Some p) db)) = {c. (c, p) \<in> child_of kid db}"
  using set_directories [of kid db "Some p"] by (auto simp: child_of_def)

lemma descendants_loop_reach:
  "directories_ok kid db \<Longrightarrow> set queue \<subseteq> set seen \<Longrightarrow> [] \<notin> set seen \<Longrightarrow> \<forall>s \<in> set seen - set queue. \<forall>c. (c, s) \<in> child_of kid db \<longrightarrow> c \<in> set seen \<Longrightarrow>
    set (descendants_loop db kid seen queue) = {i. \<exists>s \<in> set seen. (i, s) \<in> (child_of kid db)\<^sup>*}"
proof (induction db kid seen queue rule: descendants_loop.induct)
  case (1 db kid seen queue)
  show ?case
  proof (cases "queue = []")
    case True
    have "i \<in> set seen" if "(i, s) \<in> (child_of kid db)\<^sup>*" "s \<in> set seen" for i s
      using that by (induction rule: converse_rtrancl_induct) (use True 1(5) in auto)
    then show ?thesis using True by (subst descendants_loop.simps) auto
  next
    case False
    define p where "p = last queue"
    obtain seen' queue' where push: "push_unseen (map kd_id (get_directories kid (Some p) db)) seen (butlast queue) = (seen', queue')" by fastforce
    have p: "p \<in> set seen" "p \<noteq> []" using last_in_set [OF False] 1(3,4) by (auto simp: p_def)
    have q: "set queue = insert p (set (butlast queue))" using False by (cases queue rule: rev_cases) (auto simp: p_def)
    define cs where "cs = {c. (c, p) \<in> child_of kid db}"
    have sets: "set seen' = set seen \<union> cs" "set queue' = set (butlast queue) \<union> (cs - set seen)"
      using push_unseen_sets [OF push] children_ids [OF 1(2) p(2)] by (auto simp: cs_def)
    have "c \<noteq> []" if "c \<in> cs" for c using that ok_id [OF 1(2)] by (auto simp only: cs_def child_of_def mem_Collect_eq prod.inject)
    then have "[] \<notin> cs" by blast
    have sub: "set queue' \<subseteq> set seen'" using q sets 1(3) by blast
    have ne: "[] \<notin> set seen'" using sets(1) 1(4) \<open>[] \<notin> cs\<close> by blast
    have closed: "\<forall>s \<in> set seen' - set queue'. \<forall>c. (c, s) \<in> child_of kid db \<longrightarrow> c \<in> set seen'"
    proof (intro ballI allI impI)
      fix s c assume s: "s \<in> set seen' - set queue'" and c: "(c, s) \<in> child_of kid db"
      show "c \<in> set seen'"
      proof (cases "s = p")
        case False
        then have "s \<in> set seen - set queue" using s q sets by blast
        then show ?thesis using 1(5) c sets(1) by blast
      qed (use c sets(1) in \<open>simp add: cs_def\<close>)
    qed
    have "set (descendants_loop db kid seen' queue') = {i. \<exists>s \<in> set seen'. (i, s) \<in> (child_of kid db)\<^sup>*}"
      by (rule 1(1) [OF False push [symmetric, unfolded p_def] 1(2) sub ne closed])
    also have "\<dots> = {i. \<exists>s \<in> set seen. (i, s) \<in> (child_of kid db)\<^sup>*}"
      using p(1) by (auto simp: sets cs_def intro: rtrancl_into_rtrancl)
    finally show ?thesis using False by (subst descendants_loop.simps) (simp add: p_def [symmetric] push)
  qed
qed

lemma named_child: "named kid db d ns \<Longrightarrow> (i, kd_id d) \<in> (child_of kid db)\<^sup>* \<Longrightarrow> directories_ok kid db \<Longrightarrow>
    \<exists>e ms. kd_id e = i \<and> named kid db e (ns @ ms)"
proof (rotate_tac 1, induction rule: converse_rtrancl_induct)
  case base
  then show ?case by (intro exI [of _ d] exI [of _ "[]"]) simp
next
  case (step c p)
  then obtain e ms where e: "kd_id e = p" "named kid db e (ns @ ms)" by blast
  from step(1) obtain f where f: "kd_id f = c" "f \<in> set (get_all_directories kid db)" "kd_parent_id f = Some p" by (auto simp: child_of_def)
  from named.child [OF e(2) f(2)] e(1) f show ?case by (intro exI [of _ f] exI [of _ "ms @ [kd_name f]"]) simp
qed

lemma named_below:
  assumes ok: "directories_ok kid db" and d: "named kid db d ns"
  shows "named kid db e ks \<Longrightarrow> ks = ns @ ms \<Longrightarrow> (kd_id e, kd_id d) \<in> (child_of kid db)\<^sup>*"
proof (induction arbitrary: ms rule: named.induct)
  case (root e)
  then have "ns @ ms = [kd_name e]" by simp
  then have "ns = [kd_name e]" using named_dir [OF d] by (cases ns) auto
  then have "named kid db e ns" using named.root [OF root.hyps] by simp
  then have "walk_dirs db kid None ns = Some (kd_id d)" "walk_dirs db kid None ns = Some (kd_id e)" using walk_iff [OF ok] d by blast+
  then show ?case by simp
next
  case (child p ks e)
  show ?case
  proof (cases ms rule: rev_cases)
    case Nil
    then have "named kid db e ns" using named.child [OF child.hyps] child.prems by simp
    then have "walk_dirs db kid None ns = Some (kd_id d)" "walk_dirs db kid None ns = Some (kd_id e)" using walk_iff [OF ok] d by blast+
    then show ?thesis by simp
  next
    case (snoc ms' n)
    then have "(kd_id p, kd_id d) \<in> (child_of kid db)\<^sup>*" using child.prems by (intro child.IH [of ms']) simp
    moreover have "(kd_id e, kd_id p) \<in> child_of kid db" using child.hyps by (auto simp: child_of_def)
    ultimately show ?thesis by (rule converse_rtrancl_into_rtrancl [rotated])
  qed
qed

text \<open>C40. Where the directories of a knowledge base form a forest whose siblings have different names without slashes, the search below
  a directory ends and covers exactly the directories whose path begins with the path of the directory.\<close>
theorem descendants_exact:
  assumes "directories_ok kid db" "named kid db d ns"
  shows "set (get_descendant_dir_ids db (kd_id d) kid) = {kd_id e | e ms. named kid db e (ns @ ms)}"
proof -
  have "kd_id d \<noteq> []" using ok_id [OF assms(1)] named_dir [OF assms(2)] by blast
  then have "set (get_descendant_dir_ids db (kd_id d) kid) = {i. (i, kd_id d) \<in> (child_of kid db)\<^sup>*}"
    using descendants_loop_reach [OF assms(1), of "[kd_id d]" "[kd_id d]"] by (auto simp: get_descendant_dir_ids_def)
  also have "\<dots> = {kd_id e | e ms. named kid db e (ns @ ms)}"
    using named_child [OF assms(2) _ assms(1)] named_below [OF assms] by blast
  finally show ?thesis .
qed

theorem descendants_exact_witness:
  "set (get_descendant_dir_ids (kw_kb sample_tree) ''a'' ''k1'') = {kd_id e | e ms. named ''k1'' (kw_kb sample_tree) e ([''docs''] @ ms)} \<and>
   set (get_descendant_dir_ids (kw_kb sample_tree) ''a'' ''k1'') = {''a'', ''b''}"
proof -
  have "named ''k1'' (kw_kb sample_tree) (sample_directory ''a'' None ''docs'') [''docs'']"
    unfolding named_root by (simp add: set_all_directories sample_tree_def with_directories_def sample_directory_def)
  from descendants_exact [OF sample_tree_ok this]
  have "set (get_descendant_dir_ids (kw_kb sample_tree) ''a'' ''k1'') = {kd_id e | e ms. named ''k1'' (kw_kb sample_tree) e ([''docs''] @ ms)}"
    by (simp add: sample_directory_def)
  moreover have "get_descendant_dir_ids (kw_kb sample_tree) ''a'' ''k1'' = [''b'', ''a'']" by code_simp
  moreover have "set [''b'', ''a''] = {''a'', ''b''}" by auto
  ultimately show ?thesis by metis
qed

end
