(* ===== verification/ChatMessages.thy ===== *)
theory ChatMessages
  imports ChatHistory Usage
begin

text \<open>
  The messages of chats as rows of their own, \<open>ChatMessageTable\<close> of \<open>backend/open_webui/models/chat_messages.py\<close>: they are written beside
  the history in the JSON of the chat and read back as a dictionary of the same shape. A column holds what is written to it, and
  \<open>None\<close> where nothing is; a column of text holds a text or \<open>None\<close>. Arguments stand for the database and for \<open>pydantic\<close>: \<open>accepts\<close> says
  whether a row may be stored (required columns, types, references) and \<open>valid\<close> whether it passes as a \<open>ChatMessageModel\<close>.
\<close>

section \<open>Rows\<close>

record message_row =
  cm_id :: string
  cm_chat_id :: string
  cm_user_id :: string
  cm_role :: pyval
  cm_parent_id :: pyval
  cm_content :: pyval
  cm_output :: pyval
  cm_model_id :: pyval
  cm_files :: pyval
  cm_sources :: pyval
  cm_embeds :: pyval
  cm_meta :: pyval
  cm_done :: pyval
  cm_status_history :: pyval
  cm_error :: pyval
  cm_usage :: pyval
  cm_context_summary :: pyval
  cm_created_at :: pyval
  cm_updated_at :: int

text \<open>What a table of messages asks of a row.\<close>

record message_checks =
  mc_accepts :: "message_row \<Rightarrow> bool"
  mc_valid :: "message_row \<Rightarrow> bool"

section \<open>Writing\<close>

definition usage_value :: "pyval \<Rightarrow> dict result" where
  "usage_value u = (case u of VDict d \<Rightarrow> normalize_usage d | _ \<Rightarrow> Inl AttributeError)"

definition get_usage :: "dict \<Rightarrow> dict option result" where
  "get_usage data =
     rbind (if truthy (vget data ''usage'') then Inr (vget data ''usage'')
            else py_get (py_or (vget data ''info'') (VDict [])) ''usage'') (\<lambda>usage.
       if truthy usage then rbind (usage_value usage) (\<lambda>u. Inr (Some u)) else Inr None)"

definition either_key :: "dict \<Rightarrow> string \<Rightarrow> string \<Rightarrow> pyval" where
  "either_key data k k' = py_or (vget data k) (vget data k')"

definition has_key :: "dict \<Rightarrow> string \<Rightarrow> bool" where
  "has_key data k \<longleftrightarrow> k \<in> fst ` set data"

text \<open>The columns of which the data have a key, the others as they were.\<close>

definition updated_columns :: "dict \<Rightarrow> message_row \<Rightarrow> message_row" where
  "updated_columns data r = r\<lparr>
     cm_role := if has_key data ''role'' then vget data ''role'' else cm_role r,
     cm_parent_id := if has_key data ''parent_id'' \<or> has_key data ''parentId'' then either_key data ''parent_id'' ''parentId'' else cm_parent_id r,
     cm_content := if has_key data ''content'' then vget data ''content'' else cm_content r,
     cm_output := if has_key data ''output'' then vget data ''output'' else cm_output r,
     cm_model_id := if has_key data ''model_id'' \<or> has_key data ''model'' then either_key data ''model_id'' ''model'' else cm_model_id r,
     cm_files := if has_key data ''files'' then vget data ''files'' else cm_files r,
     cm_sources := if has_key data ''sources'' then vget data ''sources'' else cm_sources r,
     cm_embeds := if has_key data ''embeds'' then vget data ''embeds'' else cm_embeds r,
     cm_meta := if has_key data ''meta'' then vget data ''meta'' else cm_meta r,
     cm_done := if has_key data ''done'' then vget data ''done'' else cm_done r,
     cm_status_history := if has_key data ''status_history'' \<or> has_key data ''statusHistory''
        then either_key data ''status_history'' ''statusHistory'' else cm_status_history r,
     cm_error := if has_key data ''error'' then vget data ''error'' else cm_error r,
     cm_context_summary := if has_key data ''context_summary'' \<or> has_key data ''contextSummary''
        then either_key data ''context_summary'' ''contextSummary'' else cm_context_summary r\<rparr>"

text \<open>Other usage than the row has is added to it.\<close>

definition added_usage :: "pyval \<Rightarrow> dict option \<Rightarrow> pyval result" where
  "added_usage old usage =
     (case usage of
        None \<Rightarrow> Inr old
      | Some u \<Rightarrow>
          rbind (if truthy old then usage_value old else Inr []) (\<lambda>e.
            if py_eq (VDict u) (VDict e) then Inr (VDict e) else rbind (merge_usage e u) (\<lambda>m. Inr (VDict m))))"

definition updated_message :: "int \<Rightarrow> dict \<Rightarrow> message_row \<Rightarrow> message_row result" where
  "updated_message now data r =
     rbind (get_usage data) (\<lambda>usage. rbind (added_usage (cm_usage r) usage) (\<lambda>u.
       Inr ((updated_columns data r)\<lparr>cm_usage := u, cm_updated_at := now\<rparr>)))"

definition composite_id :: "string \<Rightarrow> string \<Rightarrow> string" where
  "composite_id cid mid = cid @ ''-'' @ mid"

definition inserted_message :: "int \<Rightarrow> string \<Rightarrow> string \<Rightarrow> string \<Rightarrow> dict \<Rightarrow> message_row result" where
  "inserted_message now mid cid uid data =
     rbind (get_usage data) (\<lambda>usage. Inr
       \<lparr>cm_id = composite_id cid mid, cm_chat_id = cid, cm_user_id = uid, cm_role = dget_or data ''role'' (VStr ''user''),
        cm_parent_id = either_key data ''parent_id'' ''parentId'', cm_content = vget data ''content'', cm_output = vget data ''output'',
        cm_model_id = either_key data ''model_id'' ''model'', cm_files = vget data ''files'', cm_sources = vget data ''sources'',
        cm_embeds = vget data ''embeds'', cm_meta = vget data ''meta'', cm_done = dget_or data ''done'' (VBool True),
        cm_status_history = either_key data ''status_history'' ''statusHistory'', cm_error = vget data ''error'',
        cm_usage = (case usage of None \<Rightarrow> VNone | Some u \<Rightarrow> VDict u),
        cm_context_summary = either_key data ''context_summary'' ''contextSummary'',
        cm_created_at = dget_or data ''timestamp'' (VInt now), cm_updated_at = now\<rparr>)"

text \<open>A row is committed before the model is made of it.\<close>

definition committed :: "message_checks \<Rightarrow> message_row \<Rightarrow> message_row list \<Rightarrow> message_row list \<Rightarrow> message_row result \<times> message_row list" where
  "committed mc r rows' rows =
     (if \<not> mc_accepts mc r then (Inl IntegrityError, rows)
      else if mc_valid mc r then (Inr r, rows') else (Inl (ValueError ''ChatMessageModel''), rows'))"

definition find_message :: "string \<Rightarrow> message_row list \<Rightarrow> message_row option" where
  "find_message i rows = List.find (\<lambda>r. cm_id r = i) rows"

definition upsert_message ::
    "message_checks \<Rightarrow> int \<Rightarrow> string \<Rightarrow> string \<Rightarrow> string \<Rightarrow> dict \<Rightarrow> message_row list \<Rightarrow> message_row result \<times> message_row list" where
  "upsert_message mc now mid cid uid data rows =
     (case find_message (composite_id cid mid) rows of
        Some old \<Rightarrow>
          (case updated_message now data old of
             Inl e \<Rightarrow> (Inl e, rows)
           | Inr r \<Rightarrow> committed mc r (map (\<lambda>q. if cm_id q = cm_id r then r else q) rows) rows)
      | None \<Rightarrow>
          (case inserted_message now mid cid uid data of
             Inl e \<Rightarrow> (Inl e, rows)
           | Inr r \<Rightarrow> committed mc r (rows @ [r]) rows))"

definition delete_messages_by_chat_id :: "string \<Rightarrow> message_row list \<Rightarrow> message_row list" where
  "delete_messages_by_chat_id cid rows = filter (\<lambda>r. cm_chat_id r \<noteq> cid) rows"

definition delete_message_ids_by_chat_id :: "string \<Rightarrow> string set \<Rightarrow> message_row list \<Rightarrow> message_row list" where
  "delete_message_ids_by_chat_id cid mids rows =
     filter (\<lambda>r. \<not> (cm_chat_id r = cid \<and> cm_id r \<in> composite_id cid ` mids)) rows"

section \<open>Reading\<close>

definition get_message_by_id :: "string \<Rightarrow> message_row list \<Rightarrow> message_row option" where
  "get_message_by_id i rows = find_message i rows"

definition messages_of_chat :: "string \<Rightarrow> message_row list \<Rightarrow> message_row list" where
  "messages_of_chat cid rows = filter (\<lambda>r. cm_chat_id r = cid) rows"

definition unfinished :: "message_row \<Rightarrow> bool" where
  "unfinished r \<longleftrightarrow> cm_role r = VStr ''assistant'' \<and> cm_done r = VBool False"

definition has_unfinished_assistant_by_chat_id :: "string \<Rightarrow> message_row list \<Rightarrow> bool" where
  "has_unfinished_assistant_by_chat_id cid rows \<longleftrightarrow> list_ex unfinished (messages_of_chat cid rows)"

text \<open>The columns that are not internal, in their order and under the keys of the JSON.\<close>

definition columns_of :: "message_row \<Rightarrow> dict" where
  "columns_of r =
     [(''role'', cm_role r), (''parentId'', cm_parent_id r), (''content'', cm_content r), (''output'', cm_output r),
      (''model'', cm_model_id r), (''files'', cm_files r), (''sources'', cm_sources r), (''embeds'', cm_embeds r), (''meta'', cm_meta r),
      (''done'', cm_done r), (''statusHistory'', cm_status_history r), (''error'', cm_error r), (''usage'', cm_usage r),
      (''contextSummary'', cm_context_summary r), (''timestamp'', cm_created_at r)]"

definition message_of_row :: "string \<Rightarrow> message_row \<Rightarrow> dict" where
  "message_of_row mid r =
     (let msg = (''id'', VStr mid) # filter (\<lambda>(k, v). v \<noteq> VNone) (columns_of r);
          msg1 = (if has_key msg ''content'' then msg else dset msg ''content'' (VStr []))
      in if has_key msg1 ''usage'' then dset msg1 ''info'' (VDict [(''usage'', vget msg1 ''usage'')]) else msg1)"

definition original_id :: "string \<Rightarrow> string \<Rightarrow> string" where
  "original_id cid i = (if prefix (composite_id cid []) i then drop (length (composite_id cid [])) i else i)"

definition rows_as_messages :: "string \<Rightarrow> message_row list \<Rightarrow> messages" where
  "rows_as_messages cid rows =
     foldl (\<lambda>ms r. let mid = original_id cid (cm_id r) in dset ms mid (message_of_row mid r)) [] rows"

text \<open>The children of a message are those that name it as their parent.\<close>

definition add_child :: "string \<Rightarrow> dict \<Rightarrow> dict" where
  "add_child i parent =
     (case dget parent ''childrenIds'' of
        None \<Rightarrow> dset parent ''childrenIds'' (VList [VStr i])
      | Some (VList xs) \<Rightarrow> if VStr i \<in> set xs then parent else dset parent ''childrenIds'' (VList (xs @ [VStr i]))
      | Some v \<Rightarrow> parent)"

fun link_parents :: "(string \<times> dict) list \<Rightarrow> messages \<Rightarrow> messages" where
  "link_parents [] ms = ms"
| "link_parents ((i, msg) # rest) ms =
     link_parents rest
       (case vget msg ''parentId'' of
          VStr p \<Rightarrow> (if p = [] then ms else case dget ms p of None \<Rightarrow> ms | Some parent \<Rightarrow> dset ms p (add_child i parent))
        | _ \<Rightarrow> ms)"

definition row_messages_map :: "string \<Rightarrow> message_row list \<Rightarrow> messages option" where
  "row_messages_map cid rows =
     (let mine = messages_of_chat cid rows; ms = rows_as_messages cid mine
      in if mine = [] then None
         else Some (map (\<lambda>(i, m). (i, if has_key m ''childrenIds'' then m else dset m ''childrenIds'' (VList []))) (link_parents ms ms)))"

text \<open>Rows of one chat in the order of their timestamps, those without one first.\<close>

definition timestamp :: "message_row \<Rightarrow> int" where
  "timestamp r = (case cm_created_at r of VInt n \<Rightarrow> n | _ \<Rightarrow> 0)"

definition get_messages_by_chat_id :: "string \<Rightarrow> message_row list \<Rightarrow> message_row list" where
  "get_messages_by_chat_id cid rows = sort_key timestamp (messages_of_chat cid rows)"

definition get_messages_by_user_id :: "string \<Rightarrow> nat \<Rightarrow> nat \<Rightarrow> message_row list \<Rightarrow> message_row list" where
  "get_messages_by_user_id uid skip limit rows =
     paginate (Some skip) (Some limit) (order_desc timestamp (filter (\<lambda>r. cm_user_id r = uid) rows))"

text \<open>A bound that is missing or zero is no bound.\<close>

definition in_range :: "int option \<Rightarrow> int option \<Rightarrow> message_row \<Rightarrow> bool" where
  "in_range start stop r \<longleftrightarrow>
     (case start of None \<Rightarrow> True | Some s \<Rightarrow> s = 0 \<or> (cm_created_at r \<noteq> VNone \<and> s \<le> timestamp r)) \<and>
     (case stop of None \<Rightarrow> True | Some s \<Rightarrow> s = 0 \<or> (cm_created_at r \<noteq> VNone \<and> timestamp r \<le> s))"

definition get_messages_by_model_id :: "string \<Rightarrow> int option \<Rightarrow> int option \<Rightarrow> nat \<Rightarrow> nat \<Rightarrow> message_row list \<Rightarrow> message_row list" where
  "get_messages_by_model_id model start stop skip limit rows =
     paginate (Some skip) (Some limit)
       (order_desc timestamp (filter (\<lambda>r. cm_model_id r = VStr model \<and> in_range start stop r) rows))"

text \<open>The chats with messages of a model, the one with the latest first.\<close>

definition last_message_at :: "message_row list \<Rightarrow> string \<Rightarrow> int" where
  "last_message_at rows cid = Max (timestamp ` set (messages_of_chat cid rows))"

definition get_chat_ids_by_model_id :: "string \<Rightarrow> int option \<Rightarrow> int option \<Rightarrow> nat \<Rightarrow> nat \<Rightarrow> message_row list \<Rightarrow> string list" where
  "get_chat_ids_by_model_id model start stop skip limit rows =
     (let hits = filter (\<lambda>r. cm_model_id r = VStr model \<and> in_range start stop r) rows
      in paginate (Some skip) (Some limit) (order_desc (last_message_at hits) (sort (remdups (map cm_chat_id hits)))))"

section \<open>Counting\<close>

text \<open>
  What the database computes on JSON: the integer at a key of the usage, if there is one, and whether a value is stored as \<open>NULL\<close>. Groups
  are listed in the order of their first row; the code puts them into a dictionary.
\<close>

record count_sql =
  cs_cast :: "pyval \<Rightarrow> int option"
  cs_null :: "pyval \<Rightarrow> bool"

definition firsts :: "'k list \<Rightarrow> 'k list" where
  "firsts xs = rev (remdups (rev xs))"

definition count_by :: "(message_row \<Rightarrow> 'k) \<Rightarrow> message_row list \<Rightarrow> ('k \<times> nat) list" where
  "count_by f rows = map (\<lambda>k. (k, length (filter (\<lambda>r. f r = k) rows))) (firsts (map f rows))"

definition in_group :: "group_db \<Rightarrow> string option \<Rightarrow> message_row \<Rightarrow> bool" where
  "in_group gdb gid r \<longleftrightarrow> (given gid \<longrightarrow> list_ex (\<lambda>m. gm_group_id m = the gid \<and> gm_user_id m = cm_user_id r) (db_members gdb))"

definition answers :: "group_db \<Rightarrow> int option \<Rightarrow> int option \<Rightarrow> string option \<Rightarrow> message_row list \<Rightarrow> message_row list" where
  "answers gdb start stop gid rows =
     filter (\<lambda>r. cm_role r = VStr ''assistant'' \<and> in_range start stop r \<and> in_group gdb gid r) rows"

definition with_model :: "message_row list \<Rightarrow> message_row list" where
  "with_model rows = filter (\<lambda>r. cm_model_id r \<noteq> VNone) rows"

definition get_message_count_by_model :: "group_db \<Rightarrow> int option \<Rightarrow> int option \<Rightarrow> string option \<Rightarrow> message_row list \<Rightarrow> (pyval \<times> nat) list" where
  "get_message_count_by_model gdb start stop gid rows = count_by cm_model_id (with_model (answers gdb start stop gid rows))"

definition get_message_count_by_user :: "group_db \<Rightarrow> int option \<Rightarrow> int option \<Rightarrow> string option \<Rightarrow> message_row list \<Rightarrow> (string \<times> nat) list" where
  "get_message_count_by_user gdb start stop gid rows = count_by cm_user_id (answers gdb start stop gid rows)"

definition get_message_count_by_chat :: "group_db \<Rightarrow> int option \<Rightarrow> int option \<Rightarrow> string option \<Rightarrow> message_row list \<Rightarrow> (string \<times> nat) list" where
  "get_message_count_by_chat gdb start stop gid rows = count_by cm_chat_id (answers gdb start stop gid rows)"

text \<open>For every model the numbers of its users and of its chats.\<close>

definition get_unique_counts_by_model ::
    "group_db \<Rightarrow> int option \<Rightarrow> int option \<Rightarrow> string option \<Rightarrow> message_row list \<Rightarrow> (pyval \<times> nat \<times> nat) list" where
  "get_unique_counts_by_model gdb start stop gid rows =
     (let hits = with_model (answers gdb start stop gid rows)
      in map (\<lambda>m. let mine = filter (\<lambda>r. cm_model_id r = m) hits
              in (m, length (remdups (map cm_user_id mine)), length (remdups (map cm_chat_id mine)))) (firsts (map cm_model_id hits)))"

definition token_column :: "count_sql \<Rightarrow> string \<Rightarrow> string \<Rightarrow> message_row \<Rightarrow> int" where
  "token_column sql k k' r =
     (case cm_usage r of
        VDict u \<Rightarrow> (case cs_cast sql (vget u k) of Some n \<Rightarrow> n | None \<Rightarrow> (case cs_cast sql (vget u k') of Some n \<Rightarrow> n | None \<Rightarrow> 0))
      | _ \<Rightarrow> 0)"

definition input_tokens :: "count_sql \<Rightarrow> message_row list \<Rightarrow> int" where
  "input_tokens sql rows = sum_list (map (token_column sql ''input_tokens'' ''prompt_tokens'') rows)"

definition output_tokens :: "count_sql \<Rightarrow> message_row list \<Rightarrow> int" where
  "output_tokens sql rows = sum_list (map (token_column sql ''output_tokens'' ''completion_tokens'') rows)"

record token_totals =
  tt_input :: int
  tt_output :: int
  tt_total :: int
  tt_messages :: nat

definition token_totals_of :: "count_sql \<Rightarrow> message_row list \<Rightarrow> token_totals" where
  "token_totals_of sql rows =
     \<lparr>tt_input = input_tokens sql rows, tt_output = output_tokens sql rows,
      tt_total = input_tokens sql rows + output_tokens sql rows, tt_messages = length rows\<rparr>"

definition totals_by :: "count_sql \<Rightarrow> (message_row \<Rightarrow> 'k) \<Rightarrow> message_row list \<Rightarrow> ('k \<times> token_totals) list" where
  "totals_by sql f rows = map (\<lambda>k. (k, token_totals_of sql (filter (\<lambda>r. f r = k) rows))) (firsts (map f rows))"

definition with_usage :: "count_sql \<Rightarrow> message_row list \<Rightarrow> message_row list" where
  "with_usage sql rows = filter (\<lambda>r. \<not> cs_null sql (cm_usage r)) rows"

definition get_token_usage_by_model ::
    "count_sql \<Rightarrow> group_db \<Rightarrow> int option \<Rightarrow> int option \<Rightarrow> string option \<Rightarrow> message_row list \<Rightarrow> (pyval \<times> token_totals) list" where
  "get_token_usage_by_model sql gdb start stop gid rows =
     totals_by sql cm_model_id (with_usage sql (with_model (answers gdb start stop gid rows)))"

definition get_token_usage_by_user ::
    "count_sql \<Rightarrow> group_db \<Rightarrow> int option \<Rightarrow> int option \<Rightarrow> string option \<Rightarrow> message_row list \<Rightarrow> (string \<times> token_totals) list" where
  "get_token_usage_by_user sql gdb start stop gid rows =
     totals_by sql cm_user_id (with_usage sql (answers gdb start stop gid rows))"

record usage_summary =
  us_messages :: nat
  us_user_messages :: nat
  us_assistant_messages :: nat
  us_input :: int
  us_output :: int
  us_total :: int
  us_models_used :: nat
  us_active_days :: nat

text \<open>\<open>day\<close> is the date of a timestamp in the time zone asked for.\<close>

definition get_user_usage_summary ::
    "count_sql \<Rightarrow> (pyval \<Rightarrow> string) \<Rightarrow> string \<Rightarrow> int option \<Rightarrow> int option \<Rightarrow> bool \<Rightarrow> message_row list \<Rightarrow> usage_summary" where
  "get_user_usage_summary sql day uid start stop include_active_days rows =
     (let mine = filter (\<lambda>r. cm_user_id r = uid \<and> in_range start stop r) rows;
          answered = filter (\<lambda>r. cm_role r = VStr ''assistant'') mine;
          used = with_usage sql answered
      in \<lparr>us_messages = length mine, us_user_messages = length (filter (\<lambda>r. cm_role r = VStr ''user'') mine),
          us_assistant_messages = length answered, us_input = input_tokens sql used, us_output = output_tokens sql used,
          us_total = input_tokens sql used + output_tokens sql used, us_models_used = length (remdups (map cm_model_id (with_model answered))),
          us_active_days = (if include_active_days then length (remdups (map (\<lambda>r. day (cm_created_at r)) mine)) else 0)\<rparr>)"

definition get_user_first_message_created_at :: "string \<Rightarrow> message_row list \<Rightarrow> int option" where
  "get_user_first_message_created_at uid rows =
     (let times = map timestamp (filter (\<lambda>r. cm_user_id r = uid \<and> cm_created_at r \<noteq> VNone) rows)
      in if times = [] \<or> Min (set times) = 0 then None else Some (Min (set times)))"

text \<open>The models with the most messages of a user; those with as many keep the order of their groups.\<close>

definition between :: "int \<Rightarrow> int \<Rightarrow> message_row \<Rightarrow> bool" where
  "between start stop r \<longleftrightarrow> cm_created_at r \<noteq> VNone \<and> start \<le> timestamp r \<and> timestamp r \<le> stop"

definition get_user_top_models :: "count_sql \<Rightarrow> string \<Rightarrow> int \<Rightarrow> int \<Rightarrow> nat \<Rightarrow> message_row list \<Rightarrow> (pyval \<times> token_totals) list" where
  "get_user_top_models sql uid start stop limit rows =
     take limit (order_desc (\<lambda>(m, t). int (tt_messages t)) (totals_by sql cm_model_id
       (with_model (filter (\<lambda>r. cm_user_id r = uid \<and> cm_role r = VStr ''assistant'' \<and> between start stop r) rows))))"

text \<open>The counts of all groups make up the rows that are counted.\<close>

lemma set_firsts [simp]: "set (firsts xs) = set xs" "distinct (firsts xs)"
  by (simp_all add: firsts_def)

lemma count_by_total: "sum_list (map snd (count_by f rows)) = length rows"
proof -
  have "sum_list (map snd (count_by f rows)) = (\<Sum>k \<in> f ` set rows. length (filter (\<lambda>r. f r = k) rows))"
    by (simp add: count_by_def comp_def sum_list_distinct_conv_sum_set)
  also have "\<dots> = length rows"
  proof (induction rows)
    case (Cons r rows)
    have "(\<Sum>k \<in> f ` set (r # rows). length (filter (\<lambda>s. f s = k) (r # rows))) =
        (\<Sum>k \<in> insert (f r) (f ` set rows). (if k = f r then 1 else 0) + length (filter (\<lambda>s. f s = k) rows))"
      by (intro sum.cong) auto
    also have "\<dots> = 1 + (\<Sum>k \<in> insert (f r) (f ` set rows). length (filter (\<lambda>s. f s = k) rows))"
      by (simp add: sum.distrib)
    also have "(\<Sum>k \<in> insert (f r) (f ` set rows). length (filter (\<lambda>s. f s = k) rows)) = (\<Sum>k \<in> f ` set rows. length (filter (\<lambda>s. f s = k) rows))"
      by (cases "f r \<in> f ` set rows") (auto simp: insert_absorb filter_empty_conv image_iff)
    finally show ?case using Cons.IH by simp
  qed simp
  finally show ?thesis .
qed

section \<open>Names of tools\<close>

definition tool_name :: "pyval \<Rightarrow> string list" where
  "tool_name v = (case v of VStr s \<Rightarrow> (let t = py_strip s in if t \<noteq> [] \<and> length t \<le> 128 then [t] else []) | _ \<Rightarrow> [])"

definition looks_like_tool :: "dict \<Rightarrow> bool" where
  "looks_like_tool d \<longleftrightarrow>
     (let t = py_str (py_or (vget d ''type'') (VStr [])) in sublist ''tool'' t \<or> t \<in> {''function_call'', ''function_call_output''})"

definition own_tool_names :: "dict \<Rightarrow> string list" where
  "own_tool_names d =
     (if looks_like_tool d
      then tool_name (py_or (vget d ''name'') (vget d ''tool_name'')) @
           (case vget d ''function'' of VDict f \<Rightarrow> tool_name (vget f ''name'') | _ \<Rightarrow> [])
      else [])"

lemma vget_size: "size (vget d k) < size (VDict d)"
  using dget_size [of d k] by (auto simp: vget_def split: option.splits)

function extract_tool_names :: "pyval \<Rightarrow> string list" where
  "extract_tool_names (VList xs) = concat (map extract_tool_names xs)"
| "extract_tool_names (VDict d) =
     own_tool_names d @ extract_tool_names (vget d ''tool_calls'') @ extract_tool_names (vget d ''tools'') @
     extract_tool_names (vget d ''output'') @ extract_tool_names (vget d ''meta'')"
| "extract_tool_names VNone = []"
| "extract_tool_names (VBool b) = []"
| "extract_tool_names (VInt i) = []"
| "extract_tool_names (VStr s) = []"
  by pat_completeness auto

termination
  by (relation "measure size") (use vget_size in \<open>auto simp: less_Suc_eq_le dest: size_list_estimation'\<close>)

definition get_user_top_tools :: "string \<Rightarrow> int \<Rightarrow> int \<Rightarrow> nat \<Rightarrow> message_row list \<Rightarrow> (string \<times> nat) list" where
  "get_user_top_tools uid start stop limit rows =
     (let names = concat (map (\<lambda>r. extract_tool_names (cm_output r) @ extract_tool_names (cm_meta r))
            (filter (\<lambda>r. cm_user_id r = uid \<and> between start stop r) rows));
          counts = map (\<lambda>n. (n, length (filter (\<lambda>m. m = n) names))) (firsts names)
      in take limit (order_desc (\<lambda>(n, k). int k) counts))"

section \<open>Keeping the rows in step with the history\<close>

text \<open>\<open>ChatTable.backfill_messages_by_chat_id\<close>: the messages with a role; an error leaves out its message only.\<close>

definition backfill_message :: "message_checks \<Rightarrow> int \<Rightarrow> string \<Rightarrow> string \<Rightarrow> string \<times> pyval \<Rightarrow> message_row list \<Rightarrow> message_row list" where
  "backfill_message mc now cid uid kv rows =
     (case snd kv of
        VDict d \<Rightarrow> (if truthy (vget d ''role'') then snd (upsert_message mc now (fst kv) cid uid d rows) else rows)
      | _ \<Rightarrow> rows)"

definition backfill_messages_by_chat_id :: "message_checks \<Rightarrow> int \<Rightarrow> string \<Rightarrow> string \<Rightarrow> dict \<Rightarrow> message_row list \<Rightarrow> message_row list" where
  "backfill_messages_by_chat_id mc now cid uid ms rows = fold (backfill_message mc now cid uid) ms rows"

section \<open>What is stored is read back\<close>

lemma original_composite [simp]: "original_id cid (composite_id cid mid) = mid"
  by (simp add: original_id_def composite_id_def)

lemma composite_eq [simp]: "composite_id cid i = composite_id cid j \<longleftrightarrow> i = j"
  by (simp add: composite_id_def)

text \<open>A message that can be stored under an id.\<close>

definition storable :: "message_checks \<Rightarrow> int \<Rightarrow> string \<Rightarrow> string \<Rightarrow> string \<Rightarrow> dict \<Rightarrow> bool" where
  "storable mc now cid uid i d \<longleftrightarrow> truthy (vget d ''role'') \<and>
     (case inserted_message now i cid uid d of Inl e \<Rightarrow> False | Inr r \<Rightarrow> mc_accepts mc r)"

definition row_of :: "int \<Rightarrow> string \<Rightarrow> string \<Rightarrow> string \<times> dict \<Rightarrow> message_row" where
  "row_of now cid uid kv = projr (inserted_message now (fst kv) cid uid (snd kv))"

lemma inserted_ids: "inserted_message now i cid uid d = Inr r \<Longrightarrow> cm_id r = composite_id cid i \<and> cm_chat_id r = cid \<and> cm_user_id r = uid"
  by (auto simp: inserted_message_def rbind_Inr_iff)

lemma storable_row:
  "storable mc now cid uid i d \<Longrightarrow> inserted_message now i cid uid d = Inr (row_of now cid uid (i, d)) \<and> mc_accepts mc (row_of now cid uid (i, d))"
  by (auto simp: storable_def row_of_def split: sum.splits)

lemma row_of_ids:
  "storable mc now cid uid i d \<Longrightarrow> cm_id (row_of now cid uid (i, d)) = composite_id cid i \<and> cm_chat_id (row_of now cid uid (i, d)) = cid"
  using storable_row inserted_ids by blast

lemma find_message_None: "find_message i rows = None \<longleftrightarrow> i \<notin> cm_id ` set rows"
  by (auto simp: find_message_def find_None_iff)

lemma backfill_message_new:
  "storable mc now cid uid i d \<Longrightarrow> composite_id cid i \<notin> cm_id ` set rows \<Longrightarrow>
     backfill_message mc now cid uid (i, VDict d) rows = rows @ [row_of now cid uid (i, d)]"
  using storable_row [of mc now cid uid i d]
  by (simp add: backfill_message_def upsert_message_def find_message_None [THEN iffD2] committed_def storable_def)

lemma backfill_new:
  assumes "wf_dict ms" "\<And>i d. (i, d) \<in> set ms \<Longrightarrow> storable mc now cid uid i d" "composite_id cid ` fst ` set ms \<inter> cm_id ` set rows = {}"
  shows "backfill_messages_by_chat_id mc now cid uid (map (\<lambda>(i, d). (i, VDict d)) ms) rows = rows @ map (row_of now cid uid) ms"
  using assms unfolding backfill_messages_by_chat_id_def
proof (induction ms arbitrary: rows)
  case (Cons kv ms)
  obtain i d where kv: "kv = (i, d)" by (cases kv)
  have st: "storable mc now cid uid i d" using Cons.prems(2) kv by simp
  have step: "backfill_message mc now cid uid (i, VDict d) rows = rows @ [row_of now cid uid (i, d)]"
    using Cons.prems(3) kv by (intro backfill_message_new [OF st]) auto
  have "composite_id cid ` fst ` set ms \<inter> cm_id ` set (rows @ [row_of now cid uid (i, d)]) = {}"
    using Cons.prems(1, 3) kv row_of_ids [OF st] by (auto simp: image_iff)
  then show ?case using Cons.IH [of "rows @ [row_of now cid uid (i, d)]"] Cons.prems(1, 2) kv step by simp
qed simp

text \<open>The messages of rows with different ids.\<close>

lemma foldl_dset_new:
  "distinct (map f xs) \<Longrightarrow> f ` set xs \<inter> fst ` set d = {} \<Longrightarrow> foldl (\<lambda>d x. dset d (f x) (g x)) d xs = d @ map (\<lambda>x. (f x, g x)) xs"
proof (induction xs arbitrary: d)
  case (Cons x xs)
  have "dset d (f x) (g x) = d @ [(f x, g x)]" using Cons.prems(2) by (intro dset_fresh) (auto simp: dget_None_iff)
  then show ?case using Cons.IH [of "d @ [(f x, g x)]"] Cons.prems by auto
qed simp

text \<open>Linking adds to every message the ids of those that name it, and changes nothing else.\<close>

fun known_children :: "dict \<Rightarrow> pyval list" where
  "known_children m = (case dget m ''childrenIds'' of Some (VList xs) \<Rightarrow> xs | _ \<Rightarrow> [])"

definition linkable :: "dict \<Rightarrow> bool" where
  "linkable m \<longleftrightarrow> (case dget m ''childrenIds'' of None \<Rightarrow> True | Some v \<Rightarrow> is_list v)"

lemma add_child_children:
  "linkable m \<Longrightarrow> VStr i \<notin> set (known_children m) \<Longrightarrow>
     linkable (add_child i m) \<and> known_children (add_child i m) = known_children m @ [VStr i] \<and>
     (\<forall>k. k \<noteq> ''childrenIds'' \<longrightarrow> dget (add_child i m) k = dget m k)"
  by (auto simp: add_child_def linkable_def split: option.splits pyval.splits)

definition children_named :: "string \<Rightarrow> (string \<times> dict) list \<Rightarrow> string list" where
  "children_named k todo = map fst (filter (\<lambda>(i, m). k \<noteq> [] \<and> vget m ''parentId'' = VStr k) todo)"

lemma link_parents_keys: "dkeys (link_parents todo ms) = dkeys ms"
proof (induction todo arbitrary: ms)
  case (Cons kv todo)
  obtain i msg where "kv = (i, msg)" by (cases kv)
  moreover have "dkeys (dset ms p v) = dkeys ms" if "dget ms p = Some w" for p v w
    using dget_Some_in [OF that] by (intro dkeys_dset_present) (auto intro: rev_image_eqI)
  ultimately show ?case using Cons.IH by (auto split: pyval.splits option.splits)
qed simp

lemma link_parents_children:
  assumes "distinct (map fst todo)" "dget ms k = Some m" "linkable m" "VStr ` fst ` set todo \<inter> set (known_children m) = {}"
  shows "\<exists>m'. dget (link_parents todo ms) k = Some m' \<and> linkable m' \<and>
    known_children m' = known_children m @ map VStr (children_named k todo) \<and> (\<forall>f. f \<noteq> ''childrenIds'' \<longrightarrow> dget m' f = dget m f)"
  using assms
proof (induction todo arbitrary: ms m)
  case (Cons kv todo)
  obtain i msg where kv: "kv = (i, msg)" by (cases kv)
  let ?ms1 = "case vget msg ''parentId'' of
      VStr p \<Rightarrow> (if p = [] then ms else case dget ms p of None \<Rightarrow> ms | Some parent \<Rightarrow> dset ms p (add_child i parent)) | _ \<Rightarrow> ms"
  show ?case
  proof (cases "k \<noteq> [] \<and> vget msg ''parentId'' = VStr k")
    case True
    have new: "VStr i \<notin> set (known_children m)" using Cons.prems(4) kv by auto
    note ac = add_child_children [OF Cons.prems(3) new]
    have "dget ?ms1 k = Some (add_child i m)" using True Cons.prems(2) by simp
    moreover have "VStr ` fst ` set todo \<inter> set (known_children (add_child i m)) = {}" using Cons.prems(1, 4) kv ac by auto
    ultimately obtain m' where "dget (link_parents todo ?ms1) k = Some m'" "linkable m'"
      "known_children m' = known_children (add_child i m) @ map VStr (children_named k todo)"
      "\<forall>f. f \<noteq> ''childrenIds'' \<longrightarrow> dget m' f = dget (add_child i m) f"
      using Cons.IH [of ?ms1 "add_child i m"] Cons.prems(1) ac kv by auto
    then show ?thesis using ac True kv by (auto simp: children_named_def)
  next
    case False
    have "dget ?ms1 k = Some m" using False Cons.prems(2) by (auto split: pyval.splits option.splits)
    then show ?thesis using Cons.IH [of ?ms1 m] Cons.prems kv False by (auto simp: children_named_def)
  qed
qed (simp add: children_named_def)

lemma vget_filter_none: "wf_dict d \<Longrightarrow> vget (filter (\<lambda>(k, v). v \<noteq> VNone) d) k = vget d k"
  by (induction d) (auto simp: vget_def dget_None_iff [THEN iffD2] split: option.splits)

lemma wf_columns [simp]: "wf_dict (columns_of r)"
  by (simp add: columns_of_def wf_dict_def)

lemma message_of_row_other:
  "k \<notin> {''id'', ''content'', ''info''} \<Longrightarrow> vget (message_of_row mid r) k = vget (columns_of r) k"
  by (auto simp: message_of_row_def Let_def vget_filter_none)

lemma message_of_row_id: "vget (message_of_row mid r) ''id'' = VStr mid"
  by (simp add: message_of_row_def Let_def)

lemma has_key_filter_none: "wf_dict d \<Longrightarrow> has_key (filter (\<lambda>(k, v). v \<noteq> VNone) d) k \<longleftrightarrow> vget d k \<noteq> VNone"
  by (force simp: has_key_def vget_def dest: wf_dict_dget dget_Some_in split: option.splits)

lemma message_of_row_content:
  "vget (message_of_row mid r) ''content'' = (if cm_content r = VNone then VStr [] else cm_content r)"
proof -
  let ?msg = "(''id'', VStr mid) # filter (\<lambda>(k, v). v \<noteq> VNone) (columns_of r)"
  have "has_key ?msg ''content'' \<longleftrightarrow> vget (columns_of r) ''content'' \<noteq> VNone"
    using has_key_filter_none [OF wf_columns, of r "''content''"] by (simp add: has_key_def)
  moreover have "vget ?msg ''content'' = vget (columns_of r) ''content''" by (simp add: vget_filter_none)
  moreover have "vget (columns_of r) ''content'' = cm_content r" by (simp add: columns_of_def)
  ultimately show ?thesis by (simp add: message_of_row_def Let_def)
qed

lemma message_of_row_no_children: "dget (message_of_row mid r) ''childrenIds'' = None"
proof -
  have "''childrenIds'' \<notin> fst ` set (columns_of r)" by (simp add: columns_of_def)
  then have "''childrenIds'' \<notin> fst ` set (filter (\<lambda>(k, v). v \<noteq> VNone) (columns_of r))" by force
  then show ?thesis by (simp add: message_of_row_def Let_def dget_None_iff [THEN iffD2])
qed

text \<open>The keys of a message that only the JSON of a chat uses.\<close>

definition camel_keys :: "dict \<Rightarrow> bool" where
  "camel_keys d \<longleftrightarrow> (\<forall>k \<in> {''parent_id'', ''model_id'', ''status_history'', ''context_summary''}. \<not> has_key d k)"

definition copied_keys :: "string list" where
  "copied_keys = [''role'', ''parentId'', ''output'', ''model'', ''files'', ''sources'', ''embeds'', ''meta'', ''statusHistory'', ''error'', ''contextSummary'']"

lemma either_key_camel: "\<not> has_key d k \<Longrightarrow> either_key d k k' = vget d k'"
  by (simp add: either_key_def has_key_def vget_def py_or_def dget_None_iff [THEN iffD2])

lemma row_columns:
  assumes "storable mc now cid uid i d" "camel_keys d" "r = row_of now cid uid (i, d)"
  shows "\<forall>k \<in> set copied_keys. vget (columns_of r) k = vget d k" "cm_content r = vget d ''content''"
    "cm_done r = dget_or d ''done'' (VBool True)" "cm_created_at r = dget_or d ''timestamp'' (VInt now)"
    "get_usage d = Inr (case cm_usage r of VDict u \<Rightarrow> Some u | _ \<Rightarrow> None)"
proof -
  have role: "truthy (vget d ''role'')" using assms(1) by (simp add: storable_def)
  then have "dget_or d ''role'' (VStr ''user'') = vget d ''role''" by (auto simp: dget_or_def vget_def split: option.splits)
  moreover obtain u where "get_usage d = Inr u" "inserted_message now i cid uid d = Inr r"
    using storable_row [OF assms(1)] assms(3) by (auto simp: inserted_message_def rbind_Inr_iff)
  ultimately show "\<forall>k \<in> set copied_keys. vget (columns_of r) k = vget d k" "cm_content r = vget d ''content''"
    "cm_done r = dget_or d ''done'' (VBool True)" "cm_created_at r = dget_or d ''timestamp'' (VInt now)"
    "get_usage d = Inr (case cm_usage r of VDict u \<Rightarrow> Some u | _ \<Rightarrow> None)"
    using assms(2) by (auto simp: inserted_message_def columns_of_def copied_keys_def camel_keys_def either_key_camel split: option.splits)
qed

definition read_back :: "int \<Rightarrow> (string \<times> dict) list \<Rightarrow> string \<Rightarrow> dict \<Rightarrow> dict \<Rightarrow> bool" where
  "read_back now ms i d m \<longleftrightarrow>
     vget m ''id'' = VStr i \<and> (\<forall>k \<in> set copied_keys. vget m k = vget d k) \<and>
     vget m ''content'' = (if vget d ''content'' = VNone then VStr [] else vget d ''content'') \<and>
     vget m ''done'' = dget_or d ''done'' (VBool True) \<and> vget m ''timestamp'' = dget_or d ''timestamp'' (VInt now) \<and>
     get_usage d = Inr (case vget m ''usage'' of VDict u \<Rightarrow> Some u | _ \<Rightarrow> None) \<and>
     vget m ''childrenIds'' = VList (map VStr (children_named i ms))"

lemma messages_of_new_rows:
  assumes "\<And>i d. (i, d) \<in> set ms \<Longrightarrow> storable mc now cid uid i d" "messages_of_chat cid rows = []"
  shows "messages_of_chat cid (rows @ map (row_of now cid uid) ms) = map (row_of now cid uid) ms"
proof -
  have "cm_chat_id (row_of now cid uid kv) = cid" if "kv \<in> set ms" for kv
    using row_of_ids [OF assms(1), of "fst kv" "snd kv"] that by simp
  then show ?thesis using assms(2) by (auto simp: messages_of_chat_def filter_map comp_def intro: filter_True)
qed

lemma rows_as_new_messages:
  assumes "wf_dict ms" "\<And>i d. (i, d) \<in> set ms \<Longrightarrow> storable mc now cid uid i d"
  shows "rows_as_messages cid (map (row_of now cid uid) ms) = map (\<lambda>(i, d). (i, message_of_row i (row_of now cid uid (i, d)))) ms"
proof -
  let ?f = "\<lambda>r. original_id cid (cm_id r)"
  have f: "?f (row_of now cid uid kv) = fst kv" if "kv \<in> set ms" for kv
    using row_of_ids [OF assms(2), of "fst kv" "snd kv"] that by simp
  have "map ?f (map (row_of now cid uid) ms) = map fst ms" using f by simp
  then have "distinct (map ?f (map (row_of now cid uid) ms))" using assms(1) by (simp only: wf_dict_def)
  then have "rows_as_messages cid (map (row_of now cid uid) ms) = map (\<lambda>r. (?f r, message_of_row (?f r) r)) (map (row_of now cid uid) ms)"
    unfolding rows_as_messages_def Let_def by (subst foldl_dset_new) simp_all
  also have "\<dots> = map (\<lambda>(i, d). (i, message_of_row i (row_of now cid uid (i, d)))) ms" using f by (auto simp: comp_def)
  finally show ?thesis .
qed

text \<open>The messages of a chat without rows, written beside its history, are read back from the rows as a history again: the same ids in
  the same order, every key that is stored with its value, an empty content where there was none, the usage normalised, and under every
  message the ids of those that name it as their parent.\<close>
theorem stored_messages_read_back:
  assumes "wf_dict ms" "ms \<noteq> []" "messages_of_chat cid rows = []" "composite_id cid ` fst ` set ms \<inter> cm_id ` set rows = {}"
    and "\<And>i d. (i, d) \<in> set ms \<Longrightarrow> storable mc now cid uid i d \<and> camel_keys d"
  shows "\<exists>ms'. row_messages_map cid (backfill_messages_by_chat_id mc now cid uid (map (\<lambda>(i, d). (i, VDict d)) ms) rows) = Some ms' \<and>
    dkeys ms' = dkeys ms \<and> (\<forall>(i, d) \<in> set ms. \<exists>m. dget ms' i = Some m \<and> read_back now ms i d m)"
proof -
  let ?row = "row_of now cid uid" and ?msg = "\<lambda>(i, d). (i, message_of_row i (row_of now cid uid (i, d)))"
  let ?ms0 = "map ?msg ms"
  let ?fill = "\<lambda>(i, m). (i, if has_key m ''childrenIds'' then m else dset m ''childrenIds'' (VList []))"
  let ?ms' = "map ?fill (link_parents ?ms0 ?ms0)"
  have st: "storable mc now cid uid i d" if "(i, d) \<in> set ms" for i d using assms(5) that by blast
  have "row_messages_map cid (rows @ map ?row ms) = Some ?ms'"
    using messages_of_new_rows [OF st assms(3)] rows_as_new_messages [OF assms(1) st] assms(2)
    by (simp add: row_messages_map_def Let_def)
  moreover have keys0: "dkeys ?ms0 = dkeys ms" by (induction ms) auto
  then have "dkeys ?ms' = dkeys ms" using link_parents_keys [of ?ms0 ?ms0] by (simp add: comp_def case_prod_beta)
  moreover have "\<exists>m. dget ?ms' i = Some m \<and> read_back now ms i d m" if mem: "(i, d) \<in> set ms" for i d
  proof -
    let ?r = "row_of now cid uid (i, d)"
    let ?m0 = "message_of_row i ?r"
    have wf0: "distinct (map fst ?ms0)" using assms(1) keys0 by (simp only: wf_dict_def)
    have g0: "dget ?ms0 i = Some ?m0" using wf0 mem by (intro map_of_is_SomeI) force+
    have nc: "dget ?m0 ''childrenIds'' = None" by (rule message_of_row_no_children)
    obtain m1 where m1: "dget (link_parents ?ms0 ?ms0) i = Some m1" "linkable m1" "known_children m1 = map VStr (children_named i ?ms0)"
      "\<forall>f. f \<noteq> ''childrenIds'' \<longrightarrow> dget m1 f = dget ?m0 f"
      using link_parents_children [OF wf0 g0] nc by (auto simp: linkable_def)
    define m where "m = (if has_key m1 ''childrenIds'' then m1 else dset m1 ''childrenIds'' (VList []))"
    have "dget ?ms' i = Some m" using m1(1) by (simp add: m_def map_of_map)
    moreover have kids: "vget m ''childrenIds'' = VList (map VStr (children_named i ?ms0))"
      using m1(2, 3) by (auto simp: m_def vget_def linkable_def has_key_def dget_None_iff [symmetric] split: option.splits pyval.splits)
    moreover have same: "vget m f = vget ?m0 f" if "f \<noteq> ''childrenIds''" for f
      using m1(4) that by (simp add: m_def vget_def)
    have parents: "vget (message_of_row j (?row (j, e))) ''parentId'' = vget e ''parentId''" if "(j, e) \<in> set ms" for j e
      using row_columns(1) [OF st [OF that] _ refl] assms(5) [OF that] by (simp add: message_of_row_other copied_keys_def)
    then have "children_named i ?ms0 = children_named i ms" by (induction ms) (auto simp: children_named_def)
    moreover note rc = row_columns [OF st [OF mem] _ refl, OF assms(5) [OF mem, THEN conjunct2]]
    have "\<forall>k \<in> set copied_keys. vget ?m0 k = vget d k" using rc(1) by (simp add: message_of_row_other copied_keys_def)
    moreover have "vget ?m0 ''done'' = cm_done ?r" "vget ?m0 ''timestamp'' = cm_created_at ?r" "vget ?m0 ''usage'' = cm_usage ?r"
      by (simp_all add: message_of_row_other) (simp_all add: columns_of_def)
    ultimately show ?thesis using rc(2 - 5) same kids
      by (intro exI [of _ m]) (simp add: read_back_def message_of_row_id message_of_row_content copied_keys_def)
  qed
  ultimately show ?thesis using backfill_new [OF assms(1) st assms(4)] by (intro exI [of _ ?ms']) fastforce
qed

section \<open>An example\<close>

definition sample_checks :: message_checks where
  "sample_checks = \<lparr>mc_accepts = (\<lambda>r. cm_role r \<noteq> VNone), mc_valid = (\<lambda>r. True)\<rparr>"

definition sample_history :: "(string \<times> dict) list" where
  "sample_history =
     [(''q'', [(''role'', VStr ''user''), (''content'', VStr ''hi''), (''timestamp'', VInt 1)]),
      (''a'', [(''role'', VStr ''assistant''), (''parentId'', VStr ''q''), (''model'', VStr ''m''), (''done'', VBool False)])]"

lemma sample_storable: "list_all (\<lambda>(i, d). storable sample_checks 7 ''c'' ''u'' i d \<and> camel_keys d) sample_history"
  by code_simp

lemma stored_messages_read_back_witness:
  "\<exists>ms'. row_messages_map ''c'' (backfill_messages_by_chat_id sample_checks 7 ''c'' ''u'' (map (\<lambda>(i, d). (i, VDict d)) sample_history) []) = Some ms' \<and>
     dkeys ms' = [''q'', ''a''] \<and> (\<exists>m. dget ms' ''q'' = Some m \<and> vget m ''childrenIds'' = VList [VStr ''a''])"
proof -
  have h: "wf_dict sample_history" "sample_history \<noteq> []" "messages_of_chat ''c'' [] = []" "dkeys sample_history = [''q'', ''a'']"
    by (simp_all add: sample_history_def wf_dict_def messages_of_chat_def)
  have st: "storable sample_checks 7 ''c'' ''u'' i d \<and> camel_keys d" if "(i, d) \<in> set sample_history" for i d
    using sample_storable that by (auto simp: list_all_iff)
  have q: "(''q'', snd (hd sample_history)) \<in> set sample_history" by (simp add: sample_history_def)
  have kids: "children_named ''q'' sample_history = [''a'']" by (simp add: children_named_def sample_history_def)
  have none: "composite_id ''c'' ` fst ` set sample_history \<inter> cm_id ` set [] = {}" by simp
  obtain ms' where ms': "row_messages_map ''c'' (backfill_messages_by_chat_id sample_checks 7 ''c'' ''u'' (map (\<lambda>(i, d). (i, VDict d)) sample_history) []) = Some ms'"
    "dkeys ms' = dkeys sample_history" "\<forall>(i, d) \<in> set sample_history. \<exists>m. dget ms' i = Some m \<and> read_back 7 sample_history i d m"
    using stored_messages_read_back [OF h(1, 2, 3) none st] by blast
  obtain m where m: "dget ms' ''q'' = Some m" "read_back 7 sample_history ''q'' (snd (hd sample_history)) m" using bspec [OF ms'(3) q] by auto
  then have "vget m ''childrenIds'' = VList [VStr ''a'']" using kids by (simp add: read_back_def)
  then show ?thesis using ms'(1, 2) m(1) h(4) by (intro exI [of _ ms']) simp
qed

text \<open>Usage that is written again is counted again, once it is not all there is: here the second report of 5 tokens is stored twice.\<close>

definition reported :: "int \<Rightarrow> dict" where
  "reported n = [(''role'', VStr ''assistant''), (''usage'', VDict [(''input_tokens'', VInt n), (''output_tokens'', VInt 0), (''total_tokens'', VInt n)])]"

lemma usage_counted_twice:
  "map (\<lambda>r. case cm_usage r of VDict u \<Rightarrow> vget u ''input_tokens'' | _ \<Rightarrow> VNone)
     (fold (\<lambda>n. backfill_messages_by_chat_id sample_checks 7 ''c'' ''u'' [(''a'', VDict (reported n))]) [3, 5, 5] []) = [VInt 13]"
  by code_simp

end
