(* ===== verification/Chats.thy ===== *)
theory Chats
  imports ChatMessages Routes
begin

text \<open>
  The table of chats: \<open>ChatTable\<close> of \<open>backend/open_webui/models/chats.py\<close> with the tags of \<open>models/tags.py\<close> and the snapshots of
  \<open>models/shared_chats.py\<close>. This theory has the rows and what changes them; the queries are in \<open>ChatLists\<close>. Texts are lists of
  characters below 256, which are never surrogates. A table is a list in the order of insertion. The record \<open>chat_env\<close> holds what is not
  in the repository: which rows the database stores (\<open>stores\<close>, and \<open>checks\<close> for messages), its readings of JSON values (\<open>true\<close>, \<open>text\<close>),
  whether it enforces references (\<open>fk\<close>), the order in which a set is listed, generated ids and the clock.
\<close>

section \<open>Texts without null characters\<close>

definition sanitize_text_for_db :: "string \<Rightarrow> string" where
  "sanitize_text_for_db s = filter (\<lambda>c. c \<noteq> char_of (0::nat)) s"

definition dict_from :: "('k \<times> 'v) list \<Rightarrow> ('k, 'v) pydict" where
  "dict_from kvs = foldl (\<lambda>d kv. dset d (fst kv) (snd kv)) [] kvs"

fun sanitize_data_for_db :: "pyval \<Rightarrow> pyval" where
  "sanitize_data_for_db (VStr s) = VStr (sanitize_text_for_db s)"
| "sanitize_data_for_db (VDict d) = VDict (dict_from (map (\<lambda>kv. (sanitize_text_for_db (fst kv), sanitize_data_for_db (snd kv))) d))"
| "sanitize_data_for_db (VList xs) = VList (map sanitize_data_for_db xs)"
| "sanitize_data_for_db v = v"

definition clean_dict :: "dict \<Rightarrow> dict" where
  "clean_dict d = dict_value (sanitize_data_for_db (VDict d))"

section \<open>Rows\<close>

record chat_row =
  ch_id :: string
  ch_user_id :: string
  ch_title :: pyval
  ch_chat :: dict
  ch_created_at :: int
  ch_updated_at :: int
  ch_share_id :: "string option"
  ch_archived :: bool
  ch_pinned :: "bool option"
  ch_meta :: dict
  ch_variables :: "dict option"
  ch_folder_id :: "string option"
  ch_tasks :: "pyval list option"
  ch_summary :: "string option"
  ch_current_message_id :: pyval
  ch_last_read_at :: "int option"

record tag_row =
  tg_id :: string
  tg_name :: string
  tg_user_id :: string
  tg_meta :: "dict option"

record shared_chat =
  sh_id :: string
  sh_chat_id :: string
  sh_user_id :: string
  sh_title :: pyval
  sh_chat :: dict
  sh_created_at :: int
  sh_updated_at :: int

record chat_file =
  cf_id :: string
  cf_user_id :: string
  cf_chat_id :: string
  cf_message_id :: "string option"
  cf_file_id :: string
  cf_created_at :: int
  cf_updated_at :: int

text \<open>Of the runs of automations only the chat matters here.\<close>

record automation_run =
  ar_id :: string
  ar_chat_id :: "string option"

record chat_db =
  db_chats :: "chat_row list"
  db_messages :: "message_row list"
  db_tags :: "tag_row list"
  db_shared :: "shared_chat list"
  db_chat_files :: "chat_file list"
  db_runs :: "automation_run list"
  db_chat_grants :: grant_db
  db_chat_uuid :: nat

record chat_env =
  ce_checks :: message_checks
  ce_stores :: "chat_row \<Rightarrow> bool"
  ce_true :: "pyval \<Rightarrow> bool"
  ce_text :: "pyval \<Rightarrow> string option"
  ce_fk :: bool
  ce_set :: "pyval set \<Rightarrow> pyval list"
  ce_uuid :: "nat \<Rightarrow> string"
  ce_now :: int

record chat_form =
  fm_chat :: dict
  fm_variables :: "dict option"
  fm_folder_id :: "string option"

record chat_import_form = chat_form +
  im_meta :: "dict option"
  im_pinned :: "bool option"
  im_current_message_id :: "string option"
  im_created_at :: "int option"
  im_updated_at :: "int option"

text \<open>\<open>ChatModel\<close>: the title is a text, and the id of the current message too if there is one. Missing variables are none.\<close>

definition chat_valid :: "chat_row \<Rightarrow> bool" where
  "chat_valid c \<longleftrightarrow> is_str (ch_title c) \<and> (ch_current_message_id c = VNone \<or> is_str (ch_current_message_id c))"

definition chat_model :: "chat_row \<Rightarrow> chat_row" where
  "chat_model c = c\<lparr>ch_variables := Some (case ch_variables c of None \<Rightarrow> [] | Some v \<Rightarrow> v)\<rparr>"

definition is_internal_chat :: "dict \<Rightarrow> bool" where
  "is_internal_chat meta \<longleftrightarrow> vget meta ''internal'' = VBool True"

text \<open>The same as a condition of a query.\<close>

definition internal :: "chat_env \<Rightarrow> chat_row \<Rightarrow> bool" where
  "internal env c \<longleftrightarrow> ce_true env (vget (ch_meta c) ''internal'')"

definition find_chat :: "string \<Rightarrow> chat_db \<Rightarrow> chat_row option" where
  "find_chat i db = List.find (\<lambda>c. ch_id c = i) (db_chats db)"

definition put_chat :: "chat_row \<Rightarrow> chat_db \<Rightarrow> chat_db" where
  "put_chat c db = db\<lparr>db_chats := map (\<lambda>q. if ch_id q = ch_id c then c else q) (db_chats db)\<rparr>"

text \<open>\<open>update(Chat).where(\<dots>).values(\<dots>)\<close>\<close>

definition change_chats :: "(chat_row \<Rightarrow> bool) \<Rightarrow> (chat_row \<Rightarrow> chat_row) \<Rightarrow> chat_db \<Rightarrow> chat_db" where
  "change_chats P f db = db\<lparr>db_chats := map (\<lambda>c. if P c then f c else c) (db_chats db)\<rparr>"

text \<open>
  Most methods load a row, change it, commit, and return a model of it. A row that the database refuses is not changed, and one that is
  no model is changed before \<open>None\<close> is returned.
\<close>

definition update_row :: "chat_env \<Rightarrow> string \<Rightarrow> (chat_row \<Rightarrow> chat_row) \<Rightarrow> chat_db \<Rightarrow> chat_row option \<times> chat_db" where
  "update_row env i f db =
     (case find_chat i db of
        None \<Rightarrow> (None, db)
      | Some c \<Rightarrow>
          if ce_stores env (f c) then (if chat_valid (f c) then Some (chat_model (f c)) else None, put_chat (f c) db) else (None, db))"

section \<open>New chats\<close>

definition chat_title :: "dict \<Rightarrow> pyval" where
  "chat_title chat = (case dget chat ''title'' of None \<Rightarrow> VStr ''New Chat'' | Some t \<Rightarrow> sanitize_data_for_db t)"

text \<open>The messages of the history, or else those of the list with an id. A text is made of an id that is none when a row is written.\<close>

definition history_messages :: "dict \<Rightarrow> dict" where
  "history_messages chat =
     (case vget chat ''history'' of VDict h \<Rightarrow> (case vget h ''messages'' of VDict ms \<Rightarrow> ms | _ \<Rightarrow> []) | _ \<Rightarrow> [])"

definition with_ids :: "pyval list \<Rightarrow> (pyval \<times> pyval) list" where
  "with_ids xs = concat (map (\<lambda>v. case v of VDict m \<Rightarrow> (if truthy (vget m ''id'') then [(vget m ''id'', v)] else []) | _ \<Rightarrow> []) xs)"

definition listed_messages :: "pyval list \<Rightarrow> dict result" where
  "listed_messages xs =
     (if list_all (\<lambda>(k, v). hashable k) (with_ids xs) then Inr (map (\<lambda>(k, v). (py_str k, v)) (dict_from (with_ids xs))) else Inl TypeError)"

definition initial_messages :: "dict \<Rightarrow> dict result" where
  "initial_messages chat =
     (if history_messages chat = [] then (case vget chat ''messages'' of VList xs \<Rightarrow> listed_messages xs | _ \<Rightarrow> Inr [])
      else Inr (history_messages chat))"

text \<open>The first error ends the writing of the messages of a new chat.\<close>

fun write_messages :: "chat_env \<Rightarrow> string \<Rightarrow> string \<Rightarrow> dict \<Rightarrow> message_row list \<Rightarrow> message_row list" where
  "write_messages env cid uid [] rows = rows"
| "write_messages env cid uid ((k, VDict d) # rest) rows =
     (if truthy (vget d ''role'')
      then (case upsert_message (ce_checks env) (ce_now env) k cid uid d rows of
              (Inl e, rows') \<Rightarrow> rows'
            | (Inr r, rows') \<Rightarrow> write_messages env cid uid rest rows')
      else write_messages env cid uid rest rows)"
| "write_messages env cid uid (_ # rest) rows = write_messages env cid uid rest rows"

definition new_chat :: "chat_env \<Rightarrow> string \<Rightarrow> string \<Rightarrow> 'a chat_form_scheme \<Rightarrow> dict option \<Rightarrow> chat_row" where
  "new_chat env i uid form internal_meta =
     \<lparr>ch_id = i, ch_user_id = uid, ch_title = chat_title (fm_chat form), ch_chat = clean_dict (fm_chat form),
      ch_created_at = ce_now env, ch_updated_at = ce_now env, ch_share_id = None, ch_archived = False, ch_pinned = Some False,
      ch_meta = (case internal_meta of None \<Rightarrow> [] | Some m \<Rightarrow> m),
      ch_variables = Some (case fm_variables form of None \<Rightarrow> [] | Some v \<Rightarrow> v), ch_folder_id = fm_folder_id form, ch_tasks = None,
      ch_summary = None, ch_current_message_id = get_current_message_id (fm_chat form), ch_last_read_at = Some (ce_now env)\<rparr>"

definition insert_new_chat ::
    "chat_env \<Rightarrow> string \<Rightarrow> string \<Rightarrow> 'a chat_form_scheme \<Rightarrow> dict option \<Rightarrow> chat_db \<Rightarrow> chat_row result \<times> chat_db" where
  "insert_new_chat env i uid form internal_meta db =
     (let c = new_chat env i uid form internal_meta
      in if \<not> chat_valid c then (Inl (ValueError ''ChatModel''), db)
         else if i \<in> ch_id ` set (db_chats db) \<or> \<not> ce_stores env c then (Inl IntegrityError, db)
         else (Inr c, db\<lparr>db_chats := db_chats db @ [c],
                         db_messages := (case initial_messages (fm_chat form) of
                            Inl e \<Rightarrow> db_messages db | Inr ms \<Rightarrow> write_messages env i uid ms (db_messages db))\<rparr>))"

text \<open>An import. References to folders that the user does not own are cleared.\<close>

definition positive_or :: "int option \<Rightarrow> int \<Rightarrow> int" where
  "positive_or t now = (case t of None \<Rightarrow> now | Some n \<Rightarrow> if n = 0 then now else n)"

definition chat_import_form_to_chat_model :: "chat_env \<Rightarrow> string \<Rightarrow> string \<Rightarrow> chat_import_form \<Rightarrow> chat_row result" where
  "chat_import_form_to_chat_model env i uid form =
     (let c = (new_chat env i uid form (im_meta form))
            \<lparr>ch_pinned := im_pinned form,
             ch_current_message_id := (if given (im_current_message_id form) then VStr (the (im_current_message_id form))
                else get_current_message_id (fm_chat form)),
             ch_created_at := positive_or (im_created_at form) (ce_now env),
             ch_updated_at := positive_or (im_updated_at form) (ce_now env), ch_last_read_at := None\<rparr>
      in if im_meta form = None \<or> \<not> chat_valid c then Inl (ValueError ''ChatModel'') else Inr c)"

definition own_folder :: "folder_db \<Rightarrow> string \<Rightarrow> chat_import_form \<Rightarrow> chat_import_form" where
  "own_folder fdb uid form =
     (if given (fm_folder_id form) \<and> get_folder_by_id_and_user_id (the (fm_folder_id form)) uid fdb = None
      then form\<lparr>fm_folder_id := None\<rparr> else form)"

fun import_models :: "chat_env \<Rightarrow> string \<Rightarrow> nat \<Rightarrow> chat_import_form list \<Rightarrow> chat_row list result" where
  "import_models env uid n [] = Inr []"
| "import_models env uid n (form # forms) =
     rbind (chat_import_form_to_chat_model env (ce_uuid env n) uid form) (\<lambda>c.
     rbind (import_models env uid (Suc n) forms) (\<lambda>cs. Inr (c # cs)))"

fun import_messages :: "chat_env \<Rightarrow> string \<Rightarrow> (chat_import_form \<times> chat_row) list \<Rightarrow> message_row list \<Rightarrow> unit result \<times> message_row list" where
  "import_messages env uid [] rows = (Inr (), rows)"
| "import_messages env uid ((form, c) # rest) rows =
     (case initial_messages (fm_chat form) of
        Inl e \<Rightarrow> (Inl e, rows)
      | Inr ms \<Rightarrow> import_messages env uid rest (backfill_messages_by_chat_id (ce_checks env) (ce_now env) (ch_id c) uid ms rows))"

definition import_chats :: "chat_env \<Rightarrow> folder_db \<Rightarrow> string \<Rightarrow> chat_import_form list \<Rightarrow> chat_db \<Rightarrow> chat_row list result \<times> chat_db" where
  "import_chats env fdb uid forms db =
     (let forms' = map (own_folder fdb uid) forms
      in case import_models env uid (db_chat_uuid db) forms' of
           Inl e \<Rightarrow> (Inl e, db\<lparr>db_chat_uuid := db_chat_uuid db + length forms\<rparr>)
         | Inr cs \<Rightarrow>
             let db0 = db\<lparr>db_chat_uuid := db_chat_uuid db + length forms\<rparr>
             in if \<not> distinct (map ch_id (db_chats db @ cs)) \<or> \<not> list_all (ce_stores env) cs then (Inl IntegrityError, db0)
                else (case import_messages env uid (zip forms' cs) (db_messages db) of
                        (r, rows) \<Rightarrow> (rbind r (\<lambda>_. Inr cs), db0\<lparr>db_chats := db_chats db @ cs, db_messages := rows\<rparr>)))"

section \<open>Updates of one chat\<close>

definition update_chat_by_id :: "chat_env \<Rightarrow> string \<Rightarrow> dict \<Rightarrow> bool \<Rightarrow> chat_db \<Rightarrow> chat_row option \<times> chat_db" where
  "update_chat_by_id env i chat touch db =
     update_row env i (\<lambda>c. c\<lparr>ch_chat := clean_dict chat, ch_title := chat_title chat,
       ch_current_message_id := (if list_ex (has_key chat) [''history'', ''messages'', ''currentId'', ''branchPointMessageId'']
          then get_current_message_id chat else ch_current_message_id c),
       ch_updated_at := (if touch then ce_now env else ch_updated_at c)\<rparr>) db"

definition update_chat_variables_by_id :: "chat_env \<Rightarrow> string \<Rightarrow> dict option \<Rightarrow> bool \<Rightarrow> chat_db \<Rightarrow> chat_row option \<times> chat_db" where
  "update_chat_variables_by_id env i variables touch db =
     update_row env i (\<lambda>c. c\<lparr>ch_variables := Some (case variables of None \<Rightarrow> [] | Some v \<Rightarrow> v),
       ch_updated_at := (if touch then ce_now env else ch_updated_at c)\<rparr>) db"

definition update_chat_title_by_id :: "chat_env \<Rightarrow> string \<Rightarrow> string \<Rightarrow> chat_db \<Rightarrow> chat_row option \<times> chat_db" where
  "update_chat_title_by_id env i title db =
     update_row env i (\<lambda>c. let t = VStr (sanitize_text_for_db title) in c\<lparr>ch_title := t, ch_chat := dset (ch_chat c) ''title'' t\<rparr>) db"

definition get_chat_title_by_id :: "string \<Rightarrow> chat_db \<Rightarrow> pyval" where
  "get_chat_title_by_id i db = (case find_chat i db of None \<Rightarrow> VNone | Some c \<Rightarrow> py_or (ch_title c) (VStr ''New Chat''))"

definition update_chat_share_id_by_id :: "chat_env \<Rightarrow> string \<Rightarrow> string option \<Rightarrow> chat_db \<Rightarrow> chat_row option \<times> chat_db" where
  "update_chat_share_id_by_id env i share db = update_row env i (\<lambda>c. c\<lparr>ch_share_id := share\<rparr>) db"

definition toggle_chat_pinned_by_id :: "chat_env \<Rightarrow> string \<Rightarrow> chat_db \<Rightarrow> chat_row option \<times> chat_db" where
  "toggle_chat_pinned_by_id env i db =
     update_row env i (\<lambda>c. c\<lparr>ch_pinned := Some (ch_pinned c \<noteq> Some True), ch_updated_at := ce_now env,
       ch_last_read_at := Some (ce_now env)\<rparr>) db"

definition toggle_chat_archive_by_id :: "chat_env \<Rightarrow> string \<Rightarrow> chat_db \<Rightarrow> chat_row option \<times> chat_db" where
  "toggle_chat_archive_by_id env i db =
     update_row env i (\<lambda>c. c\<lparr>ch_archived := \<not> ch_archived c, ch_folder_id := None, ch_updated_at := ce_now env,
       ch_last_read_at := Some (ce_now env)\<rparr>) db"

text \<open>The user is not compared with the owner.\<close>

definition update_chat_folder_id_by_id_and_user_id :: "chat_env \<Rightarrow> string \<Rightarrow> string \<Rightarrow> string option \<Rightarrow> chat_db \<Rightarrow> chat_row option \<times> chat_db" where
  "update_chat_folder_id_by_id_and_user_id env i uid folder db =
     update_row env i (\<lambda>c. c\<lparr>ch_folder_id := folder, ch_updated_at := ce_now env, ch_last_read_at := Some (ce_now env),
       ch_pinned := Some False, ch_archived := (if folder = None then ch_archived c else False)\<rparr>) db"

definition update_chat_tasks_by_id :: "chat_env \<Rightarrow> string \<Rightarrow> pyval list \<Rightarrow> chat_db \<Rightarrow> chat_row option \<times> chat_db" where
  "update_chat_tasks_by_id env i tasks db = update_row env i (\<lambda>c. c\<lparr>ch_tasks := Some tasks\<rparr>) db"

definition get_chat_tasks_by_id :: "string \<Rightarrow> chat_db \<Rightarrow> pyval list" where
  "get_chat_tasks_by_id i db = (case find_chat i db of None \<Rightarrow> [] | Some c \<Rightarrow> (case ch_tasks c of None \<Rightarrow> [] | Some ts \<Rightarrow> ts))"

section \<open>What a user has read\<close>

definition owned_chat :: "string \<Rightarrow> string \<Rightarrow> chat_db \<Rightarrow> chat_row option" where
  "owned_chat i uid db = (case find_chat i db of None \<Rightarrow> None | Some c \<Rightarrow> if ch_user_id c = uid then Some c else None)"

definition update_chat_last_read_at_by_id :: "chat_env \<Rightarrow> string \<Rightarrow> string \<Rightarrow> chat_db \<Rightarrow> (int \<times> bool) option \<times> chat_db" where
  "update_chat_last_read_at_by_id env i uid db =
     (case owned_chat i uid db of
        None \<Rightarrow> (None, db)
      | Some c \<Rightarrow> (Some (ce_now env, case ch_last_read_at c of None \<Rightarrow> True | Some t \<Rightarrow> t < ch_updated_at c),
                   put_chat (c\<lparr>ch_last_read_at := Some (ce_now env)\<rparr>) db))"

definition mark_chat_unread_by_id :: "string \<Rightarrow> string \<Rightarrow> chat_db \<Rightarrow> chat_row option \<times> chat_db" where
  "mark_chat_unread_by_id i uid db =
     (case owned_chat i uid db of
        None \<Rightarrow> (None, db)
      | Some c \<Rightarrow> let c' = c\<lparr>ch_last_read_at := Some 0\<rparr> in (if is_str (ch_title c) then Some c' else None, put_chat c' db))"

definition readable_by :: "chat_env \<Rightarrow> string \<Rightarrow> chat_row \<Rightarrow> bool" where
  "readable_by env uid c \<longleftrightarrow> ch_user_id c = uid \<and> \<not> ch_archived c \<and> \<not> internal env c"

definition mark_read :: "(chat_row \<Rightarrow> bool) \<Rightarrow> chat_db \<Rightarrow> nat \<times> chat_db" where
  "mark_read P db =
     (length (filter P (db_chats db)), change_chats P (\<lambda>c. c\<lparr>ch_last_read_at := Some (ch_updated_at c)\<rparr>) db)"

definition mark_chats_read_by_folder_ids :: "chat_env \<Rightarrow> string \<Rightarrow> string list \<Rightarrow> chat_db \<Rightarrow> nat \<times> chat_db" where
  "mark_chats_read_by_folder_ids env uid fids db =
     (if fids = [] then (0, db)
      else mark_read (\<lambda>c. readable_by env uid c \<and> (case ch_folder_id c of None \<Rightarrow> False | Some f \<Rightarrow> f \<in> set fids)) db)"

definition mark_chats_read_by_user_id :: "chat_env \<Rightarrow> string \<Rightarrow> chat_db \<Rightarrow> nat \<times> chat_db" where
  "mark_chats_read_by_user_id env uid db = mark_read (readable_by env uid) db"

definition archive_all_chats_by_user_id :: "string \<Rightarrow> chat_db \<Rightarrow> chat_db" where
  "archive_all_chats_by_user_id uid db = change_chats (\<lambda>c. ch_user_id c = uid) (\<lambda>c. c\<lparr>ch_archived := True\<rparr>) db"

definition unarchive_all_chats_by_user_id :: "string \<Rightarrow> chat_db \<Rightarrow> chat_db" where
  "unarchive_all_chats_by_user_id uid db = change_chats (\<lambda>c. ch_user_id c = uid) (\<lambda>c. c\<lparr>ch_archived := False\<rparr>) db"

definition move_chats_by_user_id_and_folder_id :: "string \<Rightarrow> string \<Rightarrow> string option \<Rightarrow> chat_db \<Rightarrow> chat_db" where
  "move_chats_by_user_id_and_folder_id uid folder new_folder db =
     change_chats (\<lambda>c. ch_user_id c = uid \<and> ch_folder_id c = Some folder) (\<lambda>c. c\<lparr>ch_folder_id := new_folder\<rparr>) db"

section \<open>Tags\<close>

definition tag_id_of :: "string \<Rightarrow> string" where
  "tag_id_of name = py_lower (replace_char CHR '' '' ''_'' name)"

definition tag_key :: "tag_row \<Rightarrow> string \<times> string" where
  "tag_key t = (tg_id t, tg_user_id t)"

definition new_tag :: "string \<Rightarrow> string \<Rightarrow> tag_row" where
  "new_tag uid name = \<lparr>tg_id = tag_id_of name, tg_name = name, tg_user_id = uid, tg_meta = None\<rparr>"

definition insert_new_tag :: "string \<Rightarrow> string \<Rightarrow> tag_row list \<Rightarrow> tag_row option \<times> tag_row list" where
  "insert_new_tag name uid tags =
     (let t = new_tag uid name in if tag_key t \<in> tag_key ` set tags then (None, tags) else (Some t, tags @ [t]))"

definition get_tag_by_name_and_user_id :: "string \<Rightarrow> string \<Rightarrow> tag_row list \<Rightarrow> tag_row option" where
  "get_tag_by_name_and_user_id name uid tags = List.find (\<lambda>t. tag_key t = (tag_id_of name, uid)) tags"

definition get_user_tags :: "string \<Rightarrow> tag_row list \<Rightarrow> tag_row list" where
  "get_user_tags uid tags = filter (\<lambda>t. tg_user_id t = uid) tags"

definition get_tags_by_ids_and_user_id :: "pyval list \<Rightarrow> string \<Rightarrow> tag_row list \<Rightarrow> tag_row list" where
  "get_tags_by_ids_and_user_id ids uid tags = filter (\<lambda>t. VStr (tg_id t) \<in> set ids \<and> tg_user_id t = uid) tags"

definition delete_tag_by_name_and_user_id :: "string \<Rightarrow> string \<Rightarrow> tag_row list \<Rightarrow> tag_row list" where
  "delete_tag_by_name_and_user_id name uid tags = filter (\<lambda>t. tag_key t \<noteq> (tag_id_of name, uid)) tags"

definition delete_tags_by_ids_and_user_id :: "string list \<Rightarrow> string \<Rightarrow> tag_row list \<Rightarrow> tag_row list" where
  "delete_tags_by_ids_and_user_id ids uid tags = filter (\<lambda>t. \<not> (tg_id t \<in> set ids \<and> tg_user_id t = uid)) tags"

text \<open>Two names with one id are two rows with one key: the whole batch fails.\<close>

definition ensure_tags_exist :: "string list \<Rightarrow> string \<Rightarrow> tag_row list \<Rightarrow> unit result \<times> tag_row list" where
  "ensure_tags_exist names uid tags =
     (let new = map (new_tag uid) (filter (\<lambda>n. (tag_id_of n, uid) \<notin> tag_key ` set tags) names)
      in if distinct (map tag_key new) then (Inr (), tags @ new) else (Inl IntegrityError, tags))"

section \<open>Tags of chats\<close>

text \<open>\<open>meta.get('tags', [])\<close>, and the elements of the array as a query sees them.\<close>

definition meta_tags :: "dict \<Rightarrow> pyval" where
  "meta_tags meta = dget_or meta ''tags'' (VList [])"

definition tagged :: "string \<Rightarrow> chat_row \<Rightarrow> bool" where
  "tagged t c \<longleftrightarrow> (case vget (ch_meta c) ''tags'' of VList xs \<Rightarrow> VStr t \<in> set xs | _ \<Rightarrow> False)"

definition count_tag :: "chat_env \<Rightarrow> string \<Rightarrow> string \<Rightarrow> chat_db \<Rightarrow> nat" where
  "count_tag env t uid db = length (filter (\<lambda>c. readable_by env uid c \<and> tagged (tag_id_of t) c) (db_chats db))"

definition count_chats_by_tag_ids_and_user_id :: "chat_env \<Rightarrow> string list \<Rightarrow> string \<Rightarrow> chat_db \<Rightarrow> (string, nat) pydict" where
  "count_chats_by_tag_ids_and_user_id env ids uid db = dict_from (map (\<lambda>t. (t, count_tag env t uid db)) ids)"

definition count_chats_by_tag_name_and_user_id :: "chat_env \<Rightarrow> string \<Rightarrow> string \<Rightarrow> chat_db \<Rightarrow> nat" where
  "count_chats_by_tag_name_and_user_id env name uid db =
     dget_or (count_chats_by_tag_ids_and_user_id env [tag_id_of name] uid db) (tag_id_of name) 0"

definition delete_orphan_tags_for_user :: "chat_env \<Rightarrow> string list \<Rightarrow> string \<Rightarrow> nat \<Rightarrow> chat_db \<Rightarrow> chat_db" where
  "delete_orphan_tags_for_user env ids uid threshold db =
     (let counts = count_chats_by_tag_ids_and_user_id env ids uid db;
          orphans = filter (\<lambda>t. dget_or counts t 0 \<le> threshold) ids
      in db\<lparr>db_tags := delete_tags_by_ids_and_user_id orphans uid (db_tags db)\<rparr>)"

text \<open>Tags of a chat as values: what is no text has no method \<open>replace\<close>.\<close>

definition orphan_tags :: "chat_env \<Rightarrow> pyval list \<Rightarrow> string \<Rightarrow> nat \<Rightarrow> chat_db \<Rightarrow> unit result \<times> chat_db" where
  "orphan_tags env ids uid threshold db =
     (case rmap as_text ids of
        Inl e \<Rightarrow> (Inl AttributeError, db) | Inr ts \<Rightarrow> (Inr (), delete_orphan_tags_for_user env ts uid threshold db))"

definition update_chat_tags_by_id :: "chat_env \<Rightarrow> string \<Rightarrow> string list \<Rightarrow> string \<Rightarrow> chat_db \<Rightarrow> unit result \<times> chat_db" where
  "update_chat_tags_by_id env i tags uid db =
     (case find_chat i db of
        None \<Rightarrow> (Inr (), db)
      | Some c \<Rightarrow>
          let new_tags = filter (\<lambda>t. tag_id_of t \<noteq> ''none'') tags; new_ids = map (VStr \<circ> tag_id_of) new_tags;
              db1 = put_chat (c\<lparr>ch_meta := dset (ch_meta c) ''tags'' (VList new_ids)\<rparr>) db
          in (case ensure_tags_exist new_tags uid (db_tags db1) of
                (Inl e, ts) \<Rightarrow> (Inl e, db1)
              | (Inr _, ts) \<Rightarrow>
                  let db2 = db1\<lparr>db_tags := ts\<rparr>
                  in run db2 (py_iter (meta_tags (ch_meta c))) (\<lambda>old.
                       if \<not> list_all hashable old then (Inl TypeError, db2)
                       else orphan_tags env (ce_set env (set old - set new_ids)) uid 0 db2)))"

definition get_chat_tags_by_id_and_user_id :: "string \<Rightarrow> string \<Rightarrow> chat_db \<Rightarrow> tag_row list result" where
  "get_chat_tags_by_id_and_user_id i uid db =
     (case meta_tags (case find_chat i db of None \<Rightarrow> [] | Some c \<Rightarrow> ch_meta c) of
        VList ids \<Rightarrow> Inr (get_tags_by_ids_and_user_id ids uid (db_tags db)) | _ \<Rightarrow> Inl TypeError)"

text \<open>\<open>list(set(\<dots>))\<close> of a list of values.\<close>

definition listed_set :: "chat_env \<Rightarrow> pyval list \<Rightarrow> pyval list result" where
  "listed_set env xs = (if list_all hashable xs then Inr (ce_set env (set xs)) else Inl TypeError)"

definition listed_texts :: "chat_env \<Rightarrow> string set \<Rightarrow> string list" where
  "listed_texts env A = concat (map (\<lambda>v. case v of VStr s \<Rightarrow> [s] | _ \<Rightarrow> []) (ce_set env (VStr ` A)))"

definition with_tag :: "chat_env \<Rightarrow> string \<Rightarrow> dict \<Rightarrow> dict result" where
  "with_tag env t meta =
     rbind (py_in t (meta_tags meta)) (\<lambda>known.
       if known then Inr meta
       else (case meta_tags meta of
               VList xs \<Rightarrow> rbind (listed_set env (xs @ [VStr t])) (\<lambda>ys. Inr (dset meta ''tags'' (VList ys))) | _ \<Rightarrow> Inl TypeError))"

definition add_chat_tag_by_id_and_user_id_and_tag_name :: "chat_env \<Rightarrow> string \<Rightarrow> string \<Rightarrow> string \<Rightarrow> chat_db \<Rightarrow> unit result \<times> chat_db" where
  "add_chat_tag_by_id_and_user_id_and_tag_name env i uid name db =
     (case ensure_tags_exist [name] uid (db_tags db) of
        (Inl e, ts) \<Rightarrow> (Inl e, db)
      | (Inr _, ts) \<Rightarrow>
          let db1 = db\<lparr>db_tags := ts\<rparr>
          in (case find_chat i db1 of
                None \<Rightarrow> (Inr (), db1)
              | Some c \<Rightarrow> (case with_tag env (tag_id_of name) (ch_meta c) of
                    Inl e \<Rightarrow> (Inr (), db1) | Inr meta \<Rightarrow> (Inr (), put_chat (c\<lparr>ch_meta := meta\<rparr>) db1))))"

definition delete_tag_by_id_and_user_id_and_tag_name :: "chat_env \<Rightarrow> string \<Rightarrow> string \<Rightarrow> string \<Rightarrow> chat_db \<Rightarrow> bool \<times> chat_db" where
  "delete_tag_by_id_and_user_id_and_tag_name env i uid name db =
     (case find_chat i db of
        None \<Rightarrow> (False, db)
      | Some c \<Rightarrow>
          (case rbind (py_iter (meta_tags (ch_meta c))) (\<lambda>xs. listed_set env (filter (\<lambda>x. x \<noteq> VStr (tag_id_of name)) xs)) of
             Inl e \<Rightarrow> (False, db)
           | Inr ys \<Rightarrow> (True, put_chat (c\<lparr>ch_meta := dset (ch_meta c) ''tags'' (VList ys)\<rparr>) db)))"

section \<open>Snapshots\<close>

text \<open>\<open>SharedChatsTable\<close>. A snapshot is a model if its title is a text.\<close>

definition find_shared :: "string \<Rightarrow> chat_db \<Rightarrow> shared_chat option" where
  "find_shared i db = List.find (\<lambda>s. sh_id s = i) (db_shared db)"

definition share_create :: "chat_env \<Rightarrow> string \<Rightarrow> string \<Rightarrow> chat_db \<Rightarrow> shared_chat option result \<times> chat_db" where
  "share_create env cid uid db =
     (case find_chat cid db of
        None \<Rightarrow> (Inr None, db)
      | Some c \<Rightarrow>
          let s = \<lparr>sh_id = ce_uuid env (db_chat_uuid db), sh_chat_id = cid, sh_user_id = uid, sh_title = ch_title c, sh_chat = ch_chat c,
                   sh_created_at = ce_now env, sh_updated_at = ce_now env\<rparr>;
              db0 = db\<lparr>db_chat_uuid := Suc (db_chat_uuid db)\<rparr>
          in if sh_id s \<in> sh_id ` set (db_shared db) then (Inl IntegrityError, db0)
             else (if is_str (sh_title s) then Inr (Some s) else Inl (ValueError ''SharedChatModel''), db0\<lparr>db_shared := db_shared db @ [s]\<rparr>))"

definition share_update :: "chat_env \<Rightarrow> string \<Rightarrow> chat_db \<Rightarrow> shared_chat option result \<times> chat_db" where
  "share_update env sid db =
     (case find_shared sid db of
        None \<Rightarrow> (Inr None, db)
      | Some s \<Rightarrow>
          (case find_chat (sh_chat_id s) db of
             None \<Rightarrow> (Inr None, db)
           | Some c \<Rightarrow>
               let s' = s\<lparr>sh_title := ch_title c, sh_chat := ch_chat c, sh_updated_at := ce_now env\<rparr>
               in (if is_str (sh_title s') then Inr (Some s') else Inl (ValueError ''SharedChatModel''),
                   db\<lparr>db_shared := map (\<lambda>q. if sh_id q = sid then s' else q) (db_shared db)\<rparr>)))"

definition share_of_chat :: "string \<Rightarrow> chat_db \<Rightarrow> shared_chat option" where
  "share_of_chat cid db =
     (case order_desc sh_updated_at (filter (\<lambda>s. sh_chat_id s = cid) (db_shared db)) of [] \<Rightarrow> None | s # _ \<Rightarrow> Some s)"

definition share_delete :: "(shared_chat \<Rightarrow> bool) \<Rightarrow> chat_db \<Rightarrow> chat_db" where
  "share_delete P db = db\<lparr>db_shared := filter (\<lambda>s. \<not> P s) (db_shared db)\<rparr>"

definition delete_shared_chat_by_chat_id :: "string \<Rightarrow> chat_db \<Rightarrow> bool \<times> chat_db" where
  "delete_shared_chat_by_chat_id cid db = (True, share_delete (\<lambda>s. sh_chat_id s = cid) db)"

definition delete_shared_chats_by_user_id :: "string \<Rightarrow> chat_db \<Rightarrow> bool \<times> chat_db" where
  "delete_shared_chats_by_user_id uid db =
     (True, change_chats (\<lambda>c. ch_user_id c = uid) (\<lambda>c. c\<lparr>ch_share_id := None\<rparr>) (share_delete (\<lambda>s. sh_user_id s = uid) db))"

text \<open>
  The two methods call each other: a chat that is shared is snapshotted again, one that is not gets a snapshot.
\<close>

definition chat_result :: "chat_row \<Rightarrow> chat_row option result" where
  "chat_result c = (if chat_valid c then Inr (Some (chat_model c)) else Inl (ValueError ''ChatModel''))"

definition snapshot_again :: "chat_env \<Rightarrow> chat_row \<Rightarrow> chat_db \<Rightarrow> chat_row option result \<times> chat_db" where
  "snapshot_again env c db =
     (case share_update env (the (ch_share_id c)) db of (Inl e, db1) \<Rightarrow> (Inl e, db1) | (Inr _, db1) \<Rightarrow> (chat_result c, db1))"

definition insert_shared_chat_by_chat_id :: "chat_env \<Rightarrow> string \<Rightarrow> chat_db \<Rightarrow> chat_row option result \<times> chat_db" where
  "insert_shared_chat_by_chat_id env cid db =
     (case find_chat cid db of
        None \<Rightarrow> (Inr None, db)
      | Some c \<Rightarrow>
          if given (ch_share_id c) then snapshot_again env c db
          else (case share_create env cid (ch_user_id c) db of
                  (Inl e, db1) \<Rightarrow> (Inl e, db1)
                | (Inr None, db1) \<Rightarrow> (Inr None, db1)
                | (Inr (Some s), db1) \<Rightarrow> let c' = c\<lparr>ch_share_id := Some (sh_id s)\<rparr> in (chat_result c', put_chat c' db1)))"

definition update_shared_chat_by_chat_id :: "chat_env \<Rightarrow> string \<Rightarrow> chat_db \<Rightarrow> chat_row option result \<times> chat_db" where
  "update_shared_chat_by_chat_id env cid db =
     (case find_chat cid db of
        Some c \<Rightarrow> if given (ch_share_id c) then snapshot_again env c db else insert_shared_chat_by_chat_id env cid db
      | None \<Rightarrow> insert_shared_chat_by_chat_id env cid db)"

text \<open>A snapshot as a chat.\<close>

definition get_chat_by_share_id :: "string \<Rightarrow> chat_db \<Rightarrow> chat_row option" where
  "get_chat_by_share_id sid db =
     (case find_shared sid db of
        None \<Rightarrow> None
      | Some s \<Rightarrow>
          if is_str (sh_title s) then
            Some \<lparr>ch_id = sh_id s, ch_user_id = sh_user_id s, ch_title = sh_title s, ch_chat = sh_chat s, ch_created_at = sh_created_at s,
                  ch_updated_at = sh_updated_at s, ch_share_id = Some (sh_id s), ch_archived = False, ch_pinned = Some False, ch_meta = [],
                  ch_variables = Some [], ch_folder_id = None, ch_tasks = None, ch_summary = None, ch_current_message_id = VNone,
                  ch_last_read_at = None\<rparr>
          else None)"

section \<open>Loading one chat\<close>

text \<open>A chat that is read is cleaned, and its current message repaired, in the table too.\<close>

definition repaired_chat :: "dict \<Rightarrow> dict result" where
  "repaired_chat chat =
     (case vget chat ''history'' of
        VDict h \<Rightarrow>
          (case vget h ''messages'' of
             VDict ms \<Rightarrow>
               rbind (repair_chat_current_id ms (vget h ''currentId'')) (\<lambda>r.
                 Inr (case r of None \<Rightarrow> chat | Some k \<Rightarrow> dset chat ''history'' (VDict (dset h ''currentId'' (VStr k)))))
           | _ \<Rightarrow> Inr chat)
      | _ \<Rightarrow> Inr chat)"

definition sanitize_chat_row :: "chat_row \<Rightarrow> chat_row" where
  "sanitize_chat_row c = c\<lparr>ch_title := (if truthy (ch_title c) then sanitize_data_for_db (ch_title c) else ch_title c), ch_chat := clean_dict (ch_chat c)\<rparr>"

definition loaded_chat :: "chat_row \<Rightarrow> chat_row result" where
  "loaded_chat c = rbind (repaired_chat (ch_chat c)) (\<lambda>chat. Inr (sanitize_chat_row (c\<lparr>ch_chat := chat\<rparr>)))"

definition load_chat :: "chat_env \<Rightarrow> chat_row option \<Rightarrow> chat_db \<Rightarrow> chat_row option \<times> chat_db" where
  "load_chat env row db =
     (case row of
        None \<Rightarrow> (None, db)
      | Some c \<Rightarrow>
          (case loaded_chat c of
             Inl e \<Rightarrow> (None, db)
           | Inr c' \<Rightarrow> if c' = c then (if chat_valid c then Some (chat_model c) else None, db) else update_row env (ch_id c) (\<lambda>_. c') db))"

definition get_chat_by_id :: "chat_env \<Rightarrow> string \<Rightarrow> chat_db \<Rightarrow> chat_row option \<times> chat_db" where
  "get_chat_by_id env i db = load_chat env (find_chat i db) db"

definition get_chat_by_id_and_user_id :: "chat_env \<Rightarrow> string \<Rightarrow> string \<Rightarrow> chat_db \<Rightarrow> chat_row option \<times> chat_db" where
  "get_chat_by_id_and_user_id env i uid db = load_chat env (owned_chat i uid db) db"

definition is_chat_owner :: "string \<Rightarrow> string \<Rightarrow> chat_db \<Rightarrow> bool" where
  "is_chat_owner i uid db \<longleftrightarrow> list_ex (\<lambda>c. ch_id c = i \<and> ch_user_id c = uid) (db_chats db)"

definition get_chat_folder_id :: "string \<Rightarrow> string \<Rightarrow> chat_db \<Rightarrow> string option" where
  "get_chat_folder_id i uid db = (case owned_chat i uid db of None \<Rightarrow> None | Some c \<Rightarrow> ch_folder_id c)"

section \<open>Deletion\<close>

text \<open>Rows that refer to a deleted chat go with it where the database enforces references.\<close>

definition delete_chat_rows :: "chat_env \<Rightarrow> (chat_row \<Rightarrow> bool) \<Rightarrow> chat_db \<Rightarrow> chat_db" where
  "delete_chat_rows env P db =
     (let gone = ch_id ` set (filter P (db_chats db)); cascade = (\<lambda>cid. ce_fk env \<and> cid \<in> gone)
      in db\<lparr>db_chats := filter (\<lambda>c. \<not> P c) (db_chats db), db_messages := filter (\<lambda>m. \<not> cascade (cm_chat_id m)) (db_messages db),
            db_shared := filter (\<lambda>s. \<not> cascade (sh_chat_id s)) (db_shared db),
            db_chat_files := filter (\<lambda>f. \<not> cascade (cf_chat_id f)) (db_chat_files db)\<rparr>)"

definition detach_runs :: "string set \<Rightarrow> chat_db \<Rightarrow> chat_db" where
  "detach_runs cids db =
     db\<lparr>db_runs := map (\<lambda>r. if (case ar_chat_id r of None \<Rightarrow> False | Some c \<Rightarrow> c \<in> cids) then r\<lparr>ar_chat_id := None\<rparr> else r) (db_runs db)\<rparr>"

definition delete_messages_of :: "string set \<Rightarrow> chat_db \<Rightarrow> chat_db" where
  "delete_messages_of cids db = db\<lparr>db_messages := filter (\<lambda>m. cm_chat_id m \<notin> cids) (db_messages db)\<rparr>"

definition delete_chat_where :: "chat_env \<Rightarrow> string \<Rightarrow> (chat_row \<Rightarrow> bool) \<Rightarrow> chat_db \<Rightarrow> bool \<times> chat_db" where
  "delete_chat_where env i P db =
     delete_shared_chat_by_chat_id i (delete_chat_rows env (\<lambda>c. ch_id c = i \<and> P c) (delete_messages_of {i} (detach_runs {i} db)))"

definition delete_chat_by_id :: "chat_env \<Rightarrow> string \<Rightarrow> chat_db \<Rightarrow> bool \<times> chat_db" where
  "delete_chat_by_id env i db = delete_chat_where env i (\<lambda>c. True) db"

definition delete_chat_by_id_and_user_id :: "chat_env \<Rightarrow> string \<Rightarrow> string \<Rightarrow> chat_db \<Rightarrow> bool \<times> chat_db" where
  "delete_chat_by_id_and_user_id env i uid db = delete_chat_where env i (\<lambda>c. ch_user_id c = uid) db"

definition delete_chats_where :: "chat_env \<Rightarrow> (chat_row \<Rightarrow> bool) \<Rightarrow> chat_db \<Rightarrow> chat_db" where
  "delete_chats_where env P db =
     (let cids = ch_id ` set (filter P (db_chats db)) in delete_chat_rows env P (delete_messages_of cids (detach_runs cids db)))"

definition delete_chats_by_user_id :: "chat_env \<Rightarrow> string \<Rightarrow> chat_db \<Rightarrow> bool \<times> chat_db" where
  "delete_chats_by_user_id env uid db =
     (True, delete_chats_where env (\<lambda>c. ch_user_id c = uid) (snd (delete_shared_chats_by_user_id uid db)))"

definition delete_chats_by_user_id_and_folder_id :: "chat_env \<Rightarrow> string \<Rightarrow> string \<Rightarrow> chat_db \<Rightarrow> bool \<times> chat_db" where
  "delete_chats_by_user_id_and_folder_id env uid folder db =
     (True, delete_chats_where env (\<lambda>c. ch_user_id c = uid \<and> ch_folder_id c = Some folder) db)"

section \<open>Files of a chat\<close>

definition chat_file_key :: "chat_file \<Rightarrow> string \<times> string" where
  "chat_file_key f = (cf_chat_id f, cf_file_id f)"

definition get_chat_files_by_chat_id_and_message_id :: "string \<Rightarrow> string \<Rightarrow> chat_db \<Rightarrow> chat_file list" where
  "get_chat_files_by_chat_id_and_message_id cid mid db =
     sort_key cf_created_at (filter (\<lambda>f. cf_chat_id f = cid \<and> cf_message_id f = Some mid) (db_chat_files db))"

text \<open>
  The ids that are left out are those of the rows, not of their files. \<open>may_read\<close> is the answer of the check that the user may
  read an existing file, which is in \<open>utils/access_control/files.py\<close>.
\<close>

definition insert_chat_files ::
    "chat_env \<Rightarrow> (string \<Rightarrow> bool) \<Rightarrow> string \<Rightarrow> string \<Rightarrow> string list \<Rightarrow> string \<Rightarrow> chat_db \<Rightarrow> chat_file list option \<times> chat_db" where
  "insert_chat_files env may_read cid mid file_ids uid db =
     (let known = cf_id ` set (get_chat_files_by_chat_id_and_message_id cid mid db);
          ids = filter may_read (listed_texts env (set (filter (\<lambda>f. f \<noteq> [] \<and> f \<notin> known) file_ids)))
      in if ids = [] then (None, db)
         else let n = db_chat_uuid db;
                  new = map (\<lambda>(k, f). \<lparr>cf_id = ce_uuid env (n + k), cf_user_id = uid, cf_chat_id = cid, cf_message_id = Some mid,
                            cf_file_id = f, cf_created_at = ce_now env, cf_updated_at = ce_now env\<rparr>) (zip [0..<length ids] ids);
                  rows = db_chat_files db @ new; db0 = db\<lparr>db_chat_uuid := n + length ids\<rparr>
              in if distinct (map cf_id rows) \<and> distinct (map chat_file_key rows) \<and> (ce_fk env \<longrightarrow> find_chat cid db \<noteq> None)
                 then (Some new, db0\<lparr>db_chat_files := rows\<rparr>) else (None, db0))"

definition delete_chat_file :: "string \<Rightarrow> string \<Rightarrow> chat_db \<Rightarrow> bool \<times> chat_db" where
  "delete_chat_file cid fid db = (True, db\<lparr>db_chat_files := filter (\<lambda>f. chat_file_key f \<noteq> (cid, fid)) (db_chat_files db)\<rparr>)"

definition get_shared_chat_ids_by_file_id :: "string \<Rightarrow> chat_db \<Rightarrow> string list" where
  "get_shared_chat_ids_by_file_id fid db =
     concat (map (\<lambda>c. map (\<lambda>f. ch_id c) (filter (\<lambda>f. chat_file_key f = (ch_id c, fid)) (db_chat_files db)))
       (filter (\<lambda>c. ch_share_id c \<noteq> None) (db_chats db)))"

section \<open>An example\<close>

definition list_chat :: "string \<Rightarrow> int \<Rightarrow> chat_row" where
  "list_chat i t =
     \<lparr>ch_id = i, ch_user_id = ''u'', ch_title = VStr i, ch_chat = [], ch_created_at = t, ch_updated_at = t, ch_share_id = None,
      ch_archived = False, ch_pinned = Some False, ch_meta = [], ch_variables = Some [], ch_folder_id = None, ch_tasks = None,
      ch_summary = None, ch_current_message_id = VNone, ch_last_read_at = None\<rparr>"

definition list_env :: chat_env where
  "list_env = \<lparr>ce_checks = sample_checks, ce_stores = (\<lambda>c. True), ce_true = (\<lambda>v. v = VBool True), ce_text = (\<lambda>v. case v of VStr s \<Rightarrow> Some s | _ \<Rightarrow> None),
     ce_fk = True, ce_set = (\<lambda>A. if VStr ''b'' \<in> A then [VStr ''b''] else []), ce_uuid = (\<lambda>n. replicate n CHR ''x''), ce_now = 9\<rparr>"

end
