(* ===== verification/ChatLists.thy ===== *)
theory ChatLists
  imports Chats Files Shell "HOL-Library.Multiset"
begin

text \<open>
  The queries of \<open>ChatTable\<close> in \<open>backend/open_webui/models/chats.py\<close> and of \<open>SharedChatsTable\<close>: lists of chats, page by page, counts and the
  search. The record \<open>list_sql\<close> holds the database's part: \<open>ilike\<close> and \<open>like\<close> compare a text with a pattern, \<open>lower\<close> is \<open>LOWER\<close>, \<open>json\<close>
  the text of a JSON value, \<open>by\<close> the order by a column that is neither the title nor a time, where there is such a column.
\<close>

section \<open>Order\<close>

datatype dialect = Sqlite | Postgresql | Other_dialect

record list_sql =
  ls_ilike :: "string \<Rightarrow> string \<Rightarrow> bool"
  ls_like :: "string \<Rightarrow> string \<Rightarrow> bool"
  ls_lower :: "string \<Rightarrow> string"
  ls_json :: "pyval \<Rightarrow> string"
  ls_by :: "string \<Rightarrow> (bool \<Rightarrow> chat_row list \<Rightarrow> chat_row list) option"
  ls_dialect :: dialect

definition title_text :: "chat_row \<Rightarrow> string" where
  "title_text c = (case ch_title c of VStr t \<Rightarrow> t | _ \<Rightarrow> [])"

definition sort_desc :: "('a \<Rightarrow> 'k::linorder) \<Rightarrow> 'a list \<Rightarrow> 'a list" where
  "sort_desc f rows = rev (sort_key f (rev rows))"

text \<open>The second key of an order is the id.\<close>

definition by_id :: "chat_row list \<Rightarrow> chat_row list" where
  "by_id rows = sort_key ch_id rows"

definition newest_first :: "chat_row list \<Rightarrow> chat_row list" where
  "newest_first rows = order_desc ch_updated_at (by_id rows)"

definition unread :: "chat_db \<Rightarrow> chat_row \<Rightarrow> bool" where
  "unread db c \<longleftrightarrow> (case ch_last_read_at c of None \<Rightarrow> 0 | Some t \<Rightarrow> t) < ch_updated_at c \<and>
     \<not> has_unfinished_assistant_by_chat_id (ch_id c) (db_messages db)"

text \<open>The order of the sidebar: by a column, or the unread chats of the user first.\<close>

definition chat_list_order :: "chat_db \<Rightarrow> string \<Rightarrow> string \<Rightarrow> string option \<Rightarrow> chat_row list \<Rightarrow> chat_row list" where
  "chat_list_order db sort_by sort_dir uid rows =
     (if sort_by \<noteq> ''unread_updated_at'' then
        (if sort_by = ''title'' then (if sort_dir = ''asc'' then sort_key title_text (by_id rows) else sort_desc title_text (by_id rows))
         else (if sort_dir = ''asc'' then sort_key ch_updated_at (by_id rows) else newest_first rows))
      else order_desc (\<lambda>c. if unread db c \<and> (case uid of None \<Rightarrow> True | Some u \<Rightarrow> ch_user_id c = u) then 1 else 0) (newest_first rows))"

text \<open>A limit or an offset of zero is none.\<close>

definition page_rows :: "nat option \<Rightarrow> nat option \<Rightarrow> 'a list \<Rightarrow> 'a list" where
  "page_rows skip limit rows = paginate skip (case limit of Some 0 \<Rightarrow> None | l \<Rightarrow> l) rows"

section \<open>What a list shows\<close>

record chat_item =
  ci_id :: string
  ci_title :: pyval
  ci_updated_at :: int
  ci_created_at :: int
  ci_last_read_at :: "int option"

definition chat_item_of :: "chat_row \<Rightarrow> chat_item" where
  "chat_item_of c = \<lparr>ci_id = ch_id c, ci_title = ch_title c, ci_updated_at = ch_updated_at c, ci_created_at = ch_created_at c,
     ci_last_read_at = ch_last_read_at c\<rparr>"

text \<open>An item needs a text as its title.\<close>

definition chat_items :: "chat_row list \<Rightarrow> chat_item list result" where
  "chat_items rows = rmap (\<lambda>c. if is_str (ch_title c) then Inr (chat_item_of c) else Inl (ValueError ''ChatTitleIdResponse'')) rows"

definition chat_models :: "chat_row list \<Rightarrow> chat_row list result" where
  "chat_models rows = rmap (\<lambda>c. if chat_valid c then Inr (chat_model c) else Inl (ValueError ''ChatModel'')) rows"

record list_filter =
  lf_query :: "string option"
  lf_order_by :: "string option"
  lf_direction :: "string option"
  lf_updated_at :: "int option"

definition no_filter :: list_filter where
  "no_filter = \<lparr>lf_query = None, lf_order_by = None, lf_direction = None, lf_updated_at = None\<rparr>"

definition title_like :: "list_sql \<Rightarrow> string \<Rightarrow> pyval \<Rightarrow> bool" where
  "title_like sql q title \<longleftrightarrow> (case title of VStr t \<Rightarrow> ls_ilike sql t (''%'' @ q @ ''%'') | _ \<Rightarrow> False)"

definition title_hit :: "list_sql \<Rightarrow> string option \<Rightarrow> pyval \<Rightarrow> bool" where
  "title_hit sql q title \<longleftrightarrow> (given q \<longrightarrow> title_like sql (the q) title)"

text \<open>By one of the columns; the direction is \<open>asc\<close> or \<open>desc\<close> in any case of letters.\<close>

definition by_column :: "list_sql \<Rightarrow> string \<Rightarrow> (bool \<Rightarrow> chat_row list \<Rightarrow> chat_row list) option" where
  "by_column sql col =
     (if col = ''title'' then Some (\<lambda>asc rows. if asc then sort_key title_text rows else sort_desc title_text rows)
      else if col = ''updated_at'' then Some (\<lambda>asc rows. if asc then sort_key ch_updated_at rows else order_desc ch_updated_at rows)
      else if col = ''created_at'' then Some (\<lambda>asc rows. if asc then sort_key ch_created_at rows else order_desc ch_created_at rows)
      else ls_by sql col)"

definition ordered_by :: "list_sql \<Rightarrow> py_error \<Rightarrow> string \<Rightarrow> string \<Rightarrow> chat_row list \<Rightarrow> chat_row list result" where
  "ordered_by sql missing col direction rows =
     (case by_column sql col of
        None \<Rightarrow> Inl missing
      | Some f \<Rightarrow>
          if py_lower direction = ''asc'' then Inr (f True (by_id rows))
          else if py_lower direction = ''desc'' then Inr (f False (by_id rows))
          else Inl (ValueError ''Invalid direction for ordering''))"

text \<open>A filter without an order leaves the rows in the order of the table.\<close>

definition filtered_chats :: "list_sql \<Rightarrow> py_error \<Rightarrow> list_filter \<Rightarrow> chat_row list \<Rightarrow> chat_row list result" where
  "filtered_chats sql missing f rows =
     (let hits = filter (\<lambda>c. title_hit sql (lf_query f) (ch_title c)) rows
      in if f = no_filter then Inr (newest_first hits)
         else if given (lf_order_by f) \<and> given (lf_direction f) then ordered_by sql missing (the (lf_order_by f)) (the (lf_direction f)) hits
         else Inr hits)"

section \<open>Lists of one user\<close>

definition listed_chats :: "chat_env \<Rightarrow> string \<Rightarrow> chat_db \<Rightarrow> chat_row list" where
  "listed_chats env uid db = filter (\<lambda>c. ch_user_id c = uid \<and> \<not> internal env c) (db_chats db)"

definition get_archived_chat_list_by_user_id ::
    "chat_env \<Rightarrow> list_sql \<Rightarrow> string \<Rightarrow> list_filter \<Rightarrow> nat option \<Rightarrow> nat option \<Rightarrow> chat_db \<Rightarrow> chat_item list result" where
  "get_archived_chat_list_by_user_id env sql uid f skip limit db =
     rbind (filtered_chats sql (ValueError ''Invalid order_by field'') f (filter ch_archived (listed_chats env uid db))) (\<lambda>rows.
     rbind (chat_items (page_rows skip limit rows)) (\<lambda>items. Inr (map (\<lambda>x. x\<lparr>ci_last_read_at := None\<rparr>) items)))"

definition count_archived_chats_by_user_id :: "chat_env \<Rightarrow> string \<Rightarrow> chat_db \<Rightarrow> nat" where
  "count_archived_chats_by_user_id env uid db = length (filter ch_archived (listed_chats env uid db))"

definition get_chat_list_by_user_id ::
    "chat_env \<Rightarrow> list_sql \<Rightarrow> string \<Rightarrow> bool \<Rightarrow> list_filter \<Rightarrow> nat option \<Rightarrow> nat option \<Rightarrow> chat_db \<Rightarrow> chat_item list result" where
  "get_chat_list_by_user_id env sql uid include_archived f skip limit db =
     rbind (filtered_chats sql AttributeError f (filter (\<lambda>c. include_archived \<or> \<not> ch_archived c) (listed_chats env uid db))) (\<lambda>rows.
       chat_items (page_rows skip limit rows))"

definition not_pinned :: "chat_row \<Rightarrow> bool" where
  "not_pinned c \<longleftrightarrow> ch_pinned c \<noteq> Some True"

definition get_chat_title_id_list_by_user_id ::
    "chat_env \<Rightarrow> string \<Rightarrow> bool \<Rightarrow> bool \<Rightarrow> bool \<Rightarrow> string \<Rightarrow> string \<Rightarrow> nat option \<Rightarrow> nat option \<Rightarrow> chat_db \<Rightarrow> chat_item list result" where
  "get_chat_title_id_list_by_user_id env uid include_archived include_folders include_pinned sort_by sort_dir skip limit db =
     chat_items (page_rows skip limit (chat_list_order db sort_by sort_dir None
       (filter (\<lambda>c. (include_folders \<or> ch_folder_id c = None) \<and> (include_pinned \<or> not_pinned c) \<and> (include_archived \<or> \<not> ch_archived c))
          (listed_chats env uid db))))"

definition get_chats_by_user_id :: "chat_env \<Rightarrow> list_sql \<Rightarrow> string \<Rightarrow> list_filter \<Rightarrow> nat option \<Rightarrow> nat option \<Rightarrow> chat_db \<Rightarrow> (chat_row list \<times> nat) result" where
  "get_chats_by_user_id env sql uid f skip limit db =
     (let rows = filter (\<lambda>c. case lf_updated_at f of None \<Rightarrow> True | Some t \<Rightarrow> t = 0 \<or> t < ch_updated_at c) (listed_chats env uid db);
          sorted = (if given (lf_order_by f) \<and> given (lf_direction f)
            then (case ordered_by sql AttributeError (the (lf_order_by f)) (the (lf_direction f)) rows of Inl e \<Rightarrow> rows | Inr r \<Rightarrow> r)
            else newest_first rows)
      in rbind (chat_models (paginate skip limit sorted)) (\<lambda>items. Inr (items, length rows)))"

definition get_pinned_chats_by_user_id :: "chat_env \<Rightarrow> string \<Rightarrow> chat_db \<Rightarrow> chat_item list result" where
  "get_pinned_chats_by_user_id env uid db =
     chat_items (order_desc ch_updated_at (filter (\<lambda>c. ch_pinned c = Some True \<and> \<not> ch_archived c) (listed_chats env uid db)))"

definition get_archived_chats_by_user_id :: "chat_env \<Rightarrow> string \<Rightarrow> chat_db \<Rightarrow> chat_row list result" where
  "get_archived_chats_by_user_id env uid db = chat_models (order_desc ch_updated_at (filter ch_archived (listed_chats env uid db)))"

definition get_chat_list_by_user_id_and_tag_name ::
    "chat_env \<Rightarrow> string \<Rightarrow> string \<Rightarrow> nat option \<Rightarrow> nat option \<Rightarrow> chat_db \<Rightarrow> chat_item list result" where
  "get_chat_list_by_user_id_and_tag_name env uid name skip limit db =
     chat_items (page_rows skip limit (newest_first (filter (tagged (tag_id_of name)) (listed_chats env uid db))))"

section \<open>Lists across users\<close>

text \<open>Both take an offset and a limit and use neither.\<close>

definition get_chats :: "chat_env \<Rightarrow> nat \<Rightarrow> nat \<Rightarrow> chat_db \<Rightarrow> chat_row list result" where
  "get_chats env skip limit db = chat_models (order_desc ch_updated_at (filter (\<lambda>c. \<not> internal env c) (db_chats db)))"

definition get_chat_list_by_chat_ids :: "chat_env \<Rightarrow> string list \<Rightarrow> nat \<Rightarrow> nat \<Rightarrow> chat_db \<Rightarrow> chat_row list result" where
  "get_chat_list_by_chat_ids env ids skip limit db =
     chat_models (order_desc ch_updated_at (filter (\<lambda>c. ch_id c \<in> set ids \<and> \<not> ch_archived c \<and> \<not> internal env c) (db_chats db)))"

definition get_chat_metas_by_chat_ids :: "string list \<Rightarrow> bool \<Rightarrow> chat_db \<Rightarrow> dict list" where
  "get_chat_metas_by_chat_ids ids include_archived db =
     map ch_meta (filter (\<lambda>c. ch_id c \<in> set ids \<and> (include_archived \<or> \<not> ch_archived c)) (db_chats db))"

record model_chat =
  mo_chat_id :: string
  mo_user_id :: string
  mo_user_name :: "string option"
  mo_first_message :: pyval
  mo_updated_at :: int

definition get_chats_by_model_id ::
    "chat_env \<Rightarrow> user_db \<Rightarrow> string \<Rightarrow> int option \<Rightarrow> int option \<Rightarrow> string option \<Rightarrow> string option \<Rightarrow> nat option \<Rightarrow> nat option \<Rightarrow> chat_db \<Rightarrow>
       model_chat list \<times> nat" where
  "get_chats_by_model_id env udb model start stop column direction skip limit db =
     (let ids = map cm_chat_id (filter (\<lambda>m. cm_model_id m = VStr model \<and> in_range start stop m) (db_messages db));
          name = (\<lambda>c. map_option u_name (List.find (\<lambda>u. u_id u = ch_user_id c) (db_users udb)));
          rows = by_id (filter (\<lambda>c. ch_id c \<in> set ids \<and> \<not> internal env c) (db_chats db));
          asc = (direction = Some ''asc'');
          name_key = (\<lambda>c. case name c of None \<Rightarrow> [] | Some n \<Rightarrow> CHR ''x'' # n);
          sorted = (if column = Some ''title'' then (if asc then sort_key title_text rows else sort_desc title_text rows)
                    else if column = Some ''user_name'' then (if asc then sort_key name_key rows else sort_desc name_key rows)
                    else if asc then sort_key ch_updated_at rows else order_desc ch_updated_at rows)
      in (map (\<lambda>c. \<lparr>mo_chat_id = ch_id c, mo_user_id = ch_user_id c, mo_user_name = name c, mo_first_message = ch_title c, mo_updated_at = ch_updated_at c\<rparr>)
            (page_rows skip limit sorted), length rows))"

section \<open>Folders\<close>

definition in_folder :: "chat_env \<Rightarrow> string \<Rightarrow> chat_row \<Rightarrow> bool" where
  "in_folder env folder c \<longleftrightarrow> ch_folder_id c = Some folder \<and> not_pinned c \<and> \<not> ch_archived c \<and> \<not> internal env c"

definition get_chats_by_folder_id_and_user_id ::
    "chat_env \<Rightarrow> string \<Rightarrow> string \<Rightarrow> nat option \<Rightarrow> nat option \<Rightarrow> string \<Rightarrow> string \<Rightarrow> chat_db \<Rightarrow> chat_item list result" where
  "get_chats_by_folder_id_and_user_id env folder uid skip limit sort_by sort_dir db =
     chat_items (page_rows skip limit (chat_list_order db sort_by sort_dir None
       (filter (\<lambda>c. in_folder env folder c \<and> ch_user_id c = uid) (db_chats db))))"

text \<open>The chats of all users in a folder, as rows.\<close>

definition get_all_chats_by_folder_id ::
    "chat_env \<Rightarrow> string \<Rightarrow> nat option \<Rightarrow> nat option \<Rightarrow> string \<Rightarrow> string \<Rightarrow> string option \<Rightarrow> chat_db \<Rightarrow> (chat_item \<times> string) list" where
  "get_all_chats_by_folder_id env folder skip limit sort_by sort_dir unread_for db =
     map (\<lambda>c. (chat_item_of c, ch_user_id c)) (page_rows skip limit (chat_list_order db sort_by sort_dir unread_for
       (filter (in_folder env folder) (db_chats db))))"

definition count_all_chats_by_folder_id :: "chat_env \<Rightarrow> string \<Rightarrow> chat_db \<Rightarrow> nat" where
  "count_all_chats_by_folder_id env folder db = length (filter (in_folder env folder) (db_chats db))"

definition get_chats_by_folder_ids_and_user_id :: "chat_env \<Rightarrow> string list \<Rightarrow> string \<Rightarrow> chat_db \<Rightarrow> chat_row list result" where
  "get_chats_by_folder_ids_and_user_id env folders uid db =
     chat_models (order_desc ch_updated_at
       (filter (\<lambda>c. list_ex (\<lambda>f. in_folder env f c) folders \<and> ch_user_id c = uid) (db_chats db)))"

definition count_chats_by_folder_id_and_user_id :: "chat_env \<Rightarrow> string \<Rightarrow> string \<Rightarrow> chat_db \<Rightarrow> nat" where
  "count_chats_by_folder_id_and_user_id env folder uid db = length (filter (\<lambda>c. ch_folder_id c = Some folder) (listed_chats env uid db))"

definition count_chats_by_folder_ids_and_user_id :: "chat_env \<Rightarrow> string list \<Rightarrow> string \<Rightarrow> chat_db \<Rightarrow> nat" where
  "count_chats_by_folder_ids_and_user_id env folders uid db =
     length (filter (\<lambda>c. list_ex (\<lambda>f. ch_folder_id c = Some f) folders) (listed_chats env uid db))"

text \<open>Chats that other lists hide are counted too: internal ones and pinned ones.\<close>

definition counts_unread :: "chat_db \<Rightarrow> string \<Rightarrow> string \<Rightarrow> chat_row \<Rightarrow> bool" where
  "counts_unread db uid folder c \<longleftrightarrow> ch_user_id c = uid \<and> ch_folder_id c = Some folder \<and> \<not> ch_archived c \<and> unread db c"

definition count_unread_by_folder_ids :: "string \<Rightarrow> string list \<Rightarrow> chat_db \<Rightarrow> (string, nat) pydict" where
  "count_unread_by_folder_ids uid folders db =
     (let counts = map (\<lambda>f. (f, length (filter (counts_unread db uid f) (db_chats db)))) (remdups folders)
      in filter (\<lambda>(f, n). f \<noteq> [] \<and> 0 < n) counts)"

section \<open>Internal chats\<close>

definition meta_text :: "chat_env \<Rightarrow> string \<Rightarrow> chat_row \<Rightarrow> string option" where
  "meta_text env k c = ce_text env (vget (ch_meta c) k)"

definition get_internal_chat_ids_by_parent_id :: "chat_env \<Rightarrow> string \<Rightarrow> string \<Rightarrow> chat_db \<Rightarrow> string list" where
  "get_internal_chat_ids_by_parent_id env parent uid db =
     map ch_id (filter (\<lambda>c. ch_user_id c = uid \<and> internal env c \<and> meta_text env ''parent_chat_id'' c = Some parent) (db_chats db))"

definition internal_note_rows :: "chat_env \<Rightarrow> string \<Rightarrow> string \<Rightarrow> chat_db \<Rightarrow> chat_row list" where
  "internal_note_rows env note uid db =
     order_desc ch_updated_at (order_desc ch_created_at (filter (\<lambda>c. ch_user_id c = uid \<and> internal env c \<and>
       meta_text env ''type'' c = Some ''note'' \<and> meta_text env ''note_id'' c = Some note) (db_chats db)))"

definition get_internal_chat_by_note_id :: "chat_env \<Rightarrow> string \<Rightarrow> string \<Rightarrow> chat_db \<Rightarrow> chat_row option result" where
  "get_internal_chat_by_note_id env note uid db =
     (case internal_note_rows env note uid db of [] \<Rightarrow> Inr None | c # _ \<Rightarrow> chat_result c)"

definition get_internal_chats_by_note_id :: "chat_env \<Rightarrow> string \<Rightarrow> string \<Rightarrow> chat_db \<Rightarrow> chat_row list result" where
  "get_internal_chats_by_note_id env note uid db = chat_models (internal_note_rows env note uid db)"

section \<open>Time spent in chats\<close>

text \<open>Timestamps above ten thousand million are milliseconds. A gap of more than half an hour ends a session.\<close>

definition active_chat_gap_seconds :: int where
  "active_chat_gap_seconds = 30 * 60"

definition in_seconds :: "int \<Rightarrow> int" where
  "in_seconds n = (if 10000000000 < n then n div 1000 else n)"

fun active_seconds :: "int list \<Rightarrow> int" where
  "active_seconds (a # b # ts) = (if 0 < b - a \<and> b - a \<le> active_chat_gap_seconds then b - a else 0) + active_seconds (b # ts)"
| "active_seconds _ = 0"

definition message_times :: "string \<Rightarrow> chat_db \<Rightarrow> int list" where
  "message_times cid db =
     map in_seconds (sort (map timestamp (filter (\<lambda>m. cm_created_at m \<noteq> VNone) (messages_of_chat cid (db_messages db)))))"

definition get_user_usage_chat_stats :: "chat_env \<Rightarrow> string \<Rightarrow> chat_db \<Rightarrow> nat \<times> int" where
  "get_user_usage_chat_stats env uid db =
     (let mine = listed_chats env uid db
      in (length mine, fold max (map (\<lambda>c. active_seconds (message_times (ch_id c) db)) mine) 0))"

section \<open>Search\<close>

definition prefixed :: "string \<Rightarrow> string list \<Rightarrow> string list" where
  "prefixed p words = map (replace_text p []) (filter (prefix p) words)"

definition flag :: "string \<Rightarrow> string list \<Rightarrow> bool option" where
  "flag name words =
     (if name @ '':true'' \<in> set words then Some True else if name @ '':false'' \<in> set words then Some False else None)"

definition search_prefixes :: "string list" where
  "search_prefixes = [''tag:'', ''folder:'', ''pinned:'', ''archived:'', ''shared:'']"

definition plain_words :: "string list \<Rightarrow> string list" where
  "plain_words words = filter (\<lambda>w. \<not> list_ex (\<lambda>p. prefix p w) search_prefixes) words"

text \<open>The elements of a JSON value that \<open>json_each\<close> lists.\<close>

definition json_elements :: "pyval \<Rightarrow> pyval list" where
  "json_elements v = (case v of VList xs \<Rightarrow> xs | VDict d \<Rightarrow> map snd d | VNone \<Rightarrow> [] | w \<Rightarrow> [w])"

definition content_of :: "pyval \<Rightarrow> pyval" where
  "content_of v = (case v of VDict m \<Rightarrow> vget m ''content'' | _ \<Rightarrow> VNone)"

definition like_key :: "list_sql \<Rightarrow> string \<Rightarrow> string \<Rightarrow> bool" where
  "like_key sql key text = ls_like sql (ls_lower sql text) (''%'' @ key @ ''%'')"

definition text_content_hit :: "list_sql \<Rightarrow> string \<Rightarrow> pyval \<Rightarrow> bool" where
  "text_content_hit sql key v = (case v of VStr s \<Rightarrow> like_key sql key s | _ \<Rightarrow> False)"

text \<open>SQLite looks into the list \<open>messages\<close> of the chat only, PostgreSQL also into the rows of messages and into the history.\<close>

definition content_hit :: "list_sql \<Rightarrow> string \<Rightarrow> chat_db \<Rightarrow> chat_row \<Rightarrow> bool" where
  "content_hit sql key db c \<longleftrightarrow>
     (if ls_dialect sql = Sqlite
      then list_ex (\<lambda>v. content_of v \<noteq> VNone \<and> like_key sql key (ls_json sql (content_of v))) (json_elements (vget (ch_chat c) ''messages''))
      else list_ex (\<lambda>m. cm_user_id m = ch_user_id c \<and> text_content_hit sql key (cm_content m)) (messages_of_chat (ch_id c) (db_messages db)) \<or>
           list_ex (\<lambda>kv. text_content_hit sql key (content_of (snd kv))) (history_messages (ch_chat c)) \<or>
           list_ex (\<lambda>v. text_content_hit sql key (content_of v)) (json_elements (vget (ch_chat c) ''messages'')))"

text \<open>PostgreSQL leaves out chats whose JSON or title match patterns for null characters.\<close>

definition backslash_text :: string where
  "backslash_text = [backslash]"

definition null_safe :: "list_sql \<Rightarrow> chat_row \<Rightarrow> bool" where
  "null_safe sql c \<longleftrightarrow> ls_dialect sql = Postgresql \<longrightarrow>
     \<not> ls_like sql (ls_json sql (VDict (ch_chat c))) (''%'' @ backslash_text @ backslash_text @ ''u0000%'') \<and>
     \<not> ls_like sql (title_text c) (''%'' @ backslash_text @ ''x00%'')"

definition tags_hit :: "string list \<Rightarrow> chat_row \<Rightarrow> bool" where
  "tags_hit tags c \<longleftrightarrow>
     (if ''none'' \<in> set tags then json_elements (vget (ch_meta c) ''tags'') = [] else list_all (\<lambda>t. tagged t c) tags)"

datatype search_answer = Summaries "chat_item list" | Chats_found "chat_row list"

definition found_chats ::
    "chat_env \<Rightarrow> list_sql \<Rightarrow> string list \<Rightarrow> string list \<Rightarrow> string \<Rightarrow> bool \<Rightarrow> chat_db \<Rightarrow> chat_row list" where
  "found_chats env sql folders words uid include_archived db =
     (let tags = map tag_id_of (prefixed ''tag:'' words); key = py_join '' '' (plain_words words)
      in newest_first (filter (\<lambda>c.
           (case flag ''archived'' words of Some b \<Rightarrow> ch_archived c = b | None \<Rightarrow> include_archived \<or> \<not> ch_archived c) \<and>
           (case flag ''pinned'' words of Some b \<Rightarrow> ch_pinned c = Some b | None \<Rightarrow> True) \<and>
           (case flag ''shared'' words of Some b \<Rightarrow> (ch_share_id c \<noteq> None) = b | None \<Rightarrow> True) \<and>
           (folders = [] \<or> list_ex (\<lambda>f. ch_folder_id c = Some f) folders) \<and>
           null_safe sql c \<and> (title_like sql key (ch_title c) \<or> content_hit sql key db c) \<and> tags_hit tags c)
         (listed_chats env uid db)))"

definition get_chats_by_user_id_and_search_text ::
    "chat_env \<Rightarrow> list_sql \<Rightarrow> nat \<Rightarrow> folder_db \<Rightarrow> string \<Rightarrow> string \<Rightarrow> bool \<Rightarrow> nat \<Rightarrow> nat \<Rightarrow> chat_db \<Rightarrow> search_answer result" where
  "get_chats_by_user_id_and_search_text env sql depth fdb uid text include_archived skip limit db =
     (let s = py_strip (py_lower (sanitize_text_for_db text)); words = py_split CHR '' '' s
      in if s = [] then rbind (get_chat_list_by_user_id env sql uid include_archived no_filter (Some skip) (Some limit) db) (\<lambda>xs. Inr (Summaries xs))
         else rbind (search_folders_by_names depth uid (prefixed ''folder:'' words) fdb) (\<lambda>folders.
              if ls_dialect sql = Other_dialect then Inl (RuntimeError ''Unsupported dialect'')
              else rbind (chat_models (paginate (Some skip) (Some limit) (found_chats env sql (map f_id folders) words uid include_archived db)))
                     (\<lambda>cs. Inr (Chats_found cs))))"

section \<open>The pages of a list fit together\<close>

lemma filter_same_key: "distinct (map f zs) \<Longrightarrow> k \<in> set zs \<Longrightarrow> filter (\<lambda>x. f k = f x) zs = [k]"
  by (induction zs) (auto simp: filter_empty_conv image_iff)

lemma sort_key_unique:
  assumes "mset xs = mset ys" "distinct (map f ys)"
  shows "sort_key f xs = sort_key f ys"
proof (rule properties_for_sort_key)
  have d: "distinct (map f xs)" "set xs = set ys"
    using assms by (metis distinct_map mset_eq_imp_distinct_iff mset_eq_setD mset_map, metis mset_eq_setD)
  show "mset (sort_key f ys) = mset xs" using assms(1) by simp
  show "sorted (map f (sort_key f ys))" by simp
  fix k assume k: "k \<in> set (sort_key f ys)"
  have "distinct (map f (sort_key f ys))" using assms(2) by (simp add: distinct_map)
  then show "filter (\<lambda>x. f k = f x) (sort_key f ys) = filter (\<lambda>x. f k = f x) xs"
    using filter_same_key [of f] k d by simp
qed

lemma set_by_id [simp]: "set (by_id rows) = set rows"
  by (simp add: by_id_def)

lemma set_sort_desc [simp]: "set (sort_desc f rows) = set rows"
  by (simp add: sort_desc_def)

lemma set_chat_list_order [simp]: "set (chat_list_order db sort_by sort_dir uid rows) = set rows"
  by (simp add: chat_list_order_def newest_first_def)

lemma distinct_sort_key_ids [simp]: "distinct (map g (sort_key f rows)) = distinct (map g rows)"
  by (simp add: distinct_map)

lemma distinct_chat_list_order:
  "distinct (map ch_id rows) \<Longrightarrow> distinct (map ch_id (chat_list_order db sort_by sort_dir uid rows))"
  by (simp add: chat_list_order_def newest_first_def by_id_def sort_desc_def order_desc_def distinct_map)

definition same_rows :: "chat_db \<Rightarrow> chat_db \<Rightarrow> bool" where
  "same_rows db db' \<longleftrightarrow> mset (db_chats db') = mset (db_chats db) \<and> db_messages db' = db_messages db"

lemma chat_list_order_same:
  assumes "same_rows db db'" "mset rows' = mset rows" "distinct (map ch_id rows)"
  shows "chat_list_order db' sort_by sort_dir uid rows' = chat_list_order db sort_by sort_dir uid rows"
proof -
  have "by_id rows' = by_id rows" using sort_key_unique [OF assms(2, 3)] by (simp add: by_id_def)
  moreover have "unread db' = unread db" using assms(1) by (auto simp: unread_def same_rows_def)
  ultimately show ?thesis by (simp add: chat_list_order_def newest_first_def)
qed

definition in_sidebar :: "chat_env \<Rightarrow> string \<Rightarrow> bool \<Rightarrow> bool \<Rightarrow> bool \<Rightarrow> chat_row \<Rightarrow> bool" where
  "in_sidebar env uid archived folders pinned c \<longleftrightarrow> ch_user_id c = uid \<and> \<not> internal env c \<and>
     (folders \<or> ch_folder_id c = None) \<and> (pinned \<or> not_pinned c) \<and> (archived \<or> \<not> ch_archived c)"

text \<open>The list of a user's chats has one order, however the database returns the rows: every page of it is cut from the same sequence,
  in which each chat of the user that is asked for, and no other chat, stands once.\<close>
theorem sidebar_pages_fit:
  assumes "distinct (map ch_id (db_chats db))"
  shows "\<exists>order. distinct (map ch_id order) \<and> set order = {c \<in> set (db_chats db). in_sidebar env uid archived folders pinned c} \<and>
    (\<forall>db' skip limit. same_rows db db' \<longrightarrow>
       get_chat_title_id_list_by_user_id env uid archived folders pinned sort_by sort_dir skip limit db' = chat_items (page_rows skip limit order))"
proof -
  let ?P = "in_sidebar env uid archived folders pinned"
  have rows: "filter (\<lambda>c. (folders \<or> ch_folder_id c = None) \<and> (pinned \<or> not_pinned c) \<and> (archived \<or> \<not> ch_archived c)) (listed_chats env uid d)
      = filter ?P (db_chats d)" for d
    by (auto simp: listed_chats_def in_sidebar_def intro: filter_cong)
  let ?order = "chat_list_order db sort_by sort_dir None (filter ?P (db_chats db))"
  have "chat_list_order db' sort_by sort_dir None (filter ?P (db_chats db')) = ?order" if "same_rows db db'" for db'
    using that assms by (intro chat_list_order_same) (auto simp: same_rows_def distinct_map_filter_key)
  moreover have "distinct (map ch_id ?order)" using assms by (intro distinct_chat_list_order distinct_map_filter_key)
  ultimately show ?thesis
    by (intro exI [of _ ?order]) (auto simp: get_chat_title_id_list_by_user_id_def rows)
qed

section \<open>Marking chats as read\<close>

text \<open>Afterwards only internal chats count as unread in the folders.\<close>

lemma mark_read_clears:
  assumes "c \<in> set (db_chats (snd (mark_chats_read_by_folder_ids env uid folders db)))" "folder \<in> set folders"
    and "counts_unread (snd (mark_chats_read_by_folder_ids env uid folders db)) uid folder c"
  shows "internal env c"
proof -
  obtain b where b: "b \<in> set (db_chats db)"
    "c = (if readable_by env uid b \<and> (case ch_folder_id b of None \<Rightarrow> False | Some f \<Rightarrow> f \<in> set folders)
          then b\<lparr>ch_last_read_at := Some (ch_updated_at b)\<rparr> else b)"
    using assms(1, 2) by (auto simp: mark_chats_read_by_folder_ids_def mark_read_def change_chats_def split: if_splits)
  show ?thesis
  proof (cases "readable_by env uid b \<and> (case ch_folder_id b of None \<Rightarrow> False | Some f \<Rightarrow> f \<in> set folders)")
    case True
    then have "\<not> unread db' c" for db' using b(2) by (simp add: unread_def)
    then show ?thesis using assms(3) by (simp add: counts_unread_def)
  next
    case False
    then show ?thesis using b(2) assms(2, 3) by (auto simp: counts_unread_def readable_by_def)
  qed
qed

section \<open>A title that PostgreSQL does not find\<close>

text \<open>In the second pattern the escape character stands before the letter x: titles with the text x00 are left out of every search.\<close>

lemma title_hidden:
  assumes "ls_dialect sql = Postgresql" "ls_like sql = (\<lambda>s p. like_match (\<lambda>a b. a = b) p s)" "ch_title c = VStr ''0x00''"
  shows "\<not> null_safe sql c"
proof -
  have "like_match (\<lambda>a b. a = b) (''%'' @ backslash_text @ ''x00%'') ''0x00''" by code_simp
  then show ?thesis using assms by (simp add: null_safe_def title_text_def)
qed

section \<open>A search finds chats of the user\<close>

lemma found_chats_listed: "set (found_chats env sql folders words uid archived db) \<subseteq> set (listed_chats env uid db)"
  by (auto simp: found_chats_def newest_first_def Let_def)

section \<open>An example\<close>

definition list_db :: chat_db where
  "list_db = \<lparr>db_chats = [list_chat ''a'' 3, list_chat ''b'' 5, list_chat ''c'' 3], db_messages = [], db_tags = [], db_shared = [], db_chat_files = [],
     db_runs = [], db_chat_grants = \<lparr>db_grants = [], gdb_uuid = 0\<rparr>, db_chat_uuid = 0\<rparr>"

lemma sidebar_pages_fit_witness:
  "(\<exists>order. set order = set (db_chats list_db) \<and>
     chat_items (page_rows (Some 1) (Some 1) order) = get_chat_title_id_list_by_user_id list_env ''u'' False False False ''updated_at'' ''desc'' (Some 1) (Some 1) list_db) \<and>
   get_chat_title_id_list_by_user_id list_env ''u'' False False False ''updated_at'' ''desc'' (Some 1) (Some 1) list_db = Inr [chat_item_of (list_chat ''a'' 3)]"
proof
  have d: "distinct (map ch_id (db_chats list_db))" by (simp add: list_db_def list_chat_def)
  have all: "{c \<in> set (db_chats list_db). in_sidebar list_env ''u'' False False False c} = set (db_chats list_db)"
    by (auto simp: list_db_def list_chat_def in_sidebar_def internal_def list_env_def not_pinned_def)
  show "\<exists>order. set order = set (db_chats list_db) \<and>
     chat_items (page_rows (Some 1) (Some 1) order) = get_chat_title_id_list_by_user_id list_env ''u'' False False False ''updated_at'' ''desc'' (Some 1) (Some 1) list_db"
    using sidebar_pages_fit [OF d, of list_env "''u''" False False False "''updated_at''" "''desc''"] unfolding all same_rows_def by metis
  show "get_chat_title_id_list_by_user_id list_env ''u'' False False False ''updated_at'' ''desc'' (Some 1) (Some 1) list_db = Inr [chat_item_of (list_chat ''a'' 3)]"
    by code_simp
qed

end
