(* ===== verification/ChatWrites.thy ===== *)
theory ChatWrites
  imports Chats
begin

text \<open>
  The messages inside a chat: the methods of \<open>ChatTable\<close> in \<open>backend/open_webui/models/chats.py\<close> that write a message to the history in the
  JSON of a chat and to the rows of \<open>ChatMessages\<close>, delete one from both, and read the conversation back. The messages of a history
  are dictionaries; on other values the code raises where it meets them.
\<close>

section \<open>The history of a chat\<close>

definition typed_messages :: "pyval \<Rightarrow> messages result" where
  "typed_messages v =
     (case v of
        VDict ms \<Rightarrow> if list_all (\<lambda>kv. is_dict (snd kv)) ms then Inr (map (\<lambda>kv. (fst kv, dict_value (snd kv))) ms) else Inl AttributeError
      | _ \<Rightarrow> Inl AttributeError)"

definition as_values :: "messages \<Rightarrow> dict" where
  "as_values ms = map (\<lambda>kv. (fst kv, VDict (snd kv))) ms"

text \<open>\<open>chat.get('history', {})\<close>, as the dictionary it is and as a history.\<close>

definition history_of :: "dict \<Rightarrow> (dict \<times> history) result" where
  "history_of chat =
     (case dget_or chat ''history'' (VDict []) of
        VDict h \<Rightarrow> rbind (typed_messages (dget_or h ''messages'' (VDict []))) (\<lambda>ms.
          Inr (h, \<lparr>hi_messages = ms, hi_current = vget h ''currentId''\<rparr>))
      | _ \<Rightarrow> Inl AttributeError)"

definition put_history :: "dict \<Rightarrow> dict \<Rightarrow> history \<Rightarrow> dict" where
  "put_history chat h hist =
     dset chat ''history'' (VDict (dset (dset h ''messages'' (VDict (as_values (hi_messages hist)))) ''currentId'' (hi_current hist)))"

definition with_chat :: "chat_env \<Rightarrow> bool \<Rightarrow> dict \<Rightarrow> chat_row \<Rightarrow> chat_row" where
  "with_chat env touch chat c =
     (let clean = clean_dict chat
      in c\<lparr>ch_chat := clean, ch_title := chat_title clean, ch_current_message_id := get_current_message_id clean,
           ch_updated_at := (if touch then ce_now env else ch_updated_at c)\<rparr>)"

text \<open>The JSON that a write starts from.\<close>

definition base_chat :: "chat_row \<Rightarrow> dict result" where
  "base_chat c = repaired_chat (clean_dict (ch_chat c))"

section \<open>Writing a message\<close>

definition filled_message :: "dict \<Rightarrow> dict" where
  "filled_message message =
     (let t = get_output_text (vget message ''output'');
          m = (if truthy (vget message ''content'') \<or> t = [] then message else dset message ''content'' (VStr t))
      in case vget m ''content'' of VStr s \<Rightarrow> dset m ''content'' (VStr (sanitize_text_for_db s)) | _ \<Rightarrow> m)"

definition written_chat :: "chat_env \<Rightarrow> string \<Rightarrow> dict \<Rightarrow> chat_row \<Rightarrow> (dict \<times> dict) result" where
  "written_chat env mid message c =
     rbind (base_chat c) (\<lambda>chat. rbind (history_of chat) (\<lambda>(h, hist).
     rbind (upsert_message_to_history (ce_now env) hist mid (filled_message message)) (\<lambda>(saved, hist').
       Inr (put_history chat h hist', saved))))"

definition upsert_message_to_chat_by_id_and_message_id ::
    "chat_env \<Rightarrow> string \<Rightarrow> string \<Rightarrow> dict \<Rightarrow> bool \<Rightarrow> chat_db \<Rightarrow> chat_row option \<times> chat_db" where
  "upsert_message_to_chat_by_id_and_message_id env i mid message touch db =
     (case find_chat i db of
        None \<Rightarrow> (None, db)
      | Some c \<Rightarrow>
          (case written_chat env mid message c of
             Inl e \<Rightarrow> (None, db)
           | Inr (chat, saved) \<Rightarrow>
               (case update_row env i (with_chat env touch chat) db of
                  (None, db1) \<Rightarrow> (None, db1)
                | (Some m, db1) \<Rightarrow>
                    (Some m, db1\<lparr>db_messages := snd (upsert_message (ce_checks env) (ce_now env) mid i (ch_user_id c) saved (db_messages db1))\<rparr>))))"

section \<open>Deleting a message\<close>

text \<open>
  Deleting follows the children of the parent to the last leaf, which does not end on a history with a cycle. Where nothing is deleted the
  repaired chat is stored with its old time. The rows that remain are written again before those of the deleted messages go.
\<close>

definition deleted_chat :: "chat_env \<Rightarrow> string \<Rightarrow> chat_row \<Rightarrow> (string set \<times> dict \<times> messages) result option" where
  "deleted_chat env mid c =
     (case rbind (base_chat c) (\<lambda>chat. rbind (history_of chat) (\<lambda>(h, hist). Inr (chat, h, hist))) of
        Inl e \<Rightarrow> Some (Inl e)
      | Inr (chat, h, hist) \<Rightarrow>
          (case delete_message_from_history hist mid of
             None \<Rightarrow> None
           | Some (Inl e) \<Rightarrow> Some (Inl e)
           | Some (Inr (removed, hist')) \<Rightarrow> Some (Inr (removed, if removed = {} then chat else put_history chat h hist', hi_messages hist'))))"

definition delete_message_from_chat_by_id_and_message_id ::
    "chat_env \<Rightarrow> string \<Rightarrow> string \<Rightarrow> chat_db \<Rightarrow> (chat_row option \<times> chat_db) option" where
  "delete_message_from_chat_by_id_and_message_id env i mid db =
     (case find_chat i db of
        None \<Rightarrow> Some (None, db)
      | Some c \<Rightarrow>
          (case deleted_chat env mid c of
             None \<Rightarrow> None
           | Some (Inl e) \<Rightarrow> Some (None, db)
           | Some (Inr (removed, chat, rest)) \<Rightarrow>
               (case update_row env i (with_chat env (removed \<noteq> {}) chat) db of
                  (None, db1) \<Rightarrow> Some (None, db1)
                | (Some m, db1) \<Rightarrow>
                    Some (Some m,
                      if removed = {} then db1
                      else db1\<lparr>db_messages := delete_message_ids_by_chat_id i removed
                             (backfill_messages_by_chat_id (ce_checks env) (ce_now env) i (ch_user_id c) (as_values rest) (db_messages db1))\<rparr>))))"

section \<open>Status and files of a message\<close>

definition change_message :: "(dict \<Rightarrow> dict result) \<Rightarrow> string \<Rightarrow> dict \<Rightarrow> dict result" where
  "change_message f mid chat =
     (case dget_or chat ''history'' (VDict []) of
        VDict h \<Rightarrow>
          rbind (py_in mid (dget_or h ''messages'' (VDict []))) (\<lambda>there.
            if \<not> there then Inr (dset chat ''history'' (VDict h))
            else (case vget h ''messages'' of
                    VDict ms \<Rightarrow>
                      (case vget ms mid of
                         VDict m \<Rightarrow> rbind (f m) (\<lambda>m'. Inr (dset chat ''history'' (VDict (dset h ''messages'' (VDict (dset ms mid (VDict m')))))))
                       | _ \<Rightarrow> Inl AttributeError)
                  | _ \<Rightarrow> Inl TypeError))
      | _ \<Rightarrow> Inl AttributeError)"

definition appended :: "py_error \<Rightarrow> string \<Rightarrow> pyval list \<Rightarrow> dict \<Rightarrow> dict result" where
  "appended e k ys m = (case dget_or m k (VList []) of VList xs \<Rightarrow> Inr (dset m k (VList (xs @ ys))) | _ \<Rightarrow> Inl e)"

definition add_message_status_to_chat_by_id_and_message_id :: "chat_env \<Rightarrow> string \<Rightarrow> string \<Rightarrow> dict \<Rightarrow> chat_db \<Rightarrow> chat_row option \<times> chat_db" where
  "add_message_status_to_chat_by_id_and_message_id env i mid status db =
     (case find_chat i db of
        None \<Rightarrow> (None, db)
      | Some c \<Rightarrow>
          (case rbind (base_chat c) (change_message (appended AttributeError ''statusHistory'' [VDict status]) mid) of
             Inl e \<Rightarrow> (None, db) | Inr chat \<Rightarrow> update_row env i (with_chat env False chat) db))"

definition message_files :: "string \<Rightarrow> dict \<Rightarrow> pyval list" where
  "message_files mid chat =
     (case vget (history_messages chat) mid of VDict m \<Rightarrow> (case vget m ''files'' of VList xs \<Rightarrow> xs | _ \<Rightarrow> []) | _ \<Rightarrow> [])"

definition add_message_files_by_id_and_message_id ::
    "chat_env \<Rightarrow> string \<Rightarrow> string \<Rightarrow> pyval list \<Rightarrow> chat_db \<Rightarrow> pyval list option result \<times> chat_db" where
  "add_message_files_by_id_and_message_id env i mid files db =
     (case get_chat_by_id env i db of
        (None, db1) \<Rightarrow> (Inr None, db1)
      | (Some c, db1) \<Rightarrow>
          run db1 (change_message (appended TypeError ''files'' files) mid (ch_chat c)) (\<lambda>chat.
            (Inr (Some (message_files mid chat)), snd (update_chat_by_id env i chat True db1))))"

section \<open>Reading the conversation\<close>

definition old_messages :: "dict \<Rightarrow> dict result" where
  "old_messages chat =
     (case dget_or chat ''history'' (VDict []) of
        VDict h \<Rightarrow> (case py_or (dget_or h ''messages'' (VDict [])) (VDict []) of VDict ms \<Rightarrow> Inr ms | _ \<Rightarrow> Inl AttributeError)
      | _ \<Rightarrow> Inl AttributeError)"

definition get_message_by_id_and_message_id :: "chat_env \<Rightarrow> string \<Rightarrow> string \<Rightarrow> chat_db \<Rightarrow> pyval option result \<times> chat_db" where
  "get_message_by_id_and_message_id env i mid db =
     (case get_chat_by_id env i db of
        (None, db1) \<Rightarrow> (Inr None, db1)
      | (Some c, db1) \<Rightarrow>
          (rbind (py_get_or (dget_or (ch_chat c) ''history'' (VDict [])) ''messages'' (VDict [])) (\<lambda>ms.
           rbind (py_get_or ms mid (VDict [])) (\<lambda>m. Inr (Some m))), db1))"

text \<open>
  The rows, if there are any; parents they name but do not have are taken from the JSON and stored as rows. Without rows it is the JSON,
  which is stored as rows.
\<close>

definition missing_messages :: "chat_env \<Rightarrow> string set \<Rightarrow> dict \<Rightarrow> dict" where
  "missing_messages env ids old = map (\<lambda>k. (k, vget old k)) (filter (has_key old) (listed_texts env ids))"

definition with_backfill :: "chat_env \<Rightarrow> string \<Rightarrow> chat_row \<Rightarrow> dict \<Rightarrow> chat_db \<Rightarrow> chat_db" where
  "with_backfill env i c ms db =
     db\<lparr>db_messages := backfill_messages_by_chat_id (ce_checks env) (ce_now env) i (ch_user_id c) ms (db_messages db)\<rparr>"

definition get_messages_map_by_chat_id :: "chat_env \<Rightarrow> string \<Rightarrow> chat_db \<Rightarrow> dict option result \<times> chat_db" where
  "get_messages_map_by_chat_id env i db =
     (case row_messages_map i (db_messages db) of
        Some ms \<Rightarrow>
          run db (get_unresolved_parent_ids ms) (\<lambda>ids.
            if ids = [] then (Inr (Some (as_values ms)), db)
            else (case get_chat_by_id env i db of
                    (None, db1) \<Rightarrow> (Inr (Some (as_values ms)), db1)
                  | (Some c, db1) \<Rightarrow>
                      run db1 (old_messages (ch_chat c)) (\<lambda>old.
                        let missing = missing_messages env (set ids) old
                        in (Inr (Some (dmerge (as_values ms) missing)), with_backfill env i c missing db1))))
      | None \<Rightarrow>
          (case get_chat_by_id env i db of
             (None, db1) \<Rightarrow> (Inr None, db1)
           | (Some c, db1) \<Rightarrow> run db1 (old_messages (ch_chat c)) (\<lambda>old. (Inr (Some old), with_backfill env i c old db1))))"

section \<open>A deleted message is gone\<close>

lemma sanitize_idem [simp]: "sanitize_text_for_db (sanitize_text_for_db s) = sanitize_text_for_db s"
  by (simp add: sanitize_text_for_db_def)

lemma dict_from_keys [simp]: "fst ` set (dict_from kvs) = fst ` set kvs"
proof -
  have "fst ` set (foldl (\<lambda>d kv. dset d (fst kv) (snd kv)) d kvs) = fst ` set d \<union> fst ` set kvs" for d
    by (induction kvs arbitrary: d) auto
  then show ?thesis by (simp add: dict_from_def)
qed

lemma dict_from_values: "dget (dict_from kvs) k = Some v \<Longrightarrow> v \<in> snd ` set kvs"
proof -
  have "dget (foldl (\<lambda>d kv. dset d (fst kv) (snd kv)) d kvs) k = Some v \<Longrightarrow> v \<in> snd ` set kvs \<or> dget d k = Some v" for d
    by (induction kvs arbitrary: d) (fastforce split: if_splits)+
  then show "dget (dict_from kvs) k = Some v \<Longrightarrow> v \<in> snd ` set kvs" by (fastforce simp: dict_from_def)
qed

lemma clean_dict_eq: "clean_dict d = dict_from (map (\<lambda>kv. (sanitize_text_for_db (fst kv), sanitize_data_for_db (snd kv))) d)"
  by (simp add: clean_dict_def)

lemma vget_clean: "vget (clean_dict d) k = VNone \<or> (\<exists>v. vget (clean_dict d) k = sanitize_data_for_db v)"
proof (cases "dget (clean_dict d) k")
  case (Some v)
  then have "v \<in> sanitize_data_for_db ` snd ` set d" using dict_from_values [of _ k v] by (force simp: clean_dict_eq)
  then show ?thesis using Some by (auto simp: vget_def)
qed (simp add: vget_def)

text \<open>The keys of the messages in a clean chat have no null character.\<close>

definition clean_keys :: "dict \<Rightarrow> bool" where
  "clean_keys d \<longleftrightarrow> (\<forall>k \<in> fst ` set d. sanitize_text_for_db k = k)"

lemma sanitize_dict: "sanitize_data_for_db v = VDict d \<Longrightarrow> \<exists>e. v = VDict e \<and> d = clean_dict e"
  by (cases v) (auto simp: clean_dict_def)

lemma clean_keys_clean: "clean_keys (clean_dict d)"
  by (auto simp: clean_keys_def clean_dict_eq)

lemma vget_clean_dict: "vget (clean_dict d) k = VDict m \<Longrightarrow> \<exists>e. m = clean_dict e"
  using vget_clean [of d k] sanitize_dict by fastforce

definition clean_shape :: "dict \<Rightarrow> bool" where
  "clean_shape d \<longleftrightarrow> wf_dict d \<and> clean_keys d"

lemma clean_shape_clean [simp]: "clean_shape (clean_dict d)"
proof -
  have "wf_dict (dict_from kvs)" for kvs :: dict
    using wf_dict_dmerge [of "[]" kvs] by (simp add: dict_from_def dmerge_def)
  then show ?thesis by (simp add: clean_shape_def clean_keys_clean) (simp add: clean_dict_eq)
qed

lemma clean_shape_dset: "clean_shape d \<Longrightarrow> sanitize_text_for_db k = k \<Longrightarrow> clean_shape (dset d k v)"
  by (auto simp: clean_shape_def clean_keys_def)

lemma foldl_dset_clean:
  "wf_dict d \<Longrightarrow> clean_keys d \<Longrightarrow> dict_from (map (\<lambda>kv. (sanitize_text_for_db (fst kv), g (snd kv))) d) = map (\<lambda>kv. (fst kv, g (snd kv))) d"
proof -
  assume d: "wf_dict d" "clean_keys d"
  have m: "map (\<lambda>kv. (sanitize_text_for_db (fst kv), g (snd kv))) d = map (\<lambda>kv. (fst kv, g (snd kv))) d"
    using d(2) by (auto simp: clean_keys_def)
  show ?thesis using foldl_dset_new [of fst "map (\<lambda>kv. (fst kv, g (snd kv))) d" "[]" snd] d(1) unfolding m
    by (simp add: dict_from_def wf_dict_def comp_def)
qed

lemma vget_clean_shape: "clean_shape d \<Longrightarrow> vget (clean_dict d) k = sanitize_data_for_db (vget d k)"
  by (simp add: clean_shape_def clean_dict_eq foldl_dset_clean vget_def dget_map_value split: option.split)

lemma base_shape:
  assumes "base_chat c = Inr chat"
  shows "clean_shape chat" "vget chat ''history'' = VDict h \<Longrightarrow> clean_shape h"
    "vget chat ''history'' = VDict h \<Longrightarrow> vget h ''messages'' = VDict ms \<Longrightarrow> clean_keys ms"
proof -
  let ?c0 = "clean_dict (ch_chat c)"
  have sk: "sanitize_text_for_db ''history'' = ''history''" "sanitize_text_for_db ''currentId'' = ''currentId''" by code_simp+
  consider "chat = ?c0" | h0 k where "vget ?c0 ''history'' = VDict h0" "chat = dset ?c0 ''history'' (VDict (dset h0 ''currentId'' (VStr k)))"
    using assms by (auto simp: base_chat_def repaired_chat_def rbind_Inr_iff split: pyval.splits option.splits)
  then have "clean_shape chat \<and> (\<forall>h. vget chat ''history'' = VDict h \<longrightarrow> clean_shape h \<and> (\<forall>ms. vget h ''messages'' = VDict ms \<longrightarrow> clean_keys ms))"
  proof cases
    case 1
    then show ?thesis using vget_clean_dict by (auto simp: clean_keys_clean dest!: vget_clean_dict)
  next
    case (2 h0 k)
    then obtain e where e: "h0 = clean_dict e" using vget_clean_dict by blast
    have "clean_shape chat" using 2(2) sk by (simp add: clean_shape_dset)
    moreover have "clean_shape (dset h0 ''currentId'' (VStr k))" using e sk by (simp add: clean_shape_dset)
    moreover have "clean_keys ms" if "vget h0 ''messages'' = VDict ms" for ms using that e vget_clean_dict clean_keys_clean by metis
    ultimately show ?thesis using 2(2) by simp
  qed
  then show "clean_shape chat" "vget chat ''history'' = VDict h \<Longrightarrow> clean_shape h"
    "vget chat ''history'' = VDict h \<Longrightarrow> vget h ''messages'' = VDict ms \<Longrightarrow> clean_keys ms" by blast+
qed

lemma dset_keys_present: "dget ms k = Some w \<Longrightarrow> fst ` set (dset ms k v) = fst ` set ms"
  by (auto dest!: dget_Some_in simp: rev_image_eqI)

lemma relink_keys:
  assumes "relink ms i parent kids grandkids = Inr ms'"
  shows "fst ` set ms' \<subseteq> fst ` set ms - set (i # kids)"
proof -
  have fold: "fst ` set (foldl (\<lambda>ms g. case dget ms g of Some m \<Rightarrow> dset ms g (dset m ''parentId'' parent) | None \<Rightarrow> ms) m gs) = fst ` set m" for m gs
  proof (induction gs arbitrary: m)
    case (Cons g gs)
    show ?case
    proof (cases "dget m g")
      case (Some w)
      then show ?thesis using Cons.IH [of "dset m g (dset w ''parentId'' parent)"] dset_keys_present [OF Some] by simp
    qed (use Cons.IH in simp)
  qed simp
  obtain pm ms1 where "map_get ms parent = Inr pm" "fst ` set ms1 \<subseteq> fst ` set ms"
    "ms' = filter (\<lambda>kv. fst kv \<notin> set (i # kids)) (foldl (\<lambda>ms g. case dget ms g of Some m \<Rightarrow> dset ms g (dset m ''parentId'' parent) | None \<Rightarrow> ms) ms1 grandkids)"
  proof (cases "map_get ms parent")
    case (Inr pm)
    then show ?thesis
    proof (cases pm)
      case None
      then show ?thesis using assms Inr that [of pm ms] by (auto simp: relink_def Let_def)
    next
      case (Some m)
      then obtain p where p: "parent = VStr p" "dget ms p = Some m" using Inr by (cases parent) (auto split: if_splits)
      from assms Inr Some obtain cs where e: "ms' = filter (\<lambda>kv. fst kv \<notin> set (i # kids))
          (foldl (\<lambda>ms g. case dget ms g of Some m \<Rightarrow> dset ms g (dset m ''parentId'' parent) | None \<Rightarrow> ms) (dset ms p (dset m ''childrenIds'' cs)) grandkids)"
        using p by (auto simp: relink_def Let_def rbind_Inr_iff)
      have sub: "fst ` set (dset ms p (dset m ''childrenIds'' cs)) \<subseteq> fst ` set ms" by (simp only: dset_keys_present [OF p(2)])
      show ?thesis by (rule that [OF Inr sub e])
    qed
  qed (use assms in \<open>simp add: relink_def\<close>)
  then have "fst ` set ms' \<subseteq> fst ` set (foldl (\<lambda>ms g. case dget ms g of Some m \<Rightarrow> dset ms g (dset m ''parentId'' parent) | None \<Rightarrow> ms) ms1 grandkids) - set (i # kids)"
    by auto
  also have "\<dots> \<subseteq> fst ` set ms - set (i # kids)" using fold [of ms1 grandkids] \<open>fst ` set ms1 \<subseteq> fst ` set ms\<close> by blast
  finally show ?thesis .
qed

lemma deleted_keys:
  assumes "delete_message_from_history hist mid = Some (Inr (removed, hist'))" "removed \<noteq> {}"
  shows "mid \<in> removed" "fst ` set (hi_messages hist') \<subseteq> fst ` set (hi_messages hist) - removed"
proof -
  obtain m where m: "dget (hi_messages hist) mid = Some m" using assms by (cases "dget (hi_messages hist) mid") (simp_all add: delete_message_from_history_def)
  let ?ms = "hi_messages hist" and ?p = "vget m ''parentId''"
  let ?plan = "rbind (known_ids ?ms (vget m ''childrenIds'')) (\<lambda>child_ids.
      rbind (rconcat (\<lambda>c. known_ids ?ms (vget (the (dget ?ms c)) ''childrenIds'')) child_ids) (\<lambda>grandchild_ids.
      rbind (relink ?ms mid ?p child_ids grandchild_ids) (\<lambda>ms'.
      rbind (if ?p = VNone then Inr (VList (map (\<lambda>kv. VStr (fst kv)) (filter (\<lambda>kv. vget (snd kv) ''parentId'' = VNone) ms')))
             else children_at ms' ?p) (\<lambda>start. Inr (child_ids, ms', start)))))"
  obtain kids ms' start where plan: "?plan = Inr (kids, ms', start)"
    using assms(1) m by (cases ?plan) (auto simp: delete_message_from_history_def Let_def)
  then obtain grandkids where r: "relink ?ms mid ?p kids grandkids = Inr ms'" by (auto simp: rbind_Inr_iff)
  have "(case descend ms' ?p start of None \<Rightarrow> None | Some (Inl e) \<Rightarrow> Some (Inl e)
      | Some (Inr current) \<Rightarrow> Some (rbind (key_in current ms') (\<lambda>b.
          Inr (set (mid # kids), \<lparr>hi_messages = ms', hi_current = (if b then current else VNone)\<rparr>)))) = Some (Inr (removed, hist'))"
    using assms(1) m plan by (simp add: delete_message_from_history_def Let_def)
  then have "removed = set (mid # kids) \<and> hi_messages hist' = ms'"
    by (cases "descend ms' ?p start") (auto simp: rbind_Inr_iff split: sum.splits)
  then have "\<exists>kids grandkids. removed = set (mid # kids) \<and> relink ?ms mid ?p kids grandkids = Inr (hi_messages hist')" using r by blast
  then obtain kids grandkids where k: "removed = set (mid # kids)"
    "relink (hi_messages hist) mid (vget m ''parentId'') kids grandkids = Inr (hi_messages hist')" by blast
  show "mid \<in> removed" using k(1) by simp
  show "fst ` set (hi_messages hist') \<subseteq> fst ` set (hi_messages hist) - removed" using relink_keys [OF k(2)] k(1) by simp
qed

lemma find_put_chat: "find_chat (ch_id c) db \<noteq> None \<Longrightarrow> find_chat (ch_id c) (put_chat c db) = Some c"
proof -
  have "List.find (\<lambda>q. ch_id q = ch_id c) cs \<noteq> None \<Longrightarrow> List.find (\<lambda>q. ch_id q = ch_id c) (map (\<lambda>q. if ch_id q = ch_id c then c else q) cs) = Some c" for cs
    by (induction cs) auto
  then show "find_chat (ch_id c) db \<noteq> None \<Longrightarrow> find_chat (ch_id c) (put_chat c db) = Some c" by (simp add: find_chat_def put_chat_def)
qed

lemma find_chatD: "find_chat i db = Some c \<Longrightarrow> c \<in> set (db_chats db) \<and> ch_id c = i"
  by (auto simp: find_chat_def dest: find_SomeD)

lemma update_row_Some:
  assumes "update_row env i f db = (Some m, db')" "\<And>c. ch_id (f c) = ch_id c"
  shows "\<exists>c. find_chat i db = Some c \<and> m = chat_model (f c) \<and> db' = put_chat (f c) db \<and> find_chat i db' = Some (f c)"
proof -
  obtain c where c: "find_chat i db = Some c" "m = chat_model (f c)" "db' = put_chat (f c) db"
    using assms(1) by (auto simp: update_row_def split: option.splits if_splits)
  have "ch_id (f c) = i" using find_chatD [OF c(1)] assms(2) by simp
  then have "find_chat i (put_chat (f c) db) = Some (f c)" using find_put_chat [of "f c" db] c(1) by simp
  with c show ?thesis by blast
qed

lemma history_ofD:
  assumes "history_of chat = Inr (h, hist)"
  shows "h = [] \<or> vget chat ''history'' = VDict h" "hi_messages hist = [] \<or> (\<exists>ms. vget h ''messages'' = VDict ms \<and> dkeys (hi_messages hist) = dkeys ms)"
  using assms by (auto simp: history_of_def typed_messages_def rbind_Inr_iff dget_or_def vget_def split: pyval.splits if_splits option.splits)

lemma stored_history_keys:
  assumes "base_chat c = Inr chat" "history_of chat = Inr (h, hist)" "fst ` set (hi_messages hist') \<subseteq> fst ` set (hi_messages hist)"
  shows "fst ` set (history_messages (clean_dict (put_history chat h hist'))) = fst ` set (hi_messages hist')"
proof -
  let ?ms = "as_values (hi_messages hist')" and ?h = "\<lambda>ms. dset (dset h ''messages'' (VDict ms)) ''currentId'' (hi_current hist')"
  have sk: "sanitize_text_for_db ''history'' = ''history''" "sanitize_text_for_db ''currentId'' = ''currentId''" "sanitize_text_for_db ''messages'' = ''messages''"
    by code_simp+
  have h: "clean_shape h" using history_ofD(1) [OF assms(2)] base_shape(2) [OF assms(1)] by (auto simp: clean_shape_def clean_keys_def)
  have "\<forall>k \<in> fst ` set (hi_messages hist). sanitize_text_for_db k = k"
  proof (cases "hi_messages hist = []")
    case False
    then obtain ms where ms: "vget h ''messages'' = VDict ms" "dkeys (hi_messages hist) = dkeys ms" using history_ofD(2) [OF assms(2)] by blast
    have "h \<noteq> []" using ms(1) by auto
    then have "vget chat ''history'' = VDict h" using history_ofD(1) [OF assms(2)] by blast
    then show ?thesis using base_shape(3) [OF assms(1) _ ms(1)] ms(2) by (metis clean_keys_def list.set_map)
  qed simp
  then have keys: "sanitize_text_for_db ` fst ` set ?ms = fst ` set (hi_messages hist')" using assms(3) by (force simp: as_values_def image_iff)
  have "clean_shape (?h ?ms)" "clean_shape (put_history chat h hist')"
    using h base_shape(1) [OF assms(1)] sk by (simp_all add: put_history_def clean_shape_dset)
  then have "vget (clean_dict (put_history chat h hist')) ''history'' = VDict (clean_dict (?h ?ms))"
    "vget (clean_dict (?h ?ms)) ''messages'' = VDict (clean_dict ?ms)"
    by (simp_all add: vget_clean_shape put_history_def) (simp_all add: clean_dict_def)
  then show ?thesis using keys by (simp add: history_messages_def) (simp add: clean_dict_eq image_image)
qed

text \<open>Deleting a message of a chat, where it is accepted, takes the message out of the history in the JSON of the chat and out of the
  rows: afterwards neither has it, and neither has a message that went with it.\<close>
theorem message_deleted_everywhere:
  assumes "delete_message_from_chat_by_id_and_message_id env i mid db = Some (Some m, db')" "find_chat i db = Some c"
    and "deleted_chat env mid c = Some (Inr (removed, chat, rest))" "removed \<noteq> {}"
  shows "mid \<in> removed \<and> (\<exists>c'. find_chat i db' = Some c' \<and> fst ` set (history_messages (ch_chat c')) = fst ` set rest) \<and>
    fst ` set rest \<inter> removed = {} \<and> (\<forall>r \<in> set (db_messages db'). \<forall>k \<in> removed. cm_chat_id r = i \<longrightarrow> cm_id r \<noteq> composite_id i k)"
proof -
  obtain base h hist hist' where d: "base_chat c = Inr base" "history_of base = Inr (h, hist)"
    "delete_message_from_history hist mid = Some (Inr (removed, hist'))" "chat = put_history base h hist'" "rest = hi_messages hist'"
    using assms(3) by (auto simp: deleted_chat_def rbind_Inr_iff assms(4) split: sum.splits option.splits)
  note k = deleted_keys [OF d(3) assms(4)]
  obtain db1 where up: "update_row env i (with_chat env True chat) db = (Some m, db1)"
    "db' = db1\<lparr>db_messages := delete_message_ids_by_chat_id i removed
       (backfill_messages_by_chat_id (ce_checks env) (ce_now env) i (ch_user_id c) (as_values rest) (db_messages db1))\<rparr>"
    using assms by (auto simp: delete_message_from_chat_by_id_and_message_id_def split: prod.splits option.splits)
  have "find_chat i db1 = Some (with_chat env True chat c)"
    using update_row_Some [OF up(1)] assms(2) by (auto simp: with_chat_def Let_def)
  then have "find_chat i db' = Some (with_chat env True chat c)" using up(2) by (simp add: find_chat_def)
  moreover have "fst ` set (history_messages (ch_chat (with_chat env True chat c))) = fst ` set rest"
    using stored_history_keys [OF d(1, 2), of hist'] k(2) d(4, 5) by (auto simp: with_chat_def Let_def)
  moreover have "\<forall>r \<in> set (db_messages db'). \<forall>k \<in> removed. cm_chat_id r = i \<longrightarrow> cm_id r \<noteq> composite_id i k"
    using up(2) by (auto simp: delete_message_ids_by_chat_id_def)
  ultimately show ?thesis using k d(5) by blast
qed

section \<open>Examples\<close>

declare descend.simps [code]

definition json_message :: "string \<Rightarrow> pyval \<Rightarrow> string list \<Rightarrow> int \<Rightarrow> pyval" where
  "json_message i parent kids t =
     VDict [(''id'', VStr i), (''parentId'', parent), (''childrenIds'', VList (map VStr kids)), (''role'', VStr ''user''), (''timestamp'', VInt t)]"

definition three_messages :: dict where
  "three_messages = [(''a'', json_message ''a'' VNone [''b''] 1), (''b'', json_message ''b'' (VStr ''a'') [''c''] 2), (''c'', json_message ''c'' (VStr ''b'') [] 3)]"

definition three_db :: chat_db where
  "three_db = \<lparr>db_chats = [(list_chat ''x'' 3)\<lparr>ch_chat := [(''title'', VStr ''t''), (''history'', VDict [(''messages'', VDict three_messages), (''currentId'', VStr ''c'')])]\<rparr>],
     db_messages = [], db_tags = [], db_shared = [], db_chat_files = [], db_runs = [], db_chat_grants = \<lparr>db_grants = [], gdb_uuid = 0\<rparr>, db_chat_uuid = 0\<rparr>"

text \<open>Of a conversation of which only the last message has a row the first reading finds the last two, though the JSON has all three.\<close>

definition last_row_db :: chat_db where
  "last_row_db = three_db\<lparr>db_messages := backfill_messages_by_chat_id sample_checks 9 ''x'' ''u'' [hd (rev three_messages)] []\<rparr>"

lemma gap_remains:
  "(case get_messages_map_by_chat_id list_env ''x'' last_row_db of (Inr (Some ms), db) \<Rightarrow> dkeys ms = [''c'', ''b''] \<and> get_unresolved_parent_ids (map (\<lambda>(k, v). (k, dict_value v)) ms) = Inr [''a''] | _ \<Rightarrow> False)"
  by code_simp

definition deletion :: "(string set \<times> dict \<times> messages) result option" where
  "deletion = deleted_chat list_env ''c'' (hd (db_chats three_db))"

lemma deletion_result:
  "case deletion of Some (Inr (removed, chat, rest)) \<Rightarrow> removed = {''c''} \<and> dkeys rest = [''a'', ''b''] | _ \<Rightarrow> False"
  "case delete_message_from_chat_by_id_and_message_id list_env ''x'' ''c'' three_db of Some (Some m, db) \<Rightarrow> True | _ \<Rightarrow> False"
  by code_simp+

lemma message_deleted_everywhere_witness:
  "\<exists>m db' c'. delete_message_from_chat_by_id_and_message_id list_env ''x'' ''c'' three_db = Some (Some m, db') \<and>
     find_chat ''x'' db' = Some c' \<and> fst ` set (history_messages (ch_chat c')) = {''a'', ''b''}"
proof -
  obtain m db' where d: "delete_message_from_chat_by_id_and_message_id list_env ''x'' ''c'' three_db = Some (Some m, db')"
    using deletion_result(2) by (auto split: option.splits prod.splits)
  obtain removed chat rest where r: "deletion = Some (Inr (removed, chat, rest))" "removed = {''c''}" "dkeys rest = [''a'', ''b'']"
    using deletion_result(1) by (auto split: option.splits sum.splits prod.splits)
  have f: "find_chat ''x'' three_db = Some (hd (db_chats three_db))" by (simp add: three_db_def find_chat_def list_chat_def)
  have "fst ` set rest = {''a'', ''b''}" using r(3) by (metis list.set_map list.simps(15) set_empty2 empty_set)
  then show ?thesis
    using message_deleted_everywhere [OF d f r(1) [unfolded deletion_def]] r(2) d by auto
qed

end
