(* ===== verification/ChatRoutes.thy ===== *)
theory ChatRoutes
  imports ChatLists ChatWrites
begin

text \<open>
  The handlers of \<open>backend/open_webui/routers/chats.py\<close> that read or change one chat or all chats of a user. What a handler finds outside the
  tables of chats is in \<open>chat_server\<close>: the users, groups and permissions, the folders, the bound on the recursion over them, and the setting
  that lets administrators read the chats of others. Events and the tasks that are stopped are left out, and so are lists, exports, statistics,
  forks (see \<open>ChatFork\<close>) and the usage of the context that a chat is shown with. Deleting a message may not end, so the result of a
  handler is \<open>None\<close> there.
\<close>

section \<open>Requests and responses\<close>

record chat_server =
  cv_server :: server
  cv_env :: chat_env
  cv_folders :: folder_db
  cv_depth :: nat
  cv_admin_access :: bool

datatype chat_response =
  Chat_shown chat_row
| Chats_shown "chat_row list"
| Chat_pinned "bool option"
| Chat_tags "tag_row list"
| Chat_grants "access_grant list"
| Chat_unread "string option" "(string, nat) pydict"
| Chats_read nat "(string, nat) pydict"
| Chat_done bool

abbreviation shared_chat_type :: string where "shared_chat_type \<equiv> ''shared_chat''"
abbreviation server_error :: py_error where "server_error \<equiv> HTTPException 500 ''DEFAULT''"
abbreviation no_response :: py_error where "no_response \<equiv> ValueError ''ChatResponse''"

definition show_chat :: "py_error \<Rightarrow> chat_row option \<Rightarrow> chat_response result" where
  "show_chat e r = (case r of None \<Rightarrow> Inl e | Some c \<Rightarrow> Inr (Chat_shown c))"

definition verified :: "user \<Rightarrow> bool" where
  "verified u \<longleftrightarrow> u_role u \<in> {''user'', ''admin''}"

definition get_optional_verified_user :: "user \<Rightarrow> user option" where
  "get_optional_verified_user u = (if verified u then Some u else None)"

text \<open>A handler that works on a chat of the user's own, or on any chat for an administrator.\<close>

definition found_chat :: "py_error \<Rightarrow> (chat_row \<Rightarrow> chat_db \<Rightarrow> 'r result \<times> chat_db) \<Rightarrow> chat_row option \<times> chat_db \<Rightarrow> 'r result \<times> chat_db" where
  "found_chat e f r = (case r of (None, db) \<Rightarrow> (Inl e, db) | (Some c, db) \<Rightarrow> f c db)"

definition own_chat :: "chat_server \<Rightarrow> user \<Rightarrow> string \<Rightarrow> chat_db \<Rightarrow> chat_row option \<times> chat_db" where
  "own_chat sv u i db = get_chat_by_id_and_user_id (cv_env sv) i (u_id u) db"

definition managed_chat :: "chat_server \<Rightarrow> user \<Rightarrow> string \<Rightarrow> chat_db \<Rightarrow> chat_row option \<times> chat_db" where
  "managed_chat sv u i db = (if u_role u = ''admin'' then get_chat_by_id (cv_env sv) i db else own_chat sv u i db)"

definition chat_permission :: "chat_server \<Rightarrow> user \<Rightarrow> string \<Rightarrow> bool result" where
  "chat_permission sv u key = user_permission (cv_server sv) u key"

definition require_chat_import_permission :: "chat_server \<Rightarrow> user \<Rightarrow> unit result" where
  "require_chat_import_permission sv u =
     rbind (if u_role u = ''admin'' then Inr True else chat_permission sv u ''chat.import'') (\<lambda>b. if b then Inr () else Inl (HTTPException 403 ''ACCESS_PROHIBITED''))"

definition shared_grant :: "chat_server \<Rightarrow> user \<Rightarrow> string \<Rightarrow> chat_db \<Rightarrow> bool" where
  "shared_grant sv u i db = has_access (sv_groups (cv_server sv)) (u_id u) shared_chat_type i ''read'' None (db_chat_grants db)"

text \<open>A folder that a chat may be put into: none, an own one, or one that the user may write.\<close>

definition check_folder :: "chat_server \<Rightarrow> user \<Rightarrow> string option \<Rightarrow> chat_db \<Rightarrow> unit result" where
  "check_folder sv u folder db =
     (case folder of
        None \<Rightarrow> Inr ()
      | Some f \<Rightarrow>
          if get_folder_by_id_and_user_id f (u_id u) (cv_folders sv) \<noteq> None then Inr ()
          else (case get_folder_by_id f (cv_folders sv) of
                  None \<Rightarrow> Inl not_found
                | Some row \<Rightarrow>
                    rbind (has_folder_access (cv_depth sv) (sv_groups (cv_server sv)) (db_chat_grants db) (cv_folders sv) (u_id u) ''write'' row)
                      (\<lambda>b. if b then Inr () else Inl not_found)))"

section \<open>New chats\<close>

definition next_id :: "chat_db \<Rightarrow> chat_db" where
  "next_id db = db\<lparr>db_chat_uuid := Suc (db_chat_uuid db)\<rparr>"

definition create_new_chat :: "chat_server \<Rightarrow> user \<Rightarrow> chat_form \<Rightarrow> chat_db \<Rightarrow> chat_response result \<times> chat_db" where
  "create_new_chat sv u form db =
     run db (check_folder sv u (fm_folder_id form) db) (\<lambda>_.
       case insert_new_chat (cv_env sv) (ce_uuid (cv_env sv) (db_chat_uuid db)) (u_id u) form None (next_id db) of
         (Inl e, db1) \<Rightarrow> (Inl bad_request, db1) | (Inr c, db1) \<Rightarrow> (Inr (Chat_shown c), db1))"

definition import_chats_route :: "chat_server \<Rightarrow> user \<Rightarrow> chat_import_form list \<Rightarrow> chat_db \<Rightarrow> chat_response result \<times> chat_db" where
  "import_chats_route sv u forms db =
     run db (require_chat_import_permission sv u) (\<lambda>_.
       case import_chats (cv_env sv) (cv_folders sv) (u_id u) forms db of
         (Inl e, db1) \<Rightarrow> (Inl bad_request, db1) | (Inr cs, db1) \<Rightarrow> (Inr (Chats_shown cs), db1))"

text \<open>A copy: the JSON with a new title that names the message it branches from.\<close>

definition clone_form :: "chat_row \<Rightarrow> string \<Rightarrow> chat_import_form result" where
  "clone_form c title =
     rbind (py_getitem (VDict (ch_chat c)) ''history'') (\<lambda>h. rbind (py_getitem h ''currentId'') (\<lambda>current.
       Inr \<lparr>fm_chat = dset (dset (dset (ch_chat c) ''originalChatId'' (VStr (ch_id c))) ''branchPointMessageId'' current) ''title'' (VStr title),
            fm_variables = Some (case ch_variables c of None \<Rightarrow> [] | Some v \<Rightarrow> v), fm_folder_id = ch_folder_id c, im_meta = Some (ch_meta c),
            im_pinned = ch_pinned c, im_current_message_id = None, im_created_at = None, im_updated_at = None\<rparr>))"

definition clone_of :: "chat_row \<Rightarrow> string" where
  "clone_of c = ''Clone of '' @ py_str (ch_title c)"

definition store_clone :: "chat_server \<Rightarrow> user \<Rightarrow> chat_row \<Rightarrow> string \<Rightarrow> chat_db \<Rightarrow> chat_response result \<times> chat_db" where
  "store_clone sv u c title db =
     run db (clone_form c title) (\<lambda>form.
       case import_chats (cv_env sv) (cv_folders sv) (u_id u) [form] db of
         (Inl e, db1) \<Rightarrow> (Inl e, db1)
       | (Inr cs, db1) \<Rightarrow> (case cs of [] \<Rightarrow> Inl server_error | c' # _ \<Rightarrow> Inr (Chat_shown c'), db1))"

definition clone_chat_by_id :: "chat_server \<Rightarrow> user \<Rightarrow> string \<Rightarrow> string option \<Rightarrow> chat_db \<Rightarrow> chat_response result \<times> chat_db" where
  "clone_chat_by_id sv u i title db =
     run db (require_chat_import_permission sv u) (\<lambda>_.
       found_chat unauthorized (\<lambda>c. store_clone sv u c (if given title then the title else clone_of c)) (own_chat sv u i db))"

text \<open>A copy of a snapshot. Here every administrator may read it.\<close>

definition may_clone_shared :: "chat_server \<Rightarrow> user \<Rightarrow> string \<Rightarrow> chat_db \<Rightarrow> bool" where
  "may_clone_shared sv u sid db \<longleftrightarrow>
     (case find_shared sid db of
        None \<Rightarrow> True
      | Some s \<Rightarrow> u_role u = ''admin'' \<or> sh_user_id s = u_id u \<or>
          has_anyone_access shared_chat_type (sh_chat_id s) ''read'' (db_chat_grants db) \<or> shared_grant sv u (sh_chat_id s) db)"

definition clone_shared_chat_by_id :: "chat_server \<Rightarrow> user \<Rightarrow> string \<Rightarrow> chat_db \<Rightarrow> chat_response result \<times> chat_db" where
  "clone_shared_chat_by_id sv u sid db =
     run db (require_chat_import_permission sv u) (\<lambda>_.
       found_chat unauthorized (\<lambda>c db1. if may_clone_shared sv u sid db1 then store_clone sv u c (clone_of c) db1 else (Inl prohibited, db1))
         (case get_chat_by_share_id sid db of
            Some c \<Rightarrow> (Some c, db)
          | None \<Rightarrow> if u_role u = ''admin'' \<and> cv_admin_access sv then get_chat_by_id (cv_env sv) sid db else (None, db)))"

section \<open>Reading a chat\<close>

text \<open>The owner, then an administrator, then somebody with a grant on the chat, then somebody who may read its folder.\<close>

definition admin_candidate :: "chat_server \<Rightarrow> user \<Rightarrow> string \<Rightarrow> chat_row option \<times> chat_db \<Rightarrow> chat_row option \<times> chat_db" where
  "admin_candidate sv u i r =
     (case r of
        (Some c, db) \<Rightarrow> (Some c, db)
      | (None, db) \<Rightarrow>
          if u_role u \<noteq> ''admin'' then (None, db)
          else (case get_chat_by_id (cv_env sv) i db of
                  (None, db1) \<Rightarrow> (None, db1)
                | (Some c, db1) \<Rightarrow> (if cv_admin_access sv \<or> is_internal_chat (ch_meta c) then Some c else None, db1)))"

definition granted_candidate :: "chat_server \<Rightarrow> user \<Rightarrow> string \<Rightarrow> chat_row option \<times> chat_db \<Rightarrow> chat_row option \<times> chat_db" where
  "granted_candidate sv u i r =
     (case r of
        (Some c, db) \<Rightarrow> (Some c, db)
      | (None, db) \<Rightarrow> if shared_grant sv u i db then get_chat_by_id (cv_env sv) i db else (None, db))"

definition folder_readable :: "chat_server \<Rightarrow> user \<Rightarrow> string option \<Rightarrow> chat_db \<Rightarrow> bool result" where
  "folder_readable sv u folder db =
     (if \<not> given folder then Inr False
      else (case get_folder_by_id (the folder) (cv_folders sv) of
              None \<Rightarrow> Inr False
            | Some f \<Rightarrow> has_folder_access (cv_depth sv) (sv_groups (cv_server sv)) (db_chat_grants db) (cv_folders sv) (u_id u) ''read'' f))"

definition folder_candidate :: "chat_server \<Rightarrow> user \<Rightarrow> string \<Rightarrow> chat_row option \<times> chat_db \<Rightarrow> chat_response result \<times> chat_db" where
  "folder_candidate sv u i r =
     (case r of
        (Some c, db) \<Rightarrow> (Inr (Chat_shown c), db)
      | (None, db) \<Rightarrow>
          found_chat unauthorized (\<lambda>c db1. run db1 (folder_readable sv u (ch_folder_id c) db1) (\<lambda>b.
            (if b then Inr (Chat_shown c) else Inl unauthorized, db1))) (get_chat_by_id (cv_env sv) i db))"

definition get_chat_route :: "chat_server \<Rightarrow> user \<Rightarrow> string \<Rightarrow> chat_db \<Rightarrow> chat_response result \<times> chat_db" where
  "get_chat_route sv u i db = folder_candidate sv u i (granted_candidate sv u i (admin_candidate sv u i (own_chat sv u i db)))"

text \<open>A snapshot, by its token, for a user or for somebody who is not signed in.\<close>

definition can_read_shared_chat :: "chat_server \<Rightarrow> user \<Rightarrow> shared_chat \<Rightarrow> chat_db \<Rightarrow> bool" where
  "can_read_shared_chat sv u s db \<longleftrightarrow> u_role u \<noteq> ''pending'' \<and>
     (u_role u = ''admin'' \<and> cv_admin_access sv \<or> sh_user_id s = u_id u \<or> shared_grant sv u (sh_chat_id s) db)"

definition get_shared_chat_by_id :: "chat_server \<Rightarrow> user option \<Rightarrow> string \<Rightarrow> chat_db \<Rightarrow> chat_response result \<times> chat_db" where
  "get_shared_chat_by_id sv u sid db =
     (case find_shared sid db of
        Some s \<Rightarrow>
          if has_anyone_access shared_chat_type (sh_chat_id s) ''read'' (db_chat_grants db) \<or>
             (case u of None \<Rightarrow> False | Some u \<Rightarrow> can_read_shared_chat sv u s db)
          then (show_chat (if u = None then unauthorized else prohibited) (get_chat_by_share_id sid db), db)
          else (Inl (if u = None then unauthorized else prohibited), db)
      | None \<Rightarrow>
          (case u of
             None \<Rightarrow> (Inl unauthorized, db)
           | Some u \<Rightarrow>
               if u_role u = ''admin'' \<and> cv_admin_access sv
               then found_chat unauthorized (\<lambda>c db1. (Inr (Chat_shown c), db1)) (get_chat_by_id (cv_env sv) sid db)
               else (Inl unauthorized, db)))"

section \<open>Changing a chat\<close>

definition history_parts :: "pyval \<Rightarrow> (dict \<times> dict) result" where
  "history_parts v =
     (case py_or v (VDict []) of
        VDict h \<Rightarrow> (case py_or (vget h ''messages'') (VDict []) of VDict ms \<Rightarrow> Inr (h, ms) | _ \<Rightarrow> Inl TypeError)
      | _ \<Rightarrow> Inl AttributeError)"

definition merged_history :: "pyval \<Rightarrow> pyval \<Rightarrow> pyval result" where
  "merged_history existing incoming =
     rbind (history_parts existing) (\<lambda>(h, ms). rbind (history_parts incoming) (\<lambda>(h', ms').
     rbind (merge_history ms (vget h ''currentId'') ms' (vget h' ''currentId'')) (\<lambda>m.
       Inr (VDict (dset (dset (dmerge h h') ''messages'' (VDict (as_values (hi_messages m)))) ''currentId'' (hi_current m))))))"

definition merged_chat :: "dict \<Rightarrow> dict \<Rightarrow> dict result" where
  "merged_chat chat new =
     (if has_key new ''history''
      then rbind (merged_history (vget chat ''history'') (vget new ''history'')) (\<lambda>h. Inr (dset (dmerge chat new) ''history'' h))
      else Inr (dmerge chat new))"

definition reconcile :: "chat_server \<Rightarrow> user \<Rightarrow> string \<Rightarrow> dict \<Rightarrow> chat_db \<Rightarrow> unit result \<times> chat_db" where
  "reconcile sv u i chat db =
     (case py_or (vget chat ''history'') (VDict []) of
        VDict h \<Rightarrow>
          (case vget h ''messages'' of
             VDict ms \<Rightarrow> (Inr (), db\<lparr>db_messages := backfill_messages_by_chat_id (ce_checks (cv_env sv)) (ce_now (cv_env sv)) i (u_id u) ms (db_messages db)\<rparr>)
           | _ \<Rightarrow> (Inr (), db))
      | _ \<Rightarrow> (Inl AttributeError, db))"

definition update_chat_route :: "chat_server \<Rightarrow> user \<Rightarrow> string \<Rightarrow> chat_form \<Rightarrow> chat_db \<Rightarrow> chat_response result \<times> chat_db" where
  "update_chat_route sv u i form db =
     found_chat prohibited (\<lambda>c db1.
       run db1 (merged_chat (ch_chat c) (fm_chat form)) (\<lambda>chat.
         let (r, db2) = update_chat_by_id (cv_env sv) i chat (has_key (fm_chat form) ''history'' \<or> has_key (fm_chat form) ''messages'') db1;
             (r', db3) = (case fm_variables form of
                None \<Rightarrow> (r, db2)
              | Some v \<Rightarrow> (case update_chat_variables_by_id (cv_env sv) i (Some v) False db2 of (None, d) \<Rightarrow> (r, d) | (Some m, d) \<Rightarrow> (Some m, d)));
             (e, db4) = reconcile sv u i chat db3
         in (rbind e (\<lambda>_. show_chat AttributeError r'), db4))) (own_chat sv u i db)"

definition may_write_chat :: "user \<Rightarrow> chat_row \<Rightarrow> bool" where
  "may_write_chat u c \<longleftrightarrow> ch_user_id c = u_id u \<or> u_role u = ''admin''"

definition update_chat_message_by_id :: "chat_server \<Rightarrow> user \<Rightarrow> string \<Rightarrow> string \<Rightarrow> string \<Rightarrow> chat_db \<Rightarrow> chat_response result \<times> chat_db" where
  "update_chat_message_by_id sv u i mid content db =
     found_chat prohibited (\<lambda>c db1.
       if \<not> may_write_chat u c then (Inl prohibited, db1)
       else (case upsert_message_to_chat_by_id_and_message_id (cv_env sv) i mid [(''content'', VStr content)] True db1 of
               (r, db2) \<Rightarrow> (show_chat AttributeError r, db2))) (get_chat_by_id (cv_env sv) i db)"

definition delete_chat_message_by_id :: "chat_server \<Rightarrow> user \<Rightarrow> string \<Rightarrow> string \<Rightarrow> chat_db \<Rightarrow> (chat_response result \<times> chat_db) option" where
  "delete_chat_message_by_id sv u i mid db =
     (case get_chat_by_id (cv_env sv) i db of
        (None, db1) \<Rightarrow> Some (Inl prohibited, db1)
      | (Some c, db1) \<Rightarrow>
          if \<not> may_write_chat u c then Some (Inl prohibited, db1)
          else (case delete_message_from_chat_by_id_and_message_id (cv_env sv) i mid db1 of
                  None \<Rightarrow> None | Some (r, db2) \<Rightarrow> Some (show_chat prohibited r, db2)))"

definition get_pinned_status_by_id :: "chat_server \<Rightarrow> user \<Rightarrow> string \<Rightarrow> chat_db \<Rightarrow> chat_response result \<times> chat_db" where
  "get_pinned_status_by_id sv u i db = found_chat unauthorized (\<lambda>c db1. (Inr (Chat_pinned (ch_pinned c)), db1)) (own_chat sv u i db)"

definition pin_chat_by_id :: "chat_server \<Rightarrow> user \<Rightarrow> string \<Rightarrow> chat_db \<Rightarrow> chat_response result \<times> chat_db" where
  "pin_chat_by_id sv u i db =
     found_chat unauthorized (\<lambda>c db1. case toggle_chat_pinned_by_id (cv_env sv) i db1 of (r, db2) \<Rightarrow> (show_chat AttributeError r, db2)) (own_chat sv u i db)"

definition update_chat_folder_route :: "chat_server \<Rightarrow> user \<Rightarrow> string \<Rightarrow> string option \<Rightarrow> chat_db \<Rightarrow> chat_response result \<times> chat_db" where
  "update_chat_folder_route sv u i folder db =
     found_chat unauthorized (\<lambda>c db1.
       run db1 (check_folder sv u folder db1) (\<lambda>_.
         case update_chat_folder_id_by_id_and_user_id (cv_env sv) i (u_id u) folder db1 of (r, db2) \<Rightarrow> (show_chat no_response r, db2))) (own_chat sv u i db)"

definition folder_unread :: "chat_server \<Rightarrow> user \<Rightarrow> chat_db \<Rightarrow> (string, nat) pydict result" where
  "folder_unread sv u db =
     rbind (get_folders_by_user_id (u_id u) (cv_folders sv)) (\<lambda>fs.
       get_folder_unread_counts (count_unread_by_folder_ids (u_id u) (map f_id fs) db) (u_id u) (cv_folders sv))"

definition mark_chat_unread_route :: "chat_server \<Rightarrow> user \<Rightarrow> string \<Rightarrow> chat_db \<Rightarrow> chat_response result \<times> chat_db" where
  "mark_chat_unread_route sv u i db =
     found_chat not_found (\<lambda>c db1.
       (rbind (folder_unread sv u db1) (\<lambda>counts. Inr (Chat_unread (get_chat_folder_id i (u_id u) db1) counts)), db1))
       (mark_chat_unread_by_id i (u_id u) db)"

definition mark_all_read_route :: "chat_server \<Rightarrow> user \<Rightarrow> chat_db \<Rightarrow> chat_response result \<times> chat_db" where
  "mark_all_read_route sv u db =
     (case mark_chats_read_by_user_id (cv_env sv) (u_id u) db of
        (n, db1) \<Rightarrow> (rbind (folder_unread sv u db1) (\<lambda>counts. Inr (Chats_read n counts)), db1))"

section \<open>Tags\<close>

text \<open>The tags of a chat as texts; nothing is done where there are none.\<close>

definition tag_texts :: "dict \<Rightarrow> string list result" where
  "tag_texts meta =
     (if truthy (meta_tags meta)
      then rbind (py_iter (meta_tags meta)) (\<lambda>xs. case rmap as_text xs of Inl e \<Rightarrow> Inl AttributeError | Inr ts \<Rightarrow> Inr ts) else Inr [])"

definition archive_chat_by_id :: "chat_server \<Rightarrow> user \<Rightarrow> string \<Rightarrow> chat_db \<Rightarrow> chat_response result \<times> chat_db" where
  "archive_chat_by_id sv u i db =
     found_chat unauthorized (\<lambda>c db1.
       found_chat AttributeError (\<lambda>c' db2.
         run db2 (tag_texts (ch_meta c')) (\<lambda>tags.
           if ch_archived c' then (Inr (Chat_shown c'), delete_orphan_tags_for_user (cv_env sv) tags (u_id u) 0 db2)
           else (case ensure_tags_exist tags (u_id u) (db_tags db2) of
                   (r, ts) \<Rightarrow> (rbind r (\<lambda>_. Inr (Chat_shown c')), db2\<lparr>db_tags := ts\<rparr>)))) (toggle_chat_archive_by_id (cv_env sv) i db1))
       (own_chat sv u i db)"

definition tag_rows :: "user \<Rightarrow> chat_row \<Rightarrow> chat_db \<Rightarrow> chat_response result" where
  "tag_rows u c db =
     (case meta_tags (ch_meta c) of VList ids \<Rightarrow> Inr (Chat_tags (get_tags_by_ids_and_user_id ids (u_id u) (db_tags db))) | _ \<Rightarrow> Inl TypeError)"

definition get_chat_tags_by_id :: "chat_server \<Rightarrow> user \<Rightarrow> string \<Rightarrow> chat_db \<Rightarrow> chat_response result \<times> chat_db" where
  "get_chat_tags_by_id sv u i db = found_chat unauthorized (\<lambda>c db1. (tag_rows u c db1, db1)) (own_chat sv u i db)"

definition tags_again :: "chat_server \<Rightarrow> user \<Rightarrow> string \<Rightarrow> chat_db \<Rightarrow> chat_response result \<times> chat_db" where
  "tags_again sv u i db = found_chat AttributeError (\<lambda>c db1. (tag_rows u c db1, db1)) (own_chat sv u i db)"

definition add_tag_by_id_and_tag_name :: "chat_server \<Rightarrow> user \<Rightarrow> string \<Rightarrow> string \<Rightarrow> chat_db \<Rightarrow> chat_response result \<times> chat_db" where
  "add_tag_by_id_and_tag_name sv u i name db =
     found_chat unauthorized (\<lambda>c db1.
       if tag_id_of name = ''none'' then (Inl bad_request, db1)
       else run db1 (py_in (tag_id_of name) (meta_tags (ch_meta c))) (\<lambda>known.
         if known then tags_again sv u i db1
         else (case add_chat_tag_by_id_and_user_id_and_tag_name (cv_env sv) i (u_id u) name db1 of
                 (Inl e, db2) \<Rightarrow> (Inl e, db2) | (Inr _, db2) \<Rightarrow> tags_again sv u i db2))) (own_chat sv u i db)"

definition delete_tag_by_id_and_tag_name :: "chat_server \<Rightarrow> user \<Rightarrow> string \<Rightarrow> string \<Rightarrow> chat_db \<Rightarrow> chat_response result \<times> chat_db" where
  "delete_tag_by_id_and_tag_name sv u i name db =
     found_chat unauthorized (\<lambda>c db1.
       let db2 = snd (delete_tag_by_id_and_user_id_and_tag_name (cv_env sv) i (u_id u) name db1);
           db3 = (if count_chats_by_tag_name_and_user_id (cv_env sv) name (u_id u) db2 = 0
                  then db2\<lparr>db_tags := delete_tag_by_name_and_user_id name (u_id u) (db_tags db2)\<rparr> else db2)
       in tags_again sv u i db3) (own_chat sv u i db)"

section \<open>Sharing\<close>

definition set_chat_grants :: "chat_server \<Rightarrow> string \<Rightarrow> grant_item list \<Rightarrow> chat_db \<Rightarrow> unit result \<times> chat_db" where
  "set_chat_grants sv i gs db =
     (case set_access_grants (sv_uuid (cv_server sv)) (sv_now (cv_server sv)) shared_chat_type i (Some gs) (db_chat_grants db) of
        (r, adb) \<Rightarrow> (rbind r (\<lambda>_. Inr ()), db\<lparr>db_chat_grants := adb\<rparr>))"

definition new_share :: "chat_server \<Rightarrow> user \<Rightarrow> string \<Rightarrow> chat_db \<Rightarrow> chat_response result \<times> chat_db" where
  "new_share sv u i db =
     (case share_create (cv_env sv) i (u_id u) db of
        (Inl e, db1) \<Rightarrow> (Inl e, db1)
      | (Inr None, db1) \<Rightarrow> (Inl server_error, db1)
      | (Inr (Some s), db1) \<Rightarrow>
          (case update_chat_share_id_by_id (cv_env sv) i (Some (sh_id s)) db1 of (r, db2) \<Rightarrow> (show_chat server_error r, db2)))"

definition share_chat_by_id :: "chat_server \<Rightarrow> user \<Rightarrow> string \<Rightarrow> chat_db \<Rightarrow> chat_response result \<times> chat_db" where
  "share_chat_by_id sv u i db =
     run db (if u_role u = ''admin'' then Inr True else chat_permission sv u ''chat.share'') (\<lambda>b.
       if \<not> b then (Inl prohibited, db)
       else found_chat prohibited (\<lambda>c db1.
         if \<not> given (ch_share_id c) then new_share sv u i db1
         else (case share_update (cv_env sv) (the (ch_share_id c)) db1 of
                 (Inl e, db2) \<Rightarrow> (Inl e, db2)
               | (Inr (Some s), db2) \<Rightarrow> (case get_chat_by_id (cv_env sv) i db2 of (r, db3) \<Rightarrow> (show_chat AttributeError r, db3))
               | (Inr None, db2) \<Rightarrow> new_share sv u i db2)) (own_chat sv u i db))"

definition delete_shared_chat_route :: "chat_server \<Rightarrow> user \<Rightarrow> string \<Rightarrow> chat_db \<Rightarrow> chat_response result \<times> chat_db" where
  "delete_shared_chat_route sv u i db =
     found_chat prohibited (\<lambda>c db1.
       let db2 = snd (delete_shared_chat_by_chat_id i db1);
           db3 = (if given (ch_share_id c) then snd (update_chat_share_id_by_id (cv_env sv) i None db2) else db2);
           (r, db4) = set_chat_grants sv i [] db3
       in (rbind r (\<lambda>_. Inr (Chat_done True)), db4)) (own_chat sv u i db)"

text \<open>The snapshots of a user, the latest first; without arguments the first fifty.\<close>

definition shared_of_user :: "string \<Rightarrow> nat option \<Rightarrow> nat option \<Rightarrow> chat_db \<Rightarrow> shared_chat list" where
  "shared_of_user uid skip limit db = page_rows skip limit (order_desc sh_updated_at (filter (\<lambda>s. sh_user_id s = uid) (db_shared db)))"

fun unshare_each :: "chat_server \<Rightarrow> string list \<Rightarrow> chat_db \<Rightarrow> unit result \<times> chat_db" where
  "unshare_each sv [] db = (Inr (), db)"
| "unshare_each sv (i # ids) db =
     (case set_chat_grants sv i [] (snd (update_chat_share_id_by_id (cv_env sv) i None db)) of
        (Inl e, db1) \<Rightarrow> (Inl e, db1) | (Inr _, db1) \<Rightarrow> unshare_each sv ids db1)"

definition unshare_all_chats :: "chat_server \<Rightarrow> user \<Rightarrow> chat_db \<Rightarrow> chat_response result \<times> chat_db" where
  "unshare_all_chats sv u db =
     (case unshare_each sv (map sh_chat_id (shared_of_user (u_id u) (Some 0) (Some 50) db)) (share_delete (\<lambda>s. sh_user_id s = u_id u) db) of
        (r, db1) \<Rightarrow> (rbind r (\<lambda>_. Inr (Chat_done True)), db1))"

definition allowed_chat_grants :: "chat_server \<Rightarrow> user \<Rightarrow> grant_item list \<Rightarrow> grant_item list result" where
  "allowed_chat_grants sv u gs =
     rbind (filter_allowed_access_grants (sv_builtin (cv_server sv)) (sv_groups (cv_server sv)) (sv_permissions (cv_server sv)) (u_id u) (u_role u) gs
              ''sharing.public_chats'' (Some ''sharing.open_chats'')) (\<lambda>(gs', _). Inr gs')"

definition update_shared_chat_access_by_id :: "chat_server \<Rightarrow> user \<Rightarrow> string \<Rightarrow> grant_item list \<Rightarrow> chat_db \<Rightarrow> chat_response result \<times> chat_db" where
  "update_shared_chat_access_by_id sv u i gs db =
     found_chat not_found (\<lambda>c db1.
       run db1 (allowed_chat_grants sv u gs) (\<lambda>gs'.
         case set_chat_grants sv i gs' db1 of (r, db2) \<Rightarrow> (rbind r (\<lambda>_. Inr (Chat_shown c)), db2))) (managed_chat sv u i db)"

definition get_shared_chat_access_by_id :: "chat_server \<Rightarrow> user \<Rightarrow> string \<Rightarrow> chat_db \<Rightarrow> chat_response result \<times> chat_db" where
  "get_shared_chat_access_by_id sv u i db =
     found_chat not_found (\<lambda>c db1. (Inr (Chat_grants (get_grants_by_resource shared_chat_type i (db_chat_grants db1))), db1)) (managed_chat sv u i db)"

section \<open>Deleting\<close>

definition delete_child_chats :: "chat_server \<Rightarrow> chat_row \<Rightarrow> string list \<Rightarrow> chat_db \<Rightarrow> chat_db" where
  "delete_child_chats sv c ids db = fold (\<lambda>k d. snd (delete_chat_by_id_and_user_id (cv_env sv) k (ch_user_id c) d)) ids db"

text \<open>The tags that are cleaned up are those of the user who deletes, not those of the owner.\<close>

definition delete_chat_route :: "chat_server \<Rightarrow> user \<Rightarrow> string \<Rightarrow> chat_db \<Rightarrow> chat_response result \<times> chat_db" where
  "delete_chat_route sv u i db =
     run db (if u_role u = ''admin'' then Inr True else chat_permission sv u ''chat.delete'') (\<lambda>b.
       if \<not> b then (Inl prohibited, db)
       else found_chat not_found (\<lambda>c db1.
         run db1 (tag_texts (ch_meta c)) (\<lambda>tags.
           let db2 = delete_orphan_tags_for_user (cv_env sv) tags (u_id u) 1 db1;
               db3 = delete_child_chats sv c (get_internal_chat_ids_by_parent_id (cv_env sv) i (ch_user_id c) db2) db2;
               (ok, db4) = (if u_role u = ''admin'' then delete_chat_by_id (cv_env sv) i db3
                            else delete_chat_by_id_and_user_id (cv_env sv) i (u_id u) db3)
           in (Inr (Chat_done ok), db4))) (managed_chat sv u i db))"

definition delete_all_user_chats :: "chat_server \<Rightarrow> user \<Rightarrow> chat_db \<Rightarrow> chat_response result \<times> chat_db" where
  "delete_all_user_chats sv u db =
     run db (if u_role u \<noteq> ''user'' then Inr True else chat_permission sv u ''chat.delete'') (\<lambda>b.
       if \<not> b then (Inl prohibited, db)
       else (case delete_chats_by_user_id (cv_env sv) (u_id u) db of (ok, db1) \<Rightarrow> (Inr (Chat_done ok), db1)))"

section \<open>Requests\<close>

datatype chat_request =
  Create_chat chat_form
| Import_chats "chat_import_form list"
| Clone_chat string "string option"
| Clone_shared string
| Read_chat string
| Read_shared string
| Read_open string
| Update_chat string chat_form
| Update_message string string string
| Delete_message string string
| Read_pinned string
| Pin_chat string
| Move_chat string "string option"
| Mark_unread string
| Mark_all_read
| Archive_chat string
| Archive_all
| Unarchive_all
| Read_tags string
| Add_tag string string
| Delete_tag string string
| Share_chat string
| Unshare_chat string
| Unshare_all
| Share_access string "grant_item list"
| Read_access string
| Delete_chat string
| Delete_all

fun route_chat :: "chat_server \<Rightarrow> user \<Rightarrow> chat_request \<Rightarrow> chat_db \<Rightarrow> (chat_response result \<times> chat_db) option" where
  "route_chat sv u (Create_chat form) db = Some (create_new_chat sv u form db)"
| "route_chat sv u (Import_chats forms) db = Some (import_chats_route sv u forms db)"
| "route_chat sv u (Clone_chat i title) db = Some (clone_chat_by_id sv u i title db)"
| "route_chat sv u (Clone_shared sid) db = Some (clone_shared_chat_by_id sv u sid db)"
| "route_chat sv u (Read_chat i) db = Some (get_chat_route sv u i db)"
| "route_chat sv u (Read_shared sid) db = Some (get_shared_chat_by_id sv (get_optional_verified_user u) sid db)"
| "route_chat sv u (Read_open sid) db = Some (get_shared_chat_by_id sv None sid db)"
| "route_chat sv u (Update_chat i form) db = Some (update_chat_route sv u i form db)"
| "route_chat sv u (Update_message i mid content) db = Some (update_chat_message_by_id sv u i mid content db)"
| "route_chat sv u (Delete_message i mid) db = delete_chat_message_by_id sv u i mid db"
| "route_chat sv u (Read_pinned i) db = Some (get_pinned_status_by_id sv u i db)"
| "route_chat sv u (Pin_chat i) db = Some (pin_chat_by_id sv u i db)"
| "route_chat sv u (Move_chat i folder) db = Some (update_chat_folder_route sv u i folder db)"
| "route_chat sv u (Mark_unread i) db = Some (mark_chat_unread_route sv u i db)"
| "route_chat sv u Mark_all_read db = Some (mark_all_read_route sv u db)"
| "route_chat sv u (Archive_chat i) db = Some (archive_chat_by_id sv u i db)"
| "route_chat sv u Archive_all db = Some (Inr (Chat_done True), archive_all_chats_by_user_id (u_id u) db)"
| "route_chat sv u Unarchive_all db = Some (Inr (Chat_done True), unarchive_all_chats_by_user_id (u_id u) db)"
| "route_chat sv u (Read_tags i) db = Some (get_chat_tags_by_id sv u i db)"
| "route_chat sv u (Add_tag i name) db = Some (add_tag_by_id_and_tag_name sv u i name db)"
| "route_chat sv u (Delete_tag i name) db = Some (delete_tag_by_id_and_tag_name sv u i name db)"
| "route_chat sv u (Share_chat i) db = Some (share_chat_by_id sv u i db)"
| "route_chat sv u (Unshare_chat i) db = Some (delete_shared_chat_route sv u i db)"
| "route_chat sv u Unshare_all db = Some (unshare_all_chats sv u db)"
| "route_chat sv u (Share_access i gs) db = Some (update_shared_chat_access_by_id sv u i gs db)"
| "route_chat sv u (Read_access i) db = Some (get_shared_chat_access_by_id sv u i db)"
| "route_chat sv u (Delete_chat i) db = Some (delete_chat_route sv u i db)"
| "route_chat sv u Delete_all db = Some (delete_all_user_chats sv u db)"

text \<open>All handlers but the one of snapshots ask for a verified user.\<close>

definition open_request :: "chat_request \<Rightarrow> bool" where
  "open_request r \<longleftrightarrow> (case r of Read_shared sid \<Rightarrow> True | Read_open sid \<Rightarrow> True | _ \<Rightarrow> False)"

definition handle_chat :: "chat_server \<Rightarrow> user \<Rightarrow> chat_request \<Rightarrow> chat_db \<Rightarrow> (chat_response result \<times> chat_db) option" where
  "handle_chat sv u r db = (if verified u \<or> open_request r then route_chat sv u r db else Some (Inl prohibited, db))"

definition chat_step :: "chat_server \<times> user \<times> chat_request \<Rightarrow> chat_db \<Rightarrow> chat_db" where
  "chat_step q db = (case q of (sv, u, r) \<Rightarrow> (case handle_chat sv u r db of None \<Rightarrow> db | Some (_, db') \<Rightarrow> db'))"

end
