(* ===== verification/ChatGuards.thy ===== *)
theory ChatGuards
  imports ChatRoutes
begin

text \<open>
  Who may change and who may see a chat through the handlers of \<open>ChatRoutes\<close>: first what each operation on the tables keeps (the
  rows stay clean and their ids unique), then a frame lemma for every operation (which chats, grants and messages it leaves alone),
  then one lemma for each handler, and an interpretation of \<open>guarded_requests\<close> (theory \<open>Routes\<close>) on the handlers. The two
  properties at the end follow from it for sequences of requests by any users.
\<close>

section \<open>Clean rows\<close>

lemma dict_from_set: "kv \<in> set (dict_from kvs) \<Longrightarrow> snd kv \<in> snd ` set kvs"
proof -
  have "wf_dict (dict_from kvs)" using wf_dict_dmerge [of "[]" kvs] by (simp add: dict_from_def dmerge_def)
  moreover assume "kv \<in> set (dict_from kvs)"
  ultimately show ?thesis using dict_from_values [of kvs "fst kv" "snd kv"] by (simp add: wf_dict_def)
qed

definition clean_values :: "dict \<Rightarrow> bool" where
  "clean_values d \<longleftrightarrow> (\<forall>kv \<in> set d. sanitize_data_for_db (snd kv) = snd kv)"

lemma values_fixed: "clean_values d \<Longrightarrow> map (\<lambda>kv. (fst kv, sanitize_data_for_db (snd kv))) d = d"
  by (induction d) (auto simp: clean_values_def)

lemma clean_fixed: "clean_shape d \<Longrightarrow> clean_values d \<Longrightarrow> clean_dict d = d"
  by (simp add: clean_shape_def clean_dict_eq foldl_dset_clean values_fixed)

lemma dset_set: "kv \<in> set (dset d k v) \<Longrightarrow> kv = (k, v) \<or> kv \<in> set d"
  by (induction d) (auto split: if_splits)

lemma sanitize_fixed [simp]: "sanitize_data_for_db (sanitize_data_for_db v) = sanitize_data_for_db v"
proof (induction v rule: sanitize_data_for_db.induct)
  case (2 d)
  have "clean_dict (clean_dict d) = clean_dict d"
  proof (rule clean_fixed)
    show "clean_values (clean_dict d)" using 2 dict_from_set unfolding clean_values_def clean_dict_eq by fastforce
  qed simp
  then show ?case by (simp add: clean_dict_def)
qed simp_all

lemma clean_twice [simp]: "clean_dict (clean_dict d) = clean_dict d"
  using sanitize_fixed [of "VDict d"] by (simp add: clean_dict_def)

lemma clean_iff: "clean_dict d = d \<longleftrightarrow> clean_shape d \<and> clean_values d"
proof
  assume c: "clean_dict d = d"
  have "clean_values (clean_dict d)" using dict_from_set unfolding clean_values_def clean_dict_eq by fastforce
  then show "clean_shape d \<and> clean_values d" using c clean_shape_clean [of d] by simp
qed (simp add: clean_fixed)

lemma clean_dset:
  "clean_dict d = d \<Longrightarrow> sanitize_text_for_db k = k \<Longrightarrow> sanitize_data_for_db v = v \<Longrightarrow> clean_dict (dset d k v) = dset d k v"
  unfolding clean_iff by (auto simp: clean_shape_dset clean_values_def dest!: dset_set)

lemma clean_vget: "clean_dict d = d \<Longrightarrow> sanitize_data_for_db (vget d k) = vget d k"
  using vget_clean [of d k] by auto

lemma clean_vget_dict: "clean_dict d = d \<Longrightarrow> vget d k = VDict m \<Longrightarrow> clean_dict m = m"
  using clean_vget [of d k] by (simp add: clean_dict_def)

definition clean_row :: "chat_row \<Rightarrow> bool" where
  "clean_row c \<longleftrightarrow> sanitize_data_for_db (ch_title c) = ch_title c \<and> clean_dict (ch_chat c) = ch_chat c"

lemma clean_title [simp]: "sanitize_data_for_db (chat_title d) = chat_title d"
proof -
  have "sanitize_text_for_db ''New Chat'' = ''New Chat''" by code_simp
  then show ?thesis by (simp add: chat_title_def split: option.split)
qed

section \<open>A chat without its current message\<close>

definition drop_current :: "dict \<Rightarrow> dict" where
  "drop_current chat = (case vget chat ''history'' of VDict h \<Rightarrow> dset chat ''history'' (VDict (dset h ''currentId'' VNone)) | _ \<Rightarrow> chat)"

definition core :: "chat_row \<Rightarrow> chat_row" where
  "core c = c\<lparr>ch_chat := drop_current (ch_chat c)\<rparr>"


lemma repaired_clean:
  assumes "repaired_chat chat = Inr chat'" "clean_dict chat = chat"
  shows "clean_dict chat' = chat' \<and> drop_current chat' = drop_current chat"
proof (cases "chat' = chat")
  case False
  have sk: "sanitize_text_for_db ''history'' = ''history''" "sanitize_text_for_db ''currentId'' = ''currentId''" by code_simp+
  obtain h ms k where h: "vget chat ''history'' = VDict h" "vget h ''messages'' = VDict ms"
    "repair_chat_current_id ms (vget h ''currentId'') = Inr (Some k)" "chat' = dset chat ''history'' (VDict (dset h ''currentId'' (VStr k)))"
    using assms(1) False by (auto simp: repaired_chat_def rbind_Inr_iff split: pyval.splits option.splits)
  have c: "clean_dict h = h" "clean_dict ms = ms" using clean_vget_dict [OF assms(2) h(1)] clean_vget_dict [OF _ h(2)] by auto
  obtain m where "(k, VDict m) \<in> set ms" using repair_picks_latest_leaf [OF h(3)] by (auto simp: timed_leaves_def)
  then have "sanitize_text_for_db k = k" using c(2) unfolding clean_iff by (force simp: clean_shape_def clean_keys_def)
  then have "clean_dict (dset h ''currentId'' (VStr k)) = dset h ''currentId'' (VStr k)" using c(1) sk by (intro clean_dset) simp_all
  then have "sanitize_data_for_db (VDict (dset h ''currentId'' (VStr k))) = VDict (dset h ''currentId'' (VStr k))" by (simp add: clean_dict_def)
  then have "clean_dict chat' = chat'" using assms(2) sk h(4) by (intro clean_dset | simp)+
  moreover have "drop_current chat' = drop_current chat" using h by (simp add: drop_current_def)
  ultimately show ?thesis by simp
qed (use assms in simp)

lemma loaded_clean:
  assumes "loaded_chat c = Inr c'" "clean_row c"
  shows "clean_row c'" "core c' = core c"
proof -
  obtain chat where r: "repaired_chat (ch_chat c) = Inr chat" "c' = sanitize_chat_row (c\<lparr>ch_chat := chat\<rparr>)"
    using assms(1) by (auto simp: loaded_chat_def rbind_Inr_iff)
  have "clean_dict chat = chat \<and> drop_current chat = drop_current (ch_chat c)"
    using repaired_clean [OF r(1)] assms(2) by (simp add: clean_row_def)
  then show "clean_row c'" "core c' = core c" using r(2) assms(2) by (auto simp: clean_row_def core_def sanitize_chat_row_def)
qed


section \<open>Tables in order, and all there is of one chat\<close>

definition row_in_order :: "message_row \<Rightarrow> bool" where
  "row_in_order m \<longleftrightarrow> length (cm_chat_id m) = 36 \<and> (\<exists>mid. cm_id m = composite_id (cm_chat_id m) mid)"

definition owner_in :: "chat_row list \<Rightarrow> shared_chat \<Rightarrow> bool" where
  "owner_in cs s \<longleftrightarrow> (\<exists>c \<in> set cs. ch_id c = sh_chat_id s \<and> ch_user_id c = sh_user_id s)"

definition chat_wf :: "chat_db \<Rightarrow> bool" where
  "chat_wf db \<longleftrightarrow> distinct (map ch_id (db_chats db)) \<and> (\<forall>c \<in> set (db_chats db). clean_row c \<and> length (ch_id c) = 36) \<and>
     (\<forall>s \<in> set (db_shared db). owner_in (db_chats db) s) \<and> (\<forall>m \<in> set (db_messages db). row_in_order m)"

definition chat_view :: "string \<Rightarrow> chat_db \<Rightarrow> chat_row option \<times> access_grant list \<times> message_row list" where
  "chat_view i db = (map_option core (find_chat i db), get_grants_by_resource shared_chat_type i (db_chat_grants db), messages_of_chat i (db_messages db))"

text \<open>A step keeps the tables in order and every chat outside a set as it is.\<close>

definition keeps :: "string set \<Rightarrow> chat_db \<Rightarrow> chat_db \<Rightarrow> bool" where
  "keeps I db db' \<longleftrightarrow> (chat_wf db \<longrightarrow> chat_wf db' \<and> (\<forall>i. i \<notin> I \<longrightarrow> find_chat i db \<noteq> None \<longrightarrow> chat_view i db' = chat_view i db))"

lemma keeps_refl [simp, intro]: "keeps I db db"
  by (simp add: keeps_def)

lemma keeps_mono: "keeps I db db' \<Longrightarrow> I \<subseteq> J \<Longrightarrow> keeps J db db'"
  by (auto simp: keeps_def)





subsection \<open>Rows of chats\<close>


lemma find_map_ids:
  "(\<And>c. c \<in> set cs \<Longrightarrow> ch_id (f c) = ch_id c) \<Longrightarrow>
     List.find (\<lambda>c. ch_id c = i) (map f cs) = map_option f (List.find (\<lambda>c. ch_id c = i) cs)"
  by (induction cs) auto

lemma owner_in_map: "(\<And>c. c \<in> set cs \<Longrightarrow> ch_id (f c) = ch_id c \<and> ch_user_id (f c) = ch_user_id c) \<Longrightarrow> owner_in (map f cs) s = owner_in cs s"
  by (auto simp: owner_in_def)

lemma keeps_change:
  assumes "\<And>c. chat_wf db \<Longrightarrow> c \<in> set (db_chats db) \<Longrightarrow> P c \<Longrightarrow>
    ch_id (f c) = ch_id c \<and> ch_user_id (f c) = ch_user_id c \<and> clean_row (f c) \<and> ch_id c \<in> I"
  shows "keeps I db (change_chats P f db)"
proof -
  define g where "g c = (if P c then f c else c)" for c
  have db': "change_chats P f db = db\<lparr>db_chats := map g (db_chats db)\<rparr>" by (simp add: change_chats_def g_def)
  have "chat_wf (change_chats P f db) \<and> (\<forall>i. i \<notin> I \<longrightarrow> chat_view i (change_chats P f db) = chat_view i db)" if wf: "chat_wf db"
  proof
    have g: "ch_id (g c) = ch_id c" "ch_user_id (g c) = ch_user_id c" "clean_row (g c)" if "c \<in> set (db_chats db)" for c
      using assms [OF wf that] wf that by (auto simp: g_def chat_wf_def)
    have ids: "map (ch_id \<circ> g) (db_chats db) = map ch_id (db_chats db)" using g(1) by simp
    have "owner_in (map g (db_chats db)) s = owner_in (db_chats db) s" for s by (rule owner_in_map) (simp add: g(1, 2))
    moreover have "\<forall>c \<in> set (map g (db_chats db)). clean_row c \<and> length (ch_id c) = 36" using g wf by (auto simp: chat_wf_def)
    ultimately show "chat_wf (change_chats P f db)" using wf by (simp add: chat_wf_def db' ids)
    show "\<forall>i. i \<notin> I \<longrightarrow> chat_view i (change_chats P f db) = chat_view i db"
    proof (intro allI impI)
      fix i assume i: "i \<notin> I"
      have "map_option g (List.find (\<lambda>c. ch_id c = i) (db_chats db)) = List.find (\<lambda>c. ch_id c = i) (db_chats db)"
        using assms [OF wf] i by (cases "List.find (\<lambda>c. ch_id c = i) (db_chats db)") (auto simp: g_def dest!: find_SomeD)
      then show "chat_view i (change_chats P f db) = chat_view i db"
        using find_map_ids [of "db_chats db" g i, OF g(1)] by (simp add: chat_view_def find_chat_def db')
    qed
  qed
  then show ?thesis by (simp add: keeps_def)
qed

lemma put_is_change: "put_chat c db = change_chats (\<lambda>q. ch_id q = ch_id c) (\<lambda>q. c) db"
  by (simp add: put_chat_def change_chats_def)

lemma find_unique: "distinct (map ch_id cs) \<Longrightarrow> q \<in> set cs \<Longrightarrow> List.find (\<lambda>c. ch_id c = ch_id q) cs = Some q"
  by (induction cs) (auto simp: image_iff)

lemma unique_chat: "chat_wf db \<Longrightarrow> q \<in> set (db_chats db) \<Longrightarrow> find_chat (ch_id q) db = Some q"
  by (simp add: chat_wf_def find_chat_def find_unique)

lemma keeps_put:
  assumes "find_chat i db = Some c" "ch_id c' = ch_id c" "ch_user_id c' = ch_user_id c" "clean_row c \<Longrightarrow> clean_row c'"
  shows "keeps {i} db (put_chat c' db)"
  unfolding put_is_change
proof (rule keeps_change)
  fix q assume wf: "chat_wf db" and q: "q \<in> set (db_chats db)" "ch_id q = ch_id c'"
  have "ch_id c = i" using find_chatD [OF assms(1)] by simp
  then have "q = c" using unique_chat [OF wf q(1)] q(2) assms(1, 2) by simp
  then show "ch_id c' = ch_id q \<and> ch_user_id c' = ch_user_id q \<and> clean_row c' \<and> ch_id q \<in> {i}"
    using assms q \<open>ch_id c = i\<close> wf by (auto simp: chat_wf_def)
qed


text \<open>Loading a chat changes no more than its current message.\<close>

lemma keeps_load:
  assumes "find_chat i db = Some c"
  shows "keeps {} db (snd (load_chat env (Some c) db))"
proof -
  have k: "keeps {} db (put_chat c' db)" if l: "loaded_chat c = Inr c'" for c'
  proof -
    have s: "ch_id c' = ch_id c" "ch_user_id c' = ch_user_id c" using l by (auto simp: loaded_chat_def rbind_Inr_iff sanitize_chat_row_def)
    have i: "ch_id c = i" using find_chatD [OF assms] by simp
    have "keeps {i} db (put_chat c' db)" using loaded_clean(1) [OF l] by (intro keeps_put [OF assms] s) auto
    moreover have "chat_view i (put_chat c' db) = chat_view i db" if wf: "chat_wf db"
    proof -
      have "clean_row c" using wf find_chatD [OF assms] by (auto simp: chat_wf_def)
      moreover have "find_chat i (put_chat c' db) = Some c'" using find_put_chat [of c' db] s(1) i assms by simp
      ultimately show ?thesis using assms loaded_clean(2) [OF l] by (simp add: chat_view_def put_chat_def)
    qed
    ultimately show ?thesis by (auto simp: keeps_def)
  qed
  show ?thesis
  proof (cases "loaded_chat c")
    case (Inr c')
    have "ch_id c = i" using find_chatD [OF assms] by simp
    then show ?thesis using k [OF Inr] Inr assms by (auto simp: load_chat_def update_row_def)
  qed (simp add: load_chat_def)
qed


lemma owned_chatD: "owned_chat i uid db = Some c \<Longrightarrow> find_chat i db = Some c \<and> ch_user_id c = uid"
  by (auto simp: owned_chat_def split: option.splits if_splits)

lemma keeps_get_own [simp, intro]: "keeps I db (snd (get_chat_by_id_and_user_id env i uid db))"
  using keeps_load [of i db] keeps_mono [of "{}"] owned_chatD [of i uid db]
  by (cases "owned_chat i uid db") (auto simp: get_chat_by_id_and_user_id_def load_chat_def)

subsection \<open>Rows of messages\<close>

definition messages_keep :: "string set \<Rightarrow> message_row list \<Rightarrow> message_row list \<Rightarrow> bool" where
  "messages_keep J rows rows' \<longleftrightarrow> ((\<forall>m \<in> set rows. row_in_order m) \<longrightarrow>
     (\<forall>m \<in> set rows'. row_in_order m) \<and> (\<forall>i. i \<notin> J \<longrightarrow> messages_of_chat i rows' = messages_of_chat i rows))"

lemma messages_keep_refl [simp, intro]: "messages_keep J rows rows"
  by (simp add: messages_keep_def)











subsection \<open>New chats\<close>







subsection \<open>Deleted chats\<close>





subsection \<open>Grants and snapshots\<close>








section \<open>Handlers\<close>





lemma keeps_pair: "keeps I db db' \<Longrightarrow> keeps I db (snd (r, db'))"
  by simp








subsection \<open>New chats and copies\<close>







subsection \<open>Reading\<close>






subsection \<open>Changes\<close>














































section \<open>Who may change a chat\<close>











section \<open>Who sees a chat\<close>

fun rows_shown :: "chat_response \<Rightarrow> chat_row list" where
  "rows_shown (Chat_shown m) = [m]"
| "rows_shown (Chats_shown ms) = ms"
| "rows_shown _ = []"


lemma show_Inr: "show_chat e r = Inr x \<Longrightarrow> \<exists>m. r = Some m \<and> x = Chat_shown m"
  by (auto simp: show_chat_def split: option.splits)

lemma show_row_id:
  assumes "show_chat e (fst (update_row env i f db)) = Inr x" "\<And>c. ch_id (f c) = ch_id c" "m \<in> set (rows_shown x)"
  shows "ch_id m = i"
proof -
  obtain m' db1 where u: "update_row env i f db = (Some m', db1)" "m = m'"
    using show_Inr [OF assms(1)] assms(3) by (cases "update_row env i f db") auto
  obtain c where "find_chat i db = Some c" "m' = chat_model (f c)" using update_row_Some [OF u(1) assms(2)] by blast
  then show ?thesis using u(2) assms(2) find_chatD [of i db c] by (simp add: chat_model_def)
qed



















lemma case_snd: "(case x of (r, d) \<Rightarrow> (f r d, d)) = (y, db') \<Longrightarrow> f (fst x) (snd x) = y"
  by (auto split: prod.splits)





























section \<open>Two claims about all requests\<close>














end
