(* ===== verification/Spec2Isabelle.thy ===== *)
theory Spec2Isabelle
  imports Permissions Folders HostFilter ChatHistory RateLimit SocketState Documents Tasks Compaction ChatFork AnthropicStream Settings Knowledge ResponsesStream TagStream OllamaChat PromptRoutes Notes ChatVariables Files KnowledgePaths ChatLists ChatGuards
begin

text \<open>
  A verification library for the server of Open WebUI, a web application in Python that puts a chat interface before providers of
  language models (\<open>backend/open_webui\<close>; all paths below are relative to it).

  \<^bold>\<open>The program.\<close> The server has four layers. \<open>models/\<close> holds one class per table with its queries (\<open>SQLAlchemy\<close>). \<open>utils/\<close> holds what
  several requests share: permissions, the conversion of messages and of streams between the formats of the providers, limits.
  \<open>routers/\<close> holds the HTTP handlers (\<open>FastAPI\<close>), which check a request against the permissions and then call the tables; a chat
  request passes through \<open>utils/middleware.py\<close>, which prepares the messages, calls the provider and turns the stream that comes back
  into items. \<open>socket/\<close> holds the websocket server with the state that processes share through Redis, and \<open>tasks.py\<close> the background
  tasks.

  \<^bold>\<open>Foundations.\<close>
  \<^item> \<open>Prelude\<close>: dictionaries of Python as association lists in insertion order (\<open>pydict\<close>), values of JSON with integers for numbers
    (\<open>pyval\<close>), truth values, strings, stable sorting, \<open>OFFSET\<close> and \<open>LIMIT\<close>; errors as the left side of a sum (\<open>result\<close>, \<open>rbind\<close>, \<open>rmap\<close>), so that
    every exception and early return is a branch. \<open>py_eval\<close> and \<open>dict_wf\<close> collect the rules component proofs evaluate with.
  \<^item> \<open>PyText\<close>: \<open>str\<close>, \<open>repr\<close>, \<open>json.dumps\<close>, \<open>str.split\<close>, \<open>str.replace\<close> and the equality of values.
  \<^item> \<open>Tables\<close>: the locale \<open>unique_table\<close>, a table with a primary key and a unique constraint, interpreted for users, groups, members
    and grants.
  \<^item> \<open>Redis\<close>: the locale \<open>redis\<close> with the documented laws of the commands the server calls, interpreted on a store that computes.
  \<^item> \<open>Routes\<close>: the locale \<open>guarded_requests\<close>, a router whose handlers check before they change; interpreted for prompts, notes and
    chats.

  \<^bold>\<open>Who may do what.\<close>
  \<^item> \<open>UserGroups\<close> (\<open>models/groups.py\<close>) and \<open>Users\<close> (\<open>models/users.py\<close>): the rows and every operation; ids and memberships stay unique
    in every reachable state, and synchronising group names is exact.
  \<^item> \<open>AccessGrants\<close> (\<open>models/access_grants.py\<close>): storing, checking and querying grants; the query filter is equivalent to the single
    check.
  \<^item> \<open>Permissions\<close> (\<open>utils/access_control/__init__.py\<close>): the dictionaries of permissions against the path a key
    names in each source, the filter on grants a user submits, access to
    a model along its base models (locale \<open>access_check\<close>).
  \<^item> \<open>HostFilter\<close> (\<open>utils/misc.py\<close>): allow and block lists of hosts. \<open>RateLimit\<close> (\<open>utils/rate_limit.py\<close>): the counters in the process
    refine a log of all events, and a key that keeps quiet is accepted again.

  \<^bold>\<open>Trees of things.\<close>
  \<^item> \<open>Folders\<close> (\<open>models/folders.py\<close>, \<open>utils/access_control/folders.py\<close>, the move handler of \<open>routers/folders.py\<close>): the work list over a
    subtree, deletion, inherited access, and the cycle that a move can create.
  \<^item> \<open>Knowledge\<close> (\<open>models/knowledge.py\<close>): knowledge bases, their files and directories with the referential actions of the database;
    reachable states are forests.
  \<^item> \<open>Files\<close> (\<open>models/files.py\<close>): uploaded files and the search by a glob.
  \<^item> \<open>KnowledgeSearch\<close> (\<open>models/knowledge.py\<close>, \<open>models/files.py\<close>): the queries that join knowledge bases, files and users, page by page.
  \<^item> \<open>Shell\<close>, \<open>KnowledgeFS\<close> and \<open>KnowledgePaths\<close> (\<open>tools/knowledge_fs.py\<close>): the command line a model may use on the knowledge bases it
    was given. \<open>Shell\<close> has the parsing of commands and the formatting of answers, \<open>KnowledgeFS\<close> every command and their pipelines, with
    the proof that an answer depends only on what the caller may read, and \<open>KnowledgePaths\<close> that the paths of \<open>models/knowledge.py\<close> and those of
    this file agree.
  \<^item> \<open>ChatHistory\<close> (\<open>models/chats.py\<close>) and \<open>ChatFork\<close> (\<open>utils/chat_fork.py\<close>): the message tree in a chat under merging, deletion, writing and
    forking.

  \<^bold>\<open>Chats.\<close> A chat is kept twice: its row holds a JSON value with the history, and each message has a row of its own.
  \<^item> \<open>ChatMessages\<close> (\<open>models/chat_messages.py\<close>): the rows of messages, the history they are read back as, counts and sums of tokens.
  \<^item> \<open>Chats\<close> (\<open>models/chats.py\<close>, \<open>models/tags.py\<close>, \<open>models/shared_chats.py\<close>): the rows of chats, tags and snapshots and the operations that
    change them; loading a chat repairs its stored value.
  \<^item> \<open>ChatWrites\<close> (\<open>models/chats.py\<close>): writing and deleting single messages, in the history of a chat and in the rows of messages.
  \<^item> \<open>ChatLists\<close> (\<open>models/chats.py\<close>): the lists, pages, counts and the search; pages divide a list.
  \<^item> \<open>ChatRoutes\<close> (\<open>routers/chats.py\<close>): the handlers for one chat or all chats of a user. \<open>ChatGuards\<close>: what each of them leaves alone, and
    from it who can change and who can see a chat.

  \<^bold>\<open>Things with versions and owners.\<close>
  \<^item> \<open>Prompts\<close> (\<open>models/prompts.py\<close>, \<open>models/prompt_history.py\<close>) and \<open>PromptRoutes\<close> (\<open>routers/prompts.py\<close>): tables, handlers, the order in which
    paths are matched; invariants of the tables, authorised changes and responses, restored versions.
  \<^item> \<open>Notes\<close> (\<open>models/notes.py\<close>, \<open>routers/notes.py\<close>): the same for notes.
  \<^item> \<open>ChatVariables\<close> (\<open>utils/chat_variables.py\<close>): the variables a prompt declares, their validation and rendering.
  \<^item> \<open>Settings\<close> (\<open>models/config.py\<close> and the migration to one row per key): reads after writes, and the repair of flattened settings where
    their keys are unknown to the migration.

  \<^bold>\<open>A chat request and its stream.\<close>
  \<^item> \<open>Messages\<close> (\<open>utils/misc.py\<close>): the conversation up to a message, the reconciliation of tool calls with answers, and the messages that
    the stored turns of an answer are converted to.
  \<^item> \<open>Compaction\<close> (\<open>utils/context_compaction.py\<close>, \<open>utils/chat_id.py\<close>, part of \<open>utils/task.py\<close>): when a conversation is summarised and what is sent.
  \<^item> \<open>ResponsesStream\<close> and \<open>TagStream\<close> (\<open>utils/middleware.py\<close>): events of the Responses API, and tags in streamed text, become output
    items; the protocol of the events, with those the code passes over, is a datatype of its own.
  \<^item> \<open>Usage\<close> and \<open>OllamaChat\<close> (\<open>utils/response.py\<close>, templates of \<open>utils/misc.py\<close>): token counts, and the answers of Ollama in OpenAI's format.
  \<^item> \<open>AnthropicStream\<close> (\<open>utils/anthropic.py\<close>): a stream in OpenAI's format as events of Anthropic's protocol.

  \<^bold>\<open>State of the processes.\<close>
  \<^item> \<open>SocketState\<close> and \<open>Documents\<close> (\<open>socket/utils.py\<close>, part of \<open>socket/main.py\<close>): dictionaries in Redis, and collaborative documents, whose two
    backends refine one another.
  \<^item> \<open>Tasks\<close> (\<open>tasks.py\<close>): tasks of a process and of an item.

  \<^bold>\<open>How a component is built.\<close> A table is a list of records in the order of insertion, and a database a record of tables. An operation
  takes the database and returns its result with the new database; a method that catches its exceptions returns what the handler
  returns. Each theory gives rows, operations in the order of the code, then the lemmas on them, and last the properties, each with a
  witness that applies it to a concrete state. Invariants are stated for every state reachable by the operations, as an inductive
  predicate with one rule per operation, or as a fold over a sequence of requests.

  \<^bold>\<open>Arguments.\<close> What is not in the repository is an argument of the definitions that use it: \<open>uuid\<close> and \<open>fresh\<close> (the \<open>n\<close>-th generated
  id; that ids differ is a hypothesis where a property needs it), \<open>now\<close> (the clock at the operation), \<open>ilike\<close>, \<open>like\<close> and \<open>eq\<close> (text
  comparisons of the database), \<open>fk\<close> (whether it enforces references), \<open>tracked\<close> (whether the ORM notices a change in place), the
  commands of Redis, \<open>loads\<close> (\<open>json.loads\<close>), \<open>merge\<close> (the merge of document updates), \<open>generate\<close> (a model's answer), \<open>rate\<close> (a float
  division), \<open>unified_diff\<close>, \<open>lower_sql\<close> and \<open>json_text\<close>; the record \<open>sql\<close> of a database's text functions; the record \<open>fs_config\<close> of what
  \<open>tools/knowledge_fs.py\<close> takes from outside (regular expressions, the clock, limits, the glyphs of its trees). For chats, the records
  \<open>message_checks\<close> and \<open>chat_env\<close> hold which rows the database stores and its readings of JSON values, with the generated ids and the
  clock, \<open>count_sql\<close> and \<open>list_sql\<close> the functions of its queries, and \<open>chat_server\<close> what a handler finds in the other tables and settings.

  \<^bold>\<open>Bounds and fuel.\<close> Loops over lists and trees are structural, or are \<open>function\<close>s with a measure where the code remembers what it has
  seen. A loop that may not end is \<open>partial_function (option)\<close>, and that it returns is a property (\<open>subtree_ids_exact\<close>), as is that it
  need not (\<open>move_below_itself_diverges\<close>); the handler that deletes a message returns an option for the same reason. Recursive methods
  take \<open>depth\<close>, the recursion limit of Python, and return \<open>RecursionError\<close> when it is spent; properties state how much is enough, never more than the number of rows. Integers of Python are unbounded and are \<open>int\<close>;
  lengths and offsets are \<open>nat\<close>.

  \<^bold>\<open>Assumptions.\<close> Operations run one after the other: a method's session is not shared, so each commit is visible to the next, and two
  requests do not interleave inside a method. Done callbacks of tasks run in the order in which tasks end. \<open>FastAPI\<close> takes the first path
  that matches; \<open>pydantic\<close> counts a field as set when it was sent or assigned. Strings are lists of the 256 characters of \<open>char\<close>.

  \<^bold>\<open>Not modelled.\<close> Clients of services and third-party packages (providers, vector stores, loaders, object storage, telemetry), password
  hashing, tokens and the OAuth flows, loading of user code, the parts of \<open>utils/middleware.py\<close> that only pass data between these, queries
  that use the JSON operators of a dialect, delivery of events, floats, the counts of chats by
  day and hour, the handlers that list, search, export or compact chats, and the browser and desktop clients. The remaining tables and
  routers (channels, calendars, automations, skills, models, feedback) follow the pattern of prompts and notes and come next.
\<close>

end
